(* ===== verification/Prelude.thy ===== *)
theory Prelude
  imports Main "HOL-Library.Sublist" "HOL-Library.Word"
begin

text \<open>
  Shared material of the development: the part of Rust's standard library that the modelled code
  uses on strings and lists, written out as executable functions, and the generic lemmas the
  components share.

  Texts are HOL strings (lists of characters).  The model is meant for texts over the 7-bit ASCII
  range, where a Rust \<^verbatim>\<open>char\<close> is one byte, byte offsets and character offsets coincide,
  \<^verbatim>\<open>char::is_whitespace\<close> holds exactly of U+0009..U+000D and U+0020, and
  \<^verbatim>\<open>to_lowercase\<close> changes exactly \<^verbatim>\<open>A..Z\<close>.  Unicode beyond that range is not modelled.
\<close>

named_theorems rust_str \<open>characteristic equations of the string functions\<close>
named_theorems decision_simps \<open>unfolding rules for the decision procedures of the security components\<close>

type_synonym str = string

subsection \<open>Characters\<close>

definition is_whitespace :: "char \<Rightarrow> bool" where
  "is_whitespace c \<longleftrightarrow> c \<in> {CHR 0x09, CHR 0x0A, CHR 0x0B, CHR 0x0C, CHR 0x0D, CHR '' ''}"

definition to_lower_char :: "char \<Rightarrow> char" where
  "to_lower_char c =
     (if 65 \<le> (of_char c :: nat) \<and> (of_char c :: nat) \<le> 90
      then char_of ((of_char c :: nat) + 32) else c)"

definition to_upper_char :: "char \<Rightarrow> char" where
  "to_upper_char c =
     (if 97 \<le> (of_char c :: nat) \<and> (of_char c :: nat) \<le> 122
      then char_of ((of_char c :: nat) - 32) else c)"

definition is_ascii_alphabetic :: "char \<Rightarrow> bool" where
  "is_ascii_alphabetic c \<longleftrightarrow>
     (65 \<le> (of_char c :: nat) \<and> (of_char c :: nat) \<le> 90) \<or>
     (97 \<le> (of_char c :: nat) \<and> (of_char c :: nat) \<le> 122)"

definition is_ascii_digit :: "char \<Rightarrow> bool" where
  "is_ascii_digit c \<longleftrightarrow> 48 \<le> (of_char c :: nat) \<and> (of_char c :: nat) \<le> 57"

definition is_ascii_alphanumeric :: "char \<Rightarrow> bool" where
  "is_ascii_alphanumeric c \<longleftrightarrow> is_ascii_alphabetic c \<or> is_ascii_digit c"

abbreviation LF :: char where "LF \<equiv> CHR 0x0A"
abbreviation CR :: char where "CR \<equiv> CHR 0x0D"
abbreviation NUL :: char where "NUL \<equiv> CHR 0x00"
abbreviation DQUOTE :: char where "DQUOTE \<equiv> CHR 0x22"
abbreviation SQUOTE :: char where "SQUOTE \<equiv> CHR 0x27"
abbreviation BACKTICK :: char where "BACKTICK \<equiv> CHR 0x60"
abbreviation BSLASH :: char where "BSLASH \<equiv> CHR 0x5C"

subsection \<open>String functions of the standard library\<close>

definition to_lowercase :: "str \<Rightarrow> str" where
  "to_lowercase s = map to_lower_char s"

definition to_uppercase :: "str \<Rightarrow> str" where
  "to_uppercase s = map to_upper_char s"

definition trim_start :: "str \<Rightarrow> str" where
  "trim_start s = dropWhile is_whitespace s"

definition trim_end :: "str \<Rightarrow> str" where
  "trim_end s = rev (dropWhile is_whitespace (rev s))"

definition trim :: "str \<Rightarrow> str" where
  "trim s = trim_end (trim_start s)"

text \<open>\<^verbatim>\<open>str::split(c)\<close>: the pieces between the separators, at least one.\<close>

fun split_on :: "char \<Rightarrow> str \<Rightarrow> str list" where
  "split_on c [] = [[]]"
| "split_on c (x # xs) =
     (if x = c then [] # split_on c xs
      else (case split_on c xs of [] \<Rightarrow> [[x]] | w # ws \<Rightarrow> (x # w) # ws))"

text \<open>\<^verbatim>\<open>str::split_whitespace\<close>: the maximal runs of non-whitespace.\<close>

fun split_ws :: "str \<Rightarrow> str \<Rightarrow> str list" where
  "split_ws cur [] = (if cur = [] then [] else [rev cur])"
| "split_ws cur (x # xs) =
     (if is_whitespace x
      then (if cur = [] then split_ws [] xs else rev cur # split_ws [] xs)
      else split_ws (x # cur) xs)"

definition split_whitespace :: "str \<Rightarrow> str list" where
  "split_whitespace s = split_ws [] s"

fun join :: "str \<Rightarrow> str list \<Rightarrow> str" where
  "join sep [] = []"
| "join sep [w] = w"
| "join sep (w # v # ws) = w @ sep @ join sep (v # ws)"

definition replace_char :: "char \<Rightarrow> str \<Rightarrow> str \<Rightarrow> str" where
  "replace_char c r s = concat (map (\<lambda>x. if x = c then r else [x]) s)"

text \<open>\<^verbatim>\<open>str::find\<close>: the offset of the first occurrence.\<close>

fun find_str :: "str \<Rightarrow> str \<Rightarrow> nat option" where
  "find_str p [] = (if p = [] then Some 0 else None)"
| "find_str p (x # xs) =
     (if prefix p (x # xs) then Some 0 else map_option Suc (find_str p xs))"

definition contains_str :: "str \<Rightarrow> str \<Rightarrow> bool" where
  "contains_str s p \<longleftrightarrow> find_str p s \<noteq> None"

definition strip_prefix :: "str \<Rightarrow> str \<Rightarrow> str option" where
  "strip_prefix p s = (if prefix p s then Some (drop (length p) s) else None)"

definition strip_suffix :: "str \<Rightarrow> str \<Rightarrow> str option" where
  "strip_suffix p s = (if suffix p s then Some (take (length s - length p) s) else None)"

definition trim_end_matches :: "char \<Rightarrow> str \<Rightarrow> str" where
  "trim_end_matches c s = rev (dropWhile (\<lambda>x. x = c) (rev s))"

text \<open>
  \<^verbatim>\<open>str::replace\<close> with a non-empty needle, the only use in the modelled code: occurrences are
  found from the left and do not overlap.
\<close>

function replace_str :: "str \<Rightarrow> str \<Rightarrow> str \<Rightarrow> str" where
  "replace_str p r [] = []"
| "replace_str p r (x # xs) =
     (if p \<noteq> [] \<and> prefix p (x # xs) then r @ replace_str p r (drop (length p) (x # xs))
      else x # replace_str p r xs)"
  by pat_completeness auto
termination
  by (relation "measure (\<lambda>(p, r, s). length s)") (auto simp: neq_Nil_conv)

text \<open>
  \<^verbatim>\<open>str::lines\<close>: the pieces that a line feed ends, without the line feed and a carriage return
  before it; a last piece that no line feed ends is a line unless it is empty.
\<close>

definition strip_cr :: "str \<Rightarrow> str" where
  "strip_cr s = (if s \<noteq> [] \<and> last s = CR then butlast s else s)"

definition str_lines :: "str \<Rightarrow> str list" where
  "str_lines s =
     (let ws = split_on LF s
      in map strip_cr (butlast ws) @ (if last ws = [] then [] else [last ws]))"

text \<open>\<^verbatim>\<open>str::find(c)\<close>, \<^verbatim>\<open>str::rfind(c)\<close> and \<^verbatim>\<open>str::split_once(c)\<close> for one character.\<close>

fun find_char :: "char \<Rightarrow> str \<Rightarrow> nat option" where
  "find_char c [] = None"
| "find_char c (x # xs) = (if x = c then Some 0 else map_option Suc (find_char c xs))"

fun rfind_char :: "char \<Rightarrow> str \<Rightarrow> nat option" where
  "rfind_char c [] = None"
| "rfind_char c (x # xs) =
     (case rfind_char c xs of Some i \<Rightarrow> Some (Suc i) | None \<Rightarrow> if x = c then Some 0 else None)"

definition split_once :: "char \<Rightarrow> str \<Rightarrow> (str \<times> str) option" where
  "split_once c s = map_option (\<lambda>i. (take i s, drop (Suc i) s)) (find_char c s)"

definition eq_ignore_ascii_case :: "str \<Rightarrow> str \<Rightarrow> bool" where
  "eq_ignore_ascii_case s t \<longleftrightarrow> to_lowercase s = to_lowercase t"

text \<open>A number in decimal digits, as \<^verbatim>\<open>format!\<close> writes it.\<close>

fun decimal :: "nat \<Rightarrow> str" where
  "decimal n = (if n < 10 then [char_of (48 + n)] else decimal (n div 10) @ [char_of (48 + n mod 10)])"

declare decimal.simps [simp del]

text \<open>\<^verbatim>\<open>Vec::dedup\<close>: of equal neighbours only the first stays.\<close>

fun dedup :: "'a list \<Rightarrow> 'a list" where
  "dedup [] = []"
| "dedup [x] = [x]"
| "dedup (x # y # ys) = (if x = y then dedup (x # ys) else x # dedup (y # ys))"

text \<open>\<^verbatim>\<open>Iterator::enumerate\<close> followed by a search for the first hit.\<close>

fun find_index_from :: "nat \<Rightarrow> ('a \<Rightarrow> bool) \<Rightarrow> 'a list \<Rightarrow> (nat \<times> 'a) option" where
  "find_index_from i P [] = None"
| "find_index_from i P (x # xs) = (if P x then Some (i, x) else find_index_from (Suc i) P xs)"

declare suffix_to_prefix [code]

subsection \<open>Lemmas\<close>

lemma to_lowercase_append [rust_str, simp]: "to_lowercase (xs @ ys) = to_lowercase xs @ to_lowercase ys"
  by (simp add: to_lowercase_def)

lemma to_lowercase_Nil [rust_str, simp]: "to_lowercase [] = []"
  by (simp add: to_lowercase_def)

lemma length_to_lowercase [simp]: "length (to_lowercase s) = length s"
  by (simp add: to_lowercase_def)

lemma split_on_not_Nil [simp]: "split_on c s \<noteq> []"
  by (induction s) (auto split: list.splits)

lemma split_on_no_sep: "w \<in> set (split_on c s) \<Longrightarrow> c \<notin> set w"
proof (induction s arbitrary: w)
  case (Cons x s)
  then show ?case
    by (cases "split_on c s") (auto split: if_splits)
qed simp

lemma split_ws_words:
  "w \<in> set (split_ws cur s) \<Longrightarrow> \<forall>c \<in> set cur. \<not> is_whitespace c \<Longrightarrow>
     w \<noteq> [] \<and> (\<forall>c \<in> set w. \<not> is_whitespace c)"
proof (induction s arbitrary: cur)
  case (Cons x s)
  from Cons.prems consider (tl) "w \<in> set (split_ws [] s)" | (cur) "w = rev cur" "cur \<noteq> []"
    | (step) "\<not> is_whitespace x" "w \<in> set (split_ws (x # cur) s)"
    by (auto split: if_splits)
  then show ?case
  proof cases
    case tl
    then show ?thesis by (rule Cons.IH) simp
  next
    case cur
    with Cons.prems(2) show ?thesis by simp
  next
    case step
    with Cons.prems(2) show ?thesis by (intro Cons.IH [of "x # cur"]) auto
  qed
qed (auto split: if_splits)

lemma split_ws_subset: "w \<in> set (split_ws cur s) \<Longrightarrow> set w \<subseteq> set cur \<union> set s"
proof (induction s arbitrary: cur)
  case (Cons x s)
  from Cons.prems consider (tl) "w \<in> set (split_ws [] s)" | (cur) "w = rev cur"
    | (step) "w \<in> set (split_ws (x # cur) s)"
    by (auto split: if_splits)
  then show ?case
  proof cases
    case tl
    from Cons.IH [OF this] show ?thesis by auto
  next
    case step
    from Cons.IH [OF this] show ?thesis by auto
  qed auto
qed (auto split: if_splits)

lemma split_whitespace_subset: "w \<in> set (split_whitespace s) \<Longrightarrow> set w \<subseteq> set s"
  using split_ws_subset [of w "[]" s] by (simp add: split_whitespace_def)

lemma split_whitespace_words:
  "w \<in> set (split_whitespace s) \<Longrightarrow> w \<noteq> [] \<and> (\<forall>c \<in> set w. \<not> is_whitespace c)"
  by (auto simp: split_whitespace_def dest: split_ws_words)

lemma set_join_subset: "set (join sep ws) \<subseteq> set sep \<union> (\<Union>w \<in> set ws. set w)"
  by (induction sep ws rule: join.induct) auto

lemma find_char_None_iff: "find_char c s = None \<longleftrightarrow> c \<notin> set s"
  by (induction s) auto

lemma find_char_Some:
  "find_char c s = Some i \<Longrightarrow> i < length s \<and> s ! i = c \<and> c \<notin> set (take i s) \<and> s = take i s @ c # drop (Suc i) s"
proof (induction s arbitrary: i)
  case (Cons x xs)
  show ?case
  proof (cases "x = c")
    case True then show ?thesis using Cons.prems by simp
  next
    case False
    then obtain j where "i = Suc j" "find_char c xs = Some j" using Cons.prems by auto
    with Cons.IH [of j] False show ?thesis by auto
  qed
qed simp

lemma split_once_Some:
  "split_once c s = Some (a, b) \<Longrightarrow> s = a @ c # b \<and> c \<notin> set a"
  by (auto simp: split_once_def dest: find_char_Some)

lemma split_once_None_iff: "split_once c s = None \<longleftrightarrow> c \<notin> set s"
  by (simp add: split_once_def find_char_None_iff)

lemma rfind_char_Some: "rfind_char c s = Some i \<Longrightarrow> i < length s \<and> s ! i = c"
  by (induction s arbitrary: i) (auto split: option.splits if_splits)

lemma find_str_Some_iff: "find_str p s = Some i \<Longrightarrow> \<exists>pre post. s = pre @ p @ post \<and> length pre = i"
proof (induction s arbitrary: i)
  case Nil
  then show ?case by (auto split: if_splits)
next
  case (Cons x s)
  show ?case
  proof (cases "prefix p (x # s)")
    case True
    with Cons.prems show ?thesis by (auto simp: prefix_def)
  next
    case False
    with Cons.prems obtain j where j: "find_str p s = Some j" "i = Suc j" by auto
    from Cons.IH [OF j(1)] obtain pre post where "s = pre @ p @ post" "length pre = j" by blast
    with j(2) show ?thesis
      by (intro exI [of _ "x # pre"] exI [of _ post]) simp
  qed
qed

lemma replace_str_skip [simp]: "x \<noteq> c \<Longrightarrow> replace_str (c # cs) r (x # xs) = x # replace_str (c # cs) r xs"
  by simp

lemma replace_str_hit [simp]: "p \<noteq> [] \<Longrightarrow> replace_str p r (p @ xs) = r @ replace_str p r xs"
  by (cases p) simp_all

lemma replace_str_skip_list:
  "c \<notin> set w \<Longrightarrow> replace_str (c # cs) r (w @ xs) = w @ replace_str (c # cs) r xs"
  by (induction w) auto

lemma find_str_None_iff: "find_str p s = None \<longleftrightarrow> \<not> sublist p s"
proof (induction s)
  case (Cons x s)
  show ?case
  proof (cases "prefix p (x # s)")
    case True
    then show ?thesis by (auto simp: prefix_imp_sublist)
  next
    case False
    then have "sublist p (x # s) \<longleftrightarrow> sublist p s"
      by (auto simp: sublist_Cons_right)
    with False Cons.IH show ?thesis by simp
  qed
qed simp

lemma contains_str_iff_sublist: "contains_str s p \<longleftrightarrow> sublist p s"
  by (simp add: contains_str_def find_str_None_iff)

lemma dropWhile_last_not: "dropWhile P (rev s) = x # xs \<Longrightarrow> \<not> P x"
  using hd_dropWhile [of P "rev s"] by simp

lemma trim_Nil [simp]: "trim [] = []"
  by (simp add: trim_def trim_start_def trim_end_def)

lemma trim_start_no_ws: "\<forall>c \<in> set s. \<not> is_whitespace c \<Longrightarrow> trim_start s = s"
  by (cases s) (auto simp: trim_start_def)

lemma trim_no_ws: "\<forall>c \<in> set s. \<not> is_whitespace c \<Longrightarrow> trim s = s"
  by (simp add: trim_def trim_start_no_ws trim_end_def)
     (metis dropWhile_eq_self_iff hd_in_set rev_rev_ident set_rev)

lemma dropWhile_both: "s = [] \<or> \<not> P (hd s) \<and> \<not> P (last s) \<Longrightarrow> rev (dropWhile P (rev (dropWhile P s))) = s"
proof (cases "s = []")
  case False
  assume "s = [] \<or> \<not> P (hd s) \<and> \<not> P (last s)"
  then have "dropWhile P s = s" "dropWhile P (rev s) = rev s" using False by (simp_all add: dropWhile_eq_self_iff hd_rev)
  then show ?thesis by simp
qed simp

lemma trim_ends: "s \<noteq> [] \<Longrightarrow> \<not> is_whitespace (hd s) \<Longrightarrow> \<not> is_whitespace (last s) \<Longrightarrow> trim s = s"
  using dropWhile_both [of s is_whitespace] by (simp add: trim_def trim_start_def trim_end_def)

lemma trim_space_left [simp]: "trim (CHR '' '' # x) = trim x"
  by (simp add: trim_def trim_start_def is_whitespace_def)

lemma trim_end_space [simp]: "trim_end (x @ '' '') = trim_end x"
  by (simp add: trim_end_def is_whitespace_def)

lemma trim_space_right [simp]: "trim (x @ '' '') = trim x"
proof (cases "\<forall>c \<in> set x. is_whitespace c")
  case True
  moreover have "is_whitespace (CHR '' '')" by (simp add: is_whitespace_def)
  ultimately have "dropWhile is_whitespace (x @ '' '') = []" "dropWhile is_whitespace x = []"
    by (simp_all add: dropWhile_eq_Nil_conv)
  then show ?thesis by (simp only: trim_def trim_start_def)
next
  case False
  then have "dropWhile is_whitespace (x @ '' '') = dropWhile is_whitespace x @ '' ''"
    by (auto simp: dropWhile_append)
  then show ?thesis by (simp add: trim_def trim_start_def)
qed

lemma trim_idem [simp]: "trim (trim s) = trim s"
proof (cases "trim s")
  case (Cons x xs)
  let ?u = "dropWhile is_whitespace s"
  have t: "x # xs = rev (dropWhile is_whitespace (rev ?u))"
    using Cons by (simp add: trim_def trim_start_def trim_end_def)
  then obtain ys where u: "?u = (x # xs) @ ys"
    by (metis append_assoc rev_append rev_rev_ident takeWhile_dropWhile_id)
  then have "\<not> is_whitespace x"
    using hd_dropWhile [of is_whitespace s] by auto
  moreover have "dropWhile is_whitespace (rev (x # xs)) = rev (x # xs)"
    unfolding t by simp
  ultimately show ?thesis
    using Cons by (simp add: trim_def [of "x # xs"] trim_start_def trim_end_def)
qed simp

lemma is_whitespace_code: "is_whitespace c \<longleftrightarrow> (of_char c :: nat) \<in> {9, 10, 11, 12, 13, 32}"
  unfolding is_whitespace_def insert_iff of_char_eq_iff [symmetric, where 'a = nat] by simp

lemma to_lower_char_code:
  "(of_char (to_lower_char c) :: nat) =
     (if 65 \<le> (of_char c :: nat) \<and> (of_char c :: nat) \<le> 90 then of_char c + 32 else of_char c)"
  by (simp add: to_lower_char_def)

lemma is_whitespace_to_lower_char [simp]: "is_whitespace (to_lower_char c) = is_whitespace c"
  unfolding is_whitespace_code to_lower_char_code by auto

lemma to_lower_char_idem [simp]: "to_lower_char (to_lower_char c) = to_lower_char c"
  unfolding of_char_eq_iff [symmetric, where 'a = nat] to_lower_char_code by auto

lemma to_lowercase_idem [simp]: "to_lowercase (to_lowercase s) = to_lowercase s"
  by (simp add: to_lowercase_def)

lemma trim_to_lowercase: "trim (to_lowercase s) = to_lowercase (trim s)"
  by (simp add: trim_def trim_start_def trim_end_def to_lowercase_def dropWhile_map rev_map comp_def)

lemma set_trim_subset: "set (trim s) \<subseteq> set s"
  by (auto simp: trim_def trim_start_def trim_end_def dest!: set_dropWhileD)

lemma set_dedup [simp]: "set (dedup xs) = set xs"
  by (induction xs rule: dedup.induct) auto

lemma dedup_eq_Nil_iff [simp]: "dedup xs = [] \<longleftrightarrow> xs = []"
  by (metis set_dedup set_empty)

lemma dedup_Cons_not_Nil [simp]: "dedup (x # xs) \<noteq> []"
  by (simp add: dedup_eq_Nil_iff)

lemma hd_dedup: "xs \<noteq> [] \<Longrightarrow> hd (dedup xs) = hd xs"
  by (induction xs rule: dedup.induct) auto

lemma dedup_adjacent: "Suc i < length (dedup xs) \<Longrightarrow> dedup xs ! i \<noteq> dedup xs ! Suc i"
proof (induction xs arbitrary: i rule: dedup.induct)
  case (3 x y ys)
  show ?case
  proof (cases "x = y")
    case True
    with 3 show ?thesis by simp
  next
    case False
    have hd: "dedup (y # ys) ! 0 = y"
      using hd_dedup [of "y # ys"] by (simp add: hd_conv_nth)
    show ?thesis
    proof (cases i)
      case 0
      with False hd show ?thesis by simp
    next
      case (Suc j)
      with False 3 show ?thesis by simp
    qed
  qed
qed simp_all

lemma find_index_from_None: "find_index_from i P xs = None \<longleftrightarrow> (\<forall>x \<in> set xs. \<not> P x)"
  by (induction xs arbitrary: i) auto

lemma find_index_from_Some:
  "find_index_from i P xs = Some (j, x) \<Longrightarrow>
     i \<le> j \<and> j - i < length xs \<and> xs ! (j - i) = x \<and> P x \<and> (\<forall>k < j - i. \<not> P (xs ! k))"
proof (induction xs arbitrary: i)
  case (Cons y ys)
  show ?case
  proof (cases "P y")
    case False
    with Cons.prems have rec: "find_index_from (Suc i) P ys = Some (j, x)" by simp
    from Cons.IH [OF this] have IH: "Suc i \<le> j" "j - Suc i < length ys" "ys ! (j - Suc i) = x"
      "P x" "\<forall>k < j - Suc i. \<not> P (ys ! k)" by auto
    then have "j - i = Suc (j - Suc i)" by simp
    with IH False show ?thesis by (auto simp: nth_Cons less_Suc_eq_0_disj)
  qed (use Cons.prems in auto)
qed simp

lemma find_index_from_in_set:
  "find_index_from i P xs = Some (j, x) \<Longrightarrow> x \<in> set xs \<and> P x"
  by (induction xs arbitrary: i) (auto split: if_splits)

subsection \<open>Invariants of transition systems\<close>

text \<open>
  The components with state are transition systems; what holds initially and is kept by every step
  holds in every reachable state.
\<close>

locale transition_invariant =
  fixes init :: "'s \<Rightarrow> bool" and step :: "'s \<Rightarrow> 's \<Rightarrow> bool" and inv :: "'s \<Rightarrow> bool"
  assumes init_inv: "init s \<Longrightarrow> inv s"
    and step_inv: "inv s \<Longrightarrow> step s t \<Longrightarrow> inv t"
begin

lemma steps_inv: "rtranclp step s t \<Longrightarrow> inv s \<Longrightarrow> inv t"
  by (induction rule: rtranclp_induct) (auto intro: step_inv)

lemma reachable_inv: "init s \<Longrightarrow> rtranclp step s t \<Longrightarrow> inv t"
  using steps_inv init_inv by blast

end

subsection \<open>Results with an early return\<close>

text \<open>The operator \<^verbatim>\<open>?\<close> of the sources: go on with a value, return an error at once.\<close>

definition and_then :: "'e + 'a \<Rightarrow> ('a \<Rightarrow> 'e + 'b) \<Rightarrow> 'e + 'b" where
  "and_then r f = (case r of Inl e \<Rightarrow> Inl e | Inr x \<Rightarrow> f x)"

lemma and_then_simps [simp]:
  "and_then (Inl e) f = Inl e"
  "and_then (Inr x) f = f x"
  by (simp_all add: and_then_def)

lemma and_then_eq_Inr: "and_then r f = Inr y \<longleftrightarrow> (\<exists>x. r = Inr x \<and> f x = Inr y)"
  by (cases r) auto

lemma and_then_eq_Inl: "and_then r f = Inl e \<longleftrightarrow> r = Inl e \<or> (\<exists>x. r = Inr x \<and> f x = Inl e)"
  by (cases r) auto

lemma and_then_cong [fundef_cong]:
  "r = r' \<Longrightarrow> (\<And>x. r' = Inr x \<Longrightarrow> f x = g x) \<Longrightarrow> and_then r f = and_then r' g"
  by (cases r') auto

lemma and_then_split:
  "P (and_then r f) \<longleftrightarrow> (\<forall>e. r = Inl e \<longrightarrow> P (Inl e)) \<and> (\<forall>x. r = Inr x \<longrightarrow> P (f x))"
  by (cases r) auto

end
