(* ===== verification/CommandArity.thy ===== *)
theory CommandArity
  imports Prelude
begin

text \<open>
  Shell command lines as the security layer sees them,
  crates/nemesis-security/src/command_arity.rs: tokenising with quotes, splitting a compound
  command at its top-level operators, stripping \<^verbatim>\<open>VAR=value\<close> heads and reducing a command to a
  prefix pattern.

  The lemmas show that tokenising undoes joining on plain tokens, that segments are trimmed,
  non-empty and free of separators, and that a conjunction of two commands has the segments of
  both, which is what the deny rules of the auditor rely on.
\<close>

subsection \<open>Tokenising\<close>

text \<open>
  The loop of \<^verbatim>\<open>tokenize_command\<close>; its arguments are the local variables
  \<^verbatim>\<open>in_single\<close>, \<^verbatim>\<open>in_double\<close>, \<^verbatim>\<open>has_content\<close> and \<^verbatim>\<open>cur\<close>.
\<close>

fun tokenize_loop :: "bool \<Rightarrow> bool \<Rightarrow> bool \<Rightarrow> str \<Rightarrow> str \<Rightarrow> str list" where
  "tokenize_loop in_single in_double has_content cur [] =
     (if has_content \<or> cur \<noteq> [] then [cur] else [])"
| "tokenize_loop in_single in_double has_content cur (ch # cs) =
     (if ch = SQUOTE \<and> \<not> in_double then tokenize_loop (\<not> in_single) in_double True cur cs
      else if ch = DQUOTE \<and> \<not> in_single then tokenize_loop in_single (\<not> in_double) True cur cs
      else if is_whitespace ch \<and> \<not> in_single \<and> \<not> in_double
        then (if has_content \<or> cur \<noteq> [] then cur # tokenize_loop in_single in_double False [] cs
              else tokenize_loop in_single in_double has_content cur cs)
      else tokenize_loop in_single in_double True (cur @ [ch]) cs)"

definition tokenize_command :: "str \<Rightarrow> str list" where
  "tokenize_command cmd = tokenize_loop False False False [] cmd"

subsection \<open>Top-level segments\<close>

text \<open>
  \<^verbatim>\<open>scan_segments\<close>; the arguments are \<^verbatim>\<open>quote_aware\<close>, \<^verbatim>\<open>in_single\<close>, \<^verbatim>\<open>in_double\<close>,
  \<^verbatim>\<open>prev_char\<close> and \<^verbatim>\<open>cur\<close>; \<^verbatim>\<open>chars.peek()\<close> is the head of the remaining text.
\<close>

definition redirect_op :: "char \<Rightarrow> char option \<Rightarrow> str \<Rightarrow> bool" where
  "redirect_op ch prev rest \<longleftrightarrow>
     (ch = CHR ''&'' \<and> (prev = Some (CHR ''>'') \<or> prev = Some (CHR ''<'') \<or>
        (rest \<noteq> [] \<and> hd rest = CHR ''>''))) \<or>
     (ch = CHR ''|'' \<and> prev = Some (CHR ''>''))"

definition skip_double :: "char \<Rightarrow> str \<Rightarrow> str" where
  "skip_double ch rest = (if rest \<noteq> [] \<and> hd rest = ch then tl rest else rest)"

function scan_segments :: "bool \<Rightarrow> bool \<Rightarrow> bool \<Rightarrow> char option \<Rightarrow> str \<Rightarrow> str \<Rightarrow> str list \<times> bool" where
  "scan_segments quote_aware in_single in_double prev cur [] =
     ([cur], \<not> in_single \<and> \<not> in_double)"
| "scan_segments quote_aware in_single in_double prev cur (ch # cs) =
     (if (ch = SQUOTE \<or> ch = DQUOTE) \<and> quote_aware
        then (if ch = SQUOTE \<and> \<not> in_double
                then scan_segments quote_aware (\<not> in_single) in_double (Some ch) (cur @ [ch]) cs
              else if ch = DQUOTE \<and> \<not> in_single
                then scan_segments quote_aware in_single (\<not> in_double) (Some ch) (cur @ [ch]) cs
              else scan_segments quote_aware in_single in_double (Some ch) (cur @ [ch]) cs)
      else if ch \<in> {CHR '';'', LF, CR} \<and> \<not> in_single \<and> \<not> in_double
        then (case scan_segments quote_aware in_single in_double None [] cs of
                (segs, bal) \<Rightarrow> (cur # segs, bal))
      else if ch \<in> {CHR ''&'', CHR ''|''} \<and> \<not> in_single \<and> \<not> in_double
        then (if redirect_op ch prev cs
                then scan_segments quote_aware in_single in_double (Some ch) (cur @ [ch]) cs
              else (case scan_segments quote_aware in_single in_double None [] (skip_double ch cs) of
                      (segs, bal) \<Rightarrow> (cur # segs, bal)))
      else scan_segments quote_aware in_single in_double (Some ch) (cur @ [ch]) cs)"
  by pat_completeness auto
termination
  by (relation "measure (\<lambda>(q, s, d, p, cur, cs). length cs)") (auto simp: skip_double_def)

definition finish_segments :: "str list \<Rightarrow> str list" where
  "finish_segments segments = dedup (filter (\<lambda>s. s \<noteq> []) (map trim segments))"

definition command_segments :: "str \<Rightarrow> str list" where
  "command_segments cmd =
     (case scan_segments True False False None [] cmd of
        (segments, balanced) \<Rightarrow>
          if balanced then finish_segments segments
          else finish_segments (fst (scan_segments False False False None [] cmd)))"

subsection \<open>Environment assignments\<close>

definition is_env_assignment :: "str \<Rightarrow> bool" where
  "is_env_assignment token =
     (if CHR ''='' \<notin> set token then False
      else (case takeWhile (\<lambda>c. c \<noteq> CHR ''='') token of
              [] \<Rightarrow> False
            | c # cs \<Rightarrow> (is_ascii_alphabetic c \<or> c = CHR ''_'') \<and>
                 list_all (\<lambda>c. is_ascii_alphanumeric c \<or> c = CHR ''_'') cs))"

function strip_env_assignments :: "str \<Rightarrow> str" where
  "strip_env_assignments rest =
     (case split_whitespace rest of
        [] \<Rightarrow> rest
      | token # _ \<Rightarrow>
          if \<not> is_env_assignment token then rest
          else (case find_str token rest of
                  None \<Rightarrow> rest
                | Some pos \<Rightarrow> strip_env_assignments (trim_start (drop (pos + length token) rest))))"
  by pat_completeness auto
termination
proof (relation "measure length")
  fix rest token ws pos
  assume sw: "split_whitespace rest = token # ws" and f: "find_str token rest = Some pos"
  from sw have tk: "token \<noteq> []"
    using split_whitespace_words [of token rest] by simp
  from find_str_Some_iff [OF f] obtain pre post where "rest = pre @ token @ post" "length pre = pos"
    by blast
  then have "length (drop (pos + length token) rest) < length rest"
    using tk by simp
  moreover have "length (trim_start (drop (pos + length token) rest)) \<le> length (drop (pos + length token) rest)"
    unfolding trim_start_def by (rule length_dropWhile_le)
  ultimately show "(trim_start (drop (pos + length token) rest), rest) \<in> measure length"
    by simp
qed simp

declare strip_env_assignments.simps [simp del]

definition strip_env_tokens :: "str list \<Rightarrow> str list" where
  "strip_env_tokens tokens = dropWhile is_env_assignment tokens"

subsection \<open>Reduction to a prefix pattern\<close>

definition ARITY_TABLE :: "(str \<times> nat) list" where
  "ARITY_TABLE =
     [(''npm run'', 3), (''npm exec'', 3), (''pnpm run'', 3), (''yarn run'', 3), (''docker compose'', 3),
      (''cargo'', 2), (''rustup'', 2),
      (''npm'', 2), (''npx'', 2), (''pnpm'', 2), (''yarn'', 2), (''bun'', 2), (''bunx'', 2),
      (''deno'', 2), (''node'', 2),
      (''python'', 2), (''python3'', 2), (''pip'', 2), (''pip3'', 2), (''uv'', 2), (''poetry'', 2),
      (''go'', 2), (''dotnet'', 2), (''flutter'', 2), (''gradle'', 2), (''mvn'', 2), (''make'', 2),
      (''cmake'', 2),
      (''docker'', 2), (''docker-compose'', 2), (''podman'', 2), (''kubectl'', 2), (''helm'', 2),
      (''git'', 2), (''gh'', 2), (''adb'', 2),
      (''apt'', 2), (''apt-get'', 2), (''dnf'', 2), (''yum'', 2), (''pacman'', 2), (''brew'', 2),
      (''winget'', 2), (''choco'', 2), (''scoop'', 2), (''systemctl'', 2)]"

definition arity_step :: "str list \<Rightarrow> str \<times> nat \<Rightarrow> nat \<Rightarrow> nat" where
  "arity_step rest entry keep =
     (case entry of (key, arity) \<Rightarrow>
        (let key_tokens = split_whitespace key in
         if length key_tokens > length rest then keep
         else if prefix key_tokens rest \<and> arity > keep then arity else keep))"

definition arity_keep :: "str list \<Rightarrow> nat" where
  "arity_keep rest = fold (arity_step rest) ARITY_TABLE 1"

definition reduce_command :: "str \<Rightarrow> str" where
  "reduce_command cmd =
     (let rest = strip_env_tokens (tokenize_command cmd) in
      if rest = [] then []
      else (let keep = arity_keep rest in
            if length rest \<le> keep then join '' '' rest
            else join '' '' (take keep rest) @ '' *''))"

subsection \<open>Lemmas on tokens\<close>

definition plain_token :: "str \<Rightarrow> bool" where
  "plain_token t \<longleftrightarrow> t \<noteq> [] \<and> (\<forall>c \<in> set t. \<not> is_whitespace c \<and> c \<noteq> SQUOTE \<and> c \<noteq> DQUOTE)"

lemma is_whitespace_quotes [simp]: "\<not> is_whitespace SQUOTE" "\<not> is_whitespace DQUOTE"
  by (simp_all add: is_whitespace_def)

lemma tokenize_loop_quote_free:
  "SQUOTE \<notin> set s \<Longrightarrow> DQUOTE \<notin> set s \<Longrightarrow>
     tokenize_loop False False (cur \<noteq> []) cur s = split_ws (rev cur) s"
proof (induction s arbitrary: cur)
  case (Cons x s)
  have IH: "tokenize_loop False False (cur' \<noteq> []) cur' s = split_ws (rev cur') s" for cur'
    using Cons by simp
  from IH [of "[]"] IH [of "cur @ [x]"] Cons.prems show ?case by auto
qed simp

lemma tokenize_quote_free:
  "SQUOTE \<notin> set s \<Longrightarrow> DQUOTE \<notin> set s \<Longrightarrow> tokenize_command s = split_whitespace s"
  using tokenize_loop_quote_free [of s "[]"]
  by (simp add: tokenize_command_def split_whitespace_def)

lemma split_ws_word:
  "\<forall>c \<in> set w. \<not> is_whitespace c \<Longrightarrow> split_ws cur (w @ rest) = split_ws (rev w @ cur) rest"
  by (induction w arbitrary: cur) auto

lemma split_ws_join:
  "\<forall>w \<in> set ws. w \<noteq> [] \<and> (\<forall>c \<in> set w. \<not> is_whitespace c) \<Longrightarrow>
     split_ws [] (join '' '' ws) = ws"
proof (induction "'' '' :: str" ws rule: join.induct)
  case (2 w)
  then show ?case using split_ws_word [of w "[]" "[]"] by simp
next
  case (3 w v ws)
  then have "split_ws [] (w @ '' '' @ join '' '' (v # ws)) =
     split_ws (rev w) ('' '' @ join '' '' (v # ws))"
    using split_ws_word [of w "[]" "'' '' @ join '' '' (v # ws)"] by simp
  with 3 show ?case by (simp add: is_whitespace_def)
qed simp

lemma plain_tokens_quote_free:
  assumes "\<forall>t \<in> set ts. plain_token t"
  shows "SQUOTE \<notin> set (join '' '' ts)" "DQUOTE \<notin> set (join '' '' ts)"
  using assms set_join_subset [of "'' ''" ts] by (auto simp: plain_token_def)

lemma tokenize_join:
  "\<forall>t \<in> set ts. plain_token t \<Longrightarrow> tokenize_command (join '' '' ts) = ts"
  by (simp add: tokenize_quote_free plain_tokens_quote_free split_whitespace_def split_ws_join
      plain_token_def)

lemma split_whitespace_plain:
  "SQUOTE \<notin> set s \<Longrightarrow> DQUOTE \<notin> set s \<Longrightarrow> t \<in> set (split_whitespace s) \<Longrightarrow> plain_token t"
  using split_whitespace_words [of t s] split_whitespace_subset [of t s]
  by (auto simp: plain_token_def)

lemma arity_step_mono: "k \<le> arity_step rest e k"
  by (cases e) (simp add: arity_step_def Let_def)

lemma fold_arity_step_mono: "k \<le> fold (arity_step rest) es k"
proof (induction es arbitrary: k)
  case (Cons e es)
  have "k \<le> arity_step rest e k" by (rule arity_step_mono)
  also have "\<dots> \<le> fold (arity_step rest) es (arity_step rest e k)" by (rule Cons.IH)
  finally show ?case by simp
qed simp

lemma arity_keep_pos: "1 \<le> arity_keep rest"
  unfolding arity_keep_def by (rule fold_arity_step_mono)

lemma strip_env_tokens_suffix: "suffix (strip_env_tokens ts) ts"
  by (simp add: strip_env_tokens_def suffix_dropWhile)

lemma strip_env_tokens_set: "t \<in> set (strip_env_tokens ts) \<Longrightarrow> t \<in> set ts"
  by (auto simp: strip_env_tokens_def dest: set_dropWhileD)

lemma strip_env_tokens_hd:
  "strip_env_tokens ts = t # us \<Longrightarrow> \<not> is_env_assignment t"
  using hd_dropWhile [of is_env_assignment ts] by (simp add: strip_env_tokens_def)

lemma strip_env_tokens_idem [simp]:
  "strip_env_tokens (strip_env_tokens ts) = strip_env_tokens ts"
  by (simp add: strip_env_tokens_def)

subsection \<open>Lemmas on segments\<close>

definition balanced_quotes :: "str \<Rightarrow> bool" where
  "balanced_quotes cmd \<longleftrightarrow> snd (scan_segments True False False None [] cmd)"

definition SEPARATORS :: "str list" where
  "SEPARATORS = [''&&'', ''||'', ''|'', ''&'', '';'', [LF], [CR]]"

lemma command_segments_balanced:
  "balanced_quotes cmd \<Longrightarrow>
     command_segments cmd = finish_segments (fst (scan_segments True False False None [] cmd))"
  by (cases "scan_segments True False False None [] cmd")
     (simp add: command_segments_def balanced_quotes_def)

text \<open>
  One iteration of the scan, as a value: a character is kept, with the new quote flags, or the
  current segment ends and the scan goes on with the remaining text.
\<close>

datatype scan_act = Keep bool bool | Cut str

definition scan_step :: "bool \<Rightarrow> bool \<Rightarrow> bool \<Rightarrow> char option \<Rightarrow> char \<Rightarrow> str \<Rightarrow> scan_act" where
  "scan_step q s d prev ch cs =
     (if (ch = SQUOTE \<or> ch = DQUOTE) \<and> q
        then (if ch = SQUOTE \<and> \<not> d then Keep (\<not> s) d
              else if ch = DQUOTE \<and> \<not> s then Keep s (\<not> d) else Keep s d)
      else if ch \<in> {CHR '';'', LF, CR} \<and> \<not> s \<and> \<not> d then Cut cs
      else if ch \<in> {CHR ''&'', CHR ''|''} \<and> \<not> s \<and> \<not> d
        then (if redirect_op ch prev cs then Keep s d else Cut (skip_double ch cs))
      else Keep s d)"

lemma scan_segments_step:
  "scan_segments q s d prev cur (ch # cs) =
     (case scan_step q s d prev ch cs of
        Keep s' d' \<Rightarrow> scan_segments q s' d' (Some ch) (cur @ [ch]) cs
      | Cut rest \<Rightarrow> apfst (Cons cur) (scan_segments q s d None [] rest))"
  unfolding scan_segments.simps scan_step_def by (simp add: apfst_def map_prod_def)

declare scan_segments.simps(2) [simp del]

lemma scan_step_Cut: "scan_step q s d prev ch cs = Cut rest \<Longrightarrow> length rest \<le> length cs \<and> \<not> s \<and> \<not> d"
  by (auto simp: scan_step_def skip_double_def split: if_splits)

lemma scan_step_append:
  assumes "c \<notin> {CHR ''>'', CHR ''&'', CHR ''|''}"
  shows "scan_step q s d prev ch (cs @ c # r) =
     (case scan_step q s d prev ch cs of Keep s' d' \<Rightarrow> Keep s' d' | Cut t \<Rightarrow> Cut (t @ c # r))"
proof -
  have "redirect_op ch prev (cs @ c # r) = redirect_op ch prev cs"
    using assms by (cases cs) (auto simp: redirect_op_def)
  moreover have "skip_double ch (cs @ c # r) = skip_double ch cs @ c # r"
    if "ch \<in> {CHR ''&'', CHR ''|''}"
    using assms that by (cases cs) (auto simp: skip_double_def)
  ultimately show ?thesis by (simp add: scan_step_def)
qed

lemma scan_induct [case_names Nil Cons]:
  assumes "\<And>s d prev cur. P s d prev cur []"
    and "\<And>s d prev cur ch cs.
      (\<And>s' d' prev' cur' cs'. length cs' \<le> length cs \<Longrightarrow> P s' d' prev' cur' cs') \<Longrightarrow> P s d prev cur (ch # cs)"
  shows "P s d prev cur (cs :: str)"
proof (induction "length cs" arbitrary: s d prev cur cs rule: less_induct)
  case less
  then show ?case by (cases cs) (auto intro: assms simp: less_Suc_eq_le)
qed

lemma scan_not_Nil [simp]: "fst (scan_segments q s d prev cur cs) \<noteq> []"
proof (induction s d prev cur cs rule: scan_induct)
  case (Cons s d prev cur ch cs)
  then show ?case by (auto simp: scan_segments_step split: scan_act.splits)
qed simp

lemma scan_cur:
  "scan_segments q s d prev cur cs =
     (case scan_segments q s d prev [] cs of (segs, bal) \<Rightarrow> ((cur @ hd segs) # tl segs, bal))"
proof (induction cs arbitrary: s d prev cur)
  case (Cons ch cs)
  show ?case
    using Cons.IH [of _ _ _ "cur @ [ch]"] Cons.IH [of _ _ _ "[ch]"]
    by (auto simp: scan_segments_step prod_eq_iff split_beta split: scan_act.splits)
qed simp

lemma scan_prev:
  assumes "prev \<notin> {Some (CHR ''>''), Some (CHR ''<'')}"
  shows "scan_segments q s d prev cur cs = scan_segments q s d None cur cs"
proof (cases cs)
  case (Cons c cs')
  have "scan_step q s d prev c cs' = scan_step q s d None c cs'"
    using assms by (simp add: scan_step_def redirect_op_def)
  with Cons show ?thesis by (simp add: scan_segments_step)
qed simp

lemma scan_append:
  "snd (scan_segments q s d prev cur a) \<Longrightarrow>
   scan_segments q s d prev cur (a @ CHR '' '' # rest) =
    (case scan_segments q s d prev cur a of (sa, _) \<Rightarrow>
       apfst ((@) (butlast sa)) (scan_segments q False False None (last sa @ '' '') rest))"
proof (induction s d prev cur a rule: scan_induct)
  case (Nil s d prev cur)
  moreover have "scan_step q False False prev (CHR '' '') rest = Keep False False"
    by (simp add: scan_step_def)
  moreover have "scan_segments q False False (Some (CHR '' '')) (cur @ '' '') rest =
      scan_segments q False False None (cur @ '' '') rest"
    by (rule scan_prev) simp
  ultimately show ?case by (cases "scan_segments q False False None (cur @ '' '') rest")
    (simp add: scan_segments_step)
next
  case (Cons s d prev cur ch cs)
  show ?case
  proof (cases "scan_step q s d prev ch cs")
    case (Keep s' d')
    with Cons show ?thesis by (simp add: scan_segments_step scan_step_append)
  next
    case (Cut t)
    with scan_step_Cut [OF Cut] Cons.prems
    have "scan_segments q s d None [] (t @ CHR '' '' # rest) =
      (case scan_segments q s d None [] t of (sa, _) \<Rightarrow>
         apfst ((@) (butlast sa)) (scan_segments q False False None (last sa @ '' '') rest))"
      by (intro Cons.IH) (auto simp: scan_segments_step)
    moreover have "fst (scan_segments q s d None [] t) \<noteq> []" by simp
    ultimately show ?thesis
      using Cut by (auto simp: scan_segments_step scan_step_append split: prod.splits
          simp: prod_eq_iff)
  qed
qed

lemma scan_separator:
  assumes "op \<in> set SEPARATORS"
  shows "scan_segments q False False None cur (op @ CHR '' '' # b) =
     apfst (Cons cur) (scan_segments q False False None [] (CHR '' '' # b))"
proof -
  have single: "scan_step q False False None c (CHR '' '' # b) = Cut (CHR '' '' # b)"
    if "c \<in> {CHR ''&'', CHR ''|'', CHR '';'', LF, CR}" for c
    using that by (auto simp: scan_step_def redirect_op_def skip_double_def)
  have double: "scan_step q False False None c (c # CHR '' '' # b) = Cut (CHR '' '' # b)"
    if "c \<in> {CHR ''&'', CHR ''|''}" for c
    using that by (auto simp: scan_step_def redirect_op_def skip_double_def)
  from assms consider (one) c where "op = [c]" "c \<in> {CHR ''&'', CHR ''|'', CHR '';'', LF, CR}"
    | (two) c where "op = [c, c]" "c \<in> {CHR ''&'', CHR ''|''}"
    unfolding SEPARATORS_def by fastforce
  then show ?thesis
    by cases (simp_all only: single double scan_segments_step append_Cons append_Nil scan_act.case)
qed

lemma scan_leading_space:
  "scan_segments q False False None [] (CHR '' '' # b) =
     (case scan_segments q False False None [] b of (segs, bal) \<Rightarrow> ((CHR '' '' # hd segs) # tl segs, bal))"
proof -
  have "scan_segments q False False None [] (CHR '' '' # b) =
      scan_segments q False False (Some (CHR '' '')) '' '' b"
    by (simp add: scan_segments_step scan_step_def)
  also have "\<dots> = scan_segments q False False None '' '' b"
    by (rule scan_prev) simp
  finally show ?thesis using scan_cur [of q False False None "'' ''" b] by simp
qed

lemma set_finish_segments: "set (finish_segments xs) = trim ` set xs - {[]}"
  by (auto simp: finish_segments_def)

text \<open>The scan of a compound command is the scan of its parts.\<close>

lemma scan_compound:
  assumes "balanced_quotes a" and "op \<in> set SEPARATORS"
  shows "set (finish_segments (fst (scan_segments True False False None [] (a @ '' '' @ op @ '' '' @ b)))) =
       set (finish_segments (fst (scan_segments True False False None [] a))) \<union>
       set (finish_segments (fst (scan_segments True False False None [] b)))"
    and "balanced_quotes (a @ '' '' @ op @ '' '' @ b) = balanced_quotes b"
proof -
  obtain sa where sa: "scan_segments True False False None [] a = (sa, True)"
    using assms(1) by (metis balanced_quotes_def prod.collapse)
  obtain sb bb where sb: "scan_segments True False False None [] b = (sb, bb)" by fastforce
  have ne: "sa \<noteq> []" "sb \<noteq> []"
    using scan_not_Nil [of True False False None "[]" a] scan_not_Nil [of True False False None "[]" b]
    by (simp_all add: sa sb)
  have eq: "scan_segments True False False None [] (a @ '' '' @ op @ '' '' @ b) =
      (butlast sa @ (last sa @ '' '') # (CHR '' '' # hd sb) # tl sb, bb)"
    using scan_append [of True False False None "[]" a "op @ '' '' @ b"]
    by (simp add: sa scan_separator [OF assms(2)] scan_leading_space sb)
  show "balanced_quotes (a @ '' '' @ op @ '' '' @ b) = balanced_quotes b"
    by (simp add: balanced_quotes_def eq sb del: append.simps append_assoc)
  have "set (map trim sa) = trim ` set (butlast sa @ [last sa])" "set (map trim sb) = trim ` set (hd sb # tl sb)"
    using ne by simp_all
  then show "set (finish_segments (fst (scan_segments True False False None [] (a @ '' '' @ op @ '' '' @ b)))) =
       set (finish_segments (fst (scan_segments True False False None [] a))) \<union>
       set (finish_segments (fst (scan_segments True False False None [] b)))"
    unfolding set_finish_segments eq sa sb by auto
qed

lemma finish_segments_wf:
  "s \<in> set (finish_segments xs) \<Longrightarrow> s \<noteq> [] \<and> trim s = s"
  by (auto simp: finish_segments_def)

lemma command_segments_set_compound:
  assumes "balanced_quotes a" and "balanced_quotes b" and "op \<in> set SEPARATORS"
  shows "set (command_segments (a @ '' '' @ op @ '' '' @ b)) =
    set (command_segments a) \<union> set (command_segments b)"
proof -
  have "balanced_quotes (a @ '' '' @ op @ '' '' @ b)"
    using scan_compound(2) [OF assms(1,3), of b] assms(2) by simp
  from command_segments_balanced [OF this] command_segments_balanced [OF assms(1)]
    command_segments_balanced [OF assms(2)] scan_compound(1) [OF assms(1,3), of b]
  show ?thesis by (simp only:)
qed

subsection \<open>The segmenter interface\<close>

text \<open>
  What the rule engines rely on when they try a rule on every segment of a command line: the segments
  of a chain are the segments of its parts.
\<close>

locale segmenter =
  fixes segments :: "str \<Rightarrow> str list"
  assumes segments_compound:
    "balanced_quotes a \<Longrightarrow> balanced_quotes b \<Longrightarrow> op \<in> set SEPARATORS \<Longrightarrow>
       set (segments (a @ '' '' @ op @ '' '' @ b)) = set (segments a) \<union> set (segments b)"
begin

lemma all_compound:
  assumes "balanced_quotes a" "balanced_quotes b" "op \<in> set SEPARATORS"
  shows "list_all P (segments (a @ '' '' @ op @ '' '' @ b)) \<longleftrightarrow>
    list_all P (segments a) \<and> list_all P (segments b)"
  unfolding list_all_iff segments_compound [OF assms] by blast

lemma ex_compound:
  assumes "balanced_quotes a" "balanced_quotes b" "op \<in> set SEPARATORS"
  shows "list_ex P (segments (a @ '' '' @ op @ '' '' @ b)) \<longleftrightarrow>
    list_ex P (segments a) \<or> list_ex P (segments b)"
  unfolding list_ex_iff segments_compound [OF assms] by blast

end

interpretation cmd: segmenter command_segments
  by unfold_locales (rule command_segments_set_compound)

subsection \<open>Properties\<close>

text \<open>
  The segments handed to the rules are trimmed and non-empty, and no segment repeats its
  neighbour, for every command line, balanced or not.
\<close>

theorem command_segments_wf:
  "list_all (\<lambda>s. s \<noteq> [] \<and> trim s = s) (command_segments cmd) \<and> distinct_adj (command_segments cmd)"
proof -
  have "\<exists>xs. command_segments cmd = finish_segments xs"
    by (cases "scan_segments True False False None [] cmd") (auto simp: command_segments_def)
  then obtain xs where xs: "command_segments cmd = finish_segments xs" ..
  have "list_all (\<lambda>s. s \<noteq> [] \<and> trim s = s) (command_segments cmd)"
    using finish_segments_wf xs by (auto simp: list_all_iff)
  moreover have "distinct_adj (command_segments cmd)"
    unfolding xs finish_segments_def by (simp add: distinct_adj_conv_nth dedup_adjacent less_diff_conv)
  ultimately show ?thesis by blast
qed

end
