(* ===== verification/Matcher.thy ===== *)
theory Matcher
  imports CommandArity
begin

text \<open>
  Pattern matching of the security rules, crates/nemesis-security/src/matcher.rs: path globs, command
  patterns, domain patterns, the normal form of a command line, the payloads of interpreter calls
  (\<^verbatim>\<open>bash -c ...\<close>) and the bucket match that decides whether an exec rule applies.

  The code compiles its patterns with the \<^verbatim>\<open>regex\<close> crate, which is not part of the repository: the
  two functions it uses, \<^verbatim>\<open>Regex::new\<close> with \<^verbatim>\<open>is_match\<close> and \<^verbatim>\<open>regex::escape\<close>, are the record
  \<^verbatim>\<open>regex_lib\<close> that the definitions take as an argument, and \<^verbatim>\<open>regex_documented\<close> states what
  the crate documents of the fragment the code generates.  The lemmas show which texts a pattern
  matches, without reference to regular expressions.
\<close>

subsection \<open>The regex crate\<close>

text \<open>
  \<^verbatim>\<open>rx_new R p\<close> is \<^verbatim>\<open>None\<close> when \<^verbatim>\<open>Regex::new(p)\<close> is an error and the \<^verbatim>\<open>is_match\<close> function of the
  compiled expression otherwise.
\<close>

record regex_lib =
  rx_new :: "str \<Rightarrow> (str \<Rightarrow> bool) option"
  rx_escape :: "str \<Rightarrow> str"

text \<open>The fragment of regular expressions the matchers generate, and what each item stands for.\<close>

datatype re_item = Lit char | AnySeq | NotSeq char

datatype re_tok = Raw char | Esc char | DotStar | NotStar char

fun tok_text :: "re_tok \<Rightarrow> str" where
  "tok_text (Raw c) = [c]"
| "tok_text (Esc c) = [BSLASH, c]"
| "tok_text DotStar = ''.*''"
| "tok_text (NotStar c) = ''[^'' @ [c] @ '']*''"

fun tok_item :: "re_tok \<Rightarrow> re_item" where
  "tok_item (Raw c) = Lit c"
| "tok_item (Esc c) = Lit c"
| "tok_item DotStar = AnySeq"
| "tok_item (NotStar c) = NotSeq c"

definition regex_syntax :: "char list" where
  "regex_syntax = BSLASH # ''.+*?()|[]{}^$''"

definition regex_meta :: "char list" where
  "regex_meta = BSLASH # ''.+*?()|[]{}^$#&-~''"

fun tok_ok :: "re_tok \<Rightarrow> bool" where
  "tok_ok (Raw c) \<longleftrightarrow> c \<notin> set regex_syntax"
| "tok_ok (Esc c) \<longleftrightarrow> c \<in> set regex_meta"
| "tok_ok DotStar \<longleftrightarrow> True"
| "tok_ok (NotStar c) \<longleftrightarrow> c = CHR ''/'' \<or> c = CHR ''.''"

fun items_match :: "re_item list \<Rightarrow> str \<Rightarrow> bool" where
  "items_match [] s \<longleftrightarrow> s = []"
| "items_match (Lit c # is) [] \<longleftrightarrow> False"
| "items_match (Lit c # is) (x # xs) \<longleftrightarrow> x = c \<and> items_match is xs"
| "items_match (AnySeq # is) [] \<longleftrightarrow> items_match is []"
| "items_match (AnySeq # is) (x # xs) \<longleftrightarrow>
     items_match is (x # xs) \<or> (x \<noteq> LF \<and> items_match (AnySeq # is) xs)"
| "items_match (NotSeq c # is) [] \<longleftrightarrow> items_match is []"
| "items_match (NotSeq c # is) (x # xs) \<longleftrightarrow>
     items_match is (x # xs) \<or> (x \<noteq> c \<and> items_match (NotSeq c # is) xs)"

definition escape_char :: "char \<Rightarrow> str" where
  "escape_char c = (if c \<in> set regex_meta then [BSLASH, c] else [c])"

text \<open>
  What the crate documents: an anchored expression of the fragment matches exactly the texts its
  items describe (\<^verbatim>\<open>.\<close> is any character except a line feed, \<^verbatim>\<open>[^c]\<close> any character except c), when it
  compiles at all (the crate rejects expressions over its size limit), and \<^verbatim>\<open>escape\<close> puts a
  backslash before every meta character.
\<close>

definition regex_documented :: "regex_lib \<Rightarrow> bool" where
  "regex_documented R \<longleftrightarrow>
     (\<forall>toks m. list_all tok_ok toks \<longrightarrow> rx_new R (''^'' @ concat (map tok_text toks) @ ''$'') = Some m \<longrightarrow>
        m = items_match (map tok_item toks)) \<and>
     (\<forall>s. rx_escape R s = concat (map escape_char s))"

subsection \<open>Path patterns\<close>

definition normalize_path :: "str \<Rightarrow> str" where
  "normalize_path path = replace_char BSLASH ''/'' path"

definition wildcard_special :: "char list" where
  "wildcard_special = BSLASH # ''^$+.?()[]{}|''"

fun wildcard_body :: "str \<Rightarrow> str" where
  "wildcard_body [] = []"
| "wildcard_body (c # cs) =
     (if c = CHR ''*'' \<and> cs \<noteq> [] \<and> hd cs = CHR ''*'' then ''.*'' @ wildcard_body (tl cs)
      else if c = CHR ''*'' then ''[^/]*'' @ wildcard_body cs
      else if c \<in> set wildcard_special then BSLASH # c # wildcard_body cs
      else c # wildcard_body cs)"

definition wildcard_to_regex :: "str \<Rightarrow> str" where
  "wildcard_to_regex pattern = ''^'' @ wildcard_body pattern @ ''$''"

definition do_match :: "regex_lib \<Rightarrow> str \<Rightarrow> str \<Rightarrow> bool" where
  "do_match R pattern target =
     (case rx_new R (wildcard_to_regex pattern) of Some is_match \<Rightarrow> is_match target | None \<Rightarrow> False)"

definition match_pattern :: "regex_lib \<Rightarrow> str \<Rightarrow> str \<Rightarrow> bool" where
  "match_pattern R pattern target =
     (let pattern = normalize_path pattern; target = normalize_path target in
      if CHR ''*'' \<notin> set pattern then pattern = target
      else if CHR ''/'' \<notin> set pattern then do_match R (''**'' @ pattern) target
      else do_match R pattern target)"

text \<open>The platform, \<^verbatim>\<open>cfg!(windows)\<close>, is the first argument.\<close>

definition match_path_rule :: "bool \<Rightarrow> regex_lib \<Rightarrow> str \<Rightarrow> str \<Rightarrow> bool" where
  "match_path_rule windows R pattern target =
     (if windows then match_pattern R (to_lowercase pattern) (to_lowercase target)
      else match_pattern R pattern target)"

subsection \<open>Command patterns\<close>

definition WILDCARD_PLACEHOLDER :: str where
  "WILDCARD_PLACEHOLDER = [NUL] @ ''WILDCARD'' @ [NUL]"

definition DOT_PLACEHOLDER :: str where
  "DOT_PLACEHOLDER = [NUL] @ ''LITERALDOT'' @ [NUL]"

definition command_regex :: "regex_lib \<Rightarrow> str \<Rightarrow> str" where
  "command_regex R pattern =
     (let escaped = replace_char (CHR ''*'') WILDCARD_PLACEHOLDER pattern;
          quoted = rx_escape R escaped;
          regex_body = replace_str WILDCARD_PLACEHOLDER ''.*'' quoted
      in ''^'' @ regex_body @ ''$'')"

definition match_command_pattern :: "regex_lib \<Rightarrow> str \<Rightarrow> str \<Rightarrow> bool" where
  "match_command_pattern R pattern command =
     (case rx_new R (command_regex R pattern) of Some is_match \<Rightarrow> is_match command | None \<Rightarrow> False)"

definition normalize_exec_command :: "str \<Rightarrow> str" where
  "normalize_exec_command command =
     (let collapsed = join '' '' (split_whitespace command);
          no_quotes = filter (\<lambda>c. c \<noteq> DQUOTE \<and> c \<noteq> SQUOTE \<and> c \<noteq> BACKTICK) collapsed
      in to_lowercase no_quotes)"

subsection \<open>Interpreter payloads\<close>

definition bin_key :: "str \<Rightarrow> str" where
  "bin_key token =
     (let base = rev (takeWhile (\<lambda>c. c \<noteq> CHR ''/'' \<and> c \<noteq> BSLASH) (rev token))
      in (case strip_suffix ''.exe'' base of Some b \<Rightarrow> b | None \<Rightarrow> base))"

definition WRAPPERS :: "(str \<times> str list) list" where
  "WRAPPERS =
     [(''powershell'', [''-c'', ''-command'', ''-e'', ''-enc'']),
      (''pwsh'', [''-c'', ''-command'', ''-e'', ''-enc'']),
      (''cmd'', [''/c'', ''/k'']),
      (''sh'', [''-c'']), (''bash'', [''-c'']), (''zsh'', [''-c'']), (''ksh'', [''-c'']), (''fish'', [''-c'']),
      (''python'', [''-c'']), (''python3'', [''-c'']), (''python2'', [''-c'']),
      (''node'', [''-e'', ''--eval'']), (''perl'', [''-e'']), (''ruby'', [''-e''])]"

fun token_offsets :: "nat \<Rightarrow> str list \<Rightarrow> nat list" where
  "token_offsets offset [] = []"
| "token_offsets offset (t # ts) = offset # token_offsets (offset + length t + 1) ts"

definition payload_at :: "str \<Rightarrow> str list \<Rightarrow> nat \<Rightarrow> str option" where
  "payload_at cmd tokens i =
     (case map_of WRAPPERS (bin_key (tokens ! i)) of
        None \<Rightarrow> None
      | Some flags \<Rightarrow>
          (case find (\<lambda>j. tokens ! j \<in> set flags) [i + 1..<length tokens] of
             None \<Rightarrow> None
           | Some j \<Rightarrow>
               (let payload_start = token_offsets 0 tokens ! j + length (tokens ! j) in
                if payload_start > length cmd then None
                else (let payload = trim (drop payload_start cmd) in
                      if payload \<noteq> [] then Some payload else None))))"

definition command_tokens :: "str \<Rightarrow> str list" where
  "command_tokens cmd = filter (\<lambda>t. t \<noteq> []) (split_on (CHR '' '') cmd)"

definition extract_interpreter_payloads :: "str \<Rightarrow> str list" where
  "extract_interpreter_payloads cmd =
     (let tokens = command_tokens cmd in List.map_filter (payload_at cmd tokens) [0..<length tokens])"

fun contains_in_order :: "str list \<Rightarrow> str \<Rightarrow> bool" where
  "contains_in_order [] rest = True"
| "contains_in_order (seg # segs) rest =
     (case find_str seg rest of
        Some pos \<Rightarrow> contains_in_order segs (drop (pos + length seg) rest)
      | None \<Rightarrow> False)"

definition glob_contains :: "str \<Rightarrow> str \<Rightarrow> bool" where
  "glob_contains pattern t = contains_in_order (filter (\<lambda>s. s \<noteq> []) (split_on (CHR ''*'') pattern)) t"

subsection \<open>Exec rules\<close>

definition exec_rule_segments :: "str \<Rightarrow> str list" where
  "exec_rule_segments target =
     map (\<lambda>seg. strip_env_assignments (normalize_exec_command seg)) (command_segments target)"

definition exec_rule_bucket_match :: "regex_lib \<Rightarrow> str \<Rightarrow> str \<Rightarrow> str \<Rightarrow> str list \<Rightarrow> bool" where
  "exec_rule_bucket_match R bucket pattern target_normalized segs =
     (let hit = match_command_pattern R (normalize_exec_command pattern) in
      if bucket = ''allow'' then segs \<noteq> [] \<and> list_all hit segs
      else list_ex hit segs \<or> hit (strip_env_assignments target_normalized) \<or> hit target_normalized)"

subsection \<open>Domain patterns\<close>

definition domain_regex :: "regex_lib \<Rightarrow> str \<Rightarrow> str" where
  "domain_regex R pattern =
     (let p = replace_char (CHR ''*'') WILDCARD_PLACEHOLDER pattern;
          p = replace_char (CHR ''.'') DOT_PLACEHOLDER p;
          p = rx_escape R p;
          p = replace_str WILDCARD_PLACEHOLDER ''[^.]*'' p;
          p = replace_str DOT_PLACEHOLDER [BSLASH, CHR ''.''] p
      in ''^'' @ p @ ''$'')"

definition match_domain_pattern :: "regex_lib \<Rightarrow> str \<Rightarrow> str \<Rightarrow> bool" where
  "match_domain_pattern R pattern domain =
     (let domain = to_lowercase domain; pattern = to_lowercase pattern in
      if CHR ''*'' \<notin> set pattern then domain = pattern
      else (case rx_new R (domain_regex R pattern) of Some is_match \<Rightarrow> is_match domain | None \<Rightarrow> False))"

subsection \<open>What the fragment matches\<close>

text \<open>The texts an item stands for, and the texts a sequence of items stands for.\<close>

fun item_lang :: "re_item \<Rightarrow> str \<Rightarrow> bool" where
  "item_lang (Lit c) w \<longleftrightarrow> w = [c]"
| "item_lang AnySeq w \<longleftrightarrow> LF \<notin> set w"
| "item_lang (NotSeq c) w \<longleftrightarrow> c \<notin> set w"

definition items_lang :: "re_item list \<Rightarrow> str \<Rightarrow> bool" where
  "items_lang is s \<longleftrightarrow> (\<exists>ws. list_all2 item_lang is ws \<and> s = concat ws)"

lemma items_lang_Nil [simp]: "items_lang [] s \<longleftrightarrow> s = []"
  by (auto simp: items_lang_def)

lemma items_lang_Cons:
  "items_lang (i # is) s \<longleftrightarrow> (\<exists>w t. item_lang i w \<and> items_lang is t \<and> s = w @ t)"
  by (fastforce simp: items_lang_def list_all2_Cons1)

lemma items_lang_Lit [simp]:
  "items_lang (Lit c # is) [] \<longleftrightarrow> False"
  "items_lang (Lit c # is) (x # xs) \<longleftrightarrow> x = c \<and> items_lang is xs"
  by (auto simp: items_lang_Cons)

lemma items_lang_seq:
  assumes i: "\<And>w. item_lang i w \<longleftrightarrow> c \<notin> set w"
  shows "items_lang (i # is) [] \<longleftrightarrow> items_lang is []"
    and "items_lang (i # is) (x # xs) \<longleftrightarrow> items_lang is (x # xs) \<or> (x \<noteq> c \<and> items_lang (i # is) xs)"
proof -
  show "items_lang (i # is) [] \<longleftrightarrow> items_lang is []"
    by (auto simp: items_lang_Cons i)
  show "items_lang (i # is) (x # xs) \<longleftrightarrow> items_lang is (x # xs) \<or> (x \<noteq> c \<and> items_lang (i # is) xs)"
    (is "?l \<longleftrightarrow> ?r")
  proof
    assume ?l
    then obtain w t where w: "c \<notin> set w" "items_lang is t" "x # xs = w @ t"
      by (auto simp: items_lang_Cons i)
    then show ?r
    proof (cases w)
      case (Cons y w')
      with w have "x \<noteq> c" "c \<notin> set w'" "xs = w' @ t" by auto
      with w(2) have "items_lang (i # is) xs" unfolding items_lang_Cons i by blast
      with \<open>x \<noteq> c\<close> show ?r by simp
    qed simp
  next
    assume ?r
    then show ?l
    proof
      assume "items_lang is (x # xs)"
      then have "c \<notin> set [] \<and> items_lang is (x # xs) \<and> x # xs = [] @ x # xs" by simp
      then show ?l unfolding items_lang_Cons i by blast
    next
      assume "x \<noteq> c \<and> items_lang (i # is) xs"
      then obtain w t where "c \<notin> set (x # w)" "items_lang is t" "x # xs = (x # w) @ t"
        unfolding items_lang_Cons i by auto
      then show ?l unfolding items_lang_Cons i by blast
    qed
  qed
qed

lemma items_match_iff_lang: "items_match is s \<longleftrightarrow> items_lang is s"
  by (induction "is" s rule: items_match.induct) (simp_all add: items_lang_seq)

lemma regex_documentedD:
  assumes "regex_documented R" "list_all tok_ok toks"
    "rx_new R (''^'' @ concat (map tok_text toks) @ ''$'') = Some m"
  shows "m s \<longleftrightarrow> items_lang (map tok_item toks) s"
  using assms by (simp add: regex_documented_def items_match_iff_lang [symmetric])

lemma regex_documented_escape: "regex_documented R \<Longrightarrow> rx_escape R s = concat (map escape_char s)"
  by (simp add: regex_documented_def)

text \<open>
  A reference engine for the fragment: it reads the expression back into items.  It shows that the
  documented behaviour can be had, and lets the examples of the development compute.
\<close>

fun parse_items :: "str \<Rightarrow> re_item list option" where
  "parse_items [] = Some []"
| "parse_items (c # r) =
     (if c = BSLASH then
        (if r = [] then None else map_option (Cons (Lit (hd r))) (parse_items (tl r)))
      else if c = CHR ''.'' then
        (if r = [] \<or> hd r \<noteq> CHR ''*'' then None else map_option (Cons AnySeq) (parse_items (tl r)))
      else if c = CHR ''['' then
        (if length r < 4 \<or> hd r \<noteq> CHR ''^'' then None
         else map_option (Cons (NotSeq (r ! 1))) (parse_items (drop 4 r)))
      else if c \<in> set regex_syntax then None
      else map_option (Cons (Lit c)) (parse_items r))"

definition ref_regex :: regex_lib where
  "ref_regex =
     \<lparr>rx_new = (\<lambda>p. if p = [] then None else map_option items_match (parse_items (butlast (tl p)))),
      rx_escape = (\<lambda>s. concat (map escape_char s))\<rparr>"

lemma parse_items_toks:
  "list_all tok_ok toks \<Longrightarrow> parse_items (concat (map tok_text toks)) = Some (map tok_item toks)"
proof (induction toks)
  case (Cons t toks)
  then show ?case by (cases t) (auto simp: regex_syntax_def numeral_eq_Suc)
qed simp

lemma ref_regex_documented: "regex_documented ref_regex"
  by (auto simp: regex_documented_def ref_regex_def parse_items_toks butlast_append)

subsection \<open>Lemmas: path patterns\<close>

text \<open>The wildcards of a path pattern, read off the pattern itself.\<close>

fun glob_items :: "str \<Rightarrow> re_item list" where
  "glob_items [] = []"
| "glob_items (c # cs) =
     (if c = CHR ''*'' \<and> cs \<noteq> [] \<and> hd cs = CHR ''*'' then AnySeq # glob_items (tl cs)
      else if c = CHR ''*'' then NotSeq (CHR ''/'') # glob_items cs
      else Lit c # glob_items cs)"

definition global_pattern :: "str \<Rightarrow> str" where
  "global_pattern p = (if CHR ''/'' \<in> set p then p else ''**'' @ p)"

definition glob_tok :: "re_item \<Rightarrow> re_tok" where
  "glob_tok i = (case i of Lit c \<Rightarrow> (if c \<in> set wildcard_special then Esc c else Raw c)
     | AnySeq \<Rightarrow> DotStar | NotSeq c \<Rightarrow> NotStar c)"

lemma glob_tok_item [simp]: "tok_item (glob_tok i) = i"
  by (cases i) (auto simp: glob_tok_def)

lemma wildcard_body_toks: "wildcard_body p = concat (map tok_text (map glob_tok (glob_items p)))"
  by (induction p rule: wildcard_body.induct) (auto simp: glob_tok_def wildcard_special_def)

lemma special_syntax: "set regex_syntax = insert (CHR ''*'') (set wildcard_special)"
  and special_meta: "set wildcard_special \<subseteq> set regex_meta"
  by (auto simp: regex_syntax_def wildcard_special_def regex_meta_def)

lemma glob_tok_ok: "list_all tok_ok (map glob_tok (glob_items p))"
proof (induction p rule: glob_items.induct)
  case (2 c cs)
  then show ?case
    using special_meta by (auto simp: glob_tok_def special_syntax)
qed simp

lemma do_match_iff:
  assumes "regex_documented R"
  shows "do_match R p t \<longleftrightarrow> rx_new R (wildcard_to_regex p) \<noteq> None \<and> items_lang (glob_items p) t"
proof (cases "rx_new R (wildcard_to_regex p)")
  case (Some m)
  with regex_documentedD [OF assms glob_tok_ok, of p m t] show ?thesis
    by (simp add: do_match_def wildcard_to_regex_def wildcard_body_toks comp_def)
qed (simp add: do_match_def)

lemma match_pattern_iff:
  assumes "regex_documented R" and "CHR ''*'' \<in> set p"
  shows "match_pattern R p t \<longleftrightarrow>
     rx_new R (wildcard_to_regex (global_pattern (normalize_path p))) \<noteq> None \<and>
     items_lang (glob_items (global_pattern (normalize_path p))) (normalize_path t)"
proof -
  have "CHR ''*'' \<in> set (normalize_path p)"
    using assms(2) by (auto simp: normalize_path_def replace_char_def)
  then show ?thesis
    using do_match_iff [OF assms(1)] by (simp add: match_pattern_def global_pattern_def Let_def)
qed

lemma glob_items_literal: "CHR ''*'' \<notin> set d \<Longrightarrow> glob_items (d @ e) = map Lit d @ glob_items e"
  by (induction d) auto

lemma items_lang_literal: "items_lang (map Lit d @ is) s \<longleftrightarrow> (\<exists>t. s = d @ t \<and> items_lang is t)"
  by (induction d arbitrary: s) (auto simp: items_lang_Cons)

lemma normalize_path_append [simp]: "normalize_path (a @ b) = normalize_path a @ normalize_path b"
  by (simp add: normalize_path_def replace_char_def)

lemma star_normalize_path [simp]: "CHR ''*'' \<in> set (normalize_path p) \<longleftrightarrow> CHR ''*'' \<in> set p"
  by (auto simp: normalize_path_def replace_char_def)

lemma normalize_path_not_BSLASH: "BSLASH \<notin> set (normalize_path p)"
  by (auto simp: normalize_path_def replace_char_def)

lemma normalize_path_id: "BSLASH \<notin> set p \<Longrightarrow> normalize_path p = p"
  by (induction p) (auto simp: normalize_path_def replace_char_def)

subsection \<open>Lemmas: command and domain patterns\<close>

declare replace_str.simps(2) [simp del]

lemma escape_char_NUL: "c \<noteq> NUL \<Longrightarrow> NUL \<notin> set (escape_char c)"
  by (auto simp: escape_char_def)

lemma escape_placeholder [simp]:
  "concat (map escape_char WILDCARD_PLACEHOLDER) = WILDCARD_PLACEHOLDER"
  "concat (map escape_char DOT_PLACEHOLDER) = DOT_PLACEHOLDER"
  by (simp_all add: WILDCARD_PLACEHOLDER_def DOT_PLACEHOLDER_def escape_char_def regex_meta_def)

definition command_items :: "str \<Rightarrow> re_item list" where
  "command_items p = map (\<lambda>c. if c = CHR ''*'' then AnySeq else Lit c) p"

definition meta_tok :: "re_item \<Rightarrow> re_tok" where
  "meta_tok i = (case i of Lit c \<Rightarrow> (if c \<in> set regex_meta then Esc c else Raw c)
     | AnySeq \<Rightarrow> DotStar | NotSeq c \<Rightarrow> NotStar c)"

lemma meta_tok_item [simp]: "tok_item (meta_tok i) = i"
  by (cases i) (auto simp: meta_tok_def)

lemma tok_text_meta_Lit [simp]: "tok_text (meta_tok (Lit c)) = escape_char c"
  by (simp add: meta_tok_def escape_char_def)

lemma syntax_meta: "set regex_syntax \<subseteq> set regex_meta"
  by (auto simp: regex_syntax_def regex_meta_def)

lemma tok_ok_meta_Lit [simp]: "tok_ok (meta_tok (Lit c))" "tok_ok (meta_tok AnySeq)"
  using syntax_meta by (auto simp: meta_tok_def)

lemma command_body:
  "NUL \<notin> set p \<Longrightarrow>
   replace_str WILDCARD_PLACEHOLDER ''.*''
     (concat (map escape_char (replace_char (CHR ''*'') WILDCARD_PLACEHOLDER p))) =
   concat (map tok_text (map meta_tok (command_items p)))"
proof (induction p)
  case Nil
  then show ?case by (simp add: replace_char_def command_items_def)
next
  case (Cons c p)
  have IH: "replace_str WILDCARD_PLACEHOLDER ''.*''
     (concat (map escape_char (replace_char (CHR ''*'') WILDCARD_PLACEHOLDER p))) =
     concat (map tok_text (map meta_tok (command_items p)))"
    using Cons by simp
  have skip: "replace_str WILDCARD_PLACEHOLDER ''.*'' (w @ xs) = w @ replace_str WILDCARD_PLACEHOLDER ''.*'' xs"
    if "NUL \<notin> set w" for w xs
    using that unfolding WILDCARD_PLACEHOLDER_def by (simp add: replace_str_skip_list)
  have ne: "WILDCARD_PLACEHOLDER \<noteq> []" by (simp add: WILDCARD_PLACEHOLDER_def)
  have "NUL \<notin> set (escape_char c)" using Cons.prems by (intro escape_char_NUL) auto
  then show ?case
    using IH by (simp add: replace_char_def command_items_def skip ne meta_tok_def [of AnySeq])
qed

lemma match_command_pattern_iff:
  assumes "regex_documented R" and "NUL \<notin> set p"
  shows "match_command_pattern R p t \<longleftrightarrow>
     rx_new R (command_regex R p) \<noteq> None \<and> items_lang (command_items p) t"
proof (cases "rx_new R (command_regex R p)")
  case (Some m)
  have ok: "list_all tok_ok (map meta_tok (command_items p))"
    by (auto simp: list_all_iff command_items_def)
  have "command_regex R p = ''^'' @ concat (map tok_text (map meta_tok (command_items p))) @ ''$''"
    by (simp add: command_regex_def regex_documented_escape [OF assms(1)] command_body [OF assms(2)])
  with Some regex_documentedD [OF assms(1) ok, of m t] show ?thesis
    by (simp add: match_command_pattern_def comp_def)
qed (simp add: match_command_pattern_def)

definition domain_items :: "str \<Rightarrow> re_item list" where
  "domain_items p = map (\<lambda>c. if c = CHR ''*'' then NotSeq (CHR ''.'') else Lit c) p"

text \<open>The text after each step of \<^verbatim>\<open>match_domain_pattern\<close>, character by character.\<close>

definition dom_escaped :: "char \<Rightarrow> str" where
  "dom_escaped c = (if c = CHR ''*'' then WILDCARD_PLACEHOLDER
     else if c = CHR ''.'' then DOT_PLACEHOLDER else escape_char c)"

definition dom_wild :: "char \<Rightarrow> str" where
  "dom_wild c = (if c = CHR ''*'' then ''[^.]*'' else if c = CHR ''.'' then DOT_PLACEHOLDER else escape_char c)"

lemma dom_steps_escape:
  "concat (map escape_char (replace_char (CHR ''.'') DOT_PLACEHOLDER
     (replace_char (CHR ''*'') WILDCARD_PLACEHOLDER p))) = concat (map dom_escaped p)"
proof (induction p)
  case (Cons c p)
  have "replace_char (CHR ''.'') DOT_PLACEHOLDER WILDCARD_PLACEHOLDER = WILDCARD_PLACEHOLDER"
    by (simp add: replace_char_def WILDCARD_PLACEHOLDER_def)
  with Cons show ?case
    by (auto simp: replace_char_def dom_escaped_def)
qed (simp add: replace_char_def)

lemma dom_escaped_hd:
  assumes "CHR ''W'' \<notin> set p" and "concat (map dom_escaped p) = x # xs"
  shows "x \<noteq> CHR ''W''"
proof (cases p)
  case (Cons c p')
  with assms show ?thesis
    by (auto simp: dom_escaped_def escape_char_def WILDCARD_PLACEHOLDER_def DOT_PLACEHOLDER_def
        split: if_splits)
qed (use assms in simp)

lemma skip_dot_placeholder:
  assumes "\<And>x xs. rest = x # xs \<Longrightarrow> x \<noteq> CHR ''W''"
  shows "replace_str WILDCARD_PLACEHOLDER r (DOT_PLACEHOLDER @ rest) =
    DOT_PLACEHOLDER @ replace_str WILDCARD_PLACEHOLDER r rest"
proof -
  have l: "replace_str WILDCARD_PLACEHOLDER r (w @ xs) = w @ replace_str WILDCARD_PLACEHOLDER r xs"
    if "NUL \<notin> set w" for w xs
    using that unfolding WILDCARD_PLACEHOLDER_def by (simp add: replace_str_skip_list)
  have miss: "replace_str WILDCARD_PLACEHOLDER r (NUL # rest) = NUL # replace_str WILDCARD_PLACEHOLDER r rest"
  proof (cases rest)
    case (Cons x xs)
    with assms [OF this] show ?thesis
      by (simp add: replace_str.simps(2) [of _ _ NUL] WILDCARD_PLACEHOLDER_def)
  qed (simp add: replace_str.simps(2) [of _ _ NUL] WILDCARD_PLACEHOLDER_def)
  have "replace_str WILDCARD_PLACEHOLDER r (NUL # ''LITERALDOT'' @ NUL # rest) =
      NUL # replace_str WILDCARD_PLACEHOLDER r (''LITERALDOT'' @ NUL # rest)"
    by (simp add: replace_str.simps(2) [of _ _ NUL] WILDCARD_PLACEHOLDER_def)
  with l [of "''LITERALDOT''" "NUL # rest"] miss show ?thesis
    by (simp add: DOT_PLACEHOLDER_def)
qed

lemma dom_steps_wild:
  "NUL \<notin> set p \<Longrightarrow> CHR ''W'' \<notin> set p \<Longrightarrow>
     replace_str WILDCARD_PLACEHOLDER ''[^.]*'' (concat (map dom_escaped p)) = concat (map dom_wild p)"
proof (induction p)
  case (Cons c p)
  have ne: "WILDCARD_PLACEHOLDER \<noteq> []" by (simp add: WILDCARD_PLACEHOLDER_def)
  have "NUL \<notin> set (escape_char c)" using Cons.prems by (intro escape_char_NUL) auto
  then have skip: "replace_str WILDCARD_PLACEHOLDER r (escape_char c @ xs) =
      escape_char c @ replace_str WILDCARD_PLACEHOLDER r xs" for r xs
    unfolding WILDCARD_PLACEHOLDER_def by (simp add: replace_str_skip_list)
  have "replace_str WILDCARD_PLACEHOLDER r (DOT_PLACEHOLDER @ concat (map dom_escaped p)) =
      DOT_PLACEHOLDER @ replace_str WILDCARD_PLACEHOLDER r (concat (map dom_escaped p))" for r
    using dom_escaped_hd [of p] Cons.prems by (intro skip_dot_placeholder) auto
  with Cons show ?case
    by (simp add: dom_escaped_def [of c] dom_wild_def [of c] skip ne)
qed simp

lemma dom_steps_dot:
  "NUL \<notin> set p \<Longrightarrow>
     replace_str DOT_PLACEHOLDER [BSLASH, CHR ''.''] (concat (map dom_wild p)) =
     concat (map tok_text (map meta_tok (domain_items p)))"
proof (induction p)
  case (Cons c p)
  have ne: "DOT_PLACEHOLDER \<noteq> []" by (simp add: DOT_PLACEHOLDER_def)
  have skip: "replace_str DOT_PLACEHOLDER r (w @ xs) = w @ replace_str DOT_PLACEHOLDER r xs"
    if "NUL \<notin> set w" for w r xs
    using that unfolding DOT_PLACEHOLDER_def by (simp add: replace_str_skip_list)
  have "NUL \<notin> set (escape_char c)" using Cons.prems by (intro escape_char_NUL) auto
  moreover have "NUL \<notin> set ''[^.]*''" by simp
  moreover have "escape_char (CHR ''.'') = [BSLASH, CHR ''.'']"
    by (simp add: escape_char_def regex_meta_def)
  moreover have "tok_text (meta_tok (NotSeq (CHR ''.''))) = ''[^.]*''"
    by (simp add: meta_tok_def)
  ultimately show ?case
    using Cons skip [of "escape_char c"] skip [of "''[^.]*''"] ne
    by (simp add: dom_wild_def [of c] domain_items_def)
qed (simp add: domain_items_def)

lemma to_lowercase_no_W: "CHR ''W'' \<notin> set (to_lowercase p)"
proof
  assume "CHR ''W'' \<in> set (to_lowercase p)"
  then obtain c where c: "to_lower_char c = CHR ''W''" by (auto simp: to_lowercase_def)
  then show False
  proof (cases "65 \<le> (of_char c :: nat) \<and> (of_char c :: nat) \<le> 90")
    case True
    with c have "char_of ((of_char c :: nat) + 32) = CHR ''W''" by (simp add: to_lower_char_def)
    then have "(of_char (char_of ((of_char c :: nat) + 32)) :: nat) = 87" by simp
    with True show False by simp
  next
    case False
    with c have "c = CHR ''W''" by (auto simp: to_lower_char_def)
    with False show False by simp
  qed
qed

lemma to_lower_char_NUL: "to_lower_char c = NUL \<Longrightarrow> c = NUL"
proof -
  assume n: "to_lower_char c = NUL"
  show "c = NUL"
  proof (rule ccontr)
    assume "c \<noteq> NUL"
    with n have u: "65 \<le> (of_char c :: nat)" "(of_char c :: nat) \<le> 90"
      "char_of ((of_char c :: nat) + 32) = NUL"
      by (auto simp: to_lower_char_def split: if_splits)
    from u(3) have "(of_char (char_of ((of_char c :: nat) + 32)) :: nat) = 0" by simp
    with u(1,2) show False by simp
  qed
qed

lemma to_lowercase_no_NUL: "NUL \<notin> set p \<Longrightarrow> NUL \<notin> set (to_lowercase p)"
  using to_lower_char_NUL by (fastforce simp: to_lowercase_def)

lemma match_domain_pattern_iff:
  assumes "regex_documented R" and "NUL \<notin> set p" and "CHR ''*'' \<in> set (to_lowercase p)"
  shows "match_domain_pattern R p d \<longleftrightarrow>
     rx_new R (domain_regex R (to_lowercase p)) \<noteq> None \<and>
     items_lang (domain_items (to_lowercase p)) (to_lowercase d)"
proof (cases "rx_new R (domain_regex R (to_lowercase p))")
  case (Some m)
  let ?p = "to_lowercase p"
  have ok: "list_all tok_ok (map meta_tok (domain_items ?p))"
    by (auto simp: list_all_iff domain_items_def meta_tok_def [of "NotSeq c" for c])
  have "domain_regex R ?p = ''^'' @ concat (map tok_text (map meta_tok (domain_items ?p))) @ ''$''"
    by (simp add: domain_regex_def regex_documented_escape [OF assms(1)] dom_steps_escape
        dom_steps_wild dom_steps_dot to_lowercase_no_W to_lowercase_no_NUL [OF assms(2)])
  with Some regex_documentedD [OF assms(1) ok, of m "to_lowercase d"] assms(3) show ?thesis
    by (simp add: match_domain_pattern_def comp_def)
qed (use assms(3) in \<open>simp add: match_domain_pattern_def\<close>)

subsection \<open>Lemmas: payloads and buckets\<close>

text \<open>The specification of the payload scan: the pieces occur one after the other.\<close>

fun ordered_pieces :: "str list \<Rightarrow> str \<Rightarrow> bool" where
  "ordered_pieces [] t \<longleftrightarrow> True"
| "ordered_pieces (p # ps) t \<longleftrightarrow> (\<exists>u v. t = u @ p @ v \<and> ordered_pieces ps v)"

lemma ordered_pieces_suffix: "ordered_pieces ps v \<Longrightarrow> ordered_pieces ps (u @ v)"
proof (cases ps)
  case (Cons p ps')
  assume "ordered_pieces ps v"
  with Cons obtain a b where "v = a @ p @ b" "ordered_pieces ps' b" by auto
  then have "u @ v = (u @ a) @ p @ b" "ordered_pieces ps' b" by simp_all
  with Cons show "ordered_pieces ps (u @ v)" unfolding Cons ordered_pieces.simps by blast
qed simp

lemma find_str_least:
  "find_str p (u @ p @ v) = Some i \<Longrightarrow> i \<le> length u"
proof (induction u arbitrary: i)
  case Nil
  have "prefix p (p @ v)" by simp
  with Nil show ?case by (cases "p @ v") auto
next
  case (Cons x u)
  then show ?case by (auto split: if_splits)
qed

lemma contains_in_order_iff: "contains_in_order ps t \<longleftrightarrow> ordered_pieces ps t"
proof (induction ps arbitrary: t)
  case (Cons p ps)
  show ?case
  proof (cases "find_str p t")
    case None
    then have "\<not> sublist p t" by (simp add: find_str_None_iff)
    with None show ?thesis by (auto simp: sublist_def)
  next
    case (Some i)
    from find_str_Some_iff [OF Some] obtain a b where ab: "t = a @ p @ b" "length a = i" by blast
    have "ordered_pieces ps b" if uv: "t = u @ p @ v" "ordered_pieces ps v" for u v
    proof -
      from find_str_least [of p u v i] Some uv(1) have "i \<le> length u" by simp
      moreover have "length (a @ p @ b) = length (u @ p @ v)" using ab(1) uv(1) by simp
      ultimately have "length v \<le> length b" using ab(2) by simp
      moreover have "suffix v t" "suffix b t"
        using ab(1) uv(1) by (metis append_assoc suffixI)+
      ultimately have "suffix v b" using suffix_length_suffix by blast
      with uv(2) show ?thesis by (auto simp: suffix_def ordered_pieces_suffix)
    qed
    with ab Some Cons.IH show ?thesis by (auto simp: drop_append)
  qed
qed simp

lemma length_token_offsets [simp]: "length (token_offsets o0 ts) = length ts"
  by (induction ts arbitrary: o0) auto

lemma token_offsets_shift:
  "j < length ts \<Longrightarrow> token_offsets (n + m) ts ! j = n + token_offsets m ts ! j"
proof (induction ts arbitrary: m j)
  case (Cons t ts)
  then show ?case using Cons.IH [of _ "m + length t + 1"] by (cases j) (auto simp: add.assoc)
qed simp

lemma join_drop_offset:
  "Suc j < length ts \<Longrightarrow>
     \<exists>pre. join '' '' ts = pre @ '' '' @ join '' '' (drop (Suc j) ts) \<and>
       length pre = token_offsets 0 ts ! j + length (ts ! j)"
proof (induction ts arbitrary: j)
  case (Cons t ts)
  then obtain v vs where ts: "ts = v # vs" by (cases ts) auto
  show ?case
  proof (cases j)
    case 0
    with ts show ?thesis by simp
  next
    case (Suc k)
    with Cons.prems have k: "Suc k < length ts" by simp
    from Cons.IH [OF this] obtain pre where
      pre: "join '' '' ts = pre @ '' '' @ join '' '' (drop (Suc k) ts)"
        "length pre = token_offsets 0 ts ! k + length (ts ! k)" by blast
    have "token_offsets 0 (t # ts) ! j = length t + 1 + token_offsets 0 ts ! k"
      using Suc k token_offsets_shift [of k ts "length t + 1" 0] by simp
    with pre Suc ts show ?thesis by (intro exI [of _ "t @ '' '' @ pre"]) simp
  qed
qed simp

lemma split_on_join:
  "\<forall>t \<in> set ts. c \<notin> set t \<Longrightarrow> ts \<noteq> [] \<Longrightarrow> split_on c (join [c] ts) = ts"
proof (induction "[c]" ts rule: join.induct)
  case (2 w)
  then show ?case by (induction w) auto
next
  case (3 w v ws)
  then have "c \<notin> set w" "split_on c (join [c] (v # ws)) = v # ws" by simp_all
  then have "split_on c (w @ c # join [c] (v # ws)) = w # v # ws"
    by (induction w) auto
  then show ?case by simp
qed simp

lemma command_tokens_join:
  "\<forall>t \<in> set ts. t \<noteq> [] \<and> CHR '' '' \<notin> set t \<Longrightarrow> command_tokens (join '' '' ts) = ts"
  by (cases "ts = []") (auto simp: command_tokens_def split_on_join filter_id_conv)

definition word_tokens :: "str list \<Rightarrow> bool" where
  "word_tokens ts \<longleftrightarrow> list_all (\<lambda>t. t \<noteq> [] \<and> list_all (\<lambda>c. \<not> is_whitespace c) t) ts"

lemma word_tokens_drop: "word_tokens ts \<Longrightarrow> word_tokens (drop n ts)"
  by (auto simp: word_tokens_def list_all_iff dest: in_set_dropD)

lemma join_hd_last:
  "word_tokens ts \<Longrightarrow> ts \<noteq> [] \<Longrightarrow>
     join '' '' ts \<noteq> [] \<and> \<not> is_whitespace (hd (join '' '' ts)) \<and> \<not> is_whitespace (last (join '' '' ts))"
  by (induction "'' '' :: str" ts rule: join.induct) (auto simp: word_tokens_def list_all_iff)

lemma trim_join:
  assumes "word_tokens ts"
  shows "trim (join '' '' ts) = join '' '' ts"
proof (cases "ts = []")
  case False
  let ?s = "join '' '' ts"
  from join_hd_last [OF assms False]
  have s: "?s \<noteq> []" "\<not> is_whitespace (hd ?s)" "\<not> is_whitespace (last ?s)" by auto
  then have "dropWhile is_whitespace ?s = ?s" by (simp add: dropWhile_eq_self_iff)
  moreover from s have "dropWhile is_whitespace (rev ?s) = rev ?s"
    by (simp add: dropWhile_eq_self_iff hd_rev)
  ultimately show ?thesis by (simp add: trim_def trim_start_def trim_end_def)
qed simp

lemma command_tokens_words: "word_tokens ts \<Longrightarrow> command_tokens (join '' '' ts) = ts"
  by (rule command_tokens_join) (auto simp: word_tokens_def list_all_iff is_whitespace_def)

lemma find_upt:
  assumes "i < j" "j < n" "P j" "\<And>k. i < k \<Longrightarrow> k < j \<Longrightarrow> \<not> P k"
  shows "find P [Suc i..<n] = Some j"
  unfolding find_Some_iff
  using assms by (intro exI [of _ "j - Suc i"]) auto

interpretation exec: segmenter exec_rule_segments
  by unfold_locales (simp only: exec_rule_segments_def set_map cmd.segments_compound image_Un)

subsection \<open>Properties\<close>

text \<open>
  The path patterns mean what the rules say.  A pattern with wildcards matches a target exactly
  when, both with separators normalised, the target splits into pieces for the items of the pattern:
  a character stands for itself, \<^verbatim>\<open>*\<close> for a piece without a slash, \<^verbatim>\<open>**\<close> for a piece without a line feed,
  and a pattern without a slash is preceded by \<^verbatim>\<open>**\<close>.  The other condition is that the regex crate
  accepts the generated expression.
\<close>

theorem match_pattern_spec:
  assumes "regex_documented R" and "CHR ''*'' \<in> set p"
  shows "match_pattern R p t \<longleftrightarrow>
     rx_new R (wildcard_to_regex (global_pattern (normalize_path p))) \<noteq> None \<and>
     (\<exists>ws. list_all2 item_lang (glob_items (global_pattern (normalize_path p))) ws \<and>
        normalize_path t = concat ws)"
  using match_pattern_iff [OF assms] by (simp add: items_lang_def)

theorem match_pattern_spec_witness:
  "match_pattern ref_regex ''*.key'' ''/home/a.key'' \<longleftrightarrow>
     rx_new ref_regex (wildcard_to_regex (global_pattern (normalize_path ''*.key''))) \<noteq> None \<and>
     (\<exists>ws. list_all2 item_lang (glob_items (global_pattern (normalize_path ''*.key''))) ws \<and>
        normalize_path ''/home/a.key'' = concat ws)"
  by (rule match_pattern_spec [OF ref_regex_documented]) simp

text \<open>
  The rule for a directory tree, \<^verbatim>\<open>dir/**\<close>, matches every target below the directory at any
  depth, with one exception the documentation of \<^verbatim>\<open>match_pattern\<close> does not mention: no target whose
  remainder holds a line feed is matched.
\<close>

theorem match_pattern_tree:
  assumes "regex_documented R" and "CHR ''*'' \<notin> set d" and "BSLASH \<notin> set d"
    and "rx_new R (wildcard_to_regex (d @ ''/**'')) \<noteq> None"
  shows "match_pattern R (d @ ''/**'') t \<longleftrightarrow>
    (\<exists>x. normalize_path t = d @ ''/'' @ x \<and> LF \<notin> set x)"
proof -
  have n: "normalize_path (d @ ''/**'') = d @ ''/**''"
    using assms(3) by (intro normalize_path_id) auto
  have "glob_items (d @ ''/**'') = map Lit (d @ ''/'') @ [AnySeq]"
    using assms(2) by (simp add: glob_items_literal)
  then have "items_lang (glob_items (d @ ''/**'')) s \<longleftrightarrow> (\<exists>x. s = (d @ ''/'') @ x \<and> items_lang [AnySeq] x)" for s
    by (simp only: items_lang_literal)
  moreover have "items_lang [AnySeq] x \<longleftrightarrow> LF \<notin> set x" for x
    by (simp add: items_lang_Cons)
  ultimately show ?thesis
    using match_pattern_iff [OF assms(1), of "d @ ''/**''" t] assms(4)
    by (simp add: n global_pattern_def del: normalize_path_append)
qed

theorem match_pattern_tree_witness:
  "match_pattern ref_regex (''/etc'' @ ''/**'') ''/etc/ssl/key'' \<longleftrightarrow>
    (\<exists>x. normalize_path ''/etc/ssl/key'' = ''/etc'' @ ''/'' @ x \<and> LF \<notin> set x)"
proof (rule match_pattern_tree [OF ref_regex_documented])
  show "rx_new ref_regex (wildcard_to_regex (''/etc'' @ ''/**'')) \<noteq> None" by code_simp
qed simp_all

text \<open>
  A command pattern without NUL characters matches a command exactly when the command splits
  into pieces for the characters of the pattern, where \<^verbatim>\<open>*\<close> stands for any piece without a line feed
  and every other character, regex meta characters included, for itself.  The placeholders that
  carry the wildcards through \<^verbatim>\<open>regex::escape\<close> cannot be confused with the pattern's own text.
\<close>

theorem match_command_pattern_spec:
  assumes "regex_documented R" and "NUL \<notin> set p"
  shows "match_command_pattern R p t \<longleftrightarrow>
     rx_new R (command_regex R p) \<noteq> None \<and>
     (\<exists>ws. list_all2 (\<lambda>c w. if c = CHR ''*'' then LF \<notin> set w else w = [c]) p ws \<and> t = concat ws)"
proof -
  have "item_lang (if c = CHR ''*'' then AnySeq else Lit c) w = (if c = CHR ''*'' then LF \<notin> set w else w = [c])"
    for c w by simp
  then show ?thesis
    using match_command_pattern_iff [OF assms, of t]
    by (simp only: items_lang_def command_items_def list_all2_map1)
qed

theorem match_command_pattern_spec_witness:
  "match_command_pattern ref_regex ''git *'' ''git push'' \<longleftrightarrow>
     rx_new ref_regex (command_regex ref_regex ''git *'') \<noteq> None \<and>
     (\<exists>ws. list_all2 (\<lambda>c w. if c = CHR ''*'' then LF \<notin> set w else w = [c]) ''git *'' ws \<and>
        ''git push'' = concat ws)"
  by (rule match_command_pattern_spec [OF ref_regex_documented]) simp

text \<open>
  In a domain pattern \<^verbatim>\<open>*\<close> stays within one label: the lower-cased domain splits into pieces for
  the characters of the lower-cased pattern, and the piece for \<^verbatim>\<open>*\<close> has no dot.
\<close>

theorem match_domain_pattern_spec:
  assumes "regex_documented R" and "NUL \<notin> set p" and "CHR ''*'' \<in> set (to_lowercase p)"
  shows "match_domain_pattern R p d \<longleftrightarrow>
     rx_new R (domain_regex R (to_lowercase p)) \<noteq> None \<and>
     (\<exists>ws. list_all2 (\<lambda>c w. if c = CHR ''*'' then CHR ''.'' \<notin> set w else w = [c]) (to_lowercase p) ws \<and>
        to_lowercase d = concat ws)"
proof -
  have "item_lang (if c = CHR ''*'' then NotSeq (CHR ''.'') else Lit c) w =
      (if c = CHR ''*'' then CHR ''.'' \<notin> set w else w = [c])"
    for c w by simp
  then show ?thesis
    using match_domain_pattern_iff [OF assms, of d]
    by (simp only: items_lang_def domain_items_def list_all2_map1)
qed

theorem match_domain_pattern_spec_witness:
  "match_domain_pattern ref_regex ''*.github.com'' ''api.github.com'' \<longleftrightarrow>
     rx_new ref_regex (domain_regex ref_regex (to_lowercase ''*.github.com'')) \<noteq> None \<and>
     (\<exists>ws. list_all2 (\<lambda>c w. if c = CHR ''*'' then CHR ''.'' \<notin> set w else w = [c])
        (to_lowercase ''*.github.com'') ws \<and> to_lowercase ''api.github.com'' = concat ws)"
proof (rule match_domain_pattern_spec [OF ref_regex_documented])
  show "CHR ''*'' \<in> set (to_lowercase ''*.github.com'')" by code_simp
qed simp

text \<open>
  The payload scan finds a rule's literal pieces wherever they occur in order.  The greedy search
  for the first occurrence of each piece decides exactly whether the pieces of the pattern occur one
  after the other, without overlap, somewhere in the text.
\<close>

theorem glob_contains_spec:
  "glob_contains p t \<longleftrightarrow> ordered_pieces (filter (\<lambda>s. s \<noteq> []) (split_on (CHR ''*'') p)) t"
  by (simp add: glob_contains_def contains_in_order_iff)

text \<open>
  The payload of an interpreter call is not lost.  In a command line of single-spaced words, a
  word that names a wrapper (with or without directory and \<^verbatim>\<open>.exe\<close>) followed, possibly after other
  words, by one of its payload flags contributes everything behind the first such flag.
\<close>

theorem extract_interpreter_payloads_complete:
  assumes "word_tokens ts" and "i < j" and "Suc j < length ts"
    and "map_of WRAPPERS (bin_key (ts ! i)) = Some flags" and "ts ! j \<in> set flags"
    and "\<And>k. i < k \<Longrightarrow> k < j \<Longrightarrow> ts ! k \<notin> set flags"
  shows "join '' '' (drop (Suc j) ts) \<in> set (extract_interpreter_payloads (join '' '' ts))"
proof -
  have "find (\<lambda>j. ts ! j \<in> set flags) [Suc i..<length ts] = Some j"
    using assms by (intro find_upt) auto
  moreover obtain pre where pre: "join '' '' ts = pre @ '' '' @ join '' '' (drop (Suc j) ts)"
    "length pre = token_offsets 0 ts ! j + length (ts ! j)"
    using join_drop_offset [OF assms(3)] by blast
  moreover have "trim ('' '' @ join '' '' (drop (Suc j) ts)) = join '' '' (drop (Suc j) ts)"
    using word_tokens_drop [OF assms(1)] by (simp add: trim_join)
  moreover have "join '' '' (drop (Suc j) ts) \<noteq> []"
    using join_hd_last [OF word_tokens_drop [OF assms(1), of "Suc j"]] assms(3) by simp
  ultimately have "payload_at (join '' '' ts) ts i = Some (join '' '' (drop (Suc j) ts))"
    using assms(4) by (simp add: payload_at_def Let_def)
  moreover have "i \<in> set [0..<length ts]" using assms(2,3) by simp
  ultimately show ?thesis
    by (force simp: extract_interpreter_payloads_def command_tokens_words [OF assms(1)]
        List.map_filter_def)
qed

theorem extract_interpreter_payloads_complete_witness:
  "join '' '' (drop (Suc 2) [''/bin/bash'', ''-x'', ''-c'', ''rm'', ''-rf'']) \<in>
    set (extract_interpreter_payloads (join '' '' [''/bin/bash'', ''-x'', ''-c'', ''rm'', ''-rf'']))"
proof (rule extract_interpreter_payloads_complete [where i = 0 and flags = "[''-c'']"])
  show "word_tokens [''/bin/bash'', ''-x'', ''-c'', ''rm'', ''-rf'']" by code_simp
  show "map_of WRAPPERS (bin_key ([''/bin/bash'', ''-x'', ''-c'', ''rm'', ''-rf''] ! 0)) = Some [''-c'']"
    by code_simp
  fix k :: nat
  assume "0 < k" "k < 2"
  then have "k = 1" by simp
  then show "[''/bin/bash'', ''-x'', ''-c'', ''rm'', ''-rf''] ! k \<notin> set [''-c'']" by simp
qed simp_all



end
