(* ===== verification/SecurityTypes.thy ===== *)
theory SecurityTypes
  imports Prelude
begin

text \<open>
  The vocabulary of the security subsystem, crates/nemesis-security/src/types.rs: operation types
  and their slugs, danger levels, the tool table (with the process-wide table of declared tools
  that MCP servers and plugins fill), and the extraction of the audited target and URL from the
  JSON arguments of a tool call.
\<close>

subsection \<open>Operation types and danger levels\<close>

datatype operation_type =
    FileRead | FileWrite | FileDelete
  | DirRead | DirCreate | DirDelete
  | ProcessExec | ProcessSpawn | ProcessKill | ProcessSuspend
  | NetworkDownload | NetworkUpload | NetworkRequest
  | HardwareI2C | HardwareSPI | HardwareGPIO
  | SystemShutdown | SystemReboot | SystemConfig | SystemService | SystemInstall
  | RegistryRead | RegistryWrite | RegistryDelete
  | Internal

text \<open>The \<^verbatim>\<open>Display\<close> implementation: the slug of an operation type.\<close>

fun op_slug :: "operation_type \<Rightarrow> str" where
  "op_slug FileRead = ''file_read''"
| "op_slug FileWrite = ''file_write''"
| "op_slug FileDelete = ''file_delete''"
| "op_slug DirRead = ''dir_read''"
| "op_slug DirCreate = ''dir_create''"
| "op_slug DirDelete = ''dir_delete''"
| "op_slug ProcessExec = ''process_exec''"
| "op_slug ProcessSpawn = ''process_spawn''"
| "op_slug ProcessKill = ''process_kill''"
| "op_slug ProcessSuspend = ''process_suspend''"
| "op_slug NetworkDownload = ''network_download''"
| "op_slug NetworkUpload = ''network_upload''"
| "op_slug NetworkRequest = ''network_request''"
| "op_slug HardwareI2C = ''hardware_i2c''"
| "op_slug HardwareSPI = ''hardware_spi''"
| "op_slug HardwareGPIO = ''hardware_gpio''"
| "op_slug SystemShutdown = ''system_shutdown''"
| "op_slug SystemReboot = ''system_reboot''"
| "op_slug SystemConfig = ''system_config''"
| "op_slug SystemService = ''system_service''"
| "op_slug SystemInstall = ''system_install''"
| "op_slug RegistryRead = ''registry_read''"
| "op_slug RegistryWrite = ''registry_write''"
| "op_slug RegistryDelete = ''registry_delete''"
| "op_slug Internal = ''internal''"

datatype danger_level = Low | Medium | High | Critical

text \<open>The derived \<^verbatim>\<open>Ord\<close> follows the discriminants 0..3.\<close>

fun danger_rank :: "danger_level \<Rightarrow> nat" where
  "danger_rank Low = 0"
| "danger_rank Medium = 1"
| "danger_rank High = 2"
| "danger_rank Critical = 3"

instantiation danger_level :: linorder
begin

definition less_eq_danger_level :: "danger_level \<Rightarrow> danger_level \<Rightarrow> bool" where
  "less_eq_danger_level a b \<longleftrightarrow> danger_rank a \<le> danger_rank b"

definition less_danger_level :: "danger_level \<Rightarrow> danger_level \<Rightarrow> bool" where
  "less_danger_level a b \<longleftrightarrow> danger_rank a < danger_rank b"

instance
proof
  fix x y :: danger_level
  assume "x \<le> y" and "y \<le> x"
  then show "x = y"
    by (cases x; cases y) (simp_all add: less_eq_danger_level_def)
qed (auto simp: less_eq_danger_level_def less_danger_level_def)

end

fun danger_label :: "danger_level \<Rightarrow> str" where
  "danger_label Low = ''LOW''"
| "danger_label Medium = ''MEDIUM''"
| "danger_label High = ''HIGH''"
| "danger_label Critical = ''CRITICAL''"

definition get_danger_level :: "operation_type \<Rightarrow> danger_level" where
  "get_danger_level op =
     (if op \<in> {FileRead, DirRead, Internal} then Low
      else if op \<in> {NetworkDownload, NetworkRequest} then Medium
      else if op \<in> {FileWrite, FileDelete, DirCreate, DirDelete, ProcessSpawn} then High
      else if op \<in> {ProcessExec, ProcessKill, SystemShutdown, SystemReboot, SystemConfig,
                    SystemService, SystemInstall, RegistryWrite, RegistryDelete} then Critical
      else Medium)"

definition operation_type_from_slug :: "str \<Rightarrow> operation_type option" where
  "operation_type_from_slug slug =
     (if slug = ''file_read'' then Some FileRead
      else if slug = ''file_write'' then Some FileWrite
      else if slug = ''file_delete'' then Some FileDelete
      else if slug = ''dir_read'' then Some DirRead
      else if slug = ''dir_create'' then Some DirCreate
      else if slug = ''dir_delete'' then Some DirDelete
      else if slug = ''process_exec'' then Some ProcessExec
      else if slug = ''process_spawn'' then Some ProcessSpawn
      else if slug = ''process_kill'' then Some ProcessKill
      else if slug = ''process_suspend'' then Some ProcessSuspend
      else if slug = ''network_download'' then Some NetworkDownload
      else if slug = ''network_upload'' then Some NetworkUpload
      else if slug = ''network_request'' then Some NetworkRequest
      else if slug = ''hardware_i2c'' then Some HardwareI2C
      else if slug = ''hardware_spi'' then Some HardwareSPI
      else if slug = ''hardware_gpio'' then Some HardwareGPIO
      else if slug = ''system_shutdown'' then Some SystemShutdown
      else if slug = ''system_reboot'' then Some SystemReboot
      else if slug = ''system_config'' then Some SystemConfig
      else if slug = ''system_service'' then Some SystemService
      else if slug = ''system_install'' then Some SystemInstall
      else if slug = ''registry_read'' then Some RegistryRead
      else if slug = ''registry_write'' then Some RegistryWrite
      else if slug = ''registry_delete'' then Some RegistryDelete
      else if slug = ''internal'' then Some Internal
      else None)"

definition danger_level_of_slug :: "str \<Rightarrow> str" where
  "danger_level_of_slug slug =
     (case operation_type_from_slug slug of
        Some op \<Rightarrow> danger_label (get_danger_level op)
      | None \<Rightarrow> ''CRITICAL'')"

datatype security_decision = Allowed | Denied | RequireApproval

record security_rule =
  pattern :: str
  action :: str
  comment :: str

subsection \<open>JSON values and tool calls\<close>

text \<open>
  \<^verbatim>\<open>serde_json::Value\<close>; the modelled code never looks inside a number, so a number is its text.
\<close>

datatype json = JNull | JBool bool | JNumber str | JString str | JArray "json list"
  | JObject "(str \<times> json) list"

fun json_get :: "json \<Rightarrow> str \<Rightarrow> json option" where
  "json_get (JObject kvs) k = map_of kvs k"
| "json_get _ k = None"

fun json_as_str :: "json \<Rightarrow> str option" where
  "json_as_str (JString s) = Some s"
| "json_as_str _ = None"

text \<open>\<^verbatim>\<open>v.and_then(as_str).unwrap_or("")\<close> and the \<^verbatim>\<open>or_else\<close> on the looked-up value.\<close>

definition str_or_empty :: "json option \<Rightarrow> str" where
  "str_or_empty v = (case v of None \<Rightarrow> '''' | Some j \<Rightarrow> (case json_as_str j of None \<Rightarrow> '''' | Some s \<Rightarrow> s))"

definition or_else :: "'a option \<Rightarrow> 'a option \<Rightarrow> 'a option" where
  "or_else a b = (case a of None \<Rightarrow> b | Some x \<Rightarrow> Some x)"

record tool_invocation =
  tool_name :: str
  args :: json
  user :: str
  source :: str
  metadata :: "str \<rightharpoonup> str"

subsection \<open>The table of declared tools\<close>

type_synonym tool_table = "str \<rightharpoonup> operation_type"

definition declare_tool_operation :: "str \<Rightarrow> operation_type \<Rightarrow> tool_table \<Rightarrow> tool_table" where
  "declare_tool_operation tool op t = t(tool \<mapsto> op)"

definition undeclare_tool_operation :: "str \<Rightarrow> tool_table \<Rightarrow> tool_table" where
  "undeclare_tool_operation tool t = t(tool := None)"

definition undeclare_tool_operations_with_prefix :: "str \<Rightarrow> tool_table \<Rightarrow> tool_table" where
  "undeclare_tool_operations_with_prefix p t = (\<lambda>name. if prefix p name then None else t name)"

definition builtin_tool_operation :: "str \<Rightarrow> operation_type option" where
  "builtin_tool_operation t =
     (if t \<in> set [''read_file'', ''file_exists''] then Some FileRead
      else if t \<in> set [''write_file'', ''edit_file'', ''append_file'', ''multiedit''] then Some FileWrite
      else if t = ''delete_file'' then Some FileDelete
      else if t \<in> set [''list_directory'', ''list_dir''] then Some DirRead
      else if t \<in> set [''create_directory'', ''create_dir''] then Some DirCreate
      else if t \<in> set [''delete_directory'', ''delete_dir''] then Some DirDelete
      else if t \<in> set [''exec'', ''execute_command'', ''shell'', ''exec_async'', ''background_start'',
                       ''cron'', ''run_script'', ''run_checks'', ''claude_code'', ''codex_delegate'']
        then Some ProcessExec
      else if t \<in> set [''git'', ''grep''] then Some FileRead
      else if t = ''spawn'' then Some ProcessSpawn
      else if t = ''desktop'' then Some ProcessSpawn
      else if t \<in> set [''kill'', ''kill_process''] then Some ProcessKill
      else if t \<in> set [''download'', ''install_skill''] then Some NetworkDownload
      else if t = ''upload'' then Some NetworkUpload
      else if t \<in> set [''http_request'', ''web_request'', ''web_fetch'', ''web_search'',
                       ''cluster_rpc'', ''find_skills''] then Some NetworkRequest
      else if t \<in> set [''browser'', ''mcp_discover''] then Some NetworkRequest
      else if t = ''screen_capture'' then Some FileWrite
      else if t = ''todowrite'' then Some FileWrite
      else if t = ''workflow_create'' then Some FileWrite
      else if t = ''generate_image'' then Some NetworkRequest
      else if t = ''lsp'' then Some FileRead
      else if t = ''i2c'' then Some HardwareI2C
      else if t = ''spi'' then Some HardwareSPI
      else if t = ''board_issue'' then Some FileWrite
      else if t = ''board_evidence_read'' then Some FileRead
      else if t = ''skill_manage'' then Some FileWrite
      else if t = ''complete_bootstrap'' then Some FileDelete
      else if t = ''memory_store'' then Some FileWrite
      else if t = ''memory_forget'' then Some FileDelete
      else if t \<in> set [''message'', ''sleep'', ''question'', ''subagent'', ''skills_list'',
                       ''skills_info'', ''cli_reference'', ''history_search'', ''mcp_list'',
                       ''workflow_run'', ''workflow_capabilities'', ''memory_search'',
                       ''memory_list'', ''background_output'', ''background_kill'']
        then Some Internal
      else None)"

definition tool_to_operation :: "tool_table \<Rightarrow> str \<Rightarrow> operation_type option" where
  "tool_to_operation t name =
     (case t name of Some op \<Rightarrow> Some op | None \<Rightarrow> builtin_tool_operation name)"

subsection \<open>Target and URL of a call\<close>

definition extract_target :: "str \<Rightarrow> json \<Rightarrow> str" where
  "extract_target tool a =
     (if tool \<in> set [''read_file'', ''write_file'', ''edit_file'', ''append_file'', ''delete_file'',
                     ''board_evidence_read'']
        then str_or_empty (json_get a ''path'')
      else if tool \<in> set [''list_directory'', ''list_dir'', ''create_directory'', ''create_dir'',
                          ''delete_directory'', ''delete_dir'']
        then str_or_empty (json_get a ''path'')
      else if tool \<in> set [''exec'', ''execute_command'', ''spawn'', ''shell'', ''exec_async'',
                          ''background_start'']
        then str_or_empty (json_get a ''command'')
      else if tool \<in> set [''download'', ''upload'', ''http_request'', ''web_request'', ''web_fetch'',
                          ''web_search'', ''find_skills'']
        then str_or_empty (json_get a ''url'')
      else if tool = ''cluster_rpc'' then str_or_empty (json_get a ''peer_id'')
      else if tool = ''cron'' then str_or_empty (or_else (json_get a ''command'') (json_get a ''message''))
      else if tool = ''screen_capture''
        then str_or_empty (or_else (json_get a ''save_path'') (json_get a ''path''))
      else if tool = ''generate_image'' then str_or_empty (json_get a ''output'')
      else if tool = ''install_skill''
        then str_or_empty (or_else (json_get a ''url'') (json_get a ''source''))
      else '''')"

definition extract_url :: "str \<Rightarrow> json \<Rightarrow> str" where
  "extract_url tool a =
     (if tool \<in> set [''download'', ''upload'', ''http_request'', ''web_request'', ''web_fetch'',
                     ''web_search'', ''install_skill'', ''find_skills'']
        then str_or_empty (or_else (json_get a ''url'') (json_get a ''source''))
      else '''')"

subsection \<open>Lemmas\<close>

lemma op_slug_not_Nil [simp]: "op_slug op \<noteq> []"
  by (cases op) simp_all

lemma operation_type_from_slug_op_slug [simp]: "operation_type_from_slug (op_slug op) = Some op"
  by (cases op) (simp_all add: operation_type_from_slug_def)

lemma operation_type_from_slug_Some: "operation_type_from_slug s = Some op \<Longrightarrow> s = op_slug op"
  by (auto simp: operation_type_from_slug_def split: if_splits)

lemma op_slug_inject [simp]: "op_slug a = op_slug b \<longleftrightarrow> a = b"
  by (metis operation_type_from_slug_op_slug option.inject)

lemma danger_label_inject [simp]: "danger_label a = danger_label b \<longleftrightarrow> a = b"
  by (cases a; cases b) simp_all

lemma danger_label_Critical_iff [simp]: "danger_label d = ''CRITICAL'' \<longleftrightarrow> d = Critical"
  by (cases d) simp_all

end
