(* ===== verification/EditorAccess.thy ===== *)
theory EditorAccess
  imports SecurityTypes
begin

text \<open>
  The two run-time switches of the editor, crates/nemesis-security/src/editor_access.rs, and the
  unattended-approval switch, crates/nemesis-security/src/approval_auto.rs.

  The editor switches short-cut the rule evaluation of the auditor: \<^verbatim>\<open>evaluate\<close> answers \<^verbatim>\<open>Some\<close> when
  its decision is final and \<^verbatim>\<open>None\<close> when the rules decide.  The setter stores its two atomics one
  after the other and takes no lock, so it is modelled as the sequence of its stores: a reader can
  observe the state between them, and the stores of two setters can interleave.
\<close>

subsection \<open>State\<close>

record editor_access =
  full_access :: bool
  external_write :: bool
  workspace_roots :: "str list"

definition editor_new :: editor_access where
  "editor_new = \<lparr>full_access = False, external_write = False, workspace_roots = []\<rparr>"

definition WRITE_DELETE_OPS :: "operation_type list" where
  "WRITE_DELETE_OPS = [FileWrite, FileDelete, DirCreate, DirDelete]"

text \<open>
  \<^verbatim>\<open>set_flags\<close>: the two atomic stores it performs, in order, and the state it leaves when no other
  setter runs in between.
\<close>

datatype flag_store = StoreFull bool | StoreExt bool

fun apply_store :: "flag_store \<Rightarrow> editor_access \<Rightarrow> editor_access" where
  "apply_store (StoreFull b) st = st\<lparr>full_access := b\<rparr>"
| "apply_store (StoreExt b) st = st\<lparr>external_write := b\<rparr>"

definition set_flags_stores :: "bool \<Rightarrow> bool \<Rightarrow> flag_store list" where
  "set_flags_stores full ext =
     (if full \<or> ext then [StoreFull True, StoreExt ext] else [StoreExt False, StoreFull False])"

definition set_flags :: "bool \<Rightarrow> bool \<Rightarrow> editor_access \<Rightarrow> editor_access" where
  "set_flags full ext st = fold apply_store (set_flags_stores full ext) st"

definition editor_snapshot :: "editor_access \<Rightarrow> bool \<times> bool" where
  "editor_snapshot st = (full_access st, external_write st)"

subsection \<open>Paths\<close>

definition editor_normalize_path :: "str \<Rightarrow> str" where
  "editor_normalize_path p =
     (let s = replace_char BSLASH ''/'' (to_lowercase p) in
      case strip_prefix ''//?/unc/'' s of
        Some rest \<Rightarrow> ''//'' @ rest
      | None \<Rightarrow> (case strip_prefix ''//?/'' s of Some rest \<Rightarrow> rest | None \<Rightarrow> s))"

definition normalize_target :: "str \<Rightarrow> str option" where
  "normalize_target target =
     (let t = trim target in if t = [] then None else Some (editor_normalize_path t))"

definition is_absolute_normalized :: "str \<Rightarrow> bool" where
  "is_absolute_normalized s \<longleftrightarrow> (length s \<ge> 2 \<and> s ! 1 = CHR '':'') \<or> prefix ''/'' s"

definition set_workspace_roots :: "str list \<Rightarrow> editor_access \<Rightarrow> editor_access" where
  "set_workspace_roots roots st =
     st\<lparr>workspace_roots :=
       List.map_filter
         (\<lambda>r. let r = trim r in
              if r = [] then None else Some (trim_end_matches (CHR ''/'') (editor_normalize_path r)))
         roots\<rparr>"

definition is_inside_workspace :: "editor_access \<Rightarrow> str \<Rightarrow> bool" where
  "is_inside_workspace st norm =
     (if norm = ''~'' \<or> prefix ''~/'' norm \<or> list_ex (\<lambda>seg. seg = ''..'') (split_on (CHR ''/'') norm)
        then False
      else if \<not> is_absolute_normalized norm then True
      else list_ex (\<lambda>r. norm = r \<or> prefix (r @ ''/'') norm) (workspace_roots st))"

subsection \<open>Evaluation\<close>

text \<open>The reason and policy texts of a short cut, one constructor per format string.\<close>

datatype editor_verdict = InsideRoots operation_type | OutsideExt operation_type | NoApproval operation_type

definition editor_policy :: "editor_verdict \<Rightarrow> str" where
  "editor_policy v = (case v of OutsideExt _ \<Rightarrow> ''editor_access:full+ext'' | _ \<Rightarrow> ''editor_access:full'')"

definition editor_evaluate :: "editor_access \<Rightarrow> operation_type \<Rightarrow> str \<Rightarrow> editor_verdict option" where
  "editor_evaluate st op target =
     (if \<not> full_access st then None
      else if op \<in> set WRITE_DELETE_OPS then
        (case normalize_target target of
           None \<Rightarrow> None
         | Some norm \<Rightarrow>
             if is_inside_workspace st norm then Some (InsideRoots op)
             else if external_write st then Some (OutsideExt op)
             else None)
      else Some (NoApproval op))"

subsection \<open>Unattended approval\<close>

record approval_auto =
  aa_enabled :: bool
  aa_count :: "64 word"

definition approval_auto_new :: "bool \<Rightarrow> approval_auto" where
  "approval_auto_new b = \<lparr>aa_enabled = b, aa_count = 0\<rparr>"

definition approval_auto_set_enabled :: "bool \<Rightarrow> approval_auto \<Rightarrow> approval_auto" where
  "approval_auto_set_enabled b st = st\<lparr>aa_enabled := b\<rparr>"

definition approval_auto_bump :: "approval_auto \<Rightarrow> approval_auto" where
  "approval_auto_bump st = st\<lparr>aa_count := aa_count st + 1\<rparr>"

subsection \<open>Reachable states of the switches\<close>

text \<open>
  Setters that do not overlap: between two stores of one setter only readers run.
\<close>

inductive editor_reach :: "editor_access \<Rightarrow> bool" where
  start: "editor_reach editor_new"
| flags: "editor_reach st \<Longrightarrow> editor_reach (set_flags full ext st)"
| roots: "editor_reach st \<Longrightarrow> editor_reach (set_workspace_roots roots st)"

inductive_cases editor_reachE: "editor_reach st"

lemma set_flags_snapshot [simp]: "editor_snapshot (set_flags full ext st) = (full \<or> ext, ext)"
  by (simp add: set_flags_def set_flags_stores_def editor_snapshot_def)

lemma editor_reach_ext: "editor_reach st \<Longrightarrow> external_write st \<Longrightarrow> full_access st"
proof (induction rule: editor_reach.induct)
  case (flags st full ext)
  then show ?case by (auto simp: set_flags_def set_flags_stores_def split: if_splits)
qed (simp_all add: editor_new_def set_workspace_roots_def)

lemma trim_end_matches_not_suffix: "trim_end_matches c s = u @ [x] \<Longrightarrow> x \<noteq> c"
proof -
  assume "trim_end_matches c s = u @ [x]"
  then have "dropWhile (\<lambda>y. y = c) (rev s) = x # rev u"
    by (simp add: trim_end_matches_def rev_swap)
  then show "x \<noteq> c" using hd_dropWhile [of "\<lambda>y. y = c" "rev s"] by simp
qed

lemma editor_evaluate_write:
  assumes "op \<in> set WRITE_DELETE_OPS" "\<not> external_write st" "editor_evaluate st op target = Some v"
  shows "full_access st \<and> v = InsideRoots op \<and>
    (\<exists>norm. normalize_target target = Some norm \<and> is_inside_workspace st norm)"
  using assms by (auto simp: editor_evaluate_def split: if_splits option.splits)

subsection \<open>Properties\<close>

text \<open>
  The external-write switch is never on without the full-access switch while setters do not
  overlap, also in the state between the two stores of a setter, and that state never allows
  external writes unless the state before or the state after it does.
\<close>

theorem editor_switches:
  assumes "editor_reach st" and "set_flags_stores full ext = [s1, s2]"
  shows "(external_write st \<longrightarrow> full_access st) \<and>
    (external_write (apply_store s1 st) \<longrightarrow> full_access (apply_store s1 st) \<and> external_write st) \<and>
    editor_snapshot (apply_store s2 (apply_store s1 st)) = (full \<or> ext, ext)"
  using assms(2) editor_reach_ext [OF assms(1)]
  by (auto simp: set_flags_stores_def editor_snapshot_def split: if_splits)

theorem editor_switches_witness:
  "let st = set_flags False True editor_new in
    (external_write st \<longrightarrow> full_access st) \<and>
    (external_write (apply_store (StoreExt False) st) \<longrightarrow>
       full_access (apply_store (StoreExt False) st) \<and> external_write st) \<and>
    editor_snapshot (apply_store (StoreFull False) (apply_store (StoreExt False) st)) = (False \<or> False, False)"
  unfolding Let_def
  by (rule editor_switches) (auto intro: editor_reach.intros simp: set_flags_stores_def)

text \<open>
  The dependency of the two switches is not kept by overlapping setters.  The stores of a
  setter that turns both on and of one that turns both off can interleave so that external writes
  end up on while full access is off; every operation then falls back to the rules.
\<close>

theorem editor_overlapping_setters:
  "\<exists>stores \<in> shuffles (set_flags_stores True True) (set_flags_stores False False).
     editor_snapshot (fold apply_store stores st) = (False, True) \<and>
     editor_evaluate (fold apply_store stores st) op target = None"
proof -
  let ?s = "[StoreExt False, StoreFull True, StoreExt True, StoreFull False]"
  have "?s \<in> shuffles (set_flags_stores True True) (set_flags_stores False False)"
    by (simp add: set_flags_stores_def Cons_in_shuffles_iff)
  moreover have "editor_snapshot (fold apply_store ?s st) = (False, True)"
    by (simp add: editor_snapshot_def)
  moreover have "editor_evaluate (fold apply_store ?s st) op target = None"
    by (simp add: editor_evaluate_def)
  ultimately show ?thesis by blast
qed

text \<open>
  Writes and deletions outside the project stay governed.  While the second switch is off, a
  write or delete operation is short-cut only for a target that, normalised, has no \<^verbatim>\<open>..\<close> segment, does
  not start at the home directory, and is relative or lies at or below a workspace root as a
  directory (never in a sibling whose name only starts with the root).
\<close>

theorem editor_external_write_governed:
  assumes "\<not> external_write st" and "op \<in> set WRITE_DELETE_OPS" and "editor_evaluate st op target = Some v"
  shows "\<exists>norm. normalize_target target = Some norm \<and>
    ''..'' \<notin> set (split_on (CHR ''/'') norm) \<and> norm \<noteq> ''~'' \<and> \<not> prefix ''~/'' norm \<and>
    (is_absolute_normalized norm \<longrightarrow>
       (\<exists>r \<in> set (workspace_roots st). norm = r \<or> (\<exists>rest. norm = r @ ''/'' @ rest)))"
proof -
  from editor_evaluate_write [OF assms(2,1,3)] obtain norm
    where "normalize_target target = Some norm" "is_inside_workspace st norm" by blast
  then show ?thesis
    by (intro exI [of _ norm])
       (auto simp: is_inside_workspace_def list_ex_iff prefix_def split: if_splits)
qed

theorem editor_external_write_governed_witness:
  "let st = set_workspace_roots [''C:/Work/''] (set_flags True False editor_new) in
   \<exists>norm. normalize_target ''C:/Work/a.txt'' = Some norm \<and>
    ''..'' \<notin> set (split_on (CHR ''/'') norm) \<and> norm \<noteq> ''~'' \<and> \<not> prefix ''~/'' norm \<and>
    (is_absolute_normalized norm \<longrightarrow>
       (\<exists>r \<in> set (workspace_roots st). norm = r \<or> (\<exists>rest. norm = r @ ''/'' @ rest)))"
  unfolding Let_def
proof (rule editor_external_write_governed)
  show "\<not> external_write (set_workspace_roots [''C:/Work/''] (set_flags True False editor_new))" by code_simp
  show "editor_evaluate (set_workspace_roots [''C:/Work/''] (set_flags True False editor_new)) FileWrite
    ''C:/Work/a.txt'' = Some (InsideRoots FileWrite)" by code_simp
qed (simp add: WRITE_DELETE_OPS_def)

end
