(* ===== verification/AuditorPolicy.thy ===== *)
theory AuditorPolicy
  imports Matcher EditorAccess
begin

text \<open>
  The decision procedure of the security auditor, crates/nemesis-security/src/auditor.rs:
  \<^verbatim>\<open>evaluate_request\<close> with the self-destruct check, the editor short cut, the deny/ask/allow passes over
  the rules, the scan of interpreter payloads and the fall-backs.

  Reasons and policy names are data types with one constructor per format string of the code.  The
  lemmas show that deny and ask rules cannot be masked by allow rules, that the order of the rules
  does not matter, and which checks no switch can bypass.
\<close>

subsection \<open>Requests and state\<close>

record operation_request =
  req_id :: str
  op_type :: operation_type
  danger :: danger_level
  req_user :: str
  req_source :: str
  target :: str
  req_timestamp :: "str option"
  approver :: "str option"
  approved_at :: "str option"
  denied_reason :: "str option"
  force_approval :: "str option"

definition default_request :: operation_request where
  "default_request =
     \<lparr>req_id = '''', op_type = FileRead, danger = Low, req_user = '''', req_source = '''', target = '''',
      req_timestamp = None, approver = None, approved_at = None, denied_reason = None,
      force_approval = None\<rparr>"

text \<open>The part of \<^verbatim>\<open>SecurityAuditor\<close> that decisions read.\<close>

record policy_state =
  rules :: "operation_type \<rightharpoonup> security_rule list"
  default_action :: str
  exec_unknown_policy :: str
  protected_paths :: "str list"
  self_destruct_exempt :: str
  editor :: "editor_access option"

text \<open>\<^verbatim>\<open>cfg!(windows)\<close> and the regex crate.\<close>

record platform =
  is_windows :: bool
  regex :: regex_lib

datatype gate = GuardianFailed | LimitExceeded | GuardianVerdict

datatype gate_outcome =
    GateApproved | GateRejected str | GateRejectedOrTimeout | GateUnavailable str
  | GateNoManager | GateNotRunning

datatype reason =
    SelfDestructTarget str
  | EditorReason editor_verdict
  | RuleMatched str
  | PayloadMatched str
  | PayloadStructure str
  | UnknownCommand str
  | NoRuleMatched
  | ScanHit str
  | AutoByRule str str
  | AutoByConfig
  | ReasonText str
  | VerdictSummary str bool str str str
  | VerdictFlag str bool str
  | GateReason gate reason gate_outcome

datatype policy =
    PolSelfDestruct
  | PolEditor str
  | PolRule nat
  | PolRuleInner nat
  | PolStructure
  | PolExecUnknown
  | PolDefault
  | PolPreexecScan
  | PolAutoByRule str
  | PolAutoByConfig
  | PolText str

type_synonym evaluation = "security_decision \<times> reason \<times> policy"

subsection \<open>Configuration of the policy\<close>

definition set_protected_paths :: "str list \<Rightarrow> 'a policy_state_scheme \<Rightarrow> 'a policy_state_scheme" where
  "set_protected_paths paths st =
     st\<lparr>protected_paths :=
       map (\<lambda>p. to_lowercase (replace_char BSLASH ''/'' p)) (filter (\<lambda>p. trim p \<noteq> []) paths)\<rparr>"

definition set_self_destruct_exempt_path :: "str \<Rightarrow> 'a policy_state_scheme \<Rightarrow> 'a policy_state_scheme" where
  "set_self_destruct_exempt_path path st =
     st\<lparr>self_destruct_exempt :=
       to_lowercase (trim_end_matches (CHR ''/'') (replace_char BSLASH ''/'' (trim path)))\<rparr>"

definition set_rules :: "operation_type \<Rightarrow> security_rule list \<Rightarrow> 'a policy_state_scheme \<Rightarrow> 'a policy_state_scheme" where
  "set_rules op rs st = st\<lparr>rules := (rules st)(op \<mapsto> rs)\<rparr>"

definition set_default_action :: "str \<Rightarrow> 'a policy_state_scheme \<Rightarrow> 'a policy_state_scheme" where
  "set_default_action a st = st\<lparr>default_action := a\<rparr>"

definition set_exec_unknown_policy :: "str \<Rightarrow> 'a policy_state_scheme \<Rightarrow> 'a policy_state_scheme" where
  "set_exec_unknown_policy p st = st\<lparr>exec_unknown_policy := to_lowercase p\<rparr>"

definition set_editor_access :: "editor_access \<Rightarrow> 'a policy_state_scheme \<Rightarrow> 'a policy_state_scheme" where
  "set_editor_access e st = st\<lparr>editor := Some e\<rparr>"

subsection \<open>Self-destruct protection\<close>

definition DESTRUCTIVE_BINS :: "str list" where
  "DESTRUCTIVE_BINS =
     [''rm'', ''del'', ''rd'', ''erase'', ''rmdir'', ''deltree'', ''rimraf'', ''remove-item'']"

text \<open>\<^verbatim>\<open>below d t\<close>: the text t continues d with a slash, the test the code makes on bytes.\<close>

definition below :: "str \<Rightarrow> str \<Rightarrow> bool" where
  "below d t \<longleftrightarrow> length t > length d \<and> prefix d t \<and> t ! length d = CHR ''/''"

definition protected_hit :: "str \<Rightarrow> str \<Rightarrow> str \<Rightarrow> bool" where
  "protected_hit exempt tt p =
     (let p = trim_end_matches (CHR ''/'') p in
      if exempt \<noteq> [] \<and> below exempt tt then False
      else p = tt \<or> below tt p \<or> below p tt)"

definition is_hit :: "str list \<Rightarrow> str \<Rightarrow> str \<Rightarrow> bool" where
  "is_hit protected exempt t =
     (if t = ''/'' \<or> t = [BSLASH] then True
      else if prefix ''-'' t then False
      else if prefix ''/'' t \<and> length t \<le> 2 then False
      else (let tt = trim_end_matches (CHR ''/'') (replace_char BSLASH ''/'' t) in
            if tt = [] then True
            else tt = ''.'' \<or> tt = ''..'' \<or> tt = ''*'' \<or> tt = ''.git'' \<or> prefix ''~'' t \<or>
                 list_ex (protected_hit exempt tt) protected))"

definition is_boundary :: "str \<Rightarrow> bool" where
  "is_boundary t \<longleftrightarrow> t \<in> set [''&&'', '';'', ''||'', ''|'', ''&'']"

definition is_recursive_flag :: "str \<Rightarrow> bool" where
  "is_recursive_flag t \<longleftrightarrow>
     (prefix ''-'' t \<and> CHR ''r'' \<in> set t) \<or> (prefix ''/'' t \<and> length t = 2 \<and> suffix ''s'' t)"

fun self_destruct_scan :: "str list \<Rightarrow> str \<Rightarrow> str list \<Rightarrow> str option" where
  "self_destruct_scan protected exempt [] = None"
| "self_destruct_scan protected exempt (token # rest) =
     (if bin_key token \<notin> set DESTRUCTIVE_BINS then self_destruct_scan protected exempt rest
      else (let window = takeWhile (\<lambda>t. \<not> is_boundary t) rest in
            case (if list_ex is_recursive_flag window then find (is_hit protected exempt) window else None) of
              Some t \<Rightarrow> Some t
            | None \<Rightarrow> self_destruct_scan protected exempt rest))"

definition detect_self_destruct :: "str \<Rightarrow> str list \<Rightarrow> str \<Rightarrow> str option" where
  "detect_self_destruct normalized protected exempt =
     self_destruct_scan protected exempt (command_tokens normalized)"

subsection \<open>Rules\<close>

definition normalize_decision :: "str \<Rightarrow> security_decision" where
  "normalize_decision a =
     (if a \<in> set [''allow'', ''allowed''] then Allowed
      else if a \<in> set [''deny'', ''denied''] then Denied
      else if a \<in> set [''ask'', ''require_approval''] then RequireApproval
      else Denied)"

definition action_bucket :: "str \<Rightarrow> str" where
  "action_bucket a =
     (if a \<in> set [''deny'', ''denied''] then ''deny''
      else if a \<in> set [''ask'', ''require_approval'', ''approval'', ''pending''] then ''ask''
      else if a \<in> set [''allow'', ''allowed''] then ''allow''
      else ''deny'')"

definition is_exec_family :: "operation_type \<Rightarrow> bool" where
  "is_exec_family op \<longleftrightarrow> op \<in> set [ProcessExec, ProcessSpawn, ProcessKill, ProcessSuspend]"

definition match_target :: "operation_request \<Rightarrow> str" where
  "match_target req =
     (if is_exec_family (op_type req) then normalize_exec_command (target req) else target req)"

definition rule_matches :: "platform \<Rightarrow> operation_request \<Rightarrow> str \<Rightarrow> security_rule \<Rightarrow> bool" where
  "rule_matches pf req bucket rule =
     (if op_type req \<in> set [FileRead, FileWrite, FileDelete, DirRead, DirCreate, DirDelete,
                            RegistryRead, RegistryWrite, RegistryDelete]
        then match_path_rule (is_windows pf) (regex pf) (pattern rule) (target req)
      else if is_exec_family (op_type req)
        then exec_rule_bucket_match (regex pf) bucket (pattern rule) (match_target req)
               (exec_rule_segments (target req))
      else if op_type req \<in> set [NetworkDownload, NetworkUpload, NetworkRequest]
        then match_domain_pattern (regex pf) (pattern rule) (target req)
      else pattern rule = ''*'' \<or> match_path_rule (is_windows pf) (regex pf) (pattern rule) (target req))"

text \<open>
  One pass over the rules of a bucket, and the deny pass followed by the ask pass.  The bucket of a
  rule and the match are arguments: the same two passes run on the request and on each payload.
\<close>

definition bucket_pass :: "('r \<Rightarrow> str) \<Rightarrow> (str \<Rightarrow> 'r \<Rightarrow> bool) \<Rightarrow> str \<Rightarrow> 'r list \<Rightarrow> (nat \<times> 'r) option" where
  "bucket_pass bucket m want rs = find_index_from 0 (\<lambda>r. bucket r = want \<and> m want r) rs"

definition deny_ask_pass :: "('r \<Rightarrow> str) \<Rightarrow> (str \<Rightarrow> 'r \<Rightarrow> bool) \<Rightarrow> 'r list \<Rightarrow> (nat \<times> 'r) option" where
  "deny_ask_pass bucket m rs =
     (case bucket_pass bucket m ''deny'' rs of
        Some hit \<Rightarrow> Some hit
      | None \<Rightarrow> bucket_pass bucket m ''ask'' rs)"

abbreviation rule_bucket :: "security_rule \<Rightarrow> str" where
  "rule_bucket r \<equiv> action_bucket (action r)"

definition INTERPRETER_DANGEROUS_STRUCTURES :: "str list" where
  "INTERPRETER_DANGEROUS_STRUCTURES =
     [''shutil.rmtree'', ''rmsync'', ''rmdirsync'', ''removedirectory'', ''deltree'']"

definition payload_matches :: "str \<Rightarrow> str \<Rightarrow> security_rule \<Rightarrow> bool" where
  "payload_matches payload bucket rule = glob_contains (to_lowercase (pattern rule)) payload"

definition payload_evaluate :: "security_rule list \<Rightarrow> str \<Rightarrow> evaluation option" where
  "payload_evaluate op_rules payload =
     (case deny_ask_pass rule_bucket (payload_matches payload) op_rules of
        Some (i, rule) \<Rightarrow>
          Some (normalize_decision (action rule), PayloadMatched (pattern rule), PolRuleInner i)
      | None \<Rightarrow>
          (case find (contains_str payload) INTERPRETER_DANGEROUS_STRUCTURES of
             Some structure \<Rightarrow> Some (RequireApproval, PayloadStructure structure, PolStructure)
           | None \<Rightarrow> None))"

fun first_some :: "('a \<Rightarrow> 'b option) \<Rightarrow> 'a list \<Rightarrow> 'b option" where
  "first_some f [] = None"
| "first_some f (x # xs) = (case f x of Some y \<Rightarrow> Some y | None \<Rightarrow> first_some f xs)"

subsection \<open>Evaluation\<close>

definition self_destruct_check :: "'a policy_state_scheme \<Rightarrow> operation_request \<Rightarrow> str option" where
  "self_destruct_check st req =
     (if op_type req \<in> set [ProcessExec, ProcessSpawn] \<and> protected_paths st \<noteq> []
      then detect_self_destruct (match_target req) (protected_paths st) (self_destruct_exempt st)
      else None)"

definition op_rules :: "'a policy_state_scheme \<Rightarrow> operation_request \<Rightarrow> security_rule list" where
  "op_rules st req = (case rules st (op_type req) of Some rs \<Rightarrow> rs | None \<Rightarrow> [])"

definition editor_check :: "'a policy_state_scheme \<Rightarrow> operation_request \<Rightarrow> editor_verdict option" where
  "editor_check st req =
     (case editor st of None \<Rightarrow> None | Some e \<Rightarrow> editor_evaluate e (op_type req) (target req))"

definition unknown_or_default :: "'a policy_state_scheme \<Rightarrow> operation_request \<Rightarrow> evaluation" where
  "unknown_or_default st req =
     (let p = exec_unknown_policy st;
          def = (normalize_decision (default_action st), NoRuleMatched, PolDefault) in
      if op_type req \<in> set [ProcessExec, ProcessSpawn] then
        (if p = ''ask'' then (RequireApproval, UnknownCommand p, PolExecUnknown)
         else if p = ''deny'' then (Denied, UnknownCommand p, PolExecUnknown)
         else if p = ''allow'' then (Allowed, UnknownCommand p, PolExecUnknown)
         else def)
      else def)"

definition payload_check :: "'a policy_state_scheme \<Rightarrow> operation_request \<Rightarrow> evaluation option" where
  "payload_check st req =
     (if op_type req = ProcessExec
      then first_some (payload_evaluate (op_rules st req)) (extract_interpreter_payloads (match_target req))
      else None)"

definition evaluate_request_inner :: "platform \<Rightarrow> 'a policy_state_scheme \<Rightarrow> operation_request \<Rightarrow> evaluation" where
  "evaluate_request_inner pf st req =
     (case self_destruct_check st req of
        Some t \<Rightarrow> (Denied, SelfDestructTarget t, PolSelfDestruct)
      | None \<Rightarrow>
     (case editor_check st req of
        Some v \<Rightarrow> (Allowed, EditorReason v, PolEditor (editor_policy v))
      | None \<Rightarrow>
     (case deny_ask_pass rule_bucket (rule_matches pf req) (op_rules st req) of
        Some (i, rule) \<Rightarrow> (normalize_decision (action rule), RuleMatched (pattern rule), PolRule i)
      | None \<Rightarrow>
     (case payload_check st req of
        Some e \<Rightarrow> e
      | None \<Rightarrow>
     (case bucket_pass rule_bucket (rule_matches pf req) ''allow'' (op_rules st req) of
        Some (i, rule) \<Rightarrow> (normalize_decision (action rule), RuleMatched (pattern rule), PolRule i)
      | None \<Rightarrow> unknown_or_default st req)))))"

definition evaluate_request :: "platform \<Rightarrow> 'a policy_state_scheme \<Rightarrow> operation_request \<Rightarrow> evaluation" where
  "evaluate_request pf st req =
     (let inner = evaluate_request_inner pf st req in
      case force_approval req of
        None \<Rightarrow> inner
      | Some r \<Rightarrow>
          if fst inner \<noteq> Denied \<and> trim r \<noteq> [] then (RequireApproval, ScanHit (trim r), PolPreexecScan)
          else inner)"

subsection \<open>The contract of a rule table\<close>

text \<open>
  What the passes need of the buckets and decisions of rules: a deny rule denies, an allow rule
  allows, an ask rule never allows, and an ask rule written in a canonical form asks.
\<close>

locale rule_verdicts =
  fixes bucket :: "'r \<Rightarrow> str" and decide :: "'r \<Rightarrow> security_decision" and canonical :: "'r \<Rightarrow> bool"
  assumes deny_denies: "bucket r = ''deny'' \<Longrightarrow> decide r = Denied"
    and allow_allows: "bucket r = ''allow'' \<Longrightarrow> decide r = Allowed"
    and ask_not_allows: "bucket r = ''ask'' \<Longrightarrow> decide r \<noteq> Allowed"
    and ask_asks: "canonical r \<Longrightarrow> bucket r = ''ask'' \<Longrightarrow> decide r = RequireApproval"
begin

lemma pass_None:
  "deny_ask_pass bucket m rs = None \<longleftrightarrow>
     (\<forall>r \<in> set rs. bucket r = ''deny'' \<longrightarrow> \<not> m ''deny'' r) \<and> (\<forall>r \<in> set rs. bucket r = ''ask'' \<longrightarrow> \<not> m ''ask'' r)"
proof -
  have "deny_ask_pass bucket m rs = None \<longleftrightarrow>
      bucket_pass bucket m ''deny'' rs = None \<and> bucket_pass bucket m ''ask'' rs = None"
    by (simp add: deny_ask_pass_def split: option.splits)
  then show ?thesis by (auto simp: bucket_pass_def find_index_from_None)
qed

lemma pass_Some:
  assumes "deny_ask_pass bucket m rs = Some (i, r)"
  shows "r \<in> set rs \<and> decide r \<noteq> Allowed \<and> m (bucket r) r"
proof (cases "bucket_pass bucket m ''deny'' rs")
  case None
  with assms have "find_index_from 0 (\<lambda>r. bucket r = ''ask'' \<and> m ''ask'' r) rs = Some (i, r)"
    by (simp add: deny_ask_pass_def bucket_pass_def)
  from find_index_from_in_set [OF this] ask_not_allows show ?thesis by auto
next
  case (Some a)
  with assms have "find_index_from 0 (\<lambda>r. bucket r = ''deny'' \<and> m ''deny'' r) rs = Some (i, r)"
    by (simp add: deny_ask_pass_def bucket_pass_def)
  from find_index_from_in_set [OF this] deny_denies show ?thesis by auto
qed

lemma pass_deny:
  assumes "r \<in> set rs" "bucket r = ''deny''" "m ''deny'' r"
  shows "\<exists>i r'. deny_ask_pass bucket m rs = Some (i, r') \<and> decide r' = Denied"
proof -
  have "bucket_pass bucket m ''deny'' rs \<noteq> None"
    using assms by (auto simp: bucket_pass_def find_index_from_None)
  then obtain i r' where h: "bucket_pass bucket m ''deny'' rs = Some (i, r')" by auto
  then have "bucket r' = ''deny''"
    using find_index_from_in_set unfolding bucket_pass_def by fastforce
  with h deny_denies show ?thesis by (simp add: deny_ask_pass_def)
qed

lemma pass_decision:
  assumes "list_all canonical rs"
  shows "map_option (\<lambda>(i, r). decide r) (deny_ask_pass bucket m rs) =
    (if \<exists>r \<in> set rs. bucket r = ''deny'' \<and> m ''deny'' r then Some Denied
     else if \<exists>r \<in> set rs. bucket r = ''ask'' \<and> m ''ask'' r then Some RequireApproval else None)"
proof (cases "deny_ask_pass bucket m rs")
  case None
  then show ?thesis using pass_None [of m rs] by auto
next
  case (Some a)
  obtain i r where a: "a = (i, r)" by fastforce
  show ?thesis
  proof (cases "\<exists>r \<in> set rs. bucket r = ''deny'' \<and> m ''deny'' r")
    case True
    then obtain r0 where r0: "r0 \<in> set rs" "bucket r0 = ''deny''" "m ''deny'' r0" by blast
    with pass_deny [of r0 rs m] True show ?thesis by auto
  next
    case False
    then have "bucket_pass bucket m ''deny'' rs = None" by (auto simp: bucket_pass_def find_index_from_None)
    with Some a have "find_index_from 0 (\<lambda>r. bucket r = ''ask'' \<and> m ''ask'' r) rs = Some (i, r)"
      by (simp add: deny_ask_pass_def bucket_pass_def)
    from find_index_from_in_set [OF this] have r: "r \<in> set rs" "bucket r = ''ask''" "m ''ask'' r" by auto
    with assms have "decide r = RequireApproval" by (auto simp: list_all_iff intro: ask_asks)
    with r Some a False show ?thesis by auto
  qed
qed

lemma allow_pass_decision:
  "map_option (\<lambda>(i, r). decide r) (bucket_pass bucket m ''allow'' rs) =
    (if \<exists>r \<in> set rs. bucket r = ''allow'' \<and> m ''allow'' r then Some Allowed else None)"
proof (cases "bucket_pass bucket m ''allow'' rs")
  case None
  then show ?thesis by (auto simp: bucket_pass_def find_index_from_None)
next
  case (Some a)
  then obtain i r where "find_index_from 0 (\<lambda>r. bucket r = ''allow'' \<and> m ''allow'' r) rs = Some (i, r)" "a = (i, r)"
    by (cases a) (auto simp: bucket_pass_def)
  with find_index_from_in_set [OF this(1)] Some allow_allows show ?thesis by auto
qed

end

definition canonical_action :: "security_rule \<Rightarrow> bool" where
  "canonical_action r \<longleftrightarrow> action r \<notin> set [''approval'', ''pending'']"

interpretation rv: rule_verdicts rule_bucket "\<lambda>r. normalize_decision (action r)" canonical_action
proof unfold_locales
  fix r :: security_rule
  show "rule_bucket r = ''deny'' \<Longrightarrow> normalize_decision (action r) = Denied"
    by (auto simp: action_bucket_def normalize_decision_def split: if_splits)
  show "rule_bucket r = ''allow'' \<Longrightarrow> normalize_decision (action r) = Allowed"
    by (auto simp: action_bucket_def normalize_decision_def split: if_splits)
  show "rule_bucket r = ''ask'' \<Longrightarrow> normalize_decision (action r) \<noteq> Allowed"
    by (auto simp: action_bucket_def normalize_decision_def split: if_splits)
  show "canonical_action r \<Longrightarrow> rule_bucket r = ''ask'' \<Longrightarrow> normalize_decision (action r) = RequireApproval"
    by (auto simp: action_bucket_def normalize_decision_def canonical_action_def split: if_splits)
qed

subsection \<open>Lemmas\<close>

lemma first_some_None: "first_some f xs = None \<longleftrightarrow> (\<forall>x \<in> set xs. f x = None)"
  by (induction xs) (auto split: option.splits)

lemma first_some_Some: "first_some f xs = Some y \<Longrightarrow> \<exists>x \<in> set xs. f x = Some y"
  by (induction xs) (auto split: option.splits)

lemma first_some_map:
  "(\<And>x. map_option h (f x) = map_option h (g x)) \<Longrightarrow> map_option h (first_some f xs) = map_option h (first_some g xs)"
proof (induction xs)
  case (Cons x xs)
  from Cons.prems [of x] Cons.IH [OF Cons.prems] show ?case by (auto split: option.splits)
qed simp

lemma payload_evaluate_None:
  "payload_evaluate rs p = None \<longleftrightarrow>
     (\<forall>r \<in> set rs. rule_bucket r \<in> {''deny'', ''ask''} \<longrightarrow> \<not> glob_contains (to_lowercase (pattern r)) p) \<and>
     (\<forall>s \<in> set INTERPRETER_DANGEROUS_STRUCTURES. \<not> contains_str p s)"
proof -
  have "payload_evaluate rs p = None \<longleftrightarrow>
      deny_ask_pass rule_bucket (payload_matches p) rs = None \<and>
      find (contains_str p) INTERPRETER_DANGEROUS_STRUCTURES = None"
    by (auto simp: payload_evaluate_def split: option.splits)
  then show ?thesis by (auto simp: rv.pass_None payload_matches_def find_None_iff)
qed

lemma payload_evaluate_not_Allowed: "payload_evaluate rs p = Some e \<Longrightarrow> fst e \<noteq> Allowed"
  by (auto simp: payload_evaluate_def dest: rv.pass_Some split: option.splits)

lemma payload_check_not_Allowed: "payload_check st req = Some e \<Longrightarrow> fst e \<noteq> Allowed"
  by (auto simp: payload_check_def split: if_splits dest!: first_some_Some payload_evaluate_not_Allowed)

lemma evaluate_inner_self_destruct:
  "self_destruct_check st req = Some t \<Longrightarrow>
     evaluate_request_inner pf st req = (Denied, SelfDestructTarget t, PolSelfDestruct)"
  by (simp add: evaluate_request_inner_def)

lemma evaluate_inner_editor_policy:
  assumes "editor_check st req = Some v" "self_destruct_check st req = None"
  shows "evaluate_request_inner pf st req = (Allowed, EditorReason v, PolEditor (editor_policy v))"
  using assms by (simp add: evaluate_request_inner_def)

lemma evaluate_inner_Allowed:
  assumes "fst (evaluate_request_inner pf st req) = Allowed" and "editor_check st req = None"
  shows "self_destruct_check st req = None"
    and "deny_ask_pass rule_bucket (rule_matches pf req) (op_rules st req) = None"
    and "payload_check st req = None"
proof -
  show s: "self_destruct_check st req = None"
    using assms(1) by (cases "self_destruct_check st req") (simp_all add: evaluate_inner_self_destruct)
  show d: "deny_ask_pass rule_bucket (rule_matches pf req) (op_rules st req) = None"
  proof (rule ccontr)
    assume "deny_ask_pass rule_bucket (rule_matches pf req) (op_rules st req) \<noteq> None"
    then obtain i r where h: "deny_ask_pass rule_bucket (rule_matches pf req) (op_rules st req) = Some (i, r)"
      by auto
    with rv.pass_Some [OF h] s assms show False by (simp add: evaluate_request_inner_def)
  qed
  show "payload_check st req = None"
    using assms s d payload_check_not_Allowed [of st req]
    by (cases "payload_check st req") (auto simp: evaluate_request_inner_def)
qed

lemma evaluate_inner_Allowed_by:
  assumes "fst (evaluate_request_inner pf st req) = Allowed" and "editor_check st req = None"
  shows "(\<exists>r \<in> set (op_rules st req). rule_bucket r = ''allow'' \<and> rule_matches pf req ''allow'' r) \<or>
    fst (unknown_or_default st req) = Allowed"
proof (cases "bucket_pass rule_bucket (rule_matches pf req) ''allow'' (op_rules st req)")
  case None
  with assms evaluate_inner_Allowed [OF assms] show ?thesis by (simp add: evaluate_request_inner_def)
next
  case (Some hit)
  obtain i r where "hit = (i, r)" by fastforce
  with Some have "find_index_from 0 (\<lambda>r. rule_bucket r = ''allow'' \<and> rule_matches pf req ''allow'' r)
      (op_rules st req) = Some (i, r)"
    by (simp add: bucket_pass_def)
  from find_index_from_in_set [OF this] show ?thesis by blast
qed

text \<open>A decision depends on the policy part of the state only.\<close>

lemma evaluate_request_cong:
  assumes "rules s = rules t" "default_action s = default_action t" "exec_unknown_policy s = exec_unknown_policy t"
    "protected_paths s = protected_paths t" "self_destruct_exempt s = self_destruct_exempt t" "editor s = editor t"
  shows "evaluate_request pf s req = evaluate_request pf t req"
proof -
  have o: "op_rules s req = op_rules t req" by (simp add: op_rules_def assms(1))
  have "self_destruct_check s req = self_destruct_check t req"
    by (simp add: self_destruct_check_def assms(4,5))
  moreover have "editor_check s req = editor_check t req" by (simp add: editor_check_def assms(6))
  moreover have "payload_check s req = payload_check t req" by (simp add: payload_check_def o)
  moreover have "unknown_or_default s req = unknown_or_default t req"
    by (simp add: unknown_or_default_def assms(2,3))
  ultimately have "evaluate_request_inner pf s req = evaluate_request_inner pf t req"
    unfolding evaluate_request_inner_def by (simp only: o)
  then show ?thesis unfolding evaluate_request_def by (simp only:)
qed

lemma evaluate_request_Allowed:
  "fst (evaluate_request pf st req) = Allowed \<Longrightarrow> fst (evaluate_request_inner pf st req) = Allowed"
  by (auto simp: evaluate_request_def Let_def split: option.splits if_splits)

lemma evaluate_request_Denied:
  "fst (evaluate_request_inner pf st req) = Denied \<Longrightarrow> evaluate_request pf st req = evaluate_request_inner pf st req"
  by (auto simp: evaluate_request_def Let_def split: option.splits)

text \<open>The self-destruct scan, as a statement on the words of the command.\<close>

lemma self_destruct_scan_hit:
  "bin_key b \<in> set DESTRUCTIVE_BINS \<Longrightarrow> \<forall>t \<in> set window. \<not> is_boundary t \<Longrightarrow>
   list_ex is_recursive_flag window \<Longrightarrow> list_ex (is_hit protected exempt) window \<Longrightarrow>
   \<exists>t. self_destruct_scan protected exempt (pre @ b # window @ post) = Some t"
proof (induction pre)
  case Nil
  let ?w = "takeWhile (\<lambda>t. \<not> is_boundary t) (window @ post)"
  have "set window \<subseteq> set ?w" using Nil by (simp add: takeWhile_append2)
  with Nil have "list_ex is_recursive_flag ?w" "list_ex (is_hit protected exempt) ?w"
    by (auto simp: list_ex_iff)
  then have "find (is_hit protected exempt) ?w \<noteq> None" by (auto simp: find_None_iff list_ex_iff)
  with Nil \<open>list_ex is_recursive_flag ?w\<close> show ?case by (auto simp: Let_def)
next
  case (Cons x pre)
  then show ?case by (auto simp: Let_def split: option.splits)
qed

lemma trim_end_matches_id: "s = [] \<or> last s \<noteq> c \<Longrightarrow> trim_end_matches c s = s"
  by (cases s rule: rev_cases) (simp_all add: trim_end_matches_def)

lemma below_iff: "below d t \<longleftrightarrow> (\<exists>r. t = d @ ''/'' @ r)"
proof
  assume b: "below d t"
  then obtain u where u: "t = d @ u" by (auto simp: below_def prefix_def)
  with b have "u \<noteq> []" "hd u = CHR ''/''" by (auto simp: below_def nth_append hd_conv_nth)
  then have "u = ''/'' @ tl u" by (cases u) auto
  with u show "\<exists>r. t = d @ ''/'' @ r" by blast
qed (auto simp: below_def nth_append)

text \<open>A word that is a protected directory or one of its parents is a hit.\<close>

lemma is_hit_protected:
  assumes "p \<in> set protected" "last p \<noteq> CHR ''/''" "t = p \<or> below t p"
    and "BSLASH \<notin> set t" "2 < length t" "last t \<noteq> CHR ''/''" "hd t \<noteq> CHR ''-''" "exempt = [] \<or> \<not> below exempt t"
  shows "is_hit protected exempt t"
proof -
  have "replace_char BSLASH ''/'' t = t"
    using assms(4) normalize_path_id by (simp add: normalize_path_def)
  moreover have "trim_end_matches (CHR ''/'') t = t" "trim_end_matches (CHR ''/'') p = p"
    using assms(2,6) by (simp_all add: trim_end_matches_id)
  moreover have "protected_hit exempt t p"
    using assms(3,8) \<open>trim_end_matches (CHR ''/'') p = p\<close> by (auto simp: protected_hit_def Let_def)
  then have "list_ex (protected_hit exempt t) protected"
    using assms(1) by (auto simp: list_ex_iff)
  ultimately show ?thesis
    using assms(5,7) by (cases t) (auto simp: is_hit_def Let_def)
qed

lemma payload_evaluate_decision:
  assumes "set rs = set rs'" "list_all canonical_action rs"
  shows "map_option fst (payload_evaluate rs p) = map_option fst (payload_evaluate rs' p)"
proof -
  have "list_all canonical_action rs'" using assms by (simp add: list_all_iff)
  with assms rv.pass_decision [of rs "payload_matches p"] rv.pass_decision [of rs' "payload_matches p"]
  have "map_option (\<lambda>(i, r). normalize_decision (action r)) (deny_ask_pass rule_bucket (payload_matches p) rs) =
    map_option (\<lambda>(i, r). normalize_decision (action r)) (deny_ask_pass rule_bucket (payload_matches p) rs')"
    by simp
  then show ?thesis
    by (auto simp: payload_evaluate_def map_option_case split: option.splits prod.splits)
qed

lemma evaluate_inner_rules_set:
  fixes st :: "'a policy_state_scheme"
  assumes same: "set (op_rules st req) = set (op_rules (st\<lparr>rules := r'\<rparr>) req)"
    and can: "list_all canonical_action (op_rules st req)"
  shows "fst (evaluate_request_inner pf st req) = fst (evaluate_request_inner pf (st\<lparr>rules := r'\<rparr>) req)"
proof -
  let ?st = "st\<lparr>rules := r'\<rparr>" and ?m = "rule_matches pf req"
  let ?d = "\<lambda>(i :: nat, r). normalize_decision (action r)"
  have can': "list_all canonical_action (op_rules ?st req)" using same can by (simp add: list_all_iff)
  have "self_destruct_check ?st req = self_destruct_check st req" "editor_check ?st req = editor_check st req"
    "unknown_or_default ?st req = unknown_or_default st req"
    by (simp_all add: self_destruct_check_def editor_check_def unknown_or_default_def)
  moreover have "map_option ?d (deny_ask_pass rule_bucket ?m (op_rules st req)) =
      map_option ?d (deny_ask_pass rule_bucket ?m (op_rules ?st req))"
    unfolding rv.pass_decision [OF can] rv.pass_decision [OF can'] same ..
  moreover have "map_option ?d (bucket_pass rule_bucket ?m ''allow'' (op_rules st req)) =
      map_option ?d (bucket_pass rule_bucket ?m ''allow'' (op_rules ?st req))"
    unfolding rv.allow_pass_decision same ..
  moreover have "map_option fst (payload_check st req) = map_option fst (payload_check ?st req)"
    by (simp add: payload_check_def) (intro impI first_some_map payload_evaluate_decision same can)
  ultimately show ?thesis
    by (auto simp: evaluate_request_inner_def map_option_case split: option.splits prod.splits)
qed

subsection \<open>Properties\<close>

text \<open>
  C2: nothing that a rule forbids is allowed.  When a request is allowed and the editor switches did
  not decide it, the self-destruct check passed, no matching deny rule and no matching ask rule
  exists for the operation, wherever allow rules stand, and for a command line no interpreter payload
  contains the pieces of a deny or ask rule or one of the dangerous structures.
\<close>

theorem allowed_means_nothing_forbids:
  assumes "fst (evaluate_request pf st req) = Allowed" and "editor_check st req = None"
  shows "self_destruct_check st req = None \<and>
    (\<forall>r \<in> set (op_rules st req).
       (rule_bucket r = ''deny'' \<longrightarrow> \<not> rule_matches pf req ''deny'' r) \<and>
       (rule_bucket r = ''ask'' \<longrightarrow> \<not> rule_matches pf req ''ask'' r)) \<and>
    (op_type req = ProcessExec \<longrightarrow>
       (\<forall>p \<in> set (extract_interpreter_payloads (match_target req)).
          (\<forall>r \<in> set (op_rules st req). rule_bucket r \<in> {''deny'', ''ask''} \<longrightarrow>
              \<not> glob_contains (to_lowercase (pattern r)) p) \<and>
          (\<forall>s \<in> set INTERPRETER_DANGEROUS_STRUCTURES. \<not> contains_str p s)))"
proof -
  note A = evaluate_inner_Allowed [OF evaluate_request_Allowed [OF assms(1)] assms(2)]
  from A(2) have "\<forall>r \<in> set (op_rules st req).
      (rule_bucket r = ''deny'' \<longrightarrow> \<not> rule_matches pf req ''deny'' r) \<and>
      (rule_bucket r = ''ask'' \<longrightarrow> \<not> rule_matches pf req ''ask'' r)"
    by (simp add: rv.pass_None)
  moreover from A(3) have "\<forall>p \<in> set (extract_interpreter_payloads (match_target req)).
      payload_evaluate (op_rules st req) p = None" if "op_type req = ProcessExec"
    using that by (simp add: payload_check_def first_some_None)
  ultimately show ?thesis using A(1) by (simp add: payload_evaluate_None)
qed

definition example_state :: policy_state where
  "example_state =
     \<lparr>rules = [ProcessExec \<mapsto>
        [\<lparr>pattern = ''python *'', action = ''allow'', comment = ''''\<rparr>,
         \<lparr>pattern = ''rm -rf *'', action = ''deny'', comment = ''''\<rparr>,
         \<lparr>pattern = ''curl *'', action = ''ask'', comment = ''''\<rparr>]],
      default_action = ''deny'', exec_unknown_policy = '''', protected_paths = [''/home/bot''],
      self_destruct_exempt = '''', editor = None\<rparr>"

definition example_platform :: platform where
  "example_platform = \<lparr>is_windows = False, regex = ref_regex\<rparr>"

definition exec_request :: "str \<Rightarrow> operation_request" where
  "exec_request cmd = default_request\<lparr>op_type := ProcessExec, danger := Critical, target := cmd\<rparr>"

theorem allowed_means_nothing_forbids_witness:
  "self_destruct_check example_state (exec_request ''python -c print'') = None"
proof -
  have "fst (evaluate_request example_platform example_state (exec_request ''python -c print'')) = Allowed"
    by code_simp
  moreover have "editor_check example_state (exec_request ''python -c print'') = None" by code_simp
  ultimately show ?thesis
    using allowed_means_nothing_forbids [of example_platform example_state "exec_request ''python -c print''"]
    by blast
qed

text \<open>
  The order of the rules does not matter.  Two rule tables with the same rules for the
  operation, in any order and multiplicity, give the same decision, provided no rule uses one of the
  two spellings that the buckets and the decisions classify differently.
\<close>

theorem evaluate_rule_order:
  fixes st :: "'a policy_state_scheme"
  assumes "set (op_rules st req) = set (op_rules (st\<lparr>rules := r'\<rparr>) req)"
    and "list_all canonical_action (op_rules st req)"
  shows "fst (evaluate_request pf st req) = fst (evaluate_request pf (st\<lparr>rules := r'\<rparr>) req)"
  using evaluate_inner_rules_set [OF assms]
  by (simp add: evaluate_request_def Let_def split: option.splits)

theorem evaluate_rule_order_witness:
  "fst (evaluate_request example_platform example_state (exec_request ''curl x'')) =
   fst (evaluate_request example_platform
     (example_state\<lparr>rules := map_option rev \<circ> rules example_state\<rparr>) (exec_request ''curl x''))"
proof (rule evaluate_rule_order)
  show "set (op_rules example_state (exec_request ''curl x'')) =
     set (op_rules (example_state\<lparr>rules := map_option rev \<circ> rules example_state\<rparr>) (exec_request ''curl x''))"
    by (auto simp: op_rules_def example_state_def exec_request_def)
  show "list_all canonical_action (op_rules example_state (exec_request ''curl x''))" by code_simp
qed

text \<open>
  The self-destruct protection comes before everything else.  If the words of an exec or spawn
  command contain a deleting program (under any directory, with or without \<^verbatim>\<open>.exe\<close>), followed up to the
  next command boundary by a recursive flag and by a word that is a protected directory or one of its
  parents, and that word does not lie below the exempt path, the request is denied: whatever the
  rules, the editor switches, the policy for unknown commands and a forced approval say.
\<close>

theorem self_destruct_denied:
  assumes "op_type req = ProcessExec \<or> op_type req = ProcessSpawn"
    and "command_tokens (match_target req) = pre @ b # window @ post"
    and "bin_key b \<in> set DESTRUCTIVE_BINS" and "list_all (\<lambda>t. \<not> is_boundary t) window"
    and "list_ex is_recursive_flag window" and "t \<in> set window"
    and "p \<in> set (protected_paths st)" and "last p \<noteq> CHR ''/''" and "t = p \<or> below t p"
    and "BSLASH \<notin> set t" and "2 < length t" and "last t \<noteq> CHR ''/''" and "hd t \<noteq> CHR ''-''"
    and "self_destruct_exempt st = [] \<or> \<not> below (self_destruct_exempt st) t"
  shows "\<exists>w. evaluate_request pf st req = (Denied, SelfDestructTarget w, PolSelfDestruct)"
proof -
  have "is_hit (protected_paths st) (self_destruct_exempt st) t"
    using assms(7-14) by (rule is_hit_protected)
  with assms(6) have "list_ex (is_hit (protected_paths st) (self_destruct_exempt st)) window"
    by (auto simp: list_ex_iff)
  from self_destruct_scan_hit [OF assms(3) _ assms(5) this, of pre post] assms(4)
  obtain w where "self_destruct_scan (protected_paths st) (self_destruct_exempt st) (pre @ b # window @ post) = Some w"
    by (auto simp: list_all_iff)
  then have "self_destruct_check st req = Some w"
    using assms(1,2,7) by (auto simp: self_destruct_check_def detect_self_destruct_def)
  from evaluate_inner_self_destruct [OF this, of pf] show ?thesis
    using evaluate_request_Denied [of pf st req] by simp
qed

theorem self_destruct_denied_witness:
  "\<exists>w. evaluate_request example_platform
     (example_state\<lparr>editor := Some (editor_new\<lparr>full_access := True\<rparr>)\<rparr>)
     (exec_request ''cd /tmp && /bin/rm -rf /home'') = (Denied, SelfDestructTarget w, PolSelfDestruct)"
proof (rule self_destruct_denied [where pre = "[''cd'', ''/tmp'', ''&&'']" and b = "''/bin/rm''"
      and window = "[''-rf'', ''/home'']" and post = "[]" and t = "''/home''" and p = "''/home/bot''"])
  show "command_tokens (match_target (exec_request ''cd /tmp && /bin/rm -rf /home'')) =
    [''cd'', ''/tmp'', ''&&''] @ ''/bin/rm'' # [''-rf'', ''/home''] @ []" by code_simp
  show "bin_key ''/bin/rm'' \<in> set DESTRUCTIVE_BINS" by code_simp
  show "list_all (\<lambda>t. \<not> is_boundary t) [''-rf'', ''/home'']" by code_simp
  show "list_ex is_recursive_flag [''-rf'', ''/home'']" by code_simp
  show "''/home'' = ''/home/bot'' \<or> below ''/home'' ''/home/bot''" by code_simp
qed (simp_all add: exec_request_def example_state_def below_def)

text \<open>
  An action spelled \<^verbatim>\<open>approval\<close> or \<^verbatim>\<open>pending\<close> does not ask.  The passes put such a rule into the ask
  bucket, but the decision taken from it is a denial.
\<close>

theorem approval_spelling_denies:
  assumes "action r = ''approval'' \<or> action r = ''pending''" and "rules st (op_type req) = Some [r]"
    and "rule_matches pf req ''ask'' r" and "editor_check st req = None" and "self_destruct_check st req = None"
  shows "rule_bucket r = ''ask'' \<and> fst (evaluate_request pf st req) = Denied"
proof -
  from assms(1) have b: "rule_bucket r = ''ask''" "normalize_decision (action r) = Denied"
    by (auto simp: action_bucket_def normalize_decision_def)
  then have "deny_ask_pass rule_bucket (rule_matches pf req) (op_rules st req) = Some (0, r)"
    using assms(2,3) by (simp add: op_rules_def deny_ask_pass_def bucket_pass_def)
  then have "fst (evaluate_request_inner pf st req) = Denied"
    using assms(4,5) b by (simp add: evaluate_request_inner_def)
  with b evaluate_request_Denied [of pf st req] show ?thesis by simp
qed

theorem approval_spelling_denies_witness:
  "fst (evaluate_request example_platform
     (example_state\<lparr>rules := [ProcessExec \<mapsto> [\<lparr>pattern = ''git *'', action = ''approval'', comment = ''''\<rparr>]]\<rparr>)
     (exec_request ''git push'')) = Denied"
proof -
  let ?r = "\<lparr>pattern = ''git *'', action = ''approval'', comment = ''''\<rparr>"
  let ?st = "example_state\<lparr>rules := [ProcessExec \<mapsto> [?r]]\<rparr>" and ?q = "exec_request ''git push''"
  have m: "rule_matches example_platform ?q ''ask'' ?r" by code_simp
  have e: "editor_check ?st ?q = None" "self_destruct_check ?st ?q = None" by code_simp+
  have "rules ?st (op_type ?q) = Some [?r]" by (simp add: exec_request_def)
  from approval_spelling_denies [OF _ this m e] show ?thesis by simp
qed



end
