(* ===== verification/ApprovalRules.thy ===== *)
theory ApprovalRules
  imports CommandArity SecurityTypes
begin

text \<open>
  The remembered approvals ("always allow"), crates/nemesis-security/src/approval_rules.rs, and the
  reloader that caches their file, crates/nemesis-config/src/hot_reload.rs.

  A rule is written from an approved operation (\<^verbatim>\<open>pattern_for\<close>), stored in a JSON file and later
  consulted before a new approval card is shown.  The JSON reader and writer of \<^verbatim>\<open>serde_json\<close> and the
  outcome of the file operations are parameters.  The lemmas show that a remembered command never
  covers a segment it does not prefix, that the level gate holds on both sides, and that what is
  written is found again.
\<close>

subsection \<open>Rules\<close>

record approval_rule =
  ar_op :: str
  ar_pattern :: str
  ar_action :: str
  ar_created_at :: str

definition is_command_op :: "str \<Rightarrow> bool" where
  "is_command_op op \<longleftrightarrow> op = ''process_exec'' \<or> op = ''process_spawn''"

definition is_install_op :: "str \<Rightarrow> bool" where
  "is_install_op op \<longleftrightarrow> op = ''plugins.install'' \<or> op = ''skills.install''"

definition pattern_for :: "str \<Rightarrow> str \<Rightarrow> str" where
  "pattern_for op target =
     (let target = trim target in
      if target = [] then []
      else if is_command_op op then
        (if length (command_segments target) > 1 then []
         else (let reduced = reduce_command target in
               if reduced = [] then []
               else if suffix '' *'' reduced then reduced else reduced @ '' *''))
      else target)"

definition rule_permitted_for :: "str \<Rightarrow> str \<Rightarrow> bool" where
  "rule_permitted_for op risk =
     (if is_install_op op then False else risk \<noteq> ''CRITICAL'' \<or> is_command_op op)"

definition prefix_hits :: "str list \<Rightarrow> str \<Rightarrow> bool" where
  "prefix_hits prefix_tokens seg =
     (let seg_tokens = strip_env_tokens (tokenize_command seg) in
      length seg_tokens \<ge> length prefix_tokens \<and>
      list_all (\<lambda>(t, p). t = p) (zip seg_tokens prefix_tokens))"

definition matches_rule :: "str \<Rightarrow> str \<Rightarrow> str \<Rightarrow> str \<Rightarrow> bool" where
  "matches_rule rule_op rule_pattern op target =
     (if rule_op \<noteq> op \<or> rule_pattern = [] \<or> target = [] then False
      else if rule_pattern = ''*'' then False
      else (case strip_suffix '' *'' rule_pattern of
              Some pre \<Rightarrow>
                (let prefix_tokens = tokenize_command pre in
                 if prefix_tokens = [] then False
                 else if is_command_op rule_op then
                   (let segments = command_segments target in
                    segments \<noteq> [] \<and> list_all (prefix_hits prefix_tokens) segments)
                 else prefix_hits prefix_tokens target)
            | None \<Rightarrow>
                (if is_command_op rule_op then
                   tokenize_command rule_pattern = strip_env_tokens (tokenize_command target)
                 else rule_pattern = target)))"

definition find_auto_allow_rule :: "approval_rule list \<Rightarrow> str \<Rightarrow> str \<Rightarrow> str \<Rightarrow> approval_rule option" where
  "find_auto_allow_rule rules op target risk =
     (if \<not> rule_permitted_for op risk then None
      else find (\<lambda>r. ar_action r = ''allow'' \<and> matches_rule (ar_op r) (ar_pattern r) op target) rules)"

text \<open>The clock reading is the argument \<^verbatim>\<open>now\<close>; the flag is the returned \<^verbatim>\<open>bool\<close>.\<close>

fun refresh_rule :: "str \<Rightarrow> str \<Rightarrow> str \<Rightarrow> approval_rule list \<Rightarrow> approval_rule list option" where
  "refresh_rule now op pat [] = None"
| "refresh_rule now op pat (r # rs) =
     (if ar_op r = op \<and> ar_pattern r = pat then Some (r\<lparr>ar_created_at := now\<rparr> # rs)
      else map_option (Cons r) (refresh_rule now op pat rs))"

definition upsert_rule :: "str \<Rightarrow> approval_rule list \<Rightarrow> str \<Rightarrow> str \<Rightarrow> approval_rule list \<times> bool" where
  "upsert_rule now rules op pat =
     (if pat = [] then (rules, False)
      else (case refresh_rule now op pat rules of
              Some rules' \<Rightarrow> (rules', True)
            | None \<Rightarrow> (rules @ [\<lparr>ar_op = op, ar_pattern = pat, ar_action = ''allow'', ar_created_at = now\<rparr>], True)))"

subsection \<open>The rules file\<close>

text \<open>
  The file is its text, or \<^verbatim>\<open>None\<close> when it cannot be read.  \<^verbatim>\<open>de\<close> is \<^verbatim>\<open>serde_json::from_str\<close> and \<^verbatim>\<open>ser\<close>
  is \<^verbatim>\<open>serde_json::to_string_pretty\<close> for lists of rules; \<^verbatim>\<open>mkdir_ok\<close> and \<^verbatim>\<open>write_ok\<close> are the outcomes
  of the file operations of one call.
\<close>

record rules_serde =
  de :: "str \<Rightarrow> approval_rule list option"
  ser :: "approval_rule list \<Rightarrow> str option"

record rules_io =
  mkdir_ok :: bool
  write_ok :: bool

datatype rules_error = CreateRulesDir | SerializeRules | WriteRules | CompoundCommand | NoPattern str

definition load_rules :: "rules_serde \<Rightarrow> str option \<Rightarrow> approval_rule list" where
  "load_rules S file =
     (case file of None \<Rightarrow> [] | Some raw \<Rightarrow> (case de S raw of Some rules \<Rightarrow> rules | None \<Rightarrow> []))"

definition save_rules ::
  "rules_serde \<Rightarrow> rules_io \<Rightarrow> str option \<Rightarrow> approval_rule list \<Rightarrow> str option \<times> (rules_error + unit)" where
  "save_rules S io file rules =
     (if \<not> mkdir_ok io then (file, Inl CreateRulesDir)
      else (case ser S rules of
              None \<Rightarrow> (file, Inl SerializeRules)
            | Some raw \<Rightarrow> if write_ok io then (Some raw, Inr ()) else (file, Inl WriteRules)))"

definition persist_auto_allow_rule ::
  "rules_serde \<Rightarrow> rules_io \<Rightarrow> str \<Rightarrow> str option \<Rightarrow> str \<Rightarrow> str \<Rightarrow> str \<Rightarrow>
     str option \<times> (rules_error + str option)" where
  "persist_auto_allow_rule S io now file operation target risk_level =
     (if \<not> rule_permitted_for operation risk_level then (file, Inr None)
      else (let pat = pattern_for operation target in
            if pat = [] then
              (if is_command_op operation \<and> length (command_segments (trim target)) > 1
               then (file, Inl CompoundCommand) else (file, Inl (NoPattern operation)))
            else (let stored = fst (upsert_rule now (load_rules S file) operation pat) in
                  case save_rules S io file stored of
                    (file', Inl e) \<Rightarrow> (file', Inl e)
                  | (file', Inr _) \<Rightarrow> (file', Inr (Some pat)))))"

subsection \<open>The reloader\<close>

text \<open>
  \<^verbatim>\<open>HotReloader\<close>: the cached value and the modification time it was read at.  The file system is the
  pair of the file's modification time (if it can be had) and whatever the load function reads.
\<close>

record 'a hot_reloader =
  hr_mtime :: "nat option"
  hr_state :: 'a

definition hot_new :: "('f \<Rightarrow> 'a) \<Rightarrow> nat option \<times> 'f \<Rightarrow> 'a hot_reloader" where
  "hot_new load fs = \<lparr>hr_mtime = fst fs, hr_state = load (snd fs)\<rparr>"

definition hot_check :: "('f \<Rightarrow> 'a) \<Rightarrow> nat option \<times> 'f \<Rightarrow> 'a hot_reloader \<Rightarrow> 'a hot_reloader \<times> bool" where
  "hot_check load fs h =
     (if fst fs = hr_mtime h then (h, False)
      else (h\<lparr>hr_mtime := fst fs, hr_state := load (snd fs)\<rparr>, True))"

definition hot_get :: "'a hot_reloader \<Rightarrow> 'a" where
  "hot_get h = hr_state h"

subsection \<open>Lemmas\<close>

lemma prefix_hits_iff: "prefix_hits ps seg \<longleftrightarrow> prefix ps (strip_env_tokens (tokenize_command seg))"
proof -
  have "length xs \<ge> length ps \<and> list_all (\<lambda>(t, p). t = p) (zip xs ps) \<longleftrightarrow> prefix ps xs" for xs :: "str list"
  proof (induction ps arbitrary: xs)
    case (Cons p ps)
    then show ?case by (cases xs) auto
  qed simp
  then show ?thesis by (simp add: prefix_hits_def Let_def)
qed

lemma strip_suffix_iff: "strip_suffix p s = Some t \<longleftrightarrow> s = t @ p"
  by (auto simp: strip_suffix_def suffix_def)

lemma matches_rule_op: "matches_rule rop pat op target \<Longrightarrow> rop = op"
  unfolding matches_rule_def by (rule ccontr) simp

lemma find_auto_allow_ruleD:
  assumes "find_auto_allow_rule rules op target risk = Some r"
  shows "r \<in> set rules" "ar_action r = ''allow''" "ar_op r = op" "rule_permitted_for op risk"
    "matches_rule op (ar_pattern r) op target"
proof -
  from assms have "rule_permitted_for op risk"
    and f: "find (\<lambda>r. ar_action r = ''allow'' \<and> matches_rule (ar_op r) (ar_pattern r) op target) rules = Some r"
    by (simp_all add: find_auto_allow_rule_def split: if_splits)
  then show "rule_permitted_for op risk" by simp
  from f have r: "r \<in> set rules" "ar_action r = ''allow''" "matches_rule (ar_op r) (ar_pattern r) op target"
    by (auto simp: find_Some_iff)
  from matches_rule_op [OF r(3)] show "ar_op r = op" .
  with r show "r \<in> set rules" "ar_action r = ''allow''" "matches_rule op (ar_pattern r) op target"
    by simp_all
qed

lemma matches_rule_prefix:
  assumes "matches_rule op (p @ '' *'') op target" and "is_command_op op"
  shows "tokenize_command p \<noteq> []"
    "list_all (\<lambda>s. prefix (tokenize_command p) (strip_env_tokens (tokenize_command s))) (command_segments target)"
proof -
  have "strip_suffix '' *'' (p @ '' *'') = Some p" by (simp add: strip_suffix_iff)
  with assms show "tokenize_command p \<noteq> []"
    "list_all (\<lambda>s. prefix (tokenize_command p) (strip_env_tokens (tokenize_command s))) (command_segments target)"
    by (auto simp: matches_rule_def prefix_hits_iff Let_def list_all_iff split: if_splits)
qed

lemma find_Some_ex: "x \<in> set xs \<Longrightarrow> P x \<Longrightarrow> \<exists>y. find P xs = Some y"
  by (induction xs) auto

lemma refresh_rule_Some:
  "refresh_rule now op pat rs = Some rs' \<Longrightarrow>
     map (\<lambda>r. (ar_op r, ar_pattern r, ar_action r)) rs' = map (\<lambda>r. (ar_op r, ar_pattern r, ar_action r)) rs \<and>
     (\<exists>r \<in> set rs'. ar_op r = op \<and> ar_pattern r = pat)"
proof (induction rs arbitrary: rs')
  case (Cons r rs)
  then show ?case by (auto split: if_splits)
qed simp

lemma refresh_rule_None:
  "refresh_rule now op pat rs = None \<longleftrightarrow> (\<forall>r \<in> set rs. ar_op r = op \<longrightarrow> ar_pattern r \<noteq> pat)"
  by (induction rs) auto

definition rule_keys :: "approval_rule list \<Rightarrow> (str \<times> str) list" where
  "rule_keys rs = map (\<lambda>r. (ar_op r, ar_pattern r)) rs"

lemma upsert_rule_keys:
  "set (rule_keys (fst (upsert_rule now rs op pat))) =
     (if pat = [] then set (rule_keys rs) else insert (op, pat) (set (rule_keys rs)))"
proof (cases "refresh_rule now op pat rs")
  case None
  then show ?thesis by (auto simp: upsert_rule_def rule_keys_def)
next
  case (Some rs')
  from refresh_rule_Some [OF Some]
  have "rule_keys rs' = rule_keys rs" "(op, pat) \<in> set (rule_keys rs')"
    by (auto simp: rule_keys_def comp_def dest!: arg_cong [where f = "map (\<lambda>(a, b, c). (a, b))"])
  with Some show ?thesis by (auto simp: upsert_rule_def)
qed

definition all_allow :: "approval_rule list \<Rightarrow> bool" where
  "all_allow rs \<longleftrightarrow> list_all (\<lambda>r. ar_action r = ''allow'') rs"

lemma upsert_rule_all_allow: "all_allow rs \<Longrightarrow> all_allow (fst (upsert_rule now rs op pat))"
proof (cases "refresh_rule now op pat rs")
  case (Some rs')
  assume a: "all_allow rs"
  from refresh_rule_Some [OF Some] have "map ar_action rs' = map ar_action rs"
    by (auto simp: comp_def dest!: arg_cong [where f = "map (\<lambda>(a, b, c). c)"])
  then have "set (map ar_action rs') = set (map ar_action rs)" by (rule arg_cong)
  with a Some show ?thesis by (auto simp: upsert_rule_def all_allow_def list_all_iff)
qed (auto simp: upsert_rule_def all_allow_def)

lemma join_append1: "ts \<noteq> [] \<Longrightarrow> join '' '' (ts @ [t]) = join '' '' ts @ '' '' @ t"
  by (induction "'' '' :: str" ts rule: join.induct) auto

text \<open>The pattern written for a command is a prefix of the command's words followed by \<^verbatim>\<open>*\<close>.\<close>

lemma pattern_words:
  assumes "\<forall>t \<in> set rest. plain_token t" "rest \<noteq> []"
    and red: "reduced = (if length rest \<le> arity_keep rest then join '' '' rest
       else join '' '' (take (arity_keep rest) rest) @ '' *'')"
  shows "\<exists>ws. ws \<noteq> [] \<and> prefix ws rest \<and>
     (if suffix '' *'' reduced then reduced else reduced @ '' *'') = join '' '' ws @ '' *''"
proof (cases "length rest \<le> arity_keep rest \<and> suffix '' *'' reduced")
  case False
  have k: "take (arity_keep rest) rest \<noteq> []" using assms(2) arity_keep_pos [of rest] by simp
  show ?thesis
  proof (cases "length rest \<le> arity_keep rest")
    case True
    with False red assms(2) show ?thesis by (intro exI [of _ rest]) simp
  next
    case le: False
    then have "suffix '' *'' reduced" by (simp add: red suffix_def)
    with le red k show ?thesis
      by (intro exI [of _ "take (arity_keep rest) rest"]) (simp add: take_is_prefix)
  qed
next
  case True
  with red have red': "reduced = join '' '' rest" by simp
  obtain us t where ut: "rest = us @ [t]" using assms(2) by (metis append_butlast_last_id)
  have pt: "plain_token t" using assms(1) ut by simp
  have us: "us \<noteq> []"
  proof
    assume "us = []"
    with ut red' True have "suffix '' *'' t" by simp
    then have "CHR '' '' \<in> set t" by (auto simp: suffix_def)
    with pt show False by (auto simp: plain_token_def is_whitespace_def)
  qed
  with red' ut have r: "reduced = join '' '' us @ '' '' @ t" by (simp add: join_append1)
  have "t = ''*''"
  proof -
    from True r obtain u where u: "(join '' '' us @ '' '') @ t = u @ '' *''" by (auto simp: suffix_def)
    have sp: "CHR '' '' \<notin> set t" "t \<noteq> []" using pt by (auto simp: plain_token_def is_whitespace_def)
    from u have "suffix t (u @ '' *'')" by (metis suffixI)
    moreover have "suffix ''*'' (u @ '' *'')" by (simp add: suffix_def)
    ultimately consider "suffix t ''*''" | "suffix ''*'' t" using suffix_same_cases by blast
    then show ?thesis
    proof cases
      case 1
      with sp(2) show ?thesis by (auto simp: suffix_Cons)
    next
      case 2
      then obtain v where v: "t = v @ ''*''" by (auto simp: suffix_def)
      show ?thesis
      proof (cases v rule: rev_cases)
        case (snoc w c)
        with u v have "c = CHR '' ''" by simp
        with snoc v sp(1) show ?thesis by simp
      qed (use v in simp)
    qed
  qed
  with r ut us True show ?thesis by (intro exI [of _ us]) simp
qed

lemma pattern_for_plain:
  assumes op: "is_command_op op" and seg: "command_segments target = [target]"
    and q: "SQUOTE \<notin> set target" "DQUOTE \<notin> set target"
    and ne: "strip_env_tokens (tokenize_command target) \<noteq> []"
  shows "\<exists>ws. ws \<noteq> [] \<and> (\<forall>w \<in> set ws. plain_token w) \<and>
    prefix ws (strip_env_tokens (tokenize_command target)) \<and> pattern_for op target = join '' '' ws @ '' *''"
proof -
  let ?rest = "strip_env_tokens (tokenize_command target)"
  have plain: "\<forall>t \<in> set ?rest. plain_token t"
    using split_whitespace_plain [OF q] tokenize_quote_free [OF q] strip_env_tokens_set by metis
  have wf: "list_all (\<lambda>s. s \<noteq> [] \<and> trim s = s) (command_segments target)"
    using finish_segments_wf unfolding list_all_iff command_segments_def by (auto split: prod.splits if_splits)
  then have t: "trim target = target" "target \<noteq> []" by (simp_all add: seg)
  have red: "reduce_command target = (if length ?rest \<le> arity_keep ?rest then join '' '' ?rest
       else join '' '' (take (arity_keep ?rest) ?rest) @ '' *'')"
    using ne by (simp add: reduce_command_def Let_def)
  from pattern_words [OF plain ne red] obtain ws where ws: "ws \<noteq> []" "prefix ws ?rest"
    "(if suffix '' *'' (reduce_command target) then reduce_command target else reduce_command target @ '' *'') =
       join '' '' ws @ '' *''" by blast
  have "join '' '' us \<noteq> []" if "us \<noteq> []" "\<forall>u \<in> set us. plain_token u" for us
    using that by (induction "'' '' :: str" us rule: join.induct) (auto simp: plain_token_def)
  then have "reduce_command target \<noteq> []" using plain ne by (auto simp: red)
  with ws(3) t seg op have "pattern_for op target = join '' '' ws @ '' *''"
    by (simp add: pattern_for_def Let_def)
  moreover have "\<forall>w \<in> set ws. plain_token w"
    using plain ws(2) set_mono_prefix by blast
  ultimately show ?thesis using ws by blast
qed

lemma matches_own_pattern:
  assumes "is_command_op op" "command_segments target = [target]"
    "SQUOTE \<notin> set target" "DQUOTE \<notin> set target" "strip_env_tokens (tokenize_command target) \<noteq> []"
  shows "matches_rule op (pattern_for op target) op target"
proof -
  from pattern_for_plain [OF assms] obtain ws where ws: "ws \<noteq> []" "\<forall>w \<in> set ws. plain_token w"
    "prefix ws (strip_env_tokens (tokenize_command target))" "pattern_for op target = join '' '' ws @ '' *''"
    by blast
  have "target \<noteq> []" using assms(5) by (auto simp: tokenize_command_def strip_env_tokens_def)
  moreover have "strip_suffix '' *'' (join '' '' ws @ '' *'') = Some (join '' '' ws)"
    by (simp add: strip_suffix_iff)
  ultimately show ?thesis
    using ws assms(1,2) by (simp add: matches_rule_def tokenize_join prefix_hits_iff Let_def)
qed

lemma persist_stores:
  assumes "persist_auto_allow_rule S io now file op target risk = (file', Inr (Some pat))"
    and "\<And>rs raw. ser S rs = Some raw \<Longrightarrow> de S raw = Some rs"
  shows "pat = pattern_for op target" "pat \<noteq> []" "rule_permitted_for op risk"
    "load_rules S file' = fst (upsert_rule now (load_rules S file) op pat)"
  using assms
  by (auto simp: persist_auto_allow_rule_def save_rules_def load_rules_def Let_def
      split: if_splits option.splits)

subsection \<open>Properties\<close>

text \<open>
  A remembered approval does not leak along a command chain.  When a stored prefix rule is used
  to let a chain of two commands pass, the rule is one of the stored allow rules for the same
  operation, and the words of every segment of both commands, environment assignments aside, begin
  with the words of the rule, of which there is at least one.
\<close>

theorem auto_allow_covers_every_segment:
  assumes "find_auto_allow_rule rules op (a @ '' '' @ sep @ '' '' @ b) risk = Some r"
    and "is_command_op op" and "ar_pattern r = p @ '' *''"
    and "balanced_quotes a" and "balanced_quotes b" and "sep \<in> set SEPARATORS"
  shows "r \<in> set rules \<and> ar_action r = ''allow'' \<and> ar_op r = op \<and> tokenize_command p \<noteq> [] \<and>
    list_all (\<lambda>s. prefix (tokenize_command p) (strip_env_tokens (tokenize_command s)))
      (command_segments a @ command_segments b)"
proof -
  note D = find_auto_allow_ruleD [OF assms(1)]
  note M = matches_rule_prefix [OF D(5) [unfolded assms(3)] assms(2)]
  from M(2) show ?thesis
    using D M(1) by (simp only: cmd.all_compound [OF assms(4-6)] list_all_append) simp
qed

theorem auto_allow_covers_every_segment_witness:
  "list_all (\<lambda>s. prefix (tokenize_command ''cargo test'') (strip_env_tokens (tokenize_command s)))
      (command_segments ''cargo test -q'' @ command_segments ''A=1 cargo test'')"
proof -
  let ?r = "\<lparr>ar_op = ''process_exec'', ar_pattern = ''cargo test'' @ '' *'', ar_action = ''allow'', ar_created_at = ''''\<rparr>"
  have 1: "find_auto_allow_rule [?r] ''process_exec'' (''cargo test -q'' @ '' '' @ ''&&'' @ '' '' @ ''A=1 cargo test'')
      ''CRITICAL'' = Some ?r" by code_simp
  have 2: "balanced_quotes ''cargo test -q''" "balanced_quotes ''A=1 cargo test''" by code_simp+
  have 3: "is_command_op ''process_exec''" "''&&'' \<in> set SEPARATORS"
    by (simp_all add: is_command_op_def SEPARATORS_def)
  show ?thesis
    using auto_allow_covers_every_segment [OF 1 3(1) _ 2 3(2), of "''cargo test''"] by simp
qed

text \<open>
  "always allow" is remembered.  For a single plain command (no quotes, one segment, not only
  environment assignments), when persisting the rule succeeds, reading the file back finds an allow
  rule for the same command at the same risk level, whatever allow rules were stored before.
\<close>

theorem persist_then_auto_allow:
  assumes "persist_auto_allow_rule S io now disk op target risk = (disk', Inr (Some pat))"
    and "\<And>rs raw. ser S rs = Some raw \<Longrightarrow> de S raw = Some rs"
    and "all_allow (load_rules S disk)"
    and "is_command_op op" and "command_segments target = [target]"
    and "SQUOTE \<notin> set target" and "DQUOTE \<notin> set target"
    and "strip_env_tokens (tokenize_command target) \<noteq> []"
  shows "\<exists>r. find_auto_allow_rule (load_rules S disk') op target risk = Some r"
proof -
  note P = persist_stores [OF assms(1,2)]
  have "(op, pat) \<in> set (rule_keys (load_rules S disk'))"
    using P(2,4) by (simp add: upsert_rule_keys)
  then obtain r where r: "r \<in> set (load_rules S disk')" "ar_op r = op" "ar_pattern r = pat"
    by (auto simp: rule_keys_def)
  have "all_allow (load_rules S disk')" using P(4) upsert_rule_all_allow [OF assms(3)] by simp
  with r(1) have "ar_action r = ''allow''" by (simp add: all_allow_def list_all_iff)
  moreover have "matches_rule op pat op target"
    using matches_own_pattern [OF assms(4-8)] P(1) by simp
  ultimately show ?thesis
    using r P(3) find_Some_ex [of r "load_rules S disk'"]
    by (simp add: find_auto_allow_rule_def)
qed

text \<open>A JSON library for a file that only ever holds the one-rule list of the example.\<close>

definition one_rule :: "approval_rule list" where
  "one_rule = [\<lparr>ar_op = ''process_exec'', ar_pattern = ''git push *'', ar_action = ''allow'', ar_created_at = ''t''\<rparr>]"

definition one_serde :: rules_serde where
  "one_serde = \<lparr>de = (\<lambda>s. if s = ''one'' then Some one_rule else None),
                ser = (\<lambda>rs. if rs = one_rule then Some ''one'' else None)\<rparr>"

theorem persist_then_auto_allow_witness:
  "\<exists>r. find_auto_allow_rule (load_rules one_serde (Some ''one'')) ''process_exec'' ''git push origin'' ''CRITICAL'' = Some r"
proof (rule persist_then_auto_allow [where io = "\<lparr>mkdir_ok = True, write_ok = True\<rparr>" and now = "''t''"
      and disk = None and pat = "''git push *''"])
  show "persist_auto_allow_rule one_serde \<lparr>mkdir_ok = True, write_ok = True\<rparr> ''t'' None ''process_exec''
     ''git push origin'' ''CRITICAL'' = (Some ''one'', Inr (Some ''git push *''))" by code_simp
  show "command_segments ''git push origin'' = [''git push origin'']" by code_simp
  show "strip_env_tokens (tokenize_command ''git push origin'') \<noteq> []" by code_simp
  show "all_allow (load_rules one_serde None)" by (simp add: load_rules_def all_allow_def)
  show "\<And>rs raw. ser one_serde rs = Some raw \<Longrightarrow> de one_serde raw = Some rs"
    by (auto simp: one_serde_def split: if_splits)
qed (simp_all add: is_command_op_def)

text \<open>
  The level gate holds on the writing and on the reading side.  No rule is ever written or used
  for an installation, nor for a CRITICAL operation other than running or spawning a command, and
  a refused write leaves the file as it was.
\<close>

theorem rule_gate:
  assumes "is_install_op op \<or> risk = ''CRITICAL'' \<and> \<not> is_command_op op"
  shows "find_auto_allow_rule rules op target risk = None \<and>
    persist_auto_allow_rule S io now disk op target risk = (disk, Inr None)"
  using assms
  by (auto simp: find_auto_allow_rule_def persist_auto_allow_rule_def rule_permitted_for_def)

theorem rule_gate_witness:
  "find_auto_allow_rule one_rule ''skills.install'' ''x'' ''LOW'' = None \<and>
    persist_auto_allow_rule one_serde \<lparr>mkdir_ok = True, write_ok = True\<rparr> ''t'' None ''skills.install'' ''x'' ''LOW'' = (None, Inr None)"
  by (rule rule_gate) (simp add: is_install_op_def)

end
