(* ===== verification/Guardian.thy ===== *)
theory Guardian
  imports SecurityTypes
begin

text \<open>
  The LLM judge of the security layer, crates/nemesis-security/src/guardian.rs: its verdict, the
  parser of its answer, and the word filter that decides which calls are worth a judgement in the
  mode for high-risk calls.  \<^verbatim>\<open>serde_json\<close> is a parameter: \<^verbatim>\<open>de_verdict\<close> reads a verdict object and
  \<^verbatim>\<open>parse_json\<close> a JSON text.
\<close>

subsection \<open>Verdicts\<close>

record judge_verdict =
  intent :: str
  matches_rules :: bool
  jv_risk_level :: str
  recommendation :: str
  rationale :: str

definition is_allow :: "judge_verdict \<Rightarrow> bool" where
  "is_allow v \<longleftrightarrow> to_lowercase (trim (recommendation v)) = ''allow''"

datatype verdict_error = NoOpeningBrace | NoClosingBrace | MalformedBraces | InvalidVerdictJson

fun rfind_char :: "char \<Rightarrow> str \<Rightarrow> nat option" where
  "rfind_char c [] = None"
| "rfind_char c (x # xs) =
     (case rfind_char c xs of Some i \<Rightarrow> Some (Suc i) | None \<Rightarrow> if x = c then Some 0 else None)"

definition strip_fence :: "str \<Rightarrow> str" where
  "strip_fence body =
     (case strip_prefix ([BACKTICK, BACKTICK, BACKTICK] @ ''json'') body of
        Some rest \<Rightarrow> rest
      | None \<Rightarrow> (case strip_prefix [BACKTICK, BACKTICK, BACKTICK] body of Some rest \<Rightarrow> rest | None \<Rightarrow> body))"

definition parse_verdict :: "(str \<Rightarrow> judge_verdict option) \<Rightarrow> str \<Rightarrow> verdict_error + judge_verdict" where
  "parse_verdict de_verdict raw =
     (let body = trim (strip_fence (trim raw)) in
      case find_str ''{'' body of
        None \<Rightarrow> Inl NoOpeningBrace
      | Some start \<Rightarrow>
          (case rfind_char (CHR ''}'') body of
             None \<Rightarrow> Inl NoClosingBrace
           | Some fin \<Rightarrow>
               if fin \<le> start then Inl MalformedBraces
               else (case de_verdict (take (Suc fin - start) (drop start body)) of
                       Some v \<Rightarrow> Inr v
                     | None \<Rightarrow> Inl InvalidVerdictJson)))"

subsection \<open>The word filter\<close>

definition DESTRUCTIVE_SHAPED_TERMS :: "str list" where
  "DESTRUCTIVE_SHAPED_TERMS =
     [''rm'', ''rmdir'', ''deltree'', ''rimraf'', ''remove-item'', ''del'', ''erase'', ''rd'',
      ''unlink'', ''shred'', ''truncate'', ''format'', ''mkfs'', ''diskpart'', ''dd'', ''fdisk'',
      ''cipher'', ''vssadmin'', ''wevtutil'', ''bcdedit'', ''bootrec'', ''wipefs'', ''chmod'',
      ''chown'', ''icacls'', ''cacls'', ''attrib'', ''takeown'', ''set-executionpolicy'',
      ''taskkill'', ''pkill'', ''killall'', ''shutdown'', ''reboot'', ''poweroff'', ''halt'',
      ''systemctl'', ''systemd'', ''net stop'', ''sc config'', ''sc delete'', ''curl'', ''wget'',
      ''iwr'', ''invoke-webrequest'', ''invoke-expression'', ''iex'', ''base64'', ''certutil'',
      ''bitsadmin'', ''nc'', ''netcat'', ''powershell'', ''| sh'', ''| bash'', ''|sh'', ''|bash'',
      ''eval'', ''git push --force'', ''git push -f'', ''git reset --hard'', ''git clean'',
      ''git filter-branch'', ''git rebase'', ''git checkout --'', ''git restore'', ''reg add'',
      ''reg delete'', ''regedit'', ''hklm'', ''hkcu'', ''currentversion'' @ [BSLASH] @ ''run'',
      ''schtasks'', ''crontab'', ''rc.local'', ''startup'', ''/etc/passwd'', ''/etc/shadow'',
      ''authorized_keys'', ''id_rsa'', ''.ssh'', ''.env'', ''.aws'', ''credentials'', ''.npmrc'',
      ''.netrc'', ''.git-credentials'', ''lsass'', ''sam'', ''system32'', ''syswow64'', ''sudo'',
      ''sudoers'', ''defender'', ''firewall'', ''netsh'', ''ufw'', ''iptables'', ''drop table'',
      ''drop database'', ''truncate table'', ''drop schema'', ''of=/dev/'', ''>/dev/sd'',
      ''mkswap'', '':(){'', ''fork bomb'']"

text \<open>
  The loop of \<^verbatim>\<open>term_present\<close>; \<^verbatim>\<open>from\<close> is the offset the next search starts at.  (The terms are
  non-empty constants, so the offset never runs past the end of the text.)
\<close>

function term_loop :: "str \<Rightarrow> str \<Rightarrow> nat \<Rightarrow> bool" where
  "term_loop t tm at =
     (if length t < at then False
      else (case find_str tm (drop at t) of
              None \<Rightarrow> False
            | Some pos \<Rightarrow>
                (let start = at + pos; fin = start + length tm;
                     before_ok = (start = 0 \<or> \<not> is_ascii_alphanumeric (t ! (start - 1)));
                     after_ok = (fin = length t \<or> \<not> is_ascii_alphanumeric (t ! fin))
                 in if before_ok \<and> after_ok then True else term_loop t tm (start + 1))))"
  by pat_completeness auto
termination
  by (relation "measure (\<lambda>(t, tm, at). Suc (length t) - at)") auto

declare term_loop.simps [simp del]

definition term_present :: "str \<Rightarrow> str \<Rightarrow> bool" where
  "term_present t tm = term_loop t tm 0"

definition destructive_shaped :: "(str \<Rightarrow> json option) \<Rightarrow> str \<Rightarrow> str \<Rightarrow> bool" where
  "destructive_shaped parse_json tool args_json =
     (if tool \<in> set [''delete_file'', ''delete_directory'', ''delete_dir''] then True
      else (let t = (case parse_json args_json of
                       None \<Rightarrow> args_json
                     | Some v \<Rightarrow> (case json_get v ''command'' of
                                   None \<Rightarrow> args_json
                                 | Some c \<Rightarrow> (case json_as_str c of None \<Rightarrow> args_json | Some s \<Rightarrow> s)));
                text_lower = to_lowercase t
            in list_ex (term_present text_lower) DESTRUCTIVE_SHAPED_TERMS))"

subsection \<open>Lemmas\<close>

definition word_occurs_from :: "nat \<Rightarrow> str \<Rightarrow> str \<Rightarrow> bool" where
  "word_occurs_from n t tm \<longleftrightarrow>
     (\<exists>pre post. t = pre @ tm @ post \<and> n \<le> length pre \<and>
        (pre = [] \<or> \<not> is_ascii_alphanumeric (last pre)) \<and>
        (post = [] \<or> \<not> is_ascii_alphanumeric (hd post)))"

lemma word_occurs_from_mono: "word_occurs_from n t tm \<Longrightarrow> m \<le> n \<Longrightarrow> word_occurs_from m t tm"
  unfolding word_occurs_from_def by (blast intro: le_trans)

lemma find_str_first:
  "find_str p s = Some i \<Longrightarrow> s = u @ p @ v \<Longrightarrow> i \<le> length u"
proof (induction u arbitrary: s i)
  case Nil
  have "prefix p (p @ v)" by simp
  with Nil show ?case by (cases "p @ v") auto
next
  case (Cons x u)
  then show ?case by (auto split: if_splits)
qed

lemma term_loop_iff:
  "tm \<noteq> [] \<Longrightarrow> term_loop t tm at \<longleftrightarrow> word_occurs_from at t tm"
proof (induction t tm at rule: term_loop.induct)
  case (1 t tm at)
  show ?case
  proof (cases "find_str tm (drop at t)")
    case None
    then have "\<not> sublist tm (drop at t)" by (simp add: find_str_None_iff)
    moreover have "sublist tm (drop at t)" if "t = pre @ tm @ post" "at \<le> length pre" for pre post
      using that by (auto simp: sublist_def)
    ultimately have "\<not> word_occurs_from at t tm" by (auto simp: word_occurs_from_def)
    with None show ?thesis by (simp add: term_loop.simps [of t tm at])
  next
    case (Some pos)
    from find_str_Some_iff [OF Some] obtain a b where ab: "drop at t = a @ tm @ b" "length a = pos"
      by blast
    have le: "at \<le> length t" using ab(1) 1(2) by (cases "at \<le> length t") auto
    define pre where "pre = take at t @ a"
    have t: "t = pre @ tm @ b" "length pre = at + pos"
      using ab le by (simp_all add: pre_def) (metis append_take_drop_id)
    let ?ok = "(at + pos = 0 \<or> \<not> is_ascii_alphanumeric (t ! (at + pos - 1))) \<and>
      (at + pos + length tm = length t \<or> \<not> is_ascii_alphanumeric (t ! (at + pos + length tm)))"
    have ok: "?ok \<longleftrightarrow> (pre = [] \<or> \<not> is_ascii_alphanumeric (last pre)) \<and>
      (b = [] \<or> \<not> is_ascii_alphanumeric (hd b))"
    proof -
      have "t ! (at + pos - 1) = last pre" if "pre \<noteq> []"
        using that t(1) unfolding t(2) [symmetric] by (simp add: nth_append last_conv_nth)
      moreover have "t ! (at + pos + length tm) = hd b" if "b \<noteq> []"
        using that t(1) unfolding t(2) [symmetric] by (simp add: nth_append hd_conv_nth)
      moreover have "at + pos = 0 \<longleftrightarrow> pre = []" using t(2) by auto
      moreover have "at + pos + length tm = length t \<longleftrightarrow> b = []"
        using arg_cong [OF t(1), of length] t(2) by auto
      ultimately show ?thesis by auto
    qed
    have first: "length pre \<le> length p" if "t = p @ tm @ q" "at \<le> length p" for p q
    proof -
      have "drop at t = drop at p @ tm @ q" using that by simp
      from find_str_first [OF Some this] show ?thesis using that(2) t(2) by simp
    qed
    show ?thesis
    proof (cases ?ok)
      case True
      then have "term_loop t tm at" using le Some by (subst term_loop.simps) (simp add: Let_def)
      moreover have "word_occurs_from at t tm"
        using True t unfolding ok word_occurs_from_def by (intro exI [of _ pre] exI [of _ b]) simp
      ultimately show ?thesis by simp
    next
      case False
      then have "term_loop t tm at = term_loop t tm (at + pos + 1)"
        using le Some by (subst term_loop.simps) (auto simp: Let_def)
      also have "\<dots> \<longleftrightarrow> word_occurs_from (at + pos + 1) t tm"
        using 1(1) [OF _ Some refl refl refl refl] le False 1(2) by simp
      also have "\<dots> \<longleftrightarrow> word_occurs_from at t tm"
      proof
        assume "word_occurs_from at t tm"
        then obtain p q where pq: "t = p @ tm @ q" "at \<le> length p"
          "p = [] \<or> \<not> is_ascii_alphanumeric (last p)" "q = [] \<or> \<not> is_ascii_alphanumeric (hd q)"
          unfolding word_occurs_from_def by blast
        have "length pre \<noteq> length p"
        proof
          assume "length pre = length p"
          with t(1) pq(1) have "p = pre" "q = b" by (metis append_eq_append_conv)+
          with pq(3,4) ok False show False by simp
        qed
        with first [OF pq(1,2)] t(2) have "at + pos + 1 \<le> length p" by simp
        with pq show "word_occurs_from (at + pos + 1) t tm" unfolding word_occurs_from_def by blast
      next
        assume w: "word_occurs_from (at + pos + 1) t tm"
        show "word_occurs_from at t tm" by (rule word_occurs_from_mono [OF w]) (simp only: le_add1 add.assoc)
      qed
      finally show ?thesis .
    qed
  qed
qed

subsection \<open>Properties\<close>

text \<open>
  The word filter finds a term exactly when it occurs somewhere in the text with no letter or
  digit directly before or after it, so \<^verbatim>\<open>rm\<close> is found in \<^verbatim>\<open>a && rm -rf b\<close> and not in \<^verbatim>\<open>firmware\<close>; the
  search that restarts one character after a rejected occurrence misses none.
\<close>

theorem term_present_spec:
  assumes "tm \<noteq> []"
  shows "term_present t tm \<longleftrightarrow>
    (\<exists>pre post. t = pre @ tm @ post \<and>
       (pre = [] \<or> \<not> is_ascii_alphanumeric (last pre)) \<and> (post = [] \<or> \<not> is_ascii_alphanumeric (hd post)))"
  using term_loop_iff [OF assms, of t 0] by (simp add: term_present_def word_occurs_from_def)

theorem term_present_spec_witness:
  "term_present ''firmware rm'' ''rm'' \<longleftrightarrow>
    (\<exists>pre post. ''firmware rm'' = pre @ ''rm'' @ post \<and>
       (pre = [] \<or> \<not> is_ascii_alphanumeric (last pre)) \<and> (post = [] \<or> \<not> is_ascii_alphanumeric (hd post)))"
  by (rule term_present_spec) simp

end
