(* ===== verification/Auditor.thy ===== *)
theory Auditor
  imports AuditorPolicy ApprovalRules Guardian "HOL-Library.AList"
begin

text \<open>
  The state of the security auditor, crates/nemesis-security/src/auditor.rs: requests for permission
  with their audit events and counters, the pending requests and their later approval or denial, the
  human gates for the guardian and for exceeded limits, and the query of the audit log.

  The approval manager (a trait object of the gateway) is the record \<^verbatim>\<open>approval_manager\<close>: whether it runs
  and what it answers.  What a call reads from the world is the record \<^verbatim>\<open>world\<close>: fresh identifiers, the
  clock, the rules file and the outcome of file operations.  The lemmas show that the counters always
  add up, that only a human answer produces an approval reference, and what is written to the log.
\<close>

subsection \<open>Types\<close>

record approval_verdict =
  v_approved :: bool
  v_note :: "str option"

record approval_context =
  channel :: str
  chat_id :: str
  sender_id :: str

text \<open>
  \<^verbatim>\<open>am_ask\<close> stands for both request methods of the trait: the context is \<^verbatim>\<open>None\<close> for
  \<^verbatim>\<open>request_approval_sync\<close>.  Its arguments are the request id, the operation, the target, the risk
  level, the reason and the timeout.
\<close>

record approval_manager =
  am_running :: bool
  am_ask :: "str \<Rightarrow> str \<Rightarrow> str \<Rightarrow> str \<Rightarrow> reason \<Rightarrow> nat \<Rightarrow> approval_context option \<Rightarrow> str + approval_verdict"

record auditor_config =
  cfg_enabled :: bool
  approval_timeout_secs :: nat
  audit_log_file_enabled :: bool
  audit_log_dir :: "str option"
  cfg_default_action :: str

record audit_event =
  event_id :: str
  ev_request :: operation_request
  ev_decision :: str
  ev_reason :: reason
  ev_timestamp :: str
  ev_policy :: policy

text \<open>The two places events are appended to: \<^verbatim>\<open>audit.jsonl\<close> of a directory, and an explicit file.\<close>

datatype log_path = JsonlIn str | LogFile str

text \<open>A line of a log file: an event as written by the auditor, or any other text.\<close>

datatype log_line = EventLine audit_event | OtherLine str

record auditor = policy_state +
  active_requests :: "(str \<times> operation_request) list"
  config :: auditor_config
  enabled :: bool
  total_events :: "64 word"
  allowed_count :: "64 word"
  denied_count :: "64 word"
  approved_count :: "64 word"
  pending_total :: "64 word"
  approval_mgr :: "approval_manager option"
  approval_rules :: "approval_rule list hot_reloader option"
  approval_auto :: "approval_auto option"
  log_file_path :: "str option"
  audit_jsonl :: "(bool \<times> str) option"
  logs :: "log_path \<Rightarrow> log_line list"

definition auditor_new :: "auditor_config \<Rightarrow> auditor" where
  "auditor_new cfg =
     \<lparr>rules = Map.empty, default_action = cfg_default_action cfg, exec_unknown_policy = '''',
      protected_paths = [], self_destruct_exempt = '''', editor = None,
      active_requests = [], config = cfg, enabled = cfg_enabled cfg,
      total_events = 0, allowed_count = 0, denied_count = 0, approved_count = 0, pending_total = 0,
      approval_mgr = None, approval_rules = None, approval_auto = None, log_file_path = None,
      audit_jsonl = None, logs = (\<lambda>_. [])\<rparr>"

text \<open>
  What one call reads from outside: fresh ids, the clock, which log files can be opened, the rules
  file with its modification time, and the JSON and file operations used to persist a rule.
\<close>

record world =
  fresh_id :: str
  fresh_request_id :: str
  now :: str
  can_open :: "log_path \<Rightarrow> bool"
  rules_mtime :: "nat option"
  rules_file :: "str option"
  serde :: rules_serde
  io :: rules_io

subsection \<open>The audit log\<close>

definition jsonl_dir :: "auditor \<Rightarrow> str option" where
  "jsonl_dir a =
     (case audit_jsonl a of
        Some (on, dir) \<Rightarrow> if on \<and> dir \<noteq> [] then Some dir else None
      | None \<Rightarrow>
          if audit_log_file_enabled (config a)
          then (case audit_log_dir (config a) of Some d \<Rightarrow> if d \<noteq> [] then Some d else None | None \<Rightarrow> None)
          else None)"

definition append_log :: "world \<Rightarrow> log_path \<Rightarrow> audit_event \<Rightarrow> auditor \<Rightarrow> auditor" where
  "append_log w path e a =
     (if can_open w path then a\<lparr>logs := (logs a)(path := logs a path @ [EventLine e])\<rparr> else a)"

definition log_audit_event :: "world \<Rightarrow> audit_event \<Rightarrow> auditor \<Rightarrow> auditor" where
  "log_audit_event w e a =
     (let a1 = (case jsonl_dir a of Some d \<Rightarrow> append_log w (JsonlIn d) e a | None \<Rightarrow> a) in
      case log_file_path a1 of Some p \<Rightarrow> append_log w (LogFile p) e a1 | None \<Rightarrow> a1)"

definition mk_event :: "world \<Rightarrow> operation_request \<Rightarrow> str \<Rightarrow> reason \<Rightarrow> policy \<Rightarrow> audit_event" where
  "mk_event w req d r p =
     \<lparr>event_id = fresh_id w, ev_request = req, ev_decision = d, ev_reason = r, ev_timestamp = now w,
      ev_policy = p\<rparr>"

record audit_filter =
  f_operation_type :: "operation_type option"
  f_user :: "str option"
  f_source :: "str option"
  f_decision :: "str option"
  f_start_time :: "str option"
  f_end_time :: "str option"

definition filter_is_empty :: "audit_filter \<Rightarrow> bool" where
  "filter_is_empty f \<longleftrightarrow> f_operation_type f = None \<and> f_user f = None \<and> f_source f = None \<and>
     f_decision f = None \<and> f_start_time f = None \<and> f_end_time f = None"

text \<open>The order on strings that Rust's \<^verbatim>\<open>str\<close> comparison uses.\<close>

fun str_less :: "str \<Rightarrow> str \<Rightarrow> bool" where
  "str_less [] [] = False"
| "str_less [] (y # ys) = True"
| "str_less (x # xs) [] = False"
| "str_less (x # xs) (y # ys) =
     ((of_char x :: nat) < of_char y \<or> x = y \<and> str_less xs ys)"

definition filter_matches :: "audit_filter \<Rightarrow> audit_event \<Rightarrow> bool" where
  "filter_matches f e \<longleftrightarrow>
     (case f_operation_type f of Some op \<Rightarrow> op_type (ev_request e) = op | None \<Rightarrow> True) \<and>
     (case f_user f of Some u \<Rightarrow> req_user (ev_request e) = u | None \<Rightarrow> True) \<and>
     (case f_source f of
        Some s \<Rightarrow> \<not> (req_source (ev_request e) = [] \<or> \<not> contains_str (req_source (ev_request e)) s)
      | None \<Rightarrow> True) \<and>
     (case f_decision f of Some d \<Rightarrow> ev_decision e = d | None \<Rightarrow> True) \<and>
     (case f_start_time f of Some s \<Rightarrow> \<not> str_less (ev_timestamp e) s | None \<Rightarrow> True) \<and>
     (case f_end_time f of Some s \<Rightarrow> \<not> str_less s (ev_timestamp e) | None \<Rightarrow> True)"

text \<open>Reading back: lines that are not events are skipped.\<close>

definition get_audit_log :: "auditor \<Rightarrow> audit_filter \<Rightarrow> audit_event list" where
  "get_audit_log a f =
     (case jsonl_dir a of
        None \<Rightarrow> []
      | Some d \<Rightarrow>
          List.map_filter
            (\<lambda>l. case l of EventLine e \<Rightarrow> if filter_is_empty f \<or> filter_matches f e then Some e else None
                         | OtherLine _ \<Rightarrow> None)
            (logs a (JsonlIn d)))"

subsection \<open>Requests for permission\<close>

datatype message =
    PolicyDenied operation_type str reason
  | UserRejected operation_type str reason "str option"
  | ApprovalRequired reason str

text \<open>The result: allowed, the error message, and the reference of a human approval.\<close>

type_synonym permission = "bool \<times> message option \<times> str option"

definition decision_str :: "security_decision \<Rightarrow> str" where
  "decision_str d = (case d of Allowed \<Rightarrow> ''allowed'' | Denied \<Rightarrow> ''denied'' | RequireApproval \<Rightarrow> ''pending'')"

definition approval_auto_enabled :: "auditor \<Rightarrow> bool" where
  "approval_auto_enabled a = (case approval_auto a of Some s \<Rightarrow> aa_enabled s | None \<Rightarrow> False)"

definition trimmed_note :: "approval_verdict \<Rightarrow> str option" where
  "trimmed_note v =
     (case v_note v of Some n \<Rightarrow> if trim n \<noteq> [] then Some (trim n) else None | None \<Rightarrow> None)"

text \<open>The remembered rule, if the table is mounted: the reloaded table and the rule found.\<close>

definition lookup_rule :: "world \<Rightarrow> operation_request \<Rightarrow> auditor \<Rightarrow> auditor \<times> approval_rule option" where
  "lookup_rule w req a =
     (case approval_rules a of
        None \<Rightarrow> (a, None)
      | Some hot \<Rightarrow>
          (let hot' = fst (hot_check (load_rules (serde w)) (rules_mtime w, rules_file w) hot) in
           (a\<lparr>approval_rules := Some hot'\<rparr>,
            find_auto_allow_rule (hot_get hot') (op_slug (op_type req)) (target req)
              (danger_label (danger req)))))"

text \<open>The unattended mode: the file of remembered rules may change.\<close>

definition auto_approve :: "world \<Rightarrow> operation_request \<Rightarrow> approval_context option \<Rightarrow> auditor \<Rightarrow> auditor \<times> str option" where
  "auto_approve w req ctx a =
     (let a1 = a\<lparr>allowed_count := allowed_count a + 1\<rparr>;
          a2 = a1\<lparr>approval_auto := map_option approval_auto_bump (approval_auto a1)\<rparr>;
          file' = (if (case ctx of Some c \<Rightarrow> channel c = ''cluster'' | None \<Rightarrow> False) \<and> approval_rules a2 \<noteq> None
                   then fst (persist_auto_allow_rule (serde w) (io w) (now w) (rules_file w)
                               (op_slug (op_type req)) (target req) (danger_label (danger req)))
                   else rules_file w)
      in (log_audit_event w (mk_event w req ''allowed'' AutoByConfig PolAutoByConfig) a2, file'))"

text \<open>The interactive card, or the pending list.\<close>

definition store_pending :: "operation_request \<Rightarrow> reason \<Rightarrow> auditor \<Rightarrow> auditor \<times> permission" where
  "store_pending req r a =
     (a\<lparr>active_requests := AList.update (req_id req) req (active_requests a)\<rparr>,
      False, Some (ApprovalRequired r (req_id req)), None)"

definition ask_human :: "operation_request \<Rightarrow> reason \<Rightarrow> approval_context option \<Rightarrow> auditor \<Rightarrow> auditor \<times> permission" where
  "ask_human req r ctx a =
     (case approval_mgr a of
        None \<Rightarrow> store_pending req r a
      | Some mgr \<Rightarrow>
          if \<not> am_running mgr then store_pending req r a
          else (case am_ask mgr (req_id req) (op_slug (op_type req)) (target req)
                       (danger_label (danger req)) r (approval_timeout_secs (config a)) ctx of
                  Inr v \<Rightarrow>
                    if v_approved v
                    then (a\<lparr>pending_total := pending_total a - 1, approved_count := approved_count a + 1\<rparr>,
                          True, None, Some (req_id req))
                    else (a\<lparr>pending_total := pending_total a - 1, denied_count := denied_count a + 1\<rparr>,
                          False, Some (UserRejected (op_type req) (target req) r (trimmed_note v)), None)
                | Inl _ \<Rightarrow> store_pending req r a))"

text \<open>
  \<^verbatim>\<open>request_permission_tracked\<close>; the result is the new state, the rules file and the permission.
\<close>

definition request_permission_tracked ::
  "platform \<Rightarrow> world \<Rightarrow> operation_request \<Rightarrow> approval_context option \<Rightarrow> auditor \<Rightarrow>
     auditor \<times> str option \<times> permission" where
  "request_permission_tracked pf w req ctx a =
     (if \<not> enabled a then (a, rules_file w, True, None, None)
      else
        (let a0 = a\<lparr>total_events := total_events a + 1\<rparr>;
             (decision, r, pol) = evaluate_request pf a0 req;
             (a1, hit) = (if decision = RequireApproval \<and> force_approval req = None
                          then lookup_rule w req a0 else (a0, None))
         in case hit of
              Some rule \<Rightarrow>
                (log_audit_event w
                   (mk_event w req ''allowed'' (AutoByRule (ar_op rule) (ar_pattern rule))
                      (PolAutoByRule (ar_pattern rule)))
                   (a1\<lparr>allowed_count := allowed_count a1 + 1\<rparr>),
                 rules_file w, True, None, None)
            | None \<Rightarrow>
                if decision = RequireApproval \<and> approval_auto_enabled a1
                then (case auto_approve w req ctx a1 of (a2, file') \<Rightarrow> (a2, file', True, None, None))
                else
                  (let a2 = log_audit_event w (mk_event w req (decision_str decision) r pol) a1 in
                   case decision of
                     Allowed \<Rightarrow> (a2\<lparr>allowed_count := allowed_count a2 + 1\<rparr>, rules_file w, True, None, None)
                   | Denied \<Rightarrow> (a2\<lparr>denied_count := denied_count a2 + 1\<rparr>, rules_file w,
                                False, Some (PolicyDenied (op_type req) (target req) r), None)
                   | RequireApproval \<Rightarrow>
                       (case ask_human req r ctx (a2\<lparr>pending_total := pending_total a2 + 1\<rparr>) of
                          (a3, res) \<Rightarrow> (a3, rules_file w, res)))))"

definition request_permission_with_ctx ::
  "platform \<Rightarrow> world \<Rightarrow> operation_request \<Rightarrow> approval_context option \<Rightarrow> auditor \<Rightarrow>
     auditor \<times> str option \<times> bool \<times> message option \<times> str" where
  "request_permission_with_ctx pf w req ctx a =
     (case request_permission_tracked pf w req ctx a of
        (a', file', ok, err, _) \<Rightarrow> (a', file', ok, err, req_id req))"

subsection \<open>Pending requests\<close>

datatype request_error = RequestNotFound str

definition approve_request :: "str \<Rightarrow> auditor \<Rightarrow> auditor \<times> (request_error + unit)" where
  "approve_request rid a =
     (case map_of (active_requests a) rid of
        Some req \<Rightarrow>
          (a\<lparr>active_requests := AList.delete rid (active_requests a),
             pending_total := pending_total a - 1, approved_count := approved_count a + 1\<rparr>, Inr ())
      | None \<Rightarrow> (a, Inl (RequestNotFound rid)))"

definition deny_request :: "str \<Rightarrow> auditor \<Rightarrow> auditor \<times> (request_error + unit)" where
  "deny_request rid a =
     (case map_of (active_requests a) rid of
        Some req \<Rightarrow>
          (a\<lparr>active_requests := AList.delete rid (active_requests a),
             pending_total := pending_total a - 1, denied_count := denied_count a + 1\<rparr>, Inr ())
      | None \<Rightarrow> (a, Inl (RequestNotFound rid)))"

definition pending_count :: "auditor \<Rightarrow> nat" where
  "pending_count a = length (active_requests a)"

definition get_pending_requests :: "auditor \<Rightarrow> operation_request list" where
  "get_pending_requests a = map snd (active_requests a)"

definition statistics :: "auditor \<Rightarrow> (str \<times> 64 word) list" where
  "statistics a =
     [(''total_events'', total_events a), (''allowed'', allowed_count a), (''denied'', denied_count a),
      (''approved'', approved_count a), (''pending'', pending_total a)]"

definition close :: "auditor \<Rightarrow> auditor" where
  "close a = a\<lparr>active_requests := []\<rparr>"

subsection \<open>Configuration of the auditor\<close>

definition set_log_file :: "str \<Rightarrow> auditor \<Rightarrow> auditor" where
  "set_log_file p a = a\<lparr>log_file_path := Some p\<rparr>"

definition set_approval_manager :: "approval_manager \<Rightarrow> auditor \<Rightarrow> auditor" where
  "set_approval_manager m a = a\<lparr>approval_mgr := Some m\<rparr>"

definition set_approval_rules :: "approval_rule list hot_reloader \<Rightarrow> auditor \<Rightarrow> auditor" where
  "set_approval_rules h a = a\<lparr>approval_rules := Some h\<rparr>"

definition set_approval_auto_approve :: "approval_auto \<Rightarrow> auditor \<Rightarrow> auditor" where
  "set_approval_auto_approve s a = a\<lparr>approval_auto := Some s\<rparr>"

definition set_audit_jsonl_log :: "bool \<Rightarrow> str \<Rightarrow> auditor \<Rightarrow> auditor" where
  "set_audit_jsonl_log b dir a = a\<lparr>audit_jsonl := Some (b, dir)\<rparr>"

definition enable :: "auditor \<Rightarrow> auditor" where
  "enable a = a\<lparr>enabled := True\<rparr>"

definition disable :: "auditor \<Rightarrow> auditor" where
  "disable a = a\<lparr>enabled := False\<rparr>"

subsection \<open>Human gates\<close>

text \<open>
  The three functions that put a question to the human outside the rule evaluation.  An error means
  that nobody answered; the callers treat it as a refusal.
\<close>

datatype gate_error = NoManager | ManagerNotRunning | AskFailed str

definition gate_event ::
  "world \<Rightarrow> str \<Rightarrow> danger_level \<Rightarrow> str \<Rightarrow> str \<Rightarrow> str \<Rightarrow> reason \<Rightarrow> policy \<Rightarrow> audit_event" where
  "gate_event w rid level src tool d why pol =
     mk_event w
       (default_request\<lparr>req_id := rid, op_type := ProcessExec, danger := level, req_source := src, target := tool\<rparr>)
       d why pol"

definition gate_outcome_of :: "approval_verdict \<Rightarrow> gate_outcome" where
  "gate_outcome_of v =
     (if v_approved v then GateApproved
      else (case trimmed_note v of Some n \<Rightarrow> GateRejected n | None \<Rightarrow> GateRejectedOrTimeout))"

definition verdict_decision :: "approval_verdict \<Rightarrow> str" where
  "verdict_decision v = (if v_approved v then ''approved'' else ''denied'')"

definition request_guardian_failure_approval ::
  "world \<Rightarrow> str \<Rightarrow> str \<Rightarrow> approval_context option \<Rightarrow> auditor \<Rightarrow> auditor \<times> (gate_error + approval_verdict)" where
  "request_guardian_failure_approval w tool why ctx a =
     (case approval_mgr a of
        None \<Rightarrow> (a, Inl NoManager)
      | Some mgr \<Rightarrow>
          if \<not> am_running mgr then (a, Inl ManagerNotRunning)
          else
            (let rid = ''guardian-'' @ fresh_request_id w;
                 event = (\<lambda>d out. gate_event w rid Critical ''guardian_failure_approval'' tool d
                            (GateReason GuardianFailed (ReasonText why) out)
                            (PolText ''guardian_failure_policy=ask''))
             in case am_ask mgr rid ''guardian_review'' tool ''CRITICAL'' (ReasonText why)
                       (approval_timeout_secs (config a)) ctx of
                  Inr v \<Rightarrow> (log_audit_event w (event (verdict_decision v) (gate_outcome_of v)) a, Inr v)
                | Inl e \<Rightarrow> (log_audit_event w (event ''denied'' (GateUnavailable e)) a, Inl (AskFailed e))))"

definition log_guardian_verdict :: "world \<Rightarrow> str \<Rightarrow> str \<Rightarrow> judge_verdict \<Rightarrow> auditor \<Rightarrow> auditor" where
  "log_guardian_verdict w tool mode v a =
     log_audit_event w
       (gate_event w (fresh_request_id w) Critical ''guardian_review'' tool
          (if is_allow v then ''allow'' else ''escalate'')
          (VerdictSummary (recommendation v) (matches_rules v) (jv_risk_level v) (intent v) (rationale v))
          (PolText (''guardian_mode='' @ mode)))
       a"

definition request_limit_approval ::
  "world \<Rightarrow> str \<Rightarrow> str \<Rightarrow> approval_context option \<Rightarrow> auditor \<Rightarrow> auditor \<times> (gate_error + approval_verdict)" where
  "request_limit_approval w tool why ctx a =
     (let rid = ''limit-'' @ fresh_request_id w;
          event = (\<lambda>d out. gate_event w rid High ''limit_review'' tool d
                     (GateReason LimitExceeded (ReasonText why) out) (PolText ''security.limits''))
      in case approval_mgr a of
           None \<Rightarrow> (log_audit_event w (event ''denied'' GateNoManager) a, Inl NoManager)
         | Some mgr \<Rightarrow>
             if \<not> am_running mgr then (log_audit_event w (event ''denied'' GateNotRunning) a, Inl ManagerNotRunning)
             else (case am_ask mgr rid ''limit_review'' tool ''HIGH'' (ReasonText why)
                          (approval_timeout_secs (config a)) ctx of
                     Inr v \<Rightarrow> (log_audit_event w (event (verdict_decision v) (gate_outcome_of v)) a, Inr v)
                   | Inl e \<Rightarrow> (log_audit_event w (event ''denied'' (GateUnavailable e)) a, Inl (AskFailed e))))"

definition request_guardian_verdict_approval ::
  "world \<Rightarrow> str \<Rightarrow> str \<Rightarrow> str \<Rightarrow> judge_verdict \<Rightarrow> approval_context option \<Rightarrow> auditor \<Rightarrow>
     auditor \<times> (gate_error + approval_verdict)" where
  "request_guardian_verdict_approval w tool risk mode v ctx a =
     (case approval_mgr a of
        None \<Rightarrow> (a, Inl NoManager)
      | Some mgr \<Rightarrow>
          if \<not> am_running mgr then (a, Inl ManagerNotRunning)
          else
            (let rid = ''guardian-'' @ fresh_request_id w;
                 why = VerdictFlag (recommendation v) (matches_rules v) (rationale v);
                 level = (let d = to_uppercase (trim risk) in if d = [] then ''UNKNOWN'' else d);
                 event = (\<lambda>d out. gate_event w rid Critical ''guardian_verdict_approval'' tool d
                            (GateReason GuardianVerdict why out) (PolText (''guardian_mode='' @ mode)))
             in case am_ask mgr rid ''guardian_review'' tool level why (approval_timeout_secs (config a)) ctx of
                  Inr r \<Rightarrow> (log_audit_event w (event (verdict_decision r) (gate_outcome_of r)) a, Inr r)
                | Inl e \<Rightarrow> (log_audit_event w (event ''denied'' (GateUnavailable e)) a, Inl (AskFailed e))))"

subsection \<open>Runs\<close>

text \<open>The operations of the auditor as actions, and the states they reach.\<close>

datatype auditor_action =
    ActRequest platform world operation_request "approval_context option"
  | ActApprove str
  | ActDeny str
  | ActClose
  | ActSetRules operation_type "security_rule list"
  | ActSetDefault str
  | ActSetUnknown str
  | ActSetProtected "str list"
  | ActSetExempt str
  | ActSetEditor editor_access
  | ActSetManager approval_manager
  | ActSetApprovalRules "approval_rule list hot_reloader"
  | ActSetAuto approval_auto
  | ActSetJsonl bool str
  | ActSetLogFile str
  | ActEnable
  | ActDisable
  | ActGuardianFailure world str str "approval_context option"
  | ActLimit world str str "approval_context option"
  | ActVerdict world str str str judge_verdict "approval_context option"
  | ActLogVerdict world str str judge_verdict

fun act :: "auditor_action \<Rightarrow> auditor \<Rightarrow> auditor" where
  "act (ActRequest pf w req ctx) a = fst (request_permission_tracked pf w req ctx a)"
| "act (ActApprove rid) a = fst (approve_request rid a)"
| "act (ActDeny rid) a = fst (deny_request rid a)"
| "act ActClose a = close a"
| "act (ActSetRules op rs) a = set_rules op rs a"
| "act (ActSetDefault d) a = set_default_action d a"
| "act (ActSetUnknown p) a = set_exec_unknown_policy p a"
| "act (ActSetProtected ps) a = AuditorPolicy.set_protected_paths ps a"
| "act (ActSetExempt p) a = set_self_destruct_exempt_path p a"
| "act (ActSetEditor e) a = set_editor_access e a"
| "act (ActSetManager m) a = set_approval_manager m a"
| "act (ActSetApprovalRules h) a = set_approval_rules h a"
| "act (ActSetAuto s) a = set_approval_auto_approve s a"
| "act (ActSetJsonl b d) a = set_audit_jsonl_log b d a"
| "act (ActSetLogFile p) a = set_log_file p a"
| "act ActEnable a = enable a"
| "act ActDisable a = disable a"
| "act (ActGuardianFailure w tool why ctx) a = fst (request_guardian_failure_approval w tool why ctx a)"
| "act (ActLimit w tool why ctx) a = fst (request_limit_approval w tool why ctx a)"
| "act (ActVerdict w tool risk mode v ctx) a = fst (request_guardian_verdict_approval w tool risk mode v ctx a)"
| "act (ActLogVerdict w tool mode v) a = log_guardian_verdict w tool mode v a"

inductive auditor_step :: "auditor \<Rightarrow> auditor \<Rightarrow> bool" where
  step: "auditor_step a (act x a)"

inductive_cases auditor_stepE [elim]: "auditor_step a b"

subsection \<open>Lemmas: the log\<close>

lemma append_log_simps [simp]:
  "total_events (append_log w p e a) = total_events a"
  "allowed_count (append_log w p e a) = allowed_count a"
  "denied_count (append_log w p e a) = denied_count a"
  "approved_count (append_log w p e a) = approved_count a"
  "pending_total (append_log w p e a) = pending_total a"
  "active_requests (append_log w p e a) = active_requests a"
  "approval_mgr (append_log w p e a) = approval_mgr a"
  "approval_auto (append_log w p e a) = approval_auto a"
  "approval_rules (append_log w p e a) = approval_rules a"
  "config (append_log w p e a) = config a"
  "log_file_path (append_log w p e a) = log_file_path a"
  "audit_jsonl (append_log w p e a) = audit_jsonl a"
  by (simp_all add: append_log_def)

lemma log_audit_event_simps [simp]:
  "total_events (log_audit_event w e a) = total_events a"
  "allowed_count (log_audit_event w e a) = allowed_count a"
  "denied_count (log_audit_event w e a) = denied_count a"
  "approved_count (log_audit_event w e a) = approved_count a"
  "pending_total (log_audit_event w e a) = pending_total a"
  "active_requests (log_audit_event w e a) = active_requests a"
  "approval_mgr (log_audit_event w e a) = approval_mgr a"
  "approval_auto (log_audit_event w e a) = approval_auto a"
  "approval_rules (log_audit_event w e a) = approval_rules a"
  "config (log_audit_event w e a) = config a"
  "log_file_path (log_audit_event w e a) = log_file_path a"
  "audit_jsonl (log_audit_event w e a) = audit_jsonl a"
  by (simp_all add: log_audit_event_def Let_def split: option.splits)

lemma logs_log_audit_event:
  "logs (log_audit_event w e a) p =
     (if (jsonl_dir a \<noteq> None \<and> p = JsonlIn (the (jsonl_dir a)) \<or>
          log_file_path a \<noteq> None \<and> p = LogFile (the (log_file_path a))) \<and> can_open w p
      then logs a p @ [EventLine e] else logs a p)"
  by (auto simp: log_audit_event_def append_log_def Let_def split: option.splits)

lemma jsonl_dir_cong:
  "audit_jsonl a = audit_jsonl b \<Longrightarrow> config a = config b \<Longrightarrow> jsonl_dir a = jsonl_dir b"
  unfolding jsonl_dir_def by (simp split: option.split)

subsection \<open>Lemmas: the counters\<close>

definition ledger :: "auditor \<Rightarrow> bool" where
  "ledger a \<longleftrightarrow> total_events a = allowed_count a + denied_count a + approved_count a + pending_total a"

lemma lookup_rule_simps [simp]:
  "total_events (fst (lookup_rule w req a)) = total_events a"
  "allowed_count (fst (lookup_rule w req a)) = allowed_count a"
  "denied_count (fst (lookup_rule w req a)) = denied_count a"
  "approved_count (fst (lookup_rule w req a)) = approved_count a"
  "pending_total (fst (lookup_rule w req a)) = pending_total a"
  "active_requests (fst (lookup_rule w req a)) = active_requests a"
  "approval_mgr (fst (lookup_rule w req a)) = approval_mgr a"
  "approval_auto (fst (lookup_rule w req a)) = approval_auto a"
  "config (fst (lookup_rule w req a)) = config a"
  by (simp_all add: lookup_rule_def Let_def split: option.splits)

lemma auto_approve_simps [simp]:
  "total_events (fst (auto_approve w req ctx a)) = total_events a"
  "allowed_count (fst (auto_approve w req ctx a)) = allowed_count a + 1"
  "denied_count (fst (auto_approve w req ctx a)) = denied_count a"
  "approved_count (fst (auto_approve w req ctx a)) = approved_count a"
  "pending_total (fst (auto_approve w req ctx a)) = pending_total a"
  "active_requests (fst (auto_approve w req ctx a)) = active_requests a"
  by (simp_all add: auto_approve_def Let_def)

lemma ledger_ask_human: "ledger a \<Longrightarrow> ledger (fst (ask_human req r ctx a))"
  by (auto simp: ledger_def ask_human_def store_pending_def split: option.splits sum.splits)

lemma evaluate_request_counters [simp]:
  "evaluate_request pf (a\<lparr>total_events := n\<rparr>) req = evaluate_request pf a req"
  by (rule evaluate_request_cong) simp_all

text \<open>
  A request on an enabled auditor, with the look-up of remembered rules as one step; the equation
  the proofs below work with.
\<close>

definition consult_rules :: "world \<Rightarrow> operation_request \<Rightarrow> security_decision \<Rightarrow> auditor \<Rightarrow> auditor \<times> approval_rule option" where
  "consult_rules w req d a =
     (if d = RequireApproval \<and> force_approval req = None then lookup_rule w req a else (a, None))"

lemma consult_rules_simps [simp]:
  "total_events (fst (consult_rules w req d a)) = total_events a"
  "allowed_count (fst (consult_rules w req d a)) = allowed_count a"
  "denied_count (fst (consult_rules w req d a)) = denied_count a"
  "approved_count (fst (consult_rules w req d a)) = approved_count a"
  "pending_total (fst (consult_rules w req d a)) = pending_total a"
  "active_requests (fst (consult_rules w req d a)) = active_requests a"
  "approval_mgr (fst (consult_rules w req d a)) = approval_mgr a"
  "approval_auto (fst (consult_rules w req d a)) = approval_auto a"
  "config (fst (consult_rules w req d a)) = config a"
  by (simp_all add: consult_rules_def)

lemma request_permission_enabled:
  assumes "enabled a"
  shows "request_permission_tracked pf w req ctx a =
    (let d = fst (evaluate_request pf a req); r = fst (snd (evaluate_request pf a req));
         pol = snd (snd (evaluate_request pf a req));
         c = consult_rules w req d (a\<lparr>total_events := total_events a + 1\<rparr>)
     in case snd c of
          Some rule \<Rightarrow>
            (log_audit_event w
               (mk_event w req ''allowed'' (AutoByRule (ar_op rule) (ar_pattern rule)) (PolAutoByRule (ar_pattern rule)))
               ((fst c)\<lparr>allowed_count := allowed_count a + 1\<rparr>),
             rules_file w, True, None, None)
        | None \<Rightarrow>
            if d = RequireApproval \<and> approval_auto_enabled a
            then (fst (auto_approve w req ctx (fst c)), snd (auto_approve w req ctx (fst c)), True, None, None)
            else
              (let a2 = log_audit_event w (mk_event w req (decision_str d) r pol) (fst c) in
               case d of
                 Allowed \<Rightarrow> (a2\<lparr>allowed_count := allowed_count a + 1\<rparr>, rules_file w, True, None, None)
               | Denied \<Rightarrow> (a2\<lparr>denied_count := denied_count a + 1\<rparr>, rules_file w,
                            False, Some (PolicyDenied (op_type req) (target req) r), None)
               | RequireApproval \<Rightarrow>
                   (let h = ask_human req r ctx (a2\<lparr>pending_total := pending_total a + 1\<rparr>)
                    in (fst h, rules_file w, snd h))))"
proof -
  obtain d r pol where e: "evaluate_request pf a req = (d, r, pol)" by (metis prod_cases3)
  obtain a1 hit where c: "consult_rules w req d (a\<lparr>total_events := total_events a + 1\<rparr>) = (a1, hit)" by fastforce
  have aa: "approval_auto_enabled a1 = approval_auto_enabled a"
    using arg_cong [OF c, of "\<lambda>x. approval_auto (fst x)"] by (simp add: approval_auto_enabled_def)
  have "allowed_count a1 = allowed_count a" "denied_count a1 = denied_count a" "pending_total a1 = pending_total a"
    using arg_cong [OF c, of "\<lambda>x. allowed_count (fst x)"] arg_cong [OF c, of "\<lambda>x. denied_count (fst x)"]
      arg_cong [OF c, of "\<lambda>x. pending_total (fst x)"] by simp_all
  with assms e c aa show ?thesis
    unfolding request_permission_tracked_def
    by (auto simp: consult_rules_def [symmetric] Let_def split_beta split: option.split security_decision.split)
qed

lemma ledger_request: "ledger a \<Longrightarrow> ledger (fst (request_permission_tracked pf w req ctx a))"
proof (cases "enabled a")
  case True
  assume l: "ledger a"
  let ?b = "\<lambda>e d. (log_audit_event w e (fst (consult_rules w req d (a\<lparr>total_events := total_events a + 1\<rparr>))))
     \<lparr>pending_total := pending_total a + 1\<rparr>"
  have "ledger (?b e d)" for e d using l by (simp add: ledger_def)
  then have "ledger (fst (ask_human req r ctx (?b e d)))" for r e d by (rule ledger_ask_human)
  with l show ?thesis
    unfolding request_permission_enabled [OF True] Let_def
    by (auto split: option.split security_decision.split) (simp_all add: ledger_def)
qed (simp add: request_permission_tracked_def)

lemma gate_counters [simp]:
  "ledger (fst (request_guardian_failure_approval w tool why ctx a)) = ledger a"
  "ledger (fst (request_limit_approval w tool why ctx a)) = ledger a"
  "ledger (fst (request_guardian_verdict_approval w tool risk mode v ctx a)) = ledger a"
  "ledger (log_guardian_verdict w tool mode v a) = ledger a"
  by (simp_all add: ledger_def request_guardian_failure_approval_def request_limit_approval_def
      request_guardian_verdict_approval_def log_guardian_verdict_def Let_def split: option.split sum.split)

lemmas setter_defs =
  set_rules_def set_default_action_def set_exec_unknown_policy_def AuditorPolicy.set_protected_paths_def
  set_self_destruct_exempt_path_def set_editor_access_def set_approval_manager_def set_approval_rules_def
  set_approval_auto_approve_def set_audit_jsonl_log_def set_log_file_def enable_def disable_def

lemma ledger_act: "ledger a \<Longrightarrow> ledger (act x a)"
proof (cases x)
  case (ActRequest pf w req ctx)
  then show "ledger a \<Longrightarrow> ?thesis" by (simp add: ledger_request)
next
  case (ActApprove rid)
  then show "ledger a \<Longrightarrow> ?thesis" by (simp add: ledger_def approve_request_def split: option.split)
next
  case (ActDeny rid)
  then show "ledger a \<Longrightarrow> ?thesis" by (simp add: ledger_def deny_request_def split: option.split)
next
  case (ActLogVerdict w tool mode v)
  then show "ledger a \<Longrightarrow> ?thesis" by simp
next
  case (ActGuardianFailure w tool why ctx)
  then show "ledger a \<Longrightarrow> ?thesis" by simp
next
  case (ActLimit w tool why ctx)
  then show "ledger a \<Longrightarrow> ?thesis" by simp
next
  case (ActVerdict w tool risk mode v ctx)
  then show "ledger a \<Longrightarrow> ?thesis" by simp
qed (simp_all add: ledger_def setter_defs close_def)

interpretation led: transition_invariant "\<lambda>a. a \<in> range auditor_new" auditor_step ledger
proof
  show "ledger a" if "a \<in> range auditor_new" for a using that by (auto simp: ledger_def auditor_new_def)
  show "ledger b" if "ledger a" "auditor_step a b" for a b using that ledger_act by blast
qed

subsection \<open>Lemmas: the pending list\<close>

definition pending_ok :: "auditor \<Rightarrow> bool" where
  "pending_ok a \<longleftrightarrow>
     pending_total a = of_nat (pending_count a) \<and> distinct (map fst (active_requests a))"

text \<open>Requests carry fresh ids and the auditor is not closed.\<close>

definition fresh_action :: "auditor_action \<Rightarrow> auditor \<Rightarrow> bool" where
  "fresh_action x a =
     (case x of ActClose \<Rightarrow> False
      | ActRequest pf w req ctx \<Rightarrow> req_id req \<notin> fst ` set (active_requests a)
      | _ \<Rightarrow> True)"

inductive fresh_step :: "auditor \<Rightarrow> auditor \<Rightarrow> bool" where
  "fresh_action x a \<Longrightarrow> fresh_step a (act x a)"

inductive_cases fresh_stepE [elim]: "fresh_step a b"

lemma AList_update_fresh: "k \<notin> fst ` set al \<Longrightarrow> AList.update k v al = al @ [(k, v)]"
  by (induction al) auto

lemma AList_delete_length:
  "distinct (map fst al) \<Longrightarrow> map_of al k = Some v \<Longrightarrow> Suc (length (AList.delete k al)) = length al"
proof (induction al)
  case (Cons x al)
  show ?case
  proof (cases "fst x = k")
    case True
    with Cons.prems have "k \<notin> fst ` set al" by auto
    then have "AList.delete k al = al" by (simp add: AList.delete_idem)
    with True show ?thesis by simp
  qed (use Cons in \<open>auto split: if_splits\<close>)
qed simp

lemma distinct_AList_delete: "distinct (map fst al) \<Longrightarrow> distinct (map fst (AList.delete k al))"
  by (rule AList.distinct_delete)

lemma pending_ok_store:
  assumes "pending_total a = of_nat (pending_count a) + 1" "distinct (map fst (active_requests a))"
    "req_id req \<notin> fst ` set (active_requests a)"
  shows "pending_ok (fst (store_pending req r a))"
  using assms by (simp add: pending_ok_def store_pending_def pending_count_def AList_update_fresh)

lemma pending_ok_ask_human:
  assumes "pending_total a = of_nat (pending_count a) + 1" "distinct (map fst (active_requests a))"
    "req_id req \<notin> fst ` set (active_requests a)"
  shows "pending_ok (fst (ask_human req r ctx a))"
  using pending_ok_store [OF assms] assms(1,2)
  by (auto simp: ask_human_def pending_ok_def pending_count_def split: option.split sum.split)

lemma pending_ok_request:
  assumes "pending_ok a" "req_id req \<notin> fst ` set (active_requests a)"
  shows "pending_ok (fst (request_permission_tracked pf w req ctx a))"
proof (cases "enabled a")
  case True
  let ?b = "\<lambda>e d. (log_audit_event w e (fst (consult_rules w req d (a\<lparr>total_events := total_events a + 1\<rparr>))))
     \<lparr>pending_total := pending_total a + 1\<rparr>"
  have "pending_ok (fst (ask_human req r ctx (?b e d)))" for r e d
    by (rule pending_ok_ask_human) (use assms in \<open>simp_all add: pending_ok_def pending_count_def\<close>)
  with assms(1) show ?thesis
    unfolding request_permission_enabled [OF True] Let_def
    by (auto split: option.split security_decision.split) (simp_all add: pending_ok_def pending_count_def)
qed (use assms in \<open>simp add: request_permission_tracked_def\<close>)

lemma pending_ok_answer:
  assumes "pending_ok a"
  shows "pending_ok (fst (approve_request rid a))" "pending_ok (fst (deny_request rid a))"
proof -
  have "of_nat (length (AList.delete rid (active_requests a))) = pending_total a - (1 :: 64 word)"
    if "map_of (active_requests a) rid = Some q" for q
    using AList_delete_length [OF _ that] assms
    by (auto simp: pending_ok_def pending_count_def algebra_simps simp flip: of_nat_Suc)
  then show "pending_ok (fst (approve_request rid a))" "pending_ok (fst (deny_request rid a))"
    using assms distinct_AList_delete
    by (auto simp: approve_request_def deny_request_def pending_ok_def pending_count_def split: option.split)
qed

lemma pending_ok_gate [simp]:
  "pending_ok (fst (request_guardian_failure_approval w tool why ctx a)) = pending_ok a"
  "pending_ok (fst (request_limit_approval w tool why ctx a)) = pending_ok a"
  "pending_ok (fst (request_guardian_verdict_approval w tool risk mode v ctx a)) = pending_ok a"
  "pending_ok (log_guardian_verdict w tool mode v a) = pending_ok a"
  by (simp_all add: pending_ok_def pending_count_def request_guardian_failure_approval_def request_limit_approval_def
      request_guardian_verdict_approval_def log_guardian_verdict_def Let_def split: option.split sum.split)

lemma pending_ok_act: "pending_ok a \<Longrightarrow> fresh_action x a \<Longrightarrow> pending_ok (act x a)"
proof (cases x)
  case (ActRequest pf w req ctx)
  then show "pending_ok a \<Longrightarrow> fresh_action x a \<Longrightarrow> ?thesis"
    by (simp add: pending_ok_request fresh_action_def)
qed (simp_all add: pending_ok_answer fresh_action_def,
     simp_all add: pending_ok_def pending_count_def setter_defs)

interpretation pend: transition_invariant "\<lambda>a. a \<in> range auditor_new" fresh_step pending_ok
proof
  show "pending_ok a" if "a \<in> range auditor_new" for a
    using that by (auto simp: pending_ok_def pending_count_def auditor_new_def)
  show "pending_ok b" if "pending_ok a" "fresh_step a b" for a b using that pending_ok_act by blast
qed

subsection \<open>Lemmas: outcomes\<close>

lemma ask_human_ok:
  assumes "ask_human req r ctx a = (a', ok, err, ref)"
  shows "ok \<longleftrightarrow> ref \<noteq> None"
    and "ref = Some i \<Longrightarrow> i = req_id req \<and> (\<exists>mgr v. approval_mgr a = Some mgr \<and> am_running mgr \<and>
      am_ask mgr (req_id req) (op_slug (op_type req)) (target req) (danger_label (danger req)) r
        (approval_timeout_secs (config a)) ctx = Inr v \<and> v_approved v)"
  using assms
  by (auto simp: ask_human_def store_pending_def split: option.splits sum.splits if_splits)

definition human_approves :: "auditor \<Rightarrow> operation_request \<Rightarrow> reason \<Rightarrow> approval_context option \<Rightarrow> bool" where
  "human_approves a req r ctx \<longleftrightarrow>
     (\<exists>mgr v. approval_mgr a = Some mgr \<and> am_running mgr \<and>
        am_ask mgr (req_id req) (op_slug (op_type req)) (target req) (danger_label (danger req)) r
          (approval_timeout_secs (config a)) ctx = Inr v \<and> v_approved v)"

lemma consult_rules_hit:
  assumes "snd (consult_rules w req d (a\<lparr>total_events := n\<rparr>)) = Some rule"
  shows "d = RequireApproval \<and> force_approval req = None \<and>
    (\<exists>hot. approval_rules a = Some hot \<and>
       find_auto_allow_rule (hot_get (fst (hot_check (load_rules (serde w)) (rules_mtime w, rules_file w) hot)))
         (op_slug (op_type req)) (target req) (danger_label (danger req)) = Some rule)"
  using assms by (auto simp: consult_rules_def lookup_rule_def Let_def split: if_splits option.splits)

lemma consult_rules_log_fields [simp]:
  "audit_jsonl (fst (consult_rules w req d a)) = audit_jsonl a"
  "log_file_path (fst (consult_rules w req d a)) = log_file_path a"
  "logs (fst (consult_rules w req d a)) = logs a"
  by (simp_all add: consult_rules_def lookup_rule_def Let_def split: option.split)

lemma logs_ask_human [simp]:
  "logs (fst (ask_human req r ctx a)) = logs a"
  "audit_jsonl (fst (ask_human req r ctx a)) = audit_jsonl a"
  "config (fst (ask_human req r ctx a)) = config a"
  by (simp_all add: ask_human_def store_pending_def split: option.split sum.split)

lemma jsonl_dir_simps [simp]:
  "jsonl_dir (a\<lparr>total_events := n\<rparr>) = jsonl_dir a"
  "jsonl_dir (a\<lparr>allowed_count := n\<rparr>) = jsonl_dir a"
  "jsonl_dir (a\<lparr>denied_count := n\<rparr>) = jsonl_dir a"
  "jsonl_dir (a\<lparr>pending_total := n\<rparr>) = jsonl_dir a"
  "jsonl_dir (a\<lparr>approval_auto := s\<rparr>) = jsonl_dir a"
  "jsonl_dir (log_audit_event w e a) = jsonl_dir a"
  "jsonl_dir (fst (consult_rules w req d a)) = jsonl_dir a"
  "jsonl_dir (fst (ask_human req r ctx a)) = jsonl_dir a"
  by (rule jsonl_dir_cong; simp)+

definition logged_event :: "platform \<Rightarrow> world \<Rightarrow> operation_request \<Rightarrow> auditor \<Rightarrow> audit_event" where
  "logged_event pf w req a =
     (let e = evaluate_request pf a req;
          c = snd (consult_rules w req (fst e) (a\<lparr>total_events := total_events a + 1\<rparr>)) in
      case c of
        Some rule \<Rightarrow> mk_event w req ''allowed'' (AutoByRule (ar_op rule) (ar_pattern rule)) (PolAutoByRule (ar_pattern rule))
      | None \<Rightarrow>
          if fst e = RequireApproval \<and> approval_auto_enabled a
          then mk_event w req ''allowed'' AutoByConfig PolAutoByConfig
          else mk_event w req (decision_str (fst e)) (fst (snd e)) (snd (snd e)))"

lemma request_log:
  assumes "enabled a"
  shows "logs (fst (request_permission_tracked pf w req ctx a)) p = logs (log_audit_event w (logged_event pf w req a) a) p"
    and "jsonl_dir (fst (request_permission_tracked pf w req ctx a)) = jsonl_dir a"
proof -
  show "logs (fst (request_permission_tracked pf w req ctx a)) p = logs (log_audit_event w (logged_event pf w req a) a) p"
    unfolding request_permission_enabled [OF assms] Let_def logged_event_def
    by (cases "fst (evaluate_request pf a req)";
        cases "snd (consult_rules w req (fst (evaluate_request pf a req)) (a\<lparr>total_events := total_events a + 1\<rparr>))")
       (auto simp: logs_log_audit_event auto_approve_def Let_def)
  show "jsonl_dir (fst (request_permission_tracked pf w req ctx a)) = jsonl_dir a"
    unfolding request_permission_enabled [OF assms] Let_def
    by (simp add: auto_approve_def Let_def split: option.split security_decision.split)
qed

lemma map_filter_append [simp]: "List.map_filter f (xs @ ys) = List.map_filter f xs @ List.map_filter f ys"
  by (simp add: List.map_filter_def)

subsection \<open>Properties\<close>

text \<open>
  The statistics always add up.  After any sequence of operations on a new auditor (requests,
  later approvals and denials, the human gates, reconfiguration, closing) the number of events is the
  sum of the allowed, denied, approved and pending counters; the counters are 64-bit and may wrap.
\<close>

theorem counters_add_up:
  assumes "rtranclp auditor_step (auditor_new cfg) a"
  shows "total_events a = allowed_count a + denied_count a + approved_count a + pending_total a"
  using led.reachable_inv [OF _ assms] by (simp add: ledger_def)

definition example_config :: auditor_config where
  "example_config = \<lparr>cfg_enabled = True, approval_timeout_secs = 300, audit_log_file_enabled = True,
     audit_log_dir = Some ''logs'', cfg_default_action = ''ask''\<rparr>"

definition example_world :: world where
  "example_world = \<lparr>fresh_id = ''e1'', fresh_request_id = ''r1'', now = ''t'', can_open = (\<lambda>_. True),
     rules_mtime = None, rules_file = None, serde = one_serde, io = \<lparr>mkdir_ok = True, write_ok = True\<rparr>\<rparr>"

definition example_run :: auditor where
  "example_run = act (ActApprove ''q1'')
     (act (ActRequest example_platform example_world ((exec_request ''ls'')\<lparr>req_id := ''q1''\<rparr>) None)
       (auditor_new example_config))"

lemma example_run_reach: "rtranclp auditor_step (auditor_new example_config) example_run"
  unfolding example_run_def
proof (rule rtranclp_trans)
  show "rtranclp auditor_step (auditor_new example_config)
    (act (ActRequest example_platform example_world ((exec_request ''ls'')\<lparr>req_id := ''q1''\<rparr>) None)
       (auditor_new example_config))"
    by (rule r_into_rtranclp, rule auditor_step.step)
qed (rule r_into_rtranclp, rule auditor_step.step)

theorem counters_add_up_witness:
  "total_events example_run = allowed_count example_run + denied_count example_run +
     approved_count example_run + pending_total example_run"
  by (rule counters_add_up [OF example_run_reach])

text \<open>
  The pending counter is the number of requests that wait for an answer, as long as requests
  carry fresh ids and the auditor is not closed, and no request waits twice.
\<close>

theorem pending_counter_exact:
  assumes "rtranclp fresh_step (auditor_new cfg) a"
  shows "pending_total a = of_nat (pending_count a) \<and> distinct (map fst (active_requests a))"
  using pend.reachable_inv [OF _ assms] by (simp add: pending_ok_def)

theorem pending_counter_exact_witness:
  "pending_total (act (ActRequest example_platform example_world ((exec_request ''ls'')\<lparr>req_id := ''q1''\<rparr>) None)
     (auditor_new example_config)) = 1"
proof -
  let ?x = "ActRequest example_platform example_world ((exec_request ''ls'')\<lparr>req_id := ''q1''\<rparr>) None"
  let ?a = "act ?x (auditor_new example_config)"
  have "fresh_step (auditor_new example_config) ?a"
    by (rule fresh_step.intros) (simp add: fresh_action_def auditor_new_def)
  then have "rtranclp fresh_step (auditor_new example_config) ?a" by blast
  moreover have "pending_count ?a = 1" by code_simp
  ultimately show ?thesis using pending_counter_exact [of example_config ?a] by simp
qed

lemma request_sources:
  assumes "enabled a" and "request_permission_tracked pf w req ctx a = (a', disk', ok, err, ref)"
  shows "(ok \<longrightarrow>
      fst (evaluate_request pf a req) = Allowed \<or>
      fst (evaluate_request pf a req) = RequireApproval \<and>
        (force_approval req = None \<and> (\<exists>hot rule. approval_rules a = Some hot \<and>
            find_auto_allow_rule (hot_get (fst (hot_check (load_rules (serde w)) (rules_mtime w, rules_file w) hot)))
              (op_slug (op_type req)) (target req) (danger_label (danger req)) = Some rule) \<or>
         approval_auto_enabled a \<or>
         human_approves a req (fst (snd (evaluate_request pf a req))) ctx)) \<and>
    (\<forall>i. ref = Some i \<longrightarrow> ok \<and> i = req_id req \<and> \<not> approval_auto_enabled a \<and>
      human_approves a req (fst (snd (evaluate_request pf a req))) ctx)"
proof -
  define d where "d = fst (evaluate_request pf a req)"
  define r where "r = fst (snd (evaluate_request pf a req))"
  define c where "c = consult_rules w req d (a\<lparr>total_events := total_events a + 1\<rparr>)"
  note R = assms(2) [unfolded request_permission_enabled [OF assms(1)] Let_def, folded d_def r_def, folded c_def]
  show ?thesis
  proof (cases "snd c")
    case (Some rule)
    from R Some have "ref = None" "ok" by simp_all
    with consult_rules_hit [OF Some [unfolded c_def]] show ?thesis
      unfolding d_def [symmetric] by blast
  next
    case None
    show ?thesis
    proof (cases "d = RequireApproval \<and> approval_auto_enabled a")
      case True
      with R None show ?thesis unfolding d_def [symmetric] by auto
    next
      case False
      show ?thesis
      proof (cases d)
        case RequireApproval
        let ?b = "log_audit_event w (mk_event w req (decision_str d) r (snd (snd (evaluate_request pf a req)))) (fst c)
          \<lparr>pending_total := pending_total a + 1\<rparr>"
        have "ask_human req r ctx ?b = (a', ok, err, ref)"
          using R None False RequireApproval by (cases "ask_human req r ctx ?b") auto
        note H = ask_human_ok [OF this]
        have "human_approves a req r ctx" if "ref = Some i" for i
          using H(2) [OF that] unfolding c_def human_approves_def by simp
        with H False RequireApproval show ?thesis unfolding d_def [symmetric] r_def [symmetric]
          by (auto simp del: split_paired_Ex)
      qed (use R None False in \<open>auto simp: d_def [symmetric]\<close>)
    qed
  qed
qed


definition yes_manager :: approval_manager where
  "yes_manager = \<lparr>am_running = True, am_ask = (\<lambda>_ _ _ _ _ _ _. Inr \<lparr>v_approved = True, v_note = None\<rparr>)\<rparr>"


text \<open>
  The unattended mode also answers for requests that were forced to a human.  When the scan
  before execution has marked a request, and the auditor would not deny it anyway, the switch for
  unattended approval lets it pass without anybody having seen it.
\<close>

theorem forced_approval_unattended:
  assumes "enabled a" and "force_approval req = Some r" and "trim r \<noteq> []"
    and "fst (evaluate_request_inner pf a req) \<noteq> Denied" and "approval_auto_enabled a"
  shows "\<exists>a' disk'. request_permission_tracked pf w req ctx a = (a', disk', True, None, None)"
proof -
  have "fst (evaluate_request pf a req) = RequireApproval"
    using assms(2-4) by (simp add: evaluate_request_def Let_def)
  then show ?thesis
    using assms unfolding request_permission_enabled [OF assms(1)] Let_def by (simp add: consult_rules_def)
qed

theorem forced_approval_unattended_witness:
  "\<exists>a' disk'. request_permission_tracked example_platform example_world
     ((exec_request ''ls'')\<lparr>force_approval := Some ''eval''\<rparr>) None
     (set_approval_auto_approve (approval_auto_new True) (auditor_new example_config)) = (a', disk', True, None, None)"
proof (rule forced_approval_unattended [where r = "''eval''"])
  show "enabled (set_approval_auto_approve (approval_auto_new True) (auditor_new example_config))" by code_simp
  show "trim ''eval'' \<noteq> []" by code_simp
  show "fst (evaluate_request_inner example_platform
      (set_approval_auto_approve (approval_auto_new True) (auditor_new example_config))
      ((exec_request ''ls'')\<lparr>force_approval := Some ''eval''\<rparr>)) \<noteq> Denied" by code_simp
  show "approval_auto_enabled (set_approval_auto_approve (approval_auto_new True) (auditor_new example_config))"
    by code_simp
qed simp

text \<open>
  Every evaluated request leaves exactly one event in the audit log.  With a log directory that
  can be opened, the log read back after a request is the log before it followed by one event for
  that request, whose decision says allowed, denied or pending as the request was let through,
  refused by policy or handed to the human.
\<close>

theorem request_is_audited:
  assumes "enabled a" and "jsonl_dir a = Some d" and "can_open w (JsonlIn d)" and "filter_is_empty f"
  shows "get_audit_log (fst (request_permission_tracked pf w req ctx a)) f =
    get_audit_log a f @ [logged_event pf w req a] \<and> ev_request (logged_event pf w req a) = req"
proof -
  have "logs (fst (request_permission_tracked pf w req ctx a)) (JsonlIn d) =
      logs a (JsonlIn d) @ [EventLine (logged_event pf w req a)]"
    using assms(2,3) by (simp add: request_log(1) [OF assms(1)] logs_log_audit_event)
  moreover have "ev_request (logged_event pf w req a) = req"
    by (simp add: logged_event_def mk_event_def Let_def split: option.split)
  ultimately show ?thesis
    using assms(2,4) by (simp add: get_audit_log_def request_log(2) [OF assms(1)] List.map_filter_simps)
qed

definition no_filter :: audit_filter where
  "no_filter = \<lparr>f_operation_type = None, f_user = None, f_source = None, f_decision = None,
     f_start_time = None, f_end_time = None\<rparr>"

theorem request_is_audited_witness:
  "get_audit_log (fst (request_permission_tracked example_platform example_world (exec_request ''ls'') None
     (auditor_new example_config))) no_filter =
   get_audit_log (auditor_new example_config) no_filter @
     [logged_event example_platform example_world (exec_request ''ls'') (auditor_new example_config)]"
proof -
  have e: "enabled (auditor_new example_config)" and j: "jsonl_dir (auditor_new example_config) = Some ''logs''"
    and f: "filter_is_empty no_filter" by code_simp+
  have "can_open example_world (JsonlIn ''logs'')" by (simp add: example_world_def)
  from request_is_audited [OF e j this f] show ?thesis by blast
qed

text \<open>
  The human gates are closed by default.  Each of the three gates reports an approval only when
  an approval manager is set, runs and answered with an approval, and then the audit log, if it can be
  opened, ends with an event that says so.
\<close>

theorem gates_fail_closed:
  assumes "g \<in> {request_guardian_failure_approval w tool why ctx, request_limit_approval w tool why ctx,
      request_guardian_verdict_approval w tool risk mode v ctx}"
    and "g a = (a', Inr verdict)" and "v_approved verdict"
  shows "(\<exists>mgr. approval_mgr a = Some mgr \<and> am_running mgr \<and>
      (\<exists>rid op level r. am_ask mgr rid op tool level r (approval_timeout_secs (config a)) ctx = Inr verdict)) \<and>
    (\<forall>d. jsonl_dir a = Some d \<and> can_open w (JsonlIn d) \<longrightarrow>
      (\<exists>e. logs a' (JsonlIn d) = logs a (JsonlIn d) @ [EventLine e] \<and> ev_decision e = ''approved'' \<and>
         target (ev_request e) = tool))"
proof -
  have "verdict_decision verdict = ''approved''" using assms(3) by (simp add: verdict_decision_def)
  with assms(1,2) show ?thesis
    by (auto simp: request_guardian_failure_approval_def request_limit_approval_def
        request_guardian_verdict_approval_def gate_event_def mk_event_def logs_log_audit_event Let_def
        split: option.splits if_splits sum.splits) blast+
qed

theorem gates_fail_closed_witness:
  "\<exists>mgr. approval_mgr (set_approval_manager yes_manager (auditor_new example_config)) = Some mgr \<and> am_running mgr"
proof -
  let ?a = "set_approval_manager yes_manager (auditor_new example_config)"
  let ?g = "request_limit_approval example_world ''exec'' ''5 per minute'' None"
  have g: "?g \<in> {request_guardian_failure_approval example_world ''exec'' ''5 per minute'' None, ?g,
      request_guardian_verdict_approval example_world ''exec'' [] [] undefined None}" by simp
  have "snd (?g ?a) = Inr \<lparr>v_approved = True, v_note = None\<rparr>"
    by (simp add: request_limit_approval_def set_approval_manager_def yes_manager_def)
  then have "?g ?a = (fst (?g ?a), Inr \<lparr>v_approved = True, v_note = None\<rparr>)" by (metis prod.collapse)
  from gates_fail_closed [OF g this] show ?thesis by auto
qed

end
