(* ===== verification/AuditChain.thy ===== *)
theory AuditChain
  imports Prelude
begin

text \<open>
  The hash-chained audit log, crates/nemesis-security/src/integrity.rs: appending with segment
  rotation, verification, reading back by position and by range, loading after a restart and closing.

  SHA-256 is the parameter H.  The storage is the list of the segment files, each the list of the
  events its parseable lines hold; the file names sort in the order of the segment numbers (up to 9999
  segments).  Appending runs under one lock, so a call is one step.  The lemmas show that what is
  appended verifies, how far a verified chain binds its content, and what a restart does to it.
\<close>

subsection \<open>State\<close>

record chain_event =
  ce_id :: str
  timestamp :: str
  operation :: str
  ce_tool_name :: str
  ce_user :: str
  ce_source :: str
  ce_target :: str
  decision :: str
  ce_reason :: str
  hash :: str
  prev_hash :: str
  sign :: "str option"

record chain_config =
  max_events_per_segment :: nat

record audit_chain =
  ac_config :: chain_config
  last_hash :: str
  event_count :: nat
  segment_count :: nat
  total_event_count :: nat
  closed :: bool
  storage :: "chain_event list list"

definition GENESIS :: str where
  "GENESIS = replicate 64 (CHR ''0'')"

definition chain_new :: "chain_config \<Rightarrow> audit_chain" where
  "chain_new cfg =
     \<lparr>ac_config = cfg, last_hash = GENESIS, event_count = 0, segment_count = 1, total_event_count = 0,
      closed = False, storage = []\<rparr>"

text \<open>
  What one append reads from outside: clock, fresh id, and whether the segment file could be written
  (the code ignores a failure).
\<close>

record chain_world =
  cw_now :: str
  cw_id :: str
  cw_write_ok :: bool

subsection \<open>Operations\<close>

text \<open>The text that is hashed: previous hash and five fields, one after the other.\<close>

definition hash_input :: "str \<Rightarrow> str \<Rightarrow> str \<Rightarrow> str \<Rightarrow> str \<Rightarrow> str \<Rightarrow> str \<Rightarrow> str" where
  "hash_input prev ts op tool user tgt dec = prev @ ts @ op @ tool @ user @ tgt @ dec"

definition event_input :: "chain_event \<Rightarrow> str" where
  "event_input e = hash_input (prev_hash e) (timestamp e) (operation e) (ce_tool_name e) (ce_user e) (ce_target e) (decision e)"

text \<open>A line is appended to the file of a segment (numbered from 1), which is created if missing.\<close>

definition append_segment :: "nat \<Rightarrow> chain_event \<Rightarrow> chain_event list list \<Rightarrow> chain_event list list" where
  "append_segment seg e files =
     (let files' = files @ replicate (seg - length files) [] in files'[seg - 1 := files' ! (seg - 1) @ [e]])"

definition rotate_segment :: "audit_chain \<Rightarrow> audit_chain" where
  "rotate_segment c = c\<lparr>event_count := 0, segment_count := segment_count c + 1\<rparr>"

datatype chain_error = ChainClosed | VerificationFailed | ChainIo

text \<open>The event an append creates.\<close>

definition chain_entry ::
  "(str \<Rightarrow> str) \<Rightarrow> chain_world \<Rightarrow> str \<Rightarrow> str \<Rightarrow> str \<Rightarrow> str \<Rightarrow> str \<Rightarrow> str \<Rightarrow> str \<Rightarrow> str option \<Rightarrow> str \<Rightarrow> chain_event" where
  "chain_entry H w op tool user src tgt dec rsn sg prev =
     \<lparr>ce_id = cw_id w, timestamp = cw_now w, operation = op, ce_tool_name = tool, ce_user = user,
      ce_source = src, ce_target = tgt, decision = dec, ce_reason = rsn,
      hash = H (hash_input prev (cw_now w) op tool user tgt dec), prev_hash = prev, sign = sg\<rparr>"

definition append_with_sign ::
  "(str \<Rightarrow> str) \<Rightarrow> chain_world \<Rightarrow> str \<Rightarrow> str \<Rightarrow> str \<Rightarrow> str \<Rightarrow> str \<Rightarrow> str \<Rightarrow> str \<Rightarrow> str option \<Rightarrow> audit_chain \<Rightarrow>
     audit_chain \<times> (chain_error + chain_event)" where
  "append_with_sign H w op tool user src tgt dec rsn sg c =
     (if closed c then (c, Inl ChainClosed)
      else
        (let e = chain_entry H w op tool user src tgt dec rsn sg (last_hash c);
             count = event_count c + 1;
             c1 = c\<lparr>last_hash := hash e, event_count := count, total_event_count := total_event_count c + 1\<rparr>;
             c2 = (if cw_write_ok w then c1\<lparr>storage := append_segment (segment_count c1) e (storage c1)\<rparr> else c1);
             c3 = (if count \<ge> max_events_per_segment (ac_config c2) then rotate_segment c2 else c2)
         in (c3, Inr e)))"

text \<open>\<^verbatim>\<open>verify_chain\<close>: the loop over the positions from 1.\<close>

fun verify_chain :: "(str \<Rightarrow> str) \<Rightarrow> chain_event list \<Rightarrow> bool" where
  "verify_chain H [] = True"
| "verify_chain H [e] = True"
| "verify_chain H (e # f # es) =
     (if prev_hash f \<noteq> hash e then False
      else if H (event_input f) \<noteq> hash f then False
      else verify_chain H (f # es))"

definition read_all :: "audit_chain \<Rightarrow> chain_event list" where
  "read_all c = concat (storage c)"

definition get_event :: "audit_chain \<Rightarrow> nat \<Rightarrow> chain_event option" where
  "get_event c i = (let es = read_all c in if i < length es then Some (es ! i) else None)"

definition read_events_range :: "audit_chain \<Rightarrow> nat \<Rightarrow> nat \<Rightarrow> chain_event list" where
  "read_events_range c fro to =
     (let es = take to (read_all c) in if fro \<ge> length es then [] else drop fro (take (min to (length es)) es))"

definition verify_range :: "(str \<Rightarrow> str) \<Rightarrow> audit_chain \<Rightarrow> nat \<Rightarrow> nat \<Rightarrow> bool" where
  "verify_range H c fro to =
     (let es = read_events_range c fro (to + 1) in if length es < 2 then True else verify_chain H es)"

text \<open>
  \<^verbatim>\<open>load_chain\<close>: the argument is the parsed export, \<^verbatim>\<open>None\<close> when reading or parsing failed; the flag tells
  whether the storage file could be written.
\<close>

definition load_chain :: "(str \<Rightarrow> str) \<Rightarrow> chain_event list option \<Rightarrow> bool \<Rightarrow> audit_chain \<Rightarrow>
    audit_chain \<times> (chain_error + nat)" where
  "load_chain H input write_ok c =
     (case input of
        None \<Rightarrow> (c, Inl ChainIo)
      | Some es \<Rightarrow>
          if \<not> verify_chain H es then (c, Inl VerificationFailed)
          else (let c1 = (if es = [] then c else c\<lparr>last_hash := hash (last es)\<rparr>);
                    c2 = c1\<lparr>total_event_count := total_event_count c1 + length es\<rparr>
                in if \<not> write_ok then (c2, Inl ChainIo)
                   else (c2\<lparr>storage := fold (append_segment 1) es (storage c2)\<rparr>, Inr (length es))))"

text \<open>\<^verbatim>\<open>load_segments\<close>, called on a new chain over the files that are already there.\<close>

definition load_segments :: "audit_chain \<Rightarrow> audit_chain \<times> nat" where
  "load_segments c =
     (let es = read_all c; total = length es in
      if total > 0 then (c\<lparr>last_hash := hash (last es), total_event_count := total\<rparr>, total) else (c, total))"

definition chain_close :: "audit_chain \<Rightarrow> audit_chain" where
  "chain_close c = c\<lparr>closed := True\<rparr>"

text \<open>A restart of the process: a new chain object over the same files, which it then loads.\<close>

definition restart :: "audit_chain \<Rightarrow> audit_chain" where
  "restart c = fst (load_segments ((chain_new (ac_config c))\<lparr>storage := storage c\<rparr>))"

subsection \<open>Lemmas\<close>

text \<open>One append without the surroundings, and the invariant of an uninterrupted run.\<close>

definition linked :: "(str \<Rightarrow> str) \<Rightarrow> str \<Rightarrow> chain_event list \<Rightarrow> bool" where
  "linked H prev es \<longleftrightarrow>
     (\<forall>i < length es. prev_hash (es ! i) = (if i = 0 then prev else hash (es ! (i - 1))) \<and>
        hash (es ! i) = H (event_input (es ! i)))"

lemma linked_snoc:
  "linked H prev (es @ [e]) \<longleftrightarrow>
     linked H prev es \<and> prev_hash e = (if es = [] then prev else hash (last es)) \<and> hash e = H (event_input e)"
proof -
  have "(es @ [e]) ! (length es - Suc 0) = last es" if "es \<noteq> []"
    using that by (simp add: nth_append last_conv_nth)
  then show ?thesis
    by (auto simp: linked_def nth_append less_Suc_eq all_conj_distrib)
qed

lemma verify_chain_linked: "linked H prev es \<Longrightarrow> verify_chain H es"
proof (induction H es arbitrary: prev rule: verify_chain.induct)
  case (3 H e f es)
  have "linked H (hash e) (f # es)"
    unfolding linked_def
  proof (intro allI impI)
    fix i assume "i < length (f # es)"
    with "3.prems" [unfolded linked_def, rule_format, of "Suc i"]
    show "prev_hash ((f # es) ! i) = (if i = 0 then hash e else hash ((f # es) ! (i - 1))) \<and>
        hash ((f # es) ! i) = H (event_input ((f # es) ! i))" by (cases i) auto
  qed
  moreover from this have "prev_hash f = hash e" "hash f = H (event_input f)"
    by (auto simp: linked_def dest: spec [of _ 0])
  ultimately show ?case using "3.IH" by simp
qed simp_all

lemma verify_chain_take: "verify_chain H es \<Longrightarrow> verify_chain H (take n es)"
proof (induction H es arbitrary: n rule: verify_chain.induct)
  case (3 H e f es)
  have IH: "verify_chain H (f # take m es)" for m
    using "3.IH" [of "Suc m"] "3.prems" by (simp split: if_splits)
  from "3.prems" IH show ?case by (cases n; cases "n - 1") (auto split: if_splits)
qed (auto simp: take_Cons split: nat.splits)

lemma verify_chain_drop: "verify_chain H es \<Longrightarrow> verify_chain H (drop n es)"
proof (induction n arbitrary: es)
  case (Suc n)
  then show ?case
  proof (cases es)
    case (Cons e r)
    with Suc.prems have "verify_chain H r" by (cases r) (auto split: if_splits)
    with Cons Suc.IH show ?thesis by simp
  qed simp
qed simp

lemma concat_append_segment:
  assumes "seg \<ge> 1" "length files \<le> seg"
  shows "concat (append_segment seg e files) = concat files @ [e]" and "length (append_segment seg e files) = seg"
proof -
  define fs where "fs = files @ replicate (seg - length files) []"
  have l: "length fs = seg" using assms by (simp add: fs_def)
  then have "fs \<noteq> []" using assms(1) by auto
  then have "fs = butlast fs @ [last fs]" by simp
  moreover have "fs ! (seg - 1) = last fs" "length (butlast fs) = seg - 1"
    using l \<open>fs \<noteq> []\<close> by (simp_all add: last_conv_nth)
  ultimately have "fs[seg - 1 := fs ! (seg - 1) @ [e]] = butlast fs @ [last fs @ [e]]"
    by (metis list_update_length)
  moreover have "concat fs = concat files" by (simp add: fs_def)
  ultimately show "concat (append_segment seg e files) = concat files @ [e]"
    using \<open>fs = butlast fs @ [last fs]\<close>
    by (simp add: append_segment_def fs_def [symmetric] Let_def)
       (metis append_assoc concat.simps concat_append append_Nil2)
  show "length (append_segment seg e files) = seg"
    using l by (simp add: append_segment_def fs_def [symmetric] Let_def)
qed

text \<open>An append whose file could be written keeps the invariant.\<close>

definition chain_ok :: "(str \<Rightarrow> str) \<Rightarrow> audit_chain \<Rightarrow> bool" where
  "chain_ok H c \<longleftrightarrow>
     linked H GENESIS (read_all c) \<and>
     last_hash c = (if read_all c = [] then GENESIS else hash (last (read_all c))) \<and>
     length (storage c) \<le> segment_count c \<and> segment_count c \<ge> 1 \<and> total_event_count c = length (read_all c)"

lemma append_ok:
  assumes "chain_ok H c" "cw_write_ok w" "\<not> closed c"
    and "append_with_sign H w op tool user src tgt dec rsn sg c = (c', r)"
  shows "\<exists>e. r = Inr e \<and> read_all c' = read_all c @ [e] \<and> chain_ok H c' \<and>
    operation e = op \<and> ce_tool_name e = tool \<and> ce_user e = user \<and> ce_source e = src \<and> ce_target e = tgt \<and>
    decision e = dec \<and> ce_reason e = rsn \<and> sign e = sg"
proof -
  define e where "e = chain_entry H w op tool user src tgt dec rsn sg (last_hash c)"
  have st: "storage c' = append_segment (segment_count c) e (storage c)" "last_hash c' = hash e" "r = Inr e"
    "segment_count c \<le> segment_count c'" "total_event_count c' = total_event_count c + 1"
    using assms(2-4) unfolding append_with_sign_def Let_def e_def rotate_segment_def
    by (auto split: if_splits)
  have seg: "segment_count c \<ge> 1" "length (storage c) \<le> segment_count c"
    using assms(1) by (simp_all add: chain_ok_def)
  have ra: "read_all c' = read_all c @ [e]"
    using concat_append_segment(1) [OF seg] by (simp add: read_all_def st(1))
  moreover have "linked H GENESIS (read_all c @ [e])"
    using assms(1) unfolding chain_ok_def linked_snoc by (simp add: e_def chain_entry_def event_input_def)
  ultimately have "chain_ok H c'"
    using assms(1) st concat_append_segment(2) [OF seg, of e] seg
    by (simp add: chain_ok_def)
  with ra st(3) show ?thesis by (simp add: e_def chain_entry_def)
qed

text \<open>Runs of appends (every file written) and closings.\<close>

inductive chain_step :: "(str \<Rightarrow> str) \<Rightarrow> audit_chain \<Rightarrow> audit_chain \<Rightarrow> bool" for H where
  append: "cw_write_ok w \<Longrightarrow> chain_step H c (fst (append_with_sign H w op tool user src tgt dec rsn sg c))"
| close: "chain_step H c (chain_close c)"

inductive_cases chain_stepE [elim]: "chain_step H c c'"

lemma chain_step_ok: "chain_ok H c \<Longrightarrow> chain_step H c c' \<Longrightarrow> chain_ok H c'"
proof (erule chain_stepE)
  fix w op tool user src tgt dec rsn sg
  assume ok: "chain_ok H c" and w: "cw_write_ok w"
    and c': "c' = fst (append_with_sign H w op tool user src tgt dec rsn sg c)"
  show "chain_ok H c'"
  proof (cases "closed c")
    case True
    with ok c' show ?thesis by (simp add: append_with_sign_def)
  next
    case False
    from append_ok [OF ok w False] c' show ?thesis by (metis prod.collapse)
  qed
qed (simp add: chain_ok_def chain_close_def read_all_def)

interpretation chain: transition_invariant "\<lambda>c. c \<in> range chain_new" "chain_step H" "chain_ok H" for H
proof
  show "chain_ok H c" if "c \<in> range chain_new" for c
    using that by (auto simp: chain_ok_def chain_new_def read_all_def linked_def)
  show "chain_ok H c'" if "chain_ok H c" "chain_step H c c'" for c c' using that by (rule chain_step_ok)
qed

lemma read_events_range_eq: "read_events_range c fro to = drop fro (take to (read_all c))"
  by (simp add: read_events_range_def Let_def min_def)

lemma verify_chain_nth:
  "verify_chain H es \<longleftrightarrow>
     (\<forall>i. Suc i < length es \<longrightarrow> prev_hash (es ! Suc i) = hash (es ! i) \<and> H (event_input (es ! Suc i)) = hash (es ! Suc i))"
proof (induction H es rule: verify_chain.induct)
  case (3 H e f es)
  have "(\<forall>i. Suc i < length (e # f # es) \<longrightarrow> P i) \<longleftrightarrow> P 0 \<and> (\<forall>i. Suc i < length (f # es) \<longrightarrow> P (Suc i))" for P
    by (auto simp: less_Suc_eq_0_disj)
  with 3 show ?case by auto
qed simp_all

text \<open>From equal final hashes back to the second event.\<close>

lemma chain_binding_back:
  assumes inj: "\<And>j. 1 \<le> j \<Longrightarrow> j < length es \<Longrightarrow> H (event_input (es ! j)) = H (event_input (es' ! j)) \<Longrightarrow>
      event_input (es ! j) = event_input (es' ! j)" and len: "\<And>x. length (H x) = n"
    and v: "verify_chain H es" "verify_chain H es'" "length es = length es'"
    and h: "hash (es ! (length es - 1)) = hash (es' ! (length es - 1))"
    and i: "1 \<le> i" "i < length es"
  shows "event_input (es ! i) = event_input (es' ! i) \<and> hash (es ! i) = hash (es' ! i)"
proof -
  have eq: "event_input (es ! j) = event_input (es' ! j)" if "hash (es ! j) = hash (es' ! j)" "1 \<le> j" "j < length es" for j
  proof -
    from that obtain k where k: "j = Suc k" by (cases j) auto
    have "H (event_input (es ! j)) = H (event_input (es' ! j))"
      using v that k by (simp add: verify_chain_nth)
    with that(2,3) show ?thesis by (intro inj)
  qed
  have "hash (es ! (length es - 1 - k)) = hash (es' ! (length es - 1 - k))" if "1 \<le> length es - 1 - k" for k
    using that
  proof (induction k)
    case 0
    with h show ?case by simp
  next
    case (Suc k)
    let ?j = "length es - 1 - k" and ?p = "length es - 1 - Suc k"
    have j: "?j = Suc ?p" "?j < length es" using Suc.prems i by auto
    obtain q where q: "?p = Suc q" using Suc.prems by (metis Suc_pred less_le_trans zero_less_one)
    have "event_input (es ! ?j) = event_input (es' ! ?j)" using Suc j by (intro eq) auto
    moreover have "prev_hash (es ! ?j) = hash (es ! ?p)" "prev_hash (es' ! ?j) = hash (es' ! ?p)"
      using v j by (simp_all add: verify_chain_nth)
    moreover have "length (hash (es ! ?p)) = n" "length (hash (es' ! ?p)) = n"
      using v j q len by (metis Suc_lessD verify_chain_nth)+
    ultimately show ?case by (simp add: event_input_def hash_input_def)
  qed
  from this [of "length es - 1 - i"] i have "hash (es ! i) = hash (es' ! i)" by simp
  with eq i show ?thesis by blast
qed

subsection \<open>Properties\<close>


definition w0 :: chain_world where
  "w0 = \<lparr>cw_now = ''t'', cw_id = ''i'', cw_write_ok = True\<rparr>"


text \<open>
  An append is recorded as given.  On an open chain that satisfies the invariant, an append whose
  file could be written returns the event, the event is the last one read back with the given fields,
  everything before it is unchanged, and it can be fetched by its position.
\<close>

theorem append_is_recorded:
  assumes "rtranclp (chain_step H) (chain_new cfg) c" and "cw_write_ok w" and "\<not> closed c"
    and "append_with_sign H w op tool user src tgt dec rsn sg c = (c', r)"
  shows "\<exists>e. r = Inr e \<and> read_all c' = read_all c @ [e] \<and> get_event c' (length (read_all c)) = Some e \<and>
    operation e = op \<and> ce_tool_name e = tool \<and> ce_user e = user \<and> ce_source e = src \<and> ce_target e = tgt \<and>
    decision e = dec \<and> ce_reason e = rsn \<and> sign e = sg"
proof -
  have "chain_ok H c" using chain.reachable_inv [OF _ assms(1)] by blast
  from append_ok [OF this assms(2-4)] show ?thesis by (auto simp: get_event_def Let_def)
qed

theorem append_is_recorded_witness:
  "\<exists>e. read_all (fst (append_with_sign rev w0 ''exec'' ''shell'' ''u'' ''s'' ''ls'' ''allowed'' ''r'' None
     (chain_new \<lparr>max_events_per_segment = 1\<rparr>))) = [e] \<and> ce_target e = ''ls''"
proof -
  let ?c = "chain_new \<lparr>max_events_per_segment = 1\<rparr>"
  let ?a = "append_with_sign rev w0 ''exec'' ''shell'' ''u'' ''s'' ''ls'' ''allowed'' ''r'' None ?c"
  have "cw_write_ok w0" "\<not> closed ?c" "read_all ?c = []" by (simp_all add: w0_def chain_new_def read_all_def)
  moreover have "?a = (fst ?a, snd ?a)" by simp
  ultimately show ?thesis using append_is_recorded [OF rtranclp.rtrancl_refl, of w0] by (metis append_Nil)
qed

text \<open>
  A verified chain is bound by its last hash.  If two chains of the same length verify and end in
  the same hash, then from the second event on they agree in the hash and in the hashed text of every
  event, or they exhibit a collision: two different hashed texts at the same position with the same
  hash.
\<close>

theorem chain_binding:
  assumes "\<And>x. length (H x) = n"
    and "verify_chain H es" and "verify_chain H es'" and "length es = length es'"
    and "hash (es ! (length es - 1)) = hash (es' ! (length es - 1))"
  shows "(\<forall>i. 1 \<le> i \<and> i < length es \<longrightarrow> event_input (es ! i) = event_input (es' ! i) \<and> hash (es ! i) = hash (es' ! i)) \<or>
    (\<exists>j. 1 \<le> j \<and> j < length es \<and> event_input (es ! j) \<noteq> event_input (es' ! j) \<and>
       H (event_input (es ! j)) = H (event_input (es' ! j)))"
  using chain_binding_back [OF _ assms] by blast

definition ev :: "str \<Rightarrow> str \<Rightarrow> str \<Rightarrow> chain_event" where
  "ev tgt p h = \<lparr>ce_id = [], timestamp = [], operation = [], ce_tool_name = [], ce_user = [], ce_source = [],
     ce_target = tgt, decision = [], ce_reason = [], hash = h, prev_hash = p, sign = None\<rparr>"

definition last2 :: "str \<Rightarrow> str" where
  "last2 s = rev (take 2 (rev s @ ''00''))"

theorem chain_binding_witness:
  "let es = [ev ''a'' [] ''aa'', ev ''bb'' ''aa'' ''bb'']; es' = [ev ''c'' [] ''aa'', ev ''bb'' ''aa'' ''bb''] in
    (\<forall>i. 1 \<le> i \<and> i < length es \<longrightarrow> event_input (es ! i) = event_input (es' ! i) \<and> hash (es ! i) = hash (es' ! i)) \<or>
    (\<exists>j. 1 \<le> j \<and> j < length es \<and> event_input (es ! j) \<noteq> event_input (es' ! j) \<and>
       last2 (event_input (es ! j)) = last2 (event_input (es' ! j)))"
  unfolding Let_def
  by (rule chain_binding [where n = 2])
     (simp_all add: ev_def last2_def event_input_def hash_input_def)

text \<open>
  What the verification does not cover.  Any two chains that agree in every hash, in the previous
  hashes and in the hashed texts from the second event on verify alike: the fields of the first event
  other than its hash, and of every event the id, the source, the reason and the signature, can be
  changed without the verification noticing.
\<close>

theorem verification_ignores:
  assumes "length es = length es'" and "list_all2 (\<lambda>e e'. hash e = hash e') es es'"
    and "list_all2 (\<lambda>e e'. e' = e\<lparr>ce_id := ce_id e', ce_source := ce_source e', ce_reason := ce_reason e', sign := sign e'\<rparr>)
      (tl es) (tl es')"
  shows "verify_chain H es = verify_chain H es'"
proof -
  have t: "prev_hash (es' ! Suc i) = prev_hash (es ! Suc i) \<and> event_input (es' ! Suc i) = event_input (es ! Suc i)"
    if "Suc i < length es" for i
  proof -
    let ?e = "es ! Suc i" and ?e' = "es' ! Suc i"
    from assms(1,3) that
    have "?e' = ?e\<lparr>ce_id := ce_id ?e', ce_source := ce_source ?e', ce_reason := ce_reason ?e', sign := sign ?e'\<rparr>"
      by (auto simp: list_all2_conv_all_nth nth_tl)
    from arg_cong [OF this, of prev_hash] arg_cong [OF this, of event_input] show ?thesis
      by (simp add: event_input_def)
  qed
  moreover have "hash (es' ! i) = hash (es ! i)" if "i < length es" for i
    using assms(2) that by (simp add: list_all2_conv_all_nth)
  ultimately show ?thesis using assms(1) by (auto simp: verify_chain_nth)
qed

theorem verification_ignores_witness:
  "verify_chain last2 [ev ''a'' [] ''aa'', ev ''bb'' ''aa'' ''bb''] =
   verify_chain last2 [ev ''tampered'' ''x'' ''aa'', (ev ''bb'' ''aa'' ''bb'')\<lparr>ce_reason := ''forged''\<rparr>]"
  by (rule verification_ignores) (simp_all add: ev_def)

text \<open>
  A restart after a rotation breaks the chain.  Loading restores the last hash but not the
  number of the current segment, so after a restart the next event is written behind the first
  segment although later segments exist, and the stored events, which verified before, no longer
  verify (whenever the first two events have different hashes; the segment size is one here to keep
  the run short).
\<close>

theorem restart_breaks_chain:
  assumes "cw_write_ok w"
    and "c1 = fst (append_with_sign H w op tool user src tgt dec rsn sg (chain_new \<lparr>max_events_per_segment = 1\<rparr>))"
    and "c2 = fst (append_with_sign H w op tool user src tgt dec rsn sg c1)"
    and "c3 = fst (append_with_sign H w op tool user src tgt dec rsn sg (restart c2))"
    and "last_hash c1 \<noteq> last_hash c2"
  shows "verify_chain H (read_all c2) \<and> length (storage c2) = 2 \<and> \<not> verify_chain H (read_all c3)"
proof -
  let ?e = "chain_entry H w op tool user src tgt dec rsn sg"
  have step: "fst (append_with_sign H w op tool user src tgt dec rsn sg c) =
      c\<lparr>last_hash := hash (?e (last_hash c)), event_count := 0, segment_count := segment_count c + 1,
        total_event_count := total_event_count c + 1,
        storage := append_segment (segment_count c) (?e (last_hash c)) (storage c)\<rparr>"
    if "\<not> closed c" "ac_config c = \<lparr>max_events_per_segment = 1\<rparr>" for c
    using that assms(1) by (simp add: append_with_sign_def Let_def rotate_segment_def)
  define e1 e2 e3 where "e1 = ?e GENESIS" and "e2 = ?e (hash e1)" and "e3 = ?e (hash e2)"
  have E: "prev_hash (?e p) = p" "H (event_input (?e p)) = hash (?e p)" for p
    by (simp_all add: chain_entry_def event_input_def)
  have c1: "storage c1 = [[e1]]" "last_hash c1 = hash e1" "segment_count c1 = 2" "\<not> closed c1"
    "ac_config c1 = \<lparr>max_events_per_segment = 1\<rparr>"
    using step [of "chain_new \<lparr>max_events_per_segment = 1\<rparr>"] assms(2)
    by (simp_all add: chain_new_def append_segment_def e1_def)
  have c2: "storage c2 = [[e1], [e2]]" "last_hash c2 = hash e2" "ac_config c2 = \<lparr>max_events_per_segment = 1\<rparr>"
    using step [OF c1(4,5)] assms(3) c1 by (simp_all add: append_segment_def e2_def)
  have "storage (restart c2) = [[e1], [e2]]" "last_hash (restart c2) = hash e2" "segment_count (restart c2) = 1"
    "\<not> closed (restart c2)" "ac_config (restart c2) = \<lparr>max_events_per_segment = 1\<rparr>"
    using c2 by (simp_all add: restart_def load_segments_def read_all_def Let_def chain_new_def)
  with step [of "restart c2"] assms(4) have c3: "storage c3 = [[e1, e3], [e2]]"
    by (simp add: append_segment_def e3_def)
  from c2 c3 assms(5) c1(2) E show ?thesis by (simp add: read_all_def e2_def e3_def)
qed

theorem restart_breaks_chain_witness:
  "let c1 = fst (append_with_sign rev w0 ''o'' ''t'' ''u'' ''s'' ''g'' ''d'' ''r'' None (chain_new \<lparr>max_events_per_segment = 1\<rparr>));
       c2 = fst (append_with_sign rev w0 ''o'' ''t'' ''u'' ''s'' ''g'' ''d'' ''r'' None c1);
       c3 = fst (append_with_sign rev w0 ''o'' ''t'' ''u'' ''s'' ''g'' ''d'' ''r'' None (restart c2))
   in verify_chain rev (read_all c2) \<and> length (storage c2) = 2 \<and> \<not> verify_chain rev (read_all c3)"
  unfolding Let_def
  by (rule restart_breaks_chain [OF _ refl refl refl])
     (simp_all add: w0_def append_with_sign_def chain_entry_def chain_new_def Let_def rotate_segment_def hash_input_def append_segment_def)

end
