(* ===== verification/Ssrf.thy ===== *)
theory Ssrf
  imports Prelude
begin

text \<open>
  The guard against server-side request forgery, crates/nemesis-security/src/resolver.rs (URL checks
  and the classification of IP addresses) and crates/nemesis-security/src/ssrf.rs (the guard).

  The URL parser of the \<^verbatim>\<open>url\<close> crate, the CIDR type of the \<^verbatim>\<open>ipnet\<close> crate and the system's name resolution
  are the record \<^verbatim>\<open>net_lib\<close>; the standard library's parser of IP addresses is written out.  The lemmas
  show that every address the guard hands out passed all checks, and which ranges the checks cover.
\<close>

unbundle bit_operations_syntax

subsection \<open>IP addresses and their text form\<close>

datatype ip_addr =
    V4 "8 word" "8 word" "8 word" "8 word"
  | V6 "16 word" "16 word" "16 word" "16 word" "16 word" "16 word" "16 word" "16 word"

definition digit_value :: "int \<Rightarrow> char \<Rightarrow> int option" where
  "digit_value radix c =
     (let n = (of_char c :: int);
          v = (if 48 \<le> n \<and> n \<le> 57 then Some (n - 48)
               else if 97 \<le> n \<and> n \<le> 102 then Some (n - 87)
               else if 65 \<le> n \<and> n \<le> 70 then Some (n - 55) else None)
      in case v of Some d \<Rightarrow> if d < radix then Some d else None | None \<Rightarrow> None)"

text \<open>\<^verbatim>\<open>read_number\<close>: the digits read so far are counted; more than the maximum is an error.\<close>

fun read_digits :: "int \<Rightarrow> nat \<Rightarrow> nat \<Rightarrow> int \<Rightarrow> str \<Rightarrow> (int \<times> nat \<times> str) option" where
  "read_digits radix max_digits count acc [] = Some (acc, count, [])"
| "read_digits radix max_digits count acc (c # cs) =
     (case digit_value radix c of
        None \<Rightarrow> Some (acc, count, c # cs)
      | Some d \<Rightarrow>
          if count + 1 > max_digits then None
          else read_digits radix max_digits (count + 1) (acc * radix + d) cs)"

definition read_number :: "int \<Rightarrow> nat \<Rightarrow> bool \<Rightarrow> int \<Rightarrow> str \<Rightarrow> (int \<times> str) option" where
  "read_number radix max_digits allow_zero_prefix bound s =
     (case read_digits radix max_digits 0 0 s of
        None \<Rightarrow> None
      | Some (v, count, rest) \<Rightarrow>
          if count = 0 then None
          else if \<not> allow_zero_prefix \<and> s \<noteq> [] \<and> hd s = CHR ''0'' \<and> count > 1 then None
          else if v \<ge> bound then None
          else Some (v, rest))"

definition read_separator :: "char \<Rightarrow> nat \<Rightarrow> (str \<Rightarrow> ('a \<times> str) option) \<Rightarrow> str \<Rightarrow> ('a \<times> str) option" where
  "read_separator sep i p s =
     (if i = 0 then p s
      else (case s of [] \<Rightarrow> None | c # cs \<Rightarrow> if c = sep then p cs else None))"

fun read_octets :: "nat \<Rightarrow> nat \<Rightarrow> str \<Rightarrow> (int list \<times> str) option" where
  "read_octets 0 i s = Some ([], s)"
| "read_octets (Suc n) i s =
     (case read_separator (CHR ''.'') i (read_number 10 3 False 256) s of
        None \<Rightarrow> None
      | Some (v, r) \<Rightarrow>
          (case read_octets n (i + 1) r of None \<Rightarrow> None | Some (vs, r') \<Rightarrow> Some (v # vs, r')))"

text \<open>\<^verbatim>\<open>read_groups\<close>: the group values, whether an embedded IPv4 part was read, and the rest.\<close>

fun read_groups :: "nat \<Rightarrow> nat \<Rightarrow> str \<Rightarrow> int list \<times> bool \<times> str" where
  "read_groups 0 i s = ([], False, s)"
| "read_groups (Suc n) i s =
     (case (if n > 0 then read_separator (CHR '':'') i (read_octets 4 0) s else None) of
        Some (os, r) \<Rightarrow> ([os ! 0 * 256 + os ! 1, os ! 2 * 256 + os ! 3], True, r)
      | None \<Rightarrow>
          (case read_separator (CHR '':'') i (read_number 16 4 True 65536) s of
             None \<Rightarrow> ([], False, s)
           | Some (g, r) \<Rightarrow> (case read_groups n (i + 1) r of (gs, v4, r') \<Rightarrow> (g # gs, v4, r'))))"

definition mk_v6 :: "int list \<Rightarrow> ip_addr" where
  "mk_v6 gs = V6 (of_int (gs ! 0)) (of_int (gs ! 1)) (of_int (gs ! 2)) (of_int (gs ! 3))
                 (of_int (gs ! 4)) (of_int (gs ! 5)) (of_int (gs ! 6)) (of_int (gs ! 7))"

definition read_ipv6 :: "str \<Rightarrow> (ip_addr \<times> str) option" where
  "read_ipv6 s =
     (case read_groups 8 0 s of (head, head_v4, r) \<Rightarrow>
        if length head = 8 then Some (mk_v6 head, r)
        else if head_v4 then None
        else if \<not> prefix ''::'' r then None
        else (case read_groups (7 - length head) 0 (drop 2 r) of (tail, _, r') \<Rightarrow>
                Some (mk_v6 (head @ replicate (8 - length head - length tail) 0 @ tail), r')))"

definition read_ipv4 :: "str \<Rightarrow> (ip_addr \<times> str) option" where
  "read_ipv4 s =
     (case read_octets 4 0 s of
        Some (os, r) \<Rightarrow> Some (V4 (of_int (os ! 0)) (of_int (os ! 1)) (of_int (os ! 2)) (of_int (os ! 3)), r)
      | None \<Rightarrow> None)"

definition parse_ip :: "str \<Rightarrow> ip_addr option" where
  "parse_ip s =
     (case (case read_ipv4 s of Some x \<Rightarrow> Some x | None \<Rightarrow> read_ipv6 s) of
        Some (ip, r) \<Rightarrow> if r = [] then Some ip else None
      | None \<Rightarrow> None)"

subsection \<open>Classification\<close>

definition is_private_ipv4 :: "8 word \<Rightarrow> 8 word \<Rightarrow> 8 word \<Rightarrow> 8 word \<Rightarrow> bool" where
  "is_private_ipv4 a b c d =
     (if a = 10 then True
      else if a = 172 \<and> b \<ge> 16 \<and> b \<le> 31 then True
      else if a = 192 \<and> b = 168 then True
      else if a = 192 \<and> b = 0 \<and> c = 2 then True
      else if a = 198 \<and> b = 51 \<and> c = 100 then True
      else if a = 203 \<and> b = 0 \<and> c = 113 then True
      else if a = 100 \<and> b \<ge> 64 \<and> b \<le> 127 then True
      else if a = 192 \<and> b = 0 \<and> c = 0 then True
      else if a = 192 \<and> b = 88 \<and> c = 99 then True
      else if a = 198 \<and> (b = 18 \<or> b = 19) then True
      else False)"

definition is_private_ipv6 :: "16 word \<Rightarrow> 16 word \<Rightarrow> bool" where
  "is_private_ipv6 s0 s1 =
     (if s0 AND 0xfe00 = 0xfc00 then True
      else if s0 = 0x0064 \<and> s1 = 0xff9b then True
      else False)"

fun is_private_ip :: "ip_addr \<Rightarrow> bool" where
  "is_private_ip (V4 a b c d) = is_private_ipv4 a b c d"
| "is_private_ip (V6 s0 s1 s2 s3 s4 s5 s6 s7) = is_private_ipv6 s0 s1"

text \<open>\<^verbatim>\<open>IpAddr::is_loopback\<close>: 127.0.0.0/8 and ::1.\<close>

fun is_loopback_ip :: "ip_addr \<Rightarrow> bool" where
  "is_loopback_ip (V4 a b c d) \<longleftrightarrow> a = 127"
| "is_loopback_ip (V6 s0 s1 s2 s3 s4 s5 s6 s7) \<longleftrightarrow>
     s0 = 0 \<and> s1 = 0 \<and> s2 = 0 \<and> s3 = 0 \<and> s4 = 0 \<and> s5 = 0 \<and> s6 = 0 \<and> s7 = 1"

fun is_metadata_ip :: "ip_addr \<Rightarrow> bool" where
  "is_metadata_ip (V4 a b c d) \<longleftrightarrow> a = 169 \<and> b = 254 \<and> c = 169 \<and> d = 254"
| "is_metadata_ip (V6 s0 s1 s2 s3 s4 s5 s6 s7) \<longleftrightarrow>
     s0 = 0xfd00 \<and> s1 = 0x0ec2 \<and> list_all (\<lambda>s. s = 0) [s2, s3, s4, s5, s6] \<and> s7 = 0x0254"

fun is_link_local_ip :: "ip_addr \<Rightarrow> bool" where
  "is_link_local_ip (V4 a b c d) \<longleftrightarrow> a = 169 \<and> b = 254"
| "is_link_local_ip (V6 s0 s1 s2 s3 s4 s5 s6 s7) \<longleftrightarrow> s0 AND 0xffc0 = 0xfe80"

fun is_unspecified :: "ip_addr \<Rightarrow> bool" where
  "is_unspecified (V4 a b c d) \<longleftrightarrow> a = 0 \<and> b = 0 \<and> c = 0 \<and> d = 0"
| "is_unspecified (V6 s0 s1 s2 s3 s4 s5 s6 s7) \<longleftrightarrow>
     s0 = 0 \<and> s1 = 0 \<and> s2 = 0 \<and> s3 = 0 \<and> s4 = 0 \<and> s5 = 0 \<and> s6 = 0 \<and> s7 = 0"

definition is_reserved_ip :: "ip_addr \<Rightarrow> bool" where
  "is_reserved_ip ip =
     (if is_unspecified ip then True
      else (case ip of
              V4 a b c d \<Rightarrow>
                if a = 0 then True else if a \<ge> 224 then True
                else if a = 255 \<and> b = 255 \<and> c = 255 \<and> d = 255 then True else False
            | V6 s0 s1 s2 s3 s4 s5 s6 s7 \<Rightarrow> s0 AND 0xff00 = 0xff00))"

subsection \<open>URLs\<close>

text \<open>What \<^verbatim>\<open>url::Url::parse\<close> yields, as far as the code reads it.\<close>

record url_parts =
  u_scheme :: str
  u_host :: "str option"
  u_username :: str
  u_password :: "str option"
  u_port :: "16 word option"
  u_path :: str

record ip_net =
  net_text :: str
  net_contains :: "ip_addr \<Rightarrow> bool"

record net_lib =
  url_parse :: "str \<Rightarrow> url_parts option"
  net_parse :: "str \<Rightarrow> ip_net option"
  dns :: "str \<Rightarrow> ip_addr list option"

record parsed_url =
  scheme :: str
  host :: str
  port :: "16 word option"
  path :: str

datatype resolver_error =
    EmptyUrl | ParseError | NoHost | UnsupportedScheme str | EmbeddedCredentials | ControlChars | InvalidHost

definition contains_control_chars :: "str \<Rightarrow> bool" where
  "contains_control_chars s \<longleftrightarrow> list_ex (\<lambda>c. (of_char c :: nat) < 32 \<or> c = CHR 0x7F) s"

definition parse_url :: "net_lib \<Rightarrow> str \<Rightarrow> resolver_error + parsed_url" where
  "parse_url L raw_url =
     (if raw_url = [] then Inl EmptyUrl
      else (let to_parse = (if \<not> contains_str raw_url ''://'' then ''http://'' @ raw_url else raw_url) in
            case url_parse L to_parse of
              None \<Rightarrow> Inl ParseError
            | Some u \<Rightarrow>
                (let h = (case u_host u of Some h \<Rightarrow> h | None \<Rightarrow> []); sch = to_lowercase (u_scheme u) in
                 if h = [] then Inl NoHost
                 else if sch \<noteq> ''http'' \<and> sch \<noteq> ''https'' then Inl (UnsupportedScheme sch)
                 else if u_username u \<noteq> [] \<or> u_password u \<noteq> None then Inl EmbeddedCredentials
                 else if contains_control_chars h then Inl ControlChars
                 else if CHR ''@'' \<in> set h \<or> h = ''['' \<or> h = '']'' \<or> h = ''[]'' then Inl InvalidHost
                 else Inr \<lparr>scheme = sch, host = h, port = u_port u, path = u_path u\<rparr>)))"

subsection \<open>The guard\<close>

datatype ssrf_error =
    PrivateIp ip_addr | Localhost str | LoopbackIp ip_addr | MetadataEndpoint ip_addr | LinkLocal ip_addr
  | ReservedIp ip_addr | BlockedCidr ip_addr str | InvalidUrl resolver_error | BlockedScheme str
  | InvalidIp str | DnsFailed str | NoAddresses str | ResolvesToBlocked str ip_addr ssrf_error
  | InvalidCidr str

record ssrf_config =
  s_enabled :: bool
  blocked_cidrs :: "str list"
  allowed_hosts :: "str list"
  block_metadata :: bool
  block_localhost :: bool
  block_private_ips :: bool

definition default_ssrf_config :: ssrf_config where
  "default_ssrf_config =
     \<lparr>s_enabled = True, blocked_cidrs = [], allowed_hosts = [], block_metadata = True, block_localhost = True,
      block_private_ips = True\<rparr>"

record guard =
  g_config :: ssrf_config
  blocked_nets :: "ip_net list"
  allowed_set :: "str set"

fun parse_nets :: "net_lib \<Rightarrow> str list \<Rightarrow> ssrf_error + ip_net list" where
  "parse_nets L [] = Inr []"
| "parse_nets L (c # cs) =
     (case net_parse L c of
        None \<Rightarrow> Inl (InvalidCidr c)
      | Some n \<Rightarrow> (case parse_nets L cs of Inl e \<Rightarrow> Inl e | Inr ns \<Rightarrow> Inr (n # ns)))"

definition guard_new :: "net_lib \<Rightarrow> ssrf_config \<Rightarrow> ssrf_error + guard" where
  "guard_new L cfg =
     (case parse_nets L (blocked_cidrs cfg) of
        Inl e \<Rightarrow> Inl e
      | Inr nets \<Rightarrow>
          Inr \<lparr>g_config = cfg, blocked_nets = nets, allowed_set = set (map to_lowercase (allowed_hosts cfg))\<rparr>)"

definition add_blocked_cidr :: "net_lib \<Rightarrow> str \<Rightarrow> guard \<Rightarrow> guard \<times> (ssrf_error + unit)" where
  "add_blocked_cidr L cidr g =
     (case net_parse L cidr of
        None \<Rightarrow> (g, Inl (InvalidCidr cidr))
      | Some n \<Rightarrow> (g\<lparr>blocked_nets := blocked_nets g @ [n]\<rparr>, Inr ()))"

definition add_allowed_host :: "str \<Rightarrow> guard \<Rightarrow> guard" where
  "add_allowed_host h g = g\<lparr>allowed_set := insert (to_lowercase h) (allowed_set g)\<rparr>"

definition remove_allowed_host :: "str \<Rightarrow> guard \<Rightarrow> guard" where
  "remove_allowed_host h g = g\<lparr>allowed_set := allowed_set g - {to_lowercase h}\<rparr>"

definition check_ip_locked :: "guard \<Rightarrow> ip_addr \<Rightarrow> ssrf_error + unit" where
  "check_ip_locked g ip =
     (if block_localhost (g_config g) \<and> is_loopback_ip ip then Inl (LoopbackIp ip)
      else if block_metadata (g_config g) \<and> is_metadata_ip ip then Inl (MetadataEndpoint ip)
      else if block_private_ips (g_config g) \<and> is_private_ip ip then Inl (PrivateIp ip)
      else if is_link_local_ip ip then Inl (LinkLocal ip)
      else if is_reserved_ip ip then Inl (ReservedIp ip)
      else (case find (\<lambda>n. net_contains n ip) (blocked_nets g) of
              Some n \<Rightarrow> Inl (BlockedCidr ip (net_text n))
            | None \<Rightarrow> Inr ()))"

definition check_ip :: "guard \<Rightarrow> str \<Rightarrow> ssrf_error + unit" where
  "check_ip g s =
     (if \<not> s_enabled (g_config g) then Inr ()
      else (case parse_ip s of None \<Rightarrow> Inl (InvalidIp s) | Some ip \<Rightarrow> check_ip_locked g ip))"

definition strip_ipv6_brackets :: "str \<Rightarrow> str" where
  "strip_ipv6_brackets h =
     (if prefix ''['' h \<and> suffix '']'' h then take (length h - 2) (drop 1 h) else h)"

definition resolve_host_dns :: "net_lib \<Rightarrow> str \<Rightarrow> ssrf_error + ip_addr list" where
  "resolve_host_dns L h =
     (let clean = strip_ipv6_brackets h in
      case parse_ip clean of
        Some ip \<Rightarrow> Inr [ip]
      | None \<Rightarrow>
          (case dns L clean of
             None \<Rightarrow> Inl (DnsFailed clean)
           | Some addrs \<Rightarrow> if addrs = [] then Inl (NoAddresses clean) else Inr addrs))"

fun check_all :: "guard \<Rightarrow> str \<Rightarrow> ip_addr list \<Rightarrow> ssrf_error option" where
  "check_all g h [] = None"
| "check_all g h (ip # ips) =
     (case check_ip_locked g ip of
        Inl e \<Rightarrow> Some (ResolvesToBlocked h ip e)
      | Inr _ \<Rightarrow> check_all g h ips)"

definition resolve_and_validate_collect_locked :: "net_lib \<Rightarrow> guard \<Rightarrow> str \<Rightarrow> ssrf_error + ip_addr list" where
  "resolve_and_validate_collect_locked L g h =
     (let hl = to_lowercase h in
      if block_localhost (g_config g) \<and>
         (hl = ''localhost'' \<or> suffix ''.localhost'' hl \<or> hl = ''localhost.localdomain'')
        then Inl (Localhost h)
      else (case parse_ip hl of
              Some ip \<Rightarrow> (case check_ip_locked g ip of Inl e \<Rightarrow> Inl e | Inr _ \<Rightarrow> Inr [ip])
            | None \<Rightarrow>
                (case resolve_host_dns L (strip_ipv6_brackets h) of
                   Inl e \<Rightarrow> Inl e
                 | Inr ips \<Rightarrow>
                     if ips = [] then Inl (NoAddresses h)
                     else (case check_all g h ips of Some e \<Rightarrow> Inl e | None \<Rightarrow> Inr ips))))"

definition resolve_and_validate_locked :: "net_lib \<Rightarrow> guard \<Rightarrow> str \<Rightarrow> ssrf_error + unit" where
  "resolve_and_validate_locked L g h =
     (case resolve_and_validate_collect_locked L g h of Inl e \<Rightarrow> Inl e | Inr _ \<Rightarrow> Inr ())"

definition validate_url :: "net_lib \<Rightarrow> guard \<Rightarrow> str \<Rightarrow> ssrf_error + unit" where
  "validate_url L g url =
     (if \<not> s_enabled (g_config g) then Inr ()
      else (case parse_url L url of
              Inl e \<Rightarrow> Inl (InvalidUrl e)
            | Inr p \<Rightarrow>
                if to_lowercase (host p) \<in> allowed_set g then Inr ()
                else (let sch = to_lowercase (scheme p) in
                      if sch \<noteq> ''http'' \<and> sch \<noteq> ''https'' then Inl (BlockedScheme sch)
                      else resolve_and_validate_locked L g (host p))))"

definition resolve_and_validate :: "net_lib \<Rightarrow> guard \<Rightarrow> str \<Rightarrow> ssrf_error + unit" where
  "resolve_and_validate L g url =
     (if \<not> s_enabled (g_config g) then Inr ()
      else (case parse_url L url of
              Inl e \<Rightarrow> Inl (InvalidUrl e)
            | Inr p \<Rightarrow>
                if to_lowercase (host p) \<in> allowed_set g then Inr ()
                else resolve_and_validate_locked L g (host p)))"

definition resolve_and_validate_collect :: "net_lib \<Rightarrow> guard \<Rightarrow> str \<Rightarrow> ssrf_error + ip_addr list" where
  "resolve_and_validate_collect L g url =
     (if \<not> s_enabled (g_config g) then Inr []
      else (case parse_url L url of
              Inl e \<Rightarrow> Inl (InvalidUrl e)
            | Inr p \<Rightarrow>
                if to_lowercase (host p) \<in> allowed_set g then Inr []
                else (let sch = to_lowercase (scheme p) in
                      if sch \<noteq> ''http'' \<and> sch \<noteq> ''https'' then Inl (BlockedScheme sch)
                      else resolve_and_validate_collect_locked L g (host p))))"

subsection \<open>Lemmas\<close>

text \<open>The specification of an admissible address under a configuration.\<close>

definition admissible :: "guard \<Rightarrow> ip_addr \<Rightarrow> bool" where
  "admissible g ip \<longleftrightarrow>
     (block_localhost (g_config g) \<longrightarrow> \<not> is_loopback_ip ip) \<and>
     (block_metadata (g_config g) \<longrightarrow> \<not> is_metadata_ip ip) \<and>
     (block_private_ips (g_config g) \<longrightarrow> \<not> is_private_ip ip) \<and>
     \<not> is_link_local_ip ip \<and> \<not> is_reserved_ip ip \<and> list_all (\<lambda>n. \<not> net_contains n ip) (blocked_nets g)"

lemma check_ip_locked_iff: "check_ip_locked g ip = Inr () \<longleftrightarrow> admissible g ip"
proof -
  have n: "find (\<lambda>n. net_contains n ip) (blocked_nets g) = None \<longleftrightarrow> list_all (\<lambda>n. \<not> net_contains n ip) (blocked_nets g)"
    by (auto simp: find_None_iff list_all_iff)
  show ?thesis
    by (cases "find (\<lambda>n. net_contains n ip) (blocked_nets g)")
       (use n in \<open>auto simp: check_ip_locked_def admissible_def\<close>)
qed

lemma check_ip_locked_Inr: "check_ip_locked g ip = Inr u \<longleftrightarrow> admissible g ip"
  using check_ip_locked_iff by (metis old.unit.exhaust)

lemma check_all_None: "check_all g h ips = None \<longleftrightarrow> list_all (admissible g) ips"
  by (induction ips) (auto simp: check_ip_locked_Inr split: sum.splits, metis check_ip_locked_iff sum.distinct(1))

lemma collect_locked_admissible:
  assumes "resolve_and_validate_collect_locked L g h = Inr ips"
  shows "ips \<noteq> [] \<and> list_all (admissible g) ips"
  using assms
  by (auto simp: resolve_and_validate_collect_locked_def Let_def check_ip_locked_Inr check_all_None
      split: if_splits option.splits sum.splits)

text \<open>Membership of an IPv4 address in a CIDR block, on the 32-bit number.\<close>

definition addr_v4 :: "8 word \<Rightarrow> 8 word \<Rightarrow> 8 word \<Rightarrow> 8 word \<Rightarrow> nat" where
  "addr_v4 a b c d = unat a * 2 ^ 24 + unat b * 2 ^ 16 + unat c * 2 ^ 8 + unat d"

definition in_cidr :: "nat \<Rightarrow> nat \<times> nat \<times> nat \<times> nat \<times> nat \<Rightarrow> bool" where
  "in_cidr n net =
     (case net of (a, b, c, d, len) \<Rightarrow>
        n div 2 ^ (32 - len) = (a * 2 ^ 24 + b * 2 ^ 16 + c * 2 ^ 8 + d) div 2 ^ (32 - len))"

definition PRIVATE_V4 :: "(nat \<times> nat \<times> nat \<times> nat \<times> nat) list" where
  "PRIVATE_V4 =
     [(10, 0, 0, 0, 8), (172, 16, 0, 0, 12), (192, 168, 0, 0, 16), (192, 0, 2, 0, 24), (198, 51, 100, 0, 24),
      (203, 0, 113, 0, 24), (100, 64, 0, 0, 10), (192, 0, 0, 0, 24), (192, 88, 99, 0, 24), (198, 18, 0, 0, 15)]"

lemma octet_less: "unat (x :: 8 word) < 256"
  using unsigned_less [of x] by simp

lemma octet_blocks:
  "unat (b :: 8 word) div 16 = 1 \<longleftrightarrow> 16 \<le> b \<and> b \<le> 31"
  "unat (b :: 8 word) div 64 = 1 \<longleftrightarrow> 64 \<le> b \<and> b \<le> 127"
  "unat (b :: 8 word) div 2 = 9 \<longleftrightarrow> b = 18 \<or> b = 19"
  by (auto simp: word_le_nat_alt word_unat_eq_iff)

lemma positional: "b < k \<Longrightarrow> y < k \<Longrightarrow> a * k + b = x * k + y \<longleftrightarrow> a = x \<and> b = (y :: nat)"
proof
  assume b: "b < k" "y < k" and e: "a * k + b = x * k + y"
  from arg_cong [OF e, of "\<lambda>n. n div k"] b have "a = x" by simp
  with e show "a = x \<and> b = y" by simp
qed simp

lemma prefix_v4:
  assumes "a < 256" "b < 256" "c < 256" "d < (256 :: nat)"
  shows "(a * 2 ^ 24 + b * 2 ^ 16 + c * 2 ^ 8 + d) div 2 ^ 24 = a"
    "(a * 2 ^ 24 + b * 2 ^ 16 + c * 2 ^ 8 + d) div 2 ^ 16 = a * 256 + b"
    "(a * 2 ^ 24 + b * 2 ^ 16 + c * 2 ^ 8 + d) div 2 ^ 8 = (a * 256 + b) * 256 + c"
    "(a * 2 ^ 24 + b * 2 ^ 16 + c * 2 ^ 8 + d) div 2 ^ 20 = a * 16 + b div 16"
    "(a * 2 ^ 24 + b * 2 ^ 16 + c * 2 ^ 8 + d) div 2 ^ 22 = a * 4 + b div 64"
    "(a * 2 ^ 24 + b * 2 ^ 16 + c * 2 ^ 8 + d) div 2 ^ 17 = a * 128 + b div 2"
  using assms by simp_all

lemma in_cidr_v4:
  fixes a b c d :: "8 word"
  assumes "x < 256" "y < 256" "z < 256"
  shows "in_cidr (addr_v4 a b c d) (x, 0, 0, 0, 8) \<longleftrightarrow> unat a = x"
    and "in_cidr (addr_v4 a b c d) (x, y, 0, 0, 16) \<longleftrightarrow> unat a = x \<and> unat b = y"
    and "in_cidr (addr_v4 a b c d) (x, y, z, 0, 24) \<longleftrightarrow> unat a = x \<and> unat b = y \<and> unat c = z"
    and "in_cidr (addr_v4 a b c d) (x, y, 0, 0, 12) \<longleftrightarrow> unat a = x \<and> unat b div 16 = y div 16"
    and "in_cidr (addr_v4 a b c d) (x, y, 0, 0, 10) \<longleftrightarrow> unat a = x \<and> unat b div 64 = y div 64"
    and "in_cidr (addr_v4 a b c d) (x, y, 0, 0, 15) \<longleftrightarrow> unat a = x \<and> unat b div 2 = y div 2"
proof -
  note o = octet_less [of a] octet_less [of b] octet_less [of c] octet_less [of d]
  note p = prefix_v4 [OF o] prefix_v4 [OF assms, of 0] prefix_v4 [OF assms(1,2), of 0 0] prefix_v4 [OF assms(1), of 0 0 0]
  have "unat b div 16 < 16" "y div 16 < 16" "unat b div 64 < 4" "y div 64 < 4" "unat b div 2 < 128" "y div 2 < 128"
    using o(2) assms(2) by auto
  note q = positional [OF o(2) assms(2)] positional [OF o(3) assms(3)] positional [OF this(1,2)]
    positional [OF this(3,4)] positional [OF this(5,6)]
  show "in_cidr (addr_v4 a b c d) (x, 0, 0, 0, 8) \<longleftrightarrow> unat a = x"
    using p(1) p(19) by (simp only: in_cidr_def addr_v4_def prod.case) (simp add: mult.commute)
  show "in_cidr (addr_v4 a b c d) (x, y, 0, 0, 16) \<longleftrightarrow> unat a = x \<and> unat b = y"
    using p(2) p(14) q(1) by (simp only: in_cidr_def addr_v4_def prod.case) (simp add: mult.commute)
  show "in_cidr (addr_v4 a b c d) (x, y, z, 0, 24) \<longleftrightarrow> unat a = x \<and> unat b = y \<and> unat c = z"
  proof -
    have e: "(32 :: nat) - 24 = 8" by simp
    have "p3 = p9 \<longleftrightarrow> unat a = x \<and> unat b = y \<and> unat c = z"
      if "p3 = (unat a * 256 + unat b) * 256 + unat c" "p9 = (x * 256 + y) * 256 + z" for p3 p9
      unfolding that q(2) q(1) by blast
    from this [OF p(3) p(9)] show ?thesis by (simp only: in_cidr_def addr_v4_def prod.case e)
  qed
  show "in_cidr (addr_v4 a b c d) (x, y, 0, 0, 12) \<longleftrightarrow> unat a = x \<and> unat b div 16 = y div 16"
    using p(4) p(16) q(3) by (simp only: in_cidr_def addr_v4_def prod.case) (simp add: mult.commute)
  show "in_cidr (addr_v4 a b c d) (x, y, 0, 0, 10) \<longleftrightarrow> unat a = x \<and> unat b div 64 = y div 64"
    using p(5) p(17) q(4) by (simp only: in_cidr_def addr_v4_def prod.case) (simp add: mult.commute)
  show "in_cidr (addr_v4 a b c d) (x, y, 0, 0, 15) \<longleftrightarrow> unat a = x \<and> unat b div 2 = y div 2"
    using p(6) p(18) q(5) by (simp only: in_cidr_def addr_v4_def prod.case) (simp add: mult.commute)
qed

subsection \<open>Properties\<close>


definition example_net :: net_lib where
  "example_net =
     \<lparr>url_parse = (\<lambda>s. if s = ''http://a.example'' then
        Some \<lparr>u_scheme = ''http'', u_host = Some ''a.example'', u_username = [], u_password = None, u_port = None, u_path = ''/''\<rparr>
        else None),
      net_parse = (\<lambda>_. None),
      dns = (\<lambda>h. if h = ''a.example'' then Some [V4 93 184 216 34] else None)\<rparr>"

definition default_guard :: guard where
  "default_guard = \<lparr>g_config = default_ssrf_config, blocked_nets = [], allowed_set = {}\<rparr>"


text \<open>
  The three entry points agree.  For every URL, validating, resolving-and-validating and
  collecting addresses succeed or fail together, with the same error; a scheme other than http or
  https cannot pass any of them.
\<close>

theorem entry_points_agree:
  "validate_url L g url = resolve_and_validate L g url \<and>
   validate_url L g url = (case resolve_and_validate_collect L g url of Inl e \<Rightarrow> Inl e | Inr _ \<Rightarrow> Inr ())"
proof -
  have "to_lowercase (scheme p) = ''http'' \<or> to_lowercase (scheme p) = ''https''" if "parse_url L url = Inr p" for p
  proof -
    have "scheme p = ''http'' \<or> scheme p = ''https''"
      using that by (auto simp: parse_url_def Let_def split: if_splits option.splits)
    moreover have "to_lowercase ''http'' = ''http''" "to_lowercase ''https'' = ''https''" by code_simp+
    ultimately show ?thesis by auto
  qed
  then show ?thesis
    by (auto simp: validate_url_def resolve_and_validate_def resolve_and_validate_collect_def
        resolve_and_validate_locked_def Let_def split: sum.split)
qed

text \<open>
  The byte comparisons for private IPv4 addresses are exactly the ten CIDR blocks of the RFCs
  they cite, read as prefixes of the 32-bit address.
\<close>

theorem private_ipv4_cidrs:
  "is_private_ipv4 a b c d \<longleftrightarrow> list_ex (in_cidr (addr_v4 a b c d)) PRIVATE_V4"
proof -
  let ?spec = "unat a = 10 \<or> (unat a = 172 \<and> unat b div 16 = 1) \<or> (unat a = 192 \<and> unat b = 168) \<or>
    (unat a = 192 \<and> unat b = 0 \<and> unat c = 2) \<or> (unat a = 198 \<and> unat b = 51 \<and> unat c = 100) \<or>
    (unat a = 203 \<and> unat b = 0 \<and> unat c = 113) \<or> (unat a = 100 \<and> unat b div 64 = 1) \<or>
    (unat a = 192 \<and> unat b = 0 \<and> unat c = 0) \<or> (unat a = 192 \<and> unat b = 88 \<and> unat c = 99) \<or>
    (unat a = 198 \<and> unat b div 2 = 9)"
  have I: "(if P then True else Q) \<longleftrightarrow> P \<or> Q" for P Q by simp
  have "list_ex (in_cidr (addr_v4 a b c d)) PRIVATE_V4 \<longleftrightarrow> ?spec"
    unfolding PRIVATE_V4_def
    by (simp add: in_cidr_v4 in_cidr_v4 [where z = 0] in_cidr_v4 [where y = 0 and z = 0])
  moreover have "is_private_ipv4 a b c d \<longleftrightarrow> ?spec"
    unfolding is_private_ipv4_def I octet_blocks by (simp add: word_unat_eq_iff)
  ultimately show ?thesis by simp
qed

text \<open>
  IPv4-mapped IPv6 addresses are not recognised.  The guard with the default configuration
  accepts every address ::ffff:a.b.c.d, among them the loopback address and the metadata endpoint,
  whose IPv4 forms it blocks; such a literal in brackets reaches that check.
\<close>

theorem mapped_addresses_pass:
  "admissible default_guard (V6 0 0 0 0 0 0xffff hi lo) \<and>
   resolve_and_validate_collect_locked L default_guard ''[::ffff:127.0.0.1]'' = Inr [V6 0 0 0 0 0 0xffff 0x7f00 1] \<and>
   \<not> admissible default_guard (V4 127 0 0 1)"
proof -
  have "parse_ip (to_lowercase ''[::ffff:127.0.0.1]'') = None" by code_simp
  moreover have "parse_ip (strip_ipv6_brackets (strip_ipv6_brackets ''[::ffff:127.0.0.1]'')) = Some (V6 0 0 0 0 0 0xffff 0x7f00 1)"
    by code_simp
  moreover have a: "admissible default_guard (V6 0 0 0 0 0 0xffff hi lo)" for hi lo
    by (simp add: admissible_def default_guard_def is_private_ipv6_def is_reserved_ip_def default_ssrf_config_def)
  moreover have "to_lowercase ''[::ffff:127.0.0.1]'' = ''[::ffff:127.0.0.1]''" by code_simp
  moreover have "\<not> admissible default_guard (V4 127 0 0 1)" by code_simp
  moreover have "check_ip_locked default_guard (V6 0 0 0 0 0 0xffff 0x7f00 1) = Inr ()"
    using a by (simp add: check_ip_locked_iff)
  ultimately show ?thesis
    by (simp add: resolve_and_validate_collect_locked_def resolve_host_dns_def Let_def suffix_def)
qed

end
