(* ===== verification/Pipeline.thy ===== *)
theory Pipeline
  imports Auditor AuditChain Ssrf
begin

text \<open>
  The security pipeline, crates/nemesis-security/src/pipeline.rs: the plugin's state and construction,
  the registration of rules, reloading, and the eight layers a tool call passes through.

  The injection detector, the command guard, the script scanner, the credential scanner, the DLP
  engine and the virus scanner are other modules; the pipeline uses their results only, so they are
  functions in the record \<^verbatim>\<open>engines\<close>, \<^verbatim>\<open>None\<close> when a layer is not built.  The auditor, the SSRF guard
  and the audit chain are the models of this development.  \<^verbatim>\<open>execute_inner\<close> is the sequence of its layers,
  each of which may change the state and may deny; the first denial ends the call.
\<close>

subsection \<open>Engines\<close>

record injection_result =
  is_injection :: bool
  inj_score :: str
  inj_level :: str

record credential_result =
  cred_has_matches :: bool
  cred_action :: str
  cred_summary :: str

datatype dlp_confidence = ConfLow | ConfMedium | ConfHigh

record dlp_match =
  effective_action :: str
  confidence :: dlp_confidence

record dlp_result =
  dlp_has_matches :: bool
  should_block :: bool
  dlp_matches :: "dlp_match list"
  dlp_summary :: str

text \<open>
  The virus scanner: whether the chain is enabled and has engines, the paths it takes from the
  arguments, and for a path or a content the engine that blocks it, if any.
\<close>

record scan_chain =
  sc_active :: bool
  extract_paths :: "str \<Rightarrow> json \<Rightarrow> str list"
  scan_file :: "str \<Rightarrow> str option"
  scan_content :: "str \<Rightarrow> str option"

record engines =
  injection_detector :: "(str \<Rightarrow> json \<Rightarrow> injection_result) option"
  command_guard :: "(str \<Rightarrow> str option) option"
  preexec :: "(str \<Rightarrow> str option) option"
  credential_scanner :: "(str \<Rightarrow> credential_result) option"
  dlp_engine :: "(str \<Rightarrow> json \<Rightarrow> dlp_result) option"
  scanner :: "scan_chain option"

subsection \<open>State of the plugin\<close>

datatype suggestion = Rephrase | SplitCommand | AwaitApproval | RemoveSecret | Redact | PublicUrl | ReplaceFile

datatype deny_summary =
    InjectionDetected str str
  | CommandBlocked str
  | AbacDenied message
  | AbacDeniedByPolicy
  | CredentialLeak str
  | DlpBlocked str
  | SsrfBlocked ssrf_error
  | ThreatDetected str str

record deny_info =
  layer :: str
  d_policy :: str
  summary :: deny_summary
  d_suggestion :: "suggestion option"

definition layer_suggestion :: "str \<Rightarrow> suggestion option" where
  "layer_suggestion l =
     (if l = ''injection'' then Some Rephrase
      else if l = ''command'' then Some SplitCommand
      else if l = ''abac'' then Some AwaitApproval
      else if l = ''credential'' then Some RemoveSecret
      else if l = ''dlp'' then Some Redact
      else if l = ''ssrf'' then Some PublicUrl
      else if l = ''virus'' then Some ReplaceFile
      else None)"

definition mk_deny :: "str \<Rightarrow> str \<Rightarrow> deny_summary \<Rightarrow> deny_info" where
  "mk_deny l p s = \<lparr>layer = l, d_policy = p, summary = s, d_suggestion = layer_suggestion l\<rparr>"

text \<open>
  A line of the text log of the plugin.  Its reason is built from what the denial carries, from the
  script scan, from a match that does not block, or is the fixed text of an allowed call.
\<close>

datatype log_reason = DenyReason deny_summary | ScriptScan str | DlpNonBlocking str | PassedAllLayers

record log_entry =
  le_decision :: str
  le_operation :: str
  le_user :: str
  le_source :: str
  le_target :: str
  le_danger :: str
  le_reason :: log_reason
  le_policy :: str

record plugin_config =
  pc_enabled :: bool
  dlp_inbound_action :: str
  pc_default_action :: str
  pc_approval_timeout :: nat
  log_all_operations :: bool
  ssrf_enabled :: bool
  ssrf_allowed_hosts :: "str list"
  audit_chain_enabled :: bool
  audit_log_ready :: bool
  file_rules :: "security_rule list"
  dir_rules :: "security_rule list"
  process_rules :: "security_rule list"
  network_rules :: "security_rule list"
  hardware_rules :: "security_rule list"
  registry_rules :: "security_rule list"

record plugin =
  p_config :: plugin_config
  p_auditor :: auditor
  p_engines :: engines
  ssrf_guard :: "guard option"
  p_audit_chain :: "audit_chain option"
  audit_logger :: "log_entry list option"
  p_enabled :: bool
  config_path :: "str option"
  guardian_failure_policy :: str
  guardian_mode :: str

subsection \<open>Rules\<close>

definition set_rules_for :: "operation_type list \<Rightarrow> security_rule list \<Rightarrow> auditor \<Rightarrow> auditor" where
  "set_rules_for ops rs a = (if rs = [] then a else fold (\<lambda>op. set_rules op rs) ops a)"

definition register_rules :: "plugin_config \<Rightarrow> auditor \<Rightarrow> auditor" where
  "register_rules c a =
     set_rules_for [RegistryRead, RegistryWrite, RegistryDelete] (registry_rules c)
     (set_rules_for [HardwareI2C, HardwareSPI, HardwareGPIO] (hardware_rules c)
     (set_rules_for [NetworkRequest, NetworkDownload, NetworkUpload] (network_rules c)
     (set_rules_for [ProcessExec, ProcessSpawn, ProcessKill, ProcessSuspend] (process_rules c)
     (set_rules_for [DirRead, DirCreate, DirDelete] (dir_rules c)
     (set_rules_for [FileRead, FileWrite, FileDelete] (file_rules c) a)))))"

text \<open>
  \<^verbatim>\<open>SecurityPlugin::new\<close>: the engines are those the configuration switches on; the flag
  \<^verbatim>\<open>audit_log_ready\<close> stands for an enabled log with a directory that could be opened.
\<close>

definition plugin_new :: "engines \<Rightarrow> plugin_config \<Rightarrow> plugin" where
  "plugin_new es c =
     (let acfg = \<lparr>cfg_enabled = pc_enabled c, approval_timeout_secs = pc_approval_timeout c,
                  audit_log_file_enabled = False, audit_log_dir = None, cfg_default_action = pc_default_action c\<rparr>
      in \<lparr>p_config = c, p_auditor = register_rules c (auditor_new acfg), p_engines = es,
          ssrf_guard = (if ssrf_enabled c
            then Some \<lparr>g_config = default_ssrf_config\<lparr>allowed_hosts := ssrf_allowed_hosts c\<rparr>, blocked_nets = [],
                       allowed_set = set (map to_lowercase (ssrf_allowed_hosts c))\<rparr>
            else None),
          p_audit_chain = (if audit_chain_enabled c then Some (chain_new \<lparr>max_events_per_segment = 100000\<rparr>) else None),
          audit_logger = (if audit_log_ready c then Some [] else None),
          p_enabled = pc_enabled c, config_path = None, guardian_failure_policy = [], guardian_mode = []\<rparr>)"

definition plugin_set_enabled :: "bool \<Rightarrow> plugin \<Rightarrow> plugin" where
  "plugin_set_enabled b p = p\<lparr>p_enabled := b\<rparr>"

datatype reload_error = NoConfigPath | ConfigNotFound | ConfigReadFailed | ConfigParseFailed | NotAnObject

text \<open>
  \<^verbatim>\<open>reload_config\<close>: the file is \<^verbatim>\<open>None\<close> when it does not exist; \<^verbatim>\<open>Inl ()\<close> stands for a failed read and
  \<^verbatim>\<open>parse_json\<close> for \<^verbatim>\<open>serde_json::from_str\<close>.
\<close>

definition json_bool_or :: "bool \<Rightarrow> json option \<Rightarrow> bool" where
  "json_bool_or d v = (case v of Some (JBool b) \<Rightarrow> b | _ \<Rightarrow> d)"

definition reload_config :: "(str \<Rightarrow> json option) \<Rightarrow> (unit + str) option \<Rightarrow> plugin \<Rightarrow> plugin \<times> (reload_error + unit)" where
  "reload_config parse_json content p =
     (case config_path p of
        None \<Rightarrow> (p, Inl NoConfigPath)
      | Some _ \<Rightarrow>
          (case content of
             None \<Rightarrow> (p, Inl ConfigNotFound)
           | Some (Inl _) \<Rightarrow> (p, Inl ConfigReadFailed)
           | Some (Inr data) \<Rightarrow>
               (case parse_json data of
                  None \<Rightarrow> (p, Inl ConfigParseFailed)
                | Some (JObject kvs) \<Rightarrow>
                    (let en = json_bool_or (pc_enabled (p_config p)) (map_of kvs ''enabled'');
                         da = (case map_of kvs ''default_action'' of
                                 Some (JString s) \<Rightarrow> s | _ \<Rightarrow> pc_default_action (p_config p))
                     in (p\<lparr>p_enabled := en,
                           p_auditor := register_rules (p_config p) (set_default_action da (p_auditor p))\<rparr>,
                         Inr ()))
                | Some _ \<Rightarrow> (p, Inl NotAnObject))))"

subsection \<open>Classification of tools\<close>

definition effective_tool_operation :: "tool_table \<Rightarrow> str \<Rightarrow> operation_type" where
  "effective_tool_operation t tool = (case tool_to_operation t tool of Some op \<Rightarrow> op | None \<Rightarrow> ProcessExec)"

definition is_critical_tool :: "tool_table \<Rightarrow> str \<Rightarrow> bool" where
  "is_critical_tool t tool =
     (case tool_to_operation t tool of Some op \<Rightarrow> danger_label (get_danger_level op) = ''CRITICAL'' | None \<Rightarrow> True)"

definition is_high_tool :: "tool_table \<Rightarrow> str \<Rightarrow> bool" where
  "is_high_tool t tool =
     (case tool_to_operation t tool of Some op \<Rightarrow> danger_label (get_danger_level op) = ''HIGH'' | None \<Rightarrow> False)"

definition tool_danger_level :: "tool_table \<Rightarrow> str \<Rightarrow> str" where
  "tool_danger_level t tool = danger_label (get_danger_level (effective_tool_operation t tool))"

definition set_guardian_failure_policy :: "str \<Rightarrow> plugin \<Rightarrow> plugin" where
  "set_guardian_failure_policy s p = p\<lparr>guardian_failure_policy := to_lowercase (trim s)\<rparr>"

definition set_guardian_mode :: "str \<Rightarrow> plugin \<Rightarrow> plugin" where
  "set_guardian_mode s p = p\<lparr>guardian_mode := to_lowercase (trim s)\<rparr>"

definition guardian_should_review_with_danger :: "(str \<Rightarrow> json option) \<Rightarrow> plugin \<Rightarrow> str \<Rightarrow> str \<Rightarrow> str \<Rightarrow> bool" where
  "guardian_should_review_with_danger parse_json p tool args_json dng =
     (let critical = (dng = ''CRITICAL''); mode = to_lowercase (trim (guardian_mode p)) in
      if mode = ''critical'' then critical
      else if mode = ''high'' then (critical \<or> dng = ''HIGH'') \<and> destructive_shaped parse_json tool args_json
      else False)"

definition guardian_should_review :: "(str \<Rightarrow> json option) \<Rightarrow> tool_table \<Rightarrow> plugin \<Rightarrow> str \<Rightarrow> str \<Rightarrow> bool" where
  "guardian_should_review parse_json t p tool args_json =
     guardian_should_review_with_danger parse_json p tool args_json (tool_danger_level t tool)"

subsection \<open>Layers\<close>

text \<open>
  The state of one call: the plugin, the reason of the script scan, the slot for the approval
  reference, and the file of remembered rules.
\<close>

record exec_state =
  xs_plugin :: plugin
  xs_force :: "str option"
  xs_slot :: "str option"
  xs_file :: "str option"

type_synonym exec_layer = "exec_state \<Rightarrow> exec_state \<times> deny_info option"

fun run_layers :: "('s \<Rightarrow> 's \<times> 'd option) list \<Rightarrow> 's \<Rightarrow> 's \<times> 'd option" where
  "run_layers [] s = (s, None)"
| "run_layers (f # fs) s = (case f s of (s', Some d) \<Rightarrow> (s', Some d) | (s', None) \<Rightarrow> run_layers fs s')"

text \<open>What a call reads: platform, world, clock of the chain, network, the tool table and the call.\<close>

record call_env =
  ce_platform :: platform
  ce_world :: world
  ce_chain :: chain_world
  ce_net :: net_lib
  ce_tools :: tool_table
  ce_call :: tool_invocation

definition call_op :: "call_env \<Rightarrow> operation_type" where
  "call_op env =
     (case metadata (ce_call env) ''override_op_type'' of
        None \<Rightarrow> effective_tool_operation (ce_tools env) (tool_name (ce_call env))
      | Some slug \<Rightarrow>
          (case operation_type_from_slug slug of
             Some op \<Rightarrow> op
           | None \<Rightarrow> effective_tool_operation (ce_tools env) (tool_name (ce_call env))))"

definition call_target :: "call_env \<Rightarrow> str" where
  "call_target env = extract_target (tool_name (ce_call env)) (args (ce_call env))"

definition is_launch :: "operation_type \<Rightarrow> bool" where
  "is_launch op \<longleftrightarrow> op = ProcessExec \<or> op = ProcessSpawn"

definition plugin_log :: "call_env \<Rightarrow> str \<Rightarrow> str \<Rightarrow> str \<Rightarrow> log_reason \<Rightarrow> str \<Rightarrow> exec_state \<Rightarrow> exec_state" where
  "plugin_log env dec tgt dng rsn pol s =
     s\<lparr>xs_plugin := (xs_plugin s)\<lparr>audit_logger := map_option
        (\<lambda>l. l @ [\<lparr>le_decision = dec, le_operation = op_slug (call_op env), le_user = user (ce_call env),
                   le_source = source (ce_call env), le_target = tgt, le_danger = dng,
                   le_reason = rsn, le_policy = pol\<rparr>])
        (audit_logger (xs_plugin s))\<rparr>\<rparr>"

definition layer_injection :: "call_env \<Rightarrow> exec_layer" where
  "layer_injection env s =
     (case injection_detector (p_engines (xs_plugin s)) of
        None \<Rightarrow> (s, None)
      | Some analyze \<Rightarrow>
          (let r = analyze (tool_name (ce_call env)) (args (ce_call env)) in
           if is_injection r
           then (plugin_log env ''denied'' (call_target env) (inj_level r)
                   (DenyReason (InjectionDetected (inj_score r) (inj_level r))) ''injection_detector'' s,
                 Some (mk_deny ''injection'' ''injection_detector'' (InjectionDetected (inj_score r) (inj_level r))))
           else (s, None)))"

definition layer_command :: "call_env \<Rightarrow> exec_layer" where
  "layer_command env s =
     (case command_guard (p_engines (xs_plugin s)) of
        None \<Rightarrow> (s, None)
      | Some check \<Rightarrow>
          if is_launch (call_op env) \<and> call_target env \<noteq> [] then
            (case check (call_target env) of
               Some e \<Rightarrow> (plugin_log env ''denied'' (call_target env) ''HIGH'' (DenyReason (CommandBlocked e)) ''command_guard'' s,
                          Some (mk_deny ''command'' ''command_guard'' (CommandBlocked e)))
             | None \<Rightarrow> (s, None))
          else (s, None))"

definition layer_preexec :: "call_env \<Rightarrow> exec_layer" where
  "layer_preexec env s =
     (case preexec (p_engines (xs_plugin s)) of
        None \<Rightarrow> (s, None)
      | Some scan \<Rightarrow>
          if is_launch (call_op env) \<and> call_target env \<noteq> [] then
            (case scan (call_target env) of
               Some r \<Rightarrow> ((plugin_log env ''warn'' (call_target env) ''HIGH'' (ScriptScan r) ''preexec_scan'' s)\<lparr>xs_force := Some r\<rparr>, None)
             | None \<Rightarrow> (s, None))
          else (s, None))"

definition merged_force :: "call_env \<Rightarrow> str option \<Rightarrow> str option" where
  "merged_force env pre =
     (let ovr = (case metadata (ce_call env) ''override_force_approval'' of
                   Some x \<Rightarrow> if trim x \<noteq> [] then Some (trim x) else None
                 | None \<Rightarrow> None)
      in case (pre, ovr) of (Some a, Some b) \<Rightarrow> Some (a @ ''; '' @ b) | (Some a, None) \<Rightarrow> Some a | (None, b) \<Rightarrow> b)"

definition call_request :: "call_env \<Rightarrow> str option \<Rightarrow> operation_request" where
  "call_request env pre =
     \<lparr>req_id = fresh_request_id (ce_world env), op_type = call_op env, danger = get_danger_level (call_op env),
      req_user = user (ce_call env), req_source = source (ce_call env), target = call_target env,
      req_timestamp = Some (now (ce_world env)), approver = None, approved_at = None, denied_reason = None,
      force_approval = merged_force env pre\<rparr>"

definition call_context :: "call_env \<Rightarrow> approval_context" where
  "call_context env =
     \<lparr>channel = source (ce_call env),
      chat_id = (case metadata (ce_call env) ''approval_chat_id'' of Some x \<Rightarrow> x | None \<Rightarrow> []),
      sender_id = (case metadata (ce_call env) ''approval_sender_id'' of Some x \<Rightarrow> x | None \<Rightarrow> [])\<rparr>"

definition layer_abac :: "call_env \<Rightarrow> exec_layer" where
  "layer_abac env s =
     (case request_permission_tracked (ce_platform env) (ce_world env) (call_request env (xs_force s))
             (Some (call_context env)) (p_auditor (xs_plugin s)) of
        (a', file', ok, err, ref) \<Rightarrow>
          (let s1 = s\<lparr>xs_plugin := (xs_plugin s)\<lparr>p_auditor := a'\<rparr>, xs_slot := ref, xs_file := file'\<rparr> in
           if ok then (s1, None)
           else
             (let why = (case err of Some m \<Rightarrow> AbacDenied m | None \<Rightarrow> AbacDeniedByPolicy) in
              (plugin_log env ''denied'' (call_target env) (danger_label (get_danger_level (call_op env)))
                 (DenyReason why) ''abac'' s1,
               Some (mk_deny ''abac'' ''abac'' why)))))"

definition credential_hit :: "(str \<Rightarrow> credential_result) \<Rightarrow> json \<Rightarrow> credential_result option" where
  "credential_hit scan a =
     (case a of
        JObject kvs \<Rightarrow>
          first_some (\<lambda>(k, v). case v of
             JString t \<Rightarrow>
               if length t > 10 \<and> cred_has_matches (scan t) \<and> cred_action (scan t) = ''block'' then Some (scan t) else None
           | _ \<Rightarrow> None) kvs
      | _ \<Rightarrow> None)"

definition layer_credential :: "call_env \<Rightarrow> exec_layer" where
  "layer_credential env s =
     (case credential_scanner (p_engines (xs_plugin s)) of
        None \<Rightarrow> (s, None)
      | Some scan \<Rightarrow>
          (case credential_hit scan (args (ce_call env)) of
             Some r \<Rightarrow> (plugin_log env ''denied'' (call_target env) ''CRITICAL'' (DenyReason (CredentialLeak (cred_summary r)))
                          ''credential_scanner'' s,
                        Some (mk_deny ''credential'' ''credential_scanner'' (CredentialLeak (cred_summary r))))
           | None \<Rightarrow> (s, None)))"

definition dlp_blocks :: "plugin_config \<Rightarrow> operation_type \<Rightarrow> dlp_result \<Rightarrow> bool" where
  "dlp_blocks c op r =
     (if should_block r \<and> (op = FileWrite \<or> op = DirCreate) \<and> dlp_inbound_action c \<noteq> ''block''
      then list_ex (\<lambda>m. effective_action m = ''block'' \<and> confidence m \<noteq> ConfLow) (dlp_matches r)
      else should_block r)"

definition layer_dlp :: "call_env \<Rightarrow> exec_layer" where
  "layer_dlp env s =
     (case dlp_engine (p_engines (xs_plugin s)) of
        None \<Rightarrow> (s, None)
      | Some scan \<Rightarrow>
          (let r = scan (tool_name (ce_call env)) (args (ce_call env)) in
           if \<not> dlp_has_matches r then (s, None)
           else if dlp_blocks (p_config (xs_plugin s)) (call_op env) r
           then (plugin_log env ''denied'' (call_target env) ''HIGH'' (DenyReason (DlpBlocked (dlp_summary r))) ''dlp_engine'' s,
                 Some (mk_deny ''dlp'' ''dlp_engine'' (DlpBlocked (dlp_summary r))))
           else (plugin_log env ''allowed'' (call_target env) ''MEDIUM'' (DlpNonBlocking (dlp_summary r)) ''dlp_engine'' s, None)))"

definition layer_ssrf :: "call_env \<Rightarrow> exec_layer" where
  "layer_ssrf env s =
     (case ssrf_guard (xs_plugin s) of
        None \<Rightarrow> (s, None)
      | Some g \<Rightarrow>
          (let url = extract_url (tool_name (ce_call env)) (args (ce_call env)) in
           if url = [] then (s, None)
           else (case validate_url (ce_net env) g url of
                   Inl e \<Rightarrow> (plugin_log env ''denied'' url ''HIGH'' (DenyReason (SsrfBlocked e)) ''ssrf_guard'' s,
                            Some (mk_deny ''ssrf'' ''ssrf_guard'' (SsrfBlocked e)))
                 | Inr _ \<Rightarrow> (s, None))))"

definition content_threat :: "scan_chain \<Rightarrow> json \<Rightarrow> str \<Rightarrow> (str \<times> str) option" where
  "content_threat c a key =
     (case json_get a key of
        Some v \<Rightarrow>
          (case json_as_str v of
             Some t \<Rightarrow> if t = [] then None else map_option (\<lambda>e. (key, e)) (scan_content c t)
           | None \<Rightarrow> None)
      | None \<Rightarrow> None)"

definition virus_threat :: "scan_chain \<Rightarrow> str \<Rightarrow> json \<Rightarrow> (str \<times> str) option" where
  "virus_threat c tool a =
     (if \<not> sc_active c then None
      else (case first_some (\<lambda>p. map_option (\<lambda>e. (p, e)) (scan_file c p)) (extract_paths c tool a) of
              Some hit \<Rightarrow> Some hit
            | None \<Rightarrow> first_some (content_threat c a) [''content'', ''data'', ''body'', ''html'']))"

definition layer_virus :: "call_env \<Rightarrow> exec_layer" where
  "layer_virus env s =
     (case scanner (p_engines (xs_plugin s)) of
        None \<Rightarrow> (s, None)
      | Some c \<Rightarrow>
          (case virus_threat c (tool_name (ce_call env)) (args (ce_call env)) of
             Some (what, engine) \<Rightarrow>
               (plugin_log env ''denied'' (call_target env) ''CRITICAL'' (DenyReason (ThreatDetected what engine))
                  ''virus_scanner'' s,
                Some (mk_deny ''virus'' ''virus_scanner'' (ThreatDetected what engine)))
           | None \<Rightarrow> (s, None)))"

text \<open>The last layer appends to the audit chain and logs; it never denies.\<close>

definition layer_audit :: "(str \<Rightarrow> str) \<Rightarrow> call_env \<Rightarrow> exec_layer" where
  "layer_audit H env s =
     (let p = xs_plugin s;
          s1 = s\<lparr>xs_plugin := p\<lparr>p_audit_chain := map_option
                 (\<lambda>c. fst (append_with_sign H (ce_chain env) (op_slug (call_op env)) (tool_name (ce_call env))
                        (user (ce_call env)) (source (ce_call env)) (call_target env) ''allowed''
                        ''passed all security layers'' None c))
                 (p_audit_chain p)\<rparr>\<rparr>
      in (if log_all_operations (p_config p)
          then plugin_log env ''allowed'' (call_target env) (danger_label (get_danger_level (call_op env)))
            PassedAllLayers ''pipeline'' s1
          else s1, None))"

definition guard_layers :: "call_env \<Rightarrow> exec_layer list" where
  "guard_layers env =
     [layer_injection env, layer_command env, layer_preexec env, layer_abac env, layer_credential env,
      layer_dlp env, layer_ssrf env, layer_virus env]"

definition execute_inner :: "(str \<Rightarrow> str) \<Rightarrow> call_env \<Rightarrow> exec_layer" where
  "execute_inner H env s =
     (if \<not> p_enabled (xs_plugin s) then (s, None)
      else run_layers (guard_layers env @ [layer_audit H env]) s)"

text \<open>\<^verbatim>\<open>execute_tracked\<close>: whether the call may run, the denial, and the approval reference.\<close>

definition execute_tracked ::
  "(str \<Rightarrow> str) \<Rightarrow> call_env \<Rightarrow> plugin \<Rightarrow> plugin \<times> bool \<times> deny_info option \<times> str option" where
  "execute_tracked H env p =
     (case execute_inner H env \<lparr>xs_plugin = p, xs_force = None, xs_slot = None, xs_file = rules_file (ce_world env)\<rparr> of
        (s', d) \<Rightarrow> (xs_plugin s', d = None, d, xs_slot s'))"

definition append_direct_audit_event ::
  "(str \<Rightarrow> str) \<Rightarrow> chain_world \<Rightarrow> str \<Rightarrow> str \<Rightarrow> str \<Rightarrow> str \<Rightarrow> str \<Rightarrow> str \<Rightarrow> str \<Rightarrow> plugin \<Rightarrow> plugin \<times> chain_event option" where
  "append_direct_audit_event H w op tool usr src tgt dec rsn p =
     (case p_audit_chain p of
        None \<Rightarrow> (p, None)
      | Some c \<Rightarrow>
          (case append_with_sign H w op tool usr src tgt dec rsn None c of
             (c', Inr e) \<Rightarrow> (p\<lparr>p_audit_chain := Some c'\<rparr>, Some e)
           | (c', Inl _) \<Rightarrow> (p\<lparr>p_audit_chain := Some c'\<rparr>, None)))"

subsection \<open>Sequences of layers\<close>

text \<open>
  The contract of a layer that leaves a part of the state alone, and what a sequence of such layers
  does: it keeps that part, and it lets a call through when every check holds of it.
\<close>

locale layers_frame =
  fixes fs :: "('s \<Rightarrow> 's \<times> 'd option) list" and part :: "'s \<Rightarrow> 'p"
  assumes keeps: "f \<in> set fs \<Longrightarrow> part (fst (f s)) = part s"
begin

lemma run_keeps: "part (fst (run_layers fs s)) = part s"
proof -
  have "set gs \<subseteq> set fs \<Longrightarrow> part (fst (run_layers gs s)) = part s" for gs
  proof (induction gs arbitrary: s)
    case (Cons f gs)
    then have "part (fst (f s)) = part s" by (simp add: keeps)
    with Cons show ?case by (cases "f s") (auto split: option.splits)
  qed simp
  then show ?thesis by simp
qed

lemma run_checks:
  assumes "list_all2 (\<lambda>f c. \<forall>s. snd (f s) = None \<longleftrightarrow> c (part s)) fs cs"
  shows "snd (run_layers fs s) = None \<longleftrightarrow> (\<forall>c \<in> set cs. c (part s))"
proof -
  have "list_all2 (\<lambda>f c. \<forall>s. snd (f s) = None \<longleftrightarrow> c (part s)) gs ds \<Longrightarrow> set gs \<subseteq> set fs \<Longrightarrow>
      snd (run_layers gs s) = None \<longleftrightarrow> (\<forall>c \<in> set ds. c (part s))" for gs ds
  proof (induction gs ds arbitrary: s rule: list_all2_induct)
    case (Cons f gs c ds)
    obtain s' r where f: "f s = (s', r)" by fastforce
    with Cons.prems keeps [of f s] have p: "part s' = part s" by simp
    from Cons.hyps(1) have c: "(snd (f t) = None) = c (part t)" for t by blast
    show ?case
    proof (cases r)
      case None
      with f c [of s] have "c (part s)" by simp
      with f None Cons.IH [of s'] Cons.prems p show ?thesis by simp
    next
      case (Some d)
      with f c [of s] have "\<not> c (part s)" by simp
      with f Some show ?thesis by simp
    qed
  qed simp
  from this [OF assms] show ?thesis by simp
qed

end

lemma run_layers_append:
  "run_layers (fs @ gs) s =
     (case run_layers fs s of (s', Some d) \<Rightarrow> (s', Some d) | (s', None) \<Rightarrow> run_layers gs s')"
  by (induction fs arbitrary: s) (auto split: prod.splits option.splits)

lemma plugin_log_simps [simp]:
  "xs_force (plugin_log env d t g r q s) = xs_force s"
  "xs_slot (plugin_log env d t g r q s) = xs_slot s"
  "xs_file (plugin_log env d t g r q s) = xs_file s"
  "p_config (xs_plugin (plugin_log env d t g r q s)) = p_config (xs_plugin s)"
  "p_auditor (xs_plugin (plugin_log env d t g r q s)) = p_auditor (xs_plugin s)"
  "p_engines (xs_plugin (plugin_log env d t g r q s)) = p_engines (xs_plugin s)"
  "ssrf_guard (xs_plugin (plugin_log env d t g r q s)) = ssrf_guard (xs_plugin s)"
  "p_audit_chain (xs_plugin (plugin_log env d t g r q s)) = p_audit_chain (xs_plugin s)"
  "p_enabled (xs_plugin (plugin_log env d t g r q s)) = p_enabled (xs_plugin s)"
  by (simp_all add: plugin_log_def)

lemmas layer_defs =
  layer_injection_def layer_command_def layer_preexec_def layer_abac_def layer_credential_def
  layer_dlp_def layer_ssrf_def layer_virus_def

text \<open>No guarding layer touches the audit chain.\<close>

interpretation keep_chain: layers_frame "guard_layers env" "\<lambda>s. p_audit_chain (xs_plugin s)" for env
  by unfold_locales
    (auto simp: guard_layers_def layer_defs Let_def split: option.splits prod.splits sum.splits)

subsection \<open>What the layers check\<close>

definition injection_clear :: "call_env \<Rightarrow> plugin \<Rightarrow> bool" where
  "injection_clear env p \<longleftrightarrow>
     (\<forall>analyze \<in> set_option (injection_detector (p_engines p)).
        \<not> is_injection (analyze (tool_name (ce_call env)) (args (ce_call env))))"

definition command_clear :: "call_env \<Rightarrow> plugin \<Rightarrow> bool" where
  "command_clear env p \<longleftrightarrow>
     (\<forall>check \<in> set_option (command_guard (p_engines p)).
        is_launch (call_op env) \<and> call_target env \<noteq> [] \<longrightarrow> check (call_target env) = None)"

definition script_reason :: "call_env \<Rightarrow> plugin \<Rightarrow> str option" where
  "script_reason env p =
     (if is_launch (call_op env) \<and> call_target env \<noteq> []
      then Option.bind (preexec (p_engines p)) (\<lambda>scan. scan (call_target env)) else None)"

definition credential_clear :: "call_env \<Rightarrow> plugin \<Rightarrow> bool" where
  "credential_clear env p \<longleftrightarrow>
     (\<forall>scan \<in> set_option (credential_scanner (p_engines p)). \<forall>kvs k t.
        args (ce_call env) = JObject kvs \<and> (k, JString t) \<in> set kvs \<and> 10 < length t \<longrightarrow>
        \<not> (cred_has_matches (scan t) \<and> cred_action (scan t) = ''block''))"

definition dlp_clear :: "call_env \<Rightarrow> plugin \<Rightarrow> bool" where
  "dlp_clear env p \<longleftrightarrow>
     (\<forall>scan \<in> set_option (dlp_engine (p_engines p)).
        let r = scan (tool_name (ce_call env)) (args (ce_call env))
        in \<not> (dlp_has_matches r \<and> dlp_blocks (p_config p) (call_op env) r))"

definition ssrf_clear :: "call_env \<Rightarrow> plugin \<Rightarrow> bool" where
  "ssrf_clear env p \<longleftrightarrow>
     (\<forall>g \<in> set_option (ssrf_guard p).
        let url = extract_url (tool_name (ce_call env)) (args (ce_call env))
        in url = [] \<or> \<not> isl (validate_url (ce_net env) g url))"

definition virus_clear :: "call_env \<Rightarrow> plugin \<Rightarrow> bool" where
  "virus_clear env p \<longleftrightarrow>
     (\<forall>c \<in> set_option (scanner (p_engines p)). sc_active c \<longrightarrow>
        (\<forall>f \<in> set (extract_paths c (tool_name (ce_call env)) (args (ce_call env))). scan_file c f = None) \<and>
        (\<forall>key \<in> {''content'', ''data'', ''body'', ''html''}. content_threat c (args (ce_call env)) key = None))"

text \<open>The answer of the auditor to the request the pipeline builds.\<close>

definition abac_answer :: "call_env \<Rightarrow> plugin \<Rightarrow> auditor \<times> str option \<times> permission" where
  "abac_answer env p =
     request_permission_tracked (ce_platform env) (ce_world env) (call_request env (script_reason env p))
       (Some (call_context env)) (p_auditor p)"

definition abac_permits :: "call_env \<Rightarrow> plugin \<Rightarrow> bool" where
  "abac_permits env p = fst (snd (snd (abac_answer env p)))"

text \<open>What the checks read of the state; only the auditor layer changes the auditor.\<close>

definition checked_part :: "exec_state \<Rightarrow> engines \<times> plugin_config \<times> guard option" where
  "checked_part s = (p_engines (xs_plugin s), p_config (xs_plugin s), ssrf_guard (xs_plugin s))"

interpretation before: layers_frame "[layer_injection env, layer_command env, layer_preexec env]"
    "\<lambda>s. (checked_part s, p_auditor (xs_plugin s), xs_slot s)" for env
  by unfold_locales
    (auto simp: layer_defs checked_part_def Let_def split: option.splits)

interpretation after: layers_frame "[layer_credential env, layer_dlp env, layer_ssrf env, layer_virus env]"
    "\<lambda>s. (checked_part s, xs_slot s)" for env
  by unfold_locales
    (auto simp: layer_defs checked_part_def Let_def split: option.splits sum.splits)

lemma credential_hit_None:
  "credential_hit scan a = None \<longleftrightarrow>
     (\<forall>kvs k t. a = JObject kvs \<and> (k, JString t) \<in> set kvs \<and> 10 < length t \<longrightarrow>
        \<not> (cred_has_matches (scan t) \<and> cred_action (scan t) = ''block''))"
  unfolding credential_hit_def
  by (cases a) (auto simp: first_some_None split: json.splits, (metis)?)

lemma virus_threat_None:
  "virus_threat c tool a = None \<longleftrightarrow> (sc_active c \<longrightarrow>
     (\<forall>f \<in> set (extract_paths c tool a). scan_file c f = None) \<and>
     (\<forall>key \<in> {''content'', ''data'', ''body'', ''html''}. content_threat c a key = None))"
  by (auto simp: virus_threat_def first_some_None split: option.splits dest!: first_some_Some)

lemma layer_verdicts:
  "snd (layer_injection env s) = None \<longleftrightarrow> injection_clear env (xs_plugin s)"
  "snd (layer_command env s) = None \<longleftrightarrow> command_clear env (xs_plugin s)"
  "snd (layer_preexec env s) = None"
  "snd (layer_credential env s) = None \<longleftrightarrow> credential_clear env (xs_plugin s)"
  "snd (layer_dlp env s) = None \<longleftrightarrow> dlp_clear env (xs_plugin s)"
  "snd (layer_ssrf env s) = None \<longleftrightarrow> ssrf_clear env (xs_plugin s)"
  "snd (layer_virus env s) = None \<longleftrightarrow> virus_clear env (xs_plugin s)"
  "snd (layer_audit H env s) = None"
  subgoal by (simp add: layer_injection_def injection_clear_def Let_def split: option.split)
  subgoal by (auto simp: layer_command_def command_clear_def split: option.split)
  subgoal by (simp add: layer_preexec_def split: option.split)
  subgoal unfolding layer_credential_def credential_clear_def credential_hit_None [symmetric]
    by (simp split: option.split)
  subgoal by (simp add: layer_dlp_def dlp_clear_def Let_def split: option.split)
  subgoal by (auto simp: layer_ssrf_def ssrf_clear_def Let_def split: option.split sum.split)
  subgoal unfolding layer_virus_def virus_clear_def virus_threat_None [symmetric]
    by (auto split: option.split)
  subgoal by (simp add: layer_audit_def Let_def)
  done

lemma abac_verdict:
  "snd (layer_abac env s) = None \<longleftrightarrow>
     fst (snd (snd (request_permission_tracked (ce_platform env) (ce_world env) (call_request env (xs_force s))
       (Some (call_context env)) (p_auditor (xs_plugin s)))))"
  by (auto simp: layer_abac_def Let_def split: prod.splits)

lemma run_layers_Cons_verdict:
  "snd (run_layers (f # fs) s) = None \<longleftrightarrow> snd (f s) = None \<and> snd (run_layers fs (fst (f s))) = None"
  by (cases "f s") (auto split: option.splits)

lemma run_layers_append_verdict:
  "snd (run_layers (fs @ gs) s) = None \<longleftrightarrow>
     snd (run_layers fs s) = None \<and> snd (run_layers gs (fst (run_layers fs s))) = None"
  by (cases "run_layers fs s") (auto simp: run_layers_append split: option.splits)

lemma layer_keeps_checked [simp]:
  "checked_part (fst (layer_injection env s)) = checked_part s"
  "checked_part (fst (layer_command env s)) = checked_part s"
  "checked_part (fst (layer_preexec env s)) = checked_part s"
  "checked_part (fst (layer_credential env s)) = checked_part s"
  "checked_part (fst (layer_dlp env s)) = checked_part s"
  "checked_part (fst (layer_ssrf env s)) = checked_part s"
  "checked_part (fst (layer_abac env s)) = checked_part s"
  using before.keeps [of _ env s] after.keeps [of _ env s]
  by (simp_all, simp add: layer_abac_def checked_part_def Let_def split: prod.splits)

lemma checked_part_checks:
  assumes "checked_part s = checked_part t"
  shows "injection_clear env (xs_plugin s) = injection_clear env (xs_plugin t)"
    "command_clear env (xs_plugin s) = command_clear env (xs_plugin t)"
    "credential_clear env (xs_plugin s) = credential_clear env (xs_plugin t)"
    "dlp_clear env (xs_plugin s) = dlp_clear env (xs_plugin t)"
    "ssrf_clear env (xs_plugin s) = ssrf_clear env (xs_plugin t)"
    "virus_clear env (xs_plugin s) = virus_clear env (xs_plugin t)"
    "script_reason env (xs_plugin s) = script_reason env (xs_plugin t)"
  using assms
  by (simp_all add: checked_part_def injection_clear_def command_clear_def credential_clear_def dlp_clear_def
      ssrf_clear_def virus_clear_def script_reason_def)

lemma before_verdict:
  "snd (run_layers [layer_injection env, layer_command env, layer_preexec env] s) = None \<longleftrightarrow>
     injection_clear env (xs_plugin s) \<and> command_clear env (xs_plugin s)"
  using checked_part_checks [OF layer_keeps_checked(1) [of env s]]
  by (auto simp: run_layers_Cons_verdict layer_verdicts simp del: run_layers.simps(2))

lemma after_verdict:
  "snd (run_layers [layer_credential env, layer_dlp env, layer_ssrf env, layer_virus env, layer_audit H env] s) = None \<longleftrightarrow>
     credential_clear env (xs_plugin s) \<and> dlp_clear env (xs_plugin s) \<and> ssrf_clear env (xs_plugin s) \<and>
     virus_clear env (xs_plugin s)"
proof -
  let ?s1 = "fst (layer_credential env s)"
  let ?s2 = "fst (layer_dlp env ?s1)"
  let ?s3 = "fst (layer_ssrf env ?s2)"
  have "checked_part ?s1 = checked_part s" "checked_part ?s2 = checked_part s" "checked_part ?s3 = checked_part s"
    by simp_all
  from this [THEN checked_part_checks(4)] this [THEN checked_part_checks(5)] this [THEN checked_part_checks(6)]
  show ?thesis by (auto simp: run_layers_Cons_verdict layer_verdicts simp del: run_layers.simps(2))
qed

lemma before_force:
  assumes "snd (run_layers [layer_injection env, layer_command env, layer_preexec env] s) = None"
    and "xs_force s = None"
  shows "xs_force (fst (run_layers [layer_injection env, layer_command env, layer_preexec env] s)) =
    script_reason env (xs_plugin s)"
  using assms
  by (auto simp: layer_injection_def layer_command_def layer_preexec_def script_reason_def Let_def
      split: option.splits if_splits)

lemma abac_simps [simp]:
  "xs_slot (fst (layer_abac env s)) = snd (snd (snd (snd (request_permission_tracked (ce_platform env)
     (ce_world env) (call_request env (xs_force s)) (Some (call_context env)) (p_auditor (xs_plugin s))))))"
  by (simp add: layer_abac_def Let_def split: prod.splits)

lemma guard_layers_split:
  "guard_layers env @ [layer_audit H env] =
     [layer_injection env, layer_command env, layer_preexec env] @ layer_abac env #
     [layer_credential env, layer_dlp env, layer_ssrf env, layer_virus env, layer_audit H env]"
  by (simp add: guard_layers_def)

definition call_state :: "call_env \<Rightarrow> plugin \<Rightarrow> exec_state" where
  "call_state env p = \<lparr>xs_plugin = p, xs_force = None, xs_slot = None, xs_file = rules_file (ce_world env)\<rparr>"

lemma execute_tracked_alt:
  "execute_tracked H env p =
     (let r = (if p_enabled p then run_layers (guard_layers env @ [layer_audit H env]) (call_state env p)
               else (call_state env p, None))
      in (xs_plugin (fst r), snd r = None, snd r, xs_slot (fst r)))"
  by (simp add: execute_tracked_def execute_inner_def call_state_def Let_def split: prod.splits)

lemma pipeline_run_verdict:
  "snd (run_layers (guard_layers env @ [layer_audit H env]) (call_state env p)) = None \<longleftrightarrow>
     injection_clear env p \<and> command_clear env p \<and> abac_permits env p \<and> credential_clear env p \<and>
     dlp_clear env p \<and> ssrf_clear env p \<and> virus_clear env p"
proof -
  let ?s = "call_state env p"
  let ?s1 = "fst (run_layers [layer_injection env, layer_command env, layer_preexec env] ?s)"
  let ?s2 = "fst (layer_abac env ?s1)"
  have p: "xs_plugin ?s = p" "xs_force ?s = None" by (simp_all add: call_state_def)
  have k: "checked_part ?s1 = checked_part ?s" "p_auditor (xs_plugin ?s1) = p_auditor p"
    using before.run_keeps [of env ?s] p by simp_all
  from k(1) have c: "checked_part ?s2 = checked_part ?s" unfolding layer_keeps_checked(7) .
  note C = checked_part_checks [OF c, unfolded p(1)]
  show ?thesis
  proof (cases "injection_clear env p \<and> command_clear env p")
    case True
    then have "xs_force ?s1 = script_reason env p"
      using before_force [OF _ p(2)] before_verdict [of env ?s] p(1) by simp
    then have "snd (layer_abac env ?s1) = None \<longleftrightarrow> abac_permits env p"
      unfolding abac_verdict abac_permits_def abac_answer_def k(2) by simp
    then show ?thesis
      unfolding guard_layers_split run_layers_append_verdict before_verdict run_layers_Cons_verdict [of "layer_abac env"]
        after_verdict C p(1) using True by blast
  next
    case False
    then show ?thesis
      unfolding guard_layers_split run_layers_append_verdict before_verdict p(1) by blast
  qed
qed

subsection \<open>Denials\<close>

text \<open>
  A sequence of layers each of which only extends the state in the sense of a transitive relation and
  establishes a postcondition when it denies, does the same as a whole.
\<close>

locale layers_denial =
  fixes fs :: "('s \<Rightarrow> 's \<times> 'd option) list" and ext :: "'s \<Rightarrow> 's \<Rightarrow> bool" and post :: "'d \<Rightarrow> 's \<Rightarrow> bool"
  assumes ext_refl: "ext s s" and ext_trans: "ext s t \<Longrightarrow> ext t u \<Longrightarrow> ext s u"
    and layer_ext: "f \<in> set fs \<Longrightarrow> ext s (fst (f s))"
    and layer_post: "f \<in> set fs \<Longrightarrow> f s = (t, Some d) \<Longrightarrow> post d t"
begin

lemma run_ext: "ext s (fst (run_layers fs s))"
proof -
  have "set gs \<subseteq> set fs \<Longrightarrow> ext s (fst (run_layers gs s))" for gs
  proof (induction gs arbitrary: s)
    case (Cons f gs)
    then have "ext s (fst (f s))" by (simp add: layer_ext)
    with Cons ext_trans show ?case by (cases "f s") (auto split: option.splits)
  qed (simp add: ext_refl)
  then show ?thesis by simp
qed

lemma run_post: "run_layers fs s = (t, Some d) \<Longrightarrow> post d t"
proof -
  have "set gs \<subseteq> set fs \<Longrightarrow> run_layers gs s = (t, Some d) \<Longrightarrow> post d t" for gs
  proof (induction gs arbitrary: s)
    case (Cons f gs)
    then show ?case using layer_post [of f s t d] by (cases "f s") (auto split: option.splits)
  qed simp
  then show "run_layers fs s = (t, Some d) \<Longrightarrow> post d t" by blast
qed

end

definition log_extends :: "exec_state \<Rightarrow> exec_state \<Rightarrow> bool" where
  "log_extends s t \<longleftrightarrow>
     rel_option prefix (audit_logger (xs_plugin s)) (audit_logger (xs_plugin t))"

definition denial_recorded :: "deny_info \<Rightarrow> exec_state \<Rightarrow> bool" where
  "denial_recorded d s \<longleftrightarrow>
     layer d \<in> {''injection'', ''command'', ''abac'', ''credential'', ''dlp'', ''ssrf'', ''virus''} \<and>
     d_suggestion d = layer_suggestion (layer d) \<and> d_suggestion d \<noteq> None \<and>
     (\<forall>l. audit_logger (xs_plugin s) = Some l \<longrightarrow> l \<noteq> [] \<and> le_decision (last l) = ''denied'' \<and>
        le_policy (last l) = d_policy d \<and> le_reason (last l) = DenyReason (summary d))"

lemma log_extends_log [simp]: "log_extends s (plugin_log env dc t g r q s)"
  by (cases "audit_logger (xs_plugin s)") (simp_all add: log_extends_def plugin_log_def)

lemma log_extends_refl [simp]: "log_extends s s"
  by (simp add: log_extends_def option.rel_refl)

lemma denial_recorded_log [simp]:
  "denial_recorded (mk_deny l q y) (plugin_log env ''denied'' t g (DenyReason y) q s) \<longleftrightarrow>
     l \<in> {''injection'', ''command'', ''abac'', ''credential'', ''dlp'', ''ssrf'', ''virus''}"
proof -
  have s: "layer_suggestion l \<noteq> None \<longleftrightarrow>
      l \<in> {''injection'', ''command'', ''abac'', ''credential'', ''dlp'', ''ssrf'', ''virus''}"
    by (simp add: layer_suggestion_def)
  show ?thesis
    by (cases "audit_logger (xs_plugin s)") (simp_all add: denial_recorded_def mk_deny_def plugin_log_def s [simplified])
qed

lemma log_extends_upd [simp]:
  "log_extends s (t\<lparr>xs_force := f\<rparr>) = log_extends s t"
  "log_extends s (t\<lparr>xs_slot := sl\<rparr>) = log_extends s t"
  by (simp_all add: log_extends_def)

lemma log_extends_abac: "log_extends s (fst (layer_abac env s))"
proof -
  have "log_extends s t \<Longrightarrow> log_extends s (plugin_log env dc tg g r q t)" for t dc tg g r q
    by (cases "audit_logger (xs_plugin s)"; cases "audit_logger (xs_plugin t)")
      (simp_all add: log_extends_def plugin_log_def)
  then show ?thesis
    by (auto simp: layer_abac_def Let_def log_extends_def option.rel_refl split: prod.splits)
qed

interpretation denials: layers_denial "guard_layers env" log_extends denial_recorded for env
proof
  show "log_extends s u" if "log_extends s t" "log_extends t u" for s t u
    using that unfolding log_extends_def
    by (auto elim!: option.rel_cases intro: prefix_order.trans)
next
  show "log_extends s (fst (f s))" if "f \<in> set (guard_layers env)" for f env s
    using that unfolding guard_layers_def
    by (auto simp: layer_injection_def layer_command_def layer_preexec_def layer_credential_def layer_dlp_def
        layer_ssrf_def layer_virus_def log_extends_abac Let_def split: option.splits sum.splits)
next
  show "denial_recorded d t" if "f \<in> set (guard_layers env)" "f s = (t, Some d)" for f env s t d
    using that unfolding guard_layers_def
    by (auto simp: layer_defs Let_def split: option.splits sum.splits prod.splits if_splits)
qed simp

lemma run_pipeline:
  "run_layers (guard_layers env @ [layer_audit H env]) s =
     (case run_layers (guard_layers env) s of
        (t, Some d) \<Rightarrow> (t, Some d) | (t, None) \<Rightarrow> layer_audit H env t)"
  by (simp add: run_layers_append layer_audit_def Let_def split: prod.splits option.splits)

lemma execute_slot:
  assumes "p_enabled p"
  shows "snd (snd (snd (execute_tracked H env p))) =
    (if injection_clear env p \<and> command_clear env p then snd (snd (snd (snd (abac_answer env p)))) else None)"
proof -
  let ?s = "call_state env p"
  let ?r = "run_layers [layer_injection env, layer_command env, layer_preexec env] ?s"
  have p: "xs_plugin ?s = p" "xs_force ?s = None" "xs_slot ?s = None" by (simp_all add: call_state_def)
  have k: "p_auditor (xs_plugin (fst ?r)) = p_auditor p" "xs_slot (fst ?r) = None"
    using before.run_keeps [of env ?s] p by simp_all
  have a: "xs_slot (fst (layer_audit H env t)) = xs_slot t" for t by (simp add: layer_audit_def Let_def)
  have post: "xs_slot (fst (run_layers ([layer_credential env, layer_dlp env, layer_ssrf env, layer_virus env] @
      [layer_audit H env]) t)) = xs_slot t" for t
    using after.run_keeps [of env t] a unfolding run_layers_append
    by (cases "run_layers [layer_credential env, layer_dlp env, layer_ssrf env, layer_virus env] t")
      (simp add: layer_audit_def Let_def split: option.split)
  show ?thesis
  proof (cases "injection_clear env p \<and> command_clear env p")
    case True
    then have n: "snd ?r = None" using before_verdict [of env ?s] p(1) by simp
    have f: "xs_force (fst ?r) = script_reason env p" using before_force [OF n p(2)] p(1) by simp
    obtain t where r: "?r = (t, None)" using n by (metis prod.collapse)
    obtain u d where u: "layer_abac env t = (u, d)" by fastforce
    have "xs_slot u = snd (snd (snd (snd (abac_answer env p))))"
      using abac_simps [of env t] u k(1) f r unfolding abac_answer_def by simp
    then show ?thesis
      unfolding execute_tracked_alt guard_layers_split run_layers_append [of _ "layer_abac env # _"] r
      using True assms post [of u] by (cases d) (simp_all add: u Let_def del: run_layers.simps(2) add: run_layers.simps(2) [of "layer_abac env"])
  next
    case False
    then obtain t d where r: "?r = (t, Some d)"
      using before_verdict [of env ?s] p(1) by (cases ?r) auto
    then show ?thesis
      unfolding execute_tracked_alt guard_layers_split run_layers_append [of _ "layer_abac env # _"] r
      using False assms k(2) [unfolded r] by (auto simp: Let_def)
  qed
qed

subsection \<open>Properties\<close>

text \<open>
  C1: the pipeline is the conjunction of its layers.  With the pipeline on, a call may run exactly when
  the injection detector does not flag it, the command guard accepts the command line, the auditor
  grants the request that carries the reason of the script scan, no string argument holds a credential
  to block, the DLP engine does not block it, the SSRF guard accepts its URL and no scanned path or
  content is infected; each check reads the state the call started with.  With the pipeline off every
  call may run.
\<close>

theorem pipeline_verdict:
  "fst (snd (execute_tracked H env p)) =
     (if p_enabled p
      then injection_clear env p \<and> command_clear env p \<and> abac_permits env p \<and> credential_clear env p \<and>
           dlp_clear env p \<and> ssrf_clear env p \<and> virus_clear env p
      else True)"
  by (simp add: execute_tracked_alt pipeline_run_verdict Let_def)

text \<open>
  The audit chain records the allowed calls and nothing else.  A call that passes appends one event
  with its operation, tool, user, source and target and the decision allowed; a denied call, and a call
  while the pipeline is off, leave the chain as it was.
\<close>

theorem chain_records_allowed_calls:
  "p_audit_chain (fst (execute_tracked H env p)) =
     (if p_enabled p \<and> fst (snd (execute_tracked H env p))
      then map_option (\<lambda>c. fst (append_with_sign H (ce_chain env) (op_slug (call_op env)) (tool_name (ce_call env))
             (user (ce_call env)) (source (ce_call env)) (call_target env) ''allowed''
             ''passed all security layers'' None c)) (p_audit_chain p)
      else p_audit_chain p)"
proof -
  obtain t d where r: "run_layers (guard_layers env) (call_state env p) = (t, d)" by fastforce
  have "p_audit_chain (xs_plugin t) = p_audit_chain p"
    using keep_chain.run_keeps [of env "call_state env p"] r by (simp add: call_state_def)
  with r show ?thesis
    by (cases d) (simp_all add: execute_tracked_alt run_pipeline layer_audit_def call_state_def Let_def)
qed

text \<open>
  A denied call is explained and logged.  The denial names one of the seven guarding layers and
  carries the advice of that layer, the lines that were in the text log stay, and the last line is the
  denial with the same policy and reason.
\<close>

theorem denied_call_is_logged:
  assumes "execute_tracked H env p = (p', False, d, ref)"
  shows "\<exists>info. d = Some info \<and>
    layer info \<in> {''injection'', ''command'', ''abac'', ''credential'', ''dlp'', ''ssrf'', ''virus''} \<and>
    d_suggestion info = layer_suggestion (layer info) \<and> d_suggestion info \<noteq> None \<and>
    rel_option prefix (audit_logger p) (audit_logger p') \<and>
    (\<forall>l. audit_logger p' = Some l \<longrightarrow> l \<noteq> [] \<and> le_decision (last l) = ''denied'' \<and>
       le_policy (last l) = d_policy info \<and> le_reason (last l) = DenyReason (summary info))"
proof -
  let ?run = "run_layers (guard_layers env) (call_state env p)"
  obtain t r where run: "?run = (t, r)" by fastforce
  from assms have "p_enabled p" by (auto simp: execute_tracked_alt Let_def split: if_splits)
  with assms run obtain info where i: "r = Some info" "d = Some info" "p' = xs_plugin t"
    by (cases r) (auto simp: execute_tracked_alt run_pipeline layer_audit_def Let_def)
  have "log_extends (call_state env p) t" using denials.run_ext [of "call_state env p" env] run by simp
  then have "rel_option prefix (audit_logger p) (audit_logger p')"
    by (simp add: log_extends_def call_state_def i(3))
  moreover have "denial_recorded info t" using denials.run_post [of env "call_state env p" t info] run i(1) by simp
  ultimately show ?thesis unfolding i denial_recorded_def by blast
qed

definition no_engines :: engines where
  "no_engines = \<lparr>injection_detector = None, command_guard = None, preexec = None, credential_scanner = None,
     dlp_engine = None, scanner = None\<rparr>"

definition example_plugin_config :: "bool \<Rightarrow> plugin_config" where
  "example_plugin_config on = \<lparr>pc_enabled = on, dlp_inbound_action = '''', pc_default_action = ''deny'',
     pc_approval_timeout = 300, log_all_operations = True, ssrf_enabled = True, ssrf_allowed_hosts = [],
     audit_chain_enabled = False, audit_log_ready = True, file_rules = [], dir_rules = [],
     process_rules = [\<lparr>pattern = ''ls *'', action = ''allow'', comment = ''''\<rparr>], network_rules = [],
     hardware_rules = [], registry_rules = []\<rparr>"

definition example_env :: "str \<Rightarrow> str \<Rightarrow> call_env" where
  "example_env tool cmd = \<lparr>ce_platform = example_platform, ce_world = example_world,
     ce_chain = \<lparr>cw_now = ''t'', cw_id = ''e1'', cw_write_ok = True\<rparr>, ce_net = example_net, ce_tools = Map.empty,
     ce_call = \<lparr>tool_name = tool, args = JObject [(''command'', JString cmd)], user = ''u'', source = ''web'',
                metadata = Map.empty\<rparr>\<rparr>"

theorem denied_call_is_logged_witness:
  "\<exists>p' info ref. execute_tracked (\<lambda>x. x) (example_env ''exec'' ''curl x'')
     (plugin_new no_engines (example_plugin_config True)) = (p', False, Some info, ref) \<and>
     d_suggestion info \<noteq> None"
proof -
  let ?x = "execute_tracked (\<lambda>x. x) (example_env ''exec'' ''curl x'') (plugin_new no_engines (example_plugin_config True))"
  obtain p' ok d ref where x: "?x = (p', ok, d, ref)" by (metis prod_cases4)
  have "fst (snd ?x) = False" by code_simp
  with x have "?x = (p', False, d, ref)" by simp
  with denied_call_is_logged [OF this] show ?thesis by auto
qed



text \<open>
  An approval reference means a person approved this very request.  When a call returns a
  reference, it is the id of the request sent to the approval manager, the manager was running and
  answered with an approval, and unattended approval was off.
\<close>

theorem approval_reference_is_human:
  assumes "execute_tracked H env p = (p', ok, d, Some i)"
  shows "p_enabled p \<and> i = fresh_request_id (ce_world env) \<and> \<not> approval_auto_enabled (p_auditor p) \<and>
    (\<exists>mgr reason v. approval_mgr (p_auditor p) = Some mgr \<and> am_running mgr \<and>
       am_ask mgr i (op_slug (call_op env)) (call_target env) (danger_label (get_danger_level (call_op env))) reason
         (approval_timeout_secs (config (p_auditor p))) (Some (call_context env)) = Inr v \<and> v_approved v)"
proof -
  let ?req = "call_request env (script_reason env p)"
  from assms have en: "p_enabled p" by (auto simp: execute_tracked_alt call_state_def Let_def split: if_splits)
  from execute_slot [OF en, of H env] assms have ref: "snd (snd (snd (snd (abac_answer env p)))) = Some i"
    by (simp split: if_splits)
  obtain a' f ok' err where r: "abac_answer env p = (a', f, ok', err, Some i)"
    using ref by (metis prod.collapse)
  have "enabled (p_auditor p)"
    using r unfolding abac_answer_def by (auto simp: request_permission_tracked_def split: if_splits)
  from request_sources [OF this r [unfolded abac_answer_def]]
  have "i = req_id ?req" "\<not> approval_auto_enabled (p_auditor p)"
    "\<exists>x. human_approves (p_auditor p) ?req x (Some (call_context env))"
    by blast+
  with en show ?thesis unfolding human_approves_def by (auto simp: call_request_def)
qed

theorem approval_reference_is_human_witness:
  "approval_mgr (set_approval_manager yes_manager
     (set_default_action ''ask'' (p_auditor (plugin_new no_engines (example_plugin_config True))))) \<noteq> None"
proof -
  let ?p = "plugin_new no_engines (example_plugin_config True)"
  let ?q = "?p\<lparr>p_auditor := set_approval_manager yes_manager (set_default_action ''ask'' (p_auditor ?p))\<rparr>"
  let ?x = "execute_tracked (\<lambda>x. x) (example_env ''exec'' ''curl x'') ?q"
  have "snd (snd (snd ?x)) = Some ''r1''" by code_simp
  then obtain p' ok d where "?x = (p', ok, d, Some ''r1'')" by (metis prod.collapse)
  from approval_reference_is_human [OF this] show ?thesis by auto
qed

text \<open>
  Switching a disabled pipeline on does not switch the auditor on.  A plugin built from a
  configuration that is off has its auditor off; neither reloading a configuration that is on nor
  setting the pipeline on changes that, so from then on the auditor grants every request, whatever
  the rules say.
\<close>

theorem reload_leaves_auditor_off:
  assumes "\<not> pc_enabled c" and "p = (plugin_new es c)\<lparr>config_path := cpath\<rparr>"
    and "reload_config parse content p = (q, Inr ())" and "q' = plugin_set_enabled True q"
  shows "p_enabled q' \<and> abac_permits env q \<and> abac_permits env q' \<and>
    (\<forall>kvs data. content = Some (Inr data) \<and> parse data = Some (JObject kvs) \<and>
       map_of kvs ''enabled'' = Some (JBool True) \<longrightarrow> p_enabled q)"
proof -
  have "enabled (fold (\<lambda>op. set_rules op rs) ops a) = enabled a" for ops rs and a :: auditor
    by (induction ops arbitrary: a) (simp_all add: set_rules_def)
  then have "enabled (set_rules_for ops rs a) = enabled a" for ops rs and a :: auditor
    by (simp add: set_rules_for_def)
  then have reg: "enabled (register_rules c' a) = enabled a" for c' a
    unfolding register_rules_def by simp
  have off: "\<not> enabled (p_auditor p)"
    using assms(1) by (simp add: assms(2) plugin_new_def reg auditor_new_def Let_def)
  obtain da en where q: "q = p\<lparr>p_enabled := en,
      p_auditor := register_rules (p_config p) (set_default_action da (p_auditor p))\<rparr>"
    using assms(3) by (auto simp: reload_config_def Let_def split: option.splits sum.splits json.splits)
  then have "\<not> enabled (p_auditor q)" using off by (simp add: reg set_default_action_def)
  then have "abac_permits env q" "abac_permits env q'"
    by (simp_all add: abac_permits_def abac_answer_def request_permission_tracked_def assms(4) plugin_set_enabled_def)
  moreover have "p_enabled q'" by (simp add: assms(4) plugin_set_enabled_def)
  moreover have "p_enabled q" if "content = Some (Inr data)" "parse data = Some (JObject kvs)"
    "map_of kvs ''enabled'' = Some (JBool True)" for kvs data
    using assms(3) that by (auto simp: reload_config_def json_bool_or_def Let_def split: option.splits)
  ultimately show ?thesis by blast
qed

theorem reload_leaves_auditor_off_witness:
  "\<exists>q. reload_config (\<lambda>_. Some (JObject [(''enabled'', JBool True)])) (Some (Inr ''x''))
     ((plugin_new no_engines (example_plugin_config False))\<lparr>config_path := Some ''c.json''\<rparr>) = (q, Inr ()) \<and>
     p_enabled q \<and> abac_permits (example_env ''exec'' ''rm -rf x'') q"
proof -
  let ?p = "(plugin_new no_engines (example_plugin_config False))\<lparr>config_path := Some ''c.json''\<rparr>"
  let ?r = "reload_config (\<lambda>_. Some (JObject [(''enabled'', JBool True)])) (Some (Inr ''x'')) ?p"
  have ok: "?r = (fst ?r, Inr ())" by (simp add: reload_config_def Let_def)
  have off: "\<not> pc_enabled (example_plugin_config False)" by (simp add: example_plugin_config_def)
  from reload_leaves_auditor_off [OF off refl ok refl] ok show ?thesis by fastforce
qed

end
