(* ===== verification/Merkle.thy ===== *)
theory Merkle
  imports Prelude
begin

text \<open>
  The Merkle tree of the audit log, crates/nemesis-security/src/merkle.rs.  SHA-256 with hexadecimal
  output (the \<^verbatim>\<open>sha2\<close> crate) is the parameter H; hashes and data are texts.  The lemmas show that the
  proofs the tree produces verify, and that a proof binds the leaf unless two different texts with the
  same hash are at hand; they also show what the encoding does not rule out.
\<close>

subsection \<open>Tree and proofs\<close>

type_synonym hash_fun = "str \<Rightarrow> str"

definition sha256_pair_hex :: "hash_fun \<Rightarrow> str \<Rightarrow> str \<Rightarrow> str" where
  "sha256_pair_hex H a b = H (a @ b)"

record proof_step =
  ps_hash :: str
  direction :: str

record merkle_tree =
  leaves :: "str list"
  root :: str

definition merkle_new :: "hash_fun \<Rightarrow> merkle_tree" where
  "merkle_new H = \<lparr>leaves = [], root = H []\<rparr>"

text \<open>One round of \<^verbatim>\<open>rebuild_root\<close> and the loop over the levels.\<close>

fun next_level :: "hash_fun \<Rightarrow> str list \<Rightarrow> str list" where
  "next_level H [] = []"
| "next_level H [x] = [x]"
| "next_level H (x # y # r) = sha256_pair_hex H x y # next_level H r"

lemma length_next_level [simp]: "length (next_level H xs) = (length xs + 1) div 2"
  by (induction H xs rule: next_level.induct) auto

function root_loop :: "hash_fun \<Rightarrow> str list \<Rightarrow> str" where
  "root_loop H level = (if length level > 1 then root_loop H (next_level H level) else hd level)"
  by pat_completeness auto
termination
  by (relation "measure (\<lambda>(H, l). length l)") auto

declare root_loop.simps [simp del]

lemma root_loop_single [simp]: "root_loop H [a] = a"
  by (simp add: root_loop.simps)

definition rebuild_root :: "hash_fun \<Rightarrow> str list \<Rightarrow> str" where
  "rebuild_root H ls = (if ls = [] then H [] else root_loop H ls)"

definition add_leaf :: "hash_fun \<Rightarrow> str \<Rightarrow> merkle_tree \<Rightarrow> merkle_tree \<times> str" where
  "add_leaf H data t =
     (let leaf_hash = H data; ls = leaves t @ [leaf_hash]
      in (\<lparr>leaves = ls, root = rebuild_root H ls\<rparr>, leaf_hash))"

definition merkle_size :: "merkle_tree \<Rightarrow> nat" where
  "merkle_size t = length (leaves t)"

text \<open>
  The inner loop of \<^verbatim>\<open>build_proof\<close>: the position i, and the variables \<^verbatim>\<open>steps\<close>, \<^verbatim>\<open>next\<close> and \<^verbatim>\<open>next_idx\<close>.
\<close>

fun proof_pass :: "hash_fun \<Rightarrow> nat \<Rightarrow> nat \<Rightarrow> proof_step list \<times> str list \<times> nat \<Rightarrow> str list \<Rightarrow>
    proof_step list \<times> str list \<times> nat" where
  "proof_pass H idx i acc [] = acc"
| "proof_pass H idx i (steps, nxt, next_idx) [x] =
     (steps, nxt @ [x], if i = idx then length nxt else next_idx)"
| "proof_pass H idx i (steps, nxt, next_idx) (x # y # r) =
     proof_pass H idx (i + 2)
       (if i = idx then (steps @ [\<lparr>ps_hash = y, direction = ''right''\<rparr>], nxt @ [sha256_pair_hex H x y], length nxt)
        else if i + 1 = idx then (steps @ [\<lparr>ps_hash = x, direction = ''left''\<rparr>], nxt @ [sha256_pair_hex H x y], length nxt)
        else (steps, nxt @ [sha256_pair_hex H x y], next_idx)) r"

text \<open>The number of rounds is bounded by the number of leaves, so the loop is given that much fuel.\<close>

fun proof_loop :: "hash_fun \<Rightarrow> nat \<Rightarrow> proof_step list \<Rightarrow> nat \<Rightarrow> str list \<Rightarrow> proof_step list option" where
  "proof_loop H 0 steps idx level = (if length level > 1 then None else Some steps)"
| "proof_loop H (Suc n) steps idx level =
     (if length level > 1
      then (case proof_pass H idx 0 (steps, [], 0) level of
              (steps', nxt, next_idx) \<Rightarrow> proof_loop H n steps' next_idx nxt)
      else Some steps)"

datatype merkle_error = IndexOutOfRange nat nat | ProofLoop

definition build_proof :: "hash_fun \<Rightarrow> str list \<Rightarrow> nat \<Rightarrow> merkle_error + proof_step list" where
  "build_proof H ls i =
     (case proof_loop H (length ls) [] i ls of Some steps \<Rightarrow> Inr steps | None \<Rightarrow> Inl ProofLoop)"

definition merkle_proof :: "hash_fun \<Rightarrow> merkle_tree \<Rightarrow> nat \<Rightarrow> merkle_error + proof_step list" where
  "merkle_proof H t i =
     (if i \<ge> length (leaves t) then Inl (IndexOutOfRange i (length (leaves t)))
      else if length (leaves t) = 1 then Inr []
      else build_proof H (leaves t) i)"

fun verify_from_hash :: "hash_fun \<Rightarrow> str \<Rightarrow> proof_step list \<Rightarrow> str \<Rightarrow> bool" where
  "verify_from_hash H current [] rt = (current = rt)"
| "verify_from_hash H current (step # steps) rt =
     (if direction step = ''left'' then verify_from_hash H (sha256_pair_hex H (ps_hash step) current) steps rt
      else if direction step = ''right'' then verify_from_hash H (sha256_pair_hex H current (ps_hash step)) steps rt
      else False)"

definition merkle_verify :: "hash_fun \<Rightarrow> merkle_tree \<Rightarrow> str \<Rightarrow> proof_step list \<Rightarrow> bool" where
  "merkle_verify H t leaf_data steps = verify_from_hash H (H leaf_data) steps (root t)"

subsection \<open>Lemmas\<close>

text \<open>The steps a round contributes for an index: its neighbour, if it has one.\<close>

definition level_step :: "str list \<Rightarrow> nat \<Rightarrow> proof_step list" where
  "level_step level j =
     (if even j then (if Suc j < length level then [\<lparr>ps_hash = level ! Suc j, direction = ''right''\<rparr>] else [])
      else [\<lparr>ps_hash = level ! (j - 1), direction = ''left''\<rparr>])"

lemma proof_pass_done:
  "idx < i \<Longrightarrow> proof_pass H idx i (steps, nxt, ni) level = (steps, nxt @ next_level H level, ni)"
  by (induction H level arbitrary: i nxt rule: next_level.induct) auto

lemma proof_pass_eq:
  "i \<le> idx \<Longrightarrow> idx - i < length level \<Longrightarrow>
     proof_pass H idx i (steps, nxt, ni) level =
       (steps @ level_step level (idx - i), nxt @ next_level H level, length nxt + (idx - i) div 2)"
proof (induction H level arbitrary: i nxt rule: next_level.induct)
  case (2 H x)
  then show ?case by (simp add: level_step_def)
next
  case (3 H x y r)
  consider "i = idx" | "i + 1 = idx" | "i + 2 \<le> idx" using "3.prems"(1) by linarith
  then show ?case
  proof cases
    case 1
    then show ?thesis by (simp add: proof_pass_done level_step_def)
  next
    case 2
    then have "idx - i = 1" by simp
    with 2 show ?thesis by (simp add: proof_pass_done level_step_def)
  next
    case ge: 3
    then obtain k where "idx = i + 2 + k" using nat_le_iff_add by blast
    then obtain j where j: "idx - i = Suc (Suc j)" "idx - (i + 2) = j" by simp
    have "level_step (x # y # r) (Suc (Suc j)) = level_step r j"
      by (cases j) (simp_all add: level_step_def)
    with ge "3.prems" "3.IH" [of "i + 2" "nxt @ [sha256_pair_hex H x y]"] j show ?thesis by simp
  qed
qed simp

lemma next_level_nth:
  "j < length level \<Longrightarrow> next_level H level ! (j div 2) =
     (if even j then (if Suc j < length level then sha256_pair_hex H (level ! j) (level ! Suc j) else level ! j)
      else sha256_pair_hex H (level ! (j - 1)) (level ! j))"
proof (induction H level arbitrary: j rule: next_level.induct)
  case (3 H x y r)
  consider "j = 0" | "j = 1" | k where "j = Suc (Suc k)" by (cases j rule: nat.exhaust; metis One_nat_def old.nat.exhaust)
  then show ?case
  proof cases
    case 3
    with "3.prems" "3.IH" [of k] show ?thesis by (cases k) auto
  qed simp_all
qed simp_all

lemma verify_level_step:
  assumes "j < length level"
  shows "verify_from_hash H (level ! j) (level_step level j @ steps) rt =
    verify_from_hash H (next_level H level ! (j div 2)) steps rt"
  using assms by (auto simp: level_step_def next_level_nth)

lemma proof_loop_verifies:
  "idx < length level \<Longrightarrow> length level \<le> n + 1 \<Longrightarrow>
     \<exists>steps'. proof_loop H n steps idx level = Some (steps @ steps') \<and>
       verify_from_hash H (level ! idx) steps' (root_loop H level)"
proof (induction n arbitrary: steps idx level)
  case 0
  then have "idx = 0" "length level = 1" by auto
  then show ?case by (cases level) auto
next
  case (Suc n)
  show ?case
  proof (cases "length level > 1")
    case False
    with Suc.prems have "idx = 0" "length level = 1" by auto
    then show ?thesis by (cases level) auto
  next
    case True
    have pass: "proof_pass H idx 0 (steps, [], 0) level = (steps @ level_step level idx, next_level H level, idx div 2)"
      using proof_pass_eq [of 0 idx level H steps "[]" 0] Suc.prems(1) by simp
    have "idx div 2 < length (next_level H level)" "length (next_level H level) \<le> n + 1"
      using Suc.prems True by auto
    from Suc.IH [OF this, of "steps @ level_step level idx"] obtain s where
      s: "proof_loop H n (steps @ level_step level idx) (idx div 2) (next_level H level) = Some ((steps @ level_step level idx) @ s)"
        "verify_from_hash H (next_level H level ! (idx div 2)) s (root_loop H (next_level H level))" by blast
    then have "verify_from_hash H (level ! idx) (level_step level idx @ s) (root_loop H level)"
      using True Suc.prems(1) by (simp add: verify_level_step root_loop.simps [of H level])
    with s(1) pass True show ?thesis by (intro exI [of _ "level_step level idx @ s"]) simp
  qed
qed

text \<open>Trees built by adding leaves to the empty tree.\<close>

definition tree_of :: "hash_fun \<Rightarrow> str list \<Rightarrow> merkle_tree" where
  "tree_of H ds = fold (\<lambda>d t. fst (add_leaf H d t)) ds (merkle_new H)"

lemma tree_of_eq: "tree_of H ds = \<lparr>leaves = map H ds, root = rebuild_root H (map H ds)\<rparr>"
proof -
  have "fold (\<lambda>d t. fst (add_leaf H d t)) ds \<lparr>leaves = ls, root = rebuild_root H ls\<rparr> =
      \<lparr>leaves = ls @ map H ds, root = rebuild_root H (ls @ map H ds)\<rparr>" for ls
    by (induction ds arbitrary: ls) (simp_all add: add_leaf_def Let_def)
  from this [of "[]"] show ?thesis by (simp add: tree_of_def merkle_new_def rebuild_root_def)
qed

text \<open>The texts that are hashed while a proof is followed up to the root.\<close>

fun proof_inputs :: "hash_fun \<Rightarrow> str \<Rightarrow> proof_step list \<Rightarrow> str list" where
  "proof_inputs H current [] = []"
| "proof_inputs H current (step # steps) =
     (let x = (if direction step = ''left'' then ps_hash step @ current else current @ ps_hash step)
      in x # proof_inputs H (H x) steps)"

lemma length_proof_inputs [simp]: "length (proof_inputs H c steps) = length steps"
  by (induction steps arbitrary: c) (simp_all add: Let_def)

text \<open>
  A collision that two proofs exhibit: at the same height they hash different texts to the same hash.
\<close>

definition exhibits_collision :: "hash_fun \<Rightarrow> str list \<Rightarrow> str list \<Rightarrow> bool" where
  "exhibits_collision H xs ys \<longleftrightarrow> list_ex (\<lambda>(x, y). x \<noteq> y \<and> H x = H y) (zip xs ys)"

lemma verify_binding:
  assumes "\<And>x. length (H x) = n" "length h = n" "length h' = n"
    and "map direction steps = map direction steps'"
    and "\<forall>s \<in> set steps \<union> set steps'. length (ps_hash s) = n"
    and "verify_from_hash H h steps rt" "verify_from_hash H h' steps' rt"
    and "\<not> exhibits_collision H (proof_inputs H h steps) (proof_inputs H h' steps')"
  shows "h = h' \<and> steps = steps'"
  using assms(2-)
proof (induction steps arbitrary: h h' steps')
  case (Cons s steps)
  from Cons.prems(3) obtain s' r where s': "steps' = s' # r" "direction s = direction s'" by (cases steps') auto
  have P: "map direction steps = map direction r" "\<forall>s \<in> set steps \<union> set r. length (ps_hash s) = n"
    "length (ps_hash s) = n" "length (ps_hash s') = n"
    using Cons.prems(3,4) s' by auto
  let ?x = "\<lambda>s h. if direction s = ''left'' then ps_hash s @ h else h @ ps_hash s"
  have v: "verify_from_hash H (H (?x s h)) steps rt" "verify_from_hash H (H (?x s' h')) r rt"
    using Cons.prems(5,6) s' by (auto simp: sha256_pair_hex_def split: if_splits)
  have nc: "\<not> exhibits_collision H (proof_inputs H (H (?x s h)) steps) (proof_inputs H (H (?x s' h')) r)"
    and top: "H (?x s h) = H (?x s' h') \<Longrightarrow> ?x s h = ?x s' h'"
    using Cons.prems(7) s' by (auto simp: exhibits_collision_def Let_def)
  from Cons.IH [OF assms(1) assms(1) P(1,2) v nc] have e: "H (?x s h) = H (?x s' h')" "steps = r" by auto
  from top [OF e(1)] have "h = h' \<and> ps_hash s = ps_hash s'"
    using s'(2) P(3,4) Cons.prems(1,2) by (auto split: if_splits)
  with e(2) s' show ?case by (auto intro: proof_step.equality)
qed auto

subsection \<open>Properties\<close>

text \<open>
  C7: every inclusion proof of the tree verifies.  For data added in sequence to an empty tree and any
  position, the proof exists and verifies for the data at that position.
\<close>

theorem merkle_proof_complete:
  assumes "i < length ds"
  shows "\<exists>steps. merkle_proof H (tree_of H ds) i = Inr steps \<and> merkle_verify H (tree_of H ds) (ds ! i) steps"
proof (cases "length ds = 1")
  case True
  then obtain d where "ds = [d]" by (cases ds) auto
  with assms show ?thesis
    by (simp add: merkle_proof_def merkle_verify_def tree_of_eq rebuild_root_def root_loop.simps)
next
  case False
  obtain steps where "proof_loop H (length ds) [] i (map H ds) = Some steps"
    "verify_from_hash H (map H ds ! i) steps (root_loop H (map H ds))"
    using proof_loop_verifies [of i "map H ds" "length ds" H "[]"] assms by auto
  with False assms show ?thesis
    by (auto simp: merkle_proof_def build_proof_def merkle_verify_def tree_of_eq rebuild_root_def)
qed

theorem merkle_proof_complete_witness:
  "\<exists>steps. merkle_proof rev (tree_of rev [''a'', ''b'', ''c'']) 2 = Inr steps \<and>
     merkle_verify rev (tree_of rev [''a'', ''b'', ''c'']) ([''a'', ''b'', ''c''] ! 2) steps"
  by (rule merkle_proof_complete) simp

text \<open>
  A proof binds its leaf.  If two proofs with the same directions verify against the same root,
  with sibling hashes of the fixed length, then the leaf hashes and all sibling hashes agree, or the
  two proofs exhibit a collision of the hash function: at the same height they hash different texts
  to the same value.
\<close>

theorem merkle_binding:
  assumes "\<And>x. length (H x) = n" and "map direction steps = map direction steps'"
    and "\<forall>s \<in> set steps \<union> set steps'. length (ps_hash s) = n"
    and "merkle_verify H t d steps" and "merkle_verify H t d' steps'"
  shows "(H d = H d' \<and> steps = steps') \<or>
    exhibits_collision H (proof_inputs H (H d) steps) (proof_inputs H (H d') steps')"
proof (rule disjCI)
  assume "\<not> exhibits_collision H (proof_inputs H (H d) steps) (proof_inputs H (H d') steps')"
  from verify_binding [OF assms(1) assms(1) assms(1) assms(2,3) assms(4,5) [unfolded merkle_verify_def] this]
  show "H d = H d' \<and> steps = steps'" .
qed

definition pad_hash :: hash_fun where
  "pad_hash s = take 2 (s @ ''00'')"

theorem merkle_binding_witness:
  "(pad_hash ''aa'' = pad_hash ''aax'' \<and>
    [\<lparr>ps_hash = ''bb'', direction = ''right''\<rparr>] = [\<lparr>ps_hash = ''bb'', direction = ''right''\<rparr>]) \<or>
   exhibits_collision pad_hash
     (proof_inputs pad_hash (pad_hash ''aa'') [\<lparr>ps_hash = ''bb'', direction = ''right''\<rparr>])
     (proof_inputs pad_hash (pad_hash ''aax'') [\<lparr>ps_hash = ''bb'', direction = ''right''\<rparr>])"
  by (rule merkle_binding [where n = 2 and t = "tree_of pad_hash [''aa'', ''bb'']"])
     (simp_all add: pad_hash_def merkle_verify_def tree_of_eq rebuild_root_def root_loop.simps [of _ "[x, y]" for x y]
        sha256_pair_hex_def)

text \<open>
  Leaves and inner nodes are hashed alike.  The concatenation of the two leaf hashes of a tree
  with two leaves verifies as a leaf of that tree with the empty proof, although only the two original
  texts were added.
\<close>

theorem merkle_inner_node_as_leaf:
  "merkle_verify H (tree_of H [a, b]) (H a @ H b) [] \<and> merkle_size (tree_of H [a, b]) = 2"
  by (simp add: merkle_verify_def tree_of_eq rebuild_root_def root_loop.simps sha256_pair_hex_def merkle_size_def)

end
