(* ===== verification/Scheduler.thy ===== *)
theory Scheduler
  imports SecurityTypes "HOL-Library.AList" "HOL-Library.Multiset"
begin

text \<open>
  The scheduler of the workflow engine, crates/nemesis-workflow/src/scheduler.rs: the levels of a
  workflow graph by Kahn's algorithm, and the execution of the levels with conditional edges, retries,
  cancellation, waiting nodes and resumption from a checkpoint.

  A hash map that is only looked up is a map; the table of in-degrees, which is also iterated, is an
  association list, and the order of iteration is a parameter that yields every entry once.  A
  subtraction below zero, on which the code panics, is the value \<^verbatim>\<open>None\<close>.
\<close>

subsection \<open>Definitions of a workflow\<close>

datatype execution_state = Pending | Running | Completed | Failed | Cancelled | Waiting

record node_def =
  nd_id :: str
  node_type :: str
  nd_config :: json
  depends_on :: "str list"
  retry_count :: nat

record edge =
  from_node :: str
  to_node :: str
  condition :: "str option"

subsection \<open>Topological sort\<close>

type_synonym degrees = "(str \<times> nat) list"

definition add_arc :: "str \<Rightarrow> str \<Rightarrow> (str \<rightharpoonup> str list) \<times> degrees \<Rightarrow> (str \<rightharpoonup> str list) \<times> degrees" where
  "add_arc u v t =
     (case t of (adj, deg) \<Rightarrow>
       (adj(u \<mapsto> (case adj u of Some l \<Rightarrow> l | None \<Rightarrow> []) @ [v]),
        AList.update v ((case map_of deg v of Some d \<Rightarrow> d | None \<Rightarrow> 0) + 1) deg))"

definition graph_tables :: "node_def list \<Rightarrow> edge list \<Rightarrow> (str \<rightharpoonup> str list) \<times> degrees" where
  "graph_tables nodes edges =
     fold (\<lambda>n. fold (\<lambda>dep. add_arc dep (nd_id n)) (depends_on n)) nodes
       (fold (\<lambda>e. add_arc (from_node e) (to_node e)) edges
         (Map.empty, fold (\<lambda>n. AList.update (nd_id n) 0) nodes []))"

text \<open>One neighbour list: every entry is decremented, and what reaches zero enters the next queue.\<close>

fun relax :: "str list \<Rightarrow> degrees \<times> str list \<Rightarrow> (degrees \<times> str list) option" where
  "relax [] st = Some st"
| "relax (v # vs) (deg, nxt) =
     (case map_of deg v of
        None \<Rightarrow> relax vs (deg, nxt)
      | Some d \<Rightarrow>
          if d = 0 then None
          else relax vs (AList.update v (d - 1) deg, if d - 1 = 0 then nxt @ [v] else nxt))"

fun level_pass :: "(str \<rightharpoonup> str list) \<Rightarrow> str list \<Rightarrow> degrees \<times> str list \<Rightarrow> (degrees \<times> str list) option" where
  "level_pass adj [] st = Some st"
| "level_pass adj (u # us) st =
     (case adj u of
        None \<Rightarrow> level_pass adj us st
      | Some vs \<Rightarrow> (case relax vs st of None \<Rightarrow> None | Some st' \<Rightarrow> level_pass adj us st'))"

lemma sum_degrees_update:
  "map_of al k = Some d \<Longrightarrow> sum_list (map snd (AList.update k v al)) + d = sum_list (map snd al) + (v :: nat)"
  by (induction al) (auto split: if_splits)

lemma relax_measure:
  "relax vs (deg, nxt) = Some (deg', nxt') \<Longrightarrow>
   sum_list (map snd deg') + length nxt' \<le> sum_list (map snd deg) + length nxt"
proof (induction vs "(deg, nxt)" arbitrary: deg nxt rule: relax.induct)
  case (2 v vs deg nxt)
  show ?case
  proof (cases "map_of deg v")
    case (Some d)
    with 2 sum_degrees_update [OF Some, of "d - 1"] show ?thesis
      by (fastforce split: if_splits)
  qed (use 2 in auto)
qed simp

lemma level_pass_measure:
  "level_pass adj us (deg, nxt) = Some (deg', nxt') \<Longrightarrow>
   sum_list (map snd deg') + length nxt' \<le> sum_list (map snd deg) + length nxt"
proof (induction us arbitrary: deg nxt)
  case (Cons u us)
  then show ?case
    by (auto split: option.splits dest: relax_measure intro: order_trans)
qed simp

function kahn :: "(str \<rightharpoonup> str list) \<Rightarrow> degrees \<Rightarrow> str list \<Rightarrow> str list list \<Rightarrow> nat \<Rightarrow> (str list list \<times> nat) option" where
  "kahn adj deg queue levels visited =
     (if queue = [] then Some (levels, visited)
      else (case level_pass adj queue (deg, []) of
              None \<Rightarrow> None
            | Some (deg', next_queue) \<Rightarrow> kahn adj deg' next_queue (levels @ [queue]) (visited + length queue)))"
  by pat_completeness auto
termination
proof (relation "measure (\<lambda>(adj, deg, queue, levels, visited). sum_list (map snd deg) + length queue)")
  fix adj deg queue levels visited x deg' nq
  assume "queue \<noteq> []" "level_pass adj queue (deg, []) = Some x" "(deg', nq) = x"
  with level_pass_measure [of adj queue deg "[]" deg' nq]
  show "((adj, deg', nq, levels @ [queue], visited + length queue), adj, deg, queue, levels, visited)
    \<in> measure (\<lambda>(adj, deg, queue, levels, visited). sum_list (map snd deg) + length queue)"
    by (cases queue) auto
qed simp

declare kahn.simps [simp del]

datatype graph_error = CycleDetected

definition topological_sort ::
  "(degrees \<Rightarrow> degrees) \<Rightarrow> node_def list \<Rightarrow> edge list \<Rightarrow> (graph_error + str list list) option" where
  "topological_sort iter nodes edges =
     (case graph_tables nodes edges of (adj, deg) \<Rightarrow>
        map_option (\<lambda>(levels, visited).
          if visited \<noteq> card (set (map nd_id nodes)) then Inl CycleDetected else Inr levels)
          (kahn adj deg (map fst (filter (\<lambda>(_, d). d = 0) (iter deg))) [] 0))"

subsection \<open>The tables of a graph\<close>

text \<open>The arcs of a workflow: its edges, then an arc from every dependency to the node that names it.\<close>

definition arcs :: "node_def list \<Rightarrow> edge list \<Rightarrow> (str \<times> str) list" where
  "arcs nodes edges =
     map (\<lambda>e. (from_node e, to_node e)) edges @
     concat (map (\<lambda>n. map (\<lambda>dep. (dep, nd_id n)) (depends_on n)) nodes)"

definition neighbours :: "(str \<rightharpoonup> str list) \<Rightarrow> str \<Rightarrow> str list" where
  "neighbours adj u = (case adj u of Some l \<Rightarrow> l | None \<Rightarrow> [])"

text \<open>The number of arcs into v whose source is not in D.\<close>

definition indeg :: "(str \<times> str) list \<Rightarrow> str set \<Rightarrow> str \<Rightarrow> nat" where
  "indeg E D v = length (filter (\<lambda>(u, w). w = v \<and> u \<notin> D) E)"



lemma graph_tables_arcs:
  "graph_tables nodes edges =
     fold (\<lambda>(u, v). add_arc u v) (arcs nodes edges) (Map.empty, fold (\<lambda>n. AList.update (nd_id n) 0) nodes [])"
proof -
  have e: "fold (\<lambda>e. add_arc (from_node e) (to_node e)) es s =
      fold (\<lambda>(u, v). add_arc u v) (map (\<lambda>e. (from_node e, to_node e)) es) s" for es s
    by (induction es arbitrary: s) auto
  have d: "fold (\<lambda>n. fold (\<lambda>dep. add_arc dep (nd_id n)) (depends_on n)) ns s =
      fold (\<lambda>(u, v). add_arc u v) (concat (map (\<lambda>n. map (\<lambda>dep. (dep, nd_id n)) (depends_on n)) ns)) s" for ns s
  proof (induction ns arbitrary: s)
    case (Cons n ns)
    have "fold (\<lambda>dep. add_arc dep (nd_id n)) ds s =
        fold (\<lambda>(u, v). add_arc u v) (map (\<lambda>dep. (dep, nd_id n)) ds) s" for ds s
      by (induction ds arbitrary: s) auto
    with Cons show ?case by simp
  qed simp
  show ?thesis by (simp add: graph_tables_def arcs_def e d)
qed

lemma initial_degrees:
  "distinct (map fst (fold (\<lambda>n. AList.update (nd_id n) (0 :: nat)) nodes [])) \<and>
   (\<forall>v. map_of (fold (\<lambda>n. AList.update (nd_id n) (0 :: nat)) nodes []) v =
      (if v \<in> nd_id ` set nodes then Some 0 else None))"
proof -
  have "distinct (map fst al) \<Longrightarrow> distinct (map fst (fold (\<lambda>n. AList.update (nd_id n) (0 :: nat)) nodes al)) \<and>
    (\<forall>v. map_of (fold (\<lambda>n. AList.update (nd_id n) 0) nodes al) v =
      (if v \<in> nd_id ` set nodes then Some 0 else map_of al v))" for al
    by (induction nodes arbitrary: al) (auto simp: distinct_update update_conv')
  from this [of "[]"] show ?thesis by simp
qed

lemma add_arcs:
  assumes "fold (\<lambda>(u, v). add_arc u v) E (adj, deg) = (adj', deg')" and "distinct (map fst deg)"
  shows "distinct (map fst deg') \<and> neighbours adj' u = neighbours adj u @ map snd (filter (\<lambda>(a, b). a = u) E) \<and>
    map_of deg' v =
      (if map_of deg v = None \<and> indeg E {} v = 0 then None
       else Some ((case map_of deg v of Some d \<Rightarrow> d | None \<Rightarrow> 0) + indeg E {} v))"
  using assms
proof (induction E arbitrary: adj deg)
  case Nil
  then show ?case by (auto simp: indeg_def split: option.splits)
next
  case (Cons e E)
  obtain a b where e: "e = (a, b)" by fastforce
  obtain adj1 deg1 where s: "add_arc a b (adj, deg) = (adj1, deg1)" by fastforce
  then have eqs: "adj1 = adj(a \<mapsto> (case adj a of Some l \<Rightarrow> l | None \<Rightarrow> []) @ [b])"
    "deg1 = AList.update b ((case map_of deg b of Some d \<Rightarrow> d | None \<Rightarrow> 0) + 1) deg"
    by (auto simp: add_arc_def)
  have d1: "distinct (map fst deg1)" unfolding eqs by (rule distinct_update) (rule Cons.prems(2))
  have n1: "neighbours adj1 u = neighbours adj u @ (if a = u then [b] else [])"
    by (simp add: eqs(1) neighbours_def)
  have m1: "map_of deg1 v = (if v = b then Some ((case map_of deg b of Some d \<Rightarrow> d | None \<Rightarrow> 0) + 1) else map_of deg v)"
    by (simp add: eqs(2) update_conv')
  have "fold (\<lambda>(u, v). add_arc u v) E (adj1, deg1) = (adj', deg')" using Cons.prems(1) e s by simp
  from Cons.IH [OF this d1] show ?case
    by (auto simp: e n1 m1 indeg_def split: option.splits)
qed

lemma graph_tables_spec:
  assumes "graph_tables nodes edges = (adj, deg)"
  shows "distinct (map fst deg)" and "neighbours adj u = map snd (filter (\<lambda>(a, b). a = u) (arcs nodes edges))"
    and "map_of deg v = (if v \<in> nd_id ` set nodes \<or> v \<in> snd ` set (arcs nodes edges)
            then Some (indeg (arcs nodes edges) {} v) else None)"
proof -
  note A = add_arcs [OF assms [unfolded graph_tables_arcs] conjunct1 [OF initial_degrees]] initial_degrees [of nodes]
  show "distinct (map fst deg)" "neighbours adj u = map snd (filter (\<lambda>(a, b). a = u) (arcs nodes edges))"
    using A by (simp_all add: neighbours_def)
  have "indeg (arcs nodes edges) {} v = 0 \<longleftrightarrow> v \<notin> snd ` set (arcs nodes edges)"
    by (force simp: indeg_def filter_empty_conv)
  then show "map_of deg v = (if v \<in> nd_id ` set nodes \<or> v \<in> snd ` set (arcs nodes edges)
            then Some (indeg (arcs nodes edges) {} v) else None)"
    using A by auto
qed

subsection \<open>Kahn's algorithm\<close>

lemma relax_append: "relax (xs @ ys) st = Option.bind (relax xs st) (relax ys)"
  by (induction xs st rule: relax.induct) (auto split: option.splits)

lemma level_pass_relax: "level_pass adj us st = relax (concat (map (neighbours adj) us)) st"
  by (induction us arbitrary: st)
    (auto simp: relax_append neighbours_def split: option.splits Option.bind_splits)

lemma relax_spec:
  assumes "distinct (map fst deg)" and "\<And>v d. map_of deg v = Some d \<Longrightarrow> count_list vs v \<le> d"
  shows "\<exists>deg' zs. relax vs (deg, nxt) = Some (deg', nxt @ zs) \<and> distinct (map fst deg') \<and>
    (\<forall>v. map_of deg' v = map_option (\<lambda>d. d - count_list vs v) (map_of deg v)) \<and>
    distinct zs \<and> set zs = {v. \<exists>d > 0. map_of deg v = Some d \<and> d = count_list vs v}"
  using assms
proof (induction vs arbitrary: deg nxt)
  case Nil
  then show ?case by (auto simp: option.map_ident)
next
  case (Cons x vs)
  show ?case
  proof (cases "map_of deg x")
    case None
    then have "count_list vs v \<le> d" if "map_of deg v = Some d" for v d
      using Cons.prems(2) [OF that] that by (auto split: if_splits)
    from Cons.IH [OF Cons.prems(1) this, of nxt] obtain deg' zs where IH:
      "relax vs (deg, nxt) = Some (deg', nxt @ zs)" "distinct (map fst deg')"
      "\<forall>v. map_of deg' v = map_option (\<lambda>e. e - count_list vs v) (map_of deg v)" "distinct zs"
      "set zs = {v. \<exists>e > 0. map_of deg v = Some e \<and> e = count_list vs v}" by blast
    have "\<forall>v. map_of deg' v = map_option (\<lambda>e. e - count_list (x # vs) v) (map_of deg v)"
      using IH(3) None by (metis count_list.simps(2) option.map_disc_iff)
    moreover have "set zs = {v. \<exists>e > 0. map_of deg v = Some e \<and> e = count_list (x # vs) v}"
      using IH(5) None by force
    ultimately show ?thesis using IH(1,2,4) None by auto
  next
    case (Some d)
    with Cons.prems(2) [OF this] have pos: "d > 0" by simp
    let ?deg = "AList.update x (d - 1) deg"
    have m: "map_of ?deg v = (if v = x then Some (d - 1) else map_of deg v)" for v
      by (simp add: update_conv')
    have "count_list vs v \<le> e" if "map_of ?deg v = Some e" for v e
    proof (cases "v = x")
      case True
      with Cons.prems(2) [OF Some] that m show ?thesis by simp
    next
      case False
      with Cons.prems(2) [of v e] that m show ?thesis by simp
    qed
    moreover have "distinct (map fst ?deg)" by (rule distinct_update) (rule Cons.prems(1))
    ultimately have "\<exists>deg' zs. relax vs (?deg, nxt') = Some (deg', nxt' @ zs) \<and> distinct (map fst deg') \<and>
      (\<forall>v. map_of deg' v = map_option (\<lambda>d. d - count_list vs v) (map_of ?deg v)) \<and>
      distinct zs \<and> set zs = {v. \<exists>d > 0. map_of ?deg v = Some d \<and> d = count_list vs v}" for nxt'
      by (intro Cons.IH) auto
    from this [of "if d - 1 = 0 then nxt @ [x] else nxt"]
    obtain deg' zs where IH: "relax vs (?deg, if d - 1 = 0 then nxt @ [x] else nxt) =
        Some (deg', (if d - 1 = 0 then nxt @ [x] else nxt) @ zs)" "distinct (map fst deg')"
      "\<forall>v. map_of deg' v = map_option (\<lambda>e. e - count_list vs v) (map_of ?deg v)" "distinct zs"
      "set zs = {v. \<exists>e > 0. map_of ?deg v = Some e \<and> e = count_list vs v}" by blast
    have le: "count_list vs x \<le> d - 1" using Cons.prems(2) [OF Some] by simp
    let ?zs = "if d - 1 = 0 then x # zs else zs"
    have "relax (x # vs) (deg, nxt) = Some (deg', nxt @ ?zs)" using IH(1) Some pos by simp
    moreover have "\<forall>v. map_of deg' v = map_option (\<lambda>e. e - count_list (x # vs) v) (map_of deg v)"
      using IH(3) [unfolded m] Some by auto
    moreover have "distinct ?zs" using IH(4) IH(5) [unfolded m] by auto
    moreover have "set ?zs = {v. \<exists>e > 0. map_of deg v = Some e \<and> e = count_list (x # vs) v}"
    proof (rule set_eqI)
      fix v
      have z: "v \<in> set ?zs \<longleftrightarrow> v = x \<and> d = 1 \<or> v \<in> set zs" using pos by auto
      show "v \<in> set ?zs \<longleftrightarrow> v \<in> {v. \<exists>e > 0. map_of deg v = Some e \<and> e = count_list (x # vs) v}"
      proof (cases "v = x")
        case True
        have "v \<in> set zs \<longleftrightarrow> d - 1 > 0 \<and> d - 1 = count_list vs x"
          unfolding IH(5) m using True by auto
        with z le Some pos True show ?thesis by auto
      next
        case False
        then show ?thesis unfolding z IH(5) m by simp
      qed
    qed
    ultimately show ?thesis using IH(2) by blast
  qed
qed

lemma count_neighbours:
  assumes "\<And>u. neighbours adj u = map snd (filter (\<lambda>(a, b). a = u) E)" and "distinct us" and "set us \<inter> D = {}"
  shows "count_list (concat (map (neighbours adj) us)) v + indeg E (D \<union> set us) v = indeg E D v"
  using assms(2,3)
proof (induction us arbitrary: D)
  case (Cons u us)
  have "count_list (map snd (filter (\<lambda>(a, b). a = u) F)) v + indeg F (insert u D) v = indeg F D v" for F
    using Cons.prems(2) by (induction F) (auto simp: indeg_def)
  from this [of E] have "count_list (neighbours adj u) v + indeg E (insert u D) v = indeg E D v"
    by (simp add: assms(1))
  moreover have "count_list (concat (map (neighbours adj) us)) v + indeg E (insert u D \<union> set us) v = indeg E (insert u D) v"
    using Cons.prems by (intro Cons.IH) auto
  moreover have "insert u D \<union> set us = D \<union> set (u # us)" by auto
  ultimately show ?case by simp
qed simp

text \<open>
  The state of the loop: D is what was popped so far, the table holds the number of arcs from the
  rest, and the queue is exactly what has none left.
\<close>

definition kahn_state :: "(str \<times> str) list \<Rightarrow> str set \<Rightarrow> str set \<Rightarrow> degrees \<Rightarrow> str list \<Rightarrow> bool" where
  "kahn_state E K D deg queue \<longleftrightarrow>
     distinct (map fst deg) \<and> (\<forall>v. map_of deg v = (if v \<in> K then Some (indeg E D v) else None)) \<and>
     distinct queue \<and> set queue = {v \<in> K - D. indeg E D v = 0} \<and> (\<forall>v \<in> D. indeg E D v = 0)"

lemma indeg_0: "indeg E D v = 0 \<longleftrightarrow> (\<forall>u. (u, v) \<in> set E \<longrightarrow> u \<in> D)"
  by (auto simp: indeg_def filter_empty_conv)

lemma indeg_antimono: "D \<subseteq> D' \<Longrightarrow> indeg E D' v \<le> indeg E D v"
  unfolding indeg_def by (induction E) auto

lemma kahn_step:
  assumes "\<And>u. neighbours adj u = map snd (filter (\<lambda>(a, b). a = u) E)" and "kahn_state E K D deg queue"
  shows "\<exists>deg' nq. level_pass adj queue (deg, []) = Some (deg', nq) \<and> kahn_state E K (D \<union> set queue) deg' nq \<and>
    (\<forall>v \<in> set nq. \<exists>u \<in> set queue. (u, v) \<in> set E)"
proof -
  let ?vs = "concat (map (neighbours adj) queue)" and ?D = "D \<union> set queue"
  note S = assms(2) [unfolded kahn_state_def]
  have c: "count_list ?vs v + indeg E ?D v = indeg E D v" for v
    using S by (intro count_neighbours assms(1)) auto
  have le: "count_list ?vs v \<le> d" if "map_of deg v = Some d" for v d
    using S that c [of v] by (auto split: if_splits)
  have "distinct (map fst deg)" using S by blast
  from relax_spec [OF this le, where nxt = "[]"] obtain deg' nq where R:
    "relax ?vs (deg, []) = Some (deg', nq)" "distinct (map fst deg')"
    "\<forall>v. map_of deg' v = map_option (\<lambda>d. d - count_list ?vs v) (map_of deg v)" "distinct nq"
    "set nq = {v. \<exists>d > 0. map_of deg v = Some d \<and> d = count_list ?vs v}" by auto
  have m: "map_of deg' v = (if v \<in> K then Some (indeg E ?D v) else None)" for v
    using R(3) S c [of v] by auto
  have nq: "set nq = {v \<in> K - ?D. indeg E ?D v = 0}"
  proof (rule set_eqI)
    fix v
    have "v \<in> set nq \<longleftrightarrow> v \<in> K \<and> indeg E D v > 0 \<and> indeg E ?D v = 0"
      using R(5) S c [of v] by auto
    also have "\<dots> \<longleftrightarrow> v \<in> K - ?D \<and> indeg E ?D v = 0"
      using S by (cases "indeg E D v") auto
    finally show "v \<in> set nq \<longleftrightarrow> v \<in> {v \<in> K - ?D. indeg E ?D v = 0}" by simp
  qed
  have "\<exists>u \<in> set queue. (u, v) \<in> set E" if "v \<in> set nq" for v
  proof -
    have "indeg E ?D v = 0" "indeg E D v \<noteq> 0" using that nq S c [of v] R(5) by auto
    then show ?thesis unfolding indeg_0 by blast
  qed
  moreover have "\<forall>v \<in> ?D. indeg E ?D v = 0"
    using S indeg_antimono [of D ?D E] by (metis (mono_tags, lifting) Un_iff Un_upper1 le_zero_eq mem_Collect_eq)
  ultimately show ?thesis
    using R(1,2,4) m nq by (auto simp: level_pass_relax kahn_state_def)
qed


text \<open>
  What a run of the loop yields: levels ls after the popped set D.
\<close>

definition levels_ok :: "(str \<times> str) list \<Rightarrow> str set \<Rightarrow> str set \<Rightarrow> str list list \<Rightarrow> bool" where
  "levels_ok E K D ls \<longleftrightarrow>
     distinct (concat ls) \<and> set (concat ls) \<subseteq> K - D \<and>
     (\<forall>i < length ls. \<forall>v \<in> set (ls ! i).
        (\<forall>u. (u, v) \<in> set E \<longrightarrow> u \<in> D \<union> set (concat (take i ls))) \<and>
        (0 < i \<longrightarrow> (\<exists>u \<in> set (ls ! (i - 1)). (u, v) \<in> set E))) \<and>
     (\<forall>v \<in> K - D - set (concat ls). \<exists>u. (u, v) \<in> set E \<and> u \<notin> D \<union> set (concat ls))"

lemma levels_ok_Nil: "levels_ok E K D [] \<longleftrightarrow> (\<forall>v \<in> K - D. \<exists>u. (u, v) \<in> set E \<and> u \<notin> D)"
  by (simp add: levels_ok_def)

lemma levels_ok_Cons:
  assumes "levels_ok E K (D \<union> set q) ls" and "distinct q" and "set q \<subseteq> K - D"
    and "\<And>u v. v \<in> set q \<Longrightarrow> (u, v) \<in> set E \<Longrightarrow> u \<in> D"
    and "ls \<noteq> [] \<Longrightarrow> \<forall>v \<in> set (hd ls). \<exists>u \<in> set q. (u, v) \<in> set E"
  shows "levels_ok E K D (q # ls)"
proof -
  note L = assms(1) [unfolded levels_ok_def]
  have "(\<forall>u. (u, v) \<in> set E \<longrightarrow> u \<in> D \<union> set (concat (take i (q # ls)))) \<and>
      (0 < i \<longrightarrow> (\<exists>u \<in> set ((q # ls) ! (i - 1)). (u, v) \<in> set E))"
    if "i < length (q # ls)" "v \<in> set ((q # ls) ! i)" for i v
  proof (cases i)
    case 0
    with assms(4) that show ?thesis by simp
  next
    case (Suc j)
    with that L have "\<forall>u. (u, v) \<in> set E \<longrightarrow> u \<in> D \<union> set q \<union> set (concat (take j ls))"
      "0 < j \<longrightarrow> (\<exists>u \<in> set (ls ! (j - 1)). (u, v) \<in> set E)"
      by simp_all
    with Suc that assms(5) show ?thesis
      by (cases j) (auto simp: hd_conv_nth)
  qed
  moreover have "distinct (concat (q # ls))" using L assms(2) by auto
  moreover have "set (concat (q # ls)) \<subseteq> K - D" using L assms(3) by auto
  moreover have "\<exists>u. (u, v) \<in> set E \<and> u \<notin> D \<union> set (concat (q # ls))"
    if "v \<in> K - D - set (concat (q # ls))" for v
    using L that by (auto simp: Un_assoc)
  ultimately show ?thesis unfolding levels_ok_def by blast
qed

lemma kahn_levels:
  assumes "\<And>u. neighbours adj u = map snd (filter (\<lambda>(a, b). a = u) E)" and "kahn_state E K D deg queue"
  shows "\<exists>ls. kahn adj deg queue levels visited = Some (levels @ ls, visited + length (concat ls)) \<and>
    levels_ok E K D ls \<and> (if queue = [] then ls = [] else ls \<noteq> [] \<and> hd ls = queue)"
  using assms
proof (induction adj deg queue levels visited arbitrary: D rule: kahn.induct)
  case (1 adj deg queue levels visited)
  note S = 1(3) [unfolded kahn_state_def]
  show ?case
  proof (cases "queue = []")
    case True
    then have "\<forall>v \<in> K - D. indeg E D v \<noteq> 0" using S by (metis (mono_tags, lifting) empty_iff empty_set mem_Collect_eq)
    with True show ?thesis by (simp add: kahn.simps levels_ok_Nil indeg_0)
  next
    case False
    obtain deg' nq where step: "level_pass adj queue (deg, []) = Some (deg', nq)"
      "kahn_state E K (D \<union> set queue) deg' nq" "\<forall>v \<in> set nq. \<exists>u \<in> set queue. (u, v) \<in> set E"
      using kahn_step [OF 1(2,3)] by blast
    obtain ls where ls: "kahn adj deg' nq (levels @ [queue]) (visited + length queue) =
        Some ((levels @ [queue]) @ ls, visited + length queue + length (concat ls))"
      "levels_ok E K (D \<union> set queue) ls" "if nq = [] then ls = [] else ls \<noteq> [] \<and> hd ls = nq"
      using 1(1) [OF False step(1) refl 1(2) step(2)] by blast
    have "levels_ok E K D (queue # ls)"
      using S step(3) ls by (intro levels_ok_Cons) (auto simp: indeg_0 split: if_splits)
    moreover have "kahn adj deg queue levels visited =
        Some (levels @ queue # ls, visited + length (concat (queue # ls)))"
      using False step(1) ls(1) by (simp add: kahn.simps [of adj deg queue])
    ultimately show ?thesis using False by (intro exI [of _ "queue # ls"]) simp
  qed
qed

text \<open>The order in which a hash map is iterated: every entry once.\<close>

definition iterates_once :: "(degrees \<Rightarrow> degrees) \<Rightarrow> bool" where
  "iterates_once iter \<longleftrightarrow> (\<forall>d. mset (iter d) = mset d)"

lemma topological_sort_levels:
  assumes "iterates_once iter"
  shows "\<exists>ls. levels_ok (arcs nodes edges) (nd_id ` set nodes \<union> snd ` set (arcs nodes edges)) {} ls \<and>
    topological_sort iter nodes edges =
      Some (if length (concat ls) \<noteq> card (nd_id ` set nodes) then Inl CycleDetected else Inr ls)"
proof -
  let ?E = "arcs nodes edges"
  let ?K = "nd_id ` set nodes \<union> snd ` set ?E"
  obtain adj deg where t: "graph_tables nodes edges = (adj, deg)" by fastforce
  note G = graph_tables_spec [OF t]
  let ?q = "map fst (filter (\<lambda>(_, d). d = 0) (iter deg))"
  have it: "mset (iter deg) = mset deg" using assms by (simp add: iterates_once_def)
  then have "set (iter deg) = set deg" by (rule mset_eq_setD)
  moreover have "distinct (map fst (iter deg))"
    using G(1) it by (metis mset_map mset_eq_imp_distinct_iff)
  ultimately have "kahn_state ?E ?K {} deg ?q"
    using G(1) unfolding kahn_state_def
    by (auto simp: G(3) distinct_map_filter image_iff map_of_eq_Some_iff [symmetric] split: if_splits) force
  from kahn_levels [OF G(2) this, of "[]" 0] obtain ls where
    "kahn adj deg ?q [] 0 = Some (ls, length (concat ls))" "levels_ok ?E ?K {} ls" by auto
  then show ?thesis by (intro exI [of _ ls]) (simp add: topological_sort_def t)
qed

lemma topological_sort_ok:
  assumes "iterates_once iter" and "topological_sort iter nodes edges = Some (Inr ls)"
  shows "levels_ok (arcs nodes edges) (nd_id ` set nodes \<union> snd ` set (arcs nodes edges)) {} ls"
    and "length (concat ls) = card (nd_id ` set nodes)"
  using topological_sort_levels [OF assms(1), of nodes edges] assms(2) by (auto split: if_splits)

definition closed_graph :: "node_def list \<Rightarrow> edge list \<Rightarrow> bool" where
  "closed_graph nodes edges \<longleftrightarrow>
     (\<forall>(u, v) \<in> set (arcs nodes edges). u \<in> set (map nd_id nodes) \<and> v \<in> set (map nd_id nodes))"

lemma levels_ok_full:
  assumes "levels_ok E K {} ls" and "finite K" and "length (concat ls) = card K"
  shows "set (concat ls) = K"
proof (rule card_subset_eq [OF assms(2)])
  show "set (concat ls) \<subseteq> K" using assms(1) by (auto simp: levels_ok_def)
  show "card (set (concat ls)) = card K"
    using assms(1,3) distinct_card [of "concat ls"] by (simp add: levels_ok_def)
qed

lemma levels_rank:
  assumes "levels_ok E K {} ls" and "i < length ls" and "v \<in> set (ls ! i)" and "(u, v) \<in> set E"
  shows "\<exists>j < i. u \<in> set (ls ! j)"
proof -
  have "u \<in> set (concat (take i ls))" using assms by (auto simp: levels_ok_def)
  then obtain l where "l \<in> set (take i ls)" "u \<in> set l" by auto
  with assms(2) show ?thesis by (auto simp: in_set_conv_nth [of l])
qed

lemma levels_acyclic:
  assumes "levels_ok E K {} ls" and "set (concat ls) = K" and "snd ` set E \<subseteq> K"
  shows "acyclic (set E)"
proof -
  have "(u, v) \<in> (set E)\<^sup>+ \<Longrightarrow> \<forall>i < length ls. v \<in> set (ls ! i) \<longrightarrow> (\<exists>j < i. u \<in> set (ls ! j))" for u v
  proof (induction rule: trancl_induct)
    case (base w)
    with levels_rank [OF assms(1)] show ?case by blast
  next
    case (step w z)
    show ?case
    proof (intro allI impI)
      fix i assume "i < length ls" "z \<in> set (ls ! i)"
      with levels_rank [OF assms(1) _ _ step(2)] obtain j where "j < i" "w \<in> set (ls ! j)" by blast
      moreover from this \<open>i < length ls\<close> have "j < length ls" by simp
      ultimately show "\<exists>j < i. u \<in> set (ls ! j)" using step.IH by (meson less_trans)
    qed
  qed
  moreover have "v \<in> K" if "(u, v) \<in> (set E)\<^sup>+" for u v
    using that assms(3) by (induction rule: trancl_induct) force+
  ultimately have F: "v \<in> K \<and> (\<forall>i < length ls. v \<in> set (ls ! i) \<longrightarrow> (\<exists>j < i. v \<in> set (ls ! j)))"
    if "(v, v) \<in> (set E)\<^sup>+" for v
    using that by blast
  show ?thesis
  proof (rule acyclicI, intro allI notI)
    fix v assume c: "(v, v) \<in> (set E)\<^sup>+"
    have "\<not> (i < length ls \<and> v \<in> set (ls ! i))" for i
    proof (induction i rule: less_induct)
      case (less i)
      with F [OF c] show ?case by (meson less_trans)
    qed
    moreover from F [OF c] assms(2) obtain l where "l \<in> set ls" "v \<in> set l" by auto
    ultimately show False by (metis in_set_conv_nth)
  qed
qed

lemma closed_graph_keys:
  "closed_graph nodes edges \<Longrightarrow> nd_id ` set nodes \<union> snd ` set (arcs nodes edges) = nd_id ` set nodes"
  by (auto simp: closed_graph_def)

lemma sorted_acyclic:
  assumes "iterates_once iter" and "closed_graph nodes edges" and "topological_sort iter nodes edges = Some (Inr ls)"
  shows "acyclic (set (arcs nodes edges))"
proof -
  note L = topological_sort_ok [OF assms(1,3), unfolded closed_graph_keys [OF assms(2)]]
  show ?thesis
    using assms(2) levels_ok_full [OF L(1) _ L(2)] by (intro levels_acyclic [OF L(1)]) (auto simp: closed_graph_def)
qed

lemma levels_complete:
  assumes "levels_ok E K {} ls" and "fst ` set E \<subseteq> K" and "acyclic (set E)"
  shows "set (concat ls) = K"
proof (rule ccontr)
  assume "set (concat ls) \<noteq> K"
  moreover have "set (concat ls) \<subseteq> K" using assms(1) by (auto simp: levels_ok_def)
  ultimately obtain x where "x \<in> K - set (concat ls)" by blast
  moreover have "wf (set E)" using assms(3) by (simp add: finite_acyclic_wf)
  ultimately obtain v where v: "v \<in> K - set (concat ls)" "\<And>u. (u, v) \<in> set E \<Longrightarrow> u \<notin> K - set (concat ls)"
    by (meson wfE_min)
  moreover have "\<forall>v \<in> K - set (concat ls). \<exists>u. (u, v) \<in> set E \<and> u \<notin> set (concat ls)"
    using assms(1) by (simp add: levels_ok_def)
  ultimately obtain u where "(u, v) \<in> set E" "u \<notin> set (concat ls)" by blast
  with v(2) assms(2) show False by force
qed

subsection \<open>Properties of the sort\<close>

text \<open>
  C13: the levels of a workflow are a schedule of its graph.  When every arc joins two nodes of the
  workflow, a successful sort lists every node exactly once, every node stands in a later level than
  all nodes it depends on, by edge or by declaration, and a node is in a later level than the first
  only if it depends on a node of the level before it.  The order in which the table of
  in-degrees is iterated does not matter.
\<close>

theorem topological_sort_levels_sound:
  assumes "iterates_once iter" and "closed_graph nodes edges"
    and "topological_sort iter nodes edges = Some (Inr ls)"
  shows "distinct (concat ls) \<and> set (concat ls) = nd_id ` set nodes \<and>
    (\<forall>i < length ls. \<forall>v \<in> set (ls ! i).
       (\<forall>u. (u, v) \<in> set (arcs nodes edges) \<longrightarrow> (\<exists>j < i. u \<in> set (ls ! j))) \<and>
       (0 < i \<longrightarrow> (\<exists>u \<in> set (ls ! (i - 1)). (u, v) \<in> set (arcs nodes edges))))"
proof -
  note L = topological_sort_ok [OF assms(1,3), unfolded closed_graph_keys [OF assms(2)]]
  have "set (concat ls) = nd_id ` set nodes" using L by (intro levels_ok_full) auto
  moreover have "\<exists>j < i. u \<in> set (ls ! j)"
    if "i < length ls" "v \<in> set (ls ! i)" "(u, v) \<in> set (arcs nodes edges)" for i u v
    using levels_rank [OF L(1) that] .
  moreover have "distinct (concat ls)" "\<forall>i < length ls. \<forall>v \<in> set (ls ! i). 0 < i \<longrightarrow>
      (\<exists>u \<in> set (ls ! (i - 1)). (u, v) \<in> set (arcs nodes edges))"
    using L(1) by (simp_all add: levels_ok_def)
  ultimately show ?thesis by blast
qed

definition example_node :: "str \<Rightarrow> str list \<Rightarrow> node_def" where
  "example_node i ds = \<lparr>nd_id = i, node_type = ''t'', nd_config = JNull, depends_on = ds, retry_count = 0\<rparr>"

definition example_edge :: "str \<Rightarrow> str \<Rightarrow> edge" where
  "example_edge u v = \<lparr>from_node = u, to_node = v, condition = None\<rparr>"

definition diamond :: "node_def list" where
  "diamond = [example_node ''a'' [], example_node ''b'' [], example_node ''c'' [''a''], example_node ''d'' []]"

definition diamond_edges :: "edge list" where
  "diamond_edges = [example_edge ''a'' ''b'', example_edge ''b'' ''d'', example_edge ''c'' ''d'']"

lemma iterates_once_id: "iterates_once (\<lambda>d. d)"
  by (simp add: iterates_once_def)

theorem topological_sort_levels_sound_witness:
  "topological_sort (\<lambda>d. d) diamond diamond_edges = Some (Inr [[''a''], [''b'', ''c''], [''d'']]) \<and>
   set (concat [[''a''], [''b'', ''c''], [''d'']]) = nd_id ` set diamond"
proof -
  have t: "topological_sort (\<lambda>d. d) diamond diamond_edges = Some (Inr [[''a''], [''b'', ''c''], [''d'']])" by code_simp
  moreover have "closed_graph diamond diamond_edges" by code_simp
  ultimately show ?thesis using topological_sort_levels_sound [OF iterates_once_id] by blast
qed

text \<open>
  C14: the sort decides cyclicity and never panics.  For a workflow whose arcs join its own nodes it
  always returns, with levels exactly when the graph has no cycle and with the cycle error exactly
  when it has one; no in-degree is decremented below zero, whatever the arcs.
\<close>

theorem topological_sort_decides_cycles:
  assumes "iterates_once iter"
  shows "topological_sort iter nodes edges \<noteq> None \<and>
    (closed_graph nodes edges \<longrightarrow>
       (topological_sort iter nodes edges = Some (Inl CycleDetected) \<longleftrightarrow> \<not> acyclic (set (arcs nodes edges))))"
proof -
  let ?E = "arcs nodes edges" and ?N = "nd_id ` set nodes"
  obtain ls where L: "levels_ok ?E (?N \<union> snd ` set ?E) {} ls"
    "topological_sort iter nodes edges = Some (if length (concat ls) \<noteq> card ?N then Inl CycleDetected else Inr ls)"
    using topological_sort_levels [OF assms] by blast
  have "(length (concat ls) = card ?N) = acyclic (set ?E)" if c: "closed_graph nodes edges"
  proof
    note L' = L(1) [unfolded closed_graph_keys [OF c]]
    show "acyclic (set ?E)" if "length (concat ls) = card ?N"
      using L' c levels_ok_full [OF L' _ that] by (intro levels_acyclic [OF L']) (auto simp: closed_graph_def)
    show "length (concat ls) = card ?N" if "acyclic (set ?E)"
    proof -
      have "set (concat ls) = ?N" using c by (intro levels_complete [OF L' _ that]) (auto simp: closed_graph_def)
      then show ?thesis using L' by (metis distinct_card levels_ok_def)
    qed
  qed
  with L(2) show ?thesis by auto
qed

theorem topological_sort_decides_cycles_witness:
  "topological_sort rev [example_node ''a'' [''b''], example_node ''b'' [''a'']] [] = Some (Inl CycleDetected) \<and>
   \<not> acyclic (set (arcs [example_node ''a'' [''b''], example_node ''b'' [''a'']] []))"
proof -
  let ?ns = "[example_node ''a'' [''b''], example_node ''b'' [''a'']]"
  have "topological_sort rev ?ns [] = Some (Inl CycleDetected)" by code_simp
  moreover have "closed_graph ?ns []" by code_simp
  moreover have "iterates_once rev" by (simp add: iterates_once_def)
  ultimately show ?thesis using topological_sort_decides_cycles [of rev ?ns "[]"] by blast
qed

text \<open>
  The count of visited ids can hide a cycle.  An edge to an id that is no node adds that id to the
  table, and it counts as visited; the workflow below has a node with an edge to itself and an edge
  to such an id, and the sort returns levels that omit the node on the cycle.
\<close>

theorem unknown_target_hides_cycle:
  "topological_sort (\<lambda>d. d) [example_node ''a'' [], example_node ''b'' []]
     [example_edge ''a'' ''x'', example_edge ''b'' ''b''] = Some (Inr [[''a''], [''x'']])"
  by code_simp

end
