(* ===== verification/WorkflowRun.thy ===== *)
theory WorkflowRun
  imports Scheduler
begin

text \<open>
  The execution of a workflow, \<^verbatim>\<open>schedule\<close>, \<^verbatim>\<open>schedule_resume\<close> and \<^verbatim>\<open>schedule_inner\<close> of
  crates/nemesis-workflow/src/scheduler.rs, with the workflow context of context.rs and the placeholders of
  conditions from nodes.rs.

  The environment is the record \<^verbatim>\<open>sched_env\<close>: what the executors answer at each attempt, and at
  each point where the code tests or awaits the cancellation token, whether it is cancelled there.
  The nodes of a level run concurrently in the code, each on a copy of the context taken before the
  level and without effect on it, and their results are collected in order; the model runs them in that
  order.  The maps of the context are association lists, whose order stands for the order of iteration.
  The evaluation of a resolved condition compares floating-point numbers and is a parameter.
\<close>

subsection \<open>Context\<close>

record node_result =
  nr_state :: execution_state
  nr_output :: json
  nr_error :: "str option"

record wf_context =
  wf_variables :: "(str \<times> json) list"
  wf_results :: "(str \<times> node_result) list"
  wf_input :: "(str \<times> json) list"

definition set_var :: "str \<Rightarrow> json \<Rightarrow> wf_context \<Rightarrow> wf_context" where
  "set_var k v c = c\<lparr>wf_variables := AList.update k v (wf_variables c)\<rparr>"

definition set_node_result :: "str \<Rightarrow> node_result \<Rightarrow> wf_context \<Rightarrow> wf_context" where
  "set_node_result k r c = c\<lparr>wf_results := AList.update k r (wf_results c)\<rparr>"

definition get_node_result :: "str \<Rightarrow> wf_context \<Rightarrow> node_result option" where
  "get_node_result k c = map_of (wf_results c) k"

definition json_fields :: "json \<Rightarrow> (str \<times> json) list" where
  "json_fields v = (case v of JObject kvs \<Rightarrow> kvs | _ \<Rightarrow> [])"

text \<open>An entry under its key, and before it the fields of an object under \<^verbatim>\<open>key.field\<close>.\<close>

definition insert_flat :: "str \<Rightarrow> json \<Rightarrow> (str \<times> json) list \<Rightarrow> (str \<times> json) list" where
  "insert_flat k v ctx =
     AList.update k v (fold (\<lambda>(f, x). AList.update (k @ ''.'' @ f) x) (json_fields v) ctx)"

definition build_executor_context :: "wf_context \<Rightarrow> (str \<times> json) list" where
  "build_executor_context c =
     fold (\<lambda>(k, r). insert_flat k (nr_output r)) (wf_results c)
       (fold (\<lambda>(k, v). AList.update k v) (wf_variables c)
         (fold (\<lambda>(k, v). insert_flat k v) (wf_input c) []))"

subsection \<open>Conditions\<close>

definition resolve_prompt_template :: "(json \<Rightarrow> str) \<Rightarrow> str \<Rightarrow> (str \<times> json) list \<Rightarrow> str" where
  "resolve_prompt_template to_text t ctx =
     fold (\<lambda>(k, v). replace_str (''{{'' @ k @ ''}}'') (case v of JString s \<Rightarrow> s | _ \<Rightarrow> to_text v)) ctx t"

definition placeholder_ref :: "str \<Rightarrow> str \<times> str option" where
  "placeholder_ref inner =
     (case find_str ''.'' inner of
        None \<Rightarrow> (trim inner, None)
      | Some i \<Rightarrow> (trim (take i inner), Some (trim (drop (i + 1) inner))))"

function placeholder_refs :: "str \<Rightarrow> (str \<times> str option) list" where
  "placeholder_refs rest =
     (case find_str ''{{'' rest of
        None \<Rightarrow> []
      | Some start \<Rightarrow>
          (let after = drop (start + 2) rest in
           case find_str ''}}'' after of
             None \<Rightarrow> []
           | Some e \<Rightarrow>
               (let inner = trim (take e after) in
                (if inner = [] then [] else [placeholder_ref inner]) @ placeholder_refs (drop (e + 2) after))))"
  by pat_completeness auto
termination
  by (relation "measure length") (auto dest!: find_str_Some_iff)

declare placeholder_refs.simps [simp del]

subsection \<open>Environment and outcome\<close>

datatype attempt_outcome = AttemptOk node_result | AttemptErr str | AttemptTimedOut | AttemptCancelled

record sched_env =
  se_execute :: "node_def \<Rightarrow> (str \<times> json) list \<Rightarrow> wf_context \<Rightarrow> nat \<Rightarrow> attempt_outcome"
  se_registered :: "str \<Rightarrow> bool"
  se_panics :: "str \<Rightarrow> bool"
  se_cancelled_level :: "nat \<Rightarrow> bool"
  se_cancelled_attempt :: "str \<Rightarrow> nat \<Rightarrow> bool"
  se_cancelled_backoff :: "str \<Rightarrow> nat \<Rightarrow> bool"
  se_cancelled_await :: "str \<Rightarrow> bool"
  se_cancelled_after :: "str \<Rightarrow> bool"
  se_to_text :: "json \<Rightarrow> str"
  se_condition :: "str \<Rightarrow> (str \<times> json) list \<Rightarrow> bool"

datatype run_error = ExecutorError str | TimedOut

datatype sched_error =
    SortFailed graph_error
  | SortPanicked
  | UnresolvedCondition str str
  | NodeNotFound str
  | NoExecutor str str
  | NodeFailed str run_error
  | NoResult str
  | TaskPanicked str

datatype schedule_outcome = OutcomeCompleted | OutcomeCancelled

text \<open>
  The state of a run: the context, the tasks that were spawned, each with the context it was given,
  and the contexts passed to the progress hook.
\<close>

record run_state =
  rs_ctx :: wf_context
  rs_started :: "(str \<times> wf_context) list"
  rs_hooked :: "wf_context list"

subsection \<open>Conditional edges\<close>

definition cond_edges :: "edge list \<Rightarrow> str \<Rightarrow> edge list" where
  "cond_edges edges v = filter (\<lambda>e. condition e \<noteq> None \<and> to_node e = v) edges"

fun edge_conditions :: "sched_env \<Rightarrow> str \<Rightarrow> wf_context \<Rightarrow> edge list \<Rightarrow> sched_error + bool" where
  "edge_conditions env v c [] = Inr True"
| "edge_conditions env v c (e # es) =
     (case condition e of
        None \<Rightarrow> edge_conditions env v c es
      | Some cond \<Rightarrow>
          (let ctx = build_executor_context c in
           if contains_str (resolve_prompt_template (se_to_text env) cond ctx) ''{{''
           then (if list_ex (\<lambda>(head, _). \<exists>(k, r) \<in> set (wf_results c). k = head \<and> nr_state r = Completed)
                      (placeholder_refs cond)
                 then Inl (UnresolvedCondition v cond) else Inr False)
           else if \<not> se_condition env cond ctx then Inr False
           else edge_conditions env v c es))"

definition eval_edge_conditions :: "sched_env \<Rightarrow> edge list \<Rightarrow> str \<Rightarrow> wf_context \<Rightarrow> sched_error + bool" where
  "eval_edge_conditions env edges v c = edge_conditions env v c (cond_edges edges v)"

subsection \<open>One task\<close>

text \<open>
  The attempts of a task: the number of attempts left, the number of the attempt, and the last result
  and error.
\<close>

fun attempts :: "sched_env \<Rightarrow> node_def \<Rightarrow> (str \<times> json) list \<Rightarrow> wf_context \<Rightarrow> nat \<Rightarrow> nat \<Rightarrow>
    node_result option \<Rightarrow> run_error option \<Rightarrow> node_result option \<times> run_error option" where
  "attempts env n ctx c 0 k lr le = (lr, le)"
| "attempts env n ctx c (Suc left) k lr le =
     (if se_cancelled_attempt env (nd_id n) k then (lr, le)
      else
        (let again = (\<lambda>lr le. if left > 0 \<and> se_cancelled_backoff env (nd_id n) k then (lr, le)
                              else attempts env n ctx c left (k + 1) lr le)
         in case se_execute env n ctx c k of
              AttemptCancelled \<Rightarrow> (lr, le)
            | AttemptOk r \<Rightarrow> if nr_state r \<noteq> Failed then (Some r, None) else again (Some r) (map_option ExecutorError (nr_error r))
            | AttemptErr e \<Rightarrow> again lr (Some (ExecutorError e))
            | AttemptTimedOut \<Rightarrow> again lr (Some TimedOut)))"

definition run_task :: "sched_env \<Rightarrow> node_def \<Rightarrow> wf_context \<Rightarrow> node_result option \<times> run_error option" where
  "run_task env n c = attempts env n (build_executor_context c) c (retry_count n + 1) 0 None None"

subsection \<open>One level\<close>

fun runnable :: "sched_env \<Rightarrow> edge list \<Rightarrow> str set \<Rightarrow> wf_context \<Rightarrow> str list \<Rightarrow> sched_error + str list" where
  "runnable env edges skip c [] = Inr []"
| "runnable env edges skip c (v # vs) =
     (if v \<in> skip then runnable env edges skip c vs
      else (case eval_edge_conditions env edges v c of
              Inl e \<Rightarrow> Inl e
            | Inr ok \<Rightarrow>
                (case runnable env edges skip c vs of
                   Inl e \<Rightarrow> Inl e
                 | Inr r \<Rightarrow> Inr (if ok then v # r else r))))"

text \<open>The tasks are spawned one after the other; a missing node or executor ends the run, with the tasks spawned so far running.\<close>

fun spawn :: "sched_env \<Rightarrow> (str \<rightharpoonup> node_def) \<Rightarrow> wf_context \<Rightarrow> str list \<Rightarrow> node_def list \<Rightarrow>
    node_def list \<times> (sched_error + unit)" where
  "spawn env nm c [] ns = (ns, Inr ())"
| "spawn env nm c (v # vs) ns =
     (case nm v of
        None \<Rightarrow> (ns, Inl (NodeNotFound v))
      | Some n \<Rightarrow>
          if \<not> se_registered env (node_type n) then (ns, Inl (NoExecutor (node_type n) v))
          else spawn env nm c vs (ns @ [n]))"

definition store_result :: "str \<Rightarrow> node_result \<Rightarrow> wf_context \<Rightarrow> wf_context" where
  "store_result v r c =
     set_node_result v r (fold (\<lambda>(f, x). set_var (v @ ''.'' @ f) x) (json_fields (nr_output r)) c)"

text \<open>Collecting the tasks, which all began with the context c0.\<close>

fun collect :: "sched_env \<Rightarrow> wf_context \<Rightarrow> node_def list \<Rightarrow> wf_context \<Rightarrow>
    wf_context \<times> (sched_error + schedule_outcome) option" where
  "collect env c0 [] c = (c, None)"
| "collect env c0 (n # ns) c =
     (let v = nd_id n in
      if se_cancelled_await env v then (c, Some (Inr OutcomeCancelled))
      else if se_panics env v
      then (c, Some (if se_cancelled_after env v then Inr OutcomeCancelled else Inl (TaskPanicked v)))
      else (case run_task env n c0 of
              (Some r, None) \<Rightarrow> collect env c0 ns (store_result v r c)
            | (_, Some e) \<Rightarrow> (c, Some (Inl (NodeFailed v e)))
            | (None, None) \<Rightarrow>
                (c, Some (if se_cancelled_after env v then Inr OutcomeCancelled else Inl (NoResult v)))))"

definition some_waiting :: "wf_context \<Rightarrow> bool" where
  "some_waiting c = list_ex (\<lambda>(_, r). nr_state r = Waiting) (wf_results c)"

definition run_level :: "sched_env \<Rightarrow> (str \<rightharpoonup> node_def) \<Rightarrow> edge list \<Rightarrow> str set \<Rightarrow> bool \<Rightarrow> nat \<Rightarrow> str list \<Rightarrow>
    run_state \<Rightarrow> run_state \<times> (sched_error + schedule_outcome) option" where
  "run_level env nm edges skip hook i level s =
     (if se_cancelled_level env i then (s, Some (Inr OutcomeCancelled))
      else (case runnable env edges skip (rs_ctx s) level of
              Inl e \<Rightarrow> (s, Some (Inl e))
            | Inr [] \<Rightarrow> (s, None)
            | Inr vs \<Rightarrow>
                (case spawn env nm (rs_ctx s) vs [] of
                   (ns, sp) \<Rightarrow>
                     (let s1 = s\<lparr>rs_started := rs_started s @ map (\<lambda>n. (nd_id n, rs_ctx s)) ns\<rparr> in
                      case sp of
                        Inl e \<Rightarrow> (s1, Some (Inl e))
                      | Inr _ \<Rightarrow>
                          (case collect env (rs_ctx s) ns (rs_ctx s) of
                             (c, Some stop) \<Rightarrow> (s1\<lparr>rs_ctx := c\<rparr>, Some stop)
                           | (c, None) \<Rightarrow>
                               (s1\<lparr>rs_ctx := c, rs_hooked := rs_hooked s @ (if hook then [c] else [])\<rparr>,
                                if some_waiting c then Some (Inr OutcomeCompleted) else None))))))"

fun run_levels :: "sched_env \<Rightarrow> (str \<rightharpoonup> node_def) \<Rightarrow> edge list \<Rightarrow> str set \<Rightarrow> bool \<Rightarrow> nat \<Rightarrow> str list list \<Rightarrow>
    run_state \<Rightarrow> run_state \<times> (sched_error + schedule_outcome)" where
  "run_levels env nm edges skip hook i [] s = (s, Inr OutcomeCompleted)"
| "run_levels env nm edges skip hook i (l # ls) s =
     (case run_level env nm edges skip hook i l s of
        (s', Some stop) \<Rightarrow> (s', stop)
      | (s', None) \<Rightarrow> run_levels env nm edges skip hook (i + 1) ls s')"

definition node_map :: "node_def list \<Rightarrow> str \<rightharpoonup> node_def" where
  "node_map nodes = map_of (rev (map (\<lambda>n. (nd_id n, n)) nodes))"

definition initial_run :: "wf_context \<Rightarrow> run_state" where
  "initial_run c = \<lparr>rs_ctx = c, rs_started = [], rs_hooked = []\<rparr>"

definition schedule_inner :: "sched_env \<Rightarrow> (degrees \<Rightarrow> degrees) \<Rightarrow> node_def list \<Rightarrow> edge list \<Rightarrow> str set \<Rightarrow> bool \<Rightarrow>
    wf_context \<Rightarrow> run_state \<times> (sched_error + schedule_outcome)" where
  "schedule_inner env iter nodes edges skip hook c =
     (case topological_sort iter nodes edges of
        None \<Rightarrow> (initial_run c, Inl SortPanicked)
      | Some (Inl e) \<Rightarrow> (initial_run c, Inl (SortFailed e))
      | Some (Inr levels) \<Rightarrow> run_levels env (node_map nodes) edges skip hook 0 levels (initial_run c))"

text \<open>\<^verbatim>\<open>schedule\<close>, \<^verbatim>\<open>schedule_with_hook\<close>, \<^verbatim>\<open>schedule_resume\<close> and \<^verbatim>\<open>schedule_resume_with_hook\<close>.\<close>

definition schedule :: "sched_env \<Rightarrow> (degrees \<Rightarrow> degrees) \<Rightarrow> node_def list \<Rightarrow> edge list \<Rightarrow> bool \<Rightarrow>
    wf_context \<Rightarrow> run_state \<times> (sched_error + schedule_outcome)" where
  "schedule env iter nodes edges hook c = schedule_inner env iter nodes edges {} hook c"

definition schedule_resume :: "sched_env \<Rightarrow> (degrees \<Rightarrow> degrees) \<Rightarrow> node_def list \<Rightarrow> edge list \<Rightarrow> str set \<Rightarrow> bool \<Rightarrow>
    wf_context \<Rightarrow> run_state \<times> (sched_error + schedule_outcome)" where
  "schedule_resume env iter nodes edges completed hook c = schedule_inner env iter nodes edges completed hook c"

subsection \<open>Results of a context\<close>

lemma get_node_result_set [simp]:
  "get_node_result u (set_node_result v r c) = (if u = v then Some r else get_node_result u c)"
  by (simp add: get_node_result_def set_node_result_def update_conv')

lemma wf_results_set_var [simp]: "wf_results (set_var k x c) = wf_results c"
  by (simp add: set_var_def)

lemma wf_results_set_vars [simp]: "wf_results (fold (\<lambda>(f, x). set_var (g f) x) fs c) = wf_results c"
  by (induction fs arbitrary: c) auto

lemma get_node_result_store [simp]:
  "get_node_result u (store_result v r c) = (if u = v then Some r else get_node_result u c)"
  by (simp add: store_result_def) (simp add: get_node_result_def)

lemma some_waiting_cong: "wf_results c = wf_results c' \<Longrightarrow> some_waiting c = some_waiting c'"
  by (simp add: some_waiting_def)

subsection \<open>What a level does\<close>

lemma runnable_set:
  "runnable env edges skip c l = Inr vs \<Longrightarrow> distinct l \<Longrightarrow> distinct vs \<and> set vs \<subseteq> set l - skip"
  by (induction l arbitrary: vs) (fastforce split: if_splits sum.splits)+

lemma spawn_ids:
  assumes "spawn env nm c vs ns0 = (ns, r)" and "\<And>v n. nm v = Some n \<Longrightarrow> nd_id n = v"
  shows "\<exists>ws. prefix ws vs \<and> map nd_id ns = map nd_id ns0 @ ws \<and> (r = Inr () \<longrightarrow> ws = vs)"
  using assms(1)
proof (induction vs arbitrary: ns0)
  case (Cons v vs)
  show ?case
  proof (cases "\<exists>n. nm v = Some n \<and> se_registered env (node_type n)")
    case True
    then obtain n where n: "nm v = Some n" "se_registered env (node_type n)" by blast
    with Cons obtain ws where "prefix ws vs" "map nd_id ns = map nd_id (ns0 @ [n]) @ ws" "r = Inr () \<longrightarrow> ws = vs"
      by fastforce
    with n assms(2) show ?thesis by (intro exI [of _ "v # ws"]) simp
  next
    case False
    with Cons.prems show ?thesis by (auto split: option.splits if_splits)
  qed
qed simp

text \<open>Collecting changes the results of its own nodes only, and completes only with all of them stored.\<close>

lemma collect_results:
  assumes "collect env c0 ns c = (c', r)"
  shows "(u \<notin> nd_id ` set ns \<longrightarrow> get_node_result u c' = get_node_result u c) \<and>
    (get_node_result u c \<noteq> None \<longrightarrow> get_node_result u c' \<noteq> None) \<and>
    (r = None \<and> u \<in> nd_id ` set ns \<longrightarrow> get_node_result u c' \<noteq> None)"
  using assms
proof (induction ns arbitrary: c)
  case (Cons n ns)
  show ?case
  proof (cases "\<not> se_cancelled_await env (nd_id n) \<and> \<not> se_panics env (nd_id n) \<and> (\<exists>x. run_task env n c0 = (Some x, None))")
    case True
    then obtain x where "collect env c0 ns (store_result (nd_id n) x c) = (c', r)"
      using Cons.prems by (auto simp: Let_def)
    from Cons.IH [OF this] show ?thesis by auto
  next
    case False
    with Cons.prems have "c' = c \<and> r \<noteq> None"
      by (auto simp: Let_def split: prod.splits option.splits if_splits)
    then show ?thesis by auto
  qed
qed simp

definition good_map :: "(str \<rightharpoonup> node_def) \<Rightarrow> bool" where
  "good_map nm \<longleftrightarrow> (\<forall>v n. nm v = Some n \<longrightarrow> nd_id n = v)"

lemma good_map_node_map [simp]: "good_map (node_map nodes)"
proof -
  have "map_of (map (\<lambda>n. (nd_id n, n)) ns) v = Some n \<Longrightarrow> nd_id n = v" for ns v n
    by (induction ns) (auto split: if_splits)
  then show ?thesis unfolding good_map_def node_map_def by (metis rev_map)
qed

text \<open>
  One level: what it starts, in order and with the context of its beginning; the results it leaves
  alone; and when it goes on, every node it started has a result and no node waits.
\<close>

lemma run_level_spec:
  assumes "run_level env nm edges skip hook i l s = (s', r)" and "good_map nm" and "distinct l"
  shows "\<exists>vs. rs_started s' = rs_started s @ map (\<lambda>v. (v, rs_ctx s)) vs \<and> distinct vs \<and> set vs \<subseteq> set l - skip \<and>
    (\<forall>u. (u \<notin> set vs \<longrightarrow> get_node_result u (rs_ctx s') = get_node_result u (rs_ctx s)) \<and>
         (get_node_result u (rs_ctx s) \<noteq> None \<longrightarrow> get_node_result u (rs_ctx s') \<noteq> None) \<and>
         (r = None \<and> u \<in> set vs \<longrightarrow> get_node_result u (rs_ctx s') \<noteq> None)) \<and>
    (r = None \<longrightarrow> rs_ctx s' = rs_ctx s \<or> \<not> some_waiting (rs_ctx s'))"
proof -
  have idle: "?thesis" if "s' = s" using that by (intro exI [of _ "[]"]) simp
  show ?thesis
  proof (cases "runnable env edges skip (rs_ctx s) l")
    case (Inl e)
    with assms(1) idle show ?thesis by (auto simp: run_level_def split: if_splits)
  next
    case (Inr vs)
    show ?thesis
    proof (cases "se_cancelled_level env i \<or> vs = []")
      case True
      with Inr assms(1) idle show ?thesis by (auto simp: run_level_def split: if_splits)
    next
      case False
      obtain ns sp where sp: "spawn env nm (rs_ctx s) vs [] = (ns, sp)" by fastforce
      obtain ws where ws: "prefix ws vs" "map nd_id ns = ws" "sp = Inr () \<longrightarrow> ws = vs"
        using spawn_ids [OF sp] assms(2) by (auto simp: good_map_def)
      have d: "distinct ws \<and> set ws \<subseteq> set l - skip"
        using runnable_set [OF Inr assms(3)] ws(1) by (auto simp: prefix_def)
      obtain c cr where col: "collect env (rs_ctx s) ns (rs_ctx s) = (c, cr)" by fastforce
      let ?new = "rs_started s @ map (\<lambda>n. (nd_id n, rs_ctx s)) ns"
      have m: "map (\<lambda>n. (nd_id n, rs_ctx s)) ns = map (\<lambda>v. (v, rs_ctx s)) ws"
        using ws(2) by auto
      have R: "rs_started s' = ?new \<and> (rs_ctx s' = rs_ctx s \<and> r \<noteq> None \<or>
          rs_ctx s' = c \<and> (r = None \<longrightarrow> cr = None \<and> \<not> some_waiting c))"
        using assms(1) Inr False sp col
        by (cases vs; cases sp; cases cr) (auto simp: run_level_def Let_def split: if_splits)
      have set_ws: "nd_id ` set ns = set ws" using ws(2) by (metis list.set_map)
      show ?thesis
        using R d collect_results [OF col, unfolded set_ws] m by (intro exI [of _ ws]) auto
    qed
  qed
qed

subsection \<open>What a run does\<close>

text \<open>
  The levels from a state on: the new tasks come from the levels, none of them is skipped, none runs
  twice; results of other nodes stay; a task sees the results of all tasks of earlier levels, and
  it sees no waiting node unless one was waiting at the beginning.
\<close>

definition run_ok :: "str set \<Rightarrow> str list list \<Rightarrow> run_state \<Rightarrow> run_state \<Rightarrow> (str \<times> wf_context) list \<Rightarrow> bool" where
  "run_ok skip ls s s' new \<longleftrightarrow>
     rs_started s' = rs_started s @ new \<and> distinct (map fst new) \<and>
     fst ` set new \<subseteq> set (concat ls) - skip \<and>
     (\<forall>u. u \<notin> fst ` set new \<longrightarrow> get_node_result u (rs_ctx s') = get_node_result u (rs_ctx s)) \<and>
     (\<forall>v c. (v, c) \<in> set new \<longrightarrow>
        (\<forall>u. get_node_result u (rs_ctx s) \<noteq> None \<longrightarrow> get_node_result u c \<noteq> None) \<and>
        (\<forall>k < length ls. v \<in> set (ls ! k) \<longrightarrow>
           (\<forall>u \<in> fst ` set new. u \<in> set (concat (take k ls)) \<longrightarrow> get_node_result u c \<noteq> None)) \<and>
        (some_waiting c \<longrightarrow> some_waiting (rs_ctx s)))"

lemma run_levels_ok:
  assumes "run_levels env nm edges skip hook i ls s = (s', r)" and "good_map nm" and "distinct (concat ls)"
  shows "\<exists>new. run_ok skip ls s s' new"
  using assms(1,3)
proof (induction ls arbitrary: i s)
  case Nil
  then show ?case by (auto simp: run_ok_def)
next
  case (Cons l ls)
  obtain s1 r1 where lv: "run_level env nm edges skip hook i l s = (s1, r1)" by fastforce
  from Cons.prems have dl: "distinct l" "distinct (concat ls)" "set l \<inter> set (concat ls) = {}" by auto
  obtain vs where V: "rs_started s1 = rs_started s @ map (\<lambda>v. (v, rs_ctx s)) vs" "distinct vs" "set vs \<subseteq> set l - skip"
    "\<And>u. u \<notin> set vs \<Longrightarrow> get_node_result u (rs_ctx s1) = get_node_result u (rs_ctx s)"
    "\<And>u. get_node_result u (rs_ctx s) \<noteq> None \<Longrightarrow> get_node_result u (rs_ctx s1) \<noteq> None"
    "\<And>u. r1 = None \<Longrightarrow> u \<in> set vs \<Longrightarrow> get_node_result u (rs_ctx s1) \<noteq> None"
    "r1 = None \<Longrightarrow> rs_ctx s1 = rs_ctx s \<or> \<not> some_waiting (rs_ctx s1)"
    using run_level_spec [OF lv assms(2) dl(1)] by blast
  let ?lvl = "map (\<lambda>v. (v, rs_ctx s)) vs"
  have fst_lvl: "fst ` set ?lvl = set vs" "map fst ?lvl = vs" by (auto simp: image_image o_def)
  have nth: "k = 0" if "v \<in> set l" "k < length (l # ls)" "v \<in> set ((l # ls) ! k)" for v k
    using that dl(3) by (cases k) (auto dest: nth_mem)
  obtain new where N: "run_ok skip ls s1 s' new" and None: "new \<noteq> [] \<Longrightarrow> r1 = None"
  proof (cases r1)
    case (Some stop)
    with Cons.prems lv have "s' = s1" by simp
    then have "run_ok skip ls s1 s' []" by (simp add: run_ok_def)
    with that show ?thesis by blast
  next
    case None
    with Cons.prems(1) lv have "run_levels env nm edges skip hook (i + 1) ls s1 = (s', r)" by simp
    from Cons.IH [OF this dl(2)] that None show ?thesis by blast
  qed
  note N' = N [unfolded run_ok_def]
  have sub: "fst ` set new \<subseteq> set (concat ls)" using N' by blast
  have "run_ok skip (l # ls) s s' (?lvl @ new)"
    unfolding run_ok_def
  proof (intro conjI allI impI)
    show "rs_started s' = rs_started s @ ?lvl @ new" using N' V(1) by simp
    have "set vs \<inter> fst ` set new = {}" using V(3) dl(3) sub by blast
    moreover have "distinct (map fst new)" using N' by blast
    ultimately show "distinct (map fst (?lvl @ new))" using V(2) fst_lvl(2) by simp
    show "fst ` set (?lvl @ new) \<subseteq> set (concat (l # ls)) - skip" using N' V(3) by auto
  next
    fix u assume "u \<notin> fst ` set (?lvl @ new)"
    then have "u \<notin> set vs" "u \<notin> fst ` set new" by (simp_all add: image_Un image_image)
    then show "get_node_result u (rs_ctx s') = get_node_result u (rs_ctx s)" using N' V(4) by simp
  next
    fix v c u assume "(v, c) \<in> set (?lvl @ new)" "get_node_result u (rs_ctx s) \<noteq> None"
    then show "get_node_result u c \<noteq> None" using N' V(5) [of u] by auto
  next
    fix v c assume "(v, c) \<in> set (?lvl @ new)" "some_waiting c"
    then show "some_waiting (rs_ctx s)" using N' V(7) None by (cases new) auto
  next
    fix v c k assume vc: "(v, c) \<in> set (?lvl @ new)" and k: "k < length (l # ls)" "v \<in> set ((l # ls) ! k)"
    show "\<forall>u \<in> fst ` set (?lvl @ new). u \<in> set (concat (take k (l # ls))) \<longrightarrow> get_node_result u c \<noteq> None"
    proof (cases "v \<in> set l")
      case True
      then have "k = 0" using nth k by blast
      then show ?thesis by simp
    next
      case False
      with vc V(3) have n: "(v, c) \<in> set new" by auto
      then have r: "r1 = None" using None by (cases new) auto
      from False k obtain j where j: "k = Suc j" "j < length ls" "v \<in> set (ls ! j)" by (cases k) auto
      have "get_node_result u c \<noteq> None" if "u \<in> set vs" for u
        using V(6) [OF r that] N' n by blast
      moreover have "get_node_result u c \<noteq> None" if "u \<in> fst ` set new" "u \<in> set (concat (take k (l # ls)))" for u
      proof -
        have "u \<notin> set l" using that(1) sub dl(3) by auto
        with that(2) j(1) have "u \<in> set (concat (take j ls))" by auto
        with N' n j that(1) show ?thesis by blast
      qed
      ultimately show ?thesis by (auto simp: image_Un image_image)
    qed
  qed
  then show ?case by blast
qed

lemma schedule_inner_ok:
  assumes "schedule_inner env iter nodes edges skip hook c = (s, r)" and "iterates_once iter" and "closed_graph nodes edges"
  shows "s = initial_run c \<or>
    (\<exists>ls. topological_sort iter nodes edges = Some (Inr ls) \<and> run_ok skip ls (initial_run c) s (rs_started s))"
proof (cases "topological_sort iter nodes edges")
  case (Some t)
  show ?thesis
  proof (cases t)
    case (Inr ls)
    have "distinct (concat ls)"
      using topological_sort_ok(1) [OF assms(2)] Some Inr by (auto simp: levels_ok_def)
    moreover have "run_levels env (node_map nodes) edges skip hook 0 ls (initial_run c) = (s, r)"
      using assms(1) Some Inr by (simp add: schedule_inner_def)
    ultimately obtain new where "run_ok skip ls (initial_run c) s new"
      using run_levels_ok good_map_node_map by blast
    with Some Inr show ?thesis by (auto simp: run_ok_def initial_run_def)
  qed (use assms(1) Some in \<open>auto simp: schedule_inner_def\<close>)
qed (use assms(1) in \<open>auto simp: schedule_inner_def\<close>)

subsection \<open>Properties\<close>


definition ok_env :: sched_env where
  "ok_env = \<lparr>se_execute = (\<lambda>n ctx c k. AttemptOk \<lparr>nr_state = Completed, nr_output = JString (nd_id n), nr_error = None\<rparr>),
     se_registered = (\<lambda>_. True), se_panics = (\<lambda>_. False), se_cancelled_level = (\<lambda>_. False),
     se_cancelled_attempt = (\<lambda>_ _. False), se_cancelled_backoff = (\<lambda>_ _. False), se_cancelled_await = (\<lambda>_. False),
     se_cancelled_after = (\<lambda>_. False), se_to_text = (\<lambda>_. ''x''), se_condition = (\<lambda>_ _. True)\<rparr>"

definition no_context :: wf_context where
  "no_context = \<lparr>wf_variables = [], wf_results = [], wf_input = []\<rparr>"


text \<open>
  Resuming repeats nothing.  A resumed run starts no node that the checkpoint lists as completed,
  keeps the results of those nodes, starts only nodes of the workflow and none of them twice.
\<close>

theorem resume_keeps_completed:
  assumes "schedule_resume env iter nodes edges completed hook c = (s, r)" and "iterates_once iter"
    and "closed_graph nodes edges"
  shows "distinct (map fst (rs_started s)) \<and> fst ` set (rs_started s) \<subseteq> nd_id ` set nodes - completed \<and>
    (\<forall>u. u \<in> completed \<longrightarrow> get_node_result u (rs_ctx s) = get_node_result u c)"
proof -
  note S = assms(1) [unfolded schedule_resume_def]
  from schedule_inner_ok [OF S assms(2,3)] show ?thesis
  proof
    assume "s = initial_run c"
    then show ?thesis by (simp add: initial_run_def)
  next
    assume "\<exists>ls. topological_sort iter nodes edges = Some (Inr ls) \<and> run_ok completed ls (initial_run c) s (rs_started s)"
    then obtain ls where L: "topological_sort iter nodes edges = Some (Inr ls)"
      "run_ok completed ls (initial_run c) s (rs_started s)" by blast
    have "set (concat ls) \<subseteq> nd_id ` set nodes"
      using topological_sort_ok(1) [OF assms(2) L(1), unfolded closed_graph_keys [OF assms(3)]]
      by (auto simp: levels_ok_def)
    moreover note R = L(2) [unfolded run_ok_def]
    moreover have "get_node_result u (rs_ctx s) = get_node_result u c" if "u \<in> completed" for u
      using R that by (metis (no_types, lifting) DiffE initial_run_def run_state.select_convs(1) subsetD)
    ultimately show ?thesis by blast
  qed
qed

theorem resume_keeps_completed_witness:
  "let s = fst (schedule_resume ok_env (\<lambda>d. d) diamond diamond_edges {''a'', ''b''} True no_context) in
     distinct (map fst (rs_started s)) \<and> map fst (rs_started s) = [''c'', ''d'']"
proof -
  let ?x = "schedule_resume ok_env (\<lambda>d. d) diamond diamond_edges {''a'', ''b''} True no_context"
  have "map fst (rs_started (fst ?x)) = [''c'', ''d'']" by code_simp
  moreover have "closed_graph diamond diamond_edges" by code_simp
  ultimately show ?thesis
    using resume_keeps_completed [OF _ iterates_once_id, of ok_env diamond diamond_edges "{''a'', ''b''}" True no_context
        "fst ?x" "snd ?x"] by (simp add: Let_def)
qed

text \<open>
  Nothing runs behind a node that waits for a person.  When no node is waiting at the beginning,
  no task is ever started in a context in which a node waits; the run ends with the level that
  brought the waiting node.
\<close>

theorem waiting_stops_the_run:
  assumes "schedule_inner env iter nodes edges skip hook c = (s, r)" and "iterates_once iter" and "closed_graph nodes edges"
    and "\<not> some_waiting c" and "(v, ctx) \<in> set (rs_started s)"
  shows "\<not> some_waiting ctx"
  using schedule_inner_ok [OF assms(1-3)] assms(4,5) by (auto simp: run_ok_def initial_run_def)

definition waiting_env :: sched_env where
  "waiting_env = ok_env\<lparr>se_execute := (\<lambda>n ctx c k. AttemptOk
     \<lparr>nr_state = (if nd_id n = ''b'' then Waiting else Completed), nr_output = JNull, nr_error = None\<rparr>)\<rparr>"

theorem waiting_stops_the_run_witness:
  "let s = fst (schedule_inner waiting_env (\<lambda>d. d) diamond diamond_edges {} False no_context) in
     map fst (rs_started s) = [''a'', ''b'', ''c''] \<and> list_all (\<lambda>(v, ctx). \<not> some_waiting ctx) (rs_started s)"
proof -
  let ?x = "schedule_inner waiting_env (\<lambda>d. d) diamond diamond_edges {} False no_context"
  have "map fst (rs_started (fst ?x)) = [''a'', ''b'', ''c'']" by code_simp
  moreover have "closed_graph diamond diamond_edges" "\<not> some_waiting no_context" by code_simp+
  ultimately show ?thesis
    using waiting_stops_the_run [OF _ iterates_once_id, of waiting_env diamond diamond_edges "{}" False no_context
        "fst ?x" "snd ?x"] by (auto simp: Let_def list_all_iff)
qed

subsection \<open>Retries\<close>

definition uncancelled :: "sched_env \<Rightarrow> bool" where
  "uncancelled env \<longleftrightarrow> (\<forall>i. \<not> se_cancelled_level env i) \<and> (\<forall>v k. \<not> se_cancelled_attempt env v k) \<and>
     (\<forall>v k. \<not> se_cancelled_backoff env v k) \<and> (\<forall>v. \<not> se_cancelled_await env v)"

fun succeeds :: "attempt_outcome \<Rightarrow> bool" where
  "succeeds (AttemptOk r) \<longleftrightarrow> nr_state r \<noteq> Failed"
| "succeeds _ \<longleftrightarrow> False"

lemma attempts_skip:
  assumes "uncancelled env" and "\<And>j. k \<le> j \<Longrightarrow> j < k + m \<Longrightarrow> \<not> succeeds (se_execute env n ctx c j) \<and> se_execute env n ctx c j \<noteq> AttemptCancelled"
    and "m \<le> left"
  shows "\<exists>lr' le'. attempts env n ctx c left k lr le = attempts env n ctx c (left - m) (k + m) lr' le' \<and>
    (0 < m \<longrightarrow> (case se_execute env n ctx c (k + m - 1) of
        AttemptOk r \<Rightarrow> lr' = Some r \<and> le' = map_option ExecutorError (nr_error r)
      | AttemptErr e \<Rightarrow> le' = Some (ExecutorError e)
      | _ \<Rightarrow> le' = Some TimedOut))"
  using assms(2,3)
proof (induction m arbitrary: k left lr le)
  case 0
  then show ?case by auto
next
  case (Suc m)
  obtain l where l: "left = Suc l" using Suc.prems(2) by (cases left) auto
  have u: "\<not> se_cancelled_attempt env (nd_id n) k" "\<not> se_cancelled_backoff env (nd_id n) k"
    using assms(1) by (auto simp: uncancelled_def)
  have o: "\<not> succeeds (se_execute env n ctx c k)" "se_execute env n ctx c k \<noteq> AttemptCancelled" using Suc.prems(1) [of k] by auto
  let ?o = "se_execute env n ctx c k"
  define lr1 where "lr1 = (case ?o of AttemptOk r \<Rightarrow> Some r | _ \<Rightarrow> lr)"
  define le1 where "le1 = (case ?o of AttemptOk r \<Rightarrow> map_option ExecutorError (nr_error r)
      | AttemptErr e \<Rightarrow> Some (ExecutorError e) | _ \<Rightarrow> Some TimedOut)"
  have s: "attempts env n ctx c left k lr le = attempts env n ctx c l (k + 1) lr1 le1"
    using u o by (cases ?o) (auto simp: l lr1_def le1_def Let_def)
  have "\<not> succeeds (se_execute env n ctx c j) \<and> se_execute env n ctx c j \<noteq> AttemptCancelled"
    if "k + 1 \<le> j" "j < k + 1 + m" for j using Suc.prems(1) [of j] that by auto
  moreover have "m \<le> l" using Suc.prems(2) l by simp
  ultimately obtain lr' le' where IH: "attempts env n ctx c l (k + 1) lr1 le1 = attempts env n ctx c (l - m) (k + 1 + m) lr' le'"
    "0 < m \<longrightarrow> (case se_execute env n ctx c (k + 1 + m - 1) of
        AttemptOk r \<Rightarrow> lr' = Some r \<and> le' = map_option ExecutorError (nr_error r)
      | AttemptErr e \<Rightarrow> le' = Some (ExecutorError e) | _ \<Rightarrow> le' = Some TimedOut)"
    using Suc.IH [of "k + 1" l lr1 le1] by blast
  show ?case
  proof (cases m)
    case 0
    then show ?thesis
      using s l o(2) by (intro exI [of _ lr1] exI [of _ le1]) (auto simp: lr1_def le1_def split: attempt_outcome.split)
  next
    case (Suc m')
    then show ?thesis using s IH l by (intro exI [of _ lr'] exI [of _ le']) auto
  qed
qed

lemma run_task_success:
  assumes "uncancelled env" and "k \<le> retry_count n" and "se_execute env n (build_executor_context c) c k = AttemptOk r"
    and "nr_state r \<noteq> Failed"
    and "\<And>j. j < k \<Longrightarrow> \<not> succeeds (se_execute env n (build_executor_context c) c j) \<and>
          se_execute env n (build_executor_context c) c j \<noteq> AttemptCancelled"
  shows "run_task env n c = (Some r, None)"
proof -
  let ?ctx = "build_executor_context c"
  obtain lr le where "run_task env n c = attempts env n ?ctx c (retry_count n + 1 - k) k lr le"
    using attempts_skip [OF assms(1), of 0 k n ?ctx c "retry_count n + 1" None None] assms(2,5)
    by (auto simp: run_task_def)
  moreover obtain l where "retry_count n + 1 - k = Suc l" using assms(2) by (metis Suc_diff_le Suc_eq_plus1)
  moreover have "\<not> se_cancelled_attempt env (nd_id n) k" using assms(1) by (simp add: uncancelled_def)
  ultimately show ?thesis using assms(3,4) by simp
qed

lemma run_task_failure:
  assumes "uncancelled env"
    and "\<And>j. j \<le> retry_count n \<Longrightarrow> \<not> succeeds (se_execute env n (build_executor_context c) c j) \<and>
          se_execute env n (build_executor_context c) c j \<noteq> AttemptCancelled"
  shows "case se_execute env n (build_executor_context c) c (retry_count n) of
      AttemptOk r \<Rightarrow> run_task env n c = (Some r, map_option ExecutorError (nr_error r))
    | AttemptErr e \<Rightarrow> snd (run_task env n c) = Some (ExecutorError e)
    | _ \<Rightarrow> snd (run_task env n c) = Some TimedOut"
  using attempts_skip [OF assms(1), of 0 "retry_count n + 1" n "build_executor_context c" c "retry_count n + 1" None None]
    assms(2) by (fastforce simp: run_task_def split: attempt_outcome.splits)

text \<open>
  The retries of a task.  A task that is not cancelled tries at most once more than its retry count;
  it ends with the first result that is not a failure, whatever failed before, and when all attempts
  fail, with the error of the last one.  A last attempt that reports failure without a message leaves
  no error, and its result is stored as if the node had succeeded.
\<close>

theorem retry_outcome:
  assumes "uncancelled env" and "\<forall>j \<le> retry_count n. se_execute env n (build_executor_context c) c j \<noteq> AttemptCancelled"
  shows "(\<forall>k r. k \<le> retry_count n \<and> se_execute env n (build_executor_context c) c k = AttemptOk r \<and> nr_state r \<noteq> Failed \<and>
        (\<forall>j < k. \<not> succeeds (se_execute env n (build_executor_context c) c j)) \<longrightarrow> run_task env n c = (Some r, None)) \<and>
    ((\<forall>j \<le> retry_count n. \<not> succeeds (se_execute env n (build_executor_context c) c j)) \<longrightarrow>
      (case se_execute env n (build_executor_context c) c (retry_count n) of
         AttemptOk r \<Rightarrow> run_task env n c = (Some r, map_option ExecutorError (nr_error r))
       | AttemptErr e \<Rightarrow> snd (run_task env n c) = Some (ExecutorError e)
       | _ \<Rightarrow> snd (run_task env n c) = Some TimedOut))"
  using run_task_success [OF assms(1), of _ n c] run_task_failure [OF assms(1), of n c] assms(2)
  by (meson le_trans less_imp_le)

definition flaky_env :: sched_env where
  "flaky_env = ok_env\<lparr>se_execute := (\<lambda>n ctx c k. if k = 0 then AttemptErr ''busy''
     else AttemptOk \<lparr>nr_state = Completed, nr_output = JNull, nr_error = None\<rparr>)\<rparr>"

theorem retry_outcome_witness:
  "run_task flaky_env ((example_node ''a'' [])\<lparr>retry_count := 2\<rparr>) no_context =
     (Some \<lparr>nr_state = Completed, nr_output = JNull, nr_error = None\<rparr>, None)"
proof -
  let ?n = "(example_node ''a'' [])\<lparr>retry_count := 2\<rparr>" and ?ok = "\<lparr>nr_state = Completed, nr_output = JNull, nr_error = None\<rparr>"
  have u: "uncancelled flaky_env" by (simp add: uncancelled_def flaky_env_def ok_env_def)
  have "\<forall>j \<le> retry_count ?n. se_execute flaky_env ?n (build_executor_context no_context) no_context j \<noteq> AttemptCancelled"
    by (simp add: flaky_env_def)
  from conjunct1 [OF retry_outcome [OF u this]] show ?thesis
    by (rule allE [of _ 1]) (simp add: flaky_env_def)
qed

subsection \<open>Completion\<close>

text \<open>An environment that lets every node of the workflow succeed within its retries, without waiting.\<close>

definition serves :: "sched_env \<Rightarrow> node_def list \<Rightarrow> bool" where
  "serves env nodes \<longleftrightarrow> uncancelled env \<and> (\<forall>n \<in> set nodes. se_registered env (node_type n) \<and> \<not> se_panics env (nd_id n) \<and>
     (\<forall>ctx c. \<exists>k \<le> retry_count n. \<exists>r. se_execute env n ctx c k = AttemptOk r \<and> nr_state r \<notin> {Failed, Waiting} \<and>
        (\<forall>j < k. \<not> succeeds (se_execute env n ctx c j) \<and> se_execute env n ctx c j \<noteq> AttemptCancelled)))"

lemma serves_task:
  assumes "serves env nodes" and "n \<in> set nodes"
  shows "\<exists>r. run_task env n c = (Some r, None) \<and> nr_state r \<noteq> Waiting"
proof -
  let ?ex = "se_execute env n (build_executor_context c) c"
  obtain k r where "k \<le> retry_count n" "?ex k = AttemptOk r" "nr_state r \<notin> {Failed, Waiting}"
    "\<forall>j < k. \<not> succeeds (?ex j) \<and> ?ex j \<noteq> AttemptCancelled"
    using assms unfolding serves_def by blast
  then show ?thesis using run_task_success [of env k n c r] assms(1) by (auto simp: serves_def)
qed

lemma runnable_unconditional:
  assumes "\<forall>e \<in> set edges. condition e = None"
  shows "runnable env edges skip c l = Inr (filter (\<lambda>v. v \<notin> skip) l)"
proof -
  have "cond_edges edges v = []" for v using assms by (auto simp: cond_edges_def)
  then show ?thesis by (induction l) (auto simp: eval_edge_conditions_def)
qed

lemma spawn_all:
  assumes "serves env nodes" and "set vs \<subseteq> nd_id ` set nodes"
  shows "\<exists>ns. spawn env (node_map nodes) c vs ns0 = (ns0 @ ns, Inr ()) \<and> set ns \<subseteq> set nodes \<and> map nd_id ns = vs"
  using assms(2)
proof (induction vs arbitrary: ns0)
  case (Cons v vs)
  then have "node_map nodes v \<noteq> None"
    by (auto simp: node_map_def map_of_eq_None_iff image_image)
  then obtain n where n: "node_map nodes v = Some n" by blast
  then have "(v, n) \<in> set (rev (map (\<lambda>n. (nd_id n, n)) nodes))" unfolding node_map_def by (rule map_of_SomeD)
  then have m: "n \<in> set nodes" "nd_id n = v" by auto
  with Cons.IH [of "ns0 @ [n]"] Cons.prems obtain ns where
    "spawn env (node_map nodes) c vs (ns0 @ [n]) = ((ns0 @ [n]) @ ns, Inr ())" "set ns \<subseteq> set nodes" "map nd_id ns = vs"
    by auto
  with n m assms(1) show ?case by (intro exI [of _ "n # ns"]) (auto simp: serves_def)
qed simp

lemma waiting_store:
  assumes "\<not> some_waiting c" and "nr_state r \<noteq> Waiting"
  shows "\<not> some_waiting (store_result v r c)"
proof -
  have "set (AList.update v r al) \<subseteq> insert (v, r) (set al)" for al
    by (induction al) auto
  with assms show ?thesis
    by (fastforce simp: some_waiting_def store_result_def set_node_result_def list_ex_iff)
qed

lemma collect_all:
  assumes "serves env nodes" and "set ns \<subseteq> set nodes" and "\<not> some_waiting c"
  shows "\<exists>c'. collect env c0 ns c = (c', None) \<and> \<not> some_waiting c'"
  using assms(2,3)
proof (induction ns arbitrary: c)
  case (Cons n ns)
  obtain r where "run_task env n c0 = (Some r, None)" "nr_state r \<noteq> Waiting"
    using serves_task [OF assms(1)] Cons.prems(1) by (meson list.set_intros(1) subsetD)
  moreover have "\<not> se_cancelled_await env (nd_id n)" "\<not> se_panics env (nd_id n)"
    using assms(1) Cons.prems(1) by (auto simp: serves_def uncancelled_def)
  ultimately show ?case using Cons waiting_store by (auto simp: Let_def)
qed simp

lemma run_levels_complete:
  assumes "serves env nodes" and "\<forall>e \<in> set edges. condition e = None" and "set (concat ls) \<subseteq> nd_id ` set nodes"
    and "\<not> some_waiting (rs_ctx s)"
  shows "\<exists>s'. run_levels env (node_map nodes) edges skip hook i ls s = (s', Inr OutcomeCompleted) \<and>
    map fst (rs_started s') = map fst (rs_started s) @ filter (\<lambda>v. v \<notin> skip) (concat ls)"
  using assms(3,4)
proof (induction ls arbitrary: i s)
  case (Cons l ls)
  let ?vs = "filter (\<lambda>v. v \<notin> skip) l"
  have nc: "\<not> se_cancelled_level env i" using assms(1) by (simp add: serves_def uncancelled_def)
  show ?case
  proof (cases "?vs = []")
    case True
    then have "run_level env (node_map nodes) edges skip hook i l s = (s, None)"
      by (simp add: run_level_def nc runnable_unconditional [OF assms(2)])
    with Cons True show ?thesis by simp
  next
    case False
    have sub: "set ?vs \<subseteq> nd_id ` set nodes" using Cons.prems(1) by auto
    obtain ns where ns: "spawn env (node_map nodes) (rs_ctx s) ?vs [] = (ns, Inr ())" "set ns \<subseteq> set nodes" "map nd_id ns = ?vs"
      using spawn_all [OF assms(1) sub, of "rs_ctx s" "[]"] by auto
    obtain c' where c: "collect env (rs_ctx s) ns (rs_ctx s) = (c', None)" "\<not> some_waiting c'"
      using collect_all [OF assms(1) ns(2) Cons.prems(2)] by blast
    obtain v vs where vs: "?vs = v # vs" using False by (cases ?vs) auto
    define s1 where "s1 = s\<lparr>rs_started := rs_started s @ map (\<lambda>n. (nd_id n, rs_ctx s)) ns, rs_ctx := c',
      rs_hooked := rs_hooked s @ (if hook then [c'] else [])\<rparr>"
    have lv: "run_level env (node_map nodes) edges skip hook i l s = (s1, None)"
      using ns(1) c by (simp add: run_level_def nc runnable_unconditional [OF assms(2)] vs s1_def Let_def)
    have "map fst (rs_started s1) = map fst (rs_started s) @ ?vs" by (simp add: s1_def o_def ns(3))
    with lv Cons.IH [of s1 "i + 1"] Cons.prems(1) c(2) show ?thesis by (auto simp: s1_def)
  qed
qed simp

text \<open>
  C15: a workflow that can run does run to its end.  For a graph without cycles whose arcs join its own
  nodes and carry no conditions, in an environment that is not cancelled and lets every node succeed
  within its retries without waiting, the run completes, and the nodes it started are exactly the nodes of
  the workflow that were not to be skipped, each once.
\<close>

theorem workflow_completes:
  assumes "iterates_once iter" and "closed_graph nodes edges" and "acyclic (set (arcs nodes edges))"
    and "\<forall>e \<in> set edges. condition e = None" and "serves env nodes" and "\<not> some_waiting c"
  shows "\<exists>s. schedule_inner env iter nodes edges skip hook c = (s, Inr OutcomeCompleted) \<and>
    distinct (map fst (rs_started s)) \<and> fst ` set (rs_started s) = nd_id ` set nodes - skip"
proof -
  obtain ls where L: "topological_sort iter nodes edges = Some (Inr ls)" "levels_ok (arcs nodes edges) (nd_id ` set nodes) {} ls"
    "set (concat ls) = nd_id ` set nodes"
  proof -
    obtain ls where K: "levels_ok (arcs nodes edges) (nd_id ` set nodes) {} ls"
      "topological_sort iter nodes edges = Some (if length (concat ls) \<noteq> card (nd_id ` set nodes) then Inl CycleDetected else Inr ls)"
      using topological_sort_levels [OF assms(1), of nodes edges] closed_graph_keys [OF assms(2)] by auto
    have "set (concat ls) = nd_id ` set nodes"
      using assms(2) by (intro levels_complete [OF K(1) _ assms(3)]) (auto simp: closed_graph_def)
    moreover from this have "length (concat ls) = card (nd_id ` set nodes)"
      using K(1) by (metis distinct_card levels_ok_def)
    ultimately show ?thesis using K that by simp
  qed
  from run_levels_complete [OF assms(5,4), of ls "initial_run c" skip hook 0] L(3) assms(6)
  obtain s where s: "run_levels env (node_map nodes) edges skip hook 0 ls (initial_run c) = (s, Inr OutcomeCompleted)"
    "map fst (rs_started s) = filter (\<lambda>v. v \<notin> skip) (concat ls)"
    by (auto simp: initial_run_def)
  then have "fst ` set (rs_started s) = nd_id ` set nodes - skip"
    using L(3) by (metis list.set_map set_filter set_diff_eq)
  moreover have "distinct (map fst (rs_started s))" using L(2) s(2) by (simp add: levels_ok_def)
  ultimately show ?thesis using s(1) L(1) by (simp add: schedule_inner_def)
qed

theorem workflow_completes_witness:
  "\<exists>s. schedule_inner ok_env rev diamond diamond_edges {''a''} False no_context = (s, Inr OutcomeCompleted) \<and>
     fst ` set (rs_started s) = {''b'', ''c'', ''d''}"
proof -
  have "iterates_once rev" by (simp add: iterates_once_def)
  moreover have "closed_graph diamond diamond_edges" by code_simp
  moreover have "topological_sort (\<lambda>d. d) diamond diamond_edges = Some (Inr [[''a''], [''b'', ''c''], [''d'']])" by code_simp
  from sorted_acyclic [OF iterates_once_id _ this] calculation(2)
  have "acyclic (set (arcs diamond diamond_edges))" by blast
  moreover have "\<forall>e \<in> set diamond_edges. condition e = None" by code_simp
  moreover have "serves ok_env diamond" by (auto simp: serves_def uncancelled_def ok_env_def)
  moreover have "\<not> some_waiting no_context" by code_simp
  moreover have "nd_id ` set diamond - {''a''} = {''b'', ''c'', ''d''}" by (auto simp: diamond_def example_node_def)
  ultimately show ?thesis using workflow_completes [of rev diamond diamond_edges ok_env no_context "{''a''}" False] by metis
qed

end
