(* ===== verification/SigFormat.thy ===== *)
theory SigFormat
  imports Prelude "HOL-Library.Word"
begin

text \<open>
  File formats of the release signatures, crates/nemesis-verify/src: hexadecimal text (hex_util.rs),
  the formats and their codecs (codec.rs, elf.rs), and the carrier of a signature behind the contents of an ELF
  or raw file (envelope.rs, the part on footers).

  Files are lists of 8-bit words.  Offsets are natural numbers where the code cannot overflow 64 bits;
  in elf.rs, where header fields of 64 bits are added without a check, they are 64-bit words with the
  wrap-around of the release profile.  A panic is the value \<^verbatim>\<open>None\<close>.
\<close>

unbundle bit_operations_syntax

type_synonym byte = "8 word"
type_synonym bytes = "8 word list"

subsection \<open>Integers in byte strings\<close>

definition from_le :: "bytes \<Rightarrow> nat" where
  "from_le bs = foldr (\<lambda>b acc. unat b + 256 * acc) bs 0"

definition from_be :: "bytes \<Rightarrow> nat" where
  "from_be bs = from_le (rev bs)"

fun to_le :: "nat \<Rightarrow> nat \<Rightarrow> bytes" where
  "to_le 0 v = []"
| "to_le (Suc n) v = of_nat v # to_le n (v div 256)"

definition subslice :: "nat \<Rightarrow> nat \<Rightarrow> 'a list \<Rightarrow> 'a list" where
  "subslice a b xs = take (b - a) (drop a xs)"

text \<open>\<^verbatim>\<open>slice::get(a..b)\<close>\<close>

definition get_range :: "nat \<Rightarrow> nat \<Rightarrow> 'a list \<Rightarrow> 'a list option" where
  "get_range a b xs = (if a \<le> b \<and> b \<le> length xs then Some (subslice a b xs) else None)"

lemma from_le_simps [simp]: "from_le [] = 0" "from_le (b # bs) = unat b + 256 * from_le bs"
  by (simp_all add: from_le_def)

lemma from_le_zeros [simp]: "from_le (replicate n 0) = 0"
  by (induction n) auto

lemma to_le_length [simp]: "length (to_le n v) = n"
  by (induction n arbitrary: v) auto

lemma from_le_to_le: "from_le (to_le n v) = v mod 256 ^ n"
proof (induction n arbitrary: v)
  case (Suc n)
  have "v mod 256 + 256 * (v div 256 mod 256 ^ n) = v mod (256 * 256 ^ n)"
    by (simp add: mod_mult2_eq)
  with Suc show ?case
    by (simp add: unat_of_nat)
qed simp

lemma unat_byte: "unat (b :: byte) < 256"
proof -
  have "unat b < 2 ^ LENGTH(8)" by (rule unsigned_less)
  then show ?thesis by simp
qed

lemma from_le_bound: "from_le bs < 256 ^ length bs"
proof (induction bs)
  case (Cons b bs)
  with unat_byte [of b] show ?case by auto
qed simp

lemma to_le_from_le: "to_le (length bs) (from_le bs) = bs"
proof (induction bs)
  case (Cons b bs)
  note unat_byte [of b]
  moreover have "of_nat (256 * n) = (0 :: byte)" for n
  proof -
    have "of_nat (256 * n) = (of_nat 256 * of_nat n :: byte)" by (simp only: of_nat_mult)
    also have "of_nat 256 = (0 :: byte)" by (simp)
    finally show ?thesis by simp
  qed
  ultimately show ?case
    using Cons by (simp del: of_nat_mult)
qed simp

lemma from_le_inj: "length xs = length ys \<Longrightarrow> from_le xs = from_le ys \<Longrightarrow> xs = ys"
  by (metis to_le_from_le)

lemma subslice_append_left [simp]: "b \<le> length xs \<Longrightarrow> subslice a b (xs @ ys) = subslice a b xs"
  by (cases "a \<le> length xs") (simp_all add: subslice_def)

lemma subslice_append_right: "subslice (length xs + a) (length xs + b) (xs @ ys) = subslice a b ys"
  by (simp add: subslice_def)

lemma subslice_whole [simp]: "subslice 0 (length xs) xs = xs"
  by (simp add: subslice_def)

lemma length_subslice: "b \<le> length xs \<Longrightarrow> length (subslice a b xs) = b - a"
  by (simp add: subslice_def)

lemma get_range_append: "get_range a b xs = Some s \<Longrightarrow> get_range a b (xs @ ys) = Some s"
  by (auto simp: get_range_def split: if_splits)

subsection \<open>Hexadecimal text (hex_util.rs)\<close>

definition hex_char :: "nat \<Rightarrow> char" where
  "hex_char d = char_of (if d < 10 then 48 + d else 87 + d)"

definition hex_encode :: "bytes \<Rightarrow> str" where
  "hex_encode bs = concat (map (\<lambda>b. [hex_char (unat b div 16), hex_char (unat b mod 16)]) bs)"

definition hex_digit :: "char \<Rightarrow> nat option" where
  "hex_digit c =
     (let n = of_char c :: nat in
      if 48 \<le> n \<and> n \<le> 57 then Some (n - 48)
      else if 97 \<le> n \<and> n \<le> 102 then Some (n - 87)
      else if 65 \<le> n \<and> n \<le> 70 then Some (n - 55) else None)"

fun radix16 :: "nat \<Rightarrow> str \<Rightarrow> nat option" where
  "radix16 acc [] = Some acc"
| "radix16 acc (c # cs) = (case hex_digit c of None \<Rightarrow> None | Some d \<Rightarrow> radix16 (16 * acc + d) cs)"

text \<open>
  \<^verbatim>\<open>u8::from_str_radix(s, 16)\<close>: the standard library accepts a leading plus sign before at least one digit; a
  value above 255 is an error.
\<close>

definition u8_from_str_radix16 :: "str \<Rightarrow> byte option" where
  "u8_from_str_radix16 s =
     (let ds = (if s \<noteq> [] \<and> hd s = CHR ''+'' then tl s else s) in
      if ds = [] then None
      else (case radix16 0 ds of None \<Rightarrow> None | Some v \<Rightarrow> if v < 256 then Some (of_nat v) else None))"

datatype hex_error = NonAscii | HexLength nat | OddLength | InvalidHexByte nat

definition is_ascii :: "str \<Rightarrow> bool" where
  "is_ascii s = list_all (\<lambda>c. (of_char c :: nat) < 128) s"

fun hex_pairs :: "nat \<Rightarrow> str \<Rightarrow> hex_error + bytes" where
  "hex_pairs off (a # b # s) =
     (case u8_from_str_radix16 [a, b] of
        None \<Rightarrow> Inl (InvalidHexByte off)
      | Some x \<Rightarrow> and_then (hex_pairs (off + 2) s) (\<lambda>xs. Inr (x # xs)))"
| "hex_pairs off s = Inr []"

definition hex_decode_32 :: "str \<Rightarrow> hex_error + bytes" where
  "hex_decode_32 hex =
     (let h = trim hex in
      if \<not> is_ascii h then Inl NonAscii
      else if length h \<noteq> 64 then Inl (HexLength (length h))
      else hex_pairs 0 h)"

definition hex_decode_vec :: "str \<Rightarrow> hex_error + bytes" where
  "hex_decode_vec hex =
     (let h = trim hex in
      if \<not> is_ascii h then Inl NonAscii
      else if length h mod 2 \<noteq> 0 then Inl OddLength
      else hex_pairs 0 h)"

lemma hex_char_range: "d < 16 \<Longrightarrow> of_char (hex_char d) = (if d < 10 then 48 + d else 87 + d)"
  by (simp add: hex_char_def)

lemma hex_digit_char: "d < 16 \<Longrightarrow> hex_digit (hex_char d) = Some d"
  by (simp add: hex_digit_def hex_char_range)

lemma hex_char_plain:
  assumes "d < 16"
  shows "\<not> is_whitespace (hex_char d)" "hex_char d \<noteq> CHR ''+''" "(of_char (hex_char d) :: nat) < 128"
proof -
  have c: "(of_char (hex_char d) :: nat) = (if d < 10 then 48 + d else 87 + d)"
    using hex_char_range [OF assms] .
  have ne: "hex_char d \<noteq> e" if "(of_char e :: nat) < 48" for e
  proof
    assume "hex_char d = e"
    with c that show False by (auto split: if_splits)
  qed
  show "\<not> is_whitespace (hex_char d)" "hex_char d \<noteq> CHR ''+''"
    using ne by (auto simp: is_whitespace_def)
  show "(of_char (hex_char d) :: nat) < 128"
    using c assms by (auto split: if_splits)
qed

lemma u8_radix_pair:
  "u8_from_str_radix16 [hex_char (unat b div 16), hex_char (unat b mod 16)] = Some b"
proof -
  have d: "unat b div 16 < 16" "unat b mod 16 < 16" using unat_byte [of b] by auto
  then show ?thesis
    using hex_char_plain(2) [OF d(1)] unat_byte [of b]
    by (simp add: u8_from_str_radix16_def hex_digit_char)
qed

lemma hex_encode_simps [simp]:
  "hex_encode [] = []"
  "hex_encode (b # bs) = hex_char (unat b div 16) # hex_char (unat b mod 16) # hex_encode bs"
  by (simp_all add: hex_encode_def)

lemma hex_encode_chars: "c \<in> set (hex_encode bs) \<Longrightarrow> \<exists>d < 16. c = hex_char d"
proof (induction bs)
  case (Cons b bs)
  have "unat b div 16 < 16" "unat b mod 16 < 16" using unat_byte [of b] by auto
  with Cons show ?case by (metis hex_encode_simps(2) set_ConsD)
qed simp

lemma hex_encode_length [simp]: "length (hex_encode bs) = 2 * length bs"
  by (induction bs) auto

lemma hex_pairs_encode: "hex_pairs off (hex_encode bs) = Inr bs"
  by (induction bs arbitrary: off) (simp_all add: u8_radix_pair)

lemma trim_no_whitespace: "\<forall>c \<in> set s. \<not> is_whitespace c \<Longrightarrow> trim s = s"
proof -
  assume "\<forall>c \<in> set s. \<not> is_whitespace c"
  then have "dropWhile is_whitespace s = s" "dropWhile is_whitespace (rev s) = rev s"
    using hd_in_set [of s] last_in_set [of s] by (auto simp: dropWhile_eq_self_iff hd_rev)
  then show ?thesis by (simp add: trim_def trim_start_def trim_end_def)
qed

lemma hex_encode_trim: "trim (hex_encode bs) = hex_encode bs"
  by (rule trim_no_whitespace) (metis hex_encode_chars hex_char_plain(1))

lemma hex_encode_ascii: "is_ascii (hex_encode bs)"
  unfolding is_ascii_def list_all_iff by (metis hex_encode_chars hex_char_plain(3))

lemma hex_decode_vec_encode: "hex_decode_vec (hex_encode bs) = Inr bs"
  by (simp add: hex_decode_vec_def hex_encode_trim hex_encode_ascii hex_pairs_encode)

lemma hex_decode_32_encode: "length bs = 32 \<Longrightarrow> hex_decode_32 (hex_encode bs) = Inr bs"
  by (simp add: hex_decode_32_def hex_encode_trim hex_encode_ascii hex_pairs_encode)

lemma hex_encode_inj: "hex_encode xs = hex_encode ys \<longleftrightarrow> xs = ys"
  by (metis hex_decode_vec_encode sum.inject(2))

subsection \<open>CRC-32 of the footer (envelope.rs)\<close>

definition crc_bit :: "32 word \<Rightarrow> 32 word" where
  "crc_bit c = (if c AND 1 \<noteq> 0 then drop_bit 1 c XOR 0xEDB88320 else drop_bit 1 c)"

definition crc_byte :: "byte \<Rightarrow> 32 word \<Rightarrow> 32 word" where
  "crc_byte b c = (crc_bit ^^ 8) (c XOR ucast b)"

definition crc32 :: "bytes \<Rightarrow> 32 word" where
  "crc32 data = NOT (fold crc_byte data 0xFFFFFFFF)"

lemma and_1_bit: "c AND 1 \<noteq> 0 \<longleftrightarrow> bit (c :: 'a :: len word) 0"
  by (simp add: and_one_eq odd_iff_mod_2_eq_one bit_0)

lemma crc_bit_bit:
  "bit (crc_bit c) n \<longleftrightarrow> (bit (drop_bit 1 c) n \<noteq> (bit c 0 \<and> bit (0xEDB88320 :: 32 word) n))"
  unfolding crc_bit_def and_1_bit by (simp add: bit_xor_iff)

lemma crc_bit_31: "bit (crc_bit c) 31 \<longleftrightarrow> bit c 0"
proof -
  have "bit (0xEDB88320 :: 32 word) 31" by code_simp
  moreover have "\<not> bit (drop_bit 1 c) 31"
    using bit_imp_le_length [of c 32] by (auto simp: bit_drop_bit_eq)
  ultimately show ?thesis by (simp add: crc_bit_bit)
qed

lemma crc_bit_inj: "crc_bit c = crc_bit d \<longleftrightarrow> c = d"
proof
  assume eq: "crc_bit c = crc_bit d"
  then have b0: "bit c 0 \<longleftrightarrow> bit d 0" by (metis crc_bit_31)
  show "c = d"
  proof (rule bit_word_eqI)
    fix n assume "n < LENGTH(32)"
    show "bit c n \<longleftrightarrow> bit d n"
    proof (cases n)
      case (Suc m)
      have "bit (crc_bit c) m \<longleftrightarrow> bit (crc_bit d) m" using eq by simp
      then show ?thesis using b0 Suc by (auto simp: crc_bit_bit bit_drop_bit_eq)
    qed (use b0 in simp)
  qed
qed simp

lemma crc_bits_inj: "(crc_bit ^^ k) c = (crc_bit ^^ k) d \<longleftrightarrow> c = d"
  by (induction k) (simp_all add: crc_bit_inj)

lemma xor_cancel_right: "a XOR c = b XOR c \<longleftrightarrow> a = (b :: 32 word)"
proof
  assume "a XOR c = b XOR c"
  then have "(a XOR c) XOR c = (b XOR c) XOR c" by (rule arg_cong)
  then show "a = b" by (simp add: xor.assoc)
qed simp

lemma xor_cancel_left: "c XOR a = c XOR b \<longleftrightarrow> a = (b :: 32 word)"
  by (simp add: xor.commute [of c] xor_cancel_right)

lemma crc_byte_inj: "crc_byte b c = crc_byte b d \<longleftrightarrow> c = d"
  unfolding crc_byte_def crc_bits_inj by (rule xor_cancel_right)

lemma crc_byte_byte: "crc_byte a c = crc_byte b c \<longleftrightarrow> a = b"
proof
  assume "crc_byte a c = crc_byte b c"
  then have "c XOR ucast a = c XOR (ucast b :: 32 word)"
    by (simp add: crc_byte_def crc_bits_inj)
  then have "(ucast a :: 32 word) = ucast b"
    by (simp only: xor_cancel_left)
  then have eq: "bit (ucast a :: 32 word) n \<longleftrightarrow> bit (ucast b :: 32 word) n" for n by simp
  show "a = b"
  proof (rule bit_word_eqI)
    fix n assume "n < LENGTH(8)"
    then show "bit a n \<longleftrightarrow> bit b n" using eq [of n] by (simp add: bit_ucast_iff)
  qed
qed simp

lemma crc_fold_inj: "fold crc_byte bs c = fold crc_byte bs d \<longleftrightarrow> c = d"
  by (induction bs arbitrary: c d) (simp_all add: crc_byte_inj)

text \<open>A change of a single byte always changes the checksum.\<close>

lemma crc32_single_byte:
  assumes "i < length bs" "b \<noteq> bs ! i"
  shows "crc32 (bs[i := b]) \<noteq> crc32 bs"
proof
  assume "crc32 (bs[i := b]) = crc32 bs"
  then have "fold crc_byte (bs[i := b]) 0xFFFFFFFF = fold crc_byte bs 0xFFFFFFFF"
    by (metis crc32_def bit.double_compl)
  moreover have "bs = take i bs @ bs ! i # drop (Suc i) bs" "bs[i := b] = take i bs @ b # drop (Suc i) bs"
    using assms(1) by (simp_all add: id_take_nth_drop [symmetric] upd_conv_take_nth_drop)
  ultimately have "fold crc_byte (take i bs @ b # drop (Suc i) bs) 0xFFFFFFFF
      = fold crc_byte (take i bs @ bs ! i # drop (Suc i) bs) 0xFFFFFFFF" by metis
  then show False using assms(2) by (simp add: crc_fold_inj crc_byte_byte)
qed

subsection \<open>The footer of a signed file (envelope.rs)\<close>

definition TRAILER_MAGIC_V4 :: bytes where
  "TRAILER_MAGIC_V4 = [0x4E, 0x4D, 0x42, 0x53, 0x49, 0x47, 0x04, 0x00]"

definition footer_head :: "byte \<Rightarrow> nat \<Rightarrow> nat \<Rightarrow> nat \<Rightarrow> bytes" where
  "footer_head format_tag content_len cms_off cms_len =
     TRAILER_MAGIC_V4 @ [4, 2, format_tag, 0, 0, 0, 0, 0] @
     to_le 8 content_len @ to_le 8 cms_off @ to_le 4 cms_len"

text \<open>A block of signatures of 4 GB or more makes the code panic.\<close>

definition build_footer_v4 :: "byte \<Rightarrow> nat \<Rightarrow> nat \<Rightarrow> nat \<Rightarrow> bytes option" where
  "build_footer_v4 format_tag content_len cms_off cms_len =
     (if cms_len \<ge> 2 ^ 32 then None
      else let f = footer_head format_tag content_len cms_off cms_len
           in Some (f @ to_le 4 (unat (crc32 f)) @ replicate 24 0))"

record parsed_footer =
  pf_format_ver :: byte
  pf_sig_algo :: byte
  pf_format_tag :: byte
  pf_content_len :: nat
  pf_cms_off :: nat
  pf_cms_len :: nat

datatype codec_error =
    NotAnExecutable
  | Truncated
  | FieldOutOfBounds str
  | UnknownOptionalHeaderMagic nat
  | UnsupportedElfClass byte
  | UnsupportedElfData byte
  | CodecMalformed str

datatype envelope_error =
    FooterMagicMismatch
  | FooterCrcMismatch
  | FooterOffsetOverflow
  | FooterOutOfBounds nat nat
  | CmsLenZero
  | CmsRangeOverflow
  | CmsPastFooter nat nat nat
  | ContentIntoCms nat nat
  | NoFooter
  | ContentLenMismatch nat nat
  | PeCarrierRejected
  | CodecFailed codec_error

definition rd_u32 :: "bytes \<Rightarrow> nat \<Rightarrow> nat" where
  "rd_u32 b off = from_le (subslice off (off + 4) b)"

definition rd_u64 :: "bytes \<Rightarrow> nat \<Rightarrow> nat" where
  "rd_u64 b off = from_le (subslice off (off + 8) b)"

definition parse_footer_v4 :: "bytes \<Rightarrow> envelope_error + parsed_footer" where
  "parse_footer_v4 f =
     (if subslice 0 8 f \<noteq> TRAILER_MAGIC_V4 then Inl FooterMagicMismatch
      else if rd_u32 f 36 \<noteq> unat (crc32 (subslice 0 36 f)) then Inl FooterCrcMismatch
      else Inr \<lparr>pf_format_ver = f ! 8, pf_sig_algo = f ! 9, pf_format_tag = f ! 10,
                pf_content_len = rd_u64 f 16, pf_cms_off = rd_u64 f 24, pf_cms_len = rd_u32 f 32\<rparr>)"

definition footer_at :: "bytes \<Rightarrow> (nat \<times> nat) list \<Rightarrow> nat \<Rightarrow> bool" where
  "footer_at bs excludes pos \<longleftrightarrow>
     \<not> list_ex (\<lambda>(s, e). s \<le> pos \<and> pos < e) excludes \<and>
     get_range pos (pos + 8) bs = Some TRAILER_MAGIC_V4"

fun scan_footer :: "bytes \<Rightarrow> nat \<Rightarrow> (nat \<times> nat) list \<Rightarrow> nat \<Rightarrow> nat option" where
  "scan_footer bs overlay_start excludes pos =
     (if pos < overlay_start then None
      else if footer_at bs excludes pos then Some pos
      else if pos = 0 then None
      else scan_footer bs overlay_start excludes (pos - 1))"

declare scan_footer.simps [simp del]

definition find_footer_v4 :: "bytes \<Rightarrow> nat \<Rightarrow> (nat \<times> nat) list \<Rightarrow> nat option" where
  "find_footer_v4 bs overlay_start excludes =
     (if length bs < overlay_start + 64 then None
      else scan_footer bs overlay_start excludes (length bs - 64))"

definition attach_v4 :: "bytes \<Rightarrow> bytes \<Rightarrow> byte \<Rightarrow> nat \<Rightarrow> bytes option" where
  "attach_v4 bs cms_der format_tag content_len =
     map_option (\<lambda>footer. bs @ cms_der @ footer)
       (build_footer_v4 format_tag content_len (length bs) (length cms_der))"

definition extract_v4 :: "bytes \<Rightarrow> nat \<Rightarrow> envelope_error + (nat \<times> bytes)" where
  "extract_v4 bs footer_offset =
     (if footer_offset + 64 \<ge> 2 ^ 64 then Inl FooterOffsetOverflow
      else if footer_offset + 64 > length bs then Inl (FooterOutOfBounds footer_offset (length bs))
      else and_then (parse_footer_v4 (subslice footer_offset (footer_offset + 64) bs)) (\<lambda>p.
        if pf_cms_len p = 0 then Inl CmsLenZero
        else if pf_cms_off p + pf_cms_len p \<ge> 2 ^ 64 then Inl CmsRangeOverflow
        else let cms_end = pf_cms_off p + pf_cms_len p in
          if cms_end > footer_offset then Inl (CmsPastFooter (pf_cms_off p) cms_end footer_offset)
          else if pf_content_len p > pf_cms_off p then Inl (ContentIntoCms (pf_content_len p) (pf_cms_off p))
          else Inr (pf_content_len p, subslice (pf_cms_off p) cms_end bs)))"

subsubsection \<open>Footers read back\<close>

lemma magic_length [simp]: "length TRAILER_MAGIC_V4 = 8"
  by (simp add: TRAILER_MAGIC_V4_def)

lemma footer_head_length [simp]: "length (footer_head t n off l) = 36"
  by (simp add: footer_head_def)

lemma build_footer_length: "build_footer_v4 t n off l = Some f \<Longrightarrow> length f = 64"
  by (auto simp: build_footer_v4_def Let_def split: if_splits)

lemma crc_stored: "from_le (to_le 4 (unat (crc32 bs))) = unat (crc32 bs)"
proof -
  have "unat (crc32 bs) < 2 ^ LENGTH(32)" by (rule unsigned_less)
  then show ?thesis by (simp add: from_le_to_le)
qed

lemma subslice_mid: "length xs = a \<Longrightarrow> length xs + length ys = b \<Longrightarrow> subslice a b (xs @ ys @ zs) = ys"
  by (auto simp: subslice_def)

lemma build_parse_footer:
  assumes "build_footer_v4 t n off l = Some f" "n < 2 ^ 64" "off < 2 ^ 64"
  shows "parse_footer_v4 f = Inr \<lparr>pf_format_ver = 4, pf_sig_algo = 2, pf_format_tag = t,
    pf_content_len = n, pf_cms_off = off, pf_cms_len = l\<rparr>"
proof -
  let ?h = "footer_head t n off l"
  from assms(1) have l: "l < 2 ^ 32" and f: "f = ?h @ to_le 4 (unat (crc32 ?h)) @ replicate 24 0"
    by (auto simp: build_footer_v4_def Let_def split: if_splits)
  have h: "subslice 0 36 f = ?h" "rd_u32 f 36 = unat (crc32 ?h)"
    using subslice_mid [of ?h 36 "to_le 4 (unat (crc32 ?h))" 40] subslice_append_left [of 36 ?h 0]
    by (simp_all add: f rd_u32_def crc_stored subslice_def)
  have cl: "rd_u64 f 16 = n"
    using subslice_mid [of "TRAILER_MAGIC_V4 @ [4, 2, t, 0, 0, 0, 0, 0]" 16 "to_le 8 n" 24] assms(2)
    by (simp add: f footer_head_def rd_u64_def from_le_to_le)
  have co: "rd_u64 f 24 = off"
    using subslice_mid [of "TRAILER_MAGIC_V4 @ [4, 2, t, 0, 0, 0, 0, 0] @ to_le 8 n" 24 "to_le 8 off" 32] assms(3)
    by (simp add: f footer_head_def rd_u64_def from_le_to_le)
  have cm: "rd_u32 f 32 = l"
    using subslice_mid [of "TRAILER_MAGIC_V4 @ [4, 2, t, 0, 0, 0, 0, 0] @ to_le 8 n @ to_le 8 off" 32 "to_le 4 l" 36] l
    by (simp add: f footer_head_def rd_u32_def from_le_to_le)
  have m: "subslice 0 8 f = TRAILER_MAGIC_V4" "f ! 8 = 4" "f ! 9 = 2" "f ! 10 = t"
    by (simp_all add: f footer_head_def subslice_def nth_append)
  show ?thesis
    by (simp add: parse_footer_v4_def h cl co cm m)
qed

lemma subslice_update:
  "subslice a b (xs[i := v]) = (if a \<le> i \<and> i < b then (subslice a b xs)[i - a := v] else subslice a b xs)"
proof (rule nth_equalityI, goal_cases)
  case (2 j)
  then show ?case
    by (cases "i = a + j") (auto simp: subslice_def nth_list_update)
qed (auto simp: subslice_def)

lemma parse_footer_checks:
  "parse_footer_v4 f = Inr p \<Longrightarrow>
   subslice 0 8 f = TRAILER_MAGIC_V4 \<and> from_le (subslice 36 40 f) = unat (crc32 (subslice 0 36 f))"
  by (auto simp: parse_footer_v4_def rd_u32_def split: if_splits)

text \<open>
  C11: a footer read back after any one of its first 40 bytes (the magic, every field and the checksum) was
  changed is rejected.  The remaining 24 bytes are reserved and not read.
\<close>

theorem footer_corruption_detected:
  assumes "build_footer_v4 t n off l = Some f" "n < 2 ^ 64" "off < 2 ^ 64" "i < 40" "b \<noteq> f ! i"
  shows "\<exists>e. parse_footer_v4 (f[i := b]) = Inl e"
proof (rule ccontr)
  assume "\<nexists>e. parse_footer_v4 (f[i := b]) = Inl e"
  then obtain p where "parse_footer_v4 (f[i := b]) = Inr p" by (cases "parse_footer_v4 (f[i := b])") auto
  note new = parse_footer_checks [OF this] and old = parse_footer_checks [OF build_parse_footer [OF assms(1-3)]]
  have len: "length f = 64" using build_footer_length [OF assms(1)] .
  have changed: "subslice x y f \<noteq> (subslice x y f)[i - x := b]" if "x \<le> i" "i < y" "y \<le> 64" for x y
  proof
    assume "subslice x y f = (subslice x y f)[i - x := b]"
    then have "subslice x y f ! (i - x) = b"
      using that len by (metis diff_less_mono length_subslice nth_list_update_eq)
    then show False using that len assms(5) by (simp add: subslice_def)
  qed
  consider "i < 8" | "8 \<le> i" "i < 36" | "36 \<le> i" using assms(4) by linarith
  then show False
  proof cases
    case 1
    then show False using new old changed [of 0 8] by (simp add: subslice_update)
  next
    case 2
    then have "unat (crc32 ((subslice 0 36 f)[i := b])) = unat (crc32 (subslice 0 36 f))"
      using new old by (simp add: subslice_update)
    then have "crc32 ((subslice 0 36 f)[i := b]) = crc32 (subslice 0 36 f)" by (simp only: word_unat_eq_iff)
    moreover have "subslice 0 36 f ! i = f ! i" using 2 len by (simp add: subslice_def)
    ultimately show False using crc32_single_byte [of i "subslice 0 36 f" b] 2 len assms(5)
      by (simp add: length_subslice)
  next
    case 3
    then have "from_le ((subslice 36 40 f)[i - 36 := b]) = from_le (subslice 36 40 f)"
      using new old assms(4) by (simp add: subslice_update)
    then have "(subslice 36 40 f)[i - 36 := b] = subslice 36 40 f" by (rule from_le_inj [rotated]) simp
    then show False using changed [of 36 40] 3 assms(4) by simp
  qed
qed

theorem footer_corruption_detected_witness:
  "\<exists>f e. build_footer_v4 3 5 5 7 = Some f \<and> parse_footer_v4 (f[20 := f ! 20 + 1]) = Inl e"
proof -
  obtain f where f: "build_footer_v4 3 5 5 7 = Some f" by (simp add: build_footer_v4_def Let_def)
  have "f ! 20 + 1 \<noteq> f ! 20" by simp
  from footer_corruption_detected [OF f _ _ _ this] f show ?thesis by simp
qed

subsubsection \<open>Attached signatures are found\<close>

lemma find_footer_last:
  assumes "length f = 64" "subslice 0 8 f = TRAILER_MAGIC_V4" "overlay_start \<le> length bs"
    "\<not> list_ex (\<lambda>(s, e). s \<le> length bs \<and> length bs < e) ex"
  shows "find_footer_v4 (bs @ f) overlay_start ex = Some (length bs)"
proof -
  have "footer_at (bs @ f) ex (length bs)"
    using assms subslice_append_right [of bs 0 8 f] by (simp add: footer_at_def get_range_def)
  then show ?thesis
    using assms by (simp add: find_footer_v4_def scan_footer.simps [of "bs @ f" overlay_start ex "length bs"])
qed

lemma scan_footer_some:
  "scan_footer bs lo ex pos = Some q \<Longrightarrow>
   lo \<le> q \<and> q \<le> pos \<and> footer_at bs ex q \<and> (\<forall>r. q < r \<and> r \<le> pos \<longrightarrow> \<not> footer_at bs ex r)"
proof (induction bs lo ex pos rule: scan_footer.induct)
  case (1 bs lo ex pos)
  show ?case
  proof (cases "footer_at bs ex pos")
    case False
    with 1(2) have *: "\<not> pos < lo" "pos \<noteq> 0" "scan_footer bs lo ex (pos - 1) = Some q"
      by (auto simp: scan_footer.simps [of bs lo ex pos] split: if_splits)
    note IH = 1(1) [OF *(1) False *(2) *(3)]
    have "r \<le> pos - 1 \<or> r = pos" if "r \<le> pos" for r using that by auto
    with IH False show ?thesis by fastforce
  qed (use 1(2) in \<open>auto simp: scan_footer.simps [of bs lo ex pos] split: if_splits\<close>)
qed

lemma extract_attached:
  assumes "attach_v4 bs cms t n = Some out" "n \<le> length bs" "cms \<noteq> []"
    "length out < 2 ^ 64"
  shows "extract_v4 out (length bs + length cms) = Inr (n, cms)"
proof -
  from assms(1) obtain f where f: "build_footer_v4 t n (length bs) (length cms) = Some f"
    and out: "out = bs @ cms @ f" by (auto simp: attach_v4_def)
  have len: "length f = 64" using build_footer_length [OF f] .
  have lt: "n < 2 ^ 64" "length bs < 2 ^ 64" "length bs + length cms < 2 ^ 64" "length bs + length cms + 64 < 2 ^ 64"
    using assms(2,4) len by (auto simp: out)
  have sl: "subslice (length bs + length cms) (length bs + length cms + 64) out = f"
    using subslice_mid [of "bs @ cms" _ f _ "[]"] len by (simp add: out)
  have cms: "subslice (length bs) (length bs + length cms) out = cms"
    using subslice_mid [of bs _ cms _ f] by (simp add: out)
  show ?thesis
    using lt assms(2,3) len
    by (simp add: extract_v4_def sl build_parse_footer [OF f lt(1,2)] Let_def cms) (simp add: out)
qed

end
