(* ===== verification/Codecs.thy ===== *)
theory Codecs
  imports SigFormat
begin

text \<open>
  The codecs of raw and ELF files, crates/nemesis-verify/src/codec.rs and elf.rs: the end L of the
  structured contents and the digest over them.  The trait \<^verbatim>\<open>ExecutableCodec\<close> is the record
  \<^verbatim>\<open>codec\<close>; what a client of the trait needs is the locale \<^verbatim>\<open>carrier_codec\<close>, interpreted for both codecs.

  Offsets of ELF files are 64-bit words: the code adds header fields without checks, and the release
  profile wraps around.  SHA-256 is the parameter H.
\<close>

record codec =
  compute_l :: "bytes \<Rightarrow> codec_error + nat option"
  content_hash :: "bytes \<Rightarrow> nat \<Rightarrow> codec_error + bytes"
  overlay_excludes :: "bytes \<Rightarrow> (nat \<times> nat) list"

definition FORMAT_TAG_PE :: byte where "FORMAT_TAG_PE = 1"
definition FORMAT_TAG_ELF :: byte where "FORMAT_TAG_ELF = 2"
definition FORMAT_TAG_RAW :: byte where "FORMAT_TAG_RAW = 3"

definition detect_format :: "bytes \<Rightarrow> byte" where
  "detect_format bs =
     (if prefix [0x4D, 0x5A] bs then FORMAT_TAG_PE
      else if prefix [0x7F, 0x45, 0x4C, 0x46] bs then FORMAT_TAG_ELF
      else FORMAT_TAG_RAW)"

lemma format_tags_distinct [simp]:
  "FORMAT_TAG_PE \<noteq> FORMAT_TAG_ELF" "FORMAT_TAG_PE \<noteq> FORMAT_TAG_RAW" "FORMAT_TAG_ELF \<noteq> FORMAT_TAG_RAW"
  "FORMAT_TAG_ELF \<noteq> FORMAT_TAG_PE" "FORMAT_TAG_RAW \<noteq> FORMAT_TAG_PE" "FORMAT_TAG_RAW \<noteq> FORMAT_TAG_ELF"
  by (simp_all add: FORMAT_TAG_PE_def FORMAT_TAG_ELF_def FORMAT_TAG_RAW_def)

subsection \<open>Raw files\<close>

text \<open>The digest of the first l bytes, shared by both codecs.\<close>

definition hash_upto :: "(bytes \<Rightarrow> bytes) \<Rightarrow> bytes \<Rightarrow> nat \<Rightarrow> codec_error + bytes" where
  "hash_upto H content l =
     (if l > length content then Inl (CodecMalformed ''content_len > bytes len'')
      else Inr (H (take l content)))"

definition raw_codec :: "(bytes \<Rightarrow> bytes) \<Rightarrow> codec" where
  "raw_codec H = \<lparr>compute_l = (\<lambda>_. Inr None), content_hash = hash_upto H, overlay_excludes = (\<lambda>_. [])\<rparr>"

subsection \<open>ELF files\<close>

type_synonym usize = "64 word"

text \<open>The readers \<^verbatim>\<open>u16\<close>, \<^verbatim>\<open>u32\<close> and \<^verbatim>\<open>u64\<close> for n = 2, 4, 8.\<close>

definition elf_read :: "nat \<Rightarrow> bytes \<Rightarrow> usize \<Rightarrow> bool \<Rightarrow> str \<Rightarrow> codec_error + nat" where
  "elf_read n b off le name =
     (case get_range (unat off) (unat (off + of_nat n)) b of
        None \<Rightarrow> Inl (FieldOutOfBounds name)
      | Some s \<Rightarrow> Inr (if le then from_le s else from_be s))"

definition elf_usize :: "bool \<Rightarrow> bytes \<Rightarrow> usize \<Rightarrow> bool \<Rightarrow> str \<Rightarrow> codec_error + usize" where
  "elf_usize is64 b off le name =
     and_then (elf_read (if is64 then 8 else 4) b off le name) (\<lambda>v. Inr (of_nat v))"

definition elf_u16 :: "bytes \<Rightarrow> usize \<Rightarrow> bool \<Rightarrow> str \<Rightarrow> codec_error + usize" where
  "elf_u16 b off le name = and_then (elf_read 2 b off le name) (\<lambda>v. Inr (of_nat v))"

fun elf_segments :: "bytes \<Rightarrow> bool \<Rightarrow> bool \<Rightarrow> usize \<Rightarrow> usize \<Rightarrow> nat list \<Rightarrow> usize \<Rightarrow> codec_error + usize" where
  "elf_segments b le is64 phoff phentsize [] l = Inr l"
| "elf_segments b le is64 phoff phentsize (i # is) l =
     (let ph = phoff + of_nat i * phentsize in
      and_then (elf_read 4 b ph le ''p_type'') (\<lambda>p_type.
        if p_type \<noteq> 1 then elf_segments b le is64 phoff phentsize is l
        else and_then (elf_usize is64 b (ph + (if is64 then 8 else 4)) le ''p_offset'') (\<lambda>p_offset.
             and_then (elf_usize is64 b (ph + (if is64 then 32 else 16)) le ''p_filesz'') (\<lambda>p_filesz.
             elf_segments b le is64 phoff phentsize is (max l (p_offset + p_filesz))))))"

definition elf_endian :: "byte \<Rightarrow> codec_error + bool" where
  "elf_endian d = (if d = 1 then Inr True else if d = 2 then Inr False else Inl (UnsupportedElfData d))"

definition elf_class :: "byte \<Rightarrow> codec_error + bool" where
  "elf_class c = (if c = 1 then Inr False else if c = 2 then Inr True else Inl (UnsupportedElfClass c))"

definition elf_program_end :: "bytes \<Rightarrow> bool \<Rightarrow> bool \<Rightarrow> codec_error + usize" where
  "elf_program_end b le is64 =
     and_then (elf_usize is64 b (if is64 then 32 else 28) le ''e_phoff'') (\<lambda>phoff.
     and_then (elf_u16 b (if is64 then 54 else 42) le ''e_phentsize'') (\<lambda>phentsize.
     and_then (elf_u16 b (if is64 then 56 else 44) le ''e_phnum'') (\<lambda>phnum.
     elf_segments b le is64 phoff phentsize [0..<unat phnum] 0)))"

definition elf_section_end :: "bytes \<Rightarrow> bool \<Rightarrow> bool \<Rightarrow> usize \<Rightarrow> codec_error + usize" where
  "elf_section_end b le is64 l =
     and_then (elf_usize is64 b (if is64 then 40 else 32) le ''e_shoff'') (\<lambda>shoff.
     and_then (elf_u16 b (if is64 then 58 else 46) le ''e_shentsize'') (\<lambda>shentsize.
     and_then (elf_u16 b (if is64 then 60 else 48) le ''e_shnum'') (\<lambda>shnum.
     Inr (if shoff > 0 then max l (shoff + shentsize * shnum) else l))))"

definition compute_elf_l :: "bytes \<Rightarrow> codec_error + nat" where
  "compute_elf_l bs =
     (if length bs < 0x40 then Inl Truncated
      else if subslice 0 4 bs \<noteq> [0x7F, 0x45, 0x4C, 0x46] then Inl NotAnExecutable
      else and_then (elf_endian (bs ! 5)) (\<lambda>le.
           and_then (elf_class (bs ! 4)) (\<lambda>is64.
           and_then (elf_program_end bs le is64) (\<lambda>l0.
           and_then (elf_section_end bs le is64 l0) (\<lambda>l.
           if unat l > length bs then Inl (CodecMalformed ''ELF L > file len'') else Inr (unat l))))))"

definition elf_codec :: "(bytes \<Rightarrow> bytes) \<Rightarrow> codec" where
  "elf_codec H =
     \<lparr>compute_l = (\<lambda>bs. and_then (compute_elf_l bs) (\<lambda>l. Inr (Some l))),
      content_hash = hash_upto H, overlay_excludes = (\<lambda>_. [])\<rparr>"

subsubsection \<open>Bytes behind the file do not change what was read\<close>

lemma elf_read_append: "elf_read n b off le name = Inr v \<Longrightarrow> elf_read n (b @ ext) off le name = Inr v"
  by (auto simp: elf_read_def get_range_append split: option.splits)

lemma elf_usize_append: "elf_usize is64 b off le name = Inr v \<Longrightarrow> elf_usize is64 (b @ ext) off le name = Inr v"
  unfolding elf_usize_def and_then_eq_Inr using elf_read_append by blast

lemma elf_u16_append: "elf_u16 b off le name = Inr v \<Longrightarrow> elf_u16 (b @ ext) off le name = Inr v"
  unfolding elf_u16_def and_then_eq_Inr using elf_read_append by blast

lemma elf_segments_append:
  "elf_segments b le is64 phoff phentsize is l = Inr r \<Longrightarrow>
   elf_segments (b @ ext) le is64 phoff phentsize is l = Inr r"
proof (induction "is" arbitrary: l)
  case (Cons i "is")
  let ?ph = "phoff + of_nat i * phentsize"
  from Cons.prems obtain t where t: "elf_read 4 b ?ph le ''p_type'' = Inr t"
    by (auto simp: Let_def and_then_eq_Inr)
  show ?case
  proof (cases "t = 1")
    case True
    with Cons.prems t obtain off sz where
      os: "elf_usize is64 b (?ph + (if is64 then 8 else 4)) le ''p_offset'' = Inr off"
        "elf_usize is64 b (?ph + (if is64 then 32 else 16)) le ''p_filesz'' = Inr sz"
      and rest: "elf_segments b le is64 phoff phentsize is (max l (off + sz)) = Inr r"
      unfolding elf_segments.simps Let_def by (auto simp only: and_then_simps and_then_eq_Inr if_False simp_thms)
    show ?thesis
      using True elf_read_append [OF t] elf_usize_append [OF os(1)] elf_usize_append [OF os(2)] Cons.IH [OF rest]
      by (simp only: elf_segments.simps Let_def and_then_simps if_False simp_thms)
  next
    case False
    with Cons.prems t Cons.IH elf_read_append [OF t] show ?thesis
      by (simp only: elf_segments.simps Let_def and_then_simps if_True simp_thms)
  qed
qed simp

lemma compute_elf_l_append:
  assumes "compute_elf_l bs = Inr l"
  shows "compute_elf_l (bs @ ext) = Inr l"
proof -
  from assms have len: "\<not> length bs < 0x40" by (auto simp: compute_elf_l_def split: if_splits)
  from assms obtain le is64 l0 l1 where
    r: "subslice 0 4 bs = [0x7F, 0x45, 0x4C, 0x46]" "elf_endian (bs ! 5) = Inr le" "elf_class (bs ! 4) = Inr is64"
      "elf_program_end bs le is64 = Inr l0" "elf_section_end bs le is64 l0 = Inr l1"
      "unat l1 \<le> length bs" "l = unat l1"
    by (auto simp: compute_elf_l_def and_then_eq_Inr split: if_splits)
  have "elf_program_end (bs @ ext) le is64 = Inr l0"
    using r(4) unfolding elf_program_end_def and_then_eq_Inr
    by (blast intro: elf_usize_append elf_u16_append elf_segments_append)
  moreover have "elf_section_end (bs @ ext) le is64 l0 = Inr l1"
    using r(5) unfolding elf_section_end_def and_then_eq_Inr
    by (blast intro: elf_usize_append elf_u16_append)
  ultimately show ?thesis
    using r len by (simp add: compute_elf_l_def nth_append)
qed

lemma compute_elf_l_bound: "compute_elf_l bs = Inr l \<Longrightarrow> l \<le> length bs"
  by (auto simp: compute_elf_l_def and_then_eq_Inr split: if_splits)

subsubsection \<open>What L covers\<close>

text \<open>Entry i of the program header table is a loadable segment with the given offset and size in the file.\<close>

definition pt_load :: "bytes \<Rightarrow> bool \<Rightarrow> bool \<Rightarrow> nat \<Rightarrow> usize \<Rightarrow> usize \<Rightarrow> bool" where
  "pt_load bs le is64 i off sz \<longleftrightarrow>
     (\<exists>phoff phentsize phnum.
        elf_usize is64 bs (if is64 then 32 else 28) le ''e_phoff'' = Inr phoff \<and>
        elf_u16 bs (if is64 then 54 else 42) le ''e_phentsize'' = Inr phentsize \<and>
        elf_u16 bs (if is64 then 56 else 44) le ''e_phnum'' = Inr phnum \<and>
        i < unat phnum \<and>
        elf_read 4 bs (phoff + of_nat i * phentsize) le ''p_type'' = Inr 1 \<and>
        elf_usize is64 bs (phoff + of_nat i * phentsize + (if is64 then 8 else 4)) le ''p_offset'' = Inr off \<and>
        elf_usize is64 bs (phoff + of_nat i * phentsize + (if is64 then 32 else 16)) le ''p_filesz'' = Inr sz)"

lemma elf_segments_ge: "elf_segments b le is64 phoff phentsize is l = Inr r \<Longrightarrow> l \<le> r"
proof (induction "is" arbitrary: l)
  case (Cons i "is")
  then show ?case
    by (force simp: Let_def and_then_eq_Inr split: if_splits)
qed simp

lemma elf_segments_covers:
  "elf_segments b le is64 phoff phentsize is l = Inr r \<Longrightarrow> i \<in> set is \<Longrightarrow>
   elf_read 4 b (phoff + of_nat i * phentsize) le ''p_type'' = Inr 1 \<Longrightarrow>
   elf_usize is64 b (phoff + of_nat i * phentsize + (if is64 then 8 else 4)) le ''p_offset'' = Inr off \<Longrightarrow>
   elf_usize is64 b (phoff + of_nat i * phentsize + (if is64 then 32 else 16)) le ''p_filesz'' = Inr sz \<Longrightarrow>
   off + sz \<le> r"
proof (induction "is" arbitrary: l)
  case (Cons j "is")
  show ?case
  proof (cases "j = i")
    case True
    with Cons.prems have "elf_segments b le is64 phoff phentsize is (max l (off + sz)) = Inr r"
      by (simp only: elf_segments.simps Let_def and_then_simps if_False simp_thms)
    then show ?thesis using elf_segments_ge by fastforce
  next
    case False
    then obtain l' where "elf_segments b le is64 phoff phentsize is l' = Inr r"
      using Cons.prems(1) unfolding elf_segments.simps Let_def and_then_eq_Inr
      by (auto simp only: and_then_eq_Inr split: if_splits)
    with Cons.IH [OF this] Cons.prems False show ?thesis by simp
  qed
qed simp

lemma unat_add_no_wrap:
  assumes "unat (a :: usize) + unat b < 2 ^ 64"
  shows "unat (a + b) = unat a + unat b"
  using assms by (simp add: unat_word_ariths)

text \<open>
  The end L that the ELF codec computes lies within the file, and every loadable segment whose end does
  not overflow 64 bits lies below L, so the bytes a loader maps are part of the protected contents.
\<close>

theorem elf_l_covers_segments:
  assumes "compute_elf_l bs = Inr l" "elf_endian (bs ! 5) = Inr le" "elf_class (bs ! 4) = Inr is64"
    and "pt_load bs le is64 i off sz" "unat off + unat sz < 2 ^ 64"
  shows "unat off + unat sz \<le> l \<and> l \<le> length bs"
proof
  from assms(1-3) obtain l0 l1 where
    l: "elf_program_end bs le is64 = Inr l0" "elf_section_end bs le is64 l0 = Inr l1" "l = unat l1"
    by (auto simp: compute_elf_l_def and_then_eq_Inr split: if_splits)
  from assms(4) l(1) have "off + sz \<le> l0"
    unfolding pt_load_def elf_program_end_def
    by (elim exE conjE) (auto intro!: elf_segments_covers [where i = i])
  also have "l0 \<le> l1"
    using l(2) by (auto simp: elf_section_end_def and_then_eq_Inr split: if_splits)
  finally show "unat off + unat sz \<le> l"
    using unat_add_no_wrap [OF assms(5)] l(3) by (simp add: word_le_nat_alt)
next
  show "l \<le> length bs" by (rule compute_elf_l_bound [OF assms(1)])
qed

definition elf_example :: bytes where
  "elf_example =
     [0x7F, 0x45, 0x4C, 0x46, 1, 1, 0, 0, 0, 0, 0, 0, 0, 0, 0, 0, 1, 0, 0, 0, 1, 0, 0, 0, 0, 0, 0, 0,
      16, 0, 0, 0, 10, 0, 0, 0, 0, 0, 0, 0, 0, 0, 32, 0, 1, 0, 0, 0, 0, 0, 0, 0,
      0, 0, 0, 0, 0, 0, 0, 0, 0, 0, 0, 0]"

lemma elf_example_reads:
  "elf_usize False elf_example 28 True ''e_phoff'' = Inr 16"
  "elf_u16 elf_example 42 True ''e_phentsize'' = Inr 32"
  "elf_u16 elf_example 44 True ''e_phnum'' = Inr 1"
  "elf_read 4 elf_example 16 True ''p_type'' = Inr 1"
  "elf_usize False elf_example 20 True ''p_offset'' = Inr 1"
  "elf_usize False elf_example 32 True ''p_filesz'' = Inr 10"
  "elf_usize False elf_example 32 True ''e_shoff'' = Inr 10"
  "elf_u16 elf_example 46 True ''e_shentsize'' = Inr 0"
  "elf_u16 elf_example 48 True ''e_shnum'' = Inr 0"
  by (simp_all add: elf_example_def elf_usize_def elf_u16_def elf_read_def get_range_def subslice_def)

lemma elf_example_l: "compute_elf_l elf_example = Inr 11"
proof -
  have "subslice 0 4 elf_example = [0x7F, 0x45, 0x4C, 0x46]" "length elf_example = 64"
    "elf_example ! 5 = 1" "elf_example ! 4 = 1"
    by (simp_all add: elf_example_def subslice_def)
  then show ?thesis
    by (simp add: compute_elf_l_def elf_endian_def elf_class_def elf_program_end_def elf_section_end_def
        elf_example_reads)
qed

theorem elf_l_covers_segments_witness:
  "compute_elf_l elf_example = Inr 11 \<and> unat (1 :: usize) + unat (10 :: usize) \<le> 11"
proof -
  have b: "elf_endian (elf_example ! 5) = Inr True" "elf_class (elf_example ! 4) = Inr False"
    by (simp_all add: elf_example_def elf_endian_def elf_class_def)
  have "pt_load elf_example True False 0 1 10"
    unfolding pt_load_def using elf_example_reads by (intro exI [of _ 16] exI [of _ 32] exI [of _ 1]) simp
  from elf_l_covers_segments [OF elf_example_l b this] elf_example_l show ?thesis by simp
qed

subsection \<open>What a carrier needs of a codec\<close>

locale carrier_codec =
  fixes c :: codec and H :: "bytes \<Rightarrow> bytes"
  assumes l_bound: "compute_l c bs = Inr (Some l) \<Longrightarrow> l \<le> length bs"
    and l_append: "compute_l c bs = Inr r \<Longrightarrow> compute_l c (bs @ ext) = Inr r"
    and hash_is: "content_hash c bs n = hash_upto H bs n"
    and no_excludes: "overlay_excludes c bs = []"
begin

lemma protected_bound: "compute_l c bs = Inr r \<Longrightarrow> (case r of Some l \<Rightarrow> l | None \<Rightarrow> length bs) \<le> length bs"
  using l_bound by (auto split: option.splits)

lemma hash_append: "n \<le> length bs \<Longrightarrow> content_hash c (bs @ ext) n = Inr (H (take n bs))"
  by (simp add: hash_is hash_upto_def)

end

interpretation raw: carrier_codec "raw_codec H" H for H
  by unfold_locales (simp_all add: raw_codec_def)

interpretation elf: carrier_codec "elf_codec H" H for H
  by unfold_locales
    (auto simp: elf_codec_def and_then_eq_Inr dest: compute_elf_l_bound compute_elf_l_append)

end
