(* ===== verification/PeFile.thy ===== *)
theory PeFile
  imports Codecs
begin

text \<open>
  Windows executables, crates/nemesis-verify/src/pe.rs: the layout of a PE file, the Authenticode
  digest, and the certificate table that carries a signature.

  Offsets are sums of a few 32-bit fields, which do not overflow the 64-bit \<^verbatim>\<open>usize\<close>, so they are natural
  numbers.  Messages of \<^verbatim>\<open>Malformed\<close> errors are abbreviated.  A panic is the value \<^verbatim>\<open>None\<close>.
\<close>

record pe_layout =
  pe_l :: nat
  checksum_range :: "nat \<times> nat"
  security_dir_range :: "(nat \<times> nat) option"
  auth_region :: "(nat \<times> nat) option"

definition read_le :: "nat \<Rightarrow> bytes \<Rightarrow> nat \<Rightarrow> str \<Rightarrow> codec_error + nat" where
  "read_le n b off name =
     (case get_range off (off + n) b of None \<Rightarrow> Inl (FieldOutOfBounds name) | Some s \<Rightarrow> Inr (from_le s))"

abbreviation u16le :: "bytes \<Rightarrow> nat \<Rightarrow> str \<Rightarrow> codec_error + nat" where
  "u16le \<equiv> read_le 2"

abbreviation u32le :: "bytes \<Rightarrow> nat \<Rightarrow> str \<Rightarrow> codec_error + nat" where
  "u32le \<equiv> read_le 4"

definition der_tlv_len :: "bytes \<Rightarrow> nat option" where
  "der_tlv_len b =
     (if length b < 2 then None
      else let l0 = unat (b ! 1) in
        if l0 < 0x80 then Some (2 + l0)
        else let n = l0 - 0x80 in
          if n = 0 \<or> n > 4 \<or> length b < 2 + n then None
          else Some (2 + n + from_be (subslice 2 (2 + n) b)))"

text \<open>The fields before the data directory: e_lfanew, the number of sections, the size of the optional
  header, the kind of the image and the number of directory entries.\<close>

record pe_header =
  e_lfanew :: nat
  num_sections :: nat
  size_of_opt :: nat
  is_plus :: bool
  nrva :: nat

definition pe_kind :: "nat \<Rightarrow> codec_error + bool" where
  "pe_kind magic =
     (if magic = 0x10B then Inr False else if magic = 0x20B then Inr True
      else Inl (UnknownOptionalHeaderMagic magic))"

definition parse_pe_header :: "bytes \<Rightarrow> codec_error + pe_header" where
  "parse_pe_header bs =
     (if length bs < 0x40 then Inl Truncated
      else if subslice 0 2 bs \<noteq> [0x4D, 0x5A] then Inl NotAnExecutable
      else and_then (u32le bs 0x3C ''e_lfanew'') (\<lambda>p.
        if get_range p (p + 4) bs \<noteq> Some [0x50, 0x45, 0, 0] then Inl NotAnExecutable
        else and_then (u16le bs (p + 6) ''NumberOfSections'') (\<lambda>ns.
             and_then (u16le bs (p + 20) ''SizeOfOptionalHeader'') (\<lambda>so.
             and_then (u16le bs (p + 24) ''Magic'') (\<lambda>magic.
             and_then (pe_kind magic) (\<lambda>plus.
             and_then (u32le bs (p + (if plus then 132 else 116)) ''NumberOfRvaAndSizes'') (\<lambda>nr.
             Inr \<lparr>e_lfanew = p, num_sections = ns, size_of_opt = so, is_plus = plus, nrva = nr\<rparr>)))))))"

definition datadir_start :: "pe_header \<Rightarrow> nat" where
  "datadir_start h = e_lfanew h + (if is_plus h then 136 else 120)"

definition security_entry :: "pe_header \<Rightarrow> (nat \<times> nat) option" where
  "security_entry h =
     (if nrva h \<ge> 5 then Some (datadir_start h + 32, datadir_start h + 40) else None)"

definition read_auth_region :: "bytes \<Rightarrow> pe_header \<Rightarrow> codec_error + (nat \<times> nat) option" where
  "read_auth_region bs h =
     (if nrva h \<ge> 5
      then and_then (u32le bs (datadir_start h + 32) ''Security.VA'') (\<lambda>va.
           and_then (u32le bs (datadir_start h + 36) ''Security.Size'') (\<lambda>size.
           Inr (if size > 0 then Some (va, va + size) else None)))
      else Inr None)"

definition sec_tbl :: "pe_header \<Rightarrow> nat" where
  "sec_tbl h = e_lfanew h + 24 + size_of_opt h"

fun section_ends :: "bytes \<Rightarrow> nat \<Rightarrow> nat list \<Rightarrow> nat \<Rightarrow> codec_error + nat" where
  "section_ends b tbl [] l = Inr l"
| "section_ends b tbl (i # is) l =
     and_then (u32le b (tbl + i * 40 + 16) ''SizeOfRawData'') (\<lambda>size_raw.
     and_then (u32le b (tbl + i * 40 + 20) ''PointerToRawData'') (\<lambda>ptr_raw.
     section_ends b tbl is (if size_raw > 0 then max l (ptr_raw + size_raw) else l)))"

definition parse_pe :: "bytes \<Rightarrow> codec_error + pe_layout" where
  "parse_pe bs =
     and_then (parse_pe_header bs) (\<lambda>h.
     and_then (read_auth_region bs h) (\<lambda>auth.
     and_then (section_ends bs (sec_tbl h) [0..<num_sections h] 0) (\<lambda>l0.
     let l = min (max l0 (sec_tbl h + num_sections h * 40)) (length bs);
         layout = \<lparr>pe_l = l, checksum_range = (e_lfanew h + 88, e_lfanew h + 92),
                   security_dir_range = security_entry h, auth_region = auth\<rparr>
     in case auth of
          None \<Rightarrow> Inr layout
        | Some (va, e) \<Rightarrow>
            if va < l then Inl (CodecMalformed ''Authenticode VA < overlay start L'')
            else if e > length bs then Inl (CodecMalformed ''Authenticode end > file len'')
            else Inr layout)))"

subsection \<open>The Authenticode digest\<close>

text \<open>The bytes that are hashed; slicing from the end of the directory entry to a table that starts before it panics.\<close>

definition digest_input :: "bytes \<Rightarrow> pe_layout \<Rightarrow> (codec_error + bytes) option" where
  "digest_input bs layout =
     (case checksum_range layout of (cs, ce) \<Rightarrow>
      case security_dir_range layout of
        Some (ss, se) \<Rightarrow>
          if ss < ce then Some (Inl (CodecMalformed ''Security Directory overlaps CheckSum''))
          else (case auth_region layout of
                  Some (va, vend) \<Rightarrow>
                    if va < se then None
                    else Some (Inr (take cs bs @ subslice ce ss bs @ subslice se va bs @ drop vend bs))
                | None \<Rightarrow> Some (Inr (take cs bs @ subslice ce ss bs @ drop se bs)))
      | None \<Rightarrow> Some (Inr (take cs bs @ drop ce bs)))"

definition authenticode_digest :: "(bytes \<Rightarrow> bytes) \<Rightarrow> bytes \<Rightarrow> (codec_error + bytes) option" where
  "authenticode_digest H bs =
     (case parse_pe bs of
        Inl e \<Rightarrow> Some (Inl e)
      | Inr layout \<Rightarrow> map_option (\<lambda>r. and_then r (\<lambda>input. Inr (H input))) (digest_input bs layout))"

subsection \<open>The certificate table\<close>

definition round8 :: "nat \<Rightarrow> nat" where
  "round8 x = (x + 7) div 8 * 8"

definition pad_to :: "nat \<Rightarrow> bytes \<Rightarrow> bytes" where
  "pad_to n bs = take n bs @ replicate (n - length bs) 0"

definition win_cert_entry_bytes :: "bytes \<Rightarrow> codec_error + bytes" where
  "win_cert_entry_bytes cms_der =
     (let entry_len = 8 + round8 (length cms_der) in
      if entry_len > 2 ^ 32 - 1 then Inl (CodecMalformed ''entry exceeds u32'')
      else Inr (pad_to entry_len (to_le 4 entry_len @ to_le 2 0x0200 @ to_le 2 0x0002 @ cms_der)))"

definition write_at :: "nat \<Rightarrow> bytes \<Rightarrow> bytes \<Rightarrow> bytes" where
  "write_at off new bs = take off bs @ new @ drop (off + length new) bs"

definition append_certificate_table :: "bytes \<Rightarrow> bytes \<Rightarrow> codec_error + bytes" where
  "append_certificate_table bs cms_der =
     and_then (parse_pe bs) (\<lambda>layout.
     case security_dir_range layout of
       None \<Rightarrow> Inl (CodecMalformed ''NumberOfRvaAndSizes < 5'')
     | Some (entry_off, _) \<Rightarrow>
         if auth_region layout \<noteq> None then Inl (CodecMalformed ''certificate table present'')
         else if cms_der = [] then Inl (CodecMalformed ''CMS DER empty'')
         else if round8 (length bs) > 2 ^ 32 - 1 then Inl (CodecMalformed ''VA exceeds u32'')
         else and_then (win_cert_entry_bytes cms_der) (\<lambda>entry.
           Inr (write_at entry_off (to_le 4 (round8 (length bs)) @ to_le 4 (length entry))
                 (pad_to (round8 (length bs)) bs @ entry))))"

record win_cert_entry =
  wc_offset :: nat
  wc_entry_len :: nat
  wc_revision :: nat
  wc_cert_type :: nat
  wc_certificate :: bytes

definition WIN_CERT_TYPE_PKCS_SIGNED_DATA :: nat where "WIN_CERT_TYPE_PKCS_SIGNED_DATA = 2"

definition entry_certificate :: "nat \<Rightarrow> bytes \<Rightarrow> codec_error + bytes" where
  "entry_certificate cert_type blob =
     (if cert_type = WIN_CERT_TYPE_PKCS_SIGNED_DATA
      then (case der_tlv_len blob of
              None \<Rightarrow> Inl (CodecMalformed ''bCertificate length header'')
            | Some tlv \<Rightarrow>
                if tlv > length blob then Inl (CodecMalformed ''bCertificate exceeds entry'')
                else Inr (take tlv blob))
      else Inr blob)"

function certificate_entries :: "bytes \<Rightarrow> nat \<Rightarrow> nat \<Rightarrow> codec_error + win_cert_entry list" where
  "certificate_entries bs table_end pos =
     (if pos + 8 \<le> table_end
      then and_then (u32le bs pos ''WIN_CERTIFICATE.dwLength'') (\<lambda>dwlen.
        if dwlen < 8 \<or> pos + dwlen > table_end then Inr []
        else and_then (u16le bs (pos + 4) ''wRevision'') (\<lambda>revision.
             and_then (u16le bs (pos + 6) ''wCertificateType'') (\<lambda>cert_type.
             and_then (entry_certificate cert_type (subslice (pos + 8) (pos + dwlen) bs)) (\<lambda>cert.
             and_then (certificate_entries bs table_end (round8 (pos + dwlen))) (\<lambda>es.
             Inr (\<lparr>wc_offset = pos, wc_entry_len = dwlen, wc_revision = revision,
                   wc_cert_type = cert_type, wc_certificate = cert\<rparr> # es))))))
      else Inr [])"
  by pat_completeness auto
termination
  by (relation "measure (\<lambda>(bs, e, pos). e - pos)") (auto simp: round8_def)

declare certificate_entries.simps [simp del]

definition read_certificate_entries :: "bytes \<Rightarrow> codec_error + win_cert_entry list" where
  "read_certificate_entries bs =
     and_then (parse_pe bs) (\<lambda>layout.
     case auth_region layout of None \<Rightarrow> Inr [] | Some (va, e) \<Rightarrow> certificate_entries bs e va)"

text \<open>
  The table is present only with five directory entries, so the entry is there (\<^verbatim>\<open>expect\<close> in the code).  Clearing the
  entry panics when the table starts before its end.
\<close>

definition replace_certificate_table :: "bytes \<Rightarrow> bytes \<Rightarrow> (codec_error + bytes) option" where
  "replace_certificate_table bs cms_der =
     (case parse_pe bs of
        Inl e \<Rightarrow> Some (Inl e)
      | Inr layout \<Rightarrow>
         (case auth_region layout of
            None \<Rightarrow> Some (Inl (CodecMalformed ''unsigned PE''))
          | Some (va, e) \<Rightarrow>
              if e \<noteq> length bs then Some (Inl (CodecMalformed ''data behind the certificate table''))
              else if cms_der = [] then Some (Inl (CodecMalformed ''CMS DER empty''))
              else (case security_dir_range layout of
                      None \<Rightarrow> None
                    | Some (entry_off, entry_end) \<Rightarrow>
                        if entry_end > va then None
                        else Some (append_certificate_table
                               (write_at entry_off (replicate 8 0) (take va bs)) cms_der))))"

subsection \<open>The codec\<close>

text \<open>The digest of the older format: the first l bytes without the two ranges.\<close>

fun feed_ranges :: "bytes \<Rightarrow> nat \<Rightarrow> (nat \<times> nat) list \<Rightarrow> nat \<Rightarrow> bytes" where
  "feed_ranges content l [] cursor = (if cursor < l then subslice cursor l content else [])"
| "feed_ranges content l ((s, e) # rs) cursor =
     (if min s l > cursor then subslice cursor (min s l) content else []) @
     feed_ranges content l rs (if min e l > cursor then min e l else cursor)"

definition pe_content_hash :: "(bytes \<Rightarrow> bytes) \<Rightarrow> bytes \<Rightarrow> nat \<Rightarrow> codec_error + bytes" where
  "pe_content_hash H content l =
     (if l > length content then Inl (CodecMalformed ''content_len > bytes len'')
      else and_then (parse_pe content) (\<lambda>layout.
        Inr (H (feed_ranges content l
          (sort_key fst (checksum_range layout # (case security_dir_range layout of Some r \<Rightarrow> [r] | None \<Rightarrow> []))) 0))))"

definition pe_overlay_excludes :: "bytes \<Rightarrow> (nat \<times> nat) list" where
  "pe_overlay_excludes bs =
     (case parse_pe bs of
        Inr layout \<Rightarrow> (case auth_region layout of Some r \<Rightarrow> [r] | None \<Rightarrow> [])
      | Inl _ \<Rightarrow> [])"

definition pe_codec :: "(bytes \<Rightarrow> bytes) \<Rightarrow> codec" where
  "pe_codec H =
     \<lparr>compute_l = (\<lambda>bs. and_then (parse_pe bs) (\<lambda>layout. Inr (Some (pe_l layout)))),
      content_hash = pe_content_hash H, overlay_excludes = pe_overlay_excludes\<rparr>"

subsection \<open>Files that agree outside the directory entry\<close>

text \<open>The first n bytes agree, except for the eight bytes at e.\<close>

definition agree :: "nat \<Rightarrow> nat \<Rightarrow> bytes \<Rightarrow> bytes \<Rightarrow> bool" where
  "agree e n bs bs' \<longleftrightarrow>
     n \<le> length bs \<and> n \<le> length bs' \<and> (\<forall>i < n. i < e \<or> e + 8 \<le> i \<longrightarrow> bs' ! i = bs ! i)"

lemma agree_subslice:
  assumes "agree e n bs bs'" "b \<le> n" "b \<le> e \<or> e + 8 \<le> a"
  shows "subslice a b bs' = subslice a b bs"
proof (rule nth_equalityI)
  show "length (subslice a b bs') = length (subslice a b bs)"
    using assms(1,2) by (auto simp: agree_def subslice_def)
next
  fix i assume "i < length (subslice a b bs')"
  then have "a + i < b" by (simp add: subslice_def) linarith
  with assms show "subslice a b bs' ! i = subslice a b bs ! i"
    by (auto simp: subslice_def agree_def)
qed

lemma agree_get_range:
  assumes "agree e n bs bs'" "b \<le> n" "b \<le> e \<or> e + 8 \<le> a"
  shows "get_range a b bs' = get_range a b bs"
  using agree_subslice [OF assms] assms(1,2) by (simp add: get_range_def agree_def)

lemma agree_read_le:
  assumes "agree e n bs bs'" "off + k \<le> n" "off + k \<le> e \<or> e + 8 \<le> off"
  shows "read_le k bs' off name = read_le k bs off name"
  using agree_get_range [OF assms] by (simp add: read_le_def)

lemma read_le_bound: "read_le k bs off name = Inr v \<Longrightarrow> off + k \<le> length bs"
  by (auto simp: read_le_def get_range_def split: if_splits)

lemma section_ends_agree:
  assumes "agree e n bs bs'" "e + 8 \<le> tbl"
  shows "(\<forall>i \<in> set is. tbl + i * 40 + 40 \<le> n) \<Longrightarrow> section_ends bs' tbl is l = section_ends bs tbl is l"
proof (induction "is" arbitrary: l)
  case (Cons i "is")
  have r: "u32le bs' (tbl + i * 40 + k) name = u32le bs (tbl + i * 40 + k) name" if "k + 4 \<le> 40" for k name
    using agree_read_le [OF assms(1)] Cons.prems assms(2) that by simp
  show ?case
    using Cons by (simp add: r)
qed simp

definition header_end :: "pe_header \<Rightarrow> nat" where
  "header_end h = datadir_start h + 32"

lemma parse_pe_header_agree:
  assumes "parse_pe_header bs = Inr h" "agree (header_end h) n bs bs'" "0x40 \<le> n" "header_end h \<le> n"
  shows "parse_pe_header bs' = Inr h"
proof -
  let ?p = "e_lfanew h"
  from assms(1) obtain magic where h:
    "subslice 0 2 bs = [0x4D, 0x5A]" "u32le bs 0x3C ''e_lfanew'' = Inr ?p"
    "get_range ?p (?p + 4) bs = Some [0x50, 0x45, 0, 0]"
    "u16le bs (?p + 6) ''NumberOfSections'' = Inr (num_sections h)"
    "u16le bs (?p + 20) ''SizeOfOptionalHeader'' = Inr (size_of_opt h)"
    "u16le bs (?p + 24) ''Magic'' = Inr magic" "pe_kind magic = Inr (is_plus h)"
    "u32le bs (?p + (if is_plus h then 132 else 116)) ''NumberOfRvaAndSizes'' = Inr (nrva h)"
    by (auto simp: parse_pe_header_def and_then_eq_Inr split: if_splits)
  have e: "?p + 152 \<le> header_end h" "is_plus h \<longrightarrow> ?p + 168 \<le> header_end h"
    by (simp_all add: header_end_def datadir_start_def)
  have len: "\<not> length bs' < 0x40" using assms(2,3) by (simp add: agree_def)
  have rd: "read_le k bs' off name = read_le k bs off name" if "off + k \<le> header_end h" for k off name
    using agree_read_le [OF assms(2)] that assms(4) by simp
  have sl: "subslice 0 2 bs' = subslice 0 2 bs" "get_range ?p (?p + 4) bs' = get_range ?p (?p + 4) bs"
    using agree_subslice [OF assms(2)] agree_get_range [OF assms(2)] e(1) assms(4) by simp_all
  have r1: "u32le bs' 0x3C ''e_lfanew'' = Inr ?p" using rd [where off = "0x3C" and k = 4] h(2) e(1) by simp
  have r2: "u16le bs' (?p + 6) ''NumberOfSections'' = Inr (num_sections h)"
    "u16le bs' (?p + 20) ''SizeOfOptionalHeader'' = Inr (size_of_opt h)"
    "u16le bs' (?p + 24) ''Magic'' = Inr magic"
    using rd h(4-6) e(1) by simp_all
  have r3: "u32le bs' (?p + (if is_plus h then 132 else 116)) ''NumberOfRvaAndSizes'' = Inr (nrva h)"
    using rd [where off = "?p + (if is_plus h then 132 else 116)" and k = 4] h(8) e by (simp split: if_splits)
  show ?thesis
    using len h(1,3,7) by (simp add: parse_pe_header_def sl r1 r2 r3)
qed

subsection \<open>Appending a certificate table\<close>

text \<open>
  A regular file: the optional header covers the directory up to the security entry, and the sections lie within the
  file.
\<close>

definition pe_regular :: "bytes \<Rightarrow> bool" where
  "pe_regular bs \<longleftrightarrow>
     (case parse_pe_header bs of
        Inl _ \<Rightarrow> False
      | Inr h \<Rightarrow> header_end h + 8 \<le> sec_tbl h \<and>
          (case section_ends bs (sec_tbl h) [0..<num_sections h] 0 of
             Inl _ \<Rightarrow> False
           | Inr l0 \<Rightarrow> max l0 (sec_tbl h + num_sections h * 40) \<le> length bs))"

lemma round8_bounds: "x \<le> round8 x" "round8 x < x + 8" "8 dvd round8 x"
  by (auto simp: round8_def)

lemma round8_fixed: "8 dvd x \<Longrightarrow> round8 x = x"
  by (auto simp: round8_def elim!: dvdE)

lemma pad_to_ge: "length bs \<le> n \<Longrightarrow> pad_to n bs = bs @ replicate (n - length bs) 0"
  by (simp add: pad_to_def)

lemma write_at_length [simp]: "off + length new \<le> length bs \<Longrightarrow> length (write_at off new bs) = length bs"
  by (simp add: write_at_def)

lemma write_at_append:
  "off + length new \<le> length xs \<Longrightarrow> write_at off new (xs @ ys) = write_at off new xs @ ys"
  by (simp add: write_at_def)

lemma write_at_agree:
  assumes "length new = 8" "off + 8 \<le> n" "n \<le> length bs" "n \<le> length bs'" "\<forall>i < n. bs' ! i = bs ! i"
  shows "agree off n bs (write_at off new bs')"
  using assms by (auto simp: agree_def write_at_def nth_append min_def)

lemma subslice_write_at:
  assumes "off + length new \<le> length bs" "a \<le> b" "b \<le> length new"
  shows "subslice (off + a) (off + b) (write_at off new bs) = subslice a b new"
proof -
  have "subslice (off + a) (off + b) (take off bs @ new @ drop (off + length new) bs)
      = subslice a b (new @ drop (off + length new) bs)"
    using subslice_append_right [of "take off bs" a b "new @ drop (off + length new) bs"] assms by simp
  then show ?thesis using assms by (simp add: write_at_def)
qed

lemma read_write_at:
  assumes "off + length new \<le> length bs" "a + k \<le> length new"
  shows "read_le k (write_at off new bs) (off + a) name = Inr (from_le (subslice a (a + k) new))"
  using subslice_write_at [OF assms(1), of a "a + k"] assms
  by (simp add: read_le_def get_range_def add.assoc)

lemma entry_bytes:
  assumes "win_cert_entry_bytes cms = Inr entry"
  shows "length entry = 8 + round8 (length cms)" "length entry < 2 ^ 32"
    "entry = to_le 4 (8 + round8 (length cms)) @ to_le 2 0x0200 @ to_le 2 0x0002 @ cms @
       replicate (round8 (length cms) - length cms) 0"
  using assms round8_bounds(1) [of "length cms"]
  by (auto simp: win_cert_entry_bytes_def Let_def pad_to_ge split: if_splits)

lemma parse_pe_parts:
  assumes "parse_pe bs = Inr layout"
  obtains h auth l0 where "parse_pe_header bs = Inr h" "read_auth_region bs h = Inr auth"
    "section_ends bs (sec_tbl h) [0..<num_sections h] 0 = Inr l0"
    "layout = \<lparr>pe_l = min (max l0 (sec_tbl h + num_sections h * 40)) (length bs),
       checksum_range = (e_lfanew h + 88, e_lfanew h + 92), security_dir_range = security_entry h,
       auth_region = auth\<rparr>"
    "\<And>va e. auth = Some (va, e) \<Longrightarrow> pe_l layout \<le> va \<and> e \<le> length bs"
proof -
  from assms obtain h auth l0 where p: "parse_pe_header bs = Inr h" "read_auth_region bs h = Inr auth"
    "section_ends bs (sec_tbl h) [0..<num_sections h] 0 = Inr l0"
    by (auto simp: parse_pe_def and_then_eq_Inr)
  show thesis
    using assms by (intro that [OF p]) (auto simp: parse_pe_def p Let_def split: option.splits if_splits)
qed

lemma parse_pe_header_bound:
  "parse_pe_header bs = Inr h \<Longrightarrow> 0x40 \<le> length bs"
  by (auto simp: parse_pe_header_def split: if_splits)

lemma auth_region_entry:
  assumes "read_auth_region bs h = Inr auth" "nrva h \<ge> 5"
  shows "header_end h + 8 \<le> length bs"
  using assms by (auto simp: read_auth_region_def header_end_def and_then_eq_Inr dest!: read_le_bound)

text \<open>The layout of a file with a new entry in the directory.\<close>

lemma parse_pe_rewritten:
  assumes h: "parse_pe_header bs = Inr h" and five: "nrva h \<ge> 5" and n: "0x40 \<le> n" "header_end h + 8 \<le> sec_tbl h"
    and sec: "section_ends bs (sec_tbl h) [0..<num_sections h] 0 = Inr l0"
      "max l0 (sec_tbl h + num_sections h * 40) \<le> n"
    and ag: "agree (header_end h) n bs bs'"
    and va: "u32le bs' (header_end h) ''Security.VA'' = Inr va"
      "u32le bs' (header_end h + 4) ''Security.Size'' = Inr sz"
    and rng: "sz > 0 \<longrightarrow> n \<le> va \<and> va + sz \<le> length bs'"
  shows "parse_pe bs' = Inr \<lparr>pe_l = max l0 (sec_tbl h + num_sections h * 40),
    checksum_range = (e_lfanew h + 88, e_lfanew h + 92),
    security_dir_range = Some (header_end h, header_end h + 8),
    auth_region = (if sz > 0 then Some (va, va + sz) else None)\<rparr>"
proof -
  let ?l = "max l0 (sec_tbl h + num_sections h * 40)"
  have len: "n \<le> length bs'" using ag by (simp add: agree_def)
  have h': "parse_pe_header bs' = Inr h"
    using parse_pe_header_agree [OF h ag n(1)] n(2) sec(2) by simp
  have s': "section_ends bs' (sec_tbl h) [0..<num_sections h] 0 = Inr l0"
    using section_ends_agree [OF ag n(2), of "[0..<num_sections h]" 0] sec by simp
  have au: "read_auth_region bs' h = Inr (if sz > 0 then Some (va, va + sz) else None)"
    using five va by (simp add: read_auth_region_def header_end_def add.assoc)
  have se: "security_entry h = Some (header_end h, header_end h + 8)"
    using five by (simp add: security_entry_def header_end_def)
  have l: "min ?l (length bs') = ?l" using sec(2) len by (simp add: min_def)
  show ?thesis
    using rng sec(2) by (auto simp: parse_pe_def h' s' au se l Let_def)
qed

lemma pe_regularE:
  assumes "pe_regular bs"
  obtains h l0 where "parse_pe_header bs = Inr h" "header_end h + 8 \<le> sec_tbl h"
    "section_ends bs (sec_tbl h) [0..<num_sections h] 0 = Inr l0"
    "max l0 (sec_tbl h + num_sections h * 40) \<le> length bs" "0x40 \<le> length bs"
  using assms parse_pe_header_bound by (auto simp: pe_regular_def split: sum.splits)

lemma append_certificate_tableE:
  assumes "append_certificate_table bs cms = Inr out" "pe_regular bs"
  obtains h l entry where
    "parse_pe bs = Inr \<lparr>pe_l = l, checksum_range = (e_lfanew h + 88, e_lfanew h + 92),
       security_dir_range = Some (header_end h, header_end h + 8), auth_region = None\<rparr>"
    "win_cert_entry_bytes cms = Inr entry" "cms \<noteq> []" "e_lfanew h + 92 \<le> header_end h"
    "header_end h + 8 \<le> length bs"
    "out = write_at (header_end h) (to_le 4 (round8 (length bs)) @ to_le 4 (length entry))
       (pad_to (round8 (length bs)) bs @ entry)"
    "parse_pe out = Inr \<lparr>pe_l = l, checksum_range = (e_lfanew h + 88, e_lfanew h + 92),
       security_dir_range = Some (header_end h, header_end h + 8),
       auth_region = Some (round8 (length bs), round8 (length bs) + length entry)\<rparr>"
proof -
  from assms(2) obtain h l0 where reg: "parse_pe_header bs = Inr h" "header_end h + 8 \<le> sec_tbl h"
    "section_ends bs (sec_tbl h) [0..<num_sections h] 0 = Inr l0"
    "max l0 (sec_tbl h + num_sections h * 40) \<le> length bs" "0x40 \<le> length bs" by (rule pe_regularE)
  let ?l = "max l0 (sec_tbl h + num_sections h * 40)" and ?va = "round8 (length bs)"
  from assms(1) obtain layout where lay1: "parse_pe bs = Inr layout"
    by (auto simp: append_certificate_table_def and_then_eq_Inr)
  with assms(1) have lay: "parse_pe bs = Inr layout" "security_dir_range layout \<noteq> None"
    "auth_region layout = None" "cms \<noteq> []" "\<not> ?va > 2 ^ 32 - 1"
    by (cases "auth_region layout"; auto simp: append_certificate_table_def split: option.splits if_splits)+
  from lay(1) obtain auth where auth: "read_auth_region bs h = Inr auth"
    "layout = \<lparr>pe_l = ?l, checksum_range = (e_lfanew h + 88, e_lfanew h + 92),
       security_dir_range = security_entry h, auth_region = auth\<rparr>"
    by (rule parse_pe_parts) (use reg in \<open>auto simp: min_def\<close>)
  have five: "nrva h \<ge> 5" and se: "security_entry h = Some (header_end h, header_end h + 8)"
    using lay(2) auth(2) by (auto simp: security_entry_def header_end_def split: if_splits)
  have e: "header_end h + 8 \<le> length bs" by (rule auth_region_entry [OF auth(1) five])
  from assms(1) lay auth(2) obtain entry where en: "win_cert_entry_bytes cms = Inr entry"
    "out = write_at (header_end h) (to_le 4 ?va @ to_le 4 (length entry)) (pad_to ?va bs @ entry)"
    by (auto simp: append_certificate_table_def se and_then_eq_Inr)
  let ?new = "to_le 4 ?va @ to_le 4 (length entry)" and ?body = "pad_to ?va bs @ entry"
  have body: "?body = bs @ replicate (?va - length bs) 0 @ entry" "length ?body = ?va + length entry"
    using round8_bounds(1) [of "length bs"] by (simp_all add: pad_to_ge)
  have ag: "agree (header_end h) (length bs) bs out"
    unfolding en(2) body(1) by (rule write_at_agree) (use e in \<open>auto simp: nth_append\<close>)
  have fits: "header_end h + length ?new \<le> length ?body" using e body by simp
  have va: "u32le out (header_end h) ''Security.VA'' = Inr ?va"
    using read_write_at [OF fits, of 0 4] lay(5) unfolding en(2) by (simp add: subslice_def from_le_to_le)
  have sz: "u32le out (header_end h + 4) ''Security.Size'' = Inr (length entry)"
    using read_write_at [OF fits, of 4 4] entry_bytes(2) [OF en(1)] unfolding en(2)
    by (simp add: subslice_def from_le_to_le)
  have pos: "length entry > 0" using entry_bytes(1) [OF en(1)] by simp
  have len: "length out = ?va + length entry" unfolding en(2) write_at_length [OF fits] by (rule body(2))
  have "parse_pe out = Inr \<lparr>pe_l = ?l, checksum_range = (e_lfanew h + 88, e_lfanew h + 92),
      security_dir_range = Some (header_end h, header_end h + 8), auth_region = Some (?va, ?va + length entry)\<rparr>"
    using parse_pe_rewritten [OF reg(1) five reg(5,2,3,4) ag va sz] round8_bounds(1) [of "length bs"] len pos by simp
  moreover have "e_lfanew h + 92 \<le> header_end h" by (simp add: header_end_def datadir_start_def)
  ultimately show thesis
    using that [of ?l h entry] lay auth(2) se en e by simp
qed

lemma certificate_entries_appended:
  assumes "append_certificate_table bs cms = Inr out" "pe_regular bs" "der_tlv_len cms = Some (length cms)"
  shows "read_certificate_entries out =
    Inr [\<lparr>wc_offset = round8 (length bs), wc_entry_len = 8 + round8 (length cms), wc_revision = 0x0200,
          wc_cert_type = WIN_CERT_TYPE_PKCS_SIGNED_DATA, wc_certificate = cms\<rparr>]"
  using assms(1,2)
proof (rule append_certificate_tableE)
  fix h l entry
  let ?va = "round8 (length bs)"
  assume en: "win_cert_entry_bytes cms = Inr entry" and e: "header_end h + 8 \<le> length bs"
    and out: "out = write_at (header_end h) (to_le 4 ?va @ to_le 4 (length entry)) (pad_to ?va bs @ entry)"
    and lay: "parse_pe out = Inr \<lparr>pe_l = l, checksum_range = (e_lfanew h + 88, e_lfanew h + 92),
       security_dir_range = Some (header_end h, header_end h + 8), auth_region = Some (?va, ?va + length entry)\<rparr>"
  note eb = entry_bytes [OF en]
  have "header_end h + 8 \<le> length (pad_to ?va bs)" and padded: "length (pad_to ?va bs) = ?va"
    using e round8_bounds(1) [of "length bs"] by (simp_all add: pad_to_ge)
  then obtain front where front: "out = front @ entry" "length front = ?va"
    by (intro that [of "write_at (header_end h) (to_le 4 ?va @ to_le 4 (length entry)) (pad_to ?va bs)"])
      (simp_all add: out write_at_append)
  have rd: "read_le k out (?va + a) name = Inr (from_le (subslice a (a + k) entry))" if "a + k \<le> length entry" for k a name
    using subslice_append_right [of front a "a + k" entry] front that
    by (simp add: read_le_def get_range_def add.assoc)
  have blob: "subslice (?va + 8) (?va + length entry) out = cms @ replicate (round8 (length cms) - length cms) 0"
  proof -
    have "subslice (?va + 8) (?va + length entry) out = subslice 8 (length entry) entry"
      using subslice_append_right [of front 8 "length entry" entry] front by simp
    also have "\<dots> = drop 8 entry" by (simp add: subslice_def)
    also have "\<dots> = cms @ replicate (round8 (length cms) - length cms) 0"
      by (simp add: eb(3))
    finally show ?thesis .
  qed
  have parts: "subslice 0 4 entry = to_le 4 (8 + round8 (length cms))" "subslice 4 6 entry = to_le 2 0x0200"
    "subslice 6 8 entry = to_le 2 0x0002"
    by (simp_all add: eb(3) subslice_def)
  have fields: "u32le out ?va ''WIN_CERTIFICATE.dwLength'' = Inr (length entry)"
    "u16le out (?va + 4) ''wRevision'' = Inr 0x0200" "u16le out (?va + 6) ''wCertificateType'' = Inr 2"
    using rd [where a = 0 and k = 4] rd [where a = 4 and k = 2] rd [where a = 6 and k = 2] parts eb(1,2)
    by (simp_all add: from_le_to_le)
  have tlv: "der_tlv_len (cms @ z) = Some (length cms)" for z
    using assms(3) by (auto simp: der_tlv_len_def Let_def nth_append split: if_splits)
  have cert: "entry_certificate 2 (cms @ z) = Inr cms" for z
    by (simp add: entry_certificate_def WIN_CERT_TYPE_PKCS_SIGNED_DATA_def tlv)
  have stop: "certificate_entries out (?va + length entry) (round8 (?va + length entry)) = Inr []"
    using round8_bounds(1) [of "?va + length entry"] by (simp add: certificate_entries.simps)
  have eight: "8 \<le> length entry" using eb(1) by simp
  have "certificate_entries out (?va + length entry) ?va =
    Inr [\<lparr>wc_offset = ?va, wc_entry_len = length entry, wc_revision = 0x0200, wc_cert_type = 2, wc_certificate = cms\<rparr>]"
    using eight by (subst certificate_entries.simps) (simp add: fields blob cert stop)
  then show ?thesis
    using lay eb(1) by (simp add: read_certificate_entries_def WIN_CERT_TYPE_PKCS_SIGNED_DATA_def)
qed

text \<open>
  A signature appended to a regular PE file as a certificate table is read back as the only entry, and its
  certificate is the appended block without the padding.
\<close>

theorem certificate_table_roundtrip:
  assumes "append_certificate_table bs cms = Inr out" "pe_regular bs" "der_tlv_len cms = Some (length cms)"
  shows "read_certificate_entries out =
    Inr [\<lparr>wc_offset = round8 (length bs), wc_entry_len = 8 + round8 (length cms), wc_revision = 0x0200,
          wc_cert_type = WIN_CERT_TYPE_PKCS_SIGNED_DATA, wc_certificate = cms\<rparr>]"
  by (rule certificate_entries_appended [OF assms])

lemma append_bytes:
  assumes "e + 8 \<le> length bs" "length new = 8" "length bs \<le> va"
  shows "write_at e new (pad_to va bs @ entry) = take e bs @ new @ drop (e + 8) bs @ replicate (va - length bs) 0 @ entry"
  using assms by (simp add: write_at_def pad_to_ge)

lemma subslice_take: "b \<le> n \<Longrightarrow> subslice a b (take n xs) = subslice a b xs"
  by (cases "a \<le> b") (auto simp: subslice_def drop_take)

lemma append_digest_input:
  assumes "append_certificate_table bs cms = Inr out" "pe_regular bs"
  shows "\<exists>x layout layout'. parse_pe bs = Inr layout \<and> digest_input bs layout = Some (Inr x) \<and>
    parse_pe out = Inr layout' \<and>
    digest_input out layout' = Some (Inr (x @ replicate (round8 (length bs) - length bs) 0))"
  using assms
proof (rule append_certificate_tableE)
  fix h l entry
  let ?va = "round8 (length bs)" and ?e = "header_end h"
  assume lay: "parse_pe bs = Inr \<lparr>pe_l = l, checksum_range = (e_lfanew h + 88, e_lfanew h + 92),
       security_dir_range = Some (?e, ?e + 8), auth_region = None\<rparr>"
    and en: "win_cert_entry_bytes cms = Inr entry"
    and e: "e_lfanew h + 92 \<le> ?e" "?e + 8 \<le> length bs"
    and out: "out = write_at ?e (to_le 4 ?va @ to_le 4 (length entry)) (pad_to ?va bs @ entry)"
    and lay': "parse_pe out = Inr \<lparr>pe_l = l, checksum_range = (e_lfanew h + 88, e_lfanew h + 92),
       security_dir_range = Some (?e, ?e + 8), auth_region = Some (?va, ?va + length entry)\<rparr>"
  let ?z = "replicate (?va - length bs) 0" and ?c = "e_lfanew h + 88"
  have va: "length bs \<le> ?va" by (rule round8_bounds)
  have o: "out = take ?e bs @ (to_le 4 ?va @ to_le 4 (length entry)) @ drop (?e + 8) bs @ ?z @ entry"
    unfolding out by (rule append_bytes) (use e va in simp_all)
  have "take ?c out = take ?c bs" using e by (simp add: o min_def)
  moreover have "subslice (e_lfanew h + 92) ?e out = subslice (e_lfanew h + 92) ?e bs"
    using subslice_append_left [of ?e "take ?e bs" "e_lfanew h + 92"] subslice_take [of ?e ?e "e_lfanew h + 92" bs] e
    by (simp add: o)
  moreover have "subslice (?e + 8) ?va out = drop (?e + 8) bs @ ?z"
    using subslice_mid [of "take ?e bs @ to_le 4 ?va @ to_le 4 (length entry)" "?e + 8" "drop (?e + 8) bs @ ?z" ?va entry] e va
    by (simp add: o)
  moreover have "drop (?va + length entry) out = []" using e va by (simp add: o)
  moreover have "\<not> ?va < ?e + 8" using e va by simp
  ultimately show ?thesis
    using e
    by (intro exI [of _ "take ?c bs @ subslice (e_lfanew h + 92) ?e bs @ drop (?e + 8) bs"])
      (simp add: lay lay' digest_input_def)
qed

text \<open>
  Appending a signature to a regular PE file of which the Authenticode digest is taken over x gives a file
  whose digest is taken over x followed by the zero bytes that pad the file to a multiple of eight.  The
  digest is therefore unchanged for files of such a length; for others it is not, although the digest that is signed
  is the one of the unpadded file and the comment says that only excluded ranges are written.
\<close>

theorem append_keeps_digest_up_to_padding:
  assumes "append_certificate_table bs cms = Inr out" "pe_regular bs"
  shows "\<exists>x. authenticode_digest H bs = Some (Inr (H x)) \<and>
    authenticode_digest H out = Some (Inr (H (x @ replicate (round8 (length bs) - length bs) 0)))"
  using append_digest_input [OF assms] by (auto simp: authenticode_digest_def)

subsection \<open>Replacing the certificate table\<close>

lemma stripped_layout:
  assumes "pe_regular bs" "parse_pe bs = Inr layout" "auth_region layout = Some (va, vend)"
  obtains h l where
    "layout = \<lparr>pe_l = l, checksum_range = (e_lfanew h + 88, e_lfanew h + 92),
       security_dir_range = Some (header_end h, header_end h + 8), auth_region = Some (va, vend)\<rparr>"
    "e_lfanew h + 92 \<le> header_end h" "header_end h + 8 \<le> va" "va \<le> length bs"
    "parse_pe (write_at (header_end h) (replicate 8 0) (take va bs)) =
       Inr \<lparr>pe_l = l, checksum_range = (e_lfanew h + 88, e_lfanew h + 92),
         security_dir_range = Some (header_end h, header_end h + 8), auth_region = None\<rparr>"
    "pe_regular (write_at (header_end h) (replicate 8 0) (take va bs))"
proof -
  from assms(1) obtain h l0 where reg: "parse_pe_header bs = Inr h" "header_end h + 8 \<le> sec_tbl h"
    "section_ends bs (sec_tbl h) [0..<num_sections h] 0 = Inr l0"
    "max l0 (sec_tbl h + num_sections h * 40) \<le> length bs" "0x40 \<le> length bs" by (rule pe_regularE)
  let ?l = "max l0 (sec_tbl h + num_sections h * 40)" and ?e = "header_end h"
  let ?s = "write_at ?e (replicate 8 0) (take va bs)"
  from assms(2) obtain auth where auth: "read_auth_region bs h = Inr auth"
    "layout = \<lparr>pe_l = ?l, checksum_range = (e_lfanew h + 88, e_lfanew h + 92),
       security_dir_range = security_entry h, auth_region = auth\<rparr>"
    "\<And>va e. auth = Some (va, e) \<Longrightarrow> pe_l layout \<le> va \<and> e \<le> length bs"
    by (rule parse_pe_parts) (use reg in \<open>auto simp: min_def\<close>)
  have five: "nrva h \<ge> 5" and ends: "va \<le> vend"
    using auth(1) assms(3) auth(2) by (auto simp: read_auth_region_def and_then_eq_Inr split: if_splits)
  then have se: "security_entry h = Some (?e, ?e + 8)" by (simp add: security_entry_def header_end_def)
  have va: "?l \<le> va" "va \<le> length bs" using auth(2) auth(3) [of va vend] assms(3) ends by auto
  have big: "0x40 \<le> va" "?e + 8 \<le> va" using va(1) reg(2) by (auto simp: header_end_def datadir_start_def split: if_splits)
  have e92: "e_lfanew h + 92 \<le> ?e" by (simp add: header_end_def datadir_start_def)
  have len: "length ?s = va" using va big by simp
  have ag: "agree ?e va bs ?s" by (rule write_at_agree) (use va big in auto)
  have rd: "u32le ?s (?e + a) name = Inr 0" if "a + 4 \<le> 8" for a name
    using read_write_at [of ?e "replicate 8 0" "take va bs" a 4 name] va big that
    by (simp add: subslice_def)
  have p: "parse_pe ?s = Inr \<lparr>pe_l = ?l, checksum_range = (e_lfanew h + 88, e_lfanew h + 92),
      security_dir_range = Some (?e, ?e + 8), auth_region = None\<rparr>"
    using parse_pe_rewritten [OF reg(1) five big(1) reg(2,3) va(1) ag rd [of 0, simplified] rd [of 4, simplified]]
    by simp
  have "parse_pe_header ?s = Inr h"
    using parse_pe_header_agree [OF reg(1) ag big(1)] big(2) by simp
  moreover have "section_ends ?s (sec_tbl h) [0..<num_sections h] 0 = Inr l0"
    using section_ends_agree [OF ag reg(2), of "[0..<num_sections h]" 0] reg(3) va(1) by simp
  ultimately have "pe_regular ?s" using reg(2) va(1) len by (simp add: pe_regular_def)
  with p e92 big(2) va(2) auth(2) assms(3) se show thesis by (intro that [of ?l h]) simp_all
qed

text \<open>
  Signing a regular, already signed PE file again replaces the table and leaves the digest as it was, up to the
  padding when the old table did not start at a multiple of eight.
\<close>

theorem replace_keeps_digest_up_to_padding:
  assumes "replace_certificate_table bs cms = Some (Inr out)" "pe_regular bs"
  shows "\<exists>layout va x. parse_pe bs = Inr layout \<and> auth_region layout = Some (va, length bs) \<and>
    authenticode_digest H bs = Some (Inr (H x)) \<and>
    authenticode_digest H out = Some (Inr (H (x @ replicate (round8 va - va) 0)))"
proof -
  from assms(1) obtain layout va where lay: "parse_pe bs = Inr layout" "auth_region layout = Some (va, length bs)"
    by (auto simp: replace_certificate_table_def split: sum.splits option.splits prod.splits if_splits)
  from assms(2) lay obtain h l where st:
    "layout = \<lparr>pe_l = l, checksum_range = (e_lfanew h + 88, e_lfanew h + 92),
       security_dir_range = Some (header_end h, header_end h + 8), auth_region = Some (va, length bs)\<rparr>"
    "e_lfanew h + 92 \<le> header_end h" "header_end h + 8 \<le> va" "va \<le> length bs"
    "parse_pe (write_at (header_end h) (replicate 8 0) (take va bs)) =
       Inr \<lparr>pe_l = l, checksum_range = (e_lfanew h + 88, e_lfanew h + 92),
         security_dir_range = Some (header_end h, header_end h + 8), auth_region = None\<rparr>"
    "pe_regular (write_at (header_end h) (replicate 8 0) (take va bs))"
    by (rule stripped_layout)
  let ?e = "header_end h"
  let ?s = "write_at ?e (replicate 8 0) (take va bs)"
  have app: "append_certificate_table ?s cms = Inr out"
    using assms(1) lay st(1,3) by (auto simp: replace_certificate_table_def split: if_splits)
  have s: "?s = take ?e bs @ replicate 8 0 @ subslice (?e + 8) va bs"
    using st(3) by (simp add: write_at_def subslice_def drop_take min_def)
  have len: "length ?s = va" using st(3,4) by simp
  have same: "digest_input bs layout = digest_input ?s
      \<lparr>pe_l = l, checksum_range = (e_lfanew h + 88, e_lfanew h + 92),
         security_dir_range = Some (?e, ?e + 8), auth_region = None\<rparr>"
    using st(1-4) subslice_append_left [of ?e "take ?e bs" "e_lfanew h + 92" "replicate 8 0 @ subslice (?e + 8) va bs"]
      subslice_take [of ?e ?e "e_lfanew h + 92" bs]
    by (simp add: digest_input_def s min_def)
  from append_digest_input [OF app st(6)] obtain x layout' where
    "digest_input bs layout = Some (Inr x)" "parse_pe out = Inr layout'"
    "digest_input out layout' = Some (Inr (x @ replicate (round8 va - va) 0))"
    using same st(5) len by auto
  with lay show ?thesis by (auto simp: authenticode_digest_def)
qed

subsection \<open>Example files\<close>

text \<open>A file of 164 bytes without sections: the size of the optional header and the security entry vary.\<close>

definition pe_example :: "byte \<Rightarrow> bytes \<Rightarrow> bytes" where
  "pe_example opt security =
     [0x4D, 0x5A, 0, 0, 0x50, 0x45, 0, 0] @ replicate 16 0 @ [opt, 0, 0, 0, 0x0B, 1] @ replicate 30 0 @
     [4, 0, 0, 0] @ replicate 56 0 @ [5, 0, 0, 0] @ replicate 32 0 @ security"



lemma pe_example_header:
  "length security = 8 \<Longrightarrow> parse_pe_header (pe_example opt security) =
     Inr \<lparr>e_lfanew = 4, num_sections = 0, size_of_opt = unat opt, is_plus = False, nrva = 5\<rparr>"
  by (simp add: pe_example_def parse_pe_header_def read_le_def get_range_def subslice_def pe_kind_def)

lemma pe_example_auth:
  "length security = 8 \<Longrightarrow> read_auth_region (pe_example opt security)
     \<lparr>e_lfanew = 4, num_sections = 0, size_of_opt = n, is_plus = False, nrva = 5\<rparr> =
   (let va = from_le (take 4 security); k = from_le (take 4 (drop 4 security))
    in Inr (if k > 0 then Some (va, va + k) else None))"
  by (simp add: pe_example_def read_auth_region_def datadir_start_def read_le_def get_range_def subslice_def Let_def)

lemma pe_example_length: "length (pe_example opt security) = 156 + length security"
  by (simp add: pe_example_def)

lemma pe_example_regular: "pe_regular (pe_example 136 (replicate 8 0))"
  by (simp add: pe_regular_def pe_example_header header_end_def datadir_start_def sec_tbl_def pe_example_length)

lemma pe_example_layout:
  "parse_pe (pe_example 136 (replicate 8 0)) =
     Inr \<lparr>pe_l = 164, checksum_range = (92, 96), security_dir_range = Some (156, 164), auth_region = None\<rparr>"
  by (simp add: parse_pe_def pe_example_header pe_example_auth security_entry_def datadir_start_def sec_tbl_def
      pe_example_length)

lemma pe_example_append:
  "\<exists>out. append_certificate_table (pe_example 136 (replicate 8 0)) [0x30, 0] = Inr out"
  by (simp add: append_certificate_table_def pe_example_layout round8_def win_cert_entry_bytes_def pe_example_length)

theorem certificate_table_roundtrip_witness:
  "\<exists>out. append_certificate_table (pe_example 136 (replicate 8 0)) [0x30, 0] = Inr out \<and>
     read_certificate_entries out =
       Inr [\<lparr>wc_offset = 168, wc_entry_len = 16, wc_revision = 0x0200,
             wc_cert_type = WIN_CERT_TYPE_PKCS_SIGNED_DATA, wc_certificate = [0x30, 0]\<rparr>]"
proof -
  obtain out where o: "append_certificate_table (pe_example 136 (replicate 8 0)) [0x30, 0] = Inr out"
    using pe_example_append by blast
  have "der_tlv_len [0x30, 0] = Some (length [0x30 :: byte, 0])" by (simp add: der_tlv_len_def)
  from certificate_table_roundtrip [OF o pe_example_regular this] o show ?thesis
    by (simp add: pe_example_length round8_def)
qed

theorem append_keeps_digest_up_to_padding_witness:
  "\<exists>out x. append_certificate_table (pe_example 136 (replicate 8 0)) [0x30, 0] = Inr out \<and>
     authenticode_digest rev (pe_example 136 (replicate 8 0)) = Some (Inr (rev x)) \<and>
     authenticode_digest rev out = Some (Inr (rev (x @ replicate 4 0)))"
proof -
  obtain out where o: "append_certificate_table (pe_example 136 (replicate 8 0)) [0x30, 0] = Inr out"
    using pe_example_append by blast
  from append_keeps_digest_up_to_padding [OF o pe_example_regular, of rev] o show ?thesis
    by (simp add: pe_example_length round8_def)
qed

definition signed_example :: bytes where
  "signed_example = pe_example 136 [164, 0, 0, 0, 4, 0, 0, 0] @ [1, 2, 3, 4]"

lemma signed_example_append:
  "parse_pe_header signed_example =
     Inr \<lparr>e_lfanew = 4, num_sections = 0, size_of_opt = 136, is_plus = False, nrva = 5\<rparr>"
  "read_auth_region signed_example
     \<lparr>e_lfanew = 4, num_sections = 0, size_of_opt = 136, is_plus = False, nrva = 5\<rparr> = Inr (Some (164, 168))"
  "length signed_example = 168"
  by (simp_all add: signed_example_def pe_example_def parse_pe_header_def read_auth_region_def datadir_start_def
      read_le_def get_range_def subslice_def pe_kind_def)

lemma signed_example_regular: "pe_regular signed_example"
  by (simp add: pe_regular_def signed_example_append header_end_def datadir_start_def sec_tbl_def)

lemma signed_example_layout:
  "parse_pe signed_example =
     Inr \<lparr>pe_l = 164, checksum_range = (92, 96), security_dir_range = Some (156, 164), auth_region = Some (164, 168)\<rparr>"
  by (simp add: parse_pe_def signed_example_append security_entry_def datadir_start_def sec_tbl_def Let_def)

theorem replace_keeps_digest_up_to_padding_witness:
  "\<exists>out x. replace_certificate_table signed_example [0x30, 0] = Some (Inr out) \<and>
     authenticode_digest rev signed_example = Some (Inr (rev x)) \<and>
     authenticode_digest rev out = Some (Inr (rev (x @ replicate 4 0)))"
proof -
  have "write_at 156 (replicate 8 0) (take 164 signed_example) = pe_example 136 (replicate 8 0)"
    by (simp add: write_at_def signed_example_def pe_example_def)
  then obtain out where o: "replace_certificate_table signed_example [0x30, 0] = Some (Inr out)"
    using pe_example_append by (auto simp: replace_certificate_table_def signed_example_layout signed_example_append)
  from replace_keeps_digest_up_to_padding [OF o signed_example_regular, of rev] o show ?thesis
    by (auto simp: signed_example_layout round8_def)
qed

subsection \<open>When the digest panics\<close>

lemma layout_order:
  assumes "parse_pe bs = Inr layout" "security_dir_range layout = Some (ss, se)"
  shows "snd (checksum_range layout) \<le> ss"
  using assms(1) by (rule parse_pe_parts)
    (use assms(2) in \<open>auto simp: security_entry_def datadir_start_def split: if_splits\<close>)

lemma digest_panics_iff:
  "authenticode_digest H bs = None \<longleftrightarrow>
   (\<exists>layout ss se va vend. parse_pe bs = Inr layout \<and> security_dir_range layout = Some (ss, se) \<and>
      auth_region layout = Some (va, vend) \<and> va < se)"
proof (cases "parse_pe bs")
  case (Inr layout)
  then show ?thesis
    using layout_order [OF Inr]
    by (fastforce simp: authenticode_digest_def digest_input_def split: option.splits prod.splits if_splits)
qed (simp add: authenticode_digest_def)

text \<open>
  The digest is computed, as a value or an error, for every file whose optional header reaches behind the
  security entry of the directory; with a shorter header the certificate table may start before that entry, which a
  comment rules out, and the slice between them panics.
\<close>

theorem authenticode_digest_total:
  "(case parse_pe_header bs of
      Inl e \<Rightarrow> authenticode_digest H bs = Some (Inl e)
    | Inr h \<Rightarrow> (if header_end h + 8 \<le> sec_tbl h then authenticode_digest H bs \<noteq> None else True)) \<and>
   authenticode_digest H (pe_example 0 [28, 0, 0, 0, 1, 0, 0, 0]) = None"
proof
  have "authenticode_digest H bs \<noteq> None"
    if hdr: "\<forall>h. parse_pe_header bs = Inr h \<longrightarrow> header_end h + 8 \<le> sec_tbl h"
  proof
    assume "authenticode_digest H bs = None"
    then obtain layout ss se va vend where p: "parse_pe bs = Inr layout" "security_dir_range layout = Some (ss, se)"
      "auth_region layout = Some (va, vend)" "va < se" unfolding digest_panics_iff by blast
    from p(1) show False
    proof (rule parse_pe_parts)
      fix h auth l0
      assume q: "parse_pe_header bs = Inr h" "read_auth_region bs h = Inr auth"
        "layout = \<lparr>pe_l = min (max l0 (sec_tbl h + num_sections h * 40)) (length bs),
           checksum_range = (e_lfanew h + 88, e_lfanew h + 92), security_dir_range = security_entry h,
           auth_region = auth\<rparr>"
        "\<And>va e. auth = Some (va, e) \<Longrightarrow> pe_l layout \<le> va \<and> e \<le> length bs"
      have "se = header_end h + 8" "nrva h \<ge> 5" using p(2) q(3)
        by (auto simp: security_entry_def header_end_def split: if_splits)
      moreover have "pe_l layout \<le> va" using q(3,4) p(3) by simp
      moreover have "header_end h + 8 \<le> length bs" by (rule auth_region_entry [OF q(2) calculation(2)])
      ultimately show False using hdr q(1,3) p(4) by auto
    qed
  qed
  then show "case parse_pe_header bs of
      Inl e \<Rightarrow> authenticode_digest H bs = Some (Inl e)
    | Inr h \<Rightarrow> (if header_end h + 8 \<le> sec_tbl h then authenticode_digest H bs \<noteq> None else True)"
    by (auto simp: authenticode_digest_def parse_pe_def split: sum.splits)
next
  show "authenticode_digest H (pe_example 0 [28, 0, 0, 0, 1, 0, 0, 0]) = None"
    unfolding digest_panics_iff
    by (simp add: parse_pe_def pe_example_header pe_example_auth security_entry_def datadir_start_def sec_tbl_def
        pe_example_length Let_def)
qed

end
