(* ===== verification/Certs.thy ===== *)
theory Certs
  imports SigFormat
begin

text \<open>
  Certificates and certificate chains, crates/nemesis-verify/src/cert.rs and \<^verbatim>\<open>order_chain_from\<close> of
  verify.rs.

  A certificate is its DER encoding, as in the code, and every accessor parses it again.  The crates
  x509-cert, der and p256 are the record \<^verbatim>\<open>sig_lib\<close>: the parsed certificate with the fields the code reads, the
  header decoder, keys (by their uncompressed encoding) and signatures.  SHA-256 is part of the record.
\<close>

subsection \<open>The crates\<close>

text \<open>
  A field that may fail to parse is an option: \<^verbatim>\<open>None\<close> is the error.  The basic constraints are part of a parsed
  certificate; no function of the model reads them.
\<close>

record x509 =
  x_serial :: bytes
  x_issuer_der :: "bytes option"
  x_not_before :: nat
  x_not_after :: nat
  x_sig_alg :: str
  x_signature :: bytes
  x_spki_alg :: str
  x_spki_params :: "str option option"
  x_spki_key :: bytes
  x_ski :: "bytes option option"
  x_aki :: "bytes option option"
  x_eku :: "str list option option"
  x_subject :: "(str \<times> bytes) list"
  x_is_ca :: bool

record sig_lib =
  sha256 :: "bytes \<Rightarrow> bytes"
  x509_from_der :: "bytes \<Rightarrow> x509 option"
  der_header :: "bytes \<Rightarrow> nat \<Rightarrow> (nat \<times> nat) option"
  vk_from_sec1 :: "bytes \<Rightarrow> bytes option"
  sig_from_der :: "bytes \<Rightarrow> bytes option"
  ecdsa_verify :: "bytes \<Rightarrow> bytes \<Rightarrow> bytes \<Rightarrow> bool"

subsection \<open>Lossy decoding of UTF-8\<close>

text \<open>
  \<^verbatim>\<open>String::from_utf8_lossy\<close>: the range of the second byte that may follow a first byte, and the number of bytes of the
  sequence; every maximal prefix of a broken sequence becomes one replacement character.
\<close>

definition utf8_lead :: "nat \<Rightarrow> (nat \<times> nat \<times> nat) option" where
  "utf8_lead b =
     (if b < 0x80 then Some (1, 0, 0)
      else if 0xC2 \<le> b \<and> b \<le> 0xDF then Some (2, 0x80, 0xBF)
      else if b = 0xE0 then Some (3, 0xA0, 0xBF)
      else if b = 0xED then Some (3, 0x80, 0x9F)
      else if 0xE1 \<le> b \<and> b \<le> 0xEF then Some (3, 0x80, 0xBF)
      else if b = 0xF0 then Some (4, 0x90, 0xBF)
      else if 0xF1 \<le> b \<and> b \<le> 0xF3 then Some (4, 0x80, 0xBF)
      else if b = 0xF4 then Some (4, 0x80, 0x8F)
      else None)"

definition utf8_prefix :: "bytes \<Rightarrow> nat \<times> bool" where
  "utf8_prefix bs =
     (case bs of
        [] \<Rightarrow> (0, True)
      | b # r \<Rightarrow>
          (case utf8_lead (unat b) of
             None \<Rightarrow> (1, False)
           | Some (n, lo, hi) \<Rightarrow>
               let ok = (\<lambda>i c. if i = 0 then lo \<le> unat c \<and> unat c \<le> hi else 0x80 \<le> unat c \<and> unat c \<le> 0xBF);
                   k = length (takeWhile (\<lambda>(i, c). ok i c) (zip [0..<n - 1] r))
               in (1 + k, k = n - 1)))"

function from_utf8_lossy :: "bytes \<Rightarrow> str" where
  "from_utf8_lossy bs =
     (if bs = [] then []
      else case utf8_prefix bs of
             (k, True) \<Rightarrow> map (\<lambda>b. char_of (unat b)) (take k bs) @ from_utf8_lossy (drop k bs)
           | (k, False) \<Rightarrow> [CHR 0xEF, CHR 0xBF, CHR 0xBD] @ from_utf8_lossy (drop k bs))"
  by pat_completeness auto
termination
  by (relation "measure length") (auto simp: utf8_prefix_def Let_def split: list.splits option.splits)

declare from_utf8_lossy.simps [simp del]

subsection \<open>Accessors\<close>

type_synonym cert = bytes

datatype cert_chain_error =
    ChainEmpty
  | ChainMalformed
  | UnsupportedAlgorithm
  | InvalidKey
  | BrokenChain
  | NoRootForIssuer
  | ChainExpired
  | BadSignature
  | MissingCodeSigningEku

definition OID_ECDSA_WITH_SHA256 :: str where "OID_ECDSA_WITH_SHA256 = ''1.2.840.10045.4.3.2''"
definition OID_EC_PUBLIC_KEY :: str where "OID_EC_PUBLIC_KEY = ''1.2.840.10045.2.1''"
definition OID_P256 :: str where "OID_P256 = ''1.2.840.10045.3.1.7''"
definition OID_EKU_CODE_SIGNING :: str where "OID_EKU_CODE_SIGNING = ''1.3.6.1.5.5.7.3.3''"
definition OID_AT_CN :: str where "OID_AT_CN = ''2.5.4.3''"

definition ok_or :: "'e \<Rightarrow> 'a option \<Rightarrow> 'e + 'a" where
  "ok_or e x = (case x of None \<Rightarrow> Inl e | Some v \<Rightarrow> Inr v)"

definition cert_from_der :: "sig_lib \<Rightarrow> bytes \<Rightarrow> cert_chain_error + cert" where
  "cert_from_der lib bs = and_then (ok_or ChainMalformed (x509_from_der lib bs)) (\<lambda>_. Inr bs)"

definition sha256_fingerprint :: "sig_lib \<Rightarrow> cert \<Rightarrow> bytes" where
  "sha256_fingerprint lib c = sha256 lib c"

definition parsed :: "sig_lib \<Rightarrow> cert \<Rightarrow> cert_chain_error + x509" where
  "parsed lib c = ok_or ChainMalformed (x509_from_der lib c)"

text \<open>The signed part of the certificate: the second element, cut out of the encoding byte by byte.\<close>

definition tbs_raw :: "sig_lib \<Rightarrow> cert \<Rightarrow> cert_chain_error + bytes" where
  "tbs_raw lib c =
     and_then (ok_or ChainMalformed (der_header lib c 0)) (\<lambda>(tbs_start, _).
     and_then (ok_or ChainMalformed (der_header lib c tbs_start)) (\<lambda>(tbs_val_start, len).
     if tbs_val_start + len > length c then Inl ChainMalformed
     else Inr (subslice tbs_start (tbs_val_start + len) c)))"

definition subject_public_key :: "sig_lib \<Rightarrow> cert \<Rightarrow> cert_chain_error + bytes" where
  "subject_public_key lib c =
     and_then (parsed lib c) (\<lambda>x.
     if x_spki_alg x \<noteq> OID_EC_PUBLIC_KEY then Inl InvalidKey
     else (case x_spki_params x of
             None \<Rightarrow> Inl InvalidKey
           | Some None \<Rightarrow> Inl ChainMalformed
           | Some (Some curve) \<Rightarrow>
               if curve \<noteq> OID_P256 then Inl InvalidKey
               else ok_or InvalidKey (vk_from_sec1 lib (x_spki_key x))))"

definition ski :: "sig_lib \<Rightarrow> cert \<Rightarrow> cert_chain_error + bytes option" where
  "ski lib c = and_then (parsed lib c) (\<lambda>x. ok_or ChainMalformed (x_ski x))"

definition aki :: "sig_lib \<Rightarrow> cert \<Rightarrow> cert_chain_error + bytes option" where
  "aki lib c = and_then (parsed lib c) (\<lambda>x. ok_or ChainMalformed (x_aki x))"

definition is_valid_at :: "sig_lib \<Rightarrow> cert \<Rightarrow> nat \<Rightarrow> cert_chain_error + bool" where
  "is_valid_at lib c now =
     and_then (parsed lib c) (\<lambda>x. Inr (x_not_before x \<le> now \<and> now \<le> x_not_after x))"

definition has_code_signing_eku :: "sig_lib \<Rightarrow> cert \<Rightarrow> cert_chain_error + bool" where
  "has_code_signing_eku lib c =
     and_then (parsed lib c) (\<lambda>x.
     and_then (ok_or ChainMalformed (x_eku x)) (\<lambda>eku.
     Inr (case eku of Some l \<Rightarrow> OID_EKU_CODE_SIGNING \<in> set l | None \<Rightarrow> False)))"

definition verify_signature_by :: "sig_lib \<Rightarrow> cert \<Rightarrow> bytes \<Rightarrow> cert_chain_error + unit" where
  "verify_signature_by lib c issuer_vk =
     and_then (parsed lib c) (\<lambda>x.
     if x_sig_alg x \<noteq> OID_ECDSA_WITH_SHA256 then Inl UnsupportedAlgorithm
     else and_then (ok_or BadSignature (sig_from_der lib (x_signature x))) (\<lambda>sg.
          and_then (tbs_raw lib c) (\<lambda>tbs.
          if ecdsa_verify lib issuer_vk tbs sg then Inr () else Inl BadSignature)))"

definition is_self_signed :: "sig_lib \<Rightarrow> cert \<Rightarrow> cert_chain_error + bool" where
  "is_self_signed lib c =
     and_then (aki lib c) (\<lambda>a.
     and_then (ski lib c) (\<lambda>s.
     and_then (subject_public_key lib c) (\<lambda>vk.
     Inr ((case (a, s) of (Some x, Some y) \<Rightarrow> x = y | (None, Some _) \<Rightarrow> True | _ \<Rightarrow> False) \<and>
          verify_signature_by lib c vk = Inr ()))))"

definition subject_cn :: "sig_lib \<Rightarrow> cert \<Rightarrow> cert_chain_error + str option" where
  "subject_cn lib c =
     and_then (parsed lib c) (\<lambda>x.
     Inr (map_option (\<lambda>(_, v). from_utf8_lossy v) (find (\<lambda>(oid, _). oid = OID_AT_CN) (x_subject x))))"

subsection \<open>Verification of a chain\<close>

text \<open>The checks of one certificate and the step to its issuer, for every certificate from the leaf on.\<close>

definition check_link :: "sig_lib \<Rightarrow> cert \<Rightarrow> cert \<Rightarrow> cert_chain_error + unit" where
  "check_link lib c issuer =
     and_then (aki lib c) (\<lambda>a.
     and_then (case a of
                 None \<Rightarrow> Inr ()
               | Some k \<Rightarrow> and_then (ski lib issuer) (\<lambda>s. if s = Some k then Inr () else Inl BrokenChain)) (\<lambda>_.
     and_then (subject_public_key lib issuer) (\<lambda>vk. verify_signature_by lib c vk)))"

fun check_links :: "sig_lib \<Rightarrow> nat \<Rightarrow> cert list \<Rightarrow> cert_chain_error + unit" where
  "check_links lib now [] = Inr ()"
| "check_links lib now (c # cs) =
     and_then (is_valid_at lib c now) (\<lambda>ok.
     if \<not> ok then Inl ChainExpired
     else and_then (case cs of [] \<Rightarrow> Inr () | issuer # _ \<Rightarrow> check_link lib c issuer) (\<lambda>_.
          check_links lib now cs))"

definition verify_chain_certs :: "sig_lib \<Rightarrow> cert list \<Rightarrow> bytes \<Rightarrow> nat \<Rightarrow> cert_chain_error + unit" where
  "verify_chain_certs lib chain root_anchor_fp now =
     (if chain = [] then Inl ChainEmpty
      else and_then (check_links lib now chain) (\<lambda>_.
        and_then (is_self_signed lib (last chain)) (\<lambda>self.
        if \<not> self then Inl NoRootForIssuer
        else if sha256_fingerprint lib (last chain) \<noteq> root_anchor_fp then Inl NoRootForIssuer
        else and_then (has_code_signing_eku lib (hd chain)) (\<lambda>eku.
          if \<not> eku then Inl MissingCodeSigningEku else Inr ()))))"

subsection \<open>From a set of certificates to a chain\<close>

definition ok_flat :: "'e + 'a option \<Rightarrow> 'a option" where
  "ok_flat r = (case r of Inl _ \<Rightarrow> None | Inr x \<Rightarrow> x)"

definition parent_of :: "sig_lib \<Rightarrow> cert list \<Rightarrow> cert \<Rightarrow> cert option" where
  "parent_of lib pool cur =
     (case ok_flat (aki lib cur) of
        None \<Rightarrow> None
      | Some k \<Rightarrow> find (\<lambda>c. ok_flat (ski lib c) = Some k) pool)"

text \<open>The loop carries the chain; it ends because every certificate it adds is a new one of the pool.\<close>

function order_chain :: "sig_lib \<Rightarrow> cert list \<Rightarrow> cert list \<Rightarrow> cert list option" where
  "order_chain lib pool chain =
     (case is_self_signed lib (last chain) of
        Inl _ \<Rightarrow> None
      | Inr True \<Rightarrow> Some chain
      | Inr False \<Rightarrow>
          (case parent_of lib pool (last chain) of
             None \<Rightarrow> None
           | Some parent \<Rightarrow>
               if parent \<in> set chain then None else order_chain lib pool (chain @ [parent])))"
  by pat_completeness auto
termination
proof (relation "measure (\<lambda>(lib, pool, chain). card (set pool - set chain))")
  fix lib pool chain x parent
  assume "parent_of lib pool (last chain) = Some parent" "parent \<notin> set chain"
  then have "parent \<in> set pool - set chain"
    by (auto simp: parent_of_def find_Some_iff split: option.splits)
  moreover have "set pool - set (chain @ [parent]) = (set pool - set chain) - {parent}" by auto
  ultimately have "card (set pool - set (chain @ [parent])) < card (set pool - set chain)"
    using card_Diff1_less [of "set pool - set chain" parent] by (simp only: finite_Diff finite_set simp_thms)
  then show "((lib, pool, chain @ [parent]), lib, pool, chain)
      \<in> measure (\<lambda>(lib, pool, chain). card (set pool - set chain))" by simp
qed simp

declare order_chain.simps [simp del]

definition order_chain_from :: "sig_lib \<Rightarrow> cert \<Rightarrow> cert list \<Rightarrow> cert list option" where
  "order_chain_from lib signer pool = order_chain lib pool [signer]"

subsection \<open>What an accepted chain is\<close>

text \<open>c names the issuer as its issuer, if at all, and carries a signature of the issuer's key.\<close>

definition issued_by :: "sig_lib \<Rightarrow> cert \<Rightarrow> cert \<Rightarrow> bool" where
  "issued_by lib c issuer \<longleftrightarrow>
     (\<exists>a vk. aki lib c = Inr a \<and> (case a of None \<Rightarrow> True | Some k \<Rightarrow> ski lib issuer = Inr (Some k)) \<and>
        subject_public_key lib issuer = Inr vk \<and> verify_signature_by lib c vk = Inr ())"

lemma check_link_iff: "check_link lib c issuer = Inr () \<longleftrightarrow> issued_by lib c issuer"
  by (auto simp: check_link_def issued_by_def and_then_eq_Inr split: option.splits if_splits)

lemma check_links_iff:
  "check_links lib now chain = Inr () \<longleftrightarrow>
     (\<forall>c \<in> set chain. is_valid_at lib c now = Inr True) \<and> successively (issued_by lib) chain"
proof (induction chain rule: induct_list012)
  case (3 c d cs)
  then show ?case
    by (auto simp: and_then_eq_Inr check_link_iff split: if_splits)
qed (auto simp: and_then_eq_Inr split: if_splits)

lemma verify_chain_certs_iff:
  "verify_chain_certs lib chain fp now = Inr () \<longleftrightarrow>
     chain \<noteq> [] \<and> (\<forall>c \<in> set chain. is_valid_at lib c now = Inr True) \<and> successively (issued_by lib) chain \<and>
     is_self_signed lib (last chain) = Inr True \<and> sha256 lib (last chain) = fp \<and>
     has_code_signing_eku lib (hd chain) = Inr True"
  by (auto simp: verify_chain_certs_def check_links_iff and_then_eq_Inr sha256_fingerprint_def
      split: if_splits)

text \<open>
  A chain is accepted against an anchor exactly when every certificate is valid at the time, each one is
  signed by the key of the next and names it as its issuer if it names one, the last one is self-signed and has the
  anchor as its fingerprint, and the first one may sign code.
\<close>

theorem verify_chain_spec:
  "verify_chain_certs lib chain fp now = Inr () \<longleftrightarrow>
     chain \<noteq> [] \<and> list_all (\<lambda>c. is_valid_at lib c now = Inr True) chain \<and>
     successively (issued_by lib) chain \<and>
     is_self_signed lib (last chain) = Inr True \<and> sha256_fingerprint lib (last chain) = fp \<and>
     has_code_signing_eku lib (hd chain) = Inr True"
  by (simp add: verify_chain_certs_iff list_all_iff sha256_fingerprint_def)

text \<open>
  The holder of a certificate that may sign code can issue certificates of its own.  Whatever the basic
  constraints say, an accepted chain stays accepted when a certificate signed with the key of its first one is put in
  front: no check asks whether an issuer is an authority.
\<close>

theorem leaf_can_issue:
  assumes "verify_chain_certs lib chain fp now = Inr ()" "issued_by lib c (hd chain)"
    and "is_valid_at lib c now = Inr True" "has_code_signing_eku lib c = Inr True"
  shows "verify_chain_certs lib (c # chain) fp now = Inr ()"
  using assms by (cases chain) (auto simp: verify_chain_certs_iff)

subsubsection \<open>An example library\<close>

text \<open>
  Digests are the byte 31, the length and the first 30 bytes.  Certificates are single bytes; certificate k names k - 1 as its issuer, 1 is self-signed, and a signature is the
  signer's key.  Certificates from 3 on are no authorities.
\<close>

definition toy_x509 :: "byte \<Rightarrow> x509" where
  "toy_x509 k =
     (let issuer = (if k = 1 then 1 else k - 1) in
      \<lparr>x_serial = [k], x_issuer_der = Some [issuer], x_not_before = 0, x_not_after = 100,
       x_sig_alg = OID_ECDSA_WITH_SHA256, x_signature = [issuer], x_spki_alg = OID_EC_PUBLIC_KEY,
       x_spki_params = Some (Some OID_P256), x_spki_key = [k], x_ski = Some (Some [k]),
       x_aki = Some (Some [issuer]), x_eku = Some (Some [OID_EKU_CODE_SIGNING]),
       x_subject = [(OID_AT_CN, [k])], x_is_ca = (k < 3)\<rparr>)"

definition toy_sha :: "bytes \<Rightarrow> bytes" where
  "toy_sha bs = 31 # of_nat (length bs) # take 30 (bs @ replicate 30 0)"

definition toy_lib :: sig_lib where
  "toy_lib =
     \<lparr>sha256 = toy_sha, x509_from_der = (\<lambda>bs. if length bs = 1 then Some (toy_x509 (hd bs)) else None),
      der_header = (\<lambda>bs pos. Some (pos, length bs)), vk_from_sec1 = Some, sig_from_der = Some,
      ecdsa_verify = (\<lambda>vk msg sg. sg = vk)\<rparr>"

lemma toy_simps [simp]:
  "parsed toy_lib [k] = Inr (toy_x509 k)"
  "sha256 toy_lib = toy_sha" "x509_from_der toy_lib [k] = Some (toy_x509 k)" "der_header toy_lib bs pos = Some (pos, length bs)"
  "vk_from_sec1 toy_lib = Some" "sig_from_der toy_lib = Some" "ecdsa_verify toy_lib vk msg sg = (sg = vk)"
  by (simp_all add: toy_lib_def parsed_def ok_or_def)

lemma toy_cert:
  "aki toy_lib [k] = Inr (Some [if k = 1 then 1 else k - 1])" "ski toy_lib [k] = Inr (Some [k])"
  "subject_public_key toy_lib [k] = Inr [k]" "is_valid_at toy_lib [k] now = Inr (now \<le> 100)"
  "has_code_signing_eku toy_lib [k] = Inr True"
  "verify_signature_by toy_lib [k] vk = (if vk = [if k = 1 then 1 else k - 1] then Inr () else Inl BadSignature)"
  by (auto simp: aki_def ski_def subject_public_key_def is_valid_at_def has_code_signing_eku_def
      verify_signature_by_def tbs_raw_def toy_x509_def ok_or_def Let_def)

lemma toy_self_signed: "is_self_signed toy_lib [k] = Inr (k = 1)"
  by (auto simp: is_self_signed_def toy_cert)

lemma toy_issued: "issued_by toy_lib [k] [j] \<longleftrightarrow> j = (if k = 1 then 1 else k - 1)"
  by (auto simp: issued_by_def toy_cert)

lemma toy_chain: "verify_chain_certs toy_lib [[3], [2], [1]] (toy_sha [1]) 50 = Inr ()"
  by (simp add: verify_chain_certs_iff toy_cert toy_self_signed toy_issued)

theorem leaf_can_issue_witness:
  "\<not> x_is_ca (toy_x509 3) \<and> verify_chain_certs toy_lib [[4], [3], [2], [1]] (toy_sha [1]) 50 = Inr ()"
  using leaf_can_issue [OF toy_chain, of "[4]"] by (simp add: toy_issued toy_cert toy_x509_def)

subsection \<open>Ordering terminates in a linked chain\<close>

text \<open>c names p as its issuer, by the key identifiers.\<close>

definition names_issuer :: "sig_lib \<Rightarrow> cert \<Rightarrow> cert \<Rightarrow> bool" where
  "names_issuer lib c p \<longleftrightarrow> (\<exists>k. aki lib c = Inr (Some k) \<and> ski lib p = Inr (Some k))"

lemma parent_of_some:
  "parent_of lib pool c = Some p \<Longrightarrow> p \<in> set pool \<and> names_issuer lib c p"
  by (auto simp: parent_of_def names_issuer_def ok_flat_def find_Some_iff split: option.splits sum.splits)

lemma order_chain_linked:
  assumes "order_chain lib pool chain = Some r" "chain \<noteq> []" "distinct chain" "successively (names_issuer lib) chain"
  shows "prefix chain r \<and> distinct r \<and> successively (names_issuer lib) r \<and> is_self_signed lib (last r) = Inr True \<and>
    set r \<subseteq> set chain \<union> set pool"
  using assms
proof (induction lib pool chain rule: order_chain.induct)
  case (1 lib pool chain)
  show ?case
  proof (cases "is_self_signed lib (last chain)")
    case (Inr self)
    show ?thesis
    proof (cases self)
      case False
      with 1(2) Inr obtain p where p: "parent_of lib pool (last chain) = Some p" "p \<notin> set chain"
        "order_chain lib pool (chain @ [p]) = Some r"
        by (auto simp: order_chain.simps [of lib pool chain] split: option.splits if_splits)
      have "successively (names_issuer lib) (chain @ [p])"
        using 1(3,5) parent_of_some [OF p(1)] by (simp add: successively_append_iff)
      with 1(1) [OF _ _ p(1,2,3)] Inr False 1(3,4) p(2) parent_of_some [OF p(1)] show ?thesis
        by (auto dest: append_prefixD)
    qed (use 1 Inr in \<open>auto simp: order_chain.simps [of lib pool chain]\<close>)
  qed (use 1 in \<open>auto simp: order_chain.simps [of lib pool chain]\<close>)
qed

text \<open>
  Ordering a set of certificates ends for every input, cyclic ones included, and a chain it returns starts with
  the signer, holds no certificate twice, takes every other certificate from the set, follows the key identifiers
  from each certificate to the next and ends in a self-signed one.
\<close>

theorem order_chain_from_sound:
  assumes "order_chain_from lib signer pool = Some chain"
  shows "hd chain = signer \<and> distinct chain \<and> set chain \<subseteq> insert signer (set pool) \<and>
    successively (names_issuer lib) chain \<and> is_self_signed lib (last chain) = Inr True"
  using order_chain_linked [of lib pool "[signer]" chain] assms
  by (auto simp: order_chain_from_def prefix_def)

lemma toy_parent:
  "parent_of toy_lib pool [k] = find (\<lambda>c. ok_flat (ski toy_lib c) = Some [if k = 1 then 1 else k - 1]) pool"
  by (simp add: parent_of_def toy_cert ok_flat_def)

lemma toy_order: "order_chain_from toy_lib [3] [[1], [3], [2]] = Some [[3], [2], [1]]"
  by (simp add: order_chain_from_def order_chain.simps toy_self_signed toy_parent toy_cert ok_flat_def)

theorem order_chain_from_sound_witness:
  "order_chain_from toy_lib [3] [[1], [3], [2]] = Some [[3], [2], [1]] \<and>
   successively (names_issuer toy_lib) [[3], [2], [1]]"
  using order_chain_from_sound [OF toy_order] toy_order by simp

subsection \<open>Chains as byte strings\<close>

fun parse_chain :: "sig_lib \<Rightarrow> bytes list \<Rightarrow> cert_chain_error + cert list" where
  "parse_chain lib [] = Inr []"
| "parse_chain lib (d # ds) =
     and_then (cert_from_der lib d) (\<lambda>c. and_then (parse_chain lib ds) (\<lambda>cs. Inr (c # cs)))"

text \<open>The number of certificates is cut to 16 bits and their lengths to 32 bits.\<close>

definition serialize_chain :: "cert list \<Rightarrow> bytes" where
  "serialize_chain chain = to_le 2 (length chain) @ concat (map (\<lambda>c. to_le 4 (length c) @ c) chain)"

fun blob_ders :: "nat \<Rightarrow> bytes \<Rightarrow> cert_chain_error + bytes list" where
  "blob_ders 0 bs = Inr []"
| "blob_ders (Suc n) bs =
     (if length bs < 4 then Inl ChainMalformed
      else let l = from_le (take 4 bs); r = drop 4 bs in
        if l > length r then Inl ChainMalformed
        else and_then (blob_ders n (drop l r)) (\<lambda>ds. Inr (take l r # ds)))"

definition parse_chain_blob :: "sig_lib \<Rightarrow> bytes \<Rightarrow> cert_chain_error + cert list" where
  "parse_chain_blob lib bs =
     (if length bs < 2 then Inl ChainMalformed
      else and_then (blob_ders (from_le (take 2 bs)) (drop 2 bs)) (parse_chain lib))"

lemma blob_ders_serialized:
  "\<forall>c \<in> set chain. length c < 2 ^ 32 \<Longrightarrow>
   blob_ders (length chain) (concat (map (\<lambda>c. to_le 4 (length c) @ c) chain) @ rest) = Inr chain"
  by (induction chain) (auto simp: Let_def from_le_to_le)

lemma parse_chain_ok: "\<forall>c \<in> set chain. x509_from_der lib c \<noteq> None \<Longrightarrow> parse_chain lib chain = Inr chain"
  by (induction chain) (auto simp: cert_from_der_def ok_or_def)

text \<open>
  A chain of less than 65536 certificates, each of less than 4 GB, that was written as a byte string is
  read back, whatever bytes follow.
\<close>

theorem serialize_chain_roundtrip:
  assumes "length chain < 65536" "\<forall>c \<in> set chain. length c < 2 ^ 32 \<and> x509_from_der lib c \<noteq> None"
  shows "parse_chain_blob lib (serialize_chain chain @ rest) = Inr chain"
  using assms blob_ders_serialized [of chain rest] parse_chain_ok [of chain lib]
  by (simp add: parse_chain_blob_def serialize_chain_def from_le_to_le)

theorem serialize_chain_roundtrip_witness:
  "parse_chain_blob toy_lib (serialize_chain [[3], [2], [1]] @ [9]) = Inr [[3], [2], [1]]"
  by (rule serialize_chain_roundtrip) simp_all

end
