(* ===== verification/Cms.thy ===== *)
theory Cms
  imports PeFile Certs
begin

text \<open>
  Signature blocks and their carriers, crates/nemesis-verify/src/envelope.rs: parsing of an Authenticode signature,
  nested signatures, the carrier of ELF and raw files, and the signing of a PE file that may be signed
  already.

  The DER decoders of the crates cms, der and x509-cert are the record \<^verbatim>\<open>cms_lib\<close>, which extends the
  library of certificates; decoded structures hold the fields the code reads.  Encoding a decoded
  structure again does not fail.
\<close>

subsection \<open>Decoded structures\<close>

record attribute =
  at_oid :: str
  at_values :: "bytes list"

text \<open>The signer is named by issuer and serial number, or in another way (\<^verbatim>\<open>None\<close>).  The signed attributes come with
  their encoding as a set.\<close>

record signer_info =
  si_sid :: "(bytes \<times> bytes) option"
  si_digest_alg :: str
  si_signature_alg :: str
  si_signed_attrs :: "(attribute list \<times> bytes) option"
  si_signature :: bytes
  si_unsigned_attrs :: "attribute list option"

text \<open>The contents are the encoding of the element and its value; a certificate of another kind is \<^verbatim>\<open>None\<close>.\<close>

record signed_data =
  sd_version :: nat
  sd_econtent_type :: str
  sd_econtent :: "(bytes \<times> bytes) option"
  sd_certificates :: "bytes option list option"
  sd_signer_infos :: "signer_info list"

datatype spc_string = SpcUnicode str | SpcAscii str
datatype spc_link = SpcUrl str | SpcFile spc_string

record cms_lib = sig_lib +
  content_info_from_der :: "bytes \<Rightarrow> (str \<times> bytes) option"
  signed_data_from_der :: "bytes \<Rightarrow> signed_data option"
  spc_from_der :: "bytes \<Rightarrow> (str \<times> str \<times> bytes) option"
  oid_from_der :: "bytes \<Rightarrow> str option"
  octets_from_der :: "bytes \<Rightarrow> bytes option"
  utc_from_der :: "bytes \<Rightarrow> nat option"
  opus_from_der :: "bytes \<Rightarrow> (spc_string option \<times> spc_link option) option"
  any_from_der :: "bytes \<Rightarrow> bytes option"
  signed_data_to_der :: "signed_data \<Rightarrow> bytes"
  content_info_to_der :: "str \<Rightarrow> bytes \<Rightarrow> bytes"

definition OID_SPC_INDIRECT_DATA :: str where "OID_SPC_INDIRECT_DATA = ''1.3.6.1.4.1.311.2.1.4''"
definition OID_SPC_SP_OPUS_INFO :: str where "OID_SPC_SP_OPUS_INFO = ''1.3.6.1.4.1.311.2.1.12''"
definition OID_SHA256 :: str where "OID_SHA256 = ''2.16.840.1.101.3.4.2.1''"
definition OID_SIGNED_DATA :: str where "OID_SIGNED_DATA = ''1.2.840.113549.1.7.2''"
definition OID_ATTR_CONTENT_TYPE :: str where "OID_ATTR_CONTENT_TYPE = ''1.2.840.113549.1.9.3''"
definition OID_ATTR_MESSAGE_DIGEST :: str where "OID_ATTR_MESSAGE_DIGEST = ''1.2.840.113549.1.9.4''"
definition OID_ATTR_SIGNING_TIME :: str where "OID_ATTR_SIGNING_TIME = ''1.2.840.113549.1.9.5''"
definition OID_SPC_NESTED_SIGNATURE :: str where "OID_SPC_NESTED_SIGNATURE = ''1.3.6.1.4.1.311.2.4.1''"

subsection \<open>Parsing a signature\<close>

datatype parse_error = PMalformed str | PUnsupported str

record parsed_signature =
  ps_content_digest :: bytes
  ps_content_type :: str
  ps_certs :: "cert list"
  ps_signer_serial :: bytes
  ps_signer_issuer_der :: bytes
  ps_signature_message :: bytes
  ps_signature :: bytes
  ps_message_digest :: bytes
  ps_signing_time :: "nat option"
  ps_program_name :: "str option"
  ps_more_info :: "str option"

fun spc_string_to_string :: "spc_string \<Rightarrow> str" where
  "spc_string_to_string (SpcAscii a) = a"
| "spc_string_to_string (SpcUnicode b) = b"

fun spc_link_to_string :: "spc_link \<Rightarrow> str option" where
  "spc_link_to_string (SpcUrl u) = Some u"
| "spc_link_to_string (SpcFile s) = Some (spc_string_to_string s)"

record signed_attrs =
  sa_digest :: "bytes option"
  sa_time :: "nat option"
  sa_program :: "str option"
  sa_info :: "str option"

definition no_attrs :: signed_attrs where
  "no_attrs = \<lparr>sa_digest = None, sa_time = None, sa_program = None, sa_info = None\<rparr>"

definition read_attr :: "cms_lib \<Rightarrow> attribute \<Rightarrow> signed_attrs \<Rightarrow> parse_error + signed_attrs" where
  "read_attr lib a acc =
     (case at_values a of
        [] \<Rightarrow> Inl (PMalformed ''empty attribute'')
      | v # _ \<Rightarrow>
          if at_oid a = OID_ATTR_CONTENT_TYPE then
            and_then (ok_or (PMalformed ''contentType value'') (oid_from_der lib v)) (\<lambda>oid.
            if oid \<noteq> OID_SPC_INDIRECT_DATA then Inl (PMalformed ''contentType differs'') else Inr acc)
          else if at_oid a = OID_ATTR_MESSAGE_DIGEST then
            and_then (ok_or (PMalformed ''messageDigest value'') (octets_from_der lib v)) (\<lambda>d.
            if length d \<noteq> 32 then Inl (PMalformed ''messageDigest length'')
            else Inr (acc\<lparr>sa_digest := Some d\<rparr>))
          else if at_oid a = OID_ATTR_SIGNING_TIME then
            and_then (ok_or (PMalformed ''signingTime value'') (utc_from_der lib v)) (\<lambda>t.
            Inr (acc\<lparr>sa_time := Some t\<rparr>))
          else if at_oid a = OID_SPC_SP_OPUS_INFO then
            and_then (ok_or (PMalformed ''opus value'') (opus_from_der lib v)) (\<lambda>(pn, mi).
            Inr (acc\<lparr>sa_program := map_option spc_string_to_string pn,
                     sa_info := (case mi of Some l \<Rightarrow> spc_link_to_string l | None \<Rightarrow> None)\<rparr>))
          else Inr acc)"

fun read_attrs :: "cms_lib \<Rightarrow> attribute list \<Rightarrow> signed_attrs \<Rightarrow> parse_error + signed_attrs" where
  "read_attrs lib [] acc = Inr acc"
| "read_attrs lib (a # as) acc = and_then (read_attr lib a acc) (read_attrs lib as)"

fun read_certs :: "cms_lib \<Rightarrow> bytes option list \<Rightarrow> parse_error + cert list" where
  "read_certs lib [] = Inr []"
| "read_certs lib (None # cs) = Inl (PMalformed ''not a certificate'')"
| "read_certs lib (Some d # cs) =
     (case cert_from_der (sig_lib.truncate lib) d of
        Inl _ \<Rightarrow> Inl (PMalformed ''certificate DER'')
      | Inr c \<Rightarrow> and_then (read_certs lib cs) (\<lambda>r. Inr (c # r)))"

text \<open>The contents: the digest of the file and the type of the data.\<close>

definition read_econtent :: "cms_lib \<Rightarrow> signed_data \<Rightarrow> parse_error + (bytes \<times> str \<times> bytes)" where
  "read_econtent lib sd =
     (if sd_version sd \<noteq> 1 then Inl (PUnsupported ''version'')
      else if sd_econtent_type sd \<noteq> OID_SPC_INDIRECT_DATA then Inl (PMalformed ''eContentType'')
      else and_then (ok_or (PMalformed ''eContent missing'') (sd_econtent sd)) (\<lambda>(der, body).
        and_then (ok_or (PMalformed ''SpcIndirectDataContent'') (spc_from_der lib der)) (\<lambda>(ty, alg, digest).
        if alg \<noteq> OID_SHA256 then Inl (PUnsupported ''content digest algorithm'')
        else if length digest \<noteq> 32 then Inl (PMalformed ''content digest length'')
        else Inr (digest, ty, body))))"

definition check_signer :: "signer_info \<Rightarrow> parse_error + (bytes \<times> bytes \<times> attribute list \<times> bytes)" where
  "check_signer si =
     and_then (ok_or (PMalformed ''sid'') (si_sid si)) (\<lambda>(issuer, serial).
     if si_digest_alg si \<noteq> OID_SHA256 then Inl (PUnsupported ''SignerInfo digest algorithm'')
     else if si_signature_alg si \<noteq> OID_ECDSA_WITH_SHA256 \<and> si_signature_alg si \<noteq> OID_EC_PUBLIC_KEY
       then Inl (PUnsupported ''signature suite'')
     else and_then (ok_or (PMalformed ''signedAttrs missing'') (si_signed_attrs si)) (\<lambda>(attrs, der).
       Inr (issuer, serial, attrs, der)))"

definition parse_signed_data :: "cms_lib \<Rightarrow> bytes \<Rightarrow> parse_error + parsed_signature" where
  "parse_signed_data lib der =
     and_then (ok_or (PMalformed ''ContentInfo'') (content_info_from_der lib der)) (\<lambda>(ty, content).
     if ty \<noteq> OID_SIGNED_DATA then Inl (PMalformed ''contentType'')
     else and_then (ok_or (PMalformed ''SignedData'') (signed_data_from_der lib content)) (\<lambda>sd.
       and_then (read_econtent lib sd) (\<lambda>(content_digest, content_type, body).
       and_then (ok_or (PMalformed ''no certificates'') (sd_certificates sd)) (\<lambda>cert_set.
       and_then (read_certs lib cert_set) (\<lambda>certs.
       case sd_signer_infos sd of
         [si] \<Rightarrow>
           and_then (check_signer si) (\<lambda>(issuer, serial, attrs, attrs_der).
           and_then (read_attrs lib attrs no_attrs) (\<lambda>sa.
           and_then (ok_or (PMalformed ''messageDigest missing'') (sa_digest sa)) (\<lambda>message_digest.
           if message_digest \<noteq> sha256 lib body then Inl (PMalformed ''messageDigest differs'')
           else if sig_from_der lib (si_signature si) = None then Inl (PMalformed ''signature DER'')
           else Inr \<lparr>ps_content_digest = content_digest, ps_content_type = content_type, ps_certs = certs,
                     ps_signer_serial = serial, ps_signer_issuer_der = issuer,
                     ps_signature_message = attrs_der, ps_signature = si_signature si,
                     ps_message_digest = message_digest, ps_signing_time = sa_time sa,
                     ps_program_name = sa_program sa, ps_more_info = sa_info sa\<rparr>)))
       | _ \<Rightarrow> Inl (PMalformed ''signerInfos''))))))"

subsection \<open>Nested signatures\<close>

datatype nest_error = NotSignedData | BadDer | SignerCount nat | AlreadyNested | TooDeep

definition nested_of_signer :: "signer_info \<Rightarrow> bytes list" where
  "nested_of_signer si =
     (case si_unsigned_attrs si of
        None \<Rightarrow> []
      | Some attrs \<Rightarrow> concat (map (\<lambda>a. if at_oid a = OID_SPC_NESTED_SIGNATURE then at_values a else []) attrs))"

definition decode_host :: "cms_lib \<Rightarrow> bytes \<Rightarrow> nest_error + signed_data" where
  "decode_host lib cms =
     and_then (ok_or BadDer (content_info_from_der lib cms)) (\<lambda>(ty, content).
     if ty \<noteq> OID_SIGNED_DATA then Inl NotSignedData
     else ok_or BadDer (signed_data_from_der lib content))"

definition nested_signature_children :: "cms_lib \<Rightarrow> bytes \<Rightarrow> nest_error + bytes list" where
  "nested_signature_children lib cms =
     and_then (decode_host lib cms) (\<lambda>sd. Inr (concat (map nested_of_signer (sd_signer_infos sd))))"

text \<open>
  The recursion is bounded by the depth, which the code counts up to \<^verbatim>\<open>MAX_NESTED_DEPTH\<close> = 8; here the fuel is the number of
  levels that are left, so nine levels are expanded.
\<close>

fun enumerate_inner :: "cms_lib \<Rightarrow> nat \<Rightarrow> bytes \<Rightarrow> nest_error + bytes list"
  and enumerate_children :: "cms_lib \<Rightarrow> nat \<Rightarrow> bytes list \<Rightarrow> nest_error + bytes list" where
  "enumerate_inner lib 0 cms = Inl TooDeep"
| "enumerate_inner lib (Suc d) cms =
     and_then (nested_signature_children lib cms) (\<lambda>cs.
     and_then (enumerate_children lib d cs) (\<lambda>r. Inr (cms # r)))"
| "enumerate_children lib d [] = Inr []"
| "enumerate_children lib d (c # cs) =
     and_then (enumerate_inner lib d c) (\<lambda>r.
     and_then (enumerate_children lib d cs) (\<lambda>rs. Inr (r @ rs)))"

definition enumerate_signatures :: "cms_lib \<Rightarrow> bytes \<Rightarrow> nest_error + bytes list" where
  "enumerate_signatures lib cms = enumerate_inner lib 9 cms"

definition append_nested_signature :: "cms_lib \<Rightarrow> bytes \<Rightarrow> bytes \<Rightarrow> nest_error + bytes" where
  "append_nested_signature lib host_cms nested_cms =
     and_then (decode_host lib host_cms) (\<lambda>sd.
     case sd_signer_infos sd of
       [main] \<Rightarrow>
         if (case si_unsigned_attrs main of
               Some attrs \<Rightarrow> list_ex (\<lambda>a. at_oid a = OID_SPC_NESTED_SIGNATURE) attrs | None \<Rightarrow> False)
         then Inl AlreadyNested
         else and_then (ok_or BadDer (any_from_der lib nested_cms)) (\<lambda>v.
           let attr = \<lparr>at_oid = OID_SPC_NESTED_SIGNATURE, at_values = [v]\<rparr>;
               main' = main\<lparr>si_unsigned_attrs :=
                 Some (case si_unsigned_attrs main of Some attrs \<Rightarrow> attrs @ [attr] | None \<Rightarrow> [attr])\<rparr>
           in Inr (content_info_to_der lib OID_SIGNED_DATA
                (signed_data_to_der lib (sd\<lparr>sd_signer_infos := [main']\<rparr>))))
     | l \<Rightarrow> Inl (SignerCount (length l)))"

subsection \<open>Carriers of ELF and raw files\<close>

definition detect_codec :: "(bytes \<Rightarrow> bytes) \<Rightarrow> bytes \<Rightarrow> codec" where
  "detect_codec H bs =
     (if prefix [0x4D, 0x5A] bs then pe_codec H
      else if prefix [0x7F, 0x45, 0x4C, 0x46] bs then elf_codec H
      else raw_codec H)"

definition sign_carrier_v4 :: "(bytes \<Rightarrow> bytes) \<Rightarrow> bytes \<Rightarrow> bytes \<Rightarrow> (envelope_error + bytes) option" where
  "sign_carrier_v4 H bs cms_der =
     (if detect_format bs = FORMAT_TAG_PE then Some (Inl PeCarrierRejected)
      else (case compute_l (detect_codec H bs) bs of
              Inl e \<Rightarrow> Some (Inl (CodecFailed e))
            | Inr l \<Rightarrow>
                map_option Inr (attach_v4 bs cms_der (detect_format bs)
                  (case l of Some n \<Rightarrow> n | None \<Rightarrow> length bs))))"

record carrier_verbatim =
  cv_footer_offset :: nat
  cv_content_len :: nat
  cv_cms_der :: bytes
  cv_content_digest :: bytes
  cv_cms_digest_matches :: bool

definition extract_carrier_with :: "cms_lib \<Rightarrow> codec \<Rightarrow> bytes \<Rightarrow> envelope_error + carrier_verbatim" where
  "extract_carrier_with lib c bs =
     (case compute_l c bs of
        Inl e \<Rightarrow> Inl (CodecFailed e)
      | Inr l \<Rightarrow>
          and_then (ok_or NoFooter (find_footer_v4 bs (case l of Some n \<Rightarrow> n | None \<Rightarrow> 0) (overlay_excludes c bs)))
            (\<lambda>footer_offset.
          and_then (extract_v4 bs footer_offset) (\<lambda>(content_len, cms).
          if (case l of Some n \<Rightarrow> content_len \<noteq> n | None \<Rightarrow> False)
          then Inl (ContentLenMismatch content_len (the l))
          else (case content_hash c bs content_len of
                  Inl e \<Rightarrow> Inl (CodecFailed e)
                | Inr digest \<Rightarrow>
                    Inr \<lparr>cv_footer_offset = footer_offset, cv_content_len = content_len, cv_cms_der = cms,
                         cv_content_digest = digest,
                         cv_cms_digest_matches =
                           (case parse_signed_data lib cms of
                              Inr p \<Rightarrow> ps_content_digest p = digest | Inl _ \<Rightarrow> False)\<rparr>))))"

definition extract_carrier_v4 :: "cms_lib \<Rightarrow> bytes \<Rightarrow> envelope_error + carrier_verbatim" where
  "extract_carrier_v4 lib bs = extract_carrier_with lib (detect_codec (sha256 lib) bs) bs"

subsubsection \<open>What is attached is extracted\<close>

context carrier_codec
begin

lemma attached_is_extracted:
  assumes l: "compute_l c bs = Inr l" and n: "n = (case l of Some n \<Rightarrow> n | None \<Rightarrow> length bs)"
    and a: "attach_v4 bs cms t n = Some out" "cms \<noteq> []" "length out < 2 ^ 64"
  shows "extract_carrier_with lib c out =
    Inr \<lparr>cv_footer_offset = length bs + length cms, cv_content_len = n, cv_cms_der = cms,
         cv_content_digest = H (take n bs),
         cv_cms_digest_matches =
           (case parse_signed_data lib cms of Inr p \<Rightarrow> ps_content_digest p = H (take n bs) | Inl _ \<Rightarrow> False)\<rparr>"
proof -
  have nb: "n \<le> length bs" using protected_bound [OF l] n by simp
  from a(1) obtain f where f: "build_footer_v4 t n (length bs) (length cms) = Some f" and out: "out = bs @ cms @ f"
    by (auto simp: attach_v4_def)
  have fl: "length f = 64" using build_footer_length [OF f] .
  have fm: "subslice 0 8 f = TRAILER_MAGIC_V4"
    using parse_footer_checks [OF build_parse_footer [OF f]] nb a(3) by (simp add: out)
  have "find_footer_v4 ((bs @ cms) @ f) (case l of Some n \<Rightarrow> n | None \<Rightarrow> 0) [] = Some (length (bs @ cms))"
    by (rule find_footer_last) (use fl fm nb n in \<open>auto split: option.splits\<close>)
  then have ff: "find_footer_v4 out (case l of Some n \<Rightarrow> n | None \<Rightarrow> 0) [] = Some (length bs + length cms)"
    by (simp add: out)
  have l': "compute_l c out = Inr l" unfolding out by (rule l_append [OF l])
  have h: "content_hash c out n = Inr (H (take n bs))" unfolding out by (rule hash_append [OF nb])
  show ?thesis
    using extract_attached [OF a(1) nb a(2,3)] n ff h
    by (cases l) (simp_all add: extract_carrier_with_def l' no_excludes ok_or_def cong: sum.case_cong)
qed

end

lemma prefix_before_sequence:
  "x \<noteq> 0x30 \<Longrightarrow> y \<noteq> 0x30 \<Longrightarrow> prefix [x, y] (bs @ 0x30 # r) = prefix [x, y] (bs :: bytes)"
  "x \<noteq> 0x30 \<Longrightarrow> y \<noteq> 0x30 \<Longrightarrow> z \<noteq> 0x30 \<Longrightarrow> w \<noteq> 0x30 \<Longrightarrow>
   prefix [x, y, z, w] (bs @ 0x30 # r) = prefix [x, y, z, w] (bs :: bytes)"
  by (cases bs; cases "tl bs"; cases "tl (tl bs)"; cases "tl (tl (tl bs))"; auto)+

lemma detect_before_sequence:
  "detect_format (bs @ 0x30 # r) = detect_format bs" "detect_codec H (bs @ 0x30 # r) = detect_codec H bs"
  by (simp_all add: detect_format_def detect_codec_def prefix_before_sequence)

text \<open>The length of the protected contents of a file that is not a PE file.\<close>

definition protected_len :: "(bytes \<Rightarrow> bytes) \<Rightarrow> bytes \<Rightarrow> nat" where
  "protected_len H bs =
     (case compute_l (detect_codec H bs) bs of Inr (Some l) \<Rightarrow> l | _ \<Rightarrow> length bs)"

lemma carrier_extracted:
  assumes "sign_carrier_v4 (sha256 lib) bs cms = Some (Inr out)" "cms \<noteq> []" "hd cms = 0x30" "length out < 2 ^ 64"
  shows "protected_len (sha256 lib) bs \<le> length bs" and "detect_format out \<noteq> FORMAT_TAG_PE"
    and "extract_carrier_v4 lib out =
    Inr \<lparr>cv_footer_offset = length bs + length cms, cv_content_len = protected_len (sha256 lib) bs, cv_cms_der = cms,
         cv_content_digest = sha256 lib (take (protected_len (sha256 lib) bs) bs),
         cv_cms_digest_matches =
           (case parse_signed_data lib cms of
              Inr p \<Rightarrow> ps_content_digest p = sha256 lib (take (protected_len (sha256 lib) bs) bs) | Inl _ \<Rightarrow> False)\<rparr>"
proof -
  let ?H = "sha256 lib" and ?c = "detect_codec (sha256 lib) bs"
  from assms(1) obtain l where npe: "detect_format bs \<noteq> FORMAT_TAG_PE" and l: "compute_l ?c bs = Inr l"
    and att: "attach_v4 bs cms (detect_format bs) (case l of Some n \<Rightarrow> n | None \<Rightarrow> length bs) = Some out"
    by (auto simp: sign_carrier_v4_def split: if_splits sum.splits)
  have n: "protected_len ?H bs = (case l of Some n \<Rightarrow> n | None \<Rightarrow> length bs)"
    by (simp add: protected_len_def l split: option.splits)
  from assms(2,3) obtain r where cms: "cms = 0x30 # r" by (cases cms) auto
  from att obtain rest where out: "out = bs @ 0x30 # rest" by (auto simp: attach_v4_def cms)
  have codec: "carrier_codec ?c ?H"
    using npe raw.carrier_codec_axioms elf.carrier_codec_axioms by (auto simp: detect_format_def detect_codec_def)
  show "protected_len ?H bs \<le> length bs"
    unfolding n by (rule carrier_codec.protected_bound [OF codec l])
  show "detect_format out \<noteq> FORMAT_TAG_PE" using npe by (simp add: out detect_before_sequence)
  show "extract_carrier_v4 lib out = Inr \<lparr>cv_footer_offset = length bs + length cms,
      cv_content_len = protected_len ?H bs, cv_cms_der = cms, cv_content_digest = ?H (take (protected_len ?H bs) bs),
      cv_cms_digest_matches = (case parse_signed_data lib cms of
         Inr p \<Rightarrow> ps_content_digest p = ?H (take (protected_len ?H bs) bs) | Inl _ \<Rightarrow> False)\<rparr>"
    using carrier_codec.attached_is_extracted [OF codec l n att [folded n] assms(2,4)]
    by (simp add: extract_carrier_v4_def out detect_before_sequence)
qed

text \<open>
  C12: a file that is neither PE nor damaged and to which a signature block was attached gives back that block,
  found at the end of the file; the protected length is the end of the ELF structure or the whole raw file, and the
  digest is the one of the original contents.
\<close>

theorem carrier_roundtrip:
  assumes "sign_carrier_v4 (sha256 lib) bs cms = Some (Inr out)" "cms \<noteq> []" "hd cms = 0x30" "length out < 2 ^ 64"
  shows "\<exists>v. extract_carrier_v4 lib out = Inr v \<and> cv_cms_der v = cms \<and>
    cv_footer_offset v = length bs + length cms \<and> cv_content_len v = protected_len (sha256 lib) bs \<and>
    cv_content_digest v = sha256 lib (take (protected_len (sha256 lib) bs) bs)"
  using carrier_extracted(3) [OF assms] by simp

subsection \<open>Signing a PE file that may be signed\<close>

datatype resign_error =
    ReadTable codec_error
  | FirstSignature codec_error
  | ReplaceOwn codec_error
  | MixedSignatures
  | HostEntryType nat
  | NestingFailed nest_error
  | RewriteTable codec_error

definition contains_anchor :: "cms_lib \<Rightarrow> bytes \<Rightarrow> bytes \<Rightarrow> bool" where
  "contains_anchor lib root_anchor_fp cms_der =
     (case parse_signed_data lib cms_der of
        Inl _ \<Rightarrow> False
      | Inr p \<Rightarrow> list_ex (\<lambda>c. sha256 lib c = root_anchor_fp) (ps_certs p))"

definition map_error :: "('e \<Rightarrow> 'f) \<Rightarrow> 'e + 'a \<Rightarrow> 'f + 'a" where
  "map_error f r = (case r of Inl e \<Rightarrow> Inl (f e) | Inr x \<Rightarrow> Inr x)"

definition resign_pe_file :: "cms_lib \<Rightarrow> bytes \<Rightarrow> bytes \<Rightarrow> bytes \<Rightarrow> (resign_error + bytes) option" where
  "resign_pe_file lib pe_bytes our_cms root_anchor_fp =
     (case read_certificate_entries pe_bytes of
        Inl e \<Rightarrow> Some (Inl (ReadTable e))
      | Inr [] \<Rightarrow> Some (map_error FirstSignature (append_certificate_table pe_bytes our_cms))
      | Inr (host # es) \<Rightarrow>
          let own = (\<lambda>e. contains_anchor lib root_anchor_fp (wc_certificate e)) in
          if list_all own (host # es)
          then map_option (map_error ReplaceOwn) (replace_certificate_table pe_bytes our_cms)
          else if list_ex own (host # es) then Some (Inl MixedSignatures)
          else if wc_cert_type host \<noteq> WIN_CERT_TYPE_PKCS_SIGNED_DATA
            then Some (Inl (HostEntryType (wc_cert_type host)))
          else (case append_nested_signature lib (wc_certificate host) our_cms of
                  Inl e \<Rightarrow> Some (Inl (NestingFailed e))
                | Inr nested \<Rightarrow> map_option (map_error RewriteTable) (replace_certificate_table pe_bytes nested)))"

subsection \<open>An example library\<close>

text \<open>A signature block is the byte 0x30 and the digest; its certificates are those of the example chain.\<close>

definition toy_signed_data :: "bytes \<Rightarrow> signed_data" where
  "toy_signed_data d =
     \<lparr>sd_version = 1, sd_econtent_type = OID_SPC_INDIRECT_DATA, sd_econtent = Some (d, d),
      sd_certificates = Some [Some [1], Some [3], Some [2]],
      sd_signer_infos =
        [\<lparr>si_sid = Some ([2], [3]), si_digest_alg = OID_SHA256, si_signature_alg = OID_ECDSA_WITH_SHA256,
          si_signed_attrs = Some ([\<lparr>at_oid = OID_ATTR_MESSAGE_DIGEST, at_values = [d]\<rparr>], d),
          si_signature = [3], si_unsigned_attrs = None\<rparr>]\<rparr>"

definition toy_cms :: cms_lib where
  "toy_cms = sig_lib.extend toy_lib
     (cms_lib.fields (\<lambda>bs. if length bs = 33 then Some (OID_SIGNED_DATA, tl bs) else None)
        (\<lambda>d. Some (toy_signed_data d)) (\<lambda>d. Some (''type'', OID_SHA256, d)) (\<lambda>d. None) (\<lambda>d. Some (toy_sha d))
        (\<lambda>d. None) (\<lambda>d. None) Some (\<lambda>sd. []) (\<lambda>ty d. d))"

lemma toy_cms_simps [simp]:
  "sha256 toy_cms = toy_sha" "sig_lib.truncate toy_cms = toy_lib" "sig_from_der toy_cms = Some"
  "ecdsa_verify toy_cms vk msg sg = (sg = vk)"
  "content_info_from_der toy_cms bs = (if length bs = 33 then Some (OID_SIGNED_DATA, tl bs) else None)"
  "signed_data_from_der toy_cms d = Some (toy_signed_data d)" "spc_from_der toy_cms d = Some (''type'', OID_SHA256, d)"
  "octets_from_der toy_cms d = Some (toy_sha d)"
  by (simp_all add: toy_cms_def toy_lib_def sig_lib.defs cms_lib.defs)

lemma toy_sha_32 [simp]: "length (toy_sha d) = 32"
  by (simp add: toy_sha_def)

definition toy_ps :: "bytes \<Rightarrow> parsed_signature" where
  "toy_ps d =
     \<lparr>ps_content_digest = d, ps_content_type = ''type'', ps_certs = [[1], [3], [2]], ps_signer_serial = [3],
      ps_signer_issuer_der = [2], ps_signature_message = d, ps_signature = [3], ps_message_digest = toy_sha d,
      ps_signing_time = None, ps_program_name = None, ps_more_info = None\<rparr>"

lemma toy_parse: "length d = 32 \<Longrightarrow> parse_signed_data toy_cms (0x30 # d) = Inr (toy_ps d)"
  by (simp add: parse_signed_data_def read_econtent_def toy_signed_data_def ok_or_def cert_from_der_def check_signer_def
      read_attr_def no_attrs_def toy_ps_def OID_ATTR_MESSAGE_DIGEST_def OID_ATTR_CONTENT_TYPE_def)

lemma toy_raw_carrier:
  "\<exists>out. sign_carrier_v4 (sha256 toy_cms) [1, 2, 3] (0x30 # replicate 32 7) = Some (Inr out) \<and> length out = 100"
proof -
  obtain f where f: "build_footer_v4 FORMAT_TAG_RAW (Suc (Suc (Suc 0))) (Suc (Suc (Suc 0))) 33 = Some f"
    by (simp add: build_footer_v4_def Let_def)
  with build_footer_length [OF f] show ?thesis
    by (simp add: sign_carrier_v4_def detect_format_def detect_codec_def raw_codec_def attach_v4_def)
qed

theorem carrier_roundtrip_witness:
  "\<exists>out v. sign_carrier_v4 (sha256 toy_cms) [1, 2, 3] (0x30 # replicate 32 7) = Some (Inr out) \<and>
     extract_carrier_v4 toy_cms out = Inr v \<and> cv_cms_der v = 0x30 # replicate 32 7"
proof -
  obtain out where o: "sign_carrier_v4 (sha256 toy_cms) [1, 2, 3] (0x30 # replicate 32 7) = Some (Inr out)"
    and len: "length out = 100" using toy_raw_carrier by blast
  have "length out < 2 ^ 64" using len by simp
  from carrier_roundtrip [OF o _ _ this] o show ?thesis by auto
qed

end
