(* ===== verification/SigVerify.thy ===== *)
theory SigVerify
  imports Cms
begin

text \<open>
  Verification of signed files, crates/nemesis-verify/src: trust anchors and signed responses (lib.rs), revocation
  (revocation.rs), the verification pipeline and the signing entry point (verify.rs), the status codes of the
  C interface (c_abi.rs) and the view of signatures (view.rs).

  The cached revocation list is state that is passed along.  The network, the JSON encoding of the
  responses, environment variables, the clock and the verification of fixed-size signatures are the record
  \<^verbatim>\<open>rev_env\<close>.  A panic is the value \<^verbatim>\<open>None\<close>.
\<close>

abbreviation base :: "cms_lib \<Rightarrow> sig_lib" where
  "base lib \<equiv> sig_lib.truncate lib"

subsection \<open>Trust anchors (lib.rs)\<close>

definition resolve_root_anchors :: "str option \<Rightarrow> str option \<Rightarrow> bytes list" where
  "resolve_root_anchors builtin runtime =
     (let parse = (\<lambda>hex. case hex_decode_32 (trim hex) of Inr fp \<Rightarrow> [fp] | Inl _ \<Rightarrow> []) in
      case builtin of
        Some hex \<Rightarrow> parse hex
      | None \<Rightarrow> (case runtime of Some hex \<Rightarrow> parse hex | None \<Rightarrow> []))"

subsection \<open>Revocation lists and signed responses (lib.rs)\<close>

datatype rev_dim = KeyFp | SigHash | FileHash | Publisher

record crl_entry =
  ce_dim :: rev_dim
  ce_value :: str
  ce_revoked_at :: nat
  ce_reason :: str

record crl =
  crl_version :: nat
  crl_valid_until :: nat
  crl_entries :: "crl_entry list"

definition crl_match :: "crl \<Rightarrow> rev_dim \<Rightarrow> str \<Rightarrow> crl_entry option" where
  "crl_match l dim v = find (\<lambda>e. ce_dim e = dim \<and> ce_value e = v) (crl_entries l)"

definition is_continuation :: "char \<Rightarrow> bool" where
  "is_continuation c \<longleftrightarrow> 0x80 \<le> (of_char c :: nat) \<and> (of_char c :: nat) < 0xC0"

text \<open>
  The text is cut into pairs of bytes without a test that it is ASCII; a pair that ends inside a character panics.
\<close>

fun hex64_pairs :: "str \<Rightarrow> (unit + bytes) option" where
  "hex64_pairs (a # b # s) =
     (if s \<noteq> [] \<and> is_continuation (hd s) then None
      else (case u8_from_str_radix16 [a, b] of
              None \<Rightarrow> Some (Inl ())
            | Some x \<Rightarrow> map_option (\<lambda>r. and_then r (\<lambda>xs. Inr (x # xs))) (hex64_pairs s)))"
| "hex64_pairs s = Some (Inr [])"

definition hex_decode_64 :: "str \<Rightarrow> (unit + bytes) option" where
  "hex_decode_64 hex = (let h = trim hex in if length h \<noteq> 128 then Some (Inl ()) else hex64_pairs h)"

subsection \<open>The environment of the revocation check\<close>

record ocsp_req =
  oq_key_fp :: str
  oq_sig_hash :: str
  oq_content_hash :: str
  oq_publisher :: "str option"

record ocsp_resp =
  op_code :: str
  op_dim :: "rev_dim option"
  op_value :: "str option"
  op_revoked_at :: "nat option"
  op_reason :: "str option"

record rev_env =
  builtin_url :: "str option"
  runtime_url :: "str option"
  strict_var :: "str option"
  rev_now :: nat
  http_crl :: "str \<Rightarrow> (crl \<times> str) option"
  crl_json :: "crl \<Rightarrow> bytes"
  http_ocsp :: "str \<Rightarrow> ocsp_req \<Rightarrow> (ocsp_resp \<times> str) option"
  ocsp_json :: "ocsp_resp \<Rightarrow> bytes"
  p256_verify :: "bytes \<Rightarrow> bytes \<Rightarrow> bytes \<Rightarrow> bool"

text \<open>\<^verbatim>\<open>verify_response\<close> on the encoded payload: an unreadable signature is an error.\<close>

definition verify_response :: "rev_env \<Rightarrow> bytes \<Rightarrow> str \<Rightarrow> bytes \<Rightarrow> (unit + bool) option" where
  "verify_response env payload sig_hex root_pub =
     map_option (\<lambda>r. and_then r (\<lambda>s. Inr (p256_verify env root_pub payload s))) (hex_decode_64 sig_hex)"

subsection \<open>Revocation (revocation.rs)\<close>

definition revocation_url :: "rev_env \<Rightarrow> str option" where
  "revocation_url env =
     (case builtin_url env of
        Some url \<Rightarrow> if url \<noteq> [] then Some url
          else (case runtime_url env of Some u \<Rightarrow> if u \<noteq> [] then Some u else None | None \<Rightarrow> None)
      | None \<Rightarrow> (case runtime_url env of Some u \<Rightarrow> if u \<noteq> [] then Some u else None | None \<Rightarrow> None))"

definition strict_offline :: "rev_env \<Rightarrow> bool" where
  "strict_offline env =
     (case strict_var env of Some v \<Rightarrow> v = ''1'' \<or> to_lowercase v = ''true'' | None \<Rightarrow> False)"

definition fetch_crl :: "rev_env \<Rightarrow> str \<Rightarrow> bytes \<Rightarrow> (unit + crl) option" where
  "fetch_crl env base_url root_pub =
     (case http_crl env (trim_end_matches (CHR ''/'') base_url @ ''/v1/crl'') of
        None \<Rightarrow> Some (Inl ())
      | Some (payload, sig_hex) \<Rightarrow>
          map_option (\<lambda>r. and_then r (\<lambda>ok. if ok then Inr payload else Inl ()))
            (verify_response env (crl_json env payload) sig_hex root_pub))"

type_synonym crl_cache = "(crl \<times> nat) option"

definition get_crl :: "rev_env \<Rightarrow> crl_cache \<Rightarrow> bytes \<Rightarrow> (crl_cache \<times> crl option) option" where
  "get_crl env cache root_pub =
     (if (case cache of Some (_, fetched_at) \<Rightarrow> rev_now env < fetched_at + 3600 | None \<Rightarrow> False)
      then Some (cache, map_option fst cache)
      else (case revocation_url env of
              None \<Rightarrow> Some (cache, None)
            | Some b \<Rightarrow>
                map_option (\<lambda>r. case r of
                    Inr l \<Rightarrow> (Some (l, rev_now env), Some l)
                  | Inl _ \<Rightarrow> (cache, if strict_offline env then None else map_option fst cache))
                  (fetch_crl env b root_pub)))"

datatype revocation_result = NotRevoked | RevokedBy crl_entry | UnknownRevocation

definition first_some :: "'a option list \<Rightarrow> 'a option" where
  "first_some xs = (case find (\<lambda>x. x \<noteq> None) xs of Some r \<Rightarrow> r | None \<Rightarrow> None)"

definition crl_hit :: "crl \<Rightarrow> bytes \<Rightarrow> bytes \<Rightarrow> bytes \<Rightarrow> str option \<Rightarrow> crl_entry option" where
  "crl_hit l key_fp sig_hash file_hash publisher =
     first_some [crl_match l KeyFp (hex_encode key_fp), crl_match l SigHash (hex_encode sig_hash),
       crl_match l FileHash (hex_encode file_hash),
       (case publisher of Some p \<Rightarrow> crl_match l Publisher p | None \<Rightarrow> None)]"

definition check_revocation :: "rev_env \<Rightarrow> crl_cache \<Rightarrow> bytes \<Rightarrow> bytes \<Rightarrow> bytes \<Rightarrow> str option \<Rightarrow> bytes \<Rightarrow>
    (crl_cache \<times> revocation_result) option" where
  "check_revocation env cache key_fp sig_hash file_hash publisher root_pub =
     map_option (\<lambda>(cache', l). (cache',
       case l of
         None \<Rightarrow> UnknownRevocation
       | Some l \<Rightarrow>
           (case crl_hit l key_fp sig_hash file_hash publisher of
              Some e \<Rightarrow> RevokedBy e | None \<Rightarrow> NotRevoked)))
       (get_crl env cache root_pub)"

definition unwrap_or :: "'a \<Rightarrow> 'a option \<Rightarrow> 'a" where
  "unwrap_or d x = (case x of Some v \<Rightarrow> v | None \<Rightarrow> d)"

definition ocsp_check_single :: "rev_env \<Rightarrow> bytes \<Rightarrow> bytes \<Rightarrow> bytes \<Rightarrow> str option \<Rightarrow> bytes \<Rightarrow> crl_entry option option" where
  "ocsp_check_single env key_fp sig_hash file_hash publisher root_pub =
     (case revocation_url env of
        None \<Rightarrow> Some None
      | Some b \<Rightarrow>
          (case http_ocsp env (trim_end_matches (CHR ''/'') b @ ''/v1/crl/query'')
                  \<lparr>oq_key_fp = hex_encode key_fp, oq_sig_hash = hex_encode sig_hash,
                   oq_content_hash = hex_encode file_hash, oq_publisher = publisher\<rparr> of
             None \<Rightarrow> Some None
           | Some (resp, sig_hex) \<Rightarrow>
               map_option (\<lambda>r.
                 if r \<noteq> Inr True then None
                 else if op_code resp = ''revoked''
                 then Some \<lparr>ce_dim = unwrap_or KeyFp (op_dim resp), ce_value = unwrap_or [] (op_value resp),
                            ce_revoked_at = unwrap_or 0 (op_revoked_at resp),
                            ce_reason = unwrap_or [] (op_reason resp)\<rparr>
                 else None)
                 (verify_response env (ocsp_json env resp) sig_hex root_pub)))"

subsection \<open>The pipeline (verify.rs)\<close>

datatype verify_outcome =
    Valid nat bytes bytes
  | NoSignature
  | Tampered
  | SignatureInvalid
  | Untrusted
  | Revoked crl_entry
  | ExpiredCertificate
  | UnsupportedVersion str
  | Malformed str

datatype primary_source = CertificateTable bytes | Carrier bytes bytes

fun cms_of :: "primary_source \<Rightarrow> bytes" where
  "cms_of (CertificateTable cms_der) = cms_der"
| "cms_of (Carrier cms_der _) = cms_der"

definition locate_primary :: "cms_lib \<Rightarrow> bytes \<Rightarrow> verify_outcome + primary_source" where
  "locate_primary lib bs =
     (if detect_format bs = FORMAT_TAG_PE
      then (case read_certificate_entries bs of
              Inl _ \<Rightarrow> Inl (Malformed ''certificate table'')
            | Inr [] \<Rightarrow> Inl NoSignature
            | Inr (first # _) \<Rightarrow>
                if wc_cert_type first \<noteq> WIN_CERT_TYPE_PKCS_SIGNED_DATA then Inl (Malformed ''entry type'')
                else Inr (CertificateTable (wc_certificate first)))
      else (case extract_carrier_v4 lib bs of
              Inr v \<Rightarrow> Inr (Carrier (cv_cms_der v) (cv_content_digest v))
            | Inl e \<Rightarrow> Inl (if e = NoFooter then NoSignature else Malformed ''carrier'')))"

definition classify_parse_err :: "parse_error \<Rightarrow> verify_outcome" where
  "classify_parse_err e = (case e of PUnsupported s \<Rightarrow> UnsupportedVersion s | PMalformed s \<Rightarrow> Malformed s)"

definition signer_matches :: "cms_lib \<Rightarrow> parsed_signature \<Rightarrow> cert \<Rightarrow> bool" where
  "signer_matches lib ps c =
     (case parsed (base lib) c of
        Inl _ \<Rightarrow> False
      | Inr x \<Rightarrow> x_serial x = ps_signer_serial ps \<and> x_issuer_der x = Some (ps_signer_issuer_der ps))"

text \<open>Stage 3: the signer and the root of its chain.\<close>

definition trusted_signer :: "cms_lib \<Rightarrow> parsed_signature \<Rightarrow> bytes list \<Rightarrow> nat \<Rightarrow> verify_outcome + (cert \<times> cert)" where
  "trusted_signer lib ps root_anchor_fps now =
     (case find (signer_matches lib ps) (ps_certs ps) of
        None \<Rightarrow> Inl (Malformed ''signer certificate missing'')
      | Some signer \<Rightarrow>
          (case order_chain_from (base lib) signer (ps_certs ps) of
             None \<Rightarrow> Inl Untrusted
           | Some chain \<Rightarrow>
               let root = last chain; root_fp = sha256_fingerprint (base lib) root in
               (case verify_chain_certs (base lib) chain root_fp now of
                  Inl ChainExpired \<Rightarrow> Inl ExpiredCertificate
                | Inl MissingCodeSigningEku \<Rightarrow> Inl Untrusted
                | Inl ChainMalformed \<Rightarrow> Inl (Malformed ''chain'')
                | Inl InvalidKey \<Rightarrow> Inl (Malformed ''chain'')
                | Inl UnsupportedAlgorithm \<Rightarrow> Inl (Malformed ''chain'')
                | Inl _ \<Rightarrow> Inl Untrusted
                | Inr _ \<Rightarrow>
                    if root_fp \<notin> set root_anchor_fps then Inl Untrusted else Inr (signer, root))))"

text \<open>Stage 4: the digest of the file.\<close>

definition recomputed_digest :: "cms_lib \<Rightarrow> bytes \<Rightarrow> primary_source \<Rightarrow> (verify_outcome + bytes) option" where
  "recomputed_digest lib bs primary =
     (case primary of
        CertificateTable _ \<Rightarrow>
          map_option (\<lambda>r. case r of Inr d \<Rightarrow> Inr d | Inl _ \<Rightarrow> Inl (Malformed ''authenticode digest''))
            (authenticode_digest (sha256 lib) bs)
      | Carrier _ d \<Rightarrow> Some (Inr d))"

text \<open>Stage 5: the signature over the attributes, by the key of the signer.\<close>

definition check_signature :: "cms_lib \<Rightarrow> cert \<Rightarrow> parsed_signature \<Rightarrow> verify_outcome + bytes" where
  "check_signature lib signer ps =
     (case subject_public_key (base lib) signer of
        Inl _ \<Rightarrow> Inl (Malformed ''signer key'')
      | Inr vk \<Rightarrow>
          (case sig_from_der lib (ps_signature ps) of
             None \<Rightarrow> Inl (Malformed ''signature DER'')
           | Some sg \<Rightarrow>
               if ecdsa_verify lib vk (ps_signature_message ps) sg then Inr vk else Inl SignatureInvalid))"

text \<open>Stage 6: revocation, with the single query when no list is available in strict mode.\<close>

definition revocation_stage ::
  "cms_lib \<Rightarrow> rev_env \<Rightarrow> crl_cache \<Rightarrow> parsed_signature \<Rightarrow> cert \<Rightarrow> cert \<Rightarrow> bytes \<Rightarrow> (crl_cache \<times> verify_outcome) option" where
  "revocation_stage lib env cache ps signer root vk =
     (let key_fp = sha256 lib vk;
          sig_hash = sha256 lib (ps_signature ps);
          publisher = ok_flat (subject_cn (base lib) signer);
          accept = Valid (unwrap_or 0 (ps_signing_time ps)) key_fp vk
      in case subject_public_key (base lib) root of
           Inl _ \<Rightarrow> Some (cache, Untrusted)
         | Inr root_vk \<Rightarrow>
             (case check_revocation env cache key_fp sig_hash (ps_content_digest ps) publisher root_vk of
                None \<Rightarrow> None
              | Some (cache', RevokedBy e) \<Rightarrow> Some (cache', Revoked e)
              | Some (cache', NotRevoked) \<Rightarrow> Some (cache', accept)
              | Some (cache', UnknownRevocation) \<Rightarrow>
                  if strict_offline env
                  then (case ocsp_check_single env key_fp sig_hash (ps_content_digest ps) publisher root_vk of
                          None \<Rightarrow> None
                        | Some (Some e) \<Rightarrow> Some (cache', Revoked e)
                        | Some None \<Rightarrow> Some (cache', Untrusted))
                  else Some (cache', accept)))"

definition verify_bytes ::
  "cms_lib \<Rightarrow> rev_env \<Rightarrow> crl_cache \<Rightarrow> bytes \<Rightarrow> bytes list \<Rightarrow> nat \<Rightarrow> (crl_cache \<times> verify_outcome) option" where
  "verify_bytes lib env cache bs root_anchor_fps now =
     (case locate_primary lib bs of
        Inl out \<Rightarrow> Some (cache, out)
      | Inr primary \<Rightarrow>
     (case parse_signed_data lib (cms_of primary) of
        Inl e \<Rightarrow> Some (cache, classify_parse_err e)
      | Inr ps \<Rightarrow>
     (case trusted_signer lib ps root_anchor_fps now of
        Inl out \<Rightarrow> Some (cache, out)
      | Inr (signer, root) \<Rightarrow>
     (case recomputed_digest lib bs primary of
        None \<Rightarrow> None
      | Some (Inl out) \<Rightarrow> Some (cache, out)
      | Some (Inr digest) \<Rightarrow>
          if digest \<noteq> ps_content_digest ps then Some (cache, Tampered)
          else (case check_signature lib signer ps of
                  Inl out \<Rightarrow> Some (cache, out)
                | Inr vk \<Rightarrow> revocation_stage lib env cache ps signer root vk)))))"

subsection \<open>Signing (verify.rs)\<close>

datatype sign_error = DigestFailed codec_error | BuilderFailed | TableFailed codec_error | CarrierFailed envelope_error

definition v4_content_digest :: "(bytes \<Rightarrow> bytes) \<Rightarrow> bytes \<Rightarrow> (codec_error + bytes) option" where
  "v4_content_digest H content =
     (if detect_format content = FORMAT_TAG_PE then authenticode_digest H content
      else Some (and_then (compute_l (detect_codec H content) content) (\<lambda>l.
        codec.content_hash (detect_codec H content) content (case l of Some n \<Rightarrow> n | None \<Rightarrow> length content))))"

text \<open>The builder of the cms crate, with the key, the time, the certificates and the publisher, is the parameter.\<close>

definition sign_content_v4 ::
  "(bytes \<Rightarrow> bytes) \<Rightarrow> (bytes \<Rightarrow> bytes option) \<Rightarrow> bytes \<Rightarrow> (sign_error + bytes) option" where
  "sign_content_v4 H build_signed_data content =
     (case v4_content_digest H content of
        None \<Rightarrow> None
      | Some (Inl e) \<Rightarrow> Some (Inl (DigestFailed e))
      | Some (Inr digest) \<Rightarrow>
          (case build_signed_data digest of
             None \<Rightarrow> Some (Inl BuilderFailed)
           | Some cms \<Rightarrow>
               if detect_format content = FORMAT_TAG_PE
               then Some (map_error TableFailed (append_certificate_table content cms))
               else map_option (map_error CarrierFailed) (sign_carrier_v4 H content cms)))"

subsection \<open>Status codes (c_abi.rs)\<close>

definition nv_status :: "verify_outcome \<Rightarrow> nat" where
  "nv_status out =
     (case out of Valid _ _ _ \<Rightarrow> 0 | NoSignature \<Rightarrow> 1 | Tampered \<Rightarrow> 2 | SignatureInvalid \<Rightarrow> 3 | Untrusted \<Rightarrow> 4
        | UnsupportedVersion _ \<Rightarrow> 5 | Malformed _ \<Rightarrow> 6 | Revoked _ \<Rightarrow> 7 | ExpiredCertificate \<Rightarrow> 8)"

text \<open>\<^verbatim>\<open>nv_self_verify\<close> after the file was read.\<close>

definition nv_self_verify :: "cms_lib \<Rightarrow> rev_env \<Rightarrow> crl_cache \<Rightarrow> bytes \<Rightarrow> bytes list \<Rightarrow> nat \<Rightarrow> int option" where
  "nv_self_verify lib env cache bs anchors now =
     (if anchors = [] then Some (- 5)
      else map_option (\<lambda>(_, out). case out of Valid _ _ _ \<Rightarrow> 0 | _ \<Rightarrow> - 4) (verify_bytes lib env cache bs anchors now))"

subsection \<open>The view of signatures (view.rs)\<close>

record sig_info =
  sg_index :: nat
  sg_signed_at :: nat
  sg_key_fp :: bytes
  sg_pubkey :: bytes

definition collect_cms_blobs :: "cms_lib \<Rightarrow> bytes \<Rightarrow> bytes list" where
  "collect_cms_blobs lib bs =
     (if detect_format bs = FORMAT_TAG_PE
      then (case read_certificate_entries bs of
              Inr (primary # _) \<Rightarrow>
                if wc_cert_type primary \<noteq> WIN_CERT_TYPE_PKCS_SIGNED_DATA then []
                else (case enumerate_signatures lib (wc_certificate primary) of Inr l \<Rightarrow> l | Inl _ \<Rightarrow> [])
            | _ \<Rightarrow> [])
      else (case extract_carrier_v4 lib bs of Inr v \<Rightarrow> [cv_cms_der v] | Inl _ \<Rightarrow> []))"

definition parse_all :: "cms_lib \<Rightarrow> bytes \<Rightarrow> parsed_signature list" where
  "parse_all lib bs =
     List.map_filter (\<lambda>cms. case parse_signed_data lib cms of Inr ps \<Rightarrow> Some ps | Inl _ \<Rightarrow> None)
       (collect_cms_blobs lib bs)"

definition sig_info_from :: "cms_lib \<Rightarrow> nat \<Rightarrow> parsed_signature \<Rightarrow> sig_info option" where
  "sig_info_from lib index ps =
     (case find (signer_matches lib ps) (ps_certs ps) of
        None \<Rightarrow> None
      | Some signer \<Rightarrow>
          (case subject_public_key (base lib) signer of
             Inl _ \<Rightarrow> None
           | Inr vk \<Rightarrow>
               Some \<lparr>sg_index = index, sg_signed_at = unwrap_or 0 (ps_signing_time ps),
                     sg_key_fp = sha256 lib vk, sg_pubkey = vk\<rparr>))"

definition list_signatures :: "cms_lib \<Rightarrow> bytes \<Rightarrow> sig_info list" where
  "list_signatures lib bs =
     List.map_filter (\<lambda>(i, ps). sig_info_from lib i ps) (enumerate 0 (parse_all lib bs))"

definition latest_sig_hash :: "cms_lib \<Rightarrow> bytes \<Rightarrow> bytes option" where
  "latest_sig_hash lib bs =
     (case parse_all lib bs of [] \<Rightarrow> None | ps # _ \<Rightarrow> Some (sha256 lib (ps_signature ps)))"

subsection \<open>What a valid signature means\<close>

lemma base_simps [simp]:
  "sha256 (base lib) = sha256 lib" "sha256_fingerprint (base lib) c = sha256 lib c"
  by (simp_all add: sig_lib.truncate_def sha256_fingerprint_def)

lemma trusted_signerE:
  assumes "trusted_signer lib ps fps now = Inr (signer, root)"
  obtains chain where "find (signer_matches lib ps) (ps_certs ps) = Some signer"
    "order_chain_from (base lib) signer (ps_certs ps) = Some chain" "root = last chain"
    "verify_chain_certs (base lib) chain (sha256 lib root) now = Inr ()" "sha256 lib root \<in> set fps"
  using assms
  by (auto simp: trusted_signer_def Let_def split: option.splits sum.splits cert_chain_error.splits if_splits)

lemma order_chain_from_props:
  assumes "order_chain_from lib signer pool = Some chain"
  shows "chain \<noteq> [] \<and> hd chain = signer \<and> set chain \<subseteq> insert signer (set pool)"
  using order_chain_linked [of lib pool "[signer]" chain] assms by (auto simp: order_chain_from_def prefix_def)

lemma check_signatureE:
  assumes "check_signature lib signer ps = Inr vk"
  obtains sg where "subject_public_key (base lib) signer = Inr vk" "sig_from_der lib (ps_signature ps) = Some sg"
    "ecdsa_verify lib vk (ps_signature_message ps) sg"
  using assms by (auto simp: check_signature_def split: sum.splits option.splits if_splits)

lemma verify_bytes_valid:
  assumes "verify_bytes lib env cache bs fps now = Some (cache', Valid t fp vk)"
  obtains primary ps signer root where
    "locate_primary lib bs = Inr primary" "parse_signed_data lib (cms_of primary) = Inr ps"
    "trusted_signer lib ps fps now = Inr (signer, root)"
    "recomputed_digest lib bs primary = Some (Inr (ps_content_digest ps))"
    "check_signature lib signer ps = Inr vk"
    "revocation_stage lib env cache ps signer root vk = Some (cache', Valid t fp vk)"
proof -
  from assms obtain primary where 1: "locate_primary lib bs = Inr primary"
    by (auto simp: verify_bytes_def locate_primary_def split: sum.splits if_splits list.splits)
  from assms 1 obtain ps where 2: "parse_signed_data lib (cms_of primary) = Inr ps"
    by (auto simp: verify_bytes_def classify_parse_err_def split: sum.splits parse_error.splits)
  from assms 1 2 obtain signer root where 3: "trusted_signer lib ps fps now = Inr (signer, root)"
    by (auto simp: verify_bytes_def trusted_signer_def Let_def split: sum.splits option.splits cert_chain_error.splits if_splits)
  have 4: "recomputed_digest lib bs primary = Some (Inr (ps_content_digest ps))"
    using assms 1 2 3
    by (auto simp: verify_bytes_def recomputed_digest_def split: sum.splits option.splits primary_source.splits if_splits)
      (metis old.sum.exhaust)+
  obtain vk' where 5: "check_signature lib signer ps = Inr vk'"
    and "revocation_stage lib env cache ps signer root vk' = Some (cache', Valid t fp vk)"
    using assms 1 2 3 4
    by (auto simp: verify_bytes_def check_signature_def split: sum.splits option.splits if_splits)
  moreover from this have "vk' = vk"
    by (auto simp: revocation_stage_def Let_def split: sum.splits option.splits revocation_result.splits if_splits)
  ultimately show thesis using that [OF 1 2 3 4] by simp
qed

lemma revocation_stage_valid:
  assumes "revocation_stage lib env cache ps signer root vk = Some (cache', Valid t fp vk')"
  shows "fp = sha256 lib vk \<and> vk' = vk \<and> t = unwrap_or 0 (ps_signing_time ps) \<and>
    (\<exists>root_vk l. subject_public_key (base lib) root = Inr root_vk \<and> get_crl env cache root_vk = Some (cache', l) \<and>
      (case l of
         Some list \<Rightarrow> crl_hit list (sha256 lib vk) (sha256 lib (ps_signature ps)) (ps_content_digest ps)
           (ok_flat (subject_cn (base lib) signer)) = None
       | None \<Rightarrow> \<not> strict_offline env))"
  using assms
  by (auto simp: revocation_stage_def check_revocation_def Let_def
      split: sum.splits option.splits revocation_result.splits if_splits)

text \<open>
  C9: a file is reported as validly signed only if all of this holds: it carries a signature whose signer is
  among its certificates, a chain from the signer follows issuers to a self-signed root whose fingerprint is one of
  the anchors, every certificate of the chain is valid at the time, the signer may sign code, the digest of the file
  is the signed one, the signature verifies under the signer's key, the reported key is that key, and the revocation
  list in use has no matching entry; without a list the mode is not strict.
\<close>

theorem valid_means_trusted:
  assumes "verify_bytes lib env cache bs fps now = Some (cache', Valid t fp vk)"
  shows "\<exists>primary ps signer chain sg.
    locate_primary lib bs = Inr primary \<and> parse_signed_data lib (cms_of primary) = Inr ps \<and>
    signer \<in> set (ps_certs ps) \<and> signer_matches lib ps signer \<and>
    chain \<noteq> [] \<and> hd chain = signer \<and> set chain \<subseteq> set (ps_certs ps) \<and>
    list_all (\<lambda>c. is_valid_at (base lib) c now = Inr True) chain \<and>
    successively (issued_by (base lib)) chain \<and> is_self_signed (base lib) (last chain) = Inr True \<and>
    sha256 lib (last chain) \<in> set fps \<and> has_code_signing_eku (base lib) signer = Inr True \<and>
    recomputed_digest lib bs primary = Some (Inr (ps_content_digest ps)) \<and>
    subject_public_key (base lib) signer = Inr vk \<and> fp = sha256 lib vk \<and>
    sig_from_der lib (ps_signature ps) = Some sg \<and> ecdsa_verify lib vk (ps_signature_message ps) sg \<and>
    (\<exists>root_vk l. subject_public_key (base lib) (last chain) = Inr root_vk \<and>
      get_crl env cache root_vk = Some (cache', l) \<and>
      (case l of
         Some list \<Rightarrow> crl_hit list fp (sha256 lib (ps_signature ps)) (ps_content_digest ps)
           (ok_flat (subject_cn (base lib) signer)) = None
       | None \<Rightarrow> \<not> strict_offline env))"
proof -
  from assms obtain primary ps signer root where v:
    "locate_primary lib bs = Inr primary" "parse_signed_data lib (cms_of primary) = Inr ps"
    "trusted_signer lib ps fps now = Inr (signer, root)"
    "recomputed_digest lib bs primary = Some (Inr (ps_content_digest ps))"
    "check_signature lib signer ps = Inr vk"
    "revocation_stage lib env cache ps signer root vk = Some (cache', Valid t fp vk)"
    by (rule verify_bytes_valid)
  from v(3) obtain chain where c: "find (signer_matches lib ps) (ps_certs ps) = Some signer"
    "order_chain_from (base lib) signer (ps_certs ps) = Some chain" "root = last chain"
    "verify_chain_certs (base lib) chain (sha256 lib root) now = Inr ()" "sha256 lib root \<in> set fps"
    by (rule trusted_signerE)
  from v(5) obtain sg where s: "subject_public_key (base lib) signer = Inr vk"
    "sig_from_der lib (ps_signature ps) = Some sg" "ecdsa_verify lib vk (ps_signature_message ps) sg"
    by (rule check_signatureE)
  have signer: "signer \<in> set (ps_certs ps)" "signer_matches lib ps signer"
    using c(1) by (auto simp: find_Some_iff)
  note r = revocation_stage_valid [OF v(6)]
  show ?thesis
    using v(1,2,4) signer order_chain_from_props [OF c(2)] c(3-5) s r
    by (intro exI [of _ primary] exI [of _ ps] exI [of _ signer] exI [of _ chain] exI [of _ sg])
      (auto simp: verify_chain_certs_iff list_all_iff)
qed

lemma map_error_Inr [simp]: "map_error f r = Inr x \<longleftrightarrow> r = Inr x"
  by (auto simp: map_error_def split: sum.splits)

subsection \<open>Signed files verify\<close>

text \<open>The stages that do not depend on the file any more: trust, signature, revocation.\<close>

definition trust_stages ::
  "cms_lib \<Rightarrow> rev_env \<Rightarrow> crl_cache \<Rightarrow> parsed_signature \<Rightarrow> bytes list \<Rightarrow> nat \<Rightarrow> (crl_cache \<times> verify_outcome) option" where
  "trust_stages lib env cache ps fps now =
     (case trusted_signer lib ps fps now of
        Inl out \<Rightarrow> Some (cache, out)
      | Inr (signer, root) \<Rightarrow>
          (case check_signature lib signer ps of
             Inl out \<Rightarrow> Some (cache, out)
           | Inr vk \<Rightarrow> revocation_stage lib env cache ps signer root vk))"

lemma verify_bytes_stages:
  assumes "locate_primary lib bs = Inr primary" "parse_signed_data lib (cms_of primary) = Inr ps"
    "recomputed_digest lib bs primary = Some (Inr (ps_content_digest ps))"
  shows "verify_bytes lib env cache bs fps now = trust_stages lib env cache ps fps now"
  using assms by (simp add: verify_bytes_def trust_stages_def split: sum.splits)

lemma append_keeps_pe:
  assumes "append_certificate_table bs cms = Inr out" "pe_regular bs"
  shows "prefix [0x4D, 0x5A] out"
proof -
  obtain layout where "parse_pe out = Inr layout" using append_digest_input [OF assms] by blast
  then have "subslice 0 2 out = [0x4D, 0x5A]" by (auto simp: parse_pe_def parse_pe_header_def and_then_eq_Inr split: if_splits)
  then show ?thesis unfolding prefix_def subslice_def by (metis append_take_drop_id drop0 minus_nat.diff_0)
qed

lemma carrier_located:
  assumes sig: "sign_carrier_v4 (sha256 lib) content cms = Some (Inr out)"
    and d: "v4_content_digest (sha256 lib) content = Some (Inr digest)" "detect_format content \<noteq> FORMAT_TAG_PE"
    and cms: "cms \<noteq> []" "hd cms = 0x30" "length out < 2 ^ 64"
  shows "locate_primary lib out = Inr (Carrier cms digest)"
proof -
  let ?H = "sha256 lib"
  note ex = carrier_extracted [OF sig cms]
  have "digest = ?H (take (protected_len ?H content) content)"
    using d ex(1)
    by (auto simp: v4_content_digest_def protected_len_def detect_codec_def detect_format_def elf_codec_def raw_codec_def
        hash_upto_def and_then_eq_Inr split: if_splits sum.splits option.splits)
  with ex(2,3) show ?thesis by (simp add: locate_primary_def)
qed

lemma table_located:
  assumes "append_certificate_table content cms = Inr out" "pe_regular content" "der_tlv_len cms = Some (length cms)"
  shows "locate_primary lib out = Inr (CertificateTable cms)"
proof -
  have "detect_format out = FORMAT_TAG_PE" using append_keeps_pe [OF assms(1,2)] by (simp add: detect_format_def)
  then show ?thesis
    using certificate_entries_appended [OF assms] by (simp add: locate_primary_def)
qed


text \<open>
  A regular PE file whose length is not a multiple of eight does not verify after it was signed.  The digest
  is taken before the padding is added, and whenever the signer is trusted the outcome is that the file was tampered
  with, unless the hash function maps the contents with and without the padding to the same value.
\<close>

theorem unaligned_pe_reported_as_tampered:
  assumes "sign_content_v4 (sha256 lib) build content = Some (Inr out)"
    and "v4_content_digest (sha256 lib) content = Some (Inr digest)" "build digest = Some cms"
    and "parse_signed_data lib cms = Inr ps" "ps_content_digest ps = digest"
    and "der_tlv_len cms = Some (length cms)" "trusted_signer lib ps fps now = Inr (signer, root)"
    and "detect_format content = FORMAT_TAG_PE" "pe_regular content"
    and "\<And>x. sha256 lib (x @ replicate (round8 (length content) - length content) 0) \<noteq> sha256 lib x"
  shows "verify_bytes lib env cache out fps now = Some (cache, Tampered)"
proof -
  have app: "append_certificate_table content cms = Inr out"
    using assms(1-3,8) by (auto simp: sign_content_v4_def map_error_Inr)
  from append_digest_input [OF app assms(9)] assms(2,8) obtain x where
    "digest = sha256 lib x"
    "authenticode_digest (sha256 lib) out
       = Some (Inr (sha256 lib (x @ replicate (round8 (length content) - length content) 0)))"
    by (auto simp: v4_content_digest_def authenticode_digest_def)
  then show ?thesis
    using table_located [OF app assms(9,6)] assms(4,5,7,10)
    by (simp add: verify_bytes_def recomputed_digest_def)
qed

subsubsection \<open>An example environment\<close>

definition toy_env :: rev_env where
  "toy_env =
     \<lparr>builtin_url = None, runtime_url = Some ''u/'', strict_var = None, rev_now = 10, http_crl = (\<lambda>_. None),
      crl_json = (\<lambda>_. []), http_ocsp = (\<lambda>_ _. None), ocsp_json = (\<lambda>_. []), p256_verify = (\<lambda>_ _ _. False)\<rparr>"

definition toy_cms_block :: "bytes \<Rightarrow> bytes option" where
  "toy_cms_block d = Some (0x30 # d)"

lemma toy_ps_simps [simp]:
  "ps_certs (toy_ps d) = [[1], [3], [2]]" "ps_signature (toy_ps d) = [3]" "ps_signing_time (toy_ps d) = None"
  "ps_content_digest (toy_ps d) = d" "ps_signature_message (toy_ps d) = d"
  by (simp_all add: toy_ps_def)

lemma toy_signer: "trusted_signer toy_cms (toy_ps d) [toy_sha [1]] 50 = Inr ([3], [1])"
proof -
  have "\<not> signer_matches toy_cms (toy_ps d) [1]" "signer_matches toy_cms (toy_ps d) [3]"
    by (simp_all add: signer_matches_def toy_x509_def toy_ps_def)
  then show ?thesis
    using toy_chain toy_order by (simp add: trusted_signer_def Let_def sha256_fingerprint_def)
qed

lemma toy_trust_stages:
  "trust_stages toy_cms toy_env None (toy_ps d) [toy_sha [1]] 50 = Some (None, Valid 0 (toy_sha [3]) [3])"
proof -
  have "get_crl toy_env None vk = Some (None, None)" for vk
    by (simp add: get_crl_def revocation_url_def fetch_crl_def toy_env_def strict_offline_def)
  moreover have "\<not> strict_offline toy_env" by (simp add: strict_offline_def toy_env_def)
  ultimately show ?thesis
    using toy_signer [of d]
    by (simp add: trust_stages_def check_signature_def toy_cert revocation_stage_def
        check_revocation_def unwrap_or_def Let_def)
qed

lemma toy_tlv: "der_tlv_len (0x30 # toy_sha x) = Some (length (0x30 # toy_sha x))"
  by (simp add: der_tlv_len_def toy_sha_def)

lemma toy_raw_digest: "v4_content_digest (sha256 toy_cms) [1, 2, 3] = Some (Inr (toy_sha [1, 2, 3]))"
  by (simp add: v4_content_digest_def detect_format_def detect_codec_def raw_codec_def hash_upto_def)

lemma toy_raw_signed:
  "\<exists>out. sign_content_v4 (sha256 toy_cms) toy_cms_block [1, 2, 3] = Some (Inr out) \<and> length out = 100"
proof -
  obtain f where f: "build_footer_v4 FORMAT_TAG_RAW (Suc (Suc (Suc 0))) (Suc (Suc (Suc 0))) 33 = Some f"
    by (simp add: build_footer_v4_def Let_def)
  show ?thesis
    using f build_footer_length [OF f] toy_raw_digest
    by (simp add: sign_content_v4_def toy_cms_block_def sign_carrier_v4_def detect_format_def detect_codec_def
        raw_codec_def attach_v4_def map_error_def)
qed


lemma toy_raw_valid:
  "\<exists>out. verify_bytes toy_cms toy_env None out [toy_sha [1]] 50 = Some (None, Valid 0 (toy_sha [3]) [3]) \<and>
     detect_format out \<noteq> FORMAT_TAG_PE"
proof -
  obtain out where o: "sign_carrier_v4 (sha256 toy_cms) [1, 2, 3] (0x30 # toy_sha [1, 2, 3]) = Some (Inr out)"
    "length out < 2 ^ 64"
    using toy_raw_signed toy_raw_digest
    by (auto simp: sign_content_v4_def toy_cms_block_def detect_format_def)
  have "locate_primary toy_cms out = Inr (Carrier (0x30 # toy_sha [1, 2, 3]) (toy_sha [1, 2, 3]))"
    by (rule carrier_located [OF o(1) toy_raw_digest]) (use o(2) in \<open>simp_all add: detect_format_def\<close>)
  then have "verify_bytes toy_cms toy_env None out [toy_sha [1]] 50 = trust_stages toy_cms toy_env None (toy_ps (toy_sha [1, 2, 3])) [toy_sha [1]] 50"
    by (rule verify_bytes_stages) (simp_all add: toy_parse recomputed_digest_def)
  moreover have "detect_format out \<noteq> FORMAT_TAG_PE"
    by (rule carrier_extracted(2) [OF o(1)]) (use o(2) in simp_all)
  ultimately show ?thesis using toy_trust_stages by auto
qed

theorem valid_means_trusted_witness:
  "\<exists>out (ps :: parsed_signature) chain. verify_bytes toy_cms toy_env None out [toy_sha [1]] 50 = Some (None, Valid 0 (toy_sha [3]) [3]) \<and>
     set chain \<subseteq> set (ps_certs ps) \<and> sha256 toy_cms (last chain) = toy_sha [1]"
proof -
  obtain out where o: "verify_bytes toy_cms toy_env None out [toy_sha [1]] 50 = Some (None, Valid 0 (toy_sha [3]) [3])"
    using toy_raw_valid by blast
  from valid_means_trusted [OF o] obtain ps :: parsed_signature and chain where
    "set chain \<subseteq> set (ps_certs ps)" "sha256 toy_cms (last chain) \<in> set [toy_sha [1]]" by (elim exE conjE) (rule that, assumption, assumption)
  then show ?thesis using o by (intro exI [of _ out] exI [of _ ps] exI [of _ chain]) simp
qed

lemma pe_example_prefix: "detect_format (pe_example opt security) = FORMAT_TAG_PE"
  by (simp add: detect_format_def pe_example_def)

theorem unaligned_pe_reported_as_tampered_witness:
  "\<exists>out. sign_content_v4 (sha256 toy_cms) toy_cms_block (pe_example 136 (replicate 8 0)) = Some (Inr out) \<and>
     verify_bytes toy_cms toy_env None out [toy_sha [1]] 50 = Some (None, Tampered)"
proof -
  let ?pe = "pe_example 136 (replicate 8 0)"
  obtain x where d: "v4_content_digest (sha256 toy_cms) ?pe = Some (Inr (toy_sha x))"
    by (simp add: v4_content_digest_def pe_example_prefix authenticode_digest_def pe_example_layout digest_input_def)
  have l: "length (toy_sha x) = 32" by simp
  obtain out where o: "sign_content_v4 (sha256 toy_cms) toy_cms_block ?pe = Some (Inr out)"
    using d by (simp add: sign_content_v4_def pe_example_prefix toy_cms_block_def append_certificate_table_def
        pe_example_layout round8_def win_cert_entry_bytes_def pe_example_length)
  have "verify_bytes toy_cms toy_env None out [toy_sha [1]] 50 = Some (None, Tampered)"
    by (rule unaligned_pe_reported_as_tampered [OF o d _ toy_parse [OF l] _ toy_tlv _ pe_example_prefix pe_example_regular])
      (use toy_signer in \<open>simp_all add: toy_cms_block_def toy_sha_def pe_example_length round8_def\<close>)
  with o show ?thesis by blast
qed

subsection \<open>Anchors\<close>

text \<open>
  An anchor compiled in is the only one that counts: it is used when it is well-formed and, when it is not,
  there is no anchor at all rather than the one of the environment.  There is never more than one, and without an
  anchor no file is valid.
\<close>

theorem anchors_fail_closed:
  "resolve_root_anchors (Some b) r = resolve_root_anchors (Some b) r' \<and>
   resolve_root_anchors (Some (hex_encode fp)) r = (if length fp = 32 then [fp] else []) \<and>
   resolve_root_anchors None None = [] \<and> length (resolve_root_anchors ob rt) \<le> 1 \<and>
   verify_bytes lib env cache bs [] now \<noteq> Some (cache', Valid t kf vk) \<and>
   nv_self_verify lib env cache bs [] now = Some (- 5)"
proof (intro conjI)
  show "verify_bytes lib env cache bs [] now \<noteq> Some (cache', Valid t kf vk)"
  proof
    assume "verify_bytes lib env cache bs [] now = Some (cache', Valid t kf vk)"
    then show False by (rule verify_bytes_valid) (auto elim: trusted_signerE)
  qed
  show "resolve_root_anchors (Some (hex_encode fp)) r = (if length fp = 32 then [fp] else [])"
    by (auto simp: resolve_root_anchors_def hex_encode_trim hex_decode_32_encode hex_decode_32_def hex_encode_ascii hex_pairs_encode
        split: sum.splits)
qed (auto simp: resolve_root_anchors_def nv_self_verify_def Let_def split: option.splits sum.splits)

subsection \<open>Revocation without a list\<close>

lemma revocation_stage_unknown:
  assumes "subject_public_key (base lib) root = Inr root_vk" "get_crl env cache root_vk = Some (cache', None)"
    "strict_offline env"
  shows "revocation_stage lib env cache ps signer root vk =
    (case ocsp_check_single env (sha256 lib vk) (sha256 lib (ps_signature ps)) (ps_content_digest ps)
        (ok_flat (subject_cn (base lib) signer)) root_vk of
       None \<Rightarrow> None
     | Some (Some e) \<Rightarrow> Some (cache', Revoked e)
     | Some None \<Rightarrow> Some (cache', Untrusted))"
  using assms by (simp add: revocation_stage_def check_revocation_def Let_def)

text \<open>
  In strict mode without a revocation list a file is never valid.  A properly signed answer of the
  single query that the signature is not revoked counts like no answer, and the outcome is untrusted, where the
  comment says that only an unreachable service leads to rejection.
\<close>

theorem strict_query_never_accepts:
  assumes "subject_public_key (base lib) root = Inr root_vk" "get_crl env cache root_vk = Some (cache', None)"
    and "strict_offline env" "revocation_url env = Some b"
    and "http_ocsp env (trim_end_matches (CHR ''/'') b @ ''/v1/crl/query'')
       \<lparr>oq_key_fp = hex_encode (sha256 lib vk), oq_sig_hash = hex_encode (sha256 lib (ps_signature ps)),
        oq_content_hash = hex_encode (ps_content_digest ps),
        oq_publisher = ok_flat (subject_cn (base lib) signer)\<rparr> = Some (resp, sig_hex)"
    and "verify_response env (ocsp_json env resp) sig_hex root_vk = Some (Inr True)" "op_code resp = ''valid''"
  shows "revocation_stage lib env cache ps signer root vk = Some (cache', Untrusted)"
  using assms by (simp add: revocation_stage_unknown ocsp_check_single_def)

definition strict_env :: rev_env where
  "strict_env = toy_env\<lparr>strict_var := Some ''1'', p256_verify := (\<lambda>_ _ _. True),
     http_ocsp := (\<lambda>_ _. Some (\<lparr>op_code = ''valid'', op_dim = None, op_value = None, op_revoked_at = None,
       op_reason = None\<rparr>, hex_encode (replicate 64 0)))\<rparr>"

lemma hex64_pairs_encode: "hex64_pairs (hex_encode bs) = Some (Inr bs)"
proof (induction bs)
  case (Cons b bs)
  have "\<not> is_continuation c" if "c \<in> set (hex_encode bs)" for c
  proof -
    from hex_encode_chars [OF that] obtain d where "d < 16" "c = hex_char d" by blast
    with hex_char_plain(3) [of d] show ?thesis by (simp add: is_continuation_def)
  qed
  then have "\<not> (hex_encode bs \<noteq> [] \<and> is_continuation (hd (hex_encode bs)))" by (metis hd_in_set)
  with Cons show ?case by (simp add: u8_radix_pair)
qed simp

lemma hex_decode_64_encode: "length bs = 64 \<Longrightarrow> hex_decode_64 (hex_encode bs) = Some (Inr bs)"
  by (simp add: hex_decode_64_def hex_encode_trim hex64_pairs_encode)

theorem strict_query_never_accepts_witness:
  "revocation_stage toy_cms strict_env None (toy_ps (toy_sha [1])) [3] [1] [3] = Some (None, Untrusted)"
proof (rule strict_query_never_accepts)
  show "subject_public_key (base toy_cms) [1] = Inr [1]" by (simp add: toy_cert)
  show "get_crl strict_env None [1] = Some (None, None)"
    by (simp add: get_crl_def revocation_url_def fetch_crl_def strict_env_def toy_env_def strict_offline_def)
  show "strict_offline strict_env" "revocation_url strict_env = Some ''u/''"
    by (simp_all add: strict_offline_def strict_env_def toy_env_def revocation_url_def)
  let ?resp = "\<lparr>op_code = ''valid'', op_dim = None, op_value = None, op_revoked_at = None, op_reason = None\<rparr>"
  show "http_ocsp strict_env u q = Some (?resp, hex_encode (replicate 64 0))" for u q
    by (simp add: strict_env_def)
  show "verify_response strict_env (ocsp_json strict_env ?resp) (hex_encode (replicate 64 0)) [1] = Some (Inr True)"
    using hex_decode_64_encode [of "replicate 64 0"] by (simp add: verify_response_def strict_env_def)
  show "op_code ?resp = ''valid''" by simp
qed

subsection \<open>The view agrees with the verification\<close>

lemma verified_signer_info:
  assumes "trusted_signer lib ps fps now = Inr (signer, root)" "check_signature lib signer ps = Inr vk"
    "revocation_stage lib env cache ps signer root vk = Some (cache', Valid t fp vk)"
  shows "sig_info_from lib i ps = Some \<lparr>sg_index = i, sg_signed_at = t, sg_key_fp = fp, sg_pubkey = vk\<rparr>"
proof -
  from assms(1) have "find (signer_matches lib ps) (ps_certs ps) = Some signer" by (rule trusted_signerE)
  moreover from assms(2) have "subject_public_key (base lib) signer = Inr vk" by (rule check_signatureE)
  ultimately show ?thesis using revocation_stage_valid [OF assms(3)] by (simp add: sig_info_from_def)
qed

lemma first_blob:
  assumes "locate_primary lib bs = Inr primary"
    "detect_format bs = FORMAT_TAG_PE \<longrightarrow> (\<exists>l. enumerate_signatures lib (cms_of primary) = Inr l)"
  shows "\<exists>rest. collect_cms_blobs lib bs = cms_of primary # rest"
proof -
  have "enumerate_signatures lib cms = Inr l \<Longrightarrow> \<exists>rest. l = cms # rest" for cms l
    by (auto simp: enumerate_signatures_def eval_nat_numeral and_then_eq_Inr)
  then show ?thesis
    using assms by (fastforce simp: locate_primary_def collect_cms_blobs_def split: if_splits sum.splits list.splits)
qed

text \<open>
  The view lists the signature of a valid file first, with the time, key and fingerprint that verification
  reports, provided the nested signatures of a PE file can be read.
\<close>

theorem valid_signature_is_listed:
  assumes "verify_bytes lib env cache bs fps now = Some (cache', Valid t fp vk)"
    and "\<And>primary. locate_primary lib bs = Inr primary \<Longrightarrow> detect_format bs = FORMAT_TAG_PE \<Longrightarrow>
      \<exists>l. enumerate_signatures lib (cms_of primary) = Inr l"
  shows "\<exists>rest. list_signatures lib bs = \<lparr>sg_index = 0, sg_signed_at = t, sg_key_fp = fp, sg_pubkey = vk\<rparr> # rest"
proof -
  from assms(1) obtain primary ps signer root where v:
    "locate_primary lib bs = Inr primary" "parse_signed_data lib (cms_of primary) = Inr ps"
    "trusted_signer lib ps fps now = Inr (signer, root)" "check_signature lib signer ps = Inr vk"
    "revocation_stage lib env cache ps signer root vk = Some (cache', Valid t fp vk)"
    by (rule verify_bytes_valid)
  from first_blob [OF v(1)] assms(2) v(1) obtain rest where "collect_cms_blobs lib bs = cms_of primary # rest" by blast
  then obtain r where "parse_all lib bs = ps # r" using v(2) by (simp add: parse_all_def List.map_filter_def)
  then show ?thesis
    using verified_signer_info [OF v(3-5), of 0] by (simp add: list_signatures_def List.map_filter_def)
qed

theorem valid_signature_is_listed_witness:
  "\<exists>out rest. list_signatures toy_cms out = \<lparr>sg_index = 0, sg_signed_at = 0, sg_key_fp = toy_sha [3], sg_pubkey = [3]\<rparr> # rest"
proof -
  obtain out where o: "verify_bytes toy_cms toy_env None out [toy_sha [1]] 50 = Some (None, Valid 0 (toy_sha [3]) [3])"
    "detect_format out \<noteq> FORMAT_TAG_PE"
    using toy_raw_valid by blast
  from valid_signature_is_listed [OF o(1)] o(2) show ?thesis by blast
qed

subsection \<open>Snapshots of the revocation list (revocation.rs)\<close>

definition primary_cms :: "cms_lib \<Rightarrow> bytes \<Rightarrow> bytes option" where
  "primary_cms lib bs =
     (if detect_format bs = FORMAT_TAG_PE
      then (case read_certificate_entries bs of
              Inr (first # _) \<Rightarrow>
                if wc_cert_type first \<noteq> WIN_CERT_TYPE_PKCS_SIGNED_DATA then None else Some (wc_certificate first)
            | _ \<Rightarrow> None)
      else (case extract_carrier_v4 lib bs of Inr v \<Rightarrow> Some (cv_cms_der v) | Inl _ \<Rightarrow> None))"

record revocation_meta =
  rm_key_fp :: "str option"
  rm_sig_hash :: "str option"
  rm_content_hash :: "str option"
  rm_publisher :: "str option"

definition ok_digest :: "(codec_error + bytes) option \<Rightarrow> str option option" where
  "ok_digest d = map_option (\<lambda>r. case r of Inr x \<Rightarrow> Some (hex_encode x) | Inl _ \<Rightarrow> None) d"

definition meta_content_hash :: "cms_lib \<Rightarrow> bytes \<Rightarrow> str option option" where
  "meta_content_hash lib bs =
     (if detect_format bs = FORMAT_TAG_PE then ok_digest (authenticode_digest (sha256 lib) bs)
      else (case extract_carrier_v4 lib bs of
              Inr v \<Rightarrow> Some (Some (hex_encode (cv_content_digest v)))
            | Inl _ \<Rightarrow> ok_digest (v4_content_digest (sha256 lib) bs)))"

definition revocation_meta_of :: "cms_lib \<Rightarrow> bytes \<Rightarrow> revocation_meta option" where
  "revocation_meta_of lib bs =
     map_option (\<lambda>ch.
       case primary_cms lib bs of
         None \<Rightarrow> \<lparr>rm_key_fp = None, rm_sig_hash = None, rm_content_hash = ch, rm_publisher = None\<rparr>
       | Some cms \<Rightarrow>
           (case parse_signed_data lib cms of
              Inl _ \<Rightarrow> \<lparr>rm_key_fp = None, rm_sig_hash = None, rm_content_hash = ch, rm_publisher = None\<rparr>
            | Inr ps \<Rightarrow>
                let signer = find (signer_matches lib ps) (ps_certs ps) in
                \<lparr>rm_key_fp =
                   (case signer of
                      Some c \<Rightarrow> (case subject_public_key (base lib) c of
                                   Inr vk \<Rightarrow> Some (hex_encode (sha256 lib vk)) | Inl _ \<Rightarrow> None)
                    | None \<Rightarrow> None),
                 rm_sig_hash = Some (hex_encode (sha256 lib (ps_signature ps))),
                 rm_content_hash = ch,
                 rm_publisher = (case signer of Some c \<Rightarrow> ok_flat (subject_cn (base lib) c) | None \<Rightarrow> None)\<rparr>))
       (meta_content_hash lib bs)"

definition crl_match_meta :: "crl \<Rightarrow> revocation_meta \<Rightarrow> crl_entry option" where
  "crl_match_meta l meta =
     (let hit = (\<lambda>dim v. case v of Some x \<Rightarrow> crl_match l dim x | None \<Rightarrow> None) in
      first_some [hit KeyFp (rm_key_fp meta), hit SigHash (rm_sig_hash meta), hit FileHash (rm_content_hash meta),
        hit Publisher (rm_publisher meta)])"

definition root_pubkey_from_anchored :: "cms_lib \<Rightarrow> bytes \<Rightarrow> bytes list \<Rightarrow> bytes option" where
  "root_pubkey_from_anchored lib bs anchors =
     (case primary_cms lib bs of
        None \<Rightarrow> None
      | Some cms \<Rightarrow>
     (case parse_signed_data lib cms of
        Inl _ \<Rightarrow> None
      | Inr ps \<Rightarrow>
     (case find (signer_matches lib ps) (ps_certs ps) of
        None \<Rightarrow> None
      | Some signer \<Rightarrow>
     (case order_chain_from (base lib) signer (ps_certs ps) of
        None \<Rightarrow> None
      | Some chain \<Rightarrow>
          if sha256_fingerprint (base lib) (last chain) \<notin> set anchors then None
          else (case subject_public_key (base lib) (last chain) of Inr vk \<Rightarrow> Some vk | Inl _ \<Rightarrow> None)))))"

text \<open>
  The check against a local snapshot and the check of the pipeline look for the same entry: for a valid
  file, the metadata of the snapshot check give the entry that the pipeline would find in the same list, the first of
  key, signature, file and publisher.
\<close>

theorem snapshot_check_agrees:
  assumes "verify_bytes lib env cache bs fps now = Some (cache', Valid t fp vk)"
  shows "\<exists>meta ps signer. revocation_meta_of lib bs = Some meta \<and> find (signer_matches lib ps) (ps_certs ps) = Some signer \<and>
    crl_match_meta l meta =
      crl_hit l fp (sha256 lib (ps_signature ps)) (ps_content_digest ps) (ok_flat (subject_cn (base lib) signer))"
proof -
  from assms obtain primary ps signer root where v:
    "locate_primary lib bs = Inr primary" "parse_signed_data lib (cms_of primary) = Inr ps"
    "trusted_signer lib ps fps now = Inr (signer, root)"
    "recomputed_digest lib bs primary = Some (Inr (ps_content_digest ps))"
    "check_signature lib signer ps = Inr vk"
    "revocation_stage lib env cache ps signer root vk = Some (cache', Valid t fp vk)"
    by (rule verify_bytes_valid)
  from v(3) have f: "find (signer_matches lib ps) (ps_certs ps) = Some signer" by (rule trusted_signerE)
  from v(5) have k: "subject_public_key (base lib) signer = Inr vk" by (rule check_signatureE)
  have fp: "fp = sha256 lib vk" using revocation_stage_valid [OF v(6)] by simp
  have p: "primary_cms lib bs = Some (cms_of primary)"
    using v(1) by (auto simp: locate_primary_def primary_cms_def split: if_splits sum.splits list.splits)
  have c: "meta_content_hash lib bs = Some (Some (hex_encode (ps_content_digest ps)))"
    using v(1,4)
    by (auto simp: locate_primary_def meta_content_hash_def recomputed_digest_def ok_digest_def
        split: if_splits sum.splits list.splits) metis
  let ?meta = "\<lparr>rm_key_fp = Some (hex_encode (sha256 lib vk)),
    rm_sig_hash = Some (hex_encode (sha256 lib (ps_signature ps))),
    rm_content_hash = Some (hex_encode (ps_content_digest ps)), rm_publisher = ok_flat (subject_cn (base lib) signer)\<rparr>"
  show ?thesis
    by (intro exI [of _ ?meta] exI [of _ ps] exI [of _ signer])
      (simp add: revocation_meta_of_def p c v(2) f k fp Let_def crl_match_meta_def crl_hit_def)
qed

theorem snapshot_check_agrees_witness:
  "\<exists>out meta. verify_bytes toy_cms toy_env None out [toy_sha [1]] 50 = Some (None, Valid 0 (toy_sha [3]) [3]) \<and>
     revocation_meta_of toy_cms out = Some meta"
proof -
  obtain out where o: "verify_bytes toy_cms toy_env None out [toy_sha [1]] 50 = Some (None, Valid 0 (toy_sha [3]) [3])"
    using toy_raw_valid by blast
  from snapshot_check_agrees [OF o] o show ?thesis by blast
qed

end
