(* ===== verification/Professions.thy ===== *)
theory Professions
  imports Prelude
begin

text \<open>
  The catalogue of professions of the board (nemesis-prompts: professions/meta.rs and the ranks of
  tiers in subagents.rs).  A profession has a slug, a family with an optional specialisation, and the
  lowest tier of a node that may carry it.  The display names, artefacts and contract texts of the
  catalogue are texts for prompts and are left out.
\<close>

subsection \<open>Catalogue\<close>

record profession_meta =
  pm_slug :: str
  pm_family :: str
  pm_spec :: "str option"
  pm_min_tier :: str

definition profession_catalog :: "profession_meta list" where
  "profession_catalog =
     [\<lparr>pm_slug = ''product'', pm_family = ''product'', pm_spec = None, pm_min_tier = ''normal''\<rparr>,
      \<lparr>pm_slug = ''ui-design'', pm_family = ''ui-design'', pm_spec = None, pm_min_tier = ''normal''\<rparr>,
      \<lparr>pm_slug = ''architecture'', pm_family = ''architecture'', pm_spec = None, pm_min_tier = ''big''\<rparr>,
      \<lparr>pm_slug = ''dev'', pm_family = ''dev'', pm_spec = None, pm_min_tier = ''normal''\<rparr>,
      \<lparr>pm_slug = ''dev:cpp'', pm_family = ''dev'', pm_spec = Some ''cpp'', pm_min_tier = ''big''\<rparr>,
      \<lparr>pm_slug = ''test-whitebox'', pm_family = ''test-whitebox'', pm_spec = None, pm_min_tier = ''normal''\<rparr>,
      \<lparr>pm_slug = ''test-blackbox'', pm_family = ''test-blackbox'', pm_spec = None, pm_min_tier = ''normal''\<rparr>]"

subsection \<open>Slugs\<close>

datatype slug_error = SlugEmpty | SlugTooLong | SlugMalformed

definition is_ascii_lowercase :: "char \<Rightarrow> bool" where
  "is_ascii_lowercase c \<longleftrightarrow> 97 \<le> (of_char c :: nat) \<and> (of_char c :: nat) \<le> 122"

definition valid_segment :: "str \<Rightarrow> bool" where
  "valid_segment s \<longleftrightarrow>
     s \<noteq> [] \<and> list_all (\<lambda>b. is_ascii_lowercase b \<or> is_ascii_digit b \<or> b = CHR ''_'' \<or> b = CHR ''-'') s"

definition validate_slug :: "str \<Rightarrow> slug_error + unit" where
  "validate_slug slug =
     (if slug = [] then Inl SlugEmpty
      else if length slug > 64 then Inl SlugTooLong
      else (case split_once CHR '':'' slug of
              None \<Rightarrow> if valid_segment slug then Inr () else Inl SlugMalformed
            | Some (family, spec) \<Rightarrow>
                if valid_segment family \<and> valid_segment spec then Inr () else Inl SlugMalformed))"

definition split_slug :: "str \<Rightarrow> (str \<times> str option) option" where
  "split_slug slug =
     (case validate_slug slug of
        Inl _ \<Rightarrow> None
      | Inr _ \<Rightarrow> (case split_once CHR '':'' slug of
                  Some (f, s) \<Rightarrow> Some (f, Some s)
                | None \<Rightarrow> Some (slug, None)))"

definition normalize_slug :: "str \<Rightarrow> str" where
  "normalize_slug slug = to_lowercase (trim slug)"

definition find_builtin :: "str \<Rightarrow> profession_meta option" where
  "find_builtin slug = find (\<lambda>m. pm_slug m = normalize_slug slug) profession_catalog"

subsection \<open>Tiers\<close>

definition tier_rank :: "str \<Rightarrow> nat" where
  "tier_rank tier =
     (if tier = ''mini'' then 0 else if tier = ''normal'' then 1 else if tier = ''big'' then 2 else 0)"

definition tier_allows :: "str option \<Rightarrow> str \<Rightarrow> bool" where
  "tier_allows node_tier min_tier =
     (case node_tier of
        None \<Rightarrow> True
      | Some node \<Rightarrow> tier_rank (to_lowercase (trim node)) \<ge> tier_rank min_tier)"

definition min_tier_for_set :: "str list \<Rightarrow> str option" where
  "min_tier_for_set slugs =
     (let ranks = map (\<lambda>m. tier_rank (pm_min_tier m)) (List.map_filter find_builtin slugs)
      in if ranks = [] then None
         else Some (let r = Max (set ranks) in
                    if r = 0 then ''mini'' else if r = 1 then ''normal'' else ''big''))"

subsection \<open>What the tables promise\<close>

lemma tier_rank_le: "tier_rank t \<le> 2"
  by (simp add: tier_rank_def)

lemma set_map_filter: "set (List.map_filter f xs) = {y. \<exists>x \<in> set xs. f x = Some y}"
  by (induction xs) (auto simp: List.map_filter_simps split: option.splits)

lemma rank_of_min_tier:
  assumes "min_tier_for_set slugs = Some t"
  shows "tier_rank (to_lowercase (trim t)) =
         Max (set (map (\<lambda>m. tier_rank (pm_min_tier m)) (List.map_filter find_builtin slugs)))"
proof -
  let ?R = "set (map (\<lambda>m. tier_rank (pm_min_tier m)) (List.map_filter find_builtin slugs))"
  from assms have ne: "?R \<noteq> {}" and t: "t = (if Max ?R = 0 then ''mini'' else if Max ?R = 1 then ''normal'' else ''big'')"
    by (auto simp: min_tier_for_set_def Let_def split: if_splits)
  have "Max ?R \<in> ?R" using ne by (intro Max_in) auto
  then have "Max ?R \<le> 2" using tier_rank_le by auto
  moreover have "tier_rank (to_lowercase (trim ''mini'')) = 0" "tier_rank (to_lowercase (trim ''normal'')) = 1"
    "tier_rank (to_lowercase (trim ''big'')) = 2"
    by (simp_all add: tier_rank_def trim_def trim_start_def trim_end_def is_whitespace_def to_lowercase_def
        to_lower_char_def of_char_def)
  ultimately show ?thesis unfolding t by (auto simp: le_Suc_eq numeral_2_eq_2)
qed

text \<open>
  The tier inferred for a set of professions is the least one that satisfies all of them: a node
  of that tier may carry every built-in profession of the set, and any node that may carry them all
  has at least this rank.
\<close>
theorem inferred_tier_least:
  assumes "min_tier_for_set slugs = Some t"
  shows "(\<forall>s m. s \<in> set slugs \<and> find_builtin s = Some m \<longrightarrow> tier_allows (Some t) (pm_min_tier m)) \<and>
         (\<forall>u. (\<forall>s m. s \<in> set slugs \<and> find_builtin s = Some m \<longrightarrow> tier_allows (Some u) (pm_min_tier m)) \<longrightarrow>
              tier_rank (to_lowercase (trim t)) \<le> tier_rank (to_lowercase (trim u)))"
proof -
  let ?R = "set (map (\<lambda>m. tier_rank (pm_min_tier m)) (List.map_filter find_builtin slugs))"
  have ne: "?R \<noteq> {}" using assms by (auto simp: min_tier_for_set_def Let_def split: if_splits)
  have mem: "r \<in> ?R \<longleftrightarrow> (\<exists>m s. r = tier_rank (pm_min_tier m) \<and> s \<in> set slugs \<and> find_builtin s = Some m)" for r
    by (auto simp: set_map_filter)
  have rk: "tier_rank (to_lowercase (trim t)) = Max ?R" using assms by (rule rank_of_min_tier)
  have le: "r \<le> Max ?R" if "r \<in> ?R" for r using that by (intro Max_ge) auto
  have "Max ?R \<in> ?R" using ne by (intro Max_in) auto
  then obtain m s where "Max ?R = tier_rank (pm_min_tier m)" "s \<in> set slugs" "find_builtin s = Some m"
    unfolding mem by blast
  moreover have "tier_allows (Some t) (pm_min_tier m)" if "s \<in> set slugs" "find_builtin s = Some m" for s m
    using le [of "tier_rank (pm_min_tier m)"] that unfolding mem tier_allows_def by (auto simp: rk)
  ultimately show ?thesis by (auto simp: tier_allows_def rk)
qed

lemma validate_slug_Inr:
  "validate_slug slug = Inr () \<Longrightarrow> slug \<noteq> [] \<and> length slug \<le> 64"
  by (auto simp: validate_slug_def split: if_splits)

lemma split_slug_joins:
  "split_slug slug = Some (f, sp) \<Longrightarrow>
   slug = f @ (case sp of None \<Rightarrow> [] | Some s \<Rightarrow> CHR '':'' # s) \<and> valid_segment f \<and>
   (case sp of None \<Rightarrow> True | Some s \<Rightarrow> valid_segment s)"
  by (auto simp: split_slug_def validate_slug_def split: option.splits sum.splits prod.splits if_splits
      dest!: split_once_Some)

end
