(* ===== verification/BoardPlan.thy ===== *)
theory BoardPlan
  imports Professions "HOL-Library.List_Lexorder" "HOL-Library.Char_ord"
begin

text \<open>
  The planner of the board (nemesis-board: planner.rs): reading the plan that a language model wrote,
  with every check on it, the depth-first search for cyclic dependencies and the analysis of
  files that two parallel subtasks would both write.  The JSON decoder is a parameter; prompts
  are not modelled.
\<close>

subsection \<open>Data\<close>

record planned_sub_issue =
  sub_title :: str
  sub_description :: str
  sub_role :: str
  sub_tags :: "str list"
  sub_profession :: str
  sub_capabilities :: "str list"
  sub_acceptance :: str
  depends_on :: "nat list"

datatype plan_error =
    NoJsonArray
  | PlanJsonError str
  | EmptyPlan
  | TooManySubtasks nat
  | EmptyTitle nat
  | BadProfession nat str slug_error
  | BadCapability nat str
  | DependencyOutOfRange nat nat nat
  | SelfDependency nat nat
  | CyclicDependency "nat list"
  | SharedTouch "(nat \<times> nat \<times> str) list"
  | IndexPanic nat

definition MAX_SUBISSUES :: nat where "MAX_SUBISSUES = 20"

subsection \<open>Single subtasks\<close>

definition extract_json_array :: "str \<Rightarrow> str option" where
  "extract_json_array raw =
     (case (find_char CHR ''['' raw, rfind_char CHR '']'' raw) of
        (Some start, Some stop) \<Rightarrow>
          if stop < start then None else Some (take (Suc stop - start) (drop start raw))
      | _ \<Rightarrow> None)"

definition profession_format_error :: "nat \<Rightarrow> str \<Rightarrow> plan_error option" where
  "profession_format_error index raw =
     (let trimmed = trim raw in
      if trimmed = [] then None
      else (case validate_slug trimmed of Inl e \<Rightarrow> Some (BadProfession index trimmed e) | Inr _ \<Rightarrow> None))"

definition bad_capability :: "str \<Rightarrow> bool" where
  "bad_capability cap \<longleftrightarrow>
     trim cap = [] \<or> list_ex is_whitespace (trim cap) \<or> length (trim cap) > 64"

definition capabilities_format_error :: "nat \<Rightarrow> str list \<Rightarrow> plan_error option" where
  "capabilities_format_error index caps = map_option (BadCapability index) (find bad_capability caps)"

fun check_deps :: "nat \<Rightarrow> nat \<Rightarrow> nat list \<Rightarrow> plan_error option" where
  "check_deps n i [] = None"
| "check_deps n i (dep # deps) =
     (if dep \<ge> n then Some (DependencyOutOfRange i dep n)
      else if dep = i then Some (SelfDependency i dep)
      else check_deps n i deps)"

definition check_sub :: "nat \<Rightarrow> nat \<Rightarrow> planned_sub_issue \<Rightarrow> plan_error option" where
  "check_sub n i sub =
     (if trim (sub_title sub) = [] then Some (EmptyTitle i)
      else (case profession_format_error i (sub_profession sub) of
              Some e \<Rightarrow> Some e
            | None \<Rightarrow> (case capabilities_format_error i (sub_capabilities sub) of
                         Some e \<Rightarrow> Some e
                       | None \<Rightarrow> check_deps n i (depends_on sub))))"

fun check_subs :: "nat \<Rightarrow> nat \<Rightarrow> planned_sub_issue list \<Rightarrow> plan_error option" where
  "check_subs n i [] = None"
| "check_subs n i (sub # subs) =
     (case check_sub n i sub of Some e \<Rightarrow> Some e | None \<Rightarrow> check_subs n (Suc i) subs)"

subsection \<open>Cyclic dependencies\<close>

text \<open>
  Colours: 0 not visited, 1 on the stack, 2 finished.  An index outside the plan panics in the
  sources; it is the error \<^verbatim>\<open>IndexPanic\<close> here.
\<close>

type_synonym dfs_state = "nat list \<times> nat list"

fun stack_position :: "nat list \<Rightarrow> nat \<Rightarrow> nat" where
  "stack_position [] i = 0"
| "stack_position (s # ss) i = (if s = i then 0 else (if i \<in> set ss then Suc (stack_position ss i) else 0))"

function visit :: "planned_sub_issue list \<Rightarrow> nat \<Rightarrow> dfs_state \<Rightarrow> plan_error + dfs_state"
  and visit_deps :: "planned_sub_issue list \<Rightarrow> nat list \<Rightarrow> dfs_state \<Rightarrow> plan_error + dfs_state" where
  "visit plan i (color, stack) =
     (if i \<ge> length color \<or> i \<ge> length plan then Inl (IndexPanic i)
      else if color ! i = 2 then Inr (color, stack)
      else if color ! i = 1
      then Inl (CyclicDependency (drop (stack_position stack i) stack @ [i]))
      else and_then (visit_deps plan (depends_on (plan ! i)) (color[i := 1], stack @ [i]))
             (\<lambda>(c, s). Inr (c[i := 2], butlast s)))"
| "visit_deps plan [] st = Inr st"
| "visit_deps plan (dep # deps) st = and_then (visit plan dep st) (\<lambda>st'. visit_deps plan deps st')"
  by pat_completeness auto

definition unvisited :: "nat list \<Rightarrow> nat" where
  "unvisited color = length (filter (\<lambda>c. c \<noteq> 1 \<and> c \<noteq> 2) color)"

lemma unvisited_update:
  assumes "i < length color" "c = 1 \<or> c = 2"
  shows "unvisited (color[i := c]) \<le> unvisited color"
    and "color ! i \<noteq> 1 \<Longrightarrow> color ! i \<noteq> 2 \<Longrightarrow> unvisited (color[i := c]) < unvisited color"
proof -
  let ?P = "\<lambda>c :: nat. c \<noteq> 1 \<and> c \<noteq> 2"
  have 1: "color[i := c] = take i color @ c # drop (Suc i) color" using assms by (simp add: upd_conv_take_nth_drop)
  have 2: "color = take i color @ color ! i # drop (Suc i) color" using assms by (simp add: id_take_nth_drop)
  have 3: "unvisited (color[i := c]) = length (filter ?P (take i color)) + length (filter ?P (drop (Suc i) color))"
    unfolding 1 unvisited_def using assms(2) by auto
  have 4: "unvisited color = length (filter ?P (take i color)) + (if ?P (color ! i) then 1 else 0) +
      length (filter ?P (drop (Suc i) color))"
    unfolding unvisited_def by (subst (1) 2) (simp del: append_take_drop_id)
  show "unvisited (color[i := c]) \<le> unvisited color" using 3 4 by simp
  show "color ! i \<noteq> 1 \<Longrightarrow> color ! i \<noteq> 2 \<Longrightarrow> unvisited (color[i := c]) < unvisited color" using 3 4 by simp
qed

lemma visit_shrinks:
  "visit_visit_deps_dom (Inl (plan, i, st)) \<Longrightarrow>
     (\<forall>c s. visit plan i st = Inr (c, s) \<longrightarrow> length c = length (fst st) \<and> unvisited c \<le> unvisited (fst st))"
  "visit_visit_deps_dom (Inr (plan, deps, st)) \<Longrightarrow>
     (\<forall>c s. visit_deps plan deps st = Inr (c, s) \<longrightarrow> length c = length (fst st) \<and> unvisited c \<le> unvisited (fst st))"
proof (induction rule: visit_visit_deps.pinduct)
  case (1 plan i color stack)
  show ?case
  proof (cases "i \<ge> length color \<or> i \<ge> length plan \<or> color ! i = 2 \<or> color ! i = 1")
    case True then show ?thesis using 1(1) by (auto simp: visit.psimps)
  next
    case False
    have "unvisited (c[i := 2]) \<le> unvisited color"
      if "length c = length color" "unvisited c \<le> unvisited (color[i := 1])" for c
      using unvisited_update(1) [of i c 2] unvisited_update(1) [of i color 1] that False by simp
    with False 1 show ?thesis by (fastforce simp: visit.psimps and_then_eq_Inr)
  qed
next
  case (2 plan st)
  then show ?case by (simp add: visit_deps.psimps)
next
  case (3 plan dep deps st)
  then show ?case by (fastforce simp: visit_deps.psimps and_then_eq_Inr)
qed

termination visit
proof (relation "measures
    [\<lambda>x. case x of Inl (plan, i, st) \<Rightarrow> unvisited (fst st) | Inr (plan, deps, st) \<Rightarrow> unvisited (fst st),
     \<lambda>x. case x of Inl (plan, i, st) \<Rightarrow> 0 | Inr (plan, deps, st) \<Rightarrow> Suc (length deps)]", goal_cases)
  case 1 show ?case by simp
next
  case (2 plan i color stack)
  then show ?case using unvisited_update(2) [of i color 1] by simp
next
  case (3 plan dep deps st)
  then show ?case by simp
next
  case (4 plan dep deps st st')
  obtain c s where st': "st' = (c, s)" by (cases st')
  then have "unvisited c \<le> unvisited (fst st)" using visit_shrinks(1) [OF 4(2)] 4(1) by auto
  then show ?case by (simp add: st' le_imp_less_or_eq)
qed

declare visit.simps [simp del] visit_deps.simps [simp del]

definition detect_cycle_loop :: "planned_sub_issue list \<Rightarrow> plan_error + dfs_state" where
  "detect_cycle_loop plan = visit_deps plan [0..<length plan] (replicate (length plan) 0, [])"

definition detect_cycle :: "planned_sub_issue list \<Rightarrow> plan_error + unit" where
  "detect_cycle plan = and_then (detect_cycle_loop plan) (\<lambda>_. Inr ())"

subsection \<open>Files written by two subtasks\<close>

fun touch_lines :: "str list \<Rightarrow> str list \<Rightarrow> str list" where
  "touch_lines out [] = out"
| "touch_lines out (line # ls) =
     touch_lines (case strip_prefix ''[TOUCH]'' (trim line) of
                    Some p \<Rightarrow> (let p = trim p in if p \<noteq> [] \<and> p \<notin> set out then out @ [p] else out)
                  | None \<Rightarrow> out) ls"

definition parse_touch_paths :: "str \<Rightarrow> str list" where
  "parse_touch_paths acceptance_criteria = touch_lines [] (str_lines acceptance_criteria)"

definition has_edge :: "planned_sub_issue list \<Rightarrow> nat \<Rightarrow> nat \<Rightarrow> bool" where
  "has_edge plan a b \<longleftrightarrow> b \<in> set (depends_on (plan ! a)) \<or> a \<in> set (depends_on (plan ! b))"

definition touch_owners :: "planned_sub_issue list \<Rightarrow> (str \<times> nat list) list" where
  "touch_owners plan =
     map (\<lambda>p. (p, filter (\<lambda>i. p \<in> set (parse_touch_paths (sub_acceptance (plan ! i)))) [0..<length plan]))
         (sort (remdups (concat (map (\<lambda>sub. parse_touch_paths (sub_acceptance sub)) plan))))"

fun touch_pairs :: "planned_sub_issue list \<Rightarrow> str \<Rightarrow> nat list \<Rightarrow> (nat \<times> nat \<times> str) list" where
  "touch_pairs plan path [] = []"
| "touch_pairs plan path (a # subs) =
     map (\<lambda>b. (a, b, path)) (filter (\<lambda>b. \<not> has_edge plan a b) subs) @ touch_pairs plan path subs"

definition touch_violations :: "planned_sub_issue list \<Rightarrow> (nat \<times> nat \<times> str) list" where
  "touch_violations plan =
     concat (map (\<lambda>(path, subs). if length subs < 2 then [] else touch_pairs plan path subs) (touch_owners plan))"

definition analyze_shared_touch :: "planned_sub_issue list \<Rightarrow> plan_error + unit" where
  "analyze_shared_touch plan =
     (if touch_violations plan = [] then Inr () else Inl (SharedTouch (touch_violations plan)))"

subsection \<open>Reading a plan\<close>

type_synonym plan_decoder = "str \<Rightarrow> str + planned_sub_issue list"

definition decode_plan :: "plan_decoder \<Rightarrow> str \<Rightarrow> plan_error + planned_sub_issue list" where
  "decode_plan from_json raw =
     (case extract_json_array raw of
        None \<Rightarrow> Inl NoJsonArray
      | Some json_text \<Rightarrow>
          (case from_json json_text of
             Inl e \<Rightarrow> Inl (PlanJsonError e)
           | Inr plan \<Rightarrow> if plan = [] then Inl EmptyPlan
                         else if length plan > MAX_SUBISSUES then Inl (TooManySubtasks (length plan))
                         else Inr plan))"

definition parse_plan :: "plan_decoder \<Rightarrow> str \<Rightarrow> plan_error + planned_sub_issue list" where
  "parse_plan from_json raw =
     and_then (decode_plan from_json raw) (\<lambda>plan.
     case check_subs (length plan) 0 plan of
       Some e \<Rightarrow> Inl e
     | None \<Rightarrow> and_then (detect_cycle plan) (\<lambda>_. and_then (analyze_shared_touch plan) (\<lambda>_. Inr plan)))"

record lenient_plan =
  lp_plan :: "planned_sub_issue list"
  downgraded :: "(nat \<times> str) list"

text \<open>
  One pass of the lenient loop over a subtask: the title is checked, an ill-formed profession is
  emptied and noted, ill-formed capabilities are dropped, then the dependencies are checked.
\<close>

fun lenient_subs :: "nat \<Rightarrow> nat \<Rightarrow> planned_sub_issue list \<Rightarrow> plan_error + planned_sub_issue list \<times> (nat \<times> str) list" where
  "lenient_subs n i [] = Inr ([], [])"
| "lenient_subs n i (sub # subs) =
     (if trim (sub_title sub) = [] then Inl (EmptyTitle i)
      else let bad = profession_format_error i (sub_profession sub) \<noteq> None;
               sub1 = (if bad then sub\<lparr>sub_profession := []\<rparr> else sub);
               sub2 = sub1\<lparr>sub_capabilities := filter (\<lambda>cap. \<not> bad_capability cap) (sub_capabilities sub1)\<rparr> in
           case check_deps n i (depends_on sub2) of
             Some e \<Rightarrow> Inl e
           | None \<Rightarrow> and_then (lenient_subs n (Suc i) subs) (\<lambda>(rest, down).
               Inr (sub2 # rest, (if bad then [(i, sub_profession sub)] else []) @ down)))"

definition parse_plan_lenient :: "plan_decoder \<Rightarrow> str \<Rightarrow> plan_error + lenient_plan" where
  "parse_plan_lenient from_json raw =
     and_then (decode_plan from_json raw) (\<lambda>plan.
     and_then (lenient_subs (length plan) 0 plan) (\<lambda>(plan', down).
     and_then (detect_cycle plan') (\<lambda>_.
     and_then (analyze_shared_touch plan') (\<lambda>_. Inr \<lparr>lp_plan = plan', downgraded = down\<rparr>))))"

subsection \<open>The search finds a cycle exactly when there is one\<close>

definition dep_rel :: "planned_sub_issue list \<Rightarrow> (nat \<times> nat) set" where
  "dep_rel plan = {(i, d). i < length plan \<and> d \<in> set (depends_on (plan ! i))}"

definition deps_in_range :: "planned_sub_issue list \<Rightarrow> bool" where
  "deps_in_range plan \<longleftrightarrow> (\<forall>i < length plan. \<forall>d \<in> set (depends_on (plan ! i)). d < length plan)"

abbreviation dep_walk :: "planned_sub_issue list \<Rightarrow> nat list \<Rightarrow> bool" where
  "dep_walk plan \<equiv> successively (\<lambda>a b. (a, b) \<in> dep_rel plan)"

text \<open>A closed walk along the dependencies.\<close>

definition closed_walk :: "planned_sub_issue list \<Rightarrow> nat list \<Rightarrow> bool" where
  "closed_walk plan ms \<longleftrightarrow> length ms \<ge> 2 \<and> hd ms = last ms \<and> dep_walk plan ms"

lemma dep_walk_trancl: "dep_walk plan (x # xs @ [y]) \<Longrightarrow> (x, y) \<in> (dep_rel plan)\<^sup>+"
proof (induction xs arbitrary: x)
  case (Cons z zs)
  then have "(x, z) \<in> dep_rel plan" "(z, y) \<in> (dep_rel plan)\<^sup>+" by auto
  then show ?case by (rule trancl_into_trancl2)
qed auto

lemma closed_walk_cyclic:
  assumes "closed_walk plan ms" shows "\<not> acyclic (dep_rel plan)"
proof -
  obtain x ys where ms: "ms = x # ys" using assms by (cases ms) (simp_all add: closed_walk_def)
  moreover from this have "ys \<noteq> []" using assms by (auto simp: closed_walk_def)
  ultimately have "ms = x # butlast ys @ [x]" using assms by (simp add: closed_walk_def)
  then have "(x, x) \<in> (dep_rel plan)\<^sup>+" using assms dep_walk_trancl by (metis closed_walk_def)
  then show ?thesis by (auto simp: acyclic_def)
qed

text \<open>The invariant of the search.\<close>

definition dfs_ok :: "planned_sub_issue list \<Rightarrow> dfs_state \<Rightarrow> bool" where
  "dfs_ok plan st \<longleftrightarrow>
     length (fst st) = length plan \<and>
     (\<forall>i < length plan. fst st ! i \<in> {0, 1, 2}) \<and>
     (\<forall>i < length plan. fst st ! i = 1 \<longleftrightarrow> i \<in> set (snd st)) \<and>
     (\<forall>i < length plan. fst st ! i = 2 \<longrightarrow>
        (\<forall>d \<in> set (depends_on (plan ! i)). fst st ! d = 2) \<and> (i, i) \<notin> (dep_rel plan)\<^sup>+) \<and>
     dep_walk plan (snd st)"

lemma dfs_okD:
  assumes "dfs_ok plan (c, s)"
  shows "length c = length plan"
    and "i < length plan \<Longrightarrow> c ! i = 0 \<or> c ! i = 1 \<or> c ! i = 2"
    and "i < length plan \<Longrightarrow> c ! i = 1 \<longleftrightarrow> i \<in> set s"
    and "i < length plan \<Longrightarrow> c ! i = 2 \<Longrightarrow> d \<in> set (depends_on (plan ! i)) \<Longrightarrow> c ! d = 2"
    and "i < length plan \<Longrightarrow> c ! i = 2 \<Longrightarrow> (i, i) \<notin> (dep_rel plan)\<^sup>+"
    and "dep_walk plan s"
  using assms unfolding dfs_ok_def fst_conv snd_conv by blast+

lemma dfs_okI:
  assumes "length c = length plan"
    and "\<And>i. i < length plan \<Longrightarrow> c ! i = 0 \<or> c ! i = 1 \<or> c ! i = 2"
    and "\<And>i. i < length plan \<Longrightarrow> c ! i = 1 \<longleftrightarrow> i \<in> set s"
    and "\<And>i d. i < length plan \<Longrightarrow> c ! i = 2 \<Longrightarrow> d \<in> set (depends_on (plan ! i)) \<Longrightarrow> c ! d = 2"
    and "\<And>i. i < length plan \<Longrightarrow> c ! i = 2 \<Longrightarrow> (i, i) \<notin> (dep_rel plan)\<^sup>+"
    and "dep_walk plan s"
  shows "dfs_ok plan (c, s)"
  using assms unfolding dfs_ok_def fst_conv snd_conv by blast

abbreviation entered_from :: "planned_sub_issue list \<Rightarrow> dfs_state \<Rightarrow> nat \<Rightarrow> bool" where
  "entered_from plan st i \<equiv> i < length plan \<and> (snd st = [] \<or> (last (snd st), i) \<in> dep_rel plan)"

abbreviation keeps_finished :: "planned_sub_issue list \<Rightarrow> dfs_state \<Rightarrow> dfs_state \<Rightarrow> bool" where
  "keeps_finished plan st st' \<equiv> (\<forall>j < length plan. fst st ! j = 2 \<longrightarrow> fst st' ! j = 2)"

lemma finished_closed:
  assumes "dfs_ok plan st" "deps_in_range plan" "(d, i) \<in> (dep_rel plan)\<^sup>*" "d < length plan" "fst st ! d = 2"
  shows "i < length plan \<and> fst st ! i = 2"
  using assms(3)
proof (induction rule: rtrancl_induct)
  case base then show ?case using assms by simp
next
  case (step y z)
  obtain c s where st: "st = (c, s)" by (cases st)
  have z: "y < length plan" "z \<in> set (depends_on (plan ! y))" using step(2) by (auto simp: dep_rel_def)
  then have "z < length plan" using assms(2) by (auto simp: deps_in_range_def)
  then show ?case using dfs_okD(4) [of plan c s y z] assms(1) z step(3) by (simp add: st)
qed

lemma dfs_ok_enter:
  assumes "dfs_ok plan (color, stack)" "entered_from plan (color, stack) i" "color ! i = 0"
  shows "dfs_ok plan (color[i := 1], stack @ [i])"
proof (rule dfs_okI)
  note D = dfs_okD [OF assms(1)]
  have upd: "color[i := 1] ! j = (if j = i then 1 else color ! j)" for j
    using assms(2) D(1) by (simp add: nth_list_update)
  fix j assume j: "j < length plan"
  show "color[i := 1] ! j = 0 \<or> color[i := 1] ! j = 1 \<or> color[i := 1] ! j = 2" using D(2) [OF j] by (simp add: upd del: One_nat_def)
  show "color[i := 1] ! j = 1 \<longleftrightarrow> j \<in> set (stack @ [i])" using D(3) [OF j] by (simp add: upd del: One_nat_def)
  assume b: "color[i := 1] ! j = 2"
  then have b': "color ! j = 2" by (simp add: upd del: One_nat_def split: if_splits)
  then show "(j, j) \<notin> (dep_rel plan)\<^sup>+" by (rule D(5) [OF j])
  fix d assume "d \<in> set (depends_on (plan ! j))"
  then have "color ! d = 2" by (rule D(4) [OF j b'])
  then show "color[i := 1] ! d = 2" using assms(3) by (auto simp: upd simp del: One_nat_def)
next
  show "length (color[i := 1]) = length plan" using dfs_okD(1) [OF assms(1)] by simp
  show "dep_walk plan (stack @ [i])" using dfs_okD(6) [OF assms(1)] assms(2) by (auto simp: successively_append_iff)
qed

lemma dfs_ok_leave:
  assumes "dfs_ok plan (c, stack @ [i])" "deps_in_range plan" "i < length plan" "i \<notin> set stack"
    "\<forall>d \<in> set (depends_on (plan ! i)). c ! d = 2"
  shows "dfs_ok plan (c[i := 2], stack)"
proof (rule dfs_okI)
  note D = dfs_okD [OF assms(1)]
  have upd: "c[i := 2] ! j = (if j = i then 2 else c ! j)" for j
    using assms(3) D(1) by (simp add: nth_list_update)
  have acyc: "(i, i) \<notin> (dep_rel plan)\<^sup>+"
  proof
    assume "(i, i) \<in> (dep_rel plan)\<^sup>+"
    then obtain d where d: "(i, d) \<in> dep_rel plan" "(d, i) \<in> (dep_rel plan)\<^sup>*" by (meson tranclD)
    then have "d < length plan" "c ! d = 2" using assms(2,3,5) by (auto simp: dep_rel_def deps_in_range_def)
    then have "c ! i = 2" using finished_closed [OF assms(1,2) d(2)] by simp
    then show False using D(3) [OF assms(3)] by simp
  qed
  fix j assume j: "j < length plan"
  show "c[i := 2] ! j = 0 \<or> c[i := 2] ! j = 1 \<or> c[i := 2] ! j = 2" using D(2) [OF j] by (simp add: upd del: One_nat_def)
  show "c[i := 2] ! j = 1 \<longleftrightarrow> j \<in> set stack" using D(3) [OF j] assms(4) by (auto simp: upd simp del: One_nat_def)
  assume b: "c[i := 2] ! j = 2"
  show "(j, j) \<notin> (dep_rel plan)\<^sup>+" using acyc D(5) [OF j] b by (cases "j = i") (simp_all add: upd del: One_nat_def)
  fix d assume "d \<in> set (depends_on (plan ! j))"
  then have "c ! d = 2" using D(4) [OF j, of d] assms(5) b by (cases "j = i") (simp_all add: upd del: One_nat_def)
  then show "c[i := 2] ! d = 2" by (simp add: upd del: One_nat_def)
next
  show "length (c[i := 2]) = length plan" using dfs_okD(1) [OF assms(1)] by simp
  show "dep_walk plan stack" using dfs_okD(6) [OF assms(1)] by (simp add: successively_append_iff)
qed

lemma stack_position_split:
  "i \<in> set stack \<Longrightarrow> \<exists>p q. stack = p @ i # q \<and> stack_position stack i = length p"
proof (induction stack)
  case (Cons s ss)
  show ?case
  proof (cases "s = i")
    case True then show ?thesis by (intro exI [of _ "[]"] exI [of _ ss]) simp
  next
    case False
    with Cons obtain p q where "ss = p @ i # q" "stack_position ss i = length p" by auto
    with False show ?thesis by (intro exI [of _ "s # p"] exI [of _ q]) simp
  qed
qed simp

lemma reported_cycle:
  assumes "dep_walk plan stack" "i \<in> set stack" "(last stack, i) \<in> dep_rel plan"
  shows "closed_walk plan (drop (stack_position stack i) stack @ [i])"
proof -
  obtain p q where s: "stack = p @ i # q" "stack_position stack i = length p"
    using stack_position_split [OF assms(2)] by blast
  have "dep_walk plan ((i # q) @ [i])"
    unfolding successively_append_iff using assms s(1) by (auto simp: successively_append_iff)
  then show ?thesis using s by (simp add: closed_walk_def)
qed

lemma visit_correct:
  assumes "deps_in_range plan"
  shows "dfs_ok plan st \<Longrightarrow> entered_from plan st i \<Longrightarrow>
           (case visit plan i st of
              Inr st' \<Rightarrow> dfs_ok plan st' \<and> snd st' = snd st \<and> fst st' ! i = 2 \<and> keeps_finished plan st st'
            | Inl e \<Rightarrow> \<exists>ms. e = CyclicDependency ms \<and> closed_walk plan ms)"
    and "dfs_ok plan st \<Longrightarrow> (\<forall>d \<in> set deps. entered_from plan st d) \<Longrightarrow>
           (case visit_deps plan deps st of
              Inr st' \<Rightarrow> dfs_ok plan st' \<and> snd st' = snd st \<and> (\<forall>d \<in> set deps. fst st' ! d = 2) \<and>
                         keeps_finished plan st st'
            | Inl e \<Rightarrow> \<exists>ms. e = CyclicDependency ms \<and> closed_walk plan ms)"
  using assms
proof (induction plan i st and plan deps st rule: visit_visit_deps.induct)
  case (1 plan i color stack)
  have len: "length color = length plan" and i: "i < length plan" using dfs_okD(1) [OF 1(2)] 1(3) by simp_all
  consider (finished) "color ! i = 2" | (open_node) "color ! i = 1" | (fresh) "color ! i = 0" using dfs_okD(2) [OF 1(2) i] by metis
  then show ?case
  proof cases
    case finished then show ?thesis using 1 len i by (simp add: visit.simps)
  next
    case open_node
    then have "i \<in> set stack" "dep_walk plan stack" using dfs_okD(3,6) [OF 1(2)] i by auto
    moreover from this have "(last stack, i) \<in> dep_rel plan" using 1(3) by auto
    ultimately show ?thesis using open_node len i reported_cycle [of plan stack i] by (simp add: visit.simps)
  next
    case fresh
    let ?st = "(color[i := 1], stack @ [i])"
    have ok: "dfs_ok plan ?st" using dfs_ok_enter [OF 1(2,3) fresh] .
    have notin: "i \<notin> set stack" using dfs_okD(3) [OF 1(2) i] fresh by simp
    have ent: "\<forall>d \<in> set (depends_on (plan ! i)). entered_from plan ?st d"
      using 1(4) i by (auto simp: deps_in_range_def dep_rel_def)
    have IH: "case visit_deps plan (depends_on (plan ! i)) ?st of
        Inr st' \<Rightarrow> dfs_ok plan st' \<and> snd st' = snd ?st \<and> (\<forall>d \<in> set (depends_on (plan ! i)). fst st' ! d = 2) \<and>
                   keeps_finished plan ?st st'
      | Inl e \<Rightarrow> \<exists>ms. e = CyclicDependency ms \<and> closed_walk plan ms"
      using 1(1) [OF _ _ _ ok ent 1(4)] fresh len i by simp
    show ?thesis
    proof (cases "visit_deps plan (depends_on (plan ! i)) ?st")
      case (Inl e) then show ?thesis using IH fresh len i by (simp add: visit.simps)
    next
      case (Inr st')
      then obtain c where c: "visit_deps plan (depends_on (plan ! i)) ?st = Inr (c, stack @ [i])"
        "dfs_ok plan (c, stack @ [i])" "\<forall>d \<in> set (depends_on (plan ! i)). c ! d = 2" "keeps_finished plan ?st (c, stack @ [i])"
        using IH by (cases st') auto
      then have "dfs_ok plan (c[i := 2], stack)" using dfs_ok_leave [OF c(2) 1(4) i notin] by blast
      moreover have "length c = length plan" using dfs_okD(1) [OF c(2)] .
      ultimately show ?thesis using c fresh len i by (auto simp: visit.simps nth_list_update)
    qed
  qed
next
  case (2 plan st)
  then show ?case by (simp add: visit_deps.simps)
next
  case (3 plan dep deps st)
  show ?case
  proof (cases "visit plan dep st")
    case (Inl e) then show ?thesis using 3 by (simp add: visit_deps.simps)
  next
    case (Inr st1)
    have st1: "dfs_ok plan st1" "snd st1 = snd st" "fst st1 ! dep = 2" "keeps_finished plan st st1"
      using 3(1,3,4,5) Inr by auto
    have "case visit_deps plan deps st1 of
        Inr st' \<Rightarrow> dfs_ok plan st' \<and> snd st' = snd st1 \<and> (\<forall>d \<in> set deps. fst st' ! d = 2) \<and> keeps_finished plan st1 st'
      | Inl e \<Rightarrow> \<exists>ms. e = CyclicDependency ms \<and> closed_walk plan ms"
      using 3(2) [OF Inr st1(1) _ 3(5)] 3(4) st1(2) by simp
    then show ?thesis using Inr st1 3(4) by (auto simp: visit_deps.simps split: sum.splits)
  qed
qed

lemma detect_cycle_correct:
  assumes "deps_in_range plan"
  shows "detect_cycle plan = Inr () \<longleftrightarrow> acyclic (dep_rel plan)"
    and "detect_cycle plan = Inl e \<Longrightarrow> \<exists>ms. e = CyclicDependency ms \<and> closed_walk plan ms"
proof -
  let ?st = "(replicate (length plan) 0, [] :: nat list)"
  have "dfs_ok plan ?st" by (simp add: dfs_ok_def)
  then have V: "case visit_deps plan [0..<length plan] ?st of
      Inr st' \<Rightarrow> dfs_ok plan st' \<and> snd st' = [] \<and> (\<forall>d < length plan. fst st' ! d = 2)
    | Inl e \<Rightarrow> \<exists>ms. e = CyclicDependency ms \<and> closed_walk plan ms"
    using visit_correct(2) [OF assms, of ?st "[0..<length plan]"] by (auto split: sum.splits)
  show e: "\<exists>ms. e = CyclicDependency ms \<and> closed_walk plan ms" if "detect_cycle plan = Inl e" for e
    using V that by (auto simp: detect_cycle_def detect_cycle_loop_def and_then_eq_Inl)
  have fin: "acyclic (dep_rel plan)" if "detect_cycle plan = Inr ()"
  proof -
    from that V obtain st' where "dfs_ok plan st'" "\<forall>d < length plan. fst st' ! d = 2"
      by (auto simp: detect_cycle_def detect_cycle_loop_def and_then_eq_Inr)
    then have "(i, i) \<notin> (dep_rel plan)\<^sup>+" if "i < length plan" for i using that by (auto simp: dfs_ok_def)
    moreover have "i < length plan" if "(i, i) \<in> (dep_rel plan)\<^sup>+" for i
      using tranclD [OF that] by (auto simp: dep_rel_def)
    ultimately show ?thesis by (auto simp: acyclic_def)
  qed
  show "detect_cycle plan = Inr () \<longleftrightarrow> acyclic (dep_rel plan)"
    using fin e closed_walk_cyclic by (cases "detect_cycle plan") auto
qed

subsection \<open>Which plans are accepted\<close>

definition sub_valid :: "nat \<Rightarrow> nat \<Rightarrow> planned_sub_issue \<Rightarrow> bool" where
  "sub_valid n i sub \<longleftrightarrow>
     trim (sub_title sub) \<noteq> [] \<and>
     (trim (sub_profession sub) = [] \<or> validate_slug (trim (sub_profession sub)) = Inr ()) \<and>
     (\<forall>cap \<in> set (sub_capabilities sub). \<not> bad_capability cap) \<and>
     (\<forall>d \<in> set (depends_on sub). d < n \<and> d \<noteq> i)"

definition touches_serialised :: "planned_sub_issue list \<Rightarrow> bool" where
  "touches_serialised plan \<longleftrightarrow>
     (\<forall>a b p. a < b \<and> b < length plan \<and> p \<in> set (parse_touch_paths (sub_acceptance (plan ! a))) \<and>
        p \<in> set (parse_touch_paths (sub_acceptance (plan ! b))) \<longrightarrow> has_edge plan a b)"

definition plan_valid :: "planned_sub_issue list \<Rightarrow> bool" where
  "plan_valid plan \<longleftrightarrow>
     0 < length plan \<and> length plan \<le> MAX_SUBISSUES \<and>
     (\<forall>i < length plan. sub_valid (length plan) i (plan ! i)) \<and>
     acyclic (dep_rel plan) \<and> touches_serialised plan"

lemma check_deps_None_iff: "check_deps n i deps = None \<longleftrightarrow> (\<forall>d \<in> set deps. d < n \<and> d \<noteq> i)"
  by (induction deps) auto

lemma find_None_all: "find P xs = None \<longleftrightarrow> (\<forall>x \<in> set xs. \<not> P x)"
  by (auto simp: find_None_iff)

lemma profession_format_error_None_iff:
  "profession_format_error i raw = None \<longleftrightarrow> trim raw = [] \<or> validate_slug (trim raw) = Inr ()"
  by (auto simp: profession_format_error_def Let_def split: sum.splits)

lemma check_sub_None_iff: "check_sub n i sub = None \<longleftrightarrow> sub_valid n i sub"
proof -
  have "check_sub n i sub = None \<longleftrightarrow>
      trim (sub_title sub) \<noteq> [] \<and> profession_format_error i (sub_profession sub) = None \<and>
      find bad_capability (sub_capabilities sub) = None \<and> check_deps n i (depends_on sub) = None"
    by (auto simp: check_sub_def capabilities_format_error_def split: option.splits)
  then show ?thesis
    by (simp add: sub_valid_def profession_format_error_None_iff check_deps_None_iff find_None_all)
qed

lemma check_subs_None_iff:
  "check_subs n i subs = None \<longleftrightarrow> (\<forall>k < length subs. sub_valid n (i + k) (subs ! k))"
proof (induction subs arbitrary: i)
  case (Cons sub subs)
  have "check_subs n i (sub # subs) = None \<longleftrightarrow> sub_valid n i sub \<and> check_subs n (Suc i) subs = None"
    by (auto simp: check_sub_None_iff [symmetric] split: option.splits)
  then show ?case using Cons.IH [of "Suc i"] by (auto simp: less_Suc_eq_0_disj)
qed simp

lemma touch_pairs_Nil_iff:
  "sorted_wrt (<) subs \<Longrightarrow> touch_pairs plan p subs = [] \<longleftrightarrow> (\<forall>a \<in> set subs. \<forall>b \<in> set subs. a < b \<longrightarrow> has_edge plan a b)"
  by (induction subs) (auto simp: filter_empty_conv)

lemma touch_violations_Nil_iff: "touch_violations plan = [] \<longleftrightarrow> touches_serialised plan"
proof -
  let ?T = "\<lambda>i. set (parse_touch_paths (sub_acceptance (plan ! i)))"
  let ?own = "\<lambda>p. filter (\<lambda>i. p \<in> ?T i) [0..<length plan]"
  have srt: "sorted_wrt (<) (?own p)" for p by (rule sorted_wrt_filter) simp
  have short: "(if length subs < 2 then [] else touch_pairs plan p subs) = touch_pairs plan p subs" for p subs
    by (cases subs; cases "tl subs") auto
  have paths: "p \<in> set (concat (map (\<lambda>sub. parse_touch_paths (sub_acceptance sub)) plan)) \<longleftrightarrow>
      (\<exists>i < length plan. p \<in> ?T i)" for p unfolding set_concat set_map by (auto simp: set_conv_nth [of plan])
  have "touch_violations plan = [] \<longleftrightarrow>
      (\<forall>p. (\<exists>i < length plan. p \<in> ?T i) \<longrightarrow> touch_pairs plan p (?own p) = [])"
    unfolding touch_violations_def touch_owners_def short by (auto simp: paths [symmetric])
  also have "\<dots> \<longleftrightarrow> touches_serialised plan"
    unfolding touch_pairs_Nil_iff [OF srt] touches_serialised_def by fastforce
  finally show ?thesis .
qed

lemma analyze_shared_touch_Inr_iff: "analyze_shared_touch plan = Inr () \<longleftrightarrow> touches_serialised plan"
  by (simp add: analyze_shared_touch_def touch_violations_Nil_iff)

lemma decode_plan_Inr_iff:
  "decode_plan fj raw = Inr plan \<longleftrightarrow>
     (\<exists>t. extract_json_array raw = Some t \<and> fj t = Inr plan) \<and> 0 < length plan \<and> length plan \<le> MAX_SUBISSUES"
  by (auto simp: decode_plan_def split: option.splits sum.splits if_splits)

lemma sub_valid_in_range:
  "\<forall>i < length plan. sub_valid (length plan) i (plan ! i) \<Longrightarrow> deps_in_range plan"
  by (auto simp: deps_in_range_def sub_valid_def)

text \<open>
  C19: the planner accepts an answer of the language model exactly when the text from its first opening
  to its last closing bracket decodes to a plan of one to twenty subtasks, each with a title, with
  a well-formed profession or none, with well-formed capabilities and with dependencies on other
  subtasks of the plan, such that the dependencies have no cycle and any two subtasks that declare
  the same file depend on each other directly.  The plan that is returned is the decoded one.
\<close>
theorem parse_plan_accepts:
  "parse_plan fj raw = Inr plan \<longleftrightarrow>
     (\<exists>t. extract_json_array raw = Some t \<and> fj t = Inr plan) \<and> plan_valid plan"
proof -
  have "parse_plan fj raw = Inr plan \<longleftrightarrow>
      decode_plan fj raw = Inr plan \<and> check_subs (length plan) 0 plan = None \<and>
      detect_cycle plan = Inr () \<and> analyze_shared_touch plan = Inr ()"
    by (auto simp: parse_plan_def and_then_eq_Inr split: option.splits)
  then show ?thesis
    using detect_cycle_correct(1) [of plan] sub_valid_in_range [of plan]
    by (auto simp: decode_plan_Inr_iff check_subs_None_iff analyze_shared_touch_Inr_iff plan_valid_def)
qed

lemma check_sub_not_panic: "check_sub n i sub \<noteq> Some (IndexPanic j)" "check_sub n i sub \<noteq> Some (CyclicDependency ms)"
proof -
  have "check_deps n i deps \<noteq> Some (IndexPanic j)" "check_deps n i deps \<noteq> Some (CyclicDependency ms)" for deps
    by (induction deps) auto
  then show "check_sub n i sub \<noteq> Some (IndexPanic j)" "check_sub n i sub \<noteq> Some (CyclicDependency ms)"
    by (auto simp: check_sub_def profession_format_error_def capabilities_format_error_def Let_def
        split: option.splits sum.splits)
qed

lemma check_subs_not_panic: "check_subs n i subs \<noteq> Some (IndexPanic j)" "check_subs n i subs \<noteq> Some (CyclicDependency ms)"
  by (induction subs arbitrary: i) (auto split: option.splits simp: check_sub_not_panic)

text \<open>
  C0: the search for cyclic dependencies never indexes outside the plan, and the members it reports
  form a closed walk along the declared dependencies, so the message names a real cycle.
\<close>
theorem reported_cycle_is_real:
  "case parse_plan fj raw of
     Inl (IndexPanic i) \<Rightarrow> False
   | Inl (CyclicDependency ms) \<Rightarrow>
       \<exists>t plan. extract_json_array raw = Some t \<and> fj t = Inr plan \<and> closed_walk plan ms
   | _ \<Rightarrow> True"
proof -
  have "parse_plan fj raw \<noteq> Inl (IndexPanic i) \<and>
   (parse_plan fj raw = Inl (CyclicDependency ms) \<longrightarrow>
      (\<exists>t plan. extract_json_array raw = Some t \<and> fj t = Inr plan \<and> closed_walk plan ms))" for i ms
  proof -
  have dec: "decode_plan fj raw \<noteq> Inl (IndexPanic i)" "decode_plan fj raw \<noteq> Inl (CyclicDependency ms)"
    by (auto simp: decode_plan_def split: option.splits sum.splits)
  have *: "\<exists>t plan. extract_json_array raw = Some t \<and> fj t = Inr plan \<and> (\<exists>ms'. e = CyclicDependency ms' \<and> closed_walk plan ms')"
    if "parse_plan fj raw = Inl e" "e = IndexPanic i \<or> e = CyclicDependency ms" for e
  proof -
    from that dec obtain plan where p: "decode_plan fj raw = Inr plan"
      and e: "check_subs (length plan) 0 plan = Some e \<or>
        check_subs (length plan) 0 plan = None \<and> (detect_cycle plan = Inl e \<or> analyze_shared_touch plan = Inl e)"
      by (cases "check_subs (length (projr (decode_plan fj raw))) 0 (projr (decode_plan fj raw))")
        (auto simp: parse_plan_def and_then_eq_Inl)
    have "check_subs (length plan) 0 plan = None \<and> detect_cycle plan = Inl e"
      using e that(2) check_subs_not_panic by (auto simp: analyze_shared_touch_def split: if_splits)
    then have "\<exists>ms'. e = CyclicDependency ms' \<and> closed_walk plan ms'"
      using detect_cycle_correct(2) [of plan e] sub_valid_in_range by (auto simp: check_subs_None_iff)
    then show ?thesis using p by (auto simp: decode_plan_Inr_iff)
  qed
  show ?thesis using * [of "IndexPanic i"] * [of "CyclicDependency ms"] by auto
  qed
  then show ?thesis by (auto split: sum.splits plan_error.splits)
qed

subsection \<open>The lenient reading\<close>

definition relax_sub :: "planned_sub_issue \<Rightarrow> planned_sub_issue" where
  "relax_sub sub =
     sub\<lparr>sub_profession := (if profession_format_error 0 (sub_profession sub) \<noteq> None then [] else sub_profession sub),
         sub_capabilities := filter (\<lambda>cap. \<not> bad_capability cap) (sub_capabilities sub)\<rparr>"

lemma profession_error_index:
  "profession_format_error i raw = None \<longleftrightarrow> profession_format_error j raw = None"
  by (simp add: profession_format_error_None_iff)

lemma profession_error_Nil [simp]: "profession_format_error i [] = None"
  by (simp add: profession_format_error_def)

lemma relax_sub_fields [simp]:
  "sub_title (relax_sub sub) = sub_title sub" "depends_on (relax_sub sub) = depends_on sub"
  "profession_format_error i (sub_profession (relax_sub sub)) = None"
  "capabilities_format_error i (sub_capabilities (relax_sub sub)) = None"
proof -
  show "profession_format_error i (sub_profession (relax_sub sub)) = None"
    using profession_error_index [of i _ 0] by (simp add: relax_sub_def)
  show "capabilities_format_error i (sub_capabilities (relax_sub sub)) = None"
    by (simp add: relax_sub_def capabilities_format_error_def find_None_all)
qed (simp_all add: relax_sub_def)

lemma lenient_subs_eq:
  "lenient_subs n i subs =
     (case check_subs n i (map relax_sub subs) of
        Some e \<Rightarrow> Inl e
      | None \<Rightarrow> Inr (map relax_sub subs,
          map (\<lambda>k. (i + k, sub_profession (subs ! k)))
              (filter (\<lambda>k. profession_format_error 0 (sub_profession (subs ! k)) \<noteq> None) [0..<length subs])))"
proof (induction subs arbitrary: i)
  case (Cons sub subs)
  let ?bad = "profession_format_error i (sub_profession sub) \<noteq> None"
  have bad: "?bad \<longleftrightarrow> profession_format_error 0 (sub_profession sub) \<noteq> None"
    using profession_error_index [of i "sub_profession sub" 0] by simp
  have relaxed: "(if ?bad then sub\<lparr>sub_profession := []\<rparr> else sub)
      \<lparr>sub_capabilities := filter (\<lambda>cap. \<not> bad_capability cap)
         (sub_capabilities (if ?bad then sub\<lparr>sub_profession := []\<rparr> else sub))\<rparr> = relax_sub sub"
    unfolding bad relax_sub_def by simp
  have ups: "[0..<length (sub # subs)] = 0 # map Suc [0..<length subs]"
    by (simp add: upt_conv_Cons map_Suc_upt del: upt_Suc)
  have unf: "lenient_subs n i (sub # subs) =
      (if trim (sub_title sub) = [] then Inl (EmptyTitle i)
       else case check_deps n i (depends_on sub) of
              Some e \<Rightarrow> Inl e
            | None \<Rightarrow> and_then (lenient_subs n (Suc i) subs)
                (\<lambda>(rest, down). Inr (relax_sub sub # rest, (if ?bad then [(i, sub_profession sub)] else []) @ down)))"
    unfolding lenient_subs.simps Let_def relaxed by simp
  show ?case
    unfolding unf Cons.IH ups bad
    by (auto simp: check_sub_def filter_map comp_def split: option.splits)
qed simp

text \<open>
  The lenient reading, used when the attempts at a correct answer are spent, gives the plan, or the
  error, that the strict reading gives for the same answer after ill-formed professions have been
  emptied and ill-formed capabilities removed; the list of downgrades names exactly the subtasks
  whose profession was emptied, with the old value.
\<close>
theorem lenient_is_strict_on_relaxed:
  "map_sum id lp_plan (parse_plan_lenient fj raw) = parse_plan (\<lambda>t. map_sum id (map relax_sub) (fj t)) raw \<and>
   (case parse_plan_lenient fj raw of
      Inl e \<Rightarrow> True
    | Inr lp \<Rightarrow> \<exists>t plan. extract_json_array raw = Some t \<and> fj t = Inr plan \<and> lp_plan lp = map relax_sub plan \<and>
        downgraded lp = map (\<lambda>k. (k, sub_profession (plan ! k)))
          (filter (\<lambda>k. profession_format_error 0 (sub_profession (plan ! k)) \<noteq> None) [0..<length plan]))"
proof -
  have dec: "decode_plan (\<lambda>t. map_sum id (map relax_sub) (fj t)) raw =
      map_sum id (map relax_sub) (decode_plan fj raw)"
    by (auto simp: decode_plan_def split: option.splits sum.splits)
  show ?thesis
  proof (cases "decode_plan fj raw")
    case (Inl e)
    then show ?thesis by (simp add: parse_plan_lenient_def parse_plan_def dec)
  next
    case (Inr plan)
    then have t: "\<exists>t. extract_json_array raw = Some t \<and> fj t = Inr plan" by (simp add: decode_plan_Inr_iff)
    show ?thesis
      by (cases "check_subs (length plan) 0 (map relax_sub plan)"; cases "detect_cycle (map relax_sub plan)";
          cases "analyze_shared_touch (map relax_sub plan)")
        (use t in \<open>auto simp: parse_plan_lenient_def parse_plan_def dec Inr lenient_subs_eq\<close>)
  qed
qed

subsection \<open>An example\<close>

definition example_sub :: "str \<Rightarrow> str \<Rightarrow> nat list \<Rightarrow> planned_sub_issue" where
  "example_sub name criteria deps =
     \<lparr>sub_title = name, sub_description = [], sub_role = [], sub_tags = [], sub_profession = [],
      sub_capabilities = [], sub_acceptance = criteria, depends_on = deps\<rparr>"

lemma example_cycle:
  "parse_plan (\<lambda>_. Inr [example_sub ''a'' [] [1], example_sub ''b'' [] [2], example_sub ''c'' [] [1]]) ''[]''
     = Inl (CyclicDependency [1, 2, 1])"
proof -
  have t: "trim [c] = [c]" if "\<not> is_whitespace c" for c using that by (simp add: trim_no_ws)
  have w: "\<not> is_whitespace CHR ''a''" "\<not> is_whitespace CHR ''b''" "\<not> is_whitespace CHR ''c''"
    by (simp_all add: is_whitespace_def)
  show ?thesis
    by (simp add: parse_plan_def decode_plan_def extract_json_array_def MAX_SUBISSUES_def check_sub_def
        example_sub_def profession_format_error_def capabilities_format_error_def t w
        detect_cycle_def detect_cycle_loop_def upt_rec visit.simps visit_deps.simps numeral_2_eq_2)
qed

end
