(* ===== verification/BoardMatch.thy ===== *)
theory BoardMatch
  imports Professions "HOL-Library.List_Lexorder" "HOL-Library.Char_ord" "HOL-Library.Product_Lexorder"
    "HOL-Library.Multiset"
begin

text \<open>
  Choosing the node for a subtask (nemesis-board: matcher.rs): the hard conditions, the score, the
  order of the candidates and the ladder of relaxations.  The table of online peers and their loads are
  arguments, as they are in the sources.
\<close>

subsection \<open>Data\<close>

record peer_candidate =
  pc_id :: str
  pc_name :: str
  pc_role :: str
  pc_tags :: "str list"
  pc_capabilities :: "str list"
  pc_professions :: "str list"
  pc_tier :: "str option"

record match_input =
  required_role :: "str option"
  required_tags :: "str list"
  required_profession :: "str option"
  required_capabilities :: "str list"
  mi_description :: str

definition CAPABILITY_BONUS_CAP :: int where "CAPABILITY_BONUS_CAP = 15"
definition CAPABILITY_BONUS_PER_HIT :: int where "CAPABILITY_BONUS_PER_HIT = 5"

subsection \<open>Hard conditions and score\<close>

text \<open>\<^verbatim>\<open>.map(str::trim).filter(|s| !s.is_empty())\<close>: a blank requirement is none.\<close>

definition given_text :: "str option \<Rightarrow> str option" where
  "given_text r = (case r of None \<Rightarrow> None | Some s \<Rightarrow> if trim s = [] then None else Some (trim s))"

definition role_need :: "match_input \<Rightarrow> str option" where
  "role_need input = map_option to_lowercase (given_text (required_role input))"

definition prof_need :: "match_input \<Rightarrow> str option" where
  "prof_need input = map_option normalize_slug (given_text (required_profession input))"

definition prof_min_tier :: "match_input \<Rightarrow> str option" where
  "prof_min_tier input = map_option pm_min_tier (Option.bind (prof_need input) find_builtin)"

definition tag_hits :: "match_input \<Rightarrow> peer_candidate \<Rightarrow> nat" where
  "tag_hits input peer =
     length (filter (\<lambda>t. list_ex (\<lambda>pt. eq_ignore_ascii_case pt t) (pc_tags peer)) (required_tags input))"

definition has_capability :: "peer_candidate \<Rightarrow> str \<Rightarrow> bool" where
  "has_capability peer need \<longleftrightarrow>
     trim need \<noteq> [] \<and> list_ex (\<lambda>c. eq_ignore_ascii_case (trim c) (trim need)) (pc_capabilities peer)"

fun cap_bonus :: "str \<Rightarrow> int \<Rightarrow> str list \<Rightarrow> int" where
  "cap_bonus desc_lower bonus [] = bonus"
| "cap_bonus desc_lower bonus (cap # caps) =
     (if length (trim cap) \<ge> 2 \<and> contains_str desc_lower (to_lowercase (trim cap))
      then (let bonus' = bonus + CAPABILITY_BONUS_PER_HIT in
            if bonus' \<ge> CAPABILITY_BONUS_CAP then bonus' else cap_bonus desc_lower bonus' caps)
      else cap_bonus desc_lower bonus caps)"

definition score_peer :: "match_input \<Rightarrow> (str \<rightharpoonup> nat) \<Rightarrow> peer_candidate \<Rightarrow> (str \<times> int \<times> nat) option" where
  "score_peer input load peer =
     (if (case role_need input of Some need \<Rightarrow> to_lowercase (pc_role peer) \<noteq> need | None \<Rightarrow> False) then None
      else if required_tags input \<noteq> [] \<and> tag_hits input peer = 0 then None
      else if (case prof_need input of
                 Some need \<Rightarrow> \<not> list_ex (\<lambda>p. normalize_slug p = need) (pc_professions peer)
               | None \<Rightarrow> False) then None
      else if (case prof_min_tier input of Some t \<Rightarrow> \<not> tier_allows (pc_tier peer) t | None \<Rightarrow> False) then None
      else if required_capabilities input \<noteq> [] \<and> \<not> list_all (has_capability peer) (required_capabilities input)
      then None
      else Some (pc_id peer,
                 100 * int (tag_hits input peer) + cap_bonus (to_lowercase (mi_description input)) 0 (pc_capabilities peer),
                 case load (pc_id peer) of Some n \<Rightarrow> n | None \<Rightarrow> 0))"

subsection \<open>Order and choice\<close>

definition rank_key :: "str \<times> int \<times> nat \<Rightarrow> int \<times> nat \<times> str" where
  "rank_key x = (case x of (i, score, node_load) \<Rightarrow> (- score, node_load, i))"

definition rank_peers :: "match_input \<Rightarrow> peer_candidate list \<Rightarrow> (str \<rightharpoonup> nat) \<Rightarrow> (str \<times> int) list" where
  "rank_peers input peers load =
     map (\<lambda>(i, score, _). (i, score)) (sort_key rank_key (List.map_filter (score_peer input load) peers))"

definition pick_peer :: "match_input \<Rightarrow> peer_candidate list \<Rightarrow> (str \<rightharpoonup> nat) \<Rightarrow> str option" where
  "pick_peer input peers load =
     (case rank_peers input peers load of [] \<Rightarrow> None | (i, _) # _ \<Rightarrow> Some i)"

datatype relax_depth = RelaxRole | RelaxFull

datatype relax_label = KeptProfession | KeptRole | DroppedProfession | DroppedAll

definition relaxed_input :: "match_input \<Rightarrow> str option \<Rightarrow> str option \<Rightarrow> str list \<Rightarrow> match_input" where
  "relaxed_input base role prof tags =
     \<lparr>required_role = role, required_tags = tags, required_profession = prof,
      required_capabilities = required_capabilities base, mi_description = mi_description base\<rparr>"

definition pick_relaxed ::
    "match_input \<Rightarrow> peer_candidate list \<Rightarrow> (str \<rightharpoonup> nat) \<Rightarrow> relax_depth \<Rightarrow> (str \<times> relax_label) option" where
  "pick_relaxed base peers load depth =
     (let prof = given_text (required_profession base) in
      case pick_peer (relaxed_input base (required_role base) prof []) peers load of
        Some i \<Rightarrow> Some (i, if prof \<noteq> None then KeptProfession else KeptRole)
      | None \<Rightarrow>
          (case (if prof \<noteq> None
                 then pick_peer (relaxed_input base (required_role base) None (required_tags base)) peers load
                 else None) of
             Some i \<Rightarrow> Some (i, DroppedProfession)
           | None \<Rightarrow>
               if depth = RelaxFull
               then map_option (\<lambda>i. (i, DroppedAll)) (pick_peer (relaxed_input base None None []) peers load)
               else None))"

subsection \<open>Who is eligible, and in which order\<close>

definition role_met :: "match_input \<Rightarrow> peer_candidate \<Rightarrow> bool" where
  "role_met input peer \<longleftrightarrow>
     (case given_text (required_role input) of None \<Rightarrow> True | Some r \<Rightarrow> to_lowercase (pc_role peer) = to_lowercase r)"

definition tags_met :: "match_input \<Rightarrow> peer_candidate \<Rightarrow> bool" where
  "tags_met input peer \<longleftrightarrow>
     required_tags input = [] \<or>
     (\<exists>t \<in> set (required_tags input). \<exists>pt \<in> set (pc_tags peer). to_lowercase pt = to_lowercase t)"

definition profession_met :: "match_input \<Rightarrow> peer_candidate \<Rightarrow> bool" where
  "profession_met input peer \<longleftrightarrow>
     (case given_text (required_profession input) of
        None \<Rightarrow> True
      | Some p \<Rightarrow> (\<exists>q \<in> set (pc_professions peer). normalize_slug q = normalize_slug p) \<and>
                  (case find_builtin p of None \<Rightarrow> True | Some m \<Rightarrow> tier_allows (pc_tier peer) (pm_min_tier m)))"

definition capabilities_met :: "match_input \<Rightarrow> peer_candidate \<Rightarrow> bool" where
  "capabilities_met input peer \<longleftrightarrow> (\<forall>need \<in> set (required_capabilities input). has_capability peer need)"

definition eligible :: "match_input \<Rightarrow> peer_candidate \<Rightarrow> bool" where
  "eligible input peer \<longleftrightarrow>
     role_met input peer \<and> tags_met input peer \<and> profession_met input peer \<and> capabilities_met input peer"

definition peer_score :: "match_input \<Rightarrow> peer_candidate \<Rightarrow> int" where
  "peer_score input peer =
     100 * int (tag_hits input peer) +
     min CAPABILITY_BONUS_CAP (CAPABILITY_BONUS_PER_HIT *
       int (length (filter (\<lambda>c. length (trim c) \<ge> 2 \<and> contains_str (to_lowercase (mi_description input)) (to_lowercase (trim c)))
              (pc_capabilities peer))))"

definition load_of :: "(str \<rightharpoonup> nat) \<Rightarrow> peer_candidate \<Rightarrow> nat" where
  "load_of load peer = (case load (pc_id peer) of Some n \<Rightarrow> n | None \<Rightarrow> 0)"

lemma normalize_slug_idem [simp]: "normalize_slug (normalize_slug s) = normalize_slug s"
  by (simp add: normalize_slug_def trim_to_lowercase)

lemma find_builtin_normalize [simp]: "find_builtin (normalize_slug s) = find_builtin s"
  by (simp add: find_builtin_def)

lemma cap_bonus_eq:
  assumes "0 \<le> b" "b < CAPABILITY_BONUS_CAP" "CAPABILITY_BONUS_PER_HIT dvd b"
  shows "cap_bonus d b caps =
     min CAPABILITY_BONUS_CAP (b + CAPABILITY_BONUS_PER_HIT *
       int (length (filter (\<lambda>c. length (trim c) \<ge> 2 \<and> contains_str d (to_lowercase (trim c))) caps)))"
  using assms
proof (induction caps arbitrary: b)
  case Nil then show ?case by simp
next
  case (Cons c cs)
  show ?case
  proof (cases "length (trim c) \<ge> 2 \<and> contains_str d (to_lowercase (trim c))")
    case False then show ?thesis using Cons by auto
  next
    case True
    have dvd: "CAPABILITY_BONUS_PER_HIT dvd b + CAPABILITY_BONUS_PER_HIT" using Cons.prems(3) by simp
    show ?thesis
    proof (cases "b + CAPABILITY_BONUS_PER_HIT \<ge> CAPABILITY_BONUS_CAP")
      case le: True
      have "b + CAPABILITY_BONUS_PER_HIT = CAPABILITY_BONUS_CAP"
        using le Cons.prems by (auto simp: CAPABILITY_BONUS_CAP_def CAPABILITY_BONUS_PER_HIT_def elim!: dvdE)
      then show ?thesis using True by (simp add: CAPABILITY_BONUS_PER_HIT_def algebra_simps)
    next
      case False
      then have "cap_bonus d (b + CAPABILITY_BONUS_PER_HIT) cs = min CAPABILITY_BONUS_CAP (b + CAPABILITY_BONUS_PER_HIT +
          CAPABILITY_BONUS_PER_HIT * int (length (filter (\<lambda>c. length (trim c) \<ge> 2 \<and> contains_str d (to_lowercase (trim c))) cs)))"
        using Cons.prems dvd by (intro Cons.IH) (auto simp: CAPABILITY_BONUS_PER_HIT_def)
      then show ?thesis using True False by (simp add: algebra_simps)
    qed
  qed
qed

lemma tags_met_iff: "tags_met input peer \<longleftrightarrow> required_tags input = [] \<or> tag_hits input peer \<noteq> 0"
  by (auto simp: tags_met_def tag_hits_def filter_empty_conv list_ex_iff eq_ignore_ascii_case_def)

lemma profession_met_iff:
  "profession_met input peer \<longleftrightarrow>
     \<not> (case prof_need input of Some need \<Rightarrow> \<not> list_ex (\<lambda>p. normalize_slug p = need) (pc_professions peer) | None \<Rightarrow> False) \<and>
     \<not> (case prof_min_tier input of Some t \<Rightarrow> \<not> tier_allows (pc_tier peer) t | None \<Rightarrow> False)"
  by (auto simp: profession_met_def prof_need_def prof_min_tier_def list_ex_iff split: option.splits)

lemma score_peer_eq:
  "score_peer input load peer =
     (if eligible input peer then Some (pc_id peer, peer_score input peer, load_of load peer) else None)"
proof -
  have role: "role_met input peer \<longleftrightarrow>
      \<not> (case role_need input of Some need \<Rightarrow> to_lowercase (pc_role peer) \<noteq> need | None \<Rightarrow> False)"
    by (auto simp: role_met_def role_need_def split: option.splits)
  have cap: "capabilities_met input peer \<longleftrightarrow>
      \<not> (required_capabilities input \<noteq> [] \<and> \<not> list_all (has_capability peer) (required_capabilities input))"
    by (auto simp: capabilities_met_def list_all_iff)
  have bonus: "cap_bonus d 0 caps = min CAPABILITY_BONUS_CAP (CAPABILITY_BONUS_PER_HIT *
       int (length (filter (\<lambda>c. length (trim c) \<ge> 2 \<and> contains_str d (to_lowercase (trim c))) caps)))" for d caps
    using cap_bonus_eq [of 0 d caps] by (simp add: CAPABILITY_BONUS_CAP_def)
  show ?thesis
    unfolding score_peer_def eligible_def role cap profession_met_iff tags_met_iff peer_score_def load_of_def bonus by simp
qed

abbreviation entry_of :: "match_input \<Rightarrow> (str \<rightharpoonup> nat) \<Rightarrow> peer_candidate \<Rightarrow> str \<times> int \<times> nat" where
  "entry_of input load peer \<equiv> (pc_id peer, peer_score input peer, load_of load peer)"

lemma candidates_eq:
  "List.map_filter (score_peer input load) peers = map (entry_of input load) (filter (eligible input) peers)"
  by (induction peers) (auto simp: List.map_filter_simps score_peer_eq)

lemma ranked_peers:
  "\<exists>ps. mset ps = mset (filter (eligible input) peers) \<and>
        sorted_wrt (\<lambda>p q. rank_key (entry_of input load p) \<le> rank_key (entry_of input load q)) ps \<and>
        rank_peers input peers load = map (\<lambda>p. (pc_id p, peer_score input p)) ps"
proof -
  let ?f = "entry_of input load"
  let ?ps = "sort_key (\<lambda>p. rank_key (?f p)) (filter (eligible input) peers)"
  have "sorted (map (\<lambda>p. rank_key (?f p)) ?ps)" by (rule sorted_sort_key)
  then have "sorted_wrt (\<lambda>p q. rank_key (?f p) \<le> rank_key (?f q)) ?ps" by (simp add: sorted_wrt_map)
  moreover have ins: "map ?f (insort_key (\<lambda>p. rank_key (?f p)) x xs) = insort_key rank_key (?f x) (map ?f xs)" for x xs
    by (induction xs) auto
  have srt: "sort_key rank_key (map ?f xs) = map ?f (sort_key (\<lambda>p. rank_key (?f p)) xs)" for xs
    by (induction xs) (simp_all add: ins sort_key_def)
  have "rank_peers input peers load = map (\<lambda>p. (pc_id p, peer_score input p)) ?ps"
    unfolding rank_peers_def candidates_eq srt by simp
  ultimately show ?thesis by (intro exI [of _ ?ps]) simp
qed

text \<open>
  The ranking lists exactly the peers that meet the hard conditions (role, a common tag, profession
  with its tier, all capabilities), each once per table entry with its score, and orders them by falling
  score, then rising load, then identifier.  The comment on the order names the peer's name as
  the last criterion; the code compares identifiers.
\<close>
theorem rank_peers_spec:
  "\<exists>ps. mset ps = mset (filter (eligible input) peers) \<and>
        sorted_wrt (\<lambda>p q. peer_score input p > peer_score input q \<or>
           peer_score input p = peer_score input q \<and>
             (load_of load p < load_of load q \<or> load_of load p = load_of load q \<and> pc_id p \<le> pc_id q)) ps \<and>
        rank_peers input peers load = map (\<lambda>p. (pc_id p, peer_score input p)) ps"
proof -
  have *: "rank_key (entry_of input load p) \<le> rank_key (entry_of input load q) \<longleftrightarrow>
      peer_score input p > peer_score input q \<or> peer_score input p = peer_score input q \<and>
        (load_of load p < load_of load q \<or> load_of load p = load_of load q \<and> pc_id p \<le> pc_id q)" for p q
    by (auto simp: rank_key_def less_eq_prod_def)
  show ?thesis using ranked_peers [of input peers load] unfolding * .
qed

subsection \<open>Relaxation\<close>

lemma pick_peer_None_iff: "pick_peer input peers load = None \<longleftrightarrow> (\<forall>p \<in> set peers. \<not> eligible input p)"
proof -
  obtain ps where ps: "mset ps = mset (filter (eligible input) peers)"
    "rank_peers input peers load = map (\<lambda>p. (pc_id p, peer_score input p)) ps"
    using ranked_peers by blast
  have "set ps = {p \<in> set peers. eligible input p}" using mset_eq_setD [OF ps(1)] by auto
  then show ?thesis unfolding pick_peer_def ps(2) by (cases ps) auto
qed

lemma pick_peer_Some:
  assumes "pick_peer input peers load = Some i"
  shows "\<exists>p. p \<in> set peers \<and> eligible input p \<and> pc_id p = i \<and>
     (\<forall>q \<in> set peers. eligible input q \<longrightarrow> rank_key (entry_of input load p) \<le> rank_key (entry_of input load q))"
proof -
  obtain ps where ps: "mset ps = mset (filter (eligible input) peers)"
    "sorted_wrt (\<lambda>p q. rank_key (entry_of input load p) \<le> rank_key (entry_of input load q)) ps"
    "rank_peers input peers load = map (\<lambda>p. (pc_id p, peer_score input p)) ps"
    using ranked_peers by blast
  have set: "set ps = {p \<in> set peers. eligible input p}" using mset_eq_setD [OF ps(1)] by auto
  from assms obtain p qs where p: "ps = p # qs" "pc_id p = i"
    unfolding pick_peer_def ps(3) by (cases ps) auto
  then have "\<forall>q \<in> set ps. rank_key (entry_of input load p) \<le> rank_key (entry_of input load q)" using ps(2) by auto
  then show ?thesis using p set by (intro exI [of _ p]) auto
qed

lemma given_text_idem [simp]: "given_text (given_text r) = given_text r"
  by (simp add: given_text_def split: option.splits)

lemma eligible_relaxed:
  "eligible (relaxed_input base role prof tags) p \<longleftrightarrow>
     role_met (base\<lparr>required_role := role\<rparr>) p \<and> tags_met (base\<lparr>required_tags := tags\<rparr>) p \<and>
     profession_met (base\<lparr>required_profession := prof\<rparr>) p \<and> capabilities_met base p"
  by (simp add: eligible_def role_met_def tags_met_def profession_met_def capabilities_met_def relaxed_input_def)

lemma relaxed_conditions [simp]:
  "role_met (base\<lparr>required_role := None\<rparr>) p"
  "tags_met (base\<lparr>required_tags := []\<rparr>) p"
  "profession_met (base\<lparr>required_profession := None\<rparr>) p"
  "profession_met (base\<lparr>required_profession := given_text (required_profession base)\<rparr>) p \<longleftrightarrow> profession_met base p"
proof -
  show "role_met (base\<lparr>required_role := None\<rparr>) p" "profession_met (base\<lparr>required_profession := None\<rparr>) p"
    by (simp_all add: role_met_def profession_met_def given_text_def)
  show "tags_met (base\<lparr>required_tags := []\<rparr>) p" by (simp add: tags_met_def)
  show "profession_met (base\<lparr>required_profession := given_text (required_profession base)\<rparr>) p \<longleftrightarrow> profession_met base p"
    by (simp add: profession_met_def)
qed

text \<open>
  No step of the relaxation gives up a capability.  A node that is picked has all required
  capabilities, and the label says truthfully what else it meets: its role and profession, or its
  role, or its role and a tag; the role is given up only at full depth.  Nothing is picked at full
  depth only when no node has the capabilities, and at role depth only when no node of the role
  has them together with the profession, or with a tag when a profession was asked for.
\<close>
theorem relaxation_keeps_capabilities:
  "case pick_relaxed base peers load depth of
     Some (i, label) \<Rightarrow>
       \<exists>p. p \<in> set peers \<and> pc_id p = i \<and> capabilities_met base p \<and>
         (case label of
            KeptProfession \<Rightarrow> role_met base p \<and> profession_met base p
          | KeptRole \<Rightarrow> role_met base p \<and> given_text (required_profession base) = None
          | DroppedProfession \<Rightarrow> role_met base p \<and> tags_met base p
          | DroppedAll \<Rightarrow> depth = RelaxFull)
   | None \<Rightarrow>
       (case depth of
          RelaxFull \<Rightarrow> list_all (\<lambda>p. \<not> capabilities_met base p) peers
        | RelaxRole \<Rightarrow> list_all (\<lambda>p. \<not> (role_met base p \<and> capabilities_met base p \<and>
            (profession_met base p \<or> given_text (required_profession base) \<noteq> None \<and> tags_met base p))) peers)"
proof -
  let ?l2 = "relaxed_input base (required_role base) (given_text (required_profession base)) []"
  let ?l3 = "relaxed_input base (required_role base) None (required_tags base)"
  let ?l4 = "relaxed_input base None None []"
  have e2: "eligible ?l2 p \<longleftrightarrow> role_met base p \<and> profession_met base p \<and> capabilities_met base p" for p
    by (simp add: eligible_relaxed)
  have e3: "eligible ?l3 p \<longleftrightarrow> role_met base p \<and> tags_met base p \<and> capabilities_met base p" for p
    by (simp add: eligible_relaxed)
  have e4: "eligible ?l4 p \<longleftrightarrow> capabilities_met base p" for p by (simp add: eligible_relaxed)
  have None2: "pick_peer ?l2 peers load = None \<longleftrightarrow>
      (\<forall>p \<in> set peers. \<not> (role_met base p \<and> profession_met base p \<and> capabilities_met base p))"
    unfolding pick_peer_None_iff e2 ..
  have None3: "pick_peer ?l3 peers load = None \<longleftrightarrow>
      (\<forall>p \<in> set peers. \<not> (role_met base p \<and> tags_met base p \<and> capabilities_met base p))"
    unfolding pick_peer_None_iff e3 ..
  have None4: "pick_peer ?l4 peers load = None \<longleftrightarrow> (\<forall>p \<in> set peers. \<not> capabilities_met base p)"
    unfolding pick_peer_None_iff e4 ..
  have Some2: "\<exists>p. p \<in> set peers \<and> pc_id p = i \<and> capabilities_met base p \<and> role_met base p \<and> profession_met base p"
    if "pick_peer ?l2 peers load = Some i" for i using pick_peer_Some [OF that] e2 by blast
  have Some3: "\<exists>p. p \<in> set peers \<and> pc_id p = i \<and> capabilities_met base p \<and> role_met base p \<and> tags_met base p"
    if "pick_peer ?l3 peers load = Some i" for i using pick_peer_Some [OF that] e3 by blast
  have Some4: "\<exists>p. p \<in> set peers \<and> pc_id p = i \<and> capabilities_met base p"
    if "pick_peer ?l4 peers load = Some i" for i using pick_peer_Some [OF that] e4 by blast
  show ?thesis
  proof (cases "pick_peer ?l2 peers load")
    case (Some i)
    then show ?thesis using Some2 [OF Some]
      by (cases "given_text (required_profession base)") (auto simp: pick_relaxed_def Let_def)
  next
    case n2: None
    let ?p3 = "if given_text (required_profession base) \<noteq> None then pick_peer ?l3 peers load else None"
    show ?thesis
    proof (cases ?p3)
      case (Some i)
      then have "pick_peer ?l3 peers load = Some i" by (simp split: if_splits)
      then show ?thesis using Some3 [of i] n2 Some by (simp add: pick_relaxed_def Let_def)
    next
      case n3: None
      have R: "pick_relaxed base peers load depth =
          (if depth = RelaxFull then map_option (\<lambda>i. (i, DroppedAll)) (pick_peer ?l4 peers load) else None)"
        unfolding pick_relaxed_def Let_def using n2 n3 by simp
      show ?thesis
      proof (cases depth)
        case RelaxFull
        then show ?thesis unfolding R using None4 Some4
          by (cases "pick_peer ?l4 peers load") (auto simp: list_all_iff)
      next
        case RelaxRole
        then show ?thesis unfolding R using n2 n3 None2 None3
          by (auto simp: list_all_iff split: if_splits)
      qed
    qed
  qed
qed

text \<open>
  A node that the strict match accepts is never lost by relaxing: when some node meets all
  conditions, every depth of the ladder finds one, and it keeps role and profession.
\<close>
theorem relaxation_extends_strict:
  assumes "pick_peer base peers load = Some i"
  shows "\<exists>j label. pick_relaxed base peers load depth = Some (j, label) \<and> label \<in> {KeptProfession, KeptRole}"
proof -
  let ?l2 = "relaxed_input base (required_role base) (given_text (required_profession base)) []"
  obtain p where "p \<in> set peers" "eligible base p" using pick_peer_Some [OF assms] by blast
  then have "eligible ?l2 p" unfolding eligible_relaxed by (simp add: eligible_def)
  then obtain j where "pick_peer ?l2 peers load = Some j"
    using \<open>p \<in> set peers\<close> pick_peer_None_iff [of ?l2 peers load] by fastforce
  then show ?thesis by (auto simp: pick_relaxed_def Let_def)
qed

end
