(* ===== verification/BoardFlow.thy ===== *)
theory BoardFlow
  imports Prelude "HOL-Library.List_Lexorder" "HOL-Library.Char_ord" "HOL-Library.Multiset"
begin

text \<open>
  The life cycles of the board (nemesis-board): the states of issues and projects with their legal
  transitions (models.rs, state_machine.rs, project_state.rs), the verdicts of reviews and the
  ledger of equal failures that stops automatic redispatch (review.rs, fail_streak.rs).
\<close>

subsection \<open>States of an issue\<close>

datatype issue_status = Backlog | Todo | InProgress | InReview | Done | Blocked | Cancelled

fun status_as_str :: "issue_status \<Rightarrow> str" where
  "status_as_str Backlog = ''backlog''"
| "status_as_str Todo = ''todo''"
| "status_as_str InProgress = ''in_progress''"
| "status_as_str InReview = ''in_review''"
| "status_as_str Done = ''done''"
| "status_as_str Blocked = ''blocked''"
| "status_as_str Cancelled = ''cancelled''"

definition status_from_str :: "str \<Rightarrow> issue_status option" where
  "status_from_str s =
     (if s = ''backlog'' then Some Backlog else if s = ''todo'' then Some Todo
      else if s = ''in_progress'' then Some InProgress else if s = ''in_review'' then Some InReview
      else if s = ''done'' then Some Done else if s = ''blocked'' then Some Blocked
      else if s = ''cancelled'' then Some Cancelled else None)"

definition status_is_terminal :: "issue_status \<Rightarrow> bool" where
  "status_is_terminal s \<longleftrightarrow> s = Done \<or> s = Cancelled"

text \<open>The names that the text of legal targets lists, without its decoration for the two final states.\<close>

fun allowed_targets :: "issue_status \<Rightarrow> issue_status list" where
  "allowed_targets Backlog = [Todo, InProgress, Done, Blocked, Cancelled]"
| "allowed_targets Todo = [InProgress, Done, Blocked, Cancelled]"
| "allowed_targets InProgress = [InReview, Done, Blocked, Cancelled]"
| "allowed_targets InReview = [InProgress, Done, Blocked, Cancelled]"
| "allowed_targets Blocked = [Todo, InProgress, Cancelled]"
| "allowed_targets Done = []"
| "allowed_targets Cancelled = [Backlog]"

definition can_transition :: "issue_status \<Rightarrow> issue_status \<Rightarrow> bool" where
  "can_transition f t =
     (if f = t then False
      else case (f, t) of
        (Backlog, _) \<Rightarrow> t \<in> {Todo, InProgress, Done, Blocked, Cancelled}
      | (Todo, _) \<Rightarrow> t \<in> {InProgress, Done, Blocked, Cancelled}
      | (InProgress, _) \<Rightarrow> t \<in> {InReview, Done, Blocked, Cancelled}
      | (InReview, _) \<Rightarrow> t \<in> {InProgress, Done, Blocked, Cancelled}
      | (Blocked, _) \<Rightarrow> t \<in> {Todo, InProgress, Cancelled}
      | (Cancelled, _) \<Rightarrow> t = Backlog
      | _ \<Rightarrow> False)"

datatype 's transition_error = AlreadyIn 's | IllegalTransition 's 's "'s list"

definition validate_transition :: "issue_status \<Rightarrow> issue_status \<Rightarrow> issue_status transition_error + unit" where
  "validate_transition f t =
     (if f = t then Inl (AlreadyIn f)
      else if can_transition f t then Inr ()
      else Inl (IllegalTransition f t (allowed_targets f)))"

subsection \<open>States of a project\<close>

datatype project_status = PrActive | PrInProgress | PrCompleted | PrArchived

fun project_as_str :: "project_status \<Rightarrow> str" where
  "project_as_str PrActive = ''active''"
| "project_as_str PrInProgress = ''in_progress''"
| "project_as_str PrCompleted = ''completed''"
| "project_as_str PrArchived = ''archived''"

definition project_from_str :: "str \<Rightarrow> project_status option" where
  "project_from_str s =
     (if s = ''active'' then Some PrActive else if s = ''in_progress'' then Some PrInProgress
      else if s = ''completed'' then Some PrCompleted else if s = ''archived'' then Some PrArchived else None)"

fun project_allowed_targets :: "project_status \<Rightarrow> project_status list" where
  "project_allowed_targets PrActive = [PrInProgress, PrArchived]"
| "project_allowed_targets PrInProgress = [PrCompleted, PrArchived]"
| "project_allowed_targets PrCompleted = [PrArchived, PrInProgress]"
| "project_allowed_targets PrArchived = [PrActive]"

definition project_can_transition :: "project_status \<Rightarrow> project_status \<Rightarrow> bool" where
  "project_can_transition f t =
     (if f = t then False
      else case f of
        PrActive \<Rightarrow> t \<in> {PrInProgress, PrArchived}
      | PrInProgress \<Rightarrow> t \<in> {PrCompleted, PrArchived}
      | PrCompleted \<Rightarrow> t \<in> {PrArchived, PrInProgress}
      | PrArchived \<Rightarrow> t = PrActive)"

definition project_validate_transition :: "project_status \<Rightarrow> project_status \<Rightarrow> project_status transition_error + unit" where
  "project_validate_transition f t =
     (if f = t then Inl (AlreadyIn f)
      else if project_can_transition f t then Inr ()
      else Inl (IllegalTransition f t (project_allowed_targets f)))"

subsection \<open>Verdicts and the ledger of equal failures\<close>

datatype review_verdict = VPass | VFail | VUnsure

fun verdict_as_str :: "review_verdict \<Rightarrow> str" where
  "verdict_as_str VPass = ''PASS''"
| "verdict_as_str VFail = ''FAIL''"
| "verdict_as_str VUnsure = ''UNSURE''"

definition FAIL_STREAK_THRESHOLD :: nat where "FAIL_STREAK_THRESHOLD = 3"

text \<open>An anchor result enters the signature with its raw text and whether it passed.\<close>

definition failure_signature :: "(str \<times> bool) list \<Rightarrow> review_verdict \<Rightarrow> str" where
  "failure_signature anchor_results verdict =
     (let failed = map fst (filter (\<lambda>r. \<not> snd r) anchor_results);
          anchor_part = (if failed = [] then ''no-anchors'' else join ''|'' (sort failed))
      in to_lowercase (verdict_as_str verdict) @ ''|'' @ anchor_part)"

record streak_entry =
  se_signature :: str
  se_count :: nat

datatype streak_outcome = StreakContinue nat | StreakTripped nat

definition unsure_gate_trips :: "review_verdict \<Rightarrow> streak_outcome \<Rightarrow> nat \<Rightarrow> bool" where
  "unsure_gate_trips verdict outcome max_unsure =
     (if verdict \<noteq> VUnsure \<or> max_unsure = 0 then False
      else case outcome of StreakContinue n \<Rightarrow> n \<ge> max_unsure | StreakTripped _ \<Rightarrow> False)"

text \<open>
  An instance keeps a snapshot; every operation first reloads the file, falling back to the
  snapshot when the file is missing or unreadable, and then writes the file.  The file is
  \<^verbatim>\<open>None\<close> when it cannot be read; \<^verbatim>\<open>can_save\<close> says whether a write succeeds.  The issue id is the key.
\<close>

type_synonym streaks = "int \<rightharpoonup> streak_entry"

record fail_streak_ledger =
  fl_inner :: streaks

definition ledger_reload :: "streaks option \<Rightarrow> fail_streak_ledger \<Rightarrow> fail_streak_ledger" where
  "ledger_reload disk l = (case disk of Some s \<Rightarrow> l\<lparr>fl_inner := s\<rparr> | None \<Rightarrow> l)"

definition ledger_load :: "streaks option \<Rightarrow> fail_streak_ledger" where
  "ledger_load disk = ledger_reload disk \<lparr>fl_inner = Map.empty\<rparr>"

definition ledger_save :: "bool \<Rightarrow> fail_streak_ledger \<Rightarrow> streaks option \<Rightarrow> streaks option" where
  "ledger_save can_save l disk = (if can_save then Some (fl_inner l) else disk)"

definition record_and_check ::
    "bool \<Rightarrow> streaks option \<Rightarrow> fail_streak_ledger \<Rightarrow> int \<Rightarrow> str \<Rightarrow> streak_outcome \<times> fail_streak_ledger \<times> streaks option" where
  "record_and_check can_save disk l issue_id signature =
     (let l1 = ledger_reload disk l;
          entry = (case fl_inner l1 issue_id of Some e \<Rightarrow> e | None \<Rightarrow> \<lparr>se_signature = signature, se_count = 0\<rparr>);
          entry1 = (if se_signature entry \<noteq> signature then \<lparr>se_signature = signature, se_count = 0\<rparr> else entry);
          entry2 = entry1\<lparr>se_count := Suc (se_count entry1)\<rparr>;
          l2 = l1\<lparr>fl_inner := (fl_inner l1)(issue_id \<mapsto> entry2)\<rparr>;
          n = se_count entry2
      in (if n \<ge> FAIL_STREAK_THRESHOLD then StreakTripped n else StreakContinue n,
          l2, ledger_save can_save l2 disk))"

definition ledger_clear ::
    "bool \<Rightarrow> streaks option \<Rightarrow> fail_streak_ledger \<Rightarrow> int \<Rightarrow> fail_streak_ledger \<times> streaks option" where
  "ledger_clear can_save disk l issue_id =
     (let l1 = ledger_reload disk l;
          l2 = l1\<lparr>fl_inner := (fl_inner l1)(issue_id := None)\<rparr>
      in if fl_inner l1 issue_id \<noteq> None then (l2, ledger_save can_save l2 disk) else (l2, disk))"

subsection \<open>The transition tables\<close>

lemma can_transition_iff: "can_transition f t \<longleftrightarrow> t \<in> set (allowed_targets f)"
  by (cases f; cases t) (simp_all add: can_transition_def)

lemma project_can_transition_iff: "project_can_transition f t \<longleftrightarrow> t \<in> set (project_allowed_targets f)"
  by (cases f; cases t) (simp_all add: project_can_transition_def)

lemma validate_transition_Inr_iff: "validate_transition f t = Inr () \<longleftrightarrow> can_transition f t"
  by (auto simp: validate_transition_def can_transition_def)

lemma status_from_as [simp]: "status_from_str (status_as_str s) = Some s"
  by (cases s) (simp_all add: status_from_str_def)

lemma project_from_as [simp]: "project_from_str (project_as_str s) = Some s"
  by (cases s) (simp_all add: project_from_str_def)

lemma status_from_str_Some: "status_from_str t = Some s \<longleftrightarrow> t = status_as_str s"
  by (cases s) (auto simp: status_from_str_def)

abbreviation issue_reach :: "issue_status \<Rightarrow> issue_status \<Rightarrow> bool" where
  "issue_reach \<equiv> can_transition\<^sup>*\<^sup>*"

lemma Done_stuck: "issue_reach Done t \<Longrightarrow> t = Done"
  by (erule converse_rtranclpE) (auto simp: can_transition_iff)

lemma reach_steps:
  "can_transition a b \<Longrightarrow> issue_reach a b"
  "can_transition a b \<Longrightarrow> can_transition b c \<Longrightarrow> issue_reach a c"
  by (blast, meson r_into_rtranclp rtranclp.rtrancl_into_rtrancl)

lemma reach_Done: "f \<noteq> Done \<Longrightarrow> issue_reach f Done"
proof (cases f)
  case Blocked then show ?thesis using reach_steps(2) [of Blocked Todo Done] by (simp add: can_transition_iff)
next
  case Cancelled then show ?thesis using reach_steps(2) [of Cancelled Backlog Done] by (simp add: can_transition_iff)
qed (simp_all add: reach_steps(1) can_transition_iff)

text \<open>
  The table of legal transitions of an issue and the list of targets shown with an error agree; the
  state \<^verbatim>\<open>done\<close> is left by none of them and is reachable from every state; the names of the states are
  read back as written, and nothing else is read as a state.
\<close>
theorem issue_transition_table:
  "(validate_transition f t = Inr () \<longleftrightarrow> t \<in> set (allowed_targets f)) \<and>
   (validate_transition f f = Inl (AlreadyIn f)) \<and>
   \<not> can_transition Done t \<and> issue_reach f Done \<and>
   (status_from_str n = Some f \<longleftrightarrow> n = status_as_str f)"
proof (intro conjI)
  show "issue_reach f Done" using reach_Done by (cases "f = Done") auto
qed (simp_all add: validate_transition_Inr_iff can_transition_iff status_from_str_Some,
     simp add: validate_transition_def)

text \<open>
  The comment on \<^verbatim>\<open>is_terminal\<close> says that a terminal state cannot be left, and it holds of \<^verbatim>\<open>cancelled\<close>; the
  transition table reopens a cancelled issue, and from there every state can be reached.
\<close>
theorem terminal_state_left:
  "status_is_terminal Cancelled \<and> can_transition Cancelled Backlog \<and> issue_reach Cancelled t"
proof -
  have "issue_reach Cancelled InReview"
    using reach_steps(2) [of Cancelled Backlog InProgress] reach_steps(1) [of InProgress InReview]
    by (simp add: can_transition_iff)
  then have "issue_reach Cancelled t"
    using reach_steps(1) [of Cancelled t] reach_steps(2) [of Cancelled Backlog t]
    by (cases t) (simp_all add: can_transition_iff)
  then show ?thesis by (simp add: status_is_terminal_def can_transition_iff)
qed

subsection \<open>Equal failures in a row\<close>

text \<open>
  Events of the ledger, each by an instance with a snapshot of its own; \<^verbatim>\<open>records_of\<close> lists the
  signatures recorded for an issue since it was last cleared.
\<close>

datatype streak_event = RecordFailure fail_streak_ledger int str | ClearStreak fail_streak_ledger int

fun streak_step :: "streaks option \<Rightarrow> streak_event \<Rightarrow> streaks option" where
  "streak_step disk (RecordFailure l i sig) = snd (snd (record_and_check True disk l i sig))"
| "streak_step disk (ClearStreak l i) = snd (ledger_clear True disk l i)"

definition streak_run :: "streak_event list \<Rightarrow> streaks option" where
  "streak_run evs = foldl streak_step (Some Map.empty) evs"

fun note_event :: "int \<Rightarrow> str list \<Rightarrow> streak_event \<Rightarrow> str list" where
  "note_event i sigs (RecordFailure l j sig) = (if i = j then sigs @ [sig] else sigs)"
| "note_event i sigs (ClearStreak l j) = (if i = j then [] else sigs)"

definition records_of :: "int \<Rightarrow> streak_event list \<Rightarrow> str list" where
  "records_of i evs = foldl (note_event i) [] evs"

definition entry_for :: "str list \<Rightarrow> streak_entry option" where
  "entry_for sigs =
     (if sigs = [] then None
      else Some \<lparr>se_signature = last sigs, se_count = length (takeWhile (\<lambda>s. s = last sigs) (rev sigs))\<rparr>)"

lemma record_on_entry:
  assumes "disk i = entry_for sigs"
  shows "record_and_check True (Some disk) l i sig =
    (let n = Suc (length (takeWhile (\<lambda>s. s = sig) (rev sigs))); d = disk(i \<mapsto> \<lparr>se_signature = sig, se_count = n\<rparr>)
     in (if n \<ge> FAIL_STREAK_THRESHOLD then StreakTripped n else StreakContinue n, l\<lparr>fl_inner := d\<rparr>, Some d))"
proof (cases "sigs = []")
  case True
  then show ?thesis using assms
    by (simp add: record_and_check_def ledger_reload_def ledger_save_def entry_for_def Let_def)
next
  case False
  then obtain ss s where s: "sigs = ss @ [s]" by (metis rev_exhaust)
  then show ?thesis using assms
    by (simp add: record_and_check_def ledger_reload_def ledger_save_def entry_for_def Let_def)
qed

lemma streak_run_entry: "\<exists>disk. streak_run evs = Some disk \<and> (\<forall>i. disk i = entry_for (records_of i evs))"
proof (induction evs rule: rev_induct)
  case Nil
  then show ?case by (simp add: streak_run_def records_of_def entry_for_def)
next
  case (snoc ev evs)
  then obtain disk where d: "streak_run evs = Some disk" "\<And>i. disk i = entry_for (records_of i evs)" by blast
  have r: "records_of i (evs @ [ev]) = note_event i (records_of i evs) ev" for i by (simp add: records_of_def)
  have s: "streak_run (evs @ [ev]) = streak_step (Some disk) ev" using d(1) by (simp add: streak_run_def)
  show ?case
  proof (cases ev)
    case (RecordFailure l j sig)
    then show ?thesis unfolding s r using record_on_entry [of disk j "records_of j evs" l sig] d(2)
      by (auto simp: Let_def entry_for_def)
  next
    case (ClearStreak l j)
    then show ?thesis unfolding s r using d(2)
      by (auto simp: ledger_clear_def ledger_reload_def ledger_save_def Let_def entry_for_def)
  qed
qed

text \<open>
  C0: whatever snapshots the instances hold and however their operations on different issues
  interleave, recording a failure counts exactly the equal signatures in a row for that issue since it
  was last cleared, and the automatic redispatch is stopped from the third one on.
\<close>
theorem streak_counts_equal_failures:
  "fst (record_and_check True (streak_run evs) l i sig) =
     (let n = Suc (length (takeWhile (\<lambda>s. s = sig) (rev (records_of i evs))))
      in if n \<ge> 3 then StreakTripped n else StreakContinue n)"
proof -
  obtain disk where d: "streak_run evs = Some disk" "disk i = entry_for (records_of i evs)"
    using streak_run_entry by blast
  show ?thesis unfolding d(1) record_on_entry [of disk i, OF d(2)] by (simp add: Let_def FAIL_STREAK_THRESHOLD_def)
qed

text \<open>The signature does not depend on the order in which the anchors were run.\<close>

lemma failure_signature_perm:
  assumes "mset rs = mset rs'"
  shows "failure_signature rs v = failure_signature rs' v"
proof -
  let ?failed = "\<lambda>rs. map fst (filter (\<lambda>r. \<not> snd r) rs) :: str list"
  have "mset (?failed rs) = mset (?failed rs')" using assms by (simp add: mset_filter)
  then have "sort (?failed rs) = sort (?failed rs')" "?failed rs = [] \<longleftrightarrow> ?failed rs' = []"
    by (metis sorted_list_of_multiset_mset, metis mset_zero_iff)
  then show ?thesis by (simp add: failure_signature_def Let_def)
qed

end
