(* ===== verification/BoardStore.thy ===== *)
theory BoardStore
  imports BoardFlow
begin

text \<open>
  The store of the board (nemesis-board: store.rs): issues with their audit trail, and the dispatch
  records that bind an issue to a task of a worker.  The tables are lists of rows in the order of
  insertion.  An operation is one critical section under the lock of the connection; a transaction
  that returns an error leaves the tables as they were, so an operation returns either an error
  or a value with the new tables.  Failures of the database itself are not modelled.  Left out of an
  issue are the columns that no modelled operation reads or changes (origin, requirements,
  creation time).
\<close>

subsection \<open>Rows\<close>

datatype assignment_type = ManagerSelf | Worker

fun assignment_as_str :: "assignment_type \<Rightarrow> str" where
  "assignment_as_str ManagerSelf = ''manager_self''"
| "assignment_as_str Worker = ''worker''"

datatype actor = Actor (a_kind: str) (a_id: str)

type_synonym issue_number = "str \<times> int"

record issue =
  i_id :: int
  i_number :: issue_number
  i_title :: str
  i_description :: str
  i_status :: issue_status
  i_priority :: int
  i_assignee :: "assignment_type option"
  i_assignee_id :: "str option"
  i_creator :: actor
  i_parent :: "int option"
  i_project :: "int option"
  i_due_date :: "int option"
  i_position :: int
  i_criteria :: "str option"
  i_hidden :: bool
  i_updated_at :: int

datatype comment_type = CtStatusChange | CtSystem

datatype comment_text =
    StatusNote issue_status issue_status
  | SkippedReview issue_status actor
  | Reopened issue_number str actor
  | AuditRollback
  | DoneRollback str

record comment =
  c_issue :: int
  c_author :: actor
  c_content :: comment_text
  c_type :: comment_type
  c_at :: int

datatype activity_detail =
    CreatedAs issue_number
  | AssignedFrom str "(assignment_type \<times> str) option"
  | FieldsChanged "str list"
  | StatusFromTo issue_status issue_status "int option"
  | ReorderedTo int
  | RolledBackTo issue_status "str option"
  | ArchivedIssue issue_number str
  | AuditRollbackOf int
  | DoneRollbackFor str
  | ForTask str "str option"
  | TaskTimeout str str

record activity =
  v_id :: int
  v_issue :: int
  v_actor :: actor
  v_action :: str
  v_detail :: activity_detail
  v_at :: int

record notification =
  n_recipient :: actor
  n_kind :: str
  n_title :: "issue_number \<times> str"
  n_issue :: int
  n_at :: int

datatype dispatch_state = Dispatched | Running | DispatchDone | DispatchFailed | DispatchCancelled

record dispatch =
  d_task :: str
  d_issue :: int
  d_worker :: str
  d_state :: dispatch_state
  d_dispatched_at :: int
  d_completed_at :: "int option"

record board =
  b_issues :: "issue list"
  b_next_id :: int
  b_counter :: int
  b_prefix :: str
  b_projects :: "int list"
  b_deps :: "(int \<times> int) list"
  b_comments :: "comment list"
  b_activities :: "activity list"
  b_notifications :: "notification list"
  b_subscribers :: "(int \<times> actor \<times> str) list"
  b_dispatches :: "dispatch list"

datatype store_error =
    EmptyIssueTitle
  | AssigneeRequiresId assignment_type
  | AssigneeTogether
  | IssueNotFound int
  | ParentIsSelf int
  | ParentMissing int
  | ParentCycle int int
  | ProjectMissing int
  | BadTransition "issue_status transition_error"
  | NotCancelled issue_number issue_status
  | ParentCancelled issue_number
  | UpstreamCancelled issue_number
  | ActivityMissing int
  | NotADecision int str
  | NotDone issue_number issue_status
  | ConstraintFailed
  | BadDispatchState dispatch_state

type_synonym 'a store_result = "store_error + ('a \<times> board)"

subsection \<open>Rows of the audit trail\<close>

definition insert_comment :: "int \<Rightarrow> actor \<Rightarrow> comment_text \<Rightarrow> comment_type \<Rightarrow> int \<Rightarrow> board \<Rightarrow> board" where
  "insert_comment i author content ct now b =
     b\<lparr>b_comments := b_comments b @
         [\<lparr>c_issue = i, c_author = author, c_content = content, c_type = ct, c_at = now\<rparr>]\<rparr>"

definition insert_activity :: "int \<Rightarrow> actor \<Rightarrow> str \<Rightarrow> activity_detail \<Rightarrow> int \<Rightarrow> board \<Rightarrow> board" where
  "insert_activity i who action detail now b =
     b\<lparr>b_activities := b_activities b @
         [\<lparr>v_id = int (length (b_activities b)) + 1, v_issue = i, v_actor = who, v_action = action,
           v_detail = detail, v_at = now\<rparr>]\<rparr>"

definition insert_notification :: "actor \<Rightarrow> str \<Rightarrow> issue \<Rightarrow> int \<Rightarrow> board \<Rightarrow> board" where
  "insert_notification recipient kind old now b =
     b\<lparr>b_notifications := b_notifications b @
         [\<lparr>n_recipient = recipient, n_kind = kind, n_title = (i_number old, i_title old),
           n_issue = i_id old, n_at = now\<rparr>]\<rparr>"

definition insert_subscriber :: "int \<Rightarrow> actor \<Rightarrow> str \<Rightarrow> board \<Rightarrow> board" where
  "insert_subscriber i who reason b =
     b\<lparr>b_subscribers :=
         (if list_ex (\<lambda>(j, w, _). j = i \<and> w = who) (b_subscribers b)
          then map (\<lambda>(j, w, r). if j = i \<and> w = who then (j, w, reason) else (j, w, r)) (b_subscribers b)
          else b_subscribers b @ [(i, who, reason)])\<rparr>"

definition get_issue :: "board \<Rightarrow> int \<Rightarrow> store_error + issue" where
  "get_issue b i = (case find (\<lambda>r. i_id r = i) (b_issues b) of Some r \<Rightarrow> Inr r | None \<Rightarrow> Inl (IssueNotFound i))"

definition set_issue :: "int \<Rightarrow> (issue \<Rightarrow> issue) \<Rightarrow> board \<Rightarrow> board" where
  "set_issue i f b = b\<lparr>b_issues := map (\<lambda>r. if i_id r = i then f r else r) (b_issues b)\<rparr>"

subsection \<open>References\<close>

definition parent_of_row :: "board \<Rightarrow> int \<Rightarrow> int option" where
  "parent_of_row b i = (case get_issue b i of Inr r \<Rightarrow> i_parent r | Inl _ \<Rightarrow> None)"

text \<open>The walk along the parents, at most as many steps as the first argument says.\<close>

fun chain_reaches :: "nat \<Rightarrow> board \<Rightarrow> int option \<Rightarrow> int \<Rightarrow> bool" where
  "chain_reaches 0 b self cursor = False"
| "chain_reaches (Suc n) b self cursor =
     (case parent_of_row b cursor of
        None \<Rightarrow> False
      | Some p \<Rightarrow> if Some p = self then True else chain_reaches n b self p)"

definition validate_issue_refs :: "board \<Rightarrow> int option \<Rightarrow> int option \<Rightarrow> int option \<Rightarrow> store_error + unit" where
  "validate_issue_refs b parent project self =
     and_then (case parent of
                 None \<Rightarrow> Inr ()
               | Some pid \<Rightarrow>
                   if Some pid = self then Inl (ParentIsSelf pid)
                   else if \<not> list_ex (\<lambda>r. i_id r = pid) (b_issues b) then Inl (ParentMissing pid)
                   else if chain_reaches 64 b self pid then Inl (ParentCycle pid (case self of Some s \<Rightarrow> s | None \<Rightarrow> 0))
                   else Inr ()) (\<lambda>_.
     case project of
       None \<Rightarrow> Inr ()
     | Some proj \<Rightarrow> if proj \<in> set (b_projects b) then Inr () else Inl (ProjectMissing proj))"

subsection \<open>Creating and editing\<close>

record new_issue =
  ni_title :: str
  ni_description :: str
  ni_priority :: int
  ni_assignee :: "assignment_type option"
  ni_assignee_id :: "str option"
  ni_creator :: actor
  ni_parent :: "int option"
  ni_project :: "int option"
  ni_due_date :: "int option"
  ni_criteria :: "str option"

definition blank_id :: "str option \<Rightarrow> bool" where
  "blank_id x \<longleftrightarrow> (case x of None \<Rightarrow> True | Some s \<Rightarrow> trim s = [])"

text \<open>
  The text that is derived when the acceptance criteria are blank (ac_gen.rs) is an argument: a
  function of the title and the description.
\<close>

definition create_issue :: "(str \<Rightarrow> str \<Rightarrow> str option) \<Rightarrow> int \<Rightarrow> new_issue \<Rightarrow> board \<Rightarrow> issue store_result" where
  "create_issue generate_criteria now new b =
     (if trim (ni_title new) = [] then Inl EmptyIssueTitle
      else case (ni_assignee new, blank_id (ni_assignee_id new)) of
        (Some at, True) \<Rightarrow> Inl (AssigneeRequiresId at)
      | _ \<Rightarrow>
          let criteria = (if blank_id (ni_criteria new)
                          then generate_criteria (trim (ni_title new)) (trim (ni_description new))
                          else ni_criteria new);
              counter = b_counter b + 1;
              number = (b_prefix b, counter);
              i = b_next_id b in
          and_then (validate_issue_refs b (ni_parent new) (ni_project new) None) (\<lambda>_.
            let row = \<lparr>i_id = i, i_number = number, i_title = ni_title new, i_description = ni_description new,
                       i_status = Backlog, i_priority = ni_priority new, i_assignee = ni_assignee new,
                       i_assignee_id = ni_assignee_id new, i_creator = ni_creator new, i_parent = ni_parent new,
                       i_project = ni_project new, i_due_date = ni_due_date new, i_position = counter,
                       i_criteria = criteria, i_hidden = False, i_updated_at = now\<rparr>;
                b1 = b\<lparr>b_issues := b_issues b @ [row], b_next_id := i + 1, b_counter := counter\<rparr>;
                b2 = insert_subscriber i (ni_creator new) ''creator''
                       (insert_activity i (ni_creator new) ''created'' (CreatedAs number) now b1);
                b3 = (case (ni_assignee new, ni_assignee_id new) of
                        (Some at, Some aid) \<Rightarrow>
                          insert_subscriber i (Actor (assignment_as_str at) aid) ''assignee''
                            (insert_activity i (ni_creator new) ''assigned''
                               (AssignedFrom (a_id (ni_creator new)) (Some (at, aid))) now b2)
                      | _ \<Rightarrow> b2)
            in Inr (row, b3)))"

record issue_patch =
  p_title :: "str option"
  p_description :: "str option"
  p_priority :: "int option"
  p_project :: "int option"
  p_due_date :: "int option"
  p_position :: "int option"
  p_criteria :: "str option"
  p_parent :: "int option"

definition patched :: "'a \<Rightarrow> 'a option \<Rightarrow> 'a" where
  "patched old new = (case new of Some v \<Rightarrow> v | None \<Rightarrow> old)"

definition patched_opt :: "'a option \<Rightarrow> 'a option \<Rightarrow> 'a option" where
  "patched_opt old new = (case new of Some v \<Rightarrow> Some v | None \<Rightarrow> old)"

definition changed_by :: "str \<Rightarrow> 'a \<Rightarrow> 'a option \<Rightarrow> str list" where
  "changed_by name old new = (case new of Some v \<Rightarrow> if v \<noteq> old then [name] else [] | None \<Rightarrow> [])"

definition changed_opt_by :: "str \<Rightarrow> 'a option \<Rightarrow> 'a option \<Rightarrow> str list" where
  "changed_opt_by name old new = (case new of Some v \<Rightarrow> if old \<noteq> Some v then [name] else [] | None \<Rightarrow> [])"

definition patch_changes :: "issue \<Rightarrow> issue_patch \<Rightarrow> str list" where
  "patch_changes old patch =
     changed_by ''title'' (i_title old) (p_title patch) @
     changed_by ''description'' (i_description old) (p_description patch) @
     changed_by ''priority'' (i_priority old) (p_priority patch) @
     changed_opt_by ''project_id'' (i_project old) (p_project patch) @
     changed_opt_by ''due_date'' (i_due_date old) (p_due_date patch) @
     changed_by ''position'' (i_position old) (p_position patch) @
     changed_opt_by ''acceptance_criteria'' (i_criteria old) (p_criteria patch) @
     changed_opt_by ''parent_issue_id'' (i_parent old) (p_parent patch)"

definition patched_row :: "int \<Rightarrow> issue \<Rightarrow> issue_patch \<Rightarrow> issue \<Rightarrow> issue" where
  "patched_row now old patch r =
     r\<lparr>i_title := patched (i_title old) (p_title patch),
       i_description := patched (i_description old) (p_description patch),
       i_priority := patched (i_priority old) (p_priority patch),
       i_project := patched_opt (i_project old) (p_project patch),
       i_due_date := patched_opt (i_due_date old) (p_due_date patch),
       i_position := patched (i_position old) (p_position patch),
       i_criteria := patched_opt (i_criteria old) (p_criteria patch),
       i_parent := patched_opt (i_parent old) (p_parent patch),
       i_updated_at := now\<rparr>"

definition update_issue :: "int \<Rightarrow> int \<Rightarrow> issue_patch \<Rightarrow> actor \<Rightarrow> board \<Rightarrow> unit store_result" where
  "update_issue now i patch who b =
     and_then (get_issue b i) (\<lambda>old.
       let changes = patch_changes old patch in
       and_then (if ''parent_issue_id'' \<in> set changes \<or> ''project_id'' \<in> set changes
                 then validate_issue_refs b (patched_opt (i_parent old) (p_parent patch))
                        (patched_opt (i_project old) (p_project patch)) (Some i)
                 else Inr ()) (\<lambda>_.
         let b1 = set_issue i (patched_row now old patch) b
         in Inr ((), if changes = [] then b1 else insert_activity i who ''updated'' (FieldsChanged changes) now b1)))"

lemma patched_row_fields [simp]:
  "i_id (patched_row now old patch r) = i_id r" "i_status (patched_row now old patch r) = i_status r"
  "i_parent (patched_row now old patch r) = patched_opt (i_parent old) (p_parent patch)"
  "i_number (patched_row now old patch r) = i_number r"
  by (simp_all add: patched_row_def)

subsection \<open>Changing the state of an issue\<close>

definition notify_assignee :: "issue \<Rightarrow> actor \<Rightarrow> int \<Rightarrow> board \<Rightarrow> board" where
  "notify_assignee old who now b =
     (case (i_assignee old, i_assignee_id old) of
        (Some at, Some aid) \<Rightarrow>
          if Actor (assignment_as_str at) aid \<noteq> who
          then insert_notification (Actor (assignment_as_str at) aid) ''status_changed'' old now b else b
      | _ \<Rightarrow> b)"

definition checked_transition :: "issue_status \<Rightarrow> issue_status \<Rightarrow> store_error + unit" where
  "checked_transition f t = (case validate_transition f t of Inl e \<Rightarrow> Inl (BadTransition e) | Inr _ \<Rightarrow> Inr ())"

definition transition_issue :: "int \<Rightarrow> int \<Rightarrow> issue_status \<Rightarrow> actor \<Rightarrow> board \<Rightarrow> unit store_result" where
  "transition_issue now i to who b =
     and_then (get_issue b i) (\<lambda>old.
     and_then (checked_transition (i_status old) to) (\<lambda>_.
       let b1 = set_issue i (\<lambda>r. r\<lparr>i_status := to, i_updated_at := now\<rparr>) b;
           b2 = insert_comment i who (StatusNote (i_status old) to) CtStatusChange now b1;
           b3 = (if to = Done \<and> i_status old \<noteq> InReview \<and> a_kind who \<noteq> ''agent''
                 then insert_comment i (Actor ''system'' ''audit'') (SkippedReview (i_status old) who) CtSystem now b2
                 else b2);
           b4 = insert_activity i who ''status_changed'' (StatusFromTo (i_status old) to None) now b3
       in Inr ((), notify_assignee old who now b4)))"

definition is_active :: "dispatch \<Rightarrow> bool" where
  "is_active d \<longleftrightarrow> d_state d = Dispatched \<or> d_state d = Running"

definition has_active_dispatch :: "board \<Rightarrow> int \<Rightarrow> bool" where
  "has_active_dispatch b i \<longleftrightarrow> list_ex (\<lambda>d. d_issue d = i \<and> is_active d) (b_dispatches b)"

definition rollback_dispatch_failure ::
    "int \<Rightarrow> int \<Rightarrow> issue_status \<Rightarrow> assignment_type option \<Rightarrow> str option \<Rightarrow> actor \<Rightarrow> board \<Rightarrow> bool store_result" where
  "rollback_dispatch_failure now i prev prev_assignee prev_assignee_id who b =
     and_then (get_issue b i) (\<lambda>old.
       if i_status old \<noteq> InProgress \<or> prev = InProgress then Inr (False, b)
       else if has_active_dispatch b i then Inr (False, b)
       else Inr (True,
              insert_activity i who ''dispatch_rolled_back'' (RolledBackTo prev prev_assignee_id) now
                (set_issue i (\<lambda>r. r\<lparr>i_status := prev, i_assignee := prev_assignee,
                   i_assignee_id := prev_assignee_id, i_updated_at := now\<rparr>) b)))"

definition dependencies_of :: "board \<Rightarrow> int \<Rightarrow> int list" where
  "dependencies_of b i = sort (map snd (filter (\<lambda>(x, _). x = i) (b_deps b)))"

fun upstream_alive :: "board \<Rightarrow> int list \<Rightarrow> store_error + unit" where
  "upstream_alive b [] = Inr ()"
| "upstream_alive b (u # us) =
     and_then (get_issue b u) (\<lambda>up. if i_status up = Cancelled then Inl (UpstreamCancelled (i_number up))
                                    else upstream_alive b us)"

definition parent_alive :: "board \<Rightarrow> int option \<Rightarrow> store_error + unit" where
  "parent_alive b p =
     (case p of
        None \<Rightarrow> Inr ()
      | Some pid \<Rightarrow> and_then (get_issue b pid) (\<lambda>parent.
          if i_status parent = Cancelled then Inl (ParentCancelled (i_number parent)) else Inr ()))"

definition reopen_issue :: "int \<Rightarrow> int \<Rightarrow> actor \<Rightarrow> board \<Rightarrow> unit store_result" where
  "reopen_issue now i who b =
     and_then (get_issue b i) (\<lambda>old.
       if i_status old \<noteq> Cancelled then Inl (NotCancelled (i_number old) (i_status old))
       else and_then (parent_alive b (i_parent old)) (\<lambda>_.
            and_then (upstream_alive b (dependencies_of b i)) (\<lambda>_.
            and_then (transition_issue now i Backlog who b) (\<lambda>(_, b1).
              Inr ((), insert_comment i (Actor ''system'' ''board'') (Reopened (i_number old) (i_title old) who) CtSystem now
                         (set_issue i (\<lambda>r. if i_hidden r then r\<lparr>i_hidden := False, i_updated_at := now\<rparr> else r) b1))))))"

definition assign_issue :: "int \<Rightarrow> int \<Rightarrow> assignment_type option \<Rightarrow> str option \<Rightarrow> actor \<Rightarrow> board \<Rightarrow> unit store_result" where
  "assign_issue now i assignee assignee_id who b =
     (case (assignee, blank_id assignee_id) of
        (Some at, True) \<Rightarrow> Inl (AssigneeRequiresId at)
      | _ \<Rightarrow>
          if (assignee = None) \<noteq> (assignee_id = None) then Inl AssigneeTogether
          else and_then (get_issue b i) (\<lambda>old.
            let b1 = set_issue i (\<lambda>r. r\<lparr>i_assignee := assignee, i_assignee_id := assignee_id, i_updated_at := now\<rparr>) b;
                b2 = insert_activity i who ''assigned''
                       (AssignedFrom (a_id who) (case (assignee, assignee_id) of
                          (Some at, Some aid) \<Rightarrow> Some (at, aid) | _ \<Rightarrow> None)) now b1
            in Inr ((), case (assignee, assignee_id) of
                 (Some at, Some aid) \<Rightarrow>
                   let new = Actor (assignment_as_str at) aid;
                       b3 = insert_subscriber i new ''assignee'' b2
                   in if (i_assignee old \<noteq> assignee \<or> i_assignee_id old \<noteq> assignee_id) \<and> new \<noteq> who
                      then insert_notification new ''assigned'' old now b3 else b3
               | _ \<Rightarrow> b2)))"

definition move_issue :: "int \<Rightarrow> int \<Rightarrow> issue_status \<Rightarrow> int \<Rightarrow> actor \<Rightarrow> board \<Rightarrow> unit store_result" where
  "move_issue now i to position who b =
     and_then (get_issue b i) (\<lambda>old.
     and_then (if i_status old \<noteq> to then checked_transition (i_status old) to else Inr ()) (\<lambda>_.
       let b1 = set_issue i (\<lambda>r. r\<lparr>i_status := to, i_position := position, i_updated_at := now\<rparr>) b
       in Inr ((), if i_status old \<noteq> to
                   then notify_assignee old who now
                          (insert_activity i who ''status_changed'' (StatusFromTo (i_status old) to (Some position)) now
                            (insert_comment i who (StatusNote (i_status old) to) CtStatusChange now b1))
                   else insert_activity i who ''reordered'' (ReorderedTo position) now b1)))"

fun bulk_archive_loop :: "int \<Rightarrow> actor \<Rightarrow> int list \<Rightarrow> board \<Rightarrow> store_error + board" where
  "bulk_archive_loop now who [] b = Inr b"
| "bulk_archive_loop now who (i # is) b =
     and_then (get_issue b i) (\<lambda>old.
       if i_status old \<noteq> Cancelled then Inl (NotCancelled (i_number old) (i_status old))
       else bulk_archive_loop now who is
              (insert_activity i who ''issue_bulk_archive'' (ArchivedIssue (i_number old) (i_title old)) now
                (set_issue i (\<lambda>r. r\<lparr>i_hidden := True, i_updated_at := now\<rparr>) b)))"

definition bulk_archive_cancelled :: "int \<Rightarrow> int list \<Rightarrow> actor \<Rightarrow> board \<Rightarrow> unit store_result" where
  "bulk_archive_cancelled now is who b = and_then (bulk_archive_loop now who is b) (\<lambda>b'. Inr ((), b'))"

definition rollback_decision :: "int \<Rightarrow> int \<Rightarrow> board \<Rightarrow> unit store_result" where
  "rollback_decision now activity_id b =
     (case find (\<lambda>a. v_id a = activity_id) (b_activities b) of
        None \<Rightarrow> Inl (ActivityMissing activity_id)
      | Some a \<Rightarrow>
          if v_action a \<noteq> ''auto_decide'' then Inl (NotADecision activity_id (v_action a))
          else and_then (get_issue b (v_issue a)) (\<lambda>old.
            if i_status old \<noteq> Done then Inl (NotDone (i_number old) (i_status old))
            else Inr ((), insert_activity (i_id old) (Actor ''system'' ''board-audit'') ''status_changed''
                            (AuditRollbackOf activity_id) now
                            (insert_comment (i_id old) (Actor ''system'' ''board-audit'') AuditRollback CtSystem now
                              (set_issue (i_id old) (\<lambda>r. r\<lparr>i_status := InReview, i_updated_at := now\<rparr>) b)))))"

definition rollback_done_to_in_review :: "int \<Rightarrow> int \<Rightarrow> str \<Rightarrow> board \<Rightarrow> bool store_result" where
  "rollback_done_to_in_review now i reason b =
     and_then (get_issue b i) (\<lambda>old.
       if i_status old \<noteq> Done then Inr (False, b)
       else Inr (True, insert_activity i (Actor ''system'' ''board-archive'') ''status_changed'' (DoneRollbackFor reason) now
                         (insert_comment i (Actor ''system'' ''board-archive'') (DoneRollback reason) CtSystem now
                           (set_issue i (\<lambda>r. r\<lparr>i_status := InReview, i_updated_at := now\<rparr>) b))))"

subsection \<open>Dispatches\<close>

text \<open>
  The task is the primary key of the table and the issue a foreign key, so the insertion fails for a
  known task and for an unknown issue.
\<close>

definition insert_dispatch_locked :: "int \<Rightarrow> str \<Rightarrow> int \<Rightarrow> str \<Rightarrow> actor \<Rightarrow> board \<Rightarrow> store_error + board" where
  "insert_dispatch_locked now task i worker who b =
     (if list_ex (\<lambda>d. d_task d = task) (b_dispatches b) \<or> \<not> list_ex (\<lambda>r. i_id r = i) (b_issues b)
      then Inl ConstraintFailed
      else Inr (insert_activity i who ''dispatched'' (ForTask task (Some worker)) now
                 (b\<lparr>b_dispatches := b_dispatches b @
                      [\<lparr>d_task = task, d_issue = i, d_worker = worker, d_state = Dispatched,
                        d_dispatched_at = now, d_completed_at = None\<rparr>]\<rparr>)))"

definition try_claim_dispatch :: "int \<Rightarrow> str \<Rightarrow> int \<Rightarrow> str \<Rightarrow> actor \<Rightarrow> board \<Rightarrow> bool store_result" where
  "try_claim_dispatch now task i worker who b =
     (if has_active_dispatch b i then Inr (False, b)
      else and_then (insert_dispatch_locked now task i worker who b) (\<lambda>b'. Inr (True, b')))"

definition insert_dispatch :: "int \<Rightarrow> str \<Rightarrow> int \<Rightarrow> str \<Rightarrow> actor \<Rightarrow> board \<Rightarrow> unit store_result" where
  "insert_dispatch now task i worker who b =
     and_then (insert_dispatch_locked now task i worker who b) (\<lambda>b'. Inr ((), b'))"

definition get_dispatch :: "board \<Rightarrow> str \<Rightarrow> dispatch option" where
  "get_dispatch b task = find (\<lambda>d. d_task d = task) (b_dispatches b)"

text \<open>The update that ends a dispatch: rows of the task in one of the two active states.\<close>

definition settle :: "int \<Rightarrow> str \<Rightarrow> dispatch_state \<Rightarrow> board \<Rightarrow> bool \<times> board" where
  "settle now task state b =
     (list_ex (\<lambda>d. d_task d = task \<and> is_active d) (b_dispatches b),
      b\<lparr>b_dispatches := map (\<lambda>d. if d_task d = task \<and> is_active d
          then d\<lparr>d_state := state, d_completed_at := Some now\<rparr> else d) (b_dispatches b)\<rparr>)"

definition finish_dispatch :: "int \<Rightarrow> str \<Rightarrow> dispatch_state \<Rightarrow> board \<Rightarrow> bool store_result" where
  "finish_dispatch now task state b =
     (if state \<noteq> DispatchDone \<and> state \<noteq> DispatchFailed then Inl (BadDispatchState state)
      else Inr (settle now task state b))"

definition mark_dispatch_running :: "str \<Rightarrow> str \<Rightarrow> board \<Rightarrow> bool store_result" where
  "mark_dispatch_running task worker b =
     (let hit = (\<lambda>d. d_task d = task \<and> d_worker d = worker \<and> d_state d = Dispatched)
      in Inr (list_ex hit (b_dispatches b),
              b\<lparr>b_dispatches := map (\<lambda>d. if hit d then d\<lparr>d_state := Running\<rparr> else d) (b_dispatches b)\<rparr>))"

definition end_dispatch ::
    "int \<Rightarrow> str \<Rightarrow> dispatch_state \<Rightarrow> actor \<Rightarrow> str \<Rightarrow> activity_detail \<Rightarrow> board \<Rightarrow> dispatch option store_result" where
  "end_dispatch now task state who action detail b =
     (case settle now task state b of
        (False, _) \<Rightarrow> Inr (None, b)
      | (True, b1) \<Rightarrow>
          (case get_dispatch b1 task of
             None \<Rightarrow> Inr (None, b)
           | Some d \<Rightarrow> let b2 = insert_activity (d_issue d) who action detail now b1
                       in Inr (get_dispatch b2 task, b2)))"

definition cancel_dispatch :: "int \<Rightarrow> str \<Rightarrow> actor \<Rightarrow> board \<Rightarrow> dispatch option store_result" where
  "cancel_dispatch now task who b =
     end_dispatch now task DispatchCancelled who ''dispatch_cancelled'' (ForTask task None) b"

definition fail_dispatch :: "int \<Rightarrow> str \<Rightarrow> str \<Rightarrow> board \<Rightarrow> dispatch option store_result" where
  "fail_dispatch now task details b =
     end_dispatch now task DispatchFailed (Actor ''system'' ''board'') ''dispatch_timeout'' (TaskTimeout task details) b"

definition get_active_dispatch :: "board \<Rightarrow> int \<Rightarrow> dispatch option" where
  "get_active_dispatch b i = find (\<lambda>d. d_issue d = i \<and> is_active d) (rev (b_dispatches b))"

definition count_active_dispatch_by_worker :: "board \<Rightarrow> str \<Rightarrow> nat option" where
  "count_active_dispatch_by_worker b w =
     (let n = length (filter (\<lambda>d. d_worker d = w \<and> is_active d) (b_dispatches b)) in if n = 0 then None else Some n)"

definition send_failure_backoff_secs :: "nat \<Rightarrow> nat" where
  "send_failure_backoff_secs attempts =
     (if attempts = 0 then 0 else if attempts = 1 then 60 else if attempts = 2 then 120
      else if attempts = 3 then 240 else if attempts = 4 then 480 else if attempts = 5 then 960 else 1800)"

subsection \<open>Dependencies and descendants\<close>

fun insert_deps :: "int \<Rightarrow> int list \<Rightarrow> board \<Rightarrow> store_error + board" where
  "insert_deps i [] b = Inr b"
| "insert_deps i (dep # deps) b =
     (if (i, dep) \<in> set (b_deps b) then insert_deps i deps b
      else if list_ex (\<lambda>r. i_id r = i) (b_issues b) \<and> list_ex (\<lambda>r. i_id r = dep) (b_issues b)
      then insert_deps i deps (b\<lparr>b_deps := b_deps b @ [(i, dep)]\<rparr>)
      else Inl ConstraintFailed)"

definition set_issue_dependencies :: "int \<Rightarrow> int list \<Rightarrow> board \<Rightarrow> unit store_result" where
  "set_issue_dependencies i deps b =
     and_then (insert_deps i deps (b\<lparr>b_deps := filter (\<lambda>(x, _). x \<noteq> i) (b_deps b)\<rparr>)) (\<lambda>b'. Inr ((), b'))"

definition dependents_of :: "board \<Rightarrow> int \<Rightarrow> int list" where
  "dependents_of b i = sort (map fst (filter (\<lambda>(_, d). d = i) (b_deps b)))"

definition list_children :: "board \<Rightarrow> int \<Rightarrow> issue list" where
  "list_children b i = sort_key i_id (filter (\<lambda>r. i_parent r = Some i) (b_issues b))"

datatype descendant_edges = Subtree | CascadeUnion

definition next_ids :: "board \<Rightarrow> descendant_edges \<Rightarrow> int \<Rightarrow> int list" where
  "next_ids b edges cur =
     (if edges = CascadeUnion then dependents_of b cur else []) @ map i_id (list_children b cur)"

type_synonym bfs_state = "int list \<times> int list \<times> issue list"

fun absorb :: "board \<Rightarrow> int list \<Rightarrow> bfs_state \<Rightarrow> bfs_state" where
  "absorb b [] st = st"
| "absorb b (i # is) (visited, queue, out) =
     (if i \<in> set visited then absorb b is (visited, queue, out)
      else (case get_issue b i of
              Inr r \<Rightarrow> absorb b is (i # visited, queue @ [i], out @ [r])
            | Inl _ \<Rightarrow> absorb b is (i # visited, queue, out)))"

definition unseen :: "board \<Rightarrow> int list \<Rightarrow> nat" where
  "unseen b visited = card (i_id ` set (b_issues b) - set visited)"

lemma get_issue_Inr: "get_issue b i = Inr r \<Longrightarrow> r \<in> set (b_issues b) \<and> i_id r = i"
  by (auto simp: get_issue_def find_Some_iff split: option.splits)

lemma get_issue_Inl: "get_issue b i = Inl e \<Longrightarrow> i \<notin> i_id ` set (b_issues b)"
  by (auto simp: get_issue_def find_None_iff split: option.splits)

lemma unseen_Cons_known: "i \<in> i_id ` set (b_issues b) \<Longrightarrow> i \<notin> set visited \<Longrightarrow> Suc (unseen b (i # visited)) = unseen b visited"
proof -
  assume "i \<in> i_id ` set (b_issues b)" "i \<notin> set visited"
  then have "i_id ` set (b_issues b) - set visited = insert i (i_id ` set (b_issues b) - set (i # visited))" by auto
  then have "unseen b visited = card (insert i (i_id ` set (b_issues b) - set (i # visited)))"
    unfolding unseen_def by (rule arg_cong)
  also have "\<dots> = Suc (unseen b (i # visited))" unfolding unseen_def by (subst card_insert_disjoint) auto
  finally show ?thesis by simp
qed

lemma unseen_Cons_unknown: "i \<notin> i_id ` set (b_issues b) \<Longrightarrow> unseen b (i # visited) = unseen b visited"
  unfolding unseen_def by (rule arg_cong [where f = card]) auto

lemma absorb_measure:
  "absorb b is (visited, queue, out) = (v, q, found) \<Longrightarrow> unseen b v + length q = unseen b visited + length queue"
proof (induction b "is" "(visited, queue, out)" arbitrary: visited queue out rule: absorb.induct)
  case (2 b i "is" visited queue out)
  show ?case
  proof (cases "i \<in> set visited")
    case True then show ?thesis using 2(1,4) by simp
  next
    case False
    show ?thesis
    proof (cases "get_issue b i")
      case (Inr r)
      then have "i \<in> i_id ` set (b_issues b)" using get_issue_Inr by blast
      then have "unseen b v + length q = unseen b (i # visited) + length (queue @ [i])"
        using 2(2,3,4) False Inr by fastforce
      then show ?thesis using unseen_Cons_known [of i b visited] False \<open>i \<in> i_id ` set (b_issues b)\<close> by simp
    next
      case (Inl e)
      then have "unseen b v + length q = unseen b (i # visited) + length queue"
        using 2(2,3,4) False Inl by fastforce
      then show ?thesis using unseen_Cons_unknown [OF get_issue_Inl [OF Inl]] by simp
    qed
  qed
qed simp

function bfs :: "board \<Rightarrow> descendant_edges \<Rightarrow> bfs_state \<Rightarrow> issue list" where
  "bfs b edges (visited, [], out) = out"
| "bfs b edges (visited, cur # queue, out) = bfs b edges (absorb b (next_ids b edges cur) (visited, queue, out))"
  by pat_completeness auto
termination
proof (relation "measure (\<lambda>(b, edges, visited, queue, out). unseen b visited + length queue)", goal_cases)
  case (2 b edges visited cur queue out)
  obtain v q f where a: "absorb b (next_ids b edges cur) (visited, queue, out) = (v, q, f)" by (metis prod_cases3)
  show ?case using absorb_measure [OF a] by (simp add: a)
qed simp

definition descendants :: "board \<Rightarrow> int list \<Rightarrow> descendant_edges \<Rightarrow> issue list" where
  "descendants b root_ids edges = bfs b edges (root_ids, root_ids, [])"

subsection \<open>The search finds the descendants\<close>

definition edge_rel :: "board \<Rightarrow> descendant_edges \<Rightarrow> (int \<times> int) set" where
  "edge_rel b edges = {(a, x). x \<in> set (next_ids b edges a) \<and> x \<in> i_id ` set (b_issues b)}"

definition below :: "board \<Rightarrow> descendant_edges \<Rightarrow> int set \<Rightarrow> int set" where
  "below b edges roots = {x. \<exists>r \<in> roots. (r, x) \<in> (edge_rel b edges)\<^sup>+}"

lemma below_step:
  "cur \<in> roots \<union> below b edges roots \<Longrightarrow> i \<in> set (next_ids b edges cur) \<Longrightarrow> i \<in> i_id ` set (b_issues b) \<Longrightarrow>
   i \<in> below b edges roots"
proof -
  assume cur: "cur \<in> roots \<union> below b edges roots" and i: "i \<in> set (next_ids b edges cur)" "i \<in> i_id ` set (b_issues b)"
  have e: "(cur, i) \<in> edge_rel b edges" using i by (simp add: edge_rel_def)
  show ?thesis using cur
  proof
    assume "cur \<in> roots" then show ?thesis using e by (auto simp: below_def)
  next
    assume "cur \<in> below b edges roots"
    then show ?thesis using e by (auto simp: below_def intro: trancl_into_trancl)
  qed
qed

text \<open>The state of the search: what was found is new and reachable, and what has left the queue has been expanded.\<close>

definition bfs_ok :: "board \<Rightarrow> descendant_edges \<Rightarrow> int set \<Rightarrow> bfs_state \<Rightarrow> bool" where
  "bfs_ok b edges roots st = (case st of (visited, queue, out) \<Rightarrow>
     roots \<subseteq> set visited \<and> set queue \<subseteq> set visited \<and>
     i_id ` set out = set visited \<inter> i_id ` set (b_issues b) - roots \<and>
     set queue \<subseteq> roots \<union> i_id ` set out \<and> distinct (map i_id out) \<and> set out \<subseteq> set (b_issues b) \<and>
     i_id ` set out \<subseteq> below b edges roots)"

definition expanded :: "board \<Rightarrow> descendant_edges \<Rightarrow> int set \<Rightarrow> bfs_state \<Rightarrow> bool" where
  "expanded b edges roots st = (case st of (visited, queue, out) \<Rightarrow>
     \<forall>a \<in> (roots \<union> i_id ` set out) - set queue. set (next_ids b edges a) \<inter> i_id ` set (b_issues b) \<subseteq> set visited)"

lemma bfs_ok_skip:
  assumes "bfs_ok b edges roots (visited, queue, out)" "i \<notin> i_id ` set (b_issues b)"
  shows "bfs_ok b edges roots (i # visited, queue, out)"
  using assms unfolding bfs_ok_def prod.case by auto

lemma bfs_ok_add:
  assumes "bfs_ok b edges roots (visited, queue, out)" "i \<notin> set visited" "r \<in> set (b_issues b)" "i_id r = i"
    "i \<in> below b edges roots"
  shows "bfs_ok b edges roots (i # visited, queue @ [i], out @ [r])"
  using assms unfolding bfs_ok_def prod.case by auto

lemma absorb_ok:
  assumes "bfs_ok b edges roots (visited, queue, out)"
    and "\<forall>i \<in> set is. i \<in> i_id ` set (b_issues b) \<longrightarrow> i \<in> below b edges roots"
    and "absorb b is (visited, queue, out) = (v, q, found)"
  shows "bfs_ok b edges roots (v, q, found) \<and> set visited \<subseteq> set v \<and> set is \<subseteq> set v \<and> set queue \<subseteq> set q \<and>
    i_id ` set found - set q \<subseteq> i_id ` set out - set queue"
  using assms
proof (induction "is" arbitrary: visited queue out)
  case (Cons i "is")
  show ?case
  proof (cases "i \<in> set visited")
    case True
    then show ?thesis using Cons.IH [of visited queue out] Cons.prems by auto
  next
    case new: False
    show ?thesis
    proof (cases "get_issue b i")
      case (Inr r)
      then have r: "r \<in> set (b_issues b)" "i_id r = i" using get_issue_Inr by blast+
      then have "bfs_ok b edges roots (i # visited, queue @ [i], out @ [r])"
        using Cons.prems(1,2) new by (intro bfs_ok_add) auto
      from Cons.IH [OF this] show ?thesis using Cons.prems new Inr r by auto
    next
      case (Inl e)
      then have "bfs_ok b edges roots (i # visited, queue, out)"
        using Cons.prems(1) by (intro bfs_ok_skip get_issue_Inl)
      from Cons.IH [OF this] show ?thesis using Cons.prems new Inl by auto
    qed
  qed
qed auto

lemma bfs_correct:
  assumes "bfs_ok b edges roots st" "expanded b edges roots st"
  shows "i_id ` set (bfs b edges st) = below b edges roots - roots \<and>
         distinct (map i_id (bfs b edges st)) \<and> set (bfs b edges st) \<subseteq> set (b_issues b)"
  using assms
proof (induction b edges st rule: bfs.induct)
  case (1 b edges visited out)
  have fin: "i_id ` set out = set visited \<inter> i_id ` set (b_issues b) - roots"
    and snd: "i_id ` set out \<subseteq> below b edges roots"
    and clo: "\<forall>a \<in> roots \<union> i_id ` set out. set (next_ids b edges a) \<inter> i_id ` set (b_issues b) \<subseteq> set visited"
    using 1 unfolding bfs_ok_def expanded_def prod.case by (blast, blast, simp)
  have "x \<in> roots \<union> i_id ` set out" if "(r, x) \<in> (edge_rel b edges)\<^sup>+" "r \<in> roots" for r x
    using that(1)
  proof (induction rule: trancl_induct)
    case (base y) then show ?case using clo fin that(2) by (auto simp: edge_rel_def)
  next
    case (step y z) then show ?case using clo fin by (auto simp: edge_rel_def)
  qed
  then have "below b edges roots \<subseteq> roots \<union> i_id ` set out" by (auto simp: below_def)
  then have "i_id ` set out = below b edges roots - roots" using snd fin by blast
  moreover have "distinct (map i_id out)" "set out \<subseteq> set (b_issues b)" using 1(1) by (simp_all add: bfs_ok_def)
  ultimately show ?case by simp
next
  case (2 b edges visited cur queue out)
  obtain v q f where a: "absorb b (next_ids b edges cur) (visited, queue, out) = (v, q, f)" by (metis prod_cases3)
  have C: "roots \<subseteq> set visited" "set (cur # queue) \<subseteq> set visited"
    "i_id ` set out = set visited \<inter> i_id ` set (b_issues b) - roots"
    "set (cur # queue) \<subseteq> roots \<union> i_id ` set out" "distinct (map i_id out)" "set out \<subseteq> set (b_issues b)"
    "i_id ` set out \<subseteq> below b edges roots"
    using 2(2) unfolding bfs_ok_def prod.case by - (elim conjE; assumption)+
  have cur: "cur \<in> roots \<union> i_id ` set out" using C(4) by simp
  have q: "set queue \<subseteq> set visited" "set queue \<subseteq> roots \<union> i_id ` set out" using C(2,4) by auto
  have ok: "bfs_ok b edges roots (visited, queue, out)"
    unfolding bfs_ok_def prod.case by (intro conjI C(1,3,5,6,7) q)
  have "cur \<in> roots \<union> below b edges roots" using cur 2(2) unfolding bfs_ok_def prod.case by blast
  then have A: "bfs_ok b edges roots (v, q, f) \<and> set visited \<subseteq> set v \<and> set (next_ids b edges cur) \<subseteq> set v \<and> set queue \<subseteq> set q \<and>
    i_id ` set f - set q \<subseteq> i_id ` set out - set queue"
    using absorb_ok [OF ok _ a] below_step by blast
  have "expanded b edges roots (v, q, f)"
    unfolding expanded_def prod.case
  proof (intro ballI)
    fix x assume "x \<in> (roots \<union> i_id ` set f) - set q"
    then have "x \<in> roots \<union> i_id ` set out" "x \<notin> set queue" using A by auto
    then show "set (next_ids b edges x) \<inter> i_id ` set (b_issues b) \<subseteq> set v"
      using A 2(3) by (cases "x = cur") (auto simp: expanded_def)
  qed
  then show ?case using 2(1) A by (simp add: a)
qed

text \<open>
  The descendants of a set of issues are exactly the issues that are reachable from it by one or
  more parent links (and dependency links, for the cascade), without the starting issues themselves,
  each once; the search ends on every board, also when the links form cycles.
\<close>
theorem descendants_reachable:
  "i_id ` set (descendants b roots edges) =
     {x. \<exists>r. r \<in> set roots \<and> (r, x) \<in> {(a, y). y \<in> set (next_ids b edges a) \<and> y \<in> i_id ` set (b_issues b)}\<^sup>+} - set roots \<and>
   distinct (map i_id (descendants b roots edges)) \<and> set (descendants b roots edges) \<subseteq> set (b_issues b)"
proof -
  have "bfs_ok b edges (set roots) (roots, roots, [])" "expanded b edges (set roots) (roots, roots, [])"
    by (auto simp: bfs_ok_def expanded_def)
  from bfs_correct [OF this] show ?thesis unfolding descendants_def below_def edge_rel_def by blast
qed

subsection \<open>Steps of the store\<close>

definition add_activity :: "int \<Rightarrow> int \<Rightarrow> actor \<Rightarrow> str \<Rightarrow> activity_detail \<Rightarrow> board \<Rightarrow> unit store_result" where
  "add_activity now i who action detail b =
     (if list_ex (\<lambda>r. i_id r = i) (b_issues b) then Inr ((), insert_activity i who action detail now b) else Inl ConstraintFailed)"

inductive board_step :: "board \<Rightarrow> board \<Rightarrow> bool" where
  Create: "create_issue g now new b = Inr (x, b') \<Longrightarrow> board_step b b'"
| Update: "update_issue now i patch who b = Inr (u, b') \<Longrightarrow> board_step b b'"
| Transition: "transition_issue now i to who b = Inr (u, b') \<Longrightarrow> board_step b b'"
| RollbackFailure: "rollback_dispatch_failure now i prev pa pid who b = Inr (ok, b') \<Longrightarrow> board_step b b'"
| Reopen: "reopen_issue now i who b = Inr (u, b') \<Longrightarrow> board_step b b'"
| Assign: "assign_issue now i at aid who b = Inr (u, b') \<Longrightarrow> board_step b b'"
| Move: "move_issue now i to pos who b = Inr (u, b') \<Longrightarrow> board_step b b'"
| Archive: "bulk_archive_cancelled now is who b = Inr (u, b') \<Longrightarrow> board_step b b'"
| RollbackDecision: "rollback_decision now k b = Inr (u, b') \<Longrightarrow> board_step b b'"
| RollbackDone: "rollback_done_to_in_review now i reason b = Inr (ok, b') \<Longrightarrow> board_step b b'"
| AddActivity: "add_activity now i who action detail b = Inr (u, b') \<Longrightarrow> board_step b b'"
| Depend: "set_issue_dependencies i deps b = Inr (u, b') \<Longrightarrow> board_step b b'"
| Claim: "try_claim_dispatch now task i worker who b = Inr (ok, b') \<Longrightarrow> board_step b b'"
| Finish: "finish_dispatch now task state b = Inr (ok, b') \<Longrightarrow> board_step b b'"
| Run: "mark_dispatch_running task worker b = Inr (ok, b') \<Longrightarrow> board_step b b'"
| Cancel: "cancel_dispatch now task who b = Inr (d, b') \<Longrightarrow> board_step b b'"
| Fail: "fail_dispatch now task details b = Inr (d, b') \<Longrightarrow> board_step b b'"

lemma insert_frames [simp]:
  "b_issues (insert_comment i a c ct now b) = b_issues b" "b_issues (insert_activity i w ac d now b) = b_issues b"
  "b_issues (insert_notification w k old now b) = b_issues b" "b_issues (insert_subscriber i w r b) = b_issues b"
  "b_dispatches (insert_comment i a c ct now b) = b_dispatches b" "b_dispatches (insert_activity i w ac d now b) = b_dispatches b"
  "b_dispatches (insert_notification w k old now b) = b_dispatches b" "b_dispatches (insert_subscriber i w r b) = b_dispatches b"
  "b_activities (insert_comment i a c ct now b) = b_activities b" "b_activities (insert_notification w k old now b) = b_activities b"
  "b_activities (insert_subscriber i w r b) = b_activities b"
  "b_comments (insert_activity i w ac d now b) = b_comments b" "b_comments (insert_notification w k old now b) = b_comments b"
  "b_dispatches (set_issue i f b) = b_dispatches b" "b_activities (set_issue i f b) = b_activities b"
  "b_comments (set_issue i f b) = b_comments b"
  by (simp_all add: insert_comment_def insert_activity_def insert_notification_def insert_subscriber_def set_issue_def)

lemma notify_frames [simp]:
  "b_issues (notify_assignee old w now b) = b_issues b" "b_dispatches (notify_assignee old w now b) = b_dispatches b"
  "b_activities (notify_assignee old w now b) = b_activities b" "b_comments (notify_assignee old w now b) = b_comments b"
  by (simp_all add: notify_assignee_def split: option.splits)

text \<open>What creating and assigning an issue change.\<close>

lemma create_issue_effect:
  assumes "create_issue g now new b = Inr (x, b')"
  shows "b_dispatches b' = b_dispatches b \<and> b_issues b' = b_issues b @ [x] \<and> i_id x = b_next_id b \<and>
    i_number x = (b_prefix b, b_counter b + 1) \<and> i_status x = Backlog \<and> i_parent x = ni_parent new \<and>
    b_next_id b' = b_next_id b + 1 \<and> b_counter b' = b_counter b + 1 \<and> b_prefix b' = b_prefix b \<and>
    (\<exists>acts. b_activities b' = b_activities b @ acts)"
proof -
  have "trim (ni_title new) \<noteq> []" "\<not> (ni_assignee new \<noteq> None \<and> blank_id (ni_assignee_id new))"
    using assms by (auto simp: create_issue_def split: if_splits)
  then show ?thesis using assms
    by (cases "ni_assignee new"; cases "ni_assignee_id new"; cases "blank_id (ni_assignee_id new)")
      (auto simp: create_issue_def and_then_eq_Inr Let_def insert_activity_def insert_subscriber_def)
qed

lemma assign_issue_effect:
  assumes "assign_issue now i at aid who b = Inr (u, b')"
  shows "b_dispatches b' = b_dispatches b \<and> (\<exists>acts. b_activities b' = b_activities b @ acts) \<and>
    b_issues b' = b_issues (set_issue i (\<lambda>r. r\<lparr>i_assignee := at, i_assignee_id := aid, i_updated_at := now\<rparr>) b)"
  using assms
  by (cases at; cases aid; cases "blank_id aid")
    (auto simp: assign_issue_def and_then_eq_Inr Let_def insert_activity_def split: if_splits)

subsection \<open>Dispatch records\<close>

definition dispatches_ok :: "board \<Rightarrow> bool" where
  "dispatches_ok b \<longleftrightarrow>
     distinct (map d_task (b_dispatches b)) \<and>
     (\<forall>i. length (filter (\<lambda>d. d_issue d = i \<and> is_active d) (b_dispatches b)) \<le> 1)"

definition row_kept :: "dispatch \<Rightarrow> dispatch \<Rightarrow> bool" where
  "row_kept d d' \<longleftrightarrow>
     d_task d' = d_task d \<and> d_issue d' = d_issue d \<and> d_worker d' = d_worker d \<and>
     (is_active d \<or> d' = d) \<and> (is_active d' \<longrightarrow> is_active d)"

lemma bulk_archive_frame: "bulk_archive_loop now who is b = Inr b' \<Longrightarrow> b_dispatches b' = b_dispatches b"
  by (induction now who "is" b rule: bulk_archive_loop.induct) (auto simp: and_then_eq_Inr split: if_splits)

lemma insert_deps_frame:
  "insert_deps i deps b = Inr b' \<Longrightarrow> b_dispatches b' = b_dispatches b \<and> b_issues b' = b_issues b \<and> b_activities b' = b_activities b"
  by (induction i deps b rule: insert_deps.induct) (auto split: if_splits)

lemma row_kept_refl [simp]: "row_kept d d" by (simp add: row_kept_def)

text \<open>What a step does to the table of dispatches: some rows end or start running, at most one row is added, for an issue without an active one.\<close>

inductive dispatch_change :: "board \<Rightarrow> dispatch list \<Rightarrow> bool" where
  Same: "dispatch_change b (b_dispatches b)"
| Rows: "(\<And>d. row_kept d (f d)) \<Longrightarrow> dispatch_change b (map f (b_dispatches b))"
| Added: "\<not> has_active_dispatch b (d_issue d) \<Longrightarrow> d_task d \<notin> d_task ` set (b_dispatches b) \<Longrightarrow>
          dispatch_change b (b_dispatches b @ [d])"

lemma settle_rows: "state \<notin> {Dispatched, Running} \<Longrightarrow> dispatch_change b (b_dispatches (snd (settle now task state b)))"
  unfolding settle_def by (auto intro!: Rows simp: row_kept_def is_active_def)

lemma end_dispatch_rows:
  assumes "end_dispatch now task state who action detail b = Inr (x, b')" "state \<notin> {Dispatched, Running}"
  shows "dispatch_change b (b_dispatches b')"
proof -
  have "b_dispatches b' = b_dispatches b \<or> b_dispatches b' = b_dispatches (snd (settle now task state b))"
    using assms(1) by (auto simp: end_dispatch_def Let_def split: prod.splits bool.splits option.splits)
  then show ?thesis using settle_rows [OF assms(2)] Same by metis
qed

lemma board_step_dispatches: "board_step b b' \<Longrightarrow> dispatch_change b (b_dispatches b')"
proof (induction rule: board_step.induct)
  case (Claim now task i worker who b ok b')
  then show ?case
    by (auto simp: try_claim_dispatch_def insert_dispatch_locked_def and_then_eq_Inr list_ex_iff Let_def
        split: if_splits intro!: Same Added) blast
next
  case (Finish now task state b ok b')
  then show ?case using settle_rows [of state b now task] by (auto simp: finish_dispatch_def split: if_splits)
next
  case (Run task worker b ok b')
  then show ?case by (auto simp: mark_dispatch_running_def Let_def row_kept_def is_active_def intro!: Rows)
next
  case (Cancel now task who b d b')
  then show ?case using end_dispatch_rows unfolding cancel_dispatch_def by blast
next
  case (Fail now task details b d b')
  then show ?case using end_dispatch_rows unfolding fail_dispatch_def by blast
next
  case (Create g now new b x b')
  then have "b_dispatches b' = b_dispatches b" using create_issue_effect by blast
  then show ?case using Same by metis
next
  case (Update now i patch who b u b')
  then have "b_dispatches b' = b_dispatches b" by (auto simp: update_issue_def and_then_eq_Inr Let_def split: if_splits)
  then show ?case using Same by metis
next
  case (Transition now i to who b u b')
  then have "b_dispatches b' = b_dispatches b" by (auto simp: transition_issue_def and_then_eq_Inr Let_def)
  then show ?case using Same by metis
next
  case (RollbackFailure now i prev pa pid who b ok b')
  then have "b_dispatches b' = b_dispatches b" by (auto simp: rollback_dispatch_failure_def and_then_eq_Inr split: if_splits)
  then show ?case using Same by metis
next
  case (Reopen now i who b u b')
  then have "b_dispatches b' = b_dispatches b"
    by (auto simp: reopen_issue_def transition_issue_def and_then_eq_Inr Let_def split: if_splits)
  then show ?case using Same by metis
next
  case (Assign now i at aid who b u b')
  then have "b_dispatches b' = b_dispatches b" using assign_issue_effect by blast
  then show ?case using Same by metis
next
  case (Move now i to pos who b u b')
  then have "b_dispatches b' = b_dispatches b" by (auto simp: move_issue_def and_then_eq_Inr Let_def)
  then show ?case using Same by metis
next
  case (Archive now "is" who b u b')
  then have "b_dispatches b' = b_dispatches b" by (auto simp: bulk_archive_cancelled_def and_then_eq_Inr dest: bulk_archive_frame)
  then show ?case using Same by metis
next
  case (RollbackDecision now k b u b')
  then have "b_dispatches b' = b_dispatches b" by (auto simp: rollback_decision_def and_then_eq_Inr split: option.splits if_splits)
  then show ?case using Same by metis
next
  case (RollbackDone now i reason b ok b')
  then have "b_dispatches b' = b_dispatches b" by (auto simp: rollback_done_to_in_review_def and_then_eq_Inr split: if_splits)
  then show ?case using Same by metis
next
  case (AddActivity now i who action detail b u b')
  then have "b_dispatches b' = b_dispatches b" by (auto simp: add_activity_def split: if_splits)
  then show ?case using Same by metis
next
  case (Depend i deps b u b')
  then have "b_dispatches b' = b_dispatches b" by (auto simp: set_issue_dependencies_def and_then_eq_Inr dest: insert_deps_frame)
  then show ?case using Same by metis
qed

lemma filter_active_map:
  assumes "\<And>d. row_kept d (f d)"
  shows "length (filter (\<lambda>d. d_issue d = i \<and> is_active d) (map f ds)) \<le> length (filter (\<lambda>d. d_issue d = i \<and> is_active d) ds)"
proof (induction ds)
  case (Cons d ds)
  then show ?case using assms [of d] by (auto simp: row_kept_def)
qed simp

lemma dispatch_change_ok:
  assumes "dispatches_ok b" "dispatch_change b ds"
  shows "distinct (map d_task ds) \<and> (\<forall>i. length (filter (\<lambda>d. d_issue d = i \<and> is_active d) ds) \<le> 1)"
  using assms(2)
proof cases
  case Same then show ?thesis using assms(1) by (simp add: dispatches_ok_def)
next
  case (Rows f)
  have t: "map d_task (map f (b_dispatches b)) = map d_task (b_dispatches b)" using Rows(2) by (simp add: row_kept_def)
  have "distinct (map d_task ds)" unfolding Rows(1) t using assms(1) by (simp add: dispatches_ok_def)
  moreover have "length (filter (\<lambda>d. d_issue d = i \<and> is_active d) ds) \<le> 1" for i
    using filter_active_map [OF Rows(2), of i "b_dispatches b"] assms(1) Rows(1) by (auto simp: dispatches_ok_def intro: le_trans)
  ultimately show ?thesis by blast
next
  case (Added d)
  have "filter (\<lambda>e. d_issue e = d_issue d \<and> is_active e) (b_dispatches b) = []"
    using Added(2) by (auto simp: has_active_dispatch_def filter_empty_conv list_ex_iff)
  then show ?thesis using assms(1) Added by (auto simp: dispatches_ok_def)
qed

interpretation one_dispatch: transition_invariant "\<lambda>b. b_dispatches b = []" board_step dispatches_ok
proof
  show "dispatches_ok b" if "b_dispatches b = []" for b using that by (simp add: dispatches_ok_def)
  show "dispatches_ok b'" if "dispatches_ok b" "board_step b b'" for b b'
    using dispatch_change_ok [OF that(1) board_step_dispatches [OF that(2)]] by (simp add: dispatches_ok_def)
qed

text \<open>
  C17: on a board whose dispatches were all made through the claiming operation, an issue has at most one
  dispatch in flight at any time, whatever the order in which claims, reports of workers, cancellations
  and timeouts arrive, and no task is bound to two issues.
\<close>
theorem one_active_dispatch:
  assumes "b_dispatches b0 = []" "board_step\<^sup>*\<^sup>* b0 b"
  shows "length (filter (\<lambda>d. d_issue d = i \<and> is_active d) (b_dispatches b)) \<le> 1 \<and>
         distinct (map d_task (b_dispatches b))"
  using one_dispatch.reachable_inv [OF assms] by (simp add: dispatches_ok_def)

definition history_kept :: "dispatch list \<Rightarrow> dispatch list \<Rightarrow> bool" where
  "history_kept ds ds' \<longleftrightarrow> (\<exists>es fs. ds' = es @ fs \<and> list_all2 row_kept ds es)"

lemma row_kept_trans: "row_kept a b \<Longrightarrow> row_kept b c \<Longrightarrow> row_kept a c"
  unfolding row_kept_def by metis

lemma history_kept_refl: "history_kept ds ds"
  unfolding history_kept_def by (rule exI [of _ ds], rule exI [of _ "[]"]) (simp add: list_all2_refl)

lemma history_kept_trans:
  assumes "history_kept a b" "history_kept b c" shows "history_kept a c"
proof -
  from assms obtain es fs es' fs' where 1: "b = es @ fs" "list_all2 row_kept a es" "c = es' @ fs'" "list_all2 row_kept b es'"
    by (auto simp: history_kept_def)
  then obtain us vs where "es' = us @ vs" "list_all2 row_kept es us" by (auto simp: list_all2_append1)
  then show ?thesis using 1 list_all2_trans [of row_kept row_kept row_kept a es us] row_kept_trans
    by (auto simp: history_kept_def)
qed

lemma board_step_history: "board_step b b' \<Longrightarrow> history_kept (b_dispatches b) (b_dispatches b')"
proof -
  assume "board_step b b'"
  then have "dispatch_change b (b_dispatches b')" by (rule board_step_dispatches)
  then show ?thesis
  proof cases
    case Same then show ?thesis by (simp add: history_kept_refl)
  next
    case (Rows f)
    have "list_all2 row_kept ds (map f ds)" for ds using Rows(2) by (induction ds) auto
    then show ?thesis unfolding Rows(1) history_kept_def by (intro exI [of _ "map f (b_dispatches b)"] exI [of _ "[]"]) simp
  next
    case (Added d)
    then show ?thesis by (auto simp: history_kept_def list_all2_refl)
  qed
qed

lemma board_steps_history: "board_step\<^sup>*\<^sup>* b b' \<Longrightarrow> history_kept (b_dispatches b) (b_dispatches b')"
  by (induction rule: rtranclp_induct) (auto intro: history_kept_refl history_kept_trans board_step_history)

text \<open>
  A dispatch that has ended stays as it is for ever: the row at its place keeps its task, issue,
  worker, final state and time, and a late report of the worker, a cancellation or a timeout for
  it reports that nothing was done.
\<close>
theorem settled_dispatch_is_final:
  assumes "board_step\<^sup>*\<^sup>* b b'" "k < length (b_dispatches b)" "\<not> is_active (b_dispatches b ! k)"
    "distinct (map d_task (b_dispatches b'))" "d_task (b_dispatches b ! k) = task"
  shows "k < length (b_dispatches b') \<and> b_dispatches b' ! k = b_dispatches b ! k \<and>
         fst (settle now task state b') = False \<and> snd (settle now task state b') = b' \<and>
         cancel_dispatch now task who b' = Inr (None, b') \<and> fail_dispatch now task details b' = Inr (None, b')"
proof -
  obtain es fs where e: "b_dispatches b' = es @ fs" "list_all2 row_kept (b_dispatches b) es"
    using board_steps_history [OF assms(1)] by (auto simp: history_kept_def)
  then have k: "k < length es" "row_kept (b_dispatches b ! k) (es ! k)" using assms(2) by (auto simp: list_all2_conv_all_nth)
  then have same: "b_dispatches b' ! k = b_dispatches b ! k" and len: "k < length (b_dispatches b')"
    using assms(3) e(1) by (auto simp: row_kept_def nth_append)
  have "\<not> is_active d" if mem: "d \<in> set (b_dispatches b')" and tk: "d_task d = task" for d
  proof -
    obtain j where j: "j < length (b_dispatches b')" "b_dispatches b' ! j = d"
      using mem unfolding in_set_conv_nth by blast
    then have "map d_task (b_dispatches b') ! j = map d_task (b_dispatches b') ! k" using tk assms(5) len same by simp
    then have "j = k" using nth_eq_iff_index_eq [OF assms(4), of j k] j(1) len by simp
    then show ?thesis using j(2) same assms(3) by simp
  qed
  note ended = this
  have none: "\<not> list_ex (\<lambda>d. d_task d = task \<and> is_active d) (b_dispatches b')"
    using ended by (auto simp: list_ex_iff)
  have id: "map (\<lambda>d. if d_task d = task \<and> is_active d then d\<lparr>d_state := s, d_completed_at := Some now\<rparr> else d)
      (b_dispatches b') = b_dispatches b'" for s
    using ended by (intro map_idI) auto
  have "settle now task s b' = (False, b')" for s using none id [of s] by (simp add: settle_def)
  then show ?thesis using len same by (simp add: cancel_dispatch_def fail_dispatch_def end_dispatch_def)
qed

subsection \<open>An example\<close>

text \<open>A board with one issue and the given dispatches.\<close>

definition sample_board :: "dispatch list \<Rightarrow> board" where
  "sample_board ds =
     \<lparr>b_issues =
        [\<lparr>i_id = 1, i_number = (''NB'', 1), i_title = ''t'', i_description = [], i_status = Todo,
          i_priority = 1, i_assignee = None, i_assignee_id = None, i_creator = Actor ''admin'' ''admin'',
          i_parent = None, i_project = None, i_due_date = None, i_position = 1, i_criteria = None,
          i_hidden = False, i_updated_at = 0\<rparr>],
      b_next_id = 2, b_counter = 1, b_prefix = ''NB'', b_projects = [], b_deps = [], b_comments = [],
      b_activities = [], b_notifications = [], b_subscribers = [], b_dispatches = ds\<rparr>"

definition sample_dispatch :: dispatch where
  "sample_dispatch =
     \<lparr>d_task = ''a'', d_issue = 1, d_worker = ''w'', d_state = DispatchDone, d_dispatched_at = 0, d_completed_at = Some 1\<rparr>"

text \<open>A claim on that board goes through when no dispatch of the issue is in flight.\<close>

lemma sample_claim:
  assumes "\<not> list_ex (\<lambda>d. d_issue d = 1 \<and> is_active d) ds" "\<not> list_ex (\<lambda>d. d_task d = task) ds"
  obtains b where "board_step (sample_board ds) b"
    "b_dispatches b = ds @ [\<lparr>d_task = task, d_issue = 1, d_worker = ''w'', d_state = Dispatched, d_dispatched_at = 5, d_completed_at = None\<rparr>]"
proof -
  obtain b where "try_claim_dispatch 5 task 1 ''w'' (Actor ''admin'' ''admin'') (sample_board ds) = Inr (True, b)"
    "b_dispatches b = ds @ [\<lparr>d_task = task, d_issue = 1, d_worker = ''w'', d_state = Dispatched, d_dispatched_at = 5, d_completed_at = None\<rparr>]"
    using assms by (simp add: try_claim_dispatch_def has_active_dispatch_def insert_dispatch_locked_def sample_board_def insert_activity_def)
  then show thesis using that board_step.Claim by blast
qed

theorem one_active_dispatch_witness:
  "\<exists>b. board_step\<^sup>*\<^sup>* (sample_board []) b \<and> has_active_dispatch b 1 \<and>
       length (filter (\<lambda>d. d_issue d = 1 \<and> is_active d) (b_dispatches b)) \<le> 1"
proof -
  obtain b where b: "board_step (sample_board []) b"
    "b_dispatches b = [] @ [\<lparr>d_task = ''x'', d_issue = 1, d_worker = ''w'', d_state = Dispatched, d_dispatched_at = 5, d_completed_at = None\<rparr>]"
    by (rule sample_claim [of "[]" "''x''"]) simp_all
  then have "board_step\<^sup>*\<^sup>* (sample_board []) b" by blast
  moreover have "b_dispatches (sample_board []) = []" by (simp add: sample_board_def)
  ultimately show ?thesis
    using one_active_dispatch [of "sample_board []" b 1] b(2) by (auto simp: has_active_dispatch_def is_active_def)
qed

theorem settled_dispatch_is_final_witness:
  "\<exists>b. board_step\<^sup>*\<^sup>* (sample_board [sample_dispatch]) b \<and> has_active_dispatch b 1 \<and>
       fst (settle 9 ''a'' DispatchFailed b) = False \<and> b_dispatches b ! 0 = sample_dispatch"
proof -
  let ?b = "sample_board [sample_dispatch]"
  obtain b where b: "board_step ?b b"
    "b_dispatches b = [sample_dispatch] @ [\<lparr>d_task = ''x'', d_issue = 1, d_worker = ''w'', d_state = Dispatched, d_dispatched_at = 5, d_completed_at = None\<rparr>]"
    by (rule sample_claim [of "[sample_dispatch]" "''x''"]) (simp_all add: sample_dispatch_def is_active_def)
  then have s: "board_step\<^sup>*\<^sup>* ?b b" by blast
  have "fst (settle 9 ''a'' DispatchFailed b) = False \<and> b_dispatches b ! 0 = b_dispatches ?b ! 0"
    using settled_dispatch_is_final [OF s, of 0 "''a''" 9 DispatchFailed undefined undefined] b(2)
    by (simp add: sample_board_def sample_dispatch_def is_active_def)
  then show ?thesis using s b(2) by (auto simp: has_active_dispatch_def is_active_def sample_board_def)
qed

end
