(* ===== verification/BoardAudit.thy ===== *)
theory BoardAudit
  imports BoardStore
begin

text \<open>
  What the audit trail of the board says about the states of issues: every change of state is legal
  or one of the three rollbacks, and leaves a record; the check of parent links and its bound; and
  what dragging an issue leaves out.
\<close>

subsection \<open>Rows of issues under the operations\<close>

definition row_of :: "board \<Rightarrow> int \<Rightarrow> issue option" where
  "row_of b i = find (\<lambda>r. i_id r = i) (b_issues b)"

lemma get_issue_row: "get_issue b i = Inr r \<longleftrightarrow> row_of b i = Some r"
  by (simp add: get_issue_def row_of_def split: option.splits)

lemma row_of_frames [simp]:
  "row_of (insert_comment i a c ct now b) = row_of b" "row_of (insert_activity i w ac d now b) = row_of b"
  "row_of (insert_notification w k old now b) = row_of b" "row_of (insert_subscriber i w r b) = row_of b"
  "row_of (notify_assignee old w now b) = row_of b"
  by (simp_all add: row_of_def fun_eq_iff)

lemma find_map_row:
  assumes "\<And>r. i_id (f r) = i_id r"
  shows "find (\<lambda>r. i_id r = j) (map (\<lambda>r. if i_id r = i then f r else r) rs) =
    map_option (\<lambda>r. if j = i then f r else r) (find (\<lambda>r. i_id r = j) rs)"
  by (induction rs) (auto simp: assms)

lemma row_of_set_issue:
  assumes "\<And>r. i_id (f r) = i_id r"
  shows "row_of (set_issue i f b) j = map_option (\<lambda>r. if j = i then f r else r) (row_of b j)"
  using find_map_row [OF assms] by (simp add: row_of_def set_issue_def)

lemma row_of_id: "row_of b i = Some r \<Longrightarrow> i_id r = i"
  by (auto simp: row_of_def find_Some_iff)

lemma activities_insert [simp]:
  "b_activities (insert_activity i w ac d now b) = b_activities b @
     [\<lparr>v_id = int (length (b_activities b)) + 1, v_issue = i, v_actor = w, v_action = ac, v_detail = d, v_at = now\<rparr>]"
  by (simp add: insert_activity_def)

subsection \<open>Every change of state is legal and recorded\<close>

definition legal_change :: "issue_status \<Rightarrow> issue_status \<Rightarrow> bool" where
  "legal_change s t \<longleftrightarrow> can_transition s t \<or> s = Done \<and> t = InReview \<or> s = InProgress"

definition recorded :: "activity list \<Rightarrow> int \<Rightarrow> bool" where
  "recorded acts i \<longleftrightarrow> list_ex (\<lambda>a. v_issue a = i \<and> v_action a \<in> {''status_changed'', ''dispatch_rolled_back''}) acts"

definition audited :: "board \<Rightarrow> board \<Rightarrow> bool" where
  "audited b b' \<longleftrightarrow>
     (\<exists>acts. b_activities b' = b_activities b @ acts \<and>
        (\<forall>i r. row_of b i = Some r \<longrightarrow>
           (\<exists>r'. row_of b' i = Some r' \<and>
              (i_status r' = i_status r \<or> legal_change (i_status r) (i_status r') \<and> recorded acts i))))"

text \<open>Operations that leave all states alone.\<close>

lemma audited_quiet:
  assumes "\<exists>acts. b_activities b' = b_activities b @ acts"
    and "\<And>i r. row_of b i = Some r \<Longrightarrow> \<exists>r'. row_of b' i = Some r' \<and> i_status r' = i_status r"
  shows "audited b b'"
  using assms unfolding audited_def by blast

text \<open>Operations that give one issue a new state and record it.\<close>

lemma audited_change:
  assumes "row_of b i = Some old" "\<And>r. i_id (f r) = i_id r" "\<And>r. i_status (f r) = to"
    and "to = i_status old \<or> legal_change (i_status old) to \<and> recorded acts i"
    and "b_activities b' = b_activities b @ acts" "row_of b' = row_of (set_issue i f b)"
  shows "audited b b'"
proof -
  have "\<exists>r'. row_of b' j = Some r' \<and>
      (i_status r' = i_status r \<or> legal_change (i_status r) (i_status r') \<and> recorded acts j)"
    if "row_of b j = Some r" for j r
    using that assms(1,3,4) by (cases "j = i") (auto simp: assms(6) row_of_set_issue [OF assms(2)])
  then show ?thesis unfolding audited_def using assms(5) by blast
qed

lemma checked_transition_Inr: "checked_transition f t = Inr u \<Longrightarrow> legal_change f t"
  by (auto simp: checked_transition_def legal_change_def validate_transition_def split: sum.splits if_splits)

lemma transition_audited:
  assumes "transition_issue now i to who b = Inr (u, b')" shows "audited b b'"
proof -
  obtain old where old: "row_of b i = Some old" "legal_change (i_status old) to"
    using assms by (auto simp: transition_issue_def and_then_eq_Inr get_issue_row dest: checked_transition_Inr)
  show ?thesis
    by (rule audited_change [where f = "\<lambda>r. r\<lparr>i_status := to, i_updated_at := now\<rparr>" and to = to and i = i
          and acts = "drop (length (b_activities b)) (b_activities b')", OF old(1)])
      (use assms old in \<open>auto simp: transition_issue_def and_then_eq_Inr get_issue_row Let_def recorded_def\<close>)
qed

lemma bulk_archive_audited: "bulk_archive_loop now who is b = Inr b' \<Longrightarrow> 
    (\<exists>acts. b_activities b' = b_activities b @ acts) \<and>
    (\<forall>i r. row_of b i = Some r \<longrightarrow> (\<exists>r'. row_of b' i = Some r' \<and> i_status r' = i_status r))"
proof (induction now who "is" b rule: bulk_archive_loop.induct)
  case (2 now who i "is" b)
  let ?b = "\<lambda>old. insert_activity i who ''issue_bulk_archive'' (ArchivedIssue (i_number old) (i_title old)) now
                (set_issue i (\<lambda>r. r\<lparr>i_hidden := True, i_updated_at := now\<rparr>) b)"
  from 2(2) obtain old where old: "get_issue b i = Inr old" "\<not> i_status old \<noteq> Cancelled"
    "bulk_archive_loop now who is (?b old) = Inr b'"
    by (auto simp: and_then_eq_Inr split: if_splits)
  have row: "row_of (?b old) j = map_option (\<lambda>r. if j = i then r\<lparr>i_hidden := True, i_updated_at := now\<rparr> else r) (row_of b j)" for j
    by (simp add: row_of_set_issue)
  have "\<exists>r'. row_of b' j = Some r' \<and> i_status r' = i_status r" if "row_of b j = Some r" for j r
    using 2(1) [OF old] that row [of j] by (cases "j = i") fastforce+
  moreover have "\<exists>acts. b_activities b' = b_activities b @ acts" using 2(1) [OF old] by auto
  ultimately show ?case by blast
qed auto

lemma end_dispatch_effect:
  assumes "end_dispatch now task state who action detail b = Inr (x, b')"
  shows "b_issues b' = b_issues b \<and> (\<exists>acts. b_activities b' = b_activities b @ acts)"
  using assms
  by (auto simp: end_dispatch_def settle_def Let_def split: prod.splits bool.splits option.splits)

lemma quiet_same_rows:
  "b_issues b' = b_issues b \<Longrightarrow> (\<exists>acts. b_activities b' = b_activities b @ acts) \<Longrightarrow> audited b b'"
  by (rule audited_quiet) (auto simp: row_of_def)

lemma quiet_set_issue:
  assumes "b_issues b' = b_issues (set_issue i f b)" "\<exists>acts. b_activities b' = b_activities b @ acts"
    "\<And>r. i_id (f r) = i_id r" "\<And>r. i_status (f r) = i_status r"
  shows "audited b b'"
proof (rule audited_quiet [OF assms(2)])
  fix j r assume "row_of b j = Some r"
  moreover have "row_of b' j = row_of (set_issue i f b) j" using assms(1) by (simp add: row_of_def)
  ultimately show "\<exists>r'. row_of b' j = Some r' \<and> i_status r' = i_status r"
    using assms(4) by (simp add: row_of_set_issue [OF assms(3)])
qed

lemma create_audited: "create_issue g now new b = Inr (x, b') \<Longrightarrow> audited b b'"
proof (rule audited_quiet)
  assume c: "create_issue g now new b = Inr (x, b')"
  show "\<exists>acts. b_activities b' = b_activities b @ acts" using create_issue_effect [OF c] by blast
  show "\<exists>r'. row_of b' i = Some r' \<and> i_status r' = i_status r" if "row_of b i = Some r" for i r
  proof -
    have "find P (xs @ ys) = (case find P xs of None \<Rightarrow> find P ys | s \<Rightarrow> s)" for P and xs ys :: "issue list"
      by (induction xs) auto
    then show ?thesis using create_issue_effect [OF c] that by (simp add: row_of_def)
  qed
qed

lemma reopen_audited:
  assumes "reopen_issue now i who b = Inr (u, b')" shows "audited b b'"
proof -
  obtain b1 old where b1: "transition_issue now i Backlog who b = Inr ((), b1)"
    "b_activities b' = b_activities b1"
    "row_of b' = row_of (set_issue i (\<lambda>r. if i_hidden r then r\<lparr>i_hidden := False, i_updated_at := now\<rparr> else r) b1)"
    using assms by (auto simp: reopen_issue_def and_then_eq_Inr split: if_splits)
  have row: "row_of b' j = map_option (\<lambda>r. if j = i then (if i_hidden r then r\<lparr>i_hidden := False, i_updated_at := now\<rparr> else r) else r)
      (row_of b1 j)" for j
    unfolding b1(3) by (rule row_of_set_issue) simp
  obtain acts where acts: "b_activities b1 = b_activities b @ acts"
    "\<And>j r. row_of b j = Some r \<Longrightarrow> \<exists>r'. row_of b1 j = Some r' \<and>
       (i_status r' = i_status r \<or> legal_change (i_status r) (i_status r') \<and> recorded acts j)"
    using transition_audited [OF b1(1)] unfolding audited_def by blast
  have "\<exists>r'. row_of b' j = Some r' \<and> (i_status r' = i_status r \<or> legal_change (i_status r) (i_status r') \<and> recorded acts j)"
    if prev: "row_of b j = Some r" for j r
  proof -
    let ?g = "\<lambda>r. if j = i then (if i_hidden r then r\<lparr>i_hidden := False, i_updated_at := now\<rparr> else r) else r"
    obtain r1 where "row_of b1 j = Some r1"
      "i_status r1 = i_status r \<or> legal_change (i_status r) (i_status r1) \<and> recorded acts j"
      using acts(2) [OF prev] by blast
    moreover have "i_status (?g r1) = i_status r1" by simp
    ultimately show ?thesis by (intro exI [of _ "?g r1"]) (auto simp: row)
  qed
  then show ?thesis unfolding audited_def using acts(1) b1(2) by auto
qed

lemma legal_Done_InReview [simp]: "legal_change Done InReview" by (simp add: legal_change_def)
lemma legal_InProgress [simp]: "legal_change InProgress t" by (simp add: legal_change_def)

lemma rollback_decision_audited:
  assumes "rollback_decision now k b = Inr (u, b')" shows "audited b b'"
proof -
  obtain old j where o1: "row_of b j = Some old" "i_status old = Done"
    "b' = insert_activity (i_id old) (Actor ''system'' ''board-audit'') ''status_changed'' (AuditRollbackOf k) now
            (insert_comment (i_id old) (Actor ''system'' ''board-audit'') AuditRollback CtSystem now
              (set_issue (i_id old) (\<lambda>r. r\<lparr>i_status := InReview, i_updated_at := now\<rparr>) b))"
    using assms by (auto simp: rollback_decision_def and_then_eq_Inr get_issue_row split: option.splits if_splits)
  note old = o1(1) [unfolded row_of_id [OF o1(1), symmetric]] o1(2,3)
  show ?thesis
    by (rule audited_change [OF old(1), where f = "\<lambda>r. r\<lparr>i_status := InReview, i_updated_at := now\<rparr>" and to = InReview])
      (use old in \<open>auto simp: recorded_def\<close>)
qed

lemma move_audited:
  assumes "move_issue now i to pos who b = Inr (u, b')" shows "audited b b'"
proof -
  obtain old where old: "row_of b i = Some old" "i_status old \<noteq> to \<Longrightarrow> legal_change (i_status old) to"
    using assms by (auto simp: move_issue_def and_then_eq_Inr get_issue_row dest: checked_transition_Inr split: if_splits)
  show ?thesis
    by (rule audited_change [OF old(1), where f = "\<lambda>r. r\<lparr>i_status := to, i_position := pos, i_updated_at := now\<rparr>" and to = to
          and acts = "drop (length (b_activities b)) (b_activities b')"])
      (use assms old in \<open>auto simp: move_issue_def and_then_eq_Inr get_issue_row Let_def recorded_def split: if_splits\<close>)
qed

lemma rollback_failure_audited:
  assumes "rollback_dispatch_failure now i prev pa pid who b = Inr (ok, b')" shows "audited b b'"
proof (cases "b' = b")
  case True then show ?thesis by (intro quiet_same_rows) auto
next
  case False
  then obtain old where old: "row_of b i = Some old" "i_status old = InProgress"
    "b' = insert_activity i who ''dispatch_rolled_back'' (RolledBackTo prev pid) now
            (set_issue i (\<lambda>r. r\<lparr>i_status := prev, i_assignee := pa, i_assignee_id := pid, i_updated_at := now\<rparr>) b)"
    using assms by (auto simp: rollback_dispatch_failure_def and_then_eq_Inr get_issue_row split: if_splits)
  show ?thesis
    by (rule audited_change [OF old(1),
          where f = "\<lambda>r. r\<lparr>i_status := prev, i_assignee := pa, i_assignee_id := pid, i_updated_at := now\<rparr>" and to = prev])
      (use old in \<open>auto simp: recorded_def\<close>)
qed

lemma rollback_done_audited:
  assumes "rollback_done_to_in_review now i reason b = Inr (ok, b')" shows "audited b b'"
proof (cases "b' = b")
  case True then show ?thesis by (intro quiet_same_rows) auto
next
  case False
  then obtain old who where old: "row_of b i = Some old" "i_status old = Done"
    "b' = insert_activity i who ''status_changed'' (DoneRollbackFor reason) now
            (insert_comment i who (DoneRollback reason) CtSystem now
              (set_issue i (\<lambda>r. r\<lparr>i_status := InReview, i_updated_at := now\<rparr>) b))"
    using assms by (auto simp: rollback_done_to_in_review_def and_then_eq_Inr get_issue_row split: if_splits)
  show ?thesis
    by (rule audited_change [OF old(1), where f = "\<lambda>r. r\<lparr>i_status := InReview, i_updated_at := now\<rparr>" and to = InReview])
      (use old in \<open>auto simp: recorded_def\<close>)
qed

lemma update_audited:
  assumes "update_issue now i patch who b = Inr (u, b')" shows "audited b b'"
proof -
  obtain old where "b_issues b' = b_issues (set_issue i (patched_row now old patch) b)"
    "\<exists>acts. b_activities b' = b_activities b @ acts"
    using assms by (auto simp: update_issue_def and_then_eq_Inr Let_def)
  then show ?thesis by (rule quiet_set_issue) simp_all
qed

lemmas audited_ops = create_audited transition_audited reopen_audited rollback_decision_audited move_audited
  rollback_failure_audited rollback_done_audited update_audited

lemma board_step_audited: "board_step b b' \<Longrightarrow> audited b b'"
proof (induction rule: board_step.induct)
  case (Assign now i at aid who b u b')
  note eff = assign_issue_effect [OF Assign]
  show ?case by (rule quiet_set_issue [OF conjunct2 [OF conjunct2 [OF eff]] conjunct1 [OF conjunct2 [OF eff]]]) simp_all
next
  case (Archive now "is" who b u b')
  then show ?case by (auto simp: bulk_archive_cancelled_def and_then_eq_Inr dest!: bulk_archive_audited intro!: audited_quiet)
next
  case (AddActivity now i who action detail b u b')
  then show ?case by (intro quiet_same_rows) (auto simp: add_activity_def split: if_splits)
next
  case (Depend i deps b u b')
  then show ?case by (intro quiet_same_rows) (auto simp: set_issue_dependencies_def and_then_eq_Inr dest!: insert_deps_frame)
next
  case (Claim now task i worker who b ok b')
  then show ?case by (intro quiet_same_rows)
    (auto simp: try_claim_dispatch_def insert_dispatch_locked_def and_then_eq_Inr split: if_splits)
next
  case (Finish now task state b ok b')
  then show ?case by (intro quiet_same_rows) (auto simp: finish_dispatch_def settle_def split: if_splits)
next
  case (Run task worker b ok b')
  then show ?case by (intro quiet_same_rows) (auto simp: mark_dispatch_running_def Let_def)
next
  case (Cancel now task who b d b')
  then show ?case using end_dispatch_effect unfolding cancel_dispatch_def by (intro quiet_same_rows) blast+
next
  case (Fail now task details b d b')
  then show ?case using end_dispatch_effect unfolding fail_dispatch_def by (intro quiet_same_rows) blast+
qed (rule audited_ops; assumption)+


subsection \<open>Parent links\<close>

definition parent_rel :: "board \<Rightarrow> (int \<times> int) set" where
  "parent_rel b = {(c, p). parent_of_row b c = Some p}"

lemma parent_of_row_alt: "parent_of_row b c = Option.bind (row_of b c) i_parent"
  by (simp add: parent_of_row_def get_issue_def row_of_def split: option.splits)

lemma relpow_parent:
  "parent_of_row b c = Some p \<Longrightarrow> (c, s) \<in> parent_rel b ^^ Suc k \<longleftrightarrow> (p, s) \<in> parent_rel b ^^ k"
  "parent_of_row b c = None \<Longrightarrow> (c, s) \<notin> parent_rel b ^^ Suc k"
  by (auto simp: relpow_commute [symmetric] parent_rel_def elim!: relpow_Suc_E2 intro: relpow_Suc_I2)

lemma chain_reaches_iff:
  "chain_reaches n b (Some s) c \<longleftrightarrow> (\<exists>k < n. (c, s) \<in> parent_rel b ^^ Suc k)"
proof (induction n arbitrary: c)
  case (Suc n)
  show ?case
  proof (cases "parent_of_row b c")
    case None then show ?thesis using relpow_parent(2) by simp
  next
    case (Some p)
    have "(\<exists>k < Suc n. (c, s) \<in> parent_rel b ^^ Suc k) \<longleftrightarrow> (\<exists>k < Suc n. (p, s) \<in> parent_rel b ^^ k)"
      using relpow_parent(1) [OF Some] by simp
    also have "\<dots> \<longleftrightarrow> p = s \<or> (\<exists>k < n. (p, s) \<in> parent_rel b ^^ Suc k)"
      by (simp add: Ex_less_Suc2 del: relpow.simps(2))
    finally show ?thesis using Suc Some by auto
  qed
qed simp

lemma validate_issue_refs_Inr:
  assumes "validate_issue_refs b (Some p) proj (Some i) = Inr u"
  shows "p \<noteq> i \<and> (\<forall>k < 64. (p, i) \<notin> parent_rel b ^^ Suc k)"
  using assms chain_reaches_iff [of 64 b i p]
  by (auto simp: validate_issue_refs_def and_then_eq_Inr simp del: chain_reaches.simps split: if_splits)

lemma update_parent_effect:
  assumes "update_issue now i patch who b = Inr (u, b')"
  shows "\<exists>old. row_of b i = Some old \<and>
    (let parent = patched_opt (i_parent old) (p_parent patch) in
      parent_rel b' \<subseteq> (parent_rel b - {(i, q) |q. True}) \<union> (case parent of Some p \<Rightarrow> {(i, p)} | None \<Rightarrow> {}) \<and>
      (case parent of
         None \<Rightarrow> True
       | Some p \<Rightarrow> i_parent old = Some p \<or> (\<exists>proj. validate_issue_refs b (Some p) proj (Some i) = Inr ())))"
proof -
  obtain old where row: "row_of b i = Some old" and iss: "b_issues b' = b_issues (set_issue i (patched_row now old patch) b)"
    and chk: "''parent_issue_id'' \<in> set (patch_changes old patch) \<Longrightarrow>
      \<exists>proj. validate_issue_refs b (patched_opt (i_parent old) (p_parent patch)) proj (Some i) = Inr ()"
  proof -
    obtain old where old: "get_issue b i = Inr old" using assms by (cases "get_issue b i") (simp_all add: update_issue_def)
    let ?changes = "patch_changes old patch" and ?b1 = "set_issue i (patched_row now old patch) b"
    have e: "\<exists>x. (if ''parent_issue_id'' \<in> set ?changes \<or> ''project_id'' \<in> set ?changes
                 then validate_issue_refs b (patched_opt (i_parent old) (p_parent patch))
                        (patched_opt (i_project old) (p_project patch)) (Some i)
                 else Inr ()) = Inr x \<and>
      ((), if ?changes = [] then ?b1 else insert_activity i who ''updated'' (FieldsChanged ?changes) now ?b1) = (u, b')"
      using assms old by (simp only: update_issue_def and_then_simps Let_def and_then_eq_Inr sum.inject)
    have "b_issues b' = b_issues ?b1" using e by (auto split: if_splits)
    moreover have "\<exists>proj. validate_issue_refs b (patched_opt (i_parent old) (p_parent patch)) proj (Some i) = Inr ()"
      if "''parent_issue_id'' \<in> set ?changes" using e that by auto
    ultimately show thesis using that old by (simp add: get_issue_row)
  qed
  let ?f = "patched_row now old patch"
  have "row_of b' c = map_option (\<lambda>r. if c = i then ?f r else r) (row_of b c)" for c
    using row_of_set_issue [of ?f i b c] iss by (simp add: row_of_def)
  then have "parent_of_row b' c = (if c = i then patched_opt (i_parent old) (p_parent patch) else parent_of_row b c)" for c
    using row by (cases "row_of b c") (auto simp: parent_of_row_alt)
  then have "parent_rel b' \<subseteq> (parent_rel b - {(i, q) |q. True}) \<union>
      (case patched_opt (i_parent old) (p_parent patch) of Some p \<Rightarrow> {(i, p)} | None \<Rightarrow> {})"
    by (auto simp: parent_rel_def split: option.splits if_splits)
  moreover have "i_parent old = Some p \<or> (\<exists>proj. validate_issue_refs b (Some p) proj (Some i) = Inr ())"
    if "patched_opt (i_parent old) (p_parent patch) = Some p" for p
  proof (cases "i_parent old = Some p")
    case False
    then have "p_parent patch = Some p" using that by (auto simp: patched_opt_def split: option.splits)
    then have "''parent_issue_id'' \<in> set (patch_changes old patch)"
      using False by (simp add: patch_changes_def changed_opt_by_def)
    then show ?thesis using chk that by simp
  qed simp
  ultimately show ?thesis using row by (auto simp: Let_def split: option.splits)
qed

text \<open>
  C22: changing the parent of an issue keeps the parent links free of cycles, as long as the new parent has
  no ancestor chain of more than 64 links that leads to the issue; self-parenting is always refused.
\<close>
theorem parent_update_acyclic:
  assumes "update_issue now i patch who b = Inr (u, b')" "acyclic (parent_rel b)"
    "\<And>p k. p_parent patch = Some p \<Longrightarrow> k > 64 \<Longrightarrow> (p, i) \<notin> parent_rel b ^^ k"
  shows "acyclic (parent_rel b')"
proof -
  obtain old where old: "row_of b i = Some old" and E:
    "let parent = patched_opt (i_parent old) (p_parent patch) in
      parent_rel b' \<subseteq> (parent_rel b - {(i, q) |q. True}) \<union> (case parent of Some p \<Rightarrow> {(i, p)} | None \<Rightarrow> {}) \<and>
      (case parent of
         None \<Rightarrow> True
       | Some p \<Rightarrow> i_parent old = Some p \<or> (\<exists>proj. validate_issue_refs b (Some p) proj (Some i) = Inr ()))"
    using update_parent_effect [OF assms(1)] by blast
  show ?thesis
  proof (cases "patched_opt (i_parent old) (p_parent patch)")
    case None
    then have "parent_rel b' \<subseteq> parent_rel b" using E by (auto simp: Let_def)
    then show ?thesis using acyclic_subset assms(2) by blast
  next
    case (Some p)
    then have sub: "parent_rel b' \<subseteq> insert (i, p) (parent_rel b)" using E by (auto simp: Let_def)
    have "(p, i) \<notin> (parent_rel b)\<^sup>*"
    proof (cases "i_parent old = Some p")
      case True
      then have "(i, p) \<in> parent_rel b" using old by (simp add: parent_rel_def parent_of_row_alt)
      then show ?thesis using assms(2) unfolding acyclic_def by (meson rtrancl_into_trancl2)
    next
      case False
      then have pp: "p_parent patch = Some p" using Some by (auto simp: patched_opt_def split: option.splits)
      from False Some E obtain proj where "validate_issue_refs b (Some p) proj (Some i) = Inr ()" by (auto simp: Let_def)
      note v = validate_issue_refs_Inr [OF this]
      have "(p, i) \<notin> parent_rel b ^^ k" for k
        using v assms(3) [OF pp, of k] by (cases k; cases "k \<le> 64") auto
      then show ?thesis by (simp add: rtrancl_is_UN_relpow)
    qed
    then have "acyclic (insert (i, p) (parent_rel b))" using assms(2) by (simp add: acyclic_insert)
    then show ?thesis using acyclic_subset sub by blast
  qed
qed

subsection \<open>Where the checks end\<close>

text \<open>A board whose issues form one chain of parents: issue \<open>k\<close> has the parent \<open>k + 1\<close>, the last one none.\<close>

definition chain_row :: "nat \<Rightarrow> nat \<Rightarrow> issue" where
  "chain_row n k =
     \<lparr>i_id = int k, i_number = (''NB'', int k), i_title = ''t'', i_description = [], i_status = Backlog,
      i_priority = 1, i_assignee = None, i_assignee_id = None, i_creator = Actor ''admin'' ''admin'',
      i_parent = (if k < n then Some (int k + 1) else None), i_project = None, i_due_date = None,
      i_position = int k, i_criteria = None, i_hidden = False, i_updated_at = 0\<rparr>"

definition chain_board :: "nat \<Rightarrow> board" where
  "chain_board n =
     \<lparr>b_issues = map (chain_row n) [1..<Suc n], b_next_id = int n + 1, b_counter = int n, b_prefix = ''NB'',
      b_projects = [], b_deps = [], b_comments = [], b_activities = [], b_notifications = [],
      b_subscribers = [], b_dispatches = []\<rparr>"

definition parent_patch :: "int \<Rightarrow> issue_patch" where
  "parent_patch p =
     \<lparr>p_title = None, p_description = None, p_priority = None, p_project = None, p_due_date = None,
      p_position = None, p_criteria = None, p_parent = Some p\<rparr>"

lemma find_chain_row: "1 \<le> k \<Longrightarrow> k < m \<Longrightarrow> find (\<lambda>r. i_id r = int k) (map (chain_row n) [1..<m]) = Some (chain_row n k)"
proof (induction m)
  case (Suc m)
  have app: "find P (xs @ ys) = (case find P xs of None \<Rightarrow> find P ys | s \<Rightarrow> s)" for P and xs ys :: "issue list"
    by (induction xs) auto
  show ?case
  proof (cases "k < m")
    case True then show ?thesis using Suc by (simp add: app)
  next
    case False
    then have "k = m" using Suc by simp
    moreover have "find (\<lambda>r. i_id r = int m) (map (chain_row n) [1..<m]) = None"
      by (auto simp: find_None_iff chain_row_def)
    ultimately show ?thesis using Suc by (simp add: app) (simp add: chain_row_def)
  qed
qed simp

lemma chain_row_of: "1 \<le> k \<Longrightarrow> k \<le> n \<Longrightarrow> row_of (chain_board n) (int k) = Some (chain_row n k)"
  using find_chain_row [of k "Suc n" n] by (simp add: row_of_def chain_board_def del: upt_Suc)

lemma chain_rel_sub: "parent_rel (chain_board n) \<subseteq> {(x, y). y = x + 1}"
proof -
  have "y = x + 1" if "parent_of_row (chain_board n) x = Some y" for x y
  proof -
    obtain r where r: "row_of (chain_board n) x = Some r" "i_parent r = Some y"
      using \<open>parent_of_row (chain_board n) x = Some y\<close> by (cases "row_of (chain_board n) x") (auto simp: parent_of_row_alt)
    then have "r \<in> set (b_issues (chain_board n))" "i_id r = x" by (auto simp: row_of_def find_Some_iff)
    then show ?thesis using r(2) by (auto simp: chain_board_def chain_row_def split: if_splits)
  qed
  then show ?thesis by (auto simp: parent_rel_def)
qed

lemma chain_acyclic: "acyclic (parent_rel (chain_board n))"
proof (rule acyclic_subset [OF _ chain_rel_sub])
  have "(x, y) \<in> {(x, y). y = x + 1}\<^sup>+ \<Longrightarrow> x < y" for x y :: int
    by (induction rule: trancl_induct) auto
  then show "acyclic {(x, y). y = x + (1 :: int)}" by (auto simp: acyclic_def)
qed

lemma chain_steps: "1 \<le> k \<Longrightarrow> k + m \<le> n \<Longrightarrow> (int k, int (k + m)) \<in> parent_rel (chain_board n) ^^ m"
proof (induction m)
  case (Suc m)
  have "row_of (chain_board n) (int (k + m)) = Some (chain_row n (k + m))" using Suc.prems by (intro chain_row_of) auto
  then have "(int (k + m), int (k + Suc m)) \<in> parent_rel (chain_board n)"
    using Suc.prems by (auto simp: parent_rel_def parent_of_row_alt chain_row_def)
  then show ?case using Suc by (auto intro: relpow_Suc_I)
qed simp

lemma chain_not_reached: "\<not> chain_reaches 64 (chain_board 66) (Some 66) 1"
proof
  assume "chain_reaches 64 (chain_board 66) (Some 66) 1"
  then obtain k where k: "k < 64" "(1, 66) \<in> parent_rel (chain_board 66) ^^ Suc k" by (auto simp: chain_reaches_iff)
  have "(x, y) \<in> parent_rel (chain_board n) ^^ m \<Longrightarrow> y = x + int m" for x y m n
    using chain_rel_sub by (induction m arbitrary: y) fastforce+
  then have "66 = 1 + int (Suc k)" using k(2) by blast
  then show False using k(1) by simp
qed

text \<open>
  The check of parent links follows at most 64 of them.  On a chain of 66 issues without a cycle, making the
  topmost issue a child of the lowest one is accepted, and the parent links form a cycle.
\<close>
theorem deep_parent_cycle_accepted:
  "acyclic (parent_rel (chain_board 66)) \<and>
   (\<exists>b'. update_issue 0 66 (parent_patch 1) (Actor ''admin'' ''admin'') (chain_board 66) = Inr ((), b') \<and>
         \<not> acyclic (parent_rel b'))"
proof -
  let ?b = "chain_board 66" and ?old = "chain_row 66 66"
  have row: "row_of ?b 66 = Some ?old" using chain_row_of [of 66 66] by simp
  have one: "row_of ?b 1 = Some (chain_row 66 1)" using chain_row_of [of 1 66] by simp
  have par: "patched_opt (i_parent ?old) (p_parent (parent_patch 1)) = Some 1"
    "patched_opt (i_project ?old) (p_project (parent_patch 1)) = None"
    by (simp_all add: patched_opt_def parent_patch_def chain_row_def)
  have ex: "list_ex (\<lambda>r. i_id r = 1) (b_issues ?b)"
    using one by (auto simp: row_of_def find_Some_iff list_ex_iff)
  have ok: "validate_issue_refs ?b (Some 1) None (Some 66) = Inr ()"
    using ex chain_not_reached by (simp add: validate_issue_refs_def del: chain_reaches.simps)
  have chg: "patch_changes ?old (parent_patch 1) = [''parent_issue_id'']"
    by (simp add: patch_changes_def changed_by_def changed_opt_by_def parent_patch_def chain_row_def)
  let ?b1 = "set_issue 66 (patched_row 0 ?old (parent_patch 1)) ?b"
  let ?b' = "insert_activity 66 (Actor ''admin'' ''admin'') ''updated'' (FieldsChanged [''parent_issue_id'']) 0 ?b1"
  have upd: "update_issue 0 66 (parent_patch 1) (Actor ''admin'' ''admin'') ?b = Inr ((), ?b')"
    using row by (simp add: update_issue_def get_issue_row [THEN iffD2, OF row] par chg ok)
  have rows: "row_of ?b1 c = map_option (\<lambda>r. if c = 66 then patched_row 0 ?old (parent_patch 1) r else r) (row_of ?b c)" for c
    using row_of_set_issue [of "patched_row 0 ?old (parent_patch 1)" 66 ?b c] by simp
  have pr: "parent_of_row ?b' c = (if c = 66 then Some 1 else parent_of_row ?b c)" for c
    using row by (cases "row_of ?b c") (auto simp: parent_of_row_alt rows par)
  have "parent_rel ?b \<subseteq> parent_rel ?b'"
    using pr row by (auto simp: parent_rel_def parent_of_row_alt chain_row_def split: if_splits)
  note sub = this
  have "(int 1, int (1 + 65)) \<in> parent_rel ?b ^^ 65" by (rule chain_steps) simp_all
  then have "(int 1, int (1 + 65)) \<in> (parent_rel ?b)\<^sup>*" by (rule relpow_imp_rtrancl)
  then have "(int 1, int (1 + 65)) \<in> (parent_rel ?b')\<^sup>*" by (rule subsetD [OF rtrancl_mono [OF sub]])
  then have "(1, 66) \<in> (parent_rel ?b')\<^sup>*" by simp
  moreover have "(66, 1) \<in> parent_rel ?b'" by (simp add: parent_rel_def pr)
  ultimately have "(66, 66) \<in> (parent_rel ?b')\<^sup>+" by (rule rtrancl_into_trancl2 [rotated])
  then have "\<not> acyclic (parent_rel ?b')" by (auto simp: acyclic_def)
  then show ?thesis using upd chain_acyclic by blast
qed

text \<open>
  Dragging an issue to \<^verbatim>\<open>done\<close> leaves out the audit comment that the plain transition writes when a
  person completes an issue without review: the comment says that the two share one audit.
\<close>
theorem drag_skips_review_note:
  assumes "get_issue b i = Inr old" "i_status old = Todo" "a_kind who = ''admin''"
  shows "(\<exists>b1. transition_issue now i Done who b = Inr ((), b1) \<and>
            map c_content (b_comments b1) = map c_content (b_comments b) @ [StatusNote Todo Done, SkippedReview Todo who]) \<and>
         (\<exists>b2. move_issue now i Done pos who b = Inr ((), b2) \<and>
            map c_content (b_comments b2) = map c_content (b_comments b) @ [StatusNote Todo Done])"
proof -
  have "checked_transition Todo Done = Inr ()"
    by (simp add: checked_transition_def validate_transition_def can_transition_def)
  then show ?thesis using assms
    by (simp add: transition_issue_def move_issue_def Let_def insert_comment_def)
qed

text \<open>
  Reopening an issue is refused while its parent is cancelled, and it shows a hidden issue again.
  Dragging it to \<^verbatim>\<open>backlog\<close>, or the plain transition, does neither: the child of a cancelled parent
  is reopened and stays hidden.
\<close>
theorem drag_reopens_hidden_child:
  assumes "get_issue b i = Inr old" "i_status old = Cancelled" "i_hidden old" "i_parent old = Some p"
    "get_issue b p = Inr parent" "i_status parent = Cancelled"
  shows "reopen_issue now i who b = Inl (ParentCancelled (i_number parent)) \<and>
         (\<exists>b' r. move_issue now i Backlog pos who b = Inr ((), b') \<and> get_issue b' i = Inr r \<and>
            i_status r = Backlog \<and> i_hidden r)"
proof -
  have tr: "checked_transition Cancelled Backlog = Inr ()"
    by (simp add: checked_transition_def validate_transition_def can_transition_def)
  have row: "row_of (set_issue i (\<lambda>r. r\<lparr>i_status := Backlog, i_position := pos, i_updated_at := now\<rparr>) b) i =
      Some (old\<lparr>i_status := Backlog, i_position := pos, i_updated_at := now\<rparr>)"
    using assms(1) by (simp add: row_of_set_issue get_issue_row)
  obtain b' where "move_issue now i Backlog pos who b = Inr ((), b')"
    "row_of b' = row_of (set_issue i (\<lambda>r. r\<lparr>i_status := Backlog, i_position := pos, i_updated_at := now\<rparr>) b)"
    using assms(1,2) tr by (simp add: move_issue_def Let_def)
  moreover have "reopen_issue now i who b = Inl (ParentCancelled (i_number parent))"
    using assms by (simp add: reopen_issue_def parent_alive_def)
  ultimately show ?thesis using row assms(3) by (simp add: get_issue_row)
qed

subsection \<open>An example\<close>


text \<open>On a chain of three issues the top one may be put under none of the others, but the lowest one may go to the top.\<close>

theorem parent_update_acyclic_witness:
  "\<exists>b'. update_issue 0 1 (parent_patch 3) (Actor ''admin'' ''admin'') (chain_board 3) = Inr ((), b') \<and> acyclic (parent_rel b')"
proof -
  let ?b = "chain_board 3"
  have "case update_issue 0 1 (parent_patch 3) (Actor ''admin'' ''admin'') ?b of Inr _ \<Rightarrow> True | Inl _ \<Rightarrow> False"
    by code_simp
  then obtain b' where u: "update_issue 0 1 (parent_patch 3) (Actor ''admin'' ''admin'') ?b = Inr ((), b')"
    by (auto split: sum.splits)
  have "(p, 1) \<notin> parent_rel ?b ^^ k" if "p_parent (parent_patch 3) = Some p" "k > 64" for p k
  proof
    assume "(p, 1) \<in> parent_rel ?b ^^ k"
    moreover have "(x, y) \<in> parent_rel ?b ^^ m \<Longrightarrow> y = x + int m" for x y m
      using chain_rel_sub by (induction m arbitrary: y) fastforce+
    ultimately have "1 = p + int k" by blast
    then show False using that by (simp add: parent_patch_def)
  qed
  from parent_update_acyclic [OF u chain_acyclic this] show ?thesis using u by blast
qed

end
