(* ===== verification/BoardQuota.thy ===== *)
theory BoardQuota
  imports Prelude
begin

text \<open>
  The quota of agents in discussions (nemesis-board: quota.rs): messages per minute and per hour of
  a node, and turns per thread.  Limits and counters are 32-bit words as in the sources, the length of a
  window is cut to 32 bits before it is compared; timestamps are seconds as integers.  The configuration is
  an argument of every operation, since the sources read it anew each time.
\<close>

type_synonym u32 = "32 word"

record quota_config =
  max_agent_turns_per_thread :: u32
  hourly_budget_per_node :: u32
  rate_limit_per_min :: u32

definition default_quota :: quota_config where
  "default_quota = \<lparr>max_agent_turns_per_thread = 8, hourly_budget_per_node = 20, rate_limit_per_min = 12\<rparr>"

datatype quota_denied = ThreadQuotaExhausted | HourlyBudgetExhausted | RateLimited

fun denied_error_code :: "quota_denied \<Rightarrow> str" where
  "denied_error_code ThreadQuotaExhausted = ''quota_exhausted''"
| "denied_error_code HourlyBudgetExhausted = ''quota_exhausted''"
| "denied_error_code RateLimited = ''rate_limited''"

record node_window =
  minute :: "int list"
  hour :: "int list"

record quota_ledger =
  q_nodes :: "str \<rightharpoonup> node_window"
  q_threads :: "str \<rightharpoonup> u32"

definition empty_quota :: quota_ledger where
  "empty_quota = \<lparr>q_nodes = Map.empty, q_threads = Map.empty\<rparr>"

definition window_of :: "quota_ledger \<Rightarrow> str \<Rightarrow> node_window" where
  "window_of l node = (case q_nodes l node of Some w \<Rightarrow> w | None \<Rightarrow> \<lparr>minute = [], hour = []\<rparr>)"

definition used_of :: "quota_ledger \<Rightarrow> str \<Rightarrow> u32" where
  "used_of l thread = (case q_threads l thread of Some n \<Rightarrow> n | None \<Rightarrow> 0)"

definition len_u32 :: "'a list \<Rightarrow> u32" where
  "len_u32 xs = of_nat (length xs)"

definition saturating_sub :: "u32 \<Rightarrow> u32 \<Rightarrow> u32" where
  "saturating_sub a b = (if b \<le> a then a - b else 0)"

definition within :: "int \<Rightarrow> int \<Rightarrow> int list \<Rightarrow> int list" where
  "within span now ts = filter (\<lambda>t. now - t < span) ts"

definition turns_left :: "quota_config \<Rightarrow> quota_ledger \<Rightarrow> str \<Rightarrow> u32" where
  "turns_left cfg l thread =
     (if max_agent_turns_per_thread cfg = 0 then - 1
      else saturating_sub (max_agent_turns_per_thread cfg) (used_of l thread))"

text \<open>The three gates in their order; each returns the ledger with the window it has pruned or the entry it has made.\<close>

definition rate_gate :: "quota_config \<Rightarrow> str \<Rightarrow> int \<Rightarrow> quota_ledger \<Rightarrow> bool \<times> quota_ledger" where
  "rate_gate cfg node now l =
     (if rate_limit_per_min cfg > 0
      then let w = (window_of l node)\<lparr>minute := within 60 now (minute (window_of l node))\<rparr>
           in (len_u32 (minute w) \<ge> rate_limit_per_min cfg, l\<lparr>q_nodes := (q_nodes l)(node \<mapsto> w)\<rparr>)
      else (False, l))"

definition hour_gate :: "quota_config \<Rightarrow> str \<Rightarrow> int \<Rightarrow> quota_ledger \<Rightarrow> bool \<times> quota_ledger" where
  "hour_gate cfg node now l =
     (if hourly_budget_per_node cfg > 0
      then let w = (window_of l node)\<lparr>hour := within 3600 now (hour (window_of l node))\<rparr>
           in (len_u32 (hour w) \<ge> hourly_budget_per_node cfg, l\<lparr>q_nodes := (q_nodes l)(node \<mapsto> w)\<rparr>)
      else (False, l))"

definition thread_gate :: "quota_config \<Rightarrow> str \<Rightarrow> quota_ledger \<Rightarrow> bool \<times> quota_ledger" where
  "thread_gate cfg thread l =
     (if max_agent_turns_per_thread cfg > 0
      then (used_of l thread \<ge> max_agent_turns_per_thread cfg, l\<lparr>q_threads := (q_threads l)(thread \<mapsto> used_of l thread)\<rparr>)
      else (False, l))"

definition book_post :: "quota_config \<Rightarrow> str \<Rightarrow> str \<Rightarrow> int \<Rightarrow> quota_ledger \<Rightarrow> quota_ledger" where
  "book_post cfg thread node now l =
     (let w = window_of l node;
          l1 = l\<lparr>q_nodes := (q_nodes l)(node \<mapsto> w\<lparr>minute := minute w @ [now], hour := hour w @ [now]\<rparr>)\<rparr>
      in if max_agent_turns_per_thread cfg > 0
         then l1\<lparr>q_threads := (q_threads l1)(thread \<mapsto> used_of l1 thread + 1)\<rparr> else l1)"

definition try_consume_post :: "quota_config \<Rightarrow> str \<Rightarrow> str \<Rightarrow> int \<Rightarrow> quota_ledger \<Rightarrow> (quota_denied + u32) \<times> quota_ledger" where
  "try_consume_post cfg thread node now l =
     (let (r, l1) = rate_gate cfg node now l in
      if r then (Inl RateLimited, l1)
      else let (h, l2) = hour_gate cfg node now l1 in
        if h then (Inl HourlyBudgetExhausted, l2)
        else let (t, l3) = thread_gate cfg thread l2 in
          if t then (Inl ThreadQuotaExhausted, l3)
          else let l4 = book_post cfg thread node now l3 in (Inr (turns_left cfg l4 thread), l4))"

definition can_post :: "quota_config \<Rightarrow> str \<Rightarrow> int \<Rightarrow> quota_ledger \<Rightarrow> quota_denied + unit" where
  "can_post cfg node now l =
     (case q_nodes l node of
        None \<Rightarrow> Inr ()
      | Some w \<Rightarrow>
          if rate_limit_per_min cfg > 0 \<and> len_u32 (within 60 now (minute w)) \<ge> rate_limit_per_min cfg then Inl RateLimited
          else if hourly_budget_per_node cfg > 0 \<and> len_u32 (within 3600 now (hour w)) \<ge> hourly_budget_per_node cfg
          then Inl HourlyBudgetExhausted
          else Inr ())"

subsection \<open>The specification: a history of posts\<close>

text \<open>
  A post that went through is noted with its thread, its node, its time and whether it counted as a turn
  (threads are counted only while a limit is set).
\<close>

record post =
  po_thread :: str
  po_node :: str
  po_time :: int
  po_counted :: bool

definition recent :: "int \<Rightarrow> str \<Rightarrow> int \<Rightarrow> post list \<Rightarrow> nat" where
  "recent span node now h = length (filter (\<lambda>p. po_node p = node \<and> now - po_time p < span) h)"

definition turns :: "str \<Rightarrow> post list \<Rightarrow> nat" where
  "turns thread h = length (filter (\<lambda>p. po_thread p = thread \<and> po_counted p) h)"

definition spec_post :: "quota_config \<Rightarrow> str \<Rightarrow> str \<Rightarrow> int \<Rightarrow> post list \<Rightarrow> (quota_denied + nat option) \<times> post list" where
  "spec_post cfg thread node now h =
     (if rate_limit_per_min cfg \<noteq> 0 \<and> recent 60 node now h \<ge> unat (rate_limit_per_min cfg) then (Inl RateLimited, h)
      else if hourly_budget_per_node cfg \<noteq> 0 \<and> recent 3600 node now h \<ge> unat (hourly_budget_per_node cfg)
      then (Inl HourlyBudgetExhausted, h)
      else if max_agent_turns_per_thread cfg \<noteq> 0 \<and> turns thread h \<ge> unat (max_agent_turns_per_thread cfg)
      then (Inl ThreadQuotaExhausted, h)
      else (Inr (if max_agent_turns_per_thread cfg = 0 then None
                 else Some (unat (max_agent_turns_per_thread cfg) - Suc (turns thread h))),
            h @ [\<lparr>po_thread = thread, po_node = node, po_time = now, po_counted = max_agent_turns_per_thread cfg \<noteq> 0\<rparr>]))"

text \<open>The ledger at a time represents a history when every later view of its windows and its counters agree.\<close>

definition represents :: "quota_ledger \<Rightarrow> int \<Rightarrow> post list \<Rightarrow> bool" where
  "represents l now h \<longleftrightarrow>
     (\<forall>node s. s \<ge> now \<longrightarrow>
        within 60 s (minute (window_of l node)) = map po_time (filter (\<lambda>p. po_node p = node \<and> s - po_time p < 60) h) \<and>
        within 3600 s (hour (window_of l node)) = map po_time (filter (\<lambda>p. po_node p = node \<and> s - po_time p < 3600) h)) \<and>
     (\<forall>thread. unat (used_of l thread) = turns thread h)"

lemma within_within: "now \<le> s \<Longrightarrow> within span s (within span now ts) = within span s ts"
  by (auto simp: within_def intro: filter_cong)

lemma len_u32_ge: "length xs < 2 ^ 32 \<Longrightarrow> (limit :: u32) \<le> len_u32 xs \<longleftrightarrow> unat limit \<le> length xs"
  by (simp add: len_u32_def word_le_nat_alt unat_of_nat)

lemma window_of_upd: "window_of (l\<lparr>q_nodes := (q_nodes l)(node \<mapsto> w)\<rparr>) n = (if n = node then w else window_of l n)"
  by (simp add: window_of_def)

lemma used_of_upd: "used_of (l\<lparr>q_threads := (q_threads l)(thread \<mapsto> u)\<rparr>) t = (if t = thread then u else used_of l t)"
  by (simp add: used_of_def)

lemma frames [simp]:
  "window_of (l\<lparr>q_threads := m\<rparr>) n = window_of l n" "used_of (l\<lparr>q_nodes := k\<rparr>) t = used_of l t"
  by (simp_all add: window_of_def used_of_def)

lemma represents_le: "represents l now h \<Longrightarrow> now \<le> now' \<Longrightarrow> represents l now' h"
  by (simp add: represents_def)

lemma represents_cong:
  assumes "represents l now h" "\<And>t. used_of l' t = used_of l t"
    "\<And>node s. s \<ge> now \<Longrightarrow> within 60 s (minute (window_of l' node)) = within 60 s (minute (window_of l node))"
    "\<And>node s. s \<ge> now \<Longrightarrow> within 3600 s (hour (window_of l' node)) = within 3600 s (hour (window_of l node))"
  shows "represents l' now h"
  using assms by (simp add: represents_def)

lemma recent_eq:
  assumes "represents l now h"
  shows "length (within 60 now (minute (window_of l node))) = recent 60 node now h"
    and "length (within 3600 now (hour (window_of l node))) = recent 3600 node now h"
  using assms by (simp_all add: represents_def recent_def)

lemma recent_le: "recent span node now h \<le> length h"
  by (simp add: recent_def)

lemma rate_gate_represents:
  assumes "represents l now h" "rate_gate cfg node now l = (r, l1)" "length h < 2 ^ 32"
  shows "represents l1 now h \<and> (r \<longleftrightarrow> rate_limit_per_min cfg \<noteq> 0 \<and> recent 60 node now h \<ge> unat (rate_limit_per_min cfg))"
proof (cases "rate_limit_per_min cfg = 0")
  case True then show ?thesis using assms by (simp add: rate_gate_def)
next
  case False
  let ?w = "within 60 now (minute (window_of l node))"
  have l1: "l1 = l\<lparr>q_nodes := (q_nodes l)(node \<mapsto> (window_of l node)\<lparr>minute := ?w\<rparr>)\<rparr>" and r: "r \<longleftrightarrow> rate_limit_per_min cfg \<le> len_u32 ?w"
    using assms(2) False by (auto simp: rate_gate_def Let_def word_neq_0_conv)
  have "length ?w < 2 ^ 32" unfolding recent_eq [OF assms(1)] using recent_le [of 60 node now h] assms(3) by linarith
  then have "r \<longleftrightarrow> recent 60 node now h \<ge> unat (rate_limit_per_min cfg)"
    unfolding r by (simp only: len_u32_ge recent_eq(1) [OF assms(1)])
  moreover have "represents l1 now h"
    unfolding l1 by (rule represents_cong [OF assms(1)]) (simp_all add: window_of_upd within_within)
  ultimately show ?thesis using False by simp
qed

lemma hour_gate_represents:
  assumes "represents l now h" "hour_gate cfg node now l = (r, l1)" "length h < 2 ^ 32"
  shows "represents l1 now h \<and> (r \<longleftrightarrow> hourly_budget_per_node cfg \<noteq> 0 \<and> recent 3600 node now h \<ge> unat (hourly_budget_per_node cfg))"
proof (cases "hourly_budget_per_node cfg = 0")
  case True then show ?thesis using assms by (simp add: hour_gate_def)
next
  case False
  let ?w = "within 3600 now (hour (window_of l node))"
  have l1: "l1 = l\<lparr>q_nodes := (q_nodes l)(node \<mapsto> (window_of l node)\<lparr>hour := ?w\<rparr>)\<rparr>" and r: "r \<longleftrightarrow> hourly_budget_per_node cfg \<le> len_u32 ?w"
    using assms(2) False by (auto simp: hour_gate_def Let_def word_neq_0_conv)
  have "length ?w < 2 ^ 32" unfolding recent_eq [OF assms(1)] using recent_le [of 3600 node now h] assms(3) by linarith
  then have "r \<longleftrightarrow> recent 3600 node now h \<ge> unat (hourly_budget_per_node cfg)"
    unfolding r by (simp only: len_u32_ge recent_eq(2) [OF assms(1)])
  moreover have "represents l1 now h"
    unfolding l1 by (rule represents_cong [OF assms(1)]) (simp_all add: window_of_upd within_within)
  ultimately show ?thesis using False by simp
qed

lemma thread_gate_represents:
  assumes "represents l now h" "thread_gate cfg thread l = (r, l1)"
  shows "represents l1 now h \<and> (r \<longleftrightarrow> max_agent_turns_per_thread cfg \<noteq> 0 \<and> turns thread h \<ge> unat (max_agent_turns_per_thread cfg))"
  using assms
  by (auto simp: thread_gate_def represents_def used_of_upd word_neq_0_conv word_le_nat_alt split: if_splits)


lemma unat_Suc_u32: "unat (u :: u32) < unat (c :: u32) \<Longrightarrow> unat (u + 1) = Suc (unat u)"
proof -
  assume "unat u < unat c"
  moreover have "unat c < 2 ^ 32" using unsigned_less [of c] by simp
  ultimately show ?thesis by (simp add: unat_plus_if_size word_size)
qed

lemma book_post_represents:
  assumes "represents l now h"
    "max_agent_turns_per_thread cfg = 0 \<or> turns thread h < unat (max_agent_turns_per_thread cfg)"
  shows "represents (book_post cfg thread node now l) now
    (h @ [\<lparr>po_thread = thread, po_node = node, po_time = now, po_counted = max_agent_turns_per_thread cfg \<noteq> 0\<rparr>])"
proof -
  let ?l = "book_post cfg thread node now l"
  have w: "window_of ?l n = (if n = node
      then (window_of l node)\<lparr>minute := minute (window_of l node) @ [now], hour := hour (window_of l node) @ [now]\<rparr>
      else window_of l n)" for n
    by (simp add: book_post_def Let_def window_of_def)
  have u: "used_of ?l t = (if t = thread \<and> max_agent_turns_per_thread cfg \<noteq> 0 then used_of l t + 1 else used_of l t)" for t
    by (auto simp: book_post_def Let_def used_of_def word_neq_0_conv)
  have "unat (used_of l thread) = turns thread h" using assms(1) by (simp add: represents_def)
  then have "unat (used_of l thread + 1) = Suc (turns thread h)" if "max_agent_turns_per_thread cfg \<noteq> 0"
    using assms(2) that unat_Suc_u32 [of "used_of l thread" "max_agent_turns_per_thread cfg"] by simp
  then show ?thesis using assms(1) by (simp add: represents_def w u within_def turns_def)
qed

text \<open>The remaining turns as the caller sees them: \<^verbatim>\<open>u32::MAX\<close> stands for no limit.\<close>

definition seen_turns :: "quota_denied + nat option \<Rightarrow> quota_denied + u32" where
  "seen_turns r = map_sum id (\<lambda>x. case x of None \<Rightarrow> - 1 | Some n \<Rightarrow> of_nat n) r"

lemma quota_refines:
  assumes "represents l now h" "length h < 2 ^ 32"
  shows "fst (try_consume_post cfg thread node now l) = seen_turns (fst (spec_post cfg thread node now h)) \<and>
         represents (snd (try_consume_post cfg thread node now l)) now (snd (spec_post cfg thread node now h))"
proof -
  obtain r l1 where r: "rate_gate cfg node now l = (r, l1)" by fastforce
  obtain u l2 where u: "hour_gate cfg node now l1 = (u, l2)" by fastforce
  obtain t l3 where t: "thread_gate cfg thread l2 = (t, l3)" by fastforce
  note R = rate_gate_represents [OF assms(1) r assms(2)]
  note U = hour_gate_represents [OF conjunct1 [OF R] u assms(2)]
  note T = thread_gate_represents [OF conjunct1 [OF U] t]
  let ?cap = "max_agent_turns_per_thread cfg" and ?l4 = "book_post cfg thread node now l3"
  have B: "represents ?l4 now (h @ [\<lparr>po_thread = thread, po_node = node, po_time = now, po_counted = ?cap \<noteq> 0\<rparr>])" if "\<not> t"
    using T that by (intro book_post_represents) auto
  have left: "turns_left cfg ?l4 thread = (if ?cap = 0 then - 1 else of_nat (unat ?cap - Suc (turns thread h)))" if "\<not> t"
  proof (cases "?cap = 0")
    case False
    then have "unat (used_of ?l4 thread) = Suc (turns thread h)" "Suc (turns thread h) \<le> unat ?cap"
      using B [OF that] T that by (auto simp: represents_def turns_def)
    then have "turns_left cfg ?l4 thread = ?cap - used_of ?l4 thread"
      using False by (simp add: turns_left_def saturating_sub_def word_le_nat_alt)
    also have "\<dots> = of_nat (unat ?cap) - of_nat (unat (used_of ?l4 thread))" by simp
    also have "\<dots> = of_nat (unat ?cap - unat (used_of ?l4 thread))"
      by (rule of_nat_diff [symmetric]) (use \<open>Suc (turns thread h) \<le> unat ?cap\<close> \<open>unat (used_of ?l4 thread) = _\<close> in simp)
    finally show ?thesis using False \<open>unat (used_of ?l4 thread) = _\<close> by simp
  qed (simp add: turns_left_def)
  show ?thesis using R U T B left
    by (auto simp: try_consume_post_def spec_post_def r u t Let_def seen_turns_def)
qed

subsection \<open>Runs\<close>

text \<open>A run of attempts (thread, node, time) with one configuration per attempt; the history it leaves.\<close>

type_synonym attempt = "quota_config \<times> str \<times> str \<times> int"

fun attempt_ledger :: "quota_ledger \<Rightarrow> attempt \<Rightarrow> quota_ledger" where
  "attempt_ledger l (cfg, thread, node, now) = snd (try_consume_post cfg thread node now l)"

fun attempt_history :: "post list \<Rightarrow> attempt \<Rightarrow> post list" where
  "attempt_history h (cfg, thread, node, now) = snd (spec_post cfg thread node now h)"

abbreviation attempt_time :: "attempt \<Rightarrow> int" where
  "attempt_time a \<equiv> snd (snd (snd a))"

definition quota_run :: "attempt list \<Rightarrow> quota_ledger" where
  "quota_run as = foldl attempt_ledger empty_quota as"

definition history_run :: "attempt list \<Rightarrow> post list" where
  "history_run as = foldl attempt_history [] as"

lemma history_run_snoc: "history_run (as @ [a]) = attempt_history (history_run as) a"
  by (simp add: history_run_def)

lemma quota_run_snoc: "quota_run (as @ [a]) = attempt_ledger (quota_run as) a"
  by (simp add: quota_run_def)

lemma spec_post_cases:
  "snd (spec_post cfg thread node now h) = h \<or>
   (snd (spec_post cfg thread node now h) =
      h @ [\<lparr>po_thread = thread, po_node = node, po_time = now, po_counted = max_agent_turns_per_thread cfg \<noteq> 0\<rparr>] \<and>
    (rate_limit_per_min cfg \<noteq> 0 \<longrightarrow> recent 60 node now h < unat (rate_limit_per_min cfg)))"
  by (simp add: spec_post_def)

lemma spec_post_length: "length (snd (spec_post cfg thread node now h)) \<le> Suc (length h)"
  by (simp add: spec_post_def)

lemma history_run_length: "length (history_run as) \<le> length as"
proof (induction as rule: rev_induct)
  case (snoc a as)
  then show ?case using spec_post_length [of "fst a" "fst (snd a)" "fst (snd (snd a))" "attempt_time a" "history_run as"]
    by (cases a) (auto simp: history_run_snoc intro: le_trans)
qed (simp add: history_run_def)

lemma quota_run_represents:
  assumes "sorted (map attempt_time as)" "length as < 2 ^ 32" "\<And>a. a \<in> set as \<Longrightarrow> attempt_time a \<le> now"
  shows "represents (quota_run as) now (history_run as)"
  using assms
proof (induction as arbitrary: now rule: rev_induct)
  case Nil
  show ?case by (simp add: represents_def quota_run_def history_run_def empty_quota_def window_of_def used_of_def within_def turns_def)
next
  case (snoc a as)
  obtain cfg thread node t where a: "a = (cfg, thread, node, t)" by (cases a)
  have "represents (quota_run as) t (history_run as)"
    using snoc.prems a by (intro snoc.IH) (auto simp: sorted_append)
  moreover have "length (history_run as) < 2 ^ 32" using history_run_length [of as] snoc.prems(2) by simp
  ultimately have "represents (quota_run (as @ [a])) t (history_run (as @ [a]))"
    using quota_refines [of "quota_run as" t "history_run as" cfg thread node] by (simp add: a quota_run_snoc history_run_snoc)
  moreover have "t \<le> now" using snoc.prems(3) [of a] a by simp
  ultimately show ?case by (rule represents_le)
qed

text \<open>
  C20: as long as the clock does not run backwards, an attempt to post is decided as the history of the
  posts that went through demands: it is refused exactly when the node already has as many posts in
  the last minute or hour, or the thread as many turns, as the limits in force allow (the first of
  the three that is met is reported), and otherwise it reports the turns left.  Refused attempts
  leave no trace in any later decision, although they prune windows.
\<close>
theorem quota_decides_by_history:
  assumes "sorted (map attempt_time (as @ [(cfg, thread, node, now)]))" "length as < 2 ^ 32"
  shows "fst (try_consume_post cfg thread node now (quota_run as)) =
         seen_turns (fst (spec_post cfg thread node now (history_run as)))"
proof -
  have "represents (quota_run as) now (history_run as)"
    using assms by (intro quota_run_represents) (auto simp: sorted_append)
  then show ?thesis using quota_refines history_run_length [of as] assms(2) by (meson le_less_trans)
qed

lemma history_times:
  assumes "sorted (map attempt_time as)" "\<And>a. a \<in> set as \<Longrightarrow> attempt_time a \<le> now"
  shows "\<forall>p \<in> set (history_run as). po_time p \<le> now"
  using assms
proof (induction as rule: rev_induct)
  case (snoc a as)
  have IH: "\<forall>p \<in> set (history_run as). po_time p \<le> now" using snoc by (simp add: sorted_append)
  obtain cfg thread node t where a: "a = (cfg, thread, node, t)" by (cases a)
  then have "t \<le> now" using snoc.prems(2) [of a] by simp
  then show ?case using IH by (auto simp: history_run_snoc a spec_post_def split: if_splits)
qed (simp add: history_run_def)

lemma history_rate_limit:
  assumes "sorted (map attempt_time as)" "limit \<noteq> 0" "\<And>a. a \<in> set as \<Longrightarrow> rate_limit_per_min (fst a) = limit"
  shows "length (filter (\<lambda>p. po_node p = node \<and> T - 60 < po_time p \<and> po_time p \<le> T) (history_run as)) \<le> unat limit"
  using assms
proof (induction as arbitrary: T rule: rev_induct)
  case (snoc a as)
  obtain cfg thread n t where a: "a = (cfg, thread, n, t)" by (cases a)
  let ?H = "history_run as" and ?in = "\<lambda>T p. po_node p = node \<and> T - 60 < po_time p \<and> po_time p \<le> T"
  have IH: "length (filter (?in T) ?H) \<le> unat limit" for T using snoc by (simp add: sorted_append)
  have lim: "rate_limit_per_min cfg = limit" using snoc.prems(3) [of a] a by simp
  have times: "\<forall>p \<in> set ?H. po_time p \<le> t" using snoc.prems(1) a by (intro history_times) (auto simp: sorted_append)
  show ?case
  proof (cases "history_run (as @ [a]) = ?H \<or> n \<noteq> node \<or> \<not> (T - 60 < t \<and> t \<le> T)")
    case True
    then have "filter (?in T) (history_run (as @ [a])) = filter (?in T) ?H"
      by (auto simp: history_run_snoc a spec_post_def split: if_splits)
    then show ?thesis using IH [of T] by simp
  next
    case False
    then have new: "history_run (as @ [a]) \<noteq> ?H" and n: "n = node" and t: "T - 60 < t" "t \<le> T" by auto
    then obtain c where "recent 60 node t ?H < unat limit"
      and "history_run (as @ [a]) = ?H @ [\<lparr>po_thread = thread, po_node = node, po_time = t, po_counted = c\<rparr>]"
    proof -
      have "snd (spec_post cfg thread n t ?H) \<noteq> ?H" using new by (simp add: history_run_snoc a)
      with spec_post_cases [of cfg thread n t ?H] show thesis
        using that lim assms(2) n by (simp add: history_run_snoc a)
    qed
    moreover have "length (filter (?in T) ?H) \<le> recent 60 node t ?H"
    proof -
      have "filter (?in T) ?H = filter (?in T) (filter (\<lambda>p. po_node p = node \<and> t - po_time p < 60) ?H)"
        using times t unfolding filter_filter by (intro filter_cong) auto
      then have "length (filter (?in T) ?H) =
          length (filter (?in T) (filter (\<lambda>p. po_node p = node \<and> t - po_time p < 60) ?H))" by (rule arg_cong)
      also have "\<dots> \<le> recent 60 node t ?H" unfolding recent_def by (rule length_filter_le)
      finally show ?thesis .
    qed
    ultimately show ?thesis by auto
  qed
qed (simp add: history_run_def)

lemma history_thread_limit:
  assumes "cap \<noteq> 0" "\<And>a. a \<in> set as \<Longrightarrow> max_agent_turns_per_thread (fst a) = cap"
  shows "turns thread (history_run as) \<le> unat cap"
  using assms(2)
proof (induction as rule: rev_induct)
  case (snoc a as)
  obtain cfg th n t where a: "a = (cfg, th, n, t)" by (cases a)
  have "turns thread (history_run as) \<le> unat cap" "max_agent_turns_per_thread cfg = cap"
    using snoc.IH snoc.prems snoc.prems [of a] a by simp_all
  then show ?case using assms(1) by (auto simp: history_run_snoc a spec_post_def turns_def split: if_splits)
qed (simp add: history_run_def turns_def)

subsection \<open>What the sources let through\<close>

text \<open>The posts of a run that the operation of the sources accepted, in their order.\<close>

fun posts_made :: "quota_ledger \<Rightarrow> attempt list \<Rightarrow> post list" where
  "posts_made l [] = []"
| "posts_made l ((cfg, thread, node, now) # as) =
     (case try_consume_post cfg thread node now l of
        (Inr _, l') \<Rightarrow>
          \<lparr>po_thread = thread, po_node = node, po_time = now, po_counted = max_agent_turns_per_thread cfg \<noteq> 0\<rparr> #
          posts_made l' as
      | (Inl _, l') \<Rightarrow> posts_made l' as)"

lemma spec_post_result:
  "case fst (spec_post cfg thread node now h) of
     Inl _ \<Rightarrow> snd (spec_post cfg thread node now h) = h
   | Inr _ \<Rightarrow> snd (spec_post cfg thread node now h) =
       h @ [\<lparr>po_thread = thread, po_node = node, po_time = now, po_counted = max_agent_turns_per_thread cfg \<noteq> 0\<rparr>]"
  by (simp add: spec_post_def)

lemma posts_made_refines:
  assumes "represents l now h" "length h + length as < 2 ^ 32" "sorted (map attempt_time as)"
    "\<And>a. a \<in> set as \<Longrightarrow> now \<le> attempt_time a"
  shows "h @ posts_made l as = foldl attempt_history h as"
  using assms
proof (induction as arbitrary: l now h)
  case (Cons a as)
  obtain cfg thread node t where a: "a = (cfg, thread, node, t)" by (cases a)
  obtain r l' where c: "try_consume_post cfg thread node t l = (r, l')" by fastforce
  let ?h = "snd (spec_post cfg thread node t h)"
  have "now \<le> t" using Cons.prems(4) [of a] a by simp
  with Cons.prems(1) have rep: "represents l t h" by (rule represents_le)
  note R = quota_refines [OF rep, of cfg thread node]
  have r: "r = seen_turns (fst (spec_post cfg thread node t h))" and l': "represents l' t ?h"
    using R Cons.prems(2) c by simp_all
  have "?h @ posts_made l' as = foldl attempt_history ?h as"
  proof (rule Cons.IH [OF l'])
    show "length ?h + length as < 2 ^ 32" using Cons.prems(2) spec_post_length [of cfg thread node t h] by simp
    show "sorted (map attempt_time as)" using Cons.prems(3) by simp
    show "t \<le> attempt_time b" if "b \<in> set as" for b using Cons.prems(3) that a by simp
  qed
  moreover have "h @ posts_made l (a # as) = ?h @ posts_made l' as"
    using spec_post_result [of cfg thread node t h] by (auto simp: a c r seen_turns_def split: sum.splits)
  ultimately show ?case by (simp add: a)
qed simp

lemma posts_made_run:
  assumes "sorted (map attempt_time as)" "length as < 2 ^ 32"
  shows "posts_made empty_quota as = history_run as"
proof (cases as)
  case (Cons a bs)
  have "represents empty_quota (attempt_time a) []"
    using quota_run_represents [of "[]"] by (simp add: quota_run_def history_run_def)
  then show ?thesis
    using posts_made_refines [of empty_quota "attempt_time a" "[]" as] assms Cons by (auto simp: history_run_def)
qed (simp add: history_run_def)

text \<open>
  With a limit per minute in force throughout, no window of sixty seconds holds more accepted posts of one node than the
  limit, wherever the window lies; and with a limit of turns in force throughout, no thread gets more turns.
\<close>
theorem quota_limits_hold:
  assumes "sorted (map attempt_time as)" "length as < 2 ^ 32" "limit \<noteq> 0" "cap \<noteq> 0"
    "\<And>a. a \<in> set as \<Longrightarrow> rate_limit_per_min (fst a) = limit \<and> max_agent_turns_per_thread (fst a) = cap"
  shows "length (filter (\<lambda>p. po_node p = node \<and> T - 60 < po_time p \<and> po_time p \<le> T) (posts_made empty_quota as)) \<le> unat limit \<and>
         turns thread (posts_made empty_quota as) \<le> unat cap"
  unfolding posts_made_run [OF assms(1,2)]
  using history_rate_limit [OF assms(1,3)] history_thread_limit [OF assms(4)] assms(5) by simp

text \<open>Four attempts of one node within a minute, with a limit of two per minute.\<close>

definition sample_config :: quota_config where
  "sample_config = \<lparr>max_agent_turns_per_thread = 3, hourly_budget_per_node = 20, rate_limit_per_min = 2\<rparr>"

definition sample_attempts :: "attempt list" where
  "sample_attempts = map (\<lambda>t. (sample_config, ''t'', ''n'', t)) [0, 10, 20, 70]"

theorem quota_decides_by_history_witness:
  "fst (try_consume_post sample_config ''t'' ''n'' 71 (quota_run sample_attempts)) =
     seen_turns (fst (spec_post sample_config ''t'' ''n'' 71 (history_run sample_attempts)))"
  by (rule quota_decides_by_history) (simp_all add: sample_attempts_def)

theorem quota_limits_hold_witness:
  "length (filter (\<lambda>p. po_node p = ''n'' \<and> 20 - 60 < po_time p \<and> po_time p \<le> 20) (posts_made empty_quota sample_attempts)) \<le> unat (2 :: u32) \<and>
   turns ''t'' (posts_made empty_quota sample_attempts) \<le> unat (3 :: u32)"
  by (rule quota_limits_hold) (auto simp: sample_attempts_def sample_config_def)

end
