(* ===== verification/BoardWake.thy ===== *)
theory BoardWake
  imports Prelude
begin

text \<open>
  Who is woken by a message on the board (nemesis-board: arbitrator.rs): the mentions in its text, the plan
  of targets and skipped nodes on the side of the master, and the filter on the side of a worker.
  Texts are lists of Unicode code points here, since the rules speak about characters outside ASCII; the tables
  of the standard library (alphanumeric, white space, lower case) are a parameter.
\<close>

subsection \<open>Characters\<close>

type_synonym utext = "nat list"

record unicode =
  uc_alphanumeric :: "nat \<Rightarrow> bool"
  uc_whitespace :: "nat \<Rightarrow> bool"
  uc_lowercase :: "utext \<Rightarrow> utext"

definition ascii :: "str \<Rightarrow> utext" where
  "ascii s = map of_char s"

definition AT :: nat where "AT = 64"

definition mention_stop :: "unicode \<Rightarrow> nat \<Rightarrow> bool" where
  "mention_stop u c \<longleftrightarrow> uc_whitespace u c \<or> c = 0xFF0C \<or> c = 0x3002 \<or> c = 0x3001"

subsection \<open>Data\<close>

record node_candidate =
  nc_id :: utext
  nc_name :: utext
  nc_role :: utext
  nc_category :: utext
  nc_online :: bool

record wake_input =
  thread_kind :: utext
  wi_content :: utext
  sender_id :: utext
  issue_assignee :: "utext option"

datatype skip_reason = SkipOffline | SkipSender | SkipNotFound | SkipNoAssignee

record wake_plan =
  targets :: "utext list"
  skipped :: "(utext \<times> skip_reason) list"
  to_moderator :: bool

definition empty_plan :: wake_plan where
  "empty_plan = \<lparr>targets = [], skipped = [], to_moderator = False\<rparr>"

subsection \<open>Mentions\<close>

fun mentions_from :: "unicode \<Rightarrow> nat option \<Rightarrow> utext \<Rightarrow> utext list" where
  "mentions_from u prev [] = []"
| "mentions_from u prev (c # cs) =
     (let token = takeWhile (\<lambda>x. \<not> mention_stop u x) cs;
          blocked = (case prev of None \<Rightarrow> False | Some p \<Rightarrow> uc_alphanumeric u p \<or> p = 95)
      in if c = AT \<and> \<not> blocked \<and> token \<noteq> [] then token # mentions_from u (Some c) cs
         else mentions_from u (Some c) cs)"

definition extract_mentions :: "unicode \<Rightarrow> utext \<Rightarrow> utext list" where
  "extract_mentions u content = mentions_from u None content"

definition strip_role :: "utext \<Rightarrow> utext option" where
  "strip_role t = (if prefix (ascii ''role:'') t then Some (drop 5 t) else None)"

definition role_hit :: "unicode \<Rightarrow> utext \<Rightarrow> node_candidate \<Rightarrow> bool" where
  "role_hit u role n \<longleftrightarrow> uc_lowercase u (nc_role n) = uc_lowercase u role \<or> uc_lowercase u (nc_category n) = uc_lowercase u role"

definition name_hit :: "unicode \<Rightarrow> utext \<Rightarrow> node_candidate \<Rightarrow> bool" where
  "name_hit u t n \<longleftrightarrow> uc_lowercase u (nc_id n) = uc_lowercase u t \<or> uc_lowercase u (nc_name n) = uc_lowercase u t"

definition token_mentions :: "unicode \<Rightarrow> utext \<Rightarrow> node_candidate \<Rightarrow> bool" where
  "token_mentions u t n =
     (case strip_role t of
        Some role \<Rightarrow> uc_lowercase u role \<noteq> [] \<and> role_hit u role n
      | None \<Rightarrow> if uc_lowercase u t = ascii ''all'' then True else name_hit u t n)"

definition mentions_node :: "unicode \<Rightarrow> utext \<Rightarrow> node_candidate \<Rightarrow> bool" where
  "mentions_node u content n = list_ex (\<lambda>t. token_mentions u t n) (extract_mentions u content)"

definition has_mentions :: "unicode \<Rightarrow> utext \<Rightarrow> bool" where
  "has_mentions u content \<longleftrightarrow> extract_mentions u content \<noteq> []"

subsection \<open>The plan\<close>

definition push_target_or_skip :: "utext \<Rightarrow> wake_plan \<Rightarrow> node_candidate \<Rightarrow> wake_plan" where
  "push_target_or_skip sender plan node =
     (if nc_id node \<in> set (targets plan) \<or> nc_id node \<in> fst ` set (skipped plan) then plan
      else if nc_id node = sender then plan\<lparr>skipped := skipped plan @ [(nc_id node, SkipSender)]\<rparr>
      else if nc_online node then plan\<lparr>targets := targets plan @ [nc_id node]\<rparr>
      else plan\<lparr>skipped := skipped plan @ [(nc_id node, SkipOffline)]\<rparr>)"

definition not_found :: "utext \<Rightarrow> wake_plan \<Rightarrow> wake_plan" where
  "not_found token plan = plan\<lparr>skipped := skipped plan @ [(AT # token, SkipNotFound)]\<rparr>"

definition resolve_token :: "unicode \<Rightarrow> utext \<Rightarrow> node_candidate list \<Rightarrow> wake_plan \<Rightarrow> utext \<Rightarrow> wake_plan" where
  "resolve_token u sender nodes plan token =
     (case strip_role token of
        Some role \<Rightarrow>
          if uc_lowercase u role = [] then not_found token plan
          else let hits = filter (role_hit u role) nodes
               in if hits = [] then not_found token plan else foldl (push_target_or_skip sender) plan hits
      | None \<Rightarrow>
          if uc_lowercase u token = ascii ''all'' then foldl (push_target_or_skip sender) plan nodes
          else (case find (name_hit u token) nodes of
                  Some node \<Rightarrow> push_target_or_skip sender plan node
                | None \<Rightarrow> not_found token plan))"

definition resolve_unmentioned :: "wake_input \<Rightarrow> node_candidate list \<Rightarrow> wake_plan" where
  "resolve_unmentioned input nodes =
     (if thread_kind input = ascii ''channel'' then empty_plan\<lparr>to_moderator := True\<rparr>
      else (case issue_assignee input of
              Some assignee \<Rightarrow>
                if assignee = [] then empty_plan\<lparr>skipped := [(ascii ''(issue)'', SkipNoAssignee)]\<rparr>
                else (case find (\<lambda>n. nc_id n = assignee) nodes of
                        Some node \<Rightarrow> if nc_online node then empty_plan\<lparr>targets := [assignee]\<rparr>
                                     else empty_plan\<lparr>skipped := [(assignee, SkipOffline)]\<rparr>
                      | None \<Rightarrow> empty_plan\<lparr>skipped := [(assignee, SkipNotFound)]\<rparr>)
            | None \<Rightarrow> empty_plan\<lparr>skipped := [(ascii ''(issue)'', SkipNoAssignee)]\<rparr>))"

definition resolve_wake_targets :: "unicode \<Rightarrow> wake_input \<Rightarrow> node_candidate list \<Rightarrow> wake_plan" where
  "resolve_wake_targets u input nodes =
     (let mentions = extract_mentions u (wi_content input) in
      if mentions = [] then resolve_unmentioned input nodes
      else foldl (resolve_token u (sender_id input) nodes) empty_plan mentions)"

subsection \<open>Master and worker agree\<close>

text \<open>No two nodes answer to the same identifier or name, and no identifier begins with an at-sign.\<close>

definition unambiguous :: "unicode \<Rightarrow> node_candidate list \<Rightarrow> bool" where
  "unambiguous u nodes \<longleftrightarrow>
     (\<forall>t. \<forall>m \<in> set nodes. \<forall>n \<in> set nodes. name_hit u t m \<and> name_hit u t n \<longrightarrow> m = n) \<and>
     (\<forall>n \<in> set nodes. nc_id n = [] \<or> hd (nc_id n) \<noteq> AT)"

definition plan_covers :: "utext \<Rightarrow> node_candidate set \<Rightarrow> wake_plan \<Rightarrow> bool" where
  "plan_covers sender done plan \<longleftrightarrow>
     distinct (targets plan) \<and>
     set (targets plan) = {nc_id n |n. n \<in> done \<and> nc_online n \<and> nc_id n \<noteq> sender} \<and>
     (\<forall>i r. (i, r) \<in> set (skipped plan) \<longrightarrow>
        r = SkipSender \<and> i = sender \<or> r = SkipOffline \<and> (\<exists>n \<in> done. nc_id n = i \<and> \<not> nc_online n) \<or>
        r = SkipNotFound \<and> (\<exists>t. i = AT # t)) \<and>
     (\<forall>n \<in> done. nc_id n \<in> set (targets plan) \<or> nc_id n \<in> fst ` set (skipped plan))"

lemma unambiguous_id:
  assumes "unambiguous u nodes" "m \<in> set nodes" "n \<in> set nodes" "nc_id m = nc_id n" shows "m = n"
proof -
  have "name_hit u (nc_id m) m" "name_hit u (nc_id m) n" using assms(4) by (simp_all add: name_hit_def)
  then show ?thesis using assms(1-3) unfolding unambiguous_def by blast
qed

lemma push_covers:
  assumes "unambiguous u nodes" "done \<subseteq> set nodes" "n \<in> set nodes" "plan_covers sender done plan"
  shows "plan_covers sender (insert n done) (push_target_or_skip sender plan n)"
proof (cases "nc_id n \<in> set (targets plan) \<or> nc_id n \<in> fst ` set (skipped plan)")
  case True
  have "n \<in> done \<or> nc_id n = sender"
  proof (cases "nc_id n \<in> set (targets plan)")
    case t: True
    then obtain m where "m \<in> done" "nc_id m = nc_id n" using assms(4) by (auto simp: plan_covers_def)
    then show ?thesis using unambiguous_id [OF assms(1), of m n] assms(2,3) by blast
  next
    case False
    then obtain r where "(nc_id n, r) \<in> set (skipped plan)" using True by auto
    then consider "nc_id n = sender" | m where "m \<in> done" "nc_id m = nc_id n" | t where "nc_id n = AT # t"
      using assms(4) unfolding plan_covers_def by blast
    then show ?thesis
    proof cases
      case (2 m) then show ?thesis using unambiguous_id [OF assms(1), of m n] assms(2,3) by blast
    next
      case (3 t) then show ?thesis using assms(1,3) by (auto simp: unambiguous_def)
    qed simp
  qed
  then have "{nc_id m |m. m \<in> insert n done \<and> nc_online m \<and> nc_id m \<noteq> sender} =
      {nc_id m |m. m \<in> done \<and> nc_online m \<and> nc_id m \<noteq> sender}" by auto
  then show ?thesis using assms(4) True unfolding plan_covers_def push_target_or_skip_def by auto
next
  case False
  then show ?thesis using assms(4) unfolding plan_covers_def push_target_or_skip_def by auto
qed

lemma pushes_cover:
  assumes "unambiguous u nodes"
  shows "done \<subseteq> set nodes \<Longrightarrow> set ns \<subseteq> set nodes \<Longrightarrow> plan_covers sender done plan \<Longrightarrow>
    plan_covers sender (done \<union> set ns) (foldl (push_target_or_skip sender) plan ns)"
proof (induction ns arbitrary: "done" plan)
  case (Cons n ns)
  have "plan_covers sender (insert n done) (push_target_or_skip sender plan n)"
    using Cons.prems by (intro push_covers [OF assms]) auto
  then show ?case using Cons.IH [of "insert n done" "push_target_or_skip sender plan n"] Cons.prems by simp
qed simp

lemma not_found_covers: "plan_covers sender done plan \<Longrightarrow> plan_covers sender done (not_found t plan)"
  unfolding plan_covers_def not_found_def by auto

lemma token_covers:
  assumes "unambiguous u nodes" "done \<subseteq> set nodes" "plan_covers sender done plan"
  shows "plan_covers sender (done \<union> {n \<in> set nodes. token_mentions u t n}) (resolve_token u sender nodes plan t)"
proof (cases "strip_role t")
  case (Some role)
  let ?hits = "filter (role_hit u role) nodes"
  show ?thesis
  proof (cases "uc_lowercase u role = [] \<or> ?hits = []")
    case True
    then have E: "{n \<in> set nodes. token_mentions u t n} = {}" using Some by (auto simp: token_mentions_def filter_empty_conv)
    have "resolve_token u sender nodes plan t = not_found t plan"
      using True Some by (auto simp: resolve_token_def Let_def)
    then show ?thesis using not_found_covers [OF assms(3), of t] by (simp only: E Un_empty_right)
  next
    case False
    then have E: "{n \<in> set nodes. token_mentions u t n} = set ?hits" using Some by (auto simp: token_mentions_def)
    have "resolve_token u sender nodes plan t = foldl (push_target_or_skip sender) plan ?hits"
      using False Some by (simp add: resolve_token_def Let_def)
    moreover have "set ?hits \<subseteq> set nodes" by auto
    ultimately show ?thesis using pushes_cover [OF assms(1,2) _ assms(3), of ?hits] by (simp only: E)
  qed
next
  case None
  show ?thesis
  proof (cases "uc_lowercase u t = ascii ''all''")
    case True
    then have E: "{n \<in> set nodes. token_mentions u t n} = set nodes" using None by (auto simp: token_mentions_def)
    show ?thesis unfolding E using True None pushes_cover [OF assms(1,2) _ assms(3), of nodes] by (simp add: resolve_token_def)
  next
    case other: False
    show ?thesis
    proof (cases "find (name_hit u t) nodes")
      case no: None
      then have E: "{n \<in> set nodes. token_mentions u t n} = {}" using None other by (auto simp: token_mentions_def find_None_iff)
      show ?thesis unfolding E using None other no not_found_covers [OF assms(3)] by (simp add: resolve_token_def)
    next
      case (Some node)
      then have n: "node \<in> set nodes" "name_hit u t node" by (auto simp: find_Some_iff)
      then have E: "{n \<in> set nodes. token_mentions u t n} = {node}"
        using None other assms(1) unfolding unambiguous_def token_mentions_def by auto
      show ?thesis unfolding E using None other Some push_covers [OF assms(1,2) n(1) assms(3)] by (simp add: resolve_token_def)
    qed
  qed
qed

lemma tokens_cover:
  assumes "unambiguous u nodes"
  shows "done \<subseteq> set nodes \<Longrightarrow> plan_covers sender done plan \<Longrightarrow>
    plan_covers sender (done \<union> {n \<in> set nodes. list_ex (\<lambda>t. token_mentions u t n) ts})
      (foldl (resolve_token u sender nodes) plan ts)"
proof (induction ts arbitrary: "done" plan)
  case (Cons t ts)
  let ?d = "done \<union> {n \<in> set nodes. token_mentions u t n}"
  have "plan_covers sender (?d \<union> {n \<in> set nodes. list_ex (\<lambda>t. token_mentions u t n) ts})
      (foldl (resolve_token u sender nodes) (resolve_token u sender nodes plan t) ts)"
    using Cons.prems by (intro Cons.IH token_covers [OF assms]) auto
  moreover have "?d \<union> {n \<in> set nodes. list_ex (\<lambda>t. token_mentions u t n) ts} =
      done \<union> {n \<in> set nodes. list_ex (\<lambda>t. token_mentions u t n) (t # ts)}" by auto
  ultimately show ?case by simp
qed simp

text \<open>
  C21: when a message mentions anyone, the master wakes exactly the nodes that are online, are not the sender, and would
  on their side take the message as addressed to them, each once; a mentioned node that is offline is
  listed as skipped.  This needs that no two nodes share an identifier or a name.
\<close>
theorem wake_exactly_mentioned:
  assumes "unambiguous u nodes" "has_mentions u (wi_content input)"
  shows "set (targets (resolve_wake_targets u input nodes)) =
           {nc_id n |n. n \<in> set nodes \<and> nc_online n \<and> nc_id n \<noteq> sender_id input \<and> mentions_node u (wi_content input) n} \<and>
         distinct (targets (resolve_wake_targets u input nodes)) \<and>
         to_moderator (resolve_wake_targets u input nodes) = False \<and>
         {nc_id n |n. n \<in> set nodes \<and> \<not> nc_online n \<and> nc_id n \<noteq> sender_id input \<and> mentions_node u (wi_content input) n}
           \<subseteq> {i. (i, SkipOffline) \<in> set (skipped (resolve_wake_targets u input nodes))}"
proof -
  let ?plan = "resolve_wake_targets u input nodes" and ?done = "{n \<in> set nodes. mentions_node u (wi_content input) n}"
  have "plan_covers (sender_id input) {} empty_plan" by (simp add: plan_covers_def empty_plan_def)
  then have cov: "plan_covers (sender_id input) ?done ?plan"
    using tokens_cover [OF assms(1), of "{}" "sender_id input" empty_plan "extract_mentions u (wi_content input)"] assms(2)
    by (simp add: resolve_wake_targets_def has_mentions_def mentions_node_def Let_def)
  have push: "to_moderator (push_target_or_skip s p n) = to_moderator p" for s p n by (simp add: push_target_or_skip_def)
  have pushes: "to_moderator (foldl (push_target_or_skip s) p ns) = to_moderator p" for s p ns
    by (induction ns arbitrary: p) (simp_all add: push)
  have tok: "to_moderator (resolve_token u s nodes p t) = to_moderator p" for s p t
    by (auto simp: resolve_token_def not_found_def push pushes Let_def split: option.splits)
  have toks: "to_moderator (foldl (resolve_token u s nodes) p ts) = to_moderator p" for s p ts
    by (induction ts arbitrary: p) (simp_all add: tok)
  have mod: "to_moderator ?plan = False"
    using assms(2) by (simp add: resolve_wake_targets_def has_mentions_def Let_def toks) (simp add: empty_plan_def)
  have off: "(nc_id n, SkipOffline) \<in> set (skipped ?plan)"
    if n: "n \<in> ?done" "\<not> nc_online n" "nc_id n \<noteq> sender_id input" for n
  proof -
    have "nc_id n \<notin> set (targets ?plan)"
    proof
      assume "nc_id n \<in> set (targets ?plan)"
      then obtain m where "m \<in> ?done" "nc_online m" "nc_id m = nc_id n" using cov unfolding plan_covers_def by auto
      then show False using unambiguous_id [OF assms(1), of m n] n by auto
    qed
    then obtain r where "(nc_id n, r) \<in> set (skipped ?plan)" using cov n(1) unfolding plan_covers_def by fastforce
    moreover from this have "r = SkipOffline"
      using cov n assms(1) unfolding plan_covers_def unambiguous_def by fastforce
    ultimately show ?thesis by simp
  qed
  show ?thesis using cov mod off unfolding plan_covers_def by auto
qed

subsection \<open>Where the comments and the code differ\<close>

text \<open>The tables for ASCII, with the unified ideographs as letters, as the standard library has them.\<close>

definition ascii_cjk :: unicode where
  "ascii_cjk =
     \<lparr>uc_alphanumeric = (\<lambda>c. 48 \<le> c \<and> c \<le> 57 \<or> 65 \<le> c \<and> c \<le> 90 \<or> 97 \<le> c \<and> c \<le> 122 \<or> 0x4E00 \<le> c \<and> c \<le> 0x9FFF),
      uc_whitespace = (\<lambda>c. c = 32 \<or> 9 \<le> c \<and> c \<le> 13 \<or> c = 0x3000),
      uc_lowercase = map (\<lambda>c. if 65 \<le> c \<and> c \<le> 90 then c + 32 else c)\<rparr>"

text \<open>
  A mention that follows a Chinese character without a space is not recognised, since such characters are
  alphanumeric; the comment on the function says that it takes effect.
\<close>
theorem mention_after_ideograph_lost:
  assumes "uc_alphanumeric u 0x8BF7"
  shows "\<not> has_mentions u (0x8BF7 # AT # ascii ''bob'')"
  using assms by (simp add: has_mentions_def extract_mentions_def AT_def ascii_def Let_def)

text \<open>
  A comment without a mention on an issue wakes the assigned node also when that node wrote the comment; the comment on
  the sender's field says that the sender is not woken.
\<close>
theorem sender_woken_by_own_comment:
  assumes "\<not> has_mentions u (wi_content input)" "thread_kind input \<noteq> ascii ''channel''"
    "issue_assignee input = Some (nc_id n)" "sender_id input = nc_id n" "nc_id n \<noteq> []" "nc_online n"
  shows "targets (resolve_wake_targets u input [n]) = [sender_id input]"
  using assms by (simp add: resolve_wake_targets_def resolve_unmentioned_def has_mentions_def empty_plan_def)

text \<open>
  Two nodes with the same name: the master wakes the first one only, while the worker's filter of the second one
  also takes the message as addressed to it; the comment calls the two rules the same.
\<close>
theorem shared_name_wakes_first:
  assumes "nc_name m = nc_name n" "extract_mentions u (wi_content input) = [nc_name m]" "strip_role (nc_name m) = None"
    "uc_lowercase u (nc_name m) \<noteq> ascii ''all''" "nc_online m" "nc_online n" "nc_id m \<noteq> nc_id n"
    "sender_id input \<notin> {nc_id m, nc_id n}"
  shows "targets (resolve_wake_targets u input [m, n]) = [nc_id m] \<and>
         mentions_node u (wi_content input) m \<and> mentions_node u (wi_content input) n"
  using assms
  by (auto simp: resolve_wake_targets_def resolve_token_def mentions_node_def token_mentions_def name_hit_def
      push_target_or_skip_def empty_plan_def)

subsection \<open>An example\<close>

definition sample_nodes :: "node_candidate list" where
  "sample_nodes =
     [\<lparr>nc_id = ascii ''n1'', nc_name = ascii ''bob'', nc_role = ascii ''worker'', nc_category = ascii ''dev'', nc_online = True\<rparr>,
      \<lparr>nc_id = ascii ''n2'', nc_name = ascii ''eve'', nc_role = ascii ''worker'', nc_category = ascii ''test'', nc_online = False\<rparr>]"

definition sample_input :: wake_input where
  "sample_input = \<lparr>thread_kind = ascii ''channel'', wi_content = ascii ''@Bob and @role:test'', sender_id = ascii ''n3'', issue_assignee = None\<rparr>"

lemma sample_unambiguous: "unambiguous ascii_cjk sample_nodes"
  by (auto simp: unambiguous_def sample_nodes_def name_hit_def ascii_cjk_def ascii_def AT_def of_char_def)

lemma sample_mentions: "has_mentions ascii_cjk (wi_content sample_input)"
  by (simp add: has_mentions_def sample_input_def extract_mentions_def AT_def ascii_def Let_def ascii_cjk_def mention_stop_def)

theorem wake_exactly_mentioned_witness:
  "distinct (targets (resolve_wake_targets ascii_cjk sample_input sample_nodes)) \<and>
   to_moderator (resolve_wake_targets ascii_cjk sample_input sample_nodes) = False"
  using wake_exactly_mentioned [OF sample_unambiguous sample_mentions] by blast

end
