(* ===== verification/Failover.thy ===== *)
theory Failover
  imports Prelude
begin

text \<open>
  Failures of model providers and their cooldown (nemesis-providers: failover.rs, cooldown.rs).  Instants
  are nanoseconds of the monotonic clock; a difference of instants is cut at zero, as
  \<^verbatim>\<open>Instant::duration_since\<close> does.  Counters are \<^verbatim>\<open>usize\<close> in the sources and count calls; they are natural numbers
  here.  The parser of HTTP dates and the wall clock are parameters.
\<close>

subsection \<open>Errors\<close>

datatype failover_reason = Auth | RateLimit | Billing | Timeout | Format | Overloaded | UnknownReason

datatype failover_error =
    AuthError str str nat
  | RateLimitError str str "nat option"
  | BillingError str
  | TimeoutError str str
  | FormatError str str
  | OverloadedError str nat
  | UnknownError str str

definition is_retriable :: "failover_error \<Rightarrow> bool" where
  "is_retriable e =
     (case e of
        RateLimitError _ _ _ \<Rightarrow> True
      | TimeoutError _ _ \<Rightarrow> True
      | OverloadedError _ _ \<Rightarrow> True
      | UnknownError _ message \<Rightarrow> prefix ''connect error'' message
      | _ \<Rightarrow> False)"

fun error_reason :: "failover_error \<Rightarrow> failover_reason" where
  "error_reason (AuthError _ _ _) = Auth"
| "error_reason (RateLimitError _ _ _) = RateLimit"
| "error_reason (BillingError _) = Billing"
| "error_reason (TimeoutError _ _) = Timeout"
| "error_reason (FormatError _ _) = Format"
| "error_reason (OverloadedError _ _) = Overloaded"
| "error_reason (UnknownError _ _) = UnknownReason"

definition secs :: "nat \<Rightarrow> nat" where
  "secs n = n * 1000000000"

definition retry_after_hint :: "failover_error \<Rightarrow> nat option" where
  "retry_after_hint e = (case e of RateLimitError _ _ (Some s) \<Rightarrow> Some (secs s) | _ \<Rightarrow> None)"

definition from_status :: "str \<Rightarrow> str \<Rightarrow> nat \<Rightarrow> str \<Rightarrow> nat option \<Rightarrow> failover_error" where
  "from_status provider model status body retry_after =
     (if status = 401 \<or> status = 403 then AuthError provider model status
      else if status = 429 then RateLimitError provider model retry_after
      else if status = 402 then BillingError provider
      else if status = 503 \<or> status = 502 then OverloadedError provider status
      else UnknownError provider (''status '' @ decimal status @ '': '' @ take 200 body))"

text \<open>\<^verbatim>\<open>str::parse::<u64>\<close>: digits after an optional plus sign, below \<open>2 ^ 64\<close>.\<close>

definition decimal_value :: "char \<Rightarrow> nat" where
  "decimal_value c = of_char c - 48"

definition parse_u64 :: "str \<Rightarrow> nat option" where
  "parse_u64 s =
     (let t = (case s of c # cs \<Rightarrow> if c = CHR ''+'' then cs else s | [] \<Rightarrow> []);
          v = foldl (\<lambda>a c. 10 * a + decimal_value c) 0 t
      in if t = [] \<or> \<not> list_all is_ascii_digit t \<or> v \<ge> 2 ^ 64 then None else Some v)"

definition parse_retry_after :: "(str \<Rightarrow> int option) \<Rightarrow> nat \<Rightarrow> str option \<Rightarrow> nat option" where
  "parse_retry_after parse_rfc2822 wall_secs value =
     (case value of
        None \<Rightarrow> None
      | Some v \<Rightarrow>
          let raw = trim v in
          if raw = [] then None
          else (case parse_u64 raw of
                  Some s \<Rightarrow> Some s
                | None \<Rightarrow> map_option (\<lambda>t. nat (max t 0) - wall_secs) (parse_rfc2822 raw)))"

text \<open>A transport error of the HTTP library: whether it is a timeout, and the messages of its chain of sources.\<close>

record reqwest_error =
  re_timeout :: bool
  re_chain :: "str list"

definition transport_error :: "str \<Rightarrow> str \<Rightarrow> reqwest_error \<Rightarrow> failover_error" where
  "transport_error provider model e =
     (if re_timeout e then TimeoutError provider model
      else UnknownError provider (''connect error (model '' @ model @ ''): '' @ join '': '' (re_chain e)))"

subsection \<open>Cooldown\<close>

record cooldown_entry =
  error_count :: nat
  failure_counts :: "failover_reason \<rightharpoonup> nat"
  cooldown_end :: "nat option"
  disabled_until :: "nat option"
  disabled_reason :: "failover_reason option"
  last_failure :: "nat option"

type_synonym cooldown_tracker = "str \<rightharpoonup> cooldown_entry"

definition empty_entry :: cooldown_entry where
  "empty_entry = \<lparr>error_count = 0, failure_counts = Map.empty, cooldown_end = None, disabled_until = None,
     disabled_reason = None, last_failure = None\<rparr>"

definition FAILURE_WINDOW :: nat where "FAILURE_WINDOW = secs (24 * 60 * 60)"
definition MAX_STANDARD_COOLDOWN :: nat where "MAX_STANDARD_COOLDOWN = secs 3600"

definition calculate_standard_cooldown :: "nat \<Rightarrow> nat" where
  "calculate_standard_cooldown n = min (secs (60 * 5 ^ min (max n 1 - 1) 3)) MAX_STANDARD_COOLDOWN"

definition calculate_billing_cooldown :: "nat \<Rightarrow> nat" where
  "calculate_billing_cooldown n = secs (min (5 * 60 * 60 * 2 ^ min (max n 1 - 1) 10) (24 * 60 * 60))"

definition counted :: "nat option \<Rightarrow> nat" where
  "counted x = (case x of Some n \<Rightarrow> n | None \<Rightarrow> 0)"

definition reset_stale :: "nat \<Rightarrow> cooldown_entry \<Rightarrow> cooldown_entry" where
  "reset_stale now e =
     (case last_failure e of
        Some prev \<Rightarrow> if now - prev > FAILURE_WINDOW then e\<lparr>error_count := 0, failure_counts := Map.empty\<rparr> else e
      | None \<Rightarrow> e)"

definition count_failure :: "nat \<Rightarrow> failover_reason \<Rightarrow> cooldown_entry \<Rightarrow> cooldown_entry" where
  "count_failure now reason e =
     e\<lparr>error_count := error_count e + 1,
       failure_counts := (failure_counts e)(reason \<mapsto> counted (failure_counts e reason) + 1),
       last_failure := Some now\<rparr>"

definition mark_failure :: "nat \<Rightarrow> str \<Rightarrow> failover_reason \<Rightarrow> nat option \<Rightarrow> cooldown_tracker \<Rightarrow> cooldown_tracker" where
  "mark_failure now provider reason hint t =
     (let e = count_failure now reason (reset_stale now (case t provider of Some e \<Rightarrow> e | None \<Rightarrow> empty_entry));
          e' = (if reason = Billing
                then e\<lparr>disabled_until := Some (now + calculate_billing_cooldown (counted (failure_counts e Billing))),
                       disabled_reason := Some reason\<rparr>
                else e\<lparr>cooldown_end := Some (now + (case hint of
                         Some d \<Rightarrow> min d MAX_STANDARD_COOLDOWN
                       | None \<Rightarrow> calculate_standard_cooldown (error_count e)))\<rparr>)
      in t(provider \<mapsto> e'))"

definition mark_success :: "str \<Rightarrow> cooldown_tracker \<Rightarrow> cooldown_tracker" where
  "mark_success provider t =
     (case t provider of
        Some e \<Rightarrow> t(provider \<mapsto> e\<lparr>error_count := 0, failure_counts := Map.empty, cooldown_end := None,
                                 disabled_until := None, disabled_reason := None\<rparr>)
      | None \<Rightarrow> t)"

definition pending :: "nat \<Rightarrow> nat option \<Rightarrow> bool" where
  "pending now limit = (case limit of Some until \<Rightarrow> now < until | None \<Rightarrow> False)"

definition is_available :: "nat \<Rightarrow> str \<Rightarrow> cooldown_tracker \<Rightarrow> bool" where
  "is_available now provider t =
     (case t provider of
        None \<Rightarrow> True
      | Some e \<Rightarrow> if pending now (disabled_until e) then False else if pending now (cooldown_end e) then False else True)"

definition tracker_error_count :: "str \<Rightarrow> cooldown_tracker \<Rightarrow> nat" where
  "tracker_error_count provider t = (case t provider of Some e \<Rightarrow> error_count e | None \<Rightarrow> 0)"

definition failure_count :: "str \<Rightarrow> failover_reason \<Rightarrow> cooldown_tracker \<Rightarrow> nat" where
  "failure_count provider reason t = (case t provider of Some e \<Rightarrow> counted (failure_counts e reason) | None \<Rightarrow> 0)"

definition cooldown_remaining :: "nat \<Rightarrow> str \<Rightarrow> cooldown_tracker \<Rightarrow> nat option" where
  "cooldown_remaining now provider t =
     (case t provider of
        None \<Rightarrow> None
      | Some e \<Rightarrow>
          if pending now (disabled_until e) then Some (the (disabled_until e) - now)
          else if pending now (cooldown_end e) then Some (the (cooldown_end e) - now)
          else None)"

subsection \<open>The tracker and the history of outcomes\<close>

text \<open>What happened to providers, in the order in which the tracker saw it.\<close>

datatype tracker_event = Failed nat str failover_reason "nat option" | Succeeded str

fun tracker_step :: "tracker_event \<Rightarrow> cooldown_tracker \<Rightarrow> cooldown_tracker" where
  "tracker_step (Failed now p reason hint) t = mark_failure now p reason hint t"
| "tracker_step (Succeeded p) t = mark_success p t"

definition tracker_run :: "tracker_event list \<Rightarrow> cooldown_tracker" where
  "tracker_run evs = foldl (\<lambda>t e. tracker_step e t) Map.empty evs"

fun about :: "str \<Rightarrow> tracker_event \<Rightarrow> bool" where
  "about p (Failed _ q _ _) \<longleftrightarrow> p = q"
| "about p (Succeeded q) \<longleftrightarrow> p = q"

text \<open>The events of one provider, newest first.\<close>

definition provider_history :: "str \<Rightarrow> tracker_event list \<Rightarrow> tracker_event list" where
  "provider_history p evs = rev (filter (about p) evs)"

text \<open>The failures that count: since the last success, with no gap of more than a day between two of them.\<close>

fun streak :: "tracker_event list \<Rightarrow> (nat \<times> failover_reason) list" where
  "streak [] = []"
| "streak (Succeeded _ # h) = []"
| "streak (Failed t _ r _ # h) =
     (t, r) # (case streak h of [] \<Rightarrow> [] | x # s \<Rightarrow> if t - fst x > FAILURE_WINDOW then [] else x # s)"

definition with_reason :: "failover_reason \<Rightarrow> (nat \<times> failover_reason) list \<Rightarrow> nat" where
  "with_reason r s = length (filter (\<lambda>x. snd x = r) s)"

text \<open>Until when the history holds a provider back: after the last failure that is not about billing, and after the
  last one that is.\<close>

fun standard_until :: "tracker_event list \<Rightarrow> nat option" where
  "standard_until [] = None"
| "standard_until (Succeeded _ # h) = None"
| "standard_until (Failed t p r hint # h) =
     (if r = Billing then standard_until h
      else Some (t + (case hint of
             Some d \<Rightarrow> min d MAX_STANDARD_COOLDOWN
           | None \<Rightarrow> calculate_standard_cooldown (length (streak (Failed t p r hint # h))))))"

fun billing_until :: "tracker_event list \<Rightarrow> nat option" where
  "billing_until [] = None"
| "billing_until (Succeeded _ # h) = None"
| "billing_until (Failed t p r hint # h) =
     (if r = Billing
      then Some (t + calculate_billing_cooldown (with_reason Billing (streak (Failed t p r hint # h))))
      else billing_until h)"

definition tracker_entry :: "str \<Rightarrow> cooldown_tracker \<Rightarrow> cooldown_entry" where
  "tracker_entry p t = (case t p of Some e \<Rightarrow> e | None \<Rightarrow> empty_entry)"

definition entry_matches :: "cooldown_entry \<Rightarrow> tracker_event list \<Rightarrow> bool" where
  "entry_matches e h \<longleftrightarrow>
     error_count e = length (streak h) \<and>
     (\<forall>r. counted (failure_counts e r) = with_reason r (streak h)) \<and>
     cooldown_end e = standard_until h \<and> disabled_until e = billing_until h \<and>
     (streak h \<noteq> [] \<longrightarrow> last_failure e = Some (fst (hd (streak h))))"

lemma counted_simps [simp]: "counted None = 0" "counted (Some n) = n"
  by (simp_all add: counted_def)

lemma entry_of_mark_other [simp]:
  "p \<noteq> q \<Longrightarrow> tracker_entry p (mark_failure now q r hint t) = tracker_entry p t"
  "p \<noteq> q \<Longrightarrow> tracker_entry p (mark_success q t) = tracker_entry p t"
  by (simp_all add: tracker_entry_def mark_failure_def mark_success_def Let_def split: option.splits)

lemma entry_of_mark_success:
  "tracker_entry p (mark_success p t) = (case t p of
     Some e \<Rightarrow> e\<lparr>error_count := 0, failure_counts := Map.empty, cooldown_end := None, disabled_until := None, disabled_reason := None\<rparr>
   | None \<Rightarrow> empty_entry)"
  by (simp add: tracker_entry_def mark_success_def split: option.splits)

text \<open>The entry in which a failure is counted agrees with the streak that the failure continues.\<close>

lemma counted_failure_matches:
  assumes "entry_matches e h"
  shows "error_count (count_failure now r (reset_stale now e)) = length (streak (Failed now p r hint # h)) \<and>
         (\<forall>q. counted (failure_counts (count_failure now r (reset_stale now e)) q) =
              with_reason q (streak (Failed now p r hint # h)))"
proof (cases "streak h")
  case Nil
  then have "error_count e = 0" "\<And>q. counted (failure_counts e q) = 0"
    using assms by (simp_all add: entry_matches_def with_reason_def)
  then show ?thesis using Nil by (auto simp: count_failure_def reset_stale_def with_reason_def split: option.splits)
next
  case (Cons x s)
  then have "last_failure e = Some (fst x)" "error_count e = Suc (length s)"
    "\<And>q. counted (failure_counts e q) = with_reason q (x # s)"
    using assms by (simp_all add: entry_matches_def)
  then show ?thesis using Cons by (auto simp: count_failure_def reset_stale_def with_reason_def)
qed

lemma mark_failure_matches:
  assumes "entry_matches (tracker_entry p t) h"
  shows "entry_matches (tracker_entry p (mark_failure now p r hint t)) (Failed now p r hint # h)"
proof -
  let ?h = "Failed now p r hint # h"
  define e where "e = count_failure now r (reset_stale now (tracker_entry p t))"
  have C: "error_count e = length (streak ?h)" "\<And>q. counted (failure_counts e q) = with_reason q (streak ?h)"
    using counted_failure_matches [OF assms] unfolding e_def by blast+
  have U: "cooldown_end e = standard_until h" "disabled_until e = billing_until h" "last_failure e = Some now"
    using assms by (simp_all add: e_def entry_matches_def count_failure_def reset_stale_def split: option.splits)
  have E: "tracker_entry p (mark_failure now p r hint t) =
      (if r = Billing
       then e\<lparr>disabled_until := Some (now + calculate_billing_cooldown (counted (failure_counts e Billing))), disabled_reason := Some r\<rparr>
       else e\<lparr>cooldown_end := Some (now + (case hint of Some d \<Rightarrow> min d MAX_STANDARD_COOLDOWN
              | None \<Rightarrow> calculate_standard_cooldown (error_count e)))\<rparr>)"
    unfolding mark_failure_def tracker_entry_def Let_def e_def by simp
  have "fst (hd (streak ?h)) = now" by simp
  then show ?thesis unfolding E entry_matches_def using U
    by (simp add: C del: streak.simps split: option.splits)
qed

lemma tracker_run_snoc: "tracker_run (evs @ [e]) = tracker_step e (tracker_run evs)"
  by (simp add: tracker_run_def)

lemma tracker_matches: "entry_matches (tracker_entry p (tracker_run evs)) (provider_history p evs)"
proof (induction evs rule: rev_induct)
  case Nil
  show ?case by (simp add: tracker_run_def provider_history_def tracker_entry_def empty_entry_def entry_matches_def with_reason_def)
next
  case (snoc e evs)
  show ?case
  proof (cases e)
    case (Failed now q r hint)
    then show ?thesis using snoc.IH mark_failure_matches [of p "tracker_run evs" "provider_history p evs" now r hint]
      by (cases "p = q") (simp_all add: tracker_run_snoc provider_history_def)
  next
    case (Succeeded q)
    then show ?thesis using snoc.IH
      by (cases "p = q") (auto simp: tracker_run_snoc provider_history_def entry_of_mark_success entry_matches_def
            with_reason_def empty_entry_def split: option.splits)
  qed
qed

lemma is_available_entry: "is_available now p t \<longleftrightarrow> \<not> pending now (cooldown_end (tracker_entry p t)) \<and> \<not> pending now (disabled_until (tracker_entry p t))"
  by (auto simp: is_available_def tracker_entry_def empty_entry_def pending_def split: option.splits)

lemma tracker_counts_entry:
  "tracker_error_count p t = error_count (tracker_entry p t)" "failure_count p r t = counted (failure_counts (tracker_entry p t) r)"
  by (simp_all add: tracker_error_count_def failure_count_def tracker_entry_def empty_entry_def split: option.splits)

lemma remaining_entry: "cooldown_remaining now p t = None \<longleftrightarrow> is_available now p t"
  by (simp add: cooldown_remaining_def is_available_def split: option.splits)

text \<open>
  C23: whatever the order of successes and failures of several providers, the tracker holds a provider back exactly as its own
  history demands: the failures since its last success, cut at a gap of more than a day, are what it
  counts, in total and per reason; it is available exactly when the time set by the last failure about
  billing and the time set by the last other failure have both passed, the latter being the time
  the server asked for, cut at an hour, or the backoff of the streak.  A time is left exactly when it is not available.
\<close>
theorem cooldown_follows_history:
  "tracker_error_count p (tracker_run evs) = length (streak (provider_history p evs)) \<and>
   failure_count p r (tracker_run evs) = with_reason r (streak (provider_history p evs)) \<and>
   (is_available now p (tracker_run evs) \<longleftrightarrow>
      \<not> pending now (standard_until (provider_history p evs)) \<and> \<not> pending now (billing_until (provider_history p evs))) \<and>
   (cooldown_remaining now p (tracker_run evs) = None \<longleftrightarrow> is_available now p (tracker_run evs))"
  using tracker_matches [of p evs]
  by (simp add: entry_matches_def tracker_counts_entry is_available_entry remaining_entry)

subsection \<open>Bounds\<close>

lemma standard_cooldown_bounds: "secs 60 \<le> calculate_standard_cooldown n \<and> calculate_standard_cooldown n \<le> secs 3600"
proof -
  have "(1 :: nat) \<le> 5 ^ min (max n 1 - 1) 3" by simp
  then show ?thesis by (simp add: calculate_standard_cooldown_def MAX_STANDARD_COOLDOWN_def secs_def)
qed

lemma billing_cooldown_bounds: "secs (5 * 3600) \<le> calculate_billing_cooldown n \<and> calculate_billing_cooldown n \<le> secs (24 * 3600)"
proof -
  have "(1 :: nat) \<le> 2 ^ min (max n 1 - 1) 10" by simp
  then show ?thesis by (simp add: calculate_billing_cooldown_def secs_def)
qed

lemma standard_until_bound:
  "standard_until h = Some u \<Longrightarrow> \<exists>t p r hint. Failed t p r hint \<in> set h \<and> u \<le> t + secs 3600"
proof (induction h rule: standard_until.induct)
  case (3 t p r hint h)
  show ?case
  proof (cases "r = Billing")
    case False
    then have "u \<le> t + secs 3600"
      using 3(2) standard_cooldown_bounds by (auto simp: MAX_STANDARD_COOLDOWN_def simp del: streak.simps split: option.splits)
    then show ?thesis by auto
  qed (use 3 in force)
qed simp_all

lemma billing_until_bound:
  "billing_until h = Some u \<Longrightarrow> \<exists>t p r hint. Failed t p r hint \<in> set h \<and> u \<le> t + secs (24 * 3600)"
proof (induction h rule: billing_until.induct)
  case (3 t p r hint h)
  show ?case
  proof (cases "r = Billing")
    case True
    then have "u \<le> t + secs (24 * 3600)" using 3(2) billing_cooldown_bounds by (auto simp del: streak.simps)
    then show ?thesis by auto
  qed (use 3 in force)
qed simp_all

lemma history_event: "e \<in> set (provider_history p evs) \<longleftrightarrow> e \<in> set evs \<and> about p e"
  by (simp add: provider_history_def)

text \<open>
  No failure holds a provider back for more than a day: a provider whose failures all lie a day back is available,
  and so is one that never failed, whatever happened to the others.
\<close>
theorem available_after_a_day:
  assumes "\<And>t r hint. Failed t p r hint \<in> set evs \<Longrightarrow> t + secs (24 * 3600) \<le> now"
  shows "is_available now p (tracker_run evs)"
proof -
  let ?h = "provider_history p evs"
  have old: "t + secs (24 * 3600) \<le> now" if "Failed t q r hint \<in> set ?h" for t q r hint
    using that assms by (auto simp: history_event)
  have "\<not> pending now (standard_until ?h)"
  proof (cases "standard_until ?h")
    case (Some u)
    then show ?thesis using standard_until_bound [OF Some] old by (fastforce simp: pending_def secs_def)
  qed (simp add: pending_def)
  moreover have "\<not> pending now (billing_until ?h)"
  proof (cases "billing_until ?h")
    case (Some u)
    then show ?thesis using billing_until_bound [OF Some] old by (fastforce simp: pending_def)
  qed (simp add: pending_def)
  ultimately show ?thesis using tracker_matches [of p evs] by (simp add: entry_matches_def is_available_entry)
qed

text \<open>Right after a failure without a wish of the server, the provider rests for at least a minute.\<close>

lemma failure_rests:
  assumes "s < now + secs 60"
  shows "\<not> is_available s p (mark_failure now p r None t)"
proof -
  let ?e = "count_failure now r (reset_stale now (tracker_entry p t))"
  have "tracker_entry p (mark_failure now p r None t) =
      (if r = Billing
       then ?e\<lparr>disabled_until := Some (now + calculate_billing_cooldown (counted (failure_counts ?e Billing))), disabled_reason := Some r\<rparr>
       else ?e\<lparr>cooldown_end := Some (now + calculate_standard_cooldown (error_count ?e))\<rparr>)"
    unfolding mark_failure_def tracker_entry_def Let_def by simp
  moreover have "s < now + calculate_standard_cooldown n" "s < now + calculate_billing_cooldown n" for n
    using assms standard_cooldown_bounds [of n] billing_cooldown_bounds [of n] by (auto simp: secs_def)
  ultimately show ?thesis by (simp add: is_available_entry pending_def)
qed

subsection \<open>The header that asks for a pause\<close>

lemma decimal_digits: "decimal n \<noteq> [] \<and> list_all is_ascii_digit (decimal n)"
proof (induction n rule: decimal.induct)
  case (1 n)
  have "is_ascii_digit (char_of (48 + k))" if "k < 10" for k :: nat using that by (simp add: is_ascii_digit_def)
  then show ?case using 1 by (subst decimal.simps, subst (2) decimal.simps) simp
qed

lemma decimal_value_decimal: "foldl (\<lambda>a c. 10 * a + decimal_value c) 0 (decimal n) = n"
proof (induction n rule: decimal.induct)
  case (1 n)
  have "decimal_value (char_of (48 + k)) = k" if "k < 10" for k :: nat using that by (simp add: decimal_value_def)
  then show ?case using 1 by (subst decimal.simps) simp
qed

text \<open>
  A number of seconds that the server sends, written in decimal, is read back and becomes the pause the error carries; the
  pause is kept as it is up to an hour.
\<close>
theorem retry_after_roundtrip:
  assumes "n < 2 ^ 64"
  shows "parse_retry_after dates wall (Some (decimal n)) = Some n \<and>
         retry_after_hint (from_status provider model 429 body (parse_retry_after dates wall (Some (decimal n)))) = Some (secs n) \<and>
         cooldown_end (tracker_entry p (mark_failure now p RateLimit (Some (secs n)) t)) = Some (now + min (secs n) (secs 3600))"
proof -
  have "\<not> is_whitespace c" if "c \<in> set (decimal n)" for c
    using decimal_digits [of n] that by (auto simp: list_all_iff is_ascii_digit_def is_whitespace_def)
  then have "trim (decimal n) = decimal n" by (intro trim_no_ws) auto
  moreover have "parse_u64 (decimal n) = Some n"
  proof -
    have "hd (decimal n) \<noteq> CHR ''+''"
      using decimal_digits [of n] by (cases "decimal n") (auto simp: is_ascii_digit_def)
    then have "(case decimal n of c # cs \<Rightarrow> if c = CHR ''+'' then cs else decimal n | [] \<Rightarrow> []) = decimal n"
      by (cases "decimal n") auto
    then show ?thesis using decimal_digits [of n] assms by (simp add: parse_u64_def Let_def decimal_value_decimal)
  qed
  ultimately have "parse_retry_after dates wall (Some (decimal n)) = Some n"
    using decimal_digits [of n] by (simp add: parse_retry_after_def Let_def)
  then show ?thesis
    by (simp add: retry_after_hint_def from_status_def mark_failure_def tracker_entry_def Let_def MAX_STANDARD_COOLDOWN_def)
qed

theorem retry_after_roundtrip_witness:
  "parse_retry_after (\<lambda>_. None) 0 (Some (decimal 30)) = Some 30"
  using retry_after_roundtrip [of 30 "\<lambda>_. None" 0] by simp

theorem available_after_a_day_witness:
  "is_available (secs 90000) ''p'' (tracker_run [Failed (secs 10) ''p'' Billing None, Failed (secs 20) ''q'' Timeout None])"
  by (rule available_after_a_day) (auto simp: secs_def)

end
