(* ===== verification/Fallback.thy ===== *)
theory Fallback
  imports Failover
begin

text \<open>
  The choice of a provider and the chain of fallbacks (nemesis-providers: model_ref.rs, factory.rs,
  fallback_provider.rs; normalize_model_protocol of nemesis-types).  A provider is known by its name; what it answers
  is part of the environment of a call: for the entry at a place of the chain the time at which its cooldown is
  looked up, its reply to a model name, and the time at which the reply is booked.  Regular expressions are a parameter.
\<close>

subsection \<open>References to models\<close>

record model_ref =
  mr_provider :: str
  mr_model :: str

definition normalize_provider :: "str \<Rightarrow> str" where
  "normalize_provider provider =
     (let p = to_lowercase (trim provider) in
      if p = ''z.ai'' \<or> p = ''z-ai'' then ''zai''
      else if p = ''opencode-zen'' then ''opencode''
      else if p = ''qwen'' then ''qwen-portal''
      else if p = ''kimi-code'' then ''kimi-coding''
      else if p = ''gpt'' then ''openai''
      else if p = ''claude'' then ''anthropic''
      else if p = ''glm'' then ''zhipu''
      else if p = ''google'' then ''gemini''
      else p)"

definition parse_model_ref :: "str \<Rightarrow> str \<Rightarrow> model_ref option" where
  "parse_model_ref raw default_provider =
     (let raw = trim raw in
      if raw = [] then None
      else (case find_char (CHR ''/'') raw of
              Some idx \<Rightarrow>
                if idx > 0
                then let model = trim (drop (idx + 1) raw) in
                     if model = [] then None
                     else Some \<lparr>mr_provider = normalize_provider (take idx raw), mr_model = model\<rparr>
                else Some \<lparr>mr_provider = normalize_provider default_provider, mr_model = raw\<rparr>
            | None \<Rightarrow> Some \<lparr>mr_provider = normalize_provider default_provider, mr_model = raw\<rparr>))"

definition model_key :: "str \<Rightarrow> str \<Rightarrow> str" where
  "model_key provider model = normalize_provider provider @ ''/'' @ to_lowercase (trim model)"

subsection \<open>The factory\<close>

datatype provider_type = HttpCompat | Anthropic | Codex | ClaudeCli | CodexCli | GitHubCopilot

record factory_config =
  llm_ref :: str
  api_key :: str
  api_base :: str
  fc_workspace :: str
  connect_mode :: str
  account_id :: str
  fc_protocol :: str
  fc_timeout_secs :: nat

record provider_selection =
  ps_type :: provider_type
  ps_api_key :: str
  ps_api_base :: str
  ps_model :: str
  ps_workspace :: str
  ps_connect_mode :: str
  ps_account_id :: str
  ps_timeout_secs :: nat

datatype factory_error = EmptyReference | UnknownProtocol str | ImageProtocol | NoApiKey str str | FactoryPanic

definition normalize_model_protocol :: "str \<Rightarrow> factory_error + str" where
  "normalize_model_protocol input =
     (let p = to_lowercase (trim input) in
      if p = [] then Inr []
      else if p = ''anthropic'' \<or> p = ''claude'' then Inr ''anthropic''
      else if p = ''openai'' \<or> p = ''chat-completions'' then Inr ''openai''
      else if p = ''responses'' then Inr ''responses''
      else if p = ''images-openai'' then Inr ''images-openai''
      else Inl (UnknownProtocol p))"

definition with_base :: "provider_type \<Rightarrow> str \<Rightarrow> provider_selection \<Rightarrow> provider_selection" where
  "with_base ty base sel = sel\<lparr>ps_type := ty, ps_api_base := (if ps_api_base sel = [] then base else ps_api_base sel)\<rparr>"

definition by_protocol :: "str \<Rightarrow> provider_selection \<Rightarrow> factory_error + provider_selection" where
  "by_protocol protocol sel =
     (if protocol = ''anthropic'' then Inr (with_base Anthropic ''https://api.anthropic.com'' sel)
      else if protocol = ''openai'' then Inr (with_base HttpCompat ''https://api.openai.com/v1'' sel)
      else if protocol = ''responses'' then Inr (with_base Codex ''https://chatgpt.com/backend-api/codex'' sel)
      else if protocol = ''images-openai'' then Inl ImageProtocol
      else Inl FactoryPanic)"

definition by_provider :: "str \<Rightarrow> str \<Rightarrow> provider_selection \<Rightarrow> factory_error + provider_selection" where
  "by_provider provider_name model sel =
     (if provider_name = ''anthropic'' then Inr (with_base Anthropic ''https://api.anthropic.com'' sel)
      else if provider_name = ''openai'' then Inr (with_base Codex ''https://chatgpt.com/backend-api/codex'' sel)
      else if ps_api_key sel = [] then Inl (NoApiKey provider_name model)
      else Inr (sel\<lparr>ps_type := HttpCompat\<rparr>))"

definition resolve_provider_selection :: "factory_config \<Rightarrow> factory_error + provider_selection" where
  "resolve_provider_selection cfg =
     (case parse_model_ref (llm_ref cfg) ''http-compat'' of
        None \<Rightarrow> Inl EmptyReference
      | Some r \<Rightarrow>
          let name = normalize_provider (mr_provider r);
              sel = \<lparr>ps_type = HttpCompat, ps_api_key = api_key cfg, ps_api_base = api_base cfg, ps_model = mr_model r,
                     ps_workspace = (if fc_workspace cfg = [] then ''.'' else fc_workspace cfg),
                     ps_connect_mode = connect_mode cfg, ps_account_id = account_id cfg,
                     ps_timeout_secs = fc_timeout_secs cfg\<rparr>
          in if name \<in> {''claude-cli'', ''claude-code'', ''claudecode'', ''claudecodec''} then Inr (sel\<lparr>ps_type := ClaudeCli\<rparr>)
             else if name \<in> {''codex-cli'', ''codex-code''} then Inr (sel\<lparr>ps_type := CodexCli\<rparr>)
             else if name \<in> {''github_copilot'', ''copilot''} then Inr (sel\<lparr>ps_type := GitHubCopilot\<rparr>)
             else if fc_protocol cfg \<noteq> []
             then and_then (normalize_model_protocol (fc_protocol cfg)) (\<lambda>protocol. by_protocol protocol sel)
             else by_provider name (mr_model r) sel)"

definition effective_timeout :: "nat \<Rightarrow> nat" where
  "effective_timeout configured = (if configured > 0 then configured else 600)"

text \<open>The names the providers report, which are the keys of the cooldown.\<close>

fun provider_name_of :: "provider_type \<Rightarrow> str" where
  "provider_name_of HttpCompat = ''http-compat''"
| "provider_name_of Anthropic = ''anthropic''"
| "provider_name_of Codex = ''codex''"
| "provider_name_of ClaudeCli = ''claude-cli''"
| "provider_name_of CodexCli = ''codex-cli''"
| "provider_name_of GitHubCopilot = ''github-copilot''"

definition create_provider :: "factory_config \<Rightarrow> factory_error + str" where
  "create_provider cfg = and_then (resolve_provider_selection cfg) (\<lambda>sel. Inr (provider_name_of (ps_type sel)))"

subsection \<open>The chain\<close>

record fallback_entry =
  fe_provider :: str
  fe_model :: str

record fallback_level =
  fl_alias :: str
  fl_model :: str
  fl_factory :: factory_config

text \<open>\<open>Inl\<close> is the primary provider as it is, \<open>Inr\<close> a chain with its name.\<close>

definition assemble_fallback_chain :: "str \<Rightarrow> str \<Rightarrow> fallback_level list \<Rightarrow> str + (str \<times> fallback_entry list)" where
  "assemble_fallback_chain primary_model primary levels =
     (let chain = \<lparr>fe_provider = primary, fe_model = primary_model\<rparr> #
            List.map_filter (\<lambda>level.
              if fl_alias level = primary_model then None
              else (case create_provider (fl_factory level) of
                      Inr p \<Rightarrow> Some \<lparr>fe_provider = p, fe_model = fl_model level\<rparr>
                    | Inl _ \<Rightarrow> None)) levels
      in if levels = [] then Inl primary
         else if length chain > 1 then Inr (''auto:'' @ primary_model, chain)
         else Inl primary)"

record 'r chain_env =
  at_check :: "nat \<Rightarrow> nat"
  at_reply :: "nat \<Rightarrow> nat"
  reply :: "nat \<Rightarrow> str \<Rightarrow> failover_error + 'r"

definition effective_model :: "str \<Rightarrow> fallback_entry \<Rightarrow> str" where
  "effective_model model e = (if model = [] then fe_model e else model)"

definition chain_exhausted :: "str \<Rightarrow> failover_error" where
  "chain_exhausted name = UnknownError name ''all providers in fallback chain exhausted''"

fun chat_loop :: "'r chain_env \<Rightarrow> str \<Rightarrow> str \<Rightarrow> nat \<Rightarrow> fallback_entry list \<Rightarrow> failover_error option \<Rightarrow> cooldown_tracker \<Rightarrow>
    (failover_error + 'r) \<times> cooldown_tracker" where
  "chat_loop env name model i [] last_error t =
     (Inl (case last_error of Some e \<Rightarrow> e | None \<Rightarrow> chain_exhausted name), t)"
| "chat_loop env name model i (e # es) last_error t =
     (if \<not> is_available (at_check env i) (fe_provider e) t
      then chat_loop env name model (Suc i) es last_error t
      else (case reply env i (effective_model model e) of
              Inr resp \<Rightarrow> (Inr resp, mark_success (fe_provider e) t)
            | Inl err \<Rightarrow>
                let t' = mark_failure (at_reply env i) (fe_provider e) (error_reason err) (retry_after_hint err) t in
                if \<not> is_retriable err then (Inl err, t')
                else chat_loop env name model (Suc i) es (Some err) t'))"

definition fallback_chat :: "'r chain_env \<Rightarrow> str \<Rightarrow> fallback_entry list \<Rightarrow> str \<Rightarrow> cooldown_tracker \<Rightarrow>
    (failover_error + 'r) \<times> cooldown_tracker" where
  "fallback_chat env name chain model t =
     (if chain = [] then (Inl (UnknownError name ''no providers in fallback chain''), t)
      else chat_loop env name model 0 chain None t)"

subsection \<open>The chain with its log of attempts\<close>

fun display_error :: "failover_error \<Rightarrow> str" where
  "display_error (AuthError p m status) = ''auth failure for provider '' @ p @ ''/'' @ m @ '': status '' @ decimal status"
| "display_error (RateLimitError p m _) = ''rate limited by provider '' @ p @ ''/'' @ m"
| "display_error (BillingError p) = ''billing issue with provider '' @ p"
| "display_error (TimeoutError p m) = ''timeout calling provider '' @ p @ ''/'' @ m"
| "display_error (FormatError p msg) = ''format error from provider '' @ p @ '': '' @ msg"
| "display_error (OverloadedError p status) = ''provider '' @ p @ '' is overloaded (status: '' @ decimal status @ '')''"
| "display_error (UnknownError p msg) = ''unknown error from provider '' @ p @ '': '' @ msg"

record fallback_attempt =
  fa_provider :: str
  fa_model :: str
  fa_error :: "str option"
  fa_success :: bool

record exhausted_error =
  chain_name :: str
  providers_attempted :: nat
  total_providers :: nat
  ex_errors :: "(str \<times> str) list"

record 'r fallback_result =
  fr_response :: "'r option"
  fr_attempts :: "fallback_attempt list"
  fr_exhausted :: "exhausted_error option"

definition exhausted :: "str \<Rightarrow> nat \<Rightarrow> fallback_attempt list \<Rightarrow> (str \<times> str) list \<Rightarrow> 'r fallback_result" where
  "exhausted name n attempts errors =
     \<lparr>fr_response = None, fr_attempts = attempts,
      fr_exhausted = Some \<lparr>chain_name = name, providers_attempted = length errors, total_providers = n, ex_errors = errors\<rparr>\<rparr>"

definition attempt_of :: "str \<Rightarrow> fallback_entry \<Rightarrow> str option \<Rightarrow> bool \<Rightarrow> fallback_attempt" where
  "attempt_of model e error success =
     \<lparr>fa_provider = fe_provider e, fa_model = effective_model model e, fa_error = error, fa_success = success\<rparr>"

fun detailed_loop :: "'r chain_env \<Rightarrow> str \<Rightarrow> nat \<Rightarrow> str \<Rightarrow> nat \<Rightarrow> fallback_entry list \<Rightarrow> fallback_attempt list \<Rightarrow>
    (str \<times> str) list \<Rightarrow> cooldown_tracker \<Rightarrow> 'r fallback_result \<times> cooldown_tracker" where
  "detailed_loop env name n model i [] attempts errors t = (exhausted name n attempts errors, t)"
| "detailed_loop env name n model i (e # es) attempts errors t =
     (if \<not> is_available (at_check env i) (fe_provider e) t
      then detailed_loop env name n model (Suc i) es
             (attempts @ [attempt_of model e (Some ''skipped: in cooldown'') False]) errors t
      else (case reply env i (effective_model model e) of
              Inr resp \<Rightarrow>
                (\<lparr>fr_response = Some resp, fr_attempts = attempts @ [attempt_of model e None True], fr_exhausted = None\<rparr>,
                 mark_success (fe_provider e) t)
            | Inl err \<Rightarrow>
                let t' = mark_failure (at_reply env i) (fe_provider e) (error_reason err) (retry_after_hint err) t;
                    errors' = errors @ [(fe_provider e, display_error err)];
                    attempts' = attempts @ [attempt_of model e (Some (display_error err)) False]
                in if \<not> is_retriable err then (exhausted name n attempts' errors', t')
                   else detailed_loop env name n model (Suc i) es attempts' errors' t'))"

definition execute_detailed :: "'r chain_env \<Rightarrow> str \<Rightarrow> fallback_entry list \<Rightarrow> str \<Rightarrow> cooldown_tracker \<Rightarrow>
    'r fallback_result \<times> cooldown_tracker" where
  "execute_detailed env name chain model t =
     (if chain = [] then (exhausted name 0 [] [], t) else detailed_loop env name (length chain) model 0 chain [] [] t)"

definition is_image_dimension_error :: "(str \<Rightarrow> str \<Rightarrow> bool) \<Rightarrow> str \<Rightarrow> bool" where
  "is_image_dimension_error rx msg = rx ''(?i)image dimensions exceed max'' msg"

definition is_image_size_error :: "(str \<Rightarrow> str \<Rightarrow> bool) \<Rightarrow> str \<Rightarrow> bool" where
  "is_image_size_error rx msg = rx ''(?i)image exceeds.*mb'' msg"

fun image_loop :: "(str \<Rightarrow> str \<Rightarrow> bool) \<Rightarrow> 'r chain_env \<Rightarrow> str \<Rightarrow> nat \<Rightarrow> str \<Rightarrow> nat \<Rightarrow> fallback_entry list \<Rightarrow>
    fallback_attempt list \<Rightarrow> (str \<times> str) list \<Rightarrow> 'r fallback_result" where
  "image_loop rx env name n model i [] attempts errors = exhausted name n attempts errors"
| "image_loop rx env name n model i (e # es) attempts errors =
     (case reply env i (effective_model model e) of
        Inr resp \<Rightarrow> \<lparr>fr_response = Some resp, fr_attempts = attempts @ [attempt_of model e None True], fr_exhausted = None\<rparr>
      | Inl err \<Rightarrow>
          let msg = display_error err;
              errors' = errors @ [(fe_provider e, msg)];
              attempts' = attempts @ [attempt_of model e (Some msg) False]
          in if is_image_dimension_error rx (to_lowercase msg) \<or> is_image_size_error rx (to_lowercase msg)
             then exhausted name n attempts' errors'
             else if i = n - 1 then exhausted name n attempts' errors'
             else image_loop rx env name n model (Suc i) es attempts' errors')"

definition execute_image :: "(str \<Rightarrow> str \<Rightarrow> bool) \<Rightarrow> 'r chain_env \<Rightarrow> str \<Rightarrow> fallback_entry list \<Rightarrow> str \<Rightarrow> 'r fallback_result" where
  "execute_image rx env name chain model =
     (if chain = [] then exhausted name 0 [] [] else image_loop rx env name (length chain) model 0 chain [] [])"

fun keep_first :: "str set \<Rightarrow> fallback_entry list \<Rightarrow> fallback_entry list" where
  "keep_first seen [] = []"
| "keep_first seen (e # es) =
     (let key = fe_provider e @ '':'' @ fe_model e in
      if key \<in> seen then keep_first seen es else e # keep_first (insert key seen) es)"

definition resolve_candidates :: "fallback_entry list \<Rightarrow> fallback_entry list" where
  "resolve_candidates chain = keep_first {} chain"

subsection \<open>Which entry answers\<close>

lemma mark_other [simp]:
  "p \<noteq> q \<Longrightarrow> mark_failure now p r hint t q = t q" "p \<noteq> q \<Longrightarrow> mark_success p t q = t q"
  by (simp_all add: mark_failure_def mark_success_def Let_def split: option.splits)

lemma is_available_cong: "t p = t' p \<Longrightarrow> is_available now p t = is_available now p t'"
  by (simp add: is_available_def)

text \<open>
  The reference: entries are judged by the cooldown as it was before the call.  The first entry that is available and
  either answers or fails for good decides; if there is none, the last available one.
\<close>

definition tried :: "'r chain_env \<Rightarrow> cooldown_tracker \<Rightarrow> nat \<times> fallback_entry \<Rightarrow> bool" where
  "tried env t x \<longleftrightarrow> is_available (at_check env (fst x)) (fe_provider (snd x)) t"

definition answer :: "'r chain_env \<Rightarrow> str \<Rightarrow> nat \<times> fallback_entry \<Rightarrow> failover_error + 'r" where
  "answer env model x = reply env (fst x) (effective_model model (snd x))"

definition decides :: "'r chain_env \<Rightarrow> str \<Rightarrow> cooldown_tracker \<Rightarrow> nat \<times> fallback_entry \<Rightarrow> bool" where
  "decides env model t x \<longleftrightarrow>
     tried env t x \<and> (case answer env model x of Inr _ \<Rightarrow> True | Inl err \<Rightarrow> \<not> is_retriable err)"

definition judged :: "'r chain_env \<Rightarrow> str \<Rightarrow> cooldown_tracker \<Rightarrow> failover_error + 'r \<Rightarrow> (nat \<times> fallback_entry) list \<Rightarrow>
    failover_error + 'r" where
  "judged env model t otherwise xs =
     (case find (decides env model t) xs of
        Some x \<Rightarrow> answer env model x
      | None \<Rightarrow> if filter (tried env t) xs = [] then otherwise else answer env model (last (filter (tried env t) xs)))"

definition reference_chat :: "'r chain_env \<Rightarrow> str \<Rightarrow> fallback_entry list \<Rightarrow> str \<Rightarrow> cooldown_tracker \<Rightarrow> failover_error + 'r" where
  "reference_chat env name chain model t = judged env model t (Inl (chain_exhausted name)) (enumerate 0 chain)"

lemma judged_Cons:
  "judged env model t otherwise (x # xs) =
     (if decides env model t x then answer env model x
      else judged env model t (if tried env t x then answer env model x else otherwise) xs)"
  by (auto simp: judged_def decides_def split: option.splits)

lemma chat_loop_reference:
  assumes "distinct (map fe_provider es)" "\<forall>e \<in> set es. t (fe_provider e) = t0 (fe_provider e)"
  shows "fst (chat_loop env name model i es prev t) =
     judged env model t0 (Inl (case prev of Some e \<Rightarrow> e | None \<Rightarrow> chain_exhausted name)) (enumerate i es)"
  using assms
proof (induction es arbitrary: i prev t)
  case Nil
  show ?case by (simp add: judged_def)
next
  case (Cons e es)
  have av: "is_available (at_check env i) (fe_provider e) t \<longleftrightarrow> tried env t0 (i, e)"
    using Cons.prems(2) is_available_cong [of t "fe_provider e" t0] by (simp add: tried_def)
  have rest: "\<forall>e' \<in> set es. mark_failure now (fe_provider e) r hint t (fe_provider e') = t0 (fe_provider e')" for now r hint
  proof
    fix e' assume e': "e' \<in> set es"
    then have "fe_provider e \<noteq> fe_provider e'" using Cons.prems(1) by auto
    then show "mark_failure now (fe_provider e) r hint t (fe_provider e') = t0 (fe_provider e')"
      using Cons.prems(2) e' by simp
  qed
  have ans: "reply env i (effective_model model e) = answer env model (i, e)" by (simp add: answer_def)
  show ?case
  proof (cases "tried env t0 (i, e)")
    case False
    then show ?thesis using Cons.IH [of t "Suc i" prev] Cons.prems av by (simp add: judged_Cons decides_def)
  next
    case tr: True
    then show ?thesis using av Cons.IH [OF _ rest] Cons.prems(1)
      by (cases "answer env model (i, e)") (simp_all add: judged_Cons decides_def ans Let_def)
  qed
qed

text \<open>
  C25: when the providers of a chain have different names, the chain answers as the reference does, which judges every entry by
  the cooldown as it was before the call: bookings made during the call never change who is asked.
\<close>
theorem fallback_chat_reference:
  assumes "distinct (map fe_provider chain)" "chain \<noteq> []"
  shows "fst (fallback_chat env name chain model t) = reference_chat env name chain model t"
  using chat_loop_reference [OF assms(1), of t t env name model 0 None] assms(2)
  by (simp add: fallback_chat_def reference_chat_def)

lemma all_resting:
  "\<forall>k < length es. \<not> is_available (at_check env (i + k)) (fe_provider (es ! k)) t \<Longrightarrow>
   chat_loop env name model i es (Some err) t = (Inl err, t)"
proof (induction es arbitrary: i)
  case (Cons e es)
  have "\<not> is_available (at_check env i) (fe_provider e) t" using Cons.prems by force
  moreover have "chat_loop env name model (Suc i) es (Some err) t = (Inl err, t)"
    using Cons.prems by (intro Cons.IH) force
  ultimately show ?case by simp
qed simp

text \<open>
  Providers are put to rest by name, and every provider of the OpenAI-compatible kind has the name http-compat.  In a chain whose
  entries all have one name, a transient failure of the first entry (with no pause asked for by the server) is
  the result of the whole call, whatever the other entries would have answered, if they are looked at within a minute.
\<close>
theorem same_name_levels_not_tried:
  assumes "\<forall>e' \<in> set es. fe_provider e' = fe_provider e" "is_available (at_check env 0) (fe_provider e) t"
    "reply env 0 (effective_model model e) = Inl err" "is_retriable err" "retry_after_hint err = None"
    "\<And>k. k < length es \<Longrightarrow> at_check env (Suc k) < at_reply env 0 + secs 60"
  shows "fst (fallback_chat env name (e # es) model t) = Inl err"
proof -
  let ?t = "mark_failure (at_reply env 0) (fe_provider e) (error_reason err) None t"
  have "\<not> is_available (at_check env (1 + k)) (fe_provider (es ! k)) ?t" if "k < length es" for k
    using failure_rests [OF assms(6) [OF that]] assms(1) that by simp
  then have "chat_loop env name model 1 es (Some err) ?t = (Inl err, ?t)" by (intro all_resting) blast
  then show ?thesis using assms(2-5) by (simp add: fallback_chat_def Let_def)
qed

text \<open>
  When the caller names a model, every entry of the chain is asked for that model, and the models
  of the levels have no influence on the result.
\<close>
theorem level_models_ignored:
  assumes "model \<noteq> []"
  shows "fallback_chat env name (map (\<lambda>e. e\<lparr>fe_model := m e\<rparr>) chain) model t = fallback_chat env name chain model t"
proof -
  have "effective_model model (e\<lparr>fe_model := x\<rparr>) = effective_model model e" for e x
    using assms by (simp add: effective_model_def)
  then have "chat_loop env name model i (map (\<lambda>e. e\<lparr>fe_model := m e\<rparr>) es) prev t =
      chat_loop env name model i es prev t" for i es prev t
    by (induction es arbitrary: i prev t) (auto simp: Let_def split: sum.splits)
  then show ?thesis by (simp add: fallback_chat_def)
qed

subsection \<open>The two executions of a chain agree\<close>

definition remembered :: "failover_error option \<Rightarrow> (str \<times> str) list \<Rightarrow> bool" where
  "remembered prev errors \<longleftrightarrow> (case prev of None \<Rightarrow> errors = [] | Some e \<Rightarrow> errors \<noteq> [] \<and> snd (last errors) = display_error e)"

definition same_outcome :: "str \<Rightarrow> failover_error + 'r \<Rightarrow> 'r fallback_result \<Rightarrow> bool" where
  "same_outcome name out res \<longleftrightarrow>
     (case out of
        Inr resp \<Rightarrow> fr_response res = Some resp \<and> fr_exhausted res = None
      | Inl err \<Rightarrow> fr_response res = None \<and>
          (case fr_exhausted res of
             None \<Rightarrow> False
           | Some ex \<Rightarrow> chain_name ex = name \<and> providers_attempted ex = length (ex_errors ex) \<and>
               (if ex_errors ex = [] then err = chain_exhausted name else snd (last (ex_errors ex)) = display_error err)))"

lemma detailed_agrees:
  "remembered prev errors \<Longrightarrow>
   snd (detailed_loop env name n model i es attempts errors t) = snd (chat_loop env name model i es prev t) \<and>
   same_outcome name (fst (chat_loop env name model i es prev t)) (fst (detailed_loop env name n model i es attempts errors t))"
proof (induction es arbitrary: i prev errors attempts t)
  case Nil
  then show ?case by (auto simp: remembered_def same_outcome_def exhausted_def split: option.splits)
next
  case (Cons e es)
  show ?case
  proof (cases "is_available (at_check env i) (fe_provider e) t")
    case False
    then show ?thesis using Cons.IH [OF Cons.prems] by simp
  next
    case av: True
    show ?thesis
    proof (cases "reply env i (effective_model model e)")
      case (Inl err)
      have "remembered (Some err) (errors @ [(fe_provider e, display_error err)])" by (simp add: remembered_def)
      from Cons.IH [OF this] show ?thesis using av Inl
        by (simp add: Let_def same_outcome_def exhausted_def)
    qed (simp add: av same_outcome_def)
  qed
qed

text \<open>The attempts: one per entry up to the one that ends the call; only the last one can be a success.\<close>

definition log_ok :: "str \<Rightarrow> fallback_entry list \<Rightarrow> 'r fallback_result \<Rightarrow> fallback_attempt list \<Rightarrow> bool" where
  "log_ok model es res new \<longleftrightarrow>
     map (\<lambda>a. (fa_provider a, fa_model a)) new = map (\<lambda>e. (fe_provider e, effective_model model e)) (take (length new) es) \<and>
     (\<forall>a \<in> set new. fa_success a \<longleftrightarrow> fa_error a = None) \<and>
     (case fr_response res of
        Some _ \<Rightarrow> new \<noteq> [] \<and> fa_success (last new) \<and> list_all (\<lambda>a. \<not> fa_success a) (butlast new)
      | None \<Rightarrow> list_all (\<lambda>a. \<not> fa_success a) new)"

lemma log_ok_Cons:
  assumes "log_ok model es res new" "a = attempt_of model e (Some msg) False"
  shows "log_ok model (e # es) res (a # new)"
  using assms by (cases new) (auto simp: log_ok_def attempt_of_def split: option.splits)

lemma detailed_log:
  "\<exists>new. fr_attempts (fst (detailed_loop env name n model i es attempts errors t)) = attempts @ new \<and>
         log_ok model es (fst (detailed_loop env name n model i es attempts errors t)) new"
proof (induction es arbitrary: i errors attempts t)
  case Nil
  show ?case by (simp add: exhausted_def log_ok_def)
next
  case (Cons e es)
  have more: "\<exists>new. fr_attempts res = (attempts @ [a]) @ new \<and> log_ok model es res new \<Longrightarrow>
      \<exists>new. fr_attempts res = attempts @ new \<and> log_ok model (e # es) res new"
    if "a = attempt_of model e (Some msg) False" for a msg and res :: "'a fallback_result"
    using log_ok_Cons [OF _ that] by force
  show ?case
  proof (cases "is_available (at_check env i) (fe_provider e) t")
    case False
    then show ?thesis using more [OF refl Cons.IH] by simp
  next
    case av: True
    show ?thesis
    proof (cases "reply env i (effective_model model e)")
      case (Inr resp)
      then show ?thesis using av by (simp add: log_ok_def attempt_of_def)
    next
      case (Inl err)
      show ?thesis
      proof (cases "is_retriable err")
        case True
        then show ?thesis using av Inl more [OF refl Cons.IH] by (simp add: Let_def)
      next
        case False
        then show ?thesis using av Inl by (simp add: Let_def exhausted_def log_ok_def attempt_of_def)
      qed
    qed
  qed
qed

text \<open>
  The execution with a log and the plain one do the same: they leave the same cooldowns, answer with the same response,
  or report the error whose text is the last of the log, and the plain one reports that the chain is exhausted
  exactly when no entry was asked.  The log has one attempt per entry up to the one that ended the call, in the order of the
  chain, with the name and the model it was asked for, and a success can only be the last of them.
\<close>
theorem detailed_execution_agrees:
  "chain = [] \<or>
   snd (execute_detailed env name chain model t) = snd (fallback_chat env name chain model t) \<and>
   same_outcome name (fst (fallback_chat env name chain model t)) (fst (execute_detailed env name chain model t)) \<and>
   log_ok model chain (fst (execute_detailed env name chain model t)) (fr_attempts (fst (execute_detailed env name chain model t)))"
proof (cases "chain = []")
  case False
  have E: "execute_detailed env name chain model t = detailed_loop env name (length chain) model 0 chain [] [] t"
    "fallback_chat env name chain model t = chat_loop env name model 0 chain None t"
    using False by (simp_all add: execute_detailed_def fallback_chat_def)
  have "remembered None []" by (simp add: remembered_def)
  note A = detailed_agrees [OF this, of env name "length chain" model 0 chain "[]" t]
  obtain new where "fr_attempts (fst (detailed_loop env name (length chain) model 0 chain [] [] t)) = new"
    "log_ok model chain (fst (detailed_loop env name (length chain) model 0 chain [] [] t)) new"
    using detailed_log [of env name "length chain" model 0 chain "[]" "[]" t] by auto
  with A show ?thesis unfolding E by blast
qed simp

subsection \<open>An example\<close>

text \<open>Two models of different vendors, both behind the OpenAI-compatible interface.\<close>

definition vendor_config :: "str \<Rightarrow> factory_config" where
  "vendor_config r =
     \<lparr>llm_ref = r, api_key = ''k'', api_base = ''https://api.example.com'', fc_workspace = [], connect_mode = [],
      account_id = [], fc_protocol = [], fc_timeout_secs = 0\<rparr>"

definition vendor_chain :: "fallback_entry list" where
  "vendor_chain = [\<lparr>fe_provider = ''http-compat'', fe_model = ''glm-4''\<rparr>, \<lparr>fe_provider = ''http-compat'', fe_model = ''deepseek-chat''\<rparr>]"

lemma vendor_chain_assembled:
  "create_provider (vendor_config ''zhipu/glm-4'') = Inr ''http-compat'' \<and>
   assemble_fallback_chain ''glm-4'' ''http-compat''
     [\<lparr>fl_alias = ''b'', fl_model = ''deepseek-chat'', fl_factory = vendor_config ''deepseek/deepseek-chat''\<rparr>] =
   Inr (''auto:glm-4'', vendor_chain)"
  by code_simp

definition vendor_env :: "str chain_env" where
  "vendor_env =
     \<lparr>at_check = (\<lambda>i. secs (10 * i)), at_reply = (\<lambda>i. secs (10 * i + 5)),
      reply = (\<lambda>i m. if i = 0 then Inl (TimeoutError ''http-compat'' m) else Inr ''hello'')\<rparr>"

theorem same_name_levels_not_tried_witness:
  "fst (fallback_chat vendor_env ''auto:glm-4'' vendor_chain [] Map.empty) = Inl (TimeoutError ''http-compat'' ''glm-4'')"
  unfolding vendor_chain_def
  by (rule same_name_levels_not_tried)
    (simp_all add: vendor_env_def is_available_def effective_model_def is_retriable_def retry_after_hint_def secs_def)

definition mixed_chain :: "fallback_entry list" where
  "mixed_chain = [\<lparr>fe_provider = ''http-compat'', fe_model = ''glm-4''\<rparr>, \<lparr>fe_provider = ''anthropic'', fe_model = ''claude''\<rparr>]"

theorem fallback_chat_reference_witness:
  "fst (fallback_chat vendor_env ''auto:glm-4'' mixed_chain [] Map.empty) =
   reference_chat vendor_env ''auto:glm-4'' mixed_chain [] Map.empty"
  by (rule fallback_chat_reference) (simp_all add: mixed_chain_def)

text \<open>
  A protocol of blanks only is taken for an explicit protocol but normalised to the empty one, and the factory panics.
\<close>
theorem blank_protocol_panics:
  "resolve_provider_selection ((vendor_config ''zhipu/glm-4'')\<lparr>fc_protocol := '' ''\<rparr>) = Inl FactoryPanic"
  by code_simp

end
