(* ===== verification/Router.thy ===== *)
theory Router
  imports Failover Complex_Main "HOL-Library.Multiset"
begin

text \<open>
  The router of model requests (nemesis-providers: router.rs): aliases, candidates, the policies that
  choose between them, round-robin counters, metrics and the failover of a request.  Costs, qualities and latencies
  are floating-point numbers that are only compared; they are rationals here, with \<open>None\<close> for not-a-number, and the mean
  of latencies is a parameter.  Round-robin counters are 64-bit words and wrap.  The semantic policy
  takes its degraded form, which is all that this path of the sources has.
\<close>

subsection \<open>Data\<close>

datatype routing_policy = PolicyCost | PolicyQuality | PolicyLatency | PolicyRoundRobin | PolicyFallback | PolicySemantic

record candidate =
  cd_provider :: str
  cd_model :: str
  cost_per_1k :: "rat option"
  quality_score :: "rat option"
  cd_priority :: int

record metric =
  m_provider :: str
  m_latency_ms :: nat
  m_success :: bool
  m_tokens :: int

record router =
  r_providers :: "str set"
  r_candidates :: "candidate list"
  r_policy :: routing_policy
  r_aliases :: "str \<rightharpoonup> str"
  r_counters :: "str \<rightharpoonup> 64 word"
  r_samples :: "str \<rightharpoonup> metric list"

datatype 'a outcome = Returned 'a | ComparePanic

definition default_aliases :: "str \<rightharpoonup> str" where
  "default_aliases =
     [''fast'' \<mapsto> ''groq/llama-3'', ''smart'' \<mapsto> ''anthropic/claude-sonnet-4-6'', ''cheap'' \<mapsto> ''deepseek/deepseek-chat'',
      ''local'' \<mapsto> ''ollama/llama3'']"

definition new_router :: "routing_policy \<Rightarrow> (str \<rightharpoonup> str) \<Rightarrow> router" where
  "new_router p aliases =
     \<lparr>r_providers = {}, r_candidates = [], r_policy = p, r_aliases = aliases, r_counters = Map.empty, r_samples = Map.empty\<rparr>"

definition register_provider :: "str \<Rightarrow> router \<Rightarrow> router" where
  "register_provider name r = r\<lparr>r_providers := insert name (r_providers r)\<rparr>"

definition add_candidate :: "candidate \<Rightarrow> router \<Rightarrow> router" where
  "add_candidate c r = r\<lparr>r_candidates := r_candidates r @ [c]\<rparr>"

definition resolve_alias :: "router \<Rightarrow> str \<Rightarrow> str" where
  "resolve_alias r model = (case r_aliases r model of Some m \<Rightarrow> m | None \<Rightarrow> model)"

definition merge_aliases :: "(str \<rightharpoonup> str) \<Rightarrow> (str \<rightharpoonup> str) \<Rightarrow> str \<rightharpoonup> str" where
  "merge_aliases defaults custom = defaults ++ custom"

definition set_policy :: "routing_policy \<Rightarrow> router \<Rightarrow> router" where
  "set_policy p r = r\<lparr>r_policy := p\<rparr>"

definition set_aliases :: "(str \<rightharpoonup> str) \<Rightarrow> router \<Rightarrow> router" where
  "set_aliases m r = r\<lparr>r_aliases := m\<rparr>"

subsection \<open>Metrics\<close>

definition MAX_SAMPLES :: nat where "MAX_SAMPLES = 1000"

definition record_metric :: "metric \<Rightarrow> router \<Rightarrow> router" where
  "record_metric m r =
     (let old = (case r_samples r (m_provider m) of Some s \<Rightarrow> s | None \<Rightarrow> []);
          kept = (if length old \<ge> MAX_SAMPLES then tl old else old)
      in r\<lparr>r_samples := (r_samples r)(m_provider m \<mapsto> kept @ [m])\<rparr>)"

definition samples_of :: "router \<Rightarrow> str \<Rightarrow> metric list" where
  "samples_of r p = (case r_samples r p of Some s \<Rightarrow> s | None \<Rightarrow> [])"

definition avg_latency :: "(nat list \<Rightarrow> rat) \<Rightarrow> router \<Rightarrow> str \<Rightarrow> rat" where
  "avg_latency mean r p = (if samples_of r p = [] then 0 else mean (map m_latency_ms (samples_of r p)))"

definition reset_metrics :: "str \<Rightarrow> router \<Rightarrow> router" where
  "reset_metrics p r = r\<lparr>r_samples := (r_samples r)(p := None)\<rparr>"

subsection \<open>Selection\<close>

definition model_matches :: "str \<Rightarrow> str \<Rightarrow> bool" where
  "model_matches candidate_model requested =
     (if candidate_model = requested then True
      else (case rfind_char (CHR ''/'') requested of
              Some i \<Rightarrow> let bare = drop (i + 1) requested in bare \<noteq> [] \<and> candidate_model = bare
            | None \<Rightarrow> False))"

text \<open>\<^verbatim>\<open>Iterator::min_by\<close> keeps the first of equal elements, \<^verbatim>\<open>max_by\<close> the last.\<close>

fun first_min :: "('a \<Rightarrow> 'k::linorder) \<Rightarrow> 'a list \<Rightarrow> 'a option" where
  "first_min key [] = None"
| "first_min key (x # xs) = Some (foldl (\<lambda>best y. if key y < key best then y else best) x xs)"

fun last_max :: "('a \<Rightarrow> 'k::linorder) \<Rightarrow> 'a list \<Rightarrow> 'a option" where
  "last_max key [] = None"
| "last_max key (x # xs) = Some (foldl (\<lambda>best y. if key y < key best then best else y) x xs)"

text \<open>Comparing not-a-number panics; with two or more elements every element is compared.\<close>

definition comparable :: "('a \<Rightarrow> rat option) \<Rightarrow> 'a list \<Rightarrow> bool" where
  "comparable f xs \<longleftrightarrow> length xs < 2 \<or> list_all (\<lambda>x. f x \<noteq> None) xs"

definition counter_of :: "router \<Rightarrow> str \<Rightarrow> 64 word" where
  "counter_of r p = (case r_counters r p of Some w \<Rightarrow> w | None \<Rightarrow> 0)"

definition pick_round_robin :: "candidate list \<Rightarrow> router \<Rightarrow> candidate option \<times> router" where
  "pick_round_robin matching r =
     (case matching of
        [] \<Rightarrow> (None, r)
      | c # _ \<Rightarrow>
          let counter = counter_of r (cd_provider c)
          in (Some (matching ! (unat counter mod length matching)),
              r\<lparr>r_counters := (r_counters r)(cd_provider c \<mapsto> counter + 1)\<rparr>))"

definition select_by_policy :: "(nat list \<Rightarrow> rat) \<Rightarrow> routing_policy \<Rightarrow> candidate list \<Rightarrow> router \<Rightarrow> (candidate option \<times> router) outcome" where
  "select_by_policy mean p matching r =
     (case p of
        PolicyCost \<Rightarrow>
          if comparable cost_per_1k matching then Returned (first_min (\<lambda>c. the (cost_per_1k c)) matching, r) else ComparePanic
      | PolicyQuality \<Rightarrow>
          if comparable quality_score matching then Returned (last_max (\<lambda>c. the (quality_score c)) matching, r) else ComparePanic
      | PolicyLatency \<Rightarrow> Returned (first_min (\<lambda>c. avg_latency mean r (cd_provider c)) matching, r)
      | PolicyRoundRobin \<Rightarrow> Returned (pick_round_robin matching r)
      | PolicyFallback \<Rightarrow> Returned (last_max cd_priority matching, r)
      | PolicySemantic \<Rightarrow> Returned (last_max cd_priority matching, r))"

definition matching_candidates :: "router \<Rightarrow> str \<Rightarrow> candidate list" where
  "matching_candidates r model = filter (\<lambda>c. model_matches (cd_model c) (resolve_alias r model)) (r_candidates r)"

definition select_with_policy :: "(nat list \<Rightarrow> rat) \<Rightarrow> routing_policy \<Rightarrow> str \<Rightarrow> router \<Rightarrow> (candidate option \<times> router) outcome" where
  "select_with_policy mean p model r =
     (let matching = matching_candidates r model in
      if matching = [] then Returned (case r_candidates r of [] \<Rightarrow> None | c # _ \<Rightarrow> Some c, r)
      else if length matching = 1 then Returned (Some (hd matching), r)
      else select_by_policy mean p matching r)"

definition select :: "(nat list \<Rightarrow> rat) \<Rightarrow> str \<Rightarrow> router \<Rightarrow> (candidate option \<times> router) outcome" where
  "select mean model r = select_with_policy mean (r_policy r) model r"

subsection \<open>A request\<close>

text \<open>What the providers do: their reply to a call, and its duration.\<close>

record 'r chat_world =
  cw_reply :: "str \<Rightarrow> str \<Rightarrow> failover_error + 'r"
  cw_tokens :: "'r \<Rightarrow> int"
  cw_latency :: nat

definition no_provider :: "str \<Rightarrow> failover_error" where
  "no_provider resolved = UnknownError ''router'' (''no provider available for model: '' @ resolved)"

fun try_alternatives :: "'r chat_world \<Rightarrow> str set \<Rightarrow> candidate list \<Rightarrow> failover_error \<Rightarrow> failover_error + 'r" where
  "try_alternatives w providers [] e = Inl e"
| "try_alternatives w providers (alt # alts) e =
     (if cd_provider alt \<in> providers
      then (case cw_reply w (cd_provider alt) (cd_model alt) of
              Inr resp \<Rightarrow> Inr resp
            | Inl _ \<Rightarrow> try_alternatives w providers alts e)
      else try_alternatives w providers alts e)"

definition router_chat :: "(nat list \<Rightarrow> rat) \<Rightarrow> 'r chat_world \<Rightarrow> str \<Rightarrow> router \<Rightarrow> ((failover_error + 'r) \<times> router) outcome" where
  "router_chat mean w model r =
     (let resolved = resolve_alias r model in
      case select mean resolved r of
        ComparePanic \<Rightarrow> ComparePanic
      | Returned (None, r1) \<Rightarrow> Returned (Inl (no_provider resolved), r1)
      | Returned (Some c, r1) \<Rightarrow>
          if cd_provider c \<notin> r_providers r1 then Returned (Inl (no_provider resolved), r1)
          else (case cw_reply w (cd_provider c) (cd_model c) of
                  Inr resp \<Rightarrow>
                    Returned (Inr resp, record_metric \<lparr>m_provider = cd_provider c, m_latency_ms = cw_latency w,
                      m_success = True, m_tokens = cw_tokens w resp\<rparr> r1)
                | Inl e \<Rightarrow>
                    let r2 = record_metric \<lparr>m_provider = cd_provider c, m_latency_ms = cw_latency w,
                               m_success = False, m_tokens = 0\<rparr> r1
                    in if is_retriable e
                       then Returned (try_alternatives w (r_providers r2)
                              (filter (\<lambda>a. cd_model a = resolved \<and> cd_provider a \<noteq> cd_provider c) (r_candidates r2)) e, r2)
                       else Returned (Inl e, r2)))"

subsection \<open>What a selection returns\<close>

lemma fold_min:
  fixes key :: "'a \<Rightarrow> 'k::linorder"
  shows "foldl (\<lambda>best y. if key y < key best then y else best) x xs \<in> insert x (set xs) \<and>
         (\<forall>y \<in> insert x (set xs). key (foldl (\<lambda>best y. if key y < key best then y else best) x xs) \<le> key y)"
proof (induction xs arbitrary: x)
  case (Cons y ys)
  show ?case using Cons.IH [of x] Cons.IH [of y] by (auto intro: order_trans)
qed simp

lemma fold_max:
  fixes key :: "'a \<Rightarrow> 'k::linorder"
  shows "foldl (\<lambda>best y. if key y < key best then best else y) x xs \<in> insert x (set xs) \<and>
         (\<forall>y \<in> insert x (set xs). key y \<le> key (foldl (\<lambda>best y. if key y < key best then best else y) x xs))"
proof (induction xs arbitrary: x)
  case (Cons y ys)
  show ?case using Cons.IH [of x] Cons.IH [of y] by (auto intro: order_trans)
qed simp

lemma first_min_spec: "xs \<noteq> [] \<Longrightarrow> \<exists>x. first_min key xs = Some x \<and> x \<in> set xs \<and> (\<forall>y \<in> set xs. key x \<le> key y)"
  using fold_min by (cases xs) force+

lemma last_max_spec: "xs \<noteq> [] \<Longrightarrow> \<exists>x. last_max key xs = Some x \<and> x \<in> set xs \<and> (\<forall>y \<in> set xs. key y \<le> key x)"
  using fold_max by (cases xs) force+

lemma pick_round_robin_eq:
  "ms \<noteq> [] \<Longrightarrow> pick_round_robin ms r =
     (Some (ms ! (unat (counter_of r (cd_provider (hd ms))) mod length ms)),
      r\<lparr>r_counters := (r_counters r)(cd_provider (hd ms) \<mapsto> counter_of r (cd_provider (hd ms)) + 1)\<rparr>)"
  by (cases ms) (simp_all add: pick_round_robin_def Let_def)

text \<open>The best of the matching candidates under a policy.\<close>

definition policy_best :: "(nat list \<Rightarrow> rat) \<Rightarrow> router \<Rightarrow> routing_policy \<Rightarrow> candidate list \<Rightarrow> candidate \<Rightarrow> bool" where
  "policy_best mean r p ms c =
     (case p of
        PolicyCost \<Rightarrow> \<forall>d \<in> set ms. the (cost_per_1k c) \<le> the (cost_per_1k d)
      | PolicyQuality \<Rightarrow> \<forall>d \<in> set ms. the (quality_score d) \<le> the (quality_score c)
      | PolicyLatency \<Rightarrow> \<forall>d \<in> set ms. avg_latency mean r (cd_provider c) \<le> avg_latency mean r (cd_provider d)
      | PolicyRoundRobin \<Rightarrow> True
      | _ \<Rightarrow> \<forall>d \<in> set ms. cd_priority d \<le> cd_priority c)"

definition compare_fails :: "routing_policy \<Rightarrow> candidate list \<Rightarrow> bool" where
  "compare_fails p ms \<longleftrightarrow>
     p = PolicyCost \<and> list_ex (\<lambda>c. cost_per_1k c = None) ms \<or> p = PolicyQuality \<and> list_ex (\<lambda>c. quality_score c = None) ms"

lemma select_by_policy_spec:
  assumes "length ms \<ge> 2"
  shows "case select_by_policy mean p ms r of
           ComparePanic \<Rightarrow> compare_fails p ms
         | Returned (x, r') \<Rightarrow> \<not> compare_fails p ms \<and> r_candidates r' = r_candidates r \<and> (\<exists>c. x = Some c \<and> c \<in> set ms \<and> policy_best mean r p ms c)"
proof -
  have ne: "ms \<noteq> []" using assms by auto
  have nth: "ms ! (k mod length ms) \<in> set ms" for k using ne by simp
  have all: "list_all P ms \<longleftrightarrow> \<not> list_ex (\<lambda>c. \<not> P c) ms" for P by (auto simp: list_all_iff list_ex_iff)
  show ?thesis
  proof (cases p)
    case PolicyCost
    then show ?thesis using first_min_spec [OF ne, of "\<lambda>c. the (cost_per_1k c)"] assms
      by (auto simp: select_by_policy_def comparable_def compare_fails_def policy_best_def all)
  next
    case PolicyQuality
    then show ?thesis using last_max_spec [OF ne, of "\<lambda>c. the (quality_score c)"] assms
      by (auto simp: select_by_policy_def comparable_def compare_fails_def policy_best_def all)
  next
    case PolicyLatency
    then show ?thesis using first_min_spec [OF ne, of "\<lambda>c. avg_latency mean r (cd_provider c)"]
      by (auto simp: select_by_policy_def compare_fails_def policy_best_def)
  next
    case PolicyRoundRobin
    then show ?thesis using nth ne
      by (simp add: select_by_policy_def compare_fails_def policy_best_def pick_round_robin_eq)
  qed (use last_max_spec [OF ne, of cd_priority] in \<open>auto simp: select_by_policy_def compare_fails_def policy_best_def\<close>)
qed

text \<open>
  A selection returns a candidate whenever there is one.  If candidates serve the model (under its full or its bare name,
  after the alias), it returns one of them, and among several the best under the policy; if none does, the first
  candidate of all.  It fails only by comparing a cost or a quality that is not a number.
\<close>
theorem select_with_policy_spec:
  "case select_with_policy mean p model r of
     ComparePanic \<Rightarrow> compare_fails p (matching_candidates r model)
   | Returned (None, r') \<Rightarrow> r_candidates r = [] \<and> r' = r
   | Returned (Some c, r') \<Rightarrow>
       r_candidates r' = r_candidates r \<and> c \<in> set (r_candidates r) \<and>
       (if matching_candidates r model = [] then c = hd (r_candidates r)
        else model_matches (cd_model c) (resolve_alias r model) \<and> policy_best mean r p (matching_candidates r model) c)"
proof -
  let ?ms = "matching_candidates r model"
  have sub: "c \<in> set ?ms \<longleftrightarrow> c \<in> set (r_candidates r) \<and> model_matches (cd_model c) (resolve_alias r model)" for c
    by (auto simp: matching_candidates_def)
  consider "?ms = []" | c where "?ms = [c]" | "length ?ms \<ge> 2" by (cases ?ms; cases "tl ?ms") auto
  then show ?thesis
  proof cases
    case 1
    then show ?thesis by (auto simp: select_with_policy_def split: list.splits)
  next
    case (2 c)
    then have "policy_best mean r p ?ms c" "c \<in> set ?ms" by (auto simp: policy_best_def split: routing_policy.splits)
    then have "policy_best mean r p [c] c \<and> c \<in> set (r_candidates r) \<and> model_matches (cd_model c) (resolve_alias r model)"
      using sub [of c] 2 by simp
    then show ?thesis using 2 by (simp add: select_with_policy_def)
  next
    case 3
    then have ne: "?ms \<noteq> []" "length ?ms \<noteq> 1" by auto
    then have "select_with_policy mean p model r = select_by_policy mean p ?ms r" by (simp add: select_with_policy_def)
    then show ?thesis using select_by_policy_spec [OF 3, where mean = mean and p = p and r = r] sub ne
      by (auto split: outcome.splits prod.splits option.splits)
  qed
qed

subsection \<open>Round robin\<close>

text \<open>The candidates that consecutive selections return.\<close>

fun picks :: "(nat list \<Rightarrow> rat) \<Rightarrow> nat \<Rightarrow> str \<Rightarrow> router \<Rightarrow> candidate option list" where
  "picks mean 0 model r = []"
| "picks mean (Suc k) model r =
     (case select_with_policy mean PolicyRoundRobin model r of
        Returned (c, r') \<Rightarrow> c # picks mean k model r'
      | ComparePanic \<Rightarrow> [])"

lemma round_robin_picks:
  assumes "ms = matching_candidates r model" "length ms \<ge> 2" "unat (counter_of r (cd_provider (hd ms))) + k \<le> 2 ^ 64"
  shows "picks mean k model r = map (\<lambda>j. Some (ms ! ((unat (counter_of r (cd_provider (hd ms))) + j) mod length ms))) [0..<k]"
  using assms
proof (induction k arbitrary: r)
  case (Suc k)
  let ?p = "cd_provider (hd ms)" and ?c = "unat (counter_of r (cd_provider (hd ms)))"
  let ?r = "r\<lparr>r_counters := (r_counters r)(?p \<mapsto> counter_of r ?p + 1)\<rparr>"
  have ms: "ms \<noteq> []" "length ms \<noteq> 1" using Suc.prems(2) by auto
  have sel: "select_with_policy mean PolicyRoundRobin model r = Returned (Some (ms ! (?c mod length ms)), ?r)"
    using Suc.prems(1) ms by (simp add: select_with_policy_def select_by_policy_def pick_round_robin_eq Let_def)
  have "matching_candidates ?r model = ms" using Suc.prems(1) by (simp add: matching_candidates_def resolve_alias_def)
  moreover have cnt: "k = 0 \<or> unat (counter_of ?r ?p) = Suc ?c"
    using Suc.prems(3) by (auto simp: counter_of_def unat_plus_if_size word_size)
  ultimately have "picks mean k model ?r = map (\<lambda>j. Some (ms ! ((Suc ?c + j) mod length ms))) [0..<k]"
    using Suc.IH [of ?r] Suc.prems(2,3) by (cases "k = 0") auto
  moreover have "map f [0..<Suc k] = f 0 # map (\<lambda>j. f (Suc j)) [0..<k]" for f :: "nat \<Rightarrow> candidate option"
    by (simp add: map_upt_Suc del: upt_Suc)
  ultimately show ?case using sel by (simp del: upt_Suc)
qed simp

lemma mset_rotate_eq: "mset (rotate n xs) = mset xs"
proof -
  have "mset (rotate1 ys) = mset ys" for ys :: "'a list" by (cases ys) simp_all
  then show ?thesis by (induction n) simp_all
qed

lemma rotation: "xs \<noteq> [] \<Longrightarrow> map (\<lambda>j. xs ! ((a + j) mod length xs)) [0..<length xs] = rotate a xs"
  by (rule nth_equalityI) (simp_all add: nth_rotate)

text \<open>
  Under the round-robin policy, as many consecutive selections as there are candidates for a model return each of them
  once, wherever the counter stands, as long as it does not wrap around in between.
\<close>
theorem round_robin_fair:
  assumes "ms = matching_candidates r model" "length ms \<ge> 2" "unat (counter_of r (cd_provider (hd ms))) + length ms \<le> 2 ^ 64"
  shows "mset (picks mean (length ms) model r) = image_mset Some (mset ms)"
proof -
  let ?a = "unat (counter_of r (cd_provider (hd ms)))"
  have ne: "ms \<noteq> []" using assms(2) by auto
  have "picks mean (length ms) model r = map Some (map (\<lambda>j. ms ! ((?a + j) mod length ms)) [0..<length ms])"
    using round_robin_picks [OF assms] by simp
  also have "\<dots> = map Some (rotate ?a ms)" by (simp only: rotation [OF ne])
  finally show ?thesis by (simp add: mset_rotate_eq)
qed

subsection \<open>Samples\<close>

lemma samples_of_record:
  "samples_of (record_metric m r) p =
     (if p = m_provider m then (if length (samples_of r p) \<ge> MAX_SAMPLES then tl (samples_of r p) else samples_of r p) @ [m]
      else samples_of r p)"
  by (simp add: record_metric_def samples_of_def Let_def)

text \<open>
  However many calls are recorded, the collector holds for each provider exactly its last thousand samples, in their order.
\<close>
theorem samples_are_the_last:
  "samples_of (foldl (\<lambda>r m. record_metric m r) (new_router p aliases) ms) name =
   (let own = filter (\<lambda>m. m_provider m = name) ms in drop (length own - MAX_SAMPLES) own)"
proof (induction ms rule: rev_induct)
  case Nil
  show ?case by (simp add: new_router_def samples_of_def)
next
  case (snoc m ms)
  let ?own = "filter (\<lambda>m. m_provider m = name) ms"
  have M: "MAX_SAMPLES > 0" by (simp add: MAX_SAMPLES_def)
  have "tl (drop (length ?own - MAX_SAMPLES) ?own) = drop (Suc (length ?own) - MAX_SAMPLES) ?own" if "length ?own \<ge> MAX_SAMPLES"
    using that by (simp add: drop_Suc tl_drop Suc_diff_le)
  then show ?case using snoc.IH M by (auto simp: samples_of_record Let_def Suc_diff_le)
qed

subsection \<open>Failover of a request\<close>

lemma no_alternatives: "\<forall>c \<in> set (r_candidates r). cd_model c \<noteq> resolved \<Longrightarrow>
    filter (\<lambda>a. cd_model a = resolved \<and> cd_provider a \<noteq> p) (r_candidates r) = []"
  by (auto simp: filter_empty_conv)

text \<open>
  A request by a model name with a provider prefix is answered by candidates with the bare name, but after a transient failure only
  candidates with exactly the requested name are tried: when there are only candidates with the bare name, the
  failure of the first is the result, although others serve the same model.
\<close>
theorem prefixed_request_no_failover:
  assumes "\<forall>c \<in> set (r_candidates r). cd_model c \<noteq> resolve_alias r model"
    "select mean (resolve_alias r model) r = Returned (Some c, r1)" "r_candidates r1 = r_candidates r"
    "cd_provider c \<in> r_providers r1" "cw_reply w (cd_provider c) (cd_model c) = Inl e"
  shows "\<exists>r2. router_chat mean w model r = Returned (Inl e, r2)"
proof -
  have "r_candidates (record_metric m r1) = r_candidates r" for m using assms(3) by (simp add: record_metric_def Let_def)
  then have "filter (\<lambda>a. cd_model a = resolve_alias r model \<and> cd_provider a \<noteq> p) (r_candidates (record_metric m r1)) = []" for m p
    using assms(1) no_alternatives by simp
  then show ?thesis using assms(2,4,5) by (simp add: router_chat_def Let_def)
qed

text \<open>
  After a transient failure every other provider with a candidate for exactly the requested model is tried, and the
  first of them that answers is the result; the first error is reported when none does.
\<close>
lemma try_alternatives_spec:
  "try_alternatives w providers alts e =
     (case find (\<lambda>a. cd_provider a \<in> providers \<and> (\<exists>x. cw_reply w (cd_provider a) (cd_model a) = Inr x)) alts of
        Some a \<Rightarrow> cw_reply w (cd_provider a) (cd_model a)
      | None \<Rightarrow> Inl e)"
  by (induction alts) (auto split: sum.splits)

subsection \<open>An example\<close>

definition bare_candidate :: "str \<Rightarrow> candidate" where
  "bare_candidate p =
     \<lparr>cd_provider = p, cd_model = ''deepseek-chat'', cost_per_1k = Some 1, quality_score = Some 1, cd_priority = 0\<rparr>"

definition example_router :: router where
  "example_router =
     \<lparr>r_providers = {''a'', ''b''}, r_candidates = [bare_candidate ''a'', bare_candidate ''b''], r_policy = PolicyCost,
      r_aliases = Map.empty, r_counters = Map.empty, r_samples = Map.empty\<rparr>"

lemma example_matching: "matching_candidates example_router ''deepseek/deepseek-chat'' = [bare_candidate ''a'', bare_candidate ''b'']"
  by (simp add: matching_candidates_def example_router_def model_matches_def resolve_alias_def bare_candidate_def)

theorem round_robin_fair_witness:
  "mset (picks (\<lambda>_. 0) 2 ''deepseek/deepseek-chat'' example_router) =
   image_mset Some (mset [bare_candidate ''a'', bare_candidate ''b''])"
proof -
  have "unat (counter_of example_router ''a'') = 0" by (simp add: counter_of_def example_router_def)
  moreover have "cd_provider (hd [bare_candidate ''a'', bare_candidate ''b'']) = ''a''" by (simp add: bare_candidate_def)
  moreover have "length [bare_candidate ''a'', bare_candidate ''b''] = 2" by simp
  ultimately show ?thesis
    using round_robin_fair [OF example_matching [symmetric], of "\<lambda>_. 0"] by (simp only:) simp
qed

definition failing_world :: "str chat_world" where
  "failing_world =
     \<lparr>cw_reply = (\<lambda>p m. if p = ''a'' then Inl (TimeoutError p m) else Inr ''hello''), cw_tokens = (\<lambda>_. 1), cw_latency = 5\<rparr>"

theorem prefixed_request_no_failover_witness:
  "is_retriable (TimeoutError ''a'' ''deepseek-chat'') \<and>
   (\<exists>r2. router_chat (\<lambda>_. 0) failing_world ''deepseek/deepseek-chat'' example_router =
         Returned (Inl (TimeoutError ''a'' ''deepseek-chat''), r2))"
proof
  have "select (\<lambda>_. 0) (resolve_alias example_router ''deepseek/deepseek-chat'') example_router =
      Returned (Some (bare_candidate ''a''), example_router)"
    using example_matching
    by (simp add: select_def select_with_policy_def select_by_policy_def comparable_def resolve_alias_def example_router_def bare_candidate_def)
  then show "\<exists>r2. router_chat (\<lambda>_. 0) failing_world ''deepseek/deepseek-chat'' example_router =
      Returned (Inl (TimeoutError ''a'' ''deepseek-chat''), r2)"
    by (intro prefixed_request_no_failover)
      (auto simp: example_router_def failing_world_def bare_candidate_def resolve_alias_def)
qed (simp add: is_retriable_def)

end
