(* ===== verification/Routing.thy ===== *)
theory Routing
  imports Prelude
begin

text \<open>
  The routing of inbound messages to agents and sessions (nemesis-routing: agent_id.rs, session_key.rs, route.rs).
  Identity links are a hash map in the sources; they are the list of its entries in the order of iteration.
\<close>

subsection \<open>Identifiers\<close>

definition DEFAULT_AGENT_ID :: str where "DEFAULT_AGENT_ID = ''main''"
definition DEFAULT_ACCOUNT_ID :: str where "DEFAULT_ACCOUNT_ID = ''default''"
definition MAX_AGENT_ID_LENGTH :: nat where "MAX_AGENT_ID_LENGTH = 64"

definition id_char :: "char \<Rightarrow> bool" where
  "id_char c \<longleftrightarrow> is_ascii_alphanumeric c \<or> c = CHR ''_'' \<or> c = CHR ''-''"

definition is_valid_id :: "str \<Rightarrow> bool" where
  "is_valid_id s \<longleftrightarrow>
     s \<noteq> [] \<and> length s \<le> MAX_AGENT_ID_LENGTH \<and> is_ascii_alphanumeric (hd s) \<and> list_all id_char s"

definition trim_dashes :: "str \<Rightarrow> str" where
  "trim_dashes s = rev (dropWhile (\<lambda>c. c = CHR ''-'') (rev (dropWhile (\<lambda>c. c = CHR ''-'') s)))"

definition replace_bad :: "str \<Rightarrow> str" where
  "replace_bad s = map (\<lambda>c. if id_char c then c else CHR ''-'') s"

definition normalize_agent_id :: "str \<Rightarrow> str" where
  "normalize_agent_id s =
     (let trimmed = trim s; lower = to_lowercase trimmed in
      if trimmed = [] then DEFAULT_AGENT_ID
      else if is_valid_id lower then lower
      else let cut = take MAX_AGENT_ID_LENGTH (trim_dashes (replace_bad lower));
               result = trim_dashes cut
           in if result = [] then DEFAULT_AGENT_ID else result)"

definition normalize_account_id :: "str \<Rightarrow> str" where
  "normalize_account_id s =
     (let trimmed = trim s; lower = to_lowercase trimmed in
      if trimmed = [] then DEFAULT_ACCOUNT_ID
      else if is_valid_id lower then lower
      else let result = trim_dashes (replace_bad lower)
           in if result = [] then DEFAULT_ACCOUNT_ID else result)"

subsection \<open>Session keys\<close>

datatype dm_scope = ScopeMain | PerPeer | PerChannelPeer | PerAccountChannelPeer

definition dm_scope_from_str :: "str \<Rightarrow> dm_scope" where
  "dm_scope_from_str s =
     (let t = to_lowercase (trim s) in
      if t = ''per-peer'' then PerPeer
      else if t = ''per-channel-peer'' then PerChannelPeer
      else if t = ''per-account-channel-peer'' then PerAccountChannelPeer
      else ScopeMain)"

record route_peer =
  rp_kind :: str
  rp_id :: str

type_synonym identity_links = "(str \<times> str list) list"

record session_key_params =
  sk_agent :: str
  sk_channel :: str
  sk_account :: str
  sk_peer :: "route_peer option"
  sk_scope :: dm_scope
  sk_links :: identity_links

definition build_agent_main_session_key :: "str \<Rightarrow> str" where
  "build_agent_main_session_key agent = to_lowercase (''agent:'' @ normalize_agent_id agent @ '':main'')"

definition normalize_channel :: "str \<Rightarrow> str" where
  "normalize_channel channel = (let c = to_lowercase (trim channel) in if c = [] then ''unknown'' else c)"

definition build_agent_session_key :: "str \<Rightarrow> str \<Rightarrow> str \<Rightarrow> str \<Rightarrow> str" where
  "build_agent_session_key agent channel peer_kind peer_id =
     to_lowercase (''agent:'' @ normalize_agent_id agent @ '':'' @ normalize_channel channel @ '':'' @
       (if trim peer_kind = [] then ''direct'' else trim peer_kind) @ '':'' @
       (if trim peer_id = [] then ''unknown'' else trim peer_id))"

definition link_hit :: "str list \<Rightarrow> str \<times> str list \<Rightarrow> bool" where
  "link_hit candidates entry \<longleftrightarrow>
     trim (fst entry) \<noteq> [] \<and>
     list_ex (\<lambda>i. to_lowercase (trim i) \<noteq> [] \<and> to_lowercase (trim i) \<in> set candidates) (snd entry)"

definition resolve_linked_peer_id :: "identity_links \<Rightarrow> str \<Rightarrow> str \<Rightarrow> str option" where
  "resolve_linked_peer_id links channel peer_id =
     (if links = [] then None
      else if trim peer_id = [] then None
      else let lower_peer = to_lowercase (trim peer_id);
               channel_lower = to_lowercase (trim channel);
               candidates = lower_peer # (if channel_lower \<noteq> [] then [channel_lower @ '':'' @ lower_peer] else [])
           in map_option (\<lambda>e. trim (fst e)) (find (link_hit candidates) links))"

definition direct_peer_id :: "session_key_params \<Rightarrow> route_peer \<Rightarrow> str" where
  "direct_peer_id p peer =
     (let peer_id = trim (rp_id peer) in
      to_lowercase
        (if sk_scope p \<noteq> ScopeMain \<and> peer_id \<noteq> []
         then (case resolve_linked_peer_id (sk_links p) (sk_channel p) peer_id of Some linked \<Rightarrow> linked | None \<Rightarrow> peer_id)
         else peer_id))"

definition build_agent_peer_session_key :: "session_key_params \<Rightarrow> str" where
  "build_agent_peer_session_key p =
     (let agent = normalize_agent_id (sk_agent p);
          peer = (case sk_peer p of Some x \<Rightarrow> x | None \<Rightarrow> \<lparr>rp_kind = ''direct'', rp_id = []\<rparr>);
          kind = to_lowercase (if trim (rp_kind peer) = [] then ''direct'' else trim (rp_kind peer));
          ch = normalize_channel (sk_channel p)
      in if kind = ''direct''
         then let peer_id = direct_peer_id p peer in
              if peer_id = [] then build_agent_main_session_key (sk_agent p)
              else (case sk_scope p of
                      PerAccountChannelPeer \<Rightarrow>
                        to_lowercase (''agent:'' @ agent @ '':'' @ ch @ '':'' @ normalize_account_id (sk_account p) @ '':direct:'' @ peer_id)
                    | PerChannelPeer \<Rightarrow> to_lowercase (''agent:'' @ agent @ '':'' @ ch @ '':direct:'' @ peer_id)
                    | PerPeer \<Rightarrow> to_lowercase (''agent:'' @ agent @ '':direct:'' @ peer_id)
                    | ScopeMain \<Rightarrow> build_agent_main_session_key (sk_agent p))
         else let pid = to_lowercase (trim (rp_id peer))
              in to_lowercase (''agent:'' @ agent @ '':'' @ ch @ '':'' @ kind @ '':'' @ (if pid = [] then ''unknown'' else pid)))"

definition parse_agent_session_key :: "str \<Rightarrow> (str \<times> str) option" where
  "parse_agent_session_key session_key =
     (let raw = trim session_key in
      if raw = [] then None
      else (case split_once (CHR '':'') raw of
              None \<Rightarrow> None
            | Some (tag, tail) \<Rightarrow>
                (case split_once (CHR '':'') tail of
                   None \<Rightarrow> None
                 | Some (agent, rest) \<Rightarrow>
                     if tag \<noteq> ''agent'' then None else if agent = [] \<or> rest = [] then None else Some (agent, rest))))"

definition is_subagent_session_key :: "str \<Rightarrow> bool" where
  "is_subagent_session_key session_key =
     (if prefix ''subagent:'' (to_lowercase (trim session_key)) then True
      else (case parse_agent_session_key session_key of
              Some (_, rest) \<Rightarrow> prefix ''subagent:'' (to_lowercase rest)
            | None \<Rightarrow> False))"

subsection \<open>Routes\<close>

record route_input =
  ri_channel :: str
  ri_account :: str
  ri_peer_kind :: "str option"
  ri_peer_id :: "str option"
  ri_parent_kind :: "str option"
  ri_parent_id :: "str option"
  ri_guild :: "str option"
  ri_team :: "str option"
  ri_links :: identity_links

record agent_binding =
  ab_agent :: str
  ab_channel :: str
  ab_account :: str
  ab_peer_kind :: "str option"
  ab_peer_id :: "str option"
  ab_guild :: "str option"
  ab_team :: "str option"

record agent_def =
  ad_id :: str
  ad_default :: bool

record route_config =
  rc_bindings :: "agent_binding list"
  rc_agents :: "agent_def list"
  rc_scope :: str

record resolved_route =
  rr_agent :: str
  rr_channel :: str
  rr_account :: str
  rr_session_key :: str
  rr_main_session_key :: str
  rr_matched_by :: str

definition matches_account_id :: "str \<Rightarrow> str \<Rightarrow> bool" where
  "matches_account_id match_account actual =
     (let trimmed = trim match_account in
      if trimmed = [] then actual = DEFAULT_ACCOUNT_ID
      else if trimmed = ''*'' then True
      else to_lowercase trimmed = to_lowercase actual)"

definition filter_bindings :: "route_config \<Rightarrow> str \<Rightarrow> str \<Rightarrow> agent_binding list" where
  "filter_bindings cfg channel account =
     filter (\<lambda>b. to_lowercase (trim (ab_channel b)) = channel \<and> matches_account_id (ab_account b) account) (rc_bindings cfg)"

definition peer_binding :: "str \<Rightarrow> str \<Rightarrow> agent_binding \<Rightarrow> bool" where
  "peer_binding kind pid b =
     (case (ab_peer_kind b, ab_peer_id b) of
        (Some k, Some i) \<Rightarrow>
          to_lowercase (trim k) \<noteq> [] \<and> trim i \<noteq> [] \<and> to_lowercase (trim k) = to_lowercase kind \<and> trim i = pid
      | _ \<Rightarrow> False)"

definition field_binding :: "(agent_binding \<Rightarrow> str option) \<Rightarrow> str \<Rightarrow> agent_binding \<Rightarrow> bool" where
  "field_binding f v b = (case f b of Some g \<Rightarrow> trim g \<noteq> [] \<and> trim g = v | None \<Rightarrow> False)"

definition unconstrained :: "agent_binding \<Rightarrow> bool" where
  "unconstrained b \<longleftrightarrow> ab_peer_kind b = None \<and> ab_peer_id b = None \<and> ab_guild b = None \<and> ab_team b = None"

definition account_binding :: "agent_binding \<Rightarrow> bool" where
  "account_binding b \<longleftrightarrow> trim (ab_account b) \<noteq> ''*'' \<and> unconstrained b"

definition wildcard_binding :: "agent_binding \<Rightarrow> bool" where
  "wildcard_binding b \<longleftrightarrow> trim (ab_account b) = ''*'' \<and> unconstrained b"

definition resolve_default_agent :: "route_config \<Rightarrow> str" where
  "resolve_default_agent cfg =
     (case find (\<lambda>a. ad_default a \<and> trim (ad_id a) \<noteq> []) (rc_agents cfg) of
        Some a \<Rightarrow> normalize_agent_id (trim (ad_id a))
      | None \<Rightarrow>
          (case rc_agents cfg of
             a # _ \<Rightarrow> if trim (ad_id a) \<noteq> [] then normalize_agent_id (trim (ad_id a)) else DEFAULT_AGENT_ID
           | [] \<Rightarrow> DEFAULT_AGENT_ID))"

definition pick_agent :: "route_config \<Rightarrow> str \<Rightarrow> str" where
  "pick_agent cfg agent =
     (let normalized = normalize_agent_id agent in
      if rc_agents cfg = [] then normalized
      else if list_ex (\<lambda>a. normalize_agent_id (ad_id a) = normalized) (rc_agents cfg) then normalized
      else resolve_default_agent cfg)"

definition given_or :: "str \<Rightarrow> str option \<Rightarrow> str" where
  "given_or d x = (case x of Some s \<Rightarrow> if trim s \<noteq> [] then trim s else d | None \<Rightarrow> d)"

definition build_route :: "route_config \<Rightarrow> str \<Rightarrow> str \<Rightarrow> str \<Rightarrow> route_input \<Rightarrow> str \<Rightarrow> resolved_route" where
  "build_route cfg agent channel account input matched_by =
     (let resolved = pick_agent cfg agent;
          params = \<lparr>sk_agent = resolved, sk_channel = channel, sk_account = account,
                    sk_peer = Some \<lparr>rp_kind = given_or ''direct'' (ri_peer_kind input), rp_id = given_or ''unknown'' (ri_peer_id input)\<rparr>,
                    sk_scope = dm_scope_from_str (rc_scope cfg), sk_links = ri_links input\<rparr>
      in \<lparr>rr_agent = resolved, rr_channel = channel, rr_account = account,
          rr_session_key = build_agent_peer_session_key params,
          rr_main_session_key = build_agent_main_session_key resolved, rr_matched_by = matched_by\<rparr>)"

text \<open>A field of the message as a key for bindings: both parts present and not blank, or a single field.\<close>

definition peer_key :: "str option \<Rightarrow> str option \<Rightarrow> (str \<times> str) option" where
  "peer_key kind pid =
     (case (kind, pid) of
        (Some k, Some i) \<Rightarrow> if trim k \<noteq> [] \<and> trim i \<noteq> [] then Some (trim k, trim i) else None
      | _ \<Rightarrow> None)"

definition find_peer_match :: "agent_binding list \<Rightarrow> str option \<Rightarrow> str option \<Rightarrow> agent_binding option" where
  "find_peer_match bindings kind pid =
     (case peer_key kind pid of Some (k, i) \<Rightarrow> find (peer_binding k i) bindings | None \<Rightarrow> None)"

definition find_field_match :: "(agent_binding \<Rightarrow> str option) \<Rightarrow> agent_binding list \<Rightarrow> str option \<Rightarrow> agent_binding option" where
  "find_field_match f bindings v =
     (case v of Some s \<Rightarrow> if trim s \<noteq> [] then find (field_binding f (trim s)) bindings else None | None \<Rightarrow> None)"

definition resolve_route :: "route_config \<Rightarrow> route_input \<Rightarrow> resolved_route" where
  "resolve_route cfg input =
     (let channel = to_lowercase (trim (ri_channel input));
          account = normalize_account_id (ri_account input);
          bindings = filter_bindings cfg channel account;
          route = (\<lambda>agent tag. build_route cfg agent channel account input tag)
      in case find_peer_match bindings (ri_peer_kind input) (ri_peer_id input) of
           Some b \<Rightarrow> route (ab_agent b) ''binding.peer''
         | None \<Rightarrow>
         (case find_peer_match bindings (ri_parent_kind input) (ri_parent_id input) of
            Some b \<Rightarrow> route (ab_agent b) ''binding.peer.parent''
          | None \<Rightarrow>
          (case find_field_match ab_guild bindings (ri_guild input) of
             Some b \<Rightarrow> route (ab_agent b) ''binding.guild''
           | None \<Rightarrow>
           (case find_field_match ab_team bindings (ri_team input) of
              Some b \<Rightarrow> route (ab_agent b) ''binding.team''
            | None \<Rightarrow>
            (case find account_binding bindings of
               Some b \<Rightarrow> route (ab_agent b) ''binding.account''
             | None \<Rightarrow>
             (case find wildcard_binding bindings of
                Some b \<Rightarrow> route (ab_agent b) ''binding.channel''
              | None \<Rightarrow> route (resolve_default_agent cfg) ''default''))))))"

subsection \<open>Normalised identifiers\<close>

lemma id_char_not_ws: "id_char c \<Longrightarrow> \<not> is_whitespace c"
  by (auto simp: id_char_def is_ascii_alphanumeric_def is_ascii_alphabetic_def is_ascii_digit_def is_whitespace_def)

lemma set_trim_dashes: "set (trim_dashes s) \<subseteq> set s"
  by (auto simp: trim_dashes_def dest!: set_dropWhileD)

lemma length_trim_dashes: "length (trim_dashes s) \<le> length s"
  using length_dropWhile_le [of "\<lambda>c. c = CHR ''-''" "rev (dropWhile (\<lambda>c. c = CHR ''-'') s)"]
    length_dropWhile_le [of "\<lambda>c. c = CHR ''-''" s] by (simp add: trim_dashes_def)

lemma hd_trim_dashes: "trim_dashes s \<noteq> [] \<Longrightarrow> hd (trim_dashes s) \<noteq> CHR ''-''"
proof -
  let ?P = "\<lambda>c. c = CHR ''-''" and ?u = "dropWhile (\<lambda>c. c = CHR ''-'') s"
  assume ne: "trim_dashes s \<noteq> []"
  obtain pre where "rev ?u = pre @ dropWhile ?P (rev ?u)" by (metis takeWhile_dropWhile_id)
  then have u: "?u = trim_dashes s @ rev pre" by (metis trim_dashes_def rev_append rev_rev_ident)
  then have "?u \<noteq> []" "hd ?u = hd (trim_dashes s)" using ne by auto
  then show ?thesis using hd_dropWhile [of ?P s] by auto
qed

lemma trim_dashes_id: "s = [] \<or> hd s \<noteq> CHR ''-'' \<and> last s \<noteq> CHR ''-'' \<Longrightarrow> trim_dashes s = s"
  unfolding trim_dashes_def by (rule dropWhile_both)

lemma last_trim_dashes: "trim_dashes s \<noteq> [] \<Longrightarrow> last (trim_dashes s) \<noteq> CHR ''-''"
  using hd_dropWhile [of "\<lambda>c. c = CHR ''-''" "rev (dropWhile (\<lambda>c. c = CHR ''-'') s)"]
  by (auto simp: trim_dashes_def last_rev)

lemma trim_dashes_idem: "trim_dashes (trim_dashes s) = trim_dashes s"
  using hd_trim_dashes last_trim_dashes by (intro trim_dashes_id) blast

definition lowered :: "str \<Rightarrow> bool" where
  "lowered s \<longleftrightarrow> (\<forall>c \<in> set s. to_lower_char c = c)"

lemma lowered_iff: "lowered s \<longleftrightarrow> to_lowercase s = s"
  by (induction s) (auto simp: lowered_def to_lowercase_def)

lemma lowered_subset: "lowered s \<Longrightarrow> set t \<subseteq> set s \<Longrightarrow> lowered t"
  by (auto simp: lowered_def)

lemma replace_bad_ok: "list_all id_char (replace_bad s) \<and> (lowered s \<longrightarrow> lowered (replace_bad s))"
  by (auto simp: replace_bad_def list_all_iff id_char_def lowered_def to_lower_char_def)

lemma replace_bad_id: "list_all id_char s \<Longrightarrow> replace_bad s = s"
  by (simp add: replace_bad_def list_all_iff map_idI)

text \<open>The shape of a normalised agent identifier.\<close>

definition agent_id_ok :: "str \<Rightarrow> bool" where
  "agent_id_ok s \<longleftrightarrow>
     s \<noteq> [] \<and> length s \<le> MAX_AGENT_ID_LENGTH \<and> list_all id_char s \<and> to_lowercase s = s \<and> hd s \<noteq> CHR ''-'' \<and>
     (is_valid_id s \<or> trim_dashes s = s)"

lemma agent_id_ok_default: "agent_id_ok DEFAULT_AGENT_ID"
  by code_simp

lemma normalized_agent_ok: "agent_id_ok (normalize_agent_id s)"
proof -
  let ?lower = "to_lowercase (trim s)"
  let ?cut = "take MAX_AGENT_ID_LENGTH (trim_dashes (replace_bad ?lower))"
  have low: "lowered ?lower" by (simp add: lowered_iff)
  have sub: "set (trim_dashes ?cut) \<subseteq> set (replace_bad ?lower)"
    using set_trim_dashes [of ?cut] set_trim_dashes [of "replace_bad ?lower"] set_take_subset by fastforce
  have "lowered (trim_dashes ?cut)" using lowered_subset [OF _ sub] replace_bad_ok low by blast
  moreover have "list_all id_char (trim_dashes ?cut)" using sub replace_bad_ok [of ?lower] by (auto simp: list_all_iff)
  moreover have "length (trim_dashes ?cut) \<le> MAX_AGENT_ID_LENGTH" using length_trim_dashes [of ?cut] by simp
  ultimately have cut: "agent_id_ok (trim_dashes ?cut)" if "trim_dashes ?cut \<noteq> []"
    using that hd_trim_dashes [OF that] trim_dashes_idem by (simp add: agent_id_ok_def lowered_iff)
  have "hd ?lower \<noteq> CHR ''-''" if "is_valid_id ?lower"
    using that by (auto simp: is_valid_id_def is_ascii_alphanumeric_def is_ascii_alphabetic_def is_ascii_digit_def)
  then have "agent_id_ok ?lower" if "is_valid_id ?lower" using that by (simp add: agent_id_ok_def is_valid_id_def)
  then show ?thesis using cut agent_id_ok_default by (simp add: normalize_agent_id_def Let_def)
qed

lemma normalize_agent_fixed:
  assumes "agent_id_ok s" shows "normalize_agent_id s = s"
proof -
  have t: "trim s = s" using assms id_char_not_ws by (intro trim_no_ws) (auto simp: agent_id_ok_def list_all_iff)
  have "trim_dashes (take MAX_AGENT_ID_LENGTH (trim_dashes (replace_bad s))) = s" if "\<not> is_valid_id s"
    using assms that replace_bad_id [of s] by (auto simp: agent_id_ok_def)
  then show ?thesis using assms t by (auto simp: normalize_agent_id_def agent_id_ok_def Let_def)
qed

text \<open>
  Every text is turned into an agent identifier of one to 64 lower-case letters, digits, underscores and dashes that does not begin
  with a dash, and a normalised identifier is normalised to itself, so that identifiers can be compared after normalisation.
\<close>
theorem normalize_agent_id_canonical:
  "agent_id_ok (normalize_agent_id s) \<and> normalize_agent_id (normalize_agent_id s) = normalize_agent_id s"
  using normalized_agent_ok normalize_agent_fixed by blast

text \<open>The documented form begins with a letter or a digit; a leading underscore is kept when the text is not of that form.\<close>
theorem leading_underscore_kept:
  "normalize_agent_id ''_bot'' = ''_bot'' \<and> \<not> is_valid_id ''_bot''"
  by code_simp

subsection \<open>Keys are parsed back\<close>

lemma last_trim: "trim s \<noteq> [] \<Longrightarrow> \<not> is_whitespace (last (trim s))"
  using hd_dropWhile [of is_whitespace "rev (dropWhile is_whitespace s)"]
  by (auto simp: trim_def trim_start_def trim_end_def last_rev)

lemma last_lower_trim: "trim s \<noteq> [] \<Longrightarrow> \<not> is_whitespace (last (to_lowercase (trim s)))"
  using last_trim [of s] by (simp add: to_lowercase_def last_map)

lemma split_once_append: "c \<notin> set a \<Longrightarrow> split_once c (a @ c # b) = Some (a, b)"
  by (induction a) (auto simp: split_once_def)

lemma to_lowercase_eq_Nil [simp]: "to_lowercase s = [] \<longleftrightarrow> s = []"
  by (simp add: to_lowercase_def)

lemma lower_normalize_agent [simp]: "to_lowercase (normalize_agent_id s) = normalize_agent_id s"
  using normalized_agent_ok by (simp add: agent_id_ok_def)

lemma no_colon_agent: "CHR '':'' \<notin> set (normalize_agent_id s)"
proof
  assume "CHR '':'' \<in> set (normalize_agent_id s)"
  then have "id_char (CHR '':'')" using normalized_agent_ok [of s] by (auto simp: agent_id_ok_def list_all_iff)
  then show False by (simp add: id_char_def is_ascii_alphanumeric_def is_ascii_alphabetic_def is_ascii_digit_def)
qed

lemma lowercase_literal: "to_lowercase ''agent:'' = ''agent:''" "to_lowercase '':'' = '':''" "to_lowercase '':main'' = '':main''"
  "to_lowercase '':direct:'' = '':direct:''" "to_lowercase ''unknown'' = ''unknown''" "to_lowercase ''main'' = ''main''"
  by code_simp+

lemma lower_normalize_account [simp]: "to_lowercase (normalize_account_id s) = normalize_account_id s"
proof -
  let ?lower = "to_lowercase (trim s)"
  have "lowered (trim_dashes (replace_bad ?lower))"
    using lowered_subset [OF _ set_trim_dashes] replace_bad_ok [of ?lower] by (simp add: lowered_iff)
  moreover have "to_lowercase DEFAULT_ACCOUNT_ID = DEFAULT_ACCOUNT_ID" by code_simp
  ultimately show ?thesis by (simp add: normalize_account_id_def Let_def lowered_iff)
qed

lemma lower_normalize_channel [simp]: "to_lowercase (normalize_channel c) = normalize_channel c"
  by (simp add: normalize_channel_def Let_def lowercase_literal)

lemma direct_peer_id_trim: "\<exists>x. direct_peer_id p peer = to_lowercase (trim x)"
proof -
  have "\<exists>x. y = trim x" if "resolve_linked_peer_id links ch i = Some y" for links ch i y
    using that by (auto simp: resolve_linked_peer_id_def Let_def split: if_splits)
  then have "\<exists>x. (case resolve_linked_peer_id (sk_links p) (sk_channel p) (trim (rp_id peer)) of
      Some linked \<Rightarrow> linked | None \<Rightarrow> trim (rp_id peer)) = trim x"
    by (cases "resolve_linked_peer_id (sk_links p) (sk_channel p) (trim (rp_id peer))") fastforce+
  then obtain x where "(case resolve_linked_peer_id (sk_links p) (sk_channel p) (trim (rp_id peer)) of
      Some linked \<Rightarrow> linked | None \<Rightarrow> trim (rp_id peer)) = trim x" ..
  then have "direct_peer_id p peer = to_lowercase (trim (if sk_scope p \<noteq> ScopeMain \<and> trim (rp_id peer) \<noteq> [] then x else rp_id peer))"
    by (simp add: direct_peer_id_def Let_def)
  then show ?thesis by blast
qed

lemma lower_direct_peer_id [simp]: "to_lowercase (direct_peer_id p peer) = direct_peer_id p peer"
  using direct_peer_id_trim [of p peer] by auto

text \<open>
  The sessions the keys stand for: the main session of an agent, one per peer, per channel and peer, per account, channel and peer, and
  one per group.
\<close>

datatype session =
    MainSession str
  | PeerSession str str
  | ChannelSession str str str
  | AccountSession str str str str
  | GroupSession str str str str

definition peer_of :: "session_key_params \<Rightarrow> route_peer" where
  "peer_of p = (case sk_peer p of Some x \<Rightarrow> x | None \<Rightarrow> \<lparr>rp_kind = ''direct'', rp_id = []\<rparr>)"

definition kind_of :: "route_peer \<Rightarrow> str" where
  "kind_of peer = to_lowercase (if trim (rp_kind peer) = [] then ''direct'' else trim (rp_kind peer))"

definition session_of :: "session_key_params \<Rightarrow> session" where
  "session_of p =
     (let agent = normalize_agent_id (sk_agent p); ch = normalize_channel (sk_channel p);
          pid = direct_peer_id p (peer_of p); gid = to_lowercase (trim (rp_id (peer_of p)))
      in if kind_of (peer_of p) \<noteq> ''direct'' then GroupSession agent ch (kind_of (peer_of p)) (if gid = [] then ''unknown'' else gid)
         else if pid = [] then MainSession agent
         else (case sk_scope p of
                 ScopeMain \<Rightarrow> MainSession agent
               | PerPeer \<Rightarrow> PeerSession agent pid
               | PerChannelPeer \<Rightarrow> ChannelSession agent ch pid
               | PerAccountChannelPeer \<Rightarrow> AccountSession agent ch (normalize_account_id (sk_account p)) pid))"

fun key_parts :: "session \<Rightarrow> str list" where
  "key_parts (MainSession a) = [''agent'', a, ''main'']"
| "key_parts (PeerSession a p) = [''agent'', a, ''direct'', p]"
| "key_parts (ChannelSession a c p) = [''agent'', a, c, ''direct'', p]"
| "key_parts (AccountSession a c acc p) = [''agent'', a, c, acc, ''direct'', p]"
| "key_parts (GroupSession a c k p) = [''agent'', a, c, k, p]"

lemma key_parts_session: "\<exists>x xs. key_parts (session_of p) = ''agent'' # normalize_agent_id (sk_agent p) # x # xs"
  unfolding session_of_def Let_def by (cases "sk_scope p") simp_all

lemma session_key_parts: "build_agent_peer_session_key p = join '':'' (key_parts (session_of p))"
proof -
  have main: "build_agent_main_session_key a = ''agent:'' @ normalize_agent_id a @ '':main''" for a
    by (simp add: build_agent_main_session_key_def lowercase_literal del: append.simps)
  have k: "to_lowercase (kind_of x) = kind_of x" for x by (simp add: kind_of_def)
  show ?thesis
    unfolding build_agent_peer_session_key_def peer_of_def [symmetric] kind_of_def [symmetric] Let_def session_of_def main
    by (simp add: lowercase_literal k del: append.simps split: dm_scope.splits)
qed

text \<open>
  The key of every session is parsed back to the agent it was built for, however odd the channel and the peer are, and it has the
  parts of the session it stands for.
\<close>
theorem session_key_roundtrip:
  "\<exists>rest. build_agent_peer_session_key p = ''agent:'' @ normalize_agent_id (sk_agent p) @ '':'' @ rest \<and>
          rest = join '':'' (drop 2 (key_parts (session_of p))) \<and>
          parse_agent_session_key (build_agent_peer_session_key p) = Some (normalize_agent_id (sk_agent p), rest)"
proof -
  let ?a = "normalize_agent_id (sk_agent p)"
  obtain x xs where parts: "key_parts (session_of p) = ''agent'' # ?a # x # xs"
    using key_parts_session by blast
  let ?rest = "join '':'' (x # xs)"
  have key: "build_agent_peer_session_key p = ''agent'' @ CHR '':'' # (?a @ CHR '':'' # ?rest)"
    by (simp add: session_key_parts parts)
  have tail: "?rest \<noteq> [] \<and> \<not> is_whitespace (last ?rest)"
  proof -
    obtain q where q: "direct_peer_id p (peer_of p) = to_lowercase (trim q)" using direct_peer_id_trim by blast
    have lit: "\<not> is_whitespace (last ''main'')" "\<not> is_whitespace (last ''unknown'')" by code_simp+
    have "last (key_parts (session_of p)) \<noteq> [] \<and> \<not> is_whitespace (last (last (key_parts (session_of p))))"
      using last_lower_trim [of q] last_lower_trim [of "rp_id (peer_of p)"] lit
      by (auto simp: session_of_def Let_def q split: dm_scope.splits)
    then have "last (x # xs) \<noteq> []" "\<not> is_whitespace (last (last (x # xs)))" using parts by auto
    moreover have "ys \<noteq> [] \<Longrightarrow> last ys \<noteq> [] \<Longrightarrow> join '':'' ys \<noteq> [] \<and> last (join '':'' ys) = last (last ys)" for ys :: "str list"
      by (induction ys rule: induct_list012) auto
    ultimately show ?thesis by (metis list.distinct(1))
  qed
  have "trim (build_agent_peer_session_key p) = build_agent_peer_session_key p"
    unfolding key using tail by (intro trim_ends) (auto simp: is_whitespace_def)
  moreover have "split_once (CHR '':'') (build_agent_peer_session_key p) = Some (''agent'', ?a @ CHR '':'' # ?rest)"
    unfolding key by (rule split_once_append) code_simp
  moreover have "split_once (CHR '':'') (?a @ CHR '':'' # ?rest) = Some (?a, ?rest)"
    using no_colon_agent by (rule split_once_append)
  moreover have "?a \<noteq> []" using normalized_agent_ok [of "sk_agent p"] by (simp add: agent_id_ok_def)
  moreover have "build_agent_peer_session_key p \<noteq> []" unfolding key by simp
  ultimately have "parse_agent_session_key (build_agent_peer_session_key p) = Some (?a, ?rest)"
    using tail by (simp add: parse_agent_session_key_def Let_def)
  then show ?thesis using key parts by simp
qed

subsection \<open>Different sessions have different keys\<close>

definition part_ok :: "str \<Rightarrow> bool" where
  "part_ok s \<longleftrightarrow> CHR '':'' \<notin> set s"

text \<open>A session whose parts have no colon; the kind of a group is never direct.\<close>

definition session_plain :: "session \<Rightarrow> bool" where
  "session_plain s \<longleftrightarrow> list_all part_ok (key_parts s) \<and> (case s of GroupSession _ _ k _ \<Rightarrow> k \<noteq> ''direct'' | _ \<Rightarrow> True)"

lemma join_inj:
  assumes "list_all part_ok xs" "list_all part_ok ys" "xs \<noteq> []" "ys \<noteq> []" "join '':'' xs = join '':'' ys"
  shows "xs = ys"
  using assms
proof (induction xs arbitrary: ys rule: induct_list012)
  case (2 x)
  obtain y ys' where ys: "ys = y # ys'" using 2 by (cases ys) auto
  have "ys' = []"
  proof (rule ccontr)
    assume "ys' \<noteq> []"
    then have "CHR '':'' \<in> set (join '':'' ys)" unfolding ys by (cases ys') auto
    then have "CHR '':'' \<in> set x" using 2(5) by (metis join.simps(2))
    then show False using 2(1) by (simp add: part_ok_def)
  qed
  then show ?case using 2 ys by simp
next
  case (3 x x' xs)
  obtain y ys' where ys: "ys = y # ys'" using 3 by (cases ys) auto
  have *: "split_once (CHR '':'') (join '':'' (x # x' # xs)) = Some (x, join '':'' (x' # xs))"
    using 3(3) split_once_append [of "CHR '':''" x] by (simp add: part_ok_def)
  show ?case
  proof (cases ys')
    case Nil
    then have "CHR '':'' \<in> set y" using 3(7) ys by (metis in_set_conv_decomp append_Cons append_Nil join.simps(2,3))
    then show ?thesis using 3(4) ys by (simp add: part_ok_def)
  next
    case (Cons y' zs)
    then have "split_once (CHR '':'') (join '':'' ys) = Some (y, join '':'' (y' # zs))"
      using 3(4) ys split_once_append [of "CHR '':''" y] by (simp add: part_ok_def)
    then have "x = y" "join '':'' (x' # xs) = join '':'' (y' # zs)" using * 3(7) by auto
    moreover have "x' # xs = y' # zs" using 3(2) [of "y' # zs"] 3(3,4) ys Cons calculation by simp
    ultimately show ?thesis using ys Cons by simp
  qed
qed simp

lemma key_parts_inj: "session_plain s \<Longrightarrow> session_plain t \<Longrightarrow> key_parts s = key_parts t \<Longrightarrow> s = t"
  by (cases s; cases t) (auto simp: session_plain_def)

text \<open>
  C26: two messages get the same key exactly when they belong to the same session, under every scope and even when the scopes differ, provided
  that channels, accounts, kinds and peers have no colon in their names.
\<close>
theorem session_keys_separate:
  assumes "session_plain (session_of p)" "session_plain (session_of q)"
  shows "build_agent_peer_session_key p = build_agent_peer_session_key q \<longleftrightarrow> session_of p = session_of q"
proof
  assume "build_agent_peer_session_key p = build_agent_peer_session_key q"
  then have "join '':'' (key_parts (session_of p)) = join '':'' (key_parts (session_of q))" by (simp add: session_key_parts)
  moreover have "key_parts s \<noteq> []" for s by (cases s) simp_all
  ultimately have "key_parts (session_of p) = key_parts (session_of q)"
    using assms by (intro join_inj) (auto simp: session_plain_def)
  then show "session_of p = session_of q" using key_parts_inj assms by blast
qed (simp add: session_key_parts)

text \<open>With a colon in the identifier of a group, its key can be that of a private conversation of another account.\<close>

definition group_params :: "str \<Rightarrow> session_key_params" where
  "group_params pid =
     \<lparr>sk_agent = ''main'', sk_channel = ''irc'', sk_account = ''team'', sk_peer = Some \<lparr>rp_kind = ''team'', rp_id = pid\<rparr>,
      sk_scope = PerAccountChannelPeer, sk_links = []\<rparr>"

definition private_params :: "str \<Rightarrow> session_key_params" where
  "private_params pid = (group_params pid)\<lparr>sk_peer := Some \<lparr>rp_kind = ''direct'', rp_id = pid\<rparr>\<rparr>"

theorem colon_joins_sessions:
  "build_agent_peer_session_key (group_params ''direct:bob'') = build_agent_peer_session_key (private_params ''bob'') \<and>
   session_of (group_params ''direct:bob'') \<noteq> session_of (private_params ''bob'')"
  by code_simp

theorem session_keys_separate_witness:
  "build_agent_peer_session_key (group_params ''bob'') \<noteq> build_agent_peer_session_key (private_params ''bob'')"
proof -
  have "session_plain (session_of (group_params ''bob''))" "session_plain (session_of (private_params ''bob''))"
    "session_of (group_params ''bob'') \<noteq> session_of (private_params ''bob'')" by code_simp+
  then show ?thesis using session_keys_separate by blast
qed

subsection \<open>The agent of a route\<close>

lemma build_route_agent: "rr_agent (build_route cfg agent ch acc input tag) = pick_agent cfg agent"
  by (simp add: build_route_def Let_def)

lemma route_built: "\<exists>agent tag. resolve_route cfg input =
    build_route cfg agent (to_lowercase (trim (ri_channel input))) (normalize_account_id (ri_account input)) input tag"
  unfolding resolve_route_def Let_def by (simp split: option.splits) blast

lemma normalize_trim: "normalize_agent_id (trim s) = normalize_agent_id s"
  by (simp add: normalize_agent_id_def)

lemma default_agent_configured:
  assumes "rc_agents cfg \<noteq> []"
  shows "resolve_default_agent cfg \<in> (\<lambda>a. normalize_agent_id (ad_id a)) ` set (rc_agents cfg)"
proof (cases "find (\<lambda>a. ad_default a \<and> trim (ad_id a) \<noteq> []) (rc_agents cfg)")
  case (Some a)
  then have "a \<in> set (rc_agents cfg)" by (auto simp: find_Some_iff)
  then show ?thesis using Some by (auto simp: resolve_default_agent_def normalize_trim)
next
  case None
  obtain a as where as: "rc_agents cfg = a # as" using assms by (cases "rc_agents cfg") auto
  have "normalize_agent_id (ad_id a) = DEFAULT_AGENT_ID" if "trim (ad_id a) = []"
    using that by (simp add: normalize_agent_id_def)
  then show ?thesis using None as by (auto simp: resolve_default_agent_def normalize_trim)
qed

text \<open>
  Whatever the bindings say, a message is routed to one of the configured agents, and both keys of the route belong to
  that agent.
\<close>
theorem route_agent_configured:
  assumes "rc_agents cfg \<noteq> []"
  shows "rr_agent (resolve_route cfg input) \<in> (\<lambda>a. normalize_agent_id (ad_id a)) ` set (rc_agents cfg) \<and>
         rr_main_session_key (resolve_route cfg input) = ''agent:'' @ rr_agent (resolve_route cfg input) @ '':main''"
proof -
  have p: "pick_agent cfg x \<in> (\<lambda>a. normalize_agent_id (ad_id a)) ` set (rc_agents cfg)" for x
    using default_agent_configured [OF assms] assms by (auto simp: pick_agent_def list_ex_iff Let_def intro: rev_image_eqI)
  obtain x tag where "resolve_route cfg input =
      build_route cfg x (to_lowercase (trim (ri_channel input))) (normalize_account_id (ri_account input)) input tag"
    using route_built by blast
  then have "rr_main_session_key (resolve_route cfg input) = build_agent_main_session_key (pick_agent cfg x)"
    and x: "rr_agent (resolve_route cfg input) = pick_agent cfg x"
    by (simp_all add: build_route_def Let_def)
  moreover have "normalize_agent_id (pick_agent cfg x) = pick_agent cfg x"
    using p [of x] normalize_agent_fixed [OF normalized_agent_ok] by auto
  ultimately have "rr_main_session_key (resolve_route cfg input) = ''agent:'' @ pick_agent cfg x @ '':main''"
    using lower_normalize_agent [of "pick_agent cfg x"]
    by (simp add: build_agent_main_session_key_def lowercase_literal del: append.simps)
  then show ?thesis using p x by simp
qed

definition one_agent :: route_config where
  "one_agent = \<lparr>rc_bindings = [], rc_agents = [\<lparr>ad_id = ''Helper'', ad_default = False\<rparr>], rc_scope = ''per-peer''\<rparr>"

definition plain_input :: route_input where
  "plain_input =
     \<lparr>ri_channel = ''irc'', ri_account = [], ri_peer_kind = None, ri_peer_id = None, ri_parent_kind = None, ri_parent_id = None,
      ri_guild = None, ri_team = None, ri_links = []\<rparr>"

theorem route_agent_configured_witness: "rr_agent (resolve_route one_agent plain_input) = ''helper''"
proof -
  have "rc_agents one_agent \<noteq> []" "(\<lambda>a. normalize_agent_id (ad_id a)) ` set (rc_agents one_agent) = {''helper''}" by code_simp+
  then show ?thesis using route_agent_configured [of one_agent plain_input] by blast
qed

subsection \<open>Bindings that never match\<close>

lemma normalized_account_chars: "list_all id_char (normalize_account_id s)"
proof -
  let ?lower = "to_lowercase (trim s)"
  have "list_all id_char (trim_dashes (replace_bad ?lower))"
    using set_trim_dashes [of "replace_bad ?lower"] replace_bad_ok [of ?lower] by (auto simp: list_all_iff)
  moreover have "list_all id_char DEFAULT_ACCOUNT_ID" by code_simp
  ultimately show ?thesis by (auto simp: normalize_account_id_def Let_def is_valid_id_def)
qed

text \<open>
  The account of a message is normalised before it is compared with the bindings, the account of a binding is not: a binding whose account
  has a character that normalisation replaces never matches, not even the account it was written for.
\<close>
theorem odd_account_binding_never_matches:
  assumes "c \<in> set (to_lowercase (trim account))" "\<not> id_char c" "trim account \<noteq> ''*''"
  shows "\<not> matches_account_id account (normalize_account_id actual)"
proof
  assume "matches_account_id account (normalize_account_id actual)"
  moreover have "trim account \<noteq> []" using assms(1) by auto
  ultimately have "to_lowercase (trim account) = normalize_account_id actual"
    using assms(3) by (simp add: matches_account_id_def Let_def)
  then show False using assms(1,2) normalized_account_chars [of actual] by (auto simp: list_all_iff)
qed

end
