(* ===== verification/TaskManager.thy ===== *)
theory TaskManager
  imports Prelude "HOL-Library.Multiset"
begin

text \<open>
  The life cycle of cluster tasks (nemesis-cluster: task_manager.rs, the in-memory store and the store that stands in for a
  damaged database).  Timestamps are seconds, or \<open>BadStamp\<close> for a text that does not parse.  The callback of the sources is
  the list of notifications it received.  Each operation of the store is one critical section; the manager calls
  several of them, and the step relation below interleaves these sections.
\<close>

subsection \<open>Data\<close>

datatype task_status = Pending | Running | Completed | Failed | Cancelled

datatype stamp = Stamp int | BadStamp

datatype task_json = ErrorObject str | TimeoutObject task_status int | JsonString str | JsonNull | JsonOther str

record task =
  t_id :: str
  t_status :: task_status
  t_action :: str
  t_peer :: str
  t_payload :: task_json
  t_result :: "task_json option"
  t_channel :: str
  t_chat :: str
  t_created_at :: stamp
  t_completed_at :: "stamp option"

type_synonym task_store = "str \<rightharpoonup> task"

datatype task_error = TaskExists str | TaskNotFound str | StoreUnavailable str

definition is_terminal_status :: "task_status \<Rightarrow> bool" where
  "is_terminal_status s \<longleftrightarrow> s = Completed \<or> s = Failed \<or> s = Cancelled"

subsection \<open>The store in memory\<close>

definition store_create :: "task \<Rightarrow> task_store \<Rightarrow> task_error + task_store" where
  "store_create t s = (case s (t_id t) of Some _ \<Rightarrow> Inl (TaskExists (t_id t)) | None \<Rightarrow> Inr (s(t_id t \<mapsto> t)))"

definition store_get :: "str \<Rightarrow> task_store \<Rightarrow> task_error + task" where
  "store_get i s = (case s i of Some t \<Rightarrow> Inr t | None \<Rightarrow> Inl (TaskNotFound i))"

definition set_result :: "int \<Rightarrow> task_status \<Rightarrow> task_json option \<Rightarrow> task \<Rightarrow> task" where
  "set_result now status result t =
     (let t' = t\<lparr>t_status := status, t_result := result\<rparr>
      in if is_terminal_status status then t'\<lparr>t_completed_at := Some (Stamp now)\<rparr> else t')"

definition update_result :: "int \<Rightarrow> str \<Rightarrow> task_status \<Rightarrow> task_json option \<Rightarrow> task_store \<Rightarrow> task_error + task_store" where
  "update_result now i status result s =
     (case s i of None \<Rightarrow> Inl (TaskNotFound i) | Some t \<Rightarrow> Inr (s(i \<mapsto> set_result now status result t)))"

definition update_result_if_status ::
    "int \<Rightarrow> str \<Rightarrow> task_status list \<Rightarrow> task_status \<Rightarrow> task_json option \<Rightarrow> task_store \<Rightarrow> (task_error + bool) \<times> task_store" where
  "update_result_if_status now i expected status result s =
     (case s i of
        None \<Rightarrow> (Inl (TaskNotFound i), s)
      | Some t \<Rightarrow>
          if t_status t \<notin> set expected then (Inr False, s)
          else (Inr True, s(i \<mapsto> set_result now status result t)))"

definition store_delete :: "str \<Rightarrow> task_store \<Rightarrow> task_error + task_store" where
  "store_delete i s = (case s i of None \<Rightarrow> Inl (TaskNotFound i) | Some _ \<Rightarrow> Inr (s(i := None)))"

text \<open>The store for a damaged database: every operation is an error and lists are empty.\<close>

definition poisoned_create :: "str \<Rightarrow> task \<Rightarrow> task_error + unit" where
  "poisoned_create reason t = Inl (StoreUnavailable reason)"

definition poisoned_get :: "str \<Rightarrow> str \<Rightarrow> task_error + task" where
  "poisoned_get reason i = Inl (StoreUnavailable reason)"

subsection \<open>The manager\<close>

text \<open>
  The manager over a store, with the tasks its callback has been called with, and whether a callback is set.
\<close>

record manager =
  m_store :: task_store
  m_fired :: "task list"
  m_callback :: bool
  m_pending_timeout :: int

definition new_manager :: manager where
  "new_manager = \<lparr>m_store = Map.empty, m_fired = [], m_callback = False, m_pending_timeout = 24 * 3600\<rparr>"

definition set_callback :: "manager \<Rightarrow> manager" where
  "set_callback m = m\<lparr>m_callback := True\<rparr>"

definition set_pending_timeout :: "int \<Rightarrow> manager \<Rightarrow> manager" where
  "set_pending_timeout d m = m\<lparr>m_pending_timeout := d\<rparr>"

definition submit :: "task \<Rightarrow> manager \<Rightarrow> (task_error + unit) \<times> manager" where
  "submit t m = (case store_create t (m_store m) of Inr s \<Rightarrow> (Inr (), m\<lparr>m_store := s\<rparr>) | Inl e \<Rightarrow> (Inl e, m))"

definition create_task_with_peer :: "str \<Rightarrow> int \<Rightarrow> str \<Rightarrow> task_json \<Rightarrow> str \<Rightarrow> str \<Rightarrow> str \<Rightarrow> manager \<Rightarrow> task \<times> manager" where
  "create_task_with_peer uuid now action payload channel chat peer m =
     (let t = \<lparr>t_id = uuid, t_status = Pending, t_action = action, t_peer = peer, t_payload = payload, t_result = None,
               t_channel = channel, t_chat = chat, t_created_at = Stamp now, t_completed_at = None\<rparr>
      in (t, case store_create t (m_store m) of Inr s \<Rightarrow> m\<lparr>m_store := s\<rparr> | Inl _ \<Rightarrow> m))"

definition assign_task :: "int \<Rightarrow> str \<Rightarrow> manager \<Rightarrow> bool \<times> manager" where
  "assign_task now i m =
     (case update_result_if_status now i [Pending] Running None (m_store m) of
        (Inr b, s) \<Rightarrow> (b, m\<lparr>m_store := s\<rparr>)
      | (Inl _, s) \<Rightarrow> (False, m\<lparr>m_store := s\<rparr>))"

definition fire_callback :: "task \<Rightarrow> manager \<Rightarrow> manager" where
  "fire_callback t m = (if m_callback m then m\<lparr>m_fired := m_fired m @ [t]\<rparr> else m)"

definition settle_task :: "int \<Rightarrow> str \<Rightarrow> task_status \<Rightarrow> task_json option \<Rightarrow> manager \<Rightarrow> bool \<times> manager" where
  "settle_task now i status result m =
     (case update_result_if_status now i [Pending, Running] status result (m_store m) of
        (Inl _, s) \<Rightarrow> (False, m)
      | (Inr True, s) \<Rightarrow>
          let m' = m\<lparr>m_store := s\<rparr>
          in (True, case store_get i s of Inr t \<Rightarrow> fire_callback t m' | Inl _ \<Rightarrow> m')
      | (Inr False, s) \<Rightarrow>
          (case store_get i s of Inr t \<Rightarrow> (t_status t = status, m) | Inl _ \<Rightarrow> (False, m)))"

definition complete_task :: "int \<Rightarrow> str \<Rightarrow> task_json \<Rightarrow> manager \<Rightarrow> bool \<times> manager" where
  "complete_task now i result m = settle_task now i Completed (Some result) m"

definition fail_task :: "int \<Rightarrow> str \<Rightarrow> str \<Rightarrow> manager \<Rightarrow> bool \<times> manager" where
  "fail_task now i err m = settle_task now i Failed (Some (ErrorObject err)) m"

definition complete_callback :: "int \<Rightarrow> str \<Rightarrow> str \<Rightarrow> str \<Rightarrow> str \<Rightarrow> manager \<Rightarrow> bool \<times> manager" where
  "complete_callback now i status response err_msg m =
     (if status = ''error'' then fail_task now i (if err_msg = [] then ''unknown error'' else err_msg) m
      else complete_task now i (if response = [] then JsonNull else JsonString response) m)"

definition get_task :: "str \<Rightarrow> manager \<Rightarrow> task option" where
  "get_task i m = m_store m i"

definition delete_task :: "str \<Rightarrow> manager \<Rightarrow> bool \<times> manager" where
  "delete_task i m = (case store_delete i (m_store m) of Inr s \<Rightarrow> (True, m\<lparr>m_store := s\<rparr>) | Inl _ \<Rightarrow> (False, m))"

subsection \<open>The background sweep\<close>

text \<open>
  \<open>order\<close> gives the keys in the order in which the hash map lists them.  \<open>captured\<close> tells whether a callback was set when
  the loop was started: the loop keeps the callback of that moment.
\<close>

definition expired :: "int \<Rightarrow> int \<Rightarrow> stamp \<Rightarrow> bool" where
  "expired now limit s = (case s of Stamp t \<Rightarrow> now - t > limit | BadStamp \<Rightarrow> False)"

definition listed :: "str list \<Rightarrow> task_status \<Rightarrow> task_store \<Rightarrow> task list" where
  "listed order status s = filter (\<lambda>t. t_status t = status) (List.map_filter s order)"

definition sweep_finished :: "int \<Rightarrow> task \<Rightarrow> manager \<Rightarrow> manager" where
  "sweep_finished now t m =
     (case t_completed_at t of
        Some c \<Rightarrow> if expired now (2 * 3600) c then snd (delete_task (t_id t) m) else m
      | None \<Rightarrow> m)"

definition sweep_stuck :: "int \<Rightarrow> bool \<Rightarrow> task_status \<Rightarrow> task \<Rightarrow> manager \<Rightarrow> manager" where
  "sweep_stuck now captured status t m =
     (if expired now (m_pending_timeout m) (t_created_at t)
      then (case update_result_if_status now (t_id t) [status] Failed (Some (TimeoutObject status (m_pending_timeout m))) (m_store m) of
              (Inr True, s) \<Rightarrow>
                let m' = m\<lparr>m_store := s\<rparr>
                in (case store_get (t_id t) s of
                      Inr u \<Rightarrow> if captured then m'\<lparr>m_fired := m_fired m' @ [u]\<rparr> else m'
                    | Inl _ \<Rightarrow> m')
            | (_, s) \<Rightarrow> m)
      else m)"

definition cleanup_completed :: "str list \<Rightarrow> int \<Rightarrow> bool \<Rightarrow> manager \<Rightarrow> manager" where
  "cleanup_completed order now captured m =
     (let m1 = foldl (\<lambda>m status. foldl (\<lambda>m t. sweep_finished now t m) m (listed order status (m_store m)))
                 m [Completed, Failed, Cancelled]
      in foldl (\<lambda>m status. foldl (\<lambda>m t. sweep_stuck now captured status t m) m (listed order status (m_store m)))
           m1 [Pending, Running])"

subsection \<open>Settling a task\<close>

lemma set_result_fields [simp]:
  "t_id (set_result now status result t) = t_id t" "t_status (set_result now status result t) = status"
  "t_result (set_result now status result t) = result" "t_created_at (set_result now status result t) = t_created_at t"
  by (simp_all add: set_result_def Let_def)

lemma settle_first:
  assumes "m_store m i = Some t" "t_status t = Pending \<or> t_status t = Running"
  shows "settle_task now i status result m =
    (True, fire_callback (set_result now status result t) (m\<lparr>m_store := (m_store m)(i \<mapsto> set_result now status result t)\<rparr>))"
  using assms by (auto simp: settle_task_def update_result_if_status_def store_get_def Let_def)

lemma settle_again:
  assumes "m_store m i = Some t" "is_terminal_status (t_status t)"
  shows "settle_task now i status result m = (t_status t = status, m)"
  using assms by (auto simp: settle_task_def update_result_if_status_def store_get_def is_terminal_status_def)

text \<open>
  The first report about a task decides: it is recorded with its time and the callback is called once with the task as
  recorded.  Every later report changes nothing and calls nothing, whether it repeats the outcome, which is reported as a
  success, or contradicts it, which is refused; and a task that has ended cannot be assigned any more.
\<close>
theorem first_report_wins:
  assumes "m_store m i = Some t" "t_status t = Pending \<or> t_status t = Running" "is_terminal_status status"
    "settle_task now i status result m = (ok, m1)"
  shows "ok \<and> get_task i m1 = Some (t\<lparr>t_status := status, t_result := result, t_completed_at := Some (Stamp now)\<rparr>) \<and>
         m_fired m1 = m_fired m @ (if m_callback m then [t\<lparr>t_status := status, t_result := result, t_completed_at := Some (Stamp now)\<rparr>] else []) \<and>
         settle_task now' i status' result' m1 = (status' = status, m1) \<and> assign_task now' i m1 = (False, m1)"
proof -
  let ?t = "set_result now status result t"
  have m1: "ok" "m1 = fire_callback ?t (m\<lparr>m_store := (m_store m)(i \<mapsto> ?t)\<rparr>)"
    using settle_first [OF assms(1,2)] assms(4) by simp_all
  have t: "?t = t\<lparr>t_status := status, t_result := result, t_completed_at := Some (Stamp now)\<rparr>"
    using assms(3) by (simp add: set_result_def)
  have s: "m_store m1 i = Some ?t" by (simp add: m1(2) fire_callback_def)
  have "settle_task now' i status' result' m1 = (status' = status, m1)"
    using settle_again [OF s] assms(3) by auto
  moreover have "assign_task now' i m1 = (False, m1)"
    using s assms(3) by (auto simp: assign_task_def update_result_if_status_def is_terminal_status_def)
  moreover have "m_fired m1 = m_fired m @ (if m_callback m then [?t] else [])" by (simp add: m1(2) fire_callback_def)
  ultimately show ?thesis using m1(1) s by (simp add: t get_task_def)
qed

subsection \<open>Well-formed stores\<close>

text \<open>Tasks are filed under their identifier, and carry a time of completion exactly when they have ended.\<close>

definition task_wf :: "task \<Rightarrow> bool" where
  "task_wf t \<longleftrightarrow> (is_terminal_status (t_status t) \<longleftrightarrow> t_completed_at t \<noteq> None)"

definition store_wf :: "task_store \<Rightarrow> bool" where
  "store_wf s \<longleftrightarrow> (\<forall>i t. s i = Some t \<longrightarrow> t_id t = i \<and> task_wf t)"

lemma store_wfD: "store_wf s \<Longrightarrow> s i = Some t \<Longrightarrow> t_id t = i \<and> task_wf t"
  by (simp add: store_wf_def)

lemma update_wf:
  assumes "store_wf s" "update_result_if_status now i expected status result s = (r, s')"
    "is_terminal_status status \<or> set expected \<subseteq> {Pending, Running}"
  shows "store_wf s'"
proof (cases "s i")
  case (Some t)
  have t: "t_id t = i" "task_wf t" using store_wfD [OF assms(1) Some] by auto
  have "task_wf (set_result now status result t)" if "t_status t \<in> set expected"
    using assms(3) that t(2) by (auto simp: task_wf_def set_result_def is_terminal_status_def Let_def)
  then show ?thesis using assms(1,2) Some t(1) by (auto simp: update_result_if_status_def store_wf_def split: if_splits)
qed (use assms in \<open>auto simp: update_result_if_status_def\<close>)

lemma delete_wf: "store_wf s \<Longrightarrow> store_wf (s(i := None))"
  by (simp add: store_wf_def)

text \<open>The operations of the manager, one after the other.\<close>

inductive manager_step :: "manager \<Rightarrow> manager \<Rightarrow> bool" where
  Submit: "task_wf t \<Longrightarrow> manager_step m (snd (submit t m))"
| Create: "manager_step m (snd (create_task_with_peer uuid now action payload channel chat peer m))"
| Assign: "manager_step m (snd (assign_task now i m))"
| Report: "manager_step m (snd (complete_callback now i status response err m))"
| Delete: "manager_step m (snd (delete_task i m))"
| Sweep: "manager_step m (cleanup_completed order now captured m)"
| SetCallback: "manager_step m (set_callback m)"
| SetTimeout: "manager_step m (set_pending_timeout d m)"

lemma create_wf: "store_wf s \<Longrightarrow> task_wf t \<Longrightarrow> store_create t s = Inr s' \<Longrightarrow> store_wf s'"
  by (auto simp: store_create_def store_wf_def split: option.splits if_splits)

lemma settle_wf: "store_wf (m_store m) \<Longrightarrow> is_terminal_status status \<Longrightarrow> store_wf (m_store (snd (settle_task now i status result m)))"
proof -
  assume wf: "store_wf (m_store m)" and fin: "is_terminal_status status"
  obtain r s where u: "update_result_if_status now i [Pending, Running] status result (m_store m) = (r, s)" by fastforce
  have "store_wf s" using update_wf [OF wf u] fin by simp
  then show ?thesis using wf u by (auto simp: settle_task_def fire_callback_def Let_def split: sum.splits bool.splits)
qed

lemma sweep_finished_wf: "store_wf (m_store m) \<Longrightarrow> store_wf (m_store (sweep_finished now t m))"
  by (auto simp: sweep_finished_def delete_task_def store_delete_def delete_wf split: option.splits)

lemma sweep_stuck_wf: "store_wf (m_store m) \<Longrightarrow> store_wf (m_store (sweep_stuck now captured status t m))"
proof -
  assume wf: "store_wf (m_store m)"
  obtain r s where u: "update_result_if_status now (t_id t) [status] Failed (Some (TimeoutObject status (m_pending_timeout m))) (m_store m) = (r, s)"
    by fastforce
  have "store_wf s" using update_wf [OF wf u] by (simp add: is_terminal_status_def)
  then show ?thesis using wf u by (auto simp: sweep_stuck_def Let_def split: sum.splits bool.splits)
qed

lemma fold_inv: "(\<And>m x. P m \<Longrightarrow> P (f m x)) \<Longrightarrow> P m \<Longrightarrow> P (foldl f m xs)"
  by (induction xs arbitrary: m) auto

lemma cleanup_wf:
  assumes "store_wf (m_store m)"
  shows "store_wf (m_store (cleanup_completed order now captured m))"
proof -
  let ?P = "\<lambda>m. store_wf (m_store m)"
  have "?P (foldl (\<lambda>m t. sweep_finished now t m) m ts)" if "?P m" for m ts
    by (rule fold_inv [where P = ?P]) (use that sweep_finished_wf in auto)
  then have 1: "?P (foldl (\<lambda>m status. foldl (\<lambda>m t. sweep_finished now t m) m (listed order status (m_store m))) m ss)" for ss
    by (rule fold_inv [where P = ?P]) (use assms in auto)
  have "?P (foldl (\<lambda>m t. sweep_stuck now captured status t m) m ts)" if "?P m" for m ts status
    by (rule fold_inv [where P = ?P]) (use that sweep_stuck_wf in auto)
  then have "?P (foldl (\<lambda>m status. foldl (\<lambda>m t. sweep_stuck now captured status t m) m (listed order status (m_store m))) m ss)"
    if "?P m" for m ss
    by (rule fold_inv [where P = ?P]) (use that in auto)
  then show ?thesis unfolding cleanup_completed_def Let_def using 1 by blast
qed

interpretation manager_store: transition_invariant "\<lambda>m. m_store m = Map.empty" manager_step "\<lambda>m. store_wf (m_store m)"
proof
  show "store_wf (m_store m)" if "m_store m = Map.empty" for m using that by (simp add: store_wf_def)
  show "store_wf (m_store m')" if wf: "store_wf (m_store m)" and step: "manager_step m m'" for m m'
    using step
  proof cases
    case (Submit t)
    then show ?thesis using wf create_wf [OF wf, of t] by (auto simp: submit_def split: sum.splits)
  next
    case (Create uuid now action payload channel chat peer)
    let ?t = "\<lparr>t_id = uuid, t_status = Pending, t_action = action, t_peer = peer, t_payload = payload, t_result = None,
      t_channel = channel, t_chat = chat, t_created_at = Stamp now, t_completed_at = None\<rparr>"
    have "task_wf ?t" by (simp add: task_wf_def is_terminal_status_def)
    from create_wf [OF wf this] show ?thesis using wf Create by (auto simp: create_task_with_peer_def Let_def split: sum.splits)
  next
    case (Assign now i)
    obtain r s where u: "update_result_if_status now i [Pending] Running None (m_store m) = (r, s)" by fastforce
    then show ?thesis using Assign update_wf [OF wf u] by (auto simp: assign_task_def split: sum.splits)
  next
    case (Report now i status response err)
    then show ?thesis using settle_wf [OF wf]
      by (simp add: complete_callback_def fail_task_def complete_task_def is_terminal_status_def)
  next
    case (Delete i)
    then show ?thesis using wf by (auto simp: delete_task_def store_delete_def delete_wf split: option.splits)
  next
    case (Sweep order now captured)
    then show ?thesis using cleanup_wf [OF wf] by simp
  qed (use wf in \<open>simp_all add: set_callback_def set_pending_timeout_def\<close>)
qed


subsection \<open>Threads that interleave\<close>

text \<open>
  A report or a timeout is two critical sections: the conditional update, and, when it took effect, reading the task back and calling the
  callback.  Between them any other thread may act.  \<open>sh_notify\<close> holds the identifiers of the threads between the two
  sections, \<open>sh_fired\<close> those the callback was called with, \<open>sh_created\<close> those of the tasks created so far.
\<close>

record shared =
  sh_store :: task_store
  sh_notify :: "str multiset"
  sh_fired :: "str multiset"
  sh_created :: "str multiset"

definition shared_start :: shared where
  "shared_start = \<lparr>sh_store = Map.empty, sh_notify = {#}, sh_fired = {#}, sh_created = {#}\<rparr>"

inductive shared_step :: "shared \<Rightarrow> shared \<Rightarrow> bool" where
  ThreadCreate: "store_create t (sh_store s) = Inr st \<Longrightarrow>
    shared_step s (s\<lparr>sh_store := st, sh_created := add_mset (t_id t) (sh_created s)\<rparr>)"
| ThreadAssign: "update_result_if_status now i [Pending] Running None (sh_store s) = (r, st) \<Longrightarrow>
    shared_step s (s\<lparr>sh_store := st\<rparr>)"
| ThreadSettle: "update_result_if_status now i [Pending, Running] status result (sh_store s) = (Inr True, st) \<Longrightarrow>
    is_terminal_status status \<Longrightarrow> shared_step s (s\<lparr>sh_store := st, sh_notify := add_mset i (sh_notify s)\<rparr>)"
| ThreadTimeout: "update_result_if_status now i [status] Failed result (sh_store s) = (Inr True, st) \<Longrightarrow>
    status = Pending \<or> status = Running \<Longrightarrow> shared_step s (s\<lparr>sh_store := st, sh_notify := add_mset i (sh_notify s)\<rparr>)"
| ThreadNotify: "i \<in># sh_notify s \<Longrightarrow> store_get i (sh_store s) = Inr t \<Longrightarrow>
    shared_step s (s\<lparr>sh_notify := sh_notify s - {#i#}, sh_fired := add_mset i (sh_fired s)\<rparr>)"
| ThreadLost: "i \<in># sh_notify s \<Longrightarrow> store_get i (sh_store s) = Inl e \<Longrightarrow>
    shared_step s (s\<lparr>sh_notify := sh_notify s - {#i#}\<rparr>)"
| ThreadDelete: "store_delete i (sh_store s) = Inr st \<Longrightarrow> shared_step s (s\<lparr>sh_store := st\<rparr>)"

definition open_task :: "task_store \<Rightarrow> str \<Rightarrow> nat" where
  "open_task s i = (case s i of Some t \<Rightarrow> if is_terminal_status (t_status t) then 0 else 1 | None \<Rightarrow> 0)"

text \<open>Every task that was created accounts for itself while it is open, for one notification on its way, or for one call.\<close>

definition accounted :: "shared \<Rightarrow> bool" where
  "accounted s \<longleftrightarrow> (\<forall>i. count (sh_fired s) i + count (sh_notify s) i + open_task (sh_store s) i \<le> count (sh_created s) i)"

lemma open_update:
  assumes "update_result_if_status now i expected status result s = (r, s')" "set expected \<subseteq> {Pending, Running}"
  shows "open_task s' j =
    (if j = i \<and> r = Inr True then (if is_terminal_status status then 0 else 1) else open_task s j) \<and>
    (r = Inr True \<longrightarrow> open_task s i = 1)"
proof (cases "s i")
  case (Some t)
  show ?thesis
  proof (cases "t_status t \<in> set expected")
    case True
    then have "\<not> is_terminal_status (t_status t)" using assms(2) by (auto simp: is_terminal_status_def)
    then show ?thesis using assms(1) Some True by (auto simp: update_result_if_status_def open_task_def)
  next
    case False
    then show ?thesis using assms(1) Some by (auto simp: update_result_if_status_def)
  qed
next
  case None
  then show ?thesis using assms(1) by (auto simp: update_result_if_status_def)
qed

lemma open_create: "store_create t s = Inr s' \<Longrightarrow> open_task s' j \<le> (if j = t_id t then 1 else open_task s j) \<and> (s (t_id t) = None)"
  by (auto simp: store_create_def open_task_def split: option.splits if_splits)

lemma open_delete: "store_delete i s = Inr s' \<Longrightarrow> open_task s' j \<le> open_task s j"
  by (auto simp: store_delete_def open_task_def split: option.splits if_splits)

lemma accounted_step:
  assumes "accounted s" "shared_step s s'"
  shows "accounted s'"
proof -
  have acc: "count (sh_fired s) j + count (sh_notify s) j + open_task (sh_store s) j \<le> count (sh_created s) j" for j
    using assms(1) by (simp add: accounted_def)
  show ?thesis using assms(2)
  proof cases
    case (ThreadCreate t st)
    have "count (sh_fired s) j + count (sh_notify s) j + open_task st j \<le> count (add_mset (t_id t) (sh_created s)) j" for j
      using acc [of j] open_create [OF ThreadCreate(2), of j] by (auto split: if_splits)
    then show ?thesis using ThreadCreate by (simp add: accounted_def)
  next
    case (ThreadAssign now i r st)
    have "open_task st j \<le> open_task (sh_store s) j" for j
      using open_update [OF ThreadAssign(2), of j] by (auto simp: is_terminal_status_def split: if_splits)
    then show ?thesis using ThreadAssign acc by (auto simp: accounted_def intro: order_trans [OF add_left_mono])
  next
    case (ThreadSettle now i status result st)
    have "count (sh_fired s) j + count (add_mset i (sh_notify s)) j + open_task st j \<le> count (sh_created s) j" for j
      using acc [of j] open_update [OF ThreadSettle(2), of j] ThreadSettle(3) by (auto split: if_splits)
    then show ?thesis using ThreadSettle by (simp add: accounted_def)
  next
    case (ThreadTimeout now i status result st)
    have "count (sh_fired s) j + count (add_mset i (sh_notify s)) j + open_task st j \<le> count (sh_created s) j" for j
      using acc [of j] open_update [OF ThreadTimeout(2), of j] ThreadTimeout(3) by (auto simp: is_terminal_status_def split: if_splits)
    then show ?thesis using ThreadTimeout by (simp add: accounted_def)
  next
    case (ThreadNotify i t)
    have "0 < count (sh_notify s) i" using ThreadNotify(2) by (simp only: count_greater_zero_iff)
    then have "count (add_mset i (sh_fired s)) j + count (sh_notify s - {#i#}) j = count (sh_fired s) j + count (sh_notify s) j" for j
      by (cases "j = i") auto
    then show ?thesis using ThreadNotify acc by (simp add: accounted_def)
  next
    case (ThreadLost i e)
    have "count (sh_fired s) j + count (sh_notify s - {#i#}) j + open_task (sh_store s) j \<le> count (sh_created s) j" for j
      using acc [of j] by simp
    then show ?thesis using ThreadLost by (simp add: accounted_def)
  next
    case (ThreadDelete i st)
    then show ?thesis using acc open_delete [OF ThreadDelete(2)] by (auto simp: accounted_def intro: order_trans [OF add_left_mono])
  qed
qed

interpretation threads: transition_invariant "\<lambda>s. s = shared_start" shared_step accounted
proof
  show "accounted s" if "s = shared_start" for s using that by (simp add: accounted_def shared_start_def open_task_def)
qed (rule accounted_step)


subsection \<open>The loop keeps its first callback\<close>

text \<open>
  The background loop captures the callback when it starts.  When the callback is set later, a task that the loop times out is
  failed without a call, although a callback is set.
\<close>
theorem late_callback_misses_timeouts:
  "m_fired (cleanup_completed order now False m) = m_fired m"
proof -
  let ?P = "\<lambda>m'. m_fired m' = m_fired m"
  have "?P (sweep_finished now t m')" if "?P m'" for m' t
    using that by (simp add: sweep_finished_def delete_task_def split: option.splits sum.splits)
  then have 1: "?P (foldl (\<lambda>m t. sweep_finished now t m) m' ts)" if "?P m'" for m' ts
    using that by (intro fold_inv [where P = ?P])
  have "?P (sweep_stuck now False status t m')" if "?P m'" for m' t status
    using that by (simp add: sweep_stuck_def Let_def split: option.splits sum.splits prod.splits bool.splits)
  then have 2: "?P (foldl (\<lambda>m t. sweep_stuck now False status t m) m' ts)" if "?P m'" for m' ts status
    using that by (intro fold_inv [where P = ?P])
  have 3: "?P (foldl (\<lambda>m status. foldl (\<lambda>m t. sweep_finished now t m) m (listed order status (m_store m))) m ss)" for ss
    by (rule fold_inv [where P = ?P]) (use 1 in simp_all)
  have "?P (foldl (\<lambda>m status. foldl (\<lambda>m t. sweep_stuck now False status t m) m (listed order status (m_store m))) m' ss)"
    if "?P m'" for m' ss
    by (rule fold_inv [where P = ?P]) (use 2 that in simp_all)
  then show ?thesis unfolding cleanup_completed_def Let_def using 3 by blast
qed

subsection \<open>The sweep leaves nothing behind\<close>

definition stuck :: "int \<Rightarrow> int \<Rightarrow> task_status \<Rightarrow> task_store \<Rightarrow> str \<Rightarrow> bool" where
  "stuck now limit status s i \<longleftrightarrow> (\<exists>t. s i = Some t \<and> t_status t = status \<and> expired now limit (t_created_at t))"

text \<open>What a sweep of one task does to the store.\<close>

lemma sweep_stuck_store:
  "m_store (sweep_stuck now captured status t m) =
     (if expired now (m_pending_timeout m) (t_created_at t)
      then snd (update_result_if_status now (t_id t) [status] Failed (Some (TimeoutObject status (m_pending_timeout m))) (m_store m))
      else m_store m)"
  "m_pending_timeout (sweep_stuck now captured status t m) = m_pending_timeout m"
  by (auto simp: sweep_stuck_def update_result_if_status_def store_get_def Let_def split: option.splits)

lemma sweep_stuck_keeps:
  assumes "status' = Pending \<or> status' = Running" "stuck now limit status' (m_store (sweep_stuck now captured status t m)) i"
  shows "stuck now limit status' (m_store m) i"
  using assms by (auto simp: sweep_stuck_store stuck_def update_result_if_status_def split: if_splits option.splits)

definition created_kept :: "task_store \<Rightarrow> task_store \<Rightarrow> bool" where
  "created_kept s s' \<longleftrightarrow> (\<forall>i u. s' i = Some u \<longrightarrow> (\<exists>t. s i = Some t \<and> t_created_at u = t_created_at t))"

lemma sweep_stuck_created: "created_kept (m_store m) (m_store (sweep_stuck now captured status t m))"
  by (auto simp: created_kept_def sweep_stuck_store update_result_if_status_def split: option.splits if_splits)

lemma created_kept_trans: "created_kept a b \<Longrightarrow> created_kept b c \<Longrightarrow> created_kept a c"
  unfolding created_kept_def by metis

lemma sweep_stuck_clears:
  assumes "created_kept s0 (m_store m)" "s0 (t_id t) = Some t" "limit = m_pending_timeout m" "status = Pending \<or> status = Running"
  shows "\<not> stuck now limit status (m_store (sweep_stuck now captured status t m)) (t_id t)"
proof
  assume "stuck now limit status (m_store (sweep_stuck now captured status t m)) (t_id t)"
  then obtain u where u: "m_store (sweep_stuck now captured status t m) (t_id t) = Some u" "t_status u = status" "expired now limit (t_created_at u)"
    by (auto simp: stuck_def)
  have "created_kept s0 (m_store (sweep_stuck now captured status t m))"
    using created_kept_trans [OF assms(1) sweep_stuck_created] .
  then have "t_created_at u = t_created_at t" using u(1) assms(2) by (fastforce simp: created_kept_def)
  then have "expired now (m_pending_timeout m) (t_created_at t)" using u(3) assms(3) by simp
  then show False using u(1,2) assms(4)
    by (auto simp: sweep_stuck_store update_result_if_status_def split: option.splits if_splits)
qed

lemma sweep_stuck_all:
  assumes "\<forall>t \<in> set ts. s0 (t_id t) = Some t" "created_kept s0 (m_store m)" "status = Pending \<or> status = Running"
  shows "(\<forall>t \<in> set ts. \<not> stuck now (m_pending_timeout m) status (m_store (foldl (\<lambda>m t. sweep_stuck now captured status t m) m ts)) (t_id t)) \<and>
         m_pending_timeout (foldl (\<lambda>m t. sweep_stuck now captured status t m) m ts) = m_pending_timeout m \<and>
         (\<forall>st limit i. st = Pending \<or> st = Running \<longrightarrow>
            stuck now limit st (m_store (foldl (\<lambda>m t. sweep_stuck now captured status t m) m ts)) i \<longrightarrow> stuck now limit st (m_store m) i)"
  using assms(1,2)
proof (induction ts arbitrary: m)
  case (Cons t ts)
  let ?m = "sweep_stuck now captured status t m"
  have k: "created_kept s0 (m_store ?m)" using created_kept_trans [OF Cons.prems(2) sweep_stuck_created] .
  note IH = Cons.IH [OF _ k]
  have own: "\<not> stuck now (m_pending_timeout m) status (m_store ?m) (t_id t)"
    using sweep_stuck_clears [OF Cons.prems(2) _ refl assms(3)] Cons.prems(1) by simp
  have keep: "stuck now limit st (m_store ?m) i \<Longrightarrow> stuck now limit st (m_store m) i" if "st = Pending \<or> st = Running" for st limit i
    using sweep_stuck_keeps [OF that] .
  show ?case using IH own keep Cons.prems(1) assms(3) sweep_stuck_store(2) [of now captured status t m] by auto
qed simp

lemma listed_mem: "t \<in> set (listed order status s) \<longleftrightarrow> (\<exists>i \<in> set order. s i = Some t \<and> t_status t = status)"
  by (auto simp: listed_def List.map_filter_def intro: rev_image_eqI)

definition ready :: "str list \<Rightarrow> int \<Rightarrow> manager \<Rightarrow> bool" where
  "ready order limit m \<longleftrightarrow> store_wf (m_store m) \<and> dom (m_store m) \<subseteq> set order \<and> m_pending_timeout m = limit"

lemma ready_finished: "ready order limit m \<Longrightarrow> ready order limit (sweep_finished now t m)"
  using sweep_finished_wf [of m now t]
  by (auto simp: ready_def sweep_finished_def delete_task_def store_delete_def split: option.splits if_splits)

lemma ready_stuck: "ready order limit m \<Longrightarrow> ready order limit (sweep_stuck now captured status t m)"
  using sweep_stuck_wf [of m now captured status t] sweep_stuck_store [of now captured status t m]
  by (auto simp: ready_def update_result_if_status_def split: option.splits if_splits)

abbreviation finished_pass :: "str list \<Rightarrow> int \<Rightarrow> manager \<Rightarrow> task_status \<Rightarrow> manager" where
  "finished_pass order now m status \<equiv> foldl (\<lambda>m t. sweep_finished now t m) m (listed order status (m_store m))"

abbreviation stuck_pass :: "str list \<Rightarrow> int \<Rightarrow> bool \<Rightarrow> manager \<Rightarrow> task_status \<Rightarrow> manager" where
  "stuck_pass order now captured m status \<equiv> foldl (\<lambda>m t. sweep_stuck now captured status t m) m (listed order status (m_store m))"

lemma ready_finished_pass: "ready order limit m \<Longrightarrow> ready order limit (finished_pass order now m status)"
  by (rule fold_inv [where P = "ready order limit"]) (simp_all add: ready_finished)

lemma ready_stuck_pass: "ready order limit m \<Longrightarrow> ready order limit (stuck_pass order now captured m status)"
  by (rule fold_inv [where P = "ready order limit"]) (simp_all add: ready_stuck)

lemma stuck_pass_clears:
  assumes "ready order limit m" "status = Pending \<or> status = Running"
  shows "\<not> stuck now limit status (m_store (stuck_pass order now captured m status)) i"
    and "st = Pending \<or> st = Running \<Longrightarrow> stuck now limit st (m_store (stuck_pass order now captured m status)) i \<Longrightarrow>
         stuck now limit st (m_store m) i"
proof -
  let ?ts = "listed order status (m_store m)"
  have wf: "store_wf (m_store m)" "dom (m_store m) \<subseteq> set order" "m_pending_timeout m = limit"
    using assms(1) by (auto simp: ready_def)
  have snap: "\<forall>t \<in> set ?ts. m_store m (t_id t) = Some t" using wf(1) by (auto simp: listed_mem dest: store_wfD)
  have "created_kept (m_store m) (m_store m)" by (auto simp: created_kept_def)
  note A = sweep_stuck_all [OF snap this assms(2), of now captured]
  show keep: "st = Pending \<or> st = Running \<Longrightarrow> stuck now limit st (m_store (stuck_pass order now captured m status)) i \<Longrightarrow>
      stuck now limit st (m_store m) i" for st
    using A by blast
  show "\<not> stuck now limit status (m_store (stuck_pass order now captured m status)) i"
  proof
    assume bad: "stuck now limit status (m_store (stuck_pass order now captured m status)) i"
    then have "stuck now limit status (m_store m) i" using keep assms(2) by blast
    then obtain t where t: "m_store m i = Some t" "t_status t = status" by (auto simp: stuck_def)
    then have "t \<in> set ?ts" "t_id t = i" using wf by (auto simp: listed_mem dest: store_wfD)
    then show False using A bad wf(3) by auto
  qed
qed

text \<open>
  A sweep that lists every task leaves no task pending or running beyond the safety net: whatever is older is failed, so no
  task is waited for for ever.
\<close>
theorem sweep_leaves_no_stuck_task:
  assumes "store_wf (m_store m)" "dom (m_store m) \<subseteq> set order" "status = Pending \<or> status = Running"
  shows "\<not> stuck now (m_pending_timeout m) status (m_store (cleanup_completed order now captured m)) i"
proof -
  let ?limit = "m_pending_timeout m"
  define m1 where "m1 = foldl (finished_pass order now) m [Completed, Failed, Cancelled]"
  have "ready order ?limit m" using assms(1,2) by (simp add: ready_def)
  then have "ready order ?limit m1" unfolding m1_def by (simp add: ready_finished_pass)
  then have r: "ready order ?limit m1" "ready order ?limit (stuck_pass order now captured m1 Pending)"
    by (simp_all add: ready_stuck_pass)
  have "cleanup_completed order now captured m = stuck_pass order now captured (stuck_pass order now captured m1 Pending) Running"
    by (simp add: cleanup_completed_def m1_def Let_def)
  then show ?thesis
    using stuck_pass_clears(1) [OF r(1)] stuck_pass_clears(1,2) [OF r(2)] assms(3) by metis
qed

subsection \<open>An example\<close>

definition sample_task :: task where
  "sample_task =
     \<lparr>t_id = ''t'', t_status = Pending, t_action = ''chat'', t_peer = ''p'', t_payload = JsonNull, t_result = None,
      t_channel = ''c'', t_chat = ''d'', t_created_at = Stamp 0, t_completed_at = None\<rparr>"

definition sample_manager :: manager where
  "sample_manager = \<lparr>m_store = [''t'' \<mapsto> sample_task], m_fired = [], m_callback = True, m_pending_timeout = 24 * 3600\<rparr>"

theorem first_report_wins_witness:
  "\<exists>m1. settle_task 5 ''t'' Completed (Some JsonNull) sample_manager = (True, m1) \<and>
        settle_task 9 ''t'' Failed None m1 = (False, m1)"
proof -
  obtain ok m1 where s: "settle_task 5 ''t'' Completed (Some JsonNull) sample_manager = (ok, m1)" by fastforce
  have "m_store sample_manager ''t'' = Some sample_task" "t_status sample_task = Pending \<or> t_status sample_task = Running"
    "is_terminal_status Completed" by (simp_all add: sample_manager_def sample_task_def is_terminal_status_def)
  from first_report_wins [OF this s, of 9 Failed None] show ?thesis using s by simp
qed



theorem sweep_leaves_no_stuck_task_witness:
  "\<not> stuck 90000 (24 * 3600) Pending (m_store (cleanup_completed [''t''] 90000 True sample_manager)) ''t''"
proof -
  have "store_wf (m_store sample_manager)" "dom (m_store sample_manager) \<subseteq> set [''t'']" "m_pending_timeout sample_manager = 24 * 3600"
    by (simp_all add: store_wf_def sample_manager_def sample_task_def task_wf_def is_terminal_status_def)
  then show ?thesis using sweep_leaves_no_stuck_task [of sample_manager "[''t'']" Pending 90000 True "''t''"] by simp
qed

end
