(* ===== verification/Conditions.thy ===== *)
theory Conditions
  imports Complex_Main WorkflowRun "HOL-Library.List_Lexorder" "HOL-Library.Char_ord"
begin

text \<open>
  The conditions of workflows (nemesis-workflow: nodes.rs, \<^verbatim>\<open>evaluate_condition\<close> and its helpers), which the
  scheduler asks for the edges of a graph and which condition and loop nodes evaluate.

  Floating-point numbers that are not-a-number or infinite only arise from parsing; the finite ones are the
  rationals that a double represents, and parsing rounds to the nearest of them, ties to even.  The values of
  serde_json are a parameter: the number a JSON number stands for, and the texts of values.  The context is a
  hash map; its entries come as a list in the order of iteration.  \<^verbatim>\<open>evaluate_condition\<close> calls itself without
  a bound, so its result is an option, with \<open>None\<close> for a call that never returns.
\<close>

subsection \<open>Numbers\<close>

datatype f64 = Finite rat | Infinite bool | NotANumber

definition pow2 :: "int \<Rightarrow> rat" where
  "pow2 k = (if 0 \<le> k then 2 ^ nat k else 1 / 2 ^ nat (- k))"

fun bit_length :: "nat \<Rightarrow> nat" where
  "bit_length n = (if n = 0 then 0 else Suc (bit_length (n div 2)))"

declare bit_length.simps [simp del]

definition round_half_even :: "rat \<Rightarrow> int" where
  "round_half_even x =
     (let f = \<lfloor>x\<rfloor>; d = x - of_int f
      in if d < 1 / 2 then f else if 1 / 2 < d then f + 1 else if even f then f else f + 1)"

text \<open>The double nearest to a positive number: 53 binary digits, exponents from -1074, infinite from 2 to the 1024.\<close>

definition ulp_exponent :: "rat \<Rightarrow> int" where
  "ulp_exponent x =
     (let (n, d) = quotient_of x; e = int (bit_length (nat n)) - int (bit_length (nat d)) - 53
      in max (if pow2 (e + 53) \<le> x then e + 1 else e) (- 1074))"

definition round_positive :: "bool \<Rightarrow> rat \<Rightarrow> f64" where
  "round_positive neg x =
     (let e = ulp_exponent x; v = of_int (round_half_even (x / pow2 e)) * pow2 e
      in if pow2 1024 \<le> v then Infinite neg else Finite (if neg then - v else v))"

definition round_f64 :: "bool \<Rightarrow> rat \<Rightarrow> f64" where
  "round_f64 neg x = (if x = 0 then Finite 0 else round_positive neg x)"

definition digits_value :: "str \<Rightarrow> nat" where
  "digits_value ds = fold (\<lambda>c v. 10 * v + (of_char c - 48)) ds 0"

definition scientific :: "str \<Rightarrow> int option" where
  "scientific s =
     (let (neg, ds) = (case s of c # t \<Rightarrow> if c = CHR ''-'' then (True, t) else if c = CHR ''+'' then (False, t) else (False, s)
                               | [] \<Rightarrow> (False, []))
      in if ds = [] \<or> \<not> list_all is_ascii_digit ds then None
         else Some (if neg then - int (digits_value ds) else int (digits_value ds)))"

text \<open>Digits with an optional point and an optional exponent, at least one digit before the exponent.\<close>

definition parse_decimal :: "str \<Rightarrow> rat option" where
  "parse_decimal s =
     (let i = takeWhile is_ascii_digit s; r = dropWhile is_ascii_digit s;
          (f, r') = (case r of c # t \<Rightarrow> if c = CHR ''.'' then (takeWhile is_ascii_digit t, dropWhile is_ascii_digit t) else ([], r)
                             | [] \<Rightarrow> ([], []));
          e = (case r' of [] \<Rightarrow> Some 0
                 | c # t \<Rightarrow> if c = CHR ''e'' \<or> c = CHR ''E'' then scientific t else None)
      in if i = [] \<and> f = [] then None
         else map_option (\<lambda>k. let k = k - int (length f) in
                of_nat (digits_value (i @ f)) * (if 0 \<le> k then 10 ^ nat k else 1 / 10 ^ nat (- k))) e)"

definition parse_inf_nan :: "bool \<Rightarrow> str \<Rightarrow> f64 option" where
  "parse_inf_nan neg s =
     (let l = to_lowercase s
      in if l = ''nan'' then Some NotANumber
         else if l = ''inf'' \<or> l = ''infinity'' then Some (Infinite neg) else None)"

definition parse_f64 :: "str \<Rightarrow> f64 option" where
  "parse_f64 s =
     (let (neg, t) = (case s of c # t \<Rightarrow> if c = CHR ''-'' then (True, t) else if c = CHR ''+'' then (False, t) else (False, s)
                              | [] \<Rightarrow> (False, []))
      in if t = [] then None
         else case parse_decimal t of
                Some x \<Rightarrow> Some (round_f64 neg x)
              | None \<Rightarrow> parse_inf_nan neg t)"

subsection \<open>Operands and comparison\<close>

record json_lib =
  jl_text :: "json \<Rightarrow> str"
  jl_number :: "str \<Rightarrow> rat"
  jl_float_text :: "rat \<Rightarrow> str"

type_synonym cond_context = "(str \<times> json) list"

text \<open>An operand is a JSON value or a number that was read from the condition itself.\<close>

datatype operand = Value json | Literal rat

definition quoted :: "str \<Rightarrow> bool" where
  "quoted s \<longleftrightarrow> 2 \<le> length s \<and> (hd s = DQUOTE \<and> last s = DQUOTE \<or> hd s = SQUOTE \<and> last s = SQUOTE)"

definition resolve_operand :: "cond_context \<Rightarrow> str \<Rightarrow> operand" where
  "resolve_operand ctx s =
     (let t = trim s in
      if t = [] then Value JNull
      else if quoted t then Value (JString (butlast (tl t)))
      else case map_of ctx t of
             Some v \<Rightarrow> Value v
           | None \<Rightarrow>
               (case parse_f64 t of
                  Some (Finite x) \<Rightarrow> Literal x
                | _ \<Rightarrow> if t = ''true'' then Value (JBool True)
                       else if t = ''false'' then Value (JBool False)
                       else if t = ''null'' then Value JNull
                       else Value (JString t)))"

fun operand_number :: "json_lib \<Rightarrow> operand \<Rightarrow> rat option" where
  "operand_number lib (Literal x) = Some x"
| "operand_number lib (Value (JNumber n)) = Some (jl_number lib n)"
| "operand_number lib _ = None"

fun operand_text :: "json_lib \<Rightarrow> operand \<Rightarrow> str" where
  "operand_text lib (Literal x) = jl_float_text lib x"
| "operand_text lib (Value (JString s)) = s"
| "operand_text lib (Value v) = jl_text lib v"

definition compare_by :: "str \<Rightarrow> ('a::linorder) \<Rightarrow> 'a \<Rightarrow> bool" where
  "compare_by op a b =
     (if op = ''>='' then b \<le> a else if op = ''<='' then a \<le> b else if op = ''=='' then a = b
      else if op = ''!='' then a \<noteq> b else if op = ''>'' then b < a else if op = ''<'' then a < b else False)"

definition compare_values :: "json_lib \<Rightarrow> cond_context \<Rightarrow> str \<Rightarrow> str \<Rightarrow> str \<Rightarrow> bool" where
  "compare_values lib ctx left right op =
     (let lv = resolve_operand ctx left; rv = resolve_operand ctx right
      in case (operand_number lib lv, operand_number lib rv) of
           (Some a, Some b) \<Rightarrow> compare_by op a b
         | _ \<Rightarrow> compare_by op (operand_text lib lv) (operand_text lib rv))"

definition is_truthy_str :: "str \<Rightarrow> bool" where
  "is_truthy_str s =
     (let t = trim s in t \<noteq> [] \<and> \<not> eq_ignore_ascii_case t ''false'' \<and> t \<noteq> ''0'' \<and> t \<noteq> ''0.0'')"

fun is_truthy :: "json_lib \<Rightarrow> json \<Rightarrow> bool" where
  "is_truthy lib JNull = False"
| "is_truthy lib (JBool b) = b"
| "is_truthy lib (JNumber n) = (jl_number lib n \<noteq> 0)"
| "is_truthy lib (JString s) = (s \<noteq> [])"
| "is_truthy lib (JArray xs) = (xs \<noteq> [])"
| "is_truthy lib (JObject kvs) = (kvs \<noteq> [])"

subsection \<open>Conditions\<close>

definition condition_operators :: "str list" where
  "condition_operators = [''>='', ''<='', ''=='', ''!='', ''>'', ''<'']"

definition split_once_str :: "str \<Rightarrow> str \<Rightarrow> (str \<times> str) option" where
  "split_once_str p s = map_option (\<lambda>i. (take i s, drop (i + length p) s)) (find_str p s)"

fun first_operator :: "str list \<Rightarrow> str \<Rightarrow> (str \<times> str \<times> str) option" where
  "first_operator [] s = None"
| "first_operator (op # ops) s =
     (case split_once_str op s of Some (l, r) \<Rightarrow> Some (op, l, r) | None \<Rightarrow> first_operator ops s)"

text \<open>Steps 2 to 4: a resolved condition that does not begin with an exclamation mark.\<close>

definition resolved_condition :: "json_lib \<Rightarrow> cond_context \<Rightarrow> str \<Rightarrow> bool" where
  "resolved_condition lib ctx resolved =
     (let l = to_lowercase resolved in
      if l = ''true'' \<or> l = ''yes'' \<or> l = ''1'' then True
      else if l = ''false'' \<or> l = ''no'' \<or> l = ''0'' then False
      else case first_operator condition_operators resolved of
             Some (op, left, right) \<Rightarrow> compare_values lib ctx (trim left) (trim right) op
           | None \<Rightarrow>
               (case map_of ctx resolved of
                  Some v \<Rightarrow> is_truthy lib v
                | None \<Rightarrow> is_truthy_str resolved))"

partial_function (option) evaluate_condition :: "json_lib \<Rightarrow> str \<Rightarrow> cond_context \<Rightarrow> bool option" where
  "evaluate_condition lib expr ctx =
     (let cond = trim expr in
      if cond = [] then Some False
      else
        (let resolved = trim (resolve_prompt_template (jl_text lib) cond ctx) in
         case strip_prefix ''!'' resolved of
           Some rest \<Rightarrow> Option.bind (evaluate_condition lib rest ctx) (\<lambda>b. Some (\<not> b))
         | None \<Rightarrow> Some (resolved_condition lib ctx resolved)))"

subsection \<open>Lemmas: placeholders\<close>

lemma replace_str_absent: "\<not> sublist p s \<Longrightarrow> replace_str p r s = s"
proof (induction s)
  case (Cons x xs)
  then show ?case by (auto simp: replace_str.simps(2) sublist_Cons_right)
qed simp

lemma replace_str_self: "p \<noteq> [] \<Longrightarrow> replace_str p r p = r"
  using replace_str_hit [of p r "[]"] by simp

lemma not_sublist_placeholder: "\<not> sublist ''{{'' s \<Longrightarrow> \<not> sublist (''{{'' @ k) s"
  by (meson prefixI prefix_imp_sublist sublist_order.order.trans)

lemma resolve_without_placeholder:
  "\<not> sublist ''{{'' s \<Longrightarrow> resolve_prompt_template tt s ctx = s"
  unfolding resolve_prompt_template_def
proof (induction ctx)
  case (Cons e ctx)
  then show ?case using replace_str_absent [OF not_sublist_placeholder] by (cases e) simp
qed simp

lemma sublist_trim: "sublist (trim s) s"
  unfolding trim_def trim_start_def trim_end_def
  by (metis rev_rev_ident sublist_order.order.trans suffix_dropWhile suffix_imp_sublist sublist_rev)

lemma length_trim_le: "length (trim s) \<le> length s"
  by (rule sublist_length_le [OF sublist_trim])

text \<open>White space around a text stays around it: no placeholder begins or ends with white space.\<close>


lemma prefix_before_space:
  assumes "p \<noteq> []" "\<not> is_whitespace (last p)" "\<forall>c \<in> set w. is_whitespace c"
  shows "prefix p (s @ w) = prefix p s"
proof -
  have "prefix p s" if "p = s @ us" "prefix us w" for us
  proof (cases "us = []")
    case False
    then have "last p \<in> set us" using that by simp
    then have "last p \<in> set w" using that(2) by (auto simp: prefix_def)
    then show ?thesis using assms by blast
  qed (use that in simp)
  then show ?thesis by (auto simp: prefix_append)
qed

lemma replace_str_before_space:
  assumes "p \<noteq> []" "\<not> is_whitespace (hd p)" "\<not> is_whitespace (last p)" "\<forall>c \<in> set w. is_whitespace c"
  shows "replace_str p r (s @ w) = replace_str p r s @ w"
  using assms
proof (induction p r s rule: replace_str.induct)
  case (1 p r)
  have "c \<in> set w \<Longrightarrow> c \<noteq> hd p" for c using 1 by auto
  then have "hd p \<notin> set w" by blast
  then show ?case using replace_str_skip_list [of "hd p" w "tl p" r "[]"] 1 by simp
next
  case (2 p r x xs)
  have pre: "prefix p (x # xs @ w) = prefix p (x # xs)" using prefix_before_space [of p w "x # xs"] 2 by simp
  show ?case
  proof (cases "prefix p (x # xs)")
    case True
    then have "length p \<le> length (x # xs)" by (rule prefix_length_le)
    then have "drop (length p) (x # xs @ w) = drop (length p) (x # xs) @ w" by (metis append_Cons drop_append diff_is_0_eq drop_0)
    then show ?thesis using True 2 pre by (simp add: replace_str.simps(2))
  next
    case False
    then show ?thesis using 2 pre by (simp add: replace_str.simps(2))
  qed
qed

lemma replace_str_after_space:
  assumes "p \<noteq> []" "\<not> is_whitespace (hd p)" "\<forall>c \<in> set w. is_whitespace c"
  shows "replace_str p r (w @ s) = w @ replace_str p r s"
proof -
  have "hd p \<notin> set w" using assms by auto
  then show ?thesis using replace_str_skip_list [of "hd p" w "tl p" r s] assms by simp
qed

lemma trim_decompose: "\<exists>v w. s = v @ trim s @ w \<and> (\<forall>c \<in> set v. is_whitespace c) \<and> (\<forall>c \<in> set w. is_whitespace c)"
proof -
  let ?d = "dropWhile is_whitespace s"
  let ?v = "takeWhile is_whitespace s" and ?w = "rev (takeWhile is_whitespace (rev ?d))"
  have "?d = trim s @ ?w"
    unfolding trim_def trim_start_def trim_end_def
    by (metis rev_append rev_rev_ident takeWhile_dropWhile_id)
  then have "s = ?v @ trim s @ ?w" by (metis takeWhile_dropWhile_id)
  moreover have "\<forall>c \<in> set ?v. is_whitespace c" "\<forall>c \<in> set ?w. is_whitespace c" by (auto dest: set_takeWhileD)
  ultimately show ?thesis by blast
qed

lemma resolve_around_space:
  assumes "\<forall>c \<in> set v. is_whitespace c" "\<forall>c \<in> set w. is_whitespace c"
  shows "resolve_prompt_template tt (v @ s @ w) ctx = v @ resolve_prompt_template tt s ctx @ w"
  unfolding resolve_prompt_template_def
proof (induction ctx arbitrary: s)
  case (Cons e ctx)
  obtain k x where e: "e = (k, x)" by (cases e)
  have ends: "\<not> is_whitespace CHR ''{''" "\<not> is_whitespace CHR ''}''" by code_simp+
  have "replace_str (''{{'' @ k @ ''}}'') r (v @ s @ w) = v @ replace_str (''{{'' @ k @ ''}}'') r s @ w" for r
    using assms ends by (simp add: replace_str_after_space replace_str_before_space)
  note step = this
  show ?case by (simp only: e fold.simps o_apply case_prod_conv step Cons.IH)
qed simp

lemma resolve_trim_placeholder:
  "\<not> sublist ''{{'' (resolve_prompt_template tt s ctx) \<Longrightarrow> \<not> sublist ''{{'' (resolve_prompt_template tt (trim s) ctx)"
proof -
  obtain v w where s: "s = v @ trim s @ w" "\<forall>c \<in> set v. is_whitespace c" "\<forall>c \<in> set w. is_whitespace c"
    using trim_decompose by blast
  have "resolve_prompt_template tt s ctx = v @ resolve_prompt_template tt (trim s) ctx @ w"
    using resolve_around_space [OF s(2,3), of tt "trim s" ctx] s(1) by simp
  then show "\<not> sublist ''{{'' (resolve_prompt_template tt s ctx) \<Longrightarrow> ?thesis"
    by (metis sublist_appendI sublist_order.order.trans)
qed

subsection \<open>Evaluation returns on resolved conditions\<close>

text \<open>The reference: the verdict on a text in which nothing is left to resolve.\<close>

function plain_condition :: "json_lib \<Rightarrow> cond_context \<Rightarrow> str \<Rightarrow> bool" where
  "plain_condition lib ctx s =
     (let t = trim s in
      if t = [] then False
      else case strip_prefix ''!'' t of
             Some r \<Rightarrow> \<not> plain_condition lib ctx r
           | None \<Rightarrow> resolved_condition lib ctx t)"
  by pat_completeness auto

lemma strip_prefix_shorter: "strip_prefix p s = Some r \<Longrightarrow> p \<noteq> [] \<Longrightarrow> length r < length s \<and> sublist r s"
  by (auto simp: strip_prefix_def prefix_def split: if_splits)

termination plain_condition
proof (relation "measure (\<lambda>(lib, ctx, s). length s)")
  fix lib :: json_lib and ctx s x r
  assume "x = trim s" "strip_prefix ''!'' x = Some r"
  then show "((lib, ctx, r), lib, ctx, s) \<in> measure (\<lambda>(lib, ctx, s). length s)"
    using strip_prefix_shorter [of "''!''" "trim s" r] length_trim_le [of s] by simp
qed simp

declare plain_condition.simps [simp del]

lemma evaluate_plain:
  assumes "\<not> sublist ''{{'' s"
  shows "evaluate_condition lib s ctx = Some (plain_condition lib ctx s)"
  using assms
proof (induction "length s" arbitrary: s rule: less_induct)
  case less
  have t: "\<not> sublist ''{{'' (trim s)" using less.prems sublist_trim sublist_order.order.trans by blast
  show ?case
  proof (cases "strip_prefix ''!'' (trim s)")
    case None
    then show ?thesis
      using t by (simp add: evaluate_condition.simps [of lib s] plain_condition.simps [of lib ctx s] resolve_without_placeholder Let_def)
  next
    case (Some r)
    then have "length r < length s" "\<not> sublist ''{{'' r"
      using strip_prefix_shorter [OF Some] length_trim_le [of s] t sublist_order.order.trans by auto
    then have "evaluate_condition lib r ctx = Some (plain_condition lib ctx r)" by (rule less.hyps)
    then show ?thesis
      using t Some by (simp add: evaluate_condition.simps [of lib s] plain_condition.simps [of lib ctx s] resolve_without_placeholder Let_def)
  qed
qed

lemma evaluate_resolved:
  assumes "\<not> sublist ''{{'' (resolve_prompt_template (jl_text lib) (trim cond) ctx)"
  shows "\<exists>b. evaluate_condition lib cond ctx = Some b"
    and "map_of ctx [] = None \<Longrightarrow> evaluate_condition lib cond ctx =
      Some (plain_condition lib ctx (resolve_prompt_template (jl_text lib) (trim cond) ctx))"
proof -
  define r where "r = trim (resolve_prompt_template (jl_text lib) (trim cond) ctx)"
  have r: "\<not> sublist ''{{'' r" using assms sublist_trim sublist_order.order.trans unfolding r_def by blast
  have rest: "evaluate_condition lib t ctx = Some (plain_condition lib ctx t)" if "strip_prefix ''!'' r = Some t" for t
    using strip_prefix_shorter [OF that] r sublist_order.order.trans by (intro evaluate_plain) auto
  have e: "evaluate_condition lib cond ctx =
      Some (if trim cond = [] then False
            else case strip_prefix ''!'' r of Some t \<Rightarrow> \<not> plain_condition lib ctx t | None \<Rightarrow> resolved_condition lib ctx r)"
    unfolding evaluate_condition.simps [of lib cond] Let_def r_def [symmetric]
    by (cases "strip_prefix ''!'' r") (simp_all add: rest)
  then show "\<exists>b. evaluate_condition lib cond ctx = Some b" by blast
  assume empty: "map_of ctx [] = None"
  have "resolved_condition lib ctx [] = False"
    using empty by (simp add: resolved_condition_def condition_operators_def split_once_str_def is_truthy_str_def)
  moreover have "trim cond = [] \<Longrightarrow> r = []" by (simp add: r_def resolve_without_placeholder)
  ultimately show "evaluate_condition lib cond ctx =
      Some (plain_condition lib ctx (resolve_prompt_template (jl_text lib) (trim cond) ctx))"
    unfolding e plain_condition.simps [of lib ctx "resolve_prompt_template (jl_text lib) (trim cond) ctx"] r_def [symmetric] Let_def
    by (cases "r = []") (auto simp: strip_prefix_def)
qed

text \<open>
  C33: The evaluation of a condition returns whenever its placeholders were all resolved, which is what the
  scheduler tests before it evaluates the condition of an edge.  When no entry of the context has the empty
  name, the verdict is that of the resolved text, with one negation for every leading exclamation mark.
\<close>

theorem resolved_conditions_return:
  assumes "\<not> contains_str (resolve_prompt_template (jl_text lib) cond ctx) ''{{''"
  shows "(\<exists>b. evaluate_condition lib cond ctx = Some b) \<and>
    (map_of ctx [] = None \<longrightarrow> evaluate_condition lib cond ctx =
      Some (plain_condition lib ctx (resolve_prompt_template (jl_text lib) (trim cond) ctx)))"
  using evaluate_resolved resolve_trim_placeholder [of "jl_text lib" cond ctx] assms
  by (simp_all add: contains_str_iff_sublist)

text \<open>
  A value can keep the evaluation from ever returning.  When the value that a placeholder names is an
  exclamation mark followed by the placeholder itself, every call strips the mark, resolves the
  rest anew and calls itself on the same condition; the code recurses until its stack is exhausted.
\<close>

theorem self_negating_value_diverges:
  "evaluate_condition lib (''{{'' @ k @ ''}}'') [(k, JString (''!{{'' @ k @ ''}}''))] = None"
proof -
  let ?p = "''{{'' @ k @ ''}}''" and ?ctx = "[(k, JString (''!{{'' @ k @ ''}}''))]"
  have ws: "\<not> is_whitespace CHR ''{''" "\<not> is_whitespace CHR ''}''" "\<not> is_whitespace CHR ''!''" by code_simp+
  have trims: "trim ?p = ?p" "trim (''!'' @ ?p) = ''!'' @ ?p" using ws by (auto intro!: trim_ends)
  have res: "resolve_prompt_template tt ?p ?ctx = ''!'' @ ?p" for tt
    using replace_str_self [of ?p "''!'' @ ?p"] by (simp add: resolve_prompt_template_def)
  have strip: "strip_prefix ''!'' (''!'' @ ?p) = Some ?p" by (simp add: strip_prefix_def)
  have "evaluate_condition lib ?p ?ctx \<noteq> Some b" for b
  proof
    assume ret: "evaluate_condition lib ?p ?ctx = Some b"
    have "\<not> (?p = ?p \<and> ?ctx = ?ctx)"
    proof (rule evaluate_condition.raw_induct [where P = "\<lambda>lib e c b. \<not> (e = ?p \<and> c = ?ctx)", OF _ ret])
      fix f :: "json_lib \<Rightarrow> str \<Rightarrow> cond_context \<Rightarrow> bool option" and lib expr ctx b
      assume IH: "\<And>lib e c b. f lib e c = Some b \<Longrightarrow> \<not> (e = ?p \<and> c = ?ctx)"
        and eq: "(let cond = trim expr
                  in if cond = [] then Some False
                     else let resolved = trim (resolve_prompt_template (jl_text lib) cond ctx)
                          in case strip_prefix ''!'' resolved of
                               None \<Rightarrow> Some (resolved_condition lib ctx resolved)
                             | Some rest \<Rightarrow> Option.bind (f lib rest ctx) (\<lambda>b. Some (\<not> b))) = Some b"
      show "\<not> (expr = ?p \<and> ctx = ?ctx)"
      proof
        assume c: "expr = ?p \<and> ctx = ?ctx"
        have "Option.bind (f lib ?p ?ctx) (\<lambda>b. Some (\<not> b)) = Some b"
          using eq unfolding c [THEN conjunct1] c [THEN conjunct2] Let_def trims(1) res trims(2) strip by simp
        then show False using IH by (auto simp: bind_eq_Some_conv)
      qed
    qed
    then show False by simp
  qed
  then show ?thesis using not_Some_eq by blast
qed

subsection \<open>Comparisons\<close>

lemma find_str_skip_list:
  "c \<notin> set l \<Longrightarrow> find_str (c # cs) (l @ r) = map_option ((+) (length l)) (find_str (c # cs) r)"
  by (cases "find_str (c # cs) r"; induction l) auto

lemma find_str_absent: "c \<notin> set l \<Longrightarrow> find_str (c # cs) l = None"
  using find_str_skip_list [of c l cs "[]"] by simp

definition operator_free :: "str \<Rightarrow> bool" where
  "operator_free s \<longleftrightarrow> CHR ''>'' \<notin> set s \<and> CHR ''<'' \<notin> set s \<and> CHR ''='' \<notin> set s \<and> CHR ''!'' \<notin> set s"

lemma operator_free_split:
  assumes "operator_free l" "operator_free r" "op \<in> set condition_operators"
  shows "first_operator condition_operators (l @ '' '' @ op @ '' '' @ r) = Some (op, l @ '' '', '' '' @ r)"
proof -
  have l: "find_str (c # cs) (l @ t) = map_option ((+) (length l)) (find_str (c # cs) t)"
    and r: "find_str (c # cs) r = None" if "c \<in> set ''><=!''" for c cs t
    using assms(1,2) that find_str_skip_list [of c l cs t] find_str_absent [of c r cs] by (auto simp: operator_free_def)
  show ?thesis using assms(3) by (auto simp: condition_operators_def split_once_str_def l r)
qed

lemma trim_append_solid:
  "\<not> is_whitespace (hd s) \<Longrightarrow> s \<noteq> [] \<Longrightarrow> \<not> is_whitespace (last t) \<Longrightarrow> t \<noteq> [] \<Longrightarrow> trim (s @ u @ t) = s @ u @ t"
  by (rule trim_ends) auto

definition solid :: "str \<Rightarrow> bool" where
  "solid s \<longleftrightarrow> s \<noteq> [] \<and> \<not> is_whitespace (hd s) \<and> \<not> is_whitespace (last s)"

lemma trim_solid: "solid s \<Longrightarrow> trim s = s"
  by (simp add: solid_def trim_ends)

lemma resolve_value:
  assumes "\<not> sublist ''{{'' rest"
  shows "resolve_prompt_template tt (''{{'' @ v @ ''}}'' @ rest) [(v, JString s)] = s @ rest"
proof -
  have "replace_str (''{{'' @ v @ ''}}'') s ((''{{'' @ v @ ''}}'') @ rest) = s @ rest"
    using replace_str_absent [OF not_sublist_placeholder [OF assms, of "v @ ''}}''"]] by (subst replace_str_hit) simp_all
  then show ?thesis by (simp add: resolve_prompt_template_def)
qed

lemma resolved_comparison:
  assumes "CHR '' '' \<in> set t" "first_operator condition_operators t = Some (op, l, r)"
  shows "resolved_condition lib ctx t = compare_values lib ctx (trim l) (trim r) op"
proof -
  have "to_lower_char CHR '' '' = CHR '' ''" by code_simp
  then have "CHR '' '' \<in> set (to_lowercase t)" using assms(1) unfolding to_lowercase_def set_map by (metis imageI)
  then have "to_lowercase t \<notin> {''true'', ''yes'', ''1'', ''false'', ''no'', ''0''}" by auto
  then show ?thesis using assms(2) by (simp add: resolved_condition_def)
qed

text \<open>A condition that begins with the placeholder of a text value and compares it.\<close>

lemma evaluate_value_condition:
  assumes "\<not> sublist ''{{'' (s @ rest)" "rest \<noteq> []" "\<not> is_whitespace (last rest)" "trim (s @ rest) = t"
  shows "evaluate_condition lib (''{{'' @ v @ ''}}'' @ rest) [(v, JString s)] =
    Some (case strip_prefix ''!'' t of Some r \<Rightarrow> \<not> plain_condition lib [(v, JString s)] r
          | None \<Rightarrow> resolved_condition lib [(v, JString s)] t)"
proof -
  let ?e = "''{{'' @ v @ ''}}'' @ rest"
  have ws: "\<not> is_whitespace CHR ''{''" by code_simp
  have e: "trim ?e = ?e" using assms(2,3) ws by (intro trim_ends) auto
  have rest: "\<not> sublist ''{{'' rest" using assms(1) sublist_append_rightI sublist_order.order.trans by blast
  have t: "\<not> sublist ''{{'' t" using assms(1,4) sublist_trim sublist_order.order.trans by blast
  have "evaluate_condition lib r ctx = Some (plain_condition lib ctx r)" if "strip_prefix ''!'' t = Some r" for r ctx
    using strip_prefix_shorter [OF that] t sublist_order.order.trans by (intro evaluate_plain) auto
  then show ?thesis
    unfolding evaluate_condition.simps [of lib ?e] Let_def e resolve_value [OF rest] assms(4)
    by (cases "strip_prefix ''!'' t") simp_all
qed

lemma sublist_pair_append:
  assumes "sublist [c, c] (x @ y)" "c \<notin> set x"
  shows "sublist [c, c] y"
  using assms by (induction x) (auto simp: sublist_Cons_right)

lemma no_placeholder_append:
  assumes "\<not> sublist ''{{'' x" "\<not> sublist ''{{'' y" "y = [] \<or> hd y \<noteq> CHR ''{''"
  shows "\<not> sublist ''{{'' (x @ y)"
  using assms(1)
proof (induction x)
  case (Cons a x)
  have "\<not> prefix ''{{'' ((a # x) @ y)" using Cons.prems assms(3) by (cases x; cases y) (auto simp: sublist_Cons_right)
  then show ?case using Cons by (simp add: sublist_Cons_right)
qed (use assms in simp)

lemma no_placeholder_operator: "op \<in> set condition_operators \<Longrightarrow> \<not> sublist ''{{'' ('' '' @ op @ '' '' @ x) \<longleftrightarrow> \<not> sublist ''{{'' x"
  by (auto simp: condition_operators_def sublist_Cons_right)

text \<open>
  A comparison means what it says on harmless texts.  When neither the text value of a placeholder nor the
  literal has an operator character or an opening placeholder, comparing them evaluates to the comparison of the two
  operands, as numbers if both are numbers and as texts otherwise.
\<close>

theorem comparison_of_value:
  assumes "op \<in> set condition_operators" "solid s" "solid lit" "operator_free s" "operator_free lit"
    and "\<not> sublist ''{{'' s" "\<not> sublist ''{{'' lit"
  shows "evaluate_condition lib (''{{'' @ v @ ''}} '' @ op @ '' '' @ lit) [(v, JString s)] =
    Some (compare_values lib [(v, JString s)] s lit op)"
proof -
  let ?rest = "'' '' @ op @ '' '' @ lit" and ?ctx = "[(v, JString s)]"
  have n: "\<not> sublist ''{{'' (s @ ?rest)"
    by (rule no_placeholder_append) (use assms no_placeholder_operator in \<open>auto simp del: append.simps\<close>)
  have t: "trim (s @ ?rest) = s @ ?rest" using assms(2,3) by (intro trim_ends) (auto simp: solid_def)
  have "strip_prefix ''!'' (s @ ?rest) = None"
    using assms(2,4) by (cases s) (auto simp: strip_prefix_def solid_def operator_free_def)
  moreover have "resolved_condition lib ?ctx (s @ ?rest) = compare_values lib ?ctx (trim (s @ '' '')) (trim ('' '' @ lit)) op"
    using operator_free_split [OF assms(4,5,1)] by (intro resolved_comparison) auto
  ultimately show ?thesis
    using evaluate_value_condition [OF n _ _ t, of lib v] assms(2,3) by (simp add: trim_solid solid_def)
qed

text \<open>
  The text of a value can take over a condition.  When a value contains \<^verbatim>\<open>>=\<close>, the condition that
  compares it with a literal by \<^verbatim>\<open>==\<close> is no longer this comparison: the value is split at its own operator, and
  its first part is compared with the rest of the value, the written operator and the literal.
\<close>

theorem value_takes_over_condition:
  assumes "operator_free a" "solid a" "solid lit" "\<not> sublist ''{{'' (a @ ''>='' @ b)" "\<not> sublist ''{{'' lit"
  shows "evaluate_condition lib (''{{'' @ v @ ''}} == '' @ lit) [(v, JString (a @ ''>='' @ b))] =
    Some (compare_values lib [(v, JString (a @ ''>='' @ b))] a (trim (b @ '' == '' @ lit)) ''>='')"
proof -
  let ?s = "a @ ''>='' @ b" and ?rest = "'' == '' @ lit"
  let ?ctx = "[(v, JString ?s)]" and ?t = "a @ ''>='' @ b @ '' == '' @ lit"
  have "\<not> sublist ''{{'' ?rest" using assms(5) by (auto simp: sublist_Cons_right)
  with assms(4) have n: "\<not> sublist ''{{'' (?s @ ?rest)" by (rule no_placeholder_append) simp
  have t: "trim (?s @ ?rest) = ?t" using assms(2,3) by (subst trim_ends) (auto simp: solid_def)
  have "find_str ''>='' ?t = Some (length a)"
    using assms(1) find_str_skip_list [of "CHR ''>''" a "''=''" "''>='' @ b @ '' == '' @ lit"] by (simp add: operator_free_def)
  then have "first_operator condition_operators ?t = Some (''>='', a, b @ '' == '' @ lit)"
    by (simp add: condition_operators_def split_once_str_def)
  then have "resolved_condition lib ?ctx ?t = compare_values lib ?ctx (trim a) (trim (b @ '' == '' @ lit)) ''>=''"
    by (intro resolved_comparison) auto
  moreover have "strip_prefix ''!'' ?t = None"
    using assms(1,2) by (cases a) (auto simp: strip_prefix_def solid_def operator_free_def)
  ultimately show ?thesis
    using evaluate_value_condition [OF n _ _ t, of lib v] assms(2,3) by (simp add: trim_solid solid_def)
qed

text \<open>
  An empty value inverts an inequality.  The comment in the code says that \<^verbatim>\<open>!=\<close> cannot begin a condition, but
  it does once the placeholder before it resolves to nothing: the exclamation mark is taken for a negation of
  \<^verbatim>\<open>= lit\<close>, which is a text that counts as true, so the condition that an empty value differs from a
  literal is false, although an empty operand counts as null and differs from every literal that does not read as null.
\<close>

theorem empty_value_never_differs:
  assumes "solid lit" "operator_free lit" "\<not> sublist ''{{'' lit" "v \<noteq> ''= '' @ lit"
  shows "evaluate_condition lib (''{{'' @ v @ ''}} != '' @ lit) [(v, JString [])] = Some False"
proof -
  let ?rest = "'' != '' @ lit" and ?ctx = "[(v, JString [])]" and ?u = "''= '' @ lit"
  have n: "\<not> sublist ''{{'' ([] @ ?rest)" using assms(3) by (auto simp: sublist_Cons_right)
  have "trim (''!= '' @ lit) = ''!= '' @ lit" using assms(1) by (intro trim_ends) (auto simp: solid_def is_whitespace_def)
  then have t: "trim ([] @ ?rest) = ''!= '' @ lit" by simp
  have u: "trim ?u = ?u" using assms(1) by (intro trim_ends) (auto simp: solid_def is_whitespace_def)
  have "find_str (c # cs) lit = None" if "c \<in> set ''><=!''" for c cs
    using assms(2) that find_str_absent [of c lit cs] by (auto simp: operator_free_def)
  then have "first_operator condition_operators ?u = None"
    by (auto simp: condition_operators_def split_once_str_def)
  moreover have "is_truthy_str ?u" unfolding is_truthy_str_def Let_def u
    by (auto simp: eq_ignore_ascii_case_def to_lowercase_def to_lower_char_def)
  moreover have "to_lowercase ?u \<notin> {''true'', ''yes'', ''1'', ''false'', ''no'', ''0''}"
    by (auto simp: to_lowercase_def to_lower_char_def)
  ultimately have "resolved_condition lib ?ctx ?u" using assms(4) by (simp add: resolved_condition_def)
  then have "plain_condition lib ?ctx ?u"
    unfolding plain_condition.simps [of lib ?ctx ?u] Let_def u by (simp add: strip_prefix_def)
  moreover have "strip_prefix ''!'' (''!= '' @ lit) = Some ?u" by (simp add: strip_prefix_def)
  ultimately show ?thesis
    using evaluate_value_condition [OF n _ _ t, of lib v] assms(1) by (simp add: solid_def)
qed

subsection \<open>Concrete conditions\<close>

definition example_lib :: json_lib where
  "example_lib =
     \<lparr>jl_text = (\<lambda>v. case v of JNull \<Rightarrow> ''null'' | JBool b \<Rightarrow> if b then ''true'' else ''false'' | JNumber n \<Rightarrow> n | _ \<Rightarrow> ''{}''),
      jl_number = (\<lambda>_. 0), jl_float_text = (\<lambda>_. ''0.0'')\<rparr>"

lemma resolved_conditions_return_witness:
  "evaluate_condition example_lib '' !! 1 < 2 '' [(''x'', JNull)] =
     Some (plain_condition example_lib [(''x'', JNull)] ''!! 1 < 2'')"
proof -
  have r: "resolve_prompt_template (jl_text example_lib) '' !! 1 < 2 '' [(''x'', JNull)] = '' !! 1 < 2 ''" by code_simp
  have t: "resolve_prompt_template (jl_text example_lib) (trim '' !! 1 < 2 '') [(''x'', JNull)] = ''!! 1 < 2''" by code_simp
  have "\<not> contains_str '' !! 1 < 2 '' ''{{''" by code_simp
  then show ?thesis
    using resolved_conditions_return [of example_lib "'' !! 1 < 2 ''" "[(''x'', JNull)]", unfolded r t] by simp
qed

lemma comparison_of_value_witness:
  "evaluate_condition example_lib ''{{state}} == done'' [(''state'', JString ''ok'')] = Some False"
proof -
  have "compare_values example_lib [(''state'', JString ''ok'')] ''ok'' ''done'' ''=='' = False" by code_simp
  moreover have "solid ''ok''" "solid ''done''" "operator_free ''ok''" "operator_free ''done''"
    "\<not> sublist ''{{'' ''ok''" "\<not> sublist ''{{'' ''done''" "''=='' \<in> set condition_operators" by code_simp+
  ultimately show ?thesis
    using comparison_of_value [of "''==''" "''ok''" "''done''" example_lib "''state''"] by simp
qed

lemma value_takes_over_condition_witness:
  "evaluate_condition example_lib ''{{state}} == done'' [(''state'', JString ''z>=a'')] = Some True"
proof -
  have "compare_values example_lib [(''state'', JString ''z>=a'')] ''z'' (trim (''a == done'')) ''>='' = True" by code_simp
  moreover have "solid ''z''" "solid ''done''" "operator_free ''z''" "\<not> sublist ''{{'' ''z>=a''" "\<not> sublist ''{{'' ''done''"
    by code_simp+
  ultimately show ?thesis
    using value_takes_over_condition [of "''z''" "''done''" "''a''" example_lib "''state''"] by simp
qed

lemma empty_value_never_differs_witness:
  "evaluate_condition example_lib ''{{error}} != ok'' [(''error'', JString [])] = Some False \<and>
   compare_values example_lib [(''error'', JString [])] [] ''ok'' ''!=''"
proof -
  have "solid ''ok''" "operator_free ''ok''" "\<not> sublist ''{{'' ''ok''" by code_simp+
  moreover have "compare_values example_lib [(''error'', JString [])] [] ''ok'' ''!=''" by code_simp
  ultimately show ?thesis
    using empty_value_never_differs [of "''ok''" "''error''" example_lib] by simp
qed

end
