(* ===== verification/WorkflowNodes.thy ===== *)
theory WorkflowNodes
  imports Conditions
begin

text \<open>
  Executors of workflow nodes that have logic of their own (nemesis-workflow: nodes.rs): condition, parallel and
  loop nodes, the list a loop runs over, and the two nodes that ask a language model until its answer
  can be used, the question classifier and the parameter extractor.

  What the executors of child nodes and the language model answer is a parameter, by the number of the
  call; so are the JSON parser and the resolution of credential references.  An operation that evaluates a
  condition is an option, with \<open>None\<close> when the evaluation does not return.  Times and metadata of results are left out.
\<close>

subsection \<open>Configuration\<close>

definition config_str :: "json \<Rightarrow> str \<Rightarrow> str option" where
  "config_str cfg k = Option.bind (json_get cfg k) json_as_str"

fun json_as_array :: "json \<Rightarrow> json list option" where
  "json_as_array (JArray xs) = Some xs"
| "json_as_array _ = None"

definition str_items :: "json list \<Rightarrow> str list" where
  "str_items = List.map_filter json_as_str"

definition child_def :: "(json \<Rightarrow> nat option) \<Rightarrow> json \<Rightarrow> node_def option" where
  "child_def as_u64 item =
     (case item of
        JObject obj \<Rightarrow>
          Some \<lparr>nd_id = (case config_str item ''id'' of Some s \<Rightarrow> s | None \<Rightarrow> []),
               node_type = (case (case json_get item ''node_type'' of Some v \<Rightarrow> Some v | None \<Rightarrow> json_get item ''type'') of
                              Some v \<Rightarrow> (case json_as_str v of Some s \<Rightarrow> s | None \<Rightarrow> [])
                            | None \<Rightarrow> []),
               nd_config = JObject (case json_get item ''config'' of Some (JObject m) \<Rightarrow> m | _ \<Rightarrow> []),
               depends_on = (case Option.bind (json_get item ''depends_on'') json_as_array of Some a \<Rightarrow> str_items a | None \<Rightarrow> []),
               retry_count = (case Option.bind (json_get item ''retry_count'') as_u64 of Some n \<Rightarrow> n | None \<Rightarrow> 0)\<rparr>
      | _ \<Rightarrow> None)"

definition get_config_node_list :: "(json \<Rightarrow> nat option) \<Rightarrow> json \<Rightarrow> str \<Rightarrow> node_def list" where
  "get_config_node_list as_u64 cfg key =
     (case Option.bind (json_get cfg key) json_as_array of
        None \<Rightarrow> []
      | Some items \<Rightarrow> List.map_filter (child_def as_u64) items)"

text \<open>
  The services of an executor.  A child is executed at the position of its call: the iteration of the loop and its
  place in the body, or the place of the branch.  A branch runs in a task of its own, which can panic; a panic of the child
  of a loop ends the whole run and is left out.
\<close>

datatype child_outcome = ChildResult node_result | ChildError str | ChildPanic str

record node_env =
  ne_json :: json_lib
  ne_u64 :: "json \<Rightarrow> nat option"
  ne_parse :: "str \<Rightarrow> json option"
  ne_secret :: "str \<Rightarrow> str \<Rightarrow> str + str"
  ne_registered :: "str \<Rightarrow> bool"
  ne_child :: "nat \<Rightarrow> nat \<Rightarrow> node_def \<Rightarrow> cond_context \<Rightarrow> str + node_result"
  ne_panics :: "nat \<Rightarrow> str option"

definition completed :: "json \<Rightarrow> str option \<Rightarrow> node_result" where
  "completed out err = \<lparr>nr_state = Completed, nr_output = out, nr_error = err\<rparr>"

definition failed_node_result :: "str \<Rightarrow> node_result" where
  "failed_node_result err = \<lparr>nr_state = Failed, nr_output = JNull, nr_error = Some err\<rparr>"

text \<open>The debug form of a text in a message: quotation marks around it (characters that would be escaped are kept).\<close>

definition debug_str :: "str \<Rightarrow> str" where
  "debug_str s = DQUOTE # s @ [DQUOTE]"

definition number :: "nat \<Rightarrow> json" where
  "number n = JNumber (decimal n)"

subsection \<open>Condition nodes\<close>

definition condition_node :: "node_env \<Rightarrow> node_def \<Rightarrow> cond_context \<Rightarrow> node_result option" where
  "condition_node env n ctx =
     map_option (\<lambda>b. completed (JObject [(''condition_result'', JBool b)]) None)
       (evaluate_condition (ne_json env) (case config_str (nd_config n) ''condition'' of Some s \<Rightarrow> s | None \<Rightarrow> ''false'') ctx)"

subsection \<open>Templates\<close>

definition is_secret_reference :: "str \<Rightarrow> bool" where
  "is_secret_reference s \<longleftrightarrow> prefix ''env:'' s \<or> prefix ''yaml:'' s \<or> prefix ''vault:'' s"

definition resolve_runtime_string :: "node_env \<Rightarrow> cond_context \<Rightarrow> str \<Rightarrow> str \<Rightarrow> str + str" where
  "resolve_runtime_string env ctx raw field =
     (if is_secret_reference raw then ne_secret env raw field
      else Inr (resolve_prompt_template (jl_text (ne_json env)) raw ctx))"

fun resolve_template_value :: "node_env \<Rightarrow> cond_context \<Rightarrow> str \<Rightarrow> json \<Rightarrow> str + json"
  and resolve_elements :: "node_env \<Rightarrow> cond_context \<Rightarrow> str \<Rightarrow> json list \<Rightarrow> str + json list"
  and resolve_fields :: "node_env \<Rightarrow> cond_context \<Rightarrow> str \<Rightarrow> (str \<times> json) list \<Rightarrow> str + (str \<times> json) list" where
  "resolve_template_value env ctx field (JString s) =
     (case resolve_runtime_string env ctx s field of Inl e \<Rightarrow> Inl e | Inr r \<Rightarrow> Inr (JString r))"
| "resolve_template_value env ctx field (JArray xs) =
     (case resolve_elements env ctx field xs of Inl e \<Rightarrow> Inl e | Inr ys \<Rightarrow> Inr (JArray ys))"
| "resolve_template_value env ctx field (JObject kvs) =
     (case resolve_fields env ctx field kvs of Inl e \<Rightarrow> Inl e | Inr ys \<Rightarrow> Inr (JObject ys))"
| "resolve_template_value env ctx field v = Inr v"
| "resolve_elements env ctx field [] = Inr []"
| "resolve_elements env ctx field (x # xs) =
     (case resolve_template_value env ctx field x of
        Inl e \<Rightarrow> Inl e
      | Inr y \<Rightarrow> (case resolve_elements env ctx field xs of Inl e \<Rightarrow> Inl e | Inr ys \<Rightarrow> Inr (y # ys)))"
| "resolve_fields env ctx field [] = Inr []"
| "resolve_fields env ctx field ((k, v) # kvs) =
     (case resolve_template_value env ctx (field @ ''.'' @ k) v of
        Inl e \<Rightarrow> Inl e
      | Inr y \<Rightarrow> (case resolve_fields env ctx field kvs of Inl e \<Rightarrow> Inl e | Inr ys \<Rightarrow> Inr ((k, y) # ys)))"

text \<open>The list of a loop: a literal array, a single placeholder that names an array, a JSON array in a text, or the lines of a text.\<close>

definition whole_reference :: "str \<Rightarrow> str option" where
  "whole_reference s =
     (if prefix ''{{'' s \<and> suffix ''}}'' s
      then (let inner = trim (take (length s - 4) (drop 2 s))
            in if inner \<noteq> [] \<and> \<not> contains_str inner ''{{'' \<and> CHR '' '' \<notin> set inner then Some inner else None)
      else None)"

definition resolve_items_list :: "node_env \<Rightarrow> cond_context \<Rightarrow> json \<Rightarrow> str + json list" where
  "resolve_items_list env ctx raw =
     (case json_as_array raw of
        Some xs \<Rightarrow> resolve_elements env ctx ''foreach.items'' xs
      | None \<Rightarrow>
          (case json_as_str raw of
             None \<Rightarrow> Inl (''foreach `items` must be an array or a string, got '' @ jl_text (ne_json env) raw)
           | Some s \<Rightarrow>
               (let t = trim s in
                if t = [] then Inr []
                else case Option.bind (Option.bind (whole_reference t) (map_of ctx)) json_as_array of
                       Some xs \<Rightarrow> Inr xs
                     | None \<Rightarrow>
                         (case resolve_runtime_string env ctx t ''foreach.items'' of
                            Inl e \<Rightarrow> Inl e
                          | Inr r \<Rightarrow>
                              (case Option.bind (ne_parse env r) json_as_array of
                                 Some xs \<Rightarrow> Inr xs
                               | None \<Rightarrow> Inr (map JString (filter (\<lambda>l. l \<noteq> []) (map trim (str_lines r)))))))))"

subsection \<open>Parallel nodes\<close>

text \<open>The branches are all started; their results are collected in order.\<close>

definition run_branch :: "node_env \<Rightarrow> cond_context \<Rightarrow> nat \<Rightarrow> node_def \<Rightarrow> child_outcome" where
  "run_branch env ctx idx child =
     (if \<not> ne_registered env (node_type child)
      then ChildError (''unknown node type '' @ debug_str (node_type child) @ '' in parallel block'')
      else case ne_panics env idx of
             Some e \<Rightarrow> ChildPanic e
           | None \<Rightarrow> (case ne_child env 0 idx child ctx of Inl e \<Rightarrow> ChildError e | Inr r \<Rightarrow> ChildResult r))"

definition or_first :: "str option \<Rightarrow> str option \<Rightarrow> str option" where
  "or_first first e = (if first = None then e else first)"

fun error_json :: "str option \<Rightarrow> json" where
  "error_json None = JNull"
| "error_json (Some e) = JString e"

fun merge_branch :: "nat \<Rightarrow> child_outcome \<Rightarrow> (str \<times> json) list \<times> str option \<Rightarrow> (str \<times> json) list \<times> str option" where
  "merge_branch idx (ChildResult r) (merged, first) =
     (let key = ''branch_'' @ decimal idx in
      if nr_state r = Failed
      then (AList.update key (JObject [(''error'', error_json (nr_error r)), (''output'', nr_output r)]) merged,
            or_first first (nr_error r))
      else (AList.update key (nr_output r) merged, first))"
| "merge_branch idx (ChildError e) (merged, first) =
     (AList.update (''branch_'' @ decimal idx) (JObject [(''error'', JString e)]) merged, or_first first (Some e))"
| "merge_branch idx (ChildPanic e) (merged, first) = (merged, or_first first (Some e))"

fun merge_branches :: "nat \<Rightarrow> child_outcome list \<Rightarrow> (str \<times> json) list \<times> str option \<Rightarrow> (str \<times> json) list \<times> str option" where
  "merge_branches idx [] acc = acc"
| "merge_branches idx (b # bs) acc = merge_branches (Suc idx) bs (merge_branch idx b acc)"

definition parallel_children :: "node_env \<Rightarrow> node_def \<Rightarrow> node_def list" where
  "parallel_children env n =
     (let nodes = get_config_node_list (ne_u64 env) (nd_config n) ''nodes''
      in if nodes = [] then get_config_node_list (ne_u64 env) (nd_config n) ''branches'' else nodes)"

definition branch_outcomes :: "node_env \<Rightarrow> cond_context \<Rightarrow> node_def list \<Rightarrow> child_outcome list" where
  "branch_outcomes env ctx children = map (\<lambda>(idx, child). run_branch env ctx idx child) (enumerate 0 children)"

definition parallel_node :: "node_env \<Rightarrow> node_def \<Rightarrow> cond_context \<Rightarrow> node_result" where
  "parallel_node env n ctx =
     (let children = parallel_children env n in
      if children = [] then completed (JObject [(''results'', JArray [])]) None
      else (case merge_branches 0 (branch_outcomes env ctx children) ([], None) of
              (merged, first) \<Rightarrow>
                \<lparr>nr_state = (if first \<noteq> None then Failed else Completed), nr_output = JObject merged, nr_error = first\<rparr>))"

subsection \<open>Loop nodes\<close>

datatype loop_error =
    UnknownChildType str
  | ChildFailed str
  | ChildFailedSilently nat str
  | ChildErred nat str str

record loop_state =
  ls_ctx :: cond_context
  ls_output :: json
  ls_iterations :: nat
  ls_error :: "loop_error option"

text \<open>The output of a child is visible to its successors under its name, under its fields, and under both.\<close>

definition bind_child :: "str \<Rightarrow> json \<Rightarrow> cond_context \<Rightarrow> cond_context" where
  "bind_child cid out ctx =
     fold (\<lambda>(k, v) c. AList.update (cid @ ''.'' @ k) v (AList.update k v c)) (json_fields out) (AList.update cid out ctx)"

text \<open>One pass through the body; \<open>True\<close> when the iteration failed.\<close>

fun run_body :: "node_env \<Rightarrow> nat \<Rightarrow> nat \<Rightarrow> node_def list \<Rightarrow> loop_state \<Rightarrow> bool \<times> loop_state" where
  "run_body env i k [] s = (False, s)"
| "run_body env i k (child # rest) s =
     (if \<not> ne_registered env (node_type child) then (True, s\<lparr>ls_error := Some (UnknownChildType (node_type child))\<rparr>)
      else case ne_child env i k child (ls_ctx s) of
        Inr r \<Rightarrow>
          (if nr_state r = Failed
           then (True, s\<lparr>ls_error := Some (case nr_error r of Some e \<Rightarrow> ChildFailed e | None \<Rightarrow> ChildFailedSilently i (nd_id child))\<rparr>)
           else run_body env i (Suc k) rest
                  (s\<lparr>ls_output := nr_output r, ls_ctx := bind_child (nd_id child) (nr_output r) (ls_ctx s)\<rparr>))
      | Inl e \<Rightarrow> (True, s\<lparr>ls_error := Some (ChildErred i (nd_id child) e)\<rparr>))"

definition bind_item :: "str \<Rightarrow> json list option \<Rightarrow> nat \<Rightarrow> cond_context \<Rightarrow> cond_context" where
  "bind_item item_var items i ctx =
     (let c = AList.update ''loop_index'' (number i) (AList.update ''i'' (number i) ctx) in
      case items of
        None \<Rightarrow> c
      | Some xs \<Rightarrow>
          (let item = (if i < length xs then xs ! i else JNull);
               c = AList.update ''item'' item (AList.update ''item_index'' (number i) c)
           in if item_var \<noteq> ''item'' then AList.update item_var item c else c))"

fun loop_from :: "node_env \<Rightarrow> str \<Rightarrow> str \<Rightarrow> json list option \<Rightarrow> node_def list \<Rightarrow> nat \<Rightarrow> nat \<Rightarrow> loop_state \<Rightarrow> loop_state option" where
  "loop_from env cond item_var items body i 0 s = Some s"
| "loop_from env cond item_var items body i (Suc left) s =
     (let s1 = s\<lparr>ls_ctx := bind_item item_var items i (ls_ctx s)\<rparr>;
          go = (\<lambda>_. case run_body env i 0 body s1 of
                      (True, s2) \<Rightarrow> Some s2
                    | (False, s2) \<Rightarrow> loop_from env cond item_var items body (Suc i) left (s2\<lparr>ls_iterations := Suc i\<rparr>))
      in if cond \<noteq> [] \<and> i > 0
         then (case evaluate_condition (ne_json env) cond (ls_ctx s1) of
                 None \<Rightarrow> None
               | Some False \<Rightarrow> Some s1
               | Some True \<Rightarrow> go ())
         else go ())"

definition loop_error_text :: "loop_error \<Rightarrow> str" where
  "loop_error_text e =
     (case e of
        UnknownChildType t \<Rightarrow> ''unknown node type '' @ debug_str t @ '' in loop body''
      | ChildFailed e \<Rightarrow> e
      | ChildFailedSilently i cid \<Rightarrow> ''loop iteration '' @ decimal i @ '' node '' @ cid @ '' failed''
      | ChildErred i cid e \<Rightarrow> ''loop iteration '' @ decimal i @ '' node '' @ cid @ '': '' @ e)"

definition loop_result :: "str \<Rightarrow> json list option \<Rightarrow> loop_state \<Rightarrow> node_result" where
  "loop_result mode items s =
     completed (JObject ([(''iterations'', number (ls_iterations s)), (''last_output'', ls_output s), (''mode'', JString mode)] @
         (case items of None \<Rightarrow> []
          | Some xs \<Rightarrow> [(''items_count'', number (length xs)), (''items_iterated'', number (ls_iterations s))])))
       (map_option loop_error_text (ls_error s))"

definition loop_cap :: "node_env \<Rightarrow> node_def \<Rightarrow> nat" where
  "loop_cap env n =
     min (case Option.bind (json_get (nd_config n) ''max_iterations'') (ne_u64 env) of Some m \<Rightarrow> m | None \<Rightarrow> 10) 100"

definition loop_mode :: "node_def \<Rightarrow> str" where
  "loop_mode n = (case config_str (nd_config n) ''mode'' of Some m \<Rightarrow> m | None \<Rightarrow> ''counter'')"

definition loop_items :: "node_env \<Rightarrow> node_def \<Rightarrow> cond_context \<Rightarrow> str + json list option" where
  "loop_items env n ctx =
     (if loop_mode n = ''foreach''
      then (case resolve_items_list env ctx (case json_get (nd_config n) ''items'' of Some v \<Rightarrow> v | None \<Rightarrow> JNull) of
              Inl e \<Rightarrow> Inl e | Inr xs \<Rightarrow> Inr (Some xs))
      else Inr None)"

definition loop_node :: "node_env \<Rightarrow> node_def \<Rightarrow> cond_context \<Rightarrow> node_result option" where
  "loop_node env n ctx =
     (let body = get_config_node_list (ne_u64 env) (nd_config n) ''nodes'';
          cond = (case config_str (nd_config n) ''condition'' of Some s \<Rightarrow> s | None \<Rightarrow> []);
          item_var = (case config_str (nd_config n) ''item_var'' of Some s \<Rightarrow> s | None \<Rightarrow> ''item'')
      in if body = []
         then Some (completed (JObject [(''iterations'', number 0), (''last_output'', JNull), (''mode'', JString (loop_mode n))]) None)
         else case loop_items env n ctx of
                Inl e \<Rightarrow> Some \<lparr>nr_state = Failed, nr_output = JObject [(''iterations'', number 0), (''mode'', JString (loop_mode n))],
                              nr_error = Some e\<rparr>
              | Inr items \<Rightarrow>
                  map_option (loop_result (loop_mode n) items)
                    (loop_from env cond item_var items body 0
                      (case items of None \<Rightarrow> loop_cap env n | Some xs \<Rightarrow> min (length xs) (loop_cap env n))
                      \<lparr>ls_ctx = ctx, ls_output = JNull, ls_iterations = 0, ls_error = None\<rparr>))"

subsection \<open>Asking a language model until its answer can be used\<close>

text \<open>
  Both nodes ask again after a failed request or an unusable answer.  The model names an attempt by its number,
  from 1; the confidence, a floating-point number that only depends on it, is left out of the results.
\<close>

datatype attempt_error = ProviderError str | InvalidClass "str option" str | NotAnObject str | MissingParameters "str list"

datatype llm_failure =
    MissingConfig str
  | TemplateFailed str
  | InvalidConfig str
  | EmptyConfig str
  | AttemptsExhausted nat "(nat \<times> attempt_error) option"

record llm_env =
  le_chat :: "nat \<Rightarrow> str + str"
  le_classes :: "json \<Rightarrow> str + (str \<times> str) list"
  le_params :: "json \<Rightarrow> str + (str \<times> bool) list"

fun retry_attempts :: "(nat \<Rightarrow> str + str) \<Rightarrow> (str \<Rightarrow> attempt_error + 'a) \<Rightarrow> nat \<Rightarrow> nat \<Rightarrow> (nat \<times> attempt_error) option \<Rightarrow>
    (nat \<times> attempt_error) option + (nat \<times> str \<times> 'a)" where
  "retry_attempts chat judge attempt 0 last_error = Inl last_error"
| "retry_attempts chat judge attempt (Suc left) last_error =
     (case chat attempt of
        Inl e \<Rightarrow> retry_attempts chat judge (Suc attempt) left (Some (attempt, ProviderError e))
      | Inr content \<Rightarrow>
          (case judge content of
             Inl e \<Rightarrow> retry_attempts chat judge (Suc attempt) left (Some (attempt, e))
           | Inr x \<Rightarrow> Inr (attempt, content, x)))"

definition max_attempts :: "node_env \<Rightarrow> node_def \<Rightarrow> nat" where
  "max_attempts env n =
     max (case Option.bind (json_get (nd_config n) ''max_attempts'') (ne_u64 env) of Some m \<Rightarrow> m | None \<Rightarrow> 3) 1"

subsection \<open>The question classifier\<close>

definition wrapper_char :: "char \<Rightarrow> bool" where
  "wrapper_char c \<longleftrightarrow> c \<in> {DQUOTE, SQUOTE, CHR ''.'', CHR '','', CHR ''!'', LF}"

definition trim_matches :: "(char \<Rightarrow> bool) \<Rightarrow> str \<Rightarrow> str" where
  "trim_matches p s = rev (dropWhile p (rev (dropWhile p s)))"

definition parse_classifier_output :: "str \<Rightarrow> str option" where
  "parse_classifier_output content =
     (let t = trim_matches wrapper_char (trim content) in
      if t = [] then None
      else if \<not> list_ex is_whitespace t then Some t
      else (case split_whitespace t of [] \<Rightarrow> None | w # ws \<Rightarrow> Some w))"

definition judge_class :: "(str \<times> str) list \<Rightarrow> str \<Rightarrow> attempt_error + str" where
  "judge_class classes content =
     (case parse_classifier_output content of
        Some i \<Rightarrow> if list_ex (\<lambda>c. fst c = i) classes then Inr i else Inl (InvalidClass (Some i) (trim content))
      | None \<Rightarrow> Inl (InvalidClass None (trim content)))"

definition optional_prompt :: "node_env \<Rightarrow> cond_context \<Rightarrow> node_def \<Rightarrow> str \<Rightarrow> str + str option" where
  "optional_prompt env ctx n field =
     (case config_str (nd_config n) ''system_prompt'' of
        None \<Rightarrow> Inr None
      | Some s \<Rightarrow> (case resolve_runtime_string env ctx s field of Inl e \<Rightarrow> Inl e | Inr p \<Rightarrow> Inr (Some p)))"

definition classifier_node :: "node_env \<Rightarrow> llm_env \<Rightarrow> node_def \<Rightarrow> cond_context \<Rightarrow> llm_failure + json" where
  "classifier_node env llm n ctx =
     (case config_str (nd_config n) ''question'' of
        None \<Rightarrow> Inl (MissingConfig ''question'')
      | Some raw \<Rightarrow>
     (case resolve_runtime_string env ctx raw ''classifier.question'' of
        Inl e \<Rightarrow> Inl (TemplateFailed e)
      | Inr question_text \<Rightarrow>
     (case json_get (nd_config n) ''classes'' of
        None \<Rightarrow> Inl (MissingConfig ''classes'')
      | Some v \<Rightarrow>
     (case le_classes llm v of
        Inl e \<Rightarrow> Inl (InvalidConfig e)
      | Inr classes \<Rightarrow>
          if classes = [] then Inl (EmptyConfig ''classes'')
          else case optional_prompt env ctx n ''classifier.system_prompt'' of
                 Inl e \<Rightarrow> Inl (TemplateFailed e)
               | Inr _ \<Rightarrow>
                   (case retry_attempts (le_chat llm) (judge_class classes) 1 (max_attempts env n) None of
                      Inl e \<Rightarrow> Inl (AttemptsExhausted (max_attempts env n) e)
                    | Inr (a, content, i) \<Rightarrow>
                        Inr (JObject [(''class_id'', JString i), (''raw_response'', JString content), (''attempts'', number a)]))))))"

subsection \<open>The parameter extractor\<close>

definition json_is_object :: "json \<Rightarrow> bool" where
  "json_is_object v = (case v of JObject _ \<Rightarrow> True | _ \<Rightarrow> False)"

definition type_name :: "json \<Rightarrow> str" where
  "type_name v =
     (case v of JNull \<Rightarrow> ''null'' | JBool _ \<Rightarrow> ''bool'' | JNumber _ \<Rightarrow> ''number'' | JString _ \<Rightarrow> ''string''
      | JArray _ \<Rightarrow> ''array'' | JObject _ \<Rightarrow> ''object'')"

definition code_fence :: str where
  "code_fence = [BACKTICK, BACKTICK, BACKTICK]"

definition strip_fences :: "str \<Rightarrow> str" where
  "strip_fences t =
     (case (case strip_prefix (code_fence @ ''json'') t of Some s \<Rightarrow> Some s | None \<Rightarrow> strip_prefix code_fence t) of
        None \<Rightarrow> t
      | Some s \<Rightarrow> (case strip_suffix code_fence (trim (dropWhile (\<lambda>c. c = LF) s)) of Some b \<Rightarrow> trim b | None \<Rightarrow> t))"

definition parsed_object :: "(str \<Rightarrow> json option) \<Rightarrow> str \<Rightarrow> json option" where
  "parsed_object parse s = (case parse s of Some v \<Rightarrow> if json_is_object v then Some v else None | None \<Rightarrow> None)"

definition braced_region :: "str \<Rightarrow> str option" where
  "braced_region t =
     (case (find_char CHR ''{'' t, rfind_char CHR ''}'' t) of
        (Some a, Some b) \<Rightarrow> if a < b then Some (take (Suc b - a) (drop a t)) else None
      | _ \<Rightarrow> None)"

definition parse_json_object :: "(str \<Rightarrow> json option) \<Rightarrow> str \<Rightarrow> str + json" where
  "parse_json_object parse content =
     (let t = trim content in
      if t = [] then Inl ''empty response''
      else case parse t of
             Some v \<Rightarrow> if json_is_object v then Inr v else Inl (''expected JSON object, got '' @ type_name v)
           | None \<Rightarrow>
               (case parsed_object parse (strip_fences t) of
                  Some v \<Rightarrow> Inr v
                | None \<Rightarrow>
                    (case Option.bind (braced_region t) (parsed_object parse) of
                       Some v \<Rightarrow> Inr v
                     | None \<Rightarrow> Inl ''not a JSON object'')))"

definition add_missing :: "str \<times> bool \<Rightarrow> (str \<times> json) list \<Rightarrow> (str \<times> json) list" where
  "add_missing p obj = (if map_of obj (fst p) = None then AList.update (fst p) JNull obj else obj)"

definition normalize_object :: "json \<Rightarrow> (str \<times> bool) list \<Rightarrow> (str \<times> json) list" where
  "normalize_object parsed params =
     fold add_missing params (case parsed of JObject o' \<Rightarrow> o' | v \<Rightarrow> [(''_value'', v)])"

definition missing_required :: "(str \<times> json) list \<Rightarrow> (str \<times> bool) list \<Rightarrow> str list" where
  "missing_required obj params =
     map fst (filter (\<lambda>(name, required). required \<and> (case map_of obj name of None \<Rightarrow> True | Some v \<Rightarrow> v = JNull)) params)"

definition judge_parameters :: "(str \<Rightarrow> json option) \<Rightarrow> (str \<times> bool) list \<Rightarrow> str \<Rightarrow> attempt_error + (str \<times> json) list" where
  "judge_parameters parse params content =
     (case parse_json_object parse content of
        Inl e \<Rightarrow> Inl (NotAnObject e)
      | Inr v \<Rightarrow>
          (let obj = normalize_object v params; missing = missing_required obj params
           in if missing \<noteq> [] then Inl (MissingParameters missing) else Inr obj))"

definition extractor_node :: "node_env \<Rightarrow> llm_env \<Rightarrow> node_def \<Rightarrow> cond_context \<Rightarrow> llm_failure + json" where
  "extractor_node env llm n ctx =
     (case config_str (nd_config n) ''text'' of
        None \<Rightarrow> Inl (MissingConfig ''text'')
      | Some raw \<Rightarrow>
     (case resolve_runtime_string env ctx raw ''parameter_extractor.text'' of
        Inl e \<Rightarrow> Inl (TemplateFailed e)
      | Inr question_text \<Rightarrow>
     (case json_get (nd_config n) ''parameters'' of
        None \<Rightarrow> Inl (MissingConfig ''parameters'')
      | Some v \<Rightarrow>
     (case le_params llm v of
        Inl e \<Rightarrow> Inl (InvalidConfig e)
      | Inr params \<Rightarrow>
          if params = [] then Inl (EmptyConfig ''parameters'')
          else case optional_prompt env ctx n ''parameter_extractor.system_prompt'' of
                 Inl e \<Rightarrow> Inl (TemplateFailed e)
               | Inr _ \<Rightarrow>
                   (case retry_attempts (le_chat llm) (judge_parameters (ne_parse env) params) 1 (max_attempts env n) None of
                      Inl e \<Rightarrow> Inl (AttemptsExhausted (max_attempts env n) e)
                    | Inr (a, content, obj) \<Rightarrow>
                        Inr (JObject [(''parameters'', JObject obj), (''raw_response'', JString content), (''attempts'', number a)]))))))"

subsection \<open>Lemmas: attempts\<close>

definition usable :: "(nat \<Rightarrow> str + str) \<Rightarrow> (str \<Rightarrow> attempt_error + 'a) \<Rightarrow> nat \<Rightarrow> (str \<times> 'a) option" where
  "usable chat judge k =
     (case chat k of Inl _ \<Rightarrow> None | Inr c \<Rightarrow> (case judge c of Inl _ \<Rightarrow> None | Inr x \<Rightarrow> Some (c, x)))"

lemma retry_attempts_first:
  "retry_attempts chat judge a left e = Inr (k, c, x) \<longleftrightarrow>
     a \<le> k \<and> k < a + left \<and> usable chat judge k = Some (c, x) \<and> (\<forall>j. a \<le> j \<and> j < k \<longrightarrow> usable chat judge j = None)"
proof (induction left arbitrary: a e)
  case (Suc left)
  show ?case
  proof (cases "usable chat judge a")
    case None
    have "\<exists>e'. retry_attempts chat judge a (Suc left) e = retry_attempts chat judge (Suc a) left e'"
      using None by (auto simp: usable_def split: sum.splits)
    then obtain e' where "retry_attempts chat judge a (Suc left) e = retry_attempts chat judge (Suc a) left e'" by blast
    moreover have "(a \<le> k \<and> k < a + Suc left \<and> usable chat judge k = Some (c, x) \<and>
        (\<forall>j. a \<le> j \<and> j < k \<longrightarrow> usable chat judge j = None)) =
      (Suc a \<le> k \<and> k < Suc a + left \<and> usable chat judge k = Some (c, x) \<and>
        (\<forall>j. Suc a \<le> j \<and> j < k \<longrightarrow> usable chat judge j = None))"
      using None by (cases "a = k") (auto simp: Suc_le_eq nat_less_le)
    ultimately show ?thesis using Suc.IH by simp
  next
    case (Some y)
    then have "retry_attempts chat judge a (Suc left) e = Inr (a, y)"
      by (auto simp: usable_def split: sum.splits)
    then show ?thesis using Some by (cases y) (auto simp: le_less)
  qed
qed simp

lemma usable_judge_class:
  "usable chat (judge_class classes) k = Some (c, i) \<longleftrightarrow>
     chat k = Inr c \<and> parse_classifier_output c = Some i \<and> i \<in> fst ` set classes"
  by (auto simp: usable_def judge_class_def list_ex_iff image_iff split: sum.splits option.splits if_splits)

lemma usable_judge_parameters:
  "usable chat (judge_parameters parse params) k = Some (c, obj) \<longleftrightarrow>
     chat k = Inr c \<and> (\<exists>v. parse_json_object parse c = Inr v \<and> obj = normalize_object v params \<and> missing_required obj params = [])"
  by (auto simp: usable_def judge_parameters_def Let_def split: sum.splits if_splits)

text \<open>
  With a well-formed configuration, the classifier answers with the first usable reply of the model: the number of its
  attempt is within the bound, its class is one of the configured ones, and no earlier attempt gave a reply
  whose first word names a class.  It fails exactly when there is no such attempt.
\<close>

theorem classifier_first_usable:
  assumes "config_str (nd_config n) ''question'' = Some raw"
    and "resolve_runtime_string env ctx raw ''classifier.question'' = Inr q"
    and "json_get (nd_config n) ''classes'' = Some v" "le_classes llm v = Inr classes" "classes \<noteq> []"
    and "optional_prompt env ctx n ''classifier.system_prompt'' = Inr p"
  defines "names \<equiv> \<lambda>k c i. le_chat llm k = Inr c \<and> parse_classifier_output c = Some i \<and> i \<in> fst ` set classes"
  shows "classifier_node env llm n ctx = Inr out \<longleftrightarrow>
    (\<exists>k c i. 1 \<le> k \<and> k \<le> max_attempts env n \<and> names k c i \<and> (\<forall>j c i. 1 \<le> j \<and> j < k \<longrightarrow> \<not> names j c i) \<and>
       out = JObject [(''class_id'', JString i), (''raw_response'', JString c), (''attempts'', number k)])"
proof -
  let ?r = "retry_attempts (le_chat llm) (judge_class classes) 1 (max_attempts env n) None"
  have none: "usable (le_chat llm) (judge_class classes) j = None \<longleftrightarrow> (\<forall>c i. \<not> names j c i)" for j
    using usable_judge_class [of "le_chat llm" classes j] unfolding names_def not_Some_eq [symmetric] by auto
  have "classifier_node env llm n ctx =
      (case ?r of Inl e \<Rightarrow> Inl (AttemptsExhausted (max_attempts env n) e)
       | Inr (k, c, i) \<Rightarrow> Inr (JObject [(''class_id'', JString i), (''raw_response'', JString c), (''attempts'', number k)]))"
    using assms(1-6) by (simp add: classifier_node_def)
  then have "classifier_node env llm n ctx = Inr out \<longleftrightarrow>
      (\<exists>k c i. ?r = Inr (k, c, i) \<and> out = JObject [(''class_id'', JString i), (''raw_response'', JString c), (''attempts'', number k)])"
    by (auto split: sum.splits)
  then show ?thesis
    unfolding retry_attempts_first usable_judge_class none by (auto simp: names_def less_Suc_eq_le)
qed

lemma map_of_add_missing: "map_of (add_missing p obj) k = (if k = fst p \<and> map_of obj k = None then Some JNull else map_of obj k)"
  by (auto simp: add_missing_def update_conv')

lemma map_of_fold_missing:
  "map_of (fold add_missing params obj) k = (if k \<in> fst ` set params \<and> map_of obj k = None then Some JNull else map_of obj k)"
  by (induction params arbitrary: obj) (auto simp: map_of_add_missing)

text \<open>
  What the extractor returns has the declared shape: every declared parameter is present, every required
  one with a value that is not null, and apart from parameters that were filled in with null it is the object
  that the model wrote in one of its replies.
\<close>

theorem extracted_parameters_shape:
  assumes "json_get (nd_config n) ''parameters'' = Some v" "le_params llm v = Inr params"
    and "extractor_node env llm n ctx = Inr out"
  shows "\<exists>obj a c w. json_get out ''parameters'' = Some (JObject obj) \<and>
    1 \<le> a \<and> a \<le> max_attempts env n \<and> le_chat llm a = Inr c \<and> parse_json_object (ne_parse env) c = Inr w \<and>
    (\<forall>(name, required) \<in> set params. \<exists>x. map_of obj name = Some x \<and> (required \<longrightarrow> x \<noteq> JNull)) \<and>
    (\<forall>k. map_of obj k \<noteq> map_of (normalize_object w []) k \<longrightarrow> k \<in> fst ` set params \<and> map_of obj k = Some JNull)"
proof -
  obtain a c obj where r: "retry_attempts (le_chat llm) (judge_parameters (ne_parse env) params) 1 (max_attempts env n) None = Inr (a, c, obj)"
    and out: "out = JObject [(''parameters'', JObject obj), (''raw_response'', JString c), (''attempts'', number a)]"
    using assms by (auto simp: extractor_node_def split: option.splits sum.splits if_splits)
  from r have a: "1 \<le> a" "a \<le> max_attempts env n" and "usable (le_chat llm) (judge_parameters (ne_parse env) params) a = Some (c, obj)"
    unfolding retry_attempts_first by auto
  then obtain w where w: "le_chat llm a = Inr c" "parse_json_object (ne_parse env) c = Inr w"
      "obj = normalize_object w params" "missing_required obj params = []"
    unfolding usable_judge_parameters by blast
  have "\<exists>x. map_of obj name = Some x \<and> (required \<longrightarrow> x \<noteq> JNull)" if "(name, required) \<in> set params" for name required
  proof -
    have "map_of obj name \<noteq> None" using that by (force simp: w(3) normalize_object_def map_of_fold_missing)
    moreover have "required \<Longrightarrow> map_of obj name \<noteq> Some JNull"
      using that w(4) by (auto simp: missing_required_def filter_empty_conv)
    ultimately show ?thesis by auto
  qed
  moreover have "k \<in> fst ` set params \<and> map_of obj k = Some JNull" if "map_of obj k \<noteq> map_of (normalize_object w []) k" for k
    using that by (simp add: w(3) normalize_object_def map_of_fold_missing split: if_splits)
  ultimately show ?thesis using a w(1,2) by (intro exI [of _ obj] exI [of _ a] exI [of _ c] exI [of _ w]) (auto simp: out)
qed

subsection \<open>Lemmas: parallel nodes\<close>

definition branch_error :: "child_outcome \<Rightarrow> str option" where
  "branch_error b =
     (case b of ChildResult r \<Rightarrow> if nr_state r = Failed then nr_error r else None | ChildError e \<Rightarrow> Some e | ChildPanic e \<Rightarrow> Some e)"

lemma merge_branch_error: "snd (merge_branch idx b acc) = or_first (snd acc) (branch_error b)"
  by (cases acc; cases b) (auto simp: branch_error_def or_first_def Let_def)

lemma merge_branches_error: "snd (merge_branches idx bs acc) = fold (\<lambda>b first. or_first first (branch_error b)) bs (snd acc)"
  by (induction bs arbitrary: idx acc) (simp_all add: merge_branch_error)

lemma fold_or_first:
  "fold (\<lambda>b first. or_first first (branch_error b)) bs first =
     (case first of Some e \<Rightarrow> Some e
      | None \<Rightarrow> (case List.map_filter branch_error bs of [] \<Rightarrow> None | e # es \<Rightarrow> Some e))"
  by (induction bs arbitrary: first) (auto simp: or_first_def map_filter_simps split: option.splits)

text \<open>
  A parallel node reports the first error in the order of its branches, whatever the order in which they end:
  a branch that returned an error, panicked, or failed with an error text.  It fails exactly when there is
  one; a branch that failed without an error text, which makes a loop node report an error, leaves the
  parallel node completed.
\<close>

theorem parallel_first_error:
  assumes "parallel_children env n \<noteq> []"
  shows "nr_error (parallel_node env n ctx) =
      (case List.map_filter branch_error (branch_outcomes env ctx (parallel_children env n)) of [] \<Rightarrow> None | e # es \<Rightarrow> Some e)"
    and "nr_state (parallel_node env n ctx) = Failed \<longleftrightarrow>
      (\<exists>b \<in> set (branch_outcomes env ctx (parallel_children env n)). branch_error b \<noteq> None)"
    and "nr_state (parallel_node env n ctx) \<noteq> Failed \<longleftrightarrow> nr_state (parallel_node env n ctx) = Completed"
proof -
  let ?bs = "branch_outcomes env ctx (parallel_children env n)"
  have e: "nr_error (parallel_node env n ctx) = snd (merge_branches 0 ?bs ([], None))"
    and s: "nr_state (parallel_node env n ctx) = (if nr_error (parallel_node env n ctx) \<noteq> None then Failed else Completed)"
    using assms by (simp_all add: parallel_node_def Let_def split: prod.splits)
  show first: "nr_error (parallel_node env n ctx) = (case List.map_filter branch_error ?bs of [] \<Rightarrow> None | e # es \<Rightarrow> Some e)"
    unfolding e merge_branches_error fold_or_first by simp
  have empty: "List.map_filter branch_error bs = [] \<longleftrightarrow> (\<forall>b \<in> set bs. branch_error b = None)" for bs
    by (induction bs) (auto simp: map_filter_simps split: option.splits)
  show "nr_state (parallel_node env n ctx) = Failed \<longleftrightarrow> (\<exists>b \<in> set ?bs. branch_error b \<noteq> None)"
    unfolding s first using empty [of ?bs] by (cases "List.map_filter branch_error ?bs") auto
  show "nr_state (parallel_node env n ctx) \<noteq> Failed \<longleftrightarrow> nr_state (parallel_node env n ctx) = Completed"
    unfolding s by simp
qed

subsection \<open>Lemmas: loop nodes\<close>

lemma run_body_iterations: "run_body env i k body s = (b, s') \<Longrightarrow> ls_iterations s' = ls_iterations s"
  by (induction env i k body s arbitrary: b s' rule: run_body.induct) (auto split: if_splits sum.splits)

lemma loop_from_iterations:
  "loop_from env cond item_var items body i left s = Some s' \<Longrightarrow> ls_iterations s = i \<Longrightarrow>
     i \<le> ls_iterations s' \<and> ls_iterations s' \<le> i + left"
proof (induction env cond item_var items body i left s arbitrary: s' rule: loop_from.induct)
  case (2 env cond item_var items body i left s)
  let ?s1 = "s\<lparr>ls_ctx := bind_item item_var items i (ls_ctx s)\<rparr>"
  obtain f s2 where body: "run_body env i 0 body ?s1 = (f, s2)" by fastforce
  have "ls_iterations s2 = i" using run_body_iterations [OF body] 2(3) by simp
  moreover have "s' = ?s1 \<or> f \<and> s' = s2 \<or>
      \<not> f \<and> loop_from env cond item_var items body (Suc i) left (s2\<lparr>ls_iterations := Suc i\<rparr>) = Some s'"
    using 2(2) body by (auto simp: Let_def split: if_splits option.splits bool.splits)
  ultimately show ?case
    using 2(1) [OF refl body [symmetric], of s'] 2(3) by auto
qed simp

lemma loop_from_returns: "\<exists>s'. loop_from env [] item_var items body i left s = Some s'"
proof (induction left arbitrary: i s)
  case (Suc left)
  then show ?case by (auto split: prod.splits bool.splits)
qed simp

text \<open>
  A loop node is bounded whatever its condition and its children do: it reports at most as many iterations as
  configured, never more than 100, and over a list never more than the list has.  It fails only when its list
  cannot be resolved; when a child fails the loop stops, and the node is completed with the error.
\<close>

theorem loop_node_bounded:
  assumes "loop_node env n ctx = Some r"
  shows "\<exists>k \<le> loop_cap env n. json_get (nr_output r) ''iterations'' = Some (number k) \<and>
      (\<forall>xs. loop_items env n ctx = Inr (Some xs) \<longrightarrow> k \<le> length xs)"
    and "loop_cap env n \<le> 100"
    and "nr_state r = Failed \<longleftrightarrow>
      get_config_node_list (ne_u64 env) (nd_config n) ''nodes'' \<noteq> [] \<and> (\<exists>e. loop_items env n ctx = Inl e)"
proof -
  show "loop_cap env n \<le> 100" by (simp add: loop_cap_def)
  let ?body = "get_config_node_list (ne_u64 env) (nd_config n) ''nodes''"
  have "(\<exists>k \<le> loop_cap env n. json_get (nr_output r) ''iterations'' = Some (number k) \<and>
      (\<forall>xs. loop_items env n ctx = Inr (Some xs) \<longrightarrow> k \<le> length xs)) \<and>
    (nr_state r = Failed \<longleftrightarrow> ?body \<noteq> [] \<and> (\<exists>e. loop_items env n ctx = Inl e))"
  proof (cases "?body = [] \<or> (\<exists>e. loop_items env n ctx = Inl e)")
    case True
    then show ?thesis
      using assms by (auto simp: loop_node_def Let_def completed_def split: if_splits intro!: exI [of _ 0])
  next
    case False
    then obtain items where items: "loop_items env n ctx = Inr items" by (cases "loop_items env n ctx") auto
    let ?left = "case items of None \<Rightarrow> loop_cap env n | Some xs \<Rightarrow> min (length xs) (loop_cap env n)"
    obtain cond var s where "loop_from env cond var items ?body 0 ?left
        \<lparr>ls_ctx = ctx, ls_output = JNull, ls_iterations = 0, ls_error = None\<rparr> = Some s"
      and r: "r = loop_result (loop_mode n) items s"
      using assms False items by (auto simp: loop_node_def Let_def)
    then have "ls_iterations s \<le> ?left" using loop_from_iterations by fastforce
    then show ?thesis
      using False items unfolding r by (auto simp: loop_result_def completed_def split: option.splits intro!: exI [of _ "ls_iterations s"])
  qed
  then show "\<exists>k \<le> loop_cap env n. json_get (nr_output r) ''iterations'' = Some (number k) \<and>
      (\<forall>xs. loop_items env n ctx = Inr (Some xs) \<longrightarrow> k \<le> length xs)"
    and "nr_state r = Failed \<longleftrightarrow> ?body \<noteq> [] \<and> (\<exists>e. loop_items env n ctx = Inl e)" by blast+
qed

text \<open>
  A loop node without a condition always comes to an end, whatever its list and its children do.
\<close>

theorem loop_node_returns:
  assumes "config_str (nd_config n) ''condition'' = None"
  shows "\<exists>r. loop_node env n ctx = Some r"
  using assms loop_from_returns by (auto simp: loop_node_def Let_def split: sum.splits)

subsection \<open>Concrete nodes\<close>

definition example_env :: node_env where
  "example_env =
     \<lparr>ne_json = example_lib, ne_u64 = (\<lambda>v. case v of JNumber s \<Rightarrow> if s = ''2'' then Some 2 else None | _ \<Rightarrow> None),
      ne_parse = (\<lambda>s. if s = ''{}'' then Some (JObject [(''age'', JNumber ''7'')]) else None),
      ne_secret = (\<lambda>_ _. Inl ''no secrets''), ne_registered = (\<lambda>t. t = ''step''),
      ne_child = (\<lambda>i k n ctx. if nd_id n = ''quiet'' then Inr \<lparr>nr_state = Failed, nr_output = JNull, nr_error = None\<rparr>
                             else Inr (completed (JString ''out'') None)),
      ne_panics = (\<lambda>_. None)\<rparr>"

definition example_node :: "str \<Rightarrow> json \<Rightarrow> node_def" where
  "example_node t cfg = \<lparr>nd_id = ''n'', node_type = t, nd_config = cfg, depends_on = [], retry_count = 0\<rparr>"

definition example_llm :: llm_env where
  "example_llm =
     \<lparr>le_chat = (\<lambda>k. if k = 1 then Inl ''timeout'' else if k = 2 then Inr ''{}'' else Inr ''food (soup)''),
      le_classes = (\<lambda>_. Inr [(''food'', ''meals''), (''other'', ''the rest'')]),
      le_params = (\<lambda>_. Inr [(''age'', True), (''name'', False)])\<rparr>"

definition example_children :: json where
  "example_children =
     JArray [JObject [(''id'', JString ''loud''), (''type'', JString ''step'')], JObject [(''id'', JString ''quiet''), (''type'', JString ''step'')]]"

lemma parallel_first_error_witness:
  "nr_state (parallel_node example_env (example_node ''parallel'' (JObject [(''nodes'', example_children)])) []) = Completed"
proof -
  let ?n = "example_node ''parallel'' (JObject [(''nodes'', example_children)])"
  have "parallel_children example_env ?n \<noteq> []" by code_simp
  moreover have "\<forall>b \<in> set (branch_outcomes example_env [] (parallel_children example_env ?n)). branch_error b = None" by code_simp
  ultimately show ?thesis
    using parallel_first_error(2) [of example_env ?n "[]"] parallel_first_error(3) [of example_env ?n "[]"] by metis
qed

lemma loop_node_bounded_witness:
  "\<exists>r. loop_node example_env (example_node ''loop'' (JObject [(''nodes'', example_children), (''max_iterations'', JNumber ''2'')])) [] = Some r \<and>
     nr_state r \<noteq> Failed \<and> nr_error r \<noteq> None"
proof -
  let ?n = "example_node ''loop'' (JObject [(''nodes'', example_children), (''max_iterations'', JNumber ''2'')])"
  have items: "loop_items example_env ?n [] = Inr None" by code_simp
  have "loop_node example_env ?n [] \<noteq> None \<and> nr_error (the (loop_node example_env ?n [])) \<noteq> None"
    by code_simp
  then obtain r where r: "loop_node example_env ?n [] = Some r" "nr_error r \<noteq> None" by auto
  then show ?thesis using loop_node_bounded(3) [OF r(1)] items by auto
qed

lemma loop_node_returns_witness:
  "\<exists>r. loop_node example_env (example_node ''loop'' (JObject [(''nodes'', example_children)])) [] = Some r"
  by (rule loop_node_returns) code_simp

lemma below_3: "1 \<le> j \<Longrightarrow> j < (3::nat) \<Longrightarrow> j = 1 \<or> j = 2"
  by linarith

lemma classifier_first_usable_witness:
  "classifier_node example_env example_llm
     (example_node ''question_classifier'' (JObject [(''question'', JString ''soup?''), (''classes'', JNull)])) [] =
   Inr (JObject [(''class_id'', JString ''food''), (''raw_response'', JString ''food (soup)''), (''attempts'', number 3)])"
proof -
  let ?n = "example_node ''question_classifier'' (JObject [(''question'', JString ''soup?''), (''classes'', JNull)])"
  let ?names = "\<lambda>k c i. le_chat example_llm k = Inr c \<and> parse_classifier_output c = Some i \<and> i \<in> fst ` set [(''food'', ''meals''), (''other'', ''the rest'')]"
  have names: "?names 3 ''food (soup)'' ''food''" by code_simp
  have e: "parse_classifier_output ''{}'' = Some ''{}''" by code_simp
  have none: "\<not> ?names j c i" if "1 \<le> j" "j < 3" for j c i
    using below_3 [OF that] e by (auto simp: example_llm_def)
  have "config_str (nd_config ?n) ''question'' = Some ''soup?''" "json_get (nd_config ?n) ''classes'' = Some JNull"
    "resolve_runtime_string example_env [] ''soup?'' ''classifier.question'' = Inr ''soup?''"
    "le_classes example_llm JNull = Inr [(''food'', ''meals''), (''other'', ''the rest'')]"
    "optional_prompt example_env [] ?n ''classifier.system_prompt'' = Inr None" "max_attempts example_env ?n = 3"
    by code_simp+
  then show ?thesis
    using names none by (subst classifier_first_usable) (auto intro!: exI [of _ 3])
qed

lemma extracted_parameters_shape_witness:
  "\<exists>obj. json_get (JObject [(''parameters'', JObject [(''age'', JNumber ''7''), (''name'', JNull)]),
       (''raw_response'', JString ''{}''), (''attempts'', number 2)]) ''parameters'' = Some (JObject obj) \<and>
     map_of obj ''age'' \<noteq> None \<and> map_of obj ''name'' \<noteq> None"
proof -
  let ?n = "example_node ''parameter_extractor'' (JObject [(''text'', JString ''I am 7''), (''parameters'', JNull)])"
  have "json_get (nd_config ?n) ''parameters'' = Some JNull" "le_params example_llm JNull = Inr [(''age'', True), (''name'', False)]"
    by code_simp+
  moreover have "extractor_node example_env example_llm ?n [] =
    Inr (JObject [(''parameters'', JObject [(''age'', JNumber ''7''), (''name'', JNull)]), (''raw_response'', JString ''{}''), (''attempts'', number 2)])"
    by code_simp
  ultimately show ?thesis using extracted_parameters_shape [of ?n JNull example_llm _ example_env "[]"] by fastforce
qed

end
