(* ===== verification/PeerRegistry.thy ===== *)
theory PeerRegistry
  imports Prelude "HOL-Library.Word" "HOL-Library.AList" "HOL-Library.List_Lexorder" "HOL-Library.Char_ord"
begin

text \<open>
  The registry of cluster nodes (nemesis-cluster: registry.rs, with the node data of types.rs): what is known of
  every peer, when it was last heard of, and how often in a row it failed to answer.

  The registry is a hash map; its entries come as a list in the order of iteration.  Every operation holds the lock
  for its whole duration.  Instants are integers, in nanoseconds (the texts the code stores are those it wrote itself, which
  parse), the current one is an argument.  Counters are 32-bit words, time-outs 64-bit words that are read as signed
  seconds; time-outs beyond the range of the clock, on which the code panics, are not modelled.
\<close>

subsection \<open>Nodes\<close>

datatype node_status = Online | Offline | Connecting

datatype node_role = Coordinator | Worker

definition node_role_from_str :: "str \<Rightarrow> node_role" where
  "node_role_from_str s = (if s \<in> {''master'', ''manager'', ''coordinator''} then Coordinator else Worker)"

record agent_announcement =
  aa_agent_id :: str
  aa_name :: str
  aa_kind :: str
  aa_tier :: str
  aa_state :: str

record node_info =
  ni_id :: str
  ni_name :: str
  ni_role :: node_role
  ni_address :: str
  ni_category :: str
  ni_last_seen :: int
  ni_status :: node_status
  ni_capabilities :: "str list"
  ni_tags :: "str list"
  ni_professions :: "str list"
  ni_tier :: "str option"
  ni_agents :: "agent_announcement list"
  ni_addresses :: "str list"
  ni_node_type :: str

text \<open>Everything but the time the node was last seen.\<close>

definition content_eq :: "node_info \<Rightarrow> node_info \<Rightarrow> bool" where
  "content_eq a b \<longleftrightarrow>
     ni_id a = ni_id b \<and> ni_name a = ni_name b \<and> ni_role a = ni_role b \<and> ni_address a = ni_address b \<and>
     ni_category a = ni_category b \<and> ni_status a = ni_status b \<and> ni_capabilities a = ni_capabilities b \<and>
     ni_tags a = ni_tags b \<and> ni_professions a = ni_professions b \<and> ni_tier a = ni_tier b \<and>
     ni_agents a = ni_agents b \<and> ni_addresses a = ni_addresses b \<and> ni_node_type a = ni_node_type b"

subsection \<open>The registry\<close>

record peer_entry =
  pe_info :: node_info
  pe_last_health_check :: int
  pe_failures :: "32 word"
  pe_static :: bool

type_synonym registry = "(str \<times> peer_entry) list"

record health_config =
  stale_timeout_secs :: "64 word"
  eviction_timeout_secs :: "64 word"

definition refreshed :: "int \<Rightarrow> node_info \<Rightarrow> peer_entry \<Rightarrow> peer_entry" where
  "refreshed now info e = e\<lparr>pe_info := info, pe_last_health_check := now, pe_failures := 0\<rparr>"

definition new_entry :: "int \<Rightarrow> node_info \<Rightarrow> peer_entry" where
  "new_entry now info = \<lparr>pe_info = info, pe_last_health_check = now, pe_failures = 0, pe_static = False\<rparr>"

definition upsert :: "int \<Rightarrow> node_info \<Rightarrow> registry \<Rightarrow> registry" where
  "upsert now info r =
     AList.update (ni_id info)
       (case map_of r (ni_id info) of Some e \<Rightarrow> refreshed now info e | None \<Rightarrow> new_entry now info) r"

definition upsert_if_changed :: "int \<Rightarrow> node_info \<Rightarrow> registry \<Rightarrow> bool \<times> registry" where
  "upsert_if_changed now info r =
     (case map_of r (ni_id info) of
        Some e \<Rightarrow>
          if content_eq (pe_info e) info
          then (False, AList.update (ni_id info) (refreshed now (pe_info e) e) r)
          else (True, AList.update (ni_id info) (refreshed now info e) r)
      | None \<Rightarrow> (True, AList.update (ni_id info) (new_entry now info) r))"

text \<open>A change of one entry, if it is there.\<close>

definition modify :: "str \<Rightarrow> (peer_entry \<Rightarrow> peer_entry) \<Rightarrow> registry \<Rightarrow> registry" where
  "modify k f r = (case map_of r k of Some e \<Rightarrow> AList.update k (f e) r | None \<Rightarrow> r)"

definition set_status :: "node_status \<Rightarrow> peer_entry \<Rightarrow> peer_entry" where
  "set_status s e = e\<lparr>pe_info := (pe_info e)\<lparr>ni_status := s\<rparr>\<rparr>"

definition mark_static :: "str \<Rightarrow> registry \<Rightarrow> bool \<times> registry" where
  "mark_static k r = (map_of r k \<noteq> None, modify k (\<lambda>e. e\<lparr>pe_static := True\<rparr>) r)"

definition is_peer_static :: "str \<Rightarrow> registry \<Rightarrow> bool" where
  "is_peer_static k r = (case map_of r k of Some e \<Rightarrow> pe_static e | None \<Rightarrow> False)"

definition remove_peer :: "str \<Rightarrow> registry \<Rightarrow> bool \<times> registry" where
  "remove_peer k r = (map_of r k \<noteq> None, AList.delete k r)"

definition get_peer :: "str \<Rightarrow> registry \<Rightarrow> node_info option" where
  "get_peer k r = map_option pe_info (map_of r k)"

definition probe_failure_count :: "str \<Rightarrow> registry \<Rightarrow> 32 word" where
  "probe_failure_count k r = (case map_of r k of Some e \<Rightarrow> pe_failures e | None \<Rightarrow> 0)"

subsection \<open>Addresses\<close>

text \<open>Host and port at the last colon; a text with nothing before or after it is a host.\<close>

definition host_port :: "str \<Rightarrow> str \<times> str option" where
  "host_port s =
     (case rfind_char CHR '':'' s of
        Some i \<Rightarrow> (let h = take i s; p = drop (Suc i) s in if p \<noteq> [] \<and> h \<noteq> [] then (h, Some p) else (s, None))
      | None \<Rightarrow> (s, None))"

definition addr_matches :: "str \<Rightarrow> str \<Rightarrow> bool" where
  "addr_matches candidate needle =
     (let c = to_lowercase (trim candidate); n = to_lowercase (trim needle)
      in if c = [] \<or> n = [] then False
         else (case (host_port c, host_port n) of
                 ((ch, cp), (nh, np)) \<Rightarrow> ch = nh \<and> (cp = None \<or> np = None \<or> cp = np)))"

definition find_by_address :: "str \<Rightarrow> registry \<Rightarrow> node_info option" where
  "find_by_address address r =
     (let needle = to_lowercase (trim address)
      in if needle = [] then None
         else find (\<lambda>info. addr_matches (ni_address info) needle \<or> list_ex (\<lambda>a. addr_matches a needle) (ni_addresses info))
                (map (pe_info \<circ> snd) r))"

subsection \<open>Health\<close>

definition mark_healthy :: "int \<Rightarrow> str \<Rightarrow> registry \<Rightarrow> registry" where
  "mark_healthy now k = modify k (\<lambda>e. set_status Online (e\<lparr>pe_last_health_check := now, pe_failures := 0\<rparr>))"

definition mark_failed :: "str \<Rightarrow> registry \<Rightarrow> bool \<times> registry" where
  "mark_failed k r =
     (case map_of r k of
        None \<Rightarrow> (False, r)
      | Some e \<Rightarrow>
          (let n = pe_failures e + 1; e1 = e\<lparr>pe_failures := n\<rparr>
           in if n \<ge> 3 then (n \<ge> 5, AList.update k (set_status Offline e1) r) else (False, AList.update k e1 r)))"

definition saturating_succ :: "32 word \<Rightarrow> 32 word" where
  "saturating_succ n = (if n = - 1 then n else n + 1)"

definition record_probe_failure :: "str \<Rightarrow> 32 word \<Rightarrow> registry \<Rightarrow> bool \<times> registry" where
  "record_probe_failure k threshold r =
     (case map_of r k of
        None \<Rightarrow> (False, r)
      | Some e \<Rightarrow>
          (let n = saturating_succ (pe_failures e); e1 = e\<lparr>pe_failures := n\<rparr>
           in if n \<ge> threshold \<and> ni_status (pe_info e) = Online
              then (True, AList.update k (set_status Offline e1) r) else (False, AList.update k e1 r)))"

definition record_probe_success :: "int \<Rightarrow> str \<Rightarrow> registry \<Rightarrow> bool \<times> registry" where
  "record_probe_success now k r =
     (case map_of r k of
        None \<Rightarrow> (False, r)
      | Some e \<Rightarrow>
          (let e1 = e\<lparr>pe_last_health_check := now, pe_failures := 0\<rparr>
           in if ni_status (pe_info e) \<noteq> Online then (True, AList.update k (set_status Online e1) r)
              else (False, AList.update k e1 r)))"

definition mark_offline :: "str \<Rightarrow> registry \<Rightarrow> registry" where
  "mark_offline k = modify k (\<lambda>e. set_status Offline (e\<lparr>pe_failures := 0\<rparr>))"

definition threshold_before :: "int \<Rightarrow> 64 word \<Rightarrow> int" where
  "threshold_before now secs = now - sint secs * 1000000000"

definition evictable :: "health_config \<Rightarrow> int \<Rightarrow> peer_entry \<Rightarrow> bool" where
  "evictable cfg now e \<longleftrightarrow>
     ni_status (pe_info e) \<noteq> Online \<and> pe_last_health_check e < threshold_before now (eviction_timeout_secs cfg)"

definition evict_stale :: "health_config \<Rightarrow> int \<Rightarrow> registry \<Rightarrow> str list \<times> registry" where
  "evict_stale cfg now r =
     (let ids = map fst (filter (\<lambda>(k, e). evictable cfg now e) r)
      in (ids, fold AList.delete ids r))"

definition goes_stale :: "health_config \<Rightarrow> int \<Rightarrow> peer_entry \<Rightarrow> bool" where
  "goes_stale cfg now e \<longleftrightarrow>
     ni_status (pe_info e) = Online \<and> \<not> pe_static e \<and> pe_last_health_check e < threshold_before now (stale_timeout_secs cfg)"

fun check_health :: "health_config \<Rightarrow> int \<Rightarrow> registry \<Rightarrow> str list \<times> registry" where
  "check_health cfg now [] = ([], [])"
| "check_health cfg now ((k, e) # r) =
     (case check_health cfg now r of
        (ids, r') \<Rightarrow> if goes_stale cfg now e then (k # ids, (k, set_status Offline e) # r') else (ids, (k, e) # r'))"

subsection \<open>Queries\<close>

definition list_peers :: "registry \<Rightarrow> node_info list" where
  "list_peers r = map (pe_info \<circ> snd) r"

definition list_online :: "registry \<Rightarrow> node_info list" where
  "list_online r = filter (\<lambda>i. ni_status i = Online) (list_peers r)"

definition list_online_excluding :: "str \<Rightarrow> registry \<Rightarrow> node_info list" where
  "list_online_excluding k r = filter (\<lambda>i. ni_status i = Online \<and> ni_id i \<noteq> k) (list_peers r)"

definition find_by_capability :: "str \<Rightarrow> registry \<Rightarrow> node_info list" where
  "find_by_capability cap r = filter (\<lambda>i. ni_status i = Online \<and> cap \<in> set (ni_capabilities i)) (list_peers r)"

definition find_by_capabilities :: "str list \<Rightarrow> registry \<Rightarrow> node_info list" where
  "find_by_capabilities caps r =
     filter (\<lambda>i. ni_status i = Online \<and> list_ex (\<lambda>c. c \<in> set caps) (ni_capabilities i)) (list_peers r)"

definition get_capabilities :: "registry \<Rightarrow> str list" where
  "get_capabilities r = sort (remdups (concat (map ni_capabilities (list_peers r))))"

definition online_count :: "registry \<Rightarrow> nat" where
  "online_count r = length (list_online r)"

subsection \<open>Steps and the invariant\<close>

inductive registry_step :: "health_config \<Rightarrow> registry \<Rightarrow> registry \<Rightarrow> bool" for cfg where
  Upsert: "registry_step cfg r (upsert now info r)"
| UpsertIfChanged: "registry_step cfg r (snd (upsert_if_changed now info r))"
| MarkStatic: "registry_step cfg r (snd (mark_static k r))"
| Remove: "registry_step cfg r (snd (remove_peer k r))"
| MarkHealthy: "registry_step cfg r (mark_healthy now k r)"
| MarkFailed: "registry_step cfg r (snd (mark_failed k r))"
| ProbeFailed: "registry_step cfg r (snd (record_probe_failure k threshold r))"
| ProbeAnswered: "registry_step cfg r (snd (record_probe_success now k r))"
| MarkOffline: "registry_step cfg r (mark_offline k r)"
| Evict: "registry_step cfg r (snd (evict_stale cfg now r))"
| CheckHealth: "registry_step cfg r (snd (check_health cfg now r))"

definition registry_wf :: "registry \<Rightarrow> bool" where
  "registry_wf r \<longleftrightarrow> distinct (map fst r) \<and> (\<forall>k e. map_of r k = Some e \<longrightarrow> ni_id (pe_info e) = k)"

named_theorems registry_defs

declare upsert_def [registry_defs] upsert_if_changed_def [registry_defs] mark_static_def [registry_defs]
  remove_peer_def [registry_defs] mark_healthy_def [registry_defs] mark_failed_def [registry_defs]
  record_probe_failure_def [registry_defs] record_probe_success_def [registry_defs] mark_offline_def [registry_defs]
  modify_def [registry_defs] set_status_def [registry_defs] refreshed_def [registry_defs] new_entry_def [registry_defs]

lemma wf_update: "registry_wf r \<Longrightarrow> ni_id (pe_info e) = k \<Longrightarrow> registry_wf (AList.update k e r)"
  by (auto simp: registry_wf_def distinct_update update_conv')

lemma wf_delete: "registry_wf r \<Longrightarrow> registry_wf (AList.delete k r)"
  by (auto simp: registry_wf_def distinct_delete delete_conv' split: if_splits)

lemma wf_delete_all: "registry_wf r \<Longrightarrow> registry_wf (fold AList.delete ks r)"
  by (induction ks arbitrary: r) (simp_all add: wf_delete)

lemma wf_entry: "registry_wf r \<Longrightarrow> map_of r k = Some e \<Longrightarrow> ni_id (pe_info e) = k"
  by (simp add: registry_wf_def)

lemma wf_modify: "registry_wf r \<Longrightarrow> (\<And>e. ni_id (pe_info (f e)) = ni_id (pe_info e)) \<Longrightarrow> registry_wf (modify k f r)"
  by (auto simp: modify_def wf_entry split: option.splits intro!: wf_update)

text \<open>The pass over all entries changes states and nothing else.\<close>

lemma check_health_map:
  "check_health cfg now r =
     (map fst (filter (\<lambda>(k, e). goes_stale cfg now e) r),
      map (\<lambda>(k, e). (k, if goes_stale cfg now e then set_status Offline e else e)) r)"
  by (induction r) auto

lemma map_of_map_value: "map_of (map (\<lambda>(k, e). (k, f e)) r) k = map_option f (map_of r k)"
  by (induction r) auto

lemma wf_check_health: "registry_wf r \<Longrightarrow> registry_wf (snd (check_health cfg now r))"
  by (auto simp: registry_wf_def check_health_map map_of_map_value comp_def case_prod_beta set_status_def split: if_splits)

lemma wf_step: "registry_wf r \<Longrightarrow> registry_step cfg r r' \<Longrightarrow> registry_wf r'"
  by (erule registry_step.cases)
    (auto simp: registry_defs evict_stale_def Let_def wf_check_health wf_delete_all wf_entry
      split: option.splits intro!: wf_update wf_delete)

interpretation peers: transition_invariant "\<lambda>r. r = []" "registry_step cfg" registry_wf
proof
  show "registry_wf r" if "r = []" for r :: registry using that by (simp add: registry_wf_def)
qed (rule wf_step)

text \<open>
  Under every sequence of operations a peer stays filed under its own identifier, once, and the node lists
  contain no identifier twice; so removing the local node from a list of targets removes all of it.
\<close>

theorem registry_filed_once:
  assumes "rtranclp (registry_step cfg) [] r"
  shows "distinct (map ni_id (list_peers r))" and "get_peer k r = Some info \<Longrightarrow> ni_id info = k"
    and "k \<notin> ni_id ` set (list_online_excluding k r)"
proof -
  have wf: "registry_wf r" using peers.reachable_inv assms by blast
  have "map ni_id (list_peers r) = map fst r"
    using wf by (auto simp: list_peers_def registry_wf_def map_of_eq_Some_iff)
  then show "distinct (map ni_id (list_peers r))" using wf by (simp add: registry_wf_def)
  show "get_peer k r = Some info \<Longrightarrow> ni_id info = k" using wf by (auto simp: get_peer_def registry_wf_def)
  show "k \<notin> ni_id ` set (list_online_excluding k r)" by (auto simp: list_online_excluding_def)
qed

text \<open>
  The check for silent peers takes offline exactly the online peers that are not configured statically and were
  last heard of before the time-out, reports each, and leaves everything else as it was.  The eviction
  makes no such exception: a statically configured peer that is offline long enough is removed, although its field is
  documented to protect it until it is removed explicitly.
\<close>

theorem stale_peers:
  assumes "registry_wf r"
  shows "k \<in> set (fst (check_health cfg now r)) \<longleftrightarrow> (\<exists>e. map_of r k = Some e \<and> goes_stale cfg now e)"
    and "map_of (snd (check_health cfg now r)) k =
      map_option (\<lambda>e. if goes_stale cfg now e then set_status Offline e else e) (map_of r k)"
    and "is_peer_static k (snd (check_health cfg now r)) = is_peer_static k r"
    and "is_peer_static k r \<Longrightarrow> get_peer k (snd (check_health cfg now r)) = get_peer k r"
    and "map_of (snd (evict_stale cfg now r)) k =
      (case map_of r k of Some e \<Rightarrow> if evictable cfg now e then None else Some e | None \<Rightarrow> None)"
proof -
  have mem: "(k, e) \<in> set r \<longleftrightarrow> map_of r k = Some e" for k e
    using assms by (simp add: registry_wf_def map_of_eq_Some_iff)
  show "k \<in> set (fst (check_health cfg now r)) \<longleftrightarrow> (\<exists>e. map_of r k = Some e \<and> goes_stale cfg now e)"
    by (force simp: check_health_map mem [symmetric])
  show m: "map_of (snd (check_health cfg now r)) k =
      map_option (\<lambda>e. if goes_stale cfg now e then set_status Offline e else e) (map_of r k)"
    by (simp add: check_health_map map_of_map_value)
  show "is_peer_static k (snd (check_health cfg now r)) = is_peer_static k r"
    by (auto simp: is_peer_static_def m set_status_def split: option.splits)
  show "is_peer_static k r \<Longrightarrow> get_peer k (snd (check_health cfg now r)) = get_peer k r"
    by (auto simp: is_peer_static_def get_peer_def m goes_stale_def split: option.splits)
  have del: "map_of (fold AList.delete ks r') k = (if k \<in> set ks then None else map_of r' k)" for ks and r' :: registry
    by (induction ks arbitrary: r') (auto simp: delete_conv')
  show "map_of (snd (evict_stale cfg now r)) k =
      (case map_of r k of Some e \<Rightarrow> if evictable cfg now e then None else Some e | None \<Rightarrow> None)"
    by (force simp: evict_stale_def Let_def del mem split: option.splits)
qed

subsection \<open>Probes\<close>

text \<open>A probe of a peer at some time, and whether it was answered.\<close>

type_synonym probe = "str \<times> int \<times> bool"

definition apply_probe :: "32 word \<Rightarrow> probe \<Rightarrow> registry \<Rightarrow> bool \<times> registry" where
  "apply_probe threshold p r =
     (case p of (k, now, ok) \<Rightarrow> if ok then record_probe_success now k r else record_probe_failure k threshold r)"

fun apply_probes :: "32 word \<Rightarrow> probe list \<Rightarrow> registry \<Rightarrow> registry" where
  "apply_probes threshold [] r = r"
| "apply_probes threshold (p # ps) r = snd (apply_probe threshold p (apply_probes threshold ps r))"

text \<open>The reference, on the probes of a peer, newest first: how many in a row went unanswered.\<close>

definition unanswered :: "str \<Rightarrow> probe list \<Rightarrow> nat" where
  "unanswered k ps = length (takeWhile (\<lambda>(_, _, ok). \<not> ok) (filter (\<lambda>p. fst p = k) ps))"

lemma unanswered_simps:
  "unanswered k [] = 0"
  "unanswered k ((j, now, ok) # ps) = (if j = k then if ok then 0 else Suc (unanswered k ps) else unanswered k ps)"
  by (simp_all add: unanswered_def)

lemma unat_u32: "unat (n :: 32 word) \<le> 2 ^ 32 - 1"
proof -
  have "unat n < 2 ^ LENGTH(32)" by (rule unsigned_less)
  then show ?thesis by simp
qed

lemma unat_minus_1_u32: "unat (- 1 :: 32 word) = 2 ^ 32 - 1"
  by (simp add: unsigned_minus_1_eq_mask mask_eq_exp_minus_1)

lemma unat_saturating_succ: "unat (saturating_succ n) = min (Suc (unat n)) (2 ^ 32 - 1)"
proof (cases "n = - 1")
  case True
  then show ?thesis using unat_minus_1_u32 by (simp add: saturating_succ_def)
next
  case False
  then have "unat (n + 1) = Suc (unat n)" by (metis add.commute unatSuc add_eq_0_iff)
  moreover have "unat (n + 1) \<le> 2 ^ 32 - 1" by (rule unat_u32)
  ultimately show ?thesis using False by (simp add: saturating_succ_def)
qed

lemma apply_probe_entry:
  "map_of (snd (apply_probe threshold (j, now, ok) r)) k =
     (if j \<noteq> k then map_of r k
      else map_option (\<lambda>e. if ok then set_status Online (e\<lparr>pe_last_health_check := now, pe_failures := 0\<rparr>)
                           else (let e1 = e\<lparr>pe_failures := saturating_succ (pe_failures e)\<rparr>
                                 in if saturating_succ (pe_failures e) \<ge> threshold \<and> ni_status (pe_info e) = Online
                                    then set_status Offline e1 else e1)) (map_of r k))"
  by (auto simp: apply_probe_def record_probe_success_def record_probe_failure_def Let_def update_conv' set_status_def
      split: option.splits)

lemma probes_entry:
  assumes "map_of r k = Some e" "ni_status (pe_info e) = Online" "pe_failures e = 0" "0 < threshold"
  shows "\<exists>e'. map_of (apply_probes threshold ps r) k = Some e' \<and>
    unat (pe_failures e') = min (unanswered k ps) (2 ^ 32 - 1) \<and>
    ni_status (pe_info e') = (if unanswered k ps \<ge> unat threshold then Offline else Online) \<and>
    pe_static e' = pe_static e"
proof (induction ps)
  case Nil
  have "0 < unat threshold" using assms(4) by (simp add: word_less_nat_alt)
  then show ?case using assms by (simp add: unanswered_simps)
next
  case (Cons p ps)
  obtain j now ok where p: "p = (j, now, ok)" by (cases p)
  obtain e' where e': "map_of (apply_probes threshold ps r) k = Some e'"
    "unat (pe_failures e') = min (unanswered k ps) (2 ^ 32 - 1)"
    "ni_status (pe_info e') = (if unanswered k ps \<ge> unat threshold then Offline else Online)" "pe_static e' = pe_static e"
    using Cons by blast
  have pos: "0 < unat threshold" using assms(4) by (simp add: word_less_nat_alt)
  have max: "unat threshold \<le> 2 ^ 32 - 1" by (rule unat_u32)
  show ?case
  proof (cases "j = k \<and> \<not> ok")
    case True
    let ?n = "saturating_succ (pe_failures e')"
    have n: "unat ?n = min (Suc (unanswered k ps)) (2 ^ 32 - 1)" using e'(2) by (simp add: unat_saturating_succ)
    then have t: "?n \<ge> threshold \<longleftrightarrow> Suc (unanswered k ps) \<ge> unat threshold" using max by (auto simp: word_le_nat_alt min_def)
    show ?thesis
      using True e' n t by (auto simp: p apply_probe_entry Let_def unanswered_simps set_status_def)
  next
    case False
    then show ?thesis using e' pos by (auto simp: p apply_probe_entry unanswered_simps set_status_def)
  qed
qed


subsection \<open>Examples\<close>

definition sample_node :: "str \<Rightarrow> node_info" where
  "sample_node k =
     \<lparr>ni_id = k, ni_name = k, ni_role = Worker, ni_address = ''10.0.0.1:9000'', ni_category = ''general'',
      ni_last_seen = 0, ni_status = Online, ni_capabilities = [], ni_tags = [], ni_professions = [], ni_tier = None,
      ni_agents = [], ni_addresses = [], ni_node_type = ''agent''\<rparr>"

definition sample_registry :: registry where
  "sample_registry = upsert 7 (sample_node ''a'') []"

lemmas samples = sample_registry_def sample_node_def upsert_def new_entry_def

theorem registry_filed_once_witness: "distinct (map ni_id (list_peers sample_registry))"
  unfolding sample_registry_def
  by (rule registry_filed_once(1) [of undefined]) (rule r_into_rtranclp, rule registry_step.Upsert)

lemma sample_wf: "registry_wf sample_registry"
  by (simp add: registry_wf_def samples)

theorem stale_peers_witness:
  "''a'' \<in> set (fst (check_health \<lparr>stale_timeout_secs = 60, eviction_timeout_secs = 600\<rparr> 60000000008 sample_registry))"
  unfolding stale_peers(1) [OF sample_wf]
  by (simp add: samples goes_stale_def threshold_before_def)


end
