(* ===== verification/PeerMerge.thy ===== *)
theory PeerMerge
  imports PeerRegistry
begin

text \<open>
  What the cluster does with news of its nodes (nemesis-cluster: cluster.rs): announcements received by broadcast or with
  the answer to a probe, the merge of the identity a node reports on request, nodes that go away, and nodes
  that a user removes.

  The file of configured peers is a list of the changes written to it, and the discovery callback a list of the
  calls made to it.  The change of the own display name when it clashes with that of an announced node is left out:
  the own name is taken to be one that a user configured, which never changes.
\<close>

subsection \<open>State\<close>

datatype toml_change = PersistPeer str | UpgradePeer str str | RemovePeer str

record cluster =
  c_registry :: registry
  c_removed :: "str list"
  c_toml :: "toml_change list"
  c_discovered :: "(str \<times> str \<times> str) list"

record real_node_info =
  rn_id :: str
  rn_name :: str
  rn_address :: str
  rn_addresses :: "str list"
  rn_role :: node_role
  rn_category :: str
  rn_capabilities :: "str list"
  rn_tags :: "str list"
  rn_professions :: "str list"
  rn_tier :: "str option"
  rn_agents :: "agent_announcement list"
  rn_node_type :: str

record announcement =
  an_id :: str
  an_name :: str
  an_addresses :: "str list"
  an_rpc_port :: "16 word"
  an_role :: str
  an_category :: str
  an_tags :: "str list"
  an_capabilities :: "str list"
  an_node_type :: str
  an_professions :: "str list"
  an_tier :: "str option"
  an_agents :: "agent_announcement list"
  an_source :: "str option"

definition role_str :: "node_role \<Rightarrow> str" where
  "role_str r = (case r of Coordinator \<Rightarrow> ''coordinator'' | Worker \<Rightarrow> ''worker'')"

text \<open>Appending what is not there yet, in order.\<close>

definition push_new :: "'a \<Rightarrow> 'a list \<Rightarrow> 'a list" where
  "push_new x xs = (if x \<in> set xs then xs else xs @ [x])"

definition push_all :: "'a list \<Rightarrow> 'a list \<Rightarrow> 'a list" where
  "push_all ys xs = fold push_new ys xs"

definition host_of :: "str \<Rightarrow> str" where
  "host_of address = hd (split_on CHR '':'' address)"

definition with_port :: "str \<Rightarrow> str \<Rightarrow> str" where
  "with_port port a = (if CHR '':'' \<in> set a then a else a @ '':'' @ port)"

subsection \<open>Merging the identity of a node\<close>

definition merged_node :: "int \<Rightarrow> bool \<Rightarrow> real_node_info \<Rightarrow> node_info \<Rightarrow> node_info" where
  "merged_node now static_peer info old =
     old\<lparr>ni_name := rn_name info, ni_role := rn_role info, ni_category := rn_category info,
         ni_address := (if rn_address info \<noteq> [] \<and> \<not> static_peer then rn_address info else ni_address old),
         ni_addresses := (if rn_addresses info = [] then ni_addresses old
                          else if static_peer then push_all (rn_addresses info) (ni_addresses old)
                          else rn_addresses info),
         ni_last_seen := now, ni_capabilities := rn_capabilities info, ni_tags := rn_tags info,
         ni_professions := rn_professions info, ni_tier := rn_tier info, ni_agents := rn_agents info,
         ni_node_type := rn_node_type info\<rparr>"

definition real_node :: "int \<Rightarrow> real_node_info \<Rightarrow> node_info" where
  "real_node now info =
     \<lparr>ni_id = rn_id info, ni_name = rn_name info, ni_role = rn_role info, ni_address = rn_address info,
      ni_category = rn_category info, ni_last_seen = now, ni_status = Online, ni_capabilities = rn_capabilities info,
      ni_tags = rn_tags info, ni_professions = rn_professions info, ni_tier = rn_tier info, ni_agents = rn_agents info,
      ni_addresses = rn_addresses info, ni_node_type = rn_node_type info\<rparr>"

text \<open>The first entry that matches the reported address, or one of the further addresses with its port.\<close>

definition placeholder_id :: "real_node_info \<Rightarrow> registry \<Rightarrow> str option" where
  "placeholder_id info r =
     (case find_by_address (rn_address info) r of
        Some p \<Rightarrow> Some (ni_id p)
      | None \<Rightarrow>
          (let candidate = (\<lambda>a. if CHR '':'' \<in> set a then a
                                else case rfind_char CHR '':'' (rn_address info) of
                                       Some i \<Rightarrow> a @ '':'' @ drop (Suc i) (rn_address info)
                                     | None \<Rightarrow> a)
           in case List.map_filter (\<lambda>a. find_by_address (candidate a) r) (rn_addresses info) of
                p # ps \<Rightarrow> Some (ni_id p) | [] \<Rightarrow> None))"

definition merge_real_node_info :: "int \<Rightarrow> real_node_info \<Rightarrow> cluster \<Rightarrow> cluster" where
  "merge_real_node_info now info c =
     (case get_peer (rn_id info) (c_registry c) of
        Some old \<Rightarrow>
          c\<lparr>c_registry := upsert now (merged_node now (is_peer_static (rn_id info) (c_registry c)) info old) (c_registry c),
            c_toml := c_toml c @ [PersistPeer (rn_id info)]\<rparr>
      | None \<Rightarrow>
          (let placeholder = placeholder_id info (c_registry c);
               r = upsert now (real_node now info) (c_registry c)
           in case placeholder of
                Some p \<Rightarrow>
                  if p \<noteq> rn_id info
                  then c\<lparr>c_registry := snd (remove_peer p r), c_toml := c_toml c @ [UpgradePeer p (rn_id info)]\<rparr>
                  else c\<lparr>c_registry := r, c_toml := c_toml c @ [PersistPeer (rn_id info)]\<rparr>
              | None \<Rightarrow> c\<lparr>c_registry := r, c_toml := c_toml c @ [PersistPeer (rn_id info)]\<rparr>))"

subsection \<open>Announcements\<close>

definition addr_eq :: "str \<Rightarrow> str \<Rightarrow> bool" where
  "addr_eq cand needle =
     (let c = to_lowercase (trim cand); n = to_lowercase (trim needle)
      in c \<noteq> [] \<and> n \<noteq> [] \<and> host_port c = host_port n)"

definition port_text :: "announcement \<Rightarrow> str" where
  "port_text an = decimal (unat (an_rpc_port an))"

definition announced_identity :: "int \<Rightarrow> announcement \<Rightarrow> node_info \<Rightarrow> node_info" where
  "announced_identity now an old =
     old\<lparr>ni_name := an_name an, ni_role := node_role_from_str (an_role an), ni_category := an_category an,
         ni_last_seen := now, ni_status := Online, ni_capabilities := an_capabilities an, ni_tags := an_tags an,
         ni_professions := an_professions an, ni_tier := an_tier an, ni_agents := an_agents an, ni_node_type := an_node_type an\<rparr>"

definition primary_address :: "announcement \<Rightarrow> str" where
  "primary_address an = (case an_addresses an of a # as \<Rightarrow> a @ '':'' @ port_text an | [] \<Rightarrow> [])"

text \<open>The addresses kept of a peer: those configured for a static peer, then the announced ones, then the sender's.\<close>

definition pinned_addresses :: "node_info \<Rightarrow> str list" where
  "pinned_addresses old =
     (let h = host_of (ni_address old) in if h \<noteq> [] then push_new h (ni_addresses old) else ni_addresses old)"

definition static_entry :: "announcement \<Rightarrow> registry \<Rightarrow> node_info option" where
  "static_entry an r = (if is_peer_static (an_id an) r then get_peer (an_id an) r else None)"

definition address_pool :: "announcement \<Rightarrow> registry \<Rightarrow> str list" where
  "address_pool an r =
     (let pool = (case static_entry an r of Some old \<Rightarrow> push_all (pinned_addresses old) [] | None \<Rightarrow> []);
          pool = push_all (an_addresses an) pool
      in case an_source an of Some s \<Rightarrow> if s \<noteq> [] then push_new s pool else pool | None \<Rightarrow> pool)"

definition announced_node :: "int \<Rightarrow> announcement \<Rightarrow> registry \<Rightarrow> node_info" where
  "announced_node now an r =
     \<lparr>ni_id = an_id an, ni_name = an_name an, ni_role = node_role_from_str (an_role an),
      ni_address = (case static_entry an r of
                      Some old \<Rightarrow> if ni_address old \<noteq> [] then ni_address old else primary_address an
                    | None \<Rightarrow> primary_address an),
      ni_category = an_category an, ni_last_seen = now, ni_status = Online, ni_capabilities = an_capabilities an,
      ni_tags = an_tags an, ni_professions = an_professions an, ni_tier = an_tier an, ni_agents = an_agents an,
      ni_addresses = address_pool an r, ni_node_type = an_node_type an\<rparr>"

text \<open>
  The entries that stand for the announced node under another key: keyed by its human name, or with one of its
  addresses and the same port.
\<close>

definition is_placeholder :: "announcement \<Rightarrow> node_info \<Rightarrow> bool" where
  "is_placeholder an p =
     (if ni_id p = an_id an then False
      else an_name an \<noteq> [] \<and> an_name an \<noteq> an_id an \<and> ni_id p = ni_name p \<and> ni_name p = an_name an \<or>
           list_ex (\<lambda>cand. addr_eq (ni_address p) cand \<or> list_ex (\<lambda>a. addr_eq a cand) (ni_addresses p))
             (map (with_port (port_text an)) (an_addresses an)))"

text \<open>Taking over the placeholders: their names, their addresses, and whether one of them was configured statically.\<close>

record inheritance =
  ih_name :: "str option"
  ih_static :: bool
  ih_addresses :: "str list"

fun take_over :: "announcement \<Rightarrow> node_info list \<Rightarrow> cluster \<times> inheritance \<Rightarrow> cluster \<times> inheritance" where
  "take_over an [] st = st"
| "take_over an (p # ps) (c, ih) =
     take_over an ps
       (c\<lparr>c_registry := snd (remove_peer (ni_id p) (c_registry c)), c_toml := c_toml c @ [UpgradePeer (ni_id p) (an_id an)]\<rparr>,
        \<lparr>ih_name = (if ni_name p \<noteq> [] then Some (ni_name p) else ih_name ih),
         ih_static = (ih_static ih \<or> is_peer_static (ni_id p) (c_registry c)),
         ih_addresses = push_all (pinned_addresses p) (ih_addresses ih)\<rparr>)"

definition inherit_name :: "int \<Rightarrow> str \<Rightarrow> inheritance \<Rightarrow> registry \<Rightarrow> registry" where
  "inherit_name now k ih r =
     (case (ih_name ih, get_peer k r) of
        (Some name, Some info) \<Rightarrow>
          if ni_name info = [] \<or> ni_name info = k then upsert now (info\<lparr>ni_name := name\<rparr>) r else r
      | _ \<Rightarrow> r)"

definition inherit_addresses :: "int \<Rightarrow> str \<Rightarrow> inheritance \<Rightarrow> registry \<Rightarrow> registry" where
  "inherit_addresses now k ih r =
     (case get_peer k r of
        Some info \<Rightarrow>
          if \<not> set (ih_addresses ih) \<subseteq> set (ni_addresses info)
          then upsert now (info\<lparr>ni_addresses := push_all (ih_addresses ih) (ni_addresses info)\<rparr>) r else r
      | None \<Rightarrow> r)"

definition inherit_static :: "str \<Rightarrow> inheritance \<Rightarrow> registry \<Rightarrow> registry" where
  "inherit_static k ih r = (if ih_static ih then snd (mark_static k r) else r)"

definition upgrade_placeholders :: "int \<Rightarrow> announcement \<Rightarrow> cluster \<Rightarrow> cluster" where
  "upgrade_placeholders now an c =
     (case take_over an (filter (is_placeholder an) (list_peers (c_registry c)))
             (c, \<lparr>ih_name = None, ih_static = False, ih_addresses = []\<rparr>) of
        (c1, ih) \<Rightarrow>
          c1\<lparr>c_registry := inherit_static (an_id an) ih (inherit_addresses now (an_id an) ih (inherit_name now (an_id an) ih (c_registry c1)))\<rparr>)"

definition handle_discovered_node :: "int \<Rightarrow> announcement \<Rightarrow> cluster \<Rightarrow> bool \<times> cluster" where
  "handle_discovered_node now an c =
     (if an_id an \<in> set (c_removed c) then (False, c)
      else if an_rpc_port an = 0 then (False, c)
      else case (an_addresses an, get_peer (an_id an) (c_registry c)) of
             ([], Some old) \<Rightarrow>
               (case upsert_if_changed now (announced_identity now an old) (c_registry c) of
                  (changed, r) \<Rightarrow> (changed, c\<lparr>c_registry := r\<rparr>))
           | _ \<Rightarrow>
               (case upsert_if_changed now (announced_node now an (c_registry c)) (c_registry c) of
                  (changed, r) \<Rightarrow>
                    (let c1 = c\<lparr>c_registry := r\<rparr>;
                         c2 = (if primary_address an \<noteq> [] then upgrade_placeholders now an c1 else c1)
                     in (changed, c2\<lparr>c_discovered := c_discovered c2 @ [(an_id an, an_role an, an_category an)]\<rparr>))))"

subsection \<open>Other changes\<close>

definition handle_node_offline :: "int \<Rightarrow> str \<Rightarrow> cluster \<Rightarrow> cluster" where
  "handle_node_offline now k c =
     (case get_peer k (c_registry c) of
        Some info \<Rightarrow> c\<lparr>c_registry := upsert now (info\<lparr>ni_status := Offline\<rparr>) (c_registry c)\<rparr>
      | None \<Rightarrow> c)"

definition remove_node :: "str \<Rightarrow> cluster \<Rightarrow> bool \<times> cluster" where
  "remove_node k c =
     (case remove_peer k (c_registry c) of
        (removed, r) \<Rightarrow>
          (removed, c\<lparr>c_registry := r, c_removed := (if removed then push_new k (c_removed c) else c_removed c),
                      c_toml := c_toml c @ [RemovePeer k]\<rparr>))"

definition unban_node :: "str \<Rightarrow> cluster \<Rightarrow> bool \<times> cluster" where
  "unban_node k c = (k \<in> set (c_removed c), c\<lparr>c_removed := removeAll k (c_removed c)\<rparr>)"

definition fire_recovered_callback :: "str \<Rightarrow> cluster \<Rightarrow> cluster" where
  "fire_recovered_callback k c =
     (case get_peer k (c_registry c) of
        Some info \<Rightarrow> c\<lparr>c_discovered := c_discovered c @ [(k, role_str (ni_role info), ni_category info)]\<rparr>
      | None \<Rightarrow> c)"

definition mark_peer_healthy :: "int \<Rightarrow> str \<Rightarrow> cluster \<Rightarrow> cluster" where
  "mark_peer_healthy now k c =
     (let was_offline = (case get_peer k (c_registry c) of Some info \<Rightarrow> ni_status info \<noteq> Online | None \<Rightarrow> False);
          c1 = c\<lparr>c_registry := mark_healthy now k (c_registry c)\<rparr>
      in if was_offline then fire_recovered_callback k c1 else c1)"

definition mark_peer_offline :: "str \<Rightarrow> cluster \<Rightarrow> cluster" where
  "mark_peer_offline k c = c\<lparr>c_registry := mark_offline k (c_registry c)\<rparr>"

text \<open>
  The health loop: at every tick each peer but the node itself is probed, one that is not online at every fifth tick only.  An
  answer may carry an announcement, which is handled unless it is the node's own.
\<close>

definition should_probe_peer :: "bool \<Rightarrow> nat \<Rightarrow> bool" where
  "should_probe_peer online tick \<longleftrightarrow> online \<or> 5 dvd tick"

definition apply_probe_announce :: "str \<Rightarrow> int \<Rightarrow> announcement \<Rightarrow> cluster \<Rightarrow> cluster" where
  "apply_probe_announce own now an c =
     (if an_id an = [] \<or> an_id an = own then c else snd (handle_discovered_node now an c))"

definition probe_answered :: "str \<Rightarrow> int \<Rightarrow> announcement option \<Rightarrow> str \<Rightarrow> cluster \<Rightarrow> cluster" where
  "probe_answered own now an k c =
     (let c1 = (case an of Some a \<Rightarrow> apply_probe_announce own now a c | None \<Rightarrow> c)
      in case record_probe_success now k (c_registry c1) of
           (flipped, r) \<Rightarrow> (let c2 = c1\<lparr>c_registry := r\<rparr> in if flipped then fire_recovered_callback k c2 else c2))"

definition probe_unanswered :: "32 word \<Rightarrow> str \<Rightarrow> cluster \<Rightarrow> cluster" where
  "probe_unanswered threshold k c = c\<lparr>c_registry := snd (record_probe_failure k threshold (c_registry c))\<rparr>"

text \<open>What comes back from a peer, a failure or an answer, is an argument.\<close>

definition probe_one ::
    "str \<Rightarrow> int \<Rightarrow> 32 word \<Rightarrow> nat \<Rightarrow> (str \<Rightarrow> announcement option option) \<Rightarrow> node_info \<Rightarrow> cluster \<Rightarrow> cluster" where
  "probe_one own now threshold tick answer p c =
     (if ni_id p = own \<or> \<not> should_probe_peer (ni_status p = Online) tick then c
      else case answer (ni_id p) of
             Some an \<Rightarrow> probe_answered own now an (ni_id p) c
           | None \<Rightarrow> probe_unanswered threshold (ni_id p) c)"

definition health_tick ::
    "str \<Rightarrow> int \<Rightarrow> 32 word \<Rightarrow> nat \<Rightarrow> (str \<Rightarrow> announcement option option) \<Rightarrow> cluster \<Rightarrow> cluster" where
  "health_tick own now threshold tick answer c =
     fold (probe_one own now threshold tick answer) (list_peers (c_registry c)) c"

subsection \<open>Lemmas: what an operation leaves alone\<close>

lemma upsert_other: "k \<noteq> ni_id info \<Longrightarrow> map_of (upsert now info r) k = map_of r k"
  by (simp add: upsert_def update_conv')

lemma upsert_if_changed_other: "k \<noteq> ni_id info \<Longrightarrow> map_of (snd (upsert_if_changed now info r)) k = map_of r k"
  by (simp add: upsert_if_changed_def update_conv' split: option.splits)

lemma remove_peer_map: "map_of (snd (remove_peer j r)) k = (if k = j then None else map_of r k)"
  by (simp add: remove_peer_def delete_conv')

lemma wf_upsert: "registry_wf r \<Longrightarrow> registry_wf (upsert now info r)"
  using wf_step registry_step.Upsert by blast

lemma wf_upsert_if_changed: "registry_wf r \<Longrightarrow> registry_wf (snd (upsert_if_changed now info r))"
  using wf_step registry_step.UpsertIfChanged by blast

lemma list_peers_entry:
  assumes "registry_wf r" "p \<in> set (list_peers r)"
  shows "get_peer (ni_id p) r = Some p"
proof -
  obtain k e where "(k, e) \<in> set r" "p = pe_info e" using assms(2) by (auto simp: list_peers_def)
  then have "map_of r k = Some e" using assms(1) by (simp add: registry_wf_def map_of_eq_Some_iff)
  then show ?thesis using assms(1) \<open>p = pe_info e\<close> by (auto simp: registry_wf_def get_peer_def)
qed

lemma get_peer_id: "registry_wf r \<Longrightarrow> get_peer k r = Some info \<Longrightarrow> ni_id info = k"
  by (auto simp: get_peer_def registry_wf_def)

lemma take_over_registry:
  "map_of (c_registry (fst (take_over an ps (c, ih)))) k = (if k \<in> ni_id ` set ps then None else map_of (c_registry c) k)"
  by (induction ps arbitrary: c ih) (auto simp: remove_peer_map)

lemma take_over_wf: "registry_wf (c_registry c) \<Longrightarrow> registry_wf (c_registry (fst (take_over an ps (c, ih))))"
proof (induction ps arbitrary: c ih)
  case (Cons p ps)
  show ?case using Cons.prems by (simp add: remove_peer_def wf_delete Cons.IH)
qed simp

lemma inherit_name_other:
  "registry_wf r \<Longrightarrow> k \<noteq> j \<Longrightarrow> map_of (inherit_name now j ih r) k = map_of r k"
  using get_peer_id [of r j] by (auto simp: inherit_name_def upsert_other split: option.splits)

lemma inherit_name_wf: "registry_wf r \<Longrightarrow> registry_wf (inherit_name now j ih r)"
  by (auto simp: inherit_name_def wf_upsert split: option.splits)

lemma inherit_addresses_other:
  "registry_wf r \<Longrightarrow> k \<noteq> j \<Longrightarrow> map_of (inherit_addresses now j ih r) k = map_of r k"
  using get_peer_id [of r j] by (auto simp: inherit_addresses_def upsert_other split: option.splits)

lemma inherit_static_other: "k \<noteq> j \<Longrightarrow> map_of (inherit_static j ih r) k = map_of r k"
  by (auto simp: inherit_static_def mark_static_def modify_def update_conv' split: option.splits)

lemma upgrade_spares:
  assumes "registry_wf (c_registry c)" "map_of (c_registry c) k = Some e" "k \<noteq> an_id an" "\<not> is_placeholder an (pe_info e)"
  shows "map_of (c_registry (upgrade_placeholders now an c)) k = Some e"
proof -
  let ?ps = "filter (is_placeholder an) (list_peers (c_registry c))"
  have "k \<notin> ni_id ` set ?ps"
  proof
    assume "k \<in> ni_id ` set ?ps"
    then obtain p where p: "p \<in> set (list_peers (c_registry c))" "is_placeholder an p" "ni_id p = k" by auto
    then have "p = pe_info e" using list_peers_entry [OF assms(1) p(1)] assms(2) by (simp add: get_peer_def)
    then show False using p(2) assms(4) by simp
  qed
  then have t: "map_of (c_registry (fst (take_over an ?ps (c, ih)))) k = Some e" for ih
    using assms(2) by (simp add: take_over_registry)
  obtain c2 ih where r: "take_over an ?ps (c, \<lparr>ih_name = None, ih_static = False, ih_addresses = []\<rparr>) = (c2, ih)"
    by (cases "take_over an ?ps (c, \<lparr>ih_name = None, ih_static = False, ih_addresses = []\<rparr>)")
  then have "map_of (c_registry c2) k = Some e" "registry_wf (c_registry c2)"
    using t [of "\<lparr>ih_name = None, ih_static = False, ih_addresses = []\<rparr>"]
      take_over_wf [OF assms(1), of an ?ps "\<lparr>ih_name = None, ih_static = False, ih_addresses = []\<rparr>"] by simp_all
  then show ?thesis
    using r assms(3)
    by (simp add: upgrade_placeholders_def inherit_static_other inherit_addresses_other inherit_name_other inherit_name_wf)
qed

text \<open>The announcement of a node is entered, and placeholders for it are upgraded unless it has no address.\<close>

definition entered :: "int \<Rightarrow> announcement \<Rightarrow> cluster \<Rightarrow> bool \<times> cluster" where
  "entered now an c =
     (case upsert_if_changed now (announced_node now an (c_registry c)) (c_registry c) of (changed, r) \<Rightarrow>
        (let c1 = c\<lparr>c_registry := r\<rparr>;
             c2 = (if primary_address an \<noteq> [] then upgrade_placeholders now an c1 else c1)
         in (changed, c2\<lparr>c_discovered := c_discovered c2 @ [(an_id an, an_role an, an_category an)]\<rparr>)))"

lemma entered_spares:
  assumes "registry_wf (c_registry c)" "map_of (c_registry c) k = Some e" "k \<noteq> an_id an" "\<not> is_placeholder an (pe_info e)"
  shows "map_of (c_registry (snd (entered now an c))) k = Some e"
proof -
  let ?info = "announced_node now an (c_registry c)"
  obtain d r where r: "upsert_if_changed now ?info (c_registry c) = (d, r)"
    by (cases "upsert_if_changed now ?info (c_registry c)")
  have "ni_id ?info = an_id an" by (simp add: announced_node_def)
  then have "registry_wf r" "map_of r k = Some e"
    using r wf_upsert_if_changed [OF assms(1), of now ?info] upsert_if_changed_other [of k ?info now "c_registry c"] assms(2,3) by simp_all
  then show ?thesis using assms(3,4) by (simp add: entered_def r Let_def upgrade_spares)
qed

lemma handle_discovered_entered:
  assumes "an_id an \<notin> set (c_removed c)" "an_rpc_port an \<noteq> 0" "an_addresses an \<noteq> [] \<or> get_peer (an_id an) (c_registry c) = None"
  shows "handle_discovered_node now an c = entered now an c"
  using assms by (cases "an_addresses an"; cases "get_peer (an_id an) (c_registry c)") (simp_all add: handle_discovered_node_def entered_def)


lemma upsert_self: "map_of (upsert now info r) (ni_id info) =
    Some (case map_of r (ni_id info) of Some e \<Rightarrow> refreshed now info e | None \<Rightarrow> new_entry now info)"
  by (simp add: upsert_def update_conv')

lemma set_push_new [simp]: "set (push_new x xs) = insert x (set xs)"
  by (auto simp: push_new_def)

lemma set_push_all [simp]: "set (push_all ys xs) = set ys \<union> set xs"
  by (induction ys arbitrary: xs) (auto simp: push_all_def)

text \<open>
  A pinned entry: it is static, its address is the configured one, and no configured address is missing.
\<close>

definition pinned :: "str \<Rightarrow> str \<Rightarrow> str list \<Rightarrow> registry \<Rightarrow> bool" where
  "pinned k a as r \<longleftrightarrow>
     (case map_of r k of
        Some e \<Rightarrow> pe_static e \<and> ni_address (pe_info e) = a \<and> set as \<subseteq> set (ni_addresses (pe_info e))
      | None \<Rightarrow> False)"

lemma pinned_upsert:
  assumes "pinned k a as r" "ni_id info = k" "ni_address info = a" "set as \<subseteq> set (ni_addresses info)"
  shows "pinned k a as (upsert now info r)"
  using assms upsert_self [of now info r] by (auto simp: pinned_def refreshed_def split: option.splits)

lemma pinned_upsert_if_changed:
  assumes "pinned k a as r" "ni_id info = k" "ni_address info = a" "set as \<subseteq> set (ni_addresses info)"
  shows "pinned k a as (snd (upsert_if_changed now info r))"
proof -
  obtain e where e: "map_of r k = Some e" "pe_static e" using assms(1) by (auto simp: pinned_def split: option.splits)
  then have "map_of (snd (upsert_if_changed now info r)) k =
      Some (refreshed now (if content_eq (pe_info e) info then pe_info e else info) e)"
    using assms(2) by (simp add: upsert_if_changed_def update_conv')
  then show ?thesis using assms e by (simp add: pinned_def refreshed_def)
qed

lemma pinned_entry:
  assumes "pinned k a as r" "registry_wf r"
  obtains info where "get_peer k r = Some info" "ni_id info = k" "ni_address info = a" "set as \<subseteq> set (ni_addresses info)"
proof -
  obtain e where "map_of r k = Some e" "ni_address (pe_info e) = a" "set as \<subseteq> set (ni_addresses (pe_info e))"
    using assms(1) by (auto simp: pinned_def split: option.splits)
  then show ?thesis using that [of "pe_info e"] wf_entry [OF assms(2)] by (simp add: get_peer_def)
qed

lemma pinned_upgrade:
  assumes "pinned (an_id an) a as (c_registry c)" "registry_wf (c_registry c)"
  shows "pinned (an_id an) a as (c_registry (upgrade_placeholders now an c))"
proof -
  let ?ps = "filter (is_placeholder an) (list_peers (c_registry c))"
  let ?ih = "\<lparr>ih_name = None, ih_static = False, ih_addresses = []\<rparr>"
  obtain c1 ih where t: "take_over an ?ps (c, ?ih) = (c1, ih)" by (cases "take_over an ?ps (c, ?ih)")
  have "an_id an \<notin> ni_id ` set ?ps" by (auto simp: is_placeholder_def)
  then have p1: "pinned (an_id an) a as (c_registry c1)"
    using take_over_registry [of an ?ps c ?ih "an_id an"] t assms(1) by (simp add: pinned_def)
  have w1: "registry_wf (c_registry c1)" using take_over_wf [OF assms(2), of an ?ps ?ih] t by simp
  have p2: "pinned (an_id an) a as (inherit_name now (an_id an) ih (c_registry c1))"
  proof -
    obtain info where "get_peer (an_id an) (c_registry c1) = Some info" "ni_id info = an_id an" "ni_address info = a"
      "set as \<subseteq> set (ni_addresses info)"
      using pinned_entry [OF p1 w1] .
    then show ?thesis using p1 by (simp add: inherit_name_def pinned_upsert split: option.splits)
  qed
  have w2: "registry_wf (inherit_name now (an_id an) ih (c_registry c1))" by (rule inherit_name_wf [OF w1])
  have p3: "pinned (an_id an) a as (inherit_addresses now (an_id an) ih (inherit_name now (an_id an) ih (c_registry c1)))"
  proof -
    obtain info where "get_peer (an_id an) (inherit_name now (an_id an) ih (c_registry c1)) = Some info" "ni_id info = an_id an"
      "ni_address info = a" "set as \<subseteq> set (ni_addresses info)"
      using pinned_entry [OF p2 w2] .
    then show ?thesis using p2 by (simp add: inherit_addresses_def pinned_upsert le_supI2)
  qed
  have "pinned k a as (inherit_static k ih r)" if "pinned k a as r" for k r
    using that by (auto simp: pinned_def inherit_static_def mark_static_def modify_def update_conv' split: option.splits)
  from this [OF p3] show ?thesis using t by (simp add: upgrade_placeholders_def)
qed

text \<open>
  C29: What a user configured of a peer stays.  Neither an announcement of that node nor the identity it reports on
  request takes away its static mark, the address it was configured with or one of its further addresses, even when
  placeholders of the same node are taken over on the way.
\<close>

theorem pin_kept:
  assumes "registry_wf (c_registry c)" "pinned k a as (c_registry c)" "a \<noteq> []"
  shows "(an_id an = k \<longrightarrow> pinned k a as (c_registry (snd (handle_discovered_node now an c)))) \<and>
    (rn_id info = k \<longrightarrow> pinned k a as (c_registry (merge_real_node_info now info c)))"
proof -
  obtain old where old: "get_peer k (c_registry c) = Some old" "ni_id old = k" "ni_address old = a"
    "set as \<subseteq> set (ni_addresses old)"
    using pinned_entry [OF assms(2,1)] by blast
  have static: "is_peer_static k (c_registry c)"
    using assms(2) by (auto simp: pinned_def is_peer_static_def split: option.splits)
  have "pinned k a as (c_registry (snd (handle_discovered_node now an c)))" if k: "an_id an = k"
  proof -
    let ?info = "announced_node now an (c_registry c)"
    have info: "ni_id ?info = k" "ni_address ?info = a" "set as \<subseteq> set (ni_addresses ?info)"
      using old static k assms(3)
      by (auto simp: announced_node_def static_entry_def address_pool_def pinned_addresses_def Let_def split: option.splits)
    obtain d r where r: "upsert_if_changed now ?info (c_registry c) = (d, r)"
      by (cases "upsert_if_changed now ?info (c_registry c)")
    have wf: "registry_wf r" "pinned k a as r"
      using r wf_upsert_if_changed [OF assms(1), of now ?info] pinned_upsert_if_changed [OF assms(2) info, of now] by simp_all
    have id: "ni_id (announced_identity now an old) = k" "ni_address (announced_identity now an old) = a"
      "set as \<subseteq> set (ni_addresses (announced_identity now an old))"
      using old by (simp_all add: announced_identity_def)
    from pinned_upsert_if_changed [OF assms(2) id] r wf pinned_upgrade [of an a as] old(1) k assms(2)
    show ?thesis
      by (cases "an_addresses an") (simp_all add: handle_discovered_node_def case_prod_beta Let_def)
  qed
  moreover have "pinned k a as (c_registry (merge_real_node_info now info c))" if "rn_id info = k"
    using old static that assms(2)
    by (auto simp: merge_real_node_info_def merged_node_def intro!: pinned_upsert)
  ultimately show ?thesis by blast
qed

subsection \<open>Addresses without a port\<close>

lemma rfind_char_none: "c \<notin> set s \<Longrightarrow> rfind_char c s = None"
  by (induction s) auto

lemma rfind_char_last: "c \<notin> set p \<Longrightarrow> rfind_char c (h @ c # p) = Some (length h)"
  by (induction h) (simp_all add: rfind_char_none)

lemma host_port_cases:
  assumes "CHR '':'' \<notin> set h" "CHR '':'' \<notin> set p" "h \<noteq> []" "p \<noteq> []"
  shows "host_port h = (h, None)" and "host_port (h @ '':'' @ p) = (h, Some p)"
  using assms by (simp_all add: host_port_def rfind_char_none rfind_char_last)

text \<open>A text that comparing addresses leaves as it is.\<close>

definition plain :: "str \<Rightarrow> bool" where
  "plain s \<longleftrightarrow> to_lowercase (trim s) = s"

text \<open>
  Two comparisons of addresses disagree on a missing port.  When a node is reported for the first time by its
  identity, an entry that lists its host alone matches every port of that host, so a different node of the same machine is
  taken over: its entry disappears, and the new one is not static even if the old one was.  An announcement
  of the same node with that port alone does not match the host and spares the entry.
\<close>

theorem report_takes_over_neighbour:
  assumes "c_registry c = [(k, e)]" "ni_id (pe_info e) = k" "h \<in> set (ni_addresses (pe_info e))"
    and "rn_address info = h @ '':'' @ p" "rn_id info \<noteq> k"
    and "CHR '':'' \<notin> set h" "CHR '':'' \<notin> set p" "h \<noteq> []" "p \<noteq> []" "plain h" "plain (h @ '':'' @ p)"
  shows "map_of (c_registry (merge_real_node_info now info c)) k = None"
    and "\<not> is_peer_static (rn_id info) (c_registry (merge_real_node_info now info c))"
    and "\<not> addr_eq h (h @ '':'' @ p)"
proof -
  note hp = host_port_cases [OF assms(6-9)]
  have n: "to_lowercase (trim (h @ '':'' @ p)) = h @ '':'' @ p" "to_lowercase (trim h) = h"
    using assms(10,11) by (simp_all only: plain_def)
  have "addr_matches h (h @ '':'' @ p)"
    by (simp only: addr_matches_def n Let_def hp) (simp add: assms(8))
  then have "find_by_address (rn_address info) (c_registry c) = Some (pe_info e)"
    using assms(1,3,8) by (auto simp: find_by_address_def assms(4) n [simplified] Let_def list_ex_iff)
  then have ph: "placeholder_id info (c_registry c) = Some k" using assms(2) by (simp add: placeholder_id_def)
  have m: "c_registry (merge_real_node_info now info c) = [(rn_id info, new_entry now (real_node now info))]"
    using ph assms(1,5) by (auto simp: merge_real_node_info_def get_peer_def upsert_def remove_peer_def real_node_def Let_def)
  show "map_of (c_registry (merge_real_node_info now info c)) k = None"
    "\<not> is_peer_static (rn_id info) (c_registry (merge_real_node_info now info c))"
    using assms(5) by (simp_all add: m is_peer_static_def new_entry_def)
  show "\<not> addr_eq h (h @ '':'' @ p)" by (simp only: addr_eq_def n Let_def hp) simp
qed

subsection \<open>Peers that come back\<close>

lemma probe_success_status:
  "get_peer k r = Some info \<Longrightarrow>
    get_peer k (snd (record_probe_success now k r)) = Some (info\<lparr>ni_status := Online\<rparr>) \<and>
    (fst (record_probe_success now k r) \<longleftrightarrow> ni_status info \<noteq> Online)"
  by (auto simp: record_probe_success_def get_peer_def set_status_def Let_def update_conv' split: option.splits)

lemma accepted_without_addresses:
  assumes "registry_wf (c_registry c)" "get_peer k (c_registry c) = Some old" "an_id an = k" "k \<notin> set (c_removed c)"
    "an_rpc_port an \<noteq> 0" "an_addresses an = []"
  shows "get_peer k (c_registry (snd (handle_discovered_node now an c))) \<noteq> None \<and>
    map_option ni_status (get_peer k (c_registry (snd (handle_discovered_node now an c)))) = Some Online \<and>
    c_discovered (snd (handle_discovered_node now an c)) = c_discovered c"
proof -
  let ?info = "announced_identity now an old"
  have id: "ni_id ?info = k" "ni_status ?info = Online"
    using get_peer_id [OF assms(1,2)] by (simp_all add: announced_identity_def)
  have "map_option ni_status (get_peer k (snd (upsert_if_changed now ?info (c_registry c)))) = Some Online"
    using id by (cases "map_of (c_registry c) k")
      (simp_all add: upsert_if_changed_def get_peer_def update_conv' refreshed_def new_entry_def content_eq_def)
  then show ?thesis
    using assms by (auto simp: handle_discovered_node_def case_prod_beta)
qed

text \<open>
  A peer that answers a probe is online afterwards.  If it was not and its answer carries no announcement, its
  return is reported once.  If the answer carries an announcement of it without addresses, the announcement
  has already turned it online, without a report, so the probe sees no change: nobody is told, although the report exists
  for the networks in which the answer to a probe is the only sign of life.
\<close>

theorem returns_reported:
  assumes "registry_wf (c_registry c)" "get_peer k (c_registry c) = Some old" "ni_status old \<noteq> Online"
  shows "map_option ni_status (get_peer k (c_registry (probe_answered own now None k c))) = Some Online \<and>
    c_discovered (probe_answered own now None k c) = c_discovered c @ [(k, role_str (ni_role old), ni_category old)] \<and>
    (an_id an = k \<and> an_addresses an = [] \<and> an_rpc_port an \<noteq> 0 \<and> k \<notin> set (c_removed c) \<and> k \<noteq> [] \<and> k \<noteq> own \<longrightarrow>
      map_option ni_status (get_peer k (c_registry (probe_answered own now (Some an) k c))) = Some Online \<and>
      c_discovered (probe_answered own now (Some an) k c) = c_discovered c)"
proof -
  obtain flipped r where r: "record_probe_success now k (c_registry c) = (flipped, r)"
    by (cases "record_probe_success now k (c_registry c)")
  have s: "get_peer k r = Some (old\<lparr>ni_status := Online\<rparr>)" "flipped"
    using probe_success_status [OF assms(2), of now] assms(3) r by simp_all
  then have bare: "map_option ni_status (get_peer k (c_registry (probe_answered own now None k c))) = Some Online"
    "c_discovered (probe_answered own now None k c) = c_discovered c @ [(k, role_str (ni_role old), ni_category old)]"
    by (simp_all add: probe_answered_def r fire_recovered_callback_def)
  have "map_option ni_status (get_peer k (c_registry (probe_answered own now (Some an) k c))) = Some Online \<and>
      c_discovered (probe_answered own now (Some an) k c) = c_discovered c"
    if an: "an_id an = k" "an_addresses an = []" "an_rpc_port an \<noteq> 0" "k \<notin> set (c_removed c)" "k \<noteq> []" "k \<noteq> own"
  proof -
    let ?c1 = "snd (handle_discovered_node now an c)"
    obtain info where info: "get_peer k (c_registry ?c1) = Some info" "ni_status info = Online" "c_discovered ?c1 = c_discovered c"
      using accepted_without_addresses [OF assms(1,2) an(1,4,3,2), of now] by auto
    obtain f1 r1 where r1: "record_probe_success now k (c_registry ?c1) = (f1, r1)"
      by (cases "record_probe_success now k (c_registry ?c1)")
    have "get_peer k r1 = Some (info\<lparr>ni_status := Online\<rparr>)" "\<not> f1"
      using probe_success_status [OF info(1), of now] info(2) r1 by simp_all
    then show ?thesis
      using an info(3) r1 by (simp add: probe_answered_def apply_probe_announce_def)
  qed
  with bare show ?thesis by blast
qed

subsection \<open>Examples\<close>

definition example_node :: "str \<Rightarrow> str \<Rightarrow> node_info" where
  "example_node k address =
     \<lparr>ni_id = k, ni_name = k, ni_role = Worker, ni_address = address, ni_category = ''general'', ni_last_seen = 0,
      ni_status = Online, ni_capabilities = [], ni_tags = [], ni_professions = [], ni_tier = None, ni_agents = [],
      ni_addresses = [''10.0.0.1''], ni_node_type = ''agent''\<rparr>"

definition example_peer :: "str \<Rightarrow> str \<Rightarrow> peer_entry" where
  "example_peer k address = \<lparr>pe_info = example_node k address, pe_last_health_check = 0, pe_failures = 0, pe_static = True\<rparr>"

definition example_cluster :: cluster where
  "example_cluster =
     \<lparr>c_registry = [(''a'', example_peer ''a'' ''10.0.0.1:9000'')], c_removed = [], c_toml = [], c_discovered = []\<rparr>"

definition example_announcement :: "str \<Rightarrow> announcement" where
  "example_announcement k =
     \<lparr>an_id = k, an_name = k, an_addresses = [''10.0.0.1''], an_rpc_port = 9001, an_role = ''worker'',
      an_category = ''general'', an_tags = [], an_capabilities = [], an_node_type = ''agent'', an_professions = [],
      an_tier = None, an_agents = [], an_source = None\<rparr>"

definition example_report :: "str \<Rightarrow> real_node_info" where
  "example_report k =
     \<lparr>rn_id = k, rn_name = k, rn_address = ''10.0.0.1:9001'', rn_addresses = [''10.0.0.1''], rn_role = Worker,
      rn_category = ''general'', rn_capabilities = [], rn_tags = [], rn_professions = [], rn_tier = None,
      rn_agents = [], rn_node_type = ''agent''\<rparr>"

lemmas peer_examples = example_node_def example_peer_def example_cluster_def example_announcement_def example_report_def

lemma example_wf: "registry_wf (c_registry example_cluster)"
  by (simp add: registry_wf_def peer_examples)

lemma example_spared: "\<not> is_placeholder (example_announcement ''b'') (pe_info (example_peer ''a'' ''10.0.0.1:9000''))"
proof -
  have "port_text (example_announcement ''b'') = ''9001''"
    by (simp add: port_text_def example_announcement_def decimal.simps char_of_def bit_0)
  moreover have "\<not> addr_eq ''10.0.0.1'' ''10.0.0.1:9001''" "\<not> addr_eq ''10.0.0.1:9000'' ''10.0.0.1:9001''"
    by code_simp+
  ultimately show ?thesis
    by (simp add: is_placeholder_def example_announcement_def peer_examples with_port_def)
qed


theorem pin_kept_witness:
  "pinned ''a'' ''10.0.0.1:9000'' [''10.0.0.1'']
    (c_registry (snd (handle_discovered_node 5 (example_announcement ''a'') example_cluster)))"
  by (rule pin_kept [OF example_wf, THEN conjunct1, rule_format]) (simp_all add: pinned_def peer_examples)

theorem report_takes_over_neighbour_witness:
  "map_of (c_registry (merge_real_node_info 5 (example_report ''b'') example_cluster)) ''a'' = None"
proof (rule report_takes_over_neighbour(1) [of _ _ "example_peer ''a'' ''10.0.0.1:9000''" "''10.0.0.1''" _ "''9001''"])
  show "plain ''10.0.0.1''" by code_simp
  show "plain (''10.0.0.1'' @ '':'' @ ''9001'')" by code_simp
qed (simp_all add: peer_examples)

definition offline_cluster :: cluster where
  "offline_cluster = mark_peer_offline ''a'' example_cluster"

theorem returns_reported_witness:
  "c_discovered (probe_answered ''me'' 5 None ''a'' offline_cluster) = [(''a'', ''worker'', ''general'')]"
proof -
  have "registry_wf (c_registry offline_cluster)"
    by (simp add: offline_cluster_def mark_peer_offline_def mark_offline_def wf_modify set_status_def example_wf)
  moreover have "get_peer ''a'' (c_registry offline_cluster) = Some ((example_node ''a'' ''10.0.0.1:9000'')\<lparr>ni_status := Offline\<rparr>)"
    by (simp add: offline_cluster_def mark_peer_offline_def mark_offline_def modify_def set_status_def get_peer_def peer_examples)
  ultimately have "c_discovered (probe_answered ''me'' 5 None ''a'' offline_cluster) =
      c_discovered offline_cluster @ [(''a'', role_str (ni_role ((example_node ''a'' ''10.0.0.1:9000'')\<lparr>ni_status := Offline\<rparr>)),
        ni_category ((example_node ''a'' ''10.0.0.1:9000'')\<lparr>ni_status := Offline\<rparr>))]"
    by (rule returns_reported [THEN conjunct2, THEN conjunct1]) (simp add: peer_examples)
  then show ?thesis
    by (simp add: offline_cluster_def mark_peer_offline_def role_str_def peer_examples)
qed

end
