(* ===== verification/TurnGuard.thy ===== *)
theory TurnGuard
  imports Prelude "HOL-Library.AList"
begin

text \<open>
  The guard of one turn of the agent loop (nemesis-agent: turn_guard.rs, with the two places of
  loop/tool_batch.rs that feed it): it counts equal failures, repeated calls, empty answers and repeated
  texts, reminds the model, and stops a turn whose failures repeat.

  Counters are 32-bit in the sources and count calls of one turn; they are natural numbers here.  The table of failures
  is a hash map that is also searched, an association list in the order of iteration.  Reminders are constructors
  that carry what their text is formatted from.  Two texts are similar when the quotient of two set sizes is at least
  0.8 as a floating-point number, which for sets of less than 2 to the 40 elements is the comparison of integers below.
\<close>

subsection \<open>Constants and state\<close>

definition ALTERNATING_LOOP_THRESHOLD :: nat where "ALTERNATING_LOOP_THRESHOLD = 3"
definition ALTERNATING_LOOP_HARD_STOP :: nat where "ALTERNATING_LOOP_HARD_STOP = 6"
definition STORM_THRESHOLD :: nat where "STORM_THRESHOLD = 3"
definition REPEAT_SUCCESS_THRESHOLD :: nat where "REPEAT_SUCCESS_THRESHOLD = 2"
definition READ_REPEAT_NUDGE_THRESHOLD :: nat where "READ_REPEAT_NUDGE_THRESHOLD = 3"
definition MAX_EMPTY_FINAL_RETRIES :: nat where "MAX_EMPTY_FINAL_RETRIES = 3"
definition RECEIPT_RING_CAP :: nat where "RECEIPT_RING_CAP = 32"

definition RECEIPT_MISSING_MARKER :: str where
  "RECEIPT_MISSING_MARKER = NUL # ''receipt-missing: success claimed without execution proof''"

definition WRITE_LIKE_TOOLS :: "str list" where
  "WRITE_LIKE_TOOLS = [''edit_file'', ''write_file'', ''create_file'', ''save_file'', ''patch_file'', ''multiedit'']"

datatype nudge =
    AlternatingNudge str nat
  | StormNudge str nat
  | ReceiptNudge str
  | WriteNudge str nat
  | ReadNudge str nat
  | TextNudge

datatype final_answer_verdict = Accept | RetryWithNudge | GiveUp

record turn_guard =
  fail_freq :: "(str \<times> nat) list"
  storm_sig :: "str option"
  storm_count :: nat
  success_counts :: "str \<rightharpoonup> nat"
  read_success_counts :: "str \<rightharpoonup> nat"
  empty_final_count :: nat
  last_content :: "str option"
  repeat_text_count :: nat
  receipts :: "(str \<times> nat) list"
  had_writes :: bool

definition new_guard :: turn_guard where
  "new_guard = \<lparr>fail_freq = [], storm_sig = None, storm_count = 0, success_counts = Map.empty, read_success_counts = Map.empty,
     empty_final_count = 0, last_content = None, repeat_text_count = 0, receipts = [], had_writes = False\<rparr>"

subsection \<open>Signatures\<close>

text \<open>\<^verbatim>\<open>trim_start_matches\<close> for a text that is not empty: every leading copy is removed.\<close>

function trim_start_str :: "str \<Rightarrow> str \<Rightarrow> str" where
  "trim_start_str p s = (if p \<noteq> [] \<and> prefix p s then trim_start_str p (drop (length p) s) else s)"
  by pat_completeness auto
termination
  by (relation "measure (\<lambda>(p, s). length s)") (auto simp: prefix_def)

declare trim_start_str.simps [simp del]

definition tool_result_indicates_error :: "str \<Rightarrow> bool" where
  "tool_result_indicates_error result \<longleftrightarrow>
     prefix ''Error:'' result \<or> prefix ''Tool error:'' result \<or> prefix ''Exit code:'' result"

definition meaningful_line :: "str \<Rightarrow> str option" where
  "meaningful_line l =
     (let s = trim (trim_start_str ''stderr:'' (trim_start_str ''stdout:'' l))
      in if s = [] \<or> prefix ''Exit code:'' s then None else Some s)"

definition normalized_error :: "str \<Rightarrow> str" where
  "normalized_error error =
     (let stripped = trim (trim_start_str ''Tool error:'' (trim_start_str ''Error:'' error))
      in take 120 (case List.map_filter meaningful_line (str_lines stripped) of
                     m # ms \<Rightarrow> m
                   | [] \<Rightarrow> trim (case str_lines stripped of l # ls \<Rightarrow> l | [] \<Rightarrow> stripped)))"

definition error_signature :: "str \<Rightarrow> str \<Rightarrow> str" where
  "error_signature tool error = tool @ [NUL] @ normalized_error error"

definition is_write_like_tool :: "str \<Rightarrow> bool" where
  "is_write_like_tool name \<longleftrightarrow> name \<in> set WRITE_LIKE_TOOLS"

text \<open>JSON is parsed and written out anew by the parameter, \<open>None\<close> for a text that is not JSON.\<close>

definition canonical_args :: "(str \<Rightarrow> str option) \<Rightarrow> str \<Rightarrow> str" where
  "canonical_args canon args = (case canon args of Some v \<Rightarrow> v | None \<Rightarrow> join '' '' (split_whitespace args))"

subsection \<open>Outcomes of tools\<close>

definition failures :: "turn_guard \<Rightarrow> str \<Rightarrow> nat" where
  "failures g sig = (case map_of (fail_freq g) sig of Some n \<Rightarrow> n | None \<Rightarrow> 0)"

definition note_failure :: "str \<Rightarrow> turn_guard \<Rightarrow> turn_guard" where
  "note_failure sig g = g\<lparr>fail_freq := AList.update sig (failures g sig + 1) (fail_freq g)\<rparr>"

definition record_tool_outcome :: "str \<Rightarrow> str option \<Rightarrow> turn_guard \<Rightarrow> nudge option \<times> turn_guard" where
  "record_tool_outcome tool error g =
     (case error of
        None \<Rightarrow> (None, g\<lparr>storm_sig := None, storm_count := 0\<rparr>)
      | Some e \<Rightarrow>
          (let sig = error_signature tool e;
               g1 = note_failure sig g;
               n = failures g1 sig;
               alt_nudge = (if n \<ge> ALTERNATING_LOOP_THRESHOLD then Some (AlternatingNudge tool n) else None)
           in if storm_sig g1 = Some sig
              then (let c = storm_count g1 + 1
                    in (if c \<ge> STORM_THRESHOLD then Some (StormNudge tool c) else alt_nudge, g1\<lparr>storm_count := c\<rparr>))
              else (alt_nudge, g1\<lparr>storm_sig := Some sig, storm_count := 1\<rparr>)))"

definition record_receipt :: "str \<Rightarrow> nat \<Rightarrow> turn_guard \<Rightarrow> turn_guard" where
  "record_receipt r ts g =
     (let rs = receipts g @ [(r, ts)] in g\<lparr>receipts := drop (length rs - RECEIPT_RING_CAP) rs\<rparr>)"

definition receipt_count :: "turn_guard \<Rightarrow> nat" where
  "receipt_count g = length (receipts g)"

definition record_tool_outcome_verified ::
    "str \<Rightarrow> str option \<Rightarrow> (str \<times> nat) option \<Rightarrow> turn_guard \<Rightarrow> nudge option \<times> turn_guard" where
  "record_tool_outcome_verified tool error receipt g =
     (let g1 = (case receipt of Some (r, ts) \<Rightarrow> record_receipt r ts g | None \<Rightarrow> g)
      in if error = None \<and> receipt = None
         then (Some (ReceiptNudge tool), note_failure (error_signature tool RECEIPT_MISSING_MARKER) g1)
         else record_tool_outcome tool error g1)"

subsection \<open>Escalation\<close>

definition escalating_signature :: "turn_guard \<Rightarrow> (str \<times> nat) option" where
  "escalating_signature g = find (\<lambda>(sig, n). n \<ge> ALTERNATING_LOOP_HARD_STOP) (fail_freq g)"

text \<open>The message that stops a turn names the tool, the part of the signature before the NUL, and the count.\<close>

definition escalation_message :: "str \<Rightarrow> nat \<Rightarrow> str \<times> nat" where
  "escalation_message sig n = (hd (split_on NUL sig), n)"

definition escalation_check :: "turn_guard \<Rightarrow> (str \<times> nat) option" where
  "escalation_check g = map_option (\<lambda>(sig, n). escalation_message sig n) (escalating_signature g)"

definition clear_signature :: "str \<Rightarrow> turn_guard \<Rightarrow> turn_guard" where
  "clear_signature sig g = g\<lparr>fail_freq := AList.delete sig (fail_freq g)\<rparr>"

subsection \<open>Repeated calls, texts and empty answers\<close>

definition bump :: "str \<Rightarrow> (str \<rightharpoonup> nat) \<Rightarrow> nat \<times> (str \<rightharpoonup> nat)" where
  "bump sig m = (let n = (case m sig of Some k \<Rightarrow> k | None \<Rightarrow> 0) + 1 in (n, m(sig \<mapsto> n)))"

definition record_write_success :: "(str \<Rightarrow> str option) \<Rightarrow> str \<Rightarrow> str \<Rightarrow> turn_guard \<Rightarrow> nudge option \<times> turn_guard" where
  "record_write_success canon tool args g =
     (if \<not> is_write_like_tool tool then (None, g)
      else case bump (tool @ [NUL] @ canonical_args canon args) (success_counts g) of
             (n, m) \<Rightarrow> (if n > REPEAT_SUCCESS_THRESHOLD then Some (WriteNudge tool n) else None,
                       g\<lparr>success_counts := m, had_writes := True\<rparr>))"

definition record_read_success :: "(str \<Rightarrow> str option) \<Rightarrow> str \<Rightarrow> str \<Rightarrow> turn_guard \<Rightarrow> nudge option \<times> turn_guard" where
  "record_read_success canon tool args g =
     (if is_write_like_tool tool then (None, g)
      else case bump (tool @ [NUL] @ canonical_args canon args) (read_success_counts g) of
             (n, m) \<Rightarrow> (if n \<ge> READ_REPEAT_NUDGE_THRESHOLD then Some (ReadNudge tool n) else None,
                       g\<lparr>read_success_counts := m\<rparr>))"

definition shingles :: "str \<Rightarrow> nat \<Rightarrow> str list" where
  "shingles s n = (if length s < n then [s] else map (\<lambda>i. take n (drop i s)) [0..<length s - n + 1])"

definition similar :: "str \<Rightarrow> str \<Rightarrow> bool" where
  "similar a b =
     (let sa = set (shingles a 4); sb = set (shingles b 4)
      in sa = {} \<and> sb = {} \<or> card (sa \<union> sb) \<noteq> 0 \<and> 4 * card (sa \<union> sb) \<le> 5 * card (sa \<inter> sb))"

definition check_text_repetition :: "str \<Rightarrow> turn_guard \<Rightarrow> nudge option \<times> turn_guard" where
  "check_text_repetition content g =
     (if trim content = [] then (None, g)
      else if (case last_content g of Some prev \<Rightarrow> similar prev content | None \<Rightarrow> False)
      then (Some TextNudge, g\<lparr>repeat_text_count := repeat_text_count g + 1, last_content := Some content\<rparr>)
      else (None, g\<lparr>repeat_text_count := 0, last_content := Some content\<rparr>))"

definition check_final_answer :: "str \<Rightarrow> turn_guard \<Rightarrow> final_answer_verdict \<times> turn_guard" where
  "check_final_answer content g =
     (if trim content \<noteq> [] then (Accept, g)
      else (let n = empty_final_count g + 1
            in (if n \<ge> MAX_EMPTY_FINAL_RETRIES then GiveUp else RetryWithNudge, g\<lparr>empty_final_count := n\<rparr>)))"

subsection \<open>The guard in the batch of tool calls\<close>

text \<open>
  A call as the batch hands it to the guard: its result, the form of the result that the size gates leave, and
  its receipt, and whether a person (or the unattended mode) would let the turn go on if it is found stuck after this call.
\<close>

record guarded_call =
  gc_tool :: str
  gc_args :: str
  gc_result :: str
  gc_gate_text :: str
  gc_receipt :: "str \<times> nat"
  gc_approved :: bool

definition apply_tool_guards :: "(str \<Rightarrow> str option) \<Rightarrow> guarded_call \<Rightarrow> turn_guard \<Rightarrow> bool \<times> nudge list \<times> turn_guard" where
  "apply_tool_guards canon c g =
     (let ok = \<not> tool_result_indicates_error (gc_result c);
          (n5, g1) = (if ok then record_write_success canon (gc_tool c) (gc_args c) g else (None, g));
          (n5r, g2) = (if ok then record_read_success canon (gc_tool c) (gc_args c) g1 else (None, g1));
          (n6, g3) = record_tool_outcome_verified (gc_tool c) (if ok then None else Some (gc_gate_text c)) (Some (gc_receipt c)) g2
      in (ok, List.map_filter id [n5, n5r, n6], g3))"

definition check_escalation :: "bool \<Rightarrow> turn_guard \<Rightarrow> (str \<times> nat) option \<times> turn_guard" where
  "check_escalation approved g =
     (case escalating_signature g of
        None \<Rightarrow> (None, g)
      | Some (sig, n) \<Rightarrow> if approved then (None, clear_signature sig g) else (Some (escalation_message sig n), g))"

text \<open>The calls of a turn; the result is the number of calls that ran, and why the turn was stopped.\<close>

fun guard_run :: "(str \<Rightarrow> str option) \<Rightarrow> guarded_call list \<Rightarrow> turn_guard \<Rightarrow> nat \<times> (str \<times> nat) option \<times> turn_guard" where
  "guard_run canon [] g = (0, None, g)"
| "guard_run canon (c # cs) g =
     (case apply_tool_guards canon c g of (ok, nudges, g1) \<Rightarrow>
        (case check_escalation (gc_approved c) g1 of
           (Some stop, g2) \<Rightarrow> (1, Some stop, g2)
         | (None, g2) \<Rightarrow> (case guard_run canon cs g2 of (n, stop, g3) \<Rightarrow> (Suc n, stop, g3))))"

subsection \<open>Lemmas: signatures\<close>

text \<open>
  Two failures have the same signature exactly when the tools are the same and the first meaningful lines of
  the errors agree in 120 characters; the arguments of the calls play no part.
\<close>

theorem signatures_separate:
  assumes "NUL \<notin> set tool" "NUL \<notin> set tool'"
  shows "error_signature tool e = error_signature tool' e' \<longleftrightarrow> tool = tool' \<and> normalized_error e = normalized_error e'"
  using assms by (auto simp: error_signature_def append_eq_append_conv2 append_eq_Cons_conv Cons_eq_append_conv)

lemma signature_tool: "NUL \<notin> set tool \<Longrightarrow> hd (split_on NUL (error_signature tool e)) = tool"
  unfolding error_signature_def by (induction tool) (auto split: list.splits)

subsection \<open>Lemmas: failures follow the history\<close>

lemma failures_count: "failures (note_failure sig g) s = (if s = sig then failures g s + 1 else failures g s)"
  by (simp add: failures_def note_failure_def update_conv')

lemma failures_clear: "failures (clear_signature sig g) s = (if s = sig then 0 else failures g s)"
  by (simp add: failures_def clear_signature_def delete_conv')

text \<open>What a call counts as: the signature of its failure, or nothing.\<close>

definition call_signature :: "guarded_call \<Rightarrow> str option" where
  "call_signature c =
     (if tool_result_indicates_error (gc_result c) then Some (error_signature (gc_tool c) (gc_gate_text c)) else None)"

lemma write_success_frame:
  "fail_freq (snd (record_write_success canon t a g)) = fail_freq g"
  "storm_sig (snd (record_write_success canon t a g)) = storm_sig g"
  "storm_count (snd (record_write_success canon t a g)) = storm_count g"
  by (auto simp: record_write_success_def split: prod.splits)

lemma read_success_frame:
  "fail_freq (snd (record_read_success canon t a g)) = fail_freq g"
  "storm_sig (snd (record_read_success canon t a g)) = storm_sig g"
  "storm_count (snd (record_read_success canon t a g)) = storm_count g"
  by (auto simp: record_read_success_def split: prod.splits)

lemma receipt_frame:
  "fail_freq (record_receipt r ts g) = fail_freq g" "storm_sig (record_receipt r ts g) = storm_sig g"
  "storm_count (record_receipt r ts g) = storm_count g"
  by (simp_all add: record_receipt_def)

lemma outcome_fail_freq:
  "fail_freq (snd (record_tool_outcome tool err g)) =
     (case err of None \<Rightarrow> fail_freq g | Some e \<Rightarrow> fail_freq (note_failure (error_signature tool e) g))"
  by (auto simp: record_tool_outcome_def Let_def note_failure_def failures_def split: option.splits)

lemma guards_fail_freq:
  assumes "apply_tool_guards canon c g = (ok, nudges, g')"
  shows "fail_freq g' = (case call_signature c of None \<Rightarrow> fail_freq g | Some sig \<Rightarrow> fail_freq (note_failure sig g))"
proof -
  obtain n5 g1 n5r g2 n6 where e:
    "(if \<not> tool_result_indicates_error (gc_result c) then record_write_success canon (gc_tool c) (gc_args c) g else (None, g)) = (n5, g1)"
    "(if \<not> tool_result_indicates_error (gc_result c) then record_read_success canon (gc_tool c) (gc_args c) g1 else (None, g1)) = (n5r, g2)"
    "record_tool_outcome_verified (gc_tool c)
       (if \<not> tool_result_indicates_error (gc_result c) then None else Some (gc_gate_text c)) (Some (gc_receipt c)) g2 = (n6, g')"
    using assms by (simp add: apply_tool_guards_def Let_def split: prod.splits)
  have g2: "fail_freq g2 = fail_freq g"
    using e(1,2) write_success_frame(1) [of canon "gc_tool c" "gc_args c" g] read_success_frame(1) [of canon "gc_tool c" "gc_args c" g1]
    by (auto split: if_splits)
  have "fail_freq g' = fail_freq (snd (record_tool_outcome_verified (gc_tool c)
       (if \<not> tool_result_indicates_error (gc_result c) then None else Some (gc_gate_text c)) (Some (gc_receipt c)) g2))"
    unfolding e(3) by simp
  then show ?thesis
    by (auto simp: record_tool_outcome_verified_def outcome_fail_freq receipt_frame call_signature_def note_failure_def failures_def g2
        split: prod.splits)
qed

definition counting :: "turn_guard \<Rightarrow> bool" where
  "counting g \<longleftrightarrow> distinct (map fst (fail_freq g)) \<and> (\<forall>sig. failures g sig < ALTERNATING_LOOP_HARD_STOP)"

lemma distinct_count_failure: "distinct (map fst (fail_freq g)) \<Longrightarrow> distinct (map fst (fail_freq (note_failure sig g)))"
  by (simp add: note_failure_def distinct_update)

lemma escalating_signature_iff:
  assumes "distinct (map fst (fail_freq g))"
  shows "escalating_signature g = None \<longleftrightarrow> (\<forall>sig. failures g sig < ALTERNATING_LOOP_HARD_STOP)"
    and "escalating_signature g = Some (sig, n) \<Longrightarrow> n = failures g sig \<and> ALTERNATING_LOOP_HARD_STOP \<le> n"
proof -
  have mem: "(s, k) \<in> set (fail_freq g) \<longleftrightarrow> map_of (fail_freq g) s = Some k" for s k
    using assms by (simp add: map_of_eq_Some_iff)
  show "escalating_signature g = None \<longleftrightarrow> (\<forall>sig. failures g sig < ALTERNATING_LOOP_HARD_STOP)"
  proof
    assume "escalating_signature g = None"
    then have *: "\<not> ALTERNATING_LOOP_HARD_STOP \<le> k" if "(s, k) \<in> set (fail_freq g)" for s k
      using that by (auto simp: escalating_signature_def find_None_iff)
    show "\<forall>sig. failures g sig < ALTERNATING_LOOP_HARD_STOP"
      using * mem by (auto simp: failures_def ALTERNATING_LOOP_HARD_STOP_def not_le split: option.splits)
  next
    assume "\<forall>sig. failures g sig < ALTERNATING_LOOP_HARD_STOP"
    then have "\<not> ALTERNATING_LOOP_HARD_STOP \<le> k" if "(s, k) \<in> set (fail_freq g)" for s k
      using that mem by (metis failures_def leD option.simps(5))
    then show "escalating_signature g = None" by (auto simp: escalating_signature_def find_None_iff)
  qed
  assume "escalating_signature g = Some (sig, n)"
  then have "(sig, n) \<in> set (fail_freq g) \<and> ALTERNATING_LOOP_HARD_STOP \<le> n"
    unfolding escalating_signature_def find_Some_iff by (metis (no_types, lifting) case_prodD nth_mem)
  then show "n = failures g sig \<and> ALTERNATING_LOOP_HARD_STOP \<le> n" using mem by (simp add: failures_def)
qed

text \<open>One call with nobody to approve: the turn stops when the failure of the call is the sixth of its signature.\<close>

lemma guarded_step:
  assumes "counting g" "apply_tool_guards canon c g = (ok, nudges, g1)"
  shows "check_escalation False g1 =
      (case call_signature c of
         Some sig \<Rightarrow> if failures g sig + 1 \<ge> ALTERNATING_LOOP_HARD_STOP
                      then (Some (escalation_message sig (failures g sig + 1)), g1) else (None, g1)
       | None \<Rightarrow> (None, g1))"
    and "\<And>s. failures g1 s = failures g s + (if call_signature c = Some s then 1 else 0)"
    and "distinct (map fst (fail_freq g1))"
proof -
  have ff: "fail_freq g1 = (case call_signature c of None \<Rightarrow> fail_freq g | Some sig \<Rightarrow> fail_freq (note_failure sig g))"
    by (rule guards_fail_freq [OF assms(2)])
  show d: "distinct (map fst (fail_freq g1))"
    using assms(1) distinct_count_failure by (simp add: ff counting_def split: option.splits)
  show f: "failures g1 s = failures g s + (if call_signature c = Some s then 1 else 0)" for s
    using failures_count [of _ g s] by (cases "call_signature c") (auto simp: failures_def ff)
  show "check_escalation False g1 =
      (case call_signature c of
         Some sig \<Rightarrow> if failures g sig + 1 \<ge> ALTERNATING_LOOP_HARD_STOP
                      then (Some (escalation_message sig (failures g sig + 1)), g1) else (None, g1)
       | None \<Rightarrow> (None, g1))"
  proof (cases "escalating_signature g1")
    case None
    then have below: "failures g1 s < ALTERNATING_LOOP_HARD_STOP" for s using escalating_signature_iff(1) [OF d] by blast
    show ?thesis
    proof (cases "call_signature c")
      case (Some sig)
      then have "failures g sig + 1 < ALTERNATING_LOOP_HARD_STOP" using below [of sig] f [of sig] by simp
      then show ?thesis using None Some by (simp add: check_escalation_def)
    qed (use None in \<open>simp add: check_escalation_def\<close>)
  next
    case (Some p)
    obtain sig n where p: "p = (sig, n)" by (cases p)
    have n: "n = failures g1 sig" "ALTERNATING_LOOP_HARD_STOP \<le> n" using escalating_signature_iff(2) [OF d] Some p by auto
    moreover have "failures g sig < ALTERNATING_LOOP_HARD_STOP" using assms(1) by (simp add: counting_def)
    ultimately have "call_signature c = Some sig" using f [of sig] by (auto split: if_splits)
    then show ?thesis using Some p n f [of sig] by (simp add: check_escalation_def)
  qed
qed

text \<open>The history of a turn: how often a signature failed in a list of calls.\<close>

definition failed_times :: "str \<Rightarrow> guarded_call list \<Rightarrow> nat" where
  "failed_times sig cs = length (filter (\<lambda>c. call_signature c = Some sig) cs)"

lemma failed_times_simps [simp]:
  "failed_times sig [] = 0"
  "failed_times sig (c # cs) = (if call_signature c = Some sig then 1 else 0) + failed_times sig cs"
  by (simp_all add: failed_times_def)

lemma guard_run_history:
  assumes "counting g" "\<forall>c \<in> set cs. \<not> gc_approved c" "guard_run canon cs g = (n, stop, g')"
  shows "(stop = None \<longrightarrow> n = length cs \<and> (\<forall>sig. failures g sig + failed_times sig cs < ALTERNATING_LOOP_HARD_STOP)) \<and>
    (\<forall>m. stop = Some m \<longrightarrow> 0 < n \<and> n \<le> length cs \<and>
      (\<exists>sig. m = escalation_message sig ALTERNATING_LOOP_HARD_STOP \<and>
         failures g sig + failed_times sig (take n cs) = ALTERNATING_LOOP_HARD_STOP) \<and>
      (\<forall>sig. failures g sig + failed_times sig (take (n - 1) cs) < ALTERNATING_LOOP_HARD_STOP))"
  using assms
proof (induction cs arbitrary: g n stop g')
  case Nil
  then show ?case by (simp add: counting_def)
next
  case (Cons c cs)
  obtain ok nudges g1 where a: "apply_tool_guards canon c g = (ok, nudges, g1)" by (cases "apply_tool_guards canon c g")
  note step = guarded_step [OF Cons.prems(1) a]
  have below: "failures g s < ALTERNATING_LOOP_HARD_STOP" for s using Cons.prems(1) by (simp add: counting_def)
  show ?case
  proof (cases "\<exists>sig. call_signature c = Some sig \<and> failures g sig + 1 \<ge> ALTERNATING_LOOP_HARD_STOP")
    case True
    then obtain sig where sig: "call_signature c = Some sig" "failures g sig + 1 = ALTERNATING_LOOP_HARD_STOP"
      using below by (metis Suc_eq_plus1 Suc_leI le_antisym)
    then have "n = 1 \<and> stop = Some (escalation_message sig ALTERNATING_LOOP_HARD_STOP)"
      using Cons.prems(2,3) a step(1) by simp
    then show ?thesis using sig below by (auto intro!: exI [of _ sig])
  next
    case False
    then have none: "check_escalation False g1 = (None, g1)" using step(1) by (auto split: option.splits)
    obtain k stop' g2 where r: "guard_run canon cs g1 = (k, stop', g2)" by (cases "guard_run canon cs g1")
    have e: "n = Suc k" "stop = stop'" using Cons.prems(2,3) a none r by simp_all
    have "failures g1 s < ALTERNATING_LOOP_HARD_STOP" for s
      using False step(2) [of s] below [of s] by (auto simp: not_le)
    then have g1: "counting g1" using step(3) by (simp add: counting_def)
    have IH: "(stop' = None \<longrightarrow> k = length cs \<and> (\<forall>sig. failures g1 sig + failed_times sig cs < ALTERNATING_LOOP_HARD_STOP)) \<and>
      (\<forall>m. stop' = Some m \<longrightarrow> 0 < k \<and> k \<le> length cs \<and>
        (\<exists>sig. m = escalation_message sig ALTERNATING_LOOP_HARD_STOP \<and>
           failures g1 sig + failed_times sig (take k cs) = ALTERNATING_LOOP_HARD_STOP) \<and>
        (\<forall>sig. failures g1 sig + failed_times sig (take (k - 1) cs) < ALTERNATING_LOOP_HARD_STOP))"
      using Cons.prems(2) by (intro Cons.IH [OF g1 _ r]) simp
    have shift: "failures g sig + failed_times sig (take (Suc j) (c # cs)) = failures g1 sig + failed_times sig (take j cs)" for sig j
      using step(2) [of sig] by simp
    have all: "failures g sig + failed_times sig (c # cs) = failures g1 sig + failed_times sig cs" for sig
      using step(2) [of sig] by simp
    show ?thesis
    proof (cases stop')
      case None
      then show ?thesis using IH by (simp add: e all del: failed_times_simps)
    next
      case (Some m)
      then have k: "0 < k" "k \<le> length cs" using IH by auto
      have pre: "failures g sig + failed_times sig (take k (c # cs)) = failures g1 sig + failed_times sig (take (k - 1) cs)" for sig
        using shift [of sig "k - 1"] k(1) by simp
      show ?thesis
        using IH Some k by (simp add: e shift pre del: take_Suc_Cons failed_times_simps)
    qed
  qed
qed

lemma counting_new: "counting new_guard" "failures new_guard sig = 0"
  by (simp_all add: counting_def new_guard_def failures_def ALTERNATING_LOOP_HARD_STOP_def)

lemma failed_times_take: "failed_times sig (take n cs) \<le> failed_times sig cs"
proof -
  have "failed_times sig (take n cs @ drop n cs) = failed_times sig (take n cs) + failed_times sig (drop n cs)"
    by (simp only: failed_times_def filter_append length_append)
  then show ?thesis by simp
qed

lemma turn_history:
  assumes "\<forall>c \<in> set cs. \<not> gc_approved c" "guard_run canon cs new_guard = (n, stop, g')"
  shows "stop = None \<Longrightarrow> n = length cs \<and> (\<forall>sig. failed_times sig cs < 6)"
    and "stop = Some m \<Longrightarrow> \<exists>sig. m = escalation_message sig 6 \<and> failed_times sig (take n cs) = 6 \<and>
      0 < n \<and> n \<le> length cs \<and> (\<forall>s. failed_times s (take (n - 1) cs) < 6)"
  using guard_run_history [OF counting_new(1) assms, unfolded counting_new(2) ALTERNATING_LOOP_HARD_STOP_def add_0] by auto

lemma turn_not_stopped:
  assumes "\<forall>c \<in> set cs. \<not> gc_approved c" "guard_run canon cs new_guard = (n, stop, g')" "\<And>sig. failed_times sig cs < 6"
  shows "stop = None"
proof (rule ccontr)
  assume "stop \<noteq> None"
  then obtain sig where "failed_times sig (take n cs) = 6" using turn_history(2) [OF assms(1,2)] by blast
  then show False using failed_times_take [of sig n cs] assms(3) [of sig] by simp
qed

text \<open>
  C31: When nobody lets a stuck turn go on, the guard stops a turn exactly when some failure (a tool with the first
  meaningful line of its error) has happened six times, whatever succeeds in between: with the call that fails for
  the sixth time, and with a message that names its tool.
\<close>

theorem turn_stops_at_sixth_failure:
  assumes "\<forall>c \<in> set cs. \<not> gc_approved c" "guard_run canon cs new_guard = (n, stop, g')"
  shows "(stop = None \<longleftrightarrow> (\<forall>sig. failed_times sig cs < 6)) \<and>
    (case stop of
       None \<Rightarrow> n = length cs
     | Some m \<Rightarrow> \<exists>sig. m = escalation_message sig 6 \<and> failed_times sig (take n cs) = 6 \<and>
         0 < n \<and> n \<le> length cs \<and> (\<forall>s. failed_times s (take (n - 1) cs) < 6))"
  using turn_history [OF assms] turn_not_stopped [OF assms] by (cases stop) auto

text \<open>A turn that is not stopped has at most five failures for every signature that occurs in it.\<close>

lemma sum_failed_times:
  "(\<Sum>sig \<in> S. failed_times sig cs) = length (filter (\<lambda>c. \<exists>sig \<in> S. call_signature c = Some sig) cs)" if "finite S" for S
proof (induction cs)
  case (Cons c cs)
  have "(\<Sum>sig \<in> S. if call_signature c = Some sig then 1 else 0) = (if \<exists>sig \<in> S. call_signature c = Some sig then 1 else (0::nat))"
  proof (cases "call_signature c")
    case (Some s)
    have "(\<Sum>sig \<in> S. if Some s = Some sig then 1 else (0::nat)) = (\<Sum>sig \<in> S. if sig = s then 1 else 0)"
      by (rule sum.cong) auto
    also have "\<dots> = (if s \<in> S then 1 else 0)" using that by (simp add: sum.delta)
    finally show ?thesis using Some by auto
  qed simp
  then show ?case using Cons by (simp add: sum.distrib)
qed simp

text \<open>
  A turn cannot fail for long in the same ways: when nobody lets it go on and it is not stopped, it has at most
  five failing calls for every signature among them, so with finitely many ways to fail it comes to its stop.
\<close>

theorem failures_of_a_turn_bounded:
  assumes "\<forall>c \<in> set cs. \<not> gc_approved c" "guard_run canon cs new_guard = (n, None, g')"
    and "finite S" "\<forall>c \<in> set cs. \<forall>sig. call_signature c = Some sig \<longrightarrow> sig \<in> S"
  shows "length (filter (\<lambda>c. tool_result_indicates_error (gc_result c)) cs) \<le> 5 * card S"
proof -
  have "failed_times sig cs \<le> 5" for sig
    using turn_history(1) [OF assms(1,2)] by (simp add: less_Suc_eq_le [symmetric])
  then have "(\<Sum>sig \<in> S. failed_times sig cs) \<le> (\<Sum>sig \<in> S. 5)" by (intro sum_mono) simp
  moreover have "filter (\<lambda>c. \<exists>sig \<in> S. call_signature c = Some sig) cs = filter (\<lambda>c. tool_result_indicates_error (gc_result c)) cs"
    using assms(4) by (intro filter_cong) (auto simp: call_signature_def split: if_splits)
  ultimately show ?thesis using sum_failed_times [OF assms(3), of cs] by simp
qed

subsection \<open>Lemmas: reminders\<close>

text \<open>The reference: outcomes of tools, newest first, with nothing for a success.\<close>

definition outcome_sig :: "str \<times> str option \<Rightarrow> str option" where
  "outcome_sig o' = (case snd o' of None \<Rightarrow> None | Some e \<Rightarrow> Some (error_signature (fst o') e))"

definition total_failures :: "str \<Rightarrow> (str \<times> str option) list \<Rightarrow> nat" where
  "total_failures sig h = length (filter (\<lambda>o'. outcome_sig o' = Some sig) h)"

definition run_of_failures :: "str \<Rightarrow> (str \<times> str option) list \<Rightarrow> nat" where
  "run_of_failures sig h = length (takeWhile (\<lambda>o'. outcome_sig o' = Some sig) h)"

fun guard_after :: "(str \<times> str option) list \<Rightarrow> turn_guard" where
  "guard_after [] = new_guard"
| "guard_after (o' # h) = snd (record_tool_outcome (fst o') (snd o') (guard_after h))"

lemma guard_after_history:
  "failures (guard_after h) sig = total_failures sig h \<and>
   (storm_sig (guard_after h) = Some sig \<longleftrightarrow> run_of_failures sig h > 0) \<and>
   (storm_sig (guard_after h) = Some sig \<longrightarrow> storm_count (guard_after h) = run_of_failures sig h)"
proof (induction h arbitrary: sig)
  case Nil
  have "storm_sig new_guard = None" by (simp add: new_guard_def)
  then show ?case by (simp add: counting_new total_failures_def run_of_failures_def)
next
  case (Cons o' h)
  let ?g = "guard_after h"
  show ?case
  proof (cases "snd o'")
    case None
    then show ?thesis
      using Cons by (simp add: record_tool_outcome_def total_failures_def run_of_failures_def outcome_sig_def failures_def)
  next
    case (Some e)
    define s where "s = error_signature (fst o') e"
    have o': "outcome_sig o' = Some s" using Some by (simp add: outcome_sig_def s_def)
    have f: "failures (guard_after (o' # h)) sig = failures (note_failure s ?g) sig" for sig
      using Some by (auto simp: record_tool_outcome_def Let_def s_def failures_def note_failure_def)
    have ss: "storm_sig (guard_after (o' # h)) = Some s"
      using Some by (auto simp: record_tool_outcome_def Let_def s_def note_failure_def)
    have sc: "storm_count (guard_after (o' # h)) = (if storm_sig ?g = Some s then storm_count ?g + 1 else 1)"
      using Some by (auto simp: record_tool_outcome_def Let_def s_def note_failure_def)
    have "run_of_failures s (o' # h) = Suc (run_of_failures s h)" "total_failures sig (o' # h) = (if sig = s then 1 else 0) + total_failures sig h"
      using o' by (auto simp: run_of_failures_def total_failures_def)
    moreover have "sig \<noteq> s \<Longrightarrow> run_of_failures sig (o' # h) = 0" using o' by (simp add: run_of_failures_def)
    ultimately show ?thesis using Cons [of s] Cons [of sig] f [of sig] ss sc failures_count [of s ?g sig] by (auto simp del: guard_after.simps)
  qed
qed


subsection \<open>Lemmas: answers, texts and receipts\<close>

fun answers :: "str list \<Rightarrow> turn_guard \<Rightarrow> turn_guard" where
  "answers [] g = g"
| "answers (a # as) g = answers as (snd (check_final_answer a g))"

lemma empty_answers_counted:
  "empty_final_count (answers as g) = empty_final_count g + length (filter (\<lambda>a. trim a = []) as)"
  by (induction as arbitrary: g) (auto simp: check_final_answer_def Let_def)

text \<open>
  The budget for empty answers is that of the whole turn.  The counter is described as counting consecutive
  empty answers, but nothing resets it: of the answers of a turn, whatever acceptable ones lie between, every
  empty one from the third on makes the loop give up.
\<close>

theorem empty_answers_cumulative:
  "fst (check_final_answer content (answers as new_guard)) =
     (if trim content \<noteq> [] then Accept
      else if length (filter (\<lambda>a. trim a = []) (as @ [content])) \<ge> 3 then GiveUp else RetryWithNudge)"
  by (auto simp: check_final_answer_def Let_def empty_answers_counted new_guard_def MAX_EMPTY_FINAL_RETRIES_def)

lemma receipt_ring:
  "receipts (fold (\<lambda>(r, ts). record_receipt r ts) rs g) =
     drop (length (receipts g @ rs) - RECEIPT_RING_CAP) (receipts g @ rs)" if "length (receipts g) \<le> RECEIPT_RING_CAP"
  using that
proof (induction rs arbitrary: g)
  case (Cons p rs)
  obtain r ts where p: "p = (r, ts)" by (cases p)
  let ?g = "record_receipt r ts g"
  have g: "receipts ?g = drop (length (receipts g) + 1 - RECEIPT_RING_CAP) (receipts g @ [(r, ts)])" "length (receipts ?g) \<le> RECEIPT_RING_CAP"
    by (auto simp: record_receipt_def Let_def RECEIPT_RING_CAP_def)
  have "receipts (fold (\<lambda>(r, ts). record_receipt r ts) (p # rs) g) =
      drop (length (receipts ?g @ rs) - RECEIPT_RING_CAP) (receipts ?g @ rs)"
    using Cons.IH [OF g(2)] by (simp add: p)
  also have "\<dots> = drop (length (receipts g @ p # rs) - RECEIPT_RING_CAP) (receipts g @ p # rs)"
  proof (cases "length (receipts g) < RECEIPT_RING_CAP")
    case True
    then have "receipts ?g = receipts g @ [p]" using g(1) by (simp add: p)
    then show ?thesis by simp
  next
    case False
    then have l: "length (receipts g) = RECEIPT_RING_CAP" using Cons.prems by simp
    then have "receipts ?g = tl (receipts g) @ [p]" using g(1) by (simp add: p drop_Suc RECEIPT_RING_CAP_def tl_append2)
    moreover obtain x xs where "receipts g = x # xs" using l by (cases "receipts g") (simp_all add: RECEIPT_RING_CAP_def)
    ultimately show ?thesis using l by (simp add: Suc_diff_le)
  qed
  finally show ?case .
qed simp

text \<open>
  A success without a receipt counts as a failure, but only towards the stop of the turn: the signature it is
  filed under is counted, while the run of equal failures, which the comment names too, is neither
  begun nor broken by it.
\<close>

theorem missing_receipt_counts:
  "fst (record_tool_outcome_verified tool None None g) = Some (ReceiptNudge tool)"
  "failures (snd (record_tool_outcome_verified tool None None g)) sig =
     failures g sig + (if sig = error_signature tool RECEIPT_MISSING_MARKER then 1 else 0)"
  "storm_sig (snd (record_tool_outcome_verified tool None None g)) = storm_sig g"
  "storm_count (snd (record_tool_outcome_verified tool None None g)) = storm_count g"
  using failures_count by (simp_all add: record_tool_outcome_verified_def note_failure_def failures_def)

lemma shingles_not_empty: "set (shingles s 4) \<noteq> {}"
  by (simp add: shingles_def)

lemma similar_self: "similar s s"
  using shingles_not_empty [of s] by (simp add: similar_def Let_def card_gt_0_iff)

lemma similar_sym: "similar a b \<longleftrightarrow> similar b a"
  by (simp add: similar_def Let_def Un_commute Int_commute conj_commute)

text \<open>C0: Saying the same again is always noticed: a text equal to the previous one that was not blank is answered by a reminder.\<close>

theorem same_text_noticed:
  assumes "trim content \<noteq> []"
  shows "fst (check_text_repetition content (snd (check_text_repetition content g))) = Some TextNudge"
  using assms similar_self by (simp add: check_text_repetition_def)

subsection \<open>A concrete turn\<close>

definition failing_build :: guarded_call where
  "failing_build = \<lparr>gc_tool = ''exec'', gc_args = ''{}'', gc_result = ''Exit code: 101'' @ [LF] @ ''stderr: error E0432'',
     gc_gate_text = ''Exit code: 101'' @ [LF] @ ''stderr: error E0432'', gc_receipt = (''r'', 1), gc_approved = False\<rparr>"

definition good_edit :: guarded_call where
  "good_edit = \<lparr>gc_tool = ''edit_file'', gc_args = ''{}'', gc_result = ''ok'', gc_gate_text = ''ok'', gc_receipt = (''r'', 2), gc_approved = False\<rparr>"

lemma build_signature: "call_signature failing_build = Some (''exec'' @ [NUL] @ ''error E0432'')" "call_signature good_edit = None"
  by code_simp+

lemma signatures_separate_witness:
  "error_signature ''exec'' ''Error: a'' = error_signature ''exec'' ''Tool error: a'' \<and> error_signature ''exec'' ''a'' \<noteq> error_signature ''exe'' ''a''"
proof -
  have "NUL \<notin> set ''exec''" "NUL \<notin> set ''exe''" "normalized_error ''Error: a'' = normalized_error ''Tool error: a''" by code_simp+
  then show ?thesis using signatures_separate [of "''exec''" "''exec''"] signatures_separate [of "''exec''" "''exe''"] by simp
qed

lemma build_count: "failed_times (''exec'' @ [NUL] @ ''error E0432'') (concat (replicate k [good_edit, failing_build])) = k"
  by (induction k) (simp_all add: build_signature)

lemma turn_stops_at_sixth_failure_witness:
  "fst (snd (guard_run (\<lambda>_. None) (concat (replicate 6 [good_edit, failing_build])) new_guard)) \<noteq> None"
proof -
  let ?cs = "concat (replicate 6 [good_edit, failing_build])"
  have "\<forall>c \<in> set ?cs. \<not> gc_approved c" by (auto simp: good_edit_def failing_build_def)
  moreover obtain n stop g' where r: "guard_run (\<lambda>_. None) ?cs new_guard = (n, stop, g')" by (cases "guard_run (\<lambda>_. None) ?cs new_guard")
  moreover have "\<not> (\<forall>sig. failed_times sig ?cs < 6)" using build_count [of 6] by (metis less_irrefl)
  ultimately have "stop \<noteq> None" using turn_stops_at_sixth_failure by blast
  then show ?thesis using r by simp
qed

lemma failures_of_a_turn_bounded_witness:
  "length (filter (\<lambda>c. tool_result_indicates_error (gc_result c)) (concat (replicate 5 [good_edit, failing_build]))) \<le> 5"
proof -
  let ?cs = "concat (replicate 5 [good_edit, failing_build])"
  have a: "\<forall>c \<in> set ?cs. \<not> gc_approved c" by (auto simp: good_edit_def failing_build_def)
  obtain n stop g' where r: "guard_run (\<lambda>_. None) ?cs new_guard = (n, stop, g')" by (cases "guard_run (\<lambda>_. None) ?cs new_guard")
  have "failed_times sig ?cs < 6" for sig
  proof (cases "sig = ''exec'' @ [NUL] @ ''error E0432''")
    case True
    then show ?thesis using build_count [of 5] by simp
  next
    case False
    then have "\<forall>c \<in> set ?cs. call_signature c \<noteq> Some sig" using build_signature by auto
    then show ?thesis by (simp add: failed_times_def filter_False)
  qed
  then have "stop = None" by (rule turn_not_stopped [OF a r])
  then show ?thesis
    using failures_of_a_turn_bounded [OF a, of "\<lambda>_. None" n g' "{''exec'' @ [NUL] @ ''error E0432''}"] r build_signature by auto
qed

lemma same_text_noticed_witness:
  "fst (check_text_repetition ''done'' (snd (check_text_repetition ''done'' new_guard))) = Some TextNudge"
  by (rule same_text_noticed) code_simp

end
