(* ===== verification/SafeName.thy ===== *)
theory SafeName
  imports Prelude "HOL-Library.Word"
begin

unbundle bit_operations_syntax

text \<open>
  Identifiers as names of files (nemesis-utils: sanitize.rs): a text from a model or from another node becomes one
  segment of a path.

  Texts are UTF-8; the code goes through their characters, here the bytes that do not continue a character, and every
  character beyond ASCII becomes one underscore.
\<close>

subsection \<open>The hash of long names\<close>

definition fnv_step :: "64 word \<Rightarrow> char \<Rightarrow> 64 word" where
  "fnv_step h c = (h XOR of_nat (of_char c)) * 0x100000001b3"

definition fnv1a64 :: "str \<Rightarrow> 64 word" where
  "fnv1a64 s = foldl fnv_step 0xcbf29ce484222325 s"

definition hex_nibble :: "nat \<Rightarrow> char" where
  "hex_nibble n = ''0123456789abcdef'' ! n"

text \<open>\<^verbatim>\<open>{:016x}\<close>: the digits from the highest nibble down.\<close>

definition hex16 :: "64 word \<Rightarrow> str" where
  "hex16 w = map (\<lambda>i. hex_nibble (unat w div 16 ^ i mod 16)) (rev [0..<16])"

definition is_lower_hex :: "char \<Rightarrow> bool" where
  "is_lower_hex c \<longleftrightarrow> c \<in> set ''0123456789abcdef''"

definition is_hash_suffix_form :: "str \<Rightarrow> bool" where
  "is_hash_suffix_form s \<longleftrightarrow> length s = 78 \<and> take 2 (drop 60 s) = ''__'' \<and> list_all is_lower_hex (drop 62 s)"

subsection \<open>Sanitising\<close>

definition continues_char :: "char \<Rightarrow> bool" where
  "continues_char c \<longleftrightarrow> 128 \<le> (of_char c :: nat) \<and> (of_char c :: nat) < 192"

definition kept_char :: "str \<Rightarrow> char \<Rightarrow> bool" where
  "kept_char out c \<longleftrightarrow> is_ascii_alphanumeric c \<or> c = CHR ''-'' \<or> c = CHR ''_'' \<or>
     c = CHR ''.'' \<and> out \<noteq> [] \<and> is_ascii_alphanumeric (last out)"

definition push_safe :: "str \<Rightarrow> char \<Rightarrow> str" where
  "push_safe out c = out @ [if kept_char out c then c else CHR ''_'']"

definition sanitized_chars :: "str \<Rightarrow> str" where
  "sanitized_chars raw = foldl push_safe [] (filter (\<lambda>c. \<not> continues_char c) raw)"

definition sanitize_path_segment :: "str \<Rightarrow> str" where
  "sanitize_path_segment raw =
     (let s = sanitized_chars raw;
          out = (if s = [] \<or> s = ''.'' \<or> s = ''..'' then s @ ''_'' else s);
          trimmed = trim_end_matches CHR ''.'' out
      in if length out \<le> 80 \<and> \<not> is_hash_suffix_form trimmed then trimmed
         else take 60 out @ ''__'' @ hex16 (fnv1a64 out))"

subsection \<open>What a name is made of\<close>

text \<open>Safe characters, a dot only right after a letter or digit.\<close>

fun dotted_ok :: "bool \<Rightarrow> str \<Rightarrow> bool" where
  "dotted_ok prev [] = True"
| "dotted_ok prev (c # cs) \<longleftrightarrow>
     (is_ascii_alphanumeric c \<or> c = CHR ''-'' \<or> c = CHR ''_'' \<or> c = CHR ''.'' \<and> prev) \<and> dotted_ok (is_ascii_alphanumeric c) cs"

lemma dotted_ok_append:
  "dotted_ok p (xs @ ys) \<longleftrightarrow> dotted_ok p xs \<and> dotted_ok (if xs = [] then p else is_ascii_alphanumeric (last xs)) ys"
  by (induction xs arbitrary: p) auto

lemma dot_not_alphanumeric [simp]: "\<not> is_ascii_alphanumeric CHR ''.''"
  by code_simp

lemma dotted_ok_push: "dotted_ok False out \<Longrightarrow> dotted_ok False (push_safe out c)"
  by (auto simp: push_safe_def kept_char_def dotted_ok_append)

lemma dotted_ok_foldl: "dotted_ok False out \<Longrightarrow> dotted_ok False (foldl push_safe out cs)"
  by (induction cs arbitrary: out) (simp_all add: dotted_ok_push)

lemma dotted_ok_sanitized: "dotted_ok False (sanitized_chars raw)"
  by (simp add: sanitized_chars_def dotted_ok_foldl)

lemma dotted_ok_weaken: "dotted_ok False xs \<Longrightarrow> dotted_ok p xs"
  by (cases xs) auto

lemma dotted_ok_take: "dotted_ok p xs \<Longrightarrow> dotted_ok p (take n xs)"
  using dotted_ok_append [of p "take n xs" "drop n xs"] by simp

lemma dotted_ok_no_dots: "dotted_ok False xs \<Longrightarrow> \<not> sublist ''..'' xs"
proof
  assume "dotted_ok False xs" "sublist ''..'' xs"
  then obtain a b where "xs = a @ ''..'' @ b" by (auto simp: sublist_def)
  with \<open>dotted_ok False xs\<close> show False by (simp add: dotted_ok_append)
qed

lemma dotted_ok_chars: "dotted_ok p xs \<Longrightarrow> c \<in> set xs \<Longrightarrow> is_ascii_alphanumeric c \<or> c = CHR ''-'' \<or> c = CHR ''_'' \<or> c = CHR ''.''"
  by (induction xs arbitrary: p) auto

lemma hd_not_dot: "dotted_ok False xs \<Longrightarrow> xs \<noteq> [] \<Longrightarrow> hd xs \<noteq> CHR ''.''"
  by (cases xs) auto

lemma trim_end_matches_prefix: "\<exists>ds. xs = trim_end_matches c xs @ ds \<and> (trim_end_matches c xs = [] \<or> last (trim_end_matches c xs) \<noteq> c)"
proof -
  have e: "xs = rev (dropWhile (\<lambda>x. x = c) (rev xs)) @ rev (takeWhile (\<lambda>x. x = c) (rev xs))"
    by (metis rev_append rev_rev_ident takeWhile_dropWhile_id)
  have l: "last (rev (dropWhile (\<lambda>x. x = c) (rev xs))) \<noteq> c" if "dropWhile (\<lambda>x. x = c) (rev xs) \<noteq> []"
    using that hd_dropWhile [of "\<lambda>x. x = c" "rev xs"] by (simp add: last_rev)
  show ?thesis using e l unfolding trim_end_matches_def by (metis rev_is_Nil_conv)
qed

lemma length_hex16 [simp]: "length (hex16 w) = 16"
  by (simp add: hex16_def)

lemma hex_nibble_lower: "n < 16 \<Longrightarrow> is_lower_hex (hex_nibble n)"
  by (simp only: is_lower_hex_def hex_nibble_def) (rule nth_mem, simp)

lemma hex16_lower: "list_all is_lower_hex (hex16 w)"
  by (simp add: hex16_def list_all_iff hex_nibble_lower)

lemma lower_hex_alphanumeric: "is_lower_hex c \<Longrightarrow> is_ascii_alphanumeric c"
proof -
  have "list_all is_ascii_alphanumeric ''0123456789abcdef''" by code_simp
  then show "is_lower_hex c \<Longrightarrow> is_ascii_alphanumeric c" unfolding is_lower_hex_def list_all_iff by blast
qed

lemma dotted_ok_alphanumeric: "list_all is_ascii_alphanumeric xs \<Longrightarrow> dotted_ok p xs"
  by (induction xs arbitrary: p) auto

subsection \<open>Properties\<close>

text \<open>The text before the cut, never empty and without a leading dot.\<close>

definition uncut :: "str \<Rightarrow> str" where
  "uncut raw = (let s = sanitized_chars raw in if s = [] \<or> s = ''.'' \<or> s = ''..'' then s @ ''_'' else s)"

lemma underscore_safe [simp]: "\<not> is_ascii_alphanumeric CHR ''_''"
  by code_simp

lemma dotted_ok_uncut: "dotted_ok False (uncut raw)"
  using dotted_ok_sanitized [of raw] by (auto simp: uncut_def Let_def dotted_ok_append)

lemma uncut_not_Nil: "uncut raw \<noteq> []"
  by (simp add: uncut_def Let_def)

lemma sanitize_uncut:
  "sanitize_path_segment raw =
     (if length (uncut raw) \<le> 80 \<and> \<not> is_hash_suffix_form (trim_end_matches CHR ''.'' (uncut raw))
      then trim_end_matches CHR ''.'' (uncut raw) else take 60 (uncut raw) @ ''__'' @ hex16 (fnv1a64 (uncut raw)))"
  by (simp add: sanitize_path_segment_def uncut_def Let_def)

lemma hashed_long:
  assumes "\<not> (length (uncut raw) \<le> 80 \<and> \<not> is_hash_suffix_form (trim_end_matches CHR ''.'' (uncut raw)))"
  shows "60 \<le> length (uncut raw)"
proof -
  obtain ds where "uncut raw = trim_end_matches CHR ''.'' (uncut raw) @ ds" using trim_end_matches_prefix by blast
  then have "length (trim_end_matches CHR ''.'' (uncut raw)) \<le> length (uncut raw)" by (metis length_append le_add1)
  then show ?thesis using assms by (auto simp: is_hash_suffix_form_def)
qed

lemma last_hex16: "is_ascii_alphanumeric (last (hex16 w))"
proof -
  have "hex16 w \<noteq> []" using length_hex16 [of w] by (metis length_0_conv zero_neq_numeral)
  then show ?thesis using hex16_lower [of w] lower_hex_alphanumeric by (simp add: list_all_iff)
qed

text \<open>
  C37: Whatever the identifier, its name is one harmless segment of a path: not empty, of at most 80 characters, made of
  letters, digits, dashes, underscores and dots, without two dots in a row and without a dot at either end.
\<close>

theorem sanitized_is_safe:
  "sanitize_path_segment raw \<noteq> [] \<and> length (sanitize_path_segment raw) \<le> 80 \<and>
   dotted_ok False (sanitize_path_segment raw) \<and> \<not> sublist ''..'' (sanitize_path_segment raw) \<and>
   hd (sanitize_path_segment raw) \<noteq> CHR ''.'' \<and> last (sanitize_path_segment raw) \<noteq> CHR ''.''"
proof -
  let ?o = "uncut raw" and ?s = "sanitize_path_segment raw" and ?t = "trim_end_matches CHR ''.'' (uncut raw)"
  obtain ds where ds: "?o = ?t @ ds" "?t = [] \<or> last ?t \<noteq> CHR ''.''" using trim_end_matches_prefix by blast
  have main: "?s \<noteq> [] \<and> length ?s \<le> 80 \<and> dotted_ok False ?s \<and> last ?s \<noteq> CHR ''.''"
  proof (cases "length ?o \<le> 80 \<and> \<not> is_hash_suffix_form ?t")
    case True
    have "?t \<noteq> []"
    proof
      assume "?t = []"
      then have "\<forall>x \<in> set ?o. x = CHR ''.''" by (auto simp: trim_end_matches_def dropWhile_eq_Nil_conv)
      then have "hd ?o = CHR ''.''" using uncut_not_Nil [of raw] by simp
      then show False using hd_not_dot [OF dotted_ok_uncut uncut_not_Nil] by blast
    qed
    moreover have "length ?t \<le> 80" using True ds(1) by (metis length_append le_add1 order_trans)
    moreover have "dotted_ok False ?t" using dotted_ok_uncut [of raw] ds(1) by (metis dotted_ok_append)
    ultimately show ?thesis using True ds(2) by (simp add: sanitize_uncut)
  next
    case False
    then have s: "?s = take 60 ?o @ ''__'' @ hex16 (fnv1a64 ?o)" by (auto simp: sanitize_uncut)
    have "dotted_ok False (''__'' @ hex16 (fnv1a64 ?o))"
      using hex16_lower lower_hex_alphanumeric by (auto simp: list_all_iff intro!: dotted_ok_alphanumeric)
    then have "dotted_ok False ?s"
      unfolding s by (simp add: dotted_ok_append dotted_ok_take dotted_ok_uncut dotted_ok_weaken)
    moreover have "last ?s \<noteq> CHR ''.''"
      using last_hex16 [of "fnv1a64 ?o"] length_hex16 [of "fnv1a64 ?o"] unfolding s by (auto simp: last_append)
    ultimately show ?thesis unfolding s by simp
  qed
  then show ?thesis using dotted_ok_no_dots hd_not_dot by blast
qed

text \<open>
  A name ends in a hash exactly when it was cut, whatever the identifier looks like: a name that was passed
  through never has the form of a cut one, so an identifier cannot pose as the name of a longer one.
\<close>

theorem hash_form_means_cut:
  "is_hash_suffix_form (sanitize_path_segment raw) \<longleftrightarrow>
     80 < length (uncut raw) \<or> is_hash_suffix_form (trim_end_matches CHR ''.'' (uncut raw))"
proof (cases "length (uncut raw) \<le> 80 \<and> \<not> is_hash_suffix_form (trim_end_matches CHR ''.'' (uncut raw))")
  case True
  then show ?thesis by (auto simp: sanitize_uncut)
next
  case False
  have "length (take 60 (uncut raw)) = 60" using hashed_long [OF False] by simp
  then have "is_hash_suffix_form (take 60 (uncut raw) @ ''__'' @ hex16 (fnv1a64 (uncut raw)))"
    using hex16_lower [of "fnv1a64 (uncut raw)"] by (simp add: is_hash_suffix_form_def)
  then show ?thesis using False by (auto simp: sanitize_uncut)
qed

lemma not_continues: "is_ascii_alphanumeric c \<or> c = CHR ''-'' \<or> c = CHR ''_'' \<or> c = CHR ''.'' \<Longrightarrow> \<not> continues_char c"
  by (auto simp: is_ascii_alphanumeric_def is_ascii_alphabetic_def is_ascii_digit_def continues_char_def)

lemma foldl_push_id: "dotted_ok (out \<noteq> [] \<and> is_ascii_alphanumeric (last out)) cs \<Longrightarrow> foldl push_safe out cs = out @ cs"
  by (induction cs arbitrary: out) (auto simp: push_safe_def kept_char_def)

text \<open>
  Names that are safe already stay as they are: at most 80 safe characters, no dot at the end, and not of the form of
  a cut name.
\<close>

theorem safe_names_kept:
  assumes "dotted_ok False raw" "raw \<noteq> []" "last raw \<noteq> CHR ''.''" "length raw \<le> 80" "\<not> is_hash_suffix_form raw"
  shows "sanitize_path_segment raw = raw"
proof -
  have "filter (\<lambda>c. \<not> continues_char c) raw = raw"
    using dotted_ok_chars [OF assms(1)] not_continues by (intro filter_True) blast
  then have s: "sanitized_chars raw = raw" using foldl_push_id [of "[]" raw] assms(1) by (simp add: sanitized_chars_def)
  have "raw \<noteq> ''.''" "raw \<noteq> ''..''" using assms(1) by auto
  then have u: "uncut raw = raw" using s assms(2) by (simp add: uncut_def)
  have "trim_end_matches CHR ''.'' raw = raw"
    using assms(2,3) by (cases raw rule: rev_cases) (simp_all add: trim_end_matches_def)
  then show ?thesis using u assms(4,5) by (simp add: sanitize_uncut)
qed

theorem safe_names_kept_witness: "sanitize_path_segment ''task-7.a'' = ''task-7.a''"
  by (rule safe_names_kept) code_simp+

end
