(* ===== verification/FileTransfer.thy ===== *)
theory FileTransfer
  imports SafeName "HOL-Library.AList" "HOL-Library.List_Lexorder" "HOL-Library.Char_ord"
begin

text \<open>
  Files sent from one node to another in chunks (nemesis-cluster: transfer.rs, with the sending side of outbox.rs): a
  manifest announces the files, each chunk is stored before it is acknowledged, and the end
  of the transfer assembles the files, compares their hashes with the manifest and puts them into the inbox.

  A file is the list of its bytes, a directory of received files an association list from the components of a path.  SHA-256
  and base64 are parameters.  Writing a file fails where the file system has no place for it, below a file or
  instead of a directory; other failures of the disk are not modelled.  Sizes are natural numbers; additions that
  saturate at 64 bits do so here.
\<close>

subsection \<open>Constants and parameters\<close>

definition DEFAULT_CHUNK_BYTES :: nat where "DEFAULT_CHUNK_BYTES = 1024 * 1024"

definition resolve_chunk_bytes :: "nat option \<Rightarrow> nat" where
  "resolve_chunk_bytes raw =
     (case raw of
        Some n \<Rightarrow> if 4096 \<le> n \<and> n \<le> 8 * 1024 * 1024 then n else DEFAULT_CHUNK_BYTES
      | None \<Rightarrow> DEFAULT_CHUNK_BYTES)"

definition MAX_U64 :: nat where "MAX_U64 = 2 ^ 64 - 1"

definition saturating_add :: "nat \<Rightarrow> nat \<Rightarrow> nat" where
  "saturating_add a b = min (a + b) MAX_U64"

record xfer_lib =
  xl_sha :: "str \<Rightarrow> str"
  xl_b64_encode :: "str \<Rightarrow> str"
  xl_b64_decode :: "str \<Rightarrow> str option"

text \<open>Decoding gives back what was encoded.\<close>

definition base64_documented :: "xfer_lib \<Rightarrow> bool" where
  "base64_documented lib \<longleftrightarrow> (\<forall>s. xl_b64_decode lib (xl_b64_encode lib s) = Some s)"

subsection \<open>Paths\<close>

datatype path_error = EmptyPath | BackslashInPath | ColonInPath | AbsolutePath | ShortName str | NotNormal

text \<open>A short name of Windows: a tilde that is not the first byte, digits, and then the end or a dot.\<close>

definition is_short_name :: "str \<Rightarrow> bool" where
  "is_short_name name \<longleftrightarrow>
     list_ex (\<lambda>i. name ! i = CHR ''~'' \<and>
                  (case drop (Suc i) name of
                     [] \<Rightarrow> False
                   | d # after \<Rightarrow> is_ascii_digit d \<and>
                       (case dropWhile is_ascii_digit after of [] \<Rightarrow> True | c # cs \<Rightarrow> c = CHR ''.'')))
       [1..<length name]"

text \<open>
  The components of a path as the standard library gives them: empty ones are skipped, as is a single dot that is
  not the first.
\<close>

fun check_components :: "str list \<Rightarrow> path_error + str list" where
  "check_components [] = Inr []"
| "check_components (c # cs) =
     (if c = [] \<or> c = ''.'' then check_components cs
      else if c = ''..'' then Inl NotNormal
      else if is_short_name c then Inl (ShortName c)
      else and_then (check_components cs) (\<lambda>r. Inr (c # r)))"

definition safe_relative_path :: "str \<Rightarrow> path_error + str list" where
  "safe_relative_path rel =
     (let t = trim rel
      in if t = [] then Inl EmptyPath
         else if BSLASH \<in> set t then Inl BackslashInPath
         else if CHR '':'' \<in> set t then Inl ColonInPath
         else if hd t = CHR ''/'' then Inl AbsolutePath
         else if hd (split_on CHR ''/'' t) = ''.'' then Inl NotNormal
         else check_components (split_on CHR ''/'' t))"

subsection \<open>Manifests and chunks\<close>

record file_entry =
  fe_path :: str
  fe_size :: nat
  fe_sha :: str

record transfer_begin =
  tb_transfer_id :: str
  tb_task_id :: str
  tb_kind :: str
  tb_source_node :: str
  tb_total_bytes :: nat
  tb_chunk_size :: nat
  tb_chunk_count :: nat
  tb_files :: "file_entry list"
  tb_content_hash :: str

definition content_hash :: "xfer_lib \<Rightarrow> file_entry list \<Rightarrow> str" where
  "content_hash lib files =
     xl_sha lib (concat (map (\<lambda>f. fe_path f @ '':'' @ decimal (fe_size f) @ '':'' @ fe_sha f @ [LF]) files))"

text \<open>
  The chunks of a file, with its index, the offset and the length.  The code asserts that the size of a chunk is positive;
  senders take it from \<open>resolve_chunk_bytes\<close>, and a manifest with another one is refused.
\<close>

function file_chunks :: "nat \<Rightarrow> nat \<Rightarrow> nat \<Rightarrow> nat \<Rightarrow> (nat \<times> nat \<times> nat) list" where
  "file_chunks n c i off =
     (if c = 0 \<or> n \<le> off then []
      else (let len = min (n - off) c in (i, off, len) # file_chunks n c i (off + len)))"
  by pat_completeness auto
termination
  by (relation "measure (\<lambda>(n, c, i, off). n - off)") (auto simp: min_def)

declare file_chunks.simps [simp del]

fun plan_from :: "nat \<Rightarrow> file_entry list \<Rightarrow> nat \<Rightarrow> (nat \<times> nat \<times> nat) list" where
  "plan_from i [] c = []"
| "plan_from i (f # fs) c = file_chunks (fe_size f) c i 0 @ plan_from (Suc i) fs c"

definition plan_chunks :: "file_entry list \<Rightarrow> nat \<Rightarrow> (nat \<times> nat \<times> nat) list" where
  "plan_chunks files c = plan_from 0 files c"

definition div_ceil :: "nat \<Rightarrow> nat \<Rightarrow> nat" where
  "div_ceil a b = (a + b - 1) div b"

definition chunk_count :: "file_entry list \<Rightarrow> nat \<Rightarrow> nat" where
  "chunk_count files c = foldl (\<lambda>n f. saturating_add n (div_ceil (fe_size f) c)) 0 files"

datatype manifest_error = EmptyId | ZeroChunkSize | BadPath path_error | WrongTotal nat | WrongChunkCount nat | EmptyHash

fun total_of_files :: "nat \<Rightarrow> file_entry list \<Rightarrow> path_error + nat" where
  "total_of_files t [] = Inr t"
| "total_of_files t (f # fs) =
     and_then (safe_relative_path (fe_path f)) (\<lambda>_. total_of_files (saturating_add t (fe_size f)) fs)"

definition validate_manifest :: "transfer_begin \<Rightarrow> manifest_error option" where
  "validate_manifest req =
     (if tb_transfer_id req = [] \<or> tb_task_id req = [] then Some EmptyId
      else if tb_chunk_size req = 0 then Some ZeroChunkSize
      else case total_of_files 0 (tb_files req) of
             Inl e \<Rightarrow> Some (BadPath e)
           | Inr t \<Rightarrow>
               if t \<noteq> tb_total_bytes req then Some (WrongTotal t)
               else if chunk_count (tb_files req) (tb_chunk_size req) \<noteq> tb_chunk_count req
               then Some (WrongChunkCount (chunk_count (tb_files req) (tb_chunk_size req)))
               else if tb_content_hash req = [] then Some EmptyHash
               else None)"

definition sanitize_transfer_id :: "str \<Rightarrow> str" where
  "sanitize_transfer_id i = (if i = [] then ''transfer'' else sanitize_path_segment i)"

subsection \<open>Received files\<close>

type_synonym file_tree = "(str list \<times> str) list"

datatype end_error =
    NoStaging
  | PathRefused path_error
  | NoPlace "str list"
  | ChunkMissing nat
  | ChunkLength nat
  | Unreadable "str list"
  | WrongSize str
  | WrongHash str

definition blocked :: "str list \<Rightarrow> file_tree \<Rightarrow> bool" where
  "blocked p fs \<longleftrightarrow> list_ex (\<lambda>(q, _). strict_prefix q p \<or> strict_prefix p q) fs"

text \<open>Writing at an offset; what lies between the old end and the offset becomes zero bytes.\<close>

definition write_bytes_at :: "nat \<Rightarrow> str \<Rightarrow> str \<Rightarrow> str" where
  "write_bytes_at off data old =
     take off (old @ replicate (off - length old) NUL) @ data @ drop (off + length data) old"

definition put_file :: "str list \<Rightarrow> nat \<Rightarrow> str \<Rightarrow> file_tree \<Rightarrow> end_error + file_tree" where
  "put_file p off data fs =
     (if blocked p fs then Inl (NoPlace p)
      else Inr (AList.update p (write_bytes_at off data (case map_of fs p of Some old \<Rightarrow> old | None \<Rightarrow> [])) fs))"

definition dest_of :: "file_entry \<Rightarrow> end_error + str list" where
  "dest_of f = (case safe_relative_path (fe_path f) of Inl e \<Rightarrow> Inl (PathRefused e) | Inr p \<Rightarrow> Inr p)"

subsection \<open>Assembling and checking\<close>

fun create_empty :: "file_entry list \<Rightarrow> file_tree \<Rightarrow> end_error + file_tree" where
  "create_empty [] fs = Inr fs"
| "create_empty (f # files) fs =
     (if fe_size f = 0
      then and_then (dest_of f) (\<lambda>p. if blocked p fs then Inl (NoPlace p) else create_empty files (AList.update p [] fs))
      else create_empty files fs)"

fun write_chunks :: "file_entry list \<Rightarrow> (nat \<Rightarrow> str option) \<Rightarrow> nat \<Rightarrow> (nat \<times> nat \<times> nat) list \<Rightarrow> file_tree \<Rightarrow> end_error + file_tree" where
  "write_chunks files chunks seq [] fs = Inr fs"
| "write_chunks files chunks seq ((i, off, len) # plan) fs =
     (case chunks seq of
        None \<Rightarrow> Inl (ChunkMissing seq)
      | Some data \<Rightarrow>
          if length data \<noteq> len then Inl (ChunkLength seq)
          else and_then (dest_of (files ! i)) (\<lambda>p. and_then (put_file p off data fs)
                 (\<lambda>fs'. write_chunks files chunks (Suc seq) plan fs')))"

fun verify_files :: "xfer_lib \<Rightarrow> file_entry list \<Rightarrow> file_tree \<Rightarrow> end_error + unit" where
  "verify_files lib [] fs = Inr ()"
| "verify_files lib (f # files) fs =
     and_then (dest_of f) (\<lambda>p.
       (case map_of fs p of
          None \<Rightarrow> Inl (Unreadable p)
        | Some data \<Rightarrow>
            if length data \<noteq> fe_size f then Inl (WrongSize (fe_path f))
            else if xl_sha lib data \<noteq> fe_sha f then Inl (WrongHash (fe_path f))
            else verify_files lib files fs))"

definition assemble :: "xfer_lib \<Rightarrow> transfer_begin \<Rightarrow> (nat \<Rightarrow> str option) \<Rightarrow> end_error + file_tree" where
  "assemble lib begin chunks =
     and_then (create_empty (tb_files begin) []) (\<lambda>fs.
       and_then (write_chunks (tb_files begin) chunks 0 (plan_chunks (tb_files begin) (tb_chunk_size begin)) fs) (\<lambda>fs'.
         and_then (verify_files lib (tb_files begin) fs') (\<lambda>_. Inr fs')))"

subsection \<open>The receiving side\<close>

text \<open>
  Unfinished transfers by the name of their directory, received archives by that of theirs, the index of what was
  received, the replies to finished transfers, and the calls of the two callbacks.  An archive is in the inbox as long
  as its receipt is; the owner of the inbox takes it from there.
\<close>

record staging =
  sg_manifest :: transfer_begin
  sg_chunks :: "nat \<Rightarrow> str option"

record archive =
  ar_manifest :: transfer_begin
  ar_files :: file_tree

record overlimit =
  ol_task_id :: str
  ol_source_node :: str
  ol_total_bytes :: nat
  ol_limit :: nat
  ol_kind :: str

record transfer_sink =
  ts_staging :: "str \<Rightarrow> staging option"
  ts_inbox :: "str \<Rightarrow> archive option"
  ts_dedup :: "str \<Rightarrow> str option"
  ts_done :: "str \<Rightarrow> (nat \<times> nat) option"
  ts_max_bytes :: nat
  ts_landed :: "str list"
  ts_overlimits :: "overlimit list"

definition new_sink :: "nat \<Rightarrow> transfer_sink" where
  "new_sink max_bytes =
     \<lparr>ts_staging = Map.empty, ts_inbox = Map.empty, ts_dedup = Map.empty, ts_done = Map.empty, ts_max_bytes = max_bytes,
      ts_landed = [], ts_overlimits = []\<rparr>"

datatype begin_reply = BeginOverLimit | BeginError manifest_error | BeginDedup | BeginOk "nat list"

definition list_received_chunks :: "(nat \<Rightarrow> str option) \<Rightarrow> nat \<Rightarrow> nat list" where
  "list_received_chunks chunks n = filter (\<lambda>seq. chunks seq \<noteq> None) [0..<n]"

definition sink_begin :: "transfer_begin \<Rightarrow> transfer_sink \<Rightarrow> begin_reply \<times> transfer_sink" where
  "sink_begin req s =
     (if ts_max_bytes s > 0 \<and> tb_total_bytes req > ts_max_bytes s then (BeginOverLimit, s)
      else case validate_manifest req of
             Some e \<Rightarrow> (BeginError e, s)
           | None \<Rightarrow>
               if ts_dedup s (tb_task_id req) = Some (tb_content_hash req) \<and>
                  ts_inbox s (sanitize_path_segment (tb_task_id req)) \<noteq> None
               then (BeginDedup, s)
               else (let k = sanitize_transfer_id (tb_transfer_id req);
                         chunks = (case ts_staging s k of
                                     Some st \<Rightarrow> if tb_content_hash (sg_manifest st) = tb_content_hash req then sg_chunks st else Map.empty
                                   | None \<Rightarrow> Map.empty)
                     in (BeginOk (list_received_chunks chunks (tb_chunk_count req)),
                         s\<lparr>ts_staging := (ts_staging s)(k \<mapsto> \<lparr>sg_manifest = req, sg_chunks = chunks\<rparr>)\<rparr>)))"

datatype chunk_error = BadBase64 | ChunkHash | NoTransfer | SeqOutOfPlan | ChunkTooLong

text \<open>A chunk; the number of all chunks, which the messages repeat, is not read by the receiver and left out.\<close>

record transfer_chunk =
  tc_transfer_id :: str
  tc_seq :: nat
  tc_data_b64 :: str
  tc_sha :: str

definition sink_chunk :: "xfer_lib \<Rightarrow> transfer_chunk \<Rightarrow> transfer_sink \<Rightarrow> (chunk_error + unit) \<times> transfer_sink" where
  "sink_chunk lib req s =
     (case xl_b64_decode lib (tc_data_b64 req) of
        None \<Rightarrow> (Inl BadBase64, s)
      | Some data \<Rightarrow>
          if xl_sha lib data \<noteq> tc_sha req then (Inl ChunkHash, s)
          else (let k = sanitize_transfer_id (tc_transfer_id req)
                in case ts_staging s k of
                     None \<Rightarrow> (Inl NoTransfer, s)
                   | Some st \<Rightarrow>
                       if tc_seq req \<ge> tb_chunk_count (sg_manifest st) then (Inl SeqOutOfPlan, s)
                       else if length data > tb_chunk_size (sg_manifest st) then (Inl ChunkTooLong, s)
                       else (Inr (), s\<lparr>ts_staging := (ts_staging s)(k \<mapsto> st\<lparr>sg_chunks := (sg_chunks st)(tc_seq req \<mapsto> data)\<rparr>)\<rparr>)))"

definition sink_end :: "xfer_lib \<Rightarrow> str \<Rightarrow> transfer_sink \<Rightarrow> (end_error + nat \<times> nat) \<times> transfer_sink" where
  "sink_end lib i s =
     (let k = sanitize_transfer_id i
      in case ts_staging s k of
           None \<Rightarrow> (case ts_done s k of Some reply \<Rightarrow> (Inr reply, s) | None \<Rightarrow> (Inl NoStaging, s))
         | Some st \<Rightarrow>
             (let m = sg_manifest st
              in case assemble lib m (sg_chunks st) of
                   Inl e \<Rightarrow> (Inl e, s)
                 | Inr fs \<Rightarrow>
                     (let reply = (length (tb_files m), tb_total_bytes m)
                      in (Inr reply,
                          s\<lparr>ts_inbox := (ts_inbox s)(sanitize_path_segment (tb_task_id m) \<mapsto> \<lparr>ar_manifest = m, ar_files = fs\<rparr>),
                            ts_dedup := (ts_dedup s)(tb_task_id m \<mapsto> tb_content_hash m),
                            ts_staging := (ts_staging s)(k := None), ts_done := (ts_done s)(k \<mapsto> reply),
                            ts_landed := ts_landed s @ [tb_task_id m]\<rparr>))))"

definition note_overlimit :: "overlimit \<Rightarrow> transfer_sink \<Rightarrow> transfer_sink" where
  "note_overlimit req s = s\<lparr>ts_overlimits := ts_overlimits s @ [req]\<rparr>"

definition set_max_bytes :: "nat \<Rightarrow> transfer_sink \<Rightarrow> transfer_sink" where
  "set_max_bytes n s = s\<lparr>ts_max_bytes := n\<rparr>"

text \<open>Old unfinished transfers are removed; which ones are old is the argument.\<close>

definition sweep_stale_staging :: "(str \<Rightarrow> bool) \<Rightarrow> transfer_sink \<Rightarrow> transfer_sink" where
  "sweep_stale_staging stale s = s\<lparr>ts_staging := (\<lambda>k. if stale k then None else ts_staging s k)\<rparr>"

definition take_archive :: "str \<Rightarrow> transfer_sink \<Rightarrow> transfer_sink" where
  "take_archive k s = s\<lparr>ts_inbox := (ts_inbox s)(k := None)\<rparr>"

subsection \<open>The sending side\<close>

text \<open>
  The files of a directory, paths with contents, sorted by path.  A remote call may work, or its request may be lost, or
  it is carried out and its reply is lost; which of them happens to the n-th call of a push is an argument.
\<close>

type_synonym payload = "(str \<times> str) list"

datatype fate = Works | RequestLost | ReplyLost

definition remote :: "fate \<Rightarrow> ('s \<Rightarrow> 'r \<times> 's) \<Rightarrow> 's \<Rightarrow> 'r option \<times> 's" where
  "remote f op s =
     (case f of
        Works \<Rightarrow> (case op s of (r, s') \<Rightarrow> (Some r, s'))
      | RequestLost \<Rightarrow> (None, s)
      | ReplyLost \<Rightarrow> (case op s of (r, s') \<Rightarrow> (None, s')))"

datatype push_dir_outcome = Delivered | NothingToSend | Overlimit nat nat

datatype push_error = CallFailed | BeginRefused | ChunkRefused chunk_error | EndRefused end_error

definition entries_of :: "xfer_lib \<Rightarrow> payload \<Rightarrow> file_entry list" where
  "entries_of lib payload = map (\<lambda>(p, d). \<lparr>fe_path = p, fe_size = length d, fe_sha = xl_sha lib d\<rparr>) payload"

definition begin_of :: "xfer_lib \<Rightarrow> str \<Rightarrow> str \<Rightarrow> str \<Rightarrow> nat \<Rightarrow> payload \<Rightarrow> transfer_begin" where
  "begin_of lib task kind source_node chunk payload =
     (let files = entries_of lib payload; hash = content_hash lib files
      in \<lparr>tb_transfer_id = sanitize_transfer_id task @ ''-'' @ take 12 hash @ ''-'' @ decimal chunk, tb_task_id = task,
          tb_kind = kind, tb_source_node = source_node, tb_total_bytes = sum_list (map fe_size files),
          tb_chunk_size = chunk, tb_chunk_count = chunk_count files chunk, tb_files = files, tb_content_hash = hash\<rparr>)"

definition chunk_data :: "payload \<Rightarrow> nat \<times> nat \<times> nat \<Rightarrow> str" where
  "chunk_data payload c = (case c of (i, off, len) \<Rightarrow> take len (drop off (snd (payload ! i))))"

definition chunk_of :: "xfer_lib \<Rightarrow> str \<Rightarrow> payload \<Rightarrow> nat \<Rightarrow> nat \<times> nat \<times> nat \<Rightarrow> transfer_chunk" where
  "chunk_of lib i payload seq c =
     (let d = chunk_data payload c
      in \<lparr>tc_transfer_id = i, tc_seq = seq, tc_data_b64 = xl_b64_encode lib d, tc_sha = xl_sha lib d\<rparr>)"

text \<open>The chunks that the other side does not have, in the order of the plan; the number of the next call is kept.\<close>

fun push_chunks :: "xfer_lib \<Rightarrow> str \<Rightarrow> payload \<Rightarrow> nat list \<Rightarrow> (nat \<Rightarrow> fate) \<Rightarrow> nat \<Rightarrow> nat \<Rightarrow> (nat \<times> nat \<times> nat) list \<Rightarrow>
    transfer_sink \<Rightarrow> (push_error + nat) \<times> transfer_sink" where
  "push_chunks lib i payload have fate n seq [] s = (Inr n, s)"
| "push_chunks lib i payload have fate n seq (c # plan) s =
     (if seq \<in> set have then push_chunks lib i payload have fate n (Suc seq) plan s
      else case remote (fate n) (sink_chunk lib (chunk_of lib i payload seq c)) s of
             (Some (Inr _), s') \<Rightarrow> push_chunks lib i payload have fate (Suc n) (Suc seq) plan s'
           | (Some (Inl e), s') \<Rightarrow> (Inl (ChunkRefused e), s')
           | (None, s') \<Rightarrow> (Inl CallFailed, s'))"

definition push_transfer_dir :: "xfer_lib \<Rightarrow> str \<Rightarrow> str \<Rightarrow> str \<Rightarrow> nat \<Rightarrow> payload \<Rightarrow> nat \<Rightarrow> (nat \<Rightarrow> fate) \<Rightarrow>
    transfer_sink \<Rightarrow> (push_error + push_dir_outcome) \<times> transfer_sink" where
  "push_transfer_dir lib task kind source_node chunk payload max_bytes fate s =
     (let m = begin_of lib task kind source_node chunk payload
      in if payload = [] then (Inr NothingToSend, s)
         else if max_bytes > 0 \<and> tb_total_bytes m > max_bytes then (Inr (Overlimit (tb_total_bytes m) max_bytes), s)
         else case remote (fate 0) (sink_begin m) s of
                (None, s1) \<Rightarrow> (Inl CallFailed, s1)
              | (Some BeginDedup, s1) \<Rightarrow> (Inr Delivered, s1)
              | (Some BeginOverLimit, s1) \<Rightarrow> (Inr (Overlimit (tb_total_bytes m) 0), s1)
              | (Some (BeginError e), s1) \<Rightarrow> (Inl BeginRefused, s1)
              | (Some (BeginOk have), s1) \<Rightarrow>
                  (case push_chunks lib (tb_transfer_id m) payload have fate 1 0
                          (plan_chunks (tb_files m) (tb_chunk_size m)) s1 of
                     (Inl e, s2) \<Rightarrow> (Inl e, s2)
                   | (Inr n, s2) \<Rightarrow>
                       (case remote (fate n) (sink_end lib (tb_transfer_id m)) s2 of
                          (None, s3) \<Rightarrow> (Inl CallFailed, s3)
                        | (Some (Inl e), s3) \<Rightarrow> (Inl (EndRefused e), s3)
                        | (Some (Inr _), s3) \<Rightarrow> (Inr Delivered, s3))))"

subsection \<open>Lemmas: plans\<close>

lemma file_chunks_bounds:
  "(j, a, len) \<in> set (file_chunks n c i off) \<Longrightarrow> j = i \<and> off \<le> a \<and> 0 < len \<and> len \<le> c \<and> a + len \<le> n"
proof (induction n c i off rule: file_chunks.induct)
  case (1 n c i off)
  show ?case using 1 by (subst (asm) file_chunks.simps) (fastforce simp: Let_def split: if_splits)
qed

lemma length_file_chunks: "0 < c \<Longrightarrow> length (file_chunks n c i off) = div_ceil (n - off) c"
proof (induction n c i off rule: file_chunks.induct)
  case (1 n c i off)
  show ?case
  proof (cases "n \<le> off")
    case True
    then show ?thesis using 1(2) by (simp add: file_chunks.simps div_ceil_def)
  next
    case False
    let ?len = "min (n - off) c"
    have "length (file_chunks n c i off) = Suc (div_ceil (n - (off + ?len)) c)"
      using 1 False by (subst file_chunks.simps) (simp add: Let_def)
    also have "\<dots> = div_ceil (n - off) c"
    proof (cases "n - off \<le> c")
      case True
      have "(n - off + c - 1) div c = 1"
        using True False 1(2) by (intro div_nat_eqI) auto
      then show ?thesis using True 1(2) by (simp add: div_ceil_def)
    next
      case big: False
      then have "n - off + c - 1 = (n - (off + c) + c - 1) + c" by simp
      then have "div_ceil (n - off) c = (n - (off + c) + c - 1) div c + 1"
        using 1(2) unfolding div_ceil_def by (simp only: div_add_self2)
      then show ?thesis using big by (simp add: div_ceil_def min_def)
    qed
    finally show ?thesis .
  qed
qed

lemma plan_bounds:
  "(j, a, len) \<in> set (plan_from i files c) \<Longrightarrow>
     i \<le> j \<and> j < i + length files \<and> 0 < len \<and> len \<le> c \<and> a + len \<le> fe_size (files ! (j - i))"
proof (induction files arbitrary: i)
  case (Cons f fs)
  then consider "(j, a, len) \<in> set (file_chunks (fe_size f) c i 0)" | "(j, a, len) \<in> set (plan_from (Suc i) fs c)" by auto
  then show ?case
  proof cases
    case 1
    then show ?thesis using file_chunks_bounds [OF 1] by simp
  next
    case 2
    then show ?thesis using Cons.IH [OF 2] by (auto simp: nth_Cons')
  qed
qed simp

lemma length_plan_from: "0 < c \<Longrightarrow> length (plan_from i files c) = sum_list (map (\<lambda>f. div_ceil (fe_size f) c) files)"
  by (induction files arbitrary: i) (simp_all add: length_file_chunks)

lemma saturating_sum: "foldl (\<lambda>n f. saturating_add n (g f)) (min a MAX_U64) fs = min (a + sum_list (map g fs)) MAX_U64"
proof (induction fs arbitrary: a)
  case (Cons f fs)
  have "saturating_add (min a MAX_U64) (g f) = min (a + g f) MAX_U64" by (simp add: saturating_add_def)
  then show ?case using Cons.IH [of "a + g f"] by (simp add: add.assoc)
qed simp

text \<open>
  The number of chunks is computed without making the plan, but it is the length of the plan, cut off at 64 bits: the receiver
  checks the announced number in time proportional to the number of files, whatever sizes a manifest claims, and the
  plan it makes at the end has exactly that many chunks.
\<close>

theorem chunk_count_is_plan_length:
  assumes "0 < c"
  shows "chunk_count files c = min (length (plan_chunks files c)) MAX_U64"
  using saturating_sum [of "\<lambda>f. div_ceil (fe_size f) c" 0 files] assms
  by (simp add: chunk_count_def plan_chunks_def length_plan_from)

text \<open>The chunks of a file, put together in order, are the file.\<close>

lemma file_chunks_cover:
  assumes "0 < c" "off \<le> length d"
  shows "concat (map (\<lambda>(j, a, len). take len (drop a d)) (file_chunks (length d) c i off)) = drop off d"
  using assms
proof (induction "length d" c i off rule: file_chunks.induct)
  case (1 c i off)
  show ?case
  proof (cases "length d \<le> off")
    case True
    then show ?thesis by (simp add: file_chunks.simps)
  next
    case False
    let ?len = "min (length d - off) c"
    have "concat (map (\<lambda>(j, a, len). take len (drop a d)) (file_chunks (length d) c i off)) =
        take ?len (drop off d) @ drop (off + ?len) d"
      using 1 False by (subst file_chunks.simps) (simp add: Let_def)
    also have "\<dots> = drop off d"
      by (metis append_take_drop_id drop_drop add.commute)
    finally show ?thesis .
  qed
qed

subsection \<open>Lemmas: paths\<close>

text \<open>What a path that passes the fence is made of.\<close>

definition fenced :: "str list \<Rightarrow> bool" where
  "fenced p \<longleftrightarrow> (\<forall>c \<in> set p. c \<noteq> [] \<and> c \<noteq> ''.'' \<and> c \<noteq> ''..'' \<and> CHR ''/'' \<notin> set c \<and> BSLASH \<notin> set c \<and> CHR '':'' \<notin> set c \<and> \<not> is_short_name c)"

lemma check_components_Inr:
  "check_components cs = Inr p \<Longrightarrow> set p \<subseteq> set cs \<and> (\<forall>c \<in> set p. c \<noteq> [] \<and> c \<noteq> ''.'' \<and> c \<noteq> ''..'' \<and> \<not> is_short_name c)"
  by (induction cs arbitrary: p) (auto simp: and_then_eq_Inr split: if_splits)

lemma split_on_subset: "w \<in> set (split_on c s) \<Longrightarrow> set w \<subseteq> set s"
proof (induction s arbitrary: w)
  case (Cons a s)
  obtain x ws where "split_on c s = x # ws" by (cases "split_on c s") auto
  then show ?case using Cons.IH [of x] Cons.IH [of w] Cons.prems by (auto split: if_splits)
qed simp

lemma safe_relative_path_fenced: "safe_relative_path rel = Inr p \<Longrightarrow> fenced p"
proof -
  assume a: "safe_relative_path rel = Inr p"
  let ?t = "trim rel"
  have t: "BSLASH \<notin> set ?t" "CHR '':'' \<notin> set ?t" "check_components (split_on CHR ''/'' ?t) = Inr p"
    using a by (auto simp: safe_relative_path_def Let_def split: if_splits)
  have "CHR ''/'' \<notin> set c \<and> set c \<subseteq> set ?t" if "c \<in> set p" for c
    using check_components_Inr [OF t(3)] that split_on_no_sep [of c "CHR ''/''" ?t] split_on_subset [of c "CHR ''/''" ?t] by blast
  then show ?thesis using check_components_Inr [OF t(3)] t(1,2) unfolding fenced_def by blast
qed

lemma dest_of_Inr: "dest_of f = Inr p \<longleftrightarrow> safe_relative_path (fe_path f) = Inr p"
  by (auto simp: dest_of_def split: sum.splits)

subsection \<open>Lemmas: what is assembled\<close>

definition dests :: "file_entry list \<Rightarrow> str list set" where
  "dests files = {p. \<exists>f \<in> set files. safe_relative_path (fe_path f) = Inr p}"

lemma update_keys_insert: "fst ` set (AList.update p d fs) = insert p (fst ` set fs)"
  by (metis dom_update dom_map_of_conv_image_fst update_conv' dom_fun_upd option.distinct(1))


lemma create_empty_keys: "create_empty files fs = Inr fs' \<Longrightarrow> fst ` set fs' \<subseteq> fst ` set fs \<union> dests files"
proof (induction files arbitrary: fs)
  case (Cons f files)
  show ?case
  proof (cases "fe_size f = 0")
    case True
    then obtain p where "dest_of f = Inr p" "create_empty files (AList.update p [] fs) = Inr fs'"
      using Cons.prems by (auto simp: and_then_eq_Inr split: if_splits)
    then show ?thesis using Cons.IH [of "AList.update p [] fs"]
      by (auto simp: dests_def dest_of_Inr update_keys_insert)
  next
    case False
    then show ?thesis using Cons by (auto simp: dests_def)
  qed
qed simp

lemma write_chunks_keys:
  assumes "write_chunks files chunks seq plan fs = Inr fs'" "\<forall>(i, off, len) \<in> set plan. i < length files"
  shows "fst ` set fs' \<subseteq> fst ` set fs \<union> dests files"
  using assms
proof (induction plan arbitrary: seq fs)
  case (Cons c plan)
  obtain i off len where c: "c = (i, off, len)" by (cases c)
  then obtain data p fs1 where w: "dest_of (files ! i) = Inr p" "put_file p off data fs = Inr fs1"
    "write_chunks files chunks (Suc seq) plan fs1 = Inr fs'"
    using Cons.prems(1) by (auto simp: and_then_eq_Inr split: option.splits if_splits)
  have "files ! i \<in> set files" using Cons.prems(2) c by simp
  then have "p \<in> dests files" using w(1) by (auto simp: dests_def dest_of_Inr)
  moreover have "fst ` set fs1 = insert p (fst ` set fs)"
  proof -
    obtain d where "fs1 = AList.update p d fs" using w(2) by (auto simp: put_file_def split: if_splits)
    then show ?thesis by (simp only: update_keys_insert)
  qed
  ultimately show ?case using Cons.IH [OF w(3)] Cons.prems(2) by auto
qed simp

lemma verify_files_Inr:
  "verify_files lib files fs = Inr u \<Longrightarrow> f \<in> set files \<Longrightarrow>
     \<exists>p d. safe_relative_path (fe_path f) = Inr p \<and> map_of fs p = Some d \<and> length d = fe_size f \<and> xl_sha lib d = fe_sha f"
  by (induction files) (auto simp: and_then_eq_Inr dest_of_Inr split: option.splits if_splits)

text \<open>Files that are what a manifest says, all of them and no others, each at a path within the directory.\<close>

definition matches_manifest :: "xfer_lib \<Rightarrow> transfer_begin \<Rightarrow> file_tree \<Rightarrow> bool" where
  "matches_manifest lib m fs \<longleftrightarrow>
     (\<forall>f \<in> set (tb_files m). \<exists>p d. safe_relative_path (fe_path f) = Inr p \<and> map_of fs p = Some d \<and>
        length d = fe_size f \<and> xl_sha lib d = fe_sha f) \<and>
     (\<forall>p \<in> fst ` set fs. p \<in> dests (tb_files m) \<and> fenced p)"

lemma assemble_matches:
  assumes "assemble lib m chunks = Inr fs"
  shows "matches_manifest lib m fs"
proof -
  obtain fs1 u where a: "create_empty (tb_files m) [] = Inr fs1"
    "write_chunks (tb_files m) chunks 0 (plan_chunks (tb_files m) (tb_chunk_size m)) fs1 = Inr fs"
    "verify_files lib (tb_files m) fs = Inr u"
    using assms by (auto simp: assemble_def and_then_eq_Inr)
  have "\<forall>(i, off, len) \<in> set (plan_chunks (tb_files m) (tb_chunk_size m)). i < length (tb_files m)"
    using plan_bounds [of _ _ _ 0 "tb_files m"] by (fastforce simp: plan_chunks_def)
  from write_chunks_keys [OF a(2) this] have "fst ` set fs \<subseteq> dests (tb_files m)"
    using create_empty_keys [OF a(1)] by auto
  moreover have "fenced p" if "p \<in> dests (tb_files m)" for p
    using that safe_relative_path_fenced by (auto simp: dests_def)
  ultimately show ?thesis using verify_files_Inr [OF a(3)] by (auto simp: matches_manifest_def)
qed

subsection \<open>Any use of the receiving side\<close>

inductive sink_step :: "xfer_lib \<Rightarrow> transfer_sink \<Rightarrow> transfer_sink \<Rightarrow> bool" for lib where
  Begin: "sink_step lib s (snd (sink_begin req s))"
| Chunk: "sink_step lib s (snd (sink_chunk lib c s))"
| End: "sink_step lib s (snd (sink_end lib i s))"
| SetMax: "sink_step lib s (set_max_bytes n s)"
| Sweep: "sink_step lib s (sweep_stale_staging stale s)"
| Take: "sink_step lib s (take_archive k s)"
| Note: "sink_step lib s (note_overlimit n s)"

text \<open>
  Announced manifests are valid, received archives match theirs and lie under the name of their task, and the index
  knows them.
\<close>

definition sink_ok :: "xfer_lib \<Rightarrow> transfer_sink \<Rightarrow> bool" where
  "sink_ok lib s \<longleftrightarrow>
     (\<forall>k st. ts_staging s k = Some st \<longrightarrow> validate_manifest (sg_manifest st) = None) \<and>
     (\<forall>k a. ts_inbox s k = Some a \<longrightarrow> k = sanitize_path_segment (tb_task_id (ar_manifest a)) \<and>
        validate_manifest (ar_manifest a) = None \<and> matches_manifest lib (ar_manifest a) (ar_files a) \<and>
        (\<exists>h. ts_dedup s (tb_task_id (ar_manifest a)) = Some h))"

lemma sink_ok_begin: "sink_ok lib s \<Longrightarrow> sink_ok lib (snd (sink_begin req s))"
  by (auto simp: sink_ok_def sink_begin_def Let_def split: option.splits)

lemma sink_ok_chunk: "sink_ok lib s \<Longrightarrow> sink_ok lib (snd (sink_chunk lib c s))"
  by (auto simp: sink_ok_def sink_chunk_def Let_def split: option.splits)

lemma sink_ok_end:
  assumes "sink_ok lib s"
  shows "sink_ok lib (snd (sink_end lib i s))"
proof (cases "ts_staging s (sanitize_transfer_id i)")
  case None
  then show ?thesis using assms by (auto simp: sink_end_def Let_def split: option.splits)
next
  case (Some st)
  show ?thesis
  proof (cases "assemble lib (sg_manifest st) (sg_chunks st)")
    case (Inl e)
    then show ?thesis using Some assms by (simp add: sink_end_def)
  next
    case (Inr fs)
    then show ?thesis using Some assms assemble_matches [OF Inr] by (auto simp: sink_end_def Let_def sink_ok_def)
  qed
qed

lemma sink_ok_step: "sink_ok lib s \<Longrightarrow> sink_step lib s t \<Longrightarrow> sink_ok lib t"
  by (erule sink_step.cases)
    (auto simp: sink_ok_begin sink_ok_chunk sink_ok_end, auto simp: sink_ok_def set_max_bytes_def sweep_stale_staging_def
      take_archive_def note_overlimit_def)

interpretation sink: transition_invariant "\<lambda>s. \<exists>n. s = new_sink n" "sink_step lib" "sink_ok lib"
proof
  show "sink_ok lib s" if "\<exists>n. s = new_sink n" for s using that by (auto simp: sink_ok_def new_sink_def)
qed (rule sink_ok_step)

text \<open>
  C34: Whatever the other side sends, in whatever order, with announcements, chunks and ends of its choice: an archive in the
  inbox holds exactly the files its manifest lists, every one with the announced length and hash, at paths whose
  components are plain names, and lies under the sanitised name of its task.
\<close>

theorem landed_is_verified:
  assumes "rtranclp (sink_step lib) (new_sink n) s" "ts_inbox s k = Some a"
  shows "matches_manifest lib (ar_manifest a) (ar_files a) \<and> k = sanitize_path_segment (tb_task_id (ar_manifest a))"
proof -
  have "sink_ok lib s" using sink.reachable_inv [of "new_sink n" lib s] assms(1) by blast
  then show ?thesis using assms(2) by (auto simp: sink_ok_def)
qed

subsection \<open>Lemmas: an honest transfer\<close>

text \<open>
  A payload whose paths pass the fence and can exist beside each other, with the places of its files, and the
  files as they should arrive.
\<close>

definition placed :: "payload \<Rightarrow> str list list \<Rightarrow> bool" where
  "placed payload ps \<longleftrightarrow>
     map (\<lambda>x. safe_relative_path (fst x)) payload = map Inr ps \<and> distinct ps \<and>
     (\<forall>p \<in> set ps. \<forall>q \<in> set ps. \<not> strict_prefix p q)"

definition holds :: "str list list \<Rightarrow> payload \<Rightarrow> file_tree \<Rightarrow> bool" where
  "holds ps payload fs \<longleftrightarrow> (\<forall>p. map_of fs p = map_of (zip ps (map snd payload)) p)"

lemma entries_of_simps [simp]:
  "entries_of lib [] = []"
  "entries_of lib (x # payload) = \<lparr>fe_path = fst x, fe_size = length (snd x), fe_sha = xl_sha lib (snd x)\<rparr> # entries_of lib payload"
  "length (entries_of lib payload) = length payload"
  "i < length payload \<Longrightarrow> entries_of lib payload ! i =
     \<lparr>fe_path = fst (payload ! i), fe_size = length (snd (payload ! i)), fe_sha = xl_sha lib (snd (payload ! i))\<rparr>"
  by (simp_all add: entries_of_def case_prod_beta)

lemma not_blocked:
  assumes "\<forall>p \<in> P. \<forall>q \<in> P. \<not> strict_prefix p q" "fst ` set fs \<subseteq> P" "p \<in> P"
  shows "\<not> blocked p fs"
proof -
  have "\<not> (strict_prefix q p \<or> strict_prefix p q)" if "(q, d) \<in> set fs" for q d
    using assms that by (metis fst_conv image_eqI subsetD)
  then show ?thesis unfolding blocked_def list_ex_iff by fast
qed

lemma create_empty_placed:
  assumes "\<forall>p \<in> P. \<forall>q \<in> P. \<not> strict_prefix p q" "map (\<lambda>x. safe_relative_path (fst x)) payload = map Inr ps" "distinct ps"
    "set ps \<subseteq> P" "fst ` set fs \<subseteq> P"
  shows "\<exists>fs'. create_empty (entries_of lib payload) fs = Inr fs' \<and> fst ` set fs' \<subseteq> P \<and>
    (\<forall>q. map_of fs' q = (if map_of (zip ps (map snd payload)) q = Some [] then Some [] else map_of fs q))"
  using assms(2-5)
proof (induction payload arbitrary: ps fs)
  case (Cons x payload)
  then obtain p ps' where ps: "ps = p # ps'" "safe_relative_path (fst x) = Inr p"
    "map (\<lambda>x. safe_relative_path (fst x)) payload = map Inr ps'"
    by (cases ps) auto
  let ?fs = "if snd x = [] then AList.update p [] fs else fs"
  have keys: "fst ` set ?fs \<subseteq> P" using Cons.prems ps update_keys_insert [of p "[]" fs] by auto
  obtain fs' where fs': "create_empty (entries_of lib payload) ?fs = Inr fs'" "fst ` set fs' \<subseteq> P"
    "\<forall>q. map_of fs' q = (if map_of (zip ps' (map snd payload)) q = Some [] then Some [] else map_of ?fs q)"
    using Cons.IH [OF ps(3) _ _ keys] Cons.prems ps by auto
  have "p \<notin> set ps'" using Cons.prems(2) ps(1) by simp
  then have none: "map_of (zip ps' (map snd payload)) p = None" by (auto simp: map_of_eq_None_iff dest: set_zip_leftD)
  have "\<not> blocked p fs" using not_blocked [OF assms(1)] Cons.prems ps by simp
  then have "create_empty (entries_of lib (x # payload)) fs = Inr fs'"
    using fs'(1) ps(2) by (simp add: dest_of_def split: if_splits)
  moreover have "map_of fs' q = (if map_of (zip ps (map snd (x # payload))) q = Some [] then Some [] else map_of fs q)" for q
    using fs'(3) none by (cases "q = p") (simp_all add: ps(1) update_conv')
  ultimately show ?case using fs'(2) by blast
qed simp

lemma write_chunks_append:
  "write_chunks files chunks seq (xs @ ys) fs =
     and_then (write_chunks files chunks seq xs fs) (\<lambda>fs'. write_chunks files chunks (seq + length xs) ys fs')"
proof (induction xs arbitrary: seq fs)
  case (Cons c xs)
  obtain i off len where "c = (i, off, len)" by (cases c)
  then show ?case using Cons.IH by (auto simp: and_then_def split: option.splits sum.splits)
qed simp

lemma write_bytes_at_next:
  assumes "off + len \<le> length d"
  shows "write_bytes_at off (take len (drop off d)) (take off d) = take (off + len) d"
  using assms by (simp add: write_bytes_at_def take_add)

lemma write_file_chunks:
  assumes "0 < c" "\<forall>p \<in> P. \<forall>q \<in> P. \<not> strict_prefix p q" "dest_of (files ! i) = Inr p" "p \<in> P"
    and "fst ` set fs \<subseteq> P" "off \<le> length d" "(case map_of fs p of Some old \<Rightarrow> old | None \<Rightarrow> []) = take off d"
    and "\<forall>j < length (file_chunks (length d) c i off).
      chunks (seq + j) = (case file_chunks (length d) c i off ! j of (i, a, len) \<Rightarrow> Some (take len (drop a d)))"
  shows "\<exists>fs'. write_chunks files chunks seq (file_chunks (length d) c i off) fs = Inr fs' \<and> fst ` set fs' \<subseteq> P \<and>
    (\<forall>q. map_of fs' q = (if q = p \<and> off < length d then Some d else map_of fs q))"
  using assms
proof (induction "length d" c i off arbitrary: seq fs rule: file_chunks.induct)
  case (1 c i off)
  show ?case
  proof (cases "length d \<le> off")
    case True
    then show ?thesis using 1 by (simp add: file_chunks.simps)
  next
    case False
    let ?len = "min (length d - off) c" and ?rest = "file_chunks (length d) c i (off + min (length d - off) c)"
    have plan: "file_chunks (length d) c i off = (i, off, ?len) # ?rest"
      using 1(2) False by (subst file_chunks.simps) (simp add: Let_def)
    have le: "off + ?len \<le> length d" using False by simp
    let ?fs = "AList.update p (take (off + ?len) d) fs"
    have "put_file p off (take ?len (drop off d)) fs = Inr ?fs"
      using not_blocked [OF 1(3) 1(6) 1(5)] 1(8) write_bytes_at_next [OF le] by (simp add: put_file_def)
    moreover have "chunks seq = Some (take ?len (drop off d))"
      using spec [OF 1(9), of 0] unfolding plan by simp
    ultimately have step: "write_chunks files chunks seq (file_chunks (length d) c i off) fs = write_chunks files chunks (Suc seq) ?rest ?fs"
      using 1(4) False by (simp add: plan)
    have keys: "fst ` set ?fs \<subseteq> P" using 1(5,6) update_keys_insert [of p "take (off + ?len) d" fs] by simp
    have cur: "(case map_of ?fs p of Some old \<Rightarrow> old | None \<Rightarrow> []) = take (off + ?len) d" by (simp add: update_conv')
    have nxt: "\<forall>j < length ?rest. chunks (Suc seq + j) = (case ?rest ! j of (i, a, len) \<Rightarrow> Some (take len (drop a d)))"
    proof (intro allI impI)
      fix j assume "j < length ?rest"
      then show "chunks (Suc seq + j) = (case ?rest ! j of (i, a, len) \<Rightarrow> Some (take len (drop a d)))"
        using spec [OF 1(9), of "Suc j"] unfolding plan by simp
    qed
    have "\<not> (c = 0 \<or> length d \<le> off)" using 1(2) False by simp
    from 1(1) [OF this refl 1(2-5) keys le cur nxt]
    obtain fs' where fs': "write_chunks files chunks (Suc seq) ?rest ?fs = Inr fs'" "fst ` set fs' \<subseteq> P"
      "\<forall>q. map_of fs' q = (if q = p \<and> off + ?len < length d then Some d else map_of ?fs q)"
      by blast
    have "map_of fs' q = (if q = p \<and> off < length d then Some d else map_of fs q)" for q
      using fs'(3) False by (auto simp: update_conv')
    then show ?thesis using step fs'(1,2) by auto
  qed
qed

lemma chunk_data_file:
  "i < length full \<Longrightarrow> j < length (file_chunks (length (snd (full ! i))) c i 0) \<Longrightarrow>
   Some (chunk_data full (file_chunks (length (snd (full ! i))) c i 0 ! j)) =
     (case file_chunks (length (snd (full ! i))) c i 0 ! j of (i', a, len) \<Rightarrow> Some (take len (drop a (snd (full ! i)))))"
proof -
  let ?fc = "file_chunks (length (snd (full ! i))) c i 0"
  assume "j < length ?fc"
  moreover obtain i' a len where e: "?fc ! j = (i', a, len)" by (cases "?fc ! j")
  ultimately have "(i', a, len) \<in> set ?fc" using nth_mem [of j ?fc] by simp
  then have "i' = i" using file_chunks_bounds by blast
  then show ?thesis unfolding e by (simp add: chunk_data_def)
qed

lemma write_plan_placed:
  assumes "0 < c" "\<forall>p \<in> P. \<forall>q \<in> P. \<not> strict_prefix p q"
    and "full = pre @ payload" "map (\<lambda>x. safe_relative_path (fst x)) payload = map Inr ps" "distinct ps" "set ps \<subseteq> P"
    and "fst ` set fs \<subseteq> P" "\<forall>q \<in> set ps. map_of fs q = None \<or> map_of fs q = Some []"
    and "\<forall>j < length (plan_from (length pre) (entries_of lib payload) c).
      chunks (seq + j) = Some (chunk_data full (plan_from (length pre) (entries_of lib payload) c ! j))"
  shows "\<exists>fs'. write_chunks (entries_of lib full) chunks seq (plan_from (length pre) (entries_of lib payload) c) fs = Inr fs' \<and>
    fst ` set fs' \<subseteq> P \<and>
    (\<forall>q. map_of fs' q = (case map_of (zip ps (map snd payload)) q of
                           Some d \<Rightarrow> if d = [] then map_of fs q else Some d
                         | None \<Rightarrow> map_of fs q))"
  using assms(3-9)
proof (induction payload arbitrary: pre ps seq fs)
  case (Cons x payload)
  then obtain p ps' where ps: "ps = p # ps'" "safe_relative_path (fst x) = Inr p"
    "map (\<lambda>x. safe_relative_path (fst x)) payload = map Inr ps'"
    by (cases ps) auto
  let ?i = "length pre" and ?d = "snd x"
  let ?fc = "file_chunks (length ?d) c ?i 0" and ?rest = "plan_from (Suc ?i) (entries_of lib payload) c"
  have full: "?i < length full" "full ! ?i = x" using Cons.prems(1) by simp_all
  have "dest_of (entries_of lib full ! ?i) = Inr p" using full ps(2) by (simp add: dest_of_def)
  moreover have "\<forall>j < length ?fc. chunks (seq + j) = (case ?fc ! j of (i, a, len) \<Rightarrow> Some (take len (drop a ?d)))"
    using Cons.prems(7) chunk_data_file [of ?i full _ c] full by (simp add: nth_append)
  moreover have "(case map_of fs p of Some old \<Rightarrow> old | None \<Rightarrow> []) = take 0 ?d"
    using Cons.prems(6) ps(1) by auto
  moreover have "p \<in> P" using Cons.prems(4) ps(1) by simp
  ultimately obtain fs1 where fs1: "write_chunks (entries_of lib full) chunks seq ?fc fs = Inr fs1" "fst ` set fs1 \<subseteq> P"
    "\<forall>q. map_of fs1 q = (if q = p \<and> 0 < length ?d then Some ?d else map_of fs q)"
    using write_file_chunks [OF assms(1,2), of "entries_of lib full" ?i p fs 0 ?d chunks seq] Cons.prems(5) by auto
  have p: "p \<notin> set ps'" using Cons.prems(3) ps(1) by simp
  have "\<forall>q \<in> set ps'. map_of fs1 q = None \<or> map_of fs1 q = Some []"
    using fs1(3) Cons.prems(6) ps(1) p by auto
  moreover have "\<forall>j < length ?rest. chunks (seq + length ?fc + j) = Some (chunk_data full (?rest ! j))"
  proof (intro allI impI)
    fix j assume "j < length ?rest"
    then show "chunks (seq + length ?fc + j) = Some (chunk_data full (?rest ! j))"
      using spec [OF Cons.prems(7), of "length ?fc + j"] by (simp add: nth_append add.assoc)
  qed
  ultimately obtain fs' where fs': "write_chunks (entries_of lib full) chunks (seq + length ?fc) ?rest fs1 = Inr fs'"
    "fst ` set fs' \<subseteq> P"
    "\<forall>q. map_of fs' q = (case map_of (zip ps' (map snd payload)) q of
        Some d \<Rightarrow> if d = [] then map_of fs1 q else Some d | None \<Rightarrow> map_of fs1 q)"
    using Cons.IH [of "pre @ [x]" ps' fs1 "seq + length ?fc"] Cons.prems ps fs1(2) by auto
  have none: "map_of (zip ps' (map snd payload)) p = None" using p by (auto simp: map_of_eq_None_iff dest: set_zip_leftD)
  have "write_chunks (entries_of lib full) chunks seq (plan_from ?i (entries_of lib (x # payload)) c) fs = Inr fs'"
    using fs1(1) fs'(1) by (simp add: write_chunks_append)
  moreover have "map_of fs' q = (case map_of (zip ps (map snd (x # payload))) q of
      Some d \<Rightarrow> if d = [] then map_of fs q else Some d | None \<Rightarrow> map_of fs q)" for q
    using fs'(3) fs1(3) none ps(1) by (cases "q = p") (simp_all split: option.split)
  ultimately show ?case using fs'(2) by blast
qed simp

lemma verify_placed:
  assumes "map (\<lambda>x. safe_relative_path (fst x)) payload = map Inr ps" "\<forall>(p, d) \<in> set (zip ps (map snd payload)). map_of fs p = Some d"
  shows "verify_files lib (entries_of lib payload) fs = Inr ()"
  using assms
proof (induction payload arbitrary: ps)
  case (Cons x payload)
  then obtain p ps' where "ps = p # ps'" "safe_relative_path (fst x) = Inr p"
    "map (\<lambda>x. safe_relative_path (fst x)) payload = map Inr ps'"
    by (cases ps) auto
  then show ?case using Cons by (simp add: dest_of_def)
qed simp

lemma assemble_placed:
  assumes "0 < c" "placed payload ps" "tb_files m = entries_of lib payload" "tb_chunk_size m = c"
    and "\<forall>j < length (plan_chunks (tb_files m) c). chunks j = Some (chunk_data payload (plan_chunks (tb_files m) c ! j))"
  shows "\<exists>fs. assemble lib m chunks = Inr fs \<and> holds ps payload fs"
proof -
  have pl: "map (\<lambda>x. safe_relative_path (fst x)) payload = map Inr ps" "distinct ps" "\<forall>p \<in> set ps. \<forall>q \<in> set ps. \<not> strict_prefix p q"
    using assms(2) by (auto simp: placed_def)
  obtain fs1 where fs1: "create_empty (entries_of lib payload) [] = Inr fs1" "fst ` set fs1 \<subseteq> set ps"
    "\<forall>q. map_of fs1 q = (if map_of (zip ps (map snd payload)) q = Some [] then Some [] else None)"
    using create_empty_placed [OF pl(3,1,2), of "[]" lib] by auto
  obtain fs where fs: "write_chunks (entries_of lib payload) chunks 0 (plan_chunks (entries_of lib payload) c) fs1 = Inr fs"
    "\<forall>q. map_of fs q = (case map_of (zip ps (map snd payload)) q of
        Some d \<Rightarrow> if d = [] then map_of fs1 q else Some d | None \<Rightarrow> map_of fs1 q)"
  proof -
    have "\<forall>q \<in> set ps. map_of fs1 q = None \<or> map_of fs1 q = Some []" using fs1(3) by simp
    from write_plan_placed [OF assms(1) pl(3) _ pl(1,2) subset_refl fs1(2) this, of payload "[]" lib chunks 0]
    show ?thesis using assms(3,5) that by (auto simp: plan_chunks_def)
  qed
  have h: "holds ps payload fs" unfolding holds_def
    using fs(2) fs1(3) by (auto split: option.splits)
  have "length ps = length payload" using pl(1) by (metis length_map)
  then have "\<forall>(p, d) \<in> set (zip ps (map snd payload)). map_of fs p = Some d"
    using h pl(2) by (auto simp: holds_def map_of_eq_Some_iff)
  from verify_placed [OF pl(1) this] show ?thesis
    using fs1(1) fs(1) h assms(3,4) by (simp add: assemble_def)
qed

subsection \<open>Lemmas: pushes that are interrupted\<close>

text \<open>What a payload has to satisfy to be sent, apart from the limits: SHA-256 writes 64 digits.\<close>

definition sendable :: "xfer_lib \<Rightarrow> str \<Rightarrow> nat \<Rightarrow> payload \<Rightarrow> str list list \<Rightarrow> bool" where
  "sendable lib task c payload ps \<longleftrightarrow>
     base64_documented lib \<and> (\<forall>s. length (xl_sha lib s) = 64) \<and> task \<noteq> [] \<and> 0 < c \<and> payload \<noteq> [] \<and> placed payload ps \<and>
     sum_list (map (\<lambda>x. length (snd x)) payload) \<le> MAX_U64"

text \<open>
  The receiver's knowledge of a transfer is right: the chunks it keeps for it are those of the payload, and if it
  would answer that it has the archive already, then it has the files of the payload.
\<close>

definition chunks_right :: "payload \<Rightarrow> (nat \<times> nat \<times> nat) list \<Rightarrow> (nat \<Rightarrow> str option) \<Rightarrow> bool" where
  "chunks_right payload plan chunks \<longleftrightarrow> (\<forall>j < length plan. \<forall>d. chunks j = Some d \<longrightarrow> d = chunk_data payload (plan ! j))"

definition plan_of :: "transfer_begin \<Rightarrow> (nat \<times> nat \<times> nat) list" where
  "plan_of m = plan_chunks (tb_files m) (tb_chunk_size m)"

definition received :: "transfer_begin \<Rightarrow> str list list \<Rightarrow> payload \<Rightarrow> transfer_sink \<Rightarrow> bool" where
  "received m ps payload s \<longleftrightarrow>
     (\<exists>a. ts_inbox s (sanitize_path_segment (tb_task_id m)) = Some a \<and> holds ps payload (ar_files a))"

definition index_right :: "transfer_begin \<Rightarrow> str list list \<Rightarrow> payload \<Rightarrow> transfer_sink \<Rightarrow> bool" where
  "index_right m ps payload s \<longleftrightarrow>
     (ts_dedup s (tb_task_id m) = Some (tb_content_hash m) \<and> ts_inbox s (sanitize_path_segment (tb_task_id m)) \<noteq> None \<longrightarrow>
      received m ps payload s)"

definition receiver_right :: "transfer_begin \<Rightarrow> str list list \<Rightarrow> payload \<Rightarrow> transfer_sink \<Rightarrow> bool" where
  "receiver_right m ps payload s \<longleftrightarrow>
     (\<forall>st. ts_staging s (sanitize_transfer_id (tb_transfer_id m)) = Some st \<and>
        tb_content_hash (sg_manifest st) = tb_content_hash m \<longrightarrow> chunks_right payload (plan_of m) (sg_chunks st)) \<and>
     index_right m ps payload s"

lemma div_ceil_le: "0 < c \<Longrightarrow> div_ceil a c \<le> a"
proof -
  assume c: "0 < c"
  have "a + c - 1 < Suc a * c" using c by (cases c) auto
  then have "(a + c - 1) div c < Suc a" using c by (simp add: less_mult_imp_div_less)
  then show ?thesis by (simp add: div_ceil_def)
qed

lemma sum_sizes: "sum_list (map fe_size (entries_of lib payload)) = sum_list (map (\<lambda>x. length (snd x)) payload)"
  by (induction payload) simp_all

lemma begin_of_fields [simp]:
  "tb_task_id (begin_of lib task kind src c payload) = task"
  "tb_files (begin_of lib task kind src c payload) = entries_of lib payload"
  "tb_chunk_size (begin_of lib task kind src c payload) = c"
  "tb_total_bytes (begin_of lib task kind src c payload) = sum_list (map (\<lambda>x. length (snd x)) payload)"
  "tb_chunk_count (begin_of lib task kind src c payload) = chunk_count (entries_of lib payload) c"
  "tb_content_hash (begin_of lib task kind src c payload) = content_hash lib (entries_of lib payload)"
  "tb_transfer_id (begin_of lib task kind src c payload) \<noteq> []"
  by (simp_all add: begin_of_def Let_def sum_sizes)

lemma chunk_count_sendable:
  assumes "sendable lib task c payload ps"
  shows "chunk_count (entries_of lib payload) c = length (plan_chunks (entries_of lib payload) c)"
proof -
  have c: "0 < c" using assms by (simp add: sendable_def)
  have "sum_list (map (\<lambda>f. div_ceil (fe_size f) c) (entries_of lib payload)) \<le> sum_list (map fe_size (entries_of lib payload))"
    by (intro sum_list_mono) (rule div_ceil_le [OF c])
  then have "length (plan_chunks (entries_of lib payload) c) \<le> MAX_U64"
    using assms by (simp add: sendable_def sum_sizes plan_chunks_def length_plan_from)
  moreover have "chunk_count (entries_of lib payload) c = min (length (plan_chunks (entries_of lib payload) c)) MAX_U64"
    using saturating_sum [of "\<lambda>f. div_ceil (fe_size f) c" 0 "entries_of lib payload"] c
    by (simp add: chunk_count_def plan_chunks_def length_plan_from)
  ultimately show ?thesis by simp
qed

lemma total_of_entries:
  "map (\<lambda>x. safe_relative_path (fst x)) payload = map Inr ps \<Longrightarrow>
     total_of_files (min a MAX_U64) (entries_of lib payload) = Inr (min (a + sum_list (map (\<lambda>x. length (snd x)) payload)) MAX_U64)"
proof (induction payload arbitrary: ps a)
  case (Cons x payload)
  obtain p ps' where "safe_relative_path (fst x) = Inr p" "map (\<lambda>x. safe_relative_path (fst x)) payload = map Inr ps'"
    using Cons.prems by (cases ps) auto
  moreover have "saturating_add (min a MAX_U64) (length (snd x)) = min (a + length (snd x)) MAX_U64"
    by (simp add: saturating_add_def)
  ultimately show ?case using Cons.IH [of ps' "a + length (snd x)"] by (simp add: add.assoc)
qed simp

lemma valid_sendable:
  assumes "sendable lib task c payload ps"
  shows "validate_manifest (begin_of lib task kind src c payload) = None"
proof -
  have "map (\<lambda>x. safe_relative_path (fst x)) payload = map Inr ps" using assms by (simp add: sendable_def placed_def)
  from total_of_entries [OF this, of 0 lib]
  have "total_of_files 0 (entries_of lib payload) = Inr (sum_list (map (\<lambda>x. length (snd x)) payload))"
    using assms by (simp add: sendable_def)
  moreover have "content_hash lib (entries_of lib payload) \<noteq> []"
  proof -
    have "length (content_hash lib (entries_of lib payload)) = 64" using assms unfolding sendable_def content_hash_def by blast
    then show ?thesis by auto
  qed
  ultimately show ?thesis using assms by (simp add: validate_manifest_def sendable_def)
qed

text \<open>The receiver with a transfer for \<open>m\<close> begun and some chunks stored.\<close>

definition with_chunks :: "transfer_begin \<Rightarrow> (nat \<Rightarrow> str option) \<Rightarrow> transfer_sink \<Rightarrow> transfer_sink" where
  "with_chunks m chunks s =
     s\<lparr>ts_staging := (ts_staging s)(sanitize_transfer_id (tb_transfer_id m) \<mapsto> \<lparr>sg_manifest = m, sg_chunks = chunks\<rparr>)\<rparr>"

lemma with_chunks_simps [simp]:
  "ts_staging (with_chunks m chunks s) (sanitize_transfer_id (tb_transfer_id m)) = Some \<lparr>sg_manifest = m, sg_chunks = chunks\<rparr>"
  "with_chunks m chunks' (with_chunks m chunks s) = with_chunks m chunks' s"
  "ts_inbox (with_chunks m chunks s) = ts_inbox s" "ts_dedup (with_chunks m chunks s) = ts_dedup s"
  by (simp_all add: with_chunks_def)

lemma plan_chunk_length:
  assumes "(i, a, len) \<in> set (plan_of m)"
  shows "length (chunk_data payload (i, a, len)) \<le> tb_chunk_size m"
  using plan_bounds [of i a len 0] assms by (fastforce simp: plan_of_def plan_chunks_def chunk_data_def)

lemma sink_chunk_stores:
  assumes "sendable lib task c payload ps" "m = begin_of lib task kind src c payload" "seq < length (plan_of m)"
  shows "sink_chunk lib (chunk_of lib (tb_transfer_id m) payload seq (plan_of m ! seq)) (with_chunks m chunks s) =
    (Inr (), with_chunks m (chunks(seq \<mapsto> chunk_data payload (plan_of m ! seq))) s)"
proof -
  obtain i a len where e: "plan_of m ! seq = (i, a, len)" by (cases "plan_of m ! seq")
  have "(i, a, len) \<in> set (plan_of m)" using nth_mem [OF assms(3)] e by simp
  then have l: "length (chunk_data payload (i, a, len)) \<le> c" using plan_chunk_length [of i a len m payload] assms(2) by simp
  have n: "tb_chunk_count m = length (plan_of m)" using chunk_count_sendable [OF assms(1)] assms(2) by (simp add: plan_of_def)
  have d: "xl_b64_decode lib (xl_b64_encode lib x) = Some x" for x
    using assms(1) by (simp add: sendable_def base64_documented_def)
  have sz: "tb_chunk_size m = c" using assms(2) by simp
  show ?thesis using assms(3) l by (simp add: sink_chunk_def chunk_of_def Let_def d e n sz) (simp add: with_chunks_def)
qed

lemma chunks_right_upd:
  "chunks_right payload plan chunks \<Longrightarrow> chunks_right payload plan (chunks(seq \<mapsto> chunk_data payload (plan ! seq)))"
  by (auto simp: chunks_right_def)

lemma push_chunks_right:
  assumes "sendable lib task c payload ps" "m = begin_of lib task kind src c payload"
    and "plan_of m = pre @ plan" "chunks_right payload (plan_of m) chunks"
    and "\<forall>j < length pre. chunks j \<noteq> None" "\<forall>j \<in> set have. chunks j \<noteq> None"
    and "push_chunks lib (tb_transfer_id m) payload have fate n (length pre) plan (with_chunks m chunks s) = (r, s')"
  shows "\<exists>chunks'. s' = with_chunks m chunks' s \<and> chunks_right payload (plan_of m) chunks' \<and>
    (\<forall>n. r = Inr n \<longrightarrow> (\<forall>j < length (plan_of m). chunks' j \<noteq> None)) \<and> ((\<forall>n. fate n = Works) \<longrightarrow> (\<exists>n. r = Inr n))"
  using assms(3-7)
proof (induction plan arbitrary: pre chunks n)
  case Nil
  then have "r = Inr n" "s' = with_chunks m chunks s" by simp_all
  then show ?case using Nil by auto
next
  case (Cons x plan)
  let ?seq = "length pre"
  have x: "plan_of m ! ?seq = x" "?seq < length (plan_of m)" using Cons.prems(1) by simp_all
  have split: "plan_of m = (pre @ [x]) @ plan" using Cons.prems(1) by simp
  show ?case
  proof (cases "?seq \<in> set have")
    case True
    then have "\<forall>j < length (pre @ [x]). chunks j \<noteq> None" using Cons.prems(3,4) by (auto simp: less_Suc_eq)
    from Cons.IH [OF split Cons.prems(2) this Cons.prems(4), of n] show ?thesis using Cons.prems(5) True by simp
  next
    case False
    let ?chunks = "chunks(?seq \<mapsto> chunk_data payload x)"
    have step: "sink_chunk lib (chunk_of lib (tb_transfer_id m) payload ?seq x) (with_chunks m chunks s) =
        (Inr (), with_chunks m ?chunks s)"
      using sink_chunk_stores [OF assms(1,2) x(2)] x(1) by simp
    have right: "chunks_right payload (plan_of m) ?chunks"
      using chunks_right_upd [OF Cons.prems(2), of ?seq] x(1) by simp
    show ?thesis
    proof (cases "fate n")
      case Works
      have "\<forall>j < length (pre @ [x]). ?chunks j \<noteq> None" "\<forall>j \<in> set have. ?chunks j \<noteq> None"
        using Cons.prems(3,4) by (auto simp: less_Suc_eq)
      moreover have "push_chunks lib (tb_transfer_id m) payload have fate (Suc n) (length (pre @ [x])) plan (with_chunks m ?chunks s) = (r, s')"
        using Cons.prems(5) False Works step by (simp add: remote_def)
      ultimately show ?thesis by (rule Cons.IH [OF split right])
    next
      case RequestLost
      then have "s' = with_chunks m chunks s" "r = Inl CallFailed"
        using Cons.prems(5) False by (simp_all add: remote_def)
      moreover have "\<not> (\<forall>n. fate n = Works)" using RequestLost by (metis fate.distinct(1))
      ultimately show ?thesis using Cons.prems(2) by (intro exI [of _ chunks]) auto
    next
      case ReplyLost
      then have "s' = with_chunks m ?chunks s" "r = Inl CallFailed"
        using Cons.prems(5) False step by (simp_all add: remote_def)
      moreover have "\<not> (\<forall>n. fate n = Works)" using ReplyLost by (metis fate.distinct(3))
      ultimately show ?thesis using right by blast
    qed
  qed
qed

text \<open>A push changes nothing that belongs to other transfers.\<close>

definition same_elsewhere :: "transfer_begin \<Rightarrow> transfer_sink \<Rightarrow> transfer_sink \<Rightarrow> bool" where
  "same_elsewhere m s t \<longleftrightarrow>
     (\<forall>k. k \<noteq> sanitize_transfer_id (tb_transfer_id m) \<longrightarrow> ts_staging t k = ts_staging s k) \<and>
     (\<forall>k. k \<noteq> sanitize_path_segment (tb_task_id m) \<longrightarrow> ts_inbox t k = ts_inbox s k) \<and>
     (\<forall>k. k \<noteq> tb_task_id m \<longrightarrow> ts_dedup t k = ts_dedup s k) \<and> ts_max_bytes t = ts_max_bytes s"

lemma same_elsewhere_refl [simp]: "same_elsewhere m s s"
  by (simp add: same_elsewhere_def)

lemma same_elsewhere_chunks [simp]: "same_elsewhere m s (with_chunks m chunks s)"
  by (simp add: same_elsewhere_def with_chunks_def)

lemma sink_end_complete:
  assumes "sendable lib task c payload ps" "m = begin_of lib task kind src c payload"
    and "chunks_right payload (plan_of m) chunks" "\<forall>j < length (plan_of m). chunks j \<noteq> None"
  shows "\<exists>reply s'. sink_end lib (tb_transfer_id m) (with_chunks m chunks s) = (Inr reply, s') \<and> received m ps payload s' \<and>
    same_elsewhere m s s' \<and> ts_staging s' (sanitize_transfer_id (tb_transfer_id m)) = None"
proof -
  have "\<forall>j < length (plan_chunks (tb_files m) c). chunks j = Some (chunk_data payload (plan_chunks (tb_files m) c ! j))"
    using assms(2-4) by (auto simp: chunks_right_def plan_of_def)
  then obtain fs where "assemble lib m chunks = Inr fs" "holds ps payload fs"
    using assemble_placed [of c payload ps m lib chunks] assms(1,2) by (auto simp: sendable_def)
  then show ?thesis by (simp add: sink_end_def Let_def received_def same_elsewhere_def) (simp add: with_chunks_def)
qed

definition no_limit :: "nat \<Rightarrow> nat \<Rightarrow> bool" where
  "no_limit limit total_size \<longleftrightarrow> limit = 0 \<or> total_size \<le> limit"

lemma begin_right:
  assumes "sendable lib task c payload ps" "m = begin_of lib task kind src c payload" "receiver_right m ps payload s"
    and "sink_begin m s = (reply, s1)"
  shows "(reply = BeginDedup \<and> s1 = s \<and> received m ps payload s) \<or>
    (reply = BeginOverLimit \<and> s1 = s \<and> \<not> no_limit (ts_max_bytes s) (tb_total_bytes m)) \<or>
    (\<exists>chunks have. reply = BeginOk have \<and> s1 = with_chunks m chunks s \<and> chunks_right payload (plan_of m) chunks \<and>
       (\<forall>j \<in> set have. chunks j \<noteq> None))"
proof -
  let ?k = "sanitize_transfer_id (tb_transfer_id m)"
  define chunks where "chunks = (case ts_staging s ?k of
      Some st \<Rightarrow> if tb_content_hash (sg_manifest st) = tb_content_hash m then sg_chunks st else Map.empty | None \<Rightarrow> Map.empty)"
  have right: "chunks_right payload (plan_of m) chunks"
    using assms(3) by (auto simp: chunks_def receiver_right_def chunks_right_def split: option.splits)
  have valid: "validate_manifest m = None" using valid_sendable [OF assms(1)] assms(2) by simp
  consider (limit) "\<not> no_limit (ts_max_bytes s) (tb_total_bytes m)"
    | (dedup) "no_limit (ts_max_bytes s) (tb_total_bytes m)" "ts_dedup s (tb_task_id m) = Some (tb_content_hash m)"
        "ts_inbox s (sanitize_path_segment (tb_task_id m)) \<noteq> None"
    | (new) "no_limit (ts_max_bytes s) (tb_total_bytes m)"
        "\<not> (ts_dedup s (tb_task_id m) = Some (tb_content_hash m) \<and> ts_inbox s (sanitize_path_segment (tb_task_id m)) \<noteq> None)"
    by blast
  then show ?thesis
  proof cases
    case limit
    then have "sink_begin m s = (BeginOverLimit, s)" by (auto simp: sink_begin_def no_limit_def)
    then show ?thesis using assms(4) limit by simp
  next
    case dedup
    then have "sink_begin m s = (BeginDedup, s)" using valid by (auto simp: sink_begin_def no_limit_def)
    moreover have "received m ps payload s" using assms(3) dedup by (simp add: receiver_right_def index_right_def)
    ultimately show ?thesis using assms(4) by simp
  next
    case new
    then have "sink_begin m s = (BeginOk (list_received_chunks chunks (tb_chunk_count m)), with_chunks m chunks s)"
      using valid unfolding sink_begin_def no_limit_def chunks_def with_chunks_def Let_def by auto
    moreover have "\<forall>j \<in> set (list_received_chunks chunks (tb_chunk_count m)). chunks j \<noteq> None"
      by (simp add: list_received_chunks_def)
    ultimately show ?thesis using assms(4) right by (intro disjI2) (auto simp del: not_None_eq)
  qed
qed

lemma with_chunks_right:
  "index_right m ps payload s \<Longrightarrow> chunks_right payload (plan_of m) chunks \<Longrightarrow> receiver_right m ps payload (with_chunks m chunks s)"
  by (simp add: receiver_right_def index_right_def received_def)

lemma received_right:
  "received m ps payload s \<Longrightarrow> ts_staging s (sanitize_transfer_id (tb_transfer_id m)) = None \<Longrightarrow> receiver_right m ps payload s"
  by (simp add: receiver_right_def index_right_def)

lemma push_right:
  assumes "sendable lib task c payload ps" "m = begin_of lib task kind src c payload" "receiver_right m ps payload s"
    and "push_transfer_dir lib task kind src c payload max_bytes fate s = (r, s')"
  shows "receiver_right m ps payload s' \<and> same_elsewhere m s s' \<and> (r = Inr Delivered \<longrightarrow> received m ps payload s') \<and>
    ((\<forall>n. fate n = Works) \<and> no_limit max_bytes (tb_total_bytes m) \<and> no_limit (ts_max_bytes s) (tb_total_bytes m) \<longrightarrow> r = Inr Delivered)"
proof -
  have ne: "payload \<noteq> []" using assms(1) by (simp add: sendable_def)
  obtain reply s1 where b: "sink_begin m s = (reply, s1)" by (cases "sink_begin m s")
  show ?thesis
  proof (cases "no_limit max_bytes (tb_total_bytes m)")
    case False
    then have "r = Inr (Overlimit (tb_total_bytes m) max_bytes)" "s' = s"
      using assms(2,4) ne by (auto simp: push_transfer_dir_def Let_def no_limit_def)
    then show ?thesis using assms(3) False by simp
  next
    case True
    then have push: "push_transfer_dir lib task kind src c payload max_bytes fate s =
        (case remote (fate 0) (sink_begin m) s of
           (None, s1) \<Rightarrow> (Inl CallFailed, s1)
         | (Some BeginDedup, s1) \<Rightarrow> (Inr Delivered, s1)
         | (Some BeginOverLimit, s1) \<Rightarrow> (Inr (Overlimit (tb_total_bytes m) 0), s1)
         | (Some (BeginError e), s1) \<Rightarrow> (Inl BeginRefused, s1)
         | (Some (BeginOk have), s1) \<Rightarrow>
             (case push_chunks lib (tb_transfer_id m) payload have fate 1 0 (plan_of m) s1 of
                (Inl e, s2) \<Rightarrow> (Inl e, s2)
              | (Inr n, s2) \<Rightarrow>
                  (case remote (fate n) (sink_end lib (tb_transfer_id m)) s2 of
                     (None, s3) \<Rightarrow> (Inl CallFailed, s3)
                   | (Some (Inl e), s3) \<Rightarrow> (Inl (EndRefused e), s3)
                   | (Some (Inr _), s3) \<Rightarrow> (Inr Delivered, s3))))"
      using ne assms(2) unfolding push_transfer_dir_def Let_def plan_of_def no_limit_def by auto
    have right1: "receiver_right m ps payload s1"
      using begin_right [OF assms(1-3) b] with_chunks_right assms(3) by (auto simp: receiver_right_def)
    have same1: "same_elsewhere m s s1" using begin_right [OF assms(1-3) b] by auto
    show ?thesis
    proof (cases "fate 0")
      case RequestLost
      then have "r = Inl CallFailed" "s' = s" "\<not> (\<forall>n. fate n = Works)"
        using push assms(4) by (auto simp: remote_def) (metis fate.distinct(1))
      then show ?thesis using assms(3) by simp
    next
      case ReplyLost
      then have "r = Inl CallFailed" "s' = s1" "\<not> (\<forall>n. fate n = Works)"
        using push assms(4) b by (auto simp: remote_def) (metis fate.distinct(3))
      then show ?thesis using right1 same1 by simp
    next
      case Works
      from begin_right [OF assms(1-3) b] consider
        (dedup) "reply = BeginDedup" "s1 = s" "received m ps payload s"
        | (limit) "reply = BeginOverLimit" "s1 = s" "\<not> no_limit (ts_max_bytes s) (tb_total_bytes m)"
        | (ok) chunks hv where "reply = BeginOk hv" "s1 = with_chunks m chunks s" "chunks_right payload (plan_of m) chunks"
            "\<forall>j \<in> set hv. chunks j \<noteq> None"
        by blast
      then show ?thesis
      proof cases
        case dedup
        then have "r = Inr Delivered" "s' = s" using push assms(4) b Works by (simp_all add: remote_def)
        then show ?thesis using dedup assms(3) by simp
      next
        case limit
        then have "r = Inr (Overlimit (tb_total_bytes m) 0)" "s' = s" using push assms(4) b Works by (simp_all add: remote_def)
        then show ?thesis using limit assms(3) by simp
      next
        case ok
        obtain q s2 where q0: "push_chunks lib (tb_transfer_id m) payload hv fate 1 0 (plan_of m) (with_chunks m chunks s) = (q, s2)"
          by (cases "push_chunks lib (tb_transfer_id m) payload hv fate 1 0 (plan_of m) (with_chunks m chunks s)")
        then have q: "push_chunks lib (tb_transfer_id m) payload hv fate 1 (length ([] :: (nat \<times> nat \<times> nat) list)) (plan_of m)
            (with_chunks m chunks s) = (q, s2)" by simp
        obtain chunks' where c': "s2 = with_chunks m chunks' s" "chunks_right payload (plan_of m) chunks'"
          "\<forall>n. q = Inr n \<longrightarrow> (\<forall>j < length (plan_of m). chunks' j \<noteq> None)" "(\<forall>n. fate n = Works) \<longrightarrow> (\<exists>n. q = Inr n)"
          using push_chunks_right [OF assms(1,2) _ ok(3) _ ok(4) q] by auto
        have right2: "receiver_right m ps payload s2"
        proof -
          have "index_right m ps payload s" using assms(3) by (simp add: receiver_right_def)
          from with_chunks_right [OF this c'(2)] show ?thesis using c'(1) by simp
        qed
        show ?thesis
        proof (cases q)
          case (Inl e)
          then have "r = Inl e" "s' = s2" using push assms(4) b Works ok(1,2) q0 by (simp_all add: remote_def)
          then show ?thesis using right2 c'(1,4) Inl by auto
        next
          case (Inr n)
          then obtain reply s3 where s3: "sink_end lib (tb_transfer_id m) s2 = (Inr reply, s3)" "received m ps payload s3"
            "same_elsewhere m s s3" "ts_staging s3 (sanitize_transfer_id (tb_transfer_id m)) = None"
            using sink_end_complete [OF assms(1,2) c'(2), of s] c'(1,3) by auto
          have r: "(r, s') = (case fate n of Works \<Rightarrow> (Inr Delivered, s3) | RequestLost \<Rightarrow> (Inl CallFailed, s2) | ReplyLost \<Rightarrow> (Inl CallFailed, s3))"
            using push assms(4) b Works ok(1,2) q0 Inr s3(1) by (cases "fate n") (simp_all add: remote_def)
          show ?thesis
          proof (cases "fate n")
            case Works
            then have "r = Inr Delivered" "s' = s3" using r by simp_all
            then show ?thesis using s3(2,3) received_right [OF s3(2,4)] by simp
          next
            case RequestLost
            then have "r = Inl CallFailed" "s' = s2" "\<not> (\<forall>n. fate n = Works)" using r by (simp_all, metis fate.distinct(1))
            then show ?thesis using right2 c'(1) by simp
          next
            case ReplyLost
            then have "r = Inl CallFailed" "s' = s3" "\<not> (\<forall>n. fate n = Works)" using r by (simp_all, metis fate.distinct(3))
            then show ?thesis using s3(3) received_right [OF s3(2,4)] by simp
          qed
        qed
      qed
    qed
  qed
qed

text \<open>
  What can happen between attempts to send a payload: an attempt that ends in any way, the sweep of old unfinished
  transfers, the removal of an archive by its owner, and another limit.
\<close>

inductive attempt :: "xfer_lib \<Rightarrow> str \<Rightarrow> str \<Rightarrow> str \<Rightarrow> nat \<Rightarrow> payload \<Rightarrow> nat \<Rightarrow> transfer_sink \<Rightarrow> transfer_sink \<Rightarrow> bool"
    for lib task kind src c payload max_bytes where
  Push: "attempt lib task kind src c payload max_bytes s (snd (push_transfer_dir lib task kind src c payload max_bytes fate s))"
| Sweep: "attempt lib task kind src c payload max_bytes s (sweep_stale_staging stale s)"
| Take: "attempt lib task kind src c payload max_bytes s (take_archive k s)"
| SetMax: "attempt lib task kind src c payload max_bytes s (set_max_bytes n s)"

lemma owner_right:
  assumes "receiver_right m ps payload s"
  shows "receiver_right m ps payload (sweep_stale_staging stale s)" "receiver_right m ps payload (take_archive k s)"
    "receiver_right m ps payload (set_max_bytes n s)"
  using assms by (auto simp: receiver_right_def index_right_def received_def sweep_stale_staging_def take_archive_def
    set_max_bytes_def split: if_splits)

lemma attempt_right:
  assumes "sendable lib task c payload ps" "receiver_right (begin_of lib task kind src c payload) ps payload s"
    "attempt lib task kind src c payload max_bytes s t"
  shows "receiver_right (begin_of lib task kind src c payload) ps payload t"
  using assms(3)
proof cases
  case (Push fate)
  then show ?thesis
    using push_right [OF assms(1) refl assms(2), of max_bytes fate]
    by (cases "push_transfer_dir lib task kind src c payload max_bytes fate s") simp
qed (use assms(2) in \<open>simp_all add: owner_right\<close>)

interpretation attempts: transition_invariant "\<lambda>s. sendable lib task c payload ps \<and> (\<exists>n. s = new_sink n)"
  "attempt lib task kind src c payload max_bytes"
  "\<lambda>s. sendable lib task c payload ps \<and> receiver_right (begin_of lib task kind src c payload) ps payload s"
proof
  show "sendable lib task c payload ps \<and> receiver_right (begin_of lib task kind src c payload) ps payload s"
    if "sendable lib task c payload ps \<and> (\<exists>n. s = new_sink n)" for s
    using that by (auto simp: new_sink_def receiver_right_def index_right_def)
qed (use attempt_right in blast)

text \<open>
  C35: Sending files loses nothing.  After any number of attempts, each interrupted at any call, with requests or replies lost, the
  receiver swept or its archive taken in between: an attempt that reports delivery leaves exactly the files of
  the payload in the receiver's inbox, whatever chunks it resumed from; and an attempt whose calls all work reports
  delivery, when the payload is within both limits.
\<close>

theorem interrupted_push_delivers:
  assumes "sendable lib task c payload ps" "rtranclp (attempt lib task kind src c payload max_bytes) (new_sink n) s"
    and "push_transfer_dir lib task kind src c payload max_bytes fate s = (r, s')"
  shows "(r = Inr Delivered \<longrightarrow> received (begin_of lib task kind src c payload) ps payload s') \<and>
    ((\<forall>i. fate i = Works) \<and> no_limit max_bytes (sum_list (map (\<lambda>x. length (snd x)) payload)) \<and>
       no_limit (ts_max_bytes s) (sum_list (map (\<lambda>x. length (snd x)) payload)) \<longrightarrow> r = Inr Delivered)"
proof -
  have "receiver_right (begin_of lib task kind src c payload) ps payload s"
    using attempts.reachable_inv [of lib task c payload ps "new_sink n" kind src max_bytes s] assms(1,2) by blast
  from push_right [OF assms(1) refl this assms(3)] show ?thesis by simp
qed

text \<open>A push is one of the uses of the receiving side.\<close>

lemma remote_is_use: "(\<And>s. sink_step lib s (snd (op s))) \<Longrightarrow> remote f op s = (r, s') \<Longrightarrow> rtranclp (sink_step lib) s s'"
  by (cases f; cases "op s") (auto simp: remote_def, (metis r_into_rtranclp snd_conv)+)

lemma push_chunks_is_use:
  "push_chunks lib i payload hv fate n seq plan s = (r, s') \<Longrightarrow> rtranclp (sink_step lib) s s'"
proof (induction plan arbitrary: n seq s)
  case (Cons c plan)
  obtain q s1 where q: "remote (fate n) (sink_chunk lib (chunk_of lib i payload seq c)) s = (q, s1)"
    by (cases "remote (fate n) (sink_chunk lib (chunk_of lib i payload seq c)) s")
  have "rtranclp (sink_step lib) s s1" by (rule remote_is_use [OF _ q]) (rule sink_step.Chunk)
  moreover have "rtranclp (sink_step lib) s1 s'" if "seq \<notin> set hv"
    using Cons.prems Cons.IH that q by (auto split: option.splits sum.splits)
  ultimately show ?case using Cons.prems Cons.IH by (cases "seq \<in> set hv") auto
qed simp

lemma push_is_use:
  "rtranclp (sink_step lib) s (snd (push_transfer_dir lib task kind src c payload max_bytes fate s))"
proof -
  let ?m = "begin_of lib task kind src c payload"
  obtain b s1 where b: "remote (fate 0) (sink_begin ?m) s = (b, s1)" by (cases "remote (fate 0) (sink_begin ?m) s")
  have u1: "rtranclp (sink_step lib) s s1" by (rule remote_is_use [OF _ b]) (rule sink_step.Begin)
  have u2: "rtranclp (sink_step lib) s s2" if "push_chunks lib i payload hv fate n seq plan s1 = (q, s2)" for i hv n seq plan q s2
    using u1 push_chunks_is_use [OF that] by (rule rtranclp_trans)
  have u3: "rtranclp (sink_step lib) s s3" if "push_chunks lib i payload hv fate n seq plan s1 = (q, s2)"
    "remote f (sink_end lib i') s2 = (e, s3)" for i hv n seq plan q s2 f i' e s3
    using u2 [OF that(1)] remote_is_use [OF _ that(2)] sink_step.End by (meson rtranclp_trans)
  show ?thesis using u1 u2 u3
    by (auto simp: push_transfer_dir_def Let_def b split: option.split begin_reply.split prod.split sum.split)
qed

subsection \<open>Collecting the files of a directory\<close>

text \<open>A directory with its entries in the order in which they are read; names contain no slash.\<close>

datatype dir_entry = FileNode str | DirNode "(str \<times> dir_entry) list" | LinkNode

definition last_segment :: "str \<Rightarrow> str" where
  "last_segment rel = last (split_on CHR ''/'' rel)"

definition is_noise_dir :: "str \<Rightarrow> bool" where
  "is_noise_dir rel \<longleftrightarrow> last_segment rel \<in> {''.git'', ''__pycache__'', ''node_modules'', ''.pytest_cache'', ''.mypy_cache'',
     ''.ruff_cache'', ''.tox'', ''.venv'', ''venv''}"

definition is_noise_file :: "str \<Rightarrow> bool" where
  "is_noise_file rel \<longleftrightarrow> last_segment rel \<in> {''.git'', ''.DS_Store'', ''Thumbs.db''} \<or>
     suffix ''.pyc'' (last_segment rel) \<or> suffix ''.pyo'' (last_segment rel)"

definition normalized :: "str \<Rightarrow> str" where
  "normalized rel = map (\<lambda>c. if c = BSLASH then CHR ''/'' else c) rel"

definition passes_fence :: "str \<Rightarrow> bool" where
  "passes_fence rel \<longleftrightarrow> (case safe_relative_path rel of Inl e \<Rightarrow> False | Inr p \<Rightarrow> True)"

fun walk_entry :: "str \<Rightarrow> dir_entry \<Rightarrow> payload" and walk_dir :: "str \<Rightarrow> (str \<times> dir_entry) list \<Rightarrow> payload" where
  "walk_entry rel (FileNode d) =
     (if passes_fence (normalized rel) \<and> \<not> is_noise_file (normalized rel) then [(normalized rel, d)] else [])"
| "walk_entry rel (DirNode es) =
     (if passes_fence (normalized rel) \<and> \<not> is_noise_dir (normalized rel) then walk_dir (rel @ ''/'') es else [])"
| "walk_entry rel LinkNode = []"
| "walk_dir pre [] = []"
| "walk_dir pre ((name, e) # es) = walk_entry (pre @ name) e @ walk_dir pre es"

definition collect_dir_files :: "(str \<times> dir_entry) list \<Rightarrow> payload" where
  "collect_dir_files es = sort_key fst (walk_dir [] es)"

subsection \<open>Examples\<close>

definition example_lib :: xfer_lib where
  "example_lib = \<lparr>xl_sha = (\<lambda>s. replicate 64 CHR ''a''), xl_b64_encode = id, xl_b64_decode = Some\<rparr>"

definition example_dir :: "(str \<times> dir_entry) list" where
  "example_dir = [(''src'', DirNode [(''m.pyc'', FileNode ''x''), (''m.py'', FileNode ''run'')]), (''log'', FileNode []),
     (''.git'', DirNode [(''HEAD'', FileNode ''ref'')])]"

lemma example_files: "collect_dir_files example_dir = [(''log'', []), (''src/m.py'', ''run'')]"
  by code_simp

lemma example_sendable: "sendable example_lib ''t1'' 4096 (collect_dir_files example_dir) [[''log''], [''src'', ''m.py'']]"
proof -
  have "safe_relative_path ''log'' = Inr [''log'']" "safe_relative_path ''src/m.py'' = Inr [''src'', ''m.py'']" by code_simp+
  then show ?thesis unfolding example_files
    by (simp add: sendable_def placed_def base64_documented_def example_lib_def MAX_U64_def)
qed

theorem interrupted_push_delivers_witness:
  "\<exists>s. push_transfer_dir example_lib ''t1'' ''execution_records'' ''w'' 4096 (collect_dir_files example_dir) 0 (\<lambda>i. Works) (new_sink 100) =
     (Inr Delivered, s)"
proof -
  let ?p = "push_transfer_dir example_lib ''t1'' ''execution_records'' ''w'' 4096 (collect_dir_files example_dir) 0 (\<lambda>i. Works) (new_sink 100)"
  obtain r s where p: "?p = (r, s)" by (cases ?p)
  have "r = Inr Delivered"
    using interrupted_push_delivers [OF example_sendable rtranclp.rtrancl_refl p]
    unfolding example_files by (simp add: no_limit_def new_sink_def)
  then show ?thesis using p by blast
qed

lemma example_delivered:
  "\<exists>s. push_transfer_dir example_lib ''t1'' ''execution_records'' ''w'' 4096 (collect_dir_files example_dir) 0 (\<lambda>i. Works) (new_sink 100) =
     (Inr Delivered, s) \<and> received (begin_of example_lib ''t1'' ''execution_records'' ''w'' 4096 (collect_dir_files example_dir))
       [[''log''], [''src'', ''m.py'']] (collect_dir_files example_dir) s"
proof -
  let ?m = "begin_of example_lib ''t1'' ''execution_records'' ''w'' 4096 (collect_dir_files example_dir)"
  let ?p = "push_transfer_dir example_lib ''t1'' ''execution_records'' ''w'' 4096 (collect_dir_files example_dir) 0 (\<lambda>i. Works) (new_sink 100)"
  obtain r s where p: "?p = (r, s)" by (cases ?p)
  have "receiver_right ?m [[''log''], [''src'', ''m.py'']] (collect_dir_files example_dir) (new_sink 100)"
    by (simp add: receiver_right_def index_right_def new_sink_def)
  from push_right [OF example_sendable refl this p]
  have "(r = Inr Delivered \<longrightarrow> received ?m [[''log''], [''src'', ''m.py'']] (collect_dir_files example_dir) s) \<and> r = Inr Delivered"
    unfolding example_files by (simp add: no_limit_def new_sink_def)
  then show ?thesis using p by blast
qed

theorem landed_is_verified_witness:
  "\<exists>(s :: transfer_sink) k (a :: archive). ts_inbox s k = Some a \<and> matches_manifest example_lib (ar_manifest a) (ar_files a) \<and>
     k = sanitize_path_segment (tb_task_id (ar_manifest a))"
proof -
  obtain s where s: "push_transfer_dir example_lib ''t1'' ''execution_records'' ''w'' 4096 (collect_dir_files example_dir) 0 (\<lambda>i. Works)
      (new_sink 100) = (Inr Delivered, s)"
    "received (begin_of example_lib ''t1'' ''execution_records'' ''w'' 4096 (collect_dir_files example_dir))
       [[''log''], [''src'', ''m.py'']] (collect_dir_files example_dir) s"
    using example_delivered by blast
  then obtain k a where a: "ts_inbox s k = Some a" by (auto simp: received_def)
  have "rtranclp (sink_step example_lib) (new_sink 100) s"
    using push_is_use [of example_lib "new_sink 100" "''t1''" "''execution_records''" "''w''" 4096 "collect_dir_files example_dir" 0 "\<lambda>i. Works"] s(1)
    by simp
  from landed_is_verified [OF this a] a show ?thesis by (intro exI [of _ s] exI [of _ k] exI [of _ a]) simp
qed

theorem chunk_count_is_plan_length_witness:
  "chunk_count (entries_of example_lib [(''a'', ''hello''), (''b'', [])]) 2 = min (length (plan_chunks (entries_of example_lib [(''a'', ''hello''), (''b'', [])]) 2)) MAX_U64"
  by (rule chunk_count_is_plan_length) simp

end
