(* ===== verification/Outbox.thy ===== *)
theory Outbox
  imports FileTransfer
begin

text \<open>
  The outbox of a node that executed a task for another one (nemesis-cluster: outbox.rs): records of the execution
  wait there until the other node has confirmed that it stored them.

  The state of the outbox is on disk, one directory per entry; here an association list from the name of the directory to the
  entry and its payload, in the order in which the directories are read.  The four states, texts in the file, are
  constructors.  Instants are integers, in nanoseconds; a round reads the clock once.  Reading and writing the files
  of the outbox does not fail.
\<close>

subsection \<open>Entries\<close>

datatype entry_state = Pending | Pushing | OverLimit | Dead

datatype entry_note = PushFailed push_error | LimitExceeded nat nat | RestartedWhilePushing | Rearmed

record outbox_entry =
  oe_task_id :: str
  oe_source_node :: str
  oe_state :: entry_state
  oe_created_at :: int
  oe_attempts :: "32 word"
  oe_total_bytes :: nat
  oe_last_error :: "entry_note option"
  oe_next_retry_at :: "int option"

type_synonym dir_listing = "(str \<times> dir_entry) list"

type_synonym outbox = "(str \<times> outbox_entry \<times> dir_listing) list"

definition PUSH_BACKOFF_BASE_SECS :: nat where "PUSH_BACKOFF_BASE_SECS = 15"
definition PUSH_BACKOFF_CAP_SECS :: nat where "PUSH_BACKOFF_CAP_SECS = 600"
definition DEAD_LETTER_AGE_SECS :: int where "DEAD_LETTER_AGE_SECS = 7 * 24 * 3600"
definition DEAD_LETTER_MAX_ATTEMPTS :: "32 word" where "DEAD_LETTER_MAX_ATTEMPTS = 1000"

definition SECOND :: int where "SECOND = 1000000000"

definition push_backoff_secs :: "32 word \<Rightarrow> nat" where
  "push_backoff_secs attempts =
     (let shift = min (unat attempts - 1) 6
      in min (min (PUSH_BACKOFF_BASE_SECS * 2 ^ shift) MAX_U64) PUSH_BACKOFF_CAP_SECS)"

text \<open>Whole seconds, cut off towards zero.\<close>

definition entry_age_secs :: "int \<Rightarrow> outbox_entry \<Rightarrow> int" where
  "entry_age_secs now e =
     (if oe_created_at e \<le> now then (now - oe_created_at e) div SECOND else - ((oe_created_at e - now) div SECOND))"

definition dead_letter_age_due :: "int \<Rightarrow> outbox_entry \<Rightarrow> bool" where
  "dead_letter_age_due now e \<longleftrightarrow> entry_age_secs now e \<ge> DEAD_LETTER_AGE_SECS"

definition attempts_succ :: "32 word \<Rightarrow> 32 word" where
  "attempts_succ n = (if n = - 1 then n else n + 1)"

subsection \<open>Putting records into the outbox\<close>

datatype enqueue_error = NoIds | NoChangesetManifest | NoRecords

definition TASK_DIR_TS_PREFIX :: nat where "TASK_DIR_TS_PREFIX = 24"

definition task_dir_matches :: "str \<Rightarrow> str \<Rightarrow> bool" where
  "task_dir_matches dir_name task_id \<longleftrightarrow>
     suffix (CHR ''_'' # task_id) dir_name \<or> suffix (CHR ''_'' # sanitize_transfer_id task_id) dir_name"

definition derive_task_id_from_dir :: "str \<Rightarrow> str option" where
  "derive_task_id_from_dir dir_name =
     (if length dir_name > TASK_DIR_TS_PREFIX \<and> dir_name ! (TASK_DIR_TS_PREFIX - 1) = CHR ''_''
      then Some (drop TASK_DIR_TS_PREFIX dir_name) else None)"

text \<open>The logs: directories of devices with directories of tasks.  Of several that match a task the last by name is taken.\<close>

type_synonym logs = "(str \<times> (str \<times> dir_listing) list) list"

definition find_task_dir :: "logs \<Rightarrow> str \<Rightarrow> str \<Rightarrow> dir_listing option" where
  "find_task_dir logs source_node task_id =
     (case map_of logs (sanitize_transfer_id source_node) of
        None \<Rightarrow> None
      | Some tasks \<Rightarrow>
          map_option snd
            (foldl (\<lambda>best t. if task_dir_matches (fst t) task_id
                             then (case best of None \<Rightarrow> Some t | Some b \<Rightarrow> if fst b < fst t then Some t else Some b)
                             else best) None tasks))"

definition entry_dir :: "str \<Rightarrow> str" where
  "entry_dir task_id = sanitize_transfer_id task_id"

definition total_bytes :: "dir_listing \<Rightarrow> nat" where
  "total_bytes es = sum_list (map (\<lambda>x. length (snd x)) (collect_dir_files es))"

definition new_outbox_entry :: "int \<Rightarrow> str \<Rightarrow> str \<Rightarrow> dir_listing \<Rightarrow> outbox_entry" where
  "new_outbox_entry now task_id source_node files =
     \<lparr>oe_task_id = task_id, oe_source_node = source_node, oe_state = Pending, oe_created_at = now, oe_attempts = 0,
      oe_total_bytes = total_bytes files, oe_last_error = None, oe_next_retry_at = None\<rparr>"

definition enqueue_with_changeset ::
    "int \<Rightarrow> logs \<Rightarrow> str \<Rightarrow> str \<Rightarrow> dir_listing option \<Rightarrow> outbox \<Rightarrow> (enqueue_error + unit) \<times> outbox" where
  "enqueue_with_changeset now logs task_id source_node changeset ob =
     (if task_id = [] \<or> source_node = [] then (Inl NoIds, ob)
      else if (case changeset of Some cs \<Rightarrow> map_of cs ''changeset.json'' = None | None \<Rightarrow> False) then (Inl NoChangesetManifest, ob)
      else if map_of ob (entry_dir task_id) \<noteq> None then (Inr (), ob)
      else case find_task_dir logs source_node task_id of
             None \<Rightarrow> (Inl NoRecords, ob)
           | Some src \<Rightarrow>
               (let files = src @ (case changeset of Some cs \<Rightarrow> [(''changeset'', DirNode cs)] | None \<Rightarrow> [])
                in (Inr (), AList.update (entry_dir task_id) (new_outbox_entry now task_id source_node files, files) ob)))"

definition enqueue :: "int \<Rightarrow> logs \<Rightarrow> str \<Rightarrow> str \<Rightarrow> outbox \<Rightarrow> (enqueue_error + unit) \<times> outbox" where
  "enqueue now logs task_id source_node = enqueue_with_changeset now logs task_id source_node None"

datatype pull_reply = Queued | NoArchive

definition request_pull :: "int \<Rightarrow> logs \<Rightarrow> str \<Rightarrow> outbox \<Rightarrow> pull_reply \<times> outbox" where
  "request_pull now logs task_id ob =
     (if task_id = [] then (NoArchive, ob)
      else case find (\<lambda>dev. list_ex (\<lambda>t. task_dir_matches (fst t) task_id) (snd dev)) logs of
             None \<Rightarrow> (NoArchive, ob)
           | Some dev \<Rightarrow>
               (case enqueue now logs task_id (fst dev) ob of
                  (Inr _, ob') \<Rightarrow> (Queued, ob') | (Inl _, ob') \<Rightarrow> (NoArchive, ob')))"

subsection \<open>Starting up\<close>

definition write_entry :: "str \<Rightarrow> outbox_entry \<Rightarrow> outbox \<Rightarrow> outbox" where
  "write_entry k e ob = (case map_of ob k of Some (_, files) \<Rightarrow> AList.update k (e, files) ob | None \<Rightarrow> ob)"

definition list_entries :: "outbox \<Rightarrow> (str \<times> outbox_entry \<times> dir_listing) list" where
  "list_entries ob = sort_key (\<lambda>(k, e, files). oe_created_at e) ob"

definition rearm :: "nat \<Rightarrow> outbox_entry \<Rightarrow> outbox_entry option" where
  "rearm limit e =
     (case oe_state e of
        Pushing \<Rightarrow> Some (e\<lparr>oe_last_error := Some RestartedWhilePushing, oe_state := Pending\<rparr>)
      | OverLimit \<Rightarrow>
          if limit = 0 \<or> oe_total_bytes e \<le> limit then Some (e\<lparr>oe_last_error := Some Rearmed, oe_state := Pending\<rparr>) else None
      | _ \<Rightarrow> None)"

definition rearm_entries :: "nat \<Rightarrow> outbox \<Rightarrow> outbox" where
  "rearm_entries limit ob =
     fold (\<lambda>(k, e, files) ob. case rearm limit e of Some e' \<Rightarrow> write_entry k e' ob | None \<Rightarrow> ob) (list_entries ob) ob"

text \<open>Which directories are too old to be queued again depends on the date in their name and is an argument.\<close>

definition backfill_dir :: "int \<Rightarrow> logs \<Rightarrow> (str \<Rightarrow> bool) \<Rightarrow> str \<Rightarrow> str \<times> dir_listing \<Rightarrow> outbox \<Rightarrow> outbox" where
  "backfill_dir now logs too_old dev t ob =
     (case derive_task_id_from_dir (fst t) of
        None \<Rightarrow> ob
      | Some task_id \<Rightarrow>
          if too_old (fst t) then ob
          else if map_of ob (entry_dir task_id) \<noteq> None then ob
          else snd (enqueue now logs task_id dev ob))"

definition sweep_startup :: "int \<Rightarrow> nat \<Rightarrow> logs \<Rightarrow> (str \<Rightarrow> bool) \<Rightarrow> outbox \<Rightarrow> outbox" where
  "sweep_startup now limit logs too_old ob =
     fold (\<lambda>dev ob. if fst dev = ''_unknown'' then ob else fold (backfill_dir now logs too_old (fst dev)) (snd dev) ob)
       logs (rearm_entries limit ob)"

subsection \<open>Pushing\<close>

datatype push_outcome = EntryDelivered | EntryEmpty | EntryOverlimit

text \<open>One attempt; the rounds below are stated for any kind of attempt on any state of the other node.\<close>

definition attempt_push :: "xfer_lib \<Rightarrow> nat \<Rightarrow> str \<Rightarrow> nat \<Rightarrow> (nat \<Rightarrow> fate) \<Rightarrow> outbox_entry \<Rightarrow> dir_listing \<Rightarrow> transfer_sink \<Rightarrow>
    (push_error + push_outcome) \<times> transfer_sink" where
  "attempt_push lib c self_node limit fate e files s =
     (case push_transfer_dir lib (oe_task_id e) ''execution_records'' self_node c (collect_dir_files files) limit fate s of
        (Inl err, s') \<Rightarrow> (Inl err, s')
      | (Inr Delivered, s') \<Rightarrow> (Inr EntryDelivered, s')
      | (Inr NothingToSend, s') \<Rightarrow> (Inr EntryEmpty, s')
      | (Inr (Overlimit size_sent _), s') \<Rightarrow>
          (Inr EntryOverlimit,
           snd (remote (fate 1)
                  (\<lambda>s. ((), note_overlimit \<lparr>ol_task_id = oe_task_id e, ol_source_node = self_node, ol_total_bytes = size_sent,
                              ol_limit = limit, ol_kind = ''execution_records''\<rparr> s)) s')))"

definition process_entry :: "int \<Rightarrow> (str \<Rightarrow> bool) \<Rightarrow> nat \<Rightarrow>
    (outbox_entry \<Rightarrow> dir_listing \<Rightarrow> 'w \<Rightarrow> (push_error + push_outcome) \<times> 'w) \<Rightarrow>
    str \<times> outbox_entry \<times> dir_listing \<Rightarrow> outbox \<times> 'w \<Rightarrow> outbox \<times> 'w" where
  "process_entry now online limit push x st =
     (case (x, st) of ((k, e, files), (ob, w)) \<Rightarrow>
        if oe_state e \<noteq> Pending then (ob, w)
        else if oe_attempts e \<ge> DEAD_LETTER_MAX_ATTEMPTS \<or> dead_letter_age_due now e
        then (write_entry k (e\<lparr>oe_state := Dead, oe_next_retry_at := None\<rparr>) ob, w)
        else if (case oe_next_retry_at e of Some t \<Rightarrow> now < t | None \<Rightarrow> False) then (ob, w)
        else if \<not> online (oe_source_node e) then (ob, w)
        else (case push (e\<lparr>oe_state := Pushing\<rparr>) files w of
                (Inr EntryOverlimit, w') \<Rightarrow>
                  (write_entry k (e\<lparr>oe_state := OverLimit, oe_last_error := Some (LimitExceeded (oe_total_bytes e) limit)\<rparr>) ob, w')
              | (Inr _, w') \<Rightarrow> (AList.delete k ob, w')
              | (Inl err, w') \<Rightarrow>
                  (let n = attempts_succ (oe_attempts e)
                   in (write_entry k (e\<lparr>oe_state := Pending, oe_attempts := n, oe_last_error := Some (PushFailed err),
                         oe_next_retry_at := Some (now + int (push_backoff_secs n) * SECOND)\<rparr>) ob, w'))))"

definition process_once :: "int \<Rightarrow> (str \<Rightarrow> bool) \<Rightarrow> nat \<Rightarrow>
    (outbox_entry \<Rightarrow> dir_listing \<Rightarrow> 'w \<Rightarrow> (push_error + push_outcome) \<times> 'w) \<Rightarrow> outbox \<times> 'w \<Rightarrow> outbox \<times> 'w" where
  "process_once now online limit push st =
     fold (process_entry now online limit push) (list_entries (fst st)) st"

subsection \<open>Dead letters\<close>

datatype replay_error = NoEntry | NotDead entry_state

definition list_dead_letter_entries :: "outbox \<Rightarrow> outbox_entry list" where
  "list_dead_letter_entries ob = sort_key oe_created_at (filter (\<lambda>e. oe_state e = Dead) (map (fst \<circ> snd) ob))"

definition replay_dead_letter_entry :: "int \<Rightarrow> str \<Rightarrow> outbox \<Rightarrow> (replay_error + outbox_entry) \<times> outbox" where
  "replay_dead_letter_entry now task_id ob =
     (case map_of ob (entry_dir task_id) of
        None \<Rightarrow> (Inl NoEntry, ob)
      | Some (e, files) \<Rightarrow>
          if oe_state e \<noteq> Dead then (Inl (NotDead (oe_state e)), ob)
          else (let e' = e\<lparr>oe_state := Pending, oe_attempts := 0, oe_next_retry_at := None, oe_last_error := None, oe_created_at := now\<rparr>
                in (Inr e', write_entry (entry_dir task_id) e' ob)))"

subsection \<open>Waiting between attempts\<close>

text \<open>
  The pause after a failure doubles from fifteen seconds on, and is never longer than ten minutes: it is the smaller of
  ten minutes and fifteen seconds times a power of two, although the shift itself is cut off at six.
\<close>

theorem backoff_doubles:
  assumes "0 < unat attempts"
  shows "push_backoff_secs attempts = min (15 * 2 ^ (unat attempts - 1)) 600 \<and>
    15 \<le> push_backoff_secs attempts \<and> push_backoff_secs attempts \<le> 600"
proof -
  have cut: "min (15 * 2 ^ min k 6) (600 :: nat) = min (15 * 2 ^ k) 600" for k :: nat
  proof (cases "k \<le> 6")
    case False
    then have "(2 :: nat) ^ 6 \<le> 2 ^ k" by (intro power_increasing) auto
    then show ?thesis using False by simp
  qed simp
  have small: "min (min (15 * 2 ^ min k 6) MAX_U64) (600 :: nat) = min (15 * 2 ^ min k 6) 600" for k :: nat
    by (simp add: MAX_U64_def)
  have "push_backoff_secs attempts = min (15 * 2 ^ (unat attempts - 1)) 600"
    by (simp only: push_backoff_secs_def PUSH_BACKOFF_BASE_SECS_def PUSH_BACKOFF_CAP_SECS_def Let_def small cut)
  then show ?thesis by simp
qed

subsection \<open>Lemmas: transfers of different tasks\<close>

definition entry_begin :: "xfer_lib \<Rightarrow> nat \<Rightarrow> str \<Rightarrow> str \<Rightarrow> dir_listing \<Rightarrow> transfer_begin" where
  "entry_begin lib c self_node task files = begin_of lib task ''execution_records'' self_node c (collect_dir_files files)"

definition separate :: "transfer_begin \<Rightarrow> transfer_begin \<Rightarrow> bool" where
  "separate m m' \<longleftrightarrow>
     sanitize_transfer_id (tb_transfer_id m) \<noteq> sanitize_transfer_id (tb_transfer_id m') \<and>
     sanitize_path_segment (tb_task_id m) \<noteq> sanitize_path_segment (tb_task_id m')"

lemma separate_right:
  assumes "separate m m'" "same_elsewhere m' s t"
  shows "receiver_right m ps payload t = receiver_right m ps payload s" "received m ps payload t = received m ps payload s"
proof -
  have "tb_task_id m \<noteq> tb_task_id m'" using assms(1) by (auto simp: separate_def)
  then show "receiver_right m ps payload t = receiver_right m ps payload s" "received m ps payload t = received m ps payload s"
    using assms by (simp_all add: separate_def same_elsewhere_def receiver_right_def index_right_def received_def)
qed

text \<open>Another message about a limit changes nothing that matters here.\<close>

lemma note_right [simp]:
  "receiver_right m ps payload (note_overlimit q s) = receiver_right m ps payload s"
  "received m ps payload (note_overlimit q s) = received m ps payload s"
  "same_elsewhere m t (note_overlimit q s) = same_elsewhere m t s"
  by (simp_all add: note_overlimit_def receiver_right_def index_right_def received_def same_elsewhere_def)

lemma attempt_push_right:
  assumes "sendable lib (oe_task_id e) c (collect_dir_files files) ps" "m = entry_begin lib c self_node (oe_task_id e) files"
    "receiver_right m ps (collect_dir_files files) s" "attempt_push lib c self_node limit fate e files s = (r, s')"
  shows "receiver_right m ps (collect_dir_files files) s' \<and> same_elsewhere m s s' \<and>
    (r = Inr EntryDelivered \<or> r = Inr EntryEmpty \<longrightarrow> received m ps (collect_dir_files files) s')"
proof -
  obtain q s1 where q: "push_transfer_dir lib (oe_task_id e) ''execution_records'' self_node c (collect_dir_files files) limit fate s = (q, s1)"
    by (cases "push_transfer_dir lib (oe_task_id e) ''execution_records'' self_node c (collect_dir_files files) limit fate s")
  have p: "receiver_right m ps (collect_dir_files files) s1 \<and> same_elsewhere m s s1 \<and> (q = Inr Delivered \<longrightarrow> received m ps (collect_dir_files files) s1)"
    using push_right [OF assms(1) assms(2) [unfolded entry_begin_def] assms(3) q] by blast
  have "q \<noteq> Inr NothingToSend"
  proof
    assume "q = Inr NothingToSend"
    moreover have "collect_dir_files files \<noteq> []" using assms(1) by (simp add: sendable_def)
    ultimately show False using q
      by (auto simp: push_transfer_dir_def Let_def split: if_splits option.splits begin_reply.splits prod.splits sum.splits)
  qed
  then consider (err) x where "q = Inl x" | (sent) "q = Inr Delivered" | (over) a b where "q = Inr (Overlimit a b)"
    by (metis old.sum.exhaust push_dir_outcome.exhaust)
  then show ?thesis
  proof cases
    case over
    then obtain f note_sent where "r = Inr EntryOverlimit" "s' = snd (remote f (\<lambda>s. ((), note_overlimit note_sent s)) s1)"
      using assms(4) q by (auto simp: attempt_push_def)
    then show ?thesis using p by (cases f) (simp_all add: remote_def)
  qed (use assms(4) q p in \<open>auto simp: attempt_push_def\<close>)
qed

subsection \<open>Lemmas: rounds\<close>

text \<open>
  The entries of an outbox: one directory each, named after the task; every payload can be sent, and the transfers of
  different entries have different directories at the receiver.  The places of the files of a payload are given by
  \<open>places\<close>.
\<close>

definition outbox_ok :: "xfer_lib \<Rightarrow> nat \<Rightarrow> str \<Rightarrow> (str \<Rightarrow> str list list) \<Rightarrow> outbox \<Rightarrow> bool" where
  "outbox_ok lib c self_node places ob \<longleftrightarrow>
     (\<forall>k e files. map_of ob k = Some (e, files) \<longrightarrow>
        k = entry_dir (oe_task_id e) \<and> sendable lib (oe_task_id e) c (collect_dir_files files) (places k)) \<and>
     (\<forall>k k' e e' files files'. map_of ob k = Some (e, files) \<and> map_of ob k' = Some (e', files') \<and> k \<noteq> k' \<longrightarrow>
        separate (entry_begin lib c self_node (oe_task_id e) files) (entry_begin lib c self_node (oe_task_id e') files'))"

definition receives :: "xfer_lib \<Rightarrow> nat \<Rightarrow> str \<Rightarrow> (str \<Rightarrow> str list list) \<Rightarrow> outbox \<Rightarrow> transfer_sink \<Rightarrow> bool" where
  "receives lib c self_node places ob s \<longleftrightarrow>
     (\<forall>k e files. map_of ob k = Some (e, files) \<longrightarrow>
        receiver_right (entry_begin lib c self_node (oe_task_id e) files) (places k) (collect_dir_files files) s)"

definition same_entry :: "outbox_entry \<Rightarrow> outbox_entry \<Rightarrow> bool" where
  "same_entry e e' \<longleftrightarrow> oe_task_id e = oe_task_id e' \<and> oe_source_node e = oe_source_node e'"

text \<open>What has become of an outbox: its entries are still there, or their files have been received.\<close>

definition kept_or_received :: "xfer_lib \<Rightarrow> nat \<Rightarrow> str \<Rightarrow> (str \<Rightarrow> str list list) \<Rightarrow> outbox \<Rightarrow> outbox \<times> transfer_sink \<Rightarrow> bool" where
  "kept_or_received lib c self_node places orig st \<longleftrightarrow>
     (\<forall>k e files. map_of orig k = Some (e, files) \<longrightarrow>
        (case map_of (fst st) k of
           Some (e', files') \<Rightarrow> files' = files \<and> same_entry e' e
         | None \<Rightarrow> received (entry_begin lib c self_node (oe_task_id e) files) (places k) (collect_dir_files files) (snd st))) \<and>
     (\<forall>k. map_of orig k = None \<longrightarrow> map_of (fst st) k = None) \<and> receives lib c self_node places orig (snd st)"

lemma kept_case:
  "kept_or_received lib c self_node places orig (ob, s) \<Longrightarrow> map_of orig k = Some (e, files) \<Longrightarrow>
     (case map_of ob k of
        Some (e', files') \<Rightarrow> files' = files \<and> same_entry e' e
      | None \<Rightarrow> received (entry_begin lib c self_node (oe_task_id e) files) (places k) (collect_dir_files files) s)"
  unfolding kept_or_received_def fst_conv snd_conv by blast

lemma map_write_entry:
  "map_of (write_entry k e ob) j = (if j = k then map_option (\<lambda>(_, files). (e, files)) (map_of ob k) else map_of ob j)"
  by (auto simp: write_entry_def update_conv' split: option.splits)

abbreviation sink_push :: "xfer_lib \<Rightarrow> nat \<Rightarrow> str \<Rightarrow> nat \<Rightarrow> (str \<Rightarrow> nat \<Rightarrow> fate) \<Rightarrow> outbox_entry \<Rightarrow> dir_listing \<Rightarrow> transfer_sink \<Rightarrow>
    (push_error + push_outcome) \<times> transfer_sink" where
  "sink_push lib c self_node limit fates \<equiv> \<lambda>e files s. attempt_push lib c self_node limit (fates (oe_task_id e)) e files s"

text \<open>An entry is written with its identity, or its files have been received and it is removed.\<close>

lemma process_entry_cases:
  assumes "map_of ob k = Some (e, files)" "sendable lib (oe_task_id e) c (collect_dir_files files) ps"
    "m = entry_begin lib c self_node (oe_task_id e) files" "receiver_right m ps (collect_dir_files files) s"
    "process_entry now online limit (sink_push lib c self_node limit fates) (k, e, files) (ob, s) = (ob', s')"
  shows "same_elsewhere m s s' \<and> receiver_right m ps (collect_dir_files files) s' \<and>
    ((\<exists>e'. map_of ob' = (map_of ob)(k \<mapsto> (e', files)) \<and> same_entry e' e) \<or>
     map_of ob' = (map_of ob)(k := None) \<and> received m ps (collect_dir_files files) s')"
proof -
  let ?push = "sink_push lib c self_node limit fates (e\<lparr>oe_state := Pushing\<rparr>) files s"
  obtain r w where r: "?push = (r, w)" by (cases ?push)
  have att: "receiver_right m ps (collect_dir_files files) w \<and> same_elsewhere m s w \<and>
      (r = Inr EntryDelivered \<or> r = Inr EntryEmpty \<longrightarrow> received m ps (collect_dir_files files) w)"
    using attempt_push_right [of lib "e\<lparr>oe_state := Pushing\<rparr>" c files ps m self_node s limit "fates (oe_task_id e)" r w] assms(2-4) r
    by simp
  have written: "map_of (write_entry k e' ob) = (map_of ob)(k \<mapsto> (e', files))" for e'
    using assms(1) by (auto simp: map_write_entry)
  have kept: "map_of ob = (map_of ob)(k \<mapsto> (e, files))" using assms(1) by (simp add: fun_upd_idem)
  have same: "same_entry (e\<lparr>oe_state := a, oe_next_retry_at := b\<rparr>) e" "same_entry (e\<lparr>oe_state := a, oe_last_error := d\<rparr>) e"
    "same_entry (e\<lparr>oe_state := a, oe_attempts := n, oe_last_error := d, oe_next_retry_at := b\<rparr>) e" "same_entry e e" for a b d n
    by (simp_all add: same_entry_def)
  consider (rest) "s' = s" "ob' = ob" | (dead) "s' = s" "ob' = write_entry k (e\<lparr>oe_state := Dead, oe_next_retry_at := None\<rparr>) ob"
    | (over) a where "s' = w" "ob' = write_entry k (e\<lparr>oe_state := OverLimit, oe_last_error := a\<rparr>) ob"
    | (failed) a b n where "s' = w" "ob' = write_entry k (e\<lparr>oe_state := Pending, oe_attempts := n, oe_last_error := a, oe_next_retry_at := b\<rparr>) ob"
    | (sent) "s' = w" "ob' = AList.delete k ob" "r = Inr EntryDelivered \<or> r = Inr EntryEmpty"
    using assms(5) r by (auto simp: process_entry_def Let_def split: if_splits sum.splits push_outcome.splits)
  then show ?thesis
  proof cases
    case sent
    then show ?thesis using att by (simp add: delete_conv')
  qed (use assms(4) att kept written same in \<open>auto simp: same_elsewhere_refl\<close>)
qed

lemma process_entry_keeps:
  assumes "outbox_ok lib c self_node places orig" "kept_or_received lib c self_node places orig (ob, s)"
    "map_of ob k = Some (e, files)"
    "process_entry now online limit (sink_push lib c self_node limit fates) (k, e, files) (ob, s) = (ob', s')"
  shows "kept_or_received lib c self_node places orig (ob', s') \<and> (\<forall>j. j \<noteq> k \<longrightarrow> map_of ob' j = map_of ob j)"
proof -
  have "map_of orig k \<noteq> None"
  proof
    assume "map_of orig k = None"
    then have "map_of ob k = None" using assms(2) by (simp add: kept_or_received_def)
    then show False using assms(3) by simp
  qed
  then obtain e0 files0 where "map_of orig k = Some (e0, files0)" by auto
  moreover from kept_case [OF assms(2) this] have "files = files0 \<and> same_entry e e0" using assms(3) by simp
  ultimately have o: "map_of orig k = Some (e0, files)" "same_entry e e0" by auto
  let ?m = "entry_begin lib c self_node (oe_task_id e) files"
  have t: "oe_task_id e = oe_task_id e0" using o(2) by (simp add: same_entry_def)
  have "sendable lib (oe_task_id e) c (collect_dir_files files) (places k)" using assms(1) o(1) t by (auto simp: outbox_ok_def)
  moreover have "receiver_right ?m (places k) (collect_dir_files files) s"
    using assms(2) o(1) t by (auto simp: kept_or_received_def receives_def)
  ultimately have p: "same_elsewhere ?m s s'" "receiver_right ?m (places k) (collect_dir_files files) s'"
    "(\<exists>e'. map_of ob' = (map_of ob)(k \<mapsto> (e', files)) \<and> same_entry e' e) \<or>
     map_of ob' = (map_of ob)(k := None) \<and> received ?m (places k) (collect_dir_files files) s'"
    using process_entry_cases [OF assms(3) _ refl _ assms(4)] by blast+
  have others: "map_of ob' j = map_of ob j" if "j \<noteq> k" for j using p(3) that by auto
  have rr: "receiver_right (entry_begin lib c self_node (oe_task_id e1) files1) (places j) (collect_dir_files files1) s'"
    "received (entry_begin lib c self_node (oe_task_id e1) files1) (places j) (collect_dir_files files1) s' =
       received (entry_begin lib c self_node (oe_task_id e1) files1) (places j) (collect_dir_files files1) s"
    if "map_of orig j = Some (e1, files1)" "j \<noteq> k" for j e1 files1
  proof -
    have "separate (entry_begin lib c self_node (oe_task_id e1) files1) ?m" using assms(1) that o(1) t by (auto simp: outbox_ok_def)
    from separate_right [OF this p(1)] assms(2) that(1)
    show "receiver_right (entry_begin lib c self_node (oe_task_id e1) files1) (places j) (collect_dir_files files1) s'"
      "received (entry_begin lib c self_node (oe_task_id e1) files1) (places j) (collect_dir_files files1) s' =
         received (entry_begin lib c self_node (oe_task_id e1) files1) (places j) (collect_dir_files files1) s"
      by (auto simp: kept_or_received_def receives_def)
  qed
  have "receives lib c self_node places orig s'"
    unfolding receives_def
  proof (intro allI impI)
    fix j e1 files1 assume j: "map_of orig j = Some (e1, files1)"
    show "receiver_right (entry_begin lib c self_node (oe_task_id e1) files1) (places j) (collect_dir_files files1) s'"
      using rr(1) [OF j] p(2) o(1) t j by (cases "j = k") auto
  qed
  moreover have "case map_of ob' j of
      Some (e', files') \<Rightarrow> files' = files1 \<and> same_entry e' e1
    | None \<Rightarrow> received (entry_begin lib c self_node (oe_task_id e1) files1) (places j) (collect_dir_files files1) s'"
    if j: "map_of orig j = Some (e1, files1)" for j e1 files1
  proof (cases "j = k")
    case True
    then show ?thesis using p(3) o t j by (auto simp: same_entry_def)
  next
    case False
    then show ?thesis using others [OF False] rr(2) [OF j False] kept_case [OF assms(2) j] by (cases "map_of ob j") simp_all
  qed
  moreover have "map_of ob' j = None" if "map_of orig j = None" for j
    using that others [of j] o(1) assms(2) by (cases "j = k") (auto simp: kept_or_received_def)
  ultimately show ?thesis using others unfolding kept_or_received_def fst_conv snd_conv by blast
qed

lemma round_keeps:
  assumes "outbox_ok lib c self_node places orig" "kept_or_received lib c self_node places orig st" "distinct (map fst xs)"
    "\<forall>(k, e, files) \<in> set xs. map_of (fst st) k = Some (e, files)"
  shows "kept_or_received lib c self_node places orig (fold (process_entry now online limit (sink_push lib c self_node limit fates)) xs st)"
  using assms(2-4)
proof (induction xs arbitrary: st)
  case (Cons x xs)
  obtain k e files where x: "x = (k, e, files)" by (cases x)
  obtain ob s where st: "st = (ob, s)" by (cases st)
  obtain ob' s' where p: "process_entry now online limit (sink_push lib c self_node limit fates) (k, e, files) (ob, s) = (ob', s')"
    by (cases "process_entry now online limit (sink_push lib c self_node limit fates) (k, e, files) (ob, s)")
  have ob: "map_of ob k = Some (e, files)" using Cons.prems(3) x st by simp
  from process_entry_keeps [OF assms(1) _ ob p] Cons.prems(1) st
  have keeps: "kept_or_received lib c self_node places orig (ob', s')" "\<forall>j. j \<noteq> k \<longrightarrow> map_of ob' j = map_of ob j" by simp_all
  have "\<forall>(j, e, files) \<in> set xs. map_of (fst (ob', s')) j = Some (e, files)"
  proof (clarify)
    fix j e1 files1 assume j: "(j, e1, files1) \<in> set xs"
    then have "j \<noteq> k" using Cons.prems(2) x by force
    moreover have "map_of ob j = Some (e1, files1)" using Cons.prems(3) j st by auto
    ultimately show "map_of (fst (ob', s')) j = Some (e1, files1)" using keeps(2) by simp
  qed
  from Cons.IH [OF keeps(1) _ this] Cons.prems(2) show ?case using x st p by simp
qed simp

text \<open>An outbox together with the receiver of its records, and what happens to both.\<close>

inductive node_step :: "xfer_lib \<Rightarrow> nat \<Rightarrow> str \<Rightarrow> outbox \<times> transfer_sink \<Rightarrow> outbox \<times> transfer_sink \<Rightarrow> bool" for lib c self_node where
  Round: "node_step lib c self_node st (process_once now online limit (sink_push lib c self_node limit fates) st)"
| Crash: "map_of ob k = Some (e, files) \<Longrightarrow> attempt_push lib c self_node limit fate e files s = (r, s') \<Longrightarrow>
    node_step lib c self_node (ob, s) (write_entry k (e\<lparr>oe_state := Pushing\<rparr>) ob, s')"
| Restart: "node_step lib c self_node (ob, s) (rearm_entries limit ob, s)"
| Replay: "node_step lib c self_node (ob, s) (snd (replay_dead_letter_entry now task ob), s)"
| Sweep: "node_step lib c self_node (ob, s) (ob, sweep_stale_staging stale s)"
| Take: "node_step lib c self_node (ob, s) (ob, take_archive k s)"
| SetMax: "node_step lib c self_node (ob, s) (ob, set_max_bytes n s)"

definition node_ok :: "xfer_lib \<Rightarrow> nat \<Rightarrow> str \<Rightarrow> (str \<Rightarrow> str list list) \<Rightarrow> outbox \<times> transfer_sink \<Rightarrow> bool" where
  "node_ok lib c self_node places st \<longleftrightarrow>
     distinct (map fst (fst st)) \<and> outbox_ok lib c self_node places (fst st) \<and> receives lib c self_node places (fst st) (snd st)"

lemma distinct_write_entry: "distinct (map fst ob) \<Longrightarrow> distinct (map fst (write_entry k e ob))"
  by (auto simp: write_entry_def distinct_update split: option.splits)

lemma process_entry_distinct:
  "distinct (map fst (fst st)) \<Longrightarrow> distinct (map fst (fst (process_entry now online limit push x st)))"
  by (auto simp: process_entry_def Let_def distinct_write_entry distinct_delete split: prod.splits sum.splits push_outcome.splits)

lemma round_distinct:
  "distinct (map fst (fst st)) \<Longrightarrow> distinct (map fst (fst (fold (process_entry now online limit push) xs st)))"
  by (induction xs arbitrary: st) (simp_all add: process_entry_distinct)

lemma list_entries_of:
  assumes "distinct (map fst ob)"
  shows "distinct (map fst (list_entries ob))" "\<forall>(k, e, files) \<in> set (list_entries ob). map_of ob k = Some (e, files)"
proof -
  show "distinct (map fst (list_entries ob))" using assms by (simp add: list_entries_def distinct_map)
  show "\<forall>(k, e, files) \<in> set (list_entries ob). map_of ob k = Some (e, files)"
    using assms by (auto simp: list_entries_def map_of_eq_Some_iff)
qed

lemma round_from_ok:
  assumes "node_ok lib c self_node places st"
  shows "kept_or_received lib c self_node places (fst st) (process_once now online limit (sink_push lib c self_node limit fates) st)"
proof -
  have k: "kept_or_received lib c self_node places (fst st) st"
    using assms by (auto simp: kept_or_received_def node_ok_def same_entry_def)
  show ?thesis unfolding process_once_def
    using round_keeps [OF _ k list_entries_of] assms by (simp add: node_ok_def)
qed

text \<open>An outbox with fewer entries, or changed ones of the same identity.\<close>

lemma smaller_ok:
  assumes "node_ok lib c self_node places (ob, s)" "distinct (map fst ob')" "receives lib c self_node places ob t"
    and "\<And>k e files. map_of ob' k = Some (e, files) \<Longrightarrow> \<exists>e0. map_of ob k = Some (e0, files) \<and> same_entry e e0"
  shows "node_ok lib c self_node places (ob', t)"
proof -
  have id: "\<exists>e0. map_of ob k = Some (e0, files) \<and> oe_task_id e = oe_task_id e0" if "map_of ob' k = Some (e, files)" for k e files
    using assms(4) [OF that] by (auto simp: same_entry_def)
  have "outbox_ok lib c self_node places ob'"
  proof -
    have orig: "outbox_ok lib c self_node places ob" using assms(1) by (simp add: node_ok_def)
    have "k = entry_dir (oe_task_id e) \<and> sendable lib (oe_task_id e) c (collect_dir_files files) (places k)"
      if "map_of ob' k = Some (e, files)" for k e files
      using id [OF that] orig by (auto simp: outbox_ok_def)
    moreover have "separate (entry_begin lib c self_node (oe_task_id e) files) (entry_begin lib c self_node (oe_task_id e') files')"
      if "map_of ob' k = Some (e, files)" "map_of ob' k' = Some (e', files')" "k \<noteq> k'" for k k' e e' files files'
      using id [OF that(1)] id [OF that(2)] that(3) orig by (auto simp: outbox_ok_def)
    ultimately show ?thesis unfolding outbox_ok_def by blast
  qed
  moreover have "receives lib c self_node places ob' t"
    using assms(3) id unfolding receives_def by metis
  ultimately show ?thesis using assms(2) by (simp add: node_ok_def)
qed

lemma attempt_receives:
  assumes "outbox_ok lib c self_node places ob" "receives lib c self_node places ob s" "map_of ob k = Some (e, files)"
    "attempt_push lib c self_node limit fate e files s = (r, s')"
  shows "receives lib c self_node places ob s'"
  unfolding receives_def
proof (intro allI impI)
  let ?m = "entry_begin lib c self_node (oe_task_id e) files"
  have "sendable lib (oe_task_id e) c (collect_dir_files files) (places k)" using assms(1,3) by (auto simp: outbox_ok_def)
  moreover have "receiver_right ?m (places k) (collect_dir_files files) s" using assms(2,3) by (auto simp: receives_def)
  ultimately have p: "receiver_right ?m (places k) (collect_dir_files files) s'" "same_elsewhere ?m s s'"
    using attempt_push_right [OF _ refl _ assms(4)] by blast+
  fix j e1 files1 assume j: "map_of ob j = Some (e1, files1)"
  show "receiver_right (entry_begin lib c self_node (oe_task_id e1) files1) (places j) (collect_dir_files files1) s'"
  proof (cases "j = k")
    case True
    then show ?thesis using p(1) j assms(3) by simp
  next
    case False
    then have "separate (entry_begin lib c self_node (oe_task_id e1) files1) ?m" using assms(1,3) j by (auto simp: outbox_ok_def)
    from separate_right(1) [OF this p(2)] show ?thesis using assms(2) j by (auto simp: receives_def)
  qed
qed

lemma rearm_entries_same:
  assumes "distinct (map fst ob)" "map_of (rearm_entries limit ob) k = Some (e', files)"
  shows "\<exists>e. map_of ob k = Some (e, files) \<and> same_entry e' e"
proof -
  let ?step = "\<lambda>(k, e, files) ob. case rearm limit e of Some e' \<Rightarrow> write_entry k e' ob | None \<Rightarrow> ob"
  have same: "same_entry e' e" if "rearm limit e = Some e'" for e e'
    using that by (auto simp: rearm_def same_entry_def split: entry_state.splits if_splits)
  have "\<forall>k e' files. map_of (fold ?step xs cur) k = Some (e', files) \<longrightarrow> (\<exists>e. map_of ob k = Some (e, files) \<and> same_entry e' e)"
    if "\<forall>(k, e, files) \<in> set xs. map_of ob k = Some (e, files)"
      "\<forall>k e' files. map_of cur k = Some (e', files) \<longrightarrow> (\<exists>e. map_of ob k = Some (e, files) \<and> same_entry e' e)" for xs cur
    using that
  proof (induction xs arbitrary: cur)
    case (Cons x xs)
    obtain j e files where x: "x = (j, e, files)" by (cases x)
    have "\<forall>k e' files. map_of (?step x cur) k = Some (e', files) \<longrightarrow> (\<exists>e. map_of ob k = Some (e, files) \<and> same_entry e' e)"
    proof (cases "rearm limit e")
      case None
      then show ?thesis using Cons.prems(2) x by simp
    next
      case (Some e1)
      have jo: "map_of ob j = Some (e, files)" using Cons.prems(1) x by auto
      show ?thesis
      proof (intro allI impI)
        fix k e' files' assume k: "map_of (?step x cur) k = Some (e', files')"
        show "\<exists>e. map_of ob k = Some (e, files') \<and> same_entry e' e"
        proof (cases "map_of cur j = None \<or> k \<noteq> j")
          case True
          have "map_of (write_entry j e1 cur) k = Some (e', files')" using k Some x by simp
          then have "map_of cur k = Some (e', files')" using True by (auto simp: map_write_entry split: if_splits)
          then show ?thesis using Cons.prems(2) by blast
        next
          case False
          then obtain e2 f2 where c: "map_of cur j = Some (e2, f2)" by auto
          then have "f2 = files" using Cons.prems(2) jo by fastforce
          then show ?thesis using k Some x False c jo same [OF Some] by (auto simp: map_write_entry)
        qed
      qed
    qed
    then show ?case using Cons.IH [of "?step x cur"] Cons.prems(1) by simp
  qed simp
  from this [OF list_entries_of(2) [OF assms(1)], of ob] assms(2) show ?thesis
    by (auto simp: rearm_entries_def same_entry_def)
qed

lemma rearm_entries_distinct: "distinct (map fst ob) \<Longrightarrow> distinct (map fst (rearm_entries limit ob))"
proof -
  have "distinct (map fst (fold (\<lambda>(k, e, files) ob. case rearm limit e of Some e' \<Rightarrow> write_entry k e' ob | None \<Rightarrow> ob) xs cur))"
    if "distinct (map fst cur)" for xs cur
    using that by (induction xs arbitrary: cur) (auto simp: distinct_write_entry split: option.splits)
  then show "distinct (map fst ob) \<Longrightarrow> distinct (map fst (rearm_entries limit ob))" by (simp add: rearm_entries_def)
qed

lemma replay_same:
  assumes "map_of (snd (replay_dead_letter_entry now task ob)) k = Some (e', files)"
  shows "\<exists>e. map_of ob k = Some (e, files) \<and> same_entry e' e"
  using assms by (auto simp: replay_dead_letter_entry_def Let_def map_write_entry same_entry_def split: option.splits if_splits)

lemma node_ok_step:
  assumes "node_ok lib c self_node places st" "node_step lib c self_node st st'"
  shows "node_ok lib c self_node places st'"
  using assms(2)
proof cases
  case (Round now online limit fates)
  obtain ob s where st: "st = (ob, s)" by (cases st)
  obtain ob' s' where st': "st' = (ob', s')" by (cases st')
  have kept: "kept_or_received lib c self_node places ob (ob', s')"
    using round_from_ok [OF assms(1)] Round st st' by simp
  have "st' = fold (process_entry now online limit (sink_push lib c self_node limit fates)) (list_entries (fst st)) st"
    using Round by (simp add: process_once_def)
  then have "distinct (map fst (fst st'))" using assms(1) by (simp add: node_ok_def round_distinct)
  then have "distinct (map fst ob')" using st' by simp
  moreover have "\<exists>e0. map_of ob k = Some (e0, files) \<and> same_entry e e0" if k: "map_of ob' k = Some (e, files)" for k e files
  proof (cases "map_of ob k")
    case None
    then show ?thesis using kept k by (simp add: kept_or_received_def)
  next
    case (Some x)
    then show ?thesis using kept_case [OF kept, of k "fst x" "snd x"] k by (cases x) simp
  qed
  ultimately show ?thesis using smaller_ok [of lib c self_node places ob s ob' s'] assms(1) kept st st'
    by (simp add: kept_or_received_def)
next
  case (Crash ob k e files limit fate s r s')
  have "receives lib c self_node places ob s'"
    using attempt_receives [OF _ _ Crash(3,4)] assms(1) Crash(1) by (simp add: node_ok_def)
  moreover have "distinct (map fst (write_entry k (e\<lparr>oe_state := Pushing\<rparr>) ob))"
    using assms(1) Crash(1) by (simp add: node_ok_def distinct_write_entry)
  moreover have "\<exists>e0. map_of ob j = Some (e0, files') \<and> same_entry e' e0"
    if "map_of (write_entry k (e\<lparr>oe_state := Pushing\<rparr>) ob) j = Some (e', files')" for j e' files'
    using that Crash(3) by (cases "j = k") (auto simp: map_write_entry same_entry_def)
  ultimately show ?thesis using smaller_ok [of lib c self_node places ob s] assms(1) Crash(1,2) by metis
next
  case (Restart ob s limit)
  have ok: "node_ok lib c self_node places (ob, s)" using assms(1) Restart(1) by simp
  then have "distinct (map fst ob)" "receives lib c self_node places ob s" by (simp_all add: node_ok_def)
  then show ?thesis
    unfolding Restart(2) by (intro smaller_ok [OF ok] rearm_entries_distinct rearm_entries_same)
next
  case (Replay ob s now task)
  have "distinct (map fst (snd (replay_dead_letter_entry now task ob)))" if "distinct (map fst ob)"
    using that by (auto simp: replay_dead_letter_entry_def Let_def distinct_write_entry split: option.splits)
  moreover have ok: "node_ok lib c self_node places (ob, s)" using assms(1) Replay(1) by simp
  then have "distinct (map fst ob)" "receives lib c self_node places ob s" by (simp_all add: node_ok_def)
  ultimately show ?thesis unfolding Replay(2) by (intro smaller_ok [OF ok] replay_same)
qed (use assms(1) in \<open>auto simp: node_ok_def receives_def owner_right\<close>)

interpretation node: transition_invariant
  "\<lambda>st. \<exists>ob n. st = (ob, new_sink n) \<and> distinct (map fst ob) \<and> outbox_ok lib c self_node places ob"
  "node_step lib c self_node" "node_ok lib c self_node places"
proof
  show "node_ok lib c self_node places st"
    if "\<exists>ob n. st = (ob, new_sink n) \<and> distinct (map fst ob) \<and> outbox_ok lib c self_node places ob" for st
    using that by (auto simp: node_ok_def receives_def new_sink_def receiver_right_def index_right_def)
qed (rule node_ok_step)


subsection \<open>Lemmas: what a round does to an entry\<close>

text \<open>
  A dead letter leaves the outbox in no round, and a replay makes it due at once: it is pending, has no
  attempts against it and no time to wait for, so the next round in which its destination is online pushes it.
\<close>

theorem replay_makes_due:
  assumes "map_of ob (entry_dir task) = Some (e, files)" "oe_state e = Dead"
  shows "process_entry t online limit push (entry_dir task, e, files) (ob, w) = (ob, w) \<and>
    (\<exists>e'. replay_dead_letter_entry now task ob = (Inr e', write_entry (entry_dir task) e' ob) \<and>
       map_of (write_entry (entry_dir task) e' ob) (entry_dir task) = Some (e', files) \<and>
       (online (oe_source_node e) \<longrightarrow> push (e'\<lparr>oe_state := Pushing\<rparr>) files w = (Inr EntryDelivered, w') \<longrightarrow>
        map_of (fst (process_entry now online limit push (entry_dir task, e', files) (write_entry (entry_dir task) e' ob, w)))
          (entry_dir task) = None))"
  using assms
  by (simp add: process_entry_def replay_dead_letter_entry_def Let_def map_write_entry DEAD_LETTER_MAX_ATTEMPTS_def
      dead_letter_age_due_def entry_age_secs_def DEAD_LETTER_AGE_SECS_def SECOND_def delete_conv')

subsection \<open>Examples\<close>

theorem backoff_doubles_witness: "push_backoff_secs 3 = 60 \<and> push_backoff_secs 1000 = 600"
  using backoff_doubles [of 3] backoff_doubles [of 1000] by simp

definition example_entry :: outbox_entry where
  "example_entry = \<lparr>oe_task_id = ''t1'', oe_source_node = ''w'', oe_state = Pending, oe_created_at = 0, oe_attempts = 0,
     oe_total_bytes = 3, oe_last_error = None, oe_next_retry_at = None\<rparr>"

definition example_outbox :: outbox where
  "example_outbox = [(entry_dir ''t1'', example_entry, example_dir)]"

lemma example_outbox_ok:
  "outbox_ok example_lib 4096 ''me'' (\<lambda>_. [[''log''], [''src'', ''m.py'']]) example_outbox"
  using example_sendable by (simp add: outbox_ok_def example_outbox_def example_entry_def)


theorem replay_makes_due_witness:
  "process_entry 9 (\<lambda>_. True) 0 (\<lambda>e files w. (Inr EntryDelivered, w)) (entry_dir ''t1'', example_entry\<lparr>oe_state := Dead\<rparr>, example_dir)
     ([(entry_dir ''t1'', example_entry\<lparr>oe_state := Dead\<rparr>, example_dir)], ()) =
   ([(entry_dir ''t1'', example_entry\<lparr>oe_state := Dead\<rparr>, example_dir)], ())"
  using replay_makes_due [of "[(entry_dir ''t1'', example_entry\<lparr>oe_state := Dead\<rparr>, example_dir)]" "''t1''"
      "example_entry\<lparr>oe_state := Dead\<rparr>" example_dir 9 "\<lambda>_. True" 0 "\<lambda>e files w. (Inr EntryDelivered, w)" "()" 9 "()"]
  by simp

end
