(* ===== verification/CronJobs.thy ===== *)
theory CronJobs
  imports Prelude
begin

text \<open>
  Scheduled jobs (nemesis-cron: service.rs, store.rs): schedules, the jobs with their history, the operations of the user,
  the loop that starts due jobs once a second, and the file the jobs are kept in.

  Instants are milliseconds since the epoch; the sum that gives the next run of an interval wraps at 64 bits, as
  in the release build.  The evaluation of cron expressions and the names of time zones are a parameter
  (\<^verbatim>\<open>cron_lib\<close>).  What the file contains is given by a datatype of what the JSON parser makes of it.
  Whether writing the file works is an argument of every operation that writes it.
\<close>

subsection \<open>Jobs\<close>

record cron_schedule =
  cs_kind :: str
  cs_at_ms :: "int option"
  cs_every_ms :: "int option"
  cs_expr :: "str option"
  cs_tz :: "str option"

record cron_payload =
  cp_kind :: str
  cp_message :: str
  cp_command :: "str option"
  cp_deliver :: bool
  cp_channel :: "str option"
  cp_to :: "str option"
  cp_session_key :: "str option"
  cp_max_rounds :: "nat option"

record cron_run =
  cr_at_ms :: int
  cr_status :: str
  cr_error :: "str option"

record cron_job_state =
  cst_next_run_at_ms :: "int option"
  cst_last_run_at_ms :: "int option"
  cst_last_status :: "str option"
  cst_last_error :: "str option"
  cst_history :: "cron_run list"

record cron_job =
  cj_id :: str
  cj_name :: str
  cj_enabled :: bool
  cj_schedule :: cron_schedule
  cj_payload :: cron_payload
  cj_state :: cron_job_state
  cj_created_at_ms :: int
  cj_updated_at_ms :: int
  cj_delete_after_run :: bool

definition MAX_HISTORY :: nat where "MAX_HISTORY = 50"

definition push_history :: "int \<Rightarrow> str \<Rightarrow> str option \<Rightarrow> cron_job_state \<Rightarrow> cron_job_state" where
  "push_history at status err st =
     (let h = cst_history st @ [\<lparr>cr_at_ms = at, cr_status = status, cr_error = err\<rparr>]
      in st\<lparr>cst_history := (if length h > MAX_HISTORY then drop (length h - MAX_HISTORY) h else h)\<rparr>)"

subsection \<open>The next run\<close>

text \<open>
  The cron crate: the next instant of an expression after a given one, in a time zone or the local one, and whether an
  expression parses; and the names of time zones.
\<close>

record cron_lib =
  cl_parses :: "str \<Rightarrow> bool"
  cl_next :: "str \<Rightarrow> str option \<Rightarrow> int \<Rightarrow> int option"
  cl_zone :: "str \<Rightarrow> bool"

definition wrap_i64 :: "int \<Rightarrow> int" where
  "wrap_i64 x = (x + 2 ^ 63) mod 2 ^ 64 - 2 ^ 63"

definition compute_next_run :: "cron_lib \<Rightarrow> cron_schedule \<Rightarrow> int \<Rightarrow> int option" where
  "compute_next_run lib sch now =
     (if cs_kind sch = ''at'' then (case cs_at_ms sch of Some t \<Rightarrow> if now < t then Some t else None | None \<Rightarrow> None)
      else if cs_kind sch = ''every'' then
        (case cs_every_ms sch of Some ms \<Rightarrow> if 0 < ms then Some (wrap_i64 (now + ms)) else None | None \<Rightarrow> None)
      else if cs_kind sch = ''cron'' then
        (case cs_expr sch of
           None \<Rightarrow> None
         | Some e \<Rightarrow>
             if e = [] \<or> \<not> cl_parses lib e then None
             else cl_next lib e (case cs_tz sch of Some z \<Rightarrow> if cl_zone lib z then Some z else None | None \<Rightarrow> None) now)
      else None)"

definition validate_schedule :: "cron_lib \<Rightarrow> str \<Rightarrow> bool" where
  "validate_schedule lib e \<longleftrightarrow> trim e \<noteq> [] \<and> cl_parses lib e"

datatype description = Invalid str | EveryMinute | EveryMinutes str | DailyAt str str | OnWeekdays str str str | Plain str

definition describe_schedule :: "str \<Rightarrow> description" where
  "describe_schedule e =
     (let parts = split_whitespace e
      in if length parts < 5 \<or> length parts > 6 then Invalid e
         else let off = (if length parts = 6 then 1 else 0);
                  minute = parts ! off; hour = parts ! (off + 1); day = parts ! (off + 2); month = parts ! (off + 3);
                  weekday = parts ! (off + 4)
              in if minute = ''*'' \<and> hour = ''*'' \<and> day = ''*'' \<and> month = ''*'' \<and> weekday = ''*'' then EveryMinute
                 else if strip_prefix ''*/'' minute \<noteq> None \<and> hour = ''*'' \<and> day = ''*'' \<and> month = ''*'' \<and> weekday = ''*''
                 then EveryMinutes (the (strip_prefix ''*/'' minute))
                 else if minute \<noteq> ''*'' \<and> hour \<noteq> ''*'' \<and> day = ''*'' \<and> month = ''*'' \<and> weekday = ''*'' then DailyAt hour minute
                 else if weekday \<noteq> ''*'' \<and> day = ''*'' \<and> month = ''*'' then OnWeekdays hour minute weekday
                 else Plain e)"

subsection \<open>The file\<close>

record legacy_job =
  lj_id :: str
  lj_name :: str
  lj_message :: str
  lj_kind :: str
  lj_every_ms :: "int option"
  lj_expr :: "str option"
  lj_deliver :: bool
  lj_to :: "str option"
  lj_channel :: "str option"
  lj_enabled :: bool

record cron_store =
  st_version :: int
  st_jobs :: "cron_job list"

definition new_v1 :: cron_store where
  "new_v1 = \<lparr>st_version = 1, st_jobs = []\<rparr>"

datatype load_error = ReadFailed | NotParsed | MissingInterval nat | MissingExpr nat | UnknownKind nat str

text \<open>A text that begins with a bracket is the list of an older program; a default of its fields has been filled in.\<close>

datatype cron_file = NoFile | Unreadable | Legacy "legacy_job list" | Envelope cron_store | Malformed

definition empty_state :: cron_job_state where
  "empty_state = \<lparr>cst_next_run_at_ms = None, cst_last_run_at_ms = None, cst_last_status = None, cst_last_error = None, cst_history = []\<rparr>"

definition legacy_schedule :: "nat \<Rightarrow> legacy_job \<Rightarrow> load_error + cron_schedule" where
  "legacy_schedule i j =
     (if lj_kind j = ''interval'' then
        (case lj_every_ms j of
           Some ms \<Rightarrow> if 0 < ms then Inr \<lparr>cs_kind = ''every'', cs_at_ms = None, cs_every_ms = Some ms, cs_expr = None, cs_tz = None\<rparr>
                      else Inl (MissingInterval i)
         | None \<Rightarrow> Inl (MissingInterval i))
      else if lj_kind j = ''cron'' then
        (case lj_expr j of
           Some e \<Rightarrow> Inr \<lparr>cs_kind = ''cron'', cs_at_ms = None, cs_every_ms = None, cs_expr = Some e, cs_tz = None\<rparr>
         | None \<Rightarrow> Inl (MissingExpr i))
      else Inl (UnknownKind i (lj_kind j)))"

definition migrated_job :: "int \<Rightarrow> legacy_job \<Rightarrow> cron_schedule \<Rightarrow> cron_job" where
  "migrated_job now j sch =
     \<lparr>cj_id = lj_id j, cj_name = lj_name j, cj_enabled = lj_enabled j, cj_schedule = sch,
      cj_payload = \<lparr>cp_kind = ''agent_turn'', cp_message = lj_message j, cp_command = None, cp_deliver = lj_deliver j,
        cp_channel = lj_channel j, cp_to = lj_to j, cp_session_key = None, cp_max_rounds = None\<rparr>,
      cj_state = empty_state, cj_created_at_ms = now, cj_updated_at_ms = now, cj_delete_after_run = False\<rparr>"

fun migrate_from :: "int \<Rightarrow> nat \<Rightarrow> legacy_job list \<Rightarrow> load_error + cron_job list" where
  "migrate_from now i [] = Inr []"
| "migrate_from now i (j # js) =
     and_then (legacy_schedule i j) (\<lambda>sch.
       and_then (migrate_from now (Suc i) js) (\<lambda>rest. Inr (migrated_job now j sch # rest)))"

definition migrate_legacy :: "int \<Rightarrow> legacy_job list \<Rightarrow> load_error + cron_store" where
  "migrate_legacy now js = and_then (migrate_from now 0 js) (\<lambda>jobs. Inr \<lparr>st_version = 1, st_jobs = jobs\<rparr>)"

definition load_file :: "int \<Rightarrow> cron_file \<Rightarrow> load_error + cron_store" where
  "load_file now f =
     (case f of
        NoFile \<Rightarrow> Inr new_v1
      | Unreadable \<Rightarrow> Inl ReadFailed
      | Legacy js \<Rightarrow> migrate_legacy now js
      | Envelope st \<Rightarrow> Inr st
      | Malformed \<Rightarrow> Inl NotParsed)"

subsection \<open>The service\<close>

record cron_service =
  sv_store :: cron_store
  sv_running :: bool
  sv_pending_arm :: bool
  sv_file :: cron_file

datatype cron_error = JobNotFound | SaveFailed

abbreviation jobs_of :: "cron_service \<Rightarrow> cron_job list" where
  "jobs_of s \<equiv> st_jobs (sv_store s)"

definition with_jobs :: "(cron_job list \<Rightarrow> cron_job list) \<Rightarrow> cron_service \<Rightarrow> cron_service" where
  "with_jobs f s = s\<lparr>sv_store := (sv_store s)\<lparr>st_jobs := f (jobs_of s)\<rparr>\<rparr>"

definition new_service :: "int \<Rightarrow> cron_file \<Rightarrow> cron_service" where
  "new_service now f =
     \<lparr>sv_store = (case load_file now f of Inr st \<Rightarrow> st | Inl _ \<Rightarrow> new_v1), sv_running = False, sv_pending_arm = True, sv_file = f\<rparr>"

definition arm :: "cron_service \<Rightarrow> cron_service" where
  "arm s = s\<lparr>sv_pending_arm := False\<rparr>"

definition save_store :: "bool \<Rightarrow> cron_service \<Rightarrow> cron_service option" where
  "save_store ok s = (if ok then Some (s\<lparr>sv_file := Envelope (sv_store s)\<rparr>) else None)"

definition find_job :: "str \<Rightarrow> cron_job list \<Rightarrow> cron_job option" where
  "find_job i js = find (\<lambda>j. cj_id j = i) js"

fun modify_job :: "str \<Rightarrow> (cron_job \<Rightarrow> cron_job) \<Rightarrow> cron_job list \<Rightarrow> cron_job list" where
  "modify_job i f [] = []"
| "modify_job i f (j # js) = (if cj_id j = i then f j # js else j # modify_job i f js)"

definition set_next_run :: "int option \<Rightarrow> cron_job \<Rightarrow> cron_job" where
  "set_next_run n j = j\<lparr>cj_state := (cj_state j)\<lparr>cst_next_run_at_ms := n\<rparr>\<rparr>"

abbreviation next_run :: "cron_job \<Rightarrow> int option" where
  "next_run j \<equiv> cst_next_run_at_ms (cj_state j)"

definition recompute_job :: "cron_lib \<Rightarrow> bool \<Rightarrow> int \<Rightarrow> cron_job \<Rightarrow> cron_job" where
  "recompute_job lib disarmed now j =
     (if \<not> cj_enabled j then j
      else let n = compute_next_run lib (cj_schedule j) now
           in set_next_run (if disarmed \<and> n = None \<and> cs_kind (cj_schedule j) = ''at'' then cs_at_ms (cj_schedule j) else n) j)"

definition recompute_next_runs :: "cron_lib \<Rightarrow> int \<Rightarrow> cron_service \<Rightarrow> cron_service" where
  "recompute_next_runs lib now s = with_jobs (map (recompute_job lib (sv_pending_arm s) now)) s"

definition start_service :: "cron_lib \<Rightarrow> int \<Rightarrow> bool \<Rightarrow> cron_service \<Rightarrow> (cron_error + unit) \<times> cron_service" where
  "start_service lib now ok s =
     (if sv_running s then (Inr (), s)
      else let s1 = recompute_next_runs lib now s
           in case save_store ok s1 of
                None \<Rightarrow> (Inl SaveFailed, s1)
              | Some s2 \<Rightarrow> (Inr (), s2\<lparr>sv_running := True\<rparr>))"

definition stop_service :: "cron_service \<Rightarrow> cron_service" where
  "stop_service s = s\<lparr>sv_running := False\<rparr>"

subsection \<open>Operations of the user\<close>

record job_request =
  jq_name :: str
  jq_schedule :: cron_schedule
  jq_message :: str
  jq_deliver :: bool
  jq_channel :: "str option"
  jq_to :: "str option"
  jq_session_key :: "str option"
  jq_max_rounds :: "nat option"
  jq_enabled :: bool

definition new_job :: "cron_lib \<Rightarrow> int \<Rightarrow> str \<Rightarrow> job_request \<Rightarrow> cron_job" where
  "new_job lib now i q =
     \<lparr>cj_id = i, cj_name = jq_name q, cj_enabled = jq_enabled q, cj_schedule = jq_schedule q,
      cj_payload = \<lparr>cp_kind = ''agent_turn'', cp_message = jq_message q, cp_command = None, cp_deliver = jq_deliver q,
        cp_channel = jq_channel q, cp_to = jq_to q, cp_session_key = jq_session_key q, cp_max_rounds = jq_max_rounds q\<rparr>,
      cj_state = empty_state\<lparr>cst_next_run_at_ms := if jq_enabled q then compute_next_run lib (jq_schedule q) now else None\<rparr>,
      cj_created_at_ms = now, cj_updated_at_ms = now, cj_delete_after_run = (cs_kind (jq_schedule q) = ''at'')\<rparr>"

definition add_job_ext :: "cron_lib \<Rightarrow> int \<Rightarrow> str \<Rightarrow> job_request \<Rightarrow> bool \<Rightarrow> cron_service \<Rightarrow>
    (cron_error + cron_job) \<times> cron_service" where
  "add_job_ext lib now i q ok s =
     (let job = new_job lib now i q; s1 = with_jobs (\<lambda>js. js @ [job]) s
      in case save_store ok s1 of
           Some s2 \<Rightarrow> (Inr job, s2)
         | None \<Rightarrow> (Inl SaveFailed, with_jobs (filter (\<lambda>j. cj_id j \<noteq> i)) s1))"

definition add_job :: "cron_lib \<Rightarrow> int \<Rightarrow> str \<Rightarrow> str \<Rightarrow> cron_schedule \<Rightarrow> str \<Rightarrow> bool \<Rightarrow> str option \<Rightarrow> str option \<Rightarrow> bool \<Rightarrow>
    cron_service \<Rightarrow> (cron_error + cron_job) \<times> cron_service" where
  "add_job lib now i name sch message deliver channel recipient =
     add_job_ext lib now i \<lparr>jq_name = name, jq_schedule = sch, jq_message = message, jq_deliver = deliver, jq_channel = channel,
       jq_to = recipient, jq_session_key = None, jq_max_rounds = None, jq_enabled = True\<rparr>"

definition position :: "('a \<Rightarrow> bool) \<Rightarrow> 'a list \<Rightarrow> nat option" where
  "position P xs = map_option fst (find_index_from 0 P xs)"

definition remove_job :: "str \<Rightarrow> bool \<Rightarrow> cron_service \<Rightarrow> (cron_error + bool) \<times> cron_service" where
  "remove_job i ok s =
     (case position (\<lambda>j. cj_id j = i) (jobs_of s) of
        None \<Rightarrow> (Inr False, s)
      | Some n \<Rightarrow>
          (let job = jobs_of s ! n; s1 = with_jobs (\<lambda>js. take n js @ drop (Suc n) js) s
           in case save_store ok s1 of
                Some s2 \<Rightarrow> (Inr True, s2)
              | None \<Rightarrow> (Inl SaveFailed,
                  with_jobs (\<lambda>js. let k = min n (length js) in take k js @ job # drop k js) s1)))"

text \<open>The common frame of the changes of one job: change, save, and put the old job back if that fails.\<close>

definition edit_job :: "bool \<Rightarrow> str \<Rightarrow> (cron_job \<Rightarrow> cron_job) \<Rightarrow> cron_service \<Rightarrow> (cron_error + cron_job) \<times> cron_service" where
  "edit_job ok i f s =
     (case find_job i (jobs_of s) of
        None \<Rightarrow> (Inl JobNotFound, s)
      | Some before \<Rightarrow>
          (let s1 = with_jobs (modify_job i f) s
           in case save_store ok s1 of
                Some s2 \<Rightarrow> (Inr (f before), s2)
              | None \<Rightarrow> (Inl SaveFailed, with_jobs (modify_job i (\<lambda>_. before)) s1)))"

definition update_fields :: "cron_lib \<Rightarrow> int \<Rightarrow> str option \<Rightarrow> cron_schedule option \<Rightarrow> cron_job \<Rightarrow> cron_job" where
  "update_fields lib now name sch j =
     (let j1 = (case name of Some n \<Rightarrow> j\<lparr>cj_name := n\<rparr> | None \<Rightarrow> j);
          j2 = (case sch of Some x \<Rightarrow> set_next_run (compute_next_run lib x now) (j1\<lparr>cj_schedule := x\<rparr>) | None \<Rightarrow> j1)
      in j2\<lparr>cj_updated_at_ms := now\<rparr>)"

definition update_job :: "cron_lib \<Rightarrow> int \<Rightarrow> bool \<Rightarrow> str \<Rightarrow> str option \<Rightarrow> cron_schedule option \<Rightarrow> cron_service \<Rightarrow>
    (cron_error + unit) \<times> cron_service" where
  "update_job lib now ok i name sch s = apfst (map_sum id (\<lambda>_. ())) (edit_job ok i (update_fields lib now name sch) s)"

record cron_job_patch =
  pt_name :: "str option"
  pt_schedule :: "cron_schedule option"
  pt_message :: "str option"
  pt_channel :: "str option"
  pt_to :: "str option"
  pt_session_key :: "str option"
  pt_enabled :: "bool option"
  pt_max_rounds :: "nat option option"

definition cleared :: "str \<Rightarrow> str option" where
  "cleared t = (if t = [] then None else Some t)"

definition patch_payload :: "cron_job_patch \<Rightarrow> cron_payload \<Rightarrow> cron_payload" where
  "patch_payload pt p = p\<lparr>
     cp_message := (case pt_message pt of Some m \<Rightarrow> m | None \<Rightarrow> cp_message p),
     cp_channel := (case pt_channel pt of Some t \<Rightarrow> cleared t | None \<Rightarrow> cp_channel p),
     cp_to := (case pt_to pt of Some t \<Rightarrow> cleared t | None \<Rightarrow> cp_to p),
     cp_session_key := (case pt_session_key pt of Some t \<Rightarrow> cleared t | None \<Rightarrow> cp_session_key p),
     cp_max_rounds := (case pt_max_rounds pt of Some b \<Rightarrow> b | None \<Rightarrow> cp_max_rounds p)\<rparr>"

definition patch_fields :: "cron_lib \<Rightarrow> int \<Rightarrow> cron_job_patch \<Rightarrow> cron_job \<Rightarrow> cron_job" where
  "patch_fields lib now pt j =
     (let j1 = (case pt_name pt of Some n \<Rightarrow> j\<lparr>cj_name := n\<rparr> | None \<Rightarrow> j);
          j2 = (case pt_schedule pt of
                  Some x \<Rightarrow> (if cj_enabled j1 then set_next_run (compute_next_run lib x now) else id) (j1\<lparr>cj_schedule := x\<rparr>)
                | None \<Rightarrow> j1);
          j3 = j2\<lparr>cj_payload := patch_payload pt (cj_payload j2)\<rparr>;
          j4 = (case pt_enabled pt of
                  Some en \<Rightarrow> set_next_run (if en then compute_next_run lib (cj_schedule j3) now else None) (j3\<lparr>cj_enabled := en\<rparr>)
                | None \<Rightarrow> j3)
      in j4\<lparr>cj_updated_at_ms := now\<rparr>)"

definition patch_job :: "cron_lib \<Rightarrow> int \<Rightarrow> bool \<Rightarrow> str \<Rightarrow> cron_job_patch \<Rightarrow> cron_service \<Rightarrow> (cron_error + cron_job) \<times> cron_service" where
  "patch_job lib now ok i pt = edit_job ok i (patch_fields lib now pt)"

definition toggle_fields :: "cron_lib \<Rightarrow> int \<Rightarrow> cron_job \<Rightarrow> cron_job" where
  "toggle_fields lib now j =
     (let j1 = j\<lparr>cj_enabled := \<not> cj_enabled j\<rparr>;
          j2 = (if cj_enabled j1 then set_next_run (compute_next_run lib (cj_schedule j1) now) j1 else j1)
      in j2\<lparr>cj_updated_at_ms := now\<rparr>)"

definition toggle_job :: "cron_lib \<Rightarrow> int \<Rightarrow> bool \<Rightarrow> str \<Rightarrow> cron_service \<Rightarrow> (cron_error + bool) \<times> cron_service" where
  "toggle_job lib now ok i s = apfst (map_sum id cj_enabled) (edit_job ok i (toggle_fields lib now) s)"

definition enable_fields :: "cron_lib \<Rightarrow> int \<Rightarrow> bool \<Rightarrow> cron_job \<Rightarrow> cron_job" where
  "enable_fields lib now en j =
     (set_next_run (if en then compute_next_run lib (cj_schedule j) now else None) (j\<lparr>cj_enabled := en\<rparr>))\<lparr>cj_updated_at_ms := now\<rparr>"

definition enable_job :: "cron_lib \<Rightarrow> int \<Rightarrow> bool \<Rightarrow> str \<Rightarrow> bool \<Rightarrow> cron_service \<Rightarrow> (cron_error + cron_job) \<times> cron_service" where
  "enable_job lib now ok i en = edit_job ok i (enable_fields lib now en)"

text \<open>What a handler answers: nothing if there is none, an error, or a text.\<close>

type_synonym handled = "(str + str) option"

definition note_run :: "str \<Rightarrow> int \<Rightarrow> int \<Rightarrow> handled \<Rightarrow> cron_job \<Rightarrow> cron_job" where
  "note_run good start now r j =
     (let status = (case r of Some (Inl e) \<Rightarrow> ''error'' | _ \<Rightarrow> good);
          err = (case r of Some (Inl e) \<Rightarrow> Some e | _ \<Rightarrow> None)
      in j\<lparr>cj_updated_at_ms := now,
           cj_state := push_history start status err
             ((cj_state j)\<lparr>cst_last_run_at_ms := Some start, cst_last_status := Some status, cst_last_error := err\<rparr>)\<rparr>)"

definition execute_job :: "int \<Rightarrow> int \<Rightarrow> handled \<Rightarrow> bool \<Rightarrow> str \<Rightarrow> cron_service \<Rightarrow> (cron_error + unit) \<times> cron_service" where
  "execute_job start now r ok i s =
     (if find_job i (jobs_of s) = None then (Inl JobNotFound, s)
      else let s1 = with_jobs (modify_job i (note_run ''executed'' start now r)) s
           in case save_store ok s1 of Some s2 \<Rightarrow> (Inr (), s2) | None \<Rightarrow> (Inl SaveFailed, s1))"

definition list_jobs :: "bool \<Rightarrow> cron_service \<Rightarrow> cron_job list" where
  "list_jobs include_disabled s = (if include_disabled then jobs_of s else filter cj_enabled (jobs_of s))"

definition get_job :: "str \<Rightarrow> cron_service \<Rightarrow> cron_job option" where
  "get_job i s = find_job i (jobs_of s)"

definition next_wake :: "cron_service \<Rightarrow> int option" where
  "next_wake s =
     (let ns = List.map_filter next_run (filter cj_enabled (jobs_of s)) in if ns = [] then None else Some (foldl min (hd ns) (tl ns)))"

definition cron_status :: "cron_service \<Rightarrow> bool \<times> nat \<times> int option" where
  "cron_status s = (sv_running s, length (jobs_of s), next_wake s)"

definition reload_service :: "int \<Rightarrow> cron_service \<Rightarrow> (load_error + unit) \<times> cron_service" where
  "reload_service now s =
     (case load_file now (sv_file s) of Inl e \<Rightarrow> (Inl e, s) | Inr st \<Rightarrow> (Inr (), s\<lparr>sv_store := st\<rparr>))"

subsection \<open>The loop\<close>

text \<open>
  Once a second the loop takes the identifiers of the due jobs, clears their next runs in a section of its own, and
  then calls the handler for one after the other, without a lock; the outcome is entered in a section after each
  call.  Failures to write the file are ignored here.
\<close>

definition is_due :: "int \<Rightarrow> cron_job \<Rightarrow> bool" where
  "is_due now j \<longleftrightarrow> cj_enabled j \<and> (case next_run j of Some t \<Rightarrow> t \<le> now | None \<Rightarrow> False)"

definition reset_due :: "str list \<Rightarrow> cron_job list \<Rightarrow> cron_job list" where
  "reset_due due js = map (\<lambda>j. if cj_id j \<in> set due then set_next_run None j else j) js"

definition save_quietly :: "bool \<Rightarrow> cron_service \<Rightarrow> cron_service" where
  "save_quietly ok s = (case save_store ok s of Some s' \<Rightarrow> s' | None \<Rightarrow> s)"

definition finish_job :: "cron_lib \<Rightarrow> int \<Rightarrow> int \<Rightarrow> handled \<Rightarrow> cron_job \<Rightarrow> cron_job" where
  "finish_job lib start now r j =
     (let j1 = note_run ''ok'' start now r j
      in if cs_kind (cj_schedule j1) = ''at''
         then (if cj_delete_after_run j1 then j1 else set_next_run None (j1\<lparr>cj_enabled := False\<rparr>))
         else set_next_run (compute_next_run lib (cj_schedule j1) now) j1)"

definition after_fire :: "cron_lib \<Rightarrow> int \<Rightarrow> int \<Rightarrow> handled \<Rightarrow> str \<Rightarrow> cron_job list \<Rightarrow> cron_job list" where
  "after_fire lib start now r i js =
     filter (\<lambda>j. cj_id j \<noteq> i \<or> \<not> cj_delete_after_run j \<or> cst_last_status (cj_state j) \<noteq> Some ''ok'')
       (modify_job i (finish_job lib start now r) js)"

text \<open>The calls of a round, for a handler that does not change jobs itself, and the service after it.\<close>

fun fire_due :: "cron_lib \<Rightarrow> int \<Rightarrow> int \<Rightarrow> (cron_job \<Rightarrow> handled) \<Rightarrow> (str \<Rightarrow> bool) \<Rightarrow> str list \<Rightarrow> cron_service \<Rightarrow>
    cron_job list \<times> cron_service" where
  "fire_due lib start now h ok [] s = ([], s)"
| "fire_due lib start now h ok (i # due) s =
     (case find_job i (jobs_of s) of
        None \<Rightarrow> fire_due lib start now h ok due s
      | Some j \<Rightarrow>
          (case fire_due lib start now h ok due (save_quietly (ok i) (with_jobs (after_fire lib start now (h j) i) s)) of
             (calls, s') \<Rightarrow> (j # calls, s')))"

definition cron_tick :: "cron_lib \<Rightarrow> int \<Rightarrow> int \<Rightarrow> (cron_job \<Rightarrow> handled) \<Rightarrow> bool \<Rightarrow> (str \<Rightarrow> bool) \<Rightarrow> cron_service \<Rightarrow>
    cron_job list \<times> cron_service" where
  "cron_tick lib now fin h ok oks s =
     (if \<not> sv_running s \<or> sv_pending_arm s then ([], s)
      else let due = map cj_id (filter (is_due now) (jobs_of s))
           in if due = [] then ([], s)
              else fire_due lib now fin h oks due (save_quietly ok (with_jobs (reset_due due) s)))"

subsection \<open>The loop and the user, interleaved\<close>

text \<open>
  Where the loop is, with the instant of its tick.  An occurrence is a job with the next run that was found due.  The record
  adds the clock and, as a ghost, the occurrences for which the handler was called.  The loop of an earlier start has
  ended when the service is started again.  An operation of a user, with its write to the file and the rollback of a failed one, is one step.
\<close>

type_synonym occurrence = "str \<times> int"

datatype loop_pc =
    Waiting
  | Snapshot int "occurrence list"
  | Firing int "occurrence list"
  | Calling int occurrence cron_job "occurrence list"

record cron_world =
  cw_service :: cron_service
  cw_now :: int
  cw_pc :: loop_pc
  cw_fired :: "occurrence list"

definition tame :: "cron_schedule \<Rightarrow> bool" where
  "tame sch \<longleftrightarrow> (case cs_every_ms sch of Some ms \<Rightarrow> ms < 2 ^ 62 | None \<Rightarrow> True)"

definition cron_documented :: "cron_lib \<Rightarrow> bool" where
  "cron_documented lib \<longleftrightarrow> (\<forall>e z now n. cl_next lib e z now = Some n \<longrightarrow> now < n)"

definition occurrences :: "int \<Rightarrow> cron_job list \<Rightarrow> occurrence list" where
  "occurrences now js = map (\<lambda>j. (cj_id j, the (next_run j))) (filter (is_due now) js)"

abbreviation on_service :: "(cron_service \<Rightarrow> cron_service) \<Rightarrow> cron_world \<Rightarrow> cron_world" where
  "on_service f w \<equiv> w\<lparr>cw_service := f (cw_service w)\<rparr>"

inductive cron_step :: "cron_lib \<Rightarrow> cron_world \<Rightarrow> cron_world \<Rightarrow> bool" for lib where
  Clock: "cw_now w \<le> n \<Longrightarrow> n < 2 ^ 62 \<Longrightarrow> cron_step lib w (w\<lparr>cw_now := n\<rparr>)"
| Tick: "cw_pc w = Waiting \<Longrightarrow> sv_running (cw_service w) \<Longrightarrow> \<not> sv_pending_arm (cw_service w) \<Longrightarrow>
    occurrences (cw_now w) (jobs_of (cw_service w)) \<noteq> [] \<Longrightarrow>
    cron_step lib w (w\<lparr>cw_pc := Snapshot (cw_now w) (occurrences (cw_now w) (jobs_of (cw_service w)))\<rparr>)"
| Reset: "cw_pc w = Snapshot t occs \<Longrightarrow>
    cron_step lib w (on_service (\<lambda>s. save_quietly ok (with_jobs (reset_due (map fst occs)) s)) w\<lparr>cw_pc := Firing t occs\<rparr>)"
| Call: "cw_pc w = Firing t (x # occs) \<Longrightarrow> find_job (fst x) (jobs_of (cw_service w)) = Some j \<Longrightarrow>
    cron_step lib w (w\<lparr>cw_pc := Calling t x j occs, cw_fired := cw_fired w @ [x]\<rparr>)"
| Gone: "cw_pc w = Firing t (x # occs) \<Longrightarrow> find_job (fst x) (jobs_of (cw_service w)) = None \<Longrightarrow>
    cron_step lib w (w\<lparr>cw_pc := Firing t occs\<rparr>)"
| Return: "cw_pc w = Calling t x j occs \<Longrightarrow>
    cron_step lib w (on_service (\<lambda>s. save_quietly ok (with_jobs (after_fire lib t (cw_now w) r (fst x)) s)) w\<lparr>cw_pc := Firing t occs\<rparr>)"
| Done: "cw_pc w = Firing t [] \<Longrightarrow> cron_step lib w (w\<lparr>cw_pc := Waiting\<rparr>)"
| Start: "cw_pc w = Waiting \<Longrightarrow> cron_step lib w (on_service (\<lambda>s. snd (start_service lib (cw_now w) ok s)) w)"
| Stop: "cron_step lib w (on_service stop_service w)"
| Arm: "cron_step lib w (on_service arm w)"
| Add: "i \<notin> cj_id ` set (jobs_of (cw_service w)) \<Longrightarrow> tame (jq_schedule q) \<Longrightarrow>
    cron_step lib w (on_service (\<lambda>s. snd (add_job_ext lib (cw_now w) i q ok s)) w)"
| Remove: "cron_step lib w (on_service (\<lambda>s. snd (remove_job i ok s)) w)"
| Update: "(case sch of Some x \<Rightarrow> tame x | None \<Rightarrow> True) \<Longrightarrow>
    cron_step lib w (on_service (\<lambda>s. snd (update_job lib (cw_now w) ok i name sch s)) w)"
| Patch: "(case pt_schedule pt of Some x \<Rightarrow> tame x | None \<Rightarrow> True) \<Longrightarrow>
    cron_step lib w (on_service (\<lambda>s. snd (patch_job lib (cw_now w) ok i pt s)) w)"
| Toggle: "cron_step lib w (on_service (\<lambda>s. snd (toggle_job lib (cw_now w) ok i s)) w)"
| Enable: "cron_step lib w (on_service (\<lambda>s. snd (enable_job lib (cw_now w) ok i en s)) w)"
| Execute: "cron_step lib w (on_service (\<lambda>s. snd (execute_job t (cw_now w) r ok i s)) w)"

subsection \<open>Lemmas: one job\<close>

lemma set_next_run_simps [simp]:
  "cj_id (set_next_run n j) = cj_id j" "cj_schedule (set_next_run n j) = cj_schedule j" "next_run (set_next_run n j) = n"
  "cj_enabled (set_next_run n j) = cj_enabled j" "cj_delete_after_run (set_next_run n j) = cj_delete_after_run j"
  "cst_last_status (cj_state (set_next_run n j)) = cst_last_status (cj_state j)"
  by (simp_all add: set_next_run_def)

lemma push_history_simps [simp]:
  "cst_next_run_at_ms (push_history t a b st) = cst_next_run_at_ms st" "cst_last_status (push_history t a b st) = cst_last_status st"
  by (simp_all add: push_history_def Let_def)

lemma note_run_simps [simp]:
  "cj_id (note_run a t n r j) = cj_id j" "cj_schedule (note_run a t n r j) = cj_schedule j" "next_run (note_run a t n r j) = next_run j"
  "cj_enabled (note_run a t n r j) = cj_enabled j" "cj_delete_after_run (note_run a t n r j) = cj_delete_after_run j"
  "cst_last_status (cj_state (note_run a t n r j)) = Some (case r of Some (Inl e) \<Rightarrow> ''error'' | _ \<Rightarrow> a)"
  by (simp_all add: note_run_def Let_def)

lemma jobs_with_jobs [simp]: "jobs_of (with_jobs f s) = f (jobs_of s)" "sv_pending_arm (with_jobs f s) = sv_pending_arm s"
    "sv_running (with_jobs f s) = sv_running s" "sv_file (with_jobs f s) = sv_file s"
  by (simp_all add: with_jobs_def)

lemma save_store_simps [simp]: "save_store True s = Some (s\<lparr>sv_file := Envelope (sv_store s)\<rparr>)" "save_store False s = None"
  by (simp_all add: save_store_def)

lemma save_quietly_simps [simp]: "jobs_of (save_quietly ok s) = jobs_of s" "sv_pending_arm (save_quietly ok s) = sv_pending_arm s"
    "sv_running (save_quietly ok s) = sv_running s"
  by (cases ok; simp add: save_quietly_def)+

text \<open>A next run that is computed lies in the future.\<close>

lemma compute_next_run_future:
  assumes "cron_documented lib" "tame sch" "0 \<le> now" "now < 2 ^ 62" "compute_next_run lib sch now = Some n"
  shows "now < n"
proof -
  have "wrap_i64 (now + ms) = now + ms" if "0 < ms" "ms < 2 ^ 62" for ms
    using that assms(3,4) by (simp add: wrap_i64_def)
  then show ?thesis using assms
    by (auto simp: compute_next_run_def tame_def cron_documented_def split: if_splits option.splits)
qed

lemma find_job_Some: "find_job i js = Some j \<Longrightarrow> j \<in> set js \<and> cj_id j = i"
  by (auto simp: find_job_def find_Some_iff)

lemma find_job_None: "find_job i js = None \<longleftrightarrow> i \<notin> cj_id ` set js"
  by (auto simp: find_job_def find_None_iff)

lemma find_job_Cons [simp]: "find_job i (j # js) = (if cj_id j = i then Some j else find_job i js)" "find_job i [] = None"
  by (simp_all add: find_job_def)

lemma find_job_distinct:
  "distinct (map cj_id js) \<Longrightarrow> j \<in> set js \<Longrightarrow> find_job (cj_id j) js = Some j"
  by (induction js) auto

lemma modify_job_ids:
  "(\<And>j. cj_id (f j) = cj_id j) \<Longrightarrow> map cj_id (modify_job i f js) = map cj_id js"
  by (induction js) auto

lemma modify_job_back:
  "find_job i js = Some b \<Longrightarrow> cj_id (f b) = i \<Longrightarrow> modify_job i (\<lambda>_. b) (modify_job i f js) = js"
  by (induction js) (auto split: if_splits)

lemma modify_job_set: "x \<in> set (modify_job i f js) \<Longrightarrow> x \<in> set js \<or> (\<exists>j \<in> set js. cj_id j = i \<and> x = f j)"
  by (induction js) (auto split: if_splits)

lemma modify_job_absent: "i \<notin> cj_id ` set js \<Longrightarrow> modify_job i f js = js"
  by (induction js) auto

lemma fields_ids [simp]:
  "cj_id (update_fields lib now name sch j) = cj_id j" "cj_id (patch_fields lib now pt j) = cj_id j"
  "cj_id (toggle_fields lib now j) = cj_id j" "cj_id (enable_fields lib now en j) = cj_id j"
  "cj_id (finish_job lib t now r j) = cj_id j" "cj_id (recompute_job lib d now j) = cj_id j"
  by (auto simp: update_fields_def patch_fields_def toggle_fields_def enable_fields_def finish_job_def recompute_job_def Let_def
      split: option.splits)

subsection \<open>Failed writes\<close>

lemma edit_job_failed:
  assumes "\<And>j. cj_id (f j) = cj_id j"
  shows "snd (edit_job False i f s) = s"
proof (cases "find_job i (jobs_of s)")
  case (Some b)
  then have "cj_id (f b) = i" using assms find_job_Some by simp
  from modify_job_back [where f = f, OF Some this] Some show ?thesis by (simp add: edit_job_def Let_def with_jobs_def)
qed (simp add: edit_job_def)

lemma position_Some:
  "position P xs = Some n \<Longrightarrow> n < length xs \<and> P (xs ! n)"
proof -
  have "find_index_from k P xs = Some (m, x) \<Longrightarrow> k \<le> m \<and> m - k < length xs \<and> P (xs ! (m - k))" for k m x
  proof (induction xs arbitrary: k)
    case (Cons y ys)
    show ?case
    proof (cases "P y")
      case False
      then have "Suc k \<le> m \<and> m - Suc k < length ys \<and> P (ys ! (m - Suc k))" using Cons by simp
      then show ?thesis using Cons.prems False by (auto simp: nth_Cons' Suc_diff_Suc)
    qed (use Cons.prems in auto)
  qed simp
  from this [of 0 n] show "position P xs = Some n \<Longrightarrow> n < length xs \<and> P (xs ! n)"
    by (auto simp: position_def)
qed

lemma failed_add: "i \<notin> cj_id ` set (jobs_of s) \<Longrightarrow> snd (add_job_ext lib now i q False s) = s"
proof -
  assume "i \<notin> cj_id ` set (jobs_of s)"
  then have "filter (\<lambda>j. cj_id j \<noteq> i) (jobs_of s) = jobs_of s" by (auto intro!: filter_True)
  then show ?thesis by (simp add: add_job_ext_def Let_def with_jobs_def new_job_def)
qed

lemma failed_remove: "snd (remove_job k False s) = s"
proof (cases "position (\<lambda>j. cj_id j = k) (jobs_of s)")
  case (Some n)
  then have n: "n < length (jobs_of s)" using position_Some by blast
  then have "min n (length (take n (jobs_of s) @ drop (Suc n) (jobs_of s))) = n" by simp
  then show ?thesis using Some n
    by (simp add: remove_job_def Let_def with_jobs_def min_def id_take_nth_drop [symmetric])
qed (simp add: remove_job_def)


subsection \<open>Lemmas: what a change of the jobs keeps\<close>

text \<open>
  A new list of jobs: distinct identifiers, tame schedules, and every next run is none, in the future, or the one
  the job had before.
\<close>

definition evolves :: "int \<Rightarrow> cron_job list \<Rightarrow> cron_job list \<Rightarrow> bool" where
  "evolves now js js' \<longleftrightarrow> distinct (map cj_id js') \<and>
     (\<forall>j \<in> set js'. tame (cj_schedule j) \<and>
        ((\<forall>n. next_run j = Some n \<longrightarrow> now < n) \<or> (\<exists>k \<in> set js. cj_id k = cj_id j \<and> next_run k = next_run j)))"

definition sound_jobs :: "cron_job list \<Rightarrow> bool" where
  "sound_jobs js \<longleftrightarrow> distinct (map cj_id js) \<and> (\<forall>j \<in> set js. tame (cj_schedule j))"

lemma evolves_refl: "sound_jobs js \<Longrightarrow> evolves now js js"
  by (auto simp: sound_jobs_def evolves_def)

text \<open>A change of one job: it keeps the identifier, and its next run is as above.\<close>

definition proper_change :: "int \<Rightarrow> (cron_job \<Rightarrow> cron_job) \<Rightarrow> bool" where
  "proper_change now f \<longleftrightarrow> (\<forall>j. cj_id (f j) = cj_id j \<and>
     (tame (cj_schedule j) \<longrightarrow> tame (cj_schedule (f j)) \<and> ((\<forall>n. next_run (f j) = Some n \<longrightarrow> now < n) \<or> next_run (f j) = next_run j)))"

lemma evolves_map: "sound_jobs js \<Longrightarrow> proper_change now f \<Longrightarrow> evolves now js (map f js)"
  by (fastforce simp: sound_jobs_def proper_change_def evolves_def comp_def)

lemma modify_job_map: "distinct (map cj_id js) \<Longrightarrow> modify_job i f js = map (\<lambda>j. if cj_id j = i then f j else j) js"
proof (induction js)
  case (Cons j js)
  then have "map (\<lambda>j. if cj_id j = i then f j else j) js = js" if "cj_id j = i"
    using that by (intro map_idI) (auto simp: image_iff)
  then show ?case using Cons by auto
qed simp

lemma evolves_modify: "sound_jobs js \<Longrightarrow> proper_change now f \<Longrightarrow> evolves now js (modify_job i f js)"
  using evolves_map [of js now "\<lambda>j. if cj_id j = i then f j else j"]
  by (simp add: modify_job_map sound_jobs_def proper_change_def)

lemma evolves_filter: "evolves now js js' \<Longrightarrow> evolves now js (filter P js')"
  by (auto simp: evolves_def distinct_map inj_on_def)

lemma evolves_remove: "sound_jobs js \<Longrightarrow> evolves now js (take n js @ drop (Suc n) js)"
proof -
  assume s: "sound_jobs js"
  have "distinct (map cj_id (take n js @ drop (Suc n) js))"
    using s set_take_disj_set_drop_if_distinct [of "map cj_id js" n "Suc n"] by (simp add: sound_jobs_def flip: take_map drop_map)
  then show ?thesis using s by (auto simp: sound_jobs_def evolves_def dest: in_set_takeD in_set_dropD)
qed

lemma evolves_edit:
  assumes "sound_jobs (jobs_of s)" "proper_change now f"
  shows "evolves now (jobs_of s) (jobs_of (snd (edit_job ok i f s)))"
proof (cases ok)
  case True
  then show ?thesis using assms by (auto simp: edit_job_def Let_def evolves_refl evolves_modify split: option.splits)
next
  case False
  then have "snd (edit_job ok i f s) = s" using assms(2) by (simp add: edit_job_failed proper_change_def)
  then show ?thesis using assms(1) by (simp add: evolves_refl)
qed

lemma proper_changes:
  assumes "cron_documented lib" "0 \<le> now" "now < 2 ^ 62"
  shows "(case sch of Some x \<Rightarrow> tame x | None \<Rightarrow> True) \<Longrightarrow> proper_change now (update_fields lib now name sch)"
    "(case pt_schedule pt of Some x \<Rightarrow> tame x | None \<Rightarrow> True) \<Longrightarrow> proper_change now (patch_fields lib now pt)"
    "proper_change now (toggle_fields lib now)" "proper_change now (enable_fields lib now en)"
    "proper_change now (finish_job lib t now r)" "proper_change now (note_run a t now r)" "proper_change now (recompute_job lib False now)"
proof -
  note future = compute_next_run_future [OF assms(1) _ assms(2,3)]
  show "(case sch of Some x \<Rightarrow> tame x | None \<Rightarrow> True) \<Longrightarrow> proper_change now (update_fields lib now name sch)"
    by (auto simp: proper_change_def update_fields_def Let_def future split: option.splits)
  show "(case pt_schedule pt of Some x \<Rightarrow> tame x | None \<Rightarrow> True) \<Longrightarrow> proper_change now (patch_fields lib now pt)"
    by (auto simp: proper_change_def patch_fields_def Let_def future split: option.splits)
  show "proper_change now (toggle_fields lib now)" "proper_change now (enable_fields lib now en)"
    "proper_change now (finish_job lib t now r)" "proper_change now (note_run a t now r)" "proper_change now (recompute_job lib False now)"
    by (auto simp: proper_change_def toggle_fields_def enable_fields_def finish_job_def recompute_job_def Let_def future)
qed

subsection \<open>An occurrence is handled once\<close>

definition open_occurrences :: "loop_pc \<Rightarrow> occurrence list" where
  "open_occurrences pc = (case pc of Waiting \<Rightarrow> [] | Snapshot _ occs \<Rightarrow> occs | Firing _ occs \<Rightarrow> occs | Calling _ _ _ occs \<Rightarrow> occs)"

definition cleared_pc :: "loop_pc \<Rightarrow> bool" where
  "cleared_pc pc \<longleftrightarrow> (case pc of Snapshot _ _ \<Rightarrow> False | _ \<Rightarrow> True)"

definition planned :: "cron_job list \<Rightarrow> occurrence set" where
  "planned js = {(cj_id j, n) | j n. j \<in> set js \<and> next_run j = Some n}"

definition once_inv :: "cron_world \<Rightarrow> bool" where
  "once_inv w \<longleftrightarrow>
     sound_jobs (jobs_of (cw_service w)) \<and> 0 \<le> cw_now w \<and> cw_now w < 2 ^ 62 \<and>
     distinct (cw_fired w @ open_occurrences (cw_pc w)) \<and>
     (\<forall>(i, n) \<in> set (cw_fired w @ open_occurrences (cw_pc w)). n \<le> cw_now w) \<and>
     planned (jobs_of (cw_service w)) \<inter> set (cw_fired w) = {} \<and>
     (cleared_pc (cw_pc w) \<longrightarrow> planned (jobs_of (cw_service w)) \<inter> set (open_occurrences (cw_pc w)) = {}) \<and>
     (sv_pending_arm (cw_service w) \<longrightarrow> cw_fired w = [] \<and> cw_pc w = Waiting)"

lemma evolves_planned: "evolves now js js' \<Longrightarrow> (i, n) \<in> planned js' \<Longrightarrow> now < n \<or> (i, n) \<in> planned js"
  by (force simp: evolves_def planned_def)

lemma evolves_sound: "evolves now js js' \<Longrightarrow> sound_jobs js'"
  by (auto simp: evolves_def sound_jobs_def)

text \<open>Every change of the jobs that is proper in the sense above, whatever the loop is doing.\<close>

lemma once_inv_evolves:
  assumes "once_inv w" "evolves (cw_now w) (jobs_of (cw_service w)) (jobs_of s)" "sv_pending_arm s \<longrightarrow> sv_pending_arm (cw_service w)"
  shows "once_inv (w\<lparr>cw_service := s\<rparr>)"
proof -
  have "planned (jobs_of s) \<inter> X = {}"
    if "planned (jobs_of (cw_service w)) \<inter> X = {}" "\<forall>(i, n) \<in> X. n \<le> cw_now w" for X
    using evolves_planned [OF assms(2)] that by fastforce
  then show ?thesis using assms evolves_sound [OF assms(2)] unfolding once_inv_def by auto
qed

lemma planned_reset: "planned (reset_due due js) = {x \<in> planned js. fst x \<notin> set due}"
  by (force simp: planned_def reset_due_def split: if_splits)

lemma sound_reset: "sound_jobs js \<Longrightarrow> sound_jobs (reset_due due js)"
  by (auto simp: sound_jobs_def reset_due_def comp_def if_distrib cong: if_cong)

lemma occurrences_planned: "set (occurrences now js) \<subseteq> planned js \<inter> {x. snd x \<le> now}"
  by (auto simp: occurrences_def planned_def is_due_def split: option.splits)

lemma occurrences_distinct: "distinct (map cj_id js) \<Longrightarrow> distinct (occurrences now js)"
  by (auto simp: occurrences_def distinct_map inj_on_def)

lemma once_inv_loop:
  assumes "once_inv w"
  shows "cw_pc w = Waiting \<Longrightarrow> \<not> sv_pending_arm (cw_service w) \<Longrightarrow>
      once_inv (w\<lparr>cw_pc := Snapshot (cw_now w) (occurrences (cw_now w) (jobs_of (cw_service w)))\<rparr>)"
    "cw_pc w = Snapshot t occs \<Longrightarrow>
      once_inv (w\<lparr>cw_service := save_quietly ok (with_jobs (reset_due (map fst occs)) (cw_service w)), cw_pc := Firing t occs\<rparr>)"
    "cw_pc w = Firing t (x # occs) \<Longrightarrow> once_inv (w\<lparr>cw_pc := Calling t x j occs, cw_fired := cw_fired w @ [x]\<rparr>)"
    "cw_pc w = Firing t (x # occs) \<Longrightarrow> once_inv (w\<lparr>cw_pc := Firing t occs\<rparr>)"
    "cw_pc w = Calling t x j occs \<Longrightarrow> once_inv (w\<lparr>cw_pc := Firing t occs\<rparr>)"
    "cw_pc w = Firing t [] \<Longrightarrow> once_inv (w\<lparr>cw_pc := Waiting\<rparr>)"
proof -
  let ?js = "jobs_of (cw_service w)"
  show "once_inv (w\<lparr>cw_pc := Snapshot (cw_now w) (occurrences (cw_now w) ?js)\<rparr>)"
    if "cw_pc w = Waiting" "\<not> sv_pending_arm (cw_service w)"
    using assms that occurrences_planned [of "cw_now w" ?js] occurrences_distinct [of ?js "cw_now w"]
    by (fastforce simp: once_inv_def open_occurrences_def cleared_pc_def sound_jobs_def)
  show "once_inv (w\<lparr>cw_service := save_quietly ok (with_jobs (reset_due (map fst occs)) (cw_service w)), cw_pc := Firing t occs\<rparr>)"
    if "cw_pc w = Snapshot t occs"
    using assms that by (fastforce simp: once_inv_def open_occurrences_def planned_reset sound_reset)
  show "cw_pc w = Firing t (x # occs) \<Longrightarrow> once_inv (w\<lparr>cw_pc := Calling t x j occs, cw_fired := cw_fired w @ [x]\<rparr>)"
    "cw_pc w = Firing t (x # occs) \<Longrightarrow> once_inv (w\<lparr>cw_pc := Firing t occs\<rparr>)"
    "cw_pc w = Calling t x j occs \<Longrightarrow> once_inv (w\<lparr>cw_pc := Firing t occs\<rparr>)"
    "cw_pc w = Firing t [] \<Longrightarrow> once_inv (w\<lparr>cw_pc := Waiting\<rparr>)"
    using assms by (auto simp: once_inv_def open_occurrences_def cleared_pc_def)
qed

lemma once_inv_start:
  assumes "once_inv w" "cron_documented lib" "cw_pc w = Waiting"
  shows "once_inv (w\<lparr>cw_service := snd (start_service lib (cw_now w) ok (cw_service w))\<rparr>)"
proof (cases "sv_running (cw_service w)")
  case True
  then show ?thesis using assms(1) by (simp add: start_service_def)
next
  case False
  let ?s = "cw_service w"
  have arm: "sv_pending_arm (snd (start_service lib (cw_now w) ok ?s)) = sv_pending_arm ?s"
    and jobs: "jobs_of (snd (start_service lib (cw_now w) ok ?s)) = map (recompute_job lib (sv_pending_arm ?s) (cw_now w)) (jobs_of ?s)"
    using False by (cases ok; simp add: start_service_def Let_def recompute_next_runs_def)+
  show ?thesis
  proof (cases "sv_pending_arm ?s")
    case True
    have "cj_schedule (recompute_job lib True (cw_now w) j) = cj_schedule j" for j by (simp add: recompute_job_def Let_def)
    then have "sound_jobs (map (recompute_job lib True (cw_now w)) js)" if "sound_jobs js" for js
      using that by (simp add: sound_jobs_def comp_def)
    then show ?thesis using assms True arm jobs
      by (auto simp: once_inv_def open_occurrences_def cleared_pc_def)
  next
    case False
    have "proper_change (cw_now w) (recompute_job lib False (cw_now w))"
      using assms(1,2) by (intro proper_changes) (simp_all add: once_inv_def)
    then have "evolves (cw_now w) (jobs_of ?s) (map (recompute_job lib False (cw_now w)) (jobs_of ?s))"
      using assms(1) by (intro evolves_map) (simp_all add: once_inv_def)
    then show ?thesis using once_inv_evolves [OF assms(1)] arm jobs False by simp
  qed
qed

lemma evolves_add:
  assumes "sound_jobs (jobs_of s)" "cron_documented lib" "0 \<le> now" "now < 2 ^ 62" "i \<notin> cj_id ` set (jobs_of s)" "tame (jq_schedule q)"
  shows "evolves now (jobs_of s) (jobs_of (snd (add_job_ext lib now i q ok s)))"
proof (cases ok)
  case True
  have "n > now" if "next_run (new_job lib now i q) = Some n" for n
    using that compute_next_run_future [OF assms(2,6,3,4)] by (auto simp: new_job_def split: if_splits)
  moreover have "cj_id (new_job lib now i q) = i" "cj_schedule (new_job lib now i q) = jq_schedule q" by (simp_all add: new_job_def)
  ultimately show ?thesis using True assms(1,5,6) by (auto simp: add_job_ext_def Let_def evolves_def sound_jobs_def)
next
  case False
  then have "snd (add_job_ext lib now i q ok s) = s" using failed_add assms(5) by simp
  then show ?thesis using assms(1) by (simp add: evolves_refl)
qed

lemma service_flags:
  "sv_pending_arm (snd (add_job_ext lib now i q ok s)) = sv_pending_arm s" "sv_pending_arm (snd (remove_job i ok s)) = sv_pending_arm s"
  "sv_pending_arm (snd (edit_job ok i f s)) = sv_pending_arm s" "sv_pending_arm (snd (execute_job t now r ok i s)) = sv_pending_arm s"
  by (cases ok; simp add: add_job_ext_def remove_job_def edit_job_def execute_job_def Let_def split: option.split)+

lemma once_inv_step:
  assumes "once_inv w" "cron_documented lib" "cron_step lib w w'"
  shows "once_inv w'"
proof -
  let ?s = "cw_service w" and ?now = "cw_now w"
  have b: "sound_jobs (jobs_of ?s)" "0 \<le> ?now" "?now < 2 ^ 62" using assms(1) by (simp_all add: once_inv_def)
  note evolve = once_inv_evolves [OF assms(1)]
  note proper = proper_changes [OF assms(2) b(2,3)]
  have edit: "once_inv (w\<lparr>cw_service := snd (edit_job ok i f ?s)\<rparr>)" if "proper_change ?now f" for ok i f
    by (rule evolve) (simp_all add: evolves_edit b that service_flags)
  show ?thesis using assms(3)
  proof cases
    case (Clock n)
    have "\<forall>x \<in> set (cw_fired w @ open_occurrences (cw_pc w)). snd x \<le> cw_now w"
      using assms(1) unfolding once_inv_def by (metis (mono_tags, lifting) case_prod_beta)
    then have "\<forall>x \<in> set (cw_fired w @ open_occurrences (cw_pc w)). snd x \<le> n" using Clock(2) order_trans by blast
    then have "\<forall>(i, m) \<in> set (cw_fired w @ open_occurrences (cw_pc w)). m \<le> n" by (auto simp: Ball_def)
    with Clock show ?thesis using assms(1) by (simp add: once_inv_def)
  next
    case (Return t x j occs ok r)
    have "evolves ?now (jobs_of ?s) (after_fire lib t ?now r (fst x) (jobs_of ?s))"
      unfolding after_fire_def by (intro evolves_filter evolves_modify b proper)
    then have "once_inv (w\<lparr>cw_service := save_quietly ok (with_jobs (after_fire lib t ?now r (fst x)) ?s)\<rparr>)" by (intro evolve) simp_all
    from once_inv_loop(5) [OF this] show ?thesis using Return by simp
  next
    case (Add i q ok)
    then show ?thesis using evolves_add [OF b(1) assms(2) b(2,3)] by (auto simp: service_flags intro!: evolve)
  next
    case (Remove i ok)
    have "evolves ?now (jobs_of ?s) (jobs_of (snd (remove_job i ok ?s)))"
    proof (cases ok)
      case True
      then show ?thesis by (auto simp: remove_job_def Let_def evolves_refl evolves_remove b split: option.split)
    qed (simp add: failed_remove evolves_refl b)
    then show ?thesis using Remove by (auto simp: service_flags intro!: evolve)
  next
    case (Execute t r ok i)
    have "evolves ?now (jobs_of ?s) (jobs_of (snd (execute_job t ?now r ok i ?s)))"
      by (cases ok) (auto simp: execute_job_def Let_def intro!: evolves_refl evolves_modify b proper)
    then show ?thesis using Execute by (auto simp: service_flags intro!: evolve)
  qed (use assms(1,2) in \<open>auto simp: once_inv_loop once_inv_start update_job_def patch_job_def toggle_job_def enable_job_def
      stop_service_def arm_def intro!: edit proper, auto simp: once_inv_def\<close>)
qed

interpretation cron: transition_invariant
  "\<lambda>w. \<exists>now f. cron_documented lib \<and> w = \<lparr>cw_service = new_service now f, cw_now = now, cw_pc = Waiting, cw_fired = []\<rparr> \<and>
     sound_jobs (jobs_of (new_service now f)) \<and> 0 \<le> now \<and> now < 2 ^ 62"
  "cron_step lib" "\<lambda>w. cron_documented lib \<and> once_inv w"
proof
  show "cron_documented lib \<and> once_inv w"
    if "\<exists>now f. cron_documented lib \<and> w = \<lparr>cw_service = new_service now f, cw_now = now, cw_pc = Waiting, cw_fired = []\<rparr> \<and>
     sound_jobs (jobs_of (new_service now f)) \<and> 0 \<le> now \<and> now < 2 ^ 62" for w
    using that by (auto simp: once_inv_def open_occurrences_def)
qed (use once_inv_step in blast)


subsection \<open>A round calls the jobs that are due\<close>

lemma after_fire_other: "i \<noteq> k \<Longrightarrow> find_job k (after_fire lib t now r i js) = find_job k js"
proof -
  assume ik: "i \<noteq> k"
  have "find_job k (filter P js) = find_job k js" if "\<And>j. cj_id j = k \<Longrightarrow> P j" for P js
    using that by (induction js) auto
  moreover have "find_job k (modify_job i f js) = find_job k js" if "\<And>j. cj_id (f j) = cj_id j" for f js
    using that ik by (induction js) auto
  ultimately show ?thesis using ik by (simp add: after_fire_def)
qed

lemma map_filter_same: "(\<And>x. x \<in> set xs \<Longrightarrow> f x = g x) \<Longrightarrow> List.map_filter f xs = List.map_filter g xs"
  by (induction xs) (auto simp: List.map_filter_simps split: option.split)

lemma map_filter_total: "(\<And>x. x \<in> set xs \<Longrightarrow> f x = Some (g x)) \<Longrightarrow> List.map_filter f xs = map g xs"
  by (induction xs) (simp_all add: List.map_filter_simps)

lemma map_filter_of_map: "List.map_filter f (map g xs) = List.map_filter (\<lambda>x. f (g x)) xs"
  by (induction xs) (auto simp: List.map_filter_simps split: option.split)

lemma fire_due_calls:
  "distinct due \<Longrightarrow> fst (fire_due lib t now h ok due s) = List.map_filter (\<lambda>i. find_job i (jobs_of s)) due"
proof (induction due arbitrary: s)
  case (Cons i due)
  let ?s = "\<lambda>j. save_quietly (ok i) (with_jobs (after_fire lib t now (h j) i) s)"
  have "List.map_filter (\<lambda>k. find_job k (jobs_of (?s j))) due = List.map_filter (\<lambda>k. find_job k (jobs_of s)) due" for j
    using Cons.prems by (intro map_filter_same) (simp, metis after_fire_other)
  moreover have "fst (fire_due lib t now h ok due (?s j)) = List.map_filter (\<lambda>k. find_job k (jobs_of (?s j))) due" for j
    using Cons by simp
  ultimately show ?case using Cons
    by (cases "find_job i (jobs_of s)") (simp_all add: List.map_filter_simps case_prod_beta)
qed (simp add: List.map_filter_simps)

lemma round_calls:
  assumes "distinct (map cj_id (jobs_of s))"
  shows "fst (cron_tick lib now fin h ok oks s) =
    (if sv_running s \<and> \<not> sv_pending_arm s
     then map (set_next_run None) (filter (is_due now) (jobs_of s)) else [])"
proof -
  let ?js = "jobs_of s"
  let ?due = "map cj_id (filter (is_due now) ?js)"
  have d: "distinct ?due" using assms by (auto simp: distinct_map inj_on_def)
  have dr: "distinct (map cj_id (reset_due ?due ?js))" using assms by (simp add: reset_due_def comp_def if_distrib cong: if_cong)
  have "find_job (cj_id j) (reset_due ?due ?js) = Some (set_next_run None j)" if "j \<in> set ?js" "is_due now j" for j
  proof -
    have "set_next_run None j \<in> set (reset_due ?due ?js)" using that by (auto simp: reset_due_def intro!: image_eqI [of _ _ j])
    from find_job_distinct [OF dr this] show ?thesis by simp
  qed
  then have "List.map_filter (\<lambda>i. find_job i (reset_due ?due ?js)) ?due = map (set_next_run None) (filter (is_due now) ?js)"
    unfolding map_filter_of_map by (intro map_filter_total) auto
  then show ?thesis using fire_due_calls [OF d] by (simp add: cron_tick_def Let_def)
qed

text \<open>
  C40: A round that nobody interferes with calls the handler exactly for the jobs that are enabled and due, once each and in
  the order of the list; before the service is started and armed it calls none.
\<close>

theorem tick_calls_due:
  assumes "distinct (map cj_id (jobs_of s))"
  shows "fst (cron_tick lib now fin h ok oks s) =
    (if sv_running s \<and> \<not> sv_pending_arm s
     then map (set_next_run None) (filter (\<lambda>j. cj_enabled j \<and> (\<exists>t \<le> now. next_run j = Some t)) (jobs_of s)) else [])"
proof -
  have "is_due now = (\<lambda>j. cj_enabled j \<and> (\<exists>t \<le> now. next_run j = Some t))"
    by (auto simp: is_due_def fun_eq_iff split: option.split)
  then show ?thesis using round_calls [OF assms] by simp
qed

text \<open>
  A job for one instant that passed while the program was not running is not lost: after the start and once the service is
  armed, the first round calls it, and no round calls it before.
\<close>

theorem missed_job_called:
  assumes "distinct (map cj_id (st_jobs st))" "j \<in> set (st_jobs st)" "cj_enabled j" "cs_kind (cj_schedule j) = ''at''"
    and "cs_at_ms (cj_schedule j) = Some t" "t \<le> now"
    and "s = snd (start_service lib started True (new_service loaded (Envelope st)))"
  shows "fst (cron_tick lib now fin h ok oks s) = [] \<and> cj_id j \<in> cj_id ` set (fst (cron_tick lib now fin h ok oks (arm s)))"
proof -
  have js: "jobs_of s = map (recompute_job lib True started) (st_jobs st)" "sv_running s" "sv_pending_arm s"
    using assms(7) by (simp_all add: start_service_def Let_def new_service_def load_file_def recompute_next_runs_def)
  have d: "distinct (map cj_id (jobs_of (arm s)))" using assms(1) js(1) by (simp add: arm_def comp_def)
  have "next_run (recompute_job lib True started j) = Some t" "cj_enabled (recompute_job lib True started j)"
    using assms(3-5) by (simp_all add: recompute_job_def Let_def compute_next_run_def)
  then have "is_due now (recompute_job lib True started j)" using assms(6) by (simp add: is_due_def)
  then have "set_next_run None (recompute_job lib True started j) \<in> set (map (set_next_run None) (filter (is_due now) (jobs_of (arm s))))"
    using assms(2) js(1) by (auto simp: arm_def)
  then have "set_next_run None (recompute_job lib True started j) \<in> set (fst (cron_tick lib now fin h ok oks (arm s)))"
    unfolding round_calls [OF d] using js by (simp add: arm_def)
  from imageI [OF this, of cj_id] show ?thesis using js(3) by (simp add: cron_tick_def)
qed

subsection \<open>The history of a job\<close>

definition latest_runs :: "'a list \<Rightarrow> 'a list" where
  "latest_runs xs = drop (length xs - MAX_HISTORY) xs"

lemma latest_runs_again: "latest_runs (latest_runs xs @ [y]) = latest_runs (xs @ [y])"
proof (cases "length xs \<le> MAX_HISTORY")
  case False
  then have "length (latest_runs xs) = MAX_HISTORY" by (simp add: latest_runs_def)
  moreover have "Suc (length xs - MAX_HISTORY) = Suc (length xs) - MAX_HISTORY" using False by simp
  ultimately show ?thesis using False by (simp add: latest_runs_def)
qed (simp add: latest_runs_def)

lemma push_history_latest: "cst_history (push_history t a b st) = latest_runs (cst_history st @ [\<lparr>cr_at_ms = t, cr_status = a, cr_error = b\<rparr>])"
  by (simp add: push_history_def latest_runs_def Let_def)

definition run_record :: "str \<times> int \<times> handled \<Rightarrow> cron_run" where
  "run_record = (\<lambda>(good, t, r). \<lparr>cr_at_ms = t, cr_status = (case r of Some (Inl e) \<Rightarrow> ''error'' | _ \<Rightarrow> good),
     cr_error = (case r of Some (Inl e) \<Rightarrow> Some e | _ \<Rightarrow> None)\<rparr>)"

text \<open>
  The history of a job holds the outcomes of its latest fifty runs, scheduled and started by hand, oldest first.
\<close>

theorem history_is_recent:
  assumes "length (cst_history (cj_state j)) \<le> MAX_HISTORY"
  shows "cst_history (cj_state (fold (\<lambda>(good, t, r). note_run good t now r) runs j)) = latest_runs (cst_history (cj_state j) @ map run_record runs) \<and>
    length (latest_runs (cst_history (cj_state j) @ map run_record runs)) \<le> 50"
proof -
  have step: "cst_history (cj_state (note_run good t now r j)) = latest_runs (cst_history (cj_state j) @ [run_record (good, t, r)])" for good t r j
    by (simp add: note_run_def Let_def push_history_latest run_record_def)
  have "cst_history (cj_state (fold (\<lambda>(good, t, r). note_run good t now r) runs j)) = latest_runs (cst_history (cj_state j) @ map run_record runs)"
  proof (induction runs rule: rev_induct)
    case Nil
    then show ?case using assms by (simp add: latest_runs_def)
  next
    case (snoc x runs)
    obtain good t r where "x = (good, t, r)" by (cases x)
    then show ?case using snoc step latest_runs_again [of "cst_history (cj_state j) @ map run_record runs" "run_record x"] by simp
  qed
  then show ?thesis by (simp add: latest_runs_def MAX_HISTORY_def)
qed

subsection \<open>Where the code does something else\<close>

text \<open>
  A job that was created for one instant is deleted by its first successful run, also if it has been given a recurring
  schedule since: changing the schedule leaves the mark for deletion.
\<close>

theorem edited_job_deleted:
  assumes "distinct (map cj_id (jobs_of s))" "find_job i (jobs_of s) = Some j" "cj_delete_after_run j"
  shows "i \<notin> cj_id ` set (after_fire lib t fin (Some (Inr out)) i (jobs_of (snd (patch_job lib now True i pt s))))"
proof -
  have mark: "cj_delete_after_run (patch_fields lib now pt k) = cj_delete_after_run k" for k
    by (auto simp: patch_fields_def Let_def split: option.split)
  have fin: "cj_delete_after_run (finish_job lib t fin (Some (Inr out)) k) = cj_delete_after_run k"
    "cst_last_status (cj_state (finish_job lib t fin (Some (Inr out)) k)) = Some ''ok''" for k
    by (auto simp: finish_job_def Let_def)
  have "j = k" if "k \<in> set (jobs_of s)" "cj_id k = i" for k
    using find_job_distinct [OF assms(1) that(1)] that(2) assms(2) by simp
  then have marked: "cj_delete_after_run k" if "k \<in> set (jobs_of s)" "cj_id k = i" for k using that assms(3) by blast
  let ?js = "modify_job i (patch_fields lib now pt) (jobs_of s)"
  have del: "cj_delete_after_run k" if "k \<in> set ?js" "cj_id k = i" for k
    using modify_job_set [OF that(1)]
  proof
    assume "\<exists>m \<in> set (jobs_of s). cj_id m = i \<and> k = patch_fields lib now pt m"
    then show ?thesis using marked mark by blast
  qed (use marked that(2) in blast)
  have d: "distinct (map cj_id ?js)" using assms(1) by (simp add: modify_job_ids)
  have "i \<notin> cj_id ` set (after_fire lib t fin (Some (Inr out)) i ?js)"
  proof
    assume "i \<in> cj_id ` set (after_fire lib t fin (Some (Inr out)) i ?js)"
    then obtain k where "k \<in> set ?js" "cj_id k = i"
      "\<not> cj_delete_after_run (finish_job lib t fin (Some (Inr out)) k) \<or> cst_last_status (cj_state (finish_job lib t fin (Some (Inr out)) k)) \<noteq> Some ''ok''"
      unfolding after_fire_def modify_job_map [OF d] by (auto split: if_splits)
    then show False using del fin by blast
  qed
  then show ?thesis using assms(2) by (simp add: patch_job_def edit_job_def Let_def)
qed

text \<open>
  A file that cannot be loaded, even if only one of its entries cannot be migrated, is replaced by an empty list
  when the service starts.
\<close>

theorem unloadable_file_replaced:
  assumes "load_file now f = Inl e"
  shows "start_service lib started True (new_service now f) =
    (Inr (), \<lparr>sv_store = new_v1, sv_running = True, sv_pending_arm = True, sv_file = Envelope new_v1\<rparr>)"
  using assms by (simp add: start_service_def new_service_def recompute_next_runs_def with_jobs_def new_v1_def)

text \<open>
  An interval that reaches beyond the largest 64-bit number gives a next run in the past, so the job is due at every tick.
\<close>

theorem long_interval_due_at_once:
  assumes "cs_kind sch = ''every''" "cs_every_ms sch = Some ms" "0 \<le> now" "now < 2 ^ 62" "ms < 2 ^ 63" "2 ^ 63 \<le> now + ms"
  shows "\<exists>n. compute_next_run lib sch now = Some n \<and> n < now \<and>
    (cj_enabled j \<longrightarrow> is_due now (set_next_run (compute_next_run lib sch now) j))"
proof -
  have "(now + ms + 2 ^ 63) mod 2 ^ 64 = (now + ms - 2 ^ 63) mod (2 ^ 64 :: int)"
    using mod_add_self2 [of "now + ms - 2 ^ 63" "2 ^ 64 :: int"] by (simp add: add.commute)
  also have "\<dots> = now + ms - 2 ^ 63" using assms(4-6) by (intro mod_pos_pos_trivial) auto
  finally have "wrap_i64 (now + ms) = now + ms - 2 ^ 64" by (simp add: wrap_i64_def)
  moreover have "0 < ms" using assms(4,6) by simp
  ultimately show ?thesis using assms by (auto simp: compute_next_run_def is_due_def)
qed

subsection \<open>Examples\<close>

definition cron_example_lib :: cron_lib where
  "cron_example_lib = \<lparr>cl_parses = (\<lambda>_. True), cl_next = (\<lambda>_ _ now. Some (now + 60000)), cl_zone = (\<lambda>_. True)\<rparr>"

definition once_at :: "int \<Rightarrow> cron_schedule" where
  "once_at t = \<lparr>cs_kind = ''at'', cs_at_ms = Some t, cs_every_ms = None, cs_expr = None, cs_tz = None\<rparr>"

definition each_ms :: "int \<Rightarrow> cron_schedule" where
  "each_ms n = \<lparr>cs_kind = ''every'', cs_at_ms = None, cs_every_ms = Some n, cs_expr = None, cs_tz = None\<rparr>"

definition example_request :: "cron_schedule \<Rightarrow> job_request" where
  "example_request sch = \<lparr>jq_name = ''n'', jq_schedule = sch, jq_message = ''m'', jq_deliver = True, jq_channel = None, jq_to = None,
     jq_session_key = None, jq_max_rounds = None, jq_enabled = True\<rparr>"

definition example_job :: cron_job where
  "example_job = new_job cron_example_lib 0 ''a'' (example_request (once_at 1000))"

definition example_store :: cron_store where
  "example_store = \<lparr>st_version = 1, st_jobs = [example_job]\<rparr>"

definition example_service :: cron_service where
  "example_service = new_service 5000 (Envelope example_store)"

lemma example_jobs: "jobs_of example_service = [example_job]" "cj_id example_job = ''a''" "cj_schedule example_job = once_at 1000"
    "cj_enabled example_job" "cj_delete_after_run example_job" "next_run example_job = Some 1000"
  by (simp_all add: example_service_def new_service_def load_file_def example_store_def example_job_def new_job_def
      example_request_def once_at_def compute_next_run_def)

lemma cron_example_documented: "cron_documented cron_example_lib"
  by (simp add: cron_documented_def cron_example_lib_def)



theorem tick_calls_due_witness:
  "fst (cron_tick cron_example_lib 5000 5001 (\<lambda>_. None) True (\<lambda>_. True) (arm (snd (start_service cron_example_lib 5000 True example_service)))) =
     [set_next_run None (recompute_job cron_example_lib True 5000 example_job)]"
proof -
  let ?s = "arm (snd (start_service cron_example_lib 5000 True example_service))"
  have flags: "\<not> sv_running example_service" "sv_pending_arm example_service" by (simp_all add: example_service_def new_service_def)
  then have s: "jobs_of ?s = [recompute_job cron_example_lib True 5000 example_job]" "sv_running ?s" "\<not> sv_pending_arm ?s"
    using example_jobs by (simp_all add: start_service_def arm_def recompute_next_runs_def Let_def)
  have "distinct (map cj_id (jobs_of ?s))" using s by simp
  from tick_calls_due [OF this] show ?thesis
    using s example_jobs by (simp add: is_due_def recompute_job_def compute_next_run_def once_at_def)
qed

theorem missed_job_called_witness:
  "''a'' \<in> cj_id ` set (fst (cron_tick cron_example_lib 9000 9001 (\<lambda>_. None) True (\<lambda>_. True)
     (arm (snd (start_service cron_example_lib 8000 True (new_service 8000 (Envelope example_store)))))))"
  using missed_job_called [of example_store example_job 1000 9000 _ cron_example_lib 8000 8000 9001 "\<lambda>_. None" True "\<lambda>_. True", OF _ _ _ _ _ _ refl]
    example_jobs by (simp add: example_store_def once_at_def)

theorem history_is_recent_witness:
  "length (cst_history (cj_state (fold (\<lambda>(good, t, r). note_run good t 0 r) (replicate 60 (''ok'', 7, None)) example_job))) \<le> 50"
proof -
  have "length (cst_history (cj_state example_job)) \<le> MAX_HISTORY"
    by (simp add: example_job_def new_job_def empty_state_def)
  from history_is_recent [OF this, of 0 "replicate 60 (''ok'', 7, None)"] show ?thesis by simp
qed

theorem edited_job_deleted_witness:
  "''a'' \<notin> cj_id ` set (after_fire cron_example_lib 7 8 (Some (Inr ''done'')) ''a'' (jobs_of (snd (patch_job cron_example_lib 6 True ''a''
     \<lparr>pt_name = None, pt_schedule = Some (each_ms 60000), pt_message = None, pt_channel = None, pt_to = None, pt_session_key = None,
      pt_enabled = None, pt_max_rounds = None\<rparr> example_service))))"
  by (rule edited_job_deleted [of _ _ example_job]) (simp_all add: example_jobs)

theorem unloadable_file_replaced_witness:
  "sv_file (snd (start_service cron_example_lib 1 True (new_service 0 (Legacy [\<lparr>lj_id = ''x'', lj_name = ''n'', lj_message = ''m'', lj_kind = ''at'',
     lj_every_ms = None, lj_expr = None, lj_deliver = False, lj_to = None, lj_channel = None, lj_enabled = True\<rparr>])))) = Envelope new_v1"
  using unloadable_file_replaced [of 0 "Legacy [\<lparr>lj_id = ''x'', lj_name = ''n'', lj_message = ''m'', lj_kind = ''at'',
     lj_every_ms = None, lj_expr = None, lj_deliver = False, lj_to = None, lj_channel = None, lj_enabled = True\<rparr>]" "UnknownKind 0 ''at''"
     cron_example_lib 1]
  by (simp add: load_file_def migrate_legacy_def legacy_schedule_def)

theorem long_interval_due_at_once_witness:
  "\<exists>n. compute_next_run cron_example_lib (each_ms (2 ^ 63 - 1)) 1000 = Some n \<and> n < 1000"
  using long_interval_due_at_once [of "each_ms (2 ^ 63 - 1)" "2 ^ 63 - 1" 1000 cron_example_lib example_job] by (auto simp: each_ms_def)

end
