(* ===== verification/Spec2Isabelle.thy ===== *)
theory Spec2Isabelle
  imports Pipeline Merkle WorkflowRun SigVerify BoardPlan BoardMatch BoardAudit BoardQuota BoardWake Fallback Router Routing TaskManager WorkflowNodes PeerMerge TurnGuard Outbox CronJobs
begin

text \<open>
  Verification of the core logic of NemesisBot.

  NemesisBot runs tools for language models, distributes work to other nodes, and updates itself from signed
  files.  The development models eight parts of it, each a group of theories: the security pipeline
  every tool call passes (nemesis-security), the verification of signed files (nemesis-verify), the
  scheduler and the nodes of workflows (nemesis-workflow), the board that plans, assigns and reviews work
  (nemesis-board, with the professions of nemesis-prompts), the choice of model providers
  (nemesis-providers), the routing of messages, the life of cluster tasks and the knowledge of other nodes
  (nemesis-routing, nemesis-cluster), scheduled jobs (nemesis-cron), and the guard that ends stuck turns of the agent (nemesis-agent).  All paths below are under src/crates/<crate>/src.

  \<^bold>\<open>Parts and how they interact.\<close>
  \<^item> Security.  A call (tool name, JSON arguments, user, source, metadata) enters \<^verbatim>\<open>execute_tracked\<close>.
    The tool name is mapped to an operation type (types.rs), the target or URL is taken from the arguments.
    The layers run in order; the first denial ends the call.  The third layer asks the auditor
    (auditor.rs), which decides by rules (matcher.rs, command_arity.rs), by the editor switches
    (editor_access.rs), and, when a person has to be asked, by remembered approvals
    (approval_rules.rs), unattended approval (approval_auto.rs) or the approval manager.  The sixth layer
    is the SSRF guard (resolver.rs, ssrf.rs).  A call that passes is appended to the audit chain
    (integrity.rs).  The guardian filter (guardian.rs) selects the calls that a second model reviews; its
    three human gates are operations of the auditor.
  \<^item> Signed files.  The codec of a format (codec.rs, elf.rs, pe.rs) says where the contents of a file end
    and what is hashed; envelope.rs puts a signature into a file and takes it out again; cert.rs orders and
    checks the chain of certificates; verify.rs combines them with revocation (revocation.rs, lib.rs)
    to a result, which c_abi.rs turns into status codes.
  \<^item> Workflows.  scheduler.rs sorts the nodes of a graph into levels and executes the levels; the condition
    of an edge, and the nodes that branch, repeat and question a model, are those of nodes.rs.
  \<^item> Board.  planner.rs reads a plan written by a model; matcher.rs picks the node for a subtask;
    store.rs keeps issues, dispatch records and the audit trail, and asks state_machine.rs and project_state.rs
    whether a change of state is legal; review.rs and fail_streak.rs judge results; quota.rs and arbitrator.rs decide
    who may speak and who is woken.
  \<^item> Providers.  model_ref.rs and factory.rs resolve the name of a model; fallback_provider.rs walks a chain of
    providers, router.rs chooses among candidates; both use the cooldowns of cooldown.rs and the classes of
    errors of failover.rs.
  \<^item> Messages and cluster.  route.rs picks the agent of a message with the identifiers of agent_id.rs and
    session_key.rs; task_manager.rs keeps the tasks sent to other nodes and calls back when they end.
    registry.rs keeps what is known of the nodes; cluster.rs feeds it with announcements, with the identity a node
    reports and with the answers to probes.  outbox.rs keeps the records of work that was done for another node until
    transfer.rs has carried them there; names of files on disk are those of sanitize.rs (nemesis-utils).
  \<^item> Scheduled jobs.  service.rs of nemesis-cron keeps the jobs in the file of store.rs and starts those that are due.
  \<^item> Agent.  Every tool call of a turn passes turn_guard.rs, which loop/tool_batch.rs feeds and asks
    whether the turn has to stop.

  \<^bold>\<open>Theories.\<close>
  \<^item> Prelude: the string functions of the standard library the sources use, list lemmas, and the locale
    \<^verbatim>\<open>transition_invariant\<close> (an invariant of a step relation holds in every reachable state).
  \<^item> SecurityTypes (types.rs): operation types with their slugs, danger levels as a linear order, the
    table of declared tools, \<^verbatim>\<open>tool_to_operation\<close>, \<^verbatim>\<open>extract_target\<close>, \<^verbatim>\<open>extract_url\<close>.
  \<^item> CommandArity (command_arity.rs): tokens, segments of a command line, environment assignments and the
    arity table.  The locale \<^verbatim>\<open>segmenter\<close> states what a splitter of command lines promises for two
    commands joined by a separator; it is interpreted on \<^verbatim>\<open>command_segments\<close> and in Matcher on
    \<^verbatim>\<open>exec_rule_segments\<close>.
  \<^item> Matcher (matcher.rs): path, command and domain patterns with the regular expressions they are
    compiled to, interpreter payloads, and the matching of a rule against the segments of a command.
  \<^item> ApprovalRules (approval_rules.rs and hot_reload.rs of nemesis-config): remembered approvals, from the
    pattern of a target over the file to the lookup.
  \<^item> EditorAccess (editor_access.rs, approval_auto.rs): the two switches as atomic stores.
  \<^item> Guardian (guardian.rs): verdicts of the judge and the filter on destructive terms.
  \<^item> AuditorPolicy (auditor.rs, decisions): the order of the checks, the deny, ask and allow passes and
    self-destruct protection.  The locale \<^verbatim>\<open>rule_verdicts\<close> holds what the passes need of buckets and
    decisions; it is interpreted on the rules of the code.
  \<^item> Auditor (auditor.rs, state): the whole of \<^verbatim>\<open>request_permission_tracked\<close>, the pending requests, the gates
    and the audit log; the operations as a step relation with the invariants \<^verbatim>\<open>ledger\<close> and \<^verbatim>\<open>pending_ok\<close>,
    both by interpreting \<^verbatim>\<open>transition_invariant\<close>.
  \<^item> Merkle (merkle.rs) and AuditChain (integrity.rs): the two integrity structures over an abstract hash
    function.
  \<^item> Ssrf (resolver.rs, ssrf.rs): address classes on words of their width, URL checks, the guard.
  \<^item> Pipeline (pipeline.rs): the plugin and the layers.  The locales \<^verbatim>\<open>layers_frame\<close> and \<^verbatim>\<open>layers_denial\<close> state
    what sequences of layers keep and establish; they are interpreted on the layers of the code.
  \<^item> SigFormat, Codecs, PeFile (hex_util.rs, codec.rs, elf.rs, pe.rs): the formats, the end of the contents
    and the digest of ELF, PE and raw files.  Cms (envelope.rs) and Certs (cert.rs): signature blocks, their
    carriers and chains.  The locale \<^verbatim>\<open>carrier_codec\<close> states what a codec promises the carrier of a signature.
  \<^item> SigVerify (verify.rs, revocation.rs, lib.rs, view.rs, c_abi.rs): the verification of a file.
  \<^item> Scheduler and WorkflowRun (scheduler.rs): the levels of a graph and their execution.
    Conditions and WorkflowNodes (nodes.rs): the evaluation of conditions, a recursion that need not end and
    therefore is a \<^verbatim>\<open>partial_function\<close>; the condition, parallel and loop nodes; the two nodes
    that ask a model.
  \<^item> Professions (professions/meta.rs, subagents.rs of nemesis-prompts), BoardPlan (planner.rs), BoardMatch
    (matcher.rs), BoardFlow (models.rs, state_machine.rs, project_state.rs, review.rs, fail_streak.rs), BoardStore
    and BoardAudit (store.rs), BoardQuota (quota.rs), BoardWake (arbitrator.rs).
  \<^item> Failover (failover.rs, cooldown.rs), Fallback (model_ref.rs, factory.rs, fallback_provider.rs) and Router
    (router.rs) of nemesis-providers.
  \<^item> Routing (nemesis-routing) and TaskManager (task_manager.rs of nemesis-cluster): the latter with the
    operations of two threads interleaved at the granularity of the lock.
  \<^item> PeerRegistry (registry.rs, types.rs) and PeerMerge (cluster.rs) of nemesis-cluster: the registry of nodes with
    a step relation and its invariant, and the operations that change it on news of a node.
  \<^item> SafeName (sanitize.rs of nemesis-utils): file names for untrusted identifiers.  FileTransfer (transfer.rs, and the pushing
    side in outbox.rs): chunks, the receiver of transfers and its step relation, a push over calls that may be lost.  Outbox
    (outbox.rs): entries and rounds, and an outbox together with its receiver as a step relation.
  \<^item> CronJobs (service.rs, store.rs of nemesis-cron): jobs, operations with rollback, the loop as a function and, interleaved with
    the operations, as a step relation.
  \<^item> TurnGuard (turn_guard.rs, loop/tool_batch.rs of nemesis-agent): the counters of a turn and its stop.

  \<^bold>\<open>What is shown.\<close>
  \<^item> Security.  A call may run exactly when all layers accept it, each check reading the state the call began
    with; allowed calls and only they reach the audit chain, denied ones are logged with their reason, an
    unknown tool is treated as running a command.  The auditor allows nothing that a rule forbids
    whatever the order of the rules, chained commands do not weaken rules or remembered approvals, a
    grant has one of four sources, an approval reference stems from a person, counters add up, gates
    fail closed.  Patterns mean what the rules say.  Proofs of the Merkle tree verify and bind, appended
    chains verify and bind up to a collision of the hash function.  Addresses the guard hands out lie
    outside the blocked classes.
  \<^item> Signed files.  What is embedded is extracted again, signing does not change the digest of the
    contents, the chain is ordered from the leaf to a root, and a file is only valid when every check passed.
  \<^item> Workflows.  The levels are a topological order of an acyclic graph and a cycle is reported; a node that runs finds
    the results of the nodes it depends on, and a workflow whose nodes succeed runs to its end.  A
    condition without open placeholders evaluates to the verdict of its resolved text, loops are bounded, the parallel
    node reports the first error, and the answers of a model are only used in the shape that was asked for.
  \<^item> Board.  A plan that is accepted has no cycle and only refers to its own subtasks; the chosen node is eligible
    and the best in the documented order; every change of state of an issue is legal or one of three
    rollbacks and leaves a record; an attempt to post is decided as the history of posts demands.
  \<^item> Providers.  The state of a cooldown is a function of the history of calls, no cooldown lasts longer than a day, a
    chain tries its entries in order and what it answers is given by a reference definition; the router picks a best
    candidate under its policy and rotates fairly.
  \<^item> Messages and cluster.  Canonical identifiers are fixed points, session keys can be read back and tell
    sessions apart where no part contains a colon, the most specific binding wins; the first report on a task wins,
    its callback runs at most once, and a sweep leaves no task stuck.  A peer is offline exactly when its latest
    probes in a row went unanswered often enough, an announcement spares the entries of other nodes, and what a
    user configured of a peer is kept.  What lands in the inbox matches its manifest; a push that
    reports delivery has delivered exactly the files, whatever was lost before; an entry leaves the outbox only then.
  \<^item> Scheduled jobs.  No occurrence of a job is handled twice, a round calls exactly the jobs that are due, a job missed while
    the program was down is called after the start, and an operation whose write fails changes nothing.
  \<^item> Agent.  A turn is stopped exactly when one failure has happened six times, and the reminders are a function of the
    history of outcomes.
  Several theorems describe behaviour that differs from the comments in the code; each says so in its text.

  \<^bold>\<open>Modelling.\<close>
  Strings are lists of 8-bit characters, that is the bytes of the UTF-8 text; \<^verbatim>\<open>to_lowercase\<close> and the
  classes of characters are the ASCII ones, except in BoardWake, whose texts are lists of code points.  Counters are
  words where they can wrap (64 bits in the security counters, the ELF fields and the round-robin counters, 32
  bits in the quotas and in the failures of a peer), addresses are 8-bit and 16-bit words, ports 16-bit words.  The scores of the router, floating-point numbers
  that are only compared, are rationals with \<open>None\<close> for not-a-number.  Errors are values of sum or option
  types, a panic is \<open>None\<close>.  Shared state behind locks is passed explicitly, one critical section at a
  time; where the code uses two separate atomic stores or locks, these are steps of their own.  Messages
  are constructors that carry what the text is formatted from.

  Code outside the sources is a parameter: the regex crate (record \<^verbatim>\<open>regex_lib\<close>, hypothesis
  \<^verbatim>\<open>regex_documented\<close>, shown satisfiable by \<^verbatim>\<open>ref_regex\<close>), JSON and the file system (\<^verbatim>\<open>rules_serde\<close>,
  \<^verbatim>\<open>rules_io\<close>, \<^verbatim>\<open>world\<close>, the decoder of plans), the url and ipnet crates and DNS (\<^verbatim>\<open>net_lib\<close>), SHA-256 (a
  function), the decoders and signature schemes of the cms, der and x509-cert crates (\<^verbatim>\<open>sig_lib\<close>,
  \<^verbatim>\<open>cms_lib\<close>), the network and the clock of the revocation check (\<^verbatim>\<open>rev_env\<close>), what the nodes of a workflow and the
  providers answer (\<^verbatim>\<open>sched_env\<close>, \<^verbatim>\<open>node_env\<close>, \<^verbatim>\<open>llm_env\<close>, \<^verbatim>\<open>chain_env\<close>, \<^verbatim>\<open>chat_world\<close>), the parsing and printing
  of JSON values (\<^verbatim>\<open>json_lib\<close>), the order of iteration of hash maps
  (hypothesis \<^verbatim>\<open>iterates_once\<close>), cron expressions (\<^verbatim>\<open>cron_lib\<close>, hypothesis \<^verbatim>\<open>cron_documented\<close>), SHA-256 and base64 of transfers (\<^verbatim>\<open>xfer_lib\<close>, hypothesis \<^verbatim>\<open>base64_documented\<close>), which remote call
  fails (\<^verbatim>\<open>fate\<close>), the tables of Unicode, the clock and fresh identifiers, the approval manager, and the
  engines of the other layers (\<^verbatim>\<open>engines\<close>).

  Recursion terminates by proof throughout, apart from the evaluation of conditions, whose value \<open>None\<close> is a
  call that never returns; that it returns for resolved conditions is a theorem.  Fuel is used in three places: \<^verbatim>\<open>proof_loop\<close>, with the number of
  leaves, which the completeness theorem of the proofs shows to be enough; the enumeration of nested
  signatures, with 9, which is the bound \<^verbatim>\<open>MAX_NESTED_DEPTH\<close> of the code itself; the walk over the parents
  of an issue, with 64, again a bound of the code.

  \<^bold>\<open>Not modelled.\<close>
  The inside of the injection, command, script, credential, DLP and virus engines; file rotation, export, user
  interface, and the failures of network and database crates; the anchors and the prompts of the
  board; the nodes of a workflow that only call a service; discovery and transport of the cluster, and its
  configuration files; of the agent loop everything but the guard of a turn; configuration
  files.  These are input and output around external services, regular expressions over contents, or glue.
\<close>

end
